(* ===== verification/Sbi_Prelude.thy ===== *)
theory Sbi_Prelude
  imports Main "HOL-Library.Word"
begin

text \<open>
  Shared vocabulary of the development: the C integer types of the firmware at their widths
  (the SDK builds the firmware with \<^verbatim>\<open>XLEN := 64\<close>, little endian), the error codes of
  \<^verbatim>\<open>include/sbi/sbi_error.h\<close>, reads and writes of C objects with an explicit out-of-bounds
  case, and the word and list lemmas that the components share.
\<close>

unbundle bit_operations_syntax

section \<open>C types\<close>

type_synonym u8 = "8 word"
type_synonym u16 = "16 word"
type_synonym u32 = "32 word"
type_synonym ulong = "64 word"
type_synonym hartid = nat

named_theorems sbi_ops \<open>definitions of firmware operations, unfolded by the component proofs\<close>
named_theorems sbi_macros \<open>preprocessor constants\<close>

section \<open>Error codes\<close>

abbreviation (input) SBI_OK :: int where "SBI_OK \<equiv> 0"
abbreviation (input) SBI_EFAIL :: int where "SBI_EFAIL \<equiv> - 1"
abbreviation (input) SBI_ENOTSUPP :: int where "SBI_ENOTSUPP \<equiv> - 2"
abbreviation (input) SBI_EINVAL :: int where "SBI_EINVAL \<equiv> - 3"
abbreviation (input) SBI_EDENIED :: int where "SBI_EDENIED \<equiv> - 4"
abbreviation (input) SBI_EINVALID_ADDR :: int where "SBI_EINVALID_ADDR \<equiv> - 5"
abbreviation (input) SBI_EALREADY :: int where "SBI_EALREADY \<equiv> - 6"
abbreviation (input) SBI_EALREADY_STARTED :: int where "SBI_EALREADY_STARTED \<equiv> - 7"
abbreviation (input) SBI_EALREADY_STOPPED :: int where "SBI_EALREADY_STOPPED \<equiv> - 8"
abbreviation (input) SBI_LAST_ERR :: int where "SBI_LAST_ERR \<equiv> SBI_EALREADY_STOPPED"
abbreviation (input) SBI_ENODEV :: int where "SBI_ENODEV \<equiv> - 1000"
abbreviation (input) SBI_EILL :: int where "SBI_EILL \<equiv> - 1004"
abbreviation (input) SBI_ENOSPC :: int where "SBI_ENOSPC \<equiv> - 1005"
abbreviation (input) SBI_ENOMEM :: int where "SBI_ENOMEM \<equiv> - 1006"
abbreviation (input) SBI_ETRAP :: int where "SBI_ETRAP \<equiv> - 1007"
abbreviation (input) SBI_ENOENT :: int where "SBI_ENOENT \<equiv> - 1009"

section \<open>Words\<close>

lemma unat_less_width: "unat (w :: 'a::len word) < 2 ^ LENGTH('a)"
  by (rule unsigned_less)

lemma uint_int_unat: "uint (w :: 'a::len word) = int (unat w)"
  by simp

lemma unat_add_no_wrap:
  "unat (a :: 'a::len word) + unat b < 2 ^ LENGTH('a) \<Longrightarrow> unat (a + b) = unat a + unat b"
  by (simp add: unat_word_ariths)

lemma unat_inc_no_wrap:
  "unat (a :: 'a::len word) + 1 < 2 ^ LENGTH('a) \<Longrightarrow> unat (a + 1) = unat a + 1"
  using unat_add_no_wrap [of a 1] by simp

lemma unat_ucast_up [simp]:
  "LENGTH('a) \<le> LENGTH('b) \<Longrightarrow> unat (ucast (x :: 'a::len word) :: 'b::len word) = unat x"
  by (simp add: unsigned_ucast_eq take_bit_nat_eq_self_iff
      order.strict_trans2 [OF unat_less_width [of x] power_increasing])

lemma unat_take_bit: "unat (take_bit n (a :: ulong)) = unat a mod 2 ^ n"
  unfolding unsigned_take_bit_eq by (simp add: take_bit_eq_mod)

lemma unat_align_down: "unat (a AND NOT (mask n) :: ulong) = unat a div 2 ^ n * 2 ^ n"
proof -
  have "a AND NOT (mask n) = push_bit n (drop_bit n a)"
    by (rule bit_word_eqI) (auto simp: bit_simps)
  then have "(a AND NOT (mask n)) + take_bit n a = a" by (simp add: bits_ident)
  then have "a AND NOT (mask n) = a - take_bit n a" by (simp add: eq_diff_eq)
  moreover have "take_bit n a \<le> a" by (simp add: word_le_nat_alt unat_take_bit)
  ultimately show ?thesis by (simp add: unat_sub unat_take_bit minus_mod_eq_div_mult)
qed

lemma aligned_iff: "(b :: ulong) AND mask n = 0 \<longleftrightarrow> 2 ^ n dvd unat b"
  by (simp add: word_unat_eq_iff take_bit_eq_mask [symmetric] unat_take_bit dvd_eq_mod_eq_0)

section \<open>Slices of lists\<close>

text \<open>\<open>cells xs o n\<close> are the \<open>n\<close> cells of \<open>xs\<close> from offset \<open>o\<close>; \<open>splice\<close> overwrites them.\<close>

definition cells :: "'a list \<Rightarrow> nat \<Rightarrow> nat \<Rightarrow> 'a list" where
  "cells xs off n = take n (drop off xs)"

definition splice_at :: "'a list \<Rightarrow> nat \<Rightarrow> 'a list \<Rightarrow> 'a list" where
  "splice_at xs off ys = take off xs @ ys @ drop (off + length ys) xs"

lemma length_cells [simp]: "off + n \<le> length xs \<Longrightarrow> length (cells xs off n) = n"
  by (simp add: cells_def)

lemma length_splice_at [simp]:
  "off + length ys \<le> length xs \<Longrightarrow> length (splice_at xs off ys) = length xs"
  by (simp add: splice_at_def)

lemma nth_cells [simp]: "off + n \<le> length xs \<Longrightarrow> i < n \<Longrightarrow> cells xs off n ! i = xs ! (off + i)"
  by (simp add: cells_def)

lemma nth_splice_at:
  assumes "off + length ys \<le> length xs" and "i < length xs"
  shows "splice_at xs off ys ! i =
    (if off \<le> i \<and> i < off + length ys then ys ! (i - off) else xs ! i)"
  using assms by (auto simp: splice_at_def nth_append)

lemma cells_splice_same [simp]:
  "off + length ys \<le> length xs \<Longrightarrow> n = length ys \<Longrightarrow> cells (splice_at xs off ys) off n = ys"
  by (simp add: cells_def splice_at_def)

lemma cells_splice_disjoint:
  assumes "off + length ys \<le> length xs" and "a + n \<le> length xs"
    and "a + n \<le> off \<or> off + length ys \<le> a"
  shows "cells (splice_at xs off ys) a n = cells xs a n"
proof (rule nth_equalityI)
  show "length (cells (splice_at xs off ys) a n) = length (cells xs a n)"
    using assms by simp
  fix i assume "i < length (cells (splice_at xs off ys) a n)"
  with assms have i: "i < n" by simp
  then have "splice_at xs off ys ! (a + i) = xs ! (a + i)"
    using assms by (subst nth_splice_at) auto
  with i assms show "cells (splice_at xs off ys) a n ! i = cells xs a n ! i" by simp
qed

lemma slots_disjoint:
  fixes i j e :: nat
  assumes "i \<noteq> j"
  shows "i * e + e \<le> j * e \<or> j * e + e \<le> i * e"
proof (cases "i < j")
  case True
  then have "Suc i * e \<le> j * e" by (intro mult_le_mono1) simp
  then show ?thesis by simp
next
  case False
  with assms have "Suc j * e \<le> i * e" by (intro mult_le_mono1) simp
  then show ?thesis by simp
qed

lemma slot_in_range: "(i::nat) < n \<Longrightarrow> i * e + e \<le> n * e"
  using mult_le_mono1 [of "Suc i" n e] by simp

section \<open>The C type int\<close>

text \<open>The value of a wider or unsigned expression converted to \<^verbatim>\<open>int\<close>.\<close>

definition int32 :: "int \<Rightarrow> int" where
  "int32 x = signed_take_bit 31 x"

lemma int32_id: "- (2 ^ 31) \<le> x \<Longrightarrow> x < 2 ^ 31 \<Longrightarrow> int32 x = x"
  by (simp add: int32_def signed_take_bit_int_eq_self)

lemma int32_range: "- 2147483648 \<le> int32 x" "int32 x < 2147483648"
  using signed_take_bit_int_greater_eq_minus_exp [of 31 x] signed_take_bit_int_less_exp [of 31 x]
  by (simp_all add: int32_def)

end
