(* ===== verification/Riscv_Locks.thy ===== *)
theory Riscv_Locks
  imports Sbi_Prelude
begin

text \<open>
  The ticket spin lock of \<^verbatim>\<open>lib/sbi/riscv_locks.c\<close>, at the level of its 32-bit lock word and of
  the registers of the assembly sequences, and the system of harts that contend for one lock.
  The system is a step relation: one step is one atomic instruction of one hart (the
  \<^verbatim>\<open>amoadd\<close>, one LR/SC round that succeeds or gives up, the compare of the spin loop, the reload
  of the lock word, the load and the store of the unlock), so the steps of different harts
  interleave freely and a hart may compare a stale copy of the lock word.
\<close>

section \<open>The lock word\<close>

type_synonym spinlock = u32

definition TICKET_SHIFT :: nat where
  "TICKET_SHIFT = 16"

definition lock_owner :: "spinlock \<Rightarrow> u16" where
  "lock_owner w = ucast w"

definition lock_next :: "spinlock \<Rightarrow> u16" where
  "lock_next w = ucast (drop_bit TICKET_SHIFT w)"

definition SPIN_LOCK_UNLOCKED :: spinlock where
  "SPIN_LOCK_UNLOCKED = 0"

definition spin_lock_unlocked :: "spinlock \<Rightarrow> bool" where
  "spin_lock_unlocked w \<longleftrightarrow> lock_owner w = lock_next w"

definition spin_lock_check :: "spinlock \<Rightarrow> bool" where
  "spin_lock_check w \<longleftrightarrow> \<not> spin_lock_unlocked w"

text \<open>
  \<^verbatim>\<open>spin_trylock\<close>: the result is \<^verbatim>\<open>l0 == 0\<close>. On the free path \<^verbatim>\<open>l0\<close> is the status of the
  successful store-conditional (zero); on the busy path it still holds the loaded lock word.
\<close>

definition spin_trylock :: "spinlock \<Rightarrow> bool \<times> spinlock" where
  "spin_trylock w =
     (let inc = push_bit TICKET_SHIFT 1;
          mask = push_bit TICKET_SHIFT 0xffff;
          tmp2 = push_bit TICKET_SHIFT w AND mask;
          tmp1 = w AND mask
      in if tmp1 = tmp2 then (True, w + inc) else (w = 0, w))"

text \<open>\<^verbatim>\<open>spin_lock\<close>: the \<^verbatim>\<open>amoadd.w\<close>, the extraction of the ticket, and the test of the loop.\<close>

definition spin_lock_amoadd :: "spinlock \<Rightarrow> u32 \<times> spinlock" where
  "spin_lock_amoadd w = (w, w + push_bit TICKET_SHIFT 1)"

definition spin_lock_ticket :: "u32 \<Rightarrow> u32" where
  "spin_lock_ticket l0 = drop_bit TICKET_SHIFT l0 AND 0xffff"

definition spin_lock_mine :: "u32 \<Rightarrow> u32 \<Rightarrow> bool" where
  "spin_lock_mine tk l0 \<longleftrightarrow> tk = l0 AND 0xffff"

text \<open>\<^verbatim>\<open>spin_unlock\<close>: a 16-bit load of \<^verbatim>\<open>owner\<close> and a 16-bit release store of \<^verbatim>\<open>owner + 1\<close>.\<close>

definition spin_unlock_store :: "u16 \<Rightarrow> spinlock \<Rightarrow> spinlock" where
  "spin_unlock_store v w = (w AND NOT 0xffff) OR ucast v"

definition spin_unlock :: "spinlock \<Rightarrow> spinlock" where
  "spin_unlock w = spin_unlock_store (lock_owner w + 1) w"

section \<open>Harts contending for the lock\<close>

text \<open>
  Where a hart is: outside, in the spin loop with its ticket and its copy of the lock word, in
  the critical section, or in the middle of \<^verbatim>\<open>spin_unlock\<close> with the value it will store. The
  lists \<open>taken\<close> and \<open>entered\<close> record in which order harts drew tickets and entered.
\<close>

datatype lock_pc = Outside | Spinning u32 u32 | Critical | Releasing u16

record lock_sys =
  lock_word :: spinlock
  lock_pcs :: "hartid \<Rightarrow> lock_pc"
  taken :: "hartid list"
  entered :: "hartid list"

definition lock_init :: lock_sys where
  "lock_init = \<lparr>lock_word = SPIN_LOCK_UNLOCKED, lock_pcs = (\<lambda>_. Outside), taken = [], entered = []\<rparr>"

inductive lock_step :: "nat \<Rightarrow> lock_sys \<Rightarrow> lock_sys \<Rightarrow> bool" for N where
  amoadd: "i < N \<Longrightarrow> lock_pcs s i = Outside \<Longrightarrow> spin_lock_amoadd (lock_word s) = (l0, w') \<Longrightarrow>
     lock_step N s (s\<lparr>lock_word := w', lock_pcs := (lock_pcs s)(i := Spinning (spin_lock_ticket l0) l0),
       taken := taken s @ [i]\<rparr>)"
| try_acquire: "i < N \<Longrightarrow> lock_pcs s i = Outside \<Longrightarrow> spin_trylock (lock_word s) = (True, w') \<Longrightarrow>
     lock_step N s (s\<lparr>lock_word := w', lock_pcs := (lock_pcs s)(i := Critical),
       taken := taken s @ [i], entered := entered s @ [i]\<rparr>)"
| try_busy: "i < N \<Longrightarrow> lock_pcs s i = Outside \<Longrightarrow> spin_trylock (lock_word s) = (False, w') \<Longrightarrow>
     lock_step N s (s\<lparr>lock_word := w'\<rparr>)"
| enter: "lock_pcs s i = Spinning tk l0 \<Longrightarrow> spin_lock_mine tk l0 \<Longrightarrow>
     lock_step N s (s\<lparr>lock_pcs := (lock_pcs s)(i := Critical), entered := entered s @ [i]\<rparr>)"
| reload: "lock_pcs s i = Spinning tk l0 \<Longrightarrow> \<not> spin_lock_mine tk l0 \<Longrightarrow>
     lock_step N s (s\<lparr>lock_pcs := (lock_pcs s)(i := Spinning tk (lock_word s))\<rparr>)"
| unlock_load: "lock_pcs s i = Critical \<Longrightarrow>
     lock_step N s (s\<lparr>lock_pcs := (lock_pcs s)(i := Releasing (lock_owner (lock_word s) + 1))\<rparr>)"
| unlock_store: "lock_pcs s i = Releasing v \<Longrightarrow>
     lock_step N s (s\<lparr>lock_word := spin_unlock_store v (lock_word s),
       lock_pcs := (lock_pcs s)(i := Outside)\<rparr>)"

inductive lock_reachable :: "nat \<Rightarrow> lock_sys \<Rightarrow> bool" for N where
  start: "lock_reachable N lock_init"
| step: "lock_reachable N s \<Longrightarrow> lock_step N s t \<Longrightarrow> lock_reachable N t"

fun holds_lock :: "lock_pc \<Rightarrow> bool" where
  "holds_lock Critical = True"
| "holds_lock (Releasing v) = True"
| "holds_lock pc = False"

section \<open>Arithmetic of the lock word\<close>

lemmas lock_word_defs = lock_owner_def lock_next_def TICKET_SHIFT_def

lemma lock_owner_inc [simp]: "lock_owner (w + 2 ^ TICKET_SHIFT) = lock_owner w"
  by (simp add: lock_word_defs word_uint_eq_iff unsigned_ucast_eq take_bit_eq_mod uint_word_ariths
      mod_add_eq push_bit_eq_mult) (simp add: mod_mod_cancel)

lemma lock_next_inc [simp]: "lock_next (w + 2 ^ TICKET_SHIFT) = lock_next w + 1"
proof -
  have "((uint w + 65536) mod (65536 * 65536)) div 65536 = ((uint w + 65536) div 65536) mod 65536"
    by (subst zmod_zmult2_eq) simp_all
  then have "((uint w + 65536) mod 4294967296) div 65536 mod 65536
      = (uint w div 65536 mod 65536 + 1) mod 65536"
    by (simp add: div_add_self2 mod_simps)
  then show ?thesis
    by (simp add: lock_word_defs word_uint_eq_iff unsigned_ucast_eq take_bit_eq_mod uint_word_ariths
        push_bit_eq_mult drop_bit_eq_div uint_div mod_simps)
qed

lemma low_half_mask: "(0xffff :: u32) = mask TICKET_SHIFT"
  by (simp add: TICKET_SHIFT_def mask_eq_exp_minus_1)

lemma lock_owner_store [simp]: "lock_owner (spin_unlock_store v w) = v"
  unfolding lock_word_defs spin_unlock_store_def low_half_mask
  by (rule bit_word_eqI) (simp add: bit_simps)

lemma lock_next_store [simp]: "lock_next (spin_unlock_store v w) = lock_next w"
  unfolding lock_word_defs spin_unlock_store_def low_half_mask
  by (rule bit_word_eqI) (auto simp add: bit_simps dest: bit_imp_le_length)

lemma spin_lock_ticket_eq: "spin_lock_ticket l0 = ucast (lock_next l0)"
  unfolding lock_word_defs spin_lock_ticket_def low_half_mask
  by (rule bit_word_eqI) (auto simp add: bit_simps dest: bit_imp_le_length)

lemma spin_lock_mine_iff: "spin_lock_mine (ucast t) l0 \<longleftrightarrow> t = lock_owner l0"
proof -
  have "l0 AND 0xffff = ucast (lock_owner l0)"
    unfolding lock_word_defs low_half_mask
    by (rule bit_word_eqI) (auto simp add: bit_simps dest: bit_imp_le_length)
  moreover have "(ucast t :: u32) = ucast (lock_owner l0) \<longleftrightarrow> t = lock_owner l0"
    by (auto dest!: arg_cong [where f = "ucast :: u32 \<Rightarrow> u16"] simp: ucast_up_ucast_id is_up)
  ultimately show ?thesis by (simp add: spin_lock_mine_def)
qed

lemma spin_trylock_eq:
  "spin_trylock w = (if spin_lock_unlocked w then (True, w + 2 ^ TICKET_SHIFT) else (False, w))"
proof -
  have "(w AND push_bit TICKET_SHIFT 0xffff = push_bit TICKET_SHIFT w AND push_bit TICKET_SHIFT 0xffff)
      \<longleftrightarrow> lock_owner w = lock_next w"
  proof
    assume eq: "w AND push_bit TICKET_SHIFT 0xffff = push_bit TICKET_SHIFT w AND push_bit TICKET_SHIFT 0xffff"
    show "lock_owner w = lock_next w"
    proof (rule bit_word_eqI)
      fix n assume "n < LENGTH(16)"
      with arg_cong [OF eq, of "\<lambda>x. bit x (n + 16)"]
      show "bit (lock_owner w) n = bit (lock_next w) n"
        by (simp add: low_half_mask lock_word_defs bit_simps add.commute)
    qed
  next
    assume eq: "lock_owner w = lock_next w"
    show "w AND push_bit TICKET_SHIFT 0xffff = push_bit TICKET_SHIFT w AND push_bit TICKET_SHIFT 0xffff"
    proof (rule bit_word_eqI)
      fix n assume "n < LENGTH(32)"
      with arg_cong [OF eq, of "\<lambda>x. bit x (n - 16)"]
      show "bit (w AND push_bit TICKET_SHIFT 0xffff) n =
          bit (push_bit TICKET_SHIFT w AND push_bit TICKET_SHIFT 0xffff) n"
        by (auto simp add: low_half_mask lock_word_defs bit_simps)
    qed
  qed
  moreover have "w \<noteq> 0" if "\<not> spin_lock_unlocked w"
    using that by (auto simp: spin_lock_unlocked_def lock_word_defs)
  ultimately show ?thesis
    by (auto simp: spin_trylock_def spin_lock_unlocked_def Let_def)
qed

section \<open>The queue behind the lock word\<close>

text \<open>
  Invariant: the lock word describes a queue of harts, the distance between \<^verbatim>\<open>next\<close> and
  \<^verbatim>\<open>owner\<close>. The hart at position \<open>j\<close> has the ticket \<open>owner + j\<close>; its copy of the lock word is at
  most so stale that tickets have not wrapped since; only position 0 may hold the lock.
\<close>

fun waits_at :: "u16 \<Rightarrow> nat \<Rightarrow> lock_pc \<Rightarrow> bool" where
  "waits_at own j (Spinning tk l0) \<longleftrightarrow>
     tk = ucast (own + of_nat j) \<and> (\<exists>k. lock_owner l0 + of_nat k = own \<and> j + k < 65536)"
| "waits_at own j Critical \<longleftrightarrow> j = 0"
| "waits_at own j (Releasing v) \<longleftrightarrow> j = 0 \<and> v = own + 1"
| "waits_at own j Outside \<longleftrightarrow> False"

definition lock_queue :: "nat \<Rightarrow> lock_sys \<Rightarrow> hartid list \<Rightarrow> bool" where
  "lock_queue N s q \<longleftrightarrow>
     distinct q \<and> set q \<subseteq> {..<N} \<and>
     lock_next (lock_word s) = lock_owner (lock_word s) + of_nat (length q) \<and>
     (\<forall>i. i \<notin> set q \<longrightarrow> lock_pcs s i = Outside) \<and>
     (\<forall>j < length q. waits_at (lock_owner (lock_word s)) j (lock_pcs s (q ! j))) \<and>
     (\<exists>d. taken s = d @ q \<and>
        entered s = d @ (if q \<noteq> [] \<and> holds_lock (lock_pcs s (hd q)) then [hd q] else []))"

lemma lock_queueD:
  assumes "lock_queue N s q"
  shows "distinct q" and "set q \<subseteq> {..<N}"
    and "lock_next (lock_word s) = lock_owner (lock_word s) + of_nat (length q)"
    and "i \<notin> set q \<Longrightarrow> lock_pcs s i = Outside"
    and "j < length q \<Longrightarrow> waits_at (lock_owner (lock_word s)) j (lock_pcs s (q ! j))"
    and "\<exists>d. taken s = d @ q \<and>
        entered s = d @ (if q \<noteq> [] \<and> holds_lock (lock_pcs s (hd q)) then [hd q] else [])"
  using assms by (auto simp: lock_queue_def)

lemma lock_queue_mem:
  assumes "lock_queue N s q" and "lock_pcs s i \<noteq> Outside"
  obtains j where "j < length q" and "q ! j = i"
    and "waits_at (lock_owner (lock_word s)) j (lock_pcs s i)"
proof -
  from lock_queueD(4) [OF assms(1)] assms(2) have "i \<in> set q" by blast
  then obtain j where "j < length q" and "q ! j = i" by (auto simp: in_set_conv_nth)
  with lock_queueD(5) [OF assms(1)] show ?thesis by (auto intro: that)
qed

lemma lock_queue_outside:
  assumes "lock_queue N s q" and "lock_pcs s i = Outside"
  shows "i \<notin> set q"
  using lock_queueD(5) [OF assms(1)] assms(2) by (fastforce simp: in_set_conv_nth)

lemma lock_queue_length: "lock_queue N s q \<Longrightarrow> length q \<le> N"
  using card_mono [of "{..<N}" "set q"] by (auto simp: lock_queue_def distinct_card)

lemma lock_queue_room:
  assumes "lock_queue N s q" and "i < N" and "i \<notin> set q"
  shows "length q < N"
proof -
  from assms have "card (set q) < card {..<N}"
    by (intro psubset_card_mono) (auto simp: lock_queue_def)
  with assms(1) show ?thesis by (simp add: lock_queue_def distinct_card)
qed

lemma of_nat_u16_eq_0: "n < 65536 \<Longrightarrow> (of_nat n :: u16) = 0 \<longleftrightarrow> n = 0"
  by (auto simp: word_of_nat_eq_0_iff dest: dvd_imp_le)

lemma lock_queue_free:
  assumes "lock_queue N s q" and "N < 65536" and "spin_lock_unlocked (lock_word s)"
  shows "q = []"
proof -
  from assms have "(of_nat (length q) :: u16) = 0"
    by (auto simp: spin_lock_unlocked_def dest: lock_queueD(3))
  moreover have "length q < 65536" using lock_queue_length [OF assms(1)] assms(2) by simp
  ultimately show ?thesis by (simp add: of_nat_u16_eq_0)
qed

lemma mine_is_head:
  assumes "waits_at own j (Spinning tk l0)" and "spin_lock_mine tk l0"
  shows "j = 0"
proof -
  from assms(1) obtain k where tk: "tk = ucast (own + of_nat j)"
    and k: "lock_owner l0 + of_nat k = own" "j + k < 65536" by auto
  from tk assms(2) have "own + of_nat j = lock_owner l0" by (simp add: spin_lock_mine_iff)
  with k(1) have "lock_owner l0 + (of_nat k + of_nat j) = lock_owner l0 + 0"
    by (simp flip: add.assoc)
  then have "(of_nat (j + k) :: u16) = 0"
    by (simp add: add.commute)
  with of_nat_u16_eq_0 [OF k(2)] show ?thesis by simp
qed

lemma lock_queue_amoadd:
  assumes q: "lock_queue N s q" and N: "N < 65536"
    and i: "i < N" "lock_pcs s i = Outside" and l: "spin_lock_amoadd (lock_word s) = (l0, w')"
  shows "lock_queue N (s\<lparr>lock_word := w',
      lock_pcs := (lock_pcs s)(i := Spinning (spin_lock_ticket l0) l0), taken := taken s @ [i]\<rparr>) (q @ [i])"
proof -
  have iq: "i \<notin> set q" by (rule lock_queue_outside [OF q i(2)])
  have len: "length q < N" by (rule lock_queue_room [OF q i(1) iq])
  from l have w: "l0 = lock_word s" "w' = lock_word s + 2 ^ TICKET_SHIFT"
    by (auto simp: spin_lock_amoadd_def)
  have last: "waits_at (lock_owner (lock_word s)) (length q) (Spinning (spin_lock_ticket l0) l0)"
    using len N lock_queueD(3) [OF q] by (auto simp: w spin_lock_ticket_eq intro: exI [of _ 0])
  have wait: "waits_at (lock_owner (lock_word s)) j
      (((lock_pcs s)(i := Spinning (spin_lock_ticket l0) l0)) ((q @ [i]) ! j))"
    if "j < Suc (length q)" for j
    using that last lock_queueD(5) [OF q, of j] iq by (auto simp: nth_append less_Suc_eq)
  show ?thesis
    using lock_queueD [OF q] iq i wait
    unfolding lock_queue_def w by (auto simp: hd_append algebra_simps w)
qed

lemma lock_queue_try:
  assumes q: "lock_queue N s q" and N: "N < 65536"
    and i: "i < N" "lock_pcs s i = Outside" and l: "spin_trylock (lock_word s) = (True, w')"
  shows "lock_queue N (s\<lparr>lock_word := w', lock_pcs := (lock_pcs s)(i := Critical),
      taken := taken s @ [i], entered := entered s @ [i]\<rparr>) [i]"
proof -
  from l have free: "spin_lock_unlocked (lock_word s)"
    and w: "w' = lock_word s + 2 ^ TICKET_SHIFT"
    by (auto simp: spin_trylock_eq split: if_splits)
  from lock_queue_free [OF q N free] have "q = []" .
  then show ?thesis
    using lock_queueD [OF q] i free unfolding lock_queue_def w
    by (auto simp: spin_lock_unlocked_def)
qed

lemma lock_queue_enter:
  assumes q: "lock_queue N s q"
    and i: "lock_pcs s i = Spinning tk l0" "spin_lock_mine tk l0"
  shows "lock_queue N (s\<lparr>lock_pcs := (lock_pcs s)(i := Critical), entered := entered s @ [i]\<rparr>) q"
proof -
  from i(1) have "lock_pcs s i \<noteq> Outside" by simp
  then obtain j where j: "j < length q" "q ! j = i"
    and wt: "waits_at (lock_owner (lock_word s)) j (lock_pcs s i)"
    by (rule lock_queue_mem [OF q])
  from wt have "waits_at (lock_owner (lock_word s)) j (Spinning tk l0)" by (simp only: i(1))
  from mine_is_head [OF this i(2)] have "j = 0" .
  with j have hd: "hd q = i" "q \<noteq> []" by (auto simp: hd_conv_nth)
  have "waits_at (lock_owner (lock_word s)) m (((lock_pcs s)(i := Critical)) (q ! m))"
    if "m < length q" for m
    using that lock_queueD(5) [OF q that] nth_eq_iff_index_eq [OF lock_queueD(1) [OF q] that j(1)]
      \<open>j = 0\<close> j(2) by auto
  then show ?thesis
    using lock_queueD [OF q] hd i j unfolding lock_queue_def by auto
qed

lemma lock_queue_reload:
  assumes q: "lock_queue N s q" and N: "N < 65536" and i: "lock_pcs s i = Spinning tk l0"
  shows "lock_queue N (s\<lparr>lock_pcs := (lock_pcs s)(i := Spinning tk (lock_word s))\<rparr>) q"
proof -
  from i have "lock_pcs s i \<noteq> Outside" by simp
  then obtain j where j: "j < length q" "q ! j = i"
    and wt: "waits_at (lock_owner (lock_word s)) j (lock_pcs s i)"
    by (rule lock_queue_mem [OF q])
  have "j < 65536" using j(1) lock_queue_length [OF q] N by simp
  with wt have now: "waits_at (lock_owner (lock_word s)) j (Spinning tk (lock_word s))"
    by (auto simp: i intro: exI [of _ 0])
  have "waits_at (lock_owner (lock_word s)) m
      (((lock_pcs s)(i := Spinning tk (lock_word s))) (q ! m))" if "m < length q" for m
    using that lock_queueD(5) [OF q that] nth_eq_iff_index_eq [OF lock_queueD(1) [OF q] that j(1)]
      now j(2) by auto
  moreover have "holds_lock (((lock_pcs s)(i := Spinning tk (lock_word s))) (hd q)) =
      holds_lock (lock_pcs s (hd q))" using i by simp
  ultimately show ?thesis
    using lock_queueD [OF q] i j unfolding lock_queue_def by auto
qed

lemma lock_queue_unlock_load:
  assumes q: "lock_queue N s q" and i: "lock_pcs s i = Critical"
  shows "lock_queue N (s\<lparr>lock_pcs := (lock_pcs s)(i := Releasing (lock_owner (lock_word s) + 1))\<rparr>) q"
proof -
  from i have "lock_pcs s i \<noteq> Outside" by simp
  then obtain j where j: "j < length q" "q ! j = i"
    and wt: "waits_at (lock_owner (lock_word s)) j (lock_pcs s i)"
    by (rule lock_queue_mem [OF q])
  from wt i have "j = 0" by simp
  have "waits_at (lock_owner (lock_word s)) m
      (((lock_pcs s)(i := Releasing (lock_owner (lock_word s) + 1))) (q ! m))"
    if "m < length q" for m
    using that lock_queueD(5) [OF q that] nth_eq_iff_index_eq [OF lock_queueD(1) [OF q] that j(1)]
      \<open>j = 0\<close> j(2) by auto
  then show ?thesis
    using lock_queueD [OF q] i j unfolding lock_queue_def by auto
qed

lemma waits_at_next:
  assumes "waits_at own (Suc j) pc"
  shows "waits_at (own + 1) j pc"
proof (cases pc)
  case (Spinning tk l0)
  from assms obtain k where "tk = ucast (own + of_nat (Suc j))"
    and "lock_owner l0 + of_nat k = own" "Suc j + k < 65536" unfolding Spinning by auto
  then have "tk = ucast (own + 1 + of_nat j) \<and> lock_owner l0 + of_nat (Suc k) = own + 1 \<and> j + Suc k < 65536"
    by (auto simp: algebra_simps)
  then show ?thesis unfolding Spinning waits_at.simps by blast
qed (use assms in auto)

lemma lock_queue_unlock_store:
  assumes q: "lock_queue N s q" and i: "lock_pcs s i = Releasing v"
  shows "q \<noteq> [] \<and> hd q = i \<and> lock_queue N (s\<lparr>lock_word := spin_unlock_store v (lock_word s),
      lock_pcs := (lock_pcs s)(i := Outside)\<rparr>) (tl q)"
proof -
  from i have "lock_pcs s i \<noteq> Outside" by simp
  then obtain j where j: "j < length q" "q ! j = i"
    and wt: "waits_at (lock_owner (lock_word s)) j (lock_pcs s i)"
    by (rule lock_queue_mem [OF q])
  from wt i have "j = 0" and v: "v = lock_owner (lock_word s) + 1" by auto
  with j obtain r where r: "q = i # r" by (cases q) auto
  have ir: "i \<notin> set r" using lock_queueD(1) [OF q] r by simp
  have "waits_at v m (((lock_pcs s)(i := Outside)) (r ! m))" if "m < length r" for m
    using waits_at_next lock_queueD(5) [OF q, of "Suc m"] that ir by (auto simp: r v)
  moreover from lock_queueD(6) [OF q] i obtain d where "taken s = d @ [i] @ r" "entered s = d @ [i]"
    by (auto simp: r)
  moreover have "\<not> holds_lock (lock_pcs s (hd r))" if "r \<noteq> []"
    using lock_queueD(5) [OF q, of 1] that
    by (cases "lock_pcs s (hd r)") (auto simp: r hd_conv_nth)
  ultimately have "lock_queue N (s\<lparr>lock_word := spin_unlock_store v (lock_word s),
      lock_pcs := (lock_pcs s)(i := Outside)\<rparr>) r"
    using lock_queueD(1-4) [OF q] ir unfolding lock_queue_def
    by (auto simp: r v add.assoc)
  then show ?thesis by (simp add: r)
qed

section \<open>Mutual exclusion, order and progress\<close>

lemma lock_step_queue:
  assumes "lock_step N s t" and "lock_queue N s q" and "N < 65536"
  shows "\<exists>q'. lock_queue N t q'"
  using assms
proof (induction rule: lock_step.induct)
  case (try_busy i s w')
  then have "s\<lparr>lock_word := w'\<rparr> = s" by (auto simp: spin_trylock_eq split: if_splits)
  with try_busy show ?case by metis
qed (blast intro: lock_queue_amoadd lock_queue_try lock_queue_enter lock_queue_reload
  lock_queue_unlock_load dest: lock_queue_unlock_store)+

lemma lock_init_queue: "lock_queue N lock_init []"
  by (simp add: lock_queue_def lock_init_def SPIN_LOCK_UNLOCKED_def lock_word_defs)

lemma lock_reachable_queue: "lock_reachable N s \<Longrightarrow> N < 65536 \<Longrightarrow> \<exists>q. lock_queue N s q"
  by (induction rule: lock_reachable.induct) (blast intro: lock_init_queue lock_step_queue)+

lemma holds_lock_head:
  assumes "lock_queue N s q" and "holds_lock (lock_pcs s i)"
  shows "q \<noteq> [] \<and> i = hd q"
proof -
  from assms(2) have "lock_pcs s i \<noteq> Outside" by auto
  then obtain j where "j < length q" "q ! j = i"
    and "waits_at (lock_owner (lock_word s)) j (lock_pcs s i)"
    by (rule lock_queue_mem [OF assms(1)])
  with assms(2) show ?thesis by (cases "lock_pcs s i") (auto simp: hd_conv_nth)
qed

lemma via_step: "lock_step N s t \<Longrightarrow> P t \<Longrightarrow> \<exists>t. (lock_step N)\<^sup>*\<^sup>* s t \<and> P t"
  by blast

lemma head_can_enter:
  assumes q: "lock_queue N s q" and ne: "q \<noteq> []" and N: "N < 65536"
    and pc: "lock_pcs s (hd q) = Spinning tk l0"
  shows "\<exists>t. (lock_step N)\<^sup>*\<^sup>* s t \<and> lock_queue N t q \<and> lock_pcs t = (lock_pcs s)(hd q := Critical)"
proof (cases "spin_lock_mine tk l0")
  case True
  then show ?thesis
    by (intro via_step [OF lock_step.enter [OF pc True]] conjI lock_queue_enter [OF q pc True]) simp
next
  case False
  let ?s' = "s\<lparr>lock_pcs := (lock_pcs s)(hd q := Spinning tk (lock_word s))\<rparr>"
  have step: "lock_step N s ?s'" by (rule lock_step.reload [OF pc False])
  have q': "lock_queue N ?s' q" by (rule lock_queue_reload [OF q N pc])
  have pc': "lock_pcs ?s' (hd q) = Spinning tk (lock_word s)" by simp
  have mine: "spin_lock_mine tk (lock_word s)"
    using lock_queueD(5) [OF q, of 0] ne pc by (auto simp: hd_conv_nth spin_lock_mine_iff)
  have "\<exists>t. (lock_step N)\<^sup>*\<^sup>* ?s' t \<and> lock_queue N t q \<and> lock_pcs t = (lock_pcs s)(hd q := Critical)"
    by (intro via_step [OF lock_step.enter [OF pc' mine]] conjI lock_queue_enter [OF q' pc' mine]) simp
  with step show ?thesis by (blast intro: converse_rtranclp_into_rtranclp)
qed

lemma holder_can_leave:
  assumes q: "lock_queue N s q" and ne: "q \<noteq> []" and pc: "holds_lock (lock_pcs s (hd q))"
  shows "\<exists>t. (lock_step N)\<^sup>*\<^sup>* s t \<and> lock_queue N t (tl q) \<and> lock_pcs t = (lock_pcs s)(hd q := Outside)"
proof -
  have leave: "\<exists>t. (lock_step N)\<^sup>*\<^sup>* s' t \<and> lock_queue N t (tl q) \<and> lock_pcs t = (lock_pcs s')(hd q := Outside)"
    if "lock_queue N s' q" "lock_pcs s' (hd q) = Releasing v" for s' v
    by (rule via_step [OF lock_step.unlock_store [OF that(2)]]) (use lock_queue_unlock_store [OF that] in simp)
  show ?thesis
  proof (cases "lock_pcs s (hd q)")
    case Critical
    let ?s' = "s\<lparr>lock_pcs := (lock_pcs s)(hd q := Releasing (lock_owner (lock_word s) + 1))\<rparr>"
    have step: "lock_step N s ?s'" by (rule lock_step.unlock_load [OF Critical])
    have "\<exists>t. (lock_step N)\<^sup>*\<^sup>* ?s' t \<and> lock_queue N t (tl q) \<and> lock_pcs t = (lock_pcs s)(hd q := Outside)"
      using leave [OF lock_queue_unlock_load [OF q Critical], of "lock_owner (lock_word s) + 1"] by simp
    with step show ?thesis by (blast intro: converse_rtranclp_into_rtranclp)
  qed (use pc leave [OF q] in auto)
qed

lemma spinner_can_enter:
  assumes "lock_queue N s q" and "N < 65536" and "j < length q"
    and "lock_pcs s (q ! j) = Spinning tk l0"
  shows "\<exists>t. (lock_step N)\<^sup>*\<^sup>* s t \<and> lock_pcs t (q ! j) = Critical"
  using assms(1,3,4)
proof (induction j arbitrary: s q)
  case 0
  then show ?case using head_can_enter [OF 0(1) _ assms(2)] by (fastforce simp: hd_conv_nth)
next
  case (Suc j)
  then have ne: "q \<noteq> []" by auto
  have other: "q ! Suc j \<noteq> hd q"
    using lock_queueD(1) [OF Suc.prems(1)] Suc.prems(2) ne by (cases q) (auto simp: in_set_conv_nth)
  have "waits_at (lock_owner (lock_word s)) 0 (lock_pcs s (hd q))"
    using lock_queueD(5) [OF Suc.prems(1), of 0] ne by (simp add: hd_conv_nth)
  then have "holds_lock (lock_pcs s (hd q)) \<or> (\<exists>tk l0. lock_pcs s (hd q) = Spinning tk l0)"
    by (cases "lock_pcs s (hd q)") auto
  then obtain t where t: "(lock_step N)\<^sup>*\<^sup>* s t" "lock_queue N t q" "holds_lock (lock_pcs t (hd q))"
    "lock_pcs t (q ! Suc j) = lock_pcs s (q ! Suc j)"
    using head_can_enter [OF Suc.prems(1) ne assms(2)] Suc.prems(1) other by fastforce
  from holder_can_leave [OF t(2) ne t(3)] obtain u where u: "(lock_step N)\<^sup>*\<^sup>* t u"
    "lock_queue N u (tl q)" "lock_pcs u = (lock_pcs t)(hd q := Outside)" by blast
  have "\<exists>v. (lock_step N)\<^sup>*\<^sup>* u v \<and> lock_pcs v (tl q ! j) = Critical"
    using u t Suc.prems other by (intro Suc.IH) (auto simp: nth_tl)
  with t(1) u(1) Suc.prems(2) show ?case by (auto simp: nth_tl intro: rtranclp_trans)
qed

text \<open>A concrete run of two harts: hart 0 takes the free lock, hart 1 draws the next ticket.\<close>

definition lock_example :: lock_sys where
  "lock_example = \<lparr>lock_word = 0x20000,
     lock_pcs = (\<lambda>_. Outside)(0 := Critical, 1 := Spinning 1 0x10000), taken = [0, 1], entered = [0]\<rparr>"

lemma lock_example_reachable: "lock_reachable 2 lock_example"
proof -
  let ?s1 = "lock_init\<lparr>lock_word := 0x10000, lock_pcs := (lock_pcs lock_init)(0 := Critical),
    taken := taken lock_init @ [0], entered := entered lock_init @ [0]\<rparr>"
  have "lock_step 2 lock_init ?s1"
    by (rule lock_step.try_acquire)
      (simp_all add: lock_init_def SPIN_LOCK_UNLOCKED_def spin_trylock_def TICKET_SHIFT_def)
  with lock_reachable.start have "lock_reachable 2 ?s1" by (rule lock_reachable.step)
  moreover have "lock_step 2 ?s1 (?s1\<lparr>lock_word := 0x20000,
      lock_pcs := (lock_pcs ?s1)(1 := Spinning (spin_lock_ticket 0x10000) 0x10000), taken := taken ?s1 @ [1]\<rparr>)"
    by (rule lock_step.amoadd) (simp_all add: lock_init_def spin_lock_amoadd_def TICKET_SHIFT_def)
  ultimately have "lock_reachable 2 (?s1\<lparr>lock_word := 0x20000,
      lock_pcs := (lock_pcs ?s1)(1 := Spinning (spin_lock_ticket 0x10000) 0x10000), taken := taken ?s1 @ [1]\<rparr>)"
    by (rule lock_reachable.step)
  then show ?thesis
    by (simp add: lock_example_def lock_init_def spin_lock_ticket_def TICKET_SHIFT_def)
qed

text \<open>
  C8. Mutual exclusion of the ticket lock: in every state that fewer than 65536 harts can reach by
  interleaving the instructions of \<^verbatim>\<open>spin_lock\<close>, \<^verbatim>\<open>spin_trylock\<close> and \<^verbatim>\<open>spin_unlock\<close>, at most one
  hart is between its acquisition and the store that releases the lock, although the 16-bit
  tickets wrap around and the spin loop may compare a stale lock word.
\<close>

theorem spin_lock_mutual_exclusion:
  assumes "N < 65536" and "lock_reachable N s"
    and "holds_lock (lock_pcs s i)" and "holds_lock (lock_pcs s j)"
  shows "i = j"
  using lock_reachable_queue [OF assms(2,1)] holds_lock_head assms(3,4) by metis

theorem spin_lock_mutual_exclusion_witness:
  "\<forall>j. holds_lock (lock_pcs lock_example j) = (j = 0)"
proof
  fix j
  have "holds_lock (lock_pcs lock_example 0)" by (simp add: lock_example_def)
  then show "holds_lock (lock_pcs lock_example j) = (j = 0)"
    using spin_lock_mutual_exclusion [OF _ lock_example_reachable, of j 0] by auto
qed

text \<open>
  C34. The lock is fair and cannot deadlock: harts enter in exactly the order in which they drew
  their tickets, and from every reachable state each hart in the spin loop can still be brought
  into the critical section.
\<close>

theorem spin_lock_fifo_progress:
  assumes "N < 65536" and "lock_reachable N s"
  shows "(\<exists>waiting. taken s = entered s @ waiting) \<and>
    (lock_pcs s i = Spinning tk l0 \<longrightarrow> (\<exists>t. (lock_step N)\<^sup>*\<^sup>* s t \<and> lock_pcs t i = Critical))"
proof (intro conjI impI)
  from lock_reachable_queue [OF assms(2,1)] obtain q where q: "lock_queue N s q" by blast
  then show "\<exists>waiting. taken s = entered s @ waiting"
    by (auto dest!: lock_queueD(6) split: if_splits) (metis append_Cons append_Nil hd_Cons_tl)
  assume pc: "lock_pcs s i = Spinning tk l0"
  then have "lock_pcs s i \<noteq> Outside" by simp
  then obtain j where "j < length q" "q ! j = i" by (rule lock_queue_mem [OF q])
  with spinner_can_enter [OF q assms(1), of j tk l0] pc
  show "\<exists>t. (lock_step N)\<^sup>*\<^sup>* s t \<and> lock_pcs t i = Critical" by auto
qed

theorem spin_lock_fifo_progress_witness:
  "taken lock_example = entered lock_example @ [1] \<and>
   (\<exists>t. (lock_step 2)\<^sup>*\<^sup>* lock_example t \<and> lock_pcs t 1 = Critical)"
proof
  show "taken lock_example = entered lock_example @ [1]" by (simp add: lock_example_def)
  have "lock_pcs lock_example 1 = Spinning 1 0x10000" by (simp add: lock_example_def)
  then show "\<exists>t. (lock_step 2)\<^sup>*\<^sup>* lock_example t \<and> lock_pcs t 1 = Critical"
    using spin_lock_fifo_progress [OF _ lock_example_reachable, where i = 1 and tk = 1 and ?l0.0 = "0x10000"] by simp
qed

end
