(* ===== verification/Sbi_String.thy ===== *)
theory Sbi_String
  imports Sbi_Prelude
begin

text \<open>
  The C library routines of \<^verbatim>\<open>lib/sbi/sbi_string.c\<close>. A C object is the list of its bytes and a
  pointer into it is an offset, or the suffix of the object that it points to; plain \<^verbatim>\<open>char\<close> is
  unsigned on RISC-V. Every routine returns \<open>None\<close> when it would read or write outside the
  object, so a \<open>Some\<close> result also says that the access stayed in bounds. The loops count down a
  \<^verbatim>\<open>size_t\<close> and are recursions on that counter.
\<close>

type_synonym bytes = "u8 list"

section \<open>Strings\<close>

fun sbi_strcmp :: "bytes \<Rightarrow> bytes \<Rightarrow> int option" where
  "sbi_strcmp (a # as) (b # bs) =
     (if a = b \<and> a \<noteq> 0 then sbi_strcmp as bs else Some (uint a - uint b))"
| "sbi_strcmp _ _ = None"

fun sbi_strncmp :: "bytes \<Rightarrow> bytes \<Rightarrow> nat \<Rightarrow> int option" where
  "sbi_strncmp as bs 0 = Some 0"
| "sbi_strncmp (a # as) (b # bs) (Suc n) =
     (if a = b \<and> a \<noteq> 0 then sbi_strncmp as bs n else Some (uint a - uint b))"
| "sbi_strncmp _ _ (Suc n) = None"

fun strlen_loop :: "ulong \<Rightarrow> bytes \<Rightarrow> ulong option" where
  "strlen_loop ret [] = None"
| "strlen_loop ret (c # cs) = (if c \<noteq> 0 then strlen_loop (ret + 1) cs else Some ret)"

definition sbi_strlen :: "bytes \<Rightarrow> ulong option" where
  "sbi_strlen str = strlen_loop 0 str"

fun strnlen_loop :: "bytes \<Rightarrow> ulong \<Rightarrow> ulong \<Rightarrow> ulong option" where
  "strnlen_loop [] ret count = None"
| "strnlen_loop (c # cs) ret count =
     (if c \<noteq> 0 \<and> ret < count then strnlen_loop cs (ret + 1) (count - 1) else Some ret)"

definition sbi_strnlen :: "bytes \<Rightarrow> ulong \<Rightarrow> ulong option" where
  "sbi_strnlen str count = strnlen_loop str 0 count"

fun strcpy_loop :: "bytes \<Rightarrow> nat \<Rightarrow> bytes \<Rightarrow> bytes option" where
  "strcpy_loop dest d [] = None"
| "strcpy_loop dest d (c # cs) =
     (if c = 0 then Some dest
      else if d < length dest then strcpy_loop (dest[d := c]) (Suc d) cs else None)"

definition sbi_strcpy :: "bytes \<Rightarrow> bytes \<Rightarrow> bytes option" where
  "sbi_strcpy dest src = strcpy_loop dest 0 src"

fun strncpy_loop :: "bytes \<Rightarrow> nat \<Rightarrow> bytes \<Rightarrow> nat \<Rightarrow> bytes option" where
  "strncpy_loop dest d src 0 = Some dest"
| "strncpy_loop dest d [] (Suc n) = None"
| "strncpy_loop dest d (c # cs) (Suc n) =
     (if c = 0 then Some dest
      else if d < length dest then strncpy_loop (dest[d := c]) (Suc d) cs n else None)"

definition sbi_strncpy :: "bytes \<Rightarrow> bytes \<Rightarrow> nat \<Rightarrow> bytes option" where
  "sbi_strncpy dest src count = strncpy_loop dest 0 src count"

text \<open>\<open>Some None\<close> is the \<^verbatim>\<open>NULL\<close> result, \<open>Some (Some i)\<close> the pointer \<^verbatim>\<open>s + i\<close>.\<close>

fun strchr_loop :: "nat \<Rightarrow> bytes \<Rightarrow> u8 \<Rightarrow> nat option option" where
  "strchr_loop i [] c = None"
| "strchr_loop i (x # xs) c =
     (if x \<noteq> 0 \<and> x \<noteq> c then strchr_loop (Suc i) xs c
      else if x = 0 then Some None else Some (Some i))"

definition sbi_strchr :: "bytes \<Rightarrow> int \<Rightarrow> nat option option" where
  "sbi_strchr s c = strchr_loop 0 s (word_of_int c)"

fun strrchr_loop :: "bytes \<Rightarrow> u8 \<Rightarrow> nat \<Rightarrow> nat" where
  "strrchr_loop s c 0 = 0"
| "strrchr_loop s c (Suc p) = (if s ! Suc p \<noteq> c then strrchr_loop s c p else Suc p)"

definition sbi_strrchr :: "bytes \<Rightarrow> int \<Rightarrow> nat option option" where
  "sbi_strrchr s c =
     (case sbi_strlen s of
        None \<Rightarrow> None
      | Some n \<Rightarrow>
          let p = strrchr_loop s (word_of_int c) (unat n)
          in Some (if s ! p \<noteq> word_of_int c then None else Some p))"

section \<open>Memory blocks\<close>

fun sbi_memset :: "bytes \<Rightarrow> nat \<Rightarrow> int \<Rightarrow> nat \<Rightarrow> bytes option" where
  "sbi_memset m temp c 0 = Some m"
| "sbi_memset m temp c (Suc count) =
     (if temp < length m then sbi_memset (m[temp := word_of_int c]) (Suc temp) c count else None)"

fun sbi_memcpy :: "bytes \<Rightarrow> nat \<Rightarrow> bytes \<Rightarrow> nat \<Rightarrow> nat \<Rightarrow> bytes option" where
  "sbi_memcpy dest temp1 src temp2 0 = Some dest"
| "sbi_memcpy dest temp1 src temp2 (Suc count) =
     (if temp1 < length dest \<and> temp2 < length src
      then sbi_memcpy (dest[temp1 := src ! temp2]) (Suc temp1) src (Suc temp2) count
      else None)"

text \<open>\<^verbatim>\<open>sbi_memmove\<close> works inside one object, so that source and destination may overlap.\<close>

fun memmove_up :: "bytes \<Rightarrow> nat \<Rightarrow> nat \<Rightarrow> nat \<Rightarrow> bytes option" where
  "memmove_up m temp1 temp2 0 = Some m"
| "memmove_up m temp1 temp2 (Suc count) =
     (if temp1 < length m \<and> temp2 < length m
      then memmove_up (m[temp1 := m ! temp2]) (Suc temp1) (Suc temp2) count else None)"

fun memmove_down :: "bytes \<Rightarrow> nat \<Rightarrow> nat \<Rightarrow> nat \<Rightarrow> bytes option" where
  "memmove_down m dest src 0 = Some m"
| "memmove_down m dest src (Suc count) =
     (if dest + count < length m \<and> src + count < length m
      then memmove_down (m[dest + count := m ! (src + count)]) dest src count else None)"

definition sbi_memmove :: "bytes \<Rightarrow> nat \<Rightarrow> nat \<Rightarrow> nat \<Rightarrow> bytes option" where
  "sbi_memmove m dest src count =
     (if src = dest then Some m
      else if dest < src then memmove_up m dest src count
      else memmove_down m dest src count)"

fun sbi_memcmp :: "bytes \<Rightarrow> bytes \<Rightarrow> nat \<Rightarrow> int option" where
  "sbi_memcmp s1 s2 0 = Some 0"
| "sbi_memcmp (a # s1) (b # s2) (Suc count) =
     (if a = b then sbi_memcmp s1 s2 count else Some (uint a - uint b))"
| "sbi_memcmp _ _ (Suc count) = None"

fun memchr_loop :: "nat \<Rightarrow> bytes \<Rightarrow> u8 \<Rightarrow> nat \<Rightarrow> nat option option" where
  "memchr_loop i s c 0 = Some None"
| "memchr_loop i [] c (Suc count) = None"
| "memchr_loop i (x # xs) c (Suc count) =
     (if c = x then Some (Some i) else memchr_loop (Suc i) xs c count)"

definition sbi_memchr :: "bytes \<Rightarrow> int \<Rightarrow> nat \<Rightarrow> nat option option" where
  "sbi_memchr s c count = memchr_loop 0 s (word_of_int c) count"

section \<open>Memory blocks: what the loops compute\<close>

lemma splice_at_step:
  "off < length m \<Longrightarrow> splice_at (m[off := y]) (Suc off) ys = splice_at m off (y # ys)"
  by (simp add: splice_at_def take_Suc_conv_app_nth)

lemma sbi_memset_eq:
  "off + n \<le> length m \<Longrightarrow> sbi_memset m off c n = Some (splice_at m off (replicate n (word_of_int c)))"
proof (induction n arbitrary: m off)
  case 0
  then show ?case by (simp add: splice_at_def)
next
  case (Suc n)
  then show ?case by (simp add: splice_at_step)
qed

lemma cells_Suc: "off < length xs \<Longrightarrow> cells xs off (Suc n) = xs ! off # cells xs (Suc off) n"
  by (simp add: cells_def Cons_nth_drop_Suc [symmetric])

lemma sbi_memcpy_eq:
  "off + n \<le> length m \<Longrightarrow> soff + n \<le> length src \<Longrightarrow>
    sbi_memcpy m off src soff n = Some (splice_at m off (cells src soff n))"
proof (induction n arbitrary: m off soff)
  case 0
  then show ?case by (simp add: splice_at_def cells_def)
next
  case (Suc n)
  then show ?case by (simp add: splice_at_step cells_Suc)
qed

lemma sbi_memcpy_bounds:
  "sbi_memcpy m off src soff n = Some m' \<Longrightarrow> 0 < n \<Longrightarrow> off + n \<le> length m \<and> soff + n \<le> length src"
proof (induction n arbitrary: m off soff)
  case 0
  then show ?case by simp
next
  case (Suc n)
  then show ?case by (cases n) (fastforce split: if_splits)+
qed

lemma cells_update_below: "i < off \<Longrightarrow> cells (xs[i := v]) off n = cells xs off n"
  by (simp add: cells_def)

lemma memmove_up_eq:
  assumes "d < s" and "s + n \<le> length m"
  shows "memmove_up m d s n = Some (splice_at m d (cells m s n))"
  using assms
proof (induction n arbitrary: m d s)
  case 0
  then show ?case by (simp add: splice_at_def cells_def)
next
  case (Suc n)
  then show ?case by (simp add: splice_at_step cells_Suc cells_update_below)
qed

lemma cells_snoc: "off + n < length xs \<Longrightarrow> cells xs off (Suc n) = cells xs off n @ [xs ! (off + n)]"
  by (simp add: cells_def take_Suc_conv_app_nth)

lemma cells_update_above: "off + n \<le> i \<Longrightarrow> cells (xs[i := v]) off n = cells xs off n"
  by (simp add: cells_def drop_update_swap)

lemma splice_at_snoc:
  assumes "off + length ys < length m"
  shows "splice_at (m[off + length ys := y]) off ys = splice_at m off (ys @ [y])"
  using assms by (simp add: splice_at_def drop_update_swap) (simp add: Cons_nth_drop_Suc [symmetric])

lemma memmove_down_eq:
  assumes "s < d" and "d + n \<le> length m"
  shows "memmove_down m d s n = Some (splice_at m d (cells m s n))"
  using assms
proof (induction n arbitrary: m)
  case 0
  then show ?case by (simp add: splice_at_def cells_def)
next
  case (Suc n)
  then have "splice_at (m[d + n := m ! (s + n)]) d (cells m s n) = splice_at m d (cells m s n @ [m ! (s + n)])"
    using splice_at_snoc [of d "cells m s n" m] by simp
  with Suc show ?case by (simp add: cells_snoc cells_update_above)
qed

lemma splice_cells_same: "off + n \<le> length m \<Longrightarrow> splice_at m off (cells m off n) = m"
  by (simp add: splice_at_def cells_def) (metis append_take_drop_id drop_drop add.commute)

text \<open>
  \<^verbatim>\<open>sbi_memmove\<close> copies the source block as it was before the call, whether or not source
  and destination overlap and in whichever direction, changes nothing else and never leaves the
  object, on every call whose two blocks lie in the object.
\<close>

theorem sbi_memmove_copies:
  assumes "dest + count \<le> length m" and "src + count \<le> length m"
  shows "sbi_memmove m dest src count = Some (splice_at m dest (cells m src count))"
  using assms by (auto simp: sbi_memmove_def memmove_up_eq memmove_down_eq splice_cells_same)

theorem sbi_memmove_copies_witness:
  "sbi_memmove [1, 2, 3, 4, 5] 1 0 3 = Some [1, 1, 2, 3, 5]"
  using sbi_memmove_copies [of 1 3 "[1, 2, 3, 4, 5]" 0] by (simp add: splice_at_def cells_def)

section \<open>Strings: what the loops compute\<close>

text \<open>A C string is a list of non-zero bytes followed by the terminator.\<close>

definition no_nul :: "bytes \<Rightarrow> bool" where
  "no_nul s \<longleftrightarrow> 0 \<notin> set s"

lemma no_nul_simps [simp]: "no_nul []" "no_nul (c # s) \<longleftrightarrow> c \<noteq> 0 \<and> no_nul s"
  by (auto simp: no_nul_def)

lemma strlen_loop_eq: "no_nul s \<Longrightarrow> strlen_loop ret (s @ 0 # r) = Some (ret + of_nat (length s))"
  by (induction s arbitrary: ret) (simp_all add: algebra_simps)

lemma sbi_strlen_eq: "no_nul s \<Longrightarrow> sbi_strlen (s @ 0 # r) = Some (of_nat (length s))"
  by (simp add: sbi_strlen_def strlen_loop_eq)

lemma strcpy_loop_eq:
  "no_nul s \<Longrightarrow> d + length s \<le> length dest \<Longrightarrow> strcpy_loop dest d (s @ 0 # r) = Some (splice_at dest d s)"
proof (induction s arbitrary: dest d)
  case Nil
  then show ?case by (simp add: splice_at_def)
next
  case (Cons c s)
  then show ?case by (simp add: splice_at_step)
qed

lemma strrchr_loop_max:
  "strrchr_loop s c n \<le> n \<and> (\<forall>i. strrchr_loop s c n < i \<and> i \<le> n \<longrightarrow> s ! i \<noteq> c) \<and>
    (s ! strrchr_loop s c n = c \<or> strrchr_loop s c n = 0)"
  by (induction n) (auto simp: le_Suc_eq)

text \<open>
  \<^verbatim>\<open>sbi_strcmp\<close> on two terminated strings reads nothing past their terminators, returns 0
  exactly on equal strings, and a negative value exactly when the first string is
  lexicographically smaller as a sequence of unsigned bytes.
\<close>

theorem sbi_strcmp_order:
  assumes "no_nul s" and "no_nul t"
  shows "\<exists>r. sbi_strcmp (s @ 0 # xs) (t @ 0 # ys) = Some r \<and> (r = 0 \<longleftrightarrow> s = t) \<and>
    (r < 0 \<longleftrightarrow> (s, t) \<in> lexord {(a, b). a < b})"
  using assms
proof (induction s arbitrary: t)
  case Nil
  then show ?case
    by (cases t) (auto simp: word_less_def uint_0_iff order_less_le)
next
  case (Cons a s)
  show ?case
  proof (cases t)
    case Nil
    with Cons.prems show ?thesis
      by (auto simp: uint_0_iff order_less_le not_less)
  next
    case (Cons b u)
    with Cons.prems Cons.IH [of u] show ?thesis
      by (cases "a = b") (auto simp: word_less_def word_uint_eq_iff)
  qed
qed

theorem sbi_strcmp_order_witness:
  "sbi_strcmp [97, 98, 0] [97, 99, 0] = Some (- 1) \<and> ([97, 98], [97, 99 :: u8]) \<in> lexord {(a, b). a < b}"
  using sbi_strcmp_order [of "[97, 98]" "[97, 99]" "[]" "[]"] by simp

text \<open>
  \<^verbatim>\<open>sbi_strnlen\<close> increments its result and decrements the bound in the same loop, so on a
  string of length \<open>n\<close> it returns the minimum of \<open>n\<close> and \<^emph>\<open>half\<close> the bound, rounded up, where
  \<^verbatim>\<open>strnlen\<close> is specified to return the minimum of \<open>n\<close> and the bound.
\<close>

theorem sbi_strnlen_halves:
  assumes "no_nul s"
  shows "sbi_strnlen (s @ 0 # r) count = Some (of_nat (min (length s) ((unat count + 1) div 2)))"
proof -
  have "strnlen_loop (s @ 0 # r) ret (of_nat c) = Some (ret + of_nat (min (length s) ((c - unat ret + 1) div 2)))"
    if "c < 2 ^ 64" "unat ret \<le> c + 1" for ret c
    using assms that
  proof (induction s arbitrary: ret c)
    case Nil
    then show ?case by simp
  next
    case (Cons x s)
    show ?case
    proof (cases "unat ret < c")
      case False
      then have "\<not> ret < of_nat c" using Cons.prems by (simp add: word_less_nat_alt unat_of_nat)
      with False Cons.prems show ?thesis by auto
    next
      case True
      then have lt: "ret < of_nat c" using Cons.prems by (simp add: word_less_nat_alt unat_of_nat)
      have ret: "unat (ret + 1) = unat ret + 1"
        using True Cons.prems(2) by (intro unat_inc_no_wrap) simp
      have c: "(of_nat c - 1 :: ulong) = of_nat (c - 1)" using True by (cases c) simp_all
      have "strnlen_loop (s @ 0 # r) (ret + 1) (of_nat (c - 1)) =
          Some (ret + 1 + of_nat (min (length s) ((c - 1 - unat (ret + 1) + 1) div 2)))"
        using Cons.prems True ret by (intro Cons.IH) auto
      moreover have "min (length (x # s)) ((c - unat ret + 1) div 2) =
          Suc (min (length s) ((c - 1 - unat (ret + 1) + 1) div 2))"
      proof -
        from True obtain d where d: "c = unat ret + Suc d" using less_iff_Suc_add by auto
        show ?thesis unfolding ret d by (cases d) (simp_all add: min_def)
      qed
      moreover have "strnlen_loop ((x # s) @ 0 # r) ret (of_nat c) =
          strnlen_loop (s @ 0 # r) (ret + 1) (of_nat (c - 1))"
        unfolding c [symmetric] using lt Cons.prems(1) by simp
      ultimately show ?thesis by (simp only: of_nat_Suc add.assoc)
    qed
  qed
  from this [of "unat count" 0] unat_less_width [of count] show ?thesis
    by (simp add: sbi_strnlen_def)
qed

theorem sbi_strnlen_halves_witness: "sbi_strnlen [97, 98, 99, 100, 0] 4 = Some 2"
  using sbi_strnlen_halves [of "[97, 98, 99, 100]" "[]" 4] by simp

text \<open>
  \<^verbatim>\<open>sbi_strcpy\<close> copies the characters of the source but never its terminator: the byte of the
  destination behind the copied characters keeps its old value, so the result is a terminated
  string only when that byte already was zero.
\<close>

theorem sbi_strcpy_unterminated:
  assumes "no_nul s" and "length s < length dest"
  shows "\<exists>dest'. sbi_strcpy dest (s @ 0 # r) = Some dest' \<and>
    take (length s) dest' = s \<and> drop (length s) dest' = drop (length s) dest"
  using assms by (simp add: sbi_strcpy_def strcpy_loop_eq splice_at_def)

theorem sbi_strcpy_unterminated_witness:
  "\<exists>dest'. sbi_strcpy [120, 120, 120] [97, 98, 0] = Some dest' \<and>
    take 2 dest' = [97, 98] \<and> drop 2 dest' = [120]"
  using sbi_strcpy_unterminated [of "[97, 98]" "[120, 120, 120]" "[]"] by (simp flip: numeral_2_eq_2)

lemma sbi_memcmp_eq:
  "n \<le> length s1 \<Longrightarrow> n \<le> length s2 \<Longrightarrow>
    \<exists>r. sbi_memcmp s1 s2 n = Some r \<and> (r = 0 \<longleftrightarrow> take n s1 = take n s2)"
proof (induction s1 s2 n rule: sbi_memcmp.induct)
  case (2 a s1 b s2 count)
  then show ?case by (auto simp: word_uint_eq_iff)
qed auto

lemma sbi_strrchr_last:
  assumes "no_nul s" and "length s < 2 ^ 64"
  shows "\<exists>res. sbi_strrchr (s @ 0 # r) c = Some res \<and>
    (case res of None \<Rightarrow> word_of_int c \<notin> set (s @ [0])
     | Some p \<Rightarrow> p \<le> length s \<and> (s @ [0]) ! p = word_of_int c \<and>
         (\<forall>i. p < i \<and> i \<le> length s \<longrightarrow> (s @ [0]) ! i \<noteq> word_of_int c))"
proof -
  let ?t = "s @ 0 # r" and ?p = "strrchr_loop (s @ 0 # r) (word_of_int c) (length s)"
  have nth: "(s @ [0]) ! i = ?t ! i" if "i \<le> length s" for i
    using that by (auto simp: nth_append nth_Cons')
  have mx: "?p \<le> length s" "\<And>i. ?p < i \<Longrightarrow> i \<le> length s \<Longrightarrow> ?t ! i \<noteq> word_of_int c"
    "?t ! ?p = word_of_int c \<or> ?p = 0"
    using strrchr_loop_max [of ?t "word_of_int c" "length s"] by auto
  have "word_of_int c \<notin> set (s @ [0])" if "?t ! ?p \<noteq> word_of_int c"
  proof
    assume "word_of_int c \<in> set (s @ [0])"
    then obtain i where "i < length (s @ [0])" "(s @ [0]) ! i = word_of_int c"
      by (metis in_set_conv_nth)
    then have "i \<le> length s" "?t ! i = word_of_int c" using nth [of i] by auto
    with mx(2) [of i] mx(3) that show False by (cases "i = 0") auto
  qed
  then show ?thesis
    using mx nth assms by (auto simp: sbi_strrchr_def sbi_strlen_eq unat_of_nat Let_def)
qed

end
