(* ===== verification/Sbi_Fifo.thy ===== *)
theory Sbi_Fifo
  imports Sbi_String Riscv_Locks
begin

text \<open>
  The locked ring buffer of \<^verbatim>\<open>lib/sbi/sbi_fifo.c\<close>, byte by byte: \<open>fifo_queue\<close> is the memory area
  of \<^verbatim>\<open>num_entries * entry_size\<close> bytes, entries are copied in and out with \<^verbatim>\<open>sbi_memcpy\<close> and the
  indices are computed at the C widths. Each operation runs from the moment its caller owns
  \<^verbatim>\<open>qlock\<close> (theory \<open>Riscv_Locks\<close> proves that this caller is alone) and the model takes and
  releases that lock on every path. Pointer arguments that the code tests against \<^verbatim>\<open>NULL\<close> are
  options; the outer option is \<open>None\<close> where the code would access memory out of bounds.

  The interface \<open>bounded_queue\<close> says what a client may rely on; the ring buffer interprets it.
\<close>

section \<open>Data and operations\<close>

record sbi_fifo =
  fifo_queue :: bytes
  qlock :: spinlock
  entry_size :: u16
  num_entries :: u16
  avail :: u16
  tail :: u16

datatype inplace_update = SBI_FIFO_SKIP | SBI_FIFO_UPDATED | SBI_FIFO_UNCHANGED

definition fifo_lock :: "sbi_fifo \<Rightarrow> sbi_fifo" where
  "fifo_lock f = f\<lparr>qlock := snd (spin_lock_amoadd (qlock f))\<rparr>"

definition fifo_unlock :: "sbi_fifo \<Rightarrow> sbi_fifo" where
  "fifo_unlock f = f\<lparr>qlock := spin_unlock (qlock f)\<rparr>"

definition sbi_fifo_init :: "bytes \<Rightarrow> u16 \<Rightarrow> u16 \<Rightarrow> sbi_fifo option" where
  "sbi_fifo_init queue_mem entries esize =
     (case sbi_memset queue_mem 0 0 (unat (ucast entries * ucast esize :: ulong)) of
        None \<Rightarrow> None
      | Some m \<Rightarrow> Some \<lparr>fifo_queue = m, qlock = SPIN_LOCK_UNLOCKED, entry_size = esize,
          num_entries = entries, avail = 0, tail = 0\<rparr>)"

definition fifo_full :: "sbi_fifo \<Rightarrow> bool" where
  "fifo_full f \<longleftrightarrow> avail f = num_entries f"

definition fifo_empty :: "sbi_fifo \<Rightarrow> bool" where
  "fifo_empty f \<longleftrightarrow> avail f = 0"

definition sbi_fifo_avail :: "sbi_fifo option \<Rightarrow> u16 \<times> sbi_fifo option" where
  "sbi_fifo_avail fifo =
     (case fifo of None \<Rightarrow> (0, None)
      | Some f \<Rightarrow> (avail f, Some (fifo_unlock (fifo_lock f))))"

definition sbi_fifo_is_full :: "sbi_fifo option \<Rightarrow> int \<times> sbi_fifo option" where
  "sbi_fifo_is_full fifo =
     (case fifo of None \<Rightarrow> (SBI_EINVAL, None)
      | Some f \<Rightarrow> (of_bool (fifo_full f), Some (fifo_unlock (fifo_lock f))))"

definition sbi_fifo_is_empty :: "sbi_fifo option \<Rightarrow> int \<times> sbi_fifo option" where
  "sbi_fifo_is_empty fifo =
     (case fifo of None \<Rightarrow> (SBI_EINVAL, None)
      | Some f \<Rightarrow> (of_bool (fifo_empty f), Some (fifo_unlock (fifo_lock f))))"

definition fifo_head :: "sbi_fifo \<Rightarrow> u32" where
  "fifo_head f =
     (let head = ucast (tail f) + ucast (avail f)
      in if head \<ge> ucast (num_entries f) then head - ucast (num_entries f) else head)"

definition fifo_do_enqueue :: "sbi_fifo \<Rightarrow> bytes \<Rightarrow> sbi_fifo option" where
  "fifo_do_enqueue f data =
     (case sbi_memcpy (fifo_queue f) (unat (fifo_head f * ucast (entry_size f))) data 0
             (unat (entry_size f)) of
        None \<Rightarrow> None
      | Some m \<Rightarrow> Some (f\<lparr>fifo_queue := m, avail := avail f + 1\<rparr>))"

definition fifo_do_reset :: "sbi_fifo \<Rightarrow> sbi_fifo option" where
  "fifo_do_reset f =
     (case sbi_memset (fifo_queue f) 0 0 (unat (ucast (num_entries f) * ucast (entry_size f) :: ulong)) of
        None \<Rightarrow> None
      | Some m \<Rightarrow> Some (f\<lparr>avail := 0, tail := 0, fifo_queue := m\<rparr>))"

definition sbi_fifo_reset :: "sbi_fifo option \<Rightarrow> (bool \<times> sbi_fifo option) option" where
  "sbi_fifo_reset fifo =
     (case fifo of None \<Rightarrow> Some (False, None)
      | Some f \<Rightarrow> map_option (\<lambda>f. (True, Some (fifo_unlock f))) (fifo_do_reset (fifo_lock f)))"

definition fifo_index :: "sbi_fifo \<Rightarrow> nat \<Rightarrow> int" where
  "fifo_index f i =
     (let index = uint (tail f) + int i
      in if index \<ge> uint (num_entries f) then index - uint (num_entries f) else index)"

text \<open>
  The loop of \<^verbatim>\<open>sbi_fifo_inplace_update\<close>: \<open>n\<close> is the number of entries not yet visited. The
  callback gets the entry and returns its verdict and the entry it leaves in place.
\<close>

fun fifo_inplace_loop ::
  "sbi_fifo \<Rightarrow> 'i \<Rightarrow> ('i \<Rightarrow> bytes \<Rightarrow> inplace_update \<times> bytes) \<Rightarrow> nat \<Rightarrow> nat \<Rightarrow> (inplace_update \<times> sbi_fifo) option" where
  "fifo_inplace_loop f inp fptr i 0 = Some (SBI_FIFO_UNCHANGED, f)"
| "fifo_inplace_loop f inp fptr i (Suc n) =
     (let off = unat (word_of_int (fifo_index f i) * ucast (entry_size f) :: u32);
          es = unat (entry_size f)
      in if off + es \<le> length (fifo_queue f)
         then case fptr inp (cells (fifo_queue f) off es) of (ret, entry) \<Rightarrow>
             (let f' = f\<lparr>fifo_queue := splice_at (fifo_queue f) off entry\<rparr>
              in if ret = SBI_FIFO_SKIP \<or> ret = SBI_FIFO_UPDATED then Some (ret, f')
                 else fifo_inplace_loop f' inp fptr (Suc i) n)
         else None)"

definition sbi_fifo_inplace_update ::
  "sbi_fifo option \<Rightarrow> 'i option \<Rightarrow> ('i \<Rightarrow> bytes \<Rightarrow> inplace_update \<times> bytes) \<Rightarrow>
     (inplace_update \<times> sbi_fifo option) option" where
  "sbi_fifo_inplace_update fifo inp fptr =
     (case (fifo, inp) of
        (Some f, Some x) \<Rightarrow>
          (let f = fifo_lock f
           in if fifo_empty f then Some (SBI_FIFO_UNCHANGED, Some (fifo_unlock f))
              else map_option (\<lambda>(ret, f). (ret, Some (fifo_unlock f)))
                     (fifo_inplace_loop f x fptr 0 (unat (avail f))))
      | _ \<Rightarrow> Some (SBI_FIFO_UNCHANGED, fifo))"

definition sbi_fifo_enqueue :: "sbi_fifo option \<Rightarrow> bytes option \<Rightarrow> (int \<times> sbi_fifo option) option" where
  "sbi_fifo_enqueue fifo data =
     (case (fifo, data) of
        (Some f, Some d) \<Rightarrow>
          (let f = fifo_lock f
           in if fifo_full f then Some (SBI_ENOSPC, Some (fifo_unlock f))
              else map_option (\<lambda>f. (0, Some (fifo_unlock f))) (fifo_do_enqueue f d))
      | _ \<Rightarrow> Some (SBI_EINVAL, fifo))"

definition sbi_fifo_dequeue ::
  "sbi_fifo option \<Rightarrow> bytes option \<Rightarrow> (int \<times> bytes option \<times> sbi_fifo option) option" where
  "sbi_fifo_dequeue fifo data =
     (case (fifo, data) of
        (Some f, Some d) \<Rightarrow>
          (let f = fifo_lock f
           in if fifo_empty f then Some (SBI_ENOENT, data, Some (fifo_unlock f))
              else case sbi_memcpy d 0 (fifo_queue f) (unat (ucast (tail f) * ucast (entry_size f) :: u32))
                          (unat (entry_size f)) of
                     None \<Rightarrow> None
                   | Some d' \<Rightarrow>
                       (let f = f\<lparr>avail := avail f - 1, tail := tail f + 1\<rparr>;
                            f = (if tail f \<ge> num_entries f then f\<lparr>tail := 0\<rparr> else f)
                        in Some (0, Some d', Some (fifo_unlock f))))
      | _ \<Rightarrow> Some (SBI_EINVAL, data, fifo))"

section \<open>The queue interface\<close>

text \<open>
  What a client relies on: a queue of at most \<open>capacity\<close> items, \<open>put\<close> that appends or reports
  that there is no room and \<open>get\<close> that removes the oldest item or reports that there is none.
\<close>

locale bounded_queue =
  fixes invar :: "'q \<Rightarrow> bool"
    and contents :: "'q \<Rightarrow> 'a list"
    and capacity :: "'q \<Rightarrow> nat"
    and item_ok :: "'q \<Rightarrow> 'a \<Rightarrow> bool"
    and put :: "'q \<Rightarrow> 'a \<Rightarrow> (int \<times> 'q) option"
    and get :: "'q \<Rightarrow> (int \<times> 'a option \<times> 'q) option"
  assumes contents_bounded: "invar q \<Longrightarrow> length (contents q) \<le> capacity q"
    and put_full: "invar q \<Longrightarrow> length (contents q) = capacity q \<Longrightarrow>
      \<exists>q'. put q x = Some (SBI_ENOSPC, q') \<and> invar q' \<and> contents q' = contents q \<and>
        capacity q' = capacity q \<and> item_ok q' = item_ok q"
    and put_room: "invar q \<Longrightarrow> length (contents q) < capacity q \<Longrightarrow> item_ok q x \<Longrightarrow>
      \<exists>q'. put q x = Some (0, q') \<and> invar q' \<and> contents q' = contents q @ [x] \<and>
        capacity q' = capacity q \<and> item_ok q' = item_ok q"
    and get_empty: "invar q \<Longrightarrow> contents q = [] \<Longrightarrow>
      \<exists>q'. get q = Some (SBI_ENOENT, None, q') \<and> invar q' \<and> contents q' = [] \<and>
        capacity q' = capacity q \<and> item_ok q' = item_ok q"
    and get_item: "invar q \<Longrightarrow> contents q = x # xs \<Longrightarrow>
      \<exists>q'. get q = Some (0, Some x, q') \<and> invar q' \<and> contents q' = xs \<and>
        capacity q' = capacity q \<and> item_ok q' = item_ok q"
begin

text \<open>\<open>put\<close> and \<open>get\<close> never fault, and their codes tell exactly whether the queue was full or empty.\<close>

lemma put_total:
  assumes "invar q" and "item_ok q x"
  shows "\<exists>rc q'. put q x = Some (rc, q') \<and> invar q' \<and>
    (rc = 0 \<longleftrightarrow> length (contents q) < capacity q) \<and>
    contents q' = (if rc = 0 then contents q @ [x] else contents q)"
  using put_full [OF assms(1), of x] put_room [OF assms(1) _ assms(2)] contents_bounded [OF assms(1)]
  by (cases "length (contents q) = capacity q") fastforce+

lemma get_total:
  assumes "invar q"
  shows "\<exists>rc r q'. get q = Some (rc, r, q') \<and> invar q' \<and> (rc = 0 \<longleftrightarrow> contents q \<noteq> []) \<and>
    (rc = 0 \<longrightarrow> r = Some (hd (contents q)) \<and> contents q' = tl (contents q)) \<and>
    (rc \<noteq> 0 \<longrightarrow> contents q' = contents q)"
  using get_empty [OF assms] get_item [OF assms] by (cases "contents q") fastforce+

text \<open>A successful \<open>get\<close> shortens the queue: the measure of every loop that drains it.\<close>

lemma get_decreases:
  assumes "invar q" and "get q = Some (0, r, q')"
  shows "invar q' \<and> length (contents q') < length (contents q)"
  using get_total [OF assms(1)] assms(2) by auto

text \<open>First in, first out: items put one after the other come back in the same order.\<close>

lemma put_then_get:
  assumes "invar q" and "contents q = []" and "0 < capacity q" and "item_ok q x"
  shows "\<exists>q' q''. put q x = Some (0, q') \<and> get q' = Some (0, Some x, q'') \<and> invar q'' \<and> contents q'' = []"
proof -
  from put_room [OF assms(1) _ assms(4)] assms(2,3)
  obtain q' where q': "put q x = Some (0, q')" "invar q'" "contents q' = [x]" by auto
  with get_item [OF q'(2,3)] show ?thesis by auto
qed

end

section \<open>The ring buffer is such a queue\<close>

text \<open>
  Invariant: the area has its size, the indices are in range and the lock is free between
  operations. The contents are the \<open>avail\<close> slots from \<open>tail\<close> on, cyclically.
\<close>

definition fifo_ok :: "sbi_fifo \<Rightarrow> bool" where
  "fifo_ok f \<longleftrightarrow> unat (tail f) < unat (num_entries f) \<and> unat (avail f) \<le> unat (num_entries f) \<and>
     length (fifo_queue f) = unat (num_entries f) * unat (entry_size f) \<and> spin_lock_unlocked (qlock f)"

definition fifo_slot :: "sbi_fifo \<Rightarrow> nat \<Rightarrow> nat" where
  "fifo_slot f k = (unat (tail f) + k) mod unat (num_entries f)"

definition fifo_entry :: "sbi_fifo \<Rightarrow> nat \<Rightarrow> bytes" where
  "fifo_entry f i = cells (fifo_queue f) (i * unat (entry_size f)) (unat (entry_size f))"

definition fifo_contents :: "sbi_fifo \<Rightarrow> bytes list" where
  "fifo_contents f = map (\<lambda>k. fifo_entry f (fifo_slot f k)) [0..<unat (avail f)]"

lemma length_fifo_contents [simp]: "length (fifo_contents f) = unat (avail f)"
  by (simp add: fifo_contents_def)

lemma nth_fifo_contents [simp]:
  "k < unat (avail f) \<Longrightarrow> fifo_contents f ! k = fifo_entry f (fifo_slot f k)"
  by (simp add: fifo_contents_def)

lemma fifo_lock_sel [simp]:
  "fifo_queue (fifo_lock f) = fifo_queue f" "entry_size (fifo_lock f) = entry_size f"
  "num_entries (fifo_lock f) = num_entries f" "avail (fifo_lock f) = avail f"
  "tail (fifo_lock f) = tail f"
  by (simp_all add: fifo_lock_def)

lemma fifo_unlock_sel [simp]:
  "fifo_queue (fifo_unlock f) = fifo_queue f" "entry_size (fifo_unlock f) = entry_size f"
  "num_entries (fifo_unlock f) = num_entries f" "avail (fifo_unlock f) = avail f"
  "tail (fifo_unlock f) = tail f"
  by (simp_all add: fifo_unlock_def)

text \<open>Taking and releasing a free lock leaves it free.\<close>

lemma lock_unlock_free:
  "spin_lock_unlocked w \<Longrightarrow> spin_lock_unlocked (spin_unlock (snd (spin_lock_amoadd w)))"
  by (simp add: spin_lock_unlocked_def spin_unlock_def spin_lock_amoadd_def)

lemma slot_small: "i < unat (n :: u16) \<Longrightarrow> i * unat (e :: u16) < 2 ^ 32"
proof -
  assume "i < unat n"
  moreover have "unat n < 65536" "unat e < 65536" using unat_less_width [of n] unat_less_width [of e] by auto
  ultimately have "i * unat e \<le> 65535 * 65535" by (intro mult_le_mono) auto
  then show ?thesis by simp
qed

lemma unat_slot_offset:
  assumes "unat (h :: u32) < unat (n :: u16)"
  shows "unat (h * ucast (e :: u16)) = unat h * unat e"
  using slot_small [OF assms, of e] by (simp add: unat_word_ariths)

lemma unat_area_size: "unat (ucast (n :: u16) * ucast (e :: u16) :: ulong) = unat n * unat e"
proof -
  have "unat n * unat e \<le> 65535 * 65535"
    using unat_less_width [of n] unat_less_width [of e] by (intro mult_le_mono) auto
  then show ?thesis by (simp add: unat_word_ariths)
qed

lemma fifo_not_full_less:
  "fifo_ok f \<Longrightarrow> \<not> fifo_full f \<Longrightarrow> unat (avail f) < unat (num_entries f)"
  by (auto simp: fifo_ok_def fifo_full_def order_le_less word_unat_eq_iff)

lemma unat_fifo_head:
  assumes "fifo_ok f" and "\<not> fifo_full f"
  shows "unat (fifo_head f) = fifo_slot f (unat (avail f))"
proof -
  have s: "unat (tail f) + unat (avail f) < 2 ^ 32"
    using unat_less_width [of "tail f"] unat_less_width [of "avail f"] by simp
  have h: "unat (ucast (tail f) + ucast (avail f) :: u32) = unat (tail f) + unat (avail f)"
    using s by (subst unat_add_no_wrap) simp_all
  from fifo_not_full_less [OF assms] show ?thesis
    using assms h
    by (auto simp: fifo_head_def fifo_slot_def fifo_ok_def Let_def word_le_nat_alt
        unat_sub mod_if)
qed

lemma fifo_ok_area:
  "fifo_ok f \<Longrightarrow> i < unat (num_entries f) \<Longrightarrow>
    i * unat (entry_size f) + unat (entry_size f) \<le> length (fifo_queue f)"
  by (simp add: fifo_ok_def slot_in_range)

lemma fifo_slot_less [simp]: "fifo_ok f \<Longrightarrow> fifo_slot f k < unat (num_entries f)"
  by (simp add: fifo_slot_def fifo_ok_def)

lemma fifo_slot_inj:
  assumes "fifo_ok f" and "j < unat (num_entries f)" and "k < unat (num_entries f)"
    and "fifo_slot f j = fifo_slot f k"
  shows "j = k"
  using assms by (auto simp: fifo_slot_def fifo_ok_def mod_if split: if_splits)

lemma fifo_entry_length:
  "fifo_ok f \<Longrightarrow> i < unat (num_entries f) \<Longrightarrow> length (fifo_entry f i) = unat (entry_size f)"
  using fifo_ok_area [of f i] by (simp add: fifo_entry_def)

text \<open>Overwriting one slot of the area.\<close>

lemma fifo_entry_splice:
  assumes "fifo_ok f" and "i < unat (num_entries f)" and "j < unat (num_entries f)"
    and "length d = unat (entry_size f)"
    and "fifo_queue g = splice_at (fifo_queue f) (i * unat (entry_size f)) d"
    and "entry_size g = entry_size f"
  shows "fifo_entry g j = (if j = i then d else fifo_entry f j)"
  using assms fifo_ok_area [OF assms(1,2)] fifo_ok_area [OF assms(1,3)] slots_disjoint [of j i "unat (entry_size f)"]
  by (auto simp: fifo_entry_def intro!: cells_splice_disjoint)

lemma enqueue_full:
  assumes "fifo_ok f" and "fifo_full f"
  shows "sbi_fifo_enqueue (Some f) (Some d) = Some (SBI_ENOSPC, Some (fifo_unlock (fifo_lock f)))"
  using assms by (simp add: sbi_fifo_enqueue_def fifo_full_def)

lemma fifo_ok_relock: "fifo_ok f \<Longrightarrow> fifo_ok (fifo_unlock (fifo_lock f))"
  by (simp add: fifo_ok_def fifo_lock_def fifo_unlock_def lock_unlock_free)

lemma fifo_slot_cong: "tail g = tail f \<Longrightarrow> num_entries g = num_entries f \<Longrightarrow> fifo_slot g = fifo_slot f"
  by (simp add: fifo_slot_def fun_eq_iff)

lemma fifo_contents_cong:
  "fifo_queue g = fifo_queue f \<Longrightarrow> entry_size g = entry_size f \<Longrightarrow> tail g = tail f \<Longrightarrow>
    num_entries g = num_entries f \<Longrightarrow> avail g = avail f \<Longrightarrow> fifo_contents g = fifo_contents f"
  by (simp add: fifo_contents_def fifo_entry_def fifo_slot_def)

lemma fifo_contents_relock [simp]: "fifo_contents (fifo_unlock (fifo_lock f)) = fifo_contents f"
  by (rule fifo_contents_cong) simp_all

lemma enqueue_room:
  assumes ok: "fifo_ok f" and room: "\<not> fifo_full f" and d: "length d = unat (entry_size f)"
  shows "\<exists>g. sbi_fifo_enqueue (Some f) (Some d) = Some (0, Some g) \<and> fifo_ok g \<and>
    fifo_contents g = fifo_contents f @ [d] \<and> num_entries g = num_entries f \<and> entry_size g = entry_size f"
proof -
  let ?h = "fifo_slot f (unat (avail f))" and ?e = "unat (entry_size f)"
  let ?q = "splice_at (fifo_queue f) (?h * ?e) d"
  define g where "g = fifo_unlock ((fifo_lock f)\<lparr>fifo_queue := ?q, avail := avail f + 1\<rparr>)"
  have lt: "unat (avail f) < unat (num_entries f)" by (rule fifo_not_full_less [OF ok room])
  have head: "fifo_head (fifo_lock f) = fifo_head f" by (simp add: fifo_head_def Let_def)
  have hd: "unat (fifo_head f) = ?h" by (rule unat_fifo_head [OF ok room])
  have off: "unat (fifo_head f * ucast (entry_size f)) = ?h * ?e"
    using ok by (simp add: hd unat_slot_offset [where n = "num_entries f"])
  have area: "?h * ?e + ?e \<le> length (fifo_queue f)" using ok by (simp add: fifo_ok_area)
  have run: "sbi_fifo_enqueue (Some f) (Some d) = Some (0, Some g)"
    using room d area
    by (simp add: sbi_fifo_enqueue_def fifo_do_enqueue_def fifo_full_def head off sbi_memcpy_eq g_def
        cells_def)
  have av: "unat (avail f + 1) = unat (avail f) + 1"
    using lt unat_less_width [of "num_entries f"] by (intro unat_inc_no_wrap) simp
  have ok': "fifo_ok g"
    using ok lt area d
    by (simp add: g_def fifo_ok_def fifo_unlock_def fifo_lock_def av lock_unlock_free)
  have slot: "fifo_slot g = fifo_slot f" by (rule fifo_slot_cong) (simp_all add: g_def)
  have entry: "fifo_entry g j = (if j = ?h then d else fifo_entry f j)" if "j < unat (num_entries f)" for j
    using ok d that by (intro fifo_entry_splice) (simp_all add: g_def)
  have "fifo_contents g = fifo_contents f @ [d]"
  proof (rule nth_equalityI)
    show "length (fifo_contents g) = length (fifo_contents f @ [d])" by (simp add: g_def av)
    fix k assume "k < length (fifo_contents g)"
    then have k: "k < unat (avail f) + 1" by (simp add: g_def av)
    have "k < unat (avail g)" using k by (simp add: g_def av)
    then have "fifo_contents g ! k = fifo_entry g (fifo_slot f k)" by (simp add: slot)
    also have "\<dots> = (fifo_contents f @ [d]) ! k"
      using k lt ok fifo_slot_inj [OF ok _ lt, of k] by (auto simp: entry nth_append less_Suc_eq)
    finally show "fifo_contents g ! k = (fifo_contents f @ [d]) ! k" .
  qed
  with run ok' show ?thesis by (simp add: g_def)
qed

lemma dequeue_empty:
  "fifo_empty f \<Longrightarrow>
    sbi_fifo_dequeue (Some f) (Some d) = Some (SBI_ENOENT, Some d, Some (fifo_unlock (fifo_lock f)))"
  by (simp add: sbi_fifo_dequeue_def fifo_empty_def)

lemma dequeue_item:
  assumes ok: "fifo_ok f" and ne: "\<not> fifo_empty f" and d: "unat (entry_size f) \<le> length d"
  shows "\<exists>g. sbi_fifo_dequeue (Some f) (Some d) =
      Some (0, Some (splice_at d 0 (hd (fifo_contents f))), Some g) \<and> fifo_ok g \<and>
    fifo_contents g = tl (fifo_contents f) \<and> num_entries g = num_entries f \<and> entry_size g = entry_size f"
proof -
  let ?e = "unat (entry_size f)" and ?n = "unat (num_entries f)"
  define g where "g = fifo_unlock ((fifo_lock f)\<lparr>avail := avail f - 1,
    tail := (if tail f + 1 \<ge> num_entries f then 0 else tail f + 1)\<rparr>)"
  have pos: "0 < unat (avail f)" using ne by (simp add: fifo_empty_def unat_gt_0)
  have av: "unat (avail f - 1) = unat (avail f) - 1" using pos by (simp add: unat_sub word_le_nat_alt)
  have tl: "unat (tail f) < ?n" using ok by (simp add: fifo_ok_def)
  have tl1: "unat (tail f + 1) = unat (tail f) + 1"
    using tl unat_less_width [of "num_entries f"] by (intro unat_inc_no_wrap) simp
  have off: "unat (ucast (tail f) * ucast (entry_size f) :: u32) = unat (tail f) * ?e"
    using tl by (subst unat_slot_offset [where n = "num_entries f"]) simp_all
  have area: "unat (tail f) * ?e + ?e \<le> length (fifo_queue f)" by (rule fifo_ok_area [OF ok tl])
  have first: "hd (fifo_contents f) = cells (fifo_queue f) (unat (tail f) * ?e) ?e"
    using pos tl by (simp add: hd_conv_nth fifo_entry_def fifo_slot_def flip: length_greater_0_conv)
  have run: "sbi_fifo_dequeue (Some f) (Some d) = Some (0, Some (splice_at d 0 (hd (fifo_contents f))), Some g)"
    using ne d area
    by (simp add: sbi_fifo_dequeue_def fifo_empty_def off sbi_memcpy_eq first g_def Let_def)
  have gt: "unat (tail g) = (if unat (tail f) + 1 = ?n then 0 else unat (tail f) + 1)"
    using tl tl1 by (auto simp: g_def word_le_nat_alt)
  have ok': "fifo_ok g"
    using ok av gt tl
    by (auto simp: g_def fifo_ok_def fifo_unlock_def fifo_lock_def lock_unlock_free)
  have slot: "fifo_slot g k = fifo_slot f (Suc k)" if "k < ?n" for k
    using gt that tl by (auto simp: fifo_slot_def g_def mod_if)
  have "fifo_contents g = tl (fifo_contents f)"
  proof (rule nth_equalityI)
    show "length (fifo_contents g) = length (tl (fifo_contents f))" by (simp add: g_def av)
    fix k assume "k < length (fifo_contents g)"
    then have k: "k < unat (avail f) - 1" by (simp add: g_def av)
    with ok have kn: "k < ?n" unfolding fifo_ok_def by linarith
    have "fifo_contents g ! k = fifo_entry g (fifo_slot g k)" using k by (simp add: g_def av)
    also have "\<dots> = fifo_entry f (fifo_slot f (Suc k))"
      by (simp add: slot [OF kn] fifo_entry_def) (simp add: g_def)
    also have "\<dots> = tl (fifo_contents f) ! k" using k by (simp add: nth_tl)
    finally show "fifo_contents g ! k = tl (fifo_contents f) ! k" .
  qed
  with run ok' show ?thesis by (simp add: g_def)
qed

text \<open>The client view: a buffer of exactly one entry to receive, an entry to send.\<close>

definition fifo_put :: "sbi_fifo \<Rightarrow> bytes \<Rightarrow> (int \<times> sbi_fifo) option" where
  "fifo_put f d = map_option (\<lambda>(rc, g). (rc, the g)) (sbi_fifo_enqueue (Some f) (Some d))"

definition fifo_get :: "sbi_fifo \<Rightarrow> (int \<times> bytes option \<times> sbi_fifo) option" where
  "fifo_get f = map_option (\<lambda>(rc, d, g). (rc, (if rc = 0 then d else None), the g))
     (sbi_fifo_dequeue (Some f) (Some (replicate (unat (entry_size f)) 0)))"

definition fifo_item_ok :: "sbi_fifo \<Rightarrow> bytes \<Rightarrow> bool" where
  "fifo_item_ok f d \<longleftrightarrow> length d = unat (entry_size f)"

lemma fifo_full_contents: "fifo_full f \<longleftrightarrow> length (fifo_contents f) = unat (num_entries f)"
  by (simp add: fifo_full_def word_unat_eq_iff)

lemma fifo_empty_contents: "fifo_empty f \<longleftrightarrow> fifo_contents f = []"
  by (simp add: fifo_empty_def unat_eq_0 flip: length_0_conv)

lemma fifo_item_ok_eqI: "entry_size g = entry_size f \<Longrightarrow> fifo_item_ok g = fifo_item_ok f"
  by (simp add: fifo_item_ok_def fun_eq_iff)

lemma fifo_item_ok_relock [simp]: "fifo_item_ok (fifo_unlock (fifo_lock f)) = fifo_item_ok f"
  by (rule fifo_item_ok_eqI) simp

lemma hd_contents_length:
  "fifo_ok f \<Longrightarrow> fifo_contents f \<noteq> [] \<Longrightarrow> length (hd (fifo_contents f)) = unat (entry_size f)"
  by (simp add: hd_conv_nth fifo_entry_length flip: length_greater_0_conv)

interpretation ring: bounded_queue fifo_ok fifo_contents "\<lambda>f. unat (num_entries f)" fifo_item_ok
  fifo_put fifo_get
proof (unfold_locales, goal_cases)
  case (1 f)
  then show ?case by (simp add: fifo_ok_def)
next
  case (2 f d)
  then show ?case
    by (simp add: fifo_put_def enqueue_full fifo_full_contents fifo_ok_relock)
next
  case (3 f d)
  then have "\<not> fifo_full f" "length d = unat (entry_size f)"
    by (simp_all add: fifo_full_contents fifo_item_ok_def)
  from enqueue_room [OF 3(1) this] show ?case by (auto simp: fifo_put_def dest: fifo_item_ok_eqI)
next
  case (4 f)
  then show ?case
    by (simp add: fifo_get_def dequeue_empty fifo_empty_contents fifo_ok_relock)
next
  case (5 f x xs)
  then have "\<not> fifo_empty f" by (simp add: fifo_empty_contents)
  from dequeue_item [OF 5(1) this, of "replicate (unat (entry_size f)) 0"] 5 hd_contents_length [OF 5(1)]
  show ?case by (auto simp: fifo_get_def splice_at_def dest: fifo_item_ok_eqI)
qed

section \<open>In-place update\<close>

text \<open>
  The abstract counterpart of \<^verbatim>\<open>sbi_fifo_inplace_update\<close>: offer the queued items to the callback,
  oldest first, until it answers \<open>SBI_FIFO_SKIP\<close> or \<open>SBI_FIFO_UPDATED\<close>.
\<close>

fun list_inplace :: "('a \<Rightarrow> inplace_update \<times> 'a) \<Rightarrow> 'a list \<Rightarrow> inplace_update \<times> 'a list" where
  "list_inplace h [] = (SBI_FIFO_UNCHANGED, [])"
| "list_inplace h (x # xs) =
     (case h x of (ret, y) \<Rightarrow>
        if ret = SBI_FIFO_SKIP \<or> ret = SBI_FIFO_UPDATED then (ret, y # xs)
        else (case list_inplace h xs of (r, ys) \<Rightarrow> (r, y # ys)))"

lemma fifo_contents_update:
  assumes ok: "fifo_ok f" and i: "i < unat (avail f)" and d: "length d = unat (entry_size f)"
  shows "fifo_contents (f\<lparr>fifo_queue := splice_at (fifo_queue f) (fifo_slot f i * unat (entry_size f)) d\<rparr>)
      = (fifo_contents f)[i := d]" (is "fifo_contents ?g = _")
proof (rule nth_equalityI)
  show "length (fifo_contents ?g) = length ((fifo_contents f)[i := d])" by simp
  fix k assume "k < length (fifo_contents ?g)"
  then have k: "k < unat (avail f)" by simp
  from ok have n: "unat (avail f) \<le> unat (num_entries f)" by (simp add: fifo_ok_def)
  have slot: "fifo_slot ?g = fifo_slot f" by (rule fifo_slot_cong) simp_all
  have "fifo_entry ?g (fifo_slot f k) = (if fifo_slot f k = fifo_slot f i then d else fifo_entry f (fifo_slot f k))"
    using ok d by (intro fifo_entry_splice) simp_all
  then show "fifo_contents ?g ! k = (fifo_contents f)[i := d] ! k"
    using k i n fifo_slot_inj [OF ok, of k i] by (auto simp: slot nth_list_update)
qed

lemma fifo_index_slot:
  assumes "fifo_ok f" and "i < unat (num_entries f)"
  shows "unat (word_of_int (fifo_index f i) * ucast (entry_size f) :: u32) = fifo_slot f i * unat (entry_size f)"
proof -
  have "fifo_slot f i = (if unat (num_entries f) \<le> unat (tail f) + i
      then unat (tail f) + i - unat (num_entries f) else unat (tail f) + i)"
    using assms by (auto simp: fifo_slot_def fifo_ok_def mod_if)
  moreover have "uint (num_entries f) \<le> uint (tail f) + int i \<longleftrightarrow> unat (num_entries f) \<le> unat (tail f) + i"
    unfolding uint_int_unat of_nat_add [symmetric] of_nat_le_iff ..
  ultimately have "fifo_index f i = int (fifo_slot f i)"
    by (simp add: fifo_index_def Let_def of_nat_diff)
  moreover have "fifo_slot f i < unat (num_entries f)" using assms(1) by simp
  moreover from this have "unat (word_of_nat (fifo_slot f i) :: u32) = fifo_slot f i"
    using unat_less_width [of "num_entries f"] by (simp add: unsigned_of_nat take_bit_nat_eq_self_iff)
  ultimately show ?thesis by (simp add: unat_slot_offset [where n = "num_entries f"])
qed

lemma fifo_inplace_loop_refines:
  assumes "fifo_ok f" and "i + n = unat (avail f)"
    and keep: "\<And>d. length d = unat (entry_size f) \<Longrightarrow> length (snd (fptr inp d)) = length d"
  shows "\<exists>g. fifo_inplace_loop f inp fptr i n = Some (fst (list_inplace (fptr inp) (drop i (fifo_contents f))), g) \<and>
      fifo_ok g \<and> fifo_contents g = take i (fifo_contents f) @ snd (list_inplace (fptr inp) (drop i (fifo_contents f))) \<and>
      num_entries g = num_entries f \<and> entry_size g = entry_size f"
  using assms
proof (induction n arbitrary: f i)
  case 0
  then show ?case by simp
next
  case (Suc n)
  let ?s = "fifo_slot f i" and ?e = "unat (entry_size f)"
  from Suc.prems have i: "i < unat (avail f)" and n: "i < unat (num_entries f)"
    by (auto simp: fifo_ok_def)
  let ?x = "fifo_entry f ?s"
  have len: "length ?x = ?e" using Suc.prems(1) by (simp add: fifo_entry_length)
  obtain ret y where y: "fptr inp ?x = (ret, y)" by (cases "fptr inp ?x")
  with Suc.prems(3) [OF len] len have ylen: "length y = ?e" by simp
  define f' where "f' = f\<lparr>fifo_queue := splice_at (fifo_queue f) (?s * ?e) y\<rparr>"
  have area: "?s * ?e + ?e \<le> length (fifo_queue f)" using Suc.prems(1) by (simp add: fifo_ok_area)
  have ok': "fifo_ok f'" using Suc.prems(1) area ylen by (simp add: f'_def fifo_ok_def)
  have c': "fifo_contents f' = (fifo_contents f)[i := y]"
    unfolding f'_def by (rule fifo_contents_update [OF Suc.prems(1) i ylen])
  have loop: "fifo_inplace_loop f inp fptr i (Suc n) =
      (if ret = SBI_FIFO_SKIP \<or> ret = SBI_FIFO_UPDATED then Some (ret, f') else fifo_inplace_loop f' inp fptr (Suc i) n)"
    using area y fifo_index_slot [OF Suc.prems(1) n] by (simp add: Let_def f'_def fifo_entry_def)
  have drop: "drop i (fifo_contents f) = ?x # drop (Suc i) (fifo_contents f)"
    using i by (simp add: Cons_nth_drop_Suc [symmetric])
  show ?case
  proof (cases "ret = SBI_FIFO_SKIP \<or> ret = SBI_FIFO_UPDATED")
    case True
    with loop y drop c' ok' i show ?thesis by (auto simp: upd_conv_take_nth_drop f'_def)
  next
    case False
    have keep': "length (snd (fptr inp d)) = length d" if "length d = unat (entry_size f')" for d
      using Suc.prems(3) that by (simp add: f'_def)
    from Suc.IH [OF ok' _ keep', of "Suc i"] Suc.prems(2)
    obtain g where "fifo_inplace_loop f' inp fptr (Suc i) n =
        Some (fst (list_inplace (fptr inp) (drop (Suc i) (fifo_contents f'))), g)"
      "fifo_ok g" "fifo_contents g = take (Suc i) (fifo_contents f') @
        snd (list_inplace (fptr inp) (drop (Suc i) (fifo_contents f')))"
      "num_entries g = num_entries f" "entry_size g = entry_size f"
      by (auto simp: f'_def)
    with loop False y drop c' i show ?thesis
      by (auto simp: take_Suc_conv_app_nth split: prod.split)
  qed
qed

lemma fifo_inplace_loop_lock:
  "fifo_inplace_loop (fifo_lock f) inp fptr i n =
    map_option (\<lambda>(r, g). (r, fifo_lock g)) (fifo_inplace_loop f inp fptr i n)"
proof (induction n arbitrary: f i)
  case (Suc n)
  have upd: "(fifo_lock f)\<lparr>fifo_queue := q\<rparr> = fifo_lock (f\<lparr>fifo_queue := q\<rparr>)" for q
    by (simp add: fifo_lock_def)
  have ix: "fifo_index (fifo_lock f) i = fifo_index f i" by (simp add: fifo_index_def Let_def)
  show ?case by (simp add: Let_def upd ix Suc.IH split: prod.split)
qed simp

section \<open>Properties\<close>

lemma fifo_init_ok:
  assumes "length mem = unat n * unat e" and "0 < n"
  shows "\<exists>f. sbi_fifo_init mem n e = Some f \<and> fifo_ok f \<and> fifo_contents f = [] \<and>
    num_entries f = n \<and> entry_size f = e"
  using assms
  by (auto simp: sbi_fifo_init_def unat_area_size sbi_memset_eq fifo_ok_def fifo_contents_def
      spin_lock_unlocked_def SPIN_LOCK_UNLOCKED_def lock_owner_def lock_next_def word_less_nat_alt)

lemma fifo_reset_ok:
  assumes "fifo_ok f"
  shows "\<exists>g. sbi_fifo_reset (Some f) = Some (True, Some g) \<and> fifo_ok g \<and> fifo_contents g = [] \<and>
    num_entries g = num_entries f \<and> entry_size g = entry_size f"
  using assms
  by (auto simp: sbi_fifo_reset_def fifo_do_reset_def unat_area_size sbi_memset_eq fifo_ok_def
      fifo_contents_def fifo_lock_def fifo_unlock_def lock_unlock_free)

text \<open>A queue of two entries of two bytes whose live entry is the last slot of the area.\<close>

definition fifo_example :: sbi_fifo where
  "fifo_example = \<lparr>fifo_queue = [1, 2, 3, 4], qlock = 0x00050005, entry_size = 2, num_entries = 2,
     avail = 1, tail = 1\<rparr>"

lemma fifo_example_ok [simp]: "fifo_ok fifo_example"
  by code_simp

lemma fifo_example_simps [simp]:
  "fifo_contents fifo_example = [[3, 4]]" "avail fifo_example = 1"
  "entry_size fifo_example = 2" "num_entries fifo_example = 2"
  by (code_simp, simp_all add: fifo_example_def)

lemma fifo_enqueue_abs:
  assumes "fifo_ok f" and "length d = unat (entry_size f)"
  shows "\<exists>rc g. sbi_fifo_enqueue (Some f) (Some d) = Some (rc, Some g) \<and> fifo_ok g \<and>
    rc = (if length (fifo_contents f) = unat (num_entries f) then SBI_ENOSPC else 0) \<and>
    fifo_contents g = (if rc = 0 then fifo_contents f @ [d] else fifo_contents f)"
proof (cases "fifo_full f")
  case True
  with assms(1) show ?thesis
    by (simp add: enqueue_full fifo_ok_relock fifo_full_contents)
next
  case False
  with enqueue_room [OF assms(1) False assms(2)] show ?thesis by (auto simp: fifo_full_contents)
qed

lemma fifo_dequeue_abs:
  assumes "fifo_ok f" and "unat (entry_size f) \<le> length d"
  shows "\<exists>rc d' g. sbi_fifo_dequeue (Some f) (Some d) = Some (rc, Some d', Some g) \<and> fifo_ok g \<and>
    rc = (if fifo_contents f = [] then SBI_ENOENT else 0) \<and>
    d' = (if rc = 0 then splice_at d 0 (hd (fifo_contents f)) else d) \<and>
    fifo_contents g = tl (fifo_contents f)"
proof (cases "fifo_empty f")
  case True
  with assms(1) show ?thesis by (simp add: dequeue_empty fifo_ok_relock fifo_empty_contents)
next
  case False
  with dequeue_item [OF assms(1) False assms(2)] show ?thesis by (auto simp: fifo_empty_contents)
qed

lemma fifo_inplace_abs:
  assumes "fifo_ok f"
    and "\<And>d. length d = unat (entry_size f) \<Longrightarrow> length (snd (fptr inp d)) = length d"
  shows "\<exists>g. sbi_fifo_inplace_update (Some f) (Some inp) fptr =
      Some (fst (list_inplace (fptr inp) (fifo_contents f)), Some g) \<and> fifo_ok g \<and>
    fifo_contents g = snd (list_inplace (fptr inp) (fifo_contents f))"
proof (cases "fifo_empty f")
  case True
  with assms(1) show ?thesis
    by (simp add: sbi_fifo_inplace_update_def fifo_empty_def fifo_empty_contents [symmetric]
        fifo_ok_relock fifo_contents_def)
next
  case False
  from fifo_inplace_loop_refines [where fptr = fptr and inp = inp, OF assms(1) _ assms(2), of 0]
  show ?thesis
    using False
    by (auto simp: sbi_fifo_inplace_update_def fifo_empty_def fifo_inplace_loop_lock fifo_ok_relock)
qed

text \<open>The operations keep the shape of the queue.\<close>

lemma enqueue_shape:
  "sbi_fifo_enqueue (Some f) (Some d) = Some (rc, Some g) \<Longrightarrow> entry_size g = entry_size f \<and> num_entries g = num_entries f"
  by (auto simp: sbi_fifo_enqueue_def fifo_do_enqueue_def Let_def split: if_splits option.splits)

lemma dequeue_shape:
  "sbi_fifo_dequeue (Some f) (Some d) = Some (rc, d', Some g) \<Longrightarrow> entry_size g = entry_size f \<and> num_entries g = num_entries f"
  by (auto simp: sbi_fifo_dequeue_def Let_def split: if_splits option.splits)

lemma fifo_inplace_loop_shape:
  "fifo_inplace_loop f inp fptr i n = Some (r, g) \<Longrightarrow> entry_size g = entry_size f \<and> num_entries g = num_entries f"
proof (induction n arbitrary: f i)
  case (Suc n)
  then show ?case using Suc.IH by (auto simp: Let_def split: if_splits prod.splits dest!: Suc.IH)
qed simp

lemma inplace_shape:
  "sbi_fifo_inplace_update (Some f) (Some x) fptr = Some (r, Some g) \<Longrightarrow> entry_size g = entry_size f \<and> num_entries g = num_entries f"
  by (auto simp: sbi_fifo_inplace_update_def Let_def dest!: fifo_inplace_loop_shape split: if_splits)

text \<open>
  C21. The ring buffer behaves as a bounded queue of byte strings: on a well-formed queue an
  enqueue of an entry of the right size never touches memory out of bounds, reports
  \<open>SBI_ENOSPC\<close> exactly when the queue is full and otherwise appends the entry at the end; the
  invariant holds again and the lock is released.
\<close>

theorem sbi_fifo_enqueue_refines:
  assumes "fifo_ok f" and "length d = unat (entry_size f)"
  shows "\<exists>rc g. sbi_fifo_enqueue (Some f) (Some d) = Some (rc, Some g) \<and> fifo_ok g \<and>
    rc = (if length (fifo_contents f) = unat (num_entries f) then SBI_ENOSPC else 0) \<and>
    fifo_contents g = (if rc = 0 then fifo_contents f @ [d] else fifo_contents f)"
  using assms by (rule fifo_enqueue_abs)

theorem sbi_fifo_enqueue_refines_witness:
  "\<exists>g. sbi_fifo_enqueue (Some fifo_example) (Some [7, 8]) = Some (0, Some g) \<and> fifo_ok g \<and>
    fifo_contents g = [[3, 4], [7, 8]]"
  using sbi_fifo_enqueue_refines [of fifo_example "[7, 8]"] by auto

text \<open>
  A dequeue from a well-formed queue reports \<open>SBI_ENOENT\<close> and leaves the caller's buffer
  alone exactly when the queue is empty; otherwise it copies the oldest entry into the buffer and
  removes it. In particular entries come out in the order they were enqueued.
\<close>

theorem sbi_fifo_dequeue_refines:
  assumes "fifo_ok f" and "unat (entry_size f) \<le> length d"
  shows "\<exists>rc d' g. sbi_fifo_dequeue (Some f) (Some d) = Some (rc, Some d', Some g) \<and> fifo_ok g \<and>
    rc = (if fifo_contents f = [] then SBI_ENOENT else 0) \<and>
    d' = (if rc = 0 then splice_at d 0 (hd (fifo_contents f)) else d) \<and>
    fifo_contents g = tl (fifo_contents f)"
  using assms by (rule fifo_dequeue_abs)

theorem sbi_fifo_dequeue_refines_witness:
  "\<exists>g. sbi_fifo_dequeue (Some fifo_example) (Some [0, 0, 9]) = Some (0, Some [3, 4, 9], Some g) \<and>
    fifo_ok g \<and> fifo_contents g = []"
  using sbi_fifo_dequeue_refines [of fifo_example "[0, 0, 9]"] by (auto simp: splice_at_def)

text \<open>
  \<^verbatim>\<open>sbi_fifo_inplace_update\<close> implements the abstract in-place update: the callback sees the
  queued entries oldest first up to the first one it skips or updates, the other entries and
  their order are unchanged, and the lock is released.
\<close>

theorem sbi_fifo_inplace_update_refines:
  assumes "fifo_ok f"
    and "\<And>d. length d = unat (entry_size f) \<Longrightarrow> length (snd (fptr inp d)) = length d"
  shows "\<exists>g. sbi_fifo_inplace_update (Some f) (Some inp) fptr =
      Some (fst (list_inplace (fptr inp) (fifo_contents f)), Some g) \<and> fifo_ok g \<and>
    fifo_contents g = snd (list_inplace (fptr inp) (fifo_contents f))"
  using assms by (rule fifo_inplace_abs)

theorem sbi_fifo_inplace_update_refines_witness:
  "\<exists>g. sbi_fifo_inplace_update (Some fifo_example) (Some (5 :: u8))
      (\<lambda>x d. (SBI_FIFO_UPDATED, map (\<lambda>b. b + x) d)) = Some (SBI_FIFO_UPDATED, Some g) \<and> fifo_ok g \<and>
    fifo_contents g = [[8, 9]]"
  using sbi_fifo_inplace_update_refines
    [of fifo_example "\<lambda>x d. (SBI_FIFO_UPDATED, map (\<lambda>b. b + x) d)" "5 :: u8"]
  by auto

end
