(* ===== verification/Sbi_Bitops.thy ===== *)
theory Sbi_Bitops
  imports Sbi_Prelude
begin

text \<open>
  Bit searches and bitmaps: \<^verbatim>\<open>include/sbi/sbi_bitops.h\<close>, \<^verbatim>\<open>lib/sbi/sbi_bitops.c\<close>,
  \<^verbatim>\<open>lib/sbi/sbi_bitmap.c\<close>, \<^verbatim>\<open>include/sbi/sbi_bitmap.h\<close>, \<^verbatim>\<open>include/sbi/sbi_hartmask.h\<close> and
  \<^verbatim>\<open>lib/sbi/sbi_math.c\<close>. A bitmap is the list of its 64-bit words; an access outside the list is
  \<open>None\<close>. Bit numbers, sizes and offsets are naturals: a bitmap in memory has fewer than
  \<open>2 ^ 64\<close> bits, so the C arithmetic on them does not wrap. The specification of the searches is
  \<open>first_true\<close>, the least index with a property.
\<close>

section \<open>Searching a word\<close>

abbreviation (input) BITS_PER_LONG :: nat where "BITS_PER_LONG \<equiv> 64"

text \<open>One \<^verbatim>\<open>if\<close> of the binary searches: skip \<open>k\<close> bits when the tested part is zero.\<close>

definition ffs_round :: "nat \<Rightarrow> ulong \<Rightarrow> nat \<times> ulong \<Rightarrow> nat \<times> ulong" where
  "ffs_round k m st = (case st of (num, w) \<Rightarrow> if w AND m = 0 then (num + k, drop_bit k w) else (num, w))"

definition ffs_word :: "ulong \<Rightarrow> nat" where
  "ffs_word w =
     (let st = ffs_round 32 0xffffffff (0, w);
          st = ffs_round 16 0xffff st;
          st = ffs_round 8 0xff st;
          st = ffs_round 4 0xf st;
          (num, w) = ffs_round 2 0x3 st
      in if w AND 0x1 = 0 then num + 1 else num)"

definition ffz :: "ulong \<Rightarrow> nat" where
  "ffz x = ffs_word (NOT x)"

definition fls_round :: "nat \<Rightarrow> nat \<times> ulong \<Rightarrow> nat \<times> ulong" where
  "fls_round k st = (case st of (num, w) \<Rightarrow>
     if w AND push_bit (BITS_PER_LONG - k) (NOT 0) = 0 then (num - k, push_bit k w) else (num, w))"

definition fls_word :: "ulong \<Rightarrow> nat" where
  "fls_word w =
     (let st = fls_round 32 (BITS_PER_LONG - 1, w);
          st = fls_round 16 st;
          st = fls_round 8 st;
          st = fls_round 4 st;
          (num, w) = fls_round 2 st
      in if w AND push_bit (BITS_PER_LONG - 1) (NOT 0) = 0 then num - 1 else num)"

section \<open>Searching a bitmap\<close>

fun find_first_bit_loop :: "ulong list \<Rightarrow> nat \<Rightarrow> nat \<Rightarrow> nat option" where
  "find_first_bit_loop p result sz =
     (if sz = 0 then Some result
      else case p of
        [] \<Rightarrow> None
      | tmp # p' \<Rightarrow>
          if BITS_PER_LONG \<le> sz
          then if tmp \<noteq> 0 then Some (result + ffs_word tmp)
               else find_first_bit_loop p' (result + BITS_PER_LONG) (sz - BITS_PER_LONG)
          else let tmp = tmp AND drop_bit (BITS_PER_LONG - sz) (NOT 0)
               in if tmp = 0 then Some (result + sz) else Some (result + ffs_word tmp))"

definition find_first_bit :: "ulong list \<Rightarrow> nat \<Rightarrow> nat option" where
  "find_first_bit addr sz = find_first_bit_loop addr 0 sz"

fun find_first_zero_bit_loop :: "ulong list \<Rightarrow> nat \<Rightarrow> nat \<Rightarrow> nat option" where
  "find_first_zero_bit_loop p result sz =
     (if sz = 0 then Some result
      else case p of
        [] \<Rightarrow> None
      | tmp # p' \<Rightarrow>
          if BITS_PER_LONG \<le> sz
          then if NOT tmp \<noteq> 0 then Some (result + ffz tmp)
               else find_first_zero_bit_loop p' (result + BITS_PER_LONG) (sz - BITS_PER_LONG)
          else let tmp = tmp OR push_bit sz (NOT 0)
               in if tmp = NOT 0 then Some (result + sz) else Some (result + ffz tmp))"

definition find_first_zero_bit :: "ulong list \<Rightarrow> nat \<Rightarrow> nat option" where
  "find_first_zero_bit addr sz = find_first_zero_bit_loop addr 0 sz"

fun find_last_bit_loop :: "ulong list \<Rightarrow> nat \<Rightarrow> nat \<Rightarrow> nat option" where
  "find_last_bit_loop addr sz 0 = Some sz"
| "find_last_bit_loop addr sz (Suc words) =
     (if words < length addr
      then if addr ! words \<noteq> 0 then Some (words * BITS_PER_LONG + fls_word (addr ! words))
           else find_last_bit_loop addr sz words
      else None)"

definition find_last_bit :: "ulong list \<Rightarrow> nat \<Rightarrow> nat option" where
  "find_last_bit addr sz =
     (let words = sz div BITS_PER_LONG; rest = sz mod BITS_PER_LONG
      in if rest \<noteq> 0
         then if words < length addr
              then let tmp = addr ! words AND drop_bit (BITS_PER_LONG - rest) (NOT 0)
                   in if tmp \<noteq> 0 then Some (words * BITS_PER_LONG + fls_word tmp)
                      else find_last_bit_loop addr sz words
              else None
         else find_last_bit_loop addr sz words)"

definition find_next_bit :: "ulong list \<Rightarrow> nat \<Rightarrow> nat \<Rightarrow> nat option" where
  "find_next_bit addr sz offset =
     (let p = drop (offset div BITS_PER_LONG) addr;
          result = offset div BITS_PER_LONG * BITS_PER_LONG
      in if sz \<le> offset then Some sz
         else let sz = sz - result; offset = offset mod BITS_PER_LONG
         in if offset \<noteq> 0
            then case p of
                [] \<Rightarrow> None
              | tmp # p' \<Rightarrow>
                  let tmp = tmp AND push_bit offset (NOT 0)
                  in if sz < BITS_PER_LONG
                     then let tmp = tmp AND drop_bit (BITS_PER_LONG - sz) (NOT 0)
                          in if tmp = 0 then Some (result + sz) else Some (result + ffs_word tmp)
                     else if tmp \<noteq> 0 then Some (result + ffs_word tmp)
                     else find_first_bit_loop p' (result + BITS_PER_LONG) (sz - BITS_PER_LONG)
            else find_first_bit_loop p result sz)"

definition find_next_zero_bit :: "ulong list \<Rightarrow> nat \<Rightarrow> nat \<Rightarrow> nat option" where
  "find_next_zero_bit addr sz offset =
     (let p = drop (offset div BITS_PER_LONG) addr;
          result = offset div BITS_PER_LONG * BITS_PER_LONG
      in if sz \<le> offset then Some sz
         else let sz = sz - result; offset = offset mod BITS_PER_LONG
         in if offset \<noteq> 0
            then case p of
                [] \<Rightarrow> None
              | tmp # p' \<Rightarrow>
                  let tmp = tmp OR drop_bit (BITS_PER_LONG - offset) (NOT 0)
                  in if sz < BITS_PER_LONG
                     then let tmp = tmp OR push_bit sz (NOT 0)
                          in if tmp = NOT 0 then Some (result + sz) else Some (result + ffz tmp)
                     else if NOT tmp \<noteq> 0 then Some (result + ffz tmp)
                     else find_first_zero_bit_loop p' (result + BITS_PER_LONG) (sz - BITS_PER_LONG)
            else find_first_zero_bit_loop p result sz)"

section \<open>Single bits\<close>

definition set_bit_at :: "nat \<Rightarrow> ulong list \<Rightarrow> ulong list option" where
  "set_bit_at nr addr =
     (let i = nr div BITS_PER_LONG
      in if i < length addr then Some (addr[i := addr ! i OR push_bit (nr mod BITS_PER_LONG) 1]) else None)"

definition clear_bit_at :: "nat \<Rightarrow> ulong list \<Rightarrow> ulong list option" where
  "clear_bit_at nr addr =
     (let i = nr div BITS_PER_LONG
      in if i < length addr
         then Some (addr[i := addr ! i AND NOT (push_bit (nr mod BITS_PER_LONG) 1)]) else None)"

definition test_bit_at :: "nat \<Rightarrow> ulong list \<Rightarrow> bool option" where
  "test_bit_at nr addr =
     (let i = nr div BITS_PER_LONG
      in if i < length addr then Some (1 AND drop_bit (nr mod BITS_PER_LONG) (addr ! i) \<noteq> 0) else None)"

section \<open>Bitmaps and hart masks\<close>

fun bitmap_op :: "(ulong \<Rightarrow> ulong \<Rightarrow> ulong) \<Rightarrow> ulong list \<Rightarrow> ulong list \<Rightarrow> ulong list \<Rightarrow> nat \<Rightarrow> nat \<Rightarrow> ulong list option" where
  "bitmap_op f dst b1 b2 k 0 = Some dst"
| "bitmap_op f dst b1 b2 k (Suc n) =
     (if k < length dst \<and> k < length b1 \<and> k < length b2
      then bitmap_op f (dst[k := f (b1 ! k) (b2 ! k)]) b1 b2 (Suc k) n else None)"

definition BITS_TO_LONGS :: "nat \<Rightarrow> nat" where
  "BITS_TO_LONGS nbits = (nbits + BITS_PER_LONG - 1) div BITS_PER_LONG"

definition bitmap_and :: "ulong list \<Rightarrow> ulong list \<Rightarrow> ulong list \<Rightarrow> nat \<Rightarrow> ulong list option" where
  "bitmap_and dst b1 b2 bits = bitmap_op (\<lambda>x y. x AND y) dst b1 b2 0 (BITS_TO_LONGS bits)"

definition bitmap_or :: "ulong list \<Rightarrow> ulong list \<Rightarrow> ulong list \<Rightarrow> nat \<Rightarrow> ulong list option" where
  "bitmap_or dst b1 b2 bits = bitmap_op (\<lambda>x y. x OR y) dst b1 b2 0 (BITS_TO_LONGS bits)"

definition bitmap_xor :: "ulong list \<Rightarrow> ulong list \<Rightarrow> ulong list \<Rightarrow> nat \<Rightarrow> ulong list option" where
  "bitmap_xor dst b1 b2 bits = bitmap_op (\<lambda>x y. x XOR y) dst b1 b2 0 (BITS_TO_LONGS bits)"

abbreviation (input) SBI_HARTMASK_MAX_BITS :: nat where "SBI_HARTMASK_MAX_BITS \<equiv> 128"

type_synonym sbi_hartmask = "ulong list"

definition hartmask_zero :: sbi_hartmask where
  "hartmask_zero = [0, 0]"

definition sbi_hartmask_set_hart :: "nat \<Rightarrow> sbi_hartmask \<Rightarrow> sbi_hartmask option" where
  "sbi_hartmask_set_hart h m = (if h < SBI_HARTMASK_MAX_BITS then set_bit_at h m else Some m)"

definition sbi_hartmask_clear_hart :: "nat \<Rightarrow> sbi_hartmask \<Rightarrow> sbi_hartmask option" where
  "sbi_hartmask_clear_hart h m = (if h < SBI_HARTMASK_MAX_BITS then clear_bit_at h m else Some m)"

definition sbi_hartmask_test_hart :: "nat \<Rightarrow> sbi_hartmask \<Rightarrow> bool option" where
  "sbi_hartmask_test_hart h m = (if h < SBI_HARTMASK_MAX_BITS then test_bit_at h m else Some False)"

text \<open>
  The loop macro \<^verbatim>\<open>for_each_set_bit\<close>: the list of the bits whose loop body runs. Every round moves
  to a higher bit below \<open>sz\<close>, so \<open>sz + 1\<close> rounds of fuel are enough.
\<close>

fun for_each_set_bit_loop :: "nat \<Rightarrow> ulong list \<Rightarrow> nat \<Rightarrow> nat \<Rightarrow> nat list option" where
  "for_each_set_bit_loop 0 addr sz b = None"
| "for_each_set_bit_loop (Suc fuel) addr sz b =
     (if b < sz
      then case find_next_bit addr sz (b + 1) of
          None \<Rightarrow> None
        | Some b' \<Rightarrow> map_option (Cons b) (for_each_set_bit_loop fuel addr sz b')
      else Some [])"

definition for_each_set_bit :: "ulong list \<Rightarrow> nat \<Rightarrow> nat list option" where
  "for_each_set_bit addr sz =
     (case find_first_bit addr sz of None \<Rightarrow> None | Some b \<Rightarrow> for_each_set_bit_loop (Suc sz) addr sz b)"

definition sbi_hartmask_for_each_hart :: "sbi_hartmask \<Rightarrow> nat list option" where
  "sbi_hartmask_for_each_hart m = for_each_set_bit m SBI_HARTMASK_MAX_BITS"

text \<open>\<^verbatim>\<open>sbi_math.c\<close>; the loop runs at most \<^verbatim>\<open>__riscv_xlen\<close> times.\<close>

function log2roundup_loop :: "ulong \<Rightarrow> nat \<Rightarrow> nat" where
  "log2roundup_loop x ret =
     (if ret < 64 then if x \<le> push_bit ret 1 then ret else log2roundup_loop x (ret + 1) else ret)"
  by pat_completeness auto
termination by (relation "measure (\<lambda>(x, ret). 64 - ret)") auto

declare log2roundup_loop.simps [simp del]

definition log2roundup :: "ulong \<Rightarrow> nat" where
  "log2roundup x = log2roundup_loop x 0"

declare find_first_bit_loop.simps [simp del] find_first_zero_bit_loop.simps [simp del]

section \<open>The searches find the first bit\<close>

definition first_true :: "(nat \<Rightarrow> bool) \<Rightarrow> nat \<Rightarrow> nat" where
  "first_true P n = length (takeWhile (\<lambda>i. \<not> P i) [0..<n])"

lemma first_true_le: "first_true P n \<le> n"
  using length_takeWhile_le [of "\<lambda>i. \<not> P i" "[0..<n]"] by (simp add: first_true_def)

lemma first_true_before: "i < first_true P n \<Longrightarrow> \<not> P i"
  using first_true_le [of P n] nth_mem [of i "takeWhile (\<lambda>i. \<not> P i) [0..<n]"]
  by (auto simp: first_true_def takeWhile_nth dest: set_takeWhileD)

lemma first_true_at: "first_true P n < n \<Longrightarrow> P (first_true P n)"
  using nth_length_takeWhile [of "\<lambda>i. \<not> P i" "[0..<n]"] by (simp add: first_true_def)

lemma first_true_eqI:
  assumes "r \<le> n" and "\<And>i. i < r \<Longrightarrow> \<not> P i" and "r < n \<Longrightarrow> P r"
  shows "first_true P n = r"
  using assms first_true_le [of P n] first_true_before [of _ P n] first_true_at [of P n]
  by (metis linorder_neqE_nat order_less_le_trans)

lemma first_true_add:
  "first_true P (m + n) =
    (if first_true P m < m then first_true P m else m + first_true (\<lambda>i. P (m + i)) n)"
proof (cases "first_true P m < m")
  case True
  then show ?thesis
    using first_true_before [of _ P m] first_true_at [of P m] by (auto intro!: first_true_eqI)
next
  case False
  then have m: "first_true P m = m" using first_true_le [of P m] by simp
  have "\<not> P i" if "i < m + first_true (\<lambda>i. P (m + i)) n" for i
    using that first_true_before [of i P m] first_true_before [of "i - m" "\<lambda>i. P (m + i)" n] m
    by (cases "i < m") auto
  then show ?thesis
    using False first_true_le [of "\<lambda>i. P (m + i)" n] first_true_at [of "\<lambda>i. P (m + i)" n]
    by (auto intro!: first_true_eqI)
qed

text \<open>
  The state of the binary search: \<open>num\<close> low bits of the word are known to be zero and were shifted
  out, and one of the next \<open>k\<close> bits is set.
\<close>

definition ffs_inv :: "ulong \<Rightarrow> nat \<Rightarrow> nat \<times> ulong \<Rightarrow> bool" where
  "ffs_inv w k st \<longleftrightarrow> (case st of (num, v) \<Rightarrow>
     v = drop_bit num w \<and> (\<forall>i < num. \<not> bit w i) \<and> (\<exists>j < k. bit w (num + j)))"

lemma and_mask_0_iff: "(v :: ulong) AND mask k = 0 \<longleftrightarrow> (\<forall>j < k. \<not> bit v j)"
proof -
  have "j < 64" if "bit v j" for j using bit_imp_le_length [OF that] by simp
  then show ?thesis by (auto simp: bit_eq_iff bit_simps)
qed

lemma ffs_round_inv:
  assumes "ffs_inv w (k + k) st"
  shows "ffs_inv w k (ffs_round k (mask k) st)"
proof -
  obtain num v where st: "st = (num, v)" by (cases st)
  from assms obtain j where v: "v = drop_bit num w" and below: "\<forall>i < num. \<not> bit w i"
    and j: "j < k + k" "bit w (num + j)" unfolding ffs_inv_def st by auto
  show ?thesis
  proof (cases "v AND mask k = 0")
    case True
    then have z: "\<forall>j < k. \<not> bit w (num + j)" by (simp add: and_mask_0_iff v bit_simps)
    have "\<not> bit w i" if "i < num + k" for i
      using that below z [rule_format, of "i - num"] by (cases "i < num") auto
    moreover from z j have "k \<le> j" by (meson not_le)
    ultimately show ?thesis
      using True j by (auto simp: ffs_inv_def ffs_round_def st v drop_bit_drop_bit add.commute intro!: exI [of _ "j - k"])
  next
    case False
    then show ?thesis
      using below by (auto simp: ffs_inv_def ffs_round_def st v and_mask_0_iff bit_simps)
  qed
qed

lemma ffs_word_first:
  assumes "w \<noteq> 0"
  shows "ffs_word w < 64 \<and> bit w (ffs_word w) \<and> (\<forall>i < ffs_word w. \<not> bit w i)"
proof -
  have masks: "(0xffffffff :: ulong) = mask 32" "(0xffff :: ulong) = mask 16" "(0xff :: ulong) = mask 8"
    "(0xf :: ulong) = mask 4" "(0x3 :: ulong) = mask 2" "(0x1 :: ulong) = mask 1"
    by (simp_all add: mask_eq_exp_minus_1)
  from assms obtain j where "j < 64" "bit w j" by (auto simp: bit_eq_iff)
  then have "ffs_inv w 64 (0, w)" by (auto simp: ffs_inv_def)
  from ffs_round_inv [of w 32 "(0, w)", simplified, OF this, THEN ffs_round_inv [of w 16, simplified],
      THEN ffs_round_inv [of w 8, simplified], THEN ffs_round_inv [of w 4, simplified],
      THEN ffs_round_inv [of w 2, simplified]]
  obtain num v where st: "ffs_round 2 (mask 2) (ffs_round 4 (mask 4) (ffs_round 8 (mask 8)
      (ffs_round 16 (mask 16) (ffs_round 32 (mask 32) (0, w))))) = (num, v)"
    and inv: "ffs_inv w 2 (num, v)" by (metis surj_pair)
  from ffs_round_inv [of w 1 "(num, v)"] inv
  have "ffs_inv w 1 (ffs_round 1 (mask 1) (num, v))" by (simp add: numeral_2_eq_2)
  moreover have "ffs_word w = fst (ffs_round 1 (mask 1) (num, v))"
    unfolding ffs_word_def masks Let_def st by (simp add: ffs_round_def)
  ultimately show ?thesis
    by (auto simp: ffs_inv_def split: prod.splits dest: bit_imp_le_length)
qed

lemma ffs_word_eq: "w \<noteq> 0 \<Longrightarrow> ffs_word w = first_true (bit w) 64"
  using ffs_word_first [of w] by (intro first_true_eqI [symmetric]) auto

text \<open>Bit \<open>i\<close> of a bitmap.\<close>

definition bitmap_bit :: "ulong list \<Rightarrow> nat \<Rightarrow> bool" where
  "bitmap_bit addr i \<longleftrightarrow> bit (addr ! (i div BITS_PER_LONG)) (i mod BITS_PER_LONG)"

lemma bitmap_bit_Cons: "bitmap_bit (w # p) (64 + i) = bitmap_bit p i"
  using div_add_self1 [of 64 i] by (simp add: bitmap_bit_def del: div_add_self1)

lemma bitmap_bit_head: "i < 64 \<Longrightarrow> bitmap_bit (w # p) i = bit w i"
  by (simp add: bitmap_bit_def)

lemma drop_bit_ones: "n \<le> 64 \<Longrightarrow> drop_bit (64 - n) (NOT 0 :: ulong) = mask n"
  by (rule bit_word_eqI) (auto simp: bit_simps)

lemma first_true_cong: "(\<And>i. i < n \<Longrightarrow> P i = Q i) \<Longrightarrow> first_true P n = first_true Q n"
  using first_true_le [of Q n] first_true_before [of _ Q n] first_true_at [of Q n]
  by (intro first_true_eqI) auto

lemma first_true_none: "(\<And>i. i < n \<Longrightarrow> \<not> P i) \<Longrightarrow> first_true P n = n"
  by (intro first_true_eqI) auto

text \<open>The masked last word: at most \<open>n\<close> bits count.\<close>

lemma masked_word_first:
  assumes "n \<le> 64"
  shows "(if w AND mask n = (0 :: ulong) then n else ffs_word (w AND mask n)) = first_true (bit w) n"
proof (cases "w AND mask n = 0")
  case True
  then show ?thesis by (simp add: and_mask_0_iff first_true_none)
next
  case False
  with ffs_word_first [OF False] show ?thesis
    by (auto simp: bit_simps intro!: first_true_eqI [symmetric])
qed

lemma find_first_bit_loop_eq:
  "n \<le> 64 * length p \<Longrightarrow> find_first_bit_loop p result n = Some (result + first_true (bitmap_bit p) n)"
proof (induction p arbitrary: result n)
  case Nil
  then show ?case by (simp add: find_first_bit_loop.simps first_true_def)
next
  case (Cons w p)
  show ?case
  proof (cases "64 \<le> n")
    case True
    then have n: "n = 64 + (n - 64)" by simp
    have head: "first_true (bitmap_bit (w # p)) 64 = first_true (bit w) 64"
      by (rule first_true_cong) (simp add: bitmap_bit_head)
    have zero: "first_true (bit w) 64 = 64" if "w = 0" using that by (simp add: first_true_none)
    have "first_true (bitmap_bit (w # p)) n =
        (if w \<noteq> 0 then ffs_word w else 64 + first_true (bitmap_bit p) (n - 64))"
      using ffs_word_first [of w] zero
      by (subst n, subst first_true_add) (auto simp: head bitmap_bit_Cons ffs_word_eq)
    moreover have "find_first_bit_loop (w # p) result n = (if w \<noteq> 0 then Some (result + ffs_word w)
        else find_first_bit_loop p (result + 64) (n - 64))"
      using True by (subst find_first_bit_loop.simps) simp
    ultimately show ?thesis using Cons.IH [of "n - 64" "result + 64"] Cons.prems True by simp
  next
    case False
    then have "first_true (bitmap_bit (w # p)) n = first_true (bit w) n"
      by (intro first_true_cong) (simp add: bitmap_bit_head)
    then show ?thesis
      using False masked_word_first [of n w]
      by (subst find_first_bit_loop.simps)
        (auto simp: drop_bit_ones Let_def first_true_def split: if_splits)
  qed
qed

text \<open>The search for a zero is the search for a one in the complement.\<close>

lemma or_ones_iff: "w OR push_bit n (NOT 0) = NOT (0 :: ulong) \<longleftrightarrow> NOT w AND mask n = 0"
proof -
  have "NOT (w OR push_bit n (NOT 0)) = NOT w AND mask n"
    by (rule bit_word_eqI) (auto simp: bit_simps)
  then show ?thesis by (metis bit.compl_zero bit.double_compl)
qed

lemma ffz_or_ones: "ffz (w OR push_bit n (NOT 0)) = ffs_word (NOT w AND mask n)"
proof -
  have "NOT (w OR push_bit n (NOT 0)) = NOT w AND mask n"
    by (rule bit_word_eqI) (auto simp: bit_simps)
  then show ?thesis by (simp add: ffz_def)
qed

lemma find_first_zero_bit_loop_eq:
  "find_first_zero_bit_loop p result n = find_first_bit_loop (map NOT p) result n"
proof (induction p arbitrary: result n)
  case Nil
  then show ?case by (simp add: find_first_bit_loop.simps find_first_zero_bit_loop.simps)
next
  case (Cons w p)
  then show ?case
    by (subst find_first_bit_loop.simps, subst find_first_zero_bit_loop.simps)
      (simp add: drop_bit_ones Let_def or_ones_iff [simplified] ffz_or_ones [simplified]
        ffz_def [symmetric])
qed

lemma find_next_bit_eq:
  assumes "n \<le> 64 * length addr"
  shows "find_next_bit addr n off = Some (first_true (\<lambda>i. off \<le> i \<and> bitmap_bit addr i) n)"
proof (cases "n \<le> off")
  case True
  then show ?thesis by (simp add: find_next_bit_def first_true_none)
next
  case False
  define q r where "q = off div 64" and "r = off mod 64"
  have off: "off = q * 64 + r" "r < 64" by (simp_all add: q_def r_def)
  with False assms have q: "q < length addr" "q * 64 \<le> n" by linarith+
  define w p where "w = addr ! q" and "p = drop (Suc q) addr"
  have split: "drop q addr = w # p" using q(1) by (simp add: w_def p_def Cons_nth_drop_Suc)
  have bits: "bitmap_bit addr (q * 64 + i) = bitmap_bit (w # p) i" for i
    using q(1) by (simp add: bitmap_bit_def flip: split)
  define P where "P i \<longleftrightarrow> r \<le> i \<and> bitmap_bit (w # p) i" for i
  have "first_true (\<lambda>i. off \<le> i \<and> bitmap_bit addr i) (q * 64) = q * 64"
    using off by (intro first_true_none) auto
  then have skip: "first_true (\<lambda>i. off \<le> i \<and> bitmap_bit addr i) n = q * 64 + first_true P (n - q * 64)"
    using first_true_add [of "\<lambda>i. off \<le> i \<and> bitmap_bit addr i" "q * 64" "n - q * 64"] q(2)
    by (simp add: off(1) bits P_def [abs_def])
  let ?m = "n - q * 64" and ?t = "w AND push_bit r (NOT 0)"
  have len: "?m \<le> 64 * length (w # p)" using assms q by (simp add: p_def)
  have low: "first_true P k = first_true (bit ?t) k" if "k \<le> 64" for k
    using that by (intro first_true_cong) (auto simp: P_def bitmap_bit_head bit_simps)
  have high: "P (64 + i) = bitmap_bit p i" for i using off(2) by (simp add: P_def bitmap_bit_Cons)
  have code: "find_next_bit addr n off = (if r \<noteq> 0
      then if ?m < 64 then if ?t AND mask ?m = 0 then Some (q * 64 + ?m) else Some (q * 64 + ffs_word (?t AND mask ?m))
           else if ?t \<noteq> 0 then Some (q * 64 + ffs_word ?t) else find_first_bit_loop p (q * 64 + 64) (?m - 64)
      else find_first_bit_loop (w # p) (q * 64) ?m)"
    using False unfolding find_next_bit_def q_def [symmetric] r_def [symmetric] split
    by (simp add: Let_def drop_bit_ones)
  show ?thesis
  proof (cases "r = 0")
    case True
    then have "P = bitmap_bit (w # p)" by (simp add: P_def fun_eq_iff)
    with True code skip find_first_bit_loop_eq [OF len] show ?thesis by simp
  next
    case r: False
    show ?thesis
    proof (cases "?m < 64")
      case True
      then show ?thesis using r code skip low [of ?m] masked_word_first [of ?m ?t] by (auto split: if_splits)
    next
      case False
      have zero: "first_true (bit ?t) 64 = (if ?t = 0 then 64 else ffs_word ?t)"
        using masked_word_first [of 64 ?t] by (simp add: first_true_none ffs_word_eq)
      have "first_true P (64 + (?m - 64)) = (if ?t = 0 then 64 + first_true (bitmap_bit p) (?m - 64) else ffs_word ?t)"
        using low [of 64] zero ffs_word_first [of ?t] by (subst first_true_add) (simp add: high)
      then show ?thesis
        using False r code skip find_first_bit_loop_eq [of "?m - 64" p "q * 64 + 64"] len by simp
    qed
  qed
qed

section \<open>Iterating over the set bits\<close>

lemma filter_upt_first_true:
  "filter P [b..<n] = (let k = first_true (\<lambda>i. b \<le> i \<and> P i) n in if k < n then k # filter P [Suc k..<n] else [])"
proof -
  define k where "k = first_true (\<lambda>i. b \<le> i \<and> P i) n"
  have before: "\<not> P i" if "b \<le> i" "i < k" for i
    using first_true_before [of i "\<lambda>i. b \<le> i \<and> P i" n] that by (auto simp: k_def)
  show ?thesis
  proof (cases "k < n")
    case True
    with first_true_at [of "\<lambda>i. b \<le> i \<and> P i" n] have k: "b \<le> k" "P k" by (auto simp: k_def)
    have "[b..<n] = [b..<k] @ k # [Suc k..<n]"
      using True k(1) by (metis le_add_diff_inverse less_imp_le_nat upt_add_eq_append upt_conv_Cons)
    moreover have "filter P [b..<k] = []" using before by (auto simp: filter_empty_conv)
    ultimately show ?thesis using True k by (simp add: k_def [symmetric] Let_def)
  next
    case False
    then have "filter P [b..<n] = []" using before by (auto simp: filter_empty_conv)
    with False show ?thesis by (simp add: k_def [symmetric] Let_def)
  qed
qed

lemma for_each_set_bit_loop_eq:
  assumes "sz \<le> 64 * length addr"
  shows "sz < b + fuel \<Longrightarrow> b \<le> sz \<Longrightarrow>
    for_each_set_bit_loop fuel addr sz b =
      Some (if b < sz then b # filter (bitmap_bit addr) [Suc b..<sz] else [])"
proof (induction fuel arbitrary: b)
  case 0
  then show ?case by simp
next
  case (Suc fuel)
  show ?case
  proof (cases "b < sz")
    case True
    define k where "k = first_true (\<lambda>i. Suc b \<le> i \<and> bitmap_bit addr i) sz"
    have le: "k \<le> sz" by (simp add: k_def first_true_le)
    have gt: "b < k"
      using first_true_at [of "\<lambda>i. Suc b \<le> i \<and> bitmap_bit addr i" sz] le True
      by (cases "k < sz") (auto simp: k_def [symmetric])
    have "sz < k + fuel" using gt Suc.prems by simp
    from Suc.IH [OF this le] show ?thesis
      using True by (simp add: find_next_bit_eq [OF assms] k_def [symmetric]
          filter_upt_first_true [of _ "Suc b" sz] Let_def)
  qed simp
qed

lemma for_each_set_bit_eq:
  "sz \<le> 64 * length addr \<Longrightarrow> for_each_set_bit addr sz = Some (filter (bitmap_bit addr) [0..<sz])"
  using filter_upt_first_true [of "bitmap_bit addr" 0 sz]
  by (simp add: for_each_set_bit_def find_first_bit_def find_first_bit_loop_eq for_each_set_bit_loop_eq Let_def first_true_le
      del: for_each_set_bit_loop.simps)

lemma set_bit_at_bits:
  assumes "nr < 64 * length addr"
  shows "\<exists>addr'. set_bit_at nr addr = Some addr' \<and> length addr' = length addr \<and>
    (\<forall>i. bitmap_bit addr' i \<longleftrightarrow> bitmap_bit addr i \<or> i = nr)"
proof -
  have d: "nr div 64 < length addr" using assms by (simp add: less_mult_imp_div_less mult.commute)
  have eq: "(i div 64 = nr div 64 \<and> i mod 64 = nr mod 64) = (i = nr)" for i :: nat
    by (metis div_mult_mod_eq)
  show ?thesis
    using d by (auto simp: set_bit_at_def bitmap_bit_def Let_def nth_list_update bit_simps simp flip: eq)
qed

lemma clear_bit_at_bits:
  assumes "nr < 64 * length addr"
  shows "\<exists>addr'. clear_bit_at nr addr = Some addr' \<and> length addr' = length addr \<and>
    (\<forall>i. bitmap_bit addr' i \<longleftrightarrow> bitmap_bit addr i \<and> i \<noteq> nr)"
proof -
  have d: "nr div 64 < length addr" using assms by (simp add: less_mult_imp_div_less mult.commute)
  have eq: "(i div 64 = nr div 64 \<and> i mod 64 = nr mod 64) = (i = nr)" for i :: nat
    by (metis div_mult_mod_eq)
  show ?thesis
    using d by (auto simp: clear_bit_at_def bitmap_bit_def Let_def nth_list_update bit_simps simp flip: eq)
qed

lemma test_bit_at_bits: "nr < 64 * length addr \<Longrightarrow> test_bit_at nr addr = Some (bitmap_bit addr nr)"
  by (simp add: test_bit_at_def bitmap_bit_def Let_def less_mult_imp_div_less mult.commute
      bit_iff_odd_drop_bit one_and_eq odd_iff_mod_2_eq_one)

lemma hartmask_set_bits:
  "length m = 2 \<Longrightarrow> h < 128 \<Longrightarrow> \<exists>m'. sbi_hartmask_set_hart h m = Some m' \<and> length m' = 2 \<and>
    (\<forall>i. bitmap_bit m' i \<longleftrightarrow> bitmap_bit m i \<or> i = h)"
  using set_bit_at_bits [of h m] by (auto simp: sbi_hartmask_set_hart_def)

lemma hartmask_clear_bits:
  "length m = 2 \<Longrightarrow> h < 128 \<Longrightarrow> \<exists>m'. sbi_hartmask_clear_hart h m = Some m' \<and> length m' = 2 \<and>
    (\<forall>i. bitmap_bit m' i \<longleftrightarrow> bitmap_bit m i \<and> i \<noteq> h)"
  using clear_bit_at_bits [of h m] by (auto simp: sbi_hartmask_clear_hart_def)

lemma hartmask_test_bits:
  "length m = 2 \<Longrightarrow> sbi_hartmask_test_hart h m = Some (h < 128 \<and> bitmap_bit m h)"
  using test_bit_at_bits [of h m] by (simp add: sbi_hartmask_test_hart_def)

lemma hartmask_for_each_eq:
  "length m = 2 \<Longrightarrow> sbi_hartmask_for_each_hart m = Some (filter (bitmap_bit m) [0..<128])"
  by (simp add: sbi_hartmask_for_each_hart_def for_each_set_bit_eq)

text \<open>
  Iterating over a hart mask with \<^verbatim>\<open>sbi_hartmask_for_each_hart\<close> terminates without leaving the
  mask and runs the loop body exactly once for every hart in the mask, in increasing order.
\<close>

theorem hartmask_for_each_visits:
  assumes "length m = 2"
  shows "sbi_hartmask_for_each_hart m = Some (filter (\<lambda>h. sbi_hartmask_test_hart h m = Some True) [0..<128])"
  using assms by (auto simp: hartmask_for_each_eq hartmask_test_bits intro: filter_cong)

theorem hartmask_for_each_visits_witness:
  "sbi_hartmask_for_each_hart [5, 2] = Some [0, 2, 65]"
proof -
  have "filter (\<lambda>h. sbi_hartmask_test_hart h [5, 2] = Some True) [0..<128] = [0, 2, 65]"
    by code_simp
  then show ?thesis using hartmask_for_each_visits [of "[5, 2]"] by simp
qed

section \<open>Rounding up to a power of two\<close>

lemma unat_push_bit_one: "r < 64 \<Longrightarrow> unat (push_bit r 1 :: ulong) = 2 ^ r"
proof -
  assume "r < 64"
  then have "unat (word_of_nat (2 ^ r) :: ulong) = 2 ^ r"
    unfolding unsigned_of_nat by (simp add: take_bit_nat_eq_self_iff)
  then show ?thesis by simp
qed

lemma log2roundup_loop_eq:
  assumes "ret \<le> 64" and "\<forall>i < ret. \<not> unat x \<le> 2 ^ i"
  shows "log2roundup_loop x ret = first_true (\<lambda>r. unat x \<le> 2 ^ r) 64"
  using assms
proof (induction x ret rule: log2roundup_loop.induct)
  case (1 x ret)
  show ?case
  proof (cases "ret < 64 \<and> \<not> x \<le> push_bit ret 1")
    case True
    then have "\<not> unat x \<le> 2 ^ ret" using unat_push_bit_one [of ret] by (simp add: word_le_nat_alt)
    with 1 True show ?thesis by (subst log2roundup_loop.simps) (simp add: less_Suc_eq)
  next
    case False
    with 1 have "first_true (\<lambda>r. unat x \<le> 2 ^ r) 64 = ret"
      by (intro first_true_eqI) (use unat_push_bit_one [of ret] in \<open>auto simp: word_le_nat_alt\<close>)
    with False show ?thesis by (subst log2roundup_loop.simps) auto
  qed
qed

lemma log2roundup_eq: "log2roundup x = first_true (\<lambda>r. unat x \<le> 2 ^ r) 64"
  by (simp add: log2roundup_def log2roundup_loop_eq)

lemma log2roundup_upper: "unat x \<le> 2 ^ log2roundup x"
proof (cases "log2roundup x < 64")
  case True
  then show ?thesis using first_true_at [of "\<lambda>r. unat x \<le> 2 ^ r" 64] by (simp add: log2roundup_eq)
next
  case False
  then have "log2roundup x = 64" using first_true_le [of "\<lambda>r. unat x \<le> 2 ^ r" 64] by (simp add: log2roundup_eq)
  then show ?thesis using unat_less_width [of x] by simp
qed

lemma log2roundup_least: "i < log2roundup x \<Longrightarrow> 2 ^ i < unat x"
  using first_true_before [of i "\<lambda>r. unat x \<le> 2 ^ r" 64] by (simp add: log2roundup_eq)

lemma log2roundup_le: "log2roundup x \<le> 64"
  by (simp add: log2roundup_eq first_true_le)

end
