(* ===== verification/Sbi_Domain.thy ===== *)
theory Sbi_Domain
  imports Sbi_Bitops "HOL-Library.Multiset"
begin

text \<open>
  Isolation domains, \<^verbatim>\<open>lib/sbi/sbi_domain.c\<close>: memory regions, the address check that the ecall
  handlers rely on, the sanitisation that validates and sorts the regions of a domain, the
  registration of domains with the assignment of harts, and the growth of the root domain.

  A domain object is named by a natural number (its address; the root domain is \<open>ROOT\<close>). The
  region array of a domain is a list that includes the terminating entry of order zero. Orders
  are naturals; \<^verbatim>\<open>1UL << n\<close> is \<open>BIT\<close>, which takes the low six bits of \<open>n\<close> as the RV64 shift
  does. Console output is left out. The platform is the parameter \<open>hart_invalid\<close>.
\<close>

section \<open>Regions\<close>

record sbi_domain_memregion =
  mr_order :: nat
  mr_base :: ulong
  mr_flags :: ulong

abbreviation (input) SBI_DOMAIN_READ :: ulong where "SBI_DOMAIN_READ \<equiv> 1"
abbreviation (input) SBI_DOMAIN_WRITE :: ulong where "SBI_DOMAIN_WRITE \<equiv> 2"
abbreviation (input) SBI_DOMAIN_EXECUTE :: ulong where "SBI_DOMAIN_EXECUTE \<equiv> 4"
abbreviation (input) SBI_DOMAIN_MMIO :: ulong where "SBI_DOMAIN_MMIO \<equiv> 8"

abbreviation (input) SBI_DOMAIN_MEMREGION_READABLE :: ulong where "SBI_DOMAIN_MEMREGION_READABLE \<equiv> 1"
abbreviation (input) SBI_DOMAIN_MEMREGION_WRITEABLE :: ulong where "SBI_DOMAIN_MEMREGION_WRITEABLE \<equiv> 2"
abbreviation (input) SBI_DOMAIN_MEMREGION_EXECUTABLE :: ulong where "SBI_DOMAIN_MEMREGION_EXECUTABLE \<equiv> 4"
abbreviation (input) SBI_DOMAIN_MEMREGION_MMODE :: ulong where "SBI_DOMAIN_MEMREGION_MMODE \<equiv> 8"
abbreviation (input) SBI_DOMAIN_MEMREGION_MMIO :: ulong where "SBI_DOMAIN_MEMREGION_MMIO \<equiv> 0x80000000"

abbreviation (input) PRV_U :: ulong where "PRV_U \<equiv> 0"
abbreviation (input) PRV_S :: ulong where "PRV_S \<equiv> 1"
abbreviation (input) PRV_M :: ulong where "PRV_M \<equiv> 3"

abbreviation (input) riscv_xlen :: nat where "riscv_xlen \<equiv> 64"

definition BIT :: "nat \<Rightarrow> ulong" where
  "BIT nr = push_bit (nr mod 64) 1"

text \<open>The search for the smallest aligned block that holds the range, from \<open>log2roundup(size)\<close> up.\<close>

function memregion_loop :: "ulong \<Rightarrow> ulong \<Rightarrow> nat \<Rightarrow> ulong \<times> nat" where
  "memregion_loop addr sz order =
     (if order < riscv_xlen
      then let base = addr AND NOT (BIT order - 1)
           in if base \<le> addr \<and> addr < base + BIT order \<and>
                 base \<le> addr + sz - 1 \<and> addr + sz - 1 < base + BIT order
              then (base, order)
              else memregion_loop addr sz (order + 1)
      else (0, order))"
  by pat_completeness auto
termination by (relation "measure (\<lambda>(addr, sz, order). 64 - order)") auto

declare memregion_loop.simps [simp del]

definition sbi_domain_memregion_init :: "ulong \<Rightarrow> ulong \<Rightarrow> ulong \<Rightarrow> sbi_domain_memregion" where
  "sbi_domain_memregion_init addr sz flags =
     (case memregion_loop addr sz (log2roundup sz) of
        (base, order) \<Rightarrow> \<lparr>mr_order = order, mr_base = base, mr_flags = flags\<rparr>)"

definition is_region_valid :: "sbi_domain_memregion \<Rightarrow> bool" where
  "is_region_valid reg \<longleftrightarrow>
     \<not> (mr_order reg < 3 \<or> riscv_xlen < mr_order reg) \<and> mr_base reg AND (BIT (mr_order reg) - 1) = 0"

definition is_region_subset :: "sbi_domain_memregion \<Rightarrow> sbi_domain_memregion \<Rightarrow> bool" where
  "is_region_subset regA regB \<longleftrightarrow>
     (let regA_start = mr_base regA;
          regA_end = mr_base regA + (BIT (mr_order regA) - 1);
          regB_start = mr_base regB;
          regB_end = mr_base regB + (BIT (mr_order regA) - 1)
      in regB_start \<le> regA_start \<and> regA_start < regB_end \<and> regB_start < regA_end \<and> regA_end \<le> regB_end)"

definition is_region_conflict :: "sbi_domain_memregion \<Rightarrow> sbi_domain_memregion \<Rightarrow> bool" where
  "is_region_conflict regA regB \<longleftrightarrow>
     (is_region_subset regA regB \<or> is_region_subset regB regA) \<and> mr_flags regA = mr_flags regB"

definition is_region_before :: "sbi_domain_memregion \<Rightarrow> sbi_domain_memregion \<Rightarrow> bool" where
  "is_region_before regA regB \<longleftrightarrow>
     mr_order regA < mr_order regB \<or> (mr_order regA = mr_order regB \<and> mr_base regA < mr_base regB)"

section \<open>Domains\<close>

record sbi_domain =
  dom_index :: nat
  assigned_harts :: sbi_hartmask
  possible_harts :: "sbi_hartmask option"
  regions :: "sbi_domain_memregion list option"
  boot_hartid :: nat
  dom_next_arg1 :: ulong
  dom_next_addr :: ulong
  dom_next_mode :: ulong
  system_reset_allowed :: bool

text \<open>\<^verbatim>\<open>sbi_domain_for_each_memregion\<close>: the entries before the first one of order zero.\<close>

definition memregions :: "sbi_domain_memregion list \<Rightarrow> sbi_domain_memregion list" where
  "memregions arr = takeWhile (\<lambda>r. mr_order r \<noteq> 0) arr"

definition sbi_domain_is_assigned_hart :: "sbi_domain option \<Rightarrow> nat \<Rightarrow> bool option" where
  "sbi_domain_is_assigned_hart dm hartid =
     (case dm of Some d \<Rightarrow> sbi_hartmask_test_hart hartid (assigned_harts d) | None \<Rightarrow> Some False)"

definition sbi_domain_get_assigned_hartmask :: "sbi_domain option \<Rightarrow> nat \<Rightarrow> ulong option" where
  "sbi_domain_get_assigned_hartmask dm hbase =
     (case dm of None \<Rightarrow> Some 0
      | Some d \<Rightarrow>
          (let bits = assigned_harts d; bword = hbase div 64; boff = hbase mod 64
           in if bword < length bits
              then let ret = drop_bit boff (bits ! bword); bword = bword + 1
                   in if boff \<noteq> 0 \<and> bword < SBI_HARTMASK_MAX_BITS div 64
                      then if bword < length bits
                           then Some (ret OR push_bit (64 - boff) (bits ! bword AND (BIT boff - 1)))
                           else None
                      else Some ret
              else None))"

definition region_end :: "sbi_domain_memregion \<Rightarrow> ulong" where
  "region_end reg = (if mr_order reg < riscv_xlen then mr_base reg + (BIT (mr_order reg) - 1) else - 1)"

fun check_addr_loop :: "sbi_domain_memregion list \<Rightarrow> ulong \<Rightarrow> ulong \<Rightarrow> ulong \<Rightarrow> bool \<Rightarrow> bool" where
  "check_addr_loop [] addr mode rwx mmio \<longleftrightarrow> mode = PRV_M"
| "check_addr_loop (reg # regs) addr mode rwx mmio \<longleftrightarrow>
     (let rflags = mr_flags reg
      in if mode = PRV_M \<and> rflags AND SBI_DOMAIN_MEMREGION_MMODE = 0
         then check_addr_loop regs addr mode rwx mmio
         else if mr_base reg \<le> addr \<and> addr \<le> region_end reg
         then if (mmio \<and> rflags AND SBI_DOMAIN_MEMREGION_MMIO = 0) \<or>
                 (\<not> mmio \<and> rflags AND SBI_DOMAIN_MEMREGION_MMIO \<noteq> 0)
              then False
              else rflags AND rwx = rwx
         else check_addr_loop regs addr mode rwx mmio)"

definition access_rwx :: "ulong \<Rightarrow> ulong" where
  "access_rwx access_flags =
     (let rwx = 0;
          rwx = (if access_flags AND SBI_DOMAIN_READ \<noteq> 0 then rwx OR SBI_DOMAIN_MEMREGION_READABLE else rwx);
          rwx = (if access_flags AND SBI_DOMAIN_WRITE \<noteq> 0 then rwx OR SBI_DOMAIN_MEMREGION_WRITEABLE else rwx)
      in if access_flags AND SBI_DOMAIN_EXECUTE \<noteq> 0 then rwx OR SBI_DOMAIN_MEMREGION_EXECUTABLE else rwx)"

definition sbi_domain_check_addr :: "sbi_domain option \<Rightarrow> ulong \<Rightarrow> ulong \<Rightarrow> ulong \<Rightarrow> bool" where
  "sbi_domain_check_addr dm addr mode access_flags =
     (case dm of None \<Rightarrow> False
      | Some d \<Rightarrow> check_addr_loop (memregions (case regions d of None \<Rightarrow> [] | Some arr \<Rightarrow> arr)) addr mode
          (access_rwx access_flags) (access_flags AND SBI_DOMAIN_MMIO \<noteq> 0))"

text \<open>The exchange sort of \<^verbatim>\<open>sanitize_domain\<close>; \<open>False\<close> is a conflict, which leaves the array as it is.\<close>

fun sort_inner :: "sbi_domain_memregion list \<Rightarrow> nat \<Rightarrow> nat \<Rightarrow> nat \<Rightarrow> bool \<times> sbi_domain_memregion list" where
  "sort_inner arr i j 0 = (True, arr)"
| "sort_inner arr i j (Suc n) =
     (if is_region_conflict (arr ! j) (arr ! i) then (False, arr)
      else if \<not> is_region_before (arr ! j) (arr ! i) then sort_inner arr i (j + 1) n
      else sort_inner (arr[j := arr ! i, i := arr ! j]) i (j + 1) n)"

fun sort_outer :: "sbi_domain_memregion list \<Rightarrow> nat \<Rightarrow> nat \<Rightarrow> nat \<Rightarrow> bool \<times> sbi_domain_memregion list" where
  "sort_outer arr i cnt 0 = (True, arr)"
| "sort_outer arr i cnt (Suc n) =
     (case sort_inner arr i (i + 1) (cnt - (i + 1)) of
        (False, arr) \<Rightarrow> (False, arr)
      | (True, arr) \<Rightarrow> sort_outer arr (i + 1) cnt n)"

definition sanitize_domain ::
  "(hartid \<Rightarrow> bool) \<Rightarrow> sbi_domain_memregion \<Rightarrow> sbi_domain \<Rightarrow> (int \<times> sbi_domain) option" where
  "sanitize_domain hart_invalid root_fw_region dm =
     (case possible_harts dm of
        None \<Rightarrow> Some (SBI_EINVAL, dm)
      | Some hmask \<Rightarrow>
          (case sbi_hartmask_for_each_hart hmask of
             None \<Rightarrow> None
           | Some harts \<Rightarrow>
               if \<exists>h \<in> set harts. hart_invalid h then Some (SBI_EINVAL, dm)
               else case regions dm of
                   None \<Rightarrow> Some (SBI_EINVAL, dm)
                 | Some arr \<Rightarrow>
                     if \<exists>r \<in> set (memregions arr). \<not> is_region_valid r then Some (SBI_EINVAL, dm)
                     else let cnt = length (memregions arr)
                     in if \<not> (\<exists>r \<in> set (memregions arr). mr_order r = mr_order root_fw_region \<and>
                               mr_base r = mr_base root_fw_region \<and> mr_flags r = mr_flags root_fw_region)
                        then Some (SBI_EINVAL, dm)
                        else case sort_outer arr 0 cnt (cnt - 1) of
                          (False, arr) \<Rightarrow> Some (SBI_EINVAL, dm\<lparr>regions := Some arr\<rparr>)
                        | (True, arr) \<Rightarrow>
                            (let dm = dm\<lparr>regions := Some arr\<rparr>
                             in if dom_next_mode dm \<noteq> PRV_S \<and> dom_next_mode dm \<noteq> PRV_U
                                then Some (SBI_EINVAL, dm)
                                else if \<not> sbi_domain_check_addr (Some dm) (dom_next_addr dm)
                                          (dom_next_mode dm) SBI_DOMAIN_EXECUTE
                                then Some (SBI_EINVAL, dm)
                                else Some (0, dm))))"

section \<open>The domain tables\<close>

text \<open>
  The global state of the file: the domain objects, the two tables, the counters and flags.
  \<open>root_regions_moved\<close> says that the platform replaced \<^verbatim>\<open>root.regions\<close> by an array of its own.
\<close>

abbreviation (input) SBI_DOMAIN_MAX_INDEX :: nat where "SBI_DOMAIN_MAX_INDEX \<equiv> 32"
abbreviation (input) ROOT_REGION_MAX :: nat where "ROOT_REGION_MAX \<equiv> 16"
abbreviation (input) ROOT :: nat where "ROOT \<equiv> 0"

record domain_sys =
  dom_obj :: "nat \<Rightarrow> sbi_domain"
  hartid_to_domain_table :: "nat \<Rightarrow> nat option"
  domidx_to_domain_table :: "nat option list"
  domain_count :: nat
  domain_finalized :: bool
  root_memregs_count :: nat
  root_fw_region :: sbi_domain_memregion
  root_regions_moved :: bool

definition obj_update :: "nat \<Rightarrow> (sbi_domain \<Rightarrow> sbi_domain) \<Rightarrow> domain_sys \<Rightarrow> domain_sys" where
  "obj_update d f s = s\<lparr>dom_obj := (dom_obj s)(d := f (dom_obj s d))\<rparr>"

text \<open>
  \<^verbatim>\<open>sbi_domain_for_each\<close> walks the index table up to the first null entry; walking past the end of the
  table is \<open>None\<close>.
\<close>

definition sbi_domain_for_each :: "domain_sys \<Rightarrow> nat list option" where
  "sbi_domain_for_each s =
     (if None \<in> set (domidx_to_domain_table s)
      then Some (map the (takeWhile (\<lambda>e. e \<noteq> None) (domidx_to_domain_table s))) else None)"

text \<open>One round of the loop over the mask of harts to assign.\<close>

definition assign_hart :: "nat \<Rightarrow> nat \<Rightarrow> nat \<Rightarrow> domain_sys \<Rightarrow> domain_sys option" where
  "assign_hart cold_hartid d i s =
     (case possible_harts (dom_obj s d) of
        None \<Rightarrow> None
      | Some hmask \<Rightarrow>
          (case sbi_hartmask_test_hart i hmask of
             None \<Rightarrow> None
           | Some False \<Rightarrow> Some s
           | Some True \<Rightarrow>
               (case (case hartid_to_domain_table s i of
                        None \<Rightarrow> Some s
                      | Some t \<Rightarrow>
                          map_option (\<lambda>m. obj_update t (\<lambda>x. x\<lparr>assigned_harts := m\<rparr>) s)
                            (sbi_hartmask_clear_hart i (assigned_harts (dom_obj s t)))) of
                  None \<Rightarrow> None
                | Some s \<Rightarrow>
                    (let s = s\<lparr>hartid_to_domain_table := (hartid_to_domain_table s)(i := Some d)\<rparr>
                     in case sbi_hartmask_set_hart i (assigned_harts (dom_obj s d)) of
                          None \<Rightarrow> None
                        | Some m \<Rightarrow>
                            (let s = obj_update d (\<lambda>x. x\<lparr>assigned_harts := m\<rparr>) s
                             in Some (if i = cold_hartid \<and> boot_hartid (dom_obj s d) \<noteq> cold_hartid
                                      then obj_update d (\<lambda>x. x\<lparr>boot_hartid := cold_hartid\<rparr>) s
                                      else s))))))"

fun assign_harts :: "nat \<Rightarrow> nat \<Rightarrow> nat list \<Rightarrow> domain_sys \<Rightarrow> domain_sys option" where
  "assign_harts cold_hartid d [] s = Some s"
| "assign_harts cold_hartid d (i # js) s =
     (case assign_hart cold_hartid d i s of None \<Rightarrow> None | Some s \<Rightarrow> assign_harts cold_hartid d js s)"

definition sbi_domain_register ::
  "(hartid \<Rightarrow> bool) \<Rightarrow> nat \<Rightarrow> nat option \<Rightarrow> sbi_hartmask option \<Rightarrow> domain_sys \<Rightarrow> (int \<times> domain_sys) option" where
  "sbi_domain_register hart_invalid cold_hartid dm assign_mask s =
     (case (dm, assign_mask) of
        (Some d, Some hmask) \<Rightarrow>
          (if domain_finalized s then Some (SBI_EINVAL, s)
           else case sbi_domain_for_each s of
               None \<Rightarrow> None
             | Some ds \<Rightarrow>
                 if d \<in> set ds then Some (SBI_EALREADY, s)
                 else if SBI_DOMAIN_MAX_INDEX \<le> domain_count s then Some (SBI_ENOSPC, s)
                 else case sanitize_domain hart_invalid (root_fw_region s) (dom_obj s d) of
                     None \<Rightarrow> None
                   | Some (rc, x) \<Rightarrow>
                       (let s = obj_update d (\<lambda>_. x) s
                        in if rc \<noteq> 0 then Some (rc, s)
                           else let s = obj_update d (\<lambda>x. x\<lparr>dom_index := domain_count s\<rparr>) s;
                                    s = s\<lparr>domain_count := domain_count s + 1,
                                          domidx_to_domain_table := (domidx_to_domain_table s)[domain_count s := Some d]\<rparr>;
                                    s = obj_update d (\<lambda>x. x\<lparr>assigned_harts := hartmask_zero\<rparr>) s
                                in case sbi_hartmask_for_each_hart hmask of
                                     None \<Rightarrow> None
                                   | Some harts \<Rightarrow> map_option (\<lambda>s. (0, s)) (assign_harts cold_hartid d harts s)))
      | _ \<Rightarrow> Some (SBI_EINVAL, s))"

text \<open>
  \<^verbatim>\<open>sbi_domain_root_add_memregion\<close>. Merging works on the array in place: the inner \<^verbatim>\<open>while\<close> copies
  every entry up to and including the terminator one place down.
\<close>

function shift_down :: "sbi_domain_memregion list \<Rightarrow> nat \<Rightarrow> sbi_domain_memregion list option" where
  "shift_down arr k =
     (if k < length arr
      then if mr_order (arr ! k) = 0 then Some arr
           else if k + 1 < length arr then shift_down (arr[k := arr ! (k + 1)]) (k + 1) else None
      else None)"
  by pat_completeness auto
termination by (relation "measure (\<lambda>(arr, k). length arr - k)") auto

declare shift_down.simps [simp del]

definition is_region_mergeable :: "sbi_domain_memregion \<Rightarrow> sbi_domain_memregion \<Rightarrow> bool" where
  "is_region_mergeable nreg nreg1 \<longleftrightarrow>
     mr_base nreg AND (BIT (mr_order nreg + 1) - 1) = 0 \<and>
     mr_base nreg + BIT (mr_order nreg) = mr_base nreg1 \<and>
     mr_order nreg = mr_order nreg1 \<and> mr_flags nreg = mr_flags nreg1"

text \<open>The pass over the regions: the flag, the counter and the array after it.\<close>

fun merge_pass ::
  "nat \<Rightarrow> sbi_domain_memregion list \<Rightarrow> nat \<Rightarrow> bool \<Rightarrow> nat \<Rightarrow> (bool \<times> nat \<times> sbi_domain_memregion list) option" where
  "merge_pass 0 arr k merged cnt = None"
| "merge_pass (Suc fuel) arr k merged cnt =
     (if k + 1 < length arr
      then if mr_order (arr ! k) = 0 then Some (merged, cnt, arr)
           else if mr_order (arr ! (k + 1)) = 0 then merge_pass fuel arr (k + 1) merged cnt
           else if is_region_mergeable (arr ! k) (arr ! (k + 1))
           then case shift_down (arr[k := (arr ! k)\<lparr>mr_order := mr_order (arr ! k) + 1\<rparr>]) (k + 1) of
                  None \<Rightarrow> None
                | Some arr \<Rightarrow> merge_pass fuel arr (k + 1) True (cnt - 1)
           else merge_pass fuel arr (k + 1) merged cnt
      else if k < length arr \<and> mr_order (arr ! k) = 0 then Some (merged, cnt, arr) else None)"

fun sort_merge_loop :: "nat \<Rightarrow> (hartid \<Rightarrow> bool) \<Rightarrow> domain_sys \<Rightarrow> (int \<times> domain_sys) option" where
  "sort_merge_loop 0 hart_invalid s = None"
| "sort_merge_loop (Suc fuel) hart_invalid s =
     (case sanitize_domain hart_invalid (root_fw_region s) (dom_obj s ROOT) of
        None \<Rightarrow> None
      | Some (rc, x) \<Rightarrow>
          (let s = obj_update ROOT (\<lambda>_. x) s
           in if rc \<noteq> 0 then Some (rc, s)
              else case regions x of
                  None \<Rightarrow> None
                | Some arr \<Rightarrow>
                    (case merge_pass (Suc (length arr)) arr 0 False (root_memregs_count s) of
                       None \<Rightarrow> None
                     | Some (merged, cnt, arr) \<Rightarrow>
                         (let s = (obj_update ROOT (\<lambda>x. x\<lparr>regions := Some arr\<rparr>) s)\<lparr>root_memregs_count := cnt\<rparr>
                          in if merged then sort_merge_loop fuel hart_invalid s else Some (0, s)))))"

definition sbi_domain_root_add_memregion ::
  "(hartid \<Rightarrow> bool) \<Rightarrow> sbi_domain_memregion option \<Rightarrow> domain_sys \<Rightarrow> (int \<times> domain_sys) option" where
  "sbi_domain_root_add_memregion hart_invalid reg s =
     (case reg of
        None \<Rightarrow> Some (SBI_EINVAL, s)
      | Some r \<Rightarrow>
          if domain_finalized s \<or> root_regions_moved s \<or> ROOT_REGION_MAX \<le> root_memregs_count s
          then Some (SBI_EINVAL, s)
          else case regions (dom_obj s ROOT) of
              None \<Rightarrow> None
            | Some arr \<Rightarrow>
                if \<exists>n \<in> set (memregions arr). is_region_conflict r n then Some (SBI_EINVAL, s)
                else let c = root_memregs_count s
                in if c + 1 < length arr
                   then let arr = arr[c := r, c + 1 := (arr ! (c + 1))\<lparr>mr_order := 0\<rparr>];
                            s = (obj_update ROOT (\<lambda>x. x\<lparr>regions := Some arr\<rparr>) s)\<lparr>root_memregs_count := c + 1\<rparr>
                        in sort_merge_loop (Suc (length arr)) hart_invalid s
                   else None)"

text \<open>
  \<^verbatim>\<open>sbi_domain_init\<close>: \<open>fw_start\<close>, \<open>fw_size\<close> and the next booting stage come from the scratch space
  of the cold boot hart.
\<close>

fun set_possible_harts :: "(hartid \<Rightarrow> bool) \<Rightarrow> nat list \<Rightarrow> sbi_hartmask \<Rightarrow> sbi_hartmask option" where
  "set_possible_harts hart_invalid [] m = Some m"
| "set_possible_harts hart_invalid (i # js) m =
     (if hart_invalid i then set_possible_harts hart_invalid js m
      else case sbi_hartmask_set_hart i m of None \<Rightarrow> None | Some m \<Rightarrow> set_possible_harts hart_invalid js m)"

definition sbi_domain_init ::
  "(hartid \<Rightarrow> bool) \<Rightarrow> ulong \<Rightarrow> ulong \<Rightarrow> ulong \<Rightarrow> ulong \<Rightarrow> ulong \<Rightarrow> nat \<Rightarrow> domain_sys \<Rightarrow> (int \<times> domain_sys) option" where
  "sbi_domain_init hart_invalid fw_start fw_size next_arg1 next_addr next_mode cold_hartid s =
     (case regions (dom_obj s ROOT) of
        None \<Rightarrow> None
      | Some arr \<Rightarrow>
          (let fw = sbi_domain_memregion_init fw_start fw_size 0;
               c = root_memregs_count s;
               all = sbi_domain_memregion_init 0 (NOT 0)
                       (SBI_DOMAIN_MEMREGION_READABLE OR SBI_DOMAIN_MEMREGION_WRITEABLE OR
                        SBI_DOMAIN_MEMREGION_EXECUTABLE)
           in if c + 2 < length arr
              then let arr = arr[c := fw, c + 1 := all, c + 2 := (arr ! (c + 2))\<lparr>mr_order := 0\<rparr>]
                   in case possible_harts (dom_obj s ROOT) of
                        None \<Rightarrow> None
                      | Some m \<Rightarrow>
                          (case set_possible_harts hart_invalid [0..<SBI_HARTMASK_MAX_BITS] m of
                             None \<Rightarrow> None
                           | Some m \<Rightarrow>
                               sbi_domain_register hart_invalid cold_hartid (Some ROOT) (Some m)
                                 ((obj_update ROOT (\<lambda>x. x\<lparr>regions := Some arr, boot_hartid := cold_hartid,
                                      dom_next_arg1 := next_arg1, dom_next_addr := next_addr,
                                      dom_next_mode := next_mode, possible_harts := Some m\<rparr>) s)
                                  \<lparr>root_fw_region := fw, root_memregs_count := c + 2\<rparr>))
              else None))"

section \<open>Regions are aligned power-of-two blocks\<close>

lemma unat_BIT: "n < 64 \<Longrightarrow> unat (BIT n) = 2 ^ n"
  using unat_push_bit_one [of n] by (simp add: BIT_def)

lemma BIT_mask: "n < 64 \<Longrightarrow> BIT n - 1 = mask n"
  by (simp add: BIT_def mask_eq_exp_minus_1)

lemma unat_BIT_minus: "n < 64 \<Longrightarrow> unat (BIT n - 1) = 2 ^ n - 1"
  using unat_BIT [of n] by (simp add: unat_sub word_le_nat_alt)

lemma memregion_loop_result:
  assumes "order \<le> 64" and "memregion_loop addr sz order = (b, k)"
  shows "k = 64 \<and> b = 0 \<or> k < 64 \<and> b = addr AND NOT (mask k) \<and> addr + sz - 1 < b + BIT k \<and> b \<le> addr + sz - 1"
  using assms
proof (induction addr sz order rule: memregion_loop.induct)
  case (1 addr sz order)
  let ?base = "addr AND NOT (BIT order - 1)"
  show ?case
  proof (cases "order < 64 \<and> \<not> (?base \<le> addr \<and> addr < ?base + BIT order \<and>
      ?base \<le> addr + sz - 1 \<and> addr + sz - 1 < ?base + BIT order)")
    case True
    then have "memregion_loop addr sz order = memregion_loop addr sz (order + 1)"
      by (subst memregion_loop.simps) (auto simp: Let_def)
    with 1 True show ?thesis by auto
  next
    case False
    with 1(2,3) show ?thesis
      by (subst (asm) memregion_loop.simps) (auto simp: Let_def BIT_mask split: if_splits)
  qed
qed

lemma memregion_init_covers_fw:
  fixes addr sz flags :: ulong
  assumes "0 < sz" and "unat addr + unat sz \<le> 2 ^ 64"
  shows "let r = sbi_domain_memregion_init addr sz flags in
    mr_order r \<le> 64 \<and> 2 ^ mr_order r dvd unat (mr_base r) \<and> mr_flags r = flags \<and>
    unat (mr_base r) \<le> unat addr \<and> unat addr + unat sz \<le> unat (mr_base r) + 2 ^ mr_order r"
proof -
  obtain b k where loop: "memregion_loop addr sz (log2roundup sz) = (b, k)" by fastforce
  have pos: "0 < unat sz" using assms(1) by (simp add: word_less_nat_alt)
  have top: "unat (addr + sz - 1) = unat addr + unat sz - 1"
  proof -
    have "unat (sz - 1) = unat sz - 1" using pos by (simp add: unat_sub word_le_nat_alt)
    with pos assms(2) have "unat (addr + (sz - 1)) = unat addr + unat sz - 1"
      by (subst unat_add_no_wrap) simp_all
    then show ?thesis by (simp add: add_diff_eq)
  qed
  from memregion_loop_result [OF log2roundup_le loop] consider "k = 64" "b = 0"
    | "k < 64" "b = addr AND NOT (mask k)" "addr + sz - 1 < b + BIT k" "b \<le> addr + sz - 1" by blast
  then have "k \<le> 64 \<and> 2 ^ k dvd unat b \<and> unat b \<le> unat addr \<and> unat addr + unat sz \<le> unat b + 2 ^ k"
  proof cases
    case 1
    then show ?thesis using assms(2) by simp
  next
    case 2
    have b: "unat b = unat addr div 2 ^ k * 2 ^ k" using 2(2) by (simp add: unat_align_down)
    have "unat (b + BIT k) \<le> unat b + 2 ^ k"
      using unat_BIT [OF 2(1)] by (simp add: unat_word_ariths mod_less_eq_dividend)
    moreover have "unat addr + unat sz - 1 < unat (b + BIT k)"
      using 2(3) top by (simp add: word_less_nat_alt)
    ultimately have "unat addr + unat sz \<le> unat b + 2 ^ k" using pos by linarith
    moreover have "unat b \<le> unat addr" by (simp add: b)
    ultimately show ?thesis using 2(1) by (simp add: b)
  qed
  then show ?thesis by (simp add: sbi_domain_memregion_init_def loop Let_def)
qed

text \<open>
  C38. \<^verbatim>\<open>sbi_domain_memregion_init\<close> rounds a range that does not wrap around the address space to a
  naturally aligned power-of-two block which contains the whole range.
\<close>

theorem memregion_init_covers:
  fixes addr sz flags :: ulong
  assumes "0 < sz" and "unat addr + unat sz \<le> 2 ^ 64"
  shows "let r = sbi_domain_memregion_init addr sz flags in
    mr_order r \<le> 64 \<and> 2 ^ mr_order r dvd unat (mr_base r) \<and> mr_flags r = flags \<and>
    unat (mr_base r) \<le> unat addr \<and> unat addr + unat sz \<le> unat (mr_base r) + 2 ^ mr_order r"
  using assms by (rule memregion_init_covers_fw)

theorem memregion_init_covers_witness:
  "let r = sbi_domain_memregion_init 0x80000000 0x14000 0 in
    mr_order r \<le> 64 \<and> 2 ^ mr_order r dvd unat (mr_base r) \<and> mr_flags r = 0 \<and>
    unat (mr_base r) \<le> 0x80000000 \<and> 0x80014000 \<le> unat (mr_base r) + 2 ^ mr_order r"
  using memregion_init_covers [of "0x14000" "0x80000000" 0] by (simp add: word_less_nat_alt)

section \<open>The regions of a sanitised domain are sorted\<close>

text \<open>\<open>region_le a b\<close>: region \<open>b\<close> need not be placed before region \<open>a\<close>.\<close>

definition region_le :: "sbi_domain_memregion \<Rightarrow> sbi_domain_memregion \<Rightarrow> bool" where
  "region_le a b \<longleftrightarrow> \<not> is_region_before b a"

lemma region_le_trans: "region_le a b \<Longrightarrow> region_le b c \<Longrightarrow> region_le a c"
  by (auto simp: region_le_def is_region_before_def)

lemma region_le_refl [simp]: "region_le a a"
  by (simp add: region_le_def is_region_before_def)

lemma before_region_le: "is_region_before a b \<Longrightarrow> region_le a b"
  by (auto simp: region_le_def is_region_before_def)

lemma mset_swap2: "i < length xs \<Longrightarrow> j < length xs \<Longrightarrow> mset (xs[j := xs ! i, i := xs ! j]) = mset xs"
  by (rule mset_swap)

lemma sort_inner_mset:
  assumes "sort_inner arr i j n = (ok, arr')" and "i < j" and "j + n \<le> length arr"
  shows "mset arr' = mset arr \<and> length arr' = length arr \<and>
    (\<forall>k. k < i \<or> j + n \<le> k \<longrightarrow> arr' ! k = arr ! k) \<and>
    (\<forall>k. i \<le> k \<and> k < j + n \<longrightarrow> (\<exists>m. i \<le> m \<and> m < j + n \<and> arr' ! k = arr ! m))"
  using assms
proof (induction arr i j n rule: sort_inner.induct)
  case (1 arr i j)
  then show ?case by auto
next
  case (2 arr i j n)
  show ?case
  proof (cases "is_region_conflict (arr ! j) (arr ! i)")
    case True
    with 2 show ?thesis by auto
  next
    case False
    show ?thesis
    proof (cases "is_region_before (arr ! j) (arr ! i)")
      case True
      let ?b = "arr[j := arr ! i, i := arr ! j]"
      from 2(2) [OF False] True 2(3-5) False
      have ih: "mset arr' = mset ?b \<and> length arr' = length arr \<and>
          (\<forall>k. k < i \<or> j + 1 + n \<le> k \<longrightarrow> arr' ! k = ?b ! k) \<and>
          (\<forall>k. i \<le> k \<and> k < j + 1 + n \<longrightarrow> (\<exists>m. i \<le> m \<and> m < j + 1 + n \<and> arr' ! k = ?b ! m))"
        by simp
      have "\<exists>m'. i \<le> m' \<and> m' < j + Suc n \<and> ?b ! m = arr ! m'" if "i \<le> m" "m < j + Suc n" for m
      proof (cases "m = i")
        case True
        with 2(4,5) show ?thesis by (intro exI [of _ j]) simp
      next
        case m: False
        with that 2(4,5) show ?thesis by (cases "m = j") (auto intro: exI [of _ i] exI [of _ m])
      qed
      then have "\<exists>m'. i \<le> m' \<and> m' < j + Suc n \<and> arr' ! k = arr ! m'" if "i \<le> k" "k < j + Suc n" for k
        using ih that by (metis add_Suc_right add_Suc add_0 plus_1_eq_Suc add.commute)
      moreover have "?b ! k = arr ! k" if "k < i \<or> j + Suc n \<le> k" for k using that 2(4) by auto
      moreover have "mset ?b = mset arr" using 2(4,5) by (intro mset_swap2) simp_all
      ultimately show ?thesis using ih by auto
    next
      case nb: False
      from 2(1) [OF False nb] 2(3-5) nb False show ?thesis by simp
    qed
  qed
qed

lemma sort_inner_min:
  assumes "sort_inner arr i j n = (True, arr')" and "i < j" and "j + n \<le> length arr"
    and "\<forall>k. i < k \<and> k < j \<longrightarrow> region_le (arr ! i) (arr ! k)"
  shows "\<forall>k. i < k \<and> k < j + n \<longrightarrow> region_le (arr' ! i) (arr' ! k)"
  using assms
proof (induction arr i j n rule: sort_inner.induct)
  case (1 arr i j)
  then show ?case by simp
next
  case (2 arr i j n)
  have nc: "\<not> is_region_conflict (arr ! j) (arr ! i)" using 2(3) by (auto split: if_splits)
  show ?case
  proof (cases "is_region_before (arr ! j) (arr ! i)")
    case True
    let ?b = "arr[j := arr ! i, i := arr ! j]"
    have "region_le (?b ! i) (?b ! k)" if "i < k" "k < j + 1" for k
    proof (cases "k = j")
      case k: True
      with 2(4,5) before_region_le [OF True] show ?thesis by simp
    next
      case False
      with that 2(4,5,6) region_le_trans [OF before_region_le [OF True], of "arr ! k"]
      show ?thesis by simp
    qed
    with 2(2) [OF nc] True nc 2(3-5) show ?thesis by simp
  next
    case False
    then have "region_le (arr ! i) (arr ! k)" if "i < k" "k < j + 1" for k
      using that 2(6) by (cases "k = j") (auto simp: region_le_def)
    with 2(1) [OF nc False] False nc 2(3-5) show ?thesis by simp
  qed
qed

definition regions_sorted :: "sbi_domain_memregion list \<Rightarrow> nat \<Rightarrow> nat \<Rightarrow> bool" where
  "regions_sorted arr i cnt \<longleftrightarrow> (\<forall>a b. a < i \<and> a < b \<and> b < cnt \<longrightarrow> region_le (arr ! a) (arr ! b))"

lemma sort_outer_sorted:
  assumes "sort_outer arr i cnt n = (ok, arr')" and "cnt \<le> length arr" and "i + n < cnt"
    and "regions_sorted arr i cnt"
  shows "mset arr' = mset arr \<and> length arr' = length arr \<and> (\<forall>k. cnt \<le> k \<longrightarrow> arr' ! k = arr ! k) \<and>
    (ok \<longrightarrow> regions_sorted arr' (i + n) cnt)"
  using assms
proof (induction n arbitrary: arr i)
  case 0
  then show ?case by simp
next
  case (Suc n)
  obtain ok1 b where inner: "sort_inner arr i (i + 1) (cnt - (i + 1)) = (ok1, b)" by fastforce
  have c: "i + 1 + (cnt - (i + 1)) = cnt" using Suc.prems(3) by simp
  note m = sort_inner_mset [OF inner]
  have perm: "mset b = mset arr" "length b = length arr" "\<forall>k. k < i \<or> cnt \<le> k \<longrightarrow> b ! k = arr ! k"
    "\<forall>k. i \<le> k \<and> k < cnt \<longrightarrow> (\<exists>m. i \<le> m \<and> m < cnt \<and> b ! k = arr ! m)"
    using m [unfolded c] Suc.prems(2) by simp_all
  show ?case
  proof (cases ok1)
    case False
    with Suc.prems inner perm show ?thesis by auto
  next
    case True
    have "\<forall>k. i < k \<and> k < i + 1 \<longrightarrow> region_le (arr ! i) (arr ! k)" by auto
    moreover have run: "sort_inner arr i (i + 1) (cnt - (i + 1)) = (True, b)" using inner True by simp
    ultimately have "\<forall>k. i < k \<and> k < i + 1 + (cnt - (i + 1)) \<longrightarrow> region_le (b ! i) (b ! k)"
      using Suc.prems(2,3) by (intro sort_inner_min [OF run]) simp_all
    then
    have "region_le (b ! i) (b ! k)" if "i < k" "k < cnt" for k
      using that by (simp add: c [simplified])
    moreover have "region_le (b ! a) (b ! k)" if "a < i" "a < k" "k < cnt" for a k
    proof (cases "k < i")
      case True
      with that perm(3) Suc.prems(4) show ?thesis by (auto simp: regions_sorted_def)
    next
      case False
      with perm(4) that obtain m where "i \<le> m" "m < cnt" "b ! k = arr ! m" by (meson not_le)
      with that perm(3) Suc.prems(4) show ?thesis by (auto simp: regions_sorted_def)
    qed
    ultimately have "regions_sorted b (i + 1) cnt" by (auto simp: regions_sorted_def less_Suc_eq)
    with Suc.IH [of b "i + 1"] Suc.prems inner True perm show ?thesis by auto
  qed
qed

lemma region_eqI:
  "mr_order a = mr_order b \<Longrightarrow> mr_base a = mr_base b \<Longrightarrow> mr_flags a = mr_flags b \<Longrightarrow>
    a = (b :: sbi_domain_memregion)"
  by simp

lemma memregions_take: "memregions arr = take (length (memregions arr)) arr"
  by (simp add: memregions_def takeWhile_eq_take [symmetric])

lemma memregions_order: "r \<in> set (memregions arr) \<Longrightarrow> mr_order r \<noteq> 0"
  by (auto simp: memregions_def dest: set_takeWhileD)

lemma memregions_stop:
  "length (memregions arr) < length arr \<Longrightarrow> mr_order (arr ! length (memregions arr)) = 0"
  using nth_length_takeWhile [of "\<lambda>r. mr_order r \<noteq> 0" arr] by (simp add: memregions_def)

lemma memregions_length: "length (memregions arr) \<le> length arr"
  by (simp add: memregions_def length_takeWhile_le)

lemma memregions_eqI:
  assumes "n \<le> length arr" and "\<forall>r \<in> set (take n arr). mr_order r \<noteq> 0"
    and "n < length arr \<Longrightarrow> mr_order (arr ! n) = 0"
  shows "memregions arr = take n arr"
proof (cases "n < length arr")
  case True
  then have "arr = take n arr @ arr ! n # drop (Suc n) arr" by (simp add: id_take_nth_drop)
  then have "memregions arr = memregions (take n arr @ arr ! n # drop (Suc n) arr)" by simp
  also have "\<dots> = take n arr" using assms True by (simp add: memregions_def)
  finally show ?thesis .
next
  case False
  with assms show ?thesis by (simp add: memregions_def)
qed

lemma sort_outer_memregions:
  assumes "sort_outer arr 0 (length (memregions arr)) (length (memregions arr) - 1) = (True, arr')"
    and "memregions arr \<noteq> []"
  shows "sorted_wrt region_le (memregions arr') \<and> mset (memregions arr') = mset (memregions arr) \<and>
    length arr' = length arr"
proof -
  let ?c = "length (memregions arr)"
  have pos: "0 + (?c - 1) < ?c" using assms(2) by (simp add: Suc_le_eq)
  have "regions_sorted arr 0 ?c" by (simp add: regions_sorted_def)
  from sort_outer_sorted [OF assms(1) memregions_length pos this]
  have m: "mset arr' = mset arr" and len: "length arr' = length arr"
    and rest: "\<forall>k. ?c \<le> k \<longrightarrow> arr' ! k = arr ! k" and srt: "regions_sorted arr' (?c - 1) ?c" by auto
  have drp: "drop ?c arr' = drop ?c arr"
    using rest len memregions_length [of arr] by (intro nth_equalityI) auto
  have "mset (take ?c arr') + mset (drop ?c arr') = mset (take ?c arr) + mset (drop ?c arr)"
    using m by (simp flip: mset_append)
  then have mt: "mset (take ?c arr') = mset (memregions arr)"
    using memregions_take [of arr] by (simp add: drp)
  have regs: "memregions arr' = take ?c arr'"
  proof (rule memregions_eqI)
    show "?c \<le> length arr'" by (simp add: len memregions_length)
    show "\<forall>r \<in> set (take ?c arr'). mr_order r \<noteq> 0"
      using mset_eq_setD [OF mt] memregions_order by auto
    show "mr_order (arr' ! ?c) = 0" if "?c < length arr'" using that rest len memregions_stop by simp
  qed
  have "sorted_wrt region_le (take ?c arr')"
    using srt by (auto simp: sorted_wrt_iff_nth_less regions_sorted_def len)
  with mt regs len show ?thesis by simp
qed

lemma sanitize_domain_ok:
  assumes "sanitize_domain hart_invalid fw d = Some (0, d')"
  shows "\<exists>arr arr'. regions d = Some arr \<and> d' = d\<lparr>regions := Some arr'\<rparr> \<and> length arr' = length arr \<and>
    mset (memregions arr') = mset (memregions arr) \<and> sorted_wrt region_le (memregions arr') \<and>
    fw \<in> set (memregions arr') \<and> (\<forall>r \<in> set (memregions arr'). is_region_valid r) \<and>
    dom_next_mode d' \<in> {PRV_S, PRV_U} \<and>
    sbi_domain_check_addr (Some d') (dom_next_addr d') (dom_next_mode d') SBI_DOMAIN_EXECUTE"
proof -
  from assms obtain arr arr' where arr: "regions d = Some arr"
    and valid: "\<forall>r \<in> set (memregions arr). is_region_valid r"
    and fw: "\<exists>r \<in> set (memregions arr). mr_order r = mr_order fw \<and> mr_base r = mr_base fw \<and> mr_flags r = mr_flags fw"
    and srt: "sort_outer arr 0 (length (memregions arr)) (length (memregions arr) - 1) = (True, arr')"
    and d': "d' = d\<lparr>regions := Some arr'\<rparr>" and mode: "dom_next_mode d' \<in> {PRV_S, PRV_U}"
    and chk: "sbi_domain_check_addr (Some d') (dom_next_addr d') (dom_next_mode d') SBI_DOMAIN_EXECUTE"
    by (auto simp: sanitize_domain_def Let_def split: option.splits if_splits prod.splits bool.splits)
  from fw have mem: "fw \<in> set (memregions arr)" and ne: "memregions arr \<noteq> []"
    by (auto dest: region_eqI)
  note s = sort_outer_memregions [OF srt ne]
  with arr d' mode chk mem valid mset_eq_setD [of "memregions arr'" "memregions arr"] show ?thesis by auto
qed

text \<open>
  A domain that passes \<^verbatim>\<open>sanitize_domain\<close> keeps its regions, which are all valid, include the
  firmware region and are now sorted by size and base; its next booting stage runs in S- or
  U-mode at an address the domain may execute. Nothing else of the domain changes.
\<close>

theorem sanitize_domain_sound:
  assumes "sanitize_domain hart_invalid fw d = Some (0, d')"
  shows "\<exists>arr arr'. regions d = Some arr \<and> d' = d\<lparr>regions := Some arr'\<rparr> \<and> length arr' = length arr \<and>
    mset (memregions arr') = mset (memregions arr) \<and> sorted_wrt region_le (memregions arr') \<and>
    fw \<in> set (memregions arr') \<and> (\<forall>r \<in> set (memregions arr'). is_region_valid r) \<and>
    dom_next_mode d' \<in> {PRV_S, PRV_U} \<and>
    sbi_domain_check_addr (Some d') (dom_next_addr d') (dom_next_mode d') SBI_DOMAIN_EXECUTE"
  using assms by (rule sanitize_domain_ok)

text \<open>A domain with the firmware region and the whole address space, still unsorted.\<close>

definition domain_example :: sbi_domain where
  "domain_example = \<lparr>dom_index = 0, assigned_harts = [0, 0], possible_harts = Some [1, 0],
     regions = Some [\<lparr>mr_order = 64, mr_base = 0, mr_flags = 7\<rparr>,
       \<lparr>mr_order = 17, mr_base = 0x80000000, mr_flags = 0\<rparr>, \<lparr>mr_order = 0, mr_base = 0, mr_flags = 0\<rparr>],
     boot_hartid = 0, dom_next_arg1 = 0, dom_next_addr = 0x80200000, dom_next_mode = PRV_S,
     system_reset_allowed = True\<rparr>"

definition domain_sorted_example :: sbi_domain where
  "domain_sorted_example = domain_example\<lparr>regions := Some [\<lparr>mr_order = 17, mr_base = 0x80000000, mr_flags = 0\<rparr>,
       \<lparr>mr_order = 64, mr_base = 0, mr_flags = 7\<rparr>, \<lparr>mr_order = 0, mr_base = 0, mr_flags = 0\<rparr>]\<rparr>"

lemma sanitize_example:
  "sanitize_domain (\<lambda>h. h \<noteq> 0) \<lparr>mr_order = 17, mr_base = 0x80000000, mr_flags = 0\<rparr> domain_example =
    Some (0, domain_sorted_example)"
  by code_simp

theorem sanitize_domain_sound_witness:
  "\<exists>arr'. domain_sorted_example = domain_example\<lparr>regions := Some arr'\<rparr> \<and> sorted_wrt region_le (memregions arr') \<and>
    (\<forall>r \<in> set (memregions arr'). is_region_valid r)"
  using sanitize_domain_sound [OF sanitize_example] by auto

section \<open>The address check\<close>

definition region_contains :: "sbi_domain_memregion \<Rightarrow> ulong \<Rightarrow> bool" where
  "region_contains r addr \<longleftrightarrow> mr_base r \<le> addr \<and> addr \<le> region_end r"

definition region_allows :: "sbi_domain_memregion \<Rightarrow> ulong \<Rightarrow> bool \<Rightarrow> bool" where
  "region_allows r rwx mmio \<longleftrightarrow>
     (mmio \<longleftrightarrow> mr_flags r AND SBI_DOMAIN_MEMREGION_MMIO \<noteq> 0) \<and> mr_flags r AND rwx = rwx"

lemma check_addr_loop_find:
  "mode \<noteq> PRV_M \<Longrightarrow> check_addr_loop regs addr mode rwx mmio =
    (case find (\<lambda>r. region_contains r addr) regs of None \<Rightarrow> False | Some r \<Rightarrow> region_allows r rwx mmio)"
  by (induction regs) (auto simp: region_contains_def region_allows_def Let_def)

declare check_addr_loop.simps [simp del]

lemma find_sorted_least:
  assumes "sorted_wrt region_le regs" and "find P regs = Some r"
  shows "r \<in> set regs \<and> P r \<and> (\<forall>q \<in> set regs. P q \<longrightarrow> mr_order r \<le> mr_order q)"
  using assms
proof (induction regs)
  case (Cons x xs)
  show ?case
  proof (cases "P x")
    case True
    have "mr_order x \<le> mr_order q" if "q \<in> set xs" for q
      using Cons.prems(1) that by (auto simp: region_le_def is_region_before_def not_less)
    with Cons.prems(2) True show ?thesis by auto
  qed (use Cons in auto)
qed simp

lemma unat_region_end:
  assumes "is_region_valid r"
  shows "unat (mr_base r) + 2 ^ mr_order r \<le> 2 ^ 64 \<and> unat (region_end r) = unat (mr_base r) + 2 ^ mr_order r - 1 \<or>
    mr_order r = 64 \<and> region_end r = - 1"
proof (cases "mr_order r < 64")
  case True
  then have al: "2 ^ mr_order r dvd unat (mr_base r)"
    using assms by (simp add: is_region_valid_def BIT_mask aligned_iff)
  then obtain q where q: "unat (mr_base r) = 2 ^ mr_order r * q" ..
  have p: "(2 :: nat) ^ 64 = 2 ^ mr_order r * 2 ^ (64 - mr_order r)"
    using True by (simp flip: power_add)
  have "2 ^ mr_order r * q < 2 ^ mr_order r * 2 ^ (64 - mr_order r)"
    using unat_less_width [of "mr_base r"] by (simp add: q [symmetric] p [symmetric])
  then have "q + 1 \<le> 2 ^ (64 - mr_order r)" by simp
  then have "2 ^ mr_order r * (q + 1) \<le> 2 ^ mr_order r * 2 ^ (64 - mr_order r)" by (rule mult_le_mono2)
  then have le: "unat (mr_base r) + 2 ^ mr_order r \<le> 2 ^ 64"
    unfolding q p by (simp add: add.commute)
  have pos: "(0 :: nat) < 2 ^ mr_order r" by simp
  have "unat (mr_base r + (BIT (mr_order r) - 1)) = unat (mr_base r) + (2 ^ mr_order r - 1)"
    using le pos True by (subst unat_add_no_wrap) (simp_all add: unat_BIT_minus)
  with le pos True show ?thesis by (simp add: region_end_def)
next
  case False
  with assms show ?thesis by (auto simp: is_region_valid_def region_end_def)
qed

lemma region_contains_iff:
  assumes "is_region_valid r" and "mr_order r < 64"
  shows "region_contains r addr \<longleftrightarrow> unat (mr_base r) \<le> unat addr \<and> unat addr < unat (mr_base r) + 2 ^ mr_order r"
proof -
  have "(0 :: nat) < 2 ^ mr_order r" by simp
  moreover from unat_region_end [OF assms(1)] assms(2)
  have "unat (region_end r) = unat (mr_base r) + 2 ^ mr_order r - 1" by simp
  ultimately show ?thesis unfolding region_contains_def word_le_nat_alt by linarith
qed

text \<open>
  C6. In a domain that passed \<^verbatim>\<open>sanitize_domain\<close>, the check of an S- or U-mode access is decided
  by a smallest region that contains the address: the access is allowed exactly if that region
  has all the requested permissions and the requested kind (memory or device), and an address in
  no region is refused.
\<close>

theorem check_addr_smallest_region:
  assumes "sanitize_domain hart_invalid fw d = Some (0, d')" and "mode \<noteq> PRV_M"
  shows "\<exists>arr. regions d' = Some arr \<and>
    ((\<forall>r \<in> set (memregions arr). \<not> region_contains r addr) \<and>
       \<not> sbi_domain_check_addr (Some d') addr mode access_flags \<or>
     (\<exists>r \<in> set (memregions arr). region_contains r addr \<and>
       (\<forall>q \<in> set (memregions arr). region_contains q addr \<longrightarrow> mr_order r \<le> mr_order q) \<and>
       sbi_domain_check_addr (Some d') addr mode access_flags =
         region_allows r (access_rwx access_flags) (access_flags AND SBI_DOMAIN_MMIO \<noteq> 0)))"
proof -
  from sanitize_domain_ok [OF assms(1)] obtain arr
    where arr: "regions d' = Some arr" and srt: "sorted_wrt region_le (memregions arr)" by auto
  show ?thesis
  proof (cases "find (\<lambda>r. region_contains r addr) (memregions arr)")
    case None
    then have "\<forall>r \<in> set (memregions arr). \<not> region_contains r addr" by (auto simp: find_None_iff)
    with None arr assms(2) show ?thesis
      by (auto simp: sbi_domain_check_addr_def check_addr_loop_find)
  next
    case (Some r)
    with arr assms(2) find_sorted_least [OF srt Some] show ?thesis
      by (auto simp: sbi_domain_check_addr_def check_addr_loop_find)
  qed
qed

theorem check_addr_smallest_region_witness:
  "\<exists>r. region_contains r 0x80001000 \<and> mr_order r = 17 \<and>
    sbi_domain_check_addr (Some domain_sorted_example) 0x80001000 PRV_S SBI_DOMAIN_READ =
      region_allows r 1 False"
proof -
  have "regions domain_sorted_example = Some [\<lparr>mr_order = 17, mr_base = 0x80000000, mr_flags = 0\<rparr>,
       \<lparr>mr_order = 64, mr_base = 0, mr_flags = 7\<rparr>, \<lparr>mr_order = 0, mr_base = 0, mr_flags = 0\<rparr>]"
    by (simp add: domain_sorted_example_def)
  moreover have "region_contains \<lparr>mr_order = 17, mr_base = 0x80000000, mr_flags = 0\<rparr> 0x80001000" by code_simp
  moreover have "access_rwx SBI_DOMAIN_READ = 1" by code_simp
  ultimately show ?thesis
    using check_addr_smallest_region [OF sanitize_example, of PRV_S "0x80001000" SBI_DOMAIN_READ]
    by (auto simp: memregions_def)
qed

section \<open>Conflicts\<close>

lemma is_region_subset_same_base:
  assumes "0 < mr_order a" "mr_order a < 63" and "unat (mr_base a) < 2 ^ 63" "unat (mr_base b) < 2 ^ 63"
  shows "is_region_subset a b \<longleftrightarrow> mr_base a = mr_base b"
proof -
  let ?m = "2 ^ mr_order a - 1 :: nat"
  have "2 * (1 :: nat) \<le> 2 ^ mr_order a" using power_increasing [of 1 "mr_order a" "2 :: nat"] assms(1) by simp
  then have pos: "0 < ?m" by simp
  have "(2 :: nat) ^ mr_order a \<le> 2 ^ 62" using assms(2) by (intro power_increasing) auto
  then have m: "?m < 2 ^ 63" by simp
  have e: "unat (mr_base x + (BIT (mr_order a) - 1)) = unat (mr_base x) + ?m" if "unat (mr_base x) < 2 ^ 63" for x
    using that m assms(2) by (subst unat_add_no_wrap) (simp_all add: unat_BIT_minus)
  show ?thesis
    unfolding is_region_subset_def Let_def word_le_nat_alt word_less_nat_alt
      e [OF assms(3)] e [OF assms(4)] word_unat_eq_iff
    using pos by linarith
qed

text \<open>
  \<^verbatim>\<open>is_region_conflict\<close> reports two regions exactly if they have the same base and the same
  flags: \<^verbatim>\<open>is_region_subset\<close> computes the end of both regions from the size of the first one, so a
  region nested inside another one at a different base is not reported.
\<close>

theorem is_region_conflict_same_base:
  assumes "0 < mr_order a" "mr_order a < 63" "0 < mr_order b" "mr_order b < 63"
    and "unat (mr_base a) < 2 ^ 63" "unat (mr_base b) < 2 ^ 63"
  shows "is_region_conflict a b \<longleftrightarrow> mr_base a = mr_base b \<and> mr_flags a = mr_flags b"
  using assms by (auto simp: is_region_conflict_def is_region_subset_same_base)

theorem is_region_conflict_same_base_witness:
  "\<not> is_region_conflict \<lparr>mr_order = 12, mr_base = 0x1000, mr_flags = 7\<rparr> \<lparr>mr_order = 16, mr_base = 0, mr_flags = 7\<rparr>"
  by (subst is_region_conflict_same_base) simp_all

section \<open>Every hart belongs to at most one domain\<close>

lemma obj_update_sel [simp]:
  "dom_obj (obj_update d f s) = (dom_obj s)(d := f (dom_obj s d))"
  "hartid_to_domain_table (obj_update d f s) = hartid_to_domain_table s"
  "domidx_to_domain_table (obj_update d f s) = domidx_to_domain_table s"
  "domain_count (obj_update d f s) = domain_count s" "domain_finalized (obj_update d f s) = domain_finalized s"
  "root_memregs_count (obj_update d f s) = root_memregs_count s" "root_fw_region (obj_update d f s) = root_fw_region s"
  "root_regions_moved (obj_update d f s) = root_regions_moved s"
  by (simp_all add: obj_update_def)

text \<open>
  The invariant of the tables: the index table lists the registered domains \<open>ds\<close>, and the hart
  table is the inverse of the masks of assigned harts.
\<close>

definition domains_ok :: "nat list \<Rightarrow> domain_sys \<Rightarrow> bool" where
  "domains_ok ds s \<longleftrightarrow>
     distinct ds \<and> length ds \<le> SBI_DOMAIN_MAX_INDEX \<and> domain_count s = length ds \<and>
     domidx_to_domain_table s = map Some ds @ replicate (SBI_DOMAIN_MAX_INDEX - length ds) None \<and>
     (\<forall>h d. hartid_to_domain_table s h = Some d \<longrightarrow> d \<in> set ds) \<and>
     (\<forall>d \<in> set ds. length (assigned_harts (dom_obj s d)) = 2 \<and>
        (\<forall>h < 128. bitmap_bit (assigned_harts (dom_obj s d)) h \<longleftrightarrow> hartid_to_domain_table s h = Some d))"

lemma domains_okD:
  assumes "domains_ok ds s"
  shows "distinct ds" and "length ds \<le> 32" and "domain_count s = length ds"
    and "domidx_to_domain_table s = map Some ds @ replicate (32 - length ds) None"
    and "hartid_to_domain_table s h = Some d \<Longrightarrow> d \<in> set ds"
    and "d \<in> set ds \<Longrightarrow> length (assigned_harts (dom_obj s d)) = 2"
    and "d \<in> set ds \<Longrightarrow> h < 128 \<Longrightarrow>
      bitmap_bit (assigned_harts (dom_obj s d)) h \<longleftrightarrow> hartid_to_domain_table s h = Some d"
  using assms by (auto simp: domains_ok_def)

text \<open>What the assignment of harts leaves alone in the domain objects.\<close>

definition same_config :: "sbi_domain \<Rightarrow> sbi_domain \<Rightarrow> bool" where
  "same_config x y \<longleftrightarrow> regions x = regions y \<and> possible_harts x = possible_harts y \<and> dom_index x = dom_index y \<and>
     dom_next_arg1 x = dom_next_arg1 y \<and> dom_next_addr x = dom_next_addr y \<and> dom_next_mode x = dom_next_mode y \<and>
     system_reset_allowed x = system_reset_allowed y"

lemma same_config_simps [simp]:
  "same_config x x" "same_config (x\<lparr>assigned_harts := m\<rparr>) y = same_config x y"
  "same_config (x\<lparr>boot_hartid := b\<rparr>) y = same_config x y"
  by (simp_all add: same_config_def)

lemma same_config_trans: "same_config x y \<Longrightarrow> same_config y z \<Longrightarrow> same_config x z"
  by (simp add: same_config_def)

lemma assign_hart_ok:
  assumes ok: "domains_ok ds s" and d: "d \<in> set ds" and i: "i < 128"
    and poss: "possible_harts (dom_obj s d) = Some m" "length m = 2"
  shows "\<exists>s'. assign_hart cold d i s = Some s' \<and> domains_ok ds s' \<and>
    hartid_to_domain_table s' = (if bitmap_bit m i then (hartid_to_domain_table s)(i := Some d) else hartid_to_domain_table s) \<and>
    (\<forall>x. same_config (dom_obj s' x) (dom_obj s x))"
proof (cases "bitmap_bit m i")
  case False
  with ok i poss show ?thesis by (simp add: assign_hart_def hartmask_test_bits)
next
  case True
  define s1 where "s1 = (case hartid_to_domain_table s i of None \<Rightarrow> s | Some t \<Rightarrow>
      obj_update t (\<lambda>x. x\<lparr>assigned_harts := the (sbi_hartmask_clear_hart i (assigned_harts (dom_obj s t)))\<rparr>) s)"
  have run1: "(case hartid_to_domain_table s i of None \<Rightarrow> Some s | Some t \<Rightarrow>
      map_option (\<lambda>m. obj_update t (\<lambda>x. x\<lparr>assigned_harts := m\<rparr>) s)
        (sbi_hartmask_clear_hart i (assigned_harts (dom_obj s t)))) = Some s1"
    using hartmask_clear_bits [OF domains_okD(6) [OF ok domains_okD(5) [OF ok]] i]
    by (fastforce simp: s1_def split: option.split)
  have bits1: "length (assigned_harts (dom_obj s1 x)) = 2 \<and> (\<forall>h < 128.
      bitmap_bit (assigned_harts (dom_obj s1 x)) h \<longleftrightarrow> hartid_to_domain_table s h = Some x \<and> h \<noteq> i)"
    if x: "x \<in> set ds" for x
    using hartmask_clear_bits [OF domains_okD(6) [OF ok x] i] domains_okD(6,7) [OF ok x]
    by (auto simp: s1_def split: option.split)
  have cfg1: "same_config (dom_obj s1 x) (dom_obj s x)" for x
    by (simp add: s1_def split: option.split)
  have tab1: "hartid_to_domain_table s1 = hartid_to_domain_table s" "domain_count s1 = domain_count s"
    "domidx_to_domain_table s1 = domidx_to_domain_table s"
    by (simp_all add: s1_def split: option.split)
  from hartmask_set_bits [of "assigned_harts (dom_obj s1 d)" i] bits1 [OF d] i
  obtain m' where m': "sbi_hartmask_set_hart i (assigned_harts (dom_obj s1 d)) = Some m'" "length m' = 2"
    "\<forall>h. bitmap_bit m' h \<longleftrightarrow> bitmap_bit (assigned_harts (dom_obj s1 d)) h \<or> h = i" by auto
  define s2 where "s2 = obj_update d (\<lambda>x. x\<lparr>assigned_harts := m'\<rparr>)
      (s1\<lparr>hartid_to_domain_table := (hartid_to_domain_table s1)(i := Some d)\<rparr>)"
  define s3 where "s3 = (if i = cold \<and> boot_hartid (dom_obj s2 d) \<noteq> cold
      then obj_update d (\<lambda>x. x\<lparr>boot_hartid := cold\<rparr>) s2 else s2)"
  have run: "assign_hart cold d i s = Some s3"
    using True i poss run1 m'(1)
    by (simp add: assign_hart_def hartmask_test_bits Let_def s2_def s3_def)
  have cfg: "same_config (dom_obj s3 x) (dom_obj s x)" for x
    using cfg1 [of x] by (auto simp: s3_def s2_def)
  have masks: "assigned_harts (dom_obj s3 x) = (if x = d then m' else assigned_harts (dom_obj s1 x))" for x
    by (simp add: s3_def s2_def)
  have tab: "hartid_to_domain_table s3 = (hartid_to_domain_table s)(i := Some d)"
    "domain_count s3 = domain_count s" "domidx_to_domain_table s3 = domidx_to_domain_table s"
    by (simp_all add: s3_def s2_def tab1)
  have "domains_ok ds s3"
    unfolding domains_ok_def tab masks
    using domains_okD(1-5) [OF ok] d bits1 m' by auto
  with run cfg tab True show ?thesis by auto
qed

lemma assign_harts_ok:
  assumes "domains_ok ds s" and "d \<in> set ds" and "\<forall>i \<in> set js. i < 128"
    and "possible_harts (dom_obj s d) = Some m" "length m = 2"
  shows "\<exists>s'. assign_harts cold d js s = Some s' \<and> domains_ok ds s' \<and>
    (\<forall>h. hartid_to_domain_table s' h =
       (if h \<in> set js \<and> bitmap_bit m h then Some d else hartid_to_domain_table s h)) \<and>
    (\<forall>x. same_config (dom_obj s' x) (dom_obj s x))"
  using assms
proof (induction js arbitrary: s)
  case Nil
  then show ?case by simp
next
  case (Cons i js)
  from assign_hart_ok [OF Cons.prems(1,2) _ Cons.prems(4,5), of i cold] Cons.prems(3)
  obtain s1 where s1: "assign_hart cold d i s = Some s1" "domains_ok ds s1"
    "hartid_to_domain_table s1 = (if bitmap_bit m i then (hartid_to_domain_table s)(i := Some d) else hartid_to_domain_table s)"
    "\<forall>x. same_config (dom_obj s1 x) (dom_obj s x)" by auto
  have "possible_harts (dom_obj s1 d) = Some m" using s1(4) Cons.prems(4) by (simp add: same_config_def)
  from Cons.IH [OF s1(2) Cons.prems(2) _ this Cons.prems(5)] Cons.prems(3)
  obtain s' where "assign_harts cold d js s1 = Some s'" "domains_ok ds s'"
    "\<forall>h. hartid_to_domain_table s' h = (if h \<in> set js \<and> bitmap_bit m h then Some d else hartid_to_domain_table s1 h)"
    "\<forall>x. same_config (dom_obj s' x) (dom_obj s1 x)" by auto
  with s1 show ?case by (auto intro: same_config_trans)
qed

lemma for_each_registered:
  assumes "domains_ok ds s" and "length ds < 32"
  shows "sbi_domain_for_each s = Some ds"
proof -
  have "replicate (32 - length ds) None = None # replicate (31 - length ds) (None :: nat option)"
    using assms(2) by (simp add: Suc_diff_le flip: replicate_Suc)
  moreover have "takeWhile (\<lambda>e. e \<noteq> None) (map Some ds @ None # xs) = map Some ds" for xs
    by (subst takeWhile_append2) auto
  ultimately show ?thesis
    using domains_okD(4) [OF assms(1)] by (simp add: sbi_domain_for_each_def comp_def del: not_None_eq)
qed

lemma table_append:
  "length ds < n \<Longrightarrow> (map Some ds @ replicate (n - length ds) None)[length ds := Some d] =
    map Some (ds @ [d]) @ replicate (n - length (ds @ [d])) None"
  by (cases "n - length ds") (auto simp: list_update_append)

lemma domains_ok_append:
  assumes ok: "domains_ok ds s" and d: "d \<notin> set ds" and room: "length ds < 32"
    and s': "domidx_to_domain_table s' = (domidx_to_domain_table s)[domain_count s := Some d]"
      "domain_count s' = domain_count s + 1" "hartid_to_domain_table s' = hartid_to_domain_table s"
      "assigned_harts (dom_obj s' d) = hartmask_zero"
      "\<And>x. x \<noteq> d \<Longrightarrow> dom_obj s' x = dom_obj s x"
  shows "domains_ok (ds @ [d]) s'"
proof -
  have "hartid_to_domain_table s h \<noteq> Some d" for h using domains_okD(5) [OF ok] d by auto
  moreover have "\<not> bitmap_bit hartmask_zero h" if "h < 128" for h
  proof -
    from that have "h div 64 = 0 \<or> h div 64 = 1" by auto
    then show ?thesis by (auto simp: bitmap_bit_def hartmask_zero_def)
  qed
  moreover have "dom_obj s' x = dom_obj s x" if "x \<in> set ds" for x using that d s'(5) by metis
  ultimately show ?thesis
    using domains_okD [OF ok] d room s'(1-4) table_append [of ds 32 d]
    unfolding domains_ok_def by (auto simp: hartmask_zero_def)
qed

lemma sbi_domain_register_ok:
  assumes ok: "domains_ok ds s" and room: "length ds < 32" and mask: "length am = 2"
    and poss: "\<And>m. possible_harts (dom_obj s d) = Some m \<Longrightarrow> length m = 2"
  shows "\<exists>rc s'. sbi_domain_register hart_invalid cold (Some d) (Some am) s = Some (rc, s') \<and>
    (rc = 0 \<longleftrightarrow> \<not> domain_finalized s \<and> d \<notin> set ds \<and>
       (\<exists>x. sanitize_domain hart_invalid (root_fw_region s) (dom_obj s d) = Some (0, x))) \<and>
    (\<forall>e. e \<noteq> d \<longrightarrow> same_config (dom_obj s' e) (dom_obj s e)) \<and>
    (rc \<noteq> 0 \<and> domains_ok ds s' \<and> hartid_to_domain_table s' = hartid_to_domain_table s \<or>
     rc = 0 \<and> d \<notin> set ds \<and> domains_ok (ds @ [d]) s' \<and>
       (\<forall>h. hartid_to_domain_table s' h =
          (if h < 128 \<and> bitmap_bit am h \<and> (\<exists>m. possible_harts (dom_obj s d) = Some m \<and> bitmap_bit m h)
           then Some d else hartid_to_domain_table s h)) \<and>
       (\<exists>x. sanitize_domain hart_invalid (root_fw_region s) (dom_obj s d) = Some (0, x) \<and>
          same_config (dom_obj s' d) (x\<lparr>dom_index := domain_count s\<rparr>)))"
proof -
  note each = for_each_registered [OF ok room]
  have cnt: "\<not> 32 \<le> domain_count s" using domains_okD(3) [OF ok] room by simp
  consider "domain_finalized s" | "\<not> domain_finalized s" "d \<in> set ds" | "\<not> domain_finalized s" "d \<notin> set ds" by blast
  then show ?thesis
  proof cases
    case 3
    obtain rc x where san: "sanitize_domain hart_invalid (root_fw_region s) (dom_obj s d) = Some (rc, x)"
      using poss
      by (cases "sanitize_domain hart_invalid (root_fw_region s) (dom_obj s d)")
        (auto simp: sanitize_domain_def Let_def hartmask_for_each_eq split: option.splits if_splits prod.splits bool.splits)
    show ?thesis
    proof (cases "rc = 0")
      case False
      have "domains_ok ds (obj_update d (\<lambda>_. x) s)"
        using ok 3(2) by (auto simp: domains_ok_def)
      with 3 each cnt san False show ?thesis by (simp add: sbi_domain_register_def Let_def)
    next
      case True
      with san have sane: "sanitize_domain hart_invalid (root_fw_region s) (dom_obj s d) = Some (0, x)" by simp
      from sanitize_domain_ok [OF sane] obtain arr' where x: "x = (dom_obj s d)\<lparr>regions := Some arr'\<rparr>" by auto
      from sane obtain m where m: "possible_harts (dom_obj s d) = Some m"
        by (auto simp: sanitize_domain_def split: option.splits)
      define s1 where "s1 = obj_update d (\<lambda>x. x\<lparr>assigned_harts := hartmask_zero\<rparr>)
        ((obj_update d (\<lambda>y. x\<lparr>dom_index := domain_count s\<rparr>) s)\<lparr>domain_count := domain_count s + 1,
          domidx_to_domain_table := (domidx_to_domain_table s)[domain_count s := Some d]\<rparr>)"
      have ok1: "domains_ok (ds @ [d]) s1"
        by (rule domains_ok_append [OF ok 3(2) room]) (simp_all add: s1_def)
      have m1: "possible_harts (dom_obj s1 d) = Some m" by (simp add: s1_def x m)
      let ?js = "filter (bitmap_bit am) [0..<128]"
      have "d \<in> set (ds @ [d])" "\<forall>i \<in> set ?js. i < 128" by auto
      from assign_harts_ok [OF ok1 this m1 poss [OF m], of cold]
      obtain s' where s': "assign_harts cold d ?js s1 = Some s'" "domains_ok (ds @ [d]) s'"
        "\<forall>h. hartid_to_domain_table s' h = (if h \<in> set ?js \<and> bitmap_bit m h then Some d else hartid_to_domain_table s1 h)"
        "\<forall>x. same_config (dom_obj s' x) (dom_obj s1 x)" by auto
      have run: "sbi_domain_register hart_invalid cold (Some d) (Some am) s = Some (0, s')"
        using 3 each cnt sane mask s'(1)
        by (simp add: sbi_domain_register_def Let_def hartmask_for_each_eq s1_def obj_update_def)
      have "same_config (dom_obj s1 d) (x\<lparr>dom_index := domain_count s\<rparr>)" by (simp add: s1_def)
      with s'(4) have "same_config (dom_obj s' d) (x\<lparr>dom_index := domain_count s\<rparr>)"
        by (blast intro: same_config_trans)
      moreover have "same_config (dom_obj s' e) (dom_obj s e)" if "e \<noteq> d" for e
        using spec [OF s'(4), of e] that by (simp add: s1_def)
      ultimately show ?thesis using run s' sane 3 m by (auto simp: s1_def)
    qed
  qed (use ok each in \<open>auto simp: sbi_domain_register_def\<close>)
qed

text \<open>
  C31. Registration keeps the domain tables consistent, so a hart is never assigned to two
  domains. While fewer than 32 domains are registered, registration succeeds exactly when the tables
  are not finalised, the domain is new and its configuration passes the sanity checks. On success it
  is appended to the index table and exactly the harts that are both requested and possible move to
  it; on failure the tables do not change; and in both cases no other domain's configuration does.
\<close>

theorem sbi_domain_register_partition:
  assumes ok: "domains_ok ds s" and room: "length ds < 32" and mask: "length am = 2"
    and poss: "\<And>m. possible_harts (dom_obj s d) = Some m \<Longrightarrow> length m = 2"
  shows "\<exists>rc s'. sbi_domain_register hart_invalid cold (Some d) (Some am) s = Some (rc, s') \<and>
    (rc = 0 \<longleftrightarrow> \<not> domain_finalized s \<and> d \<notin> set ds \<and>
       (\<exists>x. sanitize_domain hart_invalid (root_fw_region s) (dom_obj s d) = Some (0, x))) \<and>
    (\<forall>e. e \<noteq> d \<longrightarrow> same_config (dom_obj s' e) (dom_obj s e)) \<and>
    (rc \<noteq> 0 \<and> domains_ok ds s' \<and> hartid_to_domain_table s' = hartid_to_domain_table s \<or>
     rc = 0 \<and> d \<notin> set ds \<and> domains_ok (ds @ [d]) s' \<and>
       (\<forall>h. hartid_to_domain_table s' h =
          (if h < 128 \<and> bitmap_bit am h \<and> (\<exists>m. possible_harts (dom_obj s d) = Some m \<and> bitmap_bit m h)
           then Some d else hartid_to_domain_table s h)) \<and>
       (\<exists>x. sanitize_domain hart_invalid (root_fw_region s) (dom_obj s d) = Some (0, x) \<and>
          same_config (dom_obj s' d) (x\<lparr>dom_index := domain_count s\<rparr>)))"
  by (rule sbi_domain_register_ok [OF assms])

text \<open>The state of the file before \<^verbatim>\<open>sbi_domain_init\<close>: the zero-initialised root domain and tables.\<close>

definition root_init :: sbi_domain where
  "root_init = \<lparr>dom_index = 0, assigned_harts = [0, 0], possible_harts = Some [0, 0],
     regions = Some (replicate (ROOT_REGION_MAX + 1) \<lparr>mr_order = 0, mr_base = 0, mr_flags = 0\<rparr>),
     boot_hartid = 0, dom_next_arg1 = 0, dom_next_addr = 0, dom_next_mode = 0, system_reset_allowed = True\<rparr>"

definition domain_boot :: domain_sys where
  "domain_boot = \<lparr>dom_obj = (\<lambda>_. root_init), hartid_to_domain_table = (\<lambda>_. None),
     domidx_to_domain_table = replicate SBI_DOMAIN_MAX_INDEX None, domain_count = 0, domain_finalized = False,
     root_memregs_count = 0, root_fw_region = \<lparr>mr_order = 0, mr_base = 0, mr_flags = 0\<rparr>,
     root_regions_moved = False\<rparr>"

lemma domain_boot_ok: "domains_ok [] domain_boot"
  by (simp add: domains_ok_def domain_boot_def)

definition domain_example_sys :: domain_sys where
  "domain_example_sys = domain_boot\<lparr>dom_obj := (\<lambda>_. domain_example),
     root_fw_region := \<lparr>mr_order = 17, mr_base = 0x80000000, mr_flags = 0\<rparr>\<rparr>"

theorem sbi_domain_register_partition_witness:
  "\<exists>s'. sbi_domain_register (\<lambda>h. h \<noteq> 0) 0 (Some 1) (Some [3, 0]) domain_example_sys = Some (0, s') \<and>
    domains_ok [1] s' \<and> hartid_to_domain_table s' 0 = Some 1 \<and> hartid_to_domain_table s' 1 = None"
proof -
  have ok: "domains_ok [] domain_example_sys"
    by (simp add: domains_ok_def domain_boot_def domain_example_sys_def)
  have "map_option fst (sbi_domain_register (\<lambda>h. h \<noteq> 0) 0 (Some 1) (Some [3, 0]) domain_example_sys) = Some 0"
    by code_simp
  moreover have "bitmap_bit [3, 0] 0" "bitmap_bit [3, 0] 1" "bitmap_bit [1, 0] 0" "\<not> bitmap_bit [1, 0] 1"
    by (code_simp+)
  ultimately show ?thesis
    using sbi_domain_register_partition [OF ok, of "[3, 0]" 1 "\<lambda>h. h \<noteq> 0" 0]
    by (auto simp: domain_example_sys_def domain_boot_def domain_example_def)
qed

section \<open>The firmware is protected by the root domain\<close>

lemma set_possible_harts_length:
  "length m = 2 \<Longrightarrow> \<forall>i \<in> set js. i < 128 \<Longrightarrow>
    \<exists>m'. set_possible_harts hart_invalid js m = Some m' \<and> length m' = 2"
proof (induction js arbitrary: m)
  case (Cons i js)
  then show ?case using hartmask_set_bits [of m i] by fastforce
qed simp

lemma memregion_init_all:
  "sbi_domain_memregion_init 0 (NOT 0) f = \<lparr>mr_order = 64, mr_base = 0, mr_flags = f\<rparr>"
proof -
  have "unat (NOT 0 :: ulong) = 2 ^ 64 - 1"
    by (simp add: unsigned_minus_1_eq_mask mask_eq_exp_minus_1)
  then have "log2roundup (NOT 0 :: ulong) = 64"
    using log2roundup_upper [of "NOT 0"] log2roundup_le [of "NOT 0"] power_increasing [of "log2roundup (NOT 0)" 63 "2 :: nat"]
    by (cases "log2roundup (NOT 0) \<le> 63") auto
  then show ?thesis by (simp add: sbi_domain_memregion_init_def memregion_loop.simps)
qed

lemma memregion_init_top: "mr_order (sbi_domain_memregion_init a sz f) = 64 \<Longrightarrow> mr_base (sbi_domain_memregion_init a sz f) = 0"
  using memregion_loop_result [OF log2roundup_le, of a sz sz]
  by (auto simp: sbi_domain_memregion_init_def split: prod.splits)

lemma sanitize_domain_regions:
  assumes "sanitize_domain hart_invalid fw d = Some (0, x)"
  shows "\<exists>arr arr'. regions d = Some arr \<and> regions x = Some arr' \<and>
    sort_outer arr 0 (length (memregions arr)) (length (memregions arr) - 1) = (True, arr')"
  using assms by (auto simp: sanitize_domain_def Let_def split: option.splits if_splits prod.splits bool.splits)

lemma access_rwx_seven: "7 AND access_rwx fl = access_rwx fl"
proof -
  have "access_rwx fl AND 7 = access_rwx fl"
    by (simp add: access_rwx_def Let_def)
  then show ?thesis by (simp add: and.commute)
qed

text \<open>The region array of the root domain after a successful \<^verbatim>\<open>sbi_domain_init\<close>.\<close>

lemma domain_init_regions:
  assumes "sbi_domain_init hart_invalid fw_start fw_size a1 na nm cold domain_boot = Some (0, s)"
  defines "fw \<equiv> sbi_domain_memregion_init fw_start fw_size 0"
  shows "\<exists>arr. regions (dom_obj s ROOT) = Some arr \<and> memregions arr = [fw, \<lparr>mr_order = 64, mr_base = 0, mr_flags = 7\<rparr>]
    \<and> is_region_valid fw \<and> length arr = 17 \<and> (\<exists>m. possible_harts (dom_obj s ROOT) = Some m \<and> length m = 2) \<and>
    (\<exists>x. (x = PRV_S \<or> x = PRV_U) \<and> check_addr_loop (memregions arr) na x 4 False)"
proof -
  let ?z = "\<lparr>mr_order = 0, mr_base = 0, mr_flags = 0\<rparr> :: sbi_domain_memregion"
  let ?all = "\<lparr>mr_order = 64, mr_base = 0, mr_flags = 7\<rparr> :: sbi_domain_memregion"
  obtain m where m: "set_possible_harts hart_invalid [0..<128] [0, 0] = Some m" "length m = 2"
    using set_possible_harts_length [of "[0, 0]" "[0..<128]" hart_invalid] by auto
  define A where "A = [fw, ?all, ?z] @ replicate 14 ?z"
  define d where "d = root_init\<lparr>regions := Some A, boot_hartid := cold,
    dom_next_arg1 := a1, dom_next_addr := na, dom_next_mode := nm, possible_harts := Some m\<rparr>"
  define s0 where "s0 = (obj_update ROOT (\<lambda>_. d) domain_boot)\<lparr>root_fw_region := fw, root_memregs_count := 2\<rparr>"
  have arr: "(replicate 17 ?z)[0 := fw, Suc 0 := ?all, 2 := ?z] = A"
    by (simp add: A_def numeral_eq_Suc)
  have "sbi_domain_init hart_invalid fw_start fw_size a1 na nm cold domain_boot =
      sbi_domain_register hart_invalid cold (Some ROOT) (Some m) s0"
    using m(1) arr
    by (simp add: sbi_domain_init_def domain_boot_def root_init_def fw_def memregion_init_all [simplified] s0_def d_def
        obj_update_def Let_def numeral_2_eq_2)
  with assms(1) have reg: "sbi_domain_register hart_invalid cold (Some ROOT) (Some m) s0 = Some (0, s)" by simp
  have ok: "domains_ok [] s0" by (simp add: domains_ok_def domain_boot_def s0_def)
  have poss: "length m' = 2" if "possible_harts (dom_obj s0 ROOT) = Some m'" for m'
    using that m(2) by (simp add: s0_def d_def)
  from sbi_domain_register_ok [OF ok _ m(2) poss, of ROOT hart_invalid cold] reg
  obtain x where x: "sanitize_domain hart_invalid fw d = Some (0, x)"
    "same_config (dom_obj s ROOT) (x\<lparr>dom_index := 0\<rparr>)"
    by (auto simp: s0_def domain_boot_def)
  have fwo: "mr_order fw \<noteq> 0"
  proof
    assume "mr_order fw = 0"
    then have "memregions A = []" by (simp add: A_def memregions_def)
    with sanitize_domain_ok [OF x(1)] show False by (auto simp: d_def)
  qed
  then have live: "memregions A = [fw, ?all]" by (simp add: A_def memregions_def)
  from sanitize_domain_ok [OF x(1)] live have valid: "is_region_valid fw" by (auto simp: d_def dest: mset_eq_setD)
  have "\<not> is_region_before ?all fw"
    using valid memregion_init_top [of fw_start fw_size 0] by (auto simp: is_region_before_def is_region_valid_def fw_def)
  moreover have "\<not> is_region_conflict ?all fw"
    by (simp add: is_region_conflict_def fw_def sbi_domain_memregion_init_def split: prod.split)
  ultimately have sort: "sort_outer A 0 2 1 = (True, A)"
    by (simp add: A_def numeral_2_eq_2)
  have "regions x = Some A"
    using sanitize_domain_regions [OF x(1)] sort live by (auto simp: d_def numeral_2_eq_2 simp del: sort_outer.simps)
  with sanitize_domain_ok [OF x(1)] live
  obtain arr' where "regions x = Some arr'" "memregions arr' = [fw, ?all]" "is_region_valid fw" "dom_next_mode x \<in> {PRV_S, PRV_U}"
    "dom_next_addr x = na" "sbi_domain_check_addr (Some x) na (dom_next_mode x) SBI_DOMAIN_EXECUTE" "length arr' = 17" "possible_harts x = Some m"
    by (auto simp: d_def A_def)
  moreover have "access_rwx 4 = 4" "(4 :: ulong) AND 8 = 0" by (code_simp+)
  ultimately show ?thesis using x(2) m(2) by (auto simp: same_config_def sbi_domain_check_addr_def)
qed

lemma domain_init_lookup:
  assumes "sbi_domain_init hart_invalid fw_start fw_size a1 na nm cold domain_boot = Some (0, s)"
    and "mode \<noteq> PRV_M"
  defines "fw \<equiv> sbi_domain_memregion_init fw_start fw_size 0"
  shows "is_region_valid fw \<and> mr_order fw < 64 \<and>
    sbi_domain_check_addr (Some (dom_obj s ROOT)) addr mode fl =
      (if region_contains fw addr then fl AND SBI_DOMAIN_MMIO = 0 \<and> access_rwx fl = 0
       else fl AND SBI_DOMAIN_MMIO = 0 \<and> 7 AND access_rwx fl = access_rwx fl)"
proof -
  let ?all = "\<lparr>mr_order = 64, mr_base = 0, mr_flags = 7\<rparr> :: sbi_domain_memregion"
  from domain_init_regions [OF assms(1)] obtain arr x where arr: "regions (dom_obj s ROOT) = Some arr"
    and regs: "memregions arr = [fw, ?all]" and valid: "is_region_valid fw"
    and x: "x = PRV_S \<or> x = PRV_U" "check_addr_loop (memregions arr) na x 4 False"
    unfolding fw_def by blast
  have flags: "mr_flags fw = 0" by (simp add: fw_def sbi_domain_memregion_init_def split: prod.split)
  have all: "region_contains ?all a" for a by (simp add: region_contains_def region_end_def)
  have lt: "mr_order fw < 64"
  proof (rule ccontr)
    assume "\<not> mr_order fw < 64"
    with valid have "mr_order fw = 64" by (simp add: is_region_valid_def)
    moreover from this have "mr_base fw = 0" unfolding fw_def by (rule memregion_init_top)
    ultimately have "region_contains fw na" by (simp add: region_contains_def region_end_def)
    with x regs flags show False
      by (auto simp: check_addr_loop_find region_allows_def)
  qed
  have bits: "(7 :: ulong) AND 0x80000000 = 0" by code_simp
  show ?thesis
    using valid lt arr regs assms(2) flags all [of addr] bits
    by (auto simp: sbi_domain_check_addr_def check_addr_loop_find region_allows_def)
qed

text \<open>
  C1. Once \<^verbatim>\<open>sbi_domain_init\<close> succeeded on the reset state, no S- or U-mode read, write or
  execute access to an address of the firmware passes the address check of the root domain, while
  every ordinary memory access outside the firmware region does.
\<close>

theorem root_domain_protects_firmware:
  assumes "sbi_domain_init hart_invalid fw_start fw_size a1 na nm cold domain_boot = Some (0, s)"
    and "mode \<noteq> PRV_M" and "0 < fw_size" and "unat fw_start + unat fw_size \<le> 2 ^ 64"
    and "fw = sbi_domain_memregion_init fw_start fw_size 0"
  shows "(unat fw_start \<le> unat addr \<and> unat addr < unat fw_start + unat fw_size \<and> access_rwx fl \<noteq> 0 \<longrightarrow>
       \<not> sbi_domain_check_addr (Some (dom_obj s ROOT)) addr mode fl) \<and>
    (\<not> (unat (mr_base fw) \<le> unat addr \<and> unat addr < unat (mr_base fw) + 2 ^ mr_order fw) \<and>
       fl AND SBI_DOMAIN_MMIO = 0 \<longrightarrow> sbi_domain_check_addr (Some (dom_obj s ROOT)) addr mode fl)"
proof -
  note l = domain_init_lookup [OF assms(1,2), of addr fl, folded assms(5)]
  have mem: "region_contains fw addr \<longleftrightarrow>
      unat (mr_base fw) \<le> unat addr \<and> unat addr < unat (mr_base fw) + 2 ^ mr_order fw"
    using l by (intro region_contains_iff) auto
  note cover = memregion_init_covers_fw [OF assms(3,4), of 0, folded assms(5), unfolded Let_def]
  have "region_contains fw addr" if "unat fw_start \<le> unat addr" "unat addr < unat fw_start + unat fw_size"
    using that cover mem by linarith
  with l mem access_rwx_seven [of fl] show ?thesis by auto
qed

theorem root_domain_protects_firmware_witness:
  "\<exists>s. sbi_domain_init (\<lambda>h. 1 < h) 0x80000000 0x14000 0x82200000 0x80200000 PRV_S 0 domain_boot = Some (0, s) \<and>
    \<not> sbi_domain_check_addr (Some (dom_obj s ROOT)) 0x80001000 PRV_S SBI_DOMAIN_WRITE \<and>
    sbi_domain_check_addr (Some (dom_obj s ROOT)) 0x90000000 PRV_S SBI_DOMAIN_WRITE"
proof -
  let ?r = "sbi_domain_init (\<lambda>h. 1 < h) 0x80000000 0x14000 0x82200000 0x80200000 PRV_S 0 domain_boot"
  have "map_option fst ?r = Some 0" by code_simp
  then obtain s where s: "?r = Some (0, s)" by auto
  have rwx: "access_rwx SBI_DOMAIN_WRITE \<noteq> 0" "SBI_DOMAIN_WRITE AND SBI_DOMAIN_MMIO = 0" by (code_simp+)
  have fw: "\<lparr>mr_order = 17, mr_base = 0x80000000, mr_flags = 0\<rparr> = sbi_domain_memregion_init 0x80000000 0x14000 0"
    by code_simp
  have sz: "(0 :: ulong) < 0x14000" "PRV_S \<noteq> PRV_M" "unat (0x80000000 :: ulong) + unat (0x14000 :: ulong) \<le> 2 ^ 64"
    by (simp_all add: word_less_nat_alt)
  note w = root_domain_protects_firmware [OF s sz(2,1,3) fw]
  show ?thesis
    using s w [of "0x80001000" SBI_DOMAIN_WRITE] w [of "0x90000000" SBI_DOMAIN_WRITE] rwx by simp
qed

end
