(* ===== verification/Riscv_Asm.thy ===== *)
theory Riscv_Asm
  imports Sbi_Domain
begin

text \<open>
  CSR access and physical memory protection, \<^verbatim>\<open>lib/sbi/riscv_asm.c\<close> and
  \<^verbatim>\<open>include/sbi/sbi_csr_detect.h\<close>. The hart itself is a parameter: \<open>csr_ok\<close> tells which CSRs exist
  (an access to another one traps) and \<open>csr_warl\<close> which value a written CSR keeps. What a PMP register keeps
  also depends on the other PMP registers (locked entries) and on its old value (refused configurations): \<open>pmp_warl\<close>. The state of
  the CSRs is a function from CSR numbers to values. Platform callbacks are parameters, too.
  \<open>None\<close> is the infinite loop of \<^verbatim>\<open>BUG()\<close>.
\<close>

section \<open>CSRs\<close>

type_synonym csrs = "nat \<Rightarrow> ulong"

record riscv_hw =
  csr_ok :: "nat \<Rightarrow> bool"
  csr_warl :: "nat \<Rightarrow> ulong \<Rightarrow> ulong"
  pmp_warl :: "csrs \<Rightarrow> nat \<Rightarrow> ulong \<Rightarrow> ulong"

abbreviation (input) CSR_PMPCFG0 :: nat where "CSR_PMPCFG0 \<equiv> 0x3a0"
abbreviation (input) CSR_PMPADDR0 :: nat where "CSR_PMPADDR0 \<equiv> 0x3b0"
abbreviation (input) CSR_MISA :: nat where "CSR_MISA \<equiv> 0x301"
abbreviation (input) CSR_MCYCLE :: nat where "CSR_MCYCLE \<equiv> 0xb00"
abbreviation (input) CSR_MINSTRET :: nat where "CSR_MINSTRET \<equiv> 0xb02"
abbreviation (input) CSR_MHPMCOUNTER3 :: nat where "CSR_MHPMCOUNTER3 \<equiv> 0xb03"
abbreviation (input) CSR_MHPMCOUNTER31 :: nat where "CSR_MHPMCOUNTER31 \<equiv> 0xb1f"
abbreviation (input) CSR_MCOUNTINHIBIT :: nat where "CSR_MCOUNTINHIBIT \<equiv> 0x320"
abbreviation (input) CSR_MHPMEVENT3 :: nat where "CSR_MHPMEVENT3 \<equiv> 0x323"
abbreviation (input) CSR_MHPMEVENT31 :: nat where "CSR_MHPMEVENT31 \<equiv> 0x33f"

definition csr_keeps :: "riscv_hw \<Rightarrow> csrs \<Rightarrow> nat \<Rightarrow> ulong \<Rightarrow> ulong" where
  "csr_keeps hw c n v = (if CSR_PMPCFG0 \<le> n \<and> n < CSR_PMPADDR0 + 64 then pmp_warl hw c n v else csr_warl hw n v)"

definition csr_write :: "riscv_hw \<Rightarrow> nat \<Rightarrow> ulong \<Rightarrow> csrs \<Rightarrow> csrs" where
  "csr_write hw n v c = c(n := csr_keeps hw c n v)"

text \<open>The probing accesses: whether the access trapped, and the value or the new state.\<close>

definition csr_read_allowed :: "riscv_hw \<Rightarrow> nat \<Rightarrow> csrs \<Rightarrow> ulong option" where
  "csr_read_allowed hw n c = (if csr_ok hw n then Some (c n) else None)"

definition csr_write_allowed :: "riscv_hw \<Rightarrow> nat \<Rightarrow> ulong \<Rightarrow> csrs \<Rightarrow> csrs option" where
  "csr_write_allowed hw n v c = (if csr_ok hw n then Some (csr_write hw n v c) else None)"

definition csr_readable_num :: "nat \<Rightarrow> bool" where
  "csr_readable_num n \<longleftrightarrow> CSR_PMPCFG0 \<le> n \<and> n < CSR_PMPCFG0 + 16 \<or> CSR_PMPADDR0 \<le> n \<and> n < CSR_PMPADDR0 + 64 \<or>
     n = CSR_MCYCLE \<or> n = CSR_MINSTRET \<or> CSR_MHPMCOUNTER3 \<le> n \<and> n \<le> CSR_MHPMCOUNTER31"

definition csr_read_num :: "nat \<Rightarrow> csrs \<Rightarrow> ulong option" where
  "csr_read_num n c = (if csr_readable_num n then Some (c n) else None)"

definition csr_writable_num :: "nat \<Rightarrow> bool" where
  "csr_writable_num n \<longleftrightarrow> csr_readable_num n \<or> n = CSR_MCOUNTINHIBIT \<or> CSR_MHPMEVENT3 \<le> n \<and> n \<le> CSR_MHPMEVENT31"

definition csr_write_num :: "riscv_hw \<Rightarrow> nat \<Rightarrow> ulong \<Rightarrow> csrs \<Rightarrow> csrs option" where
  "csr_write_num hw n v c = (if csr_writable_num n then Some (csr_write hw n v c) else None)"

section \<open>The ISA\<close>

text \<open>\<^verbatim>\<open>1 << (ext - 'A')\<close> and the return value are of type \<^verbatim>\<open>int\<close>: the result is the low word.\<close>

definition misa_extension_imp :: "(char \<Rightarrow> int) \<Rightarrow> char \<Rightarrow> csrs \<Rightarrow> int" where
  "misa_extension_imp platform_misa_extension ext c =
     (let misa = c CSR_MISA; e = of_char ext :: nat
      in if misa \<noteq> 0
         then if 65 \<le> e \<and> e \<le> 90 then sint (ucast (misa AND push_bit (e - 65) 1) :: u32)
              else if 97 \<le> e \<and> e \<le> 122 then sint (ucast (misa AND push_bit (e - 97) 1) :: u32)
              else 0
         else platform_misa_extension ext)"

definition misa_xlen :: "int \<Rightarrow> csrs \<Rightarrow> int" where
  "misa_xlen platform_misa_xlen c =
     (let misa = c CSR_MISA
      in if misa = 0 then platform_misa_xlen
         else let t1 = push_bit 1 (if sint misa < 0 then 1 else 0 :: ulong);
                  t0 = (if sint (push_bit 1 misa) < 0 then 1 else 0);
                  r = t0 + t1
              in if r \<noteq> 0 then uint r else - 1)"

definition valid_isa_order :: string where
  "valid_isa_order = ''iemafdqclbjtpvnsuhkorwxyzg''"

text \<open>
  \<^verbatim>\<open>misa_string\<close>: the characters written to \<^verbatim>\<open>out\<close> from its start; \<open>out_sz\<close> bounds them. The array of
  extension letters includes its terminator, which is no letter.
\<close>

fun misa_string_exts :: "(char \<Rightarrow> bool) \<Rightarrow> string \<Rightarrow> nat \<Rightarrow> string \<Rightarrow> string" where
  "misa_string_exts has out out_sz [] = out"
| "misa_string_exts has out out_sz (e # es) =
     (if length out < out_sz
      then misa_string_exts has (if has e then out @ [e] else out) out_sz es
      else out)"

definition misa_string :: "(char \<Rightarrow> bool) \<Rightarrow> int \<Rightarrow> nat \<Rightarrow> string option" where
  "misa_string has xlen out_sz =
     (case (if 5 \<le> out_sz
            then if xlen = 1 then Some ''rv32'' else if xlen = 2 then Some ''rv64''
                 else if xlen = 3 then Some ''rv128'' else None
            else Some []) of
        None \<Rightarrow> None
      | Some out \<Rightarrow>
          (let out = misa_string_exts has out out_sz (valid_isa_order @ [CHR 0x00])
           in Some (if length out < out_sz then out @ [CHR 0x00] else out)))"

section \<open>Physical memory protection\<close>

abbreviation (input) PMP_R :: ulong where "PMP_R \<equiv> 0x01"
abbreviation (input) PMP_W :: ulong where "PMP_W \<equiv> 0x02"
abbreviation (input) PMP_X :: ulong where "PMP_X \<equiv> 0x04"
abbreviation (input) PMP_A :: ulong where "PMP_A \<equiv> 0x18"
abbreviation (input) PMP_A_NA4 :: ulong where "PMP_A_NA4 \<equiv> 0x10"
abbreviation (input) PMP_A_NAPOT :: ulong where "PMP_A_NAPOT \<equiv> 0x18"
abbreviation (input) PMP_L :: ulong where "PMP_L \<equiv> 0x80"
abbreviation (input) PMP_SHIFT :: nat where "PMP_SHIFT \<equiv> 2"
abbreviation (input) PMP_COUNT :: nat where "PMP_COUNT \<equiv> 64"

text \<open>The loop runs at most 64 times, since a nonzero word has a set bit.\<close>

fun ctz_loop :: "nat \<Rightarrow> ulong \<Rightarrow> nat \<Rightarrow> nat option" where
  "ctz_loop 0 x ret = None"
| "ctz_loop (Suc fuel) x ret = (if x AND 1 = 0 then ctz_loop fuel (drop_bit 1 x) (ret + 1) else Some ret)"

definition ctz :: "ulong \<Rightarrow> nat option" where
  "ctz x = (if x = 0 then Some 64 else ctz_loop 64 x 0)"

definition pmpcfg_csr :: "nat \<Rightarrow> nat" where
  "pmpcfg_csr n = (CSR_PMPCFG0 + n div 4) div 2 * 2"

definition pmpcfg_shift :: "nat \<Rightarrow> nat" where
  "pmpcfg_shift n = n mod 8 * 8"

definition pmpaddr_csr :: "nat \<Rightarrow> nat" where
  "pmpaddr_csr n = CSR_PMPADDR0 + n"

definition pmp_encode_addr :: "ulong \<Rightarrow> nat \<Rightarrow> ulong" where
  "pmp_encode_addr addr log2len =
     (if log2len = PMP_SHIFT then drop_bit PMP_SHIFT addr
      else if log2len = riscv_xlen then - 1
      else let addrmask = push_bit (log2len - PMP_SHIFT) 1 - 1
           in (drop_bit PMP_SHIFT addr AND NOT addrmask) OR drop_bit 1 addrmask)"

definition pmp_set :: "riscv_hw \<Rightarrow> nat \<Rightarrow> ulong \<Rightarrow> ulong \<Rightarrow> nat \<Rightarrow> csrs \<Rightarrow> (int \<times> csrs) option" where
  "pmp_set hw n prot addr log2len c =
     (if PMP_COUNT \<le> n \<or> riscv_xlen < log2len \<or> log2len < PMP_SHIFT then Some (SBI_EINVAL, c)
      else let prot = prot OR (if log2len = PMP_SHIFT then PMP_A_NA4 else PMP_A_NAPOT);
               cfgmask = NOT (push_bit (pmpcfg_shift n) 0xff)
           in case csr_read_num (pmpcfg_csr n) c of
                None \<Rightarrow> None
              | Some cfg \<Rightarrow>
                  (let pmpcfg = (cfg AND cfgmask) OR (push_bit (pmpcfg_shift n) prot AND NOT cfgmask)
                   in case csr_write_num hw (pmpaddr_csr n) (pmp_encode_addr addr log2len) c of
                        None \<Rightarrow> None
                      | Some c \<Rightarrow> map_option (\<lambda>c. (0, c)) (csr_write_num hw (pmpcfg_csr n) pmpcfg c)))"

definition pmp_get :: "nat \<Rightarrow> csrs \<Rightarrow> (int \<times> ulong \<times> ulong \<times> nat) option" where
  "pmp_get n c =
     (if PMP_COUNT \<le> n then Some (SBI_EINVAL, 0, 0, 0)
      else case csr_read_num (pmpcfg_csr n) c of
          None \<Rightarrow> None
        | Some cfg \<Rightarrow>
            (let prot = drop_bit (pmpcfg_shift n) (cfg AND push_bit (pmpcfg_shift n) 0xff)
             in case csr_read_num (pmpaddr_csr n) c of
                  None \<Rightarrow> None
                | Some addr \<Rightarrow>
                    if prot AND PMP_A = PMP_A_NAPOT
                    then if addr = - 1 then Some (0, prot, 0, riscv_xlen)
                         else case ctz (NOT addr) of
                             None \<Rightarrow> None
                           | Some t1 \<Rightarrow>
                               Some (0, prot, push_bit PMP_SHIFT (addr AND NOT (push_bit t1 1 - 1)), t1 + PMP_SHIFT + 1)
                    else Some (0, prot, push_bit PMP_SHIFT addr, PMP_SHIFT)))"

section \<open>What the hardware matches\<close>

text \<open>
  The matching rule of the privileged architecture, as a specification: entry \<open>n\<close> matches an
  address according to its mode bits, the lowest-numbered matching entry decides, and an S- or
  U-mode access that no entry matches fails.
\<close>

definition pmp_byte :: "ulong \<Rightarrow> nat \<Rightarrow> ulong" where
  "pmp_byte v n = drop_bit (pmpcfg_shift n) v AND mask 8"

definition pmp_cfg :: "csrs \<Rightarrow> nat \<Rightarrow> ulong" where
  "pmp_cfg c n = pmp_byte (c (pmpcfg_csr n)) n"

definition pmp_match :: "csrs \<Rightarrow> nat \<Rightarrow> ulong \<Rightarrow> bool" where
  "pmp_match c n addr \<longleftrightarrow>
     (let a = c (pmpaddr_csr n); x = drop_bit 2 addr; mode = pmp_cfg c n AND PMP_A
      in if mode = PMP_A_NAPOT then (x XOR a) AND NOT (a XOR (a + 1)) = 0
         else if mode = PMP_A_NA4 then x = a
         else if mode = 0x08 then (if n = 0 then 0 else c (pmpaddr_csr (n - 1))) \<le> x \<and> x < a
         else False)"

definition pmp_allows :: "csrs \<Rightarrow> nat \<Rightarrow> ulong \<Rightarrow> ulong \<Rightarrow> bool" where
  "pmp_allows c cnt addr rwx =
     (case find (\<lambda>n. pmp_match c n addr) [0..<cnt] of None \<Rightarrow> False | Some n \<Rightarrow> pmp_cfg c n AND rwx = rwx)"

text \<open>
  What a hart with \<open>cnt\<close> implemented entries promises of writes to its PMP registers. A configuration byte is legal if it is not
  writable without being readable (a reserved combination) and does not select a naturally aligned four-byte region, which a hart with a coarser
  granularity refuses. The low 54 bits written to the address register of an entry are kept if neither the entry nor the next one is locked. Of a written configuration register
  the byte of a locked entry keeps its old value, a legal byte of another entry is kept as written, and the byte of an
  entry that is not implemented reads zero. Nothing is promised of an illegal byte.
\<close>

definition pmp_legal :: "ulong \<Rightarrow> bool" where
  "pmp_legal b \<longleftrightarrow> b AND PMP_A \<noteq> PMP_A_NA4 \<and> (b AND PMP_W \<noteq> 0 \<longrightarrow> b AND PMP_R \<noteq> 0)"

definition pmp_locked :: "csrs \<Rightarrow> nat \<Rightarrow> bool" where
  "pmp_locked c n \<longleftrightarrow> pmp_cfg c n AND PMP_L \<noteq> 0"

definition pmp_addr_free :: "nat \<Rightarrow> csrs \<Rightarrow> nat \<Rightarrow> bool" where
  "pmp_addr_free cnt c n \<longleftrightarrow> \<not> pmp_locked c n \<and> (n + 1 < cnt \<longrightarrow> \<not> pmp_locked c (n + 1))"

definition pmp_hw :: "riscv_hw \<Rightarrow> nat \<Rightarrow> bool" where
  "pmp_hw hw cnt \<longleftrightarrow>
     (\<forall>c v. \<forall>n < cnt. pmp_addr_free cnt c n \<longrightarrow> pmp_warl hw c (pmpaddr_csr n) v = v AND mask 54) \<and>
     (\<forall>c v. \<forall>n < 64. let b = pmp_byte (pmp_warl hw c (pmpcfg_csr n) v) n
        in if cnt \<le> n then b = 0 else if pmp_locked c n then b = pmp_cfg c n
           else pmp_legal (pmp_byte v n) \<longrightarrow> b = pmp_byte v n)"

text \<open>The configuration bytes such a hart can hold.\<close>

definition pmp_wf :: "nat \<Rightarrow> csrs \<Rightarrow> bool" where
  "pmp_wf cnt c \<longleftrightarrow> (\<forall>n < 64. if n < cnt then pmp_legal (pmp_cfg c n) else pmp_cfg c n = 0)"

lemma pmpcfg_csr_eq: "pmpcfg_csr n = 0x3a0 + n div 8 * 2"
proof -
  have "n div 4 = 2 * (n div 8) + (n div 4) mod 2"
    by (simp add: div_mult2_eq [of n 4 2, simplified])
  then have "(0x3a0 + n div 4) div 2 = 0x1d0 + n div 8" by linarith
  then show ?thesis by (simp add: pmpcfg_csr_def)
qed

lemma pmp_csr_nums [simp]:
  "n < 64 \<Longrightarrow> csr_readable_num (pmpcfg_csr n)" "n < 64 \<Longrightarrow> csr_readable_num (pmpaddr_csr n)"
  "n < 64 \<Longrightarrow> csr_writable_num (pmpcfg_csr n)" "n < 64 \<Longrightarrow> csr_writable_num (pmpaddr_csr n)"
  by (auto simp: csr_readable_num_def csr_writable_num_def pmpcfg_csr_eq pmpaddr_csr_def)

lemma pmp_csr_distinct [simp]:
  "n < 64 \<Longrightarrow> pmpcfg_csr n \<noteq> pmpaddr_csr m" "n < 64 \<Longrightarrow> pmpaddr_csr m \<noteq> pmpcfg_csr n"
  "pmpaddr_csr n = pmpaddr_csr m \<longleftrightarrow> n = m"
  by (auto simp: pmpcfg_csr_eq pmpaddr_csr_def)

text \<open>One byte of a configuration register replaced, as \<^verbatim>\<open>pmp_set\<close> does it.\<close>

definition byte_insert :: "nat \<Rightarrow> ulong \<Rightarrow> ulong \<Rightarrow> ulong" where
  "byte_insert n p v = (v AND NOT (push_bit (pmpcfg_shift n) (mask 8))) OR (push_bit (pmpcfg_shift n) p AND push_bit (pmpcfg_shift n) (mask 8))"

lemma pmp_byte_insert:
  assumes "pmpcfg_csr m = pmpcfg_csr n"
  shows "pmp_byte (byte_insert n p v) m = (if m = n then p AND mask 8 else pmp_byte v m)"
proof -
  have same: "m = n \<longleftrightarrow> m mod 8 = n mod 8" using assms by (auto simp: pmpcfg_csr_eq) (metis div_mult_mod_eq)
  show ?thesis
  proof (rule bit_word_eqI)
    fix i assume "i < LENGTH(64)"
    have l: "m mod 8 < 8" "n mod 8 < 8" by simp_all
    show "bit (pmp_byte (byte_insert n p v) m) i = bit (if m = n then p AND mask 8 else pmp_byte v m) i"
    proof (cases "i < 8")
      case i: True
      then have lt: "pmpcfg_shift m + i < 64" using l by (simp add: pmpcfg_shift_def)
      have "(pmpcfg_shift n \<le> pmpcfg_shift m + i \<and> pmpcfg_shift m + i < pmpcfg_shift n + 8) \<longleftrightarrow> m = n"
        unfolding same pmpcfg_shift_def using i l by linarith
      with i lt show ?thesis
        by (auto simp: pmp_byte_def byte_insert_def bit_simps)
    qed (simp add: pmp_byte_def bit_simps)
  qed
qed

text \<open>The registers after \<^verbatim>\<open>pmp_set\<close> for a block of at least eight bytes on an entry that is not locked.\<close>

lemma pmp_set_eq:
  fixes hw :: riscv_hw and addr :: ulong and c :: csrs
  assumes "n < 64" and "3 \<le> k" "k \<le> 64"
  defines "c1 \<equiv> c(pmpaddr_csr n := pmp_warl hw c (pmpaddr_csr n) (pmp_encode_addr addr k))"
  shows "pmp_set hw n prot addr k c = Some (0, c1(pmpcfg_csr n :=
    pmp_warl hw c1 (pmpcfg_csr n) (byte_insert n (prot OR PMP_A_NAPOT) (c (pmpcfg_csr n)))))"
proof -
  have ff: "(0xff :: ulong) = mask 8" by (simp add: mask_eq_exp_minus_1)
  have r: "0x3a0 \<le> pmpcfg_csr n" "pmpcfg_csr n < 0x3f0" "0x3a0 \<le> pmpaddr_csr n" "pmpaddr_csr n < 0x3f0"
    using assms(1) by (auto simp: pmpcfg_csr_eq pmpaddr_csr_def)
  show ?thesis
    using assms(1-3) r unfolding pmp_set_def ff c1_def byte_insert_def
    by (simp add: csr_read_num_def csr_write_num_def csr_write_def csr_keeps_def Let_def)
qed

lemma pmp_set_run:
  assumes hw: "pmp_hw hw cnt" and cnt: "cnt \<le> 64" and n: "n < cnt" and k: "3 \<le> k" "k \<le> 64"
    and free: "pmp_addr_free cnt c n" and wf: "pmp_wf cnt c" and legal: "pmp_legal ((prot OR PMP_A_NAPOT) AND mask 8)"
  shows "\<exists>c'. pmp_set hw n prot addr k c = Some (0, c') \<and>
    c' (pmpaddr_csr n) = pmp_encode_addr addr k AND mask 54 \<and>
    (\<forall>m. m \<noteq> n \<longrightarrow> c' (pmpaddr_csr m) = c (pmpaddr_csr m)) \<and>
    (\<forall>m < 64. pmp_cfg c' m = (if m = n then (prot OR PMP_A_NAPOT) AND mask 8 else pmp_cfg c m))"
proof -
  let ?p = "prot OR PMP_A_NAPOT"
  define c1 where "c1 = c(pmpaddr_csr n := pmp_warl hw c (pmpaddr_csr n) (pmp_encode_addr addr k))"
  define w where "w = byte_insert n ?p (c (pmpcfg_csr n))"
  define c' where "c' = c1(pmpcfg_csr n := pmp_warl hw c1 (pmpcfg_csr n) w)"
  have n64: "n < 64" using n cnt by simp
  have run: "pmp_set hw n prot addr k c = Some (0, c')"
    using pmp_set_eq [OF n64 k, of hw prot addr c] by (simp only: c'_def c1_def w_def)
  have a: "c' (pmpaddr_csr n) = pmp_encode_addr addr k AND mask 54"
    using hw n free n64 by (simp add: c'_def c1_def pmp_hw_def)
  have rest: "\<forall>m. m \<noteq> n \<longrightarrow> c' (pmpaddr_csr m) = c (pmpaddr_csr m)" using n64 by (simp add: c'_def c1_def)
  have c1: "pmp_cfg c1 m = pmp_cfg c m" if "m < 64" for m using that by (simp add: pmp_cfg_def c1_def)
  have "pmp_cfg c' m = (if m = n then ?p AND mask 8 else pmp_cfg c m)" if m: "m < 64" for m
  proof (cases "pmpcfg_csr m = pmpcfg_csr n")
    case False
    then show ?thesis using c1 [OF m] by (auto simp: pmp_cfg_def c'_def)
  next
    case True
    have b: "pmp_byte w m = (if m = n then ?p AND mask 8 else pmp_cfg c m)"
      using pmp_byte_insert [OF True] by (simp add: w_def pmp_cfg_def True)
    have nl: "\<not> pmp_locked c n" using free by (simp add: pmp_addr_free_def)
    have h: "let b = pmp_cfg c' m in if cnt \<le> m then b = 0 else if pmp_locked c m then b = pmp_cfg c m
        else pmp_legal (pmp_byte w m) \<longrightarrow> b = pmp_byte w m"
      using hw m c1 [OF m] unfolding pmp_hw_def Let_def pmp_locked_def by (simp add: c'_def pmp_cfg_def True [symmetric])
    show ?thesis using h b wf m n nl legal by (auto simp: pmp_wf_def Let_def split: if_splits)
  qed
  with run a rest show ?thesis by blast
qed

lemma xor_increment:
  assumes "t < 64" and "\<forall>i < t. bit a i" and "\<not> bit (a :: ulong) t"
  shows "a XOR (a + 1) = mask (t + 1)"
proof -
  define q where "q = a AND NOT (mask (t + 1))"
  have a: "a = q OR mask t"
    using assms(2,3) by (intro bit_word_eqI) (auto simp: q_def bit_simps less_Suc_eq)
  have "q AND mask t = 0" by (rule bit_word_eqI) (auto simp: q_def bit_simps)
  then have "q OR mask t = q + mask t" by (simp add: disjunctive_add_eq_or)
  moreover have "q AND push_bit t 1 = 0" by (rule bit_word_eqI) (auto simp: q_def bit_simps)
  then have "q OR push_bit t 1 = q + push_bit t 1" by (simp add: disjunctive_add_eq_or)
  moreover have "mask t + 1 = (push_bit t 1 :: ulong)" by (simp add: mask_eq_exp_minus_1)
  ultimately have "a + 1 = q OR push_bit t 1" by (simp add: a add.assoc)
  then show ?thesis
    by (simp only: a) (rule bit_word_eqI, auto simp: q_def bit_simps)
qed

lemma high_bits_0_iff: "(u :: ulong) AND NOT (mask m) = 0 \<longleftrightarrow> (\<forall>i. m \<le> i \<longrightarrow> \<not> bit u i)"
proof -
  have "i < 64" if "bit u i" for i using bit_imp_le_length [OF that] by simp
  then show ?thesis by (auto simp: bit_eq_iff bit_simps not_less)
qed

lemma high_bits_eq_iff: "drop_bit k (u :: ulong) = drop_bit k v \<longleftrightarrow> (\<forall>i \<ge> k. bit u i = bit v i)"
proof
  assume eq: "drop_bit k u = drop_bit k v"
  show "\<forall>i \<ge> k. bit u i = bit v i"
  proof (intro allI impI)
    fix i assume "k \<le> i"
    with arg_cong [OF eq, of "\<lambda>w. bit w (i - k)"] show "bit u i = bit v i" by (simp add: bit_simps)
  qed
qed (auto intro!: bit_word_eqI simp: bit_simps)

lemma bit_above_bound:
  assumes "unat (w :: ulong) < 2 ^ n" and "n \<le> i"
  shows "\<not> bit w i"
proof -
  have "unat w < 2 ^ i" by (rule order.strict_trans2 [OF assms(1) power_increasing [OF assms(2)]]) simp
  then have "\<not> bit (unat w) i" by (simp add: bit_iff_odd)
  then show ?thesis by (simp add: bit_unsigned_iff)
qed

lemma div_eq_block_iff:
  fixes x b d :: nat
  assumes "d dvd b" and "0 < d"
  shows "x div d = b div d \<longleftrightarrow> b \<le> x \<and> x < b + d"
proof -
  from assms obtain q where b: "b = d * q" by auto
  have "x div d = q \<longleftrightarrow> d * q \<le> x \<and> x < d * q + d"
    using assms(2) by (auto simp: div_nat_eqI mult.commute less_mult_imp_div_less
        intro!: div_nat_eqI) (metis div_mult_mod_eq mult.commute mod_less_divisor add_less_cancel_left)+
  with assms(2) show ?thesis by (simp add: b)
qed

text \<open>An address register written for a block of size \<open>2 ^ k\<close>: trailing ones, a zero, the base.\<close>

lemma pmp_encode_bits:
  assumes "3 \<le> k" and "k \<le> 64" and "i < 54"
  shows "bit (pmp_encode_addr base k) i \<longleftrightarrow> k = 64 \<or> i + 3 < k \<or> k \<le> i + 2 \<and> bit base (i + 2)"
proof (cases "k = 64")
  case True
  with assms(3) show ?thesis by (simp add: pmp_encode_addr_def)
next
  case False
  have "push_bit (k - 2) 1 - 1 = (mask (k - 2) :: ulong)" by (simp add: mask_eq_exp_minus_1)
  with False assms show ?thesis
    by (auto simp: pmp_encode_addr_def Let_def bit_simps)
qed

lemma napot_match_iff:
  assumes k: "3 \<le> k" "k \<le> 64" and al: "2 ^ k dvd unat base"
    and small: "unat base < 2 ^ 56" "unat addr < 2 ^ 56"
  defines "a \<equiv> pmp_encode_addr base k AND mask 54"
  shows "(drop_bit 2 addr XOR a) AND NOT (a XOR (a + 1)) = 0 \<longleftrightarrow>
    unat base \<le> unat addr \<and> unat addr < unat base + 2 ^ k"
proof -
  define t where "t = min (k - 3) 54"
  have bits: "bit a i \<longleftrightarrow> i < 54 \<and> (k = 64 \<or> i + 3 < k \<or> k \<le> i + 2 \<and> bit base (i + 2))" for i
    using pmp_encode_bits [OF k, of i base] by (auto simp: a_def bit_simps)
  have top: "\<not> bit base i" "\<not> bit addr i" if "56 \<le> i" for i
    using bit_above_bound [OF small(1) that] bit_above_bound [OF small(2) that] by simp_all
  have "a XOR (a + 1) = mask (t + 1)"
    by (rule xor_increment) (use k in \<open>auto simp: bits t_def\<close>)
  then have "(drop_bit 2 addr XOR a) AND NOT (a XOR (a + 1)) = 0 \<longleftrightarrow>
      (\<forall>i. t + 1 \<le> i \<longrightarrow> \<not> bit (drop_bit 2 addr XOR a) i)" by (simp only: high_bits_0_iff)
  also have "\<dots> \<longleftrightarrow> (\<forall>i. t + 1 \<le> i \<longrightarrow> bit addr (i + 2) = bit a i)"
    by (simp add: bit_simps add.commute)
  also have "\<dots> \<longleftrightarrow> (\<forall>i \<ge> k. bit addr i = bit base i)"
  proof (rule iffI; intro allI impI)
    fix i assume *: "\<forall>i. t + 1 \<le> i \<longrightarrow> bit addr (i + 2) = bit a i" and i: "k \<le> i"
    show "bit addr i = bit base i"
    proof (cases "i < 56")
      case True
      then have "bit addr (i - 2 + 2) = bit a (i - 2)" using i k by (intro * [rule_format]) (simp add: t_def)
      moreover have "i - 2 + 2 = i" using i k by simp
      ultimately show ?thesis using True i k by (simp add: bits)
    qed (simp add: top)
  next
    fix i assume *: "\<forall>i \<ge> k. bit addr i = bit base i" and i: "t + 1 \<le> i"
    show "bit addr (i + 2) = bit a i"
    proof (cases "i < 54")
      case True
      with i have "k \<le> i + 2" by (auto simp: t_def)
      with * True k show ?thesis by (simp add: bits)
    qed (simp add: top bits)
  qed
  also have "\<dots> \<longleftrightarrow> drop_bit k addr = drop_bit k base" by (rule high_bits_eq_iff [symmetric])
  also have "\<dots> \<longleftrightarrow> unat addr div 2 ^ k = unat base div 2 ^ k"
    unfolding word_unat_eq_iff unat_drop_bit_eq by (simp add: drop_bit_eq_div)
  also have "\<dots> \<longleftrightarrow> unat base \<le> unat addr \<and> unat addr < unat base + 2 ^ k"
    using al by (auto simp: div_eq_block_iff)
  finally show ?thesis .
qed

section \<open>Programming an entry\<close>

text \<open>Permission bits as \<^verbatim>\<open>sbi_hart_pmp_configure\<close> passes them: no mode bits, one byte.\<close>

definition pmp_prot_ok :: "ulong \<Rightarrow> bool" where
  "pmp_prot_ok prot \<longleftrightarrow> prot AND (PMP_R OR PMP_W OR PMP_X OR PMP_L) = prot"

lemma pmp_prot_mode:
  assumes "pmp_prot_ok prot"
  shows "(prot OR m) AND mask 8 AND PMP_A = m AND PMP_A" "rwx AND 7 = rwx \<Longrightarrow>
    m AND 7 = 0 \<Longrightarrow> (prot OR m) AND mask 8 AND rwx = prot AND rwx"
proof -
  have p: "prot = prot AND 0x87" using assms by (simp add: pmp_prot_ok_def)
  have "(prot OR m) AND (mask 8 AND PMP_A) = (prot AND 0x87 AND PMP_A) OR (m AND PMP_A)"
    by (subst p) (simp add: and.assoc bit.conj_disj_distrib2 mask_eq_exp_minus_1)
  then show "(prot OR m) AND mask 8 AND PMP_A = m AND PMP_A" by (simp add: and.assoc)
  assume rwx: "rwx AND 7 = rwx" and m: "m AND 7 = 0"
  have "(prot OR m) AND mask 8 AND rwx = (prot OR m) AND (mask 8 AND (rwx AND 7))"
    by (simp add: rwx and.assoc)
  also have "\<dots> = (prot AND rwx AND 7) OR ((m AND 7) AND rwx)"
    by (simp add: bit.conj_disj_distrib bit.conj_disj_distrib2 ac_simps mask_eq_exp_minus_1)
  also have "\<dots> = prot AND rwx" by (simp add: m rwx and.assoc)
  finally show "(prot OR m) AND mask 8 AND rwx = prot AND rwx" .
qed

lemma pmp_match_other:
  assumes "c' (pmpaddr_csr m) = c (pmpaddr_csr m)" and "pmp_cfg c' m = pmp_cfg c m"
    and "pmp_cfg c m AND PMP_A \<noteq> 0x08"
  shows "pmp_match c' m addr = pmp_match c m addr"
  using assms by (simp add: pmp_match_def Let_def)

lemma pmp_set_ok:
  assumes hw: "pmp_hw hw cnt" "cnt \<le> 64" and n: "n < cnt" and k: "3 \<le> k" "k \<le> 64" and prot: "pmp_prot_ok prot" "pmp_legal prot"
    and al: "2 ^ k dvd unat base" "unat base < 2 ^ 56" and st: "pmp_addr_free cnt c n" "pmp_wf cnt c"
  shows "\<exists>c'. pmp_set hw n prot base k c = Some (0, c') \<and>
    (\<forall>addr. unat addr < 2 ^ 56 \<longrightarrow>
      (pmp_match c' n addr \<longleftrightarrow> unat base \<le> unat addr \<and> unat addr < unat base + 2 ^ k)) \<and>
    (\<forall>rwx. rwx AND 7 = rwx \<longrightarrow> pmp_cfg c' n AND rwx = prot AND rwx) \<and>
    pmp_cfg c' n AND PMP_A = PMP_A_NAPOT \<and> pmp_wf cnt c' \<and>
    (\<forall>m < 64. m \<noteq> n \<longrightarrow> c' (pmpaddr_csr m) = c (pmpaddr_csr m) \<and> pmp_cfg c' m = pmp_cfg c m)"
proof -
  let ?b = "(prot OR PMP_A_NAPOT) AND mask 8"
  have mb: "?b AND PMP_A = PMP_A_NAPOT" using pmp_prot_mode(1) [OF prot(1), of PMP_A_NAPOT] by (simp add: and.assoc)
  have pb: "?b AND rwx = prot AND rwx" if "rwx AND 7 = rwx" for rwx
    using pmp_prot_mode(2) [OF prot(1) that, of PMP_A_NAPOT] by (simp add: and.assoc)
  have legal: "pmp_legal ?b" using prot(2) mb pb [of PMP_W] pb [of PMP_R] by (simp add: pmp_legal_def)
  from pmp_set_run [OF hw n k st legal, of base]
  obtain c' where run: "pmp_set hw n prot base k c = Some (0, c')"
    and a: "c' (pmpaddr_csr n) = pmp_encode_addr base k AND mask 54"
    and rest: "\<forall>m. m \<noteq> n \<longrightarrow> c' (pmpaddr_csr m) = c (pmpaddr_csr m)"
    and cfg: "\<forall>m < 64. pmp_cfg c' m = (if m = n then ?b else pmp_cfg c m)" by blast
  have n64: "n < 64" using n hw(2) by simp
  have cn: "pmp_cfg c' n = ?b" using cfg n64 by simp
  have "pmp_wf cnt c'" using st(2) cfg legal n by (auto simp: pmp_wf_def)
  moreover have "pmp_match c' n addr \<longleftrightarrow> unat base \<le> unat addr \<and> unat addr < unat base + 2 ^ k"
    if "unat addr < 2 ^ 56" for addr
    using napot_match_iff [OF k al that] mb by (simp add: pmp_match_def a cn Let_def)
  ultimately show ?thesis using run rest cfg mb pb by (auto simp: cn)
qed

text \<open>
  Programming entry \<open>n\<close> with \<^verbatim>\<open>pmp_set\<close> for an aligned block makes the hardware match exactly
  the addresses of the block (physical addresses have 56 bits), with exactly the given read,
  write and execute permissions, and leaves every other entry as it was. The entry must be one the hart has, it and the next one must not be
  locked, and the permissions must be legal.
\<close>

theorem pmp_set_programs_block:
  assumes "pmp_hw hw cnt" "cnt \<le> 64" and "n < cnt" and "3 \<le> k" "k \<le> 64" and "pmp_prot_ok prot" "pmp_legal prot"
    and "2 ^ k dvd unat base" "unat base < 2 ^ 56" and "pmp_addr_free cnt c n" "pmp_wf cnt c"
  shows "\<exists>c'. pmp_set hw n prot base k c = Some (0, c') \<and>
    (\<forall>addr. unat addr < 2 ^ 56 \<longrightarrow>
      (pmp_match c' n addr \<longleftrightarrow> unat base \<le> unat addr \<and> unat addr < unat base + 2 ^ k)) \<and>
    (\<forall>rwx. rwx AND 7 = rwx \<longrightarrow> pmp_cfg c' n AND rwx = prot AND rwx) \<and>
    (\<forall>m < 64. m \<noteq> n \<longrightarrow> c' (pmpaddr_csr m) = c (pmpaddr_csr m) \<and> pmp_cfg c' m = pmp_cfg c m)"
  using pmp_set_ok [OF assms] by blast

section \<open>The hart of this system\<close>

text \<open>
  The PMP registers of CVA6 (\<^verbatim>\<open>core/csr_regfile.sv\<close>): \<open>nr\<close> of 16 entries are implemented, \<^verbatim>\<open>pmpcfg0\<close> and \<^verbatim>\<open>pmpcfg2\<close> hold
  eight configuration bytes each, the byte of a locked entry and an illegal byte keep their old value, the registers of
  the other entries stay zero. The address register of a locked entry keeps its value, too. (CVA6 reads bit 0 of an address register as zero while
  its entry is off; the state holds what is stored.)
\<close>

definition cva6_cfg_byte :: "nat \<Rightarrow> csrs \<Rightarrow> nat \<Rightarrow> ulong \<Rightarrow> ulong" where
  "cva6_cfg_byte nr c n b = (if nr \<le> n then 0 else if \<not> pmp_locked c n \<and> pmp_legal b then b else pmp_cfg c n)"

definition pmpcfg_bytes :: "(nat \<Rightarrow> ulong) \<Rightarrow> ulong" where
  "pmpcfg_bytes f = foldr (\<lambda>i w. push_bit (8 * i) (f i) OR w) [0..<8] 0"

definition cva6_pmp_warl :: "nat \<Rightarrow> csrs \<Rightarrow> nat \<Rightarrow> ulong \<Rightarrow> ulong" where
  "cva6_pmp_warl nr c n v =
     (if CSR_PMPADDR0 \<le> n
      then let i = n - CSR_PMPADDR0 in if nr \<le> i then 0 else if pmp_locked c i then c n else v AND mask 54
      else let e = (n - CSR_PMPCFG0) * 4 in pmpcfg_bytes (\<lambda>i. cva6_cfg_byte nr c (e + i) (pmp_byte v (e + i))))"

definition cva6_hw :: riscv_hw where
  "cva6_hw = \<lparr>csr_ok = (\<lambda>n. n = CSR_PMPCFG0 \<or> n = CSR_PMPCFG0 + 2 \<or> CSR_PMPADDR0 \<le> n \<and> n < CSR_PMPADDR0 + 16 \<or> n \<notin> {CSR_PMPCFG0..<CSR_PMPADDR0 + 64}),
     csr_warl = (\<lambda>n v. v), pmp_warl = cva6_pmp_warl 8\<rparr>"

lemma bit_pmpcfg_bytes:
  assumes "\<And>i. f i AND mask 8 = f i" and "j < 8" and "b < 8"
  shows "bit (pmpcfg_bytes f) (8 * j + b) = bit (f j) b"
proof -
  have hi: "\<not> bit (f i) x" if "8 \<le> x" for i x
    using arg_cong [OF assms(1), of "\<lambda>w. bit w x" i] that by (auto simp: bit_simps)
  have "bit (foldr (\<lambda>i w. push_bit (8 * i) (f i) OR w) xs 0) x = (\<exists>i \<in> set xs. bit (push_bit (8 * i) (f i)) x)" for xs x
    by (induction xs) (auto simp: bit_simps)
  then have "bit (pmpcfg_bytes f) (8 * j + b) = (\<exists>i < 8. bit (push_bit (8 * i) (f i)) (8 * j + b))"
    by (auto simp: pmpcfg_bytes_def simp del: upt_rec_numeral)
  also have "\<dots> = bit (f j) b"
  proof
    assume "\<exists>i < 8. bit (push_bit (8 * i) (f i)) (8 * j + b)"
    then obtain i where i: "8 * i \<le> 8 * j + b" "bit (f i) (8 * j + b - 8 * i)" by (auto simp: bit_simps)
    then have "8 * j + b - 8 * i < 8" using hi not_less by blast
    then have "i = j" using i(1) assms(3) by presburger
    with i(2) show "bit (f j) b" by simp
  qed (use assms(2,3) in \<open>auto simp: bit_simps intro!: exI [of _ j]\<close>)
  finally show ?thesis .
qed

lemma pmp_byte_pmpcfg_bytes:
  assumes "\<And>i. f i AND mask 8 = f i"
  shows "pmp_byte (pmpcfg_bytes f) n = f (n mod 8)"
proof (rule bit_word_eqI)
  fix b assume "b < LENGTH(64)"
  show "bit (pmp_byte (pmpcfg_bytes f) n) b = bit (f (n mod 8)) b"
  proof (cases "b < 8")
    case True
    then show ?thesis using bit_pmpcfg_bytes [OF assms, of "n mod 8" b]
      by (simp add: pmp_byte_def pmpcfg_shift_def bit_simps mult.commute)
  next
    case False
    then show ?thesis using arg_cong [OF assms [of "n mod 8"], of "\<lambda>w. bit w b"] by (auto simp: pmp_byte_def bit_simps)
  qed
qed

lemma pmp_byte_mask [simp]: "pmp_byte v n AND mask 8 = pmp_byte v n"
  by (simp add: pmp_byte_def and.assoc)

lemma cva6_pmp_hw: "pmp_hw cva6_hw 8"
proof -
  have "pmp_byte (cva6_pmp_warl 8 c (pmpcfg_csr n) v) n = cva6_cfg_byte 8 c n (pmp_byte v n)" if n: "n < 64" for c v n
  proof -
    have e: "\<not> 0x3b0 \<le> pmpcfg_csr n" "(pmpcfg_csr n - 0x3a0) * 4 + n mod 8 = n" using n by (simp_all add: pmpcfg_csr_eq)
    let ?f = "\<lambda>i. cva6_cfg_byte 8 c ((pmpcfg_csr n - 0x3a0) * 4 + i) (pmp_byte v ((pmpcfg_csr n - 0x3a0) * 4 + i))"
    have "?f i AND mask 8 = ?f i" for i by (simp add: cva6_cfg_byte_def pmp_cfg_def)
    from pmp_byte_pmpcfg_bytes [of ?f n, OF this] e show ?thesis by (simp add: cva6_pmp_warl_def Let_def)
  qed
  then show ?thesis by (auto simp: pmp_hw_def cva6_hw_def cva6_cfg_byte_def Let_def cva6_pmp_warl_def pmpaddr_csr_def pmp_addr_free_def)
qed

theorem pmp_set_programs_block_witness:
  "\<exists>c'. pmp_set cva6_hw 1 (PMP_R OR PMP_W) 0x80000000 17 (\<lambda>_. 0) = Some (0, c') \<and>
    pmp_match c' 1 0x80001000 \<and> \<not> pmp_match c' 1 0x80020000"
proof -
  have p: "pmp_prot_ok (PMP_R OR PMP_W)" "pmp_legal (PMP_R OR PMP_W)" by (code_simp+)
  have st: "pmp_addr_free 8 (\<lambda>_. 0) 1" "pmp_wf 8 (\<lambda>_. 0)"
    by (simp_all add: pmp_addr_free_def pmp_locked_def pmp_wf_def pmp_legal_def pmp_cfg_def pmp_byte_def)
  from pmp_set_programs_block [OF cva6_pmp_hw _ _ _ _ p _ _ st, of 17 "0x80000000"]
  show ?thesis by fastforce
qed

end
