(* ===== verification/Sbi_Scratch.thy ===== *)
theory Sbi_Scratch
  imports Sbi_String Riscv_Locks Sbi_Bitops
begin

text \<open>
  The per-hart scratch spaces, \<^verbatim>\<open>lib/sbi/sbi_scratch.c\<close>: the table of scratch spaces and the
  allocator that reserves the same offset in the scratch space of every hart. A scratch space is
  its 4 KiB of bytes; \<open>None\<close> in the table is the null pointer. The platform and the boot code's
  \<^verbatim>\<open>hartid_to_scratch\<close> are parameters.
\<close>

section \<open>Operations\<close>

abbreviation (input) SBI_SCRATCH_EXTRA_SPACE_OFFSET :: ulong where "SBI_SCRATCH_EXTRA_SPACE_OFFSET \<equiv> 88"
abbreviation (input) SBI_SCRATCH_SIZE :: ulong where "SBI_SCRATCH_SIZE \<equiv> 0x1000"

record scratch_sys =
  last_hartid_having_scratch :: nat
  hartid_to_scratch_table :: "nat \<Rightarrow> bytes option"
  extra_lock :: spinlock
  extra_offset :: ulong

definition scratch_boot :: scratch_sys where
  "scratch_boot = \<lparr>last_hartid_having_scratch = SBI_HARTMASK_MAX_BITS - 1, hartid_to_scratch_table = (\<lambda>_. None),
     extra_lock = SPIN_LOCK_UNLOCKED, extra_offset = SBI_SCRATCH_EXTRA_SPACE_OFFSET\<rparr>"

fun scratch_init_loop :: "(hartid \<Rightarrow> bool) \<Rightarrow> (hartid \<Rightarrow> bytes option) \<Rightarrow> nat list \<Rightarrow> scratch_sys \<Rightarrow> scratch_sys" where
  "scratch_init_loop hart_invalid to_scratch [] s = s"
| "scratch_init_loop hart_invalid to_scratch (i # js) s =
     (if hart_invalid i then scratch_init_loop hart_invalid to_scratch js s
      else let s = s\<lparr>hartid_to_scratch_table := (hartid_to_scratch_table s)(i := to_scratch i)\<rparr>;
               s = (if hartid_to_scratch_table s i \<noteq> None then s\<lparr>last_hartid_having_scratch := i\<rparr> else s)
           in scratch_init_loop hart_invalid to_scratch js s)"

definition sbi_scratch_init :: "(hartid \<Rightarrow> bool) \<Rightarrow> (hartid \<Rightarrow> bytes option) \<Rightarrow> scratch_sys \<Rightarrow> int \<times> scratch_sys" where
  "sbi_scratch_init hart_invalid to_scratch s =
     (0, scratch_init_loop hart_invalid to_scratch [0..<SBI_HARTMASK_MAX_BITS] s)"

text \<open>Round up to the size of a pointer, with the wrap-around of \<^verbatim>\<open>unsigned long\<close>.\<close>

definition scratch_round :: "ulong \<Rightarrow> ulong" where
  "scratch_round sz = (if sz AND 7 \<noteq> 0 then (sz AND NOT 7) + 8 else sz)"

fun scratch_clear :: "nat list \<Rightarrow> nat \<Rightarrow> nat \<Rightarrow> (nat \<Rightarrow> bytes option) \<Rightarrow> (nat \<Rightarrow> bytes option) option" where
  "scratch_clear [] off n tab = Some tab"
| "scratch_clear (i # js) off n tab =
     (case tab i of
        None \<Rightarrow> scratch_clear js off n tab
      | Some mem \<Rightarrow>
          (case sbi_memset mem off 0 n of
             None \<Rightarrow> None
           | Some mem \<Rightarrow> scratch_clear js off n (tab(i := Some mem))))"

definition sbi_scratch_alloc_offset :: "ulong \<Rightarrow> scratch_sys \<Rightarrow> (ulong \<times> scratch_sys) option" where
  "sbi_scratch_alloc_offset sz s =
     (if sz = 0 then Some (0, s)
      else let sz = scratch_round sz;
               s = s\<lparr>extra_lock := snd (spin_lock_amoadd (extra_lock s))\<rparr>;
               (ret, s) = (if SBI_SCRATCH_SIZE < extra_offset s + sz then (0, s)
                           else (extra_offset s, s\<lparr>extra_offset := extra_offset s + sz\<rparr>));
               s = s\<lparr>extra_lock := spin_unlock (extra_lock s)\<rparr>
           in if ret \<noteq> 0
              then map_option (\<lambda>tab. (ret, s\<lparr>hartid_to_scratch_table := tab\<rparr>))
                     (scratch_clear [0..<last_hartid_having_scratch s + 1] (unat ret) (unat sz) (hartid_to_scratch_table s))
              else Some (ret, s))"

definition sbi_scratch_free_offset :: "ulong \<Rightarrow> scratch_sys \<Rightarrow> scratch_sys" where
  "sbi_scratch_free_offset offset s = s"

section \<open>Allocations are disjoint and zeroed\<close>

text \<open>Invariant: the next free offset is aligned and inside the scratch space, every scratch space has its size.\<close>

definition scratch_ok :: "scratch_sys \<Rightarrow> bool" where
  "scratch_ok s \<longleftrightarrow> 88 \<le> unat (extra_offset s) \<and> unat (extra_offset s) \<le> 4096 \<and> 8 dvd unat (extra_offset s) \<and>
     spin_lock_unlocked (extra_lock s) \<and> (\<forall>h mem. hartid_to_scratch_table s h = Some mem \<longrightarrow> length mem = 4096)"

lemma scratch_boot_ok: "scratch_ok scratch_boot"
  by (simp add: scratch_ok_def scratch_boot_def spin_lock_unlocked_def SPIN_LOCK_UNLOCKED_def lock_owner_def lock_next_def)

lemma scratch_init_loop_ok:
  assumes "scratch_ok s" and "\<And>h mem. to_scratch h = Some mem \<Longrightarrow> length mem = 4096"
  shows "scratch_ok (scratch_init_loop hart_invalid to_scratch js s)"
  using assms(1)
proof (induction js arbitrary: s)
  case (Cons i js)
  have "scratch_ok (s\<lparr>hartid_to_scratch_table := (hartid_to_scratch_table s)(i := to_scratch i)\<rparr>)"
    using Cons.prems assms(2) by (auto simp: scratch_ok_def)
  moreover from this have "scratch_ok (s\<lparr>hartid_to_scratch_table := (hartid_to_scratch_table s)(i := to_scratch i),
      last_hartid_having_scratch := i\<rparr>)" by (simp add: scratch_ok_def)
  ultimately show ?case using Cons by (cases "to_scratch i") (simp_all add: Let_def)
qed simp

lemma unat_scratch_round:
  assumes "unat sz \<le> 2 ^ 63"
  shows "unat (scratch_round sz) = (unat sz + 7) div 8 * 8"
proof -
  have seven: "(7 :: ulong) = mask 3" by (simp add: mask_eq_exp_minus_1)
  have al: "sz AND 7 = 0 \<longleftrightarrow> 8 dvd unat sz" using aligned_iff [of sz 3] by (simp add: seven)
  have dn: "unat (sz AND NOT 7) = unat sz div 8 * 8" using unat_align_down [of sz 3] by (simp add: seven)
  have up: "(n + 7) div 8 * 8 = (if 8 dvd n then n else n div 8 * 8 + 8)" for n :: nat
  proof -
    define q r where "q = n div 8" and "r = n mod 8"
    have n: "n = r + 8 * q" and r: "r < 8" by (simp_all add: q_def r_def)
    have "(n + 7) div 8 = q + (r + 7) div 8" unfolding n by (simp add: add.commute [of 7] add.assoc)
    moreover have "(r + 7) div 8 = (if r = 0 then 0 else 1)" using r by (auto intro: div_nat_eqI)
    ultimately show ?thesis using n r by (simp add: dvd_eq_mod_eq_0 flip: r_def q_def)
  qed
  have "unat ((sz AND NOT 7) + 8) = unat sz div 8 * 8 + 8"
    using dn assms by (subst unat_add_no_wrap) auto
  with al dn show ?thesis by (simp add: scratch_round_def up)
qed

lemma scratch_clear_ok:
  assumes "\<forall>h mem. tab h = Some mem \<longrightarrow> length mem = 4096" and "off + n \<le> 4096" and "distinct js"
  shows "\<exists>tab'. scratch_clear js off n tab = Some tab' \<and>
    (\<forall>h. tab' h = (if h \<in> set js then map_option (\<lambda>m. splice_at m off (replicate n 0)) (tab h) else tab h))"
  using assms
proof (induction js arbitrary: tab)
  case (Cons i js)
  show ?case
  proof (cases "tab i")
    case None
    from Cons.IH [OF Cons.prems(1,2)] Cons.prems(3) obtain tab' where "scratch_clear js off n tab = Some tab'"
      "\<forall>h. tab' h = (if h \<in> set js then map_option (\<lambda>m. splice_at m off (replicate n 0)) (tab h) else tab h)"
      by auto
    with None show ?thesis by auto
  next
    case (Some mem)
    let ?m = "splice_at mem off (replicate n 0)"
    have set: "sbi_memset mem off 0 n = Some ?m" using Some Cons.prems(1,2) by (simp add: sbi_memset_eq)
    have "\<forall>h m. (tab(i := Some ?m)) h = Some m \<longrightarrow> length m = 4096"
      using Cons.prems(1) [rule_format, OF Some] Cons.prems(1,2) by (auto split: if_splits)
    moreover have "distinct js" using Cons.prems(3) by simp
    ultimately obtain tab' where
      "scratch_clear js off n (tab(i := Some ?m)) = Some tab'"
      "\<forall>h. tab' h = (if h \<in> set js then map_option (\<lambda>m. splice_at m off (replicate n 0)) ((tab(i := Some ?m)) h)
         else (tab(i := Some ?m)) h)" using Cons.IH [OF _ Cons.prems(2)] by blast
    with Some set Cons.prems(3) show ?thesis by auto
  qed
qed simp

text \<open>
  C37. The scratch allocator, for requests of up to \<^verbatim>\<open>2^63\<close> bytes (the sum of the next offset and a size close
  to \<^verbatim>\<open>2^64\<close> wraps around in the code): a request that fits gets the area right behind the previous
  allocations, aligned to a pointer and inside the scratch space, and the area reads as zero in
  the scratch space of every hart up to the last one; a request that does not fit changes
  nothing and yields offset zero.
\<close>

theorem scratch_alloc_sound:
  assumes ok: "scratch_ok s" and sz: "0 < sz" "unat sz \<le> 2 ^ 63"
  defines "n \<equiv> (unat sz + 7) div 8 * 8"
  shows "\<exists>off s'. sbi_scratch_alloc_offset sz s = Some (off, s') \<and> scratch_ok s' \<and>
    (if unat (extra_offset s) + n \<le> 4096
     then off = extra_offset s \<and> unat (extra_offset s') = unat off + n \<and>
       (\<forall>h mem. hartid_to_scratch_table s h = Some mem \<longrightarrow> h \<le> last_hartid_having_scratch s \<longrightarrow>
         hartid_to_scratch_table s' h = Some (splice_at mem (unat off) (replicate n 0)))
     else off = 0 \<and> extra_offset s' = extra_offset s \<and> hartid_to_scratch_table s' = hartid_to_scratch_table s)"
proof -
  let ?l = "spin_unlock (snd (spin_lock_amoadd (extra_lock s)))"
  note okD = ok [unfolded scratch_ok_def]
  have r: "unat (scratch_round sz) = n" using sz(2) by (simp add: unat_scratch_round n_def)
  have nb: "n \<le> 2 ^ 63 + 7" using sz(2) by (simp add: n_def)
  have sum: "unat (extra_offset s + scratch_round sz) = unat (extra_offset s) + n"
    using okD nb by (subst unat_add_no_wrap) (simp_all add: r)
  have free: "spin_lock_unlocked ?l"
    using okD by (simp add: spin_lock_unlocked_def spin_unlock_def spin_lock_amoadd_def)
  show ?thesis
  proof (cases "unat (extra_offset s) + n \<le> 4096")
    case False
    then show ?thesis
      using sz(1) okD free sum
      by (auto simp: sbi_scratch_alloc_offset_def Let_def word_less_nat_alt scratch_ok_def)
  next
    case True
    have "distinct [0..<last_hartid_having_scratch s + 1]" by simp
    from scratch_clear_ok [OF _ _ this, of "hartid_to_scratch_table s" "unat (extra_offset s)" n] okD True
    obtain tab' where tab': "scratch_clear [0..<last_hartid_having_scratch s + 1] (unat (extra_offset s)) n
        (hartid_to_scratch_table s) = Some tab'"
      "\<forall>h. tab' h = (if h \<in> set [0..<last_hartid_having_scratch s + 1]
         then map_option (\<lambda>m. splice_at m (unat (extra_offset s)) (replicate n 0)) (hartid_to_scratch_table s h)
         else hartid_to_scratch_table s h)" by blast
    have ne: "extra_offset s \<noteq> 0" using okD by auto
    have "\<not> 0x1000 < extra_offset s + scratch_round sz" using True sum by (simp add: word_less_nat_alt)
    then have run: "sbi_scratch_alloc_offset sz s = Some (extra_offset s,
        s\<lparr>extra_lock := ?l, extra_offset := extra_offset s + scratch_round sz, hartid_to_scratch_table := tab'\<rparr>)"
      using sz(1) ne tab'(1) r by (auto simp: sbi_scratch_alloc_offset_def Let_def)
    have "8 dvd n" by (simp add: n_def)
    with run okD free True sum tab'(2) show ?thesis
      by (auto simp: scratch_ok_def split: if_splits)
  qed
qed

definition scratch_page :: bytes where
  "scratch_page = replicate 4096 1"

theorem scratch_alloc_sound_witness:
  "\<exists>s'. sbi_scratch_alloc_offset 13 (scratch_boot\<lparr>hartid_to_scratch_table := (\<lambda>h. if h < 2 then Some scratch_page else None)\<rparr>)
      = Some (88, s') \<and> extra_offset s' = 104 \<and>
    hartid_to_scratch_table s' 1 = Some (splice_at scratch_page 88 (replicate 16 0))"
proof -
  let ?s = "scratch_boot\<lparr>hartid_to_scratch_table := (\<lambda>h. if h < 2 then Some scratch_page else None)\<rparr>"
  have "length scratch_page = 4096" unfolding scratch_page_def by (rule length_replicate)
  then have ok: "scratch_ok ?s" using scratch_boot_ok by (auto simp: scratch_ok_def split: if_splits)
  have sz: "(0 :: ulong) < 13" "unat (13 :: ulong) \<le> 2 ^ 63" by (simp_all add: word_less_nat_alt)
  have "extra_offset ?s = 88" "last_hartid_having_scratch ?s = 127" "hartid_to_scratch_table ?s 1 = Some scratch_page"
    by (simp_all add: scratch_boot_def)
  with scratch_alloc_sound [OF ok sz] show ?thesis
    by (auto simp: word_unat_eq_iff)
qed

end
