(* ===== verification/Sbi_Hart.thy ===== *)
theory Sbi_Hart
  imports Riscv_Asm Sbi_Scratch
begin

text \<open>
  Initialisation of a hart, \<^verbatim>\<open>lib/sbi/sbi_hart.c\<close>: feature detection, \<^verbatim>\<open>mstatus\<close> and delegation
  setup, programming the PMP from the domain of the hart, and the switch to the next booting
  stage. The features of a hart, kept in its scratch space by the code, are the record
  \<open>hart_features\<close>; \<open>plat_ext\<close> and \<open>mfaults_delegation\<close> are platform callbacks.
\<close>

section \<open>State\<close>

record hart_features =
  hf_features :: ulong
  pmp_count :: nat
  pmp_addr_bits :: nat
  pmp_gran :: ulong
  mhpm_count :: nat
  mhpm_bits :: nat

text \<open>A function that does not return: the endless \<^verbatim>\<open>wfi\<close> loop, or \<^verbatim>\<open>mret\<close> with \<open>a0\<close> and \<open>a1\<close>.\<close>

datatype leave = Hang | Mret ulong ulong csrs

abbreviation (input) SBI_HART_HAS_SCOUNTEREN :: ulong where "SBI_HART_HAS_SCOUNTEREN \<equiv> 1"
abbreviation (input) SBI_HART_HAS_MCOUNTEREN :: ulong where "SBI_HART_HAS_MCOUNTEREN \<equiv> 2"
abbreviation (input) SBI_HART_HAS_MCOUNTINHIBIT :: ulong where "SBI_HART_HAS_MCOUNTINHIBIT \<equiv> 4"
abbreviation (input) SBI_HART_HAS_TIME :: ulong where "SBI_HART_HAS_TIME \<equiv> 8"

abbreviation (input) CSR_FCSR :: nat where "CSR_FCSR \<equiv> 0x003"
abbreviation (input) CSR_UIE :: nat where "CSR_UIE \<equiv> 0x004"
abbreviation (input) CSR_UTVEC :: nat where "CSR_UTVEC \<equiv> 0x005"
abbreviation (input) CSR_USCRATCH :: nat where "CSR_USCRATCH \<equiv> 0x040"
abbreviation (input) CSR_SIE :: nat where "CSR_SIE \<equiv> 0x104"
abbreviation (input) CSR_STVEC :: nat where "CSR_STVEC \<equiv> 0x105"
abbreviation (input) CSR_SCOUNTEREN :: nat where "CSR_SCOUNTEREN \<equiv> 0x106"
abbreviation (input) CSR_SSCRATCH :: nat where "CSR_SSCRATCH \<equiv> 0x140"
abbreviation (input) CSR_SATP :: nat where "CSR_SATP \<equiv> 0x180"
abbreviation (input) CSR_MSTATUS :: nat where "CSR_MSTATUS \<equiv> 0x300"
abbreviation (input) CSR_MEDELEG :: nat where "CSR_MEDELEG \<equiv> 0x302"
abbreviation (input) CSR_MIDELEG :: nat where "CSR_MIDELEG \<equiv> 0x303"
abbreviation (input) CSR_MIE :: nat where "CSR_MIE \<equiv> 0x304"
abbreviation (input) CSR_MCOUNTEREN :: nat where "CSR_MCOUNTEREN \<equiv> 0x306"
abbreviation (input) CSR_MEPC :: nat where "CSR_MEPC \<equiv> 0x341"
abbreviation (input) CSR_TIME :: nat where "CSR_TIME \<equiv> 0xc01"

abbreviation (input) MSTATUS_MPIE :: ulong where "MSTATUS_MPIE \<equiv> 0x80"
abbreviation (input) MSTATUS_MPP :: ulong where "MSTATUS_MPP \<equiv> 0x1800"
abbreviation (input) MSTATUS_FS :: ulong where "MSTATUS_FS \<equiv> 0x6000"
abbreviation (input) MSTATUS_VS :: ulong where "MSTATUS_VS \<equiv> 0x01800000"
abbreviation (input) MSTATUS_MPV :: ulong where "MSTATUS_MPV \<equiv> 0x8000000000"

definition INSERT_FIELD :: "ulong \<Rightarrow> ulong \<Rightarrow> ulong \<Rightarrow> ulong" where
  "INSERT_FIELD v which fieldval = (v AND NOT which) OR (fieldval * (which AND NOT (which - 1)))"

definition EXTRACT_FIELD :: "ulong \<Rightarrow> ulong \<Rightarrow> ulong" where
  "EXTRACT_FIELD v which = (v AND which) div (which AND NOT (which - 1))"

definition misa_extension :: "(char \<Rightarrow> int) \<Rightarrow> char \<Rightarrow> csrs \<Rightarrow> bool" where
  "misa_extension plat_ext ext c \<longleftrightarrow> misa_extension_imp plat_ext ext c \<noteq> 0"

definition sbi_hart_has_feature :: "hart_features \<Rightarrow> ulong \<Rightarrow> bool" where
  "sbi_hart_has_feature hf feature \<longleftrightarrow> hf_features hf AND feature \<noteq> 0"

section \<open>Setup\<close>

definition mstatus_init :: "riscv_hw \<Rightarrow> (char \<Rightarrow> int) \<Rightarrow> hart_features \<Rightarrow> csrs \<Rightarrow> csrs" where
  "mstatus_init hw plat_ext hf c =
     (let v = 0;
          v = (if misa_extension plat_ext CHR ''D'' c \<or> misa_extension plat_ext CHR ''F'' c then v OR MSTATUS_FS else v);
          v = (if misa_extension plat_ext CHR ''V'' c then v OR MSTATUS_VS else v);
          c = csr_write hw CSR_MSTATUS v c;
          c = (if misa_extension plat_ext CHR ''S'' c \<and> sbi_hart_has_feature hf SBI_HART_HAS_SCOUNTEREN
               then csr_write hw CSR_SCOUNTEREN 7 c else c);
          c = (if sbi_hart_has_feature hf SBI_HART_HAS_MCOUNTEREN
               then if sbi_hart_has_feature hf SBI_HART_HAS_MCOUNTINHIBIT
                    then csr_write hw CSR_MCOUNTEREN 7 c else csr_write hw CSR_MCOUNTEREN (- 1) c
               else c);
          c = (if sbi_hart_has_feature hf SBI_HART_HAS_MCOUNTINHIBIT
               then csr_write hw CSR_MCOUNTINHIBIT 0xFFFFFFF8 c else c);
          c = csr_write hw CSR_MIE 0 c
      in if misa_extension plat_ext CHR ''S'' c then csr_write hw CSR_SATP 0 c else c)"

definition fp_init :: "riscv_hw \<Rightarrow> (char \<Rightarrow> int) \<Rightarrow> csrs \<Rightarrow> int \<times> csrs" where
  "fp_init hw plat_ext c =
     (if \<not> misa_extension plat_ext CHR ''D'' c \<and> \<not> misa_extension plat_ext CHR ''F'' c then (0, c)
      else if c CSR_MSTATUS AND MSTATUS_FS = 0 then (SBI_EINVAL, c)
      else (0, csr_write hw CSR_FCSR 0 c))"

text \<open>Interrupt and exception numbers of the delegation masks.\<close>

definition s_interrupts :: ulong where
  "s_interrupts = push_bit 1 1 OR push_bit 5 1 OR push_bit 9 1"

definition delegate_traps :: "riscv_hw \<Rightarrow> (char \<Rightarrow> int) \<Rightarrow> bool \<Rightarrow> csrs \<Rightarrow> int \<times> csrs" where
  "delegate_traps hw plat_ext mfaults_delegation c =
     (if \<not> misa_extension plat_ext CHR ''S'' c then (0, c)
      else let exceptions = push_bit 0x0 1 OR push_bit 0x3 1 OR push_bit 0x8 1;
               exceptions = (if mfaults_delegation
                  then exceptions OR push_bit 0xc 1 OR push_bit 0xd 1 OR push_bit 0xf 1 else exceptions);
               exceptions = (if misa_extension plat_ext CHR ''H'' c
                  then exceptions OR push_bit 0xa 1 OR push_bit 0x14 1 OR push_bit 0x15 1 OR push_bit 0x16 1 OR
                       push_bit 0x17 1 else exceptions);
               c = csr_write hw CSR_MIDELEG s_interrupts c
           in (0, csr_write hw CSR_MEDELEG exceptions c))"

definition sbi_hart_reinit :: "riscv_hw \<Rightarrow> (char \<Rightarrow> int) \<Rightarrow> bool \<Rightarrow> hart_features \<Rightarrow> csrs \<Rightarrow> int \<times> csrs" where
  "sbi_hart_reinit hw plat_ext mfaults_delegation hf c =
     (case fp_init hw plat_ext (mstatus_init hw plat_ext hf c) of
        (rc, c) \<Rightarrow> if rc \<noteq> 0 then (rc, c) else delegate_traps hw plat_ext mfaults_delegation c)"

section \<open>Programming the PMP\<close>

definition region_pmp_flags :: "sbi_domain_memregion \<Rightarrow> ulong" where
  "region_pmp_flags reg =
     (let f = 0;
          f = (if mr_flags reg AND SBI_DOMAIN_MEMREGION_READABLE \<noteq> 0 then f OR PMP_R else f);
          f = (if mr_flags reg AND SBI_DOMAIN_MEMREGION_WRITEABLE \<noteq> 0 then f OR PMP_W else f);
          f = (if mr_flags reg AND SBI_DOMAIN_MEMREGION_EXECUTABLE \<noteq> 0 then f OR PMP_X else f)
      in if mr_flags reg AND SBI_DOMAIN_MEMREGION_MMODE \<noteq> 0 then f OR PMP_L else f)"

fun pmp_configure_loop ::
  "riscv_hw \<Rightarrow> nat \<Rightarrow> nat \<Rightarrow> ulong \<Rightarrow> sbi_domain_memregion list \<Rightarrow> nat \<Rightarrow> csrs \<Rightarrow> csrs option" where
  "pmp_configure_loop hw cnt gran_log2 addr_max [] pmp_idx c = Some c"
| "pmp_configure_loop hw cnt gran_log2 addr_max (reg # regs) pmp_idx c =
     (if cnt \<le> pmp_idx then Some c
      else if gran_log2 \<le> mr_order reg \<and> drop_bit PMP_SHIFT (mr_base reg) < addr_max
      then case pmp_set hw pmp_idx (region_pmp_flags reg) (mr_base reg) (mr_order reg) c of
             None \<Rightarrow> None
           | Some (_, c) \<Rightarrow> pmp_configure_loop hw cnt gran_log2 addr_max regs (pmp_idx + 1) c
      else pmp_configure_loop hw cnt gran_log2 addr_max regs pmp_idx c)"

definition sbi_hart_pmp_configure :: "riscv_hw \<Rightarrow> sbi_domain \<Rightarrow> hart_features \<Rightarrow> csrs \<Rightarrow> (int \<times> csrs) option" where
  "sbi_hart_pmp_configure hw dm hf c =
     (if pmp_count hf = 0 then Some (0, c)
      else let pmp_gran_log2 = log2roundup (pmp_gran hf);
               pmp_bits = pmp_addr_bits hf - 1;
               pmp_addr_max = BIT pmp_bits OR (BIT pmp_bits - 1)
           in map_option (\<lambda>c. (0, c))
                (pmp_configure_loop hw (pmp_count hf) pmp_gran_log2 pmp_addr_max
                   (memregions (case regions dm of None \<Rightarrow> [] | Some arr \<Rightarrow> arr)) 0 c))"

section \<open>Feature detection\<close>

definition hart_pmp_get_allowed_addr :: "riscv_hw \<Rightarrow> csrs \<Rightarrow> ulong \<times> csrs" where
  "hart_pmp_get_allowed_addr hw c =
     (case csr_write_allowed hw CSR_PMPADDR0 (push_bit 54 1 - 1) c of
        None \<Rightarrow> (0, c)
      | Some c \<Rightarrow> (case csr_read_allowed hw CSR_PMPADDR0 c of None \<Rightarrow> (0, c) | Some v \<Rightarrow> (v, c)))"

definition hart_pmu_get_allowed_bits :: "riscv_hw \<Rightarrow> csrs \<Rightarrow> nat \<times> csrs" where
  "hart_pmu_get_allowed_bits hw c =
     (case csr_write_allowed hw CSR_MHPMCOUNTER3 (NOT 0) c of
        None \<Rightarrow> (fls_word (NOT 0) + 1, c)
      | Some c \<Rightarrow> (case csr_read_allowed hw CSR_MHPMCOUNTER3 c of None \<Rightarrow> (0, c) | Some v \<Rightarrow> (fls_word v + 1, c)))"

text \<open>
  The macro \<^verbatim>\<open>__check_csr\<close> for a list of CSRs that must keep the value \<open>wrval\<close>: how many are counted before
  the first jump to the label, the CSRs after it, and whether no jump happened.
\<close>

fun check_csrs :: "riscv_hw \<Rightarrow> ulong \<Rightarrow> nat list \<Rightarrow> nat \<Rightarrow> csrs \<Rightarrow> bool \<times> nat \<times> csrs" where
  "check_csrs hw wrval [] cnt c = (True, cnt, c)"
| "check_csrs hw wrval (n # ns) cnt c =
     (case csr_read_allowed hw n c of
        None \<Rightarrow> (False, cnt, c)
      | Some v \<Rightarrow>
          (case csr_write_allowed hw n wrval c of
             None \<Rightarrow> (False, cnt, c)
           | Some c \<Rightarrow>
               (let old = c n; c = csr_write hw n v c
                in if old = wrval then check_csrs hw wrval ns (cnt + 1) c else (False, cnt, c))))"

definition detect_pmp :: "riscv_hw \<Rightarrow> hart_features \<Rightarrow> csrs \<Rightarrow> hart_features \<times> csrs" where
  "detect_pmp hw hf c =
     (case hart_pmp_get_allowed_addr hw c of
        (v, c) \<Rightarrow>
          if v \<noteq> 0
          then case check_csrs hw v (map (\<lambda>i. CSR_PMPADDR0 + i) [0..<64]) 0 c of
                 (_, n, c) \<Rightarrow> (hf\<lparr>pmp_gran := push_bit (ffs_word v + 2) 1, pmp_addr_bits := fls_word v + 1, pmp_count := n\<rparr>, c)
          else (hf, c))"

definition detect_mhpm :: "riscv_hw \<Rightarrow> hart_features \<Rightarrow> csrs \<Rightarrow> hart_features \<times> csrs" where
  "detect_mhpm hw hf c =
     (case check_csrs hw 1 [CSR_MHPMCOUNTER3] 0 c of
        (False, n, c) \<Rightarrow> (hf\<lparr>mhpm_count := n\<rparr>, c)
      | (True, n, c) \<Rightarrow>
          (case hart_pmu_get_allowed_bits hw c of
             (bits, c) \<Rightarrow>
               (case check_csrs hw 1 (map (\<lambda>i. CSR_MHPMCOUNTER3 + i) [1..<29]) n c of
                  (_, n, c) \<Rightarrow> (hf\<lparr>mhpm_bits := bits, mhpm_count := n\<rparr>, c))))"

definition detect_rw :: "riscv_hw \<Rightarrow> nat \<Rightarrow> ulong \<Rightarrow> hart_features \<times> csrs \<Rightarrow> hart_features \<times> csrs" where
  "detect_rw hw n feature st =
     (case st of (hf, c) \<Rightarrow>
        (case csr_read_allowed hw n c of
           None \<Rightarrow> (hf, c)
         | Some v \<Rightarrow>
             (case csr_write_allowed hw n v c of
                None \<Rightarrow> (hf, c)
              | Some c \<Rightarrow> (hf\<lparr>hf_features := hf_features hf OR feature\<rparr>, c))))"

definition hart_detect_features :: "riscv_hw \<Rightarrow> hart_features \<Rightarrow> csrs \<Rightarrow> hart_features \<times> csrs" where
  "hart_detect_features hw hf c =
     (let hf = hf\<lparr>hf_features := 0, pmp_count := 0, mhpm_count := 0\<rparr>;
          (hf, c) = detect_pmp hw hf c;
          (hf, c) = detect_mhpm hw hf c;
          st = detect_rw hw CSR_SCOUNTEREN SBI_HART_HAS_SCOUNTEREN (hf, c);
          st = detect_rw hw CSR_MCOUNTEREN SBI_HART_HAS_MCOUNTEREN st;
          (hf, c) = detect_rw hw CSR_MCOUNTINHIBIT SBI_HART_HAS_MCOUNTINHIBIT st
      in if csr_read_allowed hw CSR_TIME c \<noteq> None
         then (hf\<lparr>hf_features := hf_features hf OR SBI_HART_HAS_TIME\<rparr>, c) else (hf, c))"

text \<open>
  \<^verbatim>\<open>sbi_hart_init\<close>: \<open>alloc\<close> is the offset that \<^verbatim>\<open>sbi_scratch_alloc_offset\<close> returned for the features, zero
  if there was no room. Installing the hypervisor variant of the expected-trap handler is left out.
\<close>

definition sbi_hart_init ::
  "riscv_hw \<Rightarrow> (char \<Rightarrow> int) \<Rightarrow> bool \<Rightarrow> ulong \<Rightarrow> bool \<Rightarrow> hart_features \<Rightarrow> csrs \<Rightarrow> int \<times> hart_features \<times> csrs" where
  "sbi_hart_init hw plat_ext mfaults_delegation alloc cold_boot hf c =
     (if cold_boot \<and> alloc = 0 then (SBI_ENOMEM, hf, c)
      else case hart_detect_features hw hf c of
          (hf, c) \<Rightarrow> (case sbi_hart_reinit hw plat_ext mfaults_delegation hf c of (rc, c) \<Rightarrow> (rc, hf, c)))"

section \<open>Leaving machine mode\<close>

definition sbi_hart_switch_mode ::
  "riscv_hw \<Rightarrow> (char \<Rightarrow> int) \<Rightarrow> ulong \<Rightarrow> ulong \<Rightarrow> ulong \<Rightarrow> ulong \<Rightarrow> bool \<Rightarrow> csrs \<Rightarrow> leave" where
  "sbi_hart_switch_mode hw plat_ext arg0 arg1 next_addr next_mode next_virt c =
     (if next_mode = PRV_S \<and> \<not> misa_extension plat_ext CHR ''S'' c then Hang
      else if next_mode = PRV_U \<and> \<not> misa_extension plat_ext CHR ''U'' c then Hang
      else if next_mode \<noteq> PRV_M \<and> next_mode \<noteq> PRV_S \<and> next_mode \<noteq> PRV_U then Hang
      else let v = c CSR_MSTATUS;
               v = INSERT_FIELD v MSTATUS_MPP next_mode;
               v = INSERT_FIELD v MSTATUS_MPIE 0;
               v = (if misa_extension plat_ext CHR ''H'' c
                    then INSERT_FIELD v MSTATUS_MPV (if next_virt then 1 else 0) else v);
               c = csr_write hw CSR_MSTATUS v c;
               c = csr_write hw CSR_MEPC next_addr c;
               c = (if next_mode = PRV_S
                    then let c = csr_write hw CSR_STVEC next_addr c;
                             c = csr_write hw CSR_SSCRATCH 0 c;
                             c = csr_write hw CSR_SIE 0 c
                         in csr_write hw CSR_SATP 0 c
                    else if next_mode = PRV_U \<and> misa_extension plat_ext CHR ''N'' c
                    then let c = csr_write hw CSR_UTVEC next_addr c;
                             c = csr_write hw CSR_USCRATCH 0 c
                         in csr_write hw CSR_UIE 0 c
                    else c)
           in Mret arg0 arg1 c)"

section \<open>The PMP enforces the domain\<close>

lemma and_single_bit: "(w :: ulong) AND 2 ^ k \<noteq> 0 \<Longrightarrow> w AND 2 ^ k = 2 ^ k"
  by (cases "bit w k") (auto simp: and_exp_eq_0_iff_not_bit intro!: bit_word_eqI simp: bit_simps)

lemma and_flag:
  "(w :: ulong) AND 1 \<noteq> 0 \<Longrightarrow> w AND 1 = 1" "w AND 2 \<noteq> 0 \<Longrightarrow> w AND 2 = 2" "w AND 4 \<noteq> 0 \<Longrightarrow> w AND 4 = 4"
  using and_single_bit [of w 0] and_single_bit [of w 1] and_single_bit [of w 2] by simp_all

lemma region_pmp_flags_eq:
  "region_pmp_flags r = ((mr_flags r AND 7) OR (if mr_flags r AND 8 = 0 then 0 else 0x80))"
proof -
  let ?f = "mr_flags r"
  have "?f AND 7 = (?f AND 1) OR (?f AND 2) OR (?f AND 4)"
    by (simp flip: bit.conj_disj_distrib)
  moreover have "?f AND 1 = 0 \<or> ?f AND 1 = 1" "?f AND 2 = 0 \<or> ?f AND 2 = 2" "?f AND 4 = 0 \<or> ?f AND 4 = 4"
    using and_flag by blast+
  ultimately show ?thesis by (elim disjE) (simp_all add: region_pmp_flags_def)
qed

lemma region_pmp_flags_ok: "pmp_prot_ok (region_pmp_flags r)"
proof -
  have "(mr_flags r AND 7) AND 0x87 = mr_flags r AND 7" by (simp add: and.assoc)
  then show ?thesis by (simp add: pmp_prot_ok_def region_pmp_flags_eq bit.conj_disj_distrib2)
qed

lemma region_pmp_flags_rwx: "rwx AND 7 = rwx \<Longrightarrow> region_pmp_flags r AND rwx = mr_flags r AND rwx"
proof -
  assume rwx: "rwx AND 7 = rwx"
  have "(0x80 :: ulong) AND rwx = 0" by (subst rwx [symmetric]) (simp add: and.left_commute)
  moreover have "(mr_flags r AND 7) AND rwx = mr_flags r AND rwx" by (simp add: rwx and.assoc and.commute [of 7])
  ultimately show ?thesis by (simp add: region_pmp_flags_eq bit.conj_disj_distrib2)
qed

text \<open>Entry \<open>n\<close> of the PMP stands for a region, as seen by accesses to 56-bit addresses.\<close>

definition entry_for :: "csrs \<Rightarrow> nat \<Rightarrow> sbi_domain_memregion \<Rightarrow> bool" where
  "entry_for c n r \<longleftrightarrow> pmp_cfg c n AND PMP_A = PMP_A_NAPOT \<and>
     (\<forall>addr. unat addr < 2 ^ 56 \<longrightarrow> pmp_match c n addr = region_contains r addr) \<and>
     (\<forall>rwx. rwx AND 7 = rwx \<longrightarrow> pmp_cfg c n AND rwx = mr_flags r AND rwx)"

definition same_entry :: "csrs \<Rightarrow> csrs \<Rightarrow> nat \<Rightarrow> bool" where
  "same_entry c c' n \<longleftrightarrow> c' (pmpaddr_csr n) = c (pmpaddr_csr n) \<and> pmp_cfg c' n = pmp_cfg c n"

lemma same_entry_trans: "same_entry a b n \<Longrightarrow> same_entry b c n \<Longrightarrow> same_entry a c n"
  by (simp add: same_entry_def)

lemma entry_for_same:
  assumes "same_entry c c' n" and "entry_for c n r"
  shows "entry_for c' n r"
  using assms pmp_match_other [of c' n c] by (simp add: entry_for_def same_entry_def)

text \<open>
  A region the PMP can express: valid, at least the granularity, inside the 56-bit address space, and not writable without being
  readable.
\<close>

definition region_fits :: "nat \<Rightarrow> ulong \<Rightarrow> sbi_domain_memregion \<Rightarrow> bool" where
  "region_fits gran_log2 addr_max r \<longleftrightarrow> is_region_valid r \<and> gran_log2 \<le> mr_order r \<and>
     (mr_order r = 64 \<longrightarrow> mr_base r = 0) \<and>
     drop_bit 2 (mr_base r) < addr_max \<and> unat (mr_base r) < 2 ^ 56 \<and>
     (mr_flags r AND SBI_DOMAIN_MEMREGION_WRITEABLE \<noteq> 0 \<longrightarrow> mr_flags r AND SBI_DOMAIN_MEMREGION_READABLE \<noteq> 0)"

lemma region_contains_block:
  assumes "is_region_valid r" and "mr_order r = 64 \<longrightarrow> mr_base r = 0"
  shows "region_contains r addr \<longleftrightarrow> unat (mr_base r) \<le> unat addr \<and> unat addr < unat (mr_base r) + 2 ^ mr_order r"
proof (cases "mr_order r < 64")
  case True
  then show ?thesis using region_contains_iff [OF assms(1)] by simp
next
  case False
  with assms have "mr_order r = 64" "mr_base r = 0" by (auto simp: is_region_valid_def)
  then show ?thesis using unat_less_width [of addr] by (simp add: region_contains_def region_end_def)
qed

lemma region_pmp_flags_legal: "region_fits g mx r \<Longrightarrow> pmp_legal (region_pmp_flags r)"
proof -
  have "(mr_flags r AND 7) AND 0x18 = 0" by (simp add: and.assoc)
  then have "region_pmp_flags r AND 0x18 = 0" by (simp add: region_pmp_flags_eq bit.conj_disj_distrib2)
  then show "region_fits g mx r \<Longrightarrow> pmp_legal (region_pmp_flags r)"
    using region_pmp_flags_rwx [of 1 r] region_pmp_flags_rwx [of 2 r] by (simp add: pmp_legal_def region_fits_def)
qed

lemma pmp_set_region:
  assumes hw: "pmp_hw hw cnt" "cnt \<le> 64" and "n < cnt" and "region_fits g mx r" and st: "pmp_addr_free cnt c n" "pmp_wf cnt c"
  shows "\<exists>c'. pmp_set hw n (region_pmp_flags r) (mr_base r) (mr_order r) c = Some (0, c') \<and> entry_for c' n r \<and> pmp_wf cnt c' \<and>
    (\<forall>m < 64. m \<noteq> n \<longrightarrow> same_entry c c' m)"
proof -
  from assms(4) have v: "is_region_valid r" "mr_order r = 64 \<longrightarrow> mr_base r = 0" "unat (mr_base r) < 2 ^ 56"
    by (auto simp: region_fits_def)
  have o: "3 \<le> mr_order r" "mr_order r \<le> 64" using v(1) by (auto simp: is_region_valid_def)
  have al: "2 ^ mr_order r dvd unat (mr_base r)"
    using v o by (cases "mr_order r = 64") (auto simp: is_region_valid_def BIT_mask aligned_iff)
  from pmp_set_ok [OF hw assms(3) o region_pmp_flags_ok [of r] region_pmp_flags_legal [OF assms(4)] al v(3) st] show ?thesis
    by (auto simp: entry_for_def same_entry_def region_contains_block [OF v(1,2)] region_pmp_flags_rwx)
qed

text \<open>The entries from \<open>idx\<close> on are not locked.\<close>

definition pmp_open :: "nat \<Rightarrow> nat \<Rightarrow> csrs \<Rightarrow> bool" where
  "pmp_open cnt idx c \<longleftrightarrow> (\<forall>n. idx \<le> n \<and> n < cnt \<longrightarrow> \<not> pmp_locked c n)"

lemma pmp_configure_loop_ok:
  assumes hw: "pmp_hw hw cnt" "cnt \<le> 64"
  shows "idx + length regs \<le> cnt \<Longrightarrow> \<forall>r \<in> set regs. region_fits g mx r \<Longrightarrow> pmp_wf cnt c \<Longrightarrow> pmp_open cnt idx c \<Longrightarrow>
    \<exists>c'. pmp_configure_loop hw cnt g mx regs idx c = Some c' \<and>
      (\<forall>j < length regs. entry_for c' (idx + j) (regs ! j)) \<and>
      (\<forall>m < 64. m < idx \<or> idx + length regs \<le> m \<longrightarrow> same_entry c c' m)"
proof (induction regs arbitrary: idx c)
  case Nil
  then show ?case by (simp add: same_entry_def)
next
  case (Cons r regs)
  have idx: "idx < 64" "idx < cnt" using Cons.prems(1) hw(2) by auto
  have fits: "region_fits g mx r" using Cons.prems(2) by simp
  have free: "pmp_addr_free cnt c idx" using Cons.prems(4) idx by (simp add: pmp_addr_free_def pmp_open_def)
  obtain c1 where c1: "pmp_set hw idx (region_pmp_flags r) (mr_base r) (mr_order r) c = Some (0, c1)"
    "entry_for c1 idx r" "pmp_wf cnt c1" "\<forall>m < 64. m \<noteq> idx \<longrightarrow> same_entry c c1 m"
    using pmp_set_region [OF hw idx(2) fits free Cons.prems(3)] by blast
  have opn: "pmp_open cnt (idx + 1) c1" using Cons.prems(4) c1(4) hw(2) by (simp add: pmp_open_def pmp_locked_def same_entry_def)
  have "idx + 1 + length regs \<le> cnt" "\<forall>r \<in> set regs. region_fits g mx r" using Cons.prems by auto
  from Cons.IH [OF this c1(3) opn] obtain c' where c': "pmp_configure_loop hw cnt g mx regs (idx + 1) c1 = Some c'"
    "\<forall>j < length regs. entry_for c' (idx + 1 + j) (regs ! j)"
    "\<forall>m < 64. m < idx + 1 \<or> idx + 1 + length regs \<le> m \<longrightarrow> same_entry c1 c' m" by blast
  have run: "pmp_configure_loop hw cnt g mx (r # regs) idx c = Some c'"
    using fits idx c1(1) c'(1) by (simp add: region_fits_def)
  have "entry_for c' idx r" using entry_for_same [OF _ c1(2)] c'(3) idx by simp
  then have "entry_for c' (idx + j) ((r # regs) ! j)" if "j < length (r # regs)" for j
    using that c'(2) by (cases j) auto
  moreover have "same_entry c c' m" if "m < 64" "m < idx \<or> idx + length (r # regs) \<le> m" for m
  proof (rule same_entry_trans)
    show "same_entry c c1 m" using that c1(4) by auto
    show "same_entry c1 c' m" using that c'(3) by auto
  qed
  ultimately show ?case using run by blast
qed

lemma find_upt_nth:
  assumes "\<And>j. j < length xs \<Longrightarrow> P j = Q (xs ! j)" and "\<And>j. length xs \<le> j \<Longrightarrow> j < n \<Longrightarrow> \<not> P j"
    and "length xs \<le> n"
  shows "find P [0..<n] = None \<and> find Q xs = None \<or>
    (\<exists>j < length xs. find P [0..<n] = Some j \<and> find Q xs = Some (xs ! j))"
proof (cases "\<exists>j < length xs. Q (xs ! j)")
  case False
  then have "\<not> P j" if "j < n" for j using that assms(1,2) [of j] by (cases "j < length xs") auto
  moreover from False have "find Q xs = None" by (auto simp: find_None_iff in_set_conv_nth)
  ultimately show ?thesis by (auto simp: find_None_iff)
next
  case True
  define j where "j = (LEAST j. j < length xs \<and> Q (xs ! j))"
  have j: "j < length xs" "Q (xs ! j)" using LeastI_ex [OF True] by (auto simp: j_def)
  have least: "\<not> Q (xs ! i)" if "i < j" for i
    using not_less_Least [of i "\<lambda>j. j < length xs \<and> Q (xs ! j)"] that j(1) by (auto simp: j_def)
  have "find Q xs = Some (xs ! j)" using j least by (auto simp: find_Some_iff)
  moreover have "find P [0..<n] = Some j"
    using j least assms by (auto simp: find_Some_iff intro!: exI [of _ j])
  ultimately show ?thesis using j(1) by blast
qed

text \<open>
  C7. After \<^verbatim>\<open>sbi_hart_pmp_configure\<close> the hardware check of an S- or U-mode access to a 56-bit address decides
  exactly as \<^verbatim>\<open>sbi_domain_check_addr\<close> does for the domain of the hart, whether the access is declared
  as memory or as device access: there is an entry for every region, in the order of the domain. This needs a domain that the PMP can
  express: the regions are not more than the entries of the hart, each is at least as big as the granularity, starts below the
  largest address the PMP can hold and is not writable without being readable; the code skips a region that is too small or too high, and the regions
  beyond the last entry, without an error. Before the call no entry is locked and the entries beyond the regions are off, as after reset or
  after an earlier call for the same domain.
\<close>

theorem pmp_configure_enforces_domain:
  assumes hw: "pmp_hw hw (pmp_count hf)" and cnt: "0 < pmp_count hf" "pmp_count hf \<le> 64"
    and arr: "regions d = Some arr" "length (memregions arr) \<le> pmp_count hf"
    and fits: "\<forall>r \<in> set (memregions arr). region_fits (log2roundup (pmp_gran hf))
      (BIT (pmp_addr_bits hf - 1) OR (BIT (pmp_addr_bits hf - 1) - 1)) r"
    and wf: "pmp_wf (pmp_count hf) c" "pmp_open (pmp_count hf) 0 c"
    and off: "\<forall>n. length (memregions arr) \<le> n \<and> n < pmp_count hf \<longrightarrow> pmp_cfg c n AND PMP_A = 0"
    and mode: "mode = PRV_S \<or> mode = PRV_U" and addr: "unat addr < 2 ^ 56"
  shows "\<exists>c'. sbi_hart_pmp_configure hw d hf c = Some (0, c') \<and>
    pmp_allows c' (pmp_count hf) addr (access_rwx fl) =
      (sbi_domain_check_addr (Some d) addr mode (fl AND NOT SBI_DOMAIN_MMIO) \<or>
       sbi_domain_check_addr (Some d) addr mode (fl OR SBI_DOMAIN_MMIO))"
proof -
  let ?regs = "memregions arr" and ?n = "pmp_count hf"
  have "0 + length ?regs \<le> ?n" using arr(2) by simp
  from pmp_configure_loop_ok [OF hw cnt(2) this fits wf] obtain c' where
    run: "sbi_hart_pmp_configure hw d hf c = Some (0, c')"
    and ent: "\<forall>j < length ?regs. entry_for c' j (?regs ! j)"
    and rest: "\<forall>m < 64. length ?regs \<le> m \<longrightarrow> same_entry c c' m"
    using cnt(1) arr(1) by (auto simp: sbi_hart_pmp_configure_def Let_def)
  have nomatch: "\<not> pmp_match c' m addr" if "length ?regs \<le> m" "m < ?n" for m
    using that rest off cnt(2) by (simp add: same_entry_def pmp_match_def Let_def)
  have match: "pmp_match c' j addr = region_contains (?regs ! j) addr" if "j < length ?regs" for j
    using that ent addr by (simp add: entry_for_def)
  have m: "mode \<noteq> PRV_M" using mode by auto
  have rwx: "access_rwx (fl AND NOT 8) = access_rwx fl" "access_rwx (fl OR 8) = access_rwx fl"
    by (simp_all add: access_rwx_def Let_def and.assoc bit.conj_disj_distrib2)
  have mmio: "(fl AND NOT 8) AND 8 = 0" "(fl OR 8) AND 8 \<noteq> 0"
    by (simp_all add: and.assoc bit.conj_disj_distrib2)
  have seven: "access_rwx fl AND 7 = access_rwx fl" using access_rwx_seven [of fl] by (simp add: and.commute)
  from find_upt_nth [where xs = ?regs and P = "\<lambda>n. pmp_match c' n addr" and Q = "\<lambda>r. region_contains r addr",
      OF match nomatch arr(2)]
  have "pmp_allows c' ?n addr (access_rwx fl) =
      (case find (\<lambda>r. region_contains r addr) ?regs of None \<Rightarrow> False | Some r \<Rightarrow> mr_flags r AND access_rwx fl = access_rwx fl)"
    using ent seven by (auto simp: pmp_allows_def entry_for_def)
  moreover have "(sbi_domain_check_addr (Some d) addr mode (fl AND NOT 8) \<or> sbi_domain_check_addr (Some d) addr mode (fl OR 8)) =
      (case find (\<lambda>r. region_contains r addr) ?regs of None \<Rightarrow> False | Some r \<Rightarrow> mr_flags r AND access_rwx fl = access_rwx fl)"
    using arr(1) m rwx mmio
    by (auto simp: sbi_domain_check_addr_def check_addr_loop_find region_allows_def split: option.split)
  ultimately show ?thesis using run by blast
qed

definition features_example :: hart_features where
  "features_example = \<lparr>hf_features = 0, pmp_count = 8, pmp_addr_bits = 54, pmp_gran = 8, mhpm_count = 0, mhpm_bits = 0\<rparr>"

theorem pmp_configure_enforces_domain_witness:
  "\<exists>c'. sbi_hart_pmp_configure cva6_hw domain_sorted_example features_example (\<lambda>_. 0) = Some (0, c') \<and>
    \<not> pmp_allows c' 8 0x80001000 (access_rwx SBI_DOMAIN_READ) \<and> pmp_allows c' 8 0x90000000 (access_rwx SBI_DOMAIN_READ)"
proof -
  let ?arr = "[\<lparr>mr_order = 17, mr_base = 0x80000000, mr_flags = 0\<rparr>,
       \<lparr>mr_order = 64, mr_base = 0, mr_flags = 7\<rparr>, \<lparr>mr_order = 0, mr_base = 0, mr_flags = 0\<rparr>] :: sbi_domain_memregion list"
  have cnt: "0 < pmp_count features_example" "pmp_count features_example \<le> 64" "pmp_count features_example = 8"
    by (simp_all add: features_example_def)
  have arr: "regions domain_sorted_example = Some ?arr" by (simp add: domain_sorted_example_def)
  have len: "length (memregions ?arr) \<le> pmp_count features_example" by (simp add: memregions_def features_example_def)
  have fits: "\<forall>r \<in> set (memregions ?arr). region_fits (log2roundup (pmp_gran features_example))
      (BIT (pmp_addr_bits features_example - 1) OR (BIT (pmp_addr_bits features_example - 1) - 1)) r"
  proof -
    have "log2roundup 8 = 3" by code_simp
    then show ?thesis
      by (simp add: memregions_def region_fits_def is_region_valid_def features_example_def BIT_def word_less_nat_alt)
  qed
  have hw: "pmp_hw cva6_hw (pmp_count features_example)" by (simp add: cnt(3) cva6_pmp_hw)
  have st: "pmp_wf (pmp_count features_example) (\<lambda>_. 0)" "pmp_open (pmp_count features_example) 0 (\<lambda>_. 0)"
    "\<forall>n. length (memregions ?arr) \<le> n \<and> n < pmp_count features_example \<longrightarrow> pmp_cfg (\<lambda>_. 0) n AND PMP_A = 0"
    by (simp_all add: pmp_wf_def pmp_open_def pmp_locked_def pmp_legal_def pmp_cfg_def pmp_byte_def)
  note t = pmp_configure_enforces_domain [OF hw cnt(1,2) arr len fits st, of PRV_S _ SBI_DOMAIN_READ]
  have "\<not> sbi_domain_check_addr (Some domain_sorted_example) 0x80001000 PRV_S (SBI_DOMAIN_READ AND NOT SBI_DOMAIN_MMIO)"
    "\<not> sbi_domain_check_addr (Some domain_sorted_example) 0x80001000 PRV_S (SBI_DOMAIN_READ OR SBI_DOMAIN_MMIO)"
    "sbi_domain_check_addr (Some domain_sorted_example) 0x90000000 PRV_S (SBI_DOMAIN_READ AND NOT SBI_DOMAIN_MMIO)"
    by (code_simp+)
  with t [of "0x80001000"] t [of "0x90000000"] cnt(3) show ?thesis by auto
qed

section \<open>The next booting stage\<close>

text \<open>CSRs of the mode switch that keep every value the firmware writes to them.\<close>

definition mode_csrs_hw :: "riscv_hw \<Rightarrow> bool" where
  "mode_csrs_hw hw \<longleftrightarrow> (\<forall>n \<in> {CSR_MSTATUS, CSR_MEPC, CSR_STVEC, CSR_SSCRATCH, CSR_SIE, CSR_SATP}. \<forall>v. csr_warl hw n v = v)"

lemma mstatus_fields:
  fixes w m b :: ulong
  assumes "m = 0 \<or> m = 1 \<or> m = 3"
  defines "v \<equiv> INSERT_FIELD (INSERT_FIELD w MSTATUS_MPP m) MSTATUS_MPIE 0"
  shows "v AND MSTATUS_MPP = m * 0x800" "v AND MSTATUS_MPIE = 0"
    "INSERT_FIELD v MSTATUS_MPV b AND MSTATUS_MPP = m * 0x800 OR (b * 0x8000000000 AND MSTATUS_MPP)"
    "INSERT_FIELD v MSTATUS_MPV b AND MSTATUS_MPIE = b * 0x8000000000 AND MSTATUS_MPIE"
  using assms(1)
  by (auto simp: v_def INSERT_FIELD_def and.assoc bit.conj_disj_distrib2)

text \<open>
  \<^verbatim>\<open>sbi_hart_switch_mode\<close> hangs exactly if the next mode does not exist on the hart; otherwise
  it executes \<^verbatim>\<open>mret\<close> with the two arguments and with \<^verbatim>\<open>mstatus\<close> selecting exactly that mode with
  interrupts disabled, \<^verbatim>\<open>mepc\<close> at the next stage and, for S-mode, with paging and supervisor
  interrupts off and the trap vector at the next stage.
\<close>

theorem switch_mode_enters:
  assumes "mode_csrs_hw hw"
  shows "case sbi_hart_switch_mode hw plat_ext a0 a1 next_addr next_mode next_virt c of
      Hang \<Rightarrow> next_mode \<notin> {PRV_M, PRV_S, PRV_U} \<or> next_mode = PRV_S \<and> \<not> misa_extension plat_ext CHR ''S'' c \<or>
        next_mode = PRV_U \<and> \<not> misa_extension plat_ext CHR ''U'' c
    | Mret x y c' \<Rightarrow> x = a0 \<and> y = a1 \<and> next_mode \<in> {PRV_M, PRV_S, PRV_U} \<and>
        c' CSR_MSTATUS AND MSTATUS_MPP = next_mode * 0x800 \<and> c' CSR_MSTATUS AND MSTATUS_MPIE = 0 \<and>
        c' CSR_MEPC = next_addr \<and>
        (next_mode = PRV_S \<longrightarrow> c' CSR_STVEC = next_addr \<and> c' CSR_SSCRATCH = 0 \<and> c' CSR_SIE = 0 \<and> c' CSR_SATP = 0)"
  using assms mstatus_fields [of next_mode "c CSR_MSTATUS"]
  by (auto simp: sbi_hart_switch_mode_def mode_csrs_hw_def csr_write_def csr_keeps_def Let_def)

theorem switch_mode_enters_witness:
  "\<exists>c'. sbi_hart_switch_mode cva6_hw (\<lambda>_. 1) 0 0x82200000 0x80200000 PRV_S False (\<lambda>_. 0) = Mret 0 0x82200000 c' \<and>
    c' CSR_MSTATUS AND MSTATUS_MPP = 0x800 \<and> c' CSR_MEPC = 0x80200000"
proof -
  have "mode_csrs_hw cva6_hw" by (auto simp: mode_csrs_hw_def cva6_hw_def)
  from switch_mode_enters [OF this, of PRV_S "\<lambda>_. 1" "\<lambda>_. 0" 0 "0x82200000" "0x80200000" False]
  show ?thesis by (simp add: misa_extension_def misa_extension_imp_def split: leave.splits)
qed

section \<open>Counting CSRs\<close>

text \<open>A CSR is usable for the detection if it exists and keeps the probe value.\<close>

definition csr_usable :: "riscv_hw \<Rightarrow> csrs \<Rightarrow> ulong \<Rightarrow> nat \<Rightarrow> bool" where
  "csr_usable hw c v n \<longleftrightarrow> csr_ok hw n \<and> csr_keeps hw c n v = v"

text \<open>
  The probe of a list of CSRs, in states that satisfy \<open>P\<close>: a property that writes to these CSRs do not change and that decides whether they are usable.
\<close>

lemma check_csrs_count:
  assumes "\<And>c n w. P c \<Longrightarrow> n \<in> set ns \<Longrightarrow> P (c(n := w))" and "\<And>c n. P c \<Longrightarrow> n \<in> set ns \<Longrightarrow> csr_usable hw c v n = U n" and "P c"
  shows "fst (snd (check_csrs hw v ns cnt c)) = cnt + length (takeWhile U ns)"
  using assms
proof (induction ns arbitrary: cnt c)
  case (Cons n ns)
  let ?c = "csr_write hw n (c n) (csr_write hw n v c)"
  have P: "P ?c" unfolding csr_write_def by (intro Cons.prems(1) Cons.prems(3)) simp_all
  have "fst (snd (check_csrs hw v ns (cnt + 1) ?c)) = cnt + 1 + length (takeWhile U ns)"
    by (rule Cons.IH) (use Cons.prems P in auto)
  then show ?case using Cons.prems(2) [OF Cons.prems(3), of n]
    by (auto simp: csr_read_allowed_def csr_write_allowed_def csr_usable_def csr_write_def Let_def)
qed simp

text \<open>
  Feature detection counts the PMP entries correctly: on a hart that has \<open>cnt\<close> entries, none of them locked, and whose further address registers
  do not exist or keep only zero, the detected number is \<open>cnt\<close>.
\<close>

theorem detect_pmp_counts_entries:
  assumes hw: "pmp_hw hw cnt" and cnt: "0 < cnt" "cnt \<le> 64" and ex: "\<forall>n < cnt. csr_ok hw (pmpaddr_csr n)"
    and no: "\<forall>n v c. cnt \<le> n \<and> n < 64 \<longrightarrow> \<not> csr_ok hw (pmpaddr_csr n) \<or> pmp_warl hw c (pmpaddr_csr n) v = 0"
    and opn: "pmp_open cnt 0 c"
  shows "pmp_count (fst (hart_detect_features hw hf c)) = cnt"
proof -
  let ?ns = "map (\<lambda>i. CSR_PMPADDR0 + i) [0..<64]"
  have rw: "pmp_count (fst (detect_rw hw n f st)) = pmp_count (fst st)" for n f st
    by (simp add: detect_rw_def split: prod.split option.split)
  have mhpm: "pmp_count (fst (detect_mhpm hw hf c)) = pmp_count hf" for hf c
    by (simp add: detect_mhpm_def split: prod.split bool.split)
  have frame: "pmp_open cnt 0 (c(pmpaddr_csr i := w))" if "pmp_open cnt 0 c" for c i w
    using that cnt(2) by (auto simp: pmp_open_def pmp_locked_def pmp_cfg_def)
  have keep: "csr_keeps hw c (pmpaddr_csr i) v = v AND mask 54" if "pmp_open cnt 0 c" "i < cnt" for c i v
    using that hw cnt(2) by (auto simp: csr_keeps_def pmp_hw_def pmp_open_def pmp_addr_free_def pmpaddr_csr_def)
  have nok: "csr_ok hw (pmpaddr_csr i) \<Longrightarrow> csr_keeps hw c (pmpaddr_csr i) v = 0" if "cnt \<le> i" "i < 64" for c i v
    using no that by (auto simp: csr_keeps_def pmpaddr_csr_def)
  have p0: "pmpaddr_csr 0 = CSR_PMPADDR0" by (simp add: pmpaddr_csr_def)
  let ?v = "mask 54 :: ulong"
  have probe: "hart_pmp_get_allowed_addr hw c = (?v, c(pmpaddr_csr 0 := ?v))"
    using ex cnt(1) keep [OF opn cnt(1)] unfolding hart_pmp_get_allowed_addr_def p0 [symmetric]
    by (auto simp: csr_write_allowed_def csr_read_allowed_def csr_write_def mask_eq_exp_minus_1)
  have use: "csr_usable hw c ?v (pmpaddr_csr i) = (pmpaddr_csr i < CSR_PMPADDR0 + cnt)" if "pmp_open cnt 0 c" "i < 64" for c i
    using that ex keep [OF that(1), of i ?v] nok [of i c ?v]
    by (cases "i < cnt") (auto simp: csr_usable_def pmpaddr_csr_def not_less mask_eq_exp_minus_1)
  have "fst (snd (check_csrs hw ?v ?ns 0 (c(pmpaddr_csr 0 := ?v)))) = 0 + length (takeWhile (\<lambda>n. n < CSR_PMPADDR0 + cnt) ?ns)"
  proof (rule check_csrs_count [where P = "pmp_open cnt 0"])
    fix d n assume d: "pmp_open cnt 0 d" and "n \<in> set ?ns"
    then have "CSR_PMPADDR0 \<le> n" "n < CSR_PMPADDR0 + 64" by auto
    then have i: "n - CSR_PMPADDR0 < 64" "n = pmpaddr_csr (n - CSR_PMPADDR0)" by (simp_all add: pmpaddr_csr_def)
    show "pmp_open cnt 0 (d(n := w))" for w using frame [OF d] i(2) by metis
    show "csr_usable hw d ?v n = (n < CSR_PMPADDR0 + cnt)" using use [OF d i(1)] i(2) by metis
  qed (rule frame [OF opn])
  moreover have "length (takeWhile (\<lambda>n. n < CSR_PMPADDR0 + cnt) ?ns) = cnt"
  proof -
    have u: "[0..<64] = [0..<cnt] @ [cnt..<64]"
      using upt_add_eq_append [of 0 cnt "64 - cnt"] cnt(2) by (simp del: upt_rec_numeral)
    have "takeWhile (\<lambda>n. n < CSR_PMPADDR0 + cnt) (map (\<lambda>i. CSR_PMPADDR0 + i) [cnt..<64]) = []"
      by (cases "cnt < 64") (simp_all add: upt_conv_Cons del: upt_rec_numeral)
    then show ?thesis unfolding u map_append by (subst takeWhile_append2) auto
  qed
  moreover have "?v \<noteq> 0" by (simp add: mask_eq_exp_minus_1)
  ultimately have "pmp_count (fst (detect_pmp hw hf c)) = cnt" for hf
    by (auto simp: detect_pmp_def probe split: prod.split)
  then show ?thesis
    unfolding hart_detect_features_def Let_def
    by (simp add: mhpm rw split_beta)
qed

theorem detect_pmp_counts_entries_witness:
  "pmp_count (fst (hart_detect_features cva6_hw features_example (\<lambda>_. 0))) = 8"
proof -
  have opn: "pmp_open 8 0 (\<lambda>_. 0)" by (simp add: pmp_open_def pmp_locked_def pmp_cfg_def pmp_byte_def)
  from detect_pmp_counts_entries [OF cva6_pmp_hw _ _ _ _ opn] show ?thesis
    by (simp add: cva6_hw_def cva6_pmp_warl_def pmpaddr_csr_def)
qed

end
