(* ===== verification/Sbi_Pmu.thy ===== *)
theory Sbi_Pmu
  imports Sbi_Hart
begin

text \<open>
  Performance monitoring, \<^verbatim>\<open>lib/sbi/sbi_pmu.c\<close>: the event map, the table of active events of every
  hart, the firmware counters and the hardware counter CSRs. \<open>h\<close> is the current hart. A C array is
  a list of its size and \<open>None\<close> is an access outside an array or a \<^verbatim>\<open>BUG()\<close>. Counter indices are
  naturals (they start as \<^verbatim>\<open>unsigned long\<close> arguments), event indices are words.
\<close>

section \<open>State\<close>

abbreviation (input) SBI_PMU_HW_EVENT_MAX :: nat where "SBI_PMU_HW_EVENT_MAX \<equiv> 64"
abbreviation (input) SBI_PMU_FW_EVENT_MAX :: nat where "SBI_PMU_FW_EVENT_MAX \<equiv> 32"
abbreviation (input) SBI_PMU_FW_CTR_MAX :: nat where "SBI_PMU_FW_CTR_MAX \<equiv> 16"
abbreviation (input) SBI_PMU_HW_CTR_MAX :: nat where "SBI_PMU_HW_CTR_MAX \<equiv> 32"
abbreviation (input) SBI_PMU_FW_MAX :: nat where "SBI_PMU_FW_MAX \<equiv> 22"
abbreviation (input) SBI_PMU_EVENT_TYPE_HW :: int where "SBI_PMU_EVENT_TYPE_HW \<equiv> 0"
abbreviation (input) SBI_PMU_EVENT_TYPE_FW :: int where "SBI_PMU_EVENT_TYPE_FW \<equiv> 0xf"
abbreviation (input) SBI_PMU_EVENT_TYPE_MAX :: int where "SBI_PMU_EVENT_TYPE_MAX \<equiv> 0x10"
abbreviation (input) SBI_PMU_EVENT_IDX_INVALID :: u32 where "SBI_PMU_EVENT_IDX_INVALID \<equiv> 0xFFFFFFFF"
abbreviation (input) SBI_PMU_EVENT_RAW_IDX :: u32 where "SBI_PMU_EVENT_RAW_IDX \<equiv> 0x20000"

record sbi_pmu_hw_event =
  ev_counters :: u32
  ev_start_idx :: u32
  ev_end_idx :: u32
  ev_select :: ulong

record sbi_pmu_fw_event =
  fw_event_idx :: u32
  curr_count :: ulong
  bStarted :: bool

record pmu_sys =
  hw_event_map :: "sbi_pmu_hw_event list"
  active_events :: "hartid \<Rightarrow> u32 list"
  fw_event_map :: "hartid \<Rightarrow> sbi_pmu_fw_event list"
  num_hw_events :: nat
  num_hw_ctrs :: nat
  total_ctrs :: nat

text \<open>The operations that touch CSRs work on the PMU tables and the CSRs of the current hart.\<close>

type_synonym pmu_st = "pmu_sys \<times> csrs"

definition get_cidx_type :: "ulong \<Rightarrow> int" where
  "get_cidx_type x = uint (drop_bit 16 (x AND 0xF0000))"

definition get_cidx_code :: "ulong \<Rightarrow> nat" where
  "get_cidx_code x = unat (x AND 0xFFFF)"

section \<open>Events and counters\<close>

definition pmu_event_range_overlap :: "sbi_pmu_hw_event \<Rightarrow> sbi_pmu_hw_event \<Rightarrow> bool" where
  "pmu_event_range_overlap evtA evtB \<longleftrightarrow>
     \<not> ((ev_end_idx evtA < ev_start_idx evtB \<and> ev_end_idx evtA < ev_end_idx evtB) \<or>
        (ev_start_idx evtA > ev_start_idx evtB \<and> ev_start_idx evtA > ev_end_idx evtB))"

definition pmu_event_select_overlap :: "sbi_pmu_hw_event \<Rightarrow> ulong \<Rightarrow> bool" where
  "pmu_event_select_overlap evt select_val \<longleftrightarrow> ev_select evt = select_val"

text \<open>\<^verbatim>\<open>pmu_ctr_validate\<close> reads the table before it checks the index.\<close>

definition pmu_ctr_validate :: "hartid \<Rightarrow> nat \<Rightarrow> pmu_sys \<Rightarrow> (int \<times> nat) option" where
  "pmu_ctr_validate h cidx p =
     (if cidx < length (active_events p h)
      then let v = active_events p h ! cidx
           in if total_ctrs p \<le> cidx \<or> v = SBI_PMU_EVENT_IDX_INVALID then Some (SBI_EINVAL, 0)
              else if SBI_PMU_EVENT_TYPE_MAX \<le> get_cidx_type (ucast v) then Some (SBI_EINVAL, 0)
              else Some (get_cidx_type (ucast v), get_cidx_code (ucast v))
      else None)"

definition pmu_ctr_read_fw :: "hartid \<Rightarrow> nat \<Rightarrow> pmu_sys \<Rightarrow> ulong option" where
  "pmu_ctr_read_fw h code p =
     (if code < length (fw_event_map p h) then Some (curr_count (fw_event_map p h ! code)) else None)"

definition pmu_ctr_read_hw :: "nat \<Rightarrow> csrs \<Rightarrow> (int \<times> ulong option) option" where
  "pmu_ctr_read_hw cidx c =
     (if cidx = 1 then Some (SBI_EINVAL, None)
      else map_option (\<lambda>v. (0, Some v)) (csr_read_num (CSR_MCYCLE + cidx) c))"

text \<open>The result and the value stored through \<^verbatim>\<open>cval\<close>, if any.\<close>

definition sbi_pmu_ctr_read :: "hartid \<Rightarrow> nat \<Rightarrow> pmu_st \<Rightarrow> (int \<times> ulong option) option" where
  "sbi_pmu_ctr_read h cidx st =
     (case st of (p, c) \<Rightarrow>
        (case pmu_ctr_validate h cidx p of
           None \<Rightarrow> None
         | Some (t, code) \<Rightarrow>
             if t < 0 then Some (SBI_EINVAL, None)
             else if t = SBI_PMU_EVENT_TYPE_FW then map_option (\<lambda>v. (0, Some v)) (pmu_ctr_read_fw h code p)
             else map_option (\<lambda>_. (0, None)) (pmu_ctr_read_hw cidx c)))"

text \<open>Whether a new event overlaps one of the first \<open>num_hw_events\<close> entries of the map.\<close>

definition pmu_event_overlaps :: "sbi_pmu_hw_event \<Rightarrow> pmu_sys \<Rightarrow> bool" where
  "pmu_event_overlaps ev p \<longleftrightarrow>
     (\<exists>e \<in> set (take (num_hw_events p) (hw_event_map p)).
        if ev_start_idx ev = SBI_PMU_EVENT_RAW_IDX then pmu_event_select_overlap e (ev_select ev)
        else pmu_event_range_overlap e ev)"

definition pmu_add_hw_event_map :: "u32 \<Rightarrow> u32 \<Rightarrow> u32 \<Rightarrow> ulong \<Rightarrow> pmu_sys \<Rightarrow> int \<times> pmu_sys" where
  "pmu_add_hw_event_map eidx_start eidx_end cmap select p =
     (if (eidx_start = 1 \<and> cmap \<noteq> 0x1) \<or> (eidx_start = 2 \<and> cmap \<noteq> 0x4) \<or> (eidx_start > 2 \<and> cmap AND 0x07 \<noteq> 0)
      then (SBI_EDENIED, p)
      else if SBI_PMU_HW_EVENT_MAX - 1 \<le> num_hw_events p then (SBI_EFAIL, p)
      else let ev = \<lparr>ev_counters = cmap, ev_start_idx = eidx_start, ev_end_idx = eidx_end, ev_select = select\<rparr>;
               p = p\<lparr>hw_event_map := (hw_event_map p)[num_hw_events p := ev]\<rparr>
           in if pmu_event_overlaps ev p then (SBI_EINVALID_ADDR, p)
              else (0, p\<lparr>num_hw_events := num_hw_events p + 1\<rparr>))"

definition sbi_pmu_add_hw_event_counter_map :: "u32 \<Rightarrow> u32 \<Rightarrow> u32 \<Rightarrow> pmu_sys \<Rightarrow> int \<times> pmu_sys" where
  "sbi_pmu_add_hw_event_counter_map eidx_start eidx_end cmap p =
     (if eidx_start > eidx_end \<or> eidx_start = SBI_PMU_EVENT_RAW_IDX \<or> eidx_end = SBI_PMU_EVENT_RAW_IDX
      then (SBI_EINVAL, p) else pmu_add_hw_event_map eidx_start eidx_end cmap 0 p)"

definition sbi_pmu_add_raw_event_counter_map :: "ulong \<Rightarrow> u32 \<Rightarrow> pmu_sys \<Rightarrow> int \<times> pmu_sys" where
  "sbi_pmu_add_raw_event_counter_map select cmap p =
     pmu_add_hw_event_map SBI_PMU_EVENT_RAW_IDX SBI_PMU_EVENT_RAW_IDX cmap select p"

definition pmu_ctr_write_hw :: "riscv_hw \<Rightarrow> nat \<Rightarrow> ulong \<Rightarrow> csrs \<Rightarrow> csrs option" where
  "pmu_ctr_write_hw hw cidx ival c = csr_write_num hw (CSR_MCYCLE + cidx) ival c"

definition pmu_ctr_start_hw :: "riscv_hw \<Rightarrow> nat \<Rightarrow> ulong \<Rightarrow> bool \<Rightarrow> pmu_st \<Rightarrow> (int \<times> pmu_st) option" where
  "pmu_ctr_start_hw hw cidx ival ival_update st =
     (case st of (p, c) \<Rightarrow>
        (let mctr_en = c CSR_MCOUNTEREN; mctr_inhbt = c CSR_MCOUNTINHIBIT
         in if num_hw_ctrs p < cidx \<or> cidx = 1 then Some (SBI_EINVAL, st)
            else if bit mctr_en cidx \<and> \<not> bit mctr_inhbt cidx then Some (SBI_EALREADY_STARTED, st)
            else case (if ival_update then pmu_ctr_write_hw hw cidx ival c else Some c) of
                None \<Rightarrow> None
              | Some c \<Rightarrow>
                  (let c = csr_write hw CSR_MCOUNTEREN (set_bit cidx mctr_en) c;
                       c = csr_write hw CSR_MCOUNTINHIBIT (unset_bit cidx mctr_inhbt) c
                   in Some (0, (p, c)))))"

definition fw_event_update :: "hartid \<Rightarrow> nat \<Rightarrow> (sbi_pmu_fw_event \<Rightarrow> sbi_pmu_fw_event) \<Rightarrow> pmu_sys \<Rightarrow> pmu_sys option" where
  "fw_event_update h code f p =
     (if code < length (fw_event_map p h)
      then Some (p\<lparr>fw_event_map := (fw_event_map p)(h := (fw_event_map p h)[code := f (fw_event_map p h ! code)])\<rparr>)
      else None)"

definition pmu_ctr_start_fw :: "hartid \<Rightarrow> nat \<Rightarrow> ulong \<Rightarrow> bool \<Rightarrow> pmu_st \<Rightarrow> (int \<times> pmu_st) option" where
  "pmu_ctr_start_fw h code ival ival_update st =
     (case st of (p, c) \<Rightarrow>
        map_option (\<lambda>p. (0, (p, c)))
          (fw_event_update h code
             (\<lambda>e. (if ival_update then e\<lparr>curr_count := ival\<rparr> else e)\<lparr>bStarted := True\<rparr>) p))"

text \<open>\<^verbatim>\<open>for_each_set_bit_from\<close> over one word.\<close>

definition for_each_set_bit_from :: "ulong list \<Rightarrow> nat \<Rightarrow> nat \<Rightarrow> nat list option" where
  "for_each_set_bit_from addr sz b =
     (case find_next_bit addr sz b of None \<Rightarrow> None | Some b \<Rightarrow> for_each_set_bit_loop (Suc sz) addr sz b)"

fun ctr_start_loop :: "riscv_hw \<Rightarrow> hartid \<Rightarrow> ulong \<Rightarrow> bool \<Rightarrow> nat list \<Rightarrow> int \<Rightarrow> pmu_st \<Rightarrow> (int \<times> pmu_st) option" where
  "ctr_start_loop hw h ival upd [] ret st = Some (ret, st)"
| "ctr_start_loop hw h ival upd (i # js) ret st =
     (case pmu_ctr_validate h i (fst st) of
        None \<Rightarrow> None
      | Some (t, code) \<Rightarrow>
          if t < 0 then ctr_start_loop hw h ival upd js ret st
          else (case (if t = SBI_PMU_EVENT_TYPE_FW then pmu_ctr_start_fw h code ival upd st
                      else pmu_ctr_start_hw hw i ival upd st) of
                  None \<Rightarrow> None
                | Some (ret, st) \<Rightarrow> ctr_start_loop hw h ival upd js ret st))"

definition sbi_pmu_ctr_start ::
  "riscv_hw \<Rightarrow> hartid \<Rightarrow> nat \<Rightarrow> ulong \<Rightarrow> ulong \<Rightarrow> ulong \<Rightarrow> pmu_st \<Rightarrow> (int \<times> pmu_st) option" where
  "sbi_pmu_ctr_start hw h cbase cmask flags ival st =
     (let ctr_mask = push_bit (cbase mod 64) cmask
      in if total_ctrs (fst st) \<le> fls_word ctr_mask then Some (SBI_EINVAL, st)
         else case for_each_set_bit_from [ctr_mask] (total_ctrs (fst st)) cbase of
             None \<Rightarrow> None
           | Some js \<Rightarrow> ctr_start_loop hw h ival (flags AND 1 \<noteq> 0) js SBI_EINVAL st)"

definition pmu_ctr_stop_hw :: "riscv_hw \<Rightarrow> nat \<Rightarrow> pmu_st \<Rightarrow> int \<times> pmu_st" where
  "pmu_ctr_stop_hw hw cidx st =
     (case st of (p, c) \<Rightarrow>
        (let mctr_en = c CSR_MCOUNTEREN; mctr_inhbt = c CSR_MCOUNTINHIBIT
         in if num_hw_ctrs p < cidx \<or> cidx = 1 then (SBI_EINVAL, st)
            else if bit mctr_en cidx \<and> \<not> bit mctr_inhbt cidx
            then let c = csr_write hw CSR_MCOUNTEREN (unset_bit cidx mctr_en) c;
                     c = csr_write hw CSR_MCOUNTINHIBIT (set_bit cidx mctr_inhbt) c
                 in (0, (p, c))
            else (SBI_EALREADY_STOPPED, st)))"

definition pmu_ctr_stop_fw :: "hartid \<Rightarrow> nat \<Rightarrow> pmu_st \<Rightarrow> (int \<times> pmu_st) option" where
  "pmu_ctr_stop_fw h code st =
     (case st of (p, c) \<Rightarrow> map_option (\<lambda>p. (0, (p, c))) (fw_event_update h code (\<lambda>e. e\<lparr>bStarted := False\<rparr>) p))"

definition active_event_update :: "hartid \<Rightarrow> nat \<Rightarrow> u32 \<Rightarrow> pmu_sys \<Rightarrow> pmu_sys option" where
  "active_event_update h i v p =
     (if i < length (active_events p h)
      then Some (p\<lparr>active_events := (active_events p)(h := (active_events p h)[i := v])\<rparr>) else None)"

fun ctr_stop_loop :: "riscv_hw \<Rightarrow> hartid \<Rightarrow> ulong \<Rightarrow> nat list \<Rightarrow> int \<Rightarrow> pmu_st \<Rightarrow> (int \<times> pmu_st) option" where
  "ctr_stop_loop hw h flag [] ret st = Some (ret, st)"
| "ctr_stop_loop hw h flag (i # js) ret st =
     (case pmu_ctr_validate h i (fst st) of
        None \<Rightarrow> None
      | Some (t, code) \<Rightarrow>
          if t < 0 then ctr_stop_loop hw h flag js ret st
          else (case (if t = SBI_PMU_EVENT_TYPE_FW then pmu_ctr_stop_fw h code st
                      else Some (pmu_ctr_stop_hw hw i st)) of
                  None \<Rightarrow> None
                | Some (ret, st) \<Rightarrow>
                    if ret = 0 \<and> flag AND 1 \<noteq> 0
                    then (case active_event_update h i SBI_PMU_EVENT_IDX_INVALID (fst st) of
                            None \<Rightarrow> None
                          | Some p \<Rightarrow> ctr_stop_loop hw h flag js ret (p, snd st))
                    else ctr_stop_loop hw h flag js ret st))"

definition sbi_pmu_ctr_stop :: "riscv_hw \<Rightarrow> hartid \<Rightarrow> nat \<Rightarrow> ulong \<Rightarrow> ulong \<Rightarrow> pmu_st \<Rightarrow> (int \<times> pmu_st) option" where
  "sbi_pmu_ctr_stop hw h cbase cmask flag st =
     (let ctr_mask = push_bit (cbase mod 64) cmask
      in if total_ctrs (fst st) \<le> fls_word ctr_mask then Some (SBI_EINVAL, st)
         else case for_each_set_bit_from [ctr_mask] (total_ctrs (fst st)) cbase of
             None \<Rightarrow> None
           | Some js \<Rightarrow> ctr_stop_loop hw h flag js SBI_EINVAL st)"

section \<open>Choosing a counter\<close>

text \<open>
  \<open>xlate\<close> is the platform's translation of an event to a value for the event selector; without
  such a callback it is constantly 0.
\<close>

definition pmu_update_hw_mhpmevent ::
  "riscv_hw \<Rightarrow> (u32 \<Rightarrow> ulong \<Rightarrow> ulong) \<Rightarrow> nat \<Rightarrow> ulong \<Rightarrow> ulong \<Rightarrow> csrs \<Rightarrow> (int \<times> csrs) option" where
  "pmu_update_hw_mhpmevent hw xlate ctr_idx eindex data c =
     (let mhpmevent_val = xlate (ucast eindex) data
      in if mhpmevent_val = 0 \<or> ctr_idx < 3 \<or> SBI_PMU_HW_CTR_MAX \<le> ctr_idx then Some (SBI_EFAIL, c)
         else map_option (\<lambda>c. (0, c)) (csr_write_num hw (CSR_MCOUNTINHIBIT + ctr_idx) mhpmevent_val c))"

text \<open>Whether an entry of the event map is passed over for an event.\<close>

definition pmu_event_skipped :: "ulong \<Rightarrow> ulong \<Rightarrow> sbi_pmu_hw_event \<Rightarrow> bool" where
  "pmu_event_skipped event_idx data temp \<longleftrightarrow>
     (ucast (ev_start_idx temp) > event_idx \<and> event_idx < ucast (ev_end_idx temp)) \<or>
     (ucast (ev_start_idx temp) < event_idx \<and> event_idx > ucast (ev_end_idx temp)) \<or>
     (event_idx = ucast SBI_PMU_EVENT_RAW_IDX \<and> ev_select temp \<noteq> data)"

text \<open>
  The search keeps \<open>cbase\<close>, which is the loop variable of the inner loop as well, and the counter
  found last. The inner loop leaves \<open>cbase\<close> at the free counter it found, or at the end.
\<close>

fun find_hw_loop ::
  "ulong \<Rightarrow> ulong \<Rightarrow> ulong \<Rightarrow> ulong \<Rightarrow> ulong \<Rightarrow> sbi_pmu_hw_event list \<Rightarrow> nat \<Rightarrow> nat option \<Rightarrow> nat option option" where
  "find_hw_loop mctr_en mctr_inhbt cmask event_idx data [] cbase ctr_idx = Some ctr_idx"
| "find_hw_loop mctr_en mctr_inhbt cmask event_idx data (temp # evs) cbase ctr_idx =
     (if pmu_event_skipped event_idx data temp
      then find_hw_loop mctr_en mctr_inhbt cmask event_idx data evs cbase ctr_idx
      else let ctr_mask = ucast (ev_counters temp) AND push_bit (cbase mod 64) cmask
           in case for_each_set_bit_from [ctr_mask] SBI_PMU_HW_CTR_MAX cbase of
                None \<Rightarrow> None
              | Some js \<Rightarrow>
                  (case find (\<lambda>j. \<not> bit mctr_en j \<and> bit mctr_inhbt j) js of
                     Some j \<Rightarrow> find_hw_loop mctr_en mctr_inhbt cmask event_idx data evs j (Some j)
                   | None \<Rightarrow> find_hw_loop mctr_en mctr_inhbt cmask event_idx data evs
                               SBI_PMU_HW_CTR_MAX ctr_idx))"

definition pmu_ctr_find_hw ::
  "riscv_hw \<Rightarrow> (u32 \<Rightarrow> ulong \<Rightarrow> ulong) \<Rightarrow> nat \<Rightarrow> ulong \<Rightarrow> ulong \<Rightarrow> ulong \<Rightarrow> pmu_st \<Rightarrow> (int \<times> pmu_st) option" where
  "pmu_ctr_find_hw hw xlate cbase cmask event_idx data st =
     (case st of (p, c) \<Rightarrow>
        (if num_hw_ctrs p < cbase then Some (SBI_EINVAL, st)
         else if get_cidx_code event_idx = 1 then Some (0, st)
         else if get_cidx_code event_idx = 2 then Some (2, st)
         else case find_hw_loop (c CSR_MCOUNTEREN) (c CSR_MCOUNTINHIBIT) cmask event_idx data
                     (take (num_hw_events p) (hw_event_map p)) cbase None of
                None \<Rightarrow> None
              | Some None \<Rightarrow> Some (SBI_EFAIL, st)
              | Some (Some ctr_idx) \<Rightarrow>
                  map_option (\<lambda>(ret, c). (if ret = 0 then int ctr_idx else ret, (p, c)))
                    (pmu_update_hw_mhpmevent hw xlate ctr_idx event_idx data c)))"

text \<open>\<^verbatim>\<open>fw_base\<close> is an \<^verbatim>\<open>int\<close> that is compared as a \<^verbatim>\<open>uint32_t\<close>.\<close>

function find_fw_loop :: "hartid \<Rightarrow> ulong \<Rightarrow> nat \<Rightarrow> pmu_sys \<Rightarrow> int option" where
  "find_fw_loop h ctr_mask i p =
     (if i < total_ctrs p
      then if i < length (active_events p h)
           then if active_events p h ! i = SBI_PMU_EVENT_IDX_INVALID \<and> push_bit (i mod 64) 1 AND ctr_mask \<noteq> 0
                then Some (int i) else find_fw_loop h ctr_mask (i + 1) p
           else None
      else Some SBI_ENOTSUPP)"
  by pat_completeness auto
termination by (relation "measure (\<lambda>(h, ctr_mask, i, p). total_ctrs p - i)") auto

declare find_fw_loop.simps [simp del]

definition pmu_ctr_find_fw :: "nat \<Rightarrow> ulong \<Rightarrow> hartid \<Rightarrow> pmu_sys \<Rightarrow> int option" where
  "pmu_ctr_find_fw cbase cmask h p =
     (let ctr_mask = push_bit (cbase mod 64) cmask;
          fw_base = (if cbase \<le> num_hw_ctrs p then num_hw_ctrs p + 1 else cbase mod 2 ^ 32)
      in find_fw_loop h ctr_mask fw_base p)"

text \<open>What follows the label \<^verbatim>\<open>skip_match\<close>.\<close>

definition cfg_match_apply :: "riscv_hw \<Rightarrow> hartid \<Rightarrow> ulong \<Rightarrow> ulong \<Rightarrow> nat \<Rightarrow> pmu_st \<Rightarrow> (int \<times> pmu_st) option" where
  "cfg_match_apply hw h flags event_idx ctr_idx st =
     (let event_type = get_cidx_type event_idx
      in if event_type = SBI_PMU_EVENT_TYPE_HW
         then case (if flags AND 2 \<noteq> 0 then map_option (\<lambda>c. (fst st, c)) (pmu_ctr_write_hw hw ctr_idx 0 (snd st))
                    else Some st) of
                None \<Rightarrow> None
              | Some st \<Rightarrow>
                  map_option (Pair (int ctr_idx))
                    (if flags AND 4 \<noteq> 0 then map_option snd (pmu_ctr_start_hw hw ctr_idx 0 False st) else Some st)
         else if event_type = SBI_PMU_EVENT_TYPE_FW
         then if flags AND 6 \<noteq> 0
              then map_option (\<lambda>p. (int ctr_idx, (p, snd st)))
                (fw_event_update h (get_cidx_code event_idx)
                   (\<lambda>e. let e = (if flags AND 2 \<noteq> 0 then e\<lparr>curr_count := 0\<rparr> else e)
                        in if flags AND 4 \<noteq> 0 then e\<lparr>bStarted := True\<rparr> else e) (fst st))
              else Some (int ctr_idx, st)
         else Some (int ctr_idx, st))"

definition sbi_pmu_ctr_cfg_match ::
  "riscv_hw \<Rightarrow> (u32 \<Rightarrow> ulong \<Rightarrow> ulong) \<Rightarrow> hartid \<Rightarrow> nat \<Rightarrow> ulong \<Rightarrow> ulong \<Rightarrow> ulong \<Rightarrow> ulong \<Rightarrow> pmu_st \<Rightarrow>
   (int \<times> pmu_st) option" where
  "sbi_pmu_ctr_cfg_match hw xlate h cidx_base cidx_mask flags event_idx event_data st =
     (let event_type = get_cidx_type event_idx;
          tmp = push_bit (cidx_base mod 64) cidx_mask
      in if total_ctrs (fst st) \<le> fls_word tmp \<or> SBI_PMU_EVENT_TYPE_MAX \<le> event_type then Some (SBI_EINVAL, st)
         else if flags AND 1 \<noteq> 0
         then if cidx_base < length (active_events (fst st) h)
              then if active_events (fst st) h ! cidx_base = SBI_PMU_EVENT_IDX_INVALID then Some (SBI_EINVAL, st)
                   else cfg_match_apply hw h flags event_idx cidx_base st
              else None
         else case (if event_type = SBI_PMU_EVENT_TYPE_FW
                    then map_option (\<lambda>i. (i, st)) (pmu_ctr_find_fw cidx_base cidx_mask h (fst st))
                    else pmu_ctr_find_hw hw xlate cidx_base cidx_mask event_idx event_data st) of
             None \<Rightarrow> None
           | Some (ctr_idx, st) \<Rightarrow>
               if ctr_idx < 0 then Some (SBI_ENOTSUPP, st)
               else case active_event_update h (nat ctr_idx) (ucast event_idx) (fst st) of
                      None \<Rightarrow> None
                    | Some p \<Rightarrow> cfg_match_apply hw h flags event_idx (nat ctr_idx) (p, snd st))"

definition sbi_pmu_ctr_incr_fw :: "hartid \<Rightarrow> nat \<Rightarrow> pmu_sys \<Rightarrow> (int \<times> pmu_sys) option" where
  "sbi_pmu_ctr_incr_fw h fw_id p =
     (if SBI_PMU_FW_MAX \<le> fw_id then Some (SBI_EINVAL, p)
      else map_option (Pair 0)
        (fw_event_update h fw_id (\<lambda>e. if bStarted e then e\<lparr>curr_count := curr_count e + 1\<rparr> else e) p))"

definition sbi_pmu_num_ctr :: "pmu_sys \<Rightarrow> nat" where
  "sbi_pmu_num_ctr p = num_hw_ctrs p + SBI_PMU_FW_CTR_MAX"

text \<open>The bit field \<^verbatim>\<open>csr\<close> takes bits 0 to 11, \<^verbatim>\<open>width\<close> bits 12 to 17 and \<^verbatim>\<open>type\<close> bit 63.\<close>

definition ctr_info :: "nat \<Rightarrow> nat \<Rightarrow> nat \<Rightarrow> ulong" where
  "ctr_info csr width ty =
     of_nat (csr mod 2 ^ 12) OR push_bit 12 (of_nat (width mod 2 ^ 6)) OR push_bit 63 (of_nat (ty mod 2))"

definition sbi_pmu_ctr_get_info :: "hart_features \<Rightarrow> nat \<Rightarrow> pmu_sys \<Rightarrow> int \<times> ulong option" where
  "sbi_pmu_ctr_get_info hf cidx p =
     (if total_ctrs p \<le> cidx \<or> cidx = 1 then (SBI_EINVAL, None)
      else if cidx \<le> num_hw_ctrs p
      then (0, Some (ctr_info (0xc00 + cidx) (if cidx = 0 \<or> cidx = 2 then 63 else mhpm_bits hf) 0))
      else (0, Some (ctr_info 0 (BITS_PER_LONG - 1) 1)))"

section \<open>Initialisation\<close>

text \<open>\<open>fill_from xs i n v\<close> stores \<open>v\<close> at the indices from \<open>i\<close> below \<open>n\<close>.\<close>

definition fill_from :: "'a list \<Rightarrow> nat \<Rightarrow> nat \<Rightarrow> 'a \<Rightarrow> 'a list option" where
  "fill_from xs i n v = (if n \<le> i then Some xs
     else if n \<le> length xs then Some (take i xs @ replicate (n - i) v @ drop n xs) else None)"

definition pmu_reset_event_map :: "hartid \<Rightarrow> pmu_sys \<Rightarrow> pmu_sys option" where
  "pmu_reset_event_map h p =
     (case fill_from (active_events p h) 3 (total_ctrs p) SBI_PMU_EVENT_IDX_INVALID of
        None \<Rightarrow> None
      | Some act \<Rightarrow>
          (case fill_from (fw_event_map p h) 0 SBI_PMU_FW_CTR_MAX
                  \<lparr>fw_event_idx = 0, curr_count = 0, bStarted = False\<rparr> of
             None \<Rightarrow> None
           | Some fw \<Rightarrow> Some (p\<lparr>active_events := (active_events p)(h := act),
                               fw_event_map := (fw_event_map p)(h := fw)\<rparr>)))"

definition sbi_pmu_exit :: "riscv_hw \<Rightarrow> hart_features \<Rightarrow> hartid \<Rightarrow> pmu_st \<Rightarrow> pmu_st option" where
  "sbi_pmu_exit hw hf h st =
     (if \<not> sbi_hart_has_feature hf SBI_HART_HAS_MCOUNTINHIBIT then Some st
      else let c = csr_write hw CSR_MCOUNTINHIBIT 0xFFFFFFF8 (snd st);
               c = csr_write hw CSR_MCOUNTEREN 7 c
           in map_option (\<lambda>p. (p, c)) (pmu_reset_event_map h (fst st)))"

text \<open>\<open>plat_pmu_init\<close> is the platform's callback, which adds its events to the map.\<close>

definition sbi_pmu_init ::
  "(pmu_sys \<Rightarrow> pmu_sys) \<Rightarrow> hart_features \<Rightarrow> hartid \<Rightarrow> bool \<Rightarrow> pmu_sys \<Rightarrow> (int \<times> pmu_sys) option" where
  "sbi_pmu_init plat_pmu_init hf h cold_boot p =
     (if \<not> sbi_hart_has_feature hf SBI_HART_HAS_MCOUNTINHIBIT then Some (0, p)
      else let p = (if cold_boot
                    then let p = plat_pmu_init p; n = mhpm_count hf + 2
                         in p\<lparr>num_hw_ctrs := n, total_ctrs := n + SBI_PMU_FW_CTR_MAX\<rparr>
                    else p)
           in case pmu_reset_event_map h p of
                None \<Rightarrow> None
              | Some p \<Rightarrow>
                  (if 2 < length (active_events p h)
                   then Some (0, p\<lparr>active_events := (active_events p)(h :=
                          (active_events p h)[0 := 1, 1 := SBI_PMU_EVENT_IDX_INVALID, 2 := 2])\<rparr>)
                   else None))"

definition pmu_boot :: pmu_sys where
  "pmu_boot = \<lparr>hw_event_map = replicate SBI_PMU_HW_EVENT_MAX \<lparr>ev_counters = 0, ev_start_idx = 0, ev_end_idx = 0, ev_select = 0\<rparr>,
     active_events = (\<lambda>_. replicate (SBI_PMU_HW_CTR_MAX + SBI_PMU_FW_CTR_MAX) 0),
     fw_event_map = (\<lambda>_. replicate SBI_PMU_FW_EVENT_MAX \<lparr>fw_event_idx = 0, curr_count = 0, bStarted = False\<rparr>),
     num_hw_events = 0, num_hw_ctrs = 0, total_ctrs = 0\<rparr>"

section \<open>The invariant of the tables\<close>

text \<open>
  The tables have their declared sizes, the counter numbers are those of \<^verbatim>\<open>sbi_pmu_init\<close>, and the
  code of every active firmware event indexes the table of firmware events.
\<close>

definition fw_active :: "hartid \<Rightarrow> pmu_sys \<Rightarrow> nat \<Rightarrow> nat \<Rightarrow> bool" where
  "fw_active h p i code \<longleftrightarrow> active_events p h ! i \<noteq> SBI_PMU_EVENT_IDX_INVALID \<and>
     get_cidx_type (ucast (active_events p h ! i)) = SBI_PMU_EVENT_TYPE_FW \<and>
     get_cidx_code (ucast (active_events p h ! i)) = code"

definition pmu_ok :: "hartid \<Rightarrow> pmu_sys \<Rightarrow> bool" where
  "pmu_ok h p \<longleftrightarrow> length (active_events p h) = SBI_PMU_HW_CTR_MAX + SBI_PMU_FW_CTR_MAX \<and>
     length (fw_event_map p h) = SBI_PMU_FW_EVENT_MAX \<and>
     num_hw_ctrs p < SBI_PMU_HW_CTR_MAX \<and> total_ctrs p = num_hw_ctrs p + SBI_PMU_FW_CTR_MAX \<and>
     (\<forall>i < total_ctrs p. \<forall>code. fw_active h p i code \<longrightarrow> code < SBI_PMU_FW_EVENT_MAX)"

lemma get_cidx_type_range: "0 \<le> get_cidx_type x" "get_cidx_type x < SBI_PMU_EVENT_TYPE_MAX"
proof -
  have "drop_bit 16 (x AND 0xF0000) = take_bit 4 (drop_bit 16 x)"
    by (rule bit_word_eqI) (auto simp: bit_simps bit_numeral_rec numeral_eq_Suc less_Suc_eq)
  then show "0 \<le> get_cidx_type x" "get_cidx_type x < SBI_PMU_EVENT_TYPE_MAX"
    using take_bit_int_less_exp [of 4 "uint (drop_bit 16 x)"]
    by (simp_all add: get_cidx_type_def unsigned_take_bit_eq)
qed

lemma pmu_ctr_validate_eq:
  assumes "pmu_ok h p" and "i < total_ctrs p"
  shows "pmu_ctr_validate h i p = Some (if active_events p h ! i = SBI_PMU_EVENT_IDX_INVALID then (SBI_EINVAL, 0)
    else (get_cidx_type (ucast (active_events p h ! i)), get_cidx_code (ucast (active_events p h ! i))))"
  using assms get_cidx_type_range(2) [of "ucast (active_events p h ! i)"]
  by (simp add: pmu_ctr_validate_def pmu_ok_def Let_def)

lemma for_each_set_bit_from_eq:
  assumes "sz \<le> 64"
  shows "for_each_set_bit_from [w] sz b = Some (filter (bit w) [b..<sz])"
proof -
  have "filter (bitmap_bit [w]) [b..<sz] = filter (bit w) [b..<sz]"
    using assms by (intro filter_cong) (auto simp: bitmap_bit_head)
  then show ?thesis
    using assms filter_upt_first_true [of "bitmap_bit [w]" b sz] first_true_le
    by (auto simp: for_each_set_bit_from_def find_next_bit_eq for_each_set_bit_loop_eq Let_def
        simp del: for_each_set_bit_loop.simps split: if_splits)
qed

lemma fw_event_update_eq:
  "code < length (fw_event_map p h) \<Longrightarrow> fw_event_update h code f p =
     Some (p\<lparr>fw_event_map := (fw_event_map p)(h := (fw_event_map p h)[code := f (fw_event_map p h ! code)])\<rparr>)"
  by (simp add: fw_event_update_def)

lemma fw_active_fw_event_map [simp]: "fw_active h (p\<lparr>fw_event_map := m\<rparr>) = fw_active h p"
  by (simp add: fw_active_def fun_eq_iff)

lemma pmu_ok_fw_event_map:
  "pmu_ok h (p\<lparr>fw_event_map := (fw_event_map p)(h := (fw_event_map p h)[code := e])\<rparr>) = pmu_ok h p"
  by (simp add: pmu_ok_def)

section \<open>Starting and stopping counters\<close>

lemma pmu_ctr_start_hw_total:
  assumes "num_hw_ctrs (fst st) < 32"
  shows "\<exists>ret c. pmu_ctr_start_hw hw i ival upd st = Some (ret, (fst st, c))"
proof -
  obtain p c where st: "st = (p, c)" by (cases st)
  show ?thesis
  proof (cases "num_hw_ctrs p < i \<or> i = 1")
    case False
    with assms have "csr_writable_num (CSR_MCYCLE + i)"
      by (auto simp: csr_writable_num_def csr_readable_num_def st)
    then show ?thesis by (auto simp: pmu_ctr_start_hw_def pmu_ctr_write_hw_def csr_write_num_def Let_def st)
  qed (auto simp: pmu_ctr_start_hw_def st)
qed

definition fw_start :: "ulong \<Rightarrow> bool \<Rightarrow> sbi_pmu_fw_event \<Rightarrow> sbi_pmu_fw_event" where
  "fw_start ival upd e = (if upd then e\<lparr>curr_count := ival\<rparr> else e)\<lparr>bStarted := True\<rparr>"

lemma fw_start_idem [simp]: "fw_start ival upd (fw_start ival upd e) = fw_start ival upd e"
  by (simp add: fw_start_def)

lemma ctr_start_loop_spec:
  assumes "pmu_ok h p" and "\<forall>i \<in> set js. i < total_ctrs p"
  shows "\<exists>ret' c' m. ctr_start_loop hw h ival upd js ret (p, c) =
      Some (ret', (p\<lparr>fw_event_map := (fw_event_map p)(h := m)\<rparr>, c')) \<and> length m = SBI_PMU_FW_EVENT_MAX \<and>
      (\<forall>code < SBI_PMU_FW_EVENT_MAX. m ! code = (if \<exists>i \<in> set js. fw_active h p i code
         then fw_start ival upd (fw_event_map p h ! code) else fw_event_map p h ! code))"
  using assms
proof (induction js arbitrary: p c ret)
  case Nil
  have "(p, c) = (p\<lparr>fw_event_map := (fw_event_map p)(h := fw_event_map p h)\<rparr>, c)" by simp
  moreover from Nil have "length (fw_event_map p h) = SBI_PMU_FW_EVENT_MAX" by (simp add: pmu_ok_def)
  ultimately show ?case by (intro exI conjI) auto
next
  case (Cons i js)
  let ?v = "active_events p h ! i"
  have i: "i < total_ctrs p" and js: "\<forall>i \<in> set js. i < total_ctrs p" using Cons.prems by auto
  note val = pmu_ctr_validate_eq [OF Cons.prems(1) i]
  consider (inv) "?v = SBI_PMU_EVENT_IDX_INVALID"
    | (fw) "?v \<noteq> SBI_PMU_EVENT_IDX_INVALID" "get_cidx_type (ucast ?v) = SBI_PMU_EVENT_TYPE_FW"
    | (hw) "?v \<noteq> SBI_PMU_EVENT_IDX_INVALID" "get_cidx_type (ucast ?v) \<noteq> SBI_PMU_EVENT_TYPE_FW" by blast
  then show ?case
  proof cases
    case inv
    with Cons.IH [OF Cons.prems(1) js] val show ?thesis by (simp add: fw_active_def)
  next
    case fw
    define code where "code = get_cidx_code (ucast ?v)"
    define m where "m = (fw_event_map p h)[code := fw_start ival upd (fw_event_map p h ! code)]"
    define q where "q = p\<lparr>fw_event_map := (fw_event_map p)(h := m)\<rparr>"
    from fw have act: "fw_active h p i k \<longleftrightarrow> k = code" for k by (auto simp: fw_active_def code_def)
    with Cons.prems(1) i have code: "code < length (fw_event_map p h)" by (auto simp: pmu_ok_def)
    have q: "pmu_ok h q" "fw_active h q = fw_active h p" "fw_event_map q h = m" "total_ctrs q = total_ctrs p"
      using Cons.prems(1) by (simp_all add: q_def m_def pmu_ok_fw_event_map)
    have "ctr_start_loop hw h ival upd (i # js) ret (p, c) = ctr_start_loop hw h ival upd js 0 (q, c)"
      using fw code by (simp add: val pmu_ctr_start_fw_def fw_event_update_eq q_def m_def fw_start_def code_def)
    moreover have "m ! k = (if k = code then fw_start ival upd (fw_event_map p h ! k) else fw_event_map p h ! k)"
      if "k < 32" for k using that code by (simp add: m_def nth_list_update)
    moreover have "q\<lparr>fw_event_map := (fw_event_map q)(h := m')\<rparr> = p\<lparr>fw_event_map := (fw_event_map p)(h := m')\<rparr>" for m'
      by (simp add: q_def)
    moreover obtain ret' c' m' where "ctr_start_loop hw h ival upd js 0 (q, c) =
        Some (ret', (q\<lparr>fw_event_map := (fw_event_map q)(h := m')\<rparr>, c'))" "length m' = 32"
      "\<forall>code < 32. m' ! code = (if \<exists>i \<in> set js. fw_active h p i code then fw_start ival upd (m ! code) else m ! code)"
      using Cons.IH [OF q(1), of 0 c] js unfolding q by metis
    ultimately show ?thesis by (intro exI [of _ ret'] exI [of _ c'] exI [of _ m']) (simp add: act del: ctr_start_loop.simps fun_upd_apply)
  next
    case hw
    obtain ret' c' where "pmu_ctr_start_hw hw i ival upd (p, c) = Some (ret', (p, c'))"
      using pmu_ctr_start_hw_total [of "(p, c)" hw i ival upd] Cons.prems(1) by (auto simp: pmu_ok_def)
    with Cons.IH [OF Cons.prems(1) js, of ret' c'] val hw get_cidx_type_range(1) [of "ucast ?v"]
    show ?thesis by (simp add: fw_active_def)
  qed
qed

text \<open>
  Starting counters: with consistent tables \<^verbatim>\<open>sbi_pmu_ctr_start\<close> returns without leaving an array.
  If the mask names only existing counters, every firmware event monitored by a counter of the
  mask (at or above the base) is started, with the initial value if one is given; no other
  firmware event and no other table changes.
\<close>

theorem sbi_pmu_ctr_start_events:
  assumes "pmu_ok h p"
  shows "\<exists>ret p' c'. sbi_pmu_ctr_start hw h cbase cmask flags ival (p, c) = Some (ret, (p', c')) \<and>
    pmu_ok h p' \<and> p' = p\<lparr>fw_event_map := (fw_event_map p)(h := fw_event_map p' h)\<rparr> \<and>
    (\<forall>code < SBI_PMU_FW_EVENT_MAX. fw_event_map p' h ! code =
       (if fls_word (push_bit (cbase mod 64) cmask) < total_ctrs p \<and>
           (\<exists>i < total_ctrs p. cbase \<le> i \<and> bit (push_bit (cbase mod 64) cmask) i \<and> fw_active h p i code)
        then fw_start ival (flags AND 1 \<noteq> 0) (fw_event_map p h ! code) else fw_event_map p h ! code))"
proof (cases "fls_word (push_bit (cbase mod 64) cmask) < total_ctrs p")
  case True
  let ?w = "push_bit (cbase mod 64) cmask" and ?js = "filter (bit (push_bit (cbase mod 64) cmask)) [cbase..<total_ctrs p]"
  have "total_ctrs p \<le> 64" using assms by (simp add: pmu_ok_def)
  then have run: "sbi_pmu_ctr_start hw h cbase cmask flags ival (p, c) =
      ctr_start_loop hw h ival (flags AND 1 \<noteq> 0) ?js SBI_EINVAL (p, c)"
    using True by (simp add: sbi_pmu_ctr_start_def Let_def for_each_set_bit_from_eq)
  have "\<forall>i \<in> set ?js. i < total_ctrs p" by simp
  from ctr_start_loop_spec [OF assms this] obtain ret' c' m where
    r: "ctr_start_loop hw h ival (flags AND 1 \<noteq> 0) ?js SBI_EINVAL (p, c) =
      Some (ret', (p\<lparr>fw_event_map := (fw_event_map p)(h := m)\<rparr>, c'))" and "length m = 32"
    and m: "\<forall>code < 32. m ! code = (if \<exists>i \<in> set ?js. fw_active h p i code
         then fw_start ival (flags AND 1 \<noteq> 0) (fw_event_map p h ! code) else fw_event_map p h ! code)" by metis
  moreover from \<open>length m = 32\<close> assms have "pmu_ok h (p\<lparr>fw_event_map := (fw_event_map p)(h := m)\<rparr>)" by (simp add: pmu_ok_def)
  moreover have "(\<exists>i \<in> set ?js. fw_active h p i code) =
      (\<exists>i < total_ctrs p. cbase \<le> i \<and> bit ?w i \<and> fw_active h p i code)" for code by auto
  ultimately show ?thesis using True unfolding run r by (intro exI conjI) auto
next
  case False
  have "p = p\<lparr>fw_event_map := (fw_event_map p)(h := fw_event_map p h)\<rparr>" by simp
  with False assms show ?thesis
    by (auto simp: sbi_pmu_ctr_start_def Let_def)
qed

text \<open>A hart with two hardware counters; its counter 3, a firmware counter, monitors event 5.\<close>

definition pmu_example :: pmu_sys where
  "pmu_example = pmu_boot\<lparr>active_events := (\<lambda>_. [1, 0xFFFFFFFF, 2, 0xF0005] @ replicate 44 0xFFFFFFFF),
     num_hw_ctrs := 2, total_ctrs := 18\<rparr>"

lemma pmu_example_ok: "pmu_ok h pmu_example"
proof -
  have "\<forall>i < 18. ([1, 0xFFFFFFFF, 2, 0xF0005] @ replicate 44 0xFFFFFFFF) ! i \<in> {1, 0xFFFFFFFF, 2, 0xF0005 :: u32}"
    by code_simp
  moreover have "get_cidx_type 1 = 0" "get_cidx_type 2 = 0" "get_cidx_code 0xF0005 = 5" by code_simp+
  ultimately show ?thesis by (auto simp: pmu_ok_def pmu_example_def pmu_boot_def fw_active_def)
qed

theorem sbi_pmu_ctr_start_events_witness:
  "pmu_ok 0 pmu_example \<and>
   (\<exists>ret p' c'. sbi_pmu_ctr_start cva6_hw 0 3 1 1 9 (pmu_example, \<lambda>_. 0) = Some (ret, (p', c')) \<and>
     fw_event_map p' 0 ! 5 = \<lparr>fw_event_idx = 0, curr_count = 9, bStarted = True\<rparr> \<and> \<not> bStarted (fw_event_map p' 0 ! 4))"
proof -
  have a: "fw_active 0 pmu_example 3 5" by code_simp
  have f: "fls_word (push_bit 3 1) < total_ctrs pmu_example" "3 < total_ctrs pmu_example" by code_simp+
  have n: "\<not> fw_active 0 pmu_example i 4" if "i < total_ctrs pmu_example" "3 \<le> i" "bit (push_bit 3 1 :: ulong) i" for i
  proof -
    from that(3) have "i = 3" by (simp only: bit_push_bit_iff bit_1_iff) simp
    then show ?thesis by (simp, code_simp)
  qed
  have e: "fw_event_map pmu_example 0 ! 5 = \<lparr>fw_event_idx = 0, curr_count = 0, bStarted = False\<rparr>"
    "\<not> bStarted (fw_event_map pmu_example 0 ! 4)" by code_simp+
  from sbi_pmu_ctr_start_events [OF pmu_example_ok, of cva6_hw 0 3 1 1 9 "\<lambda>_. 0"]
  obtain ret p' c' where r: "sbi_pmu_ctr_start cva6_hw 0 3 1 1 9 (pmu_example, \<lambda>_. 0) = Some (ret, (p', c'))"
    and m: "\<forall>code < 32. fw_event_map p' 0 ! code = (if fls_word (push_bit (3 mod 64) 1) < total_ctrs pmu_example \<and>
           (\<exists>i < total_ctrs pmu_example. 3 \<le> i \<and> bit (push_bit (3 mod 64) (1 :: ulong)) i \<and> fw_active 0 pmu_example i code)
        then fw_start 9 ((1 :: ulong) AND 1 \<noteq> 0) (fw_event_map pmu_example 0 ! code) else fw_event_map pmu_example 0 ! code)"
    by metis
  have "\<exists>i < total_ctrs pmu_example. 3 \<le> i \<and> bit (push_bit 3 (1 :: ulong)) i \<and> fw_active 0 pmu_example i 5"
    using a f by (intro exI [of _ 3]) (simp add: bit_simps)
  with m [rule_format, of 5] f e have "fw_event_map p' 0 ! 5 = \<lparr>fw_event_idx = 0, curr_count = 9, bStarted = True\<rparr>"
    by (simp add: fw_start_def)
  moreover have "\<not> bStarted (fw_event_map p' 0 ! 4)"
    using m [rule_format, of 4] n e by (simp split: if_splits) metis
  ultimately show ?thesis using r pmu_example_ok by blast
qed

section \<open>The event map\<close>

text \<open>
  What the event map promises: an event index other than the raw one belongs to at most one
  entry, and a raw event is determined by its selector.
\<close>

definition ev_covers :: "sbi_pmu_hw_event \<Rightarrow> u32 \<Rightarrow> bool" where
  "ev_covers e x \<longleftrightarrow> ev_start_idx e \<le> x \<and> x \<le> ev_end_idx e"

definition ev_wf :: "sbi_pmu_hw_event \<Rightarrow> bool" where
  "ev_wf e \<longleftrightarrow> ev_start_idx e \<le> ev_end_idx e \<and>
     (ev_start_idx e = SBI_PMU_EVENT_RAW_IDX \<longleftrightarrow> ev_end_idx e = SBI_PMU_EVENT_RAW_IDX)"

definition ev_distinct :: "sbi_pmu_hw_event \<Rightarrow> sbi_pmu_hw_event \<Rightarrow> bool" where
  "ev_distinct a b \<longleftrightarrow> (\<forall>x. x \<noteq> SBI_PMU_EVENT_RAW_IDX \<longrightarrow> \<not> (ev_covers a x \<and> ev_covers b x)) \<and>
     (ev_start_idx a = SBI_PMU_EVENT_RAW_IDX \<and> ev_start_idx b = SBI_PMU_EVENT_RAW_IDX \<longrightarrow> ev_select a \<noteq> ev_select b)"

definition pmu_events :: "pmu_sys \<Rightarrow> sbi_pmu_hw_event list" where
  "pmu_events p = take (num_hw_events p) (hw_event_map p)"

definition pmu_map_ok :: "pmu_sys \<Rightarrow> bool" where
  "pmu_map_ok p \<longleftrightarrow> length (hw_event_map p) = SBI_PMU_HW_EVENT_MAX \<and> num_hw_events p < SBI_PMU_HW_EVENT_MAX \<and>
     (\<forall>e \<in> set (pmu_events p). ev_wf e) \<and> sorted_wrt ev_distinct (pmu_events p)"

lemma pmu_event_no_overlap_distinct:
  assumes "ev_wf a" and "ev_wf b"
    and "\<not> (if ev_start_idx b = SBI_PMU_EVENT_RAW_IDX then pmu_event_select_overlap a (ev_select b)
            else pmu_event_range_overlap a b)"
  shows "ev_distinct a b"
proof (cases "ev_start_idx b = SBI_PMU_EVENT_RAW_IDX")
  case True
  then have "ev_end_idx b = SBI_PMU_EVENT_RAW_IDX" using assms(2) by (simp add: ev_wf_def)
  with True assms(3) show ?thesis by (auto simp: ev_distinct_def ev_covers_def pmu_event_select_overlap_def)
next
  case False
  with assms show ?thesis
    by (auto simp: ev_distinct_def ev_covers_def ev_wf_def pmu_event_range_overlap_def)
qed

lemma pmu_add_hw_event_map_ok:
  assumes ok: "pmu_map_ok p" and wf: "ev_wf \<lparr>ev_counters = cmap, ev_start_idx = s, ev_end_idx = e, ev_select = sel\<rparr>"
    and add: "pmu_add_hw_event_map s e cmap sel p = (rc, p')"
  shows "pmu_map_ok p' \<and> pmu_events p' = pmu_events p @
    (if rc = 0 then [\<lparr>ev_counters = cmap, ev_start_idx = s, ev_end_idx = e, ev_select = sel\<rparr>] else [])"
proof -
  let ?n = "num_hw_events p" and ?ev = "\<lparr>ev_counters = cmap, ev_start_idx = s, ev_end_idx = e, ev_select = sel\<rparr>"
  let ?q = "p\<lparr>hw_event_map := (hw_event_map p)[?n := ?ev]\<rparr>"
  from ok have len: "length (hw_event_map p) = 64" and n: "?n < 64" by (auto simp: pmu_map_ok_def)
  have same: "pmu_events ?q = pmu_events p" by (simp add: pmu_events_def)
  have okq: "pmu_map_ok ?q" using ok by (simp add: pmu_map_ok_def same)
  consider (same) "rc \<noteq> 0" "p' = p" | (overlap) "rc \<noteq> 0" "p' = ?q"
    | (new) "rc = 0" "p' = ?q\<lparr>num_hw_events := ?n + 1\<rparr>" "?n < 63" "\<not> pmu_event_overlaps ?ev ?q"
    using add by (auto simp: pmu_add_hw_event_map_def Let_def split: if_splits)
  then show ?thesis
  proof cases
    case new
    have evs: "pmu_events p' = pmu_events p @ [?ev]"
      using new(2) n len by (simp add: pmu_events_def take_Suc_conv_app_nth)
    have wfs: "\<forall>a \<in> set (pmu_events p). ev_wf a" using ok by (simp add: pmu_map_ok_def)
    have "\<forall>a \<in> set (pmu_events p). ev_distinct a ?ev"
    proof
      fix a assume a: "a \<in> set (pmu_events p)"
      with new(4) same have "\<not> (if ev_start_idx ?ev = SBI_PMU_EVENT_RAW_IDX then pmu_event_select_overlap a (ev_select ?ev)
            else pmu_event_range_overlap a ?ev)"
        by (auto simp: pmu_event_overlaps_def pmu_events_def)
      with a wf wfs show "ev_distinct a ?ev" by (intro pmu_event_no_overlap_distinct) auto
    qed
    moreover have "length (hw_event_map p') = 64" "num_hw_events p' < 64" using new(2,3) len by simp_all
    ultimately show ?thesis
      using ok wfs wf new(1) unfolding pmu_map_ok_def evs by (simp add: sorted_wrt_append)
  qed (use ok okq same in auto)
qed

text \<open>
  The event map stays well formed: both operations that add events either append the new
  entry or leave the entries as they are and report an error, and afterwards every event index
  still belongs to at most one entry and every raw event to at most one selector.
\<close>

theorem pmu_event_map_unambiguous:
  assumes "pmu_map_ok p"
    and "sbi_pmu_add_hw_event_counter_map s e cmap p = (rc, p') \<or> sbi_pmu_add_raw_event_counter_map sel cmap p = (rc, p')"
  shows "pmu_map_ok p' \<and> (rc \<noteq> 0 \<longrightarrow> pmu_events p' = pmu_events p) \<and>
    (rc = 0 \<longrightarrow> (\<exists>ev. pmu_events p' = pmu_events p @ [ev] \<and> ev_counters ev = cmap)) \<and>
    (\<forall>i < length (pmu_events p'). \<forall>j < length (pmu_events p'). \<forall>x.
       x \<noteq> SBI_PMU_EVENT_RAW_IDX \<and> ev_covers (pmu_events p' ! i) x \<and> ev_covers (pmu_events p' ! j) x \<longrightarrow> i = j)"
proof -
  have r: "pmu_map_ok p' \<and> (rc \<noteq> 0 \<longrightarrow> pmu_events p' = pmu_events p) \<and>
    (rc = 0 \<longrightarrow> (\<exists>ev. pmu_events p' = pmu_events p @ [ev] \<and> ev_counters ev = cmap))"
    using assms(2)
  proof
    assume a: "sbi_pmu_add_raw_event_counter_map sel cmap p = (rc, p')"
    show ?thesis
      using pmu_add_hw_event_map_ok [OF assms(1) _ a [unfolded sbi_pmu_add_raw_event_counter_map_def]]
      by (simp add: ev_wf_def)
  next
    assume a: "sbi_pmu_add_hw_event_counter_map s e cmap p = (rc, p')"
    show ?thesis
    proof (cases "s > e \<or> s = SBI_PMU_EVENT_RAW_IDX \<or> e = SBI_PMU_EVENT_RAW_IDX")
      case True
      with a assms(1) show ?thesis by (auto simp: sbi_pmu_add_hw_event_counter_map_def)
    next
      case False
      then have "pmu_add_hw_event_map s e cmap 0 p = (rc, p')"
        using a by (simp add: sbi_pmu_add_hw_event_counter_map_def)
      from pmu_add_hw_event_map_ok [OF assms(1) _ this] False show ?thesis by (auto simp: ev_wf_def)
    qed
  qed
  have "i = j" if "i < length (pmu_events p')" "j < length (pmu_events p')" "x \<noteq> SBI_PMU_EVENT_RAW_IDX"
    "ev_covers (pmu_events p' ! i) x" "ev_covers (pmu_events p' ! j) x" for i j x
  proof (rule ccontr)
    assume "i \<noteq> j"
    with that r have "ev_distinct (pmu_events p' ! i) (pmu_events p' ! j) \<or> ev_distinct (pmu_events p' ! j) (pmu_events p' ! i)"
      unfolding pmu_map_ok_def by (metis sorted_wrt_nth_less linorder_neqE_nat)
    with that show False by (auto simp: ev_distinct_def)
  qed
  with r show ?thesis by blast
qed

theorem pmu_event_map_unambiguous_witness:
  "\<exists>p'. sbi_pmu_add_hw_event_counter_map 3 7 0x18 pmu_boot = (0, p') \<and> pmu_map_ok p' \<and> length (pmu_events p') = 1"
proof -
  have ok: "pmu_map_ok pmu_boot" by (simp add: pmu_map_ok_def pmu_boot_def pmu_events_def)
  have e: "pmu_events pmu_boot = []" by (simp add: pmu_events_def pmu_boot_def)
  have rc: "fst (sbi_pmu_add_hw_event_counter_map 3 7 0x18 pmu_boot) = 0"
    by (simp add: sbi_pmu_add_hw_event_counter_map_def pmu_add_hw_event_map_def pmu_boot_def pmu_event_overlaps_def)
  then obtain p' where p': "sbi_pmu_add_hw_event_counter_map 3 7 0x18 pmu_boot = (0, p')" by (metis prod.collapse)
  from pmu_event_map_unambiguous [OF ok disjI1 [OF p']] p' e show ?thesis by auto
qed

section \<open>Configuring a firmware counter\<close>

lemma find_fw_loop_spec:
  assumes "total_ctrs p \<le> length (active_events p h)" and "find_fw_loop h w i p = r"
  shows "r = Some SBI_ENOTSUPP \<and> (\<forall>k. i \<le> k \<and> k < total_ctrs p \<longrightarrow> \<not> (active_events p h ! k = SBI_PMU_EVENT_IDX_INVALID \<and> bit w k)) \<or>
    (\<exists>k. r = Some (int k) \<and> i \<le> k \<and> k < total_ctrs p \<and> active_events p h ! k = SBI_PMU_EVENT_IDX_INVALID)"
  using assms
proof (induction h w i p arbitrary: r rule: find_fw_loop.induct)
  case (1 h w i p)
  have b: "push_bit (k mod 64) 1 AND w \<noteq> 0" if "bit w k" for k
  proof -
    from bit_imp_le_length [OF that] have "bit (push_bit (k mod 64) 1 AND w) k" using that by (simp add: bit_simps)
    then show ?thesis by auto
  qed
  show ?case
  proof (cases "i < total_ctrs p \<and> \<not> (active_events p h ! i = SBI_PMU_EVENT_IDX_INVALID \<and> push_bit (i mod 64) 1 AND w \<noteq> 0)")
    case True
    with 1 have "find_fw_loop h w (i + 1) p = r" by (subst (asm) find_fw_loop.simps) (auto split: if_splits)
    moreover from True "1.prems"(1) have "i < length (active_events p h)" by simp
    ultimately have "r = Some SBI_ENOTSUPP \<and> (\<forall>k. i + 1 \<le> k \<and> k < total_ctrs p \<longrightarrow>
        \<not> (active_events p h ! k = SBI_PMU_EVENT_IDX_INVALID \<and> bit w k)) \<or>
      (\<exists>k. r = Some (int k) \<and> i + 1 \<le> k \<and> k < total_ctrs p \<and> active_events p h ! k = SBI_PMU_EVENT_IDX_INVALID)"
      using "1.IH" [of r] True "1.prems"(1) by blast
    moreover have "k = i \<or> i + 1 \<le> k" if "i \<le> k" for k using that by linarith
    ultimately show ?thesis using True b [of i] by (metis Suc_leD Suc_eq_plus1)
  next
    case False
    with 1 show ?thesis by (subst (asm) find_fw_loop.simps) (auto split: if_splits)
  qed
qed

text \<open>
  Configuring a firmware counter with \<^verbatim>\<open>sbi_pmu_ctr_cfg_match\<close>: the counter is a free firmware
  counter of the mask, which is bound to the event; if there is none the call fails with
  \<^verbatim>\<open>SBI_ENOTSUPP\<close>. The event code is not checked: a request to clear or start an event with a
  code of 32 or more leaves the table of firmware events.
\<close>

theorem cfg_match_firmware_event:
  assumes ok: "pmu_ok h p" and fw: "get_cidx_type ev = SBI_PMU_EVENT_TYPE_FW" and noskip: "flags AND 1 = 0"
    and base: "cbase \<le> num_hw_ctrs p" and fls: "fls_word (push_bit (cbase mod 64) cmask) < total_ctrs p"
  shows "(sbi_pmu_ctr_cfg_match hw xlate h cbase cmask flags ev data (p, c) = Some (SBI_ENOTSUPP, (p, c)) \<and>
      (\<forall>k. num_hw_ctrs p < k \<and> k < total_ctrs p \<and> bit (push_bit (cbase mod 64) cmask) k \<longrightarrow>
         active_events p h ! k \<noteq> SBI_PMU_EVENT_IDX_INVALID)) \<or>
    (\<exists>k. num_hw_ctrs p < k \<and> k < total_ctrs p \<and> active_events p h ! k = SBI_PMU_EVENT_IDX_INVALID \<and>
      (if flags AND 6 \<noteq> 0 \<and> SBI_PMU_FW_EVENT_MAX \<le> get_cidx_code ev
       then sbi_pmu_ctr_cfg_match hw xlate h cbase cmask flags ev data (p, c) = None
       else \<exists>p'. sbi_pmu_ctr_cfg_match hw xlate h cbase cmask flags ev data (p, c) = Some (int k, (p', c)) \<and>
         active_events p' h = (active_events p h)[k := ucast ev]))"
proof -
  let ?w = "push_bit (cbase mod 64) cmask"
  define r where "r = find_fw_loop h ?w (num_hw_ctrs p + 1) p"
  have find: "pmu_ctr_find_fw cbase cmask h p = r" using base by (simp add: pmu_ctr_find_fw_def r_def Let_def)
  have len: "total_ctrs p \<le> length (active_events p h)" "length (fw_event_map p h) = 32"
    using ok by (auto simp: pmu_ok_def)
  from find_fw_loop_spec [OF len(1) r_def [symmetric]]
  consider (none) "r = Some SBI_ENOTSUPP" "\<forall>k. num_hw_ctrs p + 1 \<le> k \<and> k < total_ctrs p \<longrightarrow>
       \<not> (active_events p h ! k = SBI_PMU_EVENT_IDX_INVALID \<and> bit ?w k)"
    | (found) k where "r = Some (int k)" "num_hw_ctrs p + 1 \<le> k" "k < total_ctrs p" "active_events p h ! k = SBI_PMU_EVENT_IDX_INVALID"
    by blast
  then show ?thesis
  proof cases
    case none
    then have "sbi_pmu_ctr_cfg_match hw xlate h cbase cmask flags ev data (p, c) = Some (SBI_ENOTSUPP, (p, c))"
      using fls noskip by (simp add: sbi_pmu_ctr_cfg_match_def Let_def fw find)
    with none(2) show ?thesis by (metis Suc_eq_plus1 Suc_leI)
  next
    case found
    let ?p = "p\<lparr>active_events := (active_events p)(h := (active_events p h)[k := ucast ev])\<rparr>"
    have "sbi_pmu_ctr_cfg_match hw xlate h cbase cmask flags ev data (p, c) = cfg_match_apply hw h flags ev k (?p, c)"
      using fls noskip found len by (simp add: sbi_pmu_ctr_cfg_match_def Let_def fw find active_event_update_def)
    moreover have "cfg_match_apply hw h flags ev k (?p, c) = (if flags AND 6 \<noteq> 0
        then map_option (\<lambda>p. (int k, (p, c))) (fw_event_update h (get_cidx_code ev)
                   (\<lambda>e. let e = (if flags AND 2 \<noteq> 0 then e\<lparr>curr_count := 0\<rparr> else e)
                        in if flags AND 4 \<noteq> 0 then e\<lparr>bStarted := True\<rparr> else e) ?p)
        else Some (int k, (?p, c)))" by (simp add: cfg_match_apply_def fw Let_def)
    ultimately show ?thesis
      using found len(2) by (intro disjI2 exI [of _ k]) (auto simp: fw_event_update_def)
  qed
qed

theorem cfg_match_firmware_event_witness:
  "pmu_ok 0 pmu_example \<and>
   (sbi_pmu_ctr_cfg_match cva6_hw (\<lambda>_ _. 0) 0 0 0x10 6 0xF0020 0 (pmu_example, \<lambda>_. 0) = None \<and>
   (\<exists>p'. sbi_pmu_ctr_cfg_match cva6_hw (\<lambda>_ _. 0) 0 0 0x10 6 0xF0006 0 (pmu_example, \<lambda>_. 0) = Some (4, (p', \<lambda>_. 0))))"
proof -
  have t: "get_cidx_type 0xF0020 = 15" "get_cidx_type 0xF0006 = 15" "get_cidx_code 0xF0020 = 32" "get_cidx_code 0xF0006 = 6"
    "fls_word (push_bit (0 mod 64) 0x10) < total_ctrs pmu_example"
    "num_hw_ctrs pmu_example = 2" "total_ctrs pmu_example = 18" by code_simp+
  have "find_fw_loop 0 0x10 3 pmu_example = Some 4" by code_simp
  then have run: "(sbi_pmu_ctr_cfg_match cva6_hw (\<lambda>_ _. 0) 0 0 0x10 6 ev 0 (pmu_example, \<lambda>_. 0) =
     cfg_match_apply cva6_hw 0 6 ev 4
       (pmu_example\<lparr>active_events := (active_events pmu_example)(0 := (active_events pmu_example 0)[4 := ucast ev])\<rparr>, \<lambda>_. 0))"
    if "get_cidx_type ev = 15" for ev
    using t that pmu_example_ok [of 0]
    by (simp add: sbi_pmu_ctr_cfg_match_def pmu_ctr_find_fw_def Let_def active_event_update_def pmu_ok_def)
  show ?thesis
    using cfg_match_firmware_event [OF pmu_example_ok [of 0] t(1), where flags = 6 and cbase = 0 and cmask = "0x10" and hw = cva6_hw and xlate = "\<lambda>_ _. 0" and data = 0 and c = "\<lambda>_. 0"]
      cfg_match_firmware_event [OF pmu_example_ok [of 0] t(2), where flags = 6 and cbase = 0 and cmask = "0x10" and hw = cva6_hw and xlate = "\<lambda>_ _. 0" and data = 0 and c = "\<lambda>_. 0"]
      pmu_example_ok [of 0] t run [OF t(1)] run [OF t(2)]
    by (simp add: cfg_match_apply_def fw_event_update_def pmu_ok_def) 
qed

end
