(* ===== verification/Riscv_Io.thy ===== *)
theory Riscv_Io
  imports Sbi_Prelude "HOL-Library.Monad_Syntax"
begin

text \<open>
  Memory-mapped registers (\<^verbatim>\<open>include/sbi/riscv_io.h\<close> of the firmware, \<^verbatim>\<open>read_reg\<close> and \<^verbatim>\<open>write_reg\<close> of the boot ROM). The hardware behind
  the registers is a parameter, a deterministic machine on states of any type: a read gives a value and may change its state,
  a write changes its state. The accesses are recorded in a trace, the youngest first; the registers are strongly ordered, so the fences around the
  accesses of \<^verbatim>\<open>riscv_io.h\<close> leave no mark.
\<close>

section \<open>Devices and traces\<close>

text \<open>An access: its width in bytes, its address and the value read or written.\<close>

datatype io_op = Io_rd nat ulong ulong | Io_wr nat ulong ulong

record 'd io_dev =
  dev_rd :: "nat \<Rightarrow> ulong \<Rightarrow> 'd \<Rightarrow> ulong \<times> 'd"
  dev_wr :: "nat \<Rightarrow> ulong \<Rightarrow> ulong \<Rightarrow> 'd \<Rightarrow> 'd"

record 'd io =
  io_st :: 'd
  io_trace :: "io_op list"

definition io_read :: "'d io_dev \<Rightarrow> nat \<Rightarrow> ulong \<Rightarrow> 'd io \<Rightarrow> ulong \<times> 'd io" where
  "io_read dev n a s =
     (case dev_rd dev n a (io_st s) of (v, d) \<Rightarrow>
        (let v = take_bit (8 * n) v in (v, s\<lparr>io_st := d, io_trace := Io_rd n a v # io_trace s\<rparr>)))"

definition io_write :: "'d io_dev \<Rightarrow> nat \<Rightarrow> ulong \<Rightarrow> ulong \<Rightarrow> 'd io \<Rightarrow> 'd io" where
  "io_write dev n a v s =
     (let v = take_bit (8 * n) v in s\<lparr>io_st := dev_wr dev n a v (io_st s), io_trace := Io_wr n a v # io_trace s\<rparr>)"

text \<open>\<^verbatim>\<open>while (go(read(a)));\<close>: the value that ended the loop. A device that never gives one makes it \<open>None\<close>.\<close>

partial_function (option) io_poll :: "(ulong \<Rightarrow> bool) \<Rightarrow> 'd io_dev \<Rightarrow> nat \<Rightarrow> ulong \<Rightarrow> 'd io \<Rightarrow> (ulong \<times> 'd io) option" where
  "io_poll go dev n a s =
     (case io_read dev n a s of (v, s) \<Rightarrow> if go v then io_poll go dev n a s else Some (v, s))"

declare io_poll.simps [code]

section \<open>Accessors of the firmware\<close>

text \<open>The results of the narrow reads are zero extended by their C types.\<close>

definition readb :: "'d io_dev \<Rightarrow> ulong \<Rightarrow> 'd io \<Rightarrow> u8 \<times> 'd io" where
  "readb dev c s = (case io_read dev 1 c s of (v, s) \<Rightarrow> (ucast v, s))"

definition readw :: "'d io_dev \<Rightarrow> ulong \<Rightarrow> 'd io \<Rightarrow> u16 \<times> 'd io" where
  "readw dev c s = (case io_read dev 2 c s of (v, s) \<Rightarrow> (ucast v, s))"

definition readl :: "'d io_dev \<Rightarrow> ulong \<Rightarrow> 'd io \<Rightarrow> u32 \<times> 'd io" where
  "readl dev c s = (case io_read dev 4 c s of (v, s) \<Rightarrow> (ucast v, s))"

definition readq :: "'d io_dev \<Rightarrow> ulong \<Rightarrow> 'd io \<Rightarrow> ulong \<times> 'd io" where
  "readq dev c s = io_read dev 8 c s"

definition writeb :: "'d io_dev \<Rightarrow> u8 \<Rightarrow> ulong \<Rightarrow> 'd io \<Rightarrow> 'd io" where
  "writeb dev v c s = io_write dev 1 c (ucast v) s"

definition writew :: "'d io_dev \<Rightarrow> u16 \<Rightarrow> ulong \<Rightarrow> 'd io \<Rightarrow> 'd io" where
  "writew dev v c s = io_write dev 2 c (ucast v) s"

definition writel :: "'d io_dev \<Rightarrow> u32 \<Rightarrow> ulong \<Rightarrow> 'd io \<Rightarrow> 'd io" where
  "writel dev v c s = io_write dev 4 c (ucast v) s"

definition writeq :: "'d io_dev \<Rightarrow> ulong \<Rightarrow> ulong \<Rightarrow> 'd io \<Rightarrow> 'd io" where
  "writeq dev v c s = io_write dev 8 c v s"

lemmas io_accessors = readb_def readw_def readl_def readq_def writeb_def writew_def writel_def writeq_def

section \<open>What the trace shows\<close>

lemma ucast_narrow [simp]:
  "LENGTH('c) \<le> LENGTH('b) \<Longrightarrow> ucast (ucast (x :: 'a::len word) :: 'b::len word) = (ucast x :: 'c::len word)"
  by (rule bit_word_eqI) (simp add: bit_ucast_iff)

lemma take_bit_ucast_up [simp]: "LENGTH('a) \<le> n \<Longrightarrow> take_bit n (ucast (x :: 'a::len word) :: 'b::len word) = ucast x"
  by (rule bit_word_eqI) (auto simp: bit_simps dest: bit_imp_le_length)

lemma io_trace_write [simp]: "io_trace (io_write dev n a v s) = Io_wr n a (take_bit (8 * n) v) # io_trace s"
  by (simp add: io_write_def Let_def)

lemma io_st_write [simp]: "io_st (io_write dev n a v s) = dev_wr dev n a (take_bit (8 * n) v) (io_st s)"
  by (simp add: io_write_def Let_def)

lemma io_read_trace: "io_read dev n a s = (v, s') \<Longrightarrow> io_trace s' = Io_rd n a v # io_trace s"
  by (auto simp: io_read_def Let_def split: prod.splits)

lemma io_read_width: "io_read dev n a s = (v, s') \<Longrightarrow> take_bit (8 * n) v = v"
  by (auto simp: io_read_def Let_def split: prod.splits)

text \<open>A loop that polls ends with a value that stops it, after reads of the one register that did not.\<close>

lemma io_poll_trace:
  assumes "io_poll go dev n a s = Some (v, s')"
  shows "\<not> go v \<and> (\<exists>vs. (\<forall>x \<in> set vs. go x) \<and> io_trace s' = Io_rd n a v # map (Io_rd n a) vs @ io_trace s)"
proof -
  have "\<not> go (fst r) \<and> (\<exists>vs. (\<forall>x \<in> set vs. go x) \<and> io_trace (snd r) = Io_rd n a (fst r) # map (Io_rd n a) vs @ io_trace s)"
    if "io_poll go dev n a s = Some r" for r
    using that
  proof (induction rule: io_poll.raw_induct [rotated 1, consumes 1])
    case (1 f go dev n a s r)
    obtain v1 s1 where rd: "io_read dev n a s = (v1, s1)" by fastforce
    note tr = io_read_trace [OF rd]
    show ?case
    proof (cases "go v1")
      case True
      with 1(2) rd have "f go dev n a s1 = Some r" by simp
      from 1(1) [OF this] obtain vs where "\<not> go (fst r)" "\<forall>x \<in> set vs. go x"
        "io_trace (snd r) = Io_rd n a (fst r) # map (Io_rd n a) vs @ io_trace s1" by blast
      with True tr show ?thesis by (intro conjI exI [of _ "vs @ [v1]"]) auto
    next
      case False
      with 1(2) rd have "r = (v1, s1)" by simp
      with False tr show ?thesis by (auto intro: exI [of _ "[]"])
    qed
  qed
  from this [of "(v, s')"] assms show ?thesis by simp
qed

lemma io_poll_invariant:
  assumes "io_poll go dev n a s = Some (v, s')" and "\<And>s. P s \<Longrightarrow> P (snd (io_read dev n a s))" and "P s"
  shows "P s'"
proof -
  have "(\<forall>s. P s \<longrightarrow> P (snd (io_read dev n a s))) \<longrightarrow> P s \<longrightarrow> P (snd r)" if "io_poll go dev n a s = Some r" for r
    using that
  proof (induction rule: io_poll.raw_induct [rotated 1, consumes 1])
    case (1 f go dev n a s r)
    obtain v1 s1 where rd: "io_read dev n a s = (v1, s1)" by fastforce
    show ?case
    proof (cases "go v1")
      case True
      with 1(2) rd have "f go dev n a s1 = Some r" by simp
      from 1(1) [OF this] rd show ?thesis by (metis snd_conv)
    next
      case False
      with 1(2) rd have "r = (v1, s1)" by simp
      with rd show ?thesis by (metis snd_conv)
    qed
  qed
  from this [OF assms(1)] assms(2,3) show ?thesis by simp
qed

text \<open>The state after \<open>k\<close> reads of a register; a polling loop returns exactly when one of the reads stops it.\<close>

fun after_reads :: "nat \<Rightarrow> 'd io_dev \<Rightarrow> nat \<Rightarrow> ulong \<Rightarrow> 'd io \<Rightarrow> 'd io" where
  "after_reads 0 dev n a s = s"
| "after_reads (Suc k) dev n a s = after_reads k dev n a (snd (io_read dev n a s))"

lemma io_poll_returns:
  "\<not> go (fst (io_read dev n a (after_reads k dev n a s))) \<Longrightarrow> \<exists>r. io_poll go dev n a s = Some r"
proof (induction k arbitrary: s)
  case 0
  then show ?case by (subst io_poll.simps) (auto split: prod.split)
next
  case (Suc k)
  obtain v s1 where rd: "io_read dev n a s = (v, s1)" by fastforce
  with Suc.prems have "\<exists>r. io_poll go dev n a s1 = Some r" by (intro Suc.IH) simp
  with rd show ?case by (subst io_poll.simps) simp
qed

lemma io_poll_now: "io_read dev n a s = (v, s') \<Longrightarrow> \<not> go v \<Longrightarrow> io_poll go dev n a s = Some (v, s')"
  by (subst io_poll.simps) simp

end
