(* ===== verification/Plat_Types.thy ===== *)
theory Plat_Types
  imports Riscv_Io
begin

text \<open>
  The data of the platform drivers (\<^verbatim>\<open>include/sbi_utils/ipi/aclint_mswi.h\<close>, \<^verbatim>\<open>timer/aclint_mtimer.h\<close>, \<^verbatim>\<open>irqchip/plic.h\<close> and the static variables of
  \<^verbatim>\<open>lib/utils/ipi/aclint_mswi.c\<close>, \<^verbatim>\<open>lib/utils/timer/aclint_mtimer.c\<close> and \<^verbatim>\<open>lib/utils/serial/uart8250.c\<close>). A pointer to a driver's structure is the number of the
  structure in a store. The hardware behind the registers is a function of the accesses so far.
\<close>

type_synonym hw = "io_op list"

text \<open>A device whose answers are a function of the accesses so far, the youngest first.\<close>

definition trace_dev :: "(hw \<Rightarrow> nat \<Rightarrow> ulong \<Rightarrow> ulong) \<Rightarrow> hw io_dev" where
  "trace_dev f = \<lparr>dev_rd = (\<lambda>n a t. let v = take_bit (8 * n) (f t n a) in (v, Io_rd n a v # t)), dev_wr = (\<lambda>n a v t. Io_wr n a v # t)\<rparr>"

record aclint_mswi_data =
  mswi_addr :: ulong
  mswi_size :: ulong
  mswi_first_hartid :: u32
  mswi_hart_count :: u32

text \<open>The pairs of accessors that \<^verbatim>\<open>time_rd\<close> and \<^verbatim>\<open>time_wr\<close> can point to.\<close>

datatype mtimer_access = Mtimer_32 | Mtimer_64

record aclint_mtimer_data =
  mtime_freq :: ulong
  mtime_addr :: ulong
  mtime_size :: ulong
  mtimecmp_addr :: ulong
  mtimecmp_size :: ulong
  mt_first_hartid :: u32
  mt_hart_count :: u32
  has_64bit_mmio :: bool
  has_shared_mtime :: bool
  time_delta_reference :: "nat option"
  time_delta_computed :: ulong
  time_access :: "mtimer_access option"

record plic_data =
  plic_addr :: ulong
  plic_num_src :: ulong

record platform_uart_data =
  uart_addr :: ulong
  uart_freq :: ulong
  uart_baud :: ulong
  uart_reg_shift :: ulong
  uart_reg_io_width :: ulong

record uart8250_sys =
  uart8250_base :: ulong
  uart8250_in_freq :: u32
  uart8250_baudrate :: u32
  uart8250_reg_width :: u32
  uart8250_reg_shift :: u32

record drv_sys =
  drv_io :: "hw io"
  mswi_obj :: "nat \<Rightarrow> aclint_mswi_data"
  mswi_hartid2data :: "nat option list"
  mtimer_obj :: "nat \<Rightarrow> aclint_mtimer_data"
  mtimer_hartid2data :: "nat option list"
  drv_plic :: plic_data
  drv_uart :: platform_uart_data
  drv_uart8250 :: uart8250_sys

definition drv_boot :: drv_sys where
  "drv_boot = \<lparr>drv_io = \<lparr>io_st = [], io_trace = []\<rparr>,
     mswi_obj = (\<lambda>_. \<lparr>mswi_addr = 0, mswi_size = 0, mswi_first_hartid = 0, mswi_hart_count = 0\<rparr>), mswi_hartid2data = replicate 128 None,
     mtimer_obj = (\<lambda>_. \<lparr>mtime_freq = 0, mtime_addr = 0, mtime_size = 0, mtimecmp_addr = 0, mtimecmp_size = 0, mt_first_hartid = 0,
       mt_hart_count = 0, has_64bit_mmio = False, has_shared_mtime = False, time_delta_reference = None, time_delta_computed = 0,
       time_access = None\<rparr>),
     mtimer_hartid2data = replicate 128 None, drv_plic = \<lparr>plic_addr = 0, plic_num_src = 0\<rparr>,
     drv_uart = \<lparr>uart_addr = 0, uart_freq = 0, uart_baud = 0, uart_reg_shift = 0, uart_reg_io_width = 0\<rparr>,
     drv_uart8250 = \<lparr>uart8250_base = 0, uart8250_in_freq = 0, uart8250_baudrate = 0, uart8250_reg_width = 0, uart8250_reg_shift = 0\<rparr>\<rparr>"

end
