(* ===== verification/Sbi_Machine.thy ===== *)
theory Sbi_Machine
  imports Sbi_Pmu Sbi_Fifo Sbi_Scratch Plat_Types
begin

text \<open>
  The state of the running firmware that the runtime services share: for every hart its CSRs,
  floating-point registers and the data the components keep in its scratch space, the tables of
  the domain and PMU components, the registered devices and the memory of the supervisor. The
  space in a scratch page that \<^verbatim>\<open>sbi_scratch_alloc_offset\<close> reserves for a component is a field of
  its own; the reservations are disjoint (\<open>Sbi_Scratch\<close>). Commands to devices and fence instructions
  are appended to \<open>m_log\<close>, the youngest last.

  \<open>sbi_plat\<close> holds what does not change: the hart (its CSR file), the platform callbacks and the
  memory protection and translation that unprivileged accesses meet: \<open>p_ufault\<close> gives the trap that an
  access of so many bytes to an address takes, if any; \<open>p_insn_reg\<close> is what the result register of an
  instruction fetch holds when the fetch traps. \<open>p_dev\<close> is the hardware behind the registers of the devices.
\<close>

section \<open>Types\<close>

record sbi_trap_info =
  ti_epc :: ulong
  ti_cause :: ulong
  ti_tval :: ulong
  ti_tval2 :: ulong
  ti_tinst :: ulong

datatype uaccess = ULoad | UStore | UExec

text \<open>
  The fence instructions of the TLB component with their operands: \<^verbatim>\<open>sfence.vma\<close> and \<^verbatim>\<open>fence.i\<close>, and the
  hypervisor fences, whose address operand is shifted as the callers shift it. The \<^verbatim>\<open>VVMA\<close> fences act on
  the guest that the CSR \<^verbatim>\<open>hgatp\<close> names, which is recorded with them.
\<close>

datatype fence =
    Fence_i
  | Sfence_vma_all
  | Sfence_vma_va ulong
  | Sfence_vma_asid ulong
  | Sfence_vma_va_asid ulong ulong
  | Hfence_gvma_all
  | Hfence_gvma_gpa ulong
  | Hfence_gvma_vmid ulong
  | Hfence_gvma_vmid_gpa ulong ulong
  | Hfence_vvma_all ulong
  | Hfence_vvma_va ulong ulong
  | Hfence_vvma_asid ulong ulong
  | Hfence_vvma_asid_va ulong ulong ulong

datatype dev_event =
    Ev_ipi_send hartid
  | Ev_ipi_clear hartid
  | Ev_timer_start hartid ulong
  | Ev_timer_stop hartid
  | Ev_hart_start hartid ulong
  | Ev_hart_stop hartid
  | Ev_hart_suspend hartid ulong
  | Ev_wfi hartid
  | Ev_putc u8
  | Ev_system_reset u32 u32
  | Ev_fence hartid fence

record sbi_timer_device =
  timer_freq :: ulong
  has_timer_value :: bool
  has_event_start :: bool
  has_event_stop :: bool

record sbi_ipi_device =
  has_ipi_send :: bool
  has_ipi_clear :: bool

text \<open>
  The callbacks of the hart state device; \<open>None\<close> is a null pointer. A stop or suspend callback may not
  return (\<open>None\<close> in its result): the hart is off, or resumes later at the given address.
\<close>

record sbi_hsm_device =
  dev_hart_start :: "(hartid \<Rightarrow> ulong \<Rightarrow> int) option"
  dev_hart_stop :: "int option option"
  dev_hart_suspend :: "(ulong \<Rightarrow> ulong \<Rightarrow> int option) option"

text \<open>Where \<^verbatim>\<open>get_time_val\<close> points: the \<^verbatim>\<open>rdtime\<close> instruction or the timer device.\<close>

datatype time_source = Get_ticks | Get_platform_ticks

record sbi_hsm_data =
  hsm_state :: ulong
  suspend_type :: ulong
  saved_mie :: ulong
  saved_mip :: ulong

text \<open>
  Function pointers are constructors of a datatype: one for every function of the firmware whose
  address is stored in a field of that type.
\<close>

datatype tlb_local_fn =
    Local_fence_i
  | Local_sfence_vma
  | Local_sfence_vma_asid
  | Local_hfence_gvma
  | Local_hfence_gvma_vmid
  | Local_hfence_vvma
  | Local_hfence_vvma_asid

record sbi_tlb_info =
  tlb_start :: ulong
  tlb_size :: ulong
  tlb_asid :: ulong
  tlb_vmid :: ulong
  local_fn :: "tlb_local_fn option"
  smask :: sbi_hartmask

datatype ipi_update = Tlb_update
datatype ipi_sync = Tlb_sync
datatype ipi_process = Ipi_process_smode | Ipi_process_halt | Tlb_process

record sbi_ipi_event_ops =
  ops_update :: "ipi_update option"
  ops_sync :: "ipi_sync option"
  ops_process :: "ipi_process option"

record ipi_sys =
  ipi_data_off :: ulong
  ipi_ops_array :: "sbi_ipi_event_ops option list"
  ipi_smode_event :: nat
  ipi_halt_event :: nat

record tlb_sys =
  tlb_sync_off :: ulong
  tlb_fifo_off :: ulong
  tlb_fifo_mem_off :: ulong
  tlb_range_flush_limit :: ulong
  tlb_event :: nat
  tlb_sync_cell :: "hartid \<Rightarrow> ulong"
  tlb_fifo :: "hartid \<Rightarrow> sbi_fifo"

text \<open>
  Reset devices: the answer of the check callback (\<open>None\<close> is a null pointer) and whether the reset
  callback takes effect, in which case it does not return.
\<close>

record sbi_system_reset_device =
  system_reset_check :: "(u32 \<Rightarrow> u32 \<Rightarrow> int) option"
  system_reset_works :: "u32 \<Rightarrow> u32 \<Rightarrow> bool"

datatype ecall_handle =
    Ecall_time_handler | Ecall_rfence_handler | Ecall_ipi_handler | Ecall_base_handler | Ecall_hsm_handler
  | Ecall_srst_handler | Ecall_pmu_handler | Ecall_legacy_handler | Ecall_vendor_handler

datatype ecall_probe = Ecall_srst_probe | Ecall_pmu_probe | Ecall_vendor_probe

text \<open>\<open>ext_ptr\<close> is the address of the structure, by which \<^verbatim>\<open>sbi_ecall_unregister_extension\<close> finds it.\<close>

record sbi_ecall_extension =
  ext_ptr :: nat
  extid_start :: ulong
  extid_end :: ulong
  ext_probe :: "ecall_probe option"
  ext_handle :: "ecall_handle option"

record ecall_sys =
  ecall_impid :: ulong
  ecall_exts_list :: "sbi_ecall_extension list"

record init_sys =
  init_count_offset :: ulong
  time_delta_off :: ulong
  coldboot_lock :: spinlock
  coldboot_wait_hmask :: sbi_hartmask
  coldboot_done :: ulong
  coldboot_lottery :: ulong

text \<open>The console device: whether it has the two callbacks, and what its input will deliver.\<close>

record console_sys =
  con_putc :: bool
  con_getc :: bool
  con_input :: "int list"

record machine =
  h_csr :: "hartid \<Rightarrow> csrs"
  h_freg :: "hartid \<Rightarrow> nat \<Rightarrow> ulong"
  h_feat :: "hartid \<Rightarrow> hart_features"
  m_pmu :: pmu_sys
  m_dom :: domain_sys
  has_scratch :: "hartid \<Rightarrow> bool"
  scr_options :: "hartid \<Rightarrow> ulong"
  last_hartid :: nat
  next_arg1 :: "hartid \<Rightarrow> ulong"
  next_addr :: "hartid \<Rightarrow> ulong"
  next_mode :: "hartid \<Rightarrow> ulong"
  hsm_data :: "hartid \<Rightarrow> sbi_hsm_data"
  init_count :: "hartid \<Rightarrow> ulong"
  time_delta :: "hartid \<Rightarrow> ulong"
  ipi_type :: "hartid \<Rightarrow> ulong"
  m_time :: ulong
  timer_dev :: "sbi_timer_device option"
  get_time_val :: "time_source option"
  ipi_dev :: "sbi_ipi_device option"
  hsm_dev :: "sbi_hsm_device option"
  u_mem :: "ulong \<Rightarrow> u8"
  m_scr :: scratch_sys
  m_ipi :: ipi_sys
  m_tlb :: tlb_sys
  m_ecall :: ecall_sys
  m_init :: init_sys
  m_con :: "console_sys option"
  reset_devices_list :: "sbi_system_reset_device list"
  m_drv :: drv_sys
  m_log :: "dev_event list"

text \<open>
  How a call ends: it returns, or the hart hangs, jumps to the warm boot entry, is switched off, leaves
  machine mode for the next stage, or resets the system. \<open>Spin\<close> is a loop that does not end, or has not
  ended within the fuel the model gives it; \<open>Fault\<close> is an access outside an object or another undefined
  behaviour.
\<close>

datatype 'a run =
    Ret 'a machine | Hung machine | Warmboot machine | Powered_off machine | Next_stage machine
  | System_reset machine | Spin machine | Fault

fun run_bind :: "'a run \<Rightarrow> ('a \<Rightarrow> machine \<Rightarrow> 'b run) \<Rightarrow> 'b run" where
  "run_bind (Ret x m) f = f x m"
| "run_bind (Hung m) f = Hung m"
| "run_bind (Warmboot m) f = Warmboot m"
| "run_bind (Powered_off m) f = Powered_off m"
| "run_bind (Next_stage m) f = Next_stage m"
| "run_bind (System_reset m) f = System_reset m"
| "run_bind (Spin m) f = Spin m"
| "run_bind Fault f = Fault"

fun run_fold :: "('b \<Rightarrow> 'a \<Rightarrow> machine \<Rightarrow> 'a run) \<Rightarrow> 'b list \<Rightarrow> 'a \<Rightarrow> machine \<Rightarrow> 'a run" where
  "run_fold f [] a m = Ret a m"
| "run_fold f (x # xs) a m = run_bind (f x a m) (run_fold f xs)"

definition run_opt :: "('a \<times> machine) option \<Rightarrow> 'a run" where
  "run_opt r = (case r of None \<Rightarrow> Fault | Some (x, m) \<Rightarrow> Ret x m)"

lemma run_opt_simps [simp]: "run_opt None = Fault" "run_opt (Some (x, m)) = Ret x m"
  by (simp_all add: run_opt_def)

lemma run_bind_assoc: "run_bind (run_bind r f) g = run_bind r (\<lambda>x m. run_bind (f x m) g)"
  by (cases r) simp_all

lemma run_bind_Ret [simp]: "run_bind r Ret = r"
  by (cases r) simp_all

lemma run_fold_append: "run_fold f (xs @ ys) a m = run_bind (run_fold f xs a m) (run_fold f ys)"
proof (induction xs arbitrary: a m)
  case (Cons x xs)
  then have "run_fold f (xs @ ys) = (\<lambda>a m. run_bind (run_fold f xs a m) (run_fold f ys))" by (intro ext)
  then show ?case by (simp add: run_bind_assoc)
qed simp

lemma run_bind_eq_Ret: "run_bind r f = Ret y m' \<longleftrightarrow> (\<exists>x m. r = Ret x m \<and> f x m = Ret y m')"
  by (cases r) simp_all

record sbi_plat =
  p_hw :: riscv_hw
  p_ext :: "char \<Rightarrow> int"
  p_hart_invalid :: "hartid \<Rightarrow> bool"
  p_warmboot_addr :: ulong
  p_ufault :: "uaccess \<Rightarrow> nat \<Rightarrow> ulong \<Rightarrow> sbi_trap_info option"
  p_insn_reg :: ulong
  p_dev :: "hw io_dev"

section \<open>Interrupt bits and CSR updates\<close>

abbreviation (input) SBI_IPI_EVENT_MAX :: nat where "SBI_IPI_EVENT_MAX \<equiv> 64"
abbreviation (input) MIP_SSIP :: ulong where "MIP_SSIP \<equiv> 0x2"
abbreviation (input) MIP_MSIP :: ulong where "MIP_MSIP \<equiv> 0x8"
abbreviation (input) MIP_STIP :: ulong where "MIP_STIP \<equiv> 0x20"
abbreviation (input) MIP_MTIP :: ulong where "MIP_MTIP \<equiv> 0x80"
abbreviation (input) CSR_MIP :: nat where "CSR_MIP \<equiv> 0x344"

definition csr_set :: "riscv_hw \<Rightarrow> nat \<Rightarrow> ulong \<Rightarrow> csrs \<Rightarrow> csrs" where
  "csr_set hw n v c = csr_write hw n (c n OR v) c"

definition csr_clear :: "riscv_hw \<Rightarrow> nat \<Rightarrow> ulong \<Rightarrow> csrs \<Rightarrow> csrs" where
  "csr_clear hw n v c = csr_write hw n (c n AND NOT v) c"

text \<open>Updates of the part of the state that belongs to one hart.\<close>

definition upd_csr :: "hartid \<Rightarrow> (csrs \<Rightarrow> csrs) \<Rightarrow> machine \<Rightarrow> machine" where
  "upd_csr h f m = m\<lparr>h_csr := (h_csr m)(h := f (h_csr m h))\<rparr>"

definition upd_hsm :: "hartid \<Rightarrow> (sbi_hsm_data \<Rightarrow> sbi_hsm_data) \<Rightarrow> machine \<Rightarrow> machine" where
  "upd_hsm h f m = m\<lparr>hsm_data := (hsm_data m)(h := f (hsm_data m h))\<rparr>"

definition log_ev :: "dev_event \<Rightarrow> machine \<Rightarrow> machine" where
  "log_ev e m = m\<lparr>m_log := m_log m @ [e]\<rparr>"

lemma upd_csr_simps [simp]:
  "h_csr (upd_csr h f m) = (h_csr m)(h := f (h_csr m h))"
  "h_freg (upd_csr h f m) = h_freg m" "h_feat (upd_csr h f m) = h_feat m" "m_pmu (upd_csr h f m) = m_pmu m"
  "m_dom (upd_csr h f m) = m_dom m" "has_scratch (upd_csr h f m) = has_scratch m" "last_hartid (upd_csr h f m) = last_hartid m"
  "next_arg1 (upd_csr h f m) = next_arg1 m" "next_addr (upd_csr h f m) = next_addr m" "next_mode (upd_csr h f m) = next_mode m"
  "hsm_data (upd_csr h f m) = hsm_data m" "init_count (upd_csr h f m) = init_count m" "time_delta (upd_csr h f m) = time_delta m"
  "ipi_type (upd_csr h f m) = ipi_type m" "m_time (upd_csr h f m) = m_time m" "timer_dev (upd_csr h f m) = timer_dev m"
  "get_time_val (upd_csr h f m) = get_time_val m" "ipi_dev (upd_csr h f m) = ipi_dev m" "hsm_dev (upd_csr h f m) = hsm_dev m"
  "u_mem (upd_csr h f m) = u_mem m" "m_log (upd_csr h f m) = m_log m"
  "m_scr (upd_csr h f m) = m_scr m" "m_ipi (upd_csr h f m) = m_ipi m" "m_tlb (upd_csr h f m) = m_tlb m" "m_ecall (upd_csr h f m) = m_ecall m"
  "m_init (upd_csr h f m) = m_init m" "m_con (upd_csr h f m) = m_con m" "reset_devices_list (upd_csr h f m) = reset_devices_list m" "m_drv (upd_csr h f m) = m_drv m"
  by (simp_all add: upd_csr_def)

lemma upd_hsm_simps [simp]:
  "hsm_data (upd_hsm h f m) = (hsm_data m)(h := f (hsm_data m h))"
  "h_csr (upd_hsm h f m) = h_csr m" "next_arg1 (upd_hsm h f m) = next_arg1 m" "next_addr (upd_hsm h f m) = next_addr m"
  "next_mode (upd_hsm h f m) = next_mode m" "m_log (upd_hsm h f m) = m_log m" "has_scratch (upd_hsm h f m) = has_scratch m"
  "last_hartid (upd_hsm h f m) = last_hartid m" "m_dom (upd_hsm h f m) = m_dom m" "hsm_dev (upd_hsm h f m) = hsm_dev m"
  "ipi_dev (upd_hsm h f m) = ipi_dev m" "init_count (upd_hsm h f m) = init_count m"
  "h_freg (upd_hsm h f m) = h_freg m" "h_feat (upd_hsm h f m) = h_feat m" "m_pmu (upd_hsm h f m) = m_pmu m" "u_mem (upd_hsm h f m) = u_mem m"
  "time_delta (upd_hsm h f m) = time_delta m" "ipi_type (upd_hsm h f m) = ipi_type m" "m_time (upd_hsm h f m) = m_time m"
  "timer_dev (upd_hsm h f m) = timer_dev m" "get_time_val (upd_hsm h f m) = get_time_val m"
  "m_scr (upd_hsm h f m) = m_scr m" "m_ipi (upd_hsm h f m) = m_ipi m" "m_tlb (upd_hsm h f m) = m_tlb m" "m_ecall (upd_hsm h f m) = m_ecall m"
  "m_init (upd_hsm h f m) = m_init m" "m_con (upd_hsm h f m) = m_con m" "reset_devices_list (upd_hsm h f m) = reset_devices_list m" "m_drv (upd_hsm h f m) = m_drv m"
  by (simp_all add: upd_hsm_def)

lemma log_ev_simps [simp]:
  "m_log (log_ev e m) = m_log m @ [e]" "h_csr (log_ev e m) = h_csr m" "hsm_data (log_ev e m) = hsm_data m"
  "next_arg1 (log_ev e m) = next_arg1 m" "next_addr (log_ev e m) = next_addr m" "next_mode (log_ev e m) = next_mode m"
  "time_delta (log_ev e m) = time_delta m" "m_pmu (log_ev e m) = m_pmu m" "m_dom (log_ev e m) = m_dom m"
  "ipi_type (log_ev e m) = ipi_type m" "has_scratch (log_ev e m) = has_scratch m" "last_hartid (log_ev e m) = last_hartid m"
  "h_feat (log_ev e m) = h_feat m" "u_mem (log_ev e m) = u_mem m" "h_freg (log_ev e m) = h_freg m"
  "init_count (log_ev e m) = init_count m" "m_time (log_ev e m) = m_time m" "timer_dev (log_ev e m) = timer_dev m"
  "get_time_val (log_ev e m) = get_time_val m" "ipi_dev (log_ev e m) = ipi_dev m" "hsm_dev (log_ev e m) = hsm_dev m"
  "m_scr (log_ev e m) = m_scr m" "m_ipi (log_ev e m) = m_ipi m" "m_tlb (log_ev e m) = m_tlb m" "m_ecall (log_ev e m) = m_ecall m"
  "m_init (log_ev e m) = m_init m" "m_con (log_ev e m) = m_con m" "reset_devices_list (log_ev e m) = reset_devices_list m" "m_drv (log_ev e m) = m_drv m"
  by (simp_all add: log_ev_def)

text \<open>
  Firmware counters are incremented with fixed event numbers below 22 and every hart's table has 32
  entries, so the increment does not fail.
\<close>

definition incr_fw :: "hartid \<Rightarrow> nat \<Rightarrow> machine \<Rightarrow> machine" where
  "incr_fw h fw_id m = (case sbi_pmu_ctr_incr_fw h fw_id (m_pmu m) of Some (_, p) \<Rightarrow> m\<lparr>m_pmu := p\<rparr> | None \<Rightarrow> m)"

lemma incr_fw_simps [simp]:
  "h_csr (incr_fw h i m) = h_csr m" "h_freg (incr_fw h i m) = h_freg m" "h_feat (incr_fw h i m) = h_feat m"
  "m_dom (incr_fw h i m) = m_dom m" "has_scratch (incr_fw h i m) = has_scratch m" "last_hartid (incr_fw h i m) = last_hartid m"
  "next_arg1 (incr_fw h i m) = next_arg1 m" "next_addr (incr_fw h i m) = next_addr m" "next_mode (incr_fw h i m) = next_mode m"
  "hsm_data (incr_fw h i m) = hsm_data m" "init_count (incr_fw h i m) = init_count m" "time_delta (incr_fw h i m) = time_delta m"
  "ipi_type (incr_fw h i m) = ipi_type m" "m_time (incr_fw h i m) = m_time m" "timer_dev (incr_fw h i m) = timer_dev m"
  "get_time_val (incr_fw h i m) = get_time_val m" "ipi_dev (incr_fw h i m) = ipi_dev m" "hsm_dev (incr_fw h i m) = hsm_dev m"
  "u_mem (incr_fw h i m) = u_mem m" "m_log (incr_fw h i m) = m_log m"
  "m_scr (incr_fw h i m) = m_scr m" "m_ipi (incr_fw h i m) = m_ipi m" "m_tlb (incr_fw h i m) = m_tlb m" "m_ecall (incr_fw h i m) = m_ecall m"
  "m_init (incr_fw h i m) = m_init m" "m_con (incr_fw h i m) = m_con m" "reset_devices_list (incr_fw h i m) = reset_devices_list m" "m_drv (incr_fw h i m) = m_drv m"
  by (simp_all add: incr_fw_def split: option.splits prod.splits)

section \<open>Atomic operations\<close>

text \<open>
  \<^verbatim>\<open>lib/sbi/riscv_atomic.c\<close>: each of these is one atomic memory operation (an AMO, or an LR/SC loop
  whose effect is the successful iteration). They map the old value of the cell to the result and
  the new value.
\<close>

definition atomic_read :: "ulong \<Rightarrow> ulong" where
  "atomic_read v = v"

definition atomic_write :: "ulong \<Rightarrow> ulong \<Rightarrow> ulong" where
  "atomic_write value v = value"

definition atomic_add_return :: "ulong \<Rightarrow> ulong \<Rightarrow> ulong \<times> ulong" where
  "atomic_add_return value v = (let ret = v in (ret + value, v + value))"

definition atomic_sub_return :: "ulong \<Rightarrow> ulong \<Rightarrow> ulong \<times> ulong" where
  "atomic_sub_return value v = atomic_add_return (- value) v"

definition atomic_cmpxchg :: "ulong \<Rightarrow> ulong \<Rightarrow> ulong \<Rightarrow> ulong \<times> ulong" where
  "atomic_cmpxchg oldval newval v = (v, if v = oldval then newval else v)"

definition atomic_xchg :: "ulong \<Rightarrow> ulong \<Rightarrow> ulong \<times> ulong" where
  "atomic_xchg newval v = (v, newval)"

definition atomic_raw_xchg_uint :: "u32 \<Rightarrow> u32 \<Rightarrow> u32 \<times> u32" where
  "atomic_raw_xchg_uint newval v = (v, newval)"

definition atomic_raw_xchg_ulong :: "ulong \<Rightarrow> ulong \<Rightarrow> ulong \<times> ulong" where
  "atomic_raw_xchg_ulong newval v = (v, newval)"

text \<open>The result is converted to \<^verbatim>\<open>int\<close>: the low 32 bits of the old word.\<close>

definition atomic_raw_set_bit :: "nat \<Rightarrow> ulong list \<Rightarrow> (int \<times> ulong list) option" where
  "atomic_raw_set_bit nr addr =
     (let i = nr div BITS_PER_LONG
      in if i < length addr
         then Some (sint (ucast (addr ! i) :: u32), addr[i := addr ! i OR push_bit (nr mod BITS_PER_LONG) 1]) else None)"

definition atomic_raw_clear_bit :: "nat \<Rightarrow> ulong list \<Rightarrow> (int \<times> ulong list) option" where
  "atomic_raw_clear_bit nr addr =
     (let i = nr div BITS_PER_LONG
      in if i < length addr
         then Some (sint (ucast (addr ! i) :: u32), addr[i := addr ! i AND NOT (push_bit (nr mod BITS_PER_LONG) 1)]) else None)"

definition atomic_set_bit :: "nat \<Rightarrow> ulong \<Rightarrow> (int \<times> ulong) option" where
  "atomic_set_bit nr v = map_option (\<lambda>(r, a). (r, a ! 0)) (atomic_raw_set_bit nr [v])"

definition atomic_clear_bit :: "nat \<Rightarrow> ulong \<Rightarrow> (int \<times> ulong) option" where
  "atomic_clear_bit nr v = map_option (\<lambda>(r, a). (r, a ! 0)) (atomic_raw_clear_bit nr [v])"

section \<open>The state before initialisation\<close>

text \<open>The initialised globals of the components, on harts 0 and 1 of the SoC.\<close>

definition machine_boot :: machine where
  "machine_boot = \<lparr>h_csr = (\<lambda>_ _. 0), h_freg = (\<lambda>_ _. 0),
     h_feat = (\<lambda>_. \<lparr>hf_features = 0, pmp_count = 0, pmp_addr_bits = 0, pmp_gran = 0, mhpm_count = 0, mhpm_bits = 0\<rparr>),
     m_pmu = pmu_boot, m_dom = domain_boot, has_scratch = (\<lambda>h. h < 2), scr_options = (\<lambda>_. 0), last_hartid = 1,
     next_arg1 = (\<lambda>_. 0), next_addr = (\<lambda>_. 0), next_mode = (\<lambda>_. 0),
     hsm_data = (\<lambda>_. \<lparr>hsm_state = 0, suspend_type = 0, saved_mie = 0, saved_mip = 0\<rparr>), init_count = (\<lambda>_. 0),
     time_delta = (\<lambda>_. 0), ipi_type = (\<lambda>_. 0), m_time = 0, timer_dev = None, get_time_val = None, ipi_dev = None,
     hsm_dev = None, u_mem = (\<lambda>_. 0), m_scr = scratch_boot,
     m_ipi = \<lparr>ipi_data_off = 0, ipi_ops_array = replicate SBI_IPI_EVENT_MAX None, ipi_smode_event = SBI_IPI_EVENT_MAX,
       ipi_halt_event = SBI_IPI_EVENT_MAX\<rparr>,
     m_tlb = \<lparr>tlb_sync_off = 0, tlb_fifo_off = 0, tlb_fifo_mem_off = 0, tlb_range_flush_limit = 0, tlb_event = SBI_IPI_EVENT_MAX,
       tlb_sync_cell = (\<lambda>_. 0), tlb_fifo = (\<lambda>_. \<lparr>fifo_queue = [], qlock = SPIN_LOCK_UNLOCKED, entry_size = 0, num_entries = 0,
         avail = 0, tail = 0\<rparr>)\<rparr>,
     m_ecall = \<lparr>ecall_impid = 1, ecall_exts_list = []\<rparr>,
     m_init = \<lparr>init_count_offset = 0, time_delta_off = 0, coldboot_lock = SPIN_LOCK_UNLOCKED, coldboot_wait_hmask = hartmask_zero, coldboot_done = 0,
       coldboot_lottery = 0\<rparr>,
     m_con = None, reset_devices_list = [], m_drv = drv_boot, m_log = []\<rparr>"

text \<open>A platform on which no unprivileged access traps.\<close>

definition plat_example :: sbi_plat where
  "plat_example = \<lparr>p_hw = cva6_hw, p_ext = (\<lambda>e. if e = CHR ''S'' \<or> e = CHR ''U'' then 1 else 0),
     p_hart_invalid = (\<lambda>h. 2 \<le> h), p_warmboot_addr = 0x80000000, p_ufault = (\<lambda>_ _ _. None), p_insn_reg = 0,
     p_dev = trace_dev (\<lambda>_ _ _. 0)\<rparr>"

end
