(* ===== verification/Sbi_Timer.thy ===== *)
theory Sbi_Timer
  imports Sbi_Machine
begin

text \<open>
  The timer service, \<^verbatim>\<open>lib/sbi/sbi_timer.c\<close>, for the current hart \<open>h\<close>. \<open>m_time\<close> is the time counter of
  the SoC, which both \<^verbatim>\<open>rdtime\<close> and the timer device read. In the delay loop time passes between
  the reads: it takes the sequence of the values read as a parameter.
\<close>

section \<open>Operations\<close>

definition get_ticks :: "machine \<Rightarrow> ulong" where
  "get_ticks m = m_time m"

definition get_platform_ticks :: "machine \<Rightarrow> ulong" where
  "get_platform_ticks m = m_time m"

definition sbi_timer_value :: "machine \<Rightarrow> ulong" where
  "sbi_timer_value m =
     (case get_time_val m of
        Some Get_ticks \<Rightarrow> get_ticks m | Some Get_platform_ticks \<Rightarrow> get_platform_ticks m | None \<Rightarrow> 0)"

definition sbi_timer_virt_value :: "hartid \<Rightarrow> machine \<Rightarrow> ulong" where
  "sbi_timer_virt_value h m = sbi_timer_value m + time_delta m h"

definition sbi_timer_get_delta :: "hartid \<Rightarrow> machine \<Rightarrow> ulong" where
  "sbi_timer_get_delta h m = time_delta m h"

definition sbi_timer_set_delta :: "hartid \<Rightarrow> ulong \<Rightarrow> machine \<Rightarrow> machine" where
  "sbi_timer_set_delta h delta m = m\<lparr>time_delta := (time_delta m)(h := delta)\<rparr>"

definition sbi_timer_set_delta_upper :: "hartid \<Rightarrow> ulong \<Rightarrow> machine \<Rightarrow> machine" where
  "sbi_timer_set_delta_upper h delta_upper m =
     m\<lparr>time_delta := (time_delta m)(h := (time_delta m h AND 0xffffffff) OR push_bit 32 delta_upper)\<rparr>"

definition sbi_timer_event_start :: "sbi_plat \<Rightarrow> hartid \<Rightarrow> ulong \<Rightarrow> machine \<Rightarrow> machine" where
  "sbi_timer_event_start pl h next_event m =
     (let m = incr_fw h 5 m;
          m = (case timer_dev m of
                 Some d \<Rightarrow> if has_event_start d then log_ev (Ev_timer_start h next_event) m else m
               | None \<Rightarrow> m);
          m = upd_csr h (csr_clear (p_hw pl) CSR_MIP MIP_STIP) m
      in upd_csr h (csr_set (p_hw pl) CSR_MIE MIP_MTIP) m)"

definition sbi_timer_process :: "sbi_plat \<Rightarrow> hartid \<Rightarrow> machine \<Rightarrow> machine" where
  "sbi_timer_process pl h m =
     (let m = upd_csr h (csr_clear (p_hw pl) CSR_MIE MIP_MTIP) m
      in upd_csr h (csr_set (p_hw pl) CSR_MIP MIP_STIP) m)"

definition sbi_timer_set_device :: "sbi_timer_device option \<Rightarrow> machine \<Rightarrow> machine" where
  "sbi_timer_set_device dev m =
     (case (dev, timer_dev m) of
        (Some d, None) \<Rightarrow>
          (let m = m\<lparr>timer_dev := Some d\<rparr>
           in if get_time_val m = None \<and> has_timer_value d then m\<lparr>get_time_val := Some Get_platform_ticks\<rparr> else m)
      | _ \<Rightarrow> m)"

text \<open>
  \<open>off\<close> is the offset that \<^verbatim>\<open>sbi_scratch_alloc_offset\<close> returned for the delta in the cold boot, zero if
  there was no space; \<open>plat_timer_init\<close> is the platform callback.
\<close>

definition sbi_timer_init ::
  "(bool \<Rightarrow> machine \<Rightarrow> int \<times> machine) \<Rightarrow> ulong \<Rightarrow> hartid \<Rightarrow> bool \<Rightarrow> machine \<Rightarrow> int \<times> machine" where
  "sbi_timer_init plat_timer_init off h cold_boot m =
     (if off = 0 then (SBI_ENOMEM, m)
      else let m = (if cold_boot \<and> sbi_hart_has_feature (h_feat m h) SBI_HART_HAS_TIME
                    then m\<lparr>get_time_val := Some Get_ticks\<rparr> else m);
               m = m\<lparr>time_delta := (time_delta m)(h := 0)\<rparr>
           in plat_timer_init cold_boot m)"

definition sbi_timer_exit :: "sbi_plat \<Rightarrow> (machine \<Rightarrow> machine) \<Rightarrow> hartid \<Rightarrow> machine \<Rightarrow> machine" where
  "sbi_timer_exit pl plat_timer_exit h m =
     (let m = (case timer_dev m of
                 Some d \<Rightarrow> if has_event_stop d then log_ev (Ev_timer_stop h) m else m
               | None \<Rightarrow> m);
          m = upd_csr h (csr_clear (p_hw pl) CSR_MIP MIP_STIP) m;
          m = upd_csr h (csr_clear (p_hw pl) CSR_MIE MIP_MTIP) m
      in plat_timer_exit m)"

text \<open>
  The delay loop. \<open>clock n\<close> is the value of read number \<open>n\<close>, read 0 being the start value; the result
  is the number of the read that ended the loop. A division by zero is \<open>None\<close>, too.
\<close>

fun delay_loop :: "nat \<Rightarrow> (nat \<Rightarrow> ulong) \<Rightarrow> ulong \<Rightarrow> ulong \<Rightarrow> nat \<Rightarrow> nat option" where
  "delay_loop 0 clock start_val delta n = None"
| "delay_loop (Suc fuel) clock start_val delta n =
     (if clock n - start_val < delta then delay_loop fuel clock start_val delta (n + 1) else Some n)"

definition sbi_timer_delay_loop :: "nat \<Rightarrow> (nat \<Rightarrow> ulong) \<Rightarrow> ulong \<Rightarrow> ulong \<Rightarrow> machine \<Rightarrow> nat option" where
  "sbi_timer_delay_loop fuel clock units unit_freq m =
     (case timer_dev m of
        None \<Rightarrow> Some 0
      | Some d \<Rightarrow>
          (if get_time_val m = None then Some 0
           else if unit_freq = 0 then None
           else delay_loop fuel clock (clock 0) (timer_freq d * units div unit_freq) 1))"

section \<open>The delay loop waits long enough and returns\<close>

lemma delay_loop_hit:
  assumes "\<forall>k. n \<le> k \<and> k < j \<longrightarrow> clock k - s < delta" and "\<not> clock j - s < delta" and "n \<le> j" and "j < n + fuel"
  shows "delay_loop fuel clock s delta n = Some j"
  using assms
proof (induction fuel arbitrary: n)
  case 0
  then show ?case by simp
next
  case (Suc fuel)
  show ?case
  proof (cases "n = j")
    case True
    with Suc.prems show ?thesis by simp
  next
    case False
    with Suc.prems have "clock n - s < delta" by auto
    moreover have "delay_loop fuel clock s delta (n + 1) = Some j"
      by (rule Suc.IH) (use Suc.prems False in auto)
    ultimately show ?thesis by simp
  qed
qed

text \<open>
  \<^verbatim>\<open>sbi_timer_delay_loop\<close> returns as soon as the requested time has passed, also when the time
  counter wraps around in between: if some read finds the counter at least \<open>timer_freq * units /
  unit_freq\<close> ticks after the first read, the loop ends, and the read that ends it is the first such
  one, so that the delay is never cut short.
\<close>

theorem delay_loop_waits:
  assumes dev: "timer_dev m = Some d" and src: "get_time_val m \<noteq> None" and freq: "unit_freq \<noteq> 0"
    and passed: "timer_freq d * units div unit_freq \<le> clock j - clock 0" and "1 \<le> j" and fuel: "j \<le> fuel"
  shows "\<exists>n. sbi_timer_delay_loop fuel clock units unit_freq m = Some n \<and> 1 \<le> n \<and> n \<le> j \<and>
    timer_freq d * units div unit_freq \<le> clock n - clock 0 \<and>
    (\<forall>k. 1 \<le> k \<and> k < n \<longrightarrow> clock k - clock 0 < timer_freq d * units div unit_freq)"
proof -
  let ?delta = "timer_freq d * units div unit_freq"
  define n where "n = (LEAST n. 1 \<le> n \<and> ?delta \<le> clock n - clock 0)"
  have n: "1 \<le> n \<and> ?delta \<le> clock n - clock 0" unfolding n_def by (rule LeastI [of _ j]) (use assms in simp)
  have le: "n \<le> j" unfolding n_def by (rule Least_le) (use assms in simp)
  have first: "clock k - clock 0 < ?delta" if "1 \<le> k" "k < n" for k
    using not_less_Least [of k "\<lambda>n. 1 \<le> n \<and> ?delta \<le> clock n - clock 0"] that by (auto simp: n_def)
  have "delay_loop fuel clock (clock 0) ?delta 1 = Some n"
    by (rule delay_loop_hit) (use n le first fuel in auto)
  with dev src freq n le first show ?thesis by (auto simp: sbi_timer_delay_loop_def)
qed

theorem delay_loop_waits_witness:
  "\<exists>n. sbi_timer_delay_loop 10 (\<lambda>k. of_nat (3 * k) - 5) 2 1
     (machine_boot\<lparr>timer_dev := Some \<lparr>timer_freq = 10, has_timer_value = True, has_event_start = True, has_event_stop = True\<rparr>,
        get_time_val := Some Get_platform_ticks\<rparr>) = Some n \<and> 1 \<le> n \<and> n \<le> 8"
  using delay_loop_waits [where m = "machine_boot\<lparr>timer_dev := Some \<lparr>timer_freq = 10, has_timer_value = True,
        has_event_start = True, has_event_stop = True\<rparr>, get_time_val := Some Get_platform_ticks\<rparr>"
      and d = "\<lparr>timer_freq = 10, has_timer_value = True, has_event_start = True, has_event_stop = True\<rparr>"
      and unit_freq = 1 and units = 2 and clock = "\<lambda>k. of_nat (3 * k) - 5" and j = 8 and fuel = 10]
  by auto

end
