(* ===== verification/Sbi_Trap.thy ===== *)
theory Sbi_Trap
  imports Sbi_Timer
begin

text \<open>
  Trap state and the redirection of traps to the supervisor, \<^verbatim>\<open>lib/sbi/sbi_trap.c\<close> and
  \<^verbatim>\<open>include/sbi/sbi_trap.h\<close>. The structure \<^verbatim>\<open>sbi_trap_regs\<close> starts with the 32 integer registers in
  order, which the register macros address by number: they are the function \<open>gpr\<close>. The field
  \<^verbatim>\<open>mstatusH\<close> is used on RV32 only.
\<close>

section \<open>Registers\<close>

record sbi_trap_regs =
  gpr :: "nat \<Rightarrow> ulong"
  r_mepc :: ulong
  r_mstatus :: ulong

abbreviation (input) MSTATUS_SIE :: ulong where "MSTATUS_SIE \<equiv> 0x2"
abbreviation (input) MSTATUS_SPIE :: ulong where "MSTATUS_SPIE \<equiv> 0x20"
abbreviation (input) MSTATUS_SPP :: ulong where "MSTATUS_SPP \<equiv> 0x100"
abbreviation (input) MSTATUS_MPP_SHIFT :: nat where "MSTATUS_MPP_SHIFT \<equiv> 11"
abbreviation (input) HSTATUS_SPVP :: ulong where "HSTATUS_SPVP \<equiv> 0x100"
abbreviation (input) HSTATUS_SPV :: ulong where "HSTATUS_SPV \<equiv> 0x80"

abbreviation (input) CSR_SEPC :: nat where "CSR_SEPC \<equiv> 0x141"
abbreviation (input) CSR_SCAUSE :: nat where "CSR_SCAUSE \<equiv> 0x142"
abbreviation (input) CSR_STVAL :: nat where "CSR_STVAL \<equiv> 0x143"
abbreviation (input) CSR_VSSTATUS :: nat where "CSR_VSSTATUS \<equiv> 0x200"
abbreviation (input) CSR_VSTVEC :: nat where "CSR_VSTVEC \<equiv> 0x205"
abbreviation (input) CSR_VSEPC :: nat where "CSR_VSEPC \<equiv> 0x241"
abbreviation (input) CSR_VSCAUSE :: nat where "CSR_VSCAUSE \<equiv> 0x242"
abbreviation (input) CSR_VSTVAL :: nat where "CSR_VSTVAL \<equiv> 0x243"
abbreviation (input) CSR_HSTATUS :: nat where "CSR_HSTATUS \<equiv> 0x600"
abbreviation (input) CSR_HTVAL :: nat where "CSR_HTVAL \<equiv> 0x643"
abbreviation (input) CSR_HTINST :: nat where "CSR_HTINST \<equiv> 0x64a"

abbreviation (input) CAUSE_FETCH_ACCESS :: ulong where "CAUSE_FETCH_ACCESS \<equiv> 0x1"
abbreviation (input) CAUSE_ILLEGAL_INSTRUCTION :: ulong where "CAUSE_ILLEGAL_INSTRUCTION \<equiv> 0x2"
abbreviation (input) CAUSE_MISALIGNED_LOAD :: ulong where "CAUSE_MISALIGNED_LOAD \<equiv> 0x4"
abbreviation (input) CAUSE_LOAD_ACCESS :: ulong where "CAUSE_LOAD_ACCESS \<equiv> 0x5"
abbreviation (input) CAUSE_MISALIGNED_STORE :: ulong where "CAUSE_MISALIGNED_STORE \<equiv> 0x6"
abbreviation (input) CAUSE_STORE_ACCESS :: ulong where "CAUSE_STORE_ACCESS \<equiv> 0x7"
abbreviation (input) CAUSE_SUPERVISOR_ECALL :: ulong where "CAUSE_SUPERVISOR_ECALL \<equiv> 0x9"
abbreviation (input) CAUSE_MACHINE_ECALL :: ulong where "CAUSE_MACHINE_ECALL \<equiv> 0xb"
abbreviation (input) CAUSE_FETCH_PAGE_FAULT :: ulong where "CAUSE_FETCH_PAGE_FAULT \<equiv> 0xc"
abbreviation (input) CAUSE_LOAD_PAGE_FAULT :: ulong where "CAUSE_LOAD_PAGE_FAULT \<equiv> 0xd"
abbreviation (input) CAUSE_STORE_PAGE_FAULT :: ulong where "CAUSE_STORE_PAGE_FAULT \<equiv> 0xf"
abbreviation (input) CAUSE_FETCH_GUEST_PAGE_FAULT :: ulong where "CAUSE_FETCH_GUEST_PAGE_FAULT \<equiv> 0x14"
abbreviation (input) CAUSE_LOAD_GUEST_PAGE_FAULT :: ulong where "CAUSE_LOAD_GUEST_PAGE_FAULT \<equiv> 0x15"

definition prev_mode :: "sbi_trap_regs \<Rightarrow> ulong" where
  "prev_mode regs = drop_bit MSTATUS_MPP_SHIFT (r_mstatus regs AND MSTATUS_MPP)"

definition prev_virt :: "sbi_trap_regs \<Rightarrow> bool" where
  "prev_virt regs \<longleftrightarrow> r_mstatus regs AND MSTATUS_MPV \<noteq> 0"

section \<open>Redirection\<close>

text \<open>Clear the bits of \<open>which\<close> in a status word, then set those of \<open>v\<close>.\<close>

definition replace_bits :: "ulong \<Rightarrow> ulong \<Rightarrow> ulong \<Rightarrow> ulong" where
  "replace_bits which v w = (w AND NOT which) OR v"

text \<open>The previous mode and interrupt enable of the supervisor, as both branches set them.\<close>

definition enter_smode :: "ulong \<Rightarrow> ulong \<Rightarrow> ulong" where
  "enter_smode pm st =
     (let st = replace_bits MSTATUS_SPP (if pm = PRV_S then MSTATUS_SPP else 0) st;
          st = replace_bits MSTATUS_SPIE 0 st;
          st = (if st AND MSTATUS_SIE \<noteq> 0 then st OR MSTATUS_SPIE else st)
      in replace_bits MSTATUS_SIE 0 st)"

definition redirect_hstatus :: "riscv_hw \<Rightarrow> ulong \<Rightarrow> sbi_trap_info \<Rightarrow> csrs \<Rightarrow> csrs" where
  "redirect_hstatus hw pm trap c =
     (let v = replace_bits HSTATUS_SPVP (if pm = PRV_S then HSTATUS_SPVP else 0) (c CSR_HSTATUS);
          v = replace_bits HSTATUS_SPV HSTATUS_SPV v;
          c = csr_write hw CSR_HSTATUS v c;
          c = csr_write hw CSR_HTVAL (ti_tval2 trap) c
      in csr_write hw CSR_HTINST (ti_tinst trap) c)"

definition sbi_trap_redirect ::
  "riscv_hw \<Rightarrow> (char \<Rightarrow> int) \<Rightarrow> sbi_trap_info \<Rightarrow> sbi_trap_regs \<Rightarrow> csrs \<Rightarrow> int \<times> sbi_trap_regs \<times> csrs" where
  "sbi_trap_redirect hw plat_ext trap regs c =
     (let pm = prev_mode regs; pv = prev_virt regs; hext = misa_extension plat_ext CHR ''H'' c
      in if pm \<noteq> PRV_S \<and> pm \<noteq> PRV_U then (SBI_ENOTSUPP, regs, c)
         else let next_virt = (hext \<and> pv \<and> ti_cause trap \<in> {CAUSE_FETCH_PAGE_FAULT, CAUSE_LOAD_PAGE_FAULT, CAUSE_STORE_PAGE_FAULT});
                  ms = replace_bits MSTATUS_MPV (if next_virt then MSTATUS_MPV else 0) (r_mstatus regs);
                  c = (if hext \<and> pv \<and> \<not> next_virt then redirect_hstatus hw pm trap c else c)
         in if next_virt
            then let c = csr_write hw CSR_VSTVAL (ti_tval trap) c;
                     c = csr_write hw CSR_VSEPC (ti_epc trap) c;
                     c = csr_write hw CSR_VSCAUSE (ti_cause trap) c;
                     ms = replace_bits MSTATUS_MPP (push_bit MSTATUS_MPP_SHIFT PRV_S) ms;
                     regs = regs\<lparr>r_mepc := c CSR_VSTVEC, r_mstatus := ms\<rparr>
                 in (0, regs, csr_write hw CSR_VSSTATUS (enter_smode pm (c CSR_VSSTATUS)) c)
            else let c = csr_write hw CSR_STVAL (ti_tval trap) c;
                     c = csr_write hw CSR_SEPC (ti_epc trap) c;
                     c = csr_write hw CSR_SCAUSE (ti_cause trap) c;
                     ms = replace_bits MSTATUS_MPP (push_bit MSTATUS_MPP_SHIFT PRV_S) ms
                 in (0, regs\<lparr>r_mepc := c CSR_STVEC, r_mstatus := enter_smode pm ms\<rparr>, c))"

section \<open>Redirection is a trap into the supervisor\<close>

text \<open>
  The trap entry of the privileged architecture: a trap from mode \<open>pm\<close> into S-mode changes these
  fields of the status word and no others. \<open>MPP\<close> makes the \<^verbatim>\<open>mret\<close> that follows return to S-mode.
\<close>

definition s_trap_status :: "ulong \<Rightarrow> ulong \<Rightarrow> nat \<Rightarrow> bool" where
  "s_trap_status pm old i \<longleftrightarrow>
     (if i = 8 then pm = PRV_S else if i = 5 then bit old 1 else if i = 1 then False
      else if i = 11 then True else if i = 12 then False else if i = 39 then False else bit old i)"

lemma bit_replace_bits: "bit (replace_bits which v w) i \<longleftrightarrow> bit v i \<or> bit w i \<and> \<not> bit which i"
  by (cases "i < 64") (auto simp: replace_bits_def bit_or_iff bit_and_iff bit_not_iff dest: bit_imp_le_length)

lemma bit_pow: "k < 64 \<Longrightarrow> bit (2 ^ k :: ulong) i \<longleftrightarrow> i = k"
  by (auto simp: bit_exp_iff)

lemma bit_const:
  "bit (0x100 :: ulong) i \<longleftrightarrow> i = 8" "bit (0x20 :: ulong) i \<longleftrightarrow> i = 5" "bit (0x2 :: ulong) i \<longleftrightarrow> i = 1"
  "bit (0x8000000000 :: ulong) i \<longleftrightarrow> i = 39" "bit (0x800 :: ulong) i \<longleftrightarrow> i = 11"
  "bit (0x1800 :: ulong) i \<longleftrightarrow> i = 11 \<or> i = 12"
proof -
  have "bit (2 ^ 11 OR 2 ^ 12 :: ulong) i \<longleftrightarrow> i = 11 \<or> i = 12" by (simp only: bit_or_iff bit_pow)
  then show "bit (0x1800 :: ulong) i \<longleftrightarrow> i = 11 \<or> i = 12" by simp
qed (use bit_pow [of 8 i] bit_pow [of 5 i] bit_pow [of 1 i] bit_pow [of 39 i] bit_pow [of 11 i] in simp_all)

lemma and_SIE_iff: "(w :: ulong) AND MSTATUS_SIE = 0 \<longleftrightarrow> \<not> bit w 1"
  using and_exp_eq_0_iff_not_bit [of w 1] by simp

lemma bit_enter_smode:
  "bit (enter_smode pm st) i \<longleftrightarrow>
    (if i = 8 then pm = PRV_S else if i = 5 then bit st 1 else if i = 1 then False else bit st i)"
  by (simp add: enter_smode_def Let_def bit_replace_bits bit_or_iff bit_const and_SIE_iff del: bit_numeral_word_iff)

lemma csr_write_kept: "csr_warl hw n v = v \<Longrightarrow> n < CSR_PMPCFG0 \<Longrightarrow> csr_write hw n v c = c(n := v)"
  by (simp add: csr_write_def csr_keeps_def)

text \<open>
  \<^verbatim>\<open>sbi_trap_redirect\<close> delivers a trap from S- or U-mode to S-mode as the hart itself would: the
  cause, the program counter and the trap value are in the supervisor's CSRs, execution resumes
  in S-mode at the supervisor's trap vector with its interrupts off, the previous mode and
  interrupt enable are saved, and no other register or status field changes.
\<close>

theorem trap_redirect_delivers:
  assumes mode: "prev_mode regs = PRV_S \<or> prev_mode regs = PRV_U"
    and nohyp: "\<not> misa_extension plat_ext CHR ''H'' c"
    and keep: "csr_warl hw CSR_STVAL (ti_tval trap) = ti_tval trap" "csr_warl hw CSR_SEPC (ti_epc trap) = ti_epc trap"
      "csr_warl hw CSR_SCAUSE (ti_cause trap) = ti_cause trap"
  shows "\<exists>regs'. sbi_trap_redirect hw plat_ext trap regs c =
      (0, regs', c(CSR_STVAL := ti_tval trap, CSR_SEPC := ti_epc trap, CSR_SCAUSE := ti_cause trap)) \<and>
    gpr regs' = gpr regs \<and> r_mepc regs' = c CSR_STVEC \<and>
    (\<forall>i. bit (r_mstatus regs') i \<longleftrightarrow> s_trap_status (prev_mode regs) (r_mstatus regs) i)"
proof -
  let ?ms = "replace_bits MSTATUS_MPP (push_bit MSTATUS_MPP_SHIFT PRV_S) (replace_bits MSTATUS_MPV 0 (r_mstatus regs))"
  let ?regs = "regs\<lparr>r_mepc := c CSR_STVEC, r_mstatus := enter_smode (prev_mode regs) ?ms\<rparr>"
  have "sbi_trap_redirect hw plat_ext trap regs c =
      (0, ?regs, c(CSR_STVAL := ti_tval trap, CSR_SEPC := ti_epc trap, CSR_SCAUSE := ti_cause trap))"
    using mode nohyp by (auto simp: sbi_trap_redirect_def Let_def csr_write_kept [OF keep(1)] csr_write_kept [OF keep(2)] csr_write_kept [OF keep(3)])
  moreover have "bit ?ms i \<longleftrightarrow> (if i = 11 then True else if i = 12 then False else if i = 39 then False else bit (r_mstatus regs) i)" for i
    by (auto simp: bit_replace_bits bit_const simp del: bit_numeral_word_iff)
  ultimately show ?thesis by (simp add: bit_enter_smode s_trap_status_def)
qed

theorem trap_redirect_delivers_witness:
  "\<exists>regs'. sbi_trap_redirect cva6_hw (\<lambda>_. 0)
      \<lparr>ti_epc = 0x1000, ti_cause = CAUSE_ILLEGAL_INSTRUCTION, ti_tval = 0x73, ti_tval2 = 0, ti_tinst = 0\<rparr>
      \<lparr>gpr = (\<lambda>_. 0), r_mepc = 0x1000, r_mstatus = 0x802\<rparr> ((\<lambda>_. 0)(CSR_STVEC := 0x8000)) =
      (0, regs', (\<lambda>_. 0)(CSR_STVEC := 0x8000, CSR_STVAL := 0x73, CSR_SEPC := 0x1000, CSR_SCAUSE := CAUSE_ILLEGAL_INSTRUCTION)) \<and>
    r_mepc regs' = 0x8000 \<and> bit (r_mstatus regs') 8 \<and> bit (r_mstatus regs') 5 \<and> \<not> bit (r_mstatus regs') 1"
proof -
  let ?regs = "\<lparr>gpr = (\<lambda>_. 0), r_mepc = 0x1000, r_mstatus = 0x802\<rparr>"
  let ?t = "\<lparr>ti_epc = 0x1000, ti_cause = CAUSE_ILLEGAL_INSTRUCTION, ti_tval = 0x73, ti_tval2 = 0, ti_tinst = 0\<rparr>"
  have m: "prev_mode ?regs = PRV_S" by code_simp
  have h: "\<not> misa_extension (\<lambda>_. 0) CHR ''H'' ((\<lambda>_. 0)(CSR_STVEC := 0x8000))" by code_simp
  have b: "bit (0x802 :: ulong) 1" by code_simp
  from trap_redirect_delivers [OF disjI1 [OF m] h, of cva6_hw ?t] m b show ?thesis
    by (auto simp: cva6_hw_def s_trap_status_def)
qed

end
