(* ===== verification/Sbi_Unpriv.thy ===== *)
theory Sbi_Unpriv
  imports Sbi_Trap
begin

text \<open>
  Accesses with the privileges of the interrupted mode, \<^verbatim>\<open>lib/sbi/sbi_unpriv.c\<close>. The assembly installs
  the expected-trap vector, sets \<^verbatim>\<open>MPRV\<close>, does the access and restores both CSRs; a trap of the access
  only fills in the trap information. The result is the value, or that information: the callers
  read the value only if no trap was recorded (the cause of a load or store trap is never zero).
\<close>

section \<open>Bytes of a word\<close>

fun le_word :: "u8 list \<Rightarrow> ulong" where
  "le_word [] = 0"
| "le_word (b # bs) = ucast b OR push_bit 8 (le_word bs)"

definition word_bytes :: "nat \<Rightarrow> ulong \<Rightarrow> u8 list" where
  "word_bytes n w = map (\<lambda>i. ucast (drop_bit (8 * i) w)) [0..<n]"

definition mem_bytes :: "nat \<Rightarrow> ulong \<Rightarrow> (ulong \<Rightarrow> u8) \<Rightarrow> u8 list" where
  "mem_bytes n addr mem = map (\<lambda>i. mem (addr + of_nat i)) [0..<n]"

fun mem_store :: "ulong \<Rightarrow> u8 list \<Rightarrow> (ulong \<Rightarrow> u8) \<Rightarrow> (ulong \<Rightarrow> u8)" where
  "mem_store addr [] mem = mem"
| "mem_store addr (b # bs) mem = mem_store (addr + 1) bs (mem(addr := b))"

section \<open>Operations\<close>

definition unpriv_load :: "sbi_plat \<Rightarrow> nat \<Rightarrow> ulong \<Rightarrow> machine \<Rightarrow> sbi_trap_info + ulong" where
  "unpriv_load pl n addr m =
     (case p_ufault pl ULoad n addr of
        Some trap \<Rightarrow> Inl trap
      | None \<Rightarrow> Inr (le_word (mem_bytes n addr (u_mem m))))"

definition unpriv_store :: "sbi_plat \<Rightarrow> nat \<Rightarrow> ulong \<Rightarrow> ulong \<Rightarrow> machine \<Rightarrow> sbi_trap_info + machine" where
  "unpriv_store pl n addr val m =
     (case p_ufault pl UStore n addr of
        Some trap \<Rightarrow> Inl trap
      | None \<Rightarrow> Inr (m\<lparr>u_mem := mem_store addr (word_bytes n val) (u_mem m)\<rparr>))"

definition sbi_load_u8 :: "sbi_plat \<Rightarrow> ulong \<Rightarrow> machine \<Rightarrow> sbi_trap_info + u8" where
  "sbi_load_u8 pl addr m = map_sum id ucast (unpriv_load pl 1 addr m)"

definition sbi_load_u16 :: "sbi_plat \<Rightarrow> ulong \<Rightarrow> machine \<Rightarrow> sbi_trap_info + u16" where
  "sbi_load_u16 pl addr m = map_sum id ucast (unpriv_load pl 2 addr m)"

definition sbi_load_u32 :: "sbi_plat \<Rightarrow> ulong \<Rightarrow> machine \<Rightarrow> sbi_trap_info + u32" where
  "sbi_load_u32 pl addr m = map_sum id ucast (unpriv_load pl 4 addr m)"

definition sbi_load_ulong :: "sbi_plat \<Rightarrow> ulong \<Rightarrow> machine \<Rightarrow> sbi_trap_info + ulong" where
  "sbi_load_ulong pl addr m = unpriv_load pl 8 addr m"

definition sbi_store_u8 :: "sbi_plat \<Rightarrow> ulong \<Rightarrow> u8 \<Rightarrow> machine \<Rightarrow> sbi_trap_info + machine" where
  "sbi_store_u8 pl addr val m = unpriv_store pl 1 addr (ucast val) m"

text \<open>
  Instruction fetch by halfwords with \<^verbatim>\<open>MXR\<close>. A trap of the first load leaves the register with the
  instruction unchanged and goes on with the test of its low bits.
\<close>

definition fetch_trap :: "ulong \<Rightarrow> sbi_trap_info \<Rightarrow> sbi_trap_info" where
  "fetch_trap mepc trap =
     (if ti_cause trap = CAUSE_LOAD_ACCESS then trap\<lparr>ti_cause := CAUSE_FETCH_ACCESS, ti_tval := mepc\<rparr>
      else if ti_cause trap = CAUSE_LOAD_PAGE_FAULT then trap\<lparr>ti_cause := CAUSE_FETCH_PAGE_FAULT, ti_tval := mepc\<rparr>
      else if ti_cause trap = CAUSE_LOAD_GUEST_PAGE_FAULT
      then trap\<lparr>ti_cause := CAUSE_FETCH_GUEST_PAGE_FAULT, ti_tval := mepc\<rparr> else trap)"

definition sbi_get_insn :: "sbi_plat \<Rightarrow> ulong \<Rightarrow> machine \<Rightarrow> sbi_trap_info + ulong" where
  "sbi_get_insn pl mepc m =
     (let half = (\<lambda>a. le_word (mem_bytes 2 a (u_mem m)));
          trap1 = p_ufault pl UExec 2 mepc;
          insn = (if trap1 = None then half mepc else p_insn_reg pl);
          long = (insn AND 3 = 3);
          trap2 = (if long then p_ufault pl UExec 2 (mepc + 2) else None)
      in case (trap2, trap1) of
           (Some t, _) \<Rightarrow> Inl (fetch_trap mepc t)
         | (None, Some t) \<Rightarrow> Inl (fetch_trap mepc t)
         | (None, None) \<Rightarrow> Inr (if long then insn + push_bit 16 (half (mepc + 2)) else insn))"

section \<open>Reading back what was stored\<close>

lemma length_word_bytes [simp]: "length (word_bytes n w) = n"
  by (simp add: word_bytes_def)

lemma le_word_bit: "bit (le_word bs) i \<longleftrightarrow> i < 64 \<and> i div 8 < length bs \<and> bit (bs ! (i div 8)) (i mod 8)"
proof (induction bs arbitrary: i)
  case (Cons b bs)
  show ?case
  proof (cases "i < 8")
    case True
    then show ?thesis by (auto simp: bit_or_iff bit_push_bit_iff bit_ucast_iff dest: bit_imp_le_length)
  next
    case False
    then have d: "i div 8 = Suc ((i - 8) div 8)" "i mod 8 = (i - 8) mod 8"
      by (simp_all add: le_div_geq le_mod_geq)
    have "\<not> bit b i" using False by (auto dest: bit_imp_le_length)
    then show ?thesis
      using False Cons.IH [of "i - 8"] by (auto simp: bit_or_iff bit_push_bit_iff bit_ucast_iff d dest: bit_imp_le_length)
  qed
qed simp

lemma le_word_bytes: "n \<le> 8 \<Longrightarrow> le_word (word_bytes n w) = take_bit (8 * n) w"
proof (rule bit_word_eqI)
  fix i assume n: "n \<le> 8" and i: "i < LENGTH(64)"
  have "i div 8 < n \<longleftrightarrow> i < 8 * n" by (simp add: div_less_iff_less_mult mult.commute)
  moreover have "8 * (i div 8) + i mod 8 = i" by simp
  ultimately show "bit (le_word (word_bytes n w)) i = bit (take_bit (8 * n) w) i"
    using i by (auto simp: le_word_bit word_bytes_def bit_ucast_iff bit_drop_bit_eq bit_take_bit_iff)
qed

lemma mem_store_nth:
  "length bs \<le> 8 \<Longrightarrow> mem_store addr bs mem a =
    (if unat (a - addr) < length bs then bs ! unat (a - addr) else mem a)"
proof (induction bs arbitrary: addr mem)
  case (Cons b bs)
  have u: "unat (a - (addr + 1)) = unat (a - addr) - 1" if "a \<noteq> addr"
    using that unat_minus_one [of "a - addr"] by (simp add: diff_diff_eq)
  show ?case
  proof (cases "a = addr")
    case True
    have "unat (- 1 :: ulong) = 2 ^ 64 - 1" by (simp add: unsigned_minus_1_eq_mask mask_eq_exp_minus_1)
    then have "\<not> unat ((addr :: ulong) - (addr + 1)) < length bs" using Cons.prems by simp
    with True Cons show ?thesis by simp
  next
    case False
    then have "0 < unat (a - addr)" by (simp add: unat_gt_0)
    with False Cons u [OF False] show ?thesis by (auto simp: less_Suc_eq_0_disj nth_Cons')
  qed
qed simp

lemma mem_bytes_store: "length bs \<le> 8 \<Longrightarrow> mem_bytes (length bs) addr (mem_store addr bs mem) = bs"
proof (rule nth_equalityI)
  fix i assume l: "length bs \<le> 8" and "i < length (mem_bytes (length bs) addr (mem_store addr bs mem))"
  then have i: "i < length bs" by (simp add: mem_bytes_def)
  have "unat (of_nat i :: ulong) = i" using l i by (simp add: unat_of_nat take_bit_nat_eq_self_iff)
  with l i show "mem_bytes (length bs) addr (mem_store addr bs mem) ! i = bs ! i"
    by (simp add: mem_bytes_def mem_store_nth)
qed (simp add: mem_bytes_def)

text \<open>
  What an unprivileged store of up to eight bytes wrote is what an unprivileged load of the same
  size reads, also across the end of the address space; bytes outside the range keep their value.
\<close>

theorem unpriv_store_load:
  assumes "n \<le> 8" and "unpriv_store pl n addr val m = Inr m'" and "p_ufault pl ULoad n addr = None"
  shows "unpriv_load pl n addr m' = Inr (take_bit (8 * n) val) \<and>
    (\<forall>a. n \<le> unat (a - addr) \<longrightarrow> u_mem m' a = u_mem m a)"
proof -
  from assms(2) have m': "m' = m\<lparr>u_mem := mem_store addr (word_bytes n val) (u_mem m)\<rparr>"
    by (auto simp: unpriv_store_def split: option.splits)
  have "mem_bytes n addr (u_mem m') = word_bytes n val"
    using mem_bytes_store [of "word_bytes n val" addr "u_mem m"] assms(1) by (simp add: m')
  with assms show ?thesis by (simp add: unpriv_load_def le_word_bytes m' mem_store_nth)
qed

theorem unpriv_store_load_witness:
  "\<exists>m'. unpriv_store plat_example 4 (- 2) 0x11223344 machine_boot = Inr m' \<and>
    unpriv_load plat_example 4 (- 2) m' = Inr 0x11223344"
proof -
  obtain m' where m': "unpriv_store plat_example 4 (- 2) 0x11223344 machine_boot = Inr m'"
    by (simp add: unpriv_store_def plat_example_def)
  have "take_bit 32 (0x11223344 :: ulong) = 0x11223344" by simp
  with unpriv_store_load [OF _ m'] m' show ?thesis by (simp add: plat_example_def)
qed

end
