(* ===== verification/Sbi_Emulate.thy ===== *)
theory Sbi_Emulate
  imports Sbi_Unpriv
begin

text \<open>
  Emulation of CSR accesses of lower modes, \<^verbatim>\<open>lib/sbi/sbi_emulate_csr.c\<close>, and the handler of illegal
  instructions, \<^verbatim>\<open>lib/sbi/sbi_illegal_insn.c\<close>, for the current hart \<open>h\<close>. A result \<open>Inl\<close> is the error
  code. The register macros of \<^verbatim>\<open>include/sbi/riscv_encoding.h\<close> select a field of the instruction.
\<close>

section \<open>CSR emulation\<close>

abbreviation (input) CSR_CYCLE :: nat where "CSR_CYCLE \<equiv> 0xc00"
abbreviation (input) CSR_INSTRET :: nat where "CSR_INSTRET \<equiv> 0xc02"
abbreviation (input) CSR_HPMCOUNTER3 :: nat where "CSR_HPMCOUNTER3 \<equiv> 0xc03"
abbreviation (input) CSR_HTIMEDELTA :: nat where "CSR_HTIMEDELTA \<equiv> 0x605"
abbreviation (input) CSR_HCOUNTEREN :: nat where "CSR_HCOUNTEREN \<equiv> 0x606"

definition hpm_allowed :: "hart_features \<Rightarrow> csrs \<Rightarrow> nat \<Rightarrow> ulong \<Rightarrow> bool \<Rightarrow> bool" where
  "hpm_allowed hf c hpm_num pm virt \<longleftrightarrow>
     (let cen = - 1;
          cen = (if pm \<le> PRV_S
                 then if sbi_hart_has_feature hf SBI_HART_HAS_MCOUNTEREN
                      then let cen = cen AND c CSR_MCOUNTEREN in if virt then cen AND c CSR_HCOUNTEREN else cen
                      else 0
                 else cen);
          cen = (if pm = PRV_U
                 then if sbi_hart_has_feature hf SBI_HART_HAS_SCOUNTEREN then cen AND c CSR_SCOUNTEREN else 0
                 else cen)
      in drop_bit hpm_num cen AND 1 \<noteq> 0)"

definition sbi_emulate_csr_read :: "hartid \<Rightarrow> nat \<Rightarrow> sbi_trap_regs \<Rightarrow> machine \<Rightarrow> int + ulong" where
  "sbi_emulate_csr_read h csr_num regs m =
     (let pm = prev_mode regs; virt = prev_virt regs; c = h_csr m h; hf = h_feat m h
      in if csr_num = CSR_HTIMEDELTA
         then if pm = PRV_S \<and> \<not> virt then Inr (sbi_timer_get_delta h m) else Inl SBI_ENOTSUPP
         else if csr_num = CSR_CYCLE
         then if \<not> hpm_allowed hf c 0 pm virt then Inl SBI_ENOTSUPP else Inr (c CSR_MCYCLE)
         else if csr_num = CSR_TIME then Inr (if virt then sbi_timer_virt_value h m else sbi_timer_value m)
         else if csr_num = CSR_INSTRET
         then if \<not> hpm_allowed hf c 2 pm virt then Inl SBI_ENOTSUPP else Inr (c CSR_MINSTRET)
         else if CSR_HPMCOUNTER3 \<le> csr_num \<and> csr_num \<le> CSR_CYCLE + 31
         then if mhpm_count hf + 3 \<le> csr_num - CSR_CYCLE then Inl SBI_ENOTSUPP
              else if \<not> hpm_allowed hf c (csr_num - CSR_CYCLE) pm virt then Inl SBI_ENOTSUPP
              else Inr (c (CSR_MCYCLE + csr_num - CSR_CYCLE))
         else Inl SBI_ENOTSUPP)"

definition sbi_emulate_csr_write :: "hartid \<Rightarrow> nat \<Rightarrow> sbi_trap_regs \<Rightarrow> ulong \<Rightarrow> machine \<Rightarrow> int \<times> machine" where
  "sbi_emulate_csr_write h csr_num regs csr_val m =
     (if csr_num = CSR_HTIMEDELTA \<and> prev_mode regs = PRV_S \<and> \<not> prev_virt regs
      then (0, sbi_timer_set_delta h csr_val m) else (SBI_ENOTSUPP, m))"

section \<open>Illegal instructions\<close>

text \<open>Register numbers in an instruction: \<^verbatim>\<open>GET_RS1\<close>, \<^verbatim>\<open>GET_RS2\<close>, \<^verbatim>\<open>SET_RD\<close>, \<^verbatim>\<open>GET_RM\<close>.\<close>

definition insn_field :: "nat \<Rightarrow> nat \<Rightarrow> ulong \<Rightarrow> nat" where
  "insn_field pos width insn = unat (drop_bit pos insn AND mask width)"

definition SET_RD :: "ulong \<Rightarrow> ulong \<Rightarrow> sbi_trap_regs \<Rightarrow> sbi_trap_regs" where
  "SET_RD insn val regs = regs\<lparr>gpr := (gpr regs)(insn_field 7 5 insn := val)\<rparr>"

definition redirect :: "sbi_plat \<Rightarrow> hartid \<Rightarrow> sbi_trap_info \<Rightarrow> sbi_trap_regs \<Rightarrow> machine \<Rightarrow> int \<times> sbi_trap_regs \<times> machine" where
  "redirect pl h trap regs m =
     (case sbi_trap_redirect (p_hw pl) (p_ext pl) trap regs (h_csr m h) of
        (rc, regs, c) \<Rightarrow> (rc, regs, m\<lparr>h_csr := (h_csr m)(h := c)\<rparr>))"

definition truly_illegal_insn :: "sbi_plat \<Rightarrow> hartid \<Rightarrow> ulong \<Rightarrow> sbi_trap_regs \<Rightarrow> machine \<Rightarrow> int \<times> sbi_trap_regs \<times> machine" where
  "truly_illegal_insn pl h insn regs m =
     redirect pl h \<lparr>ti_epc = r_mepc regs, ti_cause = CAUSE_ILLEGAL_INSTRUCTION, ti_tval = insn, ti_tval2 = 0, ti_tinst = 0\<rparr> regs m"

text \<open>The new value of a CSR instruction and whether it is written; \<open>None\<close> is the default case.\<close>

definition csr_insn_value :: "nat \<Rightarrow> nat \<Rightarrow> ulong \<Rightarrow> ulong \<Rightarrow> (ulong \<times> bool) option" where
  "csr_insn_value rm rs1_num rs1_val csr_val =
     (let do_write = (rs1_num \<noteq> 0)
      in if rm = 1 then Some (rs1_val, True)
         else if rm = 2 then Some (csr_val OR rs1_val, do_write)
         else if rm = 3 then Some (csr_val AND NOT rs1_val, do_write)
         else if rm = 5 then Some (of_nat rs1_num, True)
         else if rm = 6 then Some (csr_val OR of_nat rs1_num, do_write)
         else if rm = 7 then Some (csr_val AND NOT (of_nat rs1_num), do_write)
         else None)"

definition system_opcode_insn :: "sbi_plat \<Rightarrow> hartid \<Rightarrow> ulong \<Rightarrow> sbi_trap_regs \<Rightarrow> machine \<Rightarrow> int \<times> sbi_trap_regs \<times> machine" where
  "system_opcode_insn pl h insn regs m =
     (let rs1_num = insn_field 15 5 insn;
          rs1_val = gpr regs rs1_num;
          csr_num = insn_field 20 12 insn
      in case sbi_emulate_csr_read h csr_num regs m of
           Inl _ \<Rightarrow> truly_illegal_insn pl h insn regs m
         | Inr csr_val \<Rightarrow>
             (case csr_insn_value (insn_field 12 3 insn) rs1_num rs1_val csr_val of
                None \<Rightarrow> truly_illegal_insn pl h insn regs m
              | Some (new_csr_val, do_write) \<Rightarrow>
                  (case (if do_write then sbi_emulate_csr_write h csr_num regs new_csr_val m else (0, m)) of
                     (rc, m) \<Rightarrow>
                       if rc \<noteq> 0 then truly_illegal_insn pl h insn regs m
                       else let regs = SET_RD insn csr_val regs
                            in (0, regs\<lparr>r_mepc := r_mepc regs + 4\<rparr>, m))))"

text \<open>The table has the CSR instructions under opcode 28 and \<^verbatim>\<open>truly_illegal_insn\<close> everywhere else.\<close>

definition illegal_insn_table :: "sbi_plat \<Rightarrow> hartid \<Rightarrow> nat \<Rightarrow> ulong \<Rightarrow> sbi_trap_regs \<Rightarrow> machine \<Rightarrow> int \<times> sbi_trap_regs \<times> machine" where
  "illegal_insn_table pl h i = (if i = 28 then system_opcode_insn pl h else truly_illegal_insn pl h)"

definition sbi_illegal_insn_handler :: "sbi_plat \<Rightarrow> hartid \<Rightarrow> ulong \<Rightarrow> sbi_trap_regs \<Rightarrow> machine \<Rightarrow> int \<times> sbi_trap_regs \<times> machine" where
  "sbi_illegal_insn_handler pl h insn regs m =
     (let m = incr_fw h 4 m
      in if insn AND 3 \<noteq> 3
         then case sbi_get_insn pl (r_mepc regs) m of
                Inl uptrap \<Rightarrow> redirect pl h (uptrap\<lparr>ti_epc := r_mepc regs\<rparr>) regs m
              | Inr insn \<Rightarrow>
                  (if insn AND 3 \<noteq> 3 then truly_illegal_insn pl h insn regs m
                   else illegal_insn_table pl h (insn_field 2 5 insn) insn regs m)
         else illegal_insn_table pl h (insn_field 2 5 insn) insn regs m)"

section \<open>Counters are readable exactly if they are enabled\<close>

text \<open>
  The rule of the privileged architecture: machine mode always reads, lower modes need the bit in
  \<^verbatim>\<open>mcounteren\<close> (and \<^verbatim>\<open>hcounteren\<close> in a guest), user mode also that in \<^verbatim>\<open>scounteren\<close>. A missing enable
  register disables all counters.
\<close>

definition counter_enabled :: "hart_features \<Rightarrow> csrs \<Rightarrow> nat \<Rightarrow> ulong \<Rightarrow> bool \<Rightarrow> bool" where
  "counter_enabled hf c k pm virt \<longleftrightarrow>
     (pm \<le> PRV_S \<longrightarrow> sbi_hart_has_feature hf SBI_HART_HAS_MCOUNTEREN \<and> bit (c CSR_MCOUNTEREN) k \<and>
        (virt \<longrightarrow> bit (c CSR_HCOUNTEREN) k)) \<and>
     (pm = PRV_U \<longrightarrow> sbi_hart_has_feature hf SBI_HART_HAS_SCOUNTEREN \<and> bit (c CSR_SCOUNTEREN) k)"

lemma hpm_allowed_eq: "k < 64 \<Longrightarrow> hpm_allowed hf c k pm virt = counter_enabled hf c k pm virt"
  by (auto simp: hpm_allowed_def counter_enabled_def Let_def and_one_eq bit_iff_odd_drop_bit [symmetric] bit_and_iff
      odd_iff_mod_2_eq_one [symmetric] simp flip: bit_iff_odd_drop_bit)

text \<open>
  A read of a counter CSR (\<^verbatim>\<open>cycle\<close>, \<^verbatim>\<open>instret\<close> or \<^verbatim>\<open>hpmcounter3\<close> to \<^verbatim>\<open>31\<close>) by a lower mode is emulated
  exactly if the counter exists and is enabled for that mode, and then yields the value of the
  machine counter; otherwise the access is refused.
\<close>

theorem emulate_counter_read:
  assumes "k < 32" and "k \<noteq> 1"
  shows "sbi_emulate_csr_read h (CSR_CYCLE + k) regs m =
    (if (3 \<le> k \<longrightarrow> k < mhpm_count (h_feat m h) + 3) \<and>
        counter_enabled (h_feat m h) (h_csr m h) k (prev_mode regs) (prev_virt regs)
     then Inr (h_csr m h (CSR_MCYCLE + k)) else Inl SBI_ENOTSUPP)"
proof -
  have k: "k = 0 \<or> k = 2 \<or> 3 \<le> k" using assms by auto
  have e: "hpm_allowed hf c k pm virt = counter_enabled hf c k pm virt" for hf c pm virt
    using assms by (intro hpm_allowed_eq) simp
  from k show ?thesis
    by (elim disjE) (use assms e in \<open>auto simp: sbi_emulate_csr_read_def Let_def\<close>)
qed

theorem emulate_counter_read_witness:
  "sbi_emulate_csr_read 0 (CSR_CYCLE + 2) \<lparr>gpr = (\<lambda>_. 0), r_mepc = 0, r_mstatus = 0x800\<rparr> machine_boot = Inl SBI_ENOTSUPP"
proof -
  have "\<not> counter_enabled (h_feat machine_boot 0) (h_csr machine_boot 0) 2
      (prev_mode \<lparr>gpr = (\<lambda>_. 0), r_mepc = 0, r_mstatus = 0x800\<rparr>) (prev_virt \<lparr>gpr = (\<lambda>_. 0), r_mepc = 0, r_mstatus = 0x800\<rparr>)"
    by (code_simp)
  then show ?thesis using emulate_counter_read [of 2 0 "\<lparr>gpr = (\<lambda>_. 0), r_mepc = 0, r_mstatus = 0x800\<rparr>" machine_boot] by simp
qed

section \<open>Reading the time\<close>

text \<open>The instruction \<^verbatim>\<open>csrrs rd, time, x0\<close>, written \<^verbatim>\<open>rdtime rd\<close> in assembly.\<close>

definition rdtime_insn :: "nat \<Rightarrow> ulong" where
  "rdtime_insn rd = 0xc0102073 OR push_bit 7 (of_nat rd)"

lemma rdtime_fields:
  assumes "rd < 32"
  shows "rdtime_insn rd AND 3 = 3" "insn_field 2 5 (rdtime_insn rd) = 28" "insn_field 12 3 (rdtime_insn rd) = 2"
    "insn_field 15 5 (rdtime_insn rd) = 0" "insn_field 20 12 (rdtime_insn rd) = CSR_TIME" "insn_field 7 5 (rdtime_insn rd) = rd"
proof -
  have all: "\<forall>rd \<in> set [0..<32]. rdtime_insn rd AND 3 = 3 \<and> insn_field 2 5 (rdtime_insn rd) = 28 \<and>
    insn_field 12 3 (rdtime_insn rd) = 2 \<and> insn_field 15 5 (rdtime_insn rd) = 0 \<and>
    insn_field 20 12 (rdtime_insn rd) = CSR_TIME \<and> insn_field 7 5 (rdtime_insn rd) = rd" by code_simp
  have "rd \<in> set [0..<32]" using assms by simp
  from all [rule_format, OF this]
  show "rdtime_insn rd AND 3 = 3" "insn_field 2 5 (rdtime_insn rd) = 28" "insn_field 12 3 (rdtime_insn rd) = 2"
    "insn_field 15 5 (rdtime_insn rd) = 0" "insn_field 20 12 (rdtime_insn rd) = CSR_TIME" "insn_field 7 5 (rdtime_insn rd) = rd"
    by blast+
qed

text \<open>
  The time CSR, which the hart does not implement, is emulated: an illegal-instruction trap on
  \<^verbatim>\<open>rdtime rd\<close> returns with the time (shifted by the guest's offset in a guest) in \<open>rd\<close> and the program
  counter after the instruction, from every mode; no other register, CSR or memory changes.
\<close>

theorem illegal_rdtime_emulated:
  assumes "rd < 32"
  shows "\<exists>m'. sbi_illegal_insn_handler pl h (rdtime_insn rd) regs m =
      (0, regs\<lparr>gpr := (gpr regs)(rd := if prev_virt regs then sbi_timer_virt_value h m else sbi_timer_value m),
               r_mepc := r_mepc regs + 4\<rparr>, m') \<and>
    m' = m\<lparr>m_pmu := m_pmu m'\<rparr>"
proof -
  let ?m = "incr_fw h 4 m"
  have same: "?m = m\<lparr>m_pmu := m_pmu ?m\<rparr>" by (simp add: incr_fw_def split: option.splits prod.splits)
  have t: "sbi_timer_value ?m = sbi_timer_value m" "sbi_timer_virt_value h ?m = sbi_timer_virt_value h m"
    by (simp_all add: sbi_timer_value_def sbi_timer_virt_value_def get_ticks_def get_platform_ticks_def split: option.splits time_source.splits)
  have "sbi_illegal_insn_handler pl h (rdtime_insn rd) regs m = system_opcode_insn pl h (rdtime_insn rd) regs ?m"
    by (simp add: sbi_illegal_insn_handler_def Let_def rdtime_fields [OF assms] illegal_insn_table_def)
  also have "\<dots> = (0, regs\<lparr>gpr := (gpr regs)(rd := if prev_virt regs then sbi_timer_virt_value h m else sbi_timer_value m),
               r_mepc := r_mepc regs + 4\<rparr>, ?m)"
    by (simp add: system_opcode_insn_def Let_def rdtime_fields [OF assms] sbi_emulate_csr_read_def csr_insn_value_def SET_RD_def t)
  finally show ?thesis using same by blast
qed

theorem illegal_rdtime_emulated_witness:
  "\<exists>m'. sbi_illegal_insn_handler plat_example 0 (rdtime_insn 10) \<lparr>gpr = (\<lambda>_. 0), r_mepc = 0x1000, r_mstatus = 0\<rparr>
      (machine_boot\<lparr>m_time := 77, get_time_val := Some Get_platform_ticks\<rparr>) =
      (0, \<lparr>gpr = (\<lambda>_. 0)(10 := 77), r_mepc = 0x1004, r_mstatus = 0\<rparr>, m')"
  using illegal_rdtime_emulated [of 10 plat_example 0 "\<lparr>gpr = (\<lambda>_. 0), r_mepc = 0x1000, r_mstatus = 0\<rparr>"
      "machine_boot\<lparr>m_time := 77, get_time_val := Some Get_platform_ticks\<rparr>"]
  by (auto simp: prev_virt_def sbi_timer_value_def get_platform_ticks_def)

end
