(* ===== verification/Sbi_Misaligned.thy ===== *)
theory Sbi_Misaligned
  imports Sbi_Emulate
begin

text \<open>
  Emulation of misaligned loads and stores, \<^verbatim>\<open>lib/sbi/sbi_misaligned_ldst.c\<close>, as built for RV64 with the
  F, D and C extensions. The floating-point registers are those of the hart itself (the firmware
  does not use them): \<open>h_freg\<close>. A load writes its register after all bytes were read; a store that
  traps leaves the bytes before the trap written.
\<close>

section \<open>Decoding\<close>

definition insn_matches :: "ulong \<Rightarrow> ulong \<Rightarrow> ulong \<Rightarrow> bool" where
  "insn_matches insn msk match \<longleftrightarrow> insn AND msk = match"

definition INSN_LEN :: "ulong \<Rightarrow> ulong" where
  "INSN_LEN insn = (if insn AND 3 \<noteq> 3 then 2 else 4)"

definition RVC_RS2S :: "ulong \<Rightarrow> ulong" where
  "RVC_RS2S insn = 8 + (drop_bit 2 insn AND 7)"

text \<open>Length, shift, whether the target is a floating-point register, and the word with the target's number.\<close>

record load_op =
  ld_len :: nat
  ld_shift :: nat
  ld_fp :: bool
  ld_insn :: ulong

definition load_decode :: "ulong \<Rightarrow> load_op option" where
  "load_decode insn =
     (let op = (\<lambda>len shift fp insn. Some \<lparr>ld_len = len, ld_shift = shift, ld_fp = fp, ld_insn = insn\<rparr>);
          rvc = push_bit 7 (RVC_RS2S insn)
      in if insn_matches insn 0x707f 0x2003 then op 4 32 False insn
         else if insn_matches insn 0x707f 0x3003 then op 8 0 False insn
         else if insn_matches insn 0x707f 0x6003 then op 4 0 False insn
         else if insn_matches insn 0x707f 0x3007 then op 8 0 True insn
         else if insn_matches insn 0x707f 0x2007 then op 4 0 True insn
         else if insn_matches insn 0x707f 0x1003 then op 2 48 False insn
         else if insn_matches insn 0x707f 0x5003 then op 2 0 False insn
         else if insn_matches insn 0xe003 0x6000 then op 8 0 False rvc
         else if insn_matches insn 0xe003 0x6002 \<and> insn_field 7 5 insn \<noteq> 0 then op 8 0 False insn
         else if insn_matches insn 0xe003 0x4000 then op 4 32 False rvc
         else if insn_matches insn 0xe003 0x4002 \<and> insn_field 7 5 insn \<noteq> 0 then op 4 32 False insn
         else if insn_matches insn 0xe003 0x2000 then op 8 0 True rvc
         else if insn_matches insn 0xe003 0x2002 then op 8 0 True insn
         else None)"

text \<open>Length and value of a store.\<close>

definition store_decode :: "ulong \<Rightarrow> (nat \<Rightarrow> ulong) \<Rightarrow> (nat \<Rightarrow> ulong) \<Rightarrow> (nat \<times> ulong) option" where
  "store_decode insn x f =
     (let rs2 = insn_field 20 5 insn; rs2s = unat (RVC_RS2S insn); rs2c = insn_field 2 5 insn
      in if insn_matches insn 0x707f 0x2023 then Some (4, x rs2)
         else if insn_matches insn 0x707f 0x3023 then Some (8, x rs2)
         else if insn_matches insn 0x707f 0x3027 then Some (8, f rs2)
         else if insn_matches insn 0x707f 0x2027 then Some (4, signed_take_bit 31 (f rs2))
         else if insn_matches insn 0x707f 0x1023 then Some (2, x rs2)
         else if insn_matches insn 0xe003 0xe000 then Some (8, x rs2s)
         else if insn_matches insn 0xe003 0xe002 \<and> insn_field 7 5 insn \<noteq> 0 then Some (8, x rs2c)
         else if insn_matches insn 0xe003 0xc000 then Some (4, x rs2s)
         else if insn_matches insn 0xe003 0xc002 \<and> insn_field 7 5 insn \<noteq> 0 then Some (4, x rs2c)
         else if insn_matches insn 0xe003 0xa000 then Some (8, f rs2s)
         else if insn_matches insn 0xe003 0xa002 then Some (8, f rs2c)
         else None)"

section \<open>Handlers\<close>

text \<open>The trapped instruction and its length, from \<^verbatim>\<open>mtinst\<close> or from memory.\<close>

definition trapped_insn :: "sbi_plat \<Rightarrow> ulong \<Rightarrow> sbi_trap_regs \<Rightarrow> machine \<Rightarrow> sbi_trap_info + ulong \<times> ulong" where
  "trapped_insn pl tinst regs m =
     (if tinst AND 0x1 \<noteq> 0
      then let insn = tinst OR 0x3 in Inr (insn, if tinst AND 0x2 \<noteq> 0 then INSN_LEN insn else 2)
      else case sbi_get_insn pl (r_mepc regs) m of
             Inl uptrap \<Rightarrow> Inl (uptrap\<lparr>ti_epc := r_mepc regs\<rparr>)
           | Inr insn \<Rightarrow> Inr (insn, INSN_LEN insn))"

fun load_bytes :: "sbi_plat \<Rightarrow> machine \<Rightarrow> ulong \<Rightarrow> nat \<Rightarrow> nat \<Rightarrow> sbi_trap_info + u8 list" where
  "load_bytes pl m addr i 0 = Inr []"
| "load_bytes pl m addr i (Suc n) =
     (case sbi_load_u8 pl (addr + of_nat i) m of
        Inl uptrap \<Rightarrow> Inl uptrap
      | Inr b \<Rightarrow> (case load_bytes pl m addr (i + 1) n of Inl uptrap \<Rightarrow> Inl uptrap | Inr bs \<Rightarrow> Inr (b # bs)))"

definition load_commit :: "hartid \<Rightarrow> load_op \<Rightarrow> ulong \<Rightarrow> sbi_trap_regs \<Rightarrow> machine \<Rightarrow> sbi_trap_regs \<times> machine" where
  "load_commit h op val regs m =
     (if \<not> ld_fp op then (SET_RD (ld_insn op) (signed_drop_bit (ld_shift op) (push_bit (ld_shift op) val)) regs, m)
      else let rd = insn_field 7 5 (ld_insn op);
               v = (if ld_len op = 8 then val else take_bit 32 val OR NOT (mask 32))
           in (regs, m\<lparr>h_freg := (h_freg m)(h := (h_freg m h)(rd := v))\<rparr>))"

definition sbi_misaligned_load_handler ::
  "sbi_plat \<Rightarrow> hartid \<Rightarrow> ulong \<Rightarrow> ulong \<Rightarrow> ulong \<Rightarrow> sbi_trap_regs \<Rightarrow> machine \<Rightarrow> int \<times> sbi_trap_regs \<times> machine" where
  "sbi_misaligned_load_handler pl h addr tval2 tinst regs m =
     (let m = incr_fw h 0 m
      in case trapped_insn pl tinst regs m of
           Inl uptrap \<Rightarrow> redirect pl h uptrap regs m
         | Inr (insn, insn_len) \<Rightarrow>
             (case load_decode insn of
                None \<Rightarrow> redirect pl h \<lparr>ti_epc = r_mepc regs, ti_cause = CAUSE_MISALIGNED_LOAD, ti_tval = addr,
                                      ti_tval2 = tval2, ti_tinst = tinst\<rparr> regs m
              | Some op \<Rightarrow>
                  (case load_bytes pl m addr 0 (ld_len op) of
                     Inl uptrap \<Rightarrow> redirect pl h (uptrap\<lparr>ti_epc := r_mepc regs\<rparr>) regs m
                   | Inr bs \<Rightarrow>
                       (case load_commit h op (le_word bs) regs m of
                          (regs, m) \<Rightarrow> (0, regs\<lparr>r_mepc := r_mepc regs + insn_len\<rparr>, m)))))"

fun store_bytes :: "sbi_plat \<Rightarrow> ulong \<Rightarrow> nat \<Rightarrow> u8 list \<Rightarrow> machine \<Rightarrow> sbi_trap_info option \<times> machine" where
  "store_bytes pl addr i [] m = (None, m)"
| "store_bytes pl addr i (b # bs) m =
     (case sbi_store_u8 pl (addr + of_nat i) b m of
        Inl uptrap \<Rightarrow> (Some uptrap, m)
      | Inr m \<Rightarrow> store_bytes pl addr (i + 1) bs m)"

definition sbi_misaligned_store_handler ::
  "sbi_plat \<Rightarrow> hartid \<Rightarrow> ulong \<Rightarrow> ulong \<Rightarrow> ulong \<Rightarrow> sbi_trap_regs \<Rightarrow> machine \<Rightarrow> int \<times> sbi_trap_regs \<times> machine" where
  "sbi_misaligned_store_handler pl h addr tval2 tinst regs m =
     (let m = incr_fw h 1 m
      in case trapped_insn pl tinst regs m of
           Inl uptrap \<Rightarrow> redirect pl h uptrap regs m
         | Inr (insn, insn_len) \<Rightarrow>
             (case store_decode insn (gpr regs) (h_freg m h) of
                None \<Rightarrow> redirect pl h \<lparr>ti_epc = r_mepc regs, ti_cause = CAUSE_MISALIGNED_STORE, ti_tval = addr,
                                      ti_tval2 = tval2, ti_tinst = tinst\<rparr> regs m
              | Some (len, val) \<Rightarrow>
                  (case store_bytes pl addr 0 (word_bytes len val) m of
                     (Some uptrap, m) \<Rightarrow> redirect pl h (uptrap\<lparr>ti_epc := r_mepc regs\<rparr>) regs m
                   | (None, m) \<Rightarrow> (0, regs\<lparr>r_mepc := r_mepc regs + insn_len\<rparr>, m))))"

section \<open>Loads and stores have their architectural effect\<close>

lemma insn_fields_eq:
  assumes "insn_field 0 7 insn = opc" and "insn_field 12 3 insn = f3"
  shows "insn AND 0x707f = of_nat opc OR push_bit 12 (of_nat f3)"
proof -
  have f: "drop_bit 0 insn AND mask 7 = of_nat opc" "drop_bit 12 insn AND mask 3 = of_nat f3"
    using assms by (auto simp: insn_field_def)
  have "(0x707f :: ulong) = mask 7 OR push_bit 12 (mask 3)" by (simp add: mask_eq_exp_minus_1)
  then have "insn AND 0x707f = (insn AND mask 7) OR (insn AND push_bit 12 (mask 3))"
    by (simp only: bit.conj_disj_distrib)
  also have "insn AND push_bit 12 (mask 3) = push_bit 12 (drop_bit 12 insn AND mask 3)"
    by (rule bit_word_eqI) (auto simp: bit_simps)
  finally show ?thesis using f by simp
qed

lemma insn_low_bits:
  assumes "insn_field 0 7 insn = opc"
  shows "insn AND 3 = of_nat opc AND 3"
proof -
  have "insn AND mask 7 = of_nat opc" using assms by (auto simp: insn_field_def)
  then have "(insn AND mask 7) AND 3 = of_nat opc AND 3" by simp
  moreover have "(mask 7 :: ulong) AND 3 = 3" by (simp add: mask_eq_exp_minus_1)
  ultimately show ?thesis by (simp add: and.assoc)
qed

text \<open>The value of a load by its \<open>funct3\<close> field: the low two bits give the width, bit 2 selects zero extension.\<close>

definition isa_width :: "nat \<Rightarrow> nat" where
  "isa_width f3 = 2 ^ (f3 mod 4)"

definition isa_extend :: "nat \<Rightarrow> ulong \<Rightarrow> ulong" where
  "isa_extend f3 v = (if f3 < 4 then signed_take_bit (8 * isa_width f3 - 1) v else v)"

lemma shift_pair: "s < 64 \<Longrightarrow> signed_drop_bit s (push_bit s (v :: ulong)) = signed_take_bit (63 - s) v"
proof (rule bit_word_eqI)
  fix n assume s: "s < 64" and "n < LENGTH(64)"
  then have "n = 63 - s \<or> n < 63 - s \<or> 64 - s \<le> n" "s + (63 - s) = 63" "n < 64" by auto
  then show "bit (signed_drop_bit s (push_bit s v)) n = bit (signed_take_bit (63 - s) v) n"
    using s by (elim disjE) (auto simp: bit_signed_drop_bit_iff bit_push_bit_iff bit_signed_take_bit_iff min_def)
qed

lemma load_decode_isa:
  assumes "insn_field 0 7 insn = 0x03" and "insn_field 12 3 insn = f3" and "f3 \<in> {1, 2, 3, 5, 6}"
  shows "\<exists>op. load_decode insn = Some op \<and> ld_len op = isa_width f3 \<and> \<not> ld_fp op \<and> ld_insn op = insn \<and>
    signed_drop_bit (ld_shift op) (push_bit (ld_shift op) v) = isa_extend f3 v"
  using assms(3)
  by (elim insertE emptyE)
    (simp_all add: load_decode_def insn_matches_def insn_fields_eq [OF assms(1,2)] Let_def isa_width_def isa_extend_def
      shift_pair [of 32, simplified] shift_pair [of 48, simplified] shift_pair [of 0, simplified])

lemma ucast_u8_ulong [simp]: "(ucast (ucast (b :: u8) :: ulong) :: u8) = b"
  by (rule bit_word_eqI) (auto simp: bit_ucast_iff)

lemma load_bytes_ok:
  assumes "\<forall>j. i \<le> j \<and> j < i + n \<longrightarrow> p_ufault pl ULoad 1 (addr + of_nat j) = None"
  shows "load_bytes pl m addr i n = Inr (map (\<lambda>j. u_mem m (addr + of_nat j)) [i..<i + n])"
  using assms
proof (induction n arbitrary: i)
  case (Suc n)
  have "sbi_load_u8 pl (addr + of_nat i) m = Inr (u_mem m (addr + of_nat i))"
    using Suc.prems by (simp add: sbi_load_u8_def unpriv_load_def mem_bytes_def)
  moreover have "load_bytes pl m addr (i + 1) n = Inr (map (\<lambda>j. u_mem m (addr + of_nat j)) [i + 1..<i + 1 + n])"
    using Suc.prems by (intro Suc.IH) auto
  moreover have "[i..<i + Suc n] = i # [i + 1..<i + 1 + n]" by (simp add: upt_conv_Cons del: upt_Suc)
  ultimately show ?case by (simp del: upt_Suc)
qed simp

lemma sbi_get_insn_incr_fw [simp]: "sbi_get_insn pl a (incr_fw h k m) = sbi_get_insn pl a m"
  by (simp add: sbi_get_insn_def)

lemma incr_fw_frame: "incr_fw h k m = m\<lparr>m_pmu := m_pmu (incr_fw h k m)\<rparr>"
  by (simp add: incr_fw_def split: option.splits prod.splits)

text \<open>
  C39. A misaligned load of the base instruction set (\<^verbatim>\<open>lh\<close>, \<^verbatim>\<open>lhu\<close>, \<^verbatim>\<open>lw\<close>, \<^verbatim>\<open>lwu\<close>, \<^verbatim>\<open>ld\<close>) whose bytes are accessible
  to the interrupted mode completes as if the hart had done it: the target register gets the
  little-endian value, sign- or zero-extended as the instruction says, and execution goes on
  after the instruction. Nothing else changes but a firmware counter.
\<close>

theorem misaligned_load_emulated:
  assumes fetch: "sbi_get_insn pl (r_mepc regs) m = Inr insn"
    and opc: "insn_field 0 7 insn = 0x03" "insn_field 12 3 insn = f3" "f3 \<in> {1, 2, 3, 5, 6}"
    and acc: "\<forall>j < isa_width f3. p_ufault pl ULoad 1 (addr + of_nat j) = None"
  shows "\<exists>m'. sbi_misaligned_load_handler pl h addr tval2 0 regs m =
      (0, regs\<lparr>gpr := (gpr regs)(insn_field 7 5 insn := isa_extend f3 (le_word (mem_bytes (isa_width f3) addr (u_mem m)))),
               r_mepc := r_mepc regs + 4\<rparr>, m') \<and>
    m' = m\<lparr>m_pmu := m_pmu m'\<rparr>"
proof -
  let ?m = "incr_fw h 0 m" and ?v = "le_word (mem_bytes (isa_width f3) addr (u_mem m))"
  obtain op where op: "load_decode insn = Some op" "ld_len op = isa_width f3" "\<not> ld_fp op" "ld_insn op = insn"
    "signed_drop_bit (ld_shift op) (push_bit (ld_shift op) ?v) = isa_extend f3 ?v"
    using load_decode_isa [OF opc, of ?v] by auto
  have "insn AND 3 = 3" using insn_low_bits [OF opc(1)] by simp
  then have t: "trapped_insn pl 0 regs ?m = Inr (insn, 4)" by (simp add: trapped_insn_def fetch INSN_LEN_def)
  have b: "load_bytes pl ?m addr 0 (isa_width f3) = Inr (mem_bytes (isa_width f3) addr (u_mem m))"
    using load_bytes_ok [of 0 "isa_width f3" pl addr ?m] acc by (simp add: mem_bytes_def)
  show ?thesis
    using incr_fw_frame [of h 0 m]
    by (auto simp: sbi_misaligned_load_handler_def Let_def t op(1,2) b load_commit_def op(3-5) SET_RD_def)
qed

text \<open>A memory with the instructions \<^verbatim>\<open>lw a0, 0(a1)\<close> and \<^verbatim>\<open>sw a0, 0(a1)\<close>, and a word at the odd address \<open>0x2001\<close>.\<close>

definition code_example :: "ulong \<Rightarrow> u8" where
  "code_example a =
     (if a = 0x1000 then 0x03 else if a = 0x1001 then 0xa5 else if a = 0x1002 then 0x05
      else if a = 0x1004 then 0x23 else if a = 0x1005 then 0xa0 else if a = 0x1006 then 0xa5
      else if a = 0x2001 then 0x78 else if a = 0x2002 then 0x56 else if a = 0x2003 then 0x34 else if a = 0x2004 then 0x92 else 0)"

lemma sbi_get_insn_example:
  "sbi_get_insn plat_example 0x1000 (machine_boot\<lparr>u_mem := code_example\<rparr>) = Inr 0x5a503"
  "sbi_get_insn plat_example 0x1004 (machine_boot\<lparr>u_mem := code_example\<rparr>) = Inr 0xa5a023"
proof -
  have b: "mem_bytes 2 a mem = [mem a, mem (a + 1)]" for a mem by (simp add: mem_bytes_def eval_nat_numeral)
  have c: "code_example 0x1000 = 0x03" "code_example 0x1001 = 0xa5" "code_example 0x1002 = 0x05" "code_example 0x1003 = 0"
    "code_example 0x1004 = 0x23" "code_example 0x1005 = 0xa0" "code_example 0x1006 = 0xa5" "code_example 0x1007 = 0"
    by (simp_all add: code_example_def)
  have l: "le_word [0x03, 0xa5] = 0xa503" "le_word [0x05, 0] = 0x5" "le_word [0x23, 0xa0] = 0xa023" "le_word [0xa5, 0] = 0xa5"
    by code_simp+
  have p: "p_ufault plat_example = (\<lambda>_ _ _. None)" by (simp add: plat_example_def)
  show "sbi_get_insn plat_example 0x1000 (machine_boot\<lparr>u_mem := code_example\<rparr>) = Inr 0x5a503"
    "sbi_get_insn plat_example 0x1004 (machine_boot\<lparr>u_mem := code_example\<rparr>) = Inr 0xa5a023"
    by (simp_all add: sbi_get_insn_def b c l p Let_def)
qed

theorem misaligned_load_emulated_witness:
  "\<exists>m'. sbi_misaligned_load_handler plat_example 0 0x2001 0 0 \<lparr>gpr = (\<lambda>_. 0), r_mepc = 0x1000, r_mstatus = 0\<rparr>
      (machine_boot\<lparr>u_mem := code_example\<rparr>) =
      (0, \<lparr>gpr = (\<lambda>_. 0)(10 := 0xFFFFFFFF92345678), r_mepc = 0x1004, r_mstatus = 0\<rparr>, m')"
proof -
  let ?m = "machine_boot\<lparr>u_mem := code_example\<rparr>"
  note f = sbi_get_insn_example(1)
  have d: "insn_field 0 7 0x5a503 = 0x03" "insn_field 12 3 0x5a503 = 2" "insn_field 7 5 0x5a503 = 10" by code_simp+
  have w: "isa_width 2 = 4" by (simp add: isa_width_def)
  have v: "isa_extend 2 (le_word (mem_bytes 4 0x2001 code_example)) = 0xFFFFFFFF92345678" by code_simp
  from misaligned_load_emulated [where pl = plat_example and m = ?m and insn = "0x5a503" and ?f3.0 = 2 and addr = "0x2001"
      and regs = "\<lparr>gpr = (\<lambda>_. 0), r_mepc = 0x1000, r_mstatus = 0\<rparr>" and h = 0 and ?tval2.0 = 0] f d v w
  show ?thesis by (auto simp: plat_example_def)
qed

lemma store_bytes_ok:
  assumes "\<forall>j. i \<le> j \<and> j < i + length bs \<longrightarrow> p_ufault pl UStore 1 (addr + of_nat j) = None"
  shows "store_bytes pl addr i bs m = (None, m\<lparr>u_mem := mem_store (addr + of_nat i) bs (u_mem m)\<rparr>)"
  using assms
proof (induction bs arbitrary: i m)
  case (Cons b bs)
  have "sbi_store_u8 pl (addr + of_nat i) b m = Inr (m\<lparr>u_mem := (u_mem m)(addr + of_nat i := b)\<rparr>)"
    using Cons.prems by (simp add: sbi_store_u8_def unpriv_store_def word_bytes_def)
  moreover have "\<forall>j. i + 1 \<le> j \<and> j < i + 1 + length bs \<longrightarrow> p_ufault pl UStore 1 (addr + of_nat j) = None"
    using Cons.prems by auto
  ultimately show ?case using Cons.IH [of "i + 1"] by (simp add: algebra_simps)
qed simp

text \<open>
  A misaligned store of the base instruction set (\<^verbatim>\<open>sh\<close>, \<^verbatim>\<open>sw\<close>, \<^verbatim>\<open>sd\<close>) whose bytes are accessible
  completes: exactly its bytes hold the low part of the source register, and execution goes on
  after the instruction.
\<close>

theorem misaligned_store_emulated:
  assumes fetch: "sbi_get_insn pl (r_mepc regs) m = Inr insn"
    and opc: "insn_field 0 7 insn = 0x23" "insn_field 12 3 insn = f3" "f3 \<in> {1, 2, 3}"
    and acc: "\<forall>j < isa_width f3. p_ufault pl UStore 1 (addr + of_nat j) = None"
  shows "\<exists>m'. sbi_misaligned_store_handler pl h addr tval2 0 regs m = (0, regs\<lparr>r_mepc := r_mepc regs + 4\<rparr>, m') \<and>
    m' = m\<lparr>m_pmu := m_pmu m', u_mem := u_mem m'\<rparr> \<and>
    le_word (mem_bytes (isa_width f3) addr (u_mem m')) = take_bit (8 * isa_width f3) (gpr regs (insn_field 20 5 insn)) \<and>
    (\<forall>a. isa_width f3 \<le> unat (a - addr) \<longrightarrow> u_mem m' a = u_mem m a)"
proof -
  let ?m = "incr_fw h 1 m" and ?v = "gpr regs (insn_field 20 5 insn)" and ?n = "isa_width f3"
  let ?bs = "word_bytes ?n ?v"
  have n: "?n \<le> 8" using opc(3) by (auto simp: isa_width_def)
  have d: "store_decode insn (gpr regs) (h_freg m h) = Some (?n, ?v)"
    using opc(3) by (elim insertE emptyE)
      (simp_all add: store_decode_def insn_matches_def insn_fields_eq [OF opc(1,2)] Let_def isa_width_def)
  have "insn AND 3 = 3" using insn_low_bits [OF opc(1)] by simp
  then have t: "trapped_insn pl 0 regs ?m = Inr (insn, 4)" by (simp add: trapped_insn_def fetch INSN_LEN_def)
  have b: "store_bytes pl addr 0 ?bs ?m = (None, ?m\<lparr>u_mem := mem_store addr ?bs (u_mem m)\<rparr>)"
    using store_bytes_ok [of 0 ?bs pl addr ?m] acc by simp
  have run: "sbi_misaligned_store_handler pl h addr tval2 0 regs m =
      (0, regs\<lparr>r_mepc := r_mepc regs + 4\<rparr>, ?m\<lparr>u_mem := mem_store addr ?bs (u_mem m)\<rparr>)"
    by (simp add: sbi_misaligned_store_handler_def Let_def t d b del: One_nat_def)
  have rb: "mem_bytes ?n addr (mem_store addr ?bs (u_mem m)) = ?bs"
    using mem_bytes_store [of ?bs addr "u_mem m"] n by simp
  have "?m\<lparr>u_mem := u\<rparr> = m\<lparr>m_pmu := m_pmu ?m, u_mem := u\<rparr>" for u by (subst incr_fw_frame) simp
  then show ?thesis
    unfolding run using rb n by (intro exI conjI) (auto simp: le_word_bytes mem_store_nth)
qed

theorem misaligned_store_emulated_witness:
  "\<exists>m'. sbi_misaligned_store_handler plat_example 0 0x2001 0 0
      \<lparr>gpr = (\<lambda>_. 0)(10 := 0x11223344), r_mepc = 0x1004, r_mstatus = 0\<rparr> (machine_boot\<lparr>u_mem := code_example\<rparr>) =
      (0, \<lparr>gpr = (\<lambda>_. 0)(10 := 0x11223344), r_mepc = 0x1008, r_mstatus = 0\<rparr>, m') \<and>
    le_word (mem_bytes 4 0x2001 (u_mem m')) = 0x11223344"
proof -
  let ?m = "machine_boot\<lparr>u_mem := code_example\<rparr>"
  note f = sbi_get_insn_example(2)
  have d: "insn_field 0 7 0xa5a023 = 0x23" "insn_field 12 3 0xa5a023 = 2" "insn_field 20 5 0xa5a023 = 10" by code_simp+
  have w: "isa_width 2 = 4" by (simp add: isa_width_def)
  have t: "take_bit 32 (0x11223344 :: ulong) = 0x11223344" by simp
  from misaligned_store_emulated [where pl = plat_example and m = ?m and insn = "0xa5a023" and ?f3.0 = 2 and addr = "0x2001"
      and regs = "\<lparr>gpr = (\<lambda>_. 0)(10 := 0x11223344), r_mepc = 0x1004, r_mstatus = 0\<rparr>" and h = 0 and ?tval2.0 = 0] f d w t
  show ?thesis by (auto simp: plat_example_def)
qed

section \<open>Gaps in the emulation\<close>

text \<open>
  The compressed store \<^verbatim>\<open>c.sdsp\<close> is recognised only if bits 7 to 11 are not all zero. Those are bits of
  its offset: with offset 0 or 32 the store is not emulated but handed to the supervisor.
\<close>

lemma misaligned_c_sdsp_redirected:
  assumes "sbi_get_insn pl (r_mepc regs) m = Inr insn" and "insn AND 0xe003 = 0xe002" and "insn_field 7 5 insn = 0"
    and "insn AND 0x707f \<notin> {0x2023, 0x3023, 0x3027, 0x2027, 0x1023}"
  shows "sbi_misaligned_store_handler pl h addr tval2 0 regs m =
    redirect pl h \<lparr>ti_epc = r_mepc regs, ti_cause = CAUSE_MISALIGNED_STORE, ti_tval = addr, ti_tval2 = tval2, ti_tinst = 0\<rparr>
      regs (incr_fw h 1 m)"
  using assms by (simp add: sbi_misaligned_store_handler_def trapped_insn_def store_decode_def insn_matches_def Let_def)

text \<open>
  \<^verbatim>\<open>SET_FS_DIRTY\<close> does nothing: an emulated floating-point load changes a floating-point register but
  leaves the status word that the return from the trap restores as it was, whatever its \<open>FS\<close> field.
\<close>

lemma misaligned_fp_load_keeps_fs:
  assumes "ld_fp op" and "load_commit h op val regs m = (regs', m')"
  shows "r_mstatus regs' = r_mstatus regs \<and>
    h_freg m' h (insn_field 7 5 (ld_insn op)) = (if ld_len op = 8 then val else take_bit 32 val OR NOT (mask 32))"
  using assms by (auto simp: load_commit_def Let_def)

end
