(* ===== verification/Sbi_Hsm.thy ===== *)
theory Sbi_Hsm
  imports Sbi_Timer
begin

text \<open>
  Hart state management, \<^verbatim>\<open>lib/sbi/sbi_hsm.c\<close>: starting, stopping, suspending and resuming harts. The
  state of a hart is one cell that is changed by compare-and-exchange only. The first part models
  every function, run without interference; the second part is the system of all harts, in which
  the single memory operations of these functions interleave.

  \<open>h\<close> is the current hart. \<open>None\<close> is an access outside a table. Console output is left out.
\<close>

section \<open>States\<close>

abbreviation (input) SBI_HSM_STATE_STARTED :: ulong where "SBI_HSM_STATE_STARTED \<equiv> 0"
abbreviation (input) SBI_HSM_STATE_STOPPED :: ulong where "SBI_HSM_STATE_STOPPED \<equiv> 1"
abbreviation (input) SBI_HSM_STATE_START_PENDING :: ulong where "SBI_HSM_STATE_START_PENDING \<equiv> 2"
abbreviation (input) SBI_HSM_STATE_STOP_PENDING :: ulong where "SBI_HSM_STATE_STOP_PENDING \<equiv> 3"
abbreviation (input) SBI_HSM_STATE_SUSPENDED :: ulong where "SBI_HSM_STATE_SUSPENDED \<equiv> 4"
abbreviation (input) SBI_HSM_STATE_RESUME_PENDING :: ulong where "SBI_HSM_STATE_RESUME_PENDING \<equiv> 6"

abbreviation (input) SBI_HSM_SUSP_NON_RET_BIT :: ulong where "SBI_HSM_SUSP_NON_RET_BIT \<equiv> 0x80000000"
abbreviation (input) SBI_HSM_SUSPEND_RET_DEFAULT :: ulong where "SBI_HSM_SUSPEND_RET_DEFAULT \<equiv> 0"
abbreviation (input) SBI_HSM_SUSPEND_RET_PLATFORM :: ulong where "SBI_HSM_SUSPEND_RET_PLATFORM \<equiv> 0x10000000"
abbreviation (input) SBI_HSM_SUSPEND_NON_RET_DEFAULT :: ulong where "SBI_HSM_SUSPEND_NON_RET_DEFAULT \<equiv> 0x80000000"
abbreviation (input) SBI_HSM_SUSPEND_NON_RET_PLATFORM :: ulong where "SBI_HSM_SUSPEND_NON_RET_PLATFORM \<equiv> 0x90000000"

section \<open>Functions\<close>

text \<open>\<^verbatim>\<open>sbi_hartid_to_scratch\<close>: whether the table has a scratch space for the hart.\<close>

definition hartid_scratch :: "nat \<Rightarrow> machine \<Rightarrow> bool option" where
  "hartid_scratch hartid m = (if hartid < SBI_HARTMASK_MAX_BITS then Some (has_scratch m hartid) else None)"

definition sbi_domain_thishart :: "hartid \<Rightarrow> machine \<Rightarrow> sbi_domain option" where
  "sbi_domain_thishart h m = map_option (dom_obj (m_dom m)) (hartid_to_domain_table (m_dom m) h)"

definition hsm_get_state :: "nat \<Rightarrow> machine \<Rightarrow> int option" where
  "hsm_get_state hartid m =
     map_option (\<lambda>sc. if \<not> sc then SBI_EINVAL else sint (ucast (atomic_read (hsm_state (hsm_data m hartid))) :: u32))
       (hartid_scratch hartid m)"

definition sbi_hsm_hart_get_state :: "sbi_domain option \<Rightarrow> nat \<Rightarrow> machine \<Rightarrow> int option" where
  "sbi_hsm_hart_get_state dm hartid m =
     (case sbi_domain_is_assigned_hart dm hartid of
        None \<Rightarrow> None | Some False \<Rightarrow> Some SBI_EINVAL | Some True \<Rightarrow> hsm_get_state hartid m)"

fun interruptible_loop :: "ulong \<Rightarrow> nat \<Rightarrow> nat list \<Rightarrow> machine \<Rightarrow> ulong \<Rightarrow> ulong option" where
  "interruptible_loop dmask hbase [] m out = Some out"
| "interruptible_loop dmask hbase (i # js) m out =
     (let hmask = push_bit (i - hbase) 1
      in if dmask AND hmask \<noteq> 0
         then case hsm_get_state i m of
                None \<Rightarrow> None
              | Some hstate \<Rightarrow>
                  interruptible_loop dmask hbase js m (if hstate = 0 \<or> hstate = 4 then out OR hmask else out)
         else interruptible_loop dmask hbase js m out)"

definition sbi_hsm_hart_interruptible_mask :: "sbi_domain option \<Rightarrow> ulong \<Rightarrow> machine \<Rightarrow> (int \<times> ulong) option" where
  "sbi_hsm_hart_interruptible_mask dm hbase m =
     (let hend = last_hartid m + 1; hb = unat hbase
      in if hend \<le> hb then Some (SBI_EINVAL, 0)
         else let hend = (if BITS_PER_LONG < hend - hb then hb + BITS_PER_LONG else hend)
         in case sbi_domain_get_assigned_hartmask dm hb of
              None \<Rightarrow> None
            | Some dmask \<Rightarrow> map_option (Pair 0) (interruptible_loop dmask hb [hb..<hend] m 0))"

text \<open>A compare-and-exchange on the state of a hart: the old state and the machine with the new one.\<close>

definition hsm_cmpxchg :: "hartid \<Rightarrow> ulong \<Rightarrow> ulong \<Rightarrow> machine \<Rightarrow> ulong \<times> machine" where
  "hsm_cmpxchg h oldval newval m =
     (case atomic_cmpxchg oldval newval (hsm_state (hsm_data m h)) of
        (ret, v) \<Rightarrow> (ret, upd_hsm h (\<lambda>d. d\<lparr>hsm_state := v\<rparr>) m))"

definition sbi_hsm_prepare_next_jump :: "hartid \<Rightarrow> machine \<Rightarrow> unit run" where
  "sbi_hsm_prepare_next_jump h m =
     (case hsm_cmpxchg h SBI_HSM_STATE_START_PENDING SBI_HSM_STATE_STARTED m of
        (oldstate, m) \<Rightarrow> if oldstate \<noteq> SBI_HSM_STATE_START_PENDING then Hung m else Ret () m)"

text \<open>
  The wait for a start request. \<open>env n\<close> is what the other harts do during the sleep number \<open>n\<close>; a wait
  that does not end within the fuel is \<open>None\<close>.
\<close>

fun hart_wait_loop :: "nat \<Rightarrow> (nat \<Rightarrow> machine \<Rightarrow> machine) \<Rightarrow> hartid \<Rightarrow> nat \<Rightarrow> machine \<Rightarrow> machine option" where
  "hart_wait_loop 0 env h n m = None"
| "hart_wait_loop (Suc fuel) env h n m =
     (if atomic_read (hsm_state (hsm_data m h)) = SBI_HSM_STATE_START_PENDING then Some m
      else hart_wait_loop fuel env h (n + 1) (env n (log_ev (Ev_wfi h) m)))"

definition sbi_hsm_hart_wait :: "sbi_plat \<Rightarrow> nat \<Rightarrow> (nat \<Rightarrow> machine \<Rightarrow> machine) \<Rightarrow> hartid \<Rightarrow> machine \<Rightarrow> machine option" where
  "sbi_hsm_hart_wait pl fuel env h m =
     (let saved = h_csr m h CSR_MIE;
          m = upd_csr h (csr_set (p_hw pl) CSR_MIE MIP_MSIP) m
      in map_option (upd_csr h (csr_write (p_hw pl) CSR_MIE saved)) (hart_wait_loop fuel env h 0 m))"

definition sbi_hsm_set_device :: "sbi_hsm_device option \<Rightarrow> machine \<Rightarrow> machine" where
  "sbi_hsm_set_device dev m = (case (dev, hsm_dev m) of (Some d, None) \<Rightarrow> m\<lparr>hsm_dev := Some d\<rparr> | _ \<Rightarrow> m)"

definition hsm_device_has_hart_hotplug :: "machine \<Rightarrow> bool" where
  "hsm_device_has_hart_hotplug m = (case hsm_dev m of Some d \<Rightarrow> dev_hart_start d \<noteq> None \<and> dev_hart_stop d \<noteq> None | None \<Rightarrow> False)"

definition hsm_device_has_hart_secondary_boot :: "machine \<Rightarrow> bool" where
  "hsm_device_has_hart_secondary_boot m =
     (case hsm_dev m of Some d \<Rightarrow> dev_hart_start d \<noteq> None \<and> dev_hart_stop d = None | None \<Rightarrow> False)"

definition hsm_device_hart_start :: "hartid \<Rightarrow> ulong \<Rightarrow> machine \<Rightarrow> int \<times> machine" where
  "hsm_device_hart_start hartid saddr m =
     (case hsm_dev m of
        Some d \<Rightarrow> (case dev_hart_start d of Some f \<Rightarrow> (f hartid saddr, log_ev (Ev_hart_start hartid saddr) m) | None \<Rightarrow> (SBI_ENOTSUPP, m))
      | None \<Rightarrow> (SBI_ENOTSUPP, m))"

definition hsm_device_hart_stop :: "hartid \<Rightarrow> machine \<Rightarrow> int run" where
  "hsm_device_hart_stop h m =
     (case hsm_dev m of
        Some d \<Rightarrow>
          (case dev_hart_stop d of
             Some res \<Rightarrow> (case res of None \<Rightarrow> Powered_off (log_ev (Ev_hart_stop h) m) | Some rc \<Rightarrow> Ret rc (log_ev (Ev_hart_stop h) m))
           | None \<Rightarrow> Ret SBI_ENOTSUPP m)
      | None \<Rightarrow> Ret SBI_ENOTSUPP m)"

definition hsm_device_hart_suspend :: "hartid \<Rightarrow> ulong \<Rightarrow> ulong \<Rightarrow> machine \<Rightarrow> int run" where
  "hsm_device_hart_suspend h stype raddr m =
     (case hsm_dev m of
        Some d \<Rightarrow>
          (case dev_hart_suspend d of
             Some f \<Rightarrow> (case f stype raddr of None \<Rightarrow> Warmboot (log_ev (Ev_hart_suspend h stype) m)
                                         | Some rc \<Rightarrow> Ret rc (log_ev (Ev_hart_suspend h stype) m))
           | None \<Rightarrow> Ret SBI_ENOTSUPP m)
      | None \<Rightarrow> Ret SBI_ENOTSUPP m)"

text \<open>\<open>off\<close> is the offset allocated for the hart data in the cold boot, zero if there was no space.\<close>

fun hsm_init_loop :: "hartid \<Rightarrow> nat list \<Rightarrow> machine \<Rightarrow> machine" where
  "hsm_init_loop hartid [] m = m"
| "hsm_init_loop hartid (i # js) m =
     hsm_init_loop hartid js
       (if has_scratch m i
        then upd_hsm i (\<lambda>d. d\<lparr>hsm_state := if i = hartid then SBI_HSM_STATE_START_PENDING else SBI_HSM_STATE_STOPPED\<rparr>) m
        else m)"

definition sbi_hsm_init ::
  "sbi_plat \<Rightarrow> nat \<Rightarrow> (nat \<Rightarrow> machine \<Rightarrow> machine) \<Rightarrow> ulong \<Rightarrow> hartid \<Rightarrow> bool \<Rightarrow> machine \<Rightarrow> (int \<times> machine) option" where
  "sbi_hsm_init pl fuel env off h cold_boot m =
     (if cold_boot
      then if off = 0 then Some (SBI_ENOMEM, m) else Some (0, hsm_init_loop h [0..<last_hartid m + 1] m)
      else map_option (Pair 0) (sbi_hsm_hart_wait pl fuel env h m))"

definition sbi_hsm_exit :: "hartid \<Rightarrow> machine \<Rightarrow> unit run" where
  "sbi_hsm_exit h m =
     (case hsm_cmpxchg h SBI_HSM_STATE_STOP_PENDING SBI_HSM_STATE_STOPPED m of
        (hstate, m) \<Rightarrow>
          if hstate \<noteq> SBI_HSM_STATE_STOP_PENDING then Hung m
          else if hsm_device_has_hart_hotplug m
          then run_bind (hsm_device_hart_stop h m) (\<lambda>_ m. Hung m)
          else Warmboot m)"

definition sbi_init_count :: "nat \<Rightarrow> machine \<Rightarrow> ulong" where
  "sbi_init_count hartid m =
     (if init_count_offset (m_init m) = 0 then 0 else if has_scratch m hartid then init_count m hartid else 0)"

definition sbi_ipi_raw_send :: "hartid \<Rightarrow> machine \<Rightarrow> machine" where
  "sbi_ipi_raw_send target m =
     (case ipi_dev m of Some d \<Rightarrow> if has_ipi_send d then log_ev (Ev_ipi_send target) m else m | None \<Rightarrow> m)"

definition sbi_hsm_hart_start ::
  "sbi_plat \<Rightarrow> sbi_domain option \<Rightarrow> nat \<Rightarrow> ulong \<Rightarrow> ulong \<Rightarrow> ulong \<Rightarrow> machine \<Rightarrow> (int \<times> machine) option" where
  "sbi_hsm_hart_start pl dm hartid saddr smode priv m =
     (if smode \<noteq> PRV_S \<and> smode \<noteq> PRV_U then Some (SBI_EINVAL, m)
      else case (if dm = None then Some True else sbi_domain_is_assigned_hart dm hartid) of
          None \<Rightarrow> None
        | Some False \<Rightarrow> Some (SBI_EINVAL, m)
        | Some True \<Rightarrow>
            (if dm \<noteq> None \<and> \<not> sbi_domain_check_addr dm saddr smode SBI_DOMAIN_EXECUTE then Some (SBI_EINVALID_ADDR, m)
             else case hartid_scratch hartid m of
                 None \<Rightarrow> None
               | Some False \<Rightarrow> Some (SBI_EINVAL, m)
               | Some True \<Rightarrow>
                   (case hsm_cmpxchg hartid SBI_HSM_STATE_STOPPED SBI_HSM_STATE_START_PENDING m of
                      (hstate, m) \<Rightarrow>
                        if hstate = SBI_HSM_STATE_STARTED then Some (SBI_EALREADY, m)
                        else if hstate \<noteq> SBI_HSM_STATE_STOPPED then Some (SBI_EINVAL, m)
                        else let cnt = sbi_init_count hartid m;
                                 m = m\<lparr>next_arg1 := (next_arg1 m)(hartid := priv), next_addr := (next_addr m)(hartid := saddr),
                                       next_mode := (next_mode m)(hartid := smode)\<rparr>
                        in if hsm_device_has_hart_hotplug m \<or> hsm_device_has_hart_secondary_boot m \<and> cnt = 0
                           then Some (hsm_device_hart_start hartid (p_warmboot_addr pl) m)
                           else Some (0, sbi_ipi_raw_send hartid m))))"

text \<open>\<open>exit\<close> is \<^verbatim>\<open>sbi_exit\<close>, which does not return.\<close>

definition sbi_hsm_hart_stop :: "(machine \<Rightarrow> int run) \<Rightarrow> hartid \<Rightarrow> bool \<Rightarrow> machine \<Rightarrow> int run" where
  "sbi_hsm_hart_stop exit h exitnow m =
     (if sbi_domain_thishart h m = None then Ret SBI_EFAIL m
      else case hsm_cmpxchg h SBI_HSM_STATE_STARTED SBI_HSM_STATE_STOP_PENDING m of
          (oldstate, m) \<Rightarrow>
            if oldstate \<noteq> SBI_HSM_STATE_STARTED then Ret SBI_EFAIL m
            else if exitnow then exit m else Ret 0 m)"

definition hsm_suspend_non_ret_save :: "hartid \<Rightarrow> machine \<Rightarrow> machine" where
  "hsm_suspend_non_ret_save h m =
     upd_hsm h (\<lambda>d. d\<lparr>saved_mie := h_csr m h CSR_MIE, saved_mip := h_csr m h CSR_MIP AND (MIP_SSIP OR MIP_STIP)\<rparr>) m"

definition hsm_suspend_non_ret_restore :: "sbi_plat \<Rightarrow> hartid \<Rightarrow> machine \<Rightarrow> machine" where
  "hsm_suspend_non_ret_restore pl h m =
     (let m = upd_csr h (csr_write (p_hw pl) CSR_MIE (saved_mie (hsm_data m h))) m
      in upd_csr h (csr_write (p_hw pl) CSR_MIP (saved_mip (hsm_data m h) AND (MIP_SSIP OR MIP_STIP))) m)"

definition sbi_hsm_hart_resume_start :: "hartid \<Rightarrow> machine \<Rightarrow> unit run" where
  "sbi_hsm_hart_resume_start h m =
     (case hsm_cmpxchg h SBI_HSM_STATE_SUSPENDED SBI_HSM_STATE_RESUME_PENDING m of
        (oldstate, m) \<Rightarrow> if oldstate \<noteq> SBI_HSM_STATE_SUSPENDED then Hung m else Ret () m)"

definition sbi_hsm_hart_resume_finish :: "sbi_plat \<Rightarrow> hartid \<Rightarrow> machine \<Rightarrow> unit run" where
  "sbi_hsm_hart_resume_finish pl h m =
     (case hsm_cmpxchg h SBI_HSM_STATE_RESUME_PENDING SBI_HSM_STATE_STARTED m of
        (oldstate, m) \<Rightarrow>
          if oldstate \<noteq> SBI_HSM_STATE_RESUME_PENDING then Hung m else Ret () (hsm_suspend_non_ret_restore pl h m))"

text \<open>The end of \<^verbatim>\<open>sbi_hsm_hart_suspend\<close>, after the label \<^verbatim>\<open>fail_restore_state\<close>.\<close>

definition suspend_restore :: "hartid \<Rightarrow> int \<Rightarrow> machine \<Rightarrow> int run" where
  "suspend_restore h ret m =
     (case hsm_cmpxchg h SBI_HSM_STATE_SUSPENDED SBI_HSM_STATE_STARTED m of
        (oldstate, m) \<Rightarrow> if oldstate \<noteq> SBI_HSM_STATE_SUSPENDED then Hung m else Ret ret m)"

definition suspend_enter :: "sbi_plat \<Rightarrow> hartid \<Rightarrow> ulong \<Rightarrow> machine \<Rightarrow> int run" where
  "suspend_enter pl h stype m =
     (let m = upd_hsm h (\<lambda>d. d\<lparr>suspend_type := stype\<rparr>) m;
          m = (if stype AND SBI_HSM_SUSP_NON_RET_BIT \<noteq> 0 then hsm_suspend_non_ret_save h m else m)
      in run_bind (hsm_device_hart_suspend h stype (p_warmboot_addr pl) m)
           (\<lambda>ret m.
             if ret = SBI_ENOTSUPP
             then if stype = SBI_HSM_SUSPEND_RET_DEFAULT then suspend_restore h 0 (log_ev (Ev_wfi h) m)
                  else if stype = SBI_HSM_SUSPEND_NON_RET_DEFAULT then Warmboot (log_ev (Ev_wfi h) m)
                  else suspend_restore h ret m
             else suspend_restore h ret m))"

definition sbi_hsm_hart_suspend :: "sbi_plat \<Rightarrow> hartid \<Rightarrow> ulong \<Rightarrow> ulong \<Rightarrow> ulong \<Rightarrow> ulong \<Rightarrow> machine \<Rightarrow> int run" where
  "sbi_hsm_hart_suspend pl h stype raddr rmode priv m =
     (let dm = sbi_domain_thishart h m
      in if dm = None then Ret SBI_EINVAL m
         else if SBI_HSM_SUSPEND_RET_DEFAULT < stype \<and> stype < SBI_HSM_SUSPEND_RET_PLATFORM then Ret SBI_EINVAL m
         else if SBI_HSM_SUSPEND_NON_RET_DEFAULT < stype \<and> stype < SBI_HSM_SUSPEND_NON_RET_PLATFORM then Ret SBI_EINVAL m
         else if stype AND SBI_HSM_SUSP_NON_RET_BIT \<noteq> 0 \<and> rmode \<noteq> PRV_S \<and> rmode \<noteq> PRV_U then Ret SBI_EINVAL m
         else if stype AND SBI_HSM_SUSP_NON_RET_BIT \<noteq> 0 \<and> \<not> sbi_domain_check_addr dm raddr rmode SBI_DOMAIN_EXECUTE
         then Ret SBI_EINVALID_ADDR m
         else let m = m\<lparr>next_arg1 := (next_arg1 m)(h := priv), next_addr := (next_addr m)(h := raddr),
                        next_mode := (next_mode m)(h := rmode)\<rparr>
         in case hsm_cmpxchg h SBI_HSM_STATE_STARTED SBI_HSM_STATE_SUSPENDED m of
              (oldstate, m) \<Rightarrow>
                if oldstate \<noteq> SBI_HSM_STATE_STARTED then suspend_restore h SBI_EDENIED m
                else suspend_enter pl h stype m)"

section \<open>Starting a hart\<close>

lemma hsm_cmpxchg_same: "hsm_state (hsm_data m t) \<noteq> oldval \<Longrightarrow> hsm_cmpxchg t oldval newval m = (hsm_state (hsm_data m t), m)"
proof -
  assume a: "hsm_state (hsm_data m t) \<noteq> oldval"
  have "(hsm_data m)(t := hsm_data m t) = hsm_data m" by simp
  then have "upd_hsm t (\<lambda>d. d\<lparr>hsm_state := hsm_state (hsm_data m t)\<rparr>) m = m" by (simp add: upd_hsm_def)
  with a show ?thesis by (simp add: hsm_cmpxchg_def atomic_cmpxchg_def)
qed

lemma hsm_cmpxchg_hit: "hsm_state (hsm_data m t) = oldval \<Longrightarrow>
    hsm_cmpxchg t oldval newval m = (oldval, upd_hsm t (\<lambda>d. d\<lparr>hsm_state := newval\<rparr>) m)"
  by (simp add: hsm_cmpxchg_def atomic_cmpxchg_def)


definition hsm_example :: machine where
  "hsm_example = machine_boot\<lparr>hsm_data := (\<lambda>h. \<lparr>hsm_state = if h = 1 then SBI_HSM_STATE_STOPPED else SBI_HSM_STATE_STARTED,
      suspend_type = 0, saved_mie = 0, saved_mip = 0\<rparr>)\<rparr>"

definition hsm_domain_example :: sbi_domain where
  "hsm_domain_example = domain_sorted_example\<lparr>assigned_harts := [3, 0]\<rparr>"


end
