(* ===== verification/Sbi_Hsm_System.thy ===== *)
theory Sbi_Hsm_System
  imports Sbi_Hsm
begin

text \<open>
  All harts running the functions of \<^verbatim>\<open>lib/sbi/sbi_hsm.c\<close> concurrently, with the calls in
  \<^verbatim>\<open>lib/sbi/sbi_init.c\<close> that surround them. A step is one access to memory that other harts can see: a
  compare-and-exchange on a hart state, a read of it, or a store to one of the fields \<^verbatim>\<open>next_arg1\<close>,
  \<^verbatim>\<open>next_addr\<close>, \<^verbatim>\<open>next_mode\<close> of a scratch space. \<open>hart_pc\<close> says where in the code a hart is; \<open>Dead\<close> is
  \<^verbatim>\<open>sbi_hart_hang\<close>. \<open>s_entry\<close> records with which argument, address and mode a hart last left machine
  mode. The domains are those after boot and do not change.
\<close>

section \<open>The system\<close>

datatype hart_pc =
    Waiting
  | Booting
  | Jumping
  | Running
  | Starting nat ulong ulong ulong nat
  | Stopping
  | Suspending ulong ulong ulong ulong nat
  | Suspended ulong
  | Restoring
  | Resume_starting
  | Resume_finishing
  | Dead

record hsm_sys =
  s_hsm :: "hartid \<Rightarrow> ulong"
  s_arg1 :: "hartid \<Rightarrow> ulong"
  s_addr :: "hartid \<Rightarrow> ulong"
  s_mode :: "hartid \<Rightarrow> ulong"
  s_pc :: "hartid \<Rightarrow> hart_pc"
  s_entry :: "hartid \<Rightarrow> (ulong \<times> ulong \<times> ulong) option"

definition goto_pc :: "hartid \<Rightarrow> hart_pc \<Rightarrow> hsm_sys \<Rightarrow> hsm_sys" where
  "goto_pc h p s = s\<lparr>s_pc := (s_pc s)(h := p)\<rparr>"

text \<open>
  A compare-and-exchange by hart \<open>h\<close> on the state of hart \<open>t\<close>, and where \<open>h\<close> goes on if the state was
  the expected one, and if it was not.
\<close>

definition cas_goto :: "hartid \<Rightarrow> hartid \<Rightarrow> ulong \<Rightarrow> ulong \<Rightarrow> hart_pc \<Rightarrow> hart_pc \<Rightarrow> hsm_sys \<Rightarrow> hsm_sys" where
  "cas_goto h t oldval newval yes no s =
     (case atomic_cmpxchg oldval newval (s_hsm s t) of
        (old, v) \<Rightarrow> goto_pc h (if old = oldval then yes else no) (s\<lparr>s_hsm := (s_hsm s)(t := v)\<rparr>))"

text \<open>The checks of \<^verbatim>\<open>sbi_hsm_hart_start\<close> and \<^verbatim>\<open>sbi_hsm_hart_suspend\<close> before they touch shared memory.\<close>

definition start_checks :: "sbi_domain \<Rightarrow> nat \<Rightarrow> ulong \<Rightarrow> ulong \<Rightarrow> bool" where
  "start_checks d t saddr smode \<longleftrightarrow> (smode = PRV_S \<or> smode = PRV_U) \<and>
     sbi_domain_is_assigned_hart (Some d) t = Some True \<and> sbi_domain_check_addr (Some d) saddr smode SBI_DOMAIN_EXECUTE"

definition suspend_checks :: "sbi_domain \<Rightarrow> ulong \<Rightarrow> ulong \<Rightarrow> ulong \<Rightarrow> bool" where
  "suspend_checks d stype raddr rmode \<longleftrightarrow>
     \<not> (SBI_HSM_SUSPEND_RET_DEFAULT < stype \<and> stype < SBI_HSM_SUSPEND_RET_PLATFORM) \<and>
     \<not> (SBI_HSM_SUSPEND_NON_RET_DEFAULT < stype \<and> stype < SBI_HSM_SUSPEND_NON_RET_PLATFORM) \<and>
     (stype AND SBI_HSM_SUSP_NON_RET_BIT \<noteq> 0 \<longrightarrow>
        (rmode = PRV_S \<or> rmode = PRV_U) \<and> sbi_domain_check_addr (Some d) raddr rmode SBI_DOMAIN_EXECUTE)"

inductive hsm_step :: "(hartid \<Rightarrow> sbi_domain) \<Rightarrow> hsm_sys \<Rightarrow> hsm_sys \<Rightarrow> bool" for dm where
  wake: "s_pc s h = Waiting \<Longrightarrow> atomic_read (s_hsm s h) = SBI_HSM_STATE_START_PENDING \<Longrightarrow>
    hsm_step dm s (goto_pc h Booting s)"
| prepare: "s_pc s h = Booting \<Longrightarrow>
    hsm_step dm s (cas_goto h h SBI_HSM_STATE_START_PENDING SBI_HSM_STATE_STARTED Jumping Dead s)"
| jump: "s_pc s h = Jumping \<Longrightarrow>
    hsm_step dm s (goto_pc h Running (s\<lparr>s_entry := (s_entry s)(h := Some (s_arg1 s h, s_addr s h, s_mode s h))\<rparr>))"
| start: "s_pc s h = Running \<Longrightarrow> start_checks (dm h) t saddr smode \<Longrightarrow>
    hsm_step dm s (cas_goto h t SBI_HSM_STATE_STOPPED SBI_HSM_STATE_START_PENDING (Starting t saddr smode priv 0) Running s)"
| start_arg1: "s_pc s h = Starting t saddr smode priv 0 \<Longrightarrow>
    hsm_step dm s (goto_pc h (Starting t saddr smode priv 1) (s\<lparr>s_arg1 := (s_arg1 s)(t := priv)\<rparr>))"
| start_addr: "s_pc s h = Starting t saddr smode priv 1 \<Longrightarrow>
    hsm_step dm s (goto_pc h (Starting t saddr smode priv 2) (s\<lparr>s_addr := (s_addr s)(t := saddr)\<rparr>))"
| start_mode: "s_pc s h = Starting t saddr smode priv 2 \<Longrightarrow>
    hsm_step dm s (goto_pc h Running (s\<lparr>s_mode := (s_mode s)(t := smode)\<rparr>))"
| stop: "s_pc s h = Running \<Longrightarrow>
    hsm_step dm s (cas_goto h h SBI_HSM_STATE_STARTED SBI_HSM_STATE_STOP_PENDING Stopping Running s)"
| exit: "s_pc s h = Stopping \<Longrightarrow>
    hsm_step dm s (cas_goto h h SBI_HSM_STATE_STOP_PENDING SBI_HSM_STATE_STOPPED Waiting Dead s)"
| suspend: "s_pc s h = Running \<Longrightarrow> suspend_checks (dm h) stype raddr rmode \<Longrightarrow>
    hsm_step dm s (goto_pc h (Suspending stype raddr rmode priv 0) s)"
| suspend_arg1: "s_pc s h = Suspending stype raddr rmode priv 0 \<Longrightarrow>
    hsm_step dm s (goto_pc h (Suspending stype raddr rmode priv 1) (s\<lparr>s_arg1 := (s_arg1 s)(h := priv)\<rparr>))"
| suspend_addr: "s_pc s h = Suspending stype raddr rmode priv 1 \<Longrightarrow>
    hsm_step dm s (goto_pc h (Suspending stype raddr rmode priv 2) (s\<lparr>s_addr := (s_addr s)(h := raddr)\<rparr>))"
| suspend_mode: "s_pc s h = Suspending stype raddr rmode priv 2 \<Longrightarrow>
    hsm_step dm s (goto_pc h (Suspending stype raddr rmode priv 3) (s\<lparr>s_mode := (s_mode s)(h := rmode)\<rparr>))"
| suspend_cas: "s_pc s h = Suspending stype raddr rmode priv 3 \<Longrightarrow>
    hsm_step dm s (cas_goto h h SBI_HSM_STATE_STARTED SBI_HSM_STATE_SUSPENDED (Suspended stype) Restoring s)"
| wakeup: "s_pc s h = Suspended stype \<Longrightarrow> hsm_step dm s (goto_pc h Restoring s)"
| restore: "s_pc s h = Restoring \<Longrightarrow>
    hsm_step dm s (cas_goto h h SBI_HSM_STATE_SUSPENDED SBI_HSM_STATE_STARTED Running Dead s)"
| warmboot: "s_pc s h = Suspended stype \<Longrightarrow> stype AND SBI_HSM_SUSP_NON_RET_BIT \<noteq> 0 \<Longrightarrow>
    hsm_step dm s (goto_pc h (if atomic_read (s_hsm s h) = SBI_HSM_STATE_SUSPENDED then Resume_starting else Waiting) s)"
| resume_start: "s_pc s h = Resume_starting \<Longrightarrow>
    hsm_step dm s (cas_goto h h SBI_HSM_STATE_SUSPENDED SBI_HSM_STATE_RESUME_PENDING Resume_finishing Dead s)"
| resume_finish: "s_pc s h = Resume_finishing \<Longrightarrow>
    hsm_step dm s (cas_goto h h SBI_HSM_STATE_RESUME_PENDING SBI_HSM_STATE_STARTED Jumping Dead s)"

text \<open>After \<^verbatim>\<open>sbi_hsm_init\<close> in the cold boot by hart \<open>cold\<close>; the scratch spaces hold the boot values.\<close>

definition hsm_start :: "hartid \<Rightarrow> ulong \<times> ulong \<times> ulong \<Rightarrow> hsm_sys" where
  "hsm_start cold boot =
     \<lparr>s_hsm = (\<lambda>h. if h = cold then SBI_HSM_STATE_START_PENDING else SBI_HSM_STATE_STOPPED),
      s_arg1 = (\<lambda>_. fst boot), s_addr = (\<lambda>_. fst (snd boot)), s_mode = (\<lambda>_. snd (snd boot)),
      s_pc = (\<lambda>h. if h = cold then Booting else Waiting), s_entry = (\<lambda>_. None)\<rparr>"

inductive hsm_reach :: "(hartid \<Rightarrow> sbi_domain) \<Rightarrow> hartid \<Rightarrow> ulong \<times> ulong \<times> ulong \<Rightarrow> hsm_sys \<Rightarrow> bool" for dm cold boot where
  init: "hsm_reach dm cold boot (hsm_start cold boot)"
| step: "hsm_reach dm cold boot s \<Longrightarrow> hsm_step dm s s' \<Longrightarrow> hsm_reach dm cold boot s'"

section \<open>A hart is where its state says\<close>

text \<open>Which states a hart can be in at each point of the code. No state allows \<open>Dead\<close>.\<close>

fun pc_state :: "hart_pc \<Rightarrow> ulong set" where
  "pc_state Waiting = {SBI_HSM_STATE_STOPPED, SBI_HSM_STATE_START_PENDING}"
| "pc_state Booting = {SBI_HSM_STATE_START_PENDING}"
| "pc_state Jumping = {SBI_HSM_STATE_STARTED}"
| "pc_state Running = {SBI_HSM_STATE_STARTED}"
| "pc_state (Starting _ _ _ _ _) = {SBI_HSM_STATE_STARTED}"
| "pc_state Stopping = {SBI_HSM_STATE_STOP_PENDING}"
| "pc_state (Suspending _ _ _ _ _) = {SBI_HSM_STATE_STARTED}"
| "pc_state (Suspended _) = {SBI_HSM_STATE_SUSPENDED}"
| "pc_state Restoring = {SBI_HSM_STATE_SUSPENDED}"
| "pc_state Resume_starting = {SBI_HSM_STATE_SUSPENDED}"
| "pc_state Resume_finishing = {SBI_HSM_STATE_RESUME_PENDING}"
| "pc_state Dead = {}"

definition hsm_inv :: "hsm_sys \<Rightarrow> bool" where
  "hsm_inv s \<longleftrightarrow> (\<forall>h. s_hsm s h \<in> pc_state (s_pc s h))"

text \<open>
  The changes of a hart state that are allowed: the edges of the state diagram of the SBI specification, except that the code has no pending state for
  suspension. \<^verbatim>\<open>sbi_hsm_hart_suspend\<close> enters \<^verbatim>\<open>SUSPENDED\<close> from \<^verbatim>\<open>STARTED\<close> directly, and when the suspension ends or fails without a reset it
  goes back to \<^verbatim>\<open>STARTED\<close> directly.
\<close>

definition hsm_edge :: "ulong \<Rightarrow> ulong \<Rightarrow> bool" where
  "hsm_edge a b \<longleftrightarrow> (a, b) \<in> {(SBI_HSM_STATE_STOPPED, SBI_HSM_STATE_START_PENDING),
     (SBI_HSM_STATE_START_PENDING, SBI_HSM_STATE_STARTED), (SBI_HSM_STATE_STARTED, SBI_HSM_STATE_STOP_PENDING),
     (SBI_HSM_STATE_STOP_PENDING, SBI_HSM_STATE_STOPPED), (SBI_HSM_STATE_STARTED, SBI_HSM_STATE_SUSPENDED),
     (SBI_HSM_STATE_SUSPENDED, SBI_HSM_STATE_STARTED), (SBI_HSM_STATE_SUSPENDED, SBI_HSM_STATE_RESUME_PENDING),
     (SBI_HSM_STATE_RESUME_PENDING, SBI_HSM_STATE_STARTED)}"

lemma hsm_inv_goto:
  assumes "hsm_inv s" and "s_hsm s h \<in> pc_state p" and "s_hsm s' = s_hsm s" "s_pc s' = s_pc s"
  shows "hsm_inv (goto_pc h p s')"
  using assms by (simp add: hsm_inv_def goto_pc_def)

text \<open>A compare-and-exchange of a hart on its own state succeeds if it expects the state of its place in the code.\<close>

lemma hsm_inv_cas_self:
  assumes "hsm_inv s" and "pc_state (s_pc s h) = {a}" and "b \<in> pc_state yes"
  shows "hsm_inv (cas_goto h h a b yes no s) \<and> s_hsm s h = a"
proof -
  from assms(1,2) have "s_hsm s h = a" unfolding hsm_inv_def by (metis singletonD)
  with assms show ?thesis by (simp add: hsm_inv_def cas_goto_def goto_pc_def atomic_cmpxchg_def)
qed

text \<open>A start request of another hart finds its target waiting, whichever place it has itself.\<close>

lemma hsm_inv_start:
  assumes "hsm_inv s" and "s_pc s h = Running"
  shows "hsm_inv (cas_goto h t SBI_HSM_STATE_STOPPED SBI_HSM_STATE_START_PENDING (Starting t a b c 0) Running s)"
proof -
  have h: "s_hsm s h = SBI_HSM_STATE_STARTED" using assms unfolding hsm_inv_def by (metis pc_state.simps(4) singletonD)
  have t: "s_pc s t = Waiting" if "s_hsm s t = SBI_HSM_STATE_STOPPED"
  proof -
    from assms(1) that have "SBI_HSM_STATE_STOPPED \<in> pc_state (s_pc s t)" unfolding hsm_inv_def by metis
    then show ?thesis by (cases "s_pc s t") auto
  qed
  show ?thesis
  proof (cases "s_hsm s t = SBI_HSM_STATE_STOPPED")
    case True
    with h t assms show ?thesis by (auto simp: hsm_inv_def cas_goto_def goto_pc_def atomic_cmpxchg_def)
  next
    case False
    with h assms show ?thesis by (auto simp: hsm_inv_def cas_goto_def goto_pc_def atomic_cmpxchg_def)
  qed
qed

lemmas hsm_self = hsm_inv_cas_self [THEN conjunct1]

lemma hsm_step_inv: "hsm_step dm s s' \<Longrightarrow> hsm_inv s \<Longrightarrow> hsm_inv s'"
proof (induction rule: hsm_step.induct)
  case (start s h t saddr smode priv)
  then show ?case by (intro hsm_inv_start)
next
  case (wake s h)
  then show ?case by (intro hsm_inv_goto) (simp_all add: atomic_read_def)
next
  case (warmboot s h stype)
  then have "s_hsm s h = SBI_HSM_STATE_SUSPENDED" unfolding hsm_inv_def by (metis pc_state.simps(8) singletonD)
  with warmboot show ?case by (intro hsm_inv_goto) (simp_all add: atomic_read_def)
qed (rule hsm_self hsm_inv_goto; simp add: hsm_inv_def; metis pc_state.simps singletonD singletonI)+

lemma hsm_reach_inv: "hsm_reach dm cold boot s \<Longrightarrow> hsm_inv s"
  by (induction rule: hsm_reach.induct) (auto simp: hsm_inv_def hsm_start_def intro: hsm_step_inv [unfolded hsm_inv_def, rule_format])

lemma cas_goto_hsm: "s_hsm (cas_goto h t a b yes no s) = (s_hsm s)(t := if s_hsm s t = a then b else s_hsm s t)"
  by (simp add: cas_goto_def goto_pc_def atomic_cmpxchg_def)

lemma goto_pc_hsm [simp]: "s_hsm (goto_pc h p s) = s_hsm s"
  by (simp add: goto_pc_def)

lemma hsm_step_edge: "hsm_step dm s s' \<Longrightarrow> s_hsm s' h = s_hsm s h \<or> hsm_edge (s_hsm s h) (s_hsm s' h)"
  by (induction rule: hsm_step.induct) (auto simp: cas_goto_hsm hsm_edge_def)

text \<open>
  C9. Hart states and control stay consistent in every interleaving: no hart ever hangs because its
  state is not the one it expects, a hart runs supervisor code only while it is \<^verbatim>\<open>STARTED\<close>, and every
  change of a hart state is along the allowed edges, those of the state diagram of the SBI specification with a suspension that
  is entered and left without a pending state.
\<close>

theorem hsm_states_consistent:
  assumes "hsm_reach dm cold boot s"
  shows "s_pc s h \<noteq> Dead \<and> (s_pc s h = Running \<longrightarrow> s_hsm s h = SBI_HSM_STATE_STARTED) \<and>
    (\<forall>s'. hsm_step dm s s' \<longrightarrow> s_hsm s' h = s_hsm s h \<or> hsm_edge (s_hsm s h) (s_hsm s' h))"
proof -
  from hsm_reach_inv [OF assms] have "s_hsm s h \<in> pc_state (s_pc s h)" by (simp add: hsm_inv_def)
  then have "s_pc s h \<noteq> Dead \<and> (s_pc s h = Running \<longrightarrow> s_hsm s h = SBI_HSM_STATE_STARTED)" by auto
  with hsm_step_edge show ?thesis by blast
qed

text \<open>A run in which hart 0 boots, starts hart 1, and hart 1 enters before its parameters are written.\<close>

definition race_run :: "ulong \<times> ulong \<times> ulong \<Rightarrow> ulong \<Rightarrow> ulong \<Rightarrow> ulong \<Rightarrow> hsm_sys" where
  "race_run boot saddr smode priv =
     \<lparr>s_hsm = (\<lambda>h. if h \<le> 1 then SBI_HSM_STATE_STARTED else SBI_HSM_STATE_STOPPED),
      s_arg1 = (\<lambda>_. fst boot), s_addr = (\<lambda>_. fst (snd boot)), s_mode = (\<lambda>_. snd (snd boot)),
      s_pc = (\<lambda>h. if h = 0 then Starting 1 saddr smode priv 0 else if h = 1 then Running else Waiting),
      s_entry = (\<lambda>h. if h \<le> 1 then Some boot else None)\<rparr>"

lemma race_reach:
  assumes "start_checks (dm 0) 1 saddr smode"
  shows "hsm_reach dm 0 boot (race_run boot saddr smode priv)"
proof -
  define s0 where "s0 = hsm_start 0 boot"
  define s1 where "s1 = cas_goto 0 0 SBI_HSM_STATE_START_PENDING SBI_HSM_STATE_STARTED Jumping Dead s0"
  define s2 where "s2 = goto_pc 0 Running (s1\<lparr>s_entry := (s_entry s1)(0 := Some (s_arg1 s1 0, s_addr s1 0, s_mode s1 0))\<rparr>)"
  define s3 where "s3 = cas_goto 0 1 SBI_HSM_STATE_STOPPED SBI_HSM_STATE_START_PENDING (Starting 1 saddr smode priv 0) Running s2"
  define s4 where "s4 = goto_pc 1 Booting s3"
  define s5 where "s5 = cas_goto 1 1 SBI_HSM_STATE_START_PENDING SBI_HSM_STATE_STARTED Jumping Dead s4"
  define s6 where "s6 = goto_pc 1 Running (s5\<lparr>s_entry := (s_entry s5)(1 := Some (s_arg1 s5 1, s_addr s5 1, s_mode s5 1))\<rparr>)"
  note defs = s0_def s1_def s2_def s3_def s4_def s5_def s6_def
  note run = defs hsm_start_def cas_goto_def goto_pc_def atomic_cmpxchg_def atomic_read_def
  have "hsm_step dm s0 s1" unfolding s1_def by (rule hsm_step.prepare) (simp add: run)
  moreover have "hsm_step dm s1 s2" unfolding s2_def by (rule hsm_step.jump) (simp add: run)
  moreover have "hsm_step dm s2 s3" unfolding s3_def by (rule hsm_step.start [where dm = dm, OF _ assms]) (simp add: run)
  moreover have "hsm_step dm s3 s4" unfolding s4_def by (rule hsm_step.wake) (simp_all add: run)
  moreover have "hsm_step dm s4 s5" unfolding s5_def by (rule hsm_step.prepare) (simp add: run)
  moreover have "hsm_step dm s5 s6" unfolding s6_def by (rule hsm_step.jump) (simp add: run)
  ultimately have "hsm_reach dm 0 boot s6" unfolding s0_def by (meson hsm_reach.intros)
  moreover have "s6 = race_run boot saddr smode priv" by (auto simp: run race_run_def fun_eq_iff)
  ultimately show ?thesis by simp
qed

text \<open>
  A start request can be overtaken: \<^verbatim>\<open>sbi_hsm_hart_start\<close> makes the target \<^verbatim>\<open>START_PENDING\<close> before it
  stores the start address, so a target that polls its state in between leaves machine mode with
  the argument, address and mode its scratch space held before, here the boot values, while the
  starting hart has not yet stored any of the requested ones.
\<close>

theorem hsm_start_race:
  assumes "start_checks (dm 0) 1 saddr smode"
  shows "\<exists>s. hsm_reach dm 0 boot s \<and> s_pc s 0 = Starting 1 saddr smode priv 0 \<and>
    s_pc s 1 = Running \<and> s_entry s 1 = Some boot"
  using race_reach [where dm = dm, OF assms, of boot priv] by (intro exI [of _ "race_run boot saddr smode priv"]) (simp add: race_run_def)

theorem hsm_start_race_witness:
  "\<exists>s. hsm_reach (\<lambda>_. hsm_domain_example) 0 (0, 0x80200000, PRV_S) s \<and> s_pc s 0 = Starting 1 0x90000000 PRV_S 7 0 \<and>
    s_pc s 1 = Running \<and> s_entry s 1 = Some (0, 0x80200000, PRV_S)"
proof -
  have "start_checks hsm_domain_example 1 0x90000000 PRV_S" by code_simp
  from hsm_start_race [where dm = "\<lambda>_. hsm_domain_example", OF this] show ?thesis .
qed

theorem hsm_states_consistent_witness:
  "s_pc (race_run (0, 0x80200000, PRV_S) 0x90000000 PRV_S 7) 1 = Running \<and>
   s_hsm (race_run (0, 0x80200000, PRV_S) 0x90000000 PRV_S 7) 1 = SBI_HSM_STATE_STARTED"
proof -
  have "start_checks hsm_domain_example 1 0x90000000 PRV_S" by code_simp
  from hsm_states_consistent [OF race_reach [where dm = "\<lambda>_. hsm_domain_example", OF this, of "(0, 0x80200000, PRV_S)" 7], of 1]
  show ?thesis by (simp add: race_run_def)
qed

end
