(* ===== verification/Sbi_Ipi.thy ===== *)
theory Sbi_Ipi
  imports Sbi_Hsm
begin

text \<open>
  Interprocessor interrupts, \<^verbatim>\<open>lib/sbi/sbi_ipi.c\<close>: a hart asks others to handle an event by setting the
  event's bit in their \<open>ipi_type\<close> word and raising their software interrupt; the handler of that interrupt
  takes the word and processes every event in it.

  The events are registered with a structure of callbacks. The callbacks of the firmware are in this
  theory and in \<open>Sbi_Tlb\<close>; the functions here take the meaning of the function pointers as a record \<open>cb\<close>,
  which \<open>Sbi_Tlb\<close> fills in. The callback data is the fence request or
  the null pointer; the update callback may change it in place. \<open>h\<close> is the current hart.
\<close>

section \<open>Operations\<close>

record ipi_callbacks =
  cb_update :: "ipi_update \<Rightarrow> hartid \<Rightarrow> hartid \<Rightarrow> sbi_tlb_info option \<Rightarrow> machine \<Rightarrow> (int \<times> sbi_tlb_info option) run"
  cb_sync :: "ipi_sync \<Rightarrow> hartid \<Rightarrow> machine \<Rightarrow> unit run"
  cb_process :: "ipi_process \<Rightarrow> hartid \<Rightarrow> machine \<Rightarrow> unit run"

text \<open>The atomic setting of one bit in the word of a hart.\<close>

definition ipi_set_type :: "nat \<Rightarrow> hartid \<Rightarrow> machine \<Rightarrow> machine" where
  "ipi_set_type event remote m =
     (case atomic_set_bit event (ipi_type m remote) of
        Some (_, v) \<Rightarrow> m\<lparr>ipi_type := (ipi_type m)(remote := v)\<rparr> | None \<Rightarrow> m)"

definition sbi_ipi_send ::
  "ipi_callbacks \<Rightarrow> hartid \<Rightarrow> nat \<Rightarrow> nat \<Rightarrow> sbi_tlb_info option \<Rightarrow> machine \<Rightarrow> (int \<times> sbi_tlb_info option) run" where
  "sbi_ipi_send cb h remote event data m =
     (if SBI_IPI_EVENT_MAX \<le> event then Ret (SBI_EINVAL, data) m
      else case ipi_ops_array (m_ipi m) ! event of
          None \<Rightarrow> Ret (SBI_EINVAL, data) m
        | Some ops \<Rightarrow>
            (case hartid_scratch remote m of
               None \<Rightarrow> Fault
             | Some False \<Rightarrow> Ret (SBI_EINVAL, data) m
             | Some True \<Rightarrow>
                 run_bind (case ops_update ops of Some u \<Rightarrow> cb_update cb u h remote data m | None \<Rightarrow> Ret (0, data) m)
                   (\<lambda>(ret, data) m.
                      if ret < 0 then Ret (ret, data) m
                      else let m = ipi_set_type event remote m;
                               m = sbi_ipi_raw_send remote m;
                               m = incr_fw h 6 m
                           in run_bind (case ops_sync ops of Some s \<Rightarrow> cb_sync cb s h m | None \<Rightarrow> Ret () m)
                                (\<lambda>_ m. Ret (0, data) m))))"

lemma unat_drop_bit_1: "(w :: ulong) \<noteq> 0 \<Longrightarrow> unat (drop_bit 1 w) < unat w"
proof -
  assume "w \<noteq> 0"
  then have "0 < unat w" by (simp add: unat_gt_0)
  moreover have "drop_bit 1 w = w div 2" by (simp add: drop_bit_eq_div)
  ultimately show ?thesis by (simp add: unat_div del: drop_bit_Suc)
qed

text \<open>\<^verbatim>\<open>for (i = hbase; m; i++, m >>= 1)\<close>: one send for every bit of the mask.\<close>

function ipi_send_loop ::
  "ipi_callbacks \<Rightarrow> hartid \<Rightarrow> nat \<Rightarrow> ulong \<Rightarrow> nat \<Rightarrow> sbi_tlb_info option \<Rightarrow> machine \<Rightarrow> sbi_tlb_info option run" where
  "ipi_send_loop cb h i msk event data m =
     (if msk = 0 then Ret data m
      else run_bind (if msk AND 1 \<noteq> 0 then sbi_ipi_send cb h i event data m else Ret (0, data) m)
             (\<lambda>(_, data) m. ipi_send_loop cb h (i + 1) (drop_bit 1 msk) event data m))"
  by pat_completeness auto

termination
  by (relation "measure (\<lambda>(_, _, _, msk, _). unat msk)") (auto simp: unat_drop_bit_1 simp del: One_nat_def)

declare ipi_send_loop.simps [simp del]

text \<open>
  The broadcast: \<^verbatim>\<open>while (!sbi_hsm_hart_interruptible_mask(dom, hbase, &m))\<close>, in steps of 64 harts. The first
  argument bounds the number of steps; hart numbers are below 128, so the third step ends the loop.
\<close>

fun ipi_send_windows ::
  "nat \<Rightarrow> ipi_callbacks \<Rightarrow> hartid \<Rightarrow> sbi_domain option \<Rightarrow> ulong \<Rightarrow> nat \<Rightarrow> sbi_tlb_info option \<Rightarrow> machine \<Rightarrow> int run" where
  "ipi_send_windows 0 cb h dm hbase event data m = Spin m"
| "ipi_send_windows (Suc n) cb h dm hbase event data m =
     (case sbi_hsm_hart_interruptible_mask dm hbase m of
        None \<Rightarrow> Fault
      | Some (rc, msk) \<Rightarrow>
          (if rc \<noteq> 0 then Ret 0 m
           else run_bind (ipi_send_loop cb h (unat hbase) msk event data m)
                  (\<lambda>data m. ipi_send_windows n cb h dm (hbase + 64) event data m)))"

definition sbi_ipi_send_many ::
  "ipi_callbacks \<Rightarrow> hartid \<Rightarrow> ulong \<Rightarrow> ulong \<Rightarrow> nat \<Rightarrow> sbi_tlb_info option \<Rightarrow> machine \<Rightarrow> int run" where
  "sbi_ipi_send_many cb h hmask hbase event data m =
     (let dm = sbi_domain_thishart h m
      in if hbase \<noteq> - 1
         then case sbi_hsm_hart_interruptible_mask dm hbase m of
                None \<Rightarrow> Fault
              | Some (rc, msk) \<Rightarrow>
                  (if rc \<noteq> 0 then Ret rc m
                   else run_bind (ipi_send_loop cb h (unat hbase) (msk AND hmask) event data m) (\<lambda>_ m. Ret 0 m))
         else ipi_send_windows 3 cb h dm 0 event data m)"

text \<open>The first free slot of the table of events.\<close>

fun ipi_free_slot :: "'a option list \<Rightarrow> nat \<Rightarrow> nat option" where
  "ipi_free_slot [] i = None"
| "ipi_free_slot (x # xs) i = (if x = None then Some i else ipi_free_slot xs (i + 1))"

definition sbi_ipi_event_create :: "sbi_ipi_event_ops option \<Rightarrow> ipi_sys \<Rightarrow> int \<times> ipi_sys" where
  "sbi_ipi_event_create ops s =
     (case ops of
        None \<Rightarrow> (SBI_EINVAL, s)
      | Some o1 \<Rightarrow>
          (if ops_process o1 = None then (SBI_EINVAL, s)
           else case ipi_free_slot (ipi_ops_array s) 0 of
                  None \<Rightarrow> (SBI_ENOSPC, s)
                | Some i \<Rightarrow> (int i, s\<lparr>ipi_ops_array := (ipi_ops_array s)[i := Some o1]\<rparr>)))"

definition sbi_ipi_event_destroy :: "nat \<Rightarrow> ipi_sys \<Rightarrow> ipi_sys" where
  "sbi_ipi_event_destroy event s =
     (if SBI_IPI_EVENT_MAX \<le> event then s else s\<lparr>ipi_ops_array := (ipi_ops_array s)[event := None]\<rparr>)"

definition sbi_ipi_process_smode :: "sbi_plat \<Rightarrow> hartid \<Rightarrow> machine \<Rightarrow> unit run" where
  "sbi_ipi_process_smode pl h m = Ret () (upd_csr h (csr_set (p_hw pl) CSR_MIP MIP_SSIP) m)"

definition ipi_smode_ops :: sbi_ipi_event_ops where
  "ipi_smode_ops = \<lparr>ops_update = None, ops_sync = None, ops_process = Some Ipi_process_smode\<rparr>"

definition sbi_ipi_send_smode :: "ipi_callbacks \<Rightarrow> hartid \<Rightarrow> ulong \<Rightarrow> ulong \<Rightarrow> machine \<Rightarrow> int run" where
  "sbi_ipi_send_smode cb h hmask hbase m = sbi_ipi_send_many cb h hmask hbase (ipi_smode_event (m_ipi m)) None m"

definition sbi_ipi_clear_smode :: "sbi_plat \<Rightarrow> hartid \<Rightarrow> machine \<Rightarrow> machine" where
  "sbi_ipi_clear_smode pl h m = upd_csr h (csr_clear (p_hw pl) CSR_MIP MIP_SSIP) m"

text \<open>\<open>exit\<close> is \<^verbatim>\<open>sbi_exit\<close>.\<close>

definition sbi_ipi_process_halt :: "(machine \<Rightarrow> int run) \<Rightarrow> hartid \<Rightarrow> machine \<Rightarrow> unit run" where
  "sbi_ipi_process_halt exit h m = run_bind (sbi_hsm_hart_stop exit h True m) (\<lambda>_ m. Ret () m)"

definition ipi_halt_ops :: sbi_ipi_event_ops where
  "ipi_halt_ops = \<lparr>ops_update = None, ops_sync = None, ops_process = Some Ipi_process_halt\<rparr>"

definition sbi_ipi_send_halt :: "ipi_callbacks \<Rightarrow> hartid \<Rightarrow> ulong \<Rightarrow> ulong \<Rightarrow> machine \<Rightarrow> int run" where
  "sbi_ipi_send_halt cb h hmask hbase m = sbi_ipi_send_many cb h hmask hbase (ipi_halt_event (m_ipi m)) None m"

text \<open>The loop of the handler over the events in the word it took.\<close>

function ipi_process_loop :: "ipi_callbacks \<Rightarrow> hartid \<Rightarrow> ulong \<Rightarrow> nat \<Rightarrow> machine \<Rightarrow> unit run" where
  "ipi_process_loop cb h itype event m =
     (if itype = 0 then Ret () m
      else run_bind
             (if itype AND 1 = 0 then Ret () m
              else case ipi_ops_array (m_ipi m) ! event of
                     None \<Rightarrow> Ret () m
                   | Some ops \<Rightarrow> (case ops_process ops of None \<Rightarrow> Ret () m | Some p \<Rightarrow> cb_process cb p h m))
             (\<lambda>_ m. ipi_process_loop cb h (drop_bit 1 itype) (event + 1) m))"
  by pat_completeness auto
termination
  by (relation "measure (\<lambda>(_, _, itype, _). unat itype)") (auto simp: unat_drop_bit_1 simp del: One_nat_def)

declare ipi_process_loop.simps [simp del]

definition sbi_ipi_process :: "ipi_callbacks \<Rightarrow> hartid \<Rightarrow> machine \<Rightarrow> unit run" where
  "sbi_ipi_process cb h m =
     (let m = incr_fw h 7 m;
          m = (case ipi_dev m of Some d \<Rightarrow> if has_ipi_clear d then log_ev (Ev_ipi_clear h) m else m | None \<Rightarrow> m);
          (itype, v) = atomic_raw_xchg_ulong 0 (ipi_type m h)
      in ipi_process_loop cb h itype 0 (m\<lparr>ipi_type := (ipi_type m)(h := v)\<rparr>))"

definition sbi_ipi_set_device :: "sbi_ipi_device option \<Rightarrow> machine \<Rightarrow> machine" where
  "sbi_ipi_set_device dev m = (case (dev, ipi_dev m) of (Some d, None) \<Rightarrow> m\<lparr>ipi_dev := Some d\<rparr> | _ \<Rightarrow> m)"

text \<open>Reserving scratch space, as the components do in the cold boot.\<close>

definition scratch_alloc :: "ulong \<Rightarrow> machine \<Rightarrow> ulong run" where
  "scratch_alloc sz m = run_opt (map_option (\<lambda>(off, s). (off, m\<lparr>m_scr := s\<rparr>)) (sbi_scratch_alloc_offset sz (m_scr m)))"

text \<open>The end of \<^verbatim>\<open>sbi_ipi_init\<close>, common to cold and warm boot; \<open>plat_ipi_init\<close> is the platform callback.\<close>

definition ipi_init_hart :: "sbi_plat \<Rightarrow> (bool \<Rightarrow> machine \<Rightarrow> int \<times> machine) \<Rightarrow> hartid \<Rightarrow> bool \<Rightarrow> machine \<Rightarrow> int run" where
  "ipi_init_hart pl plat_ipi_init h cold_boot m =
     (let m = m\<lparr>ipi_type := (ipi_type m)(h := 0)\<rparr>;
          (ret, m) = plat_ipi_init cold_boot m
      in if ret \<noteq> 0 then Ret ret m else Ret 0 (upd_csr h (csr_set (p_hw pl) CSR_MIE MIP_MSIP) m))"

definition sbi_ipi_init :: "sbi_plat \<Rightarrow> (bool \<Rightarrow> machine \<Rightarrow> int \<times> machine) \<Rightarrow> hartid \<Rightarrow> bool \<Rightarrow> machine \<Rightarrow> int run" where
  "sbi_ipi_init pl plat_ipi_init h cold_boot m =
     (if cold_boot
      then run_bind (scratch_alloc 8 m) (\<lambda>off m.
        let m = m\<lparr>m_ipi := (m_ipi m)\<lparr>ipi_data_off := off\<rparr>\<rparr>
        in if off = 0 then Ret SBI_ENOMEM m
           else case sbi_ipi_event_create (Some ipi_smode_ops) (m_ipi m) of (ret, s) \<Rightarrow>
             if ret < 0 then Ret ret (m\<lparr>m_ipi := s\<rparr>)
             else case sbi_ipi_event_create (Some ipi_halt_ops) (s\<lparr>ipi_smode_event := nat ret\<rparr>) of (ret, s) \<Rightarrow>
               if ret < 0 then Ret ret (m\<lparr>m_ipi := s\<rparr>)
               else ipi_init_hart pl plat_ipi_init h cold_boot (m\<lparr>m_ipi := s\<lparr>ipi_halt_event := nat ret\<rparr>\<rparr>))
      else if ipi_data_off (m_ipi m) = 0 then Ret SBI_ENOMEM m
      else if SBI_IPI_EVENT_MAX \<le> ipi_smode_event (m_ipi m) \<or> SBI_IPI_EVENT_MAX \<le> ipi_halt_event (m_ipi m) then Ret SBI_ENOSPC m
      else ipi_init_hart pl plat_ipi_init h cold_boot m)"

definition sbi_ipi_exit :: "sbi_plat \<Rightarrow> (machine \<Rightarrow> machine) \<Rightarrow> ipi_callbacks \<Rightarrow> hartid \<Rightarrow> machine \<Rightarrow> unit run" where
  "sbi_ipi_exit pl plat_ipi_exit cb h m =
     run_bind (sbi_ipi_process cb h (upd_csr h (csr_clear (p_hw pl) CSR_MIE MIP_MSIP) m)) (\<lambda>_ m. Ret () (plat_ipi_exit m))"

section \<open>The loops visit the set bits\<close>

text \<open>The reference: the set bits of a word in ascending order, and a fold of runs over a list.\<close>

definition set_bits_of :: "ulong \<Rightarrow> nat list" where
  "set_bits_of w = filter (bit w) [0..<64]"

lemma set_bits_of_0 [simp]: "set_bits_of 0 = []"
  by (simp add: set_bits_of_def)

lemma set_bits_of_step:
  "set_bits_of w = (if bit w 0 then [0] else []) @ map Suc (set_bits_of (drop_bit 1 w))"
proof -
  have "[0..<64] = 0 # map Suc [0..<63]" by (simp add: upt_rec map_Suc_upt)
  then have w: "set_bits_of w = (if bit w 0 then [0] else []) @ map Suc (filter (\<lambda>i. bit w (Suc i)) [0..<63])"
    by (simp add: set_bits_of_def filter_map comp_def)
  have "[0..<64] = [0..<63] @ [63]" by (simp add: upt_Suc_append flip: upt_Suc_append)
  moreover have "\<not> bit w 64" using bit_imp_le_length [of w 64] by auto
  ultimately have "set_bits_of (drop_bit 1 w) = filter (\<lambda>i. bit w (Suc i)) [0..<63]"
    by (simp add: set_bits_of_def bit_drop_bit_eq comp_def)
  with w show ?thesis by simp
qed

definition ipi_step :: "ipi_callbacks \<Rightarrow> hartid \<Rightarrow> nat \<Rightarrow> nat \<Rightarrow> sbi_tlb_info option \<Rightarrow> machine \<Rightarrow> sbi_tlb_info option run" where
  "ipi_step cb h event i data m = run_bind (sbi_ipi_send cb h i event data m) (\<lambda>(_, data) m. Ret data m)"

lemma ipi_send_loop_fold:
  "ipi_send_loop cb h i msk event data m = run_fold (ipi_step cb h event) (map (\<lambda>k. i + k) (set_bits_of msk)) data m"
proof (induction cb h i msk event data m rule: ipi_send_loop.induct)
  case (1 cb h i msk event data m)
  show ?case
  proof (cases "msk = 0")
    case False
    have odd: "msk AND 1 \<noteq> 0 \<longleftrightarrow> bit msk 0" by (simp add: bit_0 and_one_eq odd_iff_mod_2_eq_one)
    have IH: "ipi_send_loop cb h (Suc i) (drop_bit (Suc 0) msk) event =
        run_fold (ipi_step cb h event) (map (\<lambda>k. Suc (i + k)) (set_bits_of (drop_bit (Suc 0) msk)))"
      by (intro ext) (use 1 False in simp)
    show ?thesis
      using False
      by (subst ipi_send_loop.simps, subst set_bits_of_step)
        (simp add: odd IH comp_def ipi_step_def run_bind_assoc case_prod_beta')
  qed (simp add: ipi_send_loop.simps)
qed

lemma set_set_bits_of [simp]: "k \<in> set (set_bits_of w) \<longleftrightarrow> bit w k"
  using bit_imp_le_length [of w k] by (auto simp: set_bits_of_def)

lemma distinct_set_bits_of [simp]: "distinct (set_bits_of w)" "sorted (set_bits_of w)"
  by (simp_all add: set_bits_of_def sorted_wrt_filter)

text \<open>The handler processes the events of the word in ascending order.\<close>

definition process_step :: "ipi_callbacks \<Rightarrow> hartid \<Rightarrow> nat \<Rightarrow> unit \<Rightarrow> machine \<Rightarrow> unit run" where
  "process_step cb h event _ m =
     (case ipi_ops_array (m_ipi m) ! event of
        None \<Rightarrow> Ret () m
      | Some ops \<Rightarrow> (case ops_process ops of None \<Rightarrow> Ret () m | Some p \<Rightarrow> cb_process cb p h m))"

lemma ipi_process_loop_fold:
  "ipi_process_loop cb h itype event m = run_fold (process_step cb h) (map (\<lambda>k. event + k) (set_bits_of itype)) () m"
proof (induction cb h itype event m rule: ipi_process_loop.induct)
  case (1 cb h itype event m)
  show ?case
  proof (cases "itype = 0")
    case False
    have odd: "itype AND 1 = 0 \<longleftrightarrow> \<not> bit itype 0" by (simp add: bit_0 and_one_eq odd_iff_mod_2_eq_one)
    have IH: "ipi_process_loop cb h (drop_bit (Suc 0) itype) (Suc event) =
        run_fold (process_step cb h) (map (\<lambda>k. Suc (event + k)) (set_bits_of (drop_bit (Suc 0) itype))) ()"
      by (intro ext) (use 1 False in simp)
    have "process_step cb h event () m =
        (case ipi_ops_array (m_ipi m) ! event of None \<Rightarrow> Ret () m
         | Some ops \<Rightarrow> (case ops_process ops of None \<Rightarrow> Ret () m | Some p \<Rightarrow> cb_process cb p h m))"
      by (simp add: process_step_def)
    then show ?thesis
      using False
      by (subst ipi_process_loop.simps, subst set_bits_of_step) (simp add: odd IH comp_def)
  qed (simp add: ipi_process_loop.simps)
qed

section \<open>Which harts an interrupt reaches\<close>

text \<open>Harts that exist, belong to the domain and are started (state 0) or suspended (state 4) can be interrupted.\<close>

definition interruptible :: "sbi_domain \<Rightarrow> machine \<Rightarrow> nat \<Rightarrow> bool" where
  "interruptible d m i \<longleftrightarrow> i \<le> last_hartid m \<and> bitmap_bit (assigned_harts d) i \<and> hsm_get_state i m \<in> {Some 0, Some 4}"

lemma assigned_hartmask_bits:
  assumes len: "length (assigned_harts d) = 2" and hb: "hb < 128"
  shows "\<exists>w. sbi_domain_get_assigned_hartmask (Some d) hb = Some w \<and>
    (\<forall>k < 64. bit w k \<longleftrightarrow> hb + k < 128 \<and> bitmap_bit (assigned_harts d) (hb + k))"
proof -
  from len obtain a b where ab: "assigned_harts d = [a, b]" by (auto simp: length_Suc_conv numeral_2_eq_2)
  have nb: "\<not> bit (w :: ulong) k" if "64 \<le> k" for w k using bit_imp_le_length [of w k] that by auto
  show ?thesis
  proof (cases "hb < 64")
    case True
    have m: "BIT hb - 1 = mask hb" using True by (simp add: BIT_def mask_eq_exp_minus_1 push_bit_eq_mult)
    have "sbi_domain_get_assigned_hartmask (Some d) hb =
        Some (if hb = 0 then a else drop_bit hb a OR push_bit (64 - hb) (b AND mask hb))"
      using True by (simp add: sbi_domain_get_assigned_hartmask_def ab Let_def m)
    moreover have "bit (drop_bit hb a OR push_bit (64 - hb) (b AND mask hb)) k \<longleftrightarrow> bitmap_bit [a, b] (hb + k)"
      if "k < 64" "hb \<noteq> 0" for k
    proof (cases "hb + k < 64")
      case True
      then show ?thesis using that by (auto simp: bit_simps bitmap_bit_head)
    next
      case False
      then have "hb + k = 64 + (hb + k - 64)" "hb + k - 64 < 64" using \<open>hb < 64\<close> that by simp_all
      then have "bitmap_bit [a, b] (hb + k) = bit b (hb + k - 64)" by (metis bitmap_bit_Cons bitmap_bit_head)
      moreover have "k - (64 - hb) = hb + k - 64" "hb + k - 64 < hb" using \<open>hb < 64\<close> that False by simp_all
      ultimately show ?thesis using that False \<open>hb < 64\<close> nb [of "hb + k" a] by (auto simp: bit_simps)
    qed
    ultimately show ?thesis using True by (auto simp: ab bitmap_bit_head)
  next
    case False
    then have d: "hb div 64 = 1" "hb mod 64 = hb - 64" using hb by (auto intro: div_nat_eqI simp: mod_if)
    have "sbi_domain_get_assigned_hartmask (Some d) hb = Some (drop_bit (hb - 64) b)"
      by (simp add: sbi_domain_get_assigned_hartmask_def ab Let_def d)
    moreover have "bit (drop_bit (hb - 64) b) k \<longleftrightarrow> hb + k < 128 \<and> bitmap_bit [a, b] (hb + k)" for k
    proof (cases "hb + k < 128")
      case True
      have "hb + k = 64 + (hb - 64 + k)" using False by simp
      then have "bitmap_bit [a, b] (hb + k) = bitmap_bit [b] (hb - 64 + k)" by (metis bitmap_bit_Cons)
      with True False show ?thesis by (simp add: bit_drop_bit_eq bitmap_bit_head)
    next
      case 2: False
      then show ?thesis using False nb [of "hb - 64 + k" b] by (simp add: bit_drop_bit_eq)
    qed
    ultimately show ?thesis by (auto simp: ab)
  qed
qed

lemma interruptible_loop_bits:
  assumes "\<forall>i \<in> set js. hb \<le> i \<and> i < hb + 64 \<and> i < 128"
  shows "\<exists>w. interruptible_loop dmask hb js m out = Some w \<and>
    (\<forall>k. bit w k \<longleftrightarrow> bit out k \<or> hb + k \<in> set js \<and> bit dmask k \<and> hsm_get_state (hb + k) m \<in> {Some 0, Some 4})"
  using assms
proof (induction js arbitrary: out)
  case (Cons i js)
  define hmask :: ulong where "hmask = 2 ^ (i - hb)"
  have i: "hb \<le> i" "i - hb < 64" "i < 128" using Cons.prems by auto
  have hm: "bit hmask k \<longleftrightarrow> k = i - hb" for k using i by (auto simp: hmask_def bit_exp_iff)
  have dm: "dmask AND hmask \<noteq> 0 \<longleftrightarrow> bit dmask (i - hb)"
    using i by (auto simp: bit_eq_iff [of "dmask AND hmask"] bit_and_iff hm)
  have ik: "hb + k = i \<longleftrightarrow> k = i - hb" for k using i by auto
  obtain st where st: "hsm_get_state i m = Some st" using i by (auto simp: hsm_get_state_def hartid_scratch_def)
  define out' where "out' = (if bit dmask (i - hb) \<and> (st = 0 \<or> st = 4) then out OR hmask else out)"
  have step: "interruptible_loop dmask hb (i # js) m out = interruptible_loop dmask hb js m out'"
    using dm by (simp add: Let_def st out'_def flip: hmask_def)
  have o': "bit out' k \<longleftrightarrow> bit out k \<or> hb + k = i \<and> bit dmask k \<and> hsm_get_state (hb + k) m \<in> {Some 0, Some 4}" for k
    using st i by (auto simp: out'_def bit_or_iff hm ik)
  from Cons.IH [of out'] Cons.prems obtain w where
    "interruptible_loop dmask hb js m out' = Some w"
    "\<forall>k. bit w k \<longleftrightarrow> bit out' k \<or> hb + k \<in> set js \<and> bit dmask k \<and> hsm_get_state (hb + k) m \<in> {Some 0, Some 4}"
    by auto
  with step o' show ?case by auto
qed simp

lemma interruptible_mask_bits:
  assumes len: "length (assigned_harts d) = 2" and l: "last_hartid m < 128" and hb: "unat hbase \<le> last_hartid m"
  shows "\<exists>w. sbi_hsm_hart_interruptible_mask (Some d) hbase m = Some (0, w) \<and>
    (\<forall>k. bit w k \<longleftrightarrow> k < 64 \<and> interruptible d m (unat hbase + k))"
proof -
  define hb where "hb = unat hbase"
  define hend where "hend = (if 64 < last_hartid m + 1 - hb then hb + 64 else last_hartid m + 1)"
  have h: "hb \<le> last_hartid m" "hend \<le> hb + 64" "hend \<le> last_hartid m + 1" "\<And>k. k < 64 \<Longrightarrow> hb + k < hend \<longleftrightarrow> hb + k \<le> last_hartid m"
    using assms(3) by (auto simp: hb_def hend_def)
  from assigned_hartmask_bits [OF len, of hb] h l obtain dw where
    dw: "sbi_domain_get_assigned_hartmask (Some d) hb = Some dw"
      "\<And>k. k < 64 \<Longrightarrow> bit dw k \<longleftrightarrow> hb + k < 128 \<and> bitmap_bit (assigned_harts d) (hb + k)" by auto
  have "\<forall>i \<in> set [hb..<hend]. hb \<le> i \<and> i < hb + 64 \<and> i < 128" using h l by auto
  from interruptible_loop_bits [OF this, of dw m 0] obtain w where
    w: "interruptible_loop dw hb [hb..<hend] m 0 = Some w"
      "\<And>k. bit w k \<longleftrightarrow> hb + k < hend \<and> bit dw k \<and> hsm_get_state (hb + k) m \<in> {Some 0, Some 4}" by auto
  have "sbi_hsm_hart_interruptible_mask (Some d) hbase m = Some (0, w)"
    using w(1) dw(1) h(1) by (auto simp: sbi_hsm_hart_interruptible_mask_def Let_def hend_def simp del: upt_Suc simp flip: hb_def split: if_splits)
  moreover have "bit w k \<longleftrightarrow> k < 64 \<and> interruptible d m (hb + k)" for k
  proof (cases "k < 64")
    case True
    then show ?thesis using w(2) [of k] dw(2) [OF True] h l by (auto simp: interruptible_def)
  next
    case False
    then show ?thesis using bit_imp_le_length [of w k] by auto
  qed
  ultimately show ?thesis by (auto simp: hb_def)
qed

section \<open>Sending an event without callbacks\<close>

text \<open>The effect of one send of an event that has neither an update nor a sync callback.\<close>

definition ipi_post :: "hartid \<Rightarrow> nat \<Rightarrow> nat \<Rightarrow> machine \<Rightarrow> machine" where
  "ipi_post h event remote m = incr_fw h 6 (sbi_ipi_raw_send remote (ipi_set_type event remote m))"

lemma ipi_set_type_eq: "event < 64 \<Longrightarrow>
    ipi_set_type event remote m = m\<lparr>ipi_type := (ipi_type m)(remote := ipi_type m remote OR push_bit event 1)\<rparr>"
  by (simp add: ipi_set_type_def atomic_set_bit_def atomic_raw_set_bit_def Let_def)

lemma raw_send_simps [simp]:
  "ipi_type (sbi_ipi_raw_send t m) = ipi_type m" "hsm_data (sbi_ipi_raw_send t m) = hsm_data m"
  "has_scratch (sbi_ipi_raw_send t m) = has_scratch m" "last_hartid (sbi_ipi_raw_send t m) = last_hartid m"
  "m_ipi (sbi_ipi_raw_send t m) = m_ipi m" "m_dom (sbi_ipi_raw_send t m) = m_dom m" "h_csr (sbi_ipi_raw_send t m) = h_csr m"
  "ipi_dev (sbi_ipi_raw_send t m) = ipi_dev m" "m_tlb (sbi_ipi_raw_send t m) = m_tlb m"
  "reset_devices_list (sbi_ipi_raw_send t m) = reset_devices_list m"
  by (simp_all add: sbi_ipi_raw_send_def split: option.split)

lemma ipi_post_simps [simp]:
  "hsm_data (ipi_post h e r m) = hsm_data m" "has_scratch (ipi_post h e r m) = has_scratch m"
  "last_hartid (ipi_post h e r m) = last_hartid m" "m_ipi (ipi_post h e r m) = m_ipi m" "m_dom (ipi_post h e r m) = m_dom m"
  "h_csr (ipi_post h e r m) = h_csr m" "ipi_dev (ipi_post h e r m) = ipi_dev m" "m_tlb (ipi_post h e r m) = m_tlb m"
  "reset_devices_list (ipi_post h e r m) = reset_devices_list m"
  by (simp_all add: ipi_post_def ipi_set_type_def split: option.splits prod.splits)

lemma ipi_post_type [simp]: "e < 64 \<Longrightarrow> ipi_type (ipi_post h e r m) = (ipi_type m)(r := ipi_type m r OR push_bit e 1)"
  by (simp add: ipi_post_def ipi_set_type_eq)

lemma ipi_post_log [simp]:
  "e < 64 \<Longrightarrow> ipi_dev m = Some d \<Longrightarrow> has_ipi_send d \<Longrightarrow> m_log (ipi_post h e r m) = m_log m @ [Ev_ipi_send r]"
  by (simp add: ipi_post_def sbi_ipi_raw_send_def ipi_set_type_eq)

lemma ipi_send_plain:
  assumes "event < 64" and "ipi_ops_array (m_ipi m) ! event = Some ops" and "ops_update ops = None" and "ops_sync ops = None"
    and "remote < 128" and "has_scratch m remote"
  shows "sbi_ipi_send cb h remote event data m = Ret (0, data) (ipi_post h event remote m)"
  using assms by (simp add: sbi_ipi_send_def hartid_scratch_def Let_def ipi_post_def)

lemma ipi_fold_plain:
  assumes "event < 64" and "ipi_ops_array (m_ipi m) ! event = Some ops" and "ops_update ops = None" and "ops_sync ops = None"
    and "\<forall>r \<in> set rs. r < 128 \<and> has_scratch m r"
  shows "run_fold (ipi_step cb h event) rs data m = Ret data (fold (ipi_post h event) rs m)"
  using assms
proof (induction rs arbitrary: m)
  case (Cons r rs)
  then have "sbi_ipi_send cb h r event data m = Ret (0, data) (ipi_post h event r m)"
    by (intro ipi_send_plain) auto
  with Cons show ?case by (simp add: ipi_step_def)
qed simp

lemma fold_ipi_post_simps [simp]:
  "hsm_data (fold (ipi_post h e) rs m) = hsm_data m" "has_scratch (fold (ipi_post h e) rs m) = has_scratch m"
  "last_hartid (fold (ipi_post h e) rs m) = last_hartid m" "m_ipi (fold (ipi_post h e) rs m) = m_ipi m"
  "m_dom (fold (ipi_post h e) rs m) = m_dom m" "h_csr (fold (ipi_post h e) rs m) = h_csr m"
  "ipi_dev (fold (ipi_post h e) rs m) = ipi_dev m" "m_tlb (fold (ipi_post h e) rs m) = m_tlb m"
  "reset_devices_list (fold (ipi_post h e) rs m) = reset_devices_list m"
  by (induction rs arbitrary: m) simp_all

lemma fold_ipi_post_type:
  "e < 64 \<Longrightarrow> ipi_type (fold (ipi_post h e) rs m) r = (if r \<in> set rs then ipi_type m r OR push_bit e 1 else ipi_type m r)"
  by (induction rs arbitrary: m) (auto simp: or.assoc)

lemma fold_ipi_post_log:
  "e < 64 \<Longrightarrow> ipi_dev m = Some d \<Longrightarrow> has_ipi_send d \<Longrightarrow>
    m_log (fold (ipi_post h e) rs m) = m_log m @ map Ev_ipi_send rs"
  by (induction rs arbitrary: m) simp_all

text \<open>The harts that a call addresses: those in the mask from \<open>hbase\<close> on, or all of them.\<close>

definition ipi_addressed :: "ulong \<Rightarrow> ulong \<Rightarrow> nat \<Rightarrow> bool" where
  "ipi_addressed hmask hbase r \<longleftrightarrow> hbase = - 1 \<or> unat hbase \<le> r \<and> r - unat hbase < 64 \<and> bit hmask (r - unat hbase)"

definition ipi_targets :: "sbi_domain \<Rightarrow> ulong \<Rightarrow> ulong \<Rightarrow> machine \<Rightarrow> nat list" where
  "ipi_targets d hmask hbase m = filter (\<lambda>r. interruptible d m r \<and> ipi_addressed hmask hbase r) [0..<128]"

lemma interruptible_hart: "interruptible d m r \<Longrightarrow> r < 128 \<and> has_scratch m r"
  by (auto simp: interruptible_def hsm_get_state_def hartid_scratch_def split: if_splits)

lemma interruptible_fold [simp]: "interruptible d (fold (ipi_post h e) rs m) = interruptible d m"
  by (intro ext) (simp add: interruptible_def hsm_get_state_def hartid_scratch_def)

lemma bits_to_harts:
  assumes "\<And>k. bit w k \<longleftrightarrow> k < 64 \<and> P (hb + k)" and "\<And>r. P r \<Longrightarrow> r < 128"
  shows "map (\<lambda>k. hb + k) (set_bits_of w) = filter (\<lambda>r. hb \<le> r \<and> r < hb + 64 \<and> P r) [0..<128]"
proof (rule sorted_distinct_set_unique)
  show "sorted (map (\<lambda>k. hb + k) (set_bits_of w))" by (simp add: sorted_map sorted_wrt_mono_rel [OF _ distinct_set_bits_of(2)])
  show "distinct (map (\<lambda>k. hb + k) (set_bits_of w))" by (simp add: distinct_map inj_on_def)
  have "r \<in> (\<lambda>k. hb + k) ` set (set_bits_of w)" if "hb \<le> r" "r < hb + 64" "P r" for r
    using that assms(1) [of "r - hb"] by (intro image_eqI [of _ _ "r - hb"]) auto
  then show "set (map (\<lambda>k. hb + k) (set_bits_of w)) = set (filter (\<lambda>r. hb \<le> r \<and> r < hb + 64 \<and> P r) [0..<128])"
    using assms by auto
qed (simp_all add: sorted_wrt_filter)

lemma ipi_window:
  assumes "length (assigned_harts d) = 2" and "last_hartid m < 128" and "unat hbase \<le> last_hartid m"
    and "event < 64" and "ipi_ops_array (m_ipi m) ! event = Some ops" and "ops_update ops = None" and "ops_sync ops = None"
  shows "\<exists>w. sbi_hsm_hart_interruptible_mask (Some d) hbase m = Some (0, w) \<and>
    ipi_send_loop cb h (unat hbase) (w AND msk) event data m =
      Ret data (fold (ipi_post h event)
        (filter (\<lambda>r. unat hbase \<le> r \<and> r < unat hbase + 64 \<and> interruptible d m r \<and> bit msk (r - unat hbase)) [0..<128]) m)"
proof -
  from interruptible_mask_bits [OF assms(1-3)] obtain w where
    w: "sbi_hsm_hart_interruptible_mask (Some d) hbase m = Some (0, w)"
      "\<And>k. bit w k \<longleftrightarrow> k < 64 \<and> interruptible d m (unat hbase + k)" by blast
  define P where "P r \<longleftrightarrow> interruptible d m r \<and> bit msk (r - unat hbase)" for r
  have "bit (w AND msk) k \<longleftrightarrow> k < 64 \<and> P (unat hbase + k)" for k using w(2) by (auto simp: bit_and_iff P_def)
  from bits_to_harts [OF this]
  have l: "map (\<lambda>k. unat hbase + k) (set_bits_of (w AND msk)) = filter (\<lambda>r. unat hbase \<le> r \<and> r < unat hbase + 64 \<and> P r) [0..<128]"
    using interruptible_hart by (auto simp: P_def)
  then have "ipi_send_loop cb h (unat hbase) (w AND msk) event data m =
      Ret data (fold (ipi_post h event) (filter (\<lambda>r. unat hbase \<le> r \<and> r < unat hbase + 64 \<and> P r) [0..<128]) m)"
    unfolding ipi_send_loop_fold l using interruptible_hart by (intro ipi_fold_plain [OF assms(4-7)]) (auto simp: P_def)
  with w(1) show ?thesis by (auto simp: P_def)
qed

lemma interruptible_mask_end: "last_hartid m < unat hbase \<Longrightarrow> sbi_hsm_hart_interruptible_mask dm hbase m = Some (SBI_EINVAL, 0)"
  by (simp add: sbi_hsm_hart_interruptible_mask_def)

lemma ipi_windows_all:
  assumes "length (assigned_harts d) = 2" and "last_hartid m < 128" and "event < 64"
    and "ipi_ops_array (m_ipi m) ! event = Some ops" and "ops_update ops = None" and "ops_sync ops = None"
  shows "ipi_send_windows 3 cb h (Some d) 0 event data m =
    Ret 0 (fold (ipi_post h event) (filter (interruptible d m) [0..<128]) m)"
proof -
  let ?L0 = "filter (\<lambda>r. r < 64 \<and> interruptible d m r) [0..<128]"
  let ?L1 = "filter (\<lambda>r. 64 \<le> r \<and> interruptible d m r) [0..<128]"
  let ?m0 = "fold (ipi_post h event) ?L0 m"
  have split: "filter (interruptible d m) [0..<128] = ?L0 @ ?L1"
    using interruptible_hart by (intro sorted_distinct_set_unique) (auto simp: sorted_wrt_filter sorted_append)
  have all: "bit (- 1 :: ulong) (r - hb) \<longleftrightarrow> r - hb < 64" for r hb by simp
  from ipi_window [OF assms(1,2) _ assms(3-6), of 0 cb h "- 1" data] obtain w0 where
    w0: "sbi_hsm_hart_interruptible_mask (Some d) 0 m = Some (0, w0)" "ipi_send_loop cb h 0 w0 event data m = Ret data ?m0"
    by (auto simp: cong: conj_cong)
  show ?thesis
  proof (cases "64 \<le> last_hartid m")
    case True
    from ipi_window [of d ?m0 64 event ops cb h "- 1" data] assms True obtain w1 where
      w1: "sbi_hsm_hart_interruptible_mask (Some d) 64 ?m0 = Some (0, w1)"
        "ipi_send_loop cb h 64 w1 event data ?m0 =
           Ret data (fold (ipi_post h event) (filter (\<lambda>r. 64 \<le> r \<and> r < 128 \<and> interruptible d m r \<and> r - 64 < 64) [0..<128]) ?m0)"
      by auto
    have "filter (\<lambda>r. 64 \<le> r \<and> r < 128 \<and> interruptible d m r \<and> r - 64 < 64) [0..<128] = ?L1" by (intro filter_cong) auto
    with w0 w1 assms(2) show ?thesis
      unfolding numeral_3_eq_3 split by (simp add: interruptible_mask_end)
  next
    case False
    then have "?L1 = []" by (auto simp: filter_empty_conv interruptible_def)
    with w0 False show ?thesis unfolding numeral_3_eq_3 split by (simp add: interruptible_mask_end)
  qed
qed

lemma ipi_send_many_eq:
  assumes "sbi_domain_thishart h m = Some d" and len: "length (assigned_harts d) = 2" and l: "last_hartid m < 128"
    and ev: "event < 64" "ipi_ops_array (m_ipi m) ! event = Some ops" "ops_update ops = None" "ops_sync ops = None"
    and hb: "hbase = - 1 \<or> unat hbase \<le> last_hartid m"
  shows "sbi_ipi_send_many cb h hmask hbase event data m = Ret 0 (fold (ipi_post h event) (ipi_targets d hmask hbase m) m)"
proof (cases "hbase = - 1")
  case True
  then have "ipi_targets d hmask hbase m = filter (interruptible d m) [0..<128]"
    by (simp add: ipi_targets_def ipi_addressed_def)
  with True assms(1) ipi_windows_all [OF len l ev] show ?thesis by (simp add: sbi_ipi_send_many_def)
next
  case False
  from ipi_window [OF len l _ ev] False hb obtain w where
    "sbi_hsm_hart_interruptible_mask (Some d) hbase m = Some (0, w)"
    "ipi_send_loop cb h (unat hbase) (w AND hmask) event data m = Ret data (fold (ipi_post h event)
      (filter (\<lambda>r. unat hbase \<le> r \<and> r < unat hbase + 64 \<and> interruptible d m r \<and> bit hmask (r - unat hbase)) [0..<128]) m)"
    by blast
  moreover have "filter (\<lambda>r. unat hbase \<le> r \<and> r < unat hbase + 64 \<and> interruptible d m r \<and> bit hmask (r - unat hbase)) [0..<128] =
      ipi_targets d hmask hbase m"
    unfolding ipi_targets_def using False by (intro filter_cong) (auto simp: ipi_addressed_def)
  ultimately show ?thesis using False assms(1) by (simp add: sbi_ipi_send_many_def)
qed

text \<open>
  C24. A request to interrupt harts (\<^verbatim>\<open>sbi_ipi_send_many\<close> for an event without update and sync callbacks, such as
  the supervisor's software interrupt or the halt request) reaches exactly the addressed harts that belong to the
  caller's domain and are started or suspended: each of them has the event's bit set in its word, in
  addition to those it had, and its software interrupt raised exactly once, in ascending order; the word of every other
  hart and the state of all harts are unchanged. The broadcast form ends after visiting all harts.
\<close>

theorem ipi_send_many_reaches_targets:
  assumes "sbi_domain_thishart h m = Some d" and "length (assigned_harts d) = 2" and "last_hartid m < 128"
    and "event < 64" and "ipi_ops_array (m_ipi m) ! event = Some ops" and "ops_update ops = None" and "ops_sync ops = None"
    and "hbase = - 1 \<or> unat hbase \<le> last_hartid m" and "ipi_dev m = Some dev" and "has_ipi_send dev"
  shows "\<exists>m'. sbi_ipi_send_many cb h hmask hbase event data m = Ret 0 m' \<and>
    (\<forall>r. ipi_type m' r = (if interruptible d m r \<and> ipi_addressed hmask hbase r then ipi_type m r OR push_bit event 1 else ipi_type m r)) \<and>
    m_log m' = m_log m @ map Ev_ipi_send (filter (\<lambda>r. interruptible d m r \<and> ipi_addressed hmask hbase r) [0..<128]) \<and>
    hsm_data m' = hsm_data m \<and> h_csr m' = h_csr m \<and> m_dom m' = m_dom m"
proof -
  let ?T = "ipi_targets d hmask hbase m"
  have "r \<in> set ?T \<longleftrightarrow> interruptible d m r \<and> ipi_addressed hmask hbase r" for r
    using interruptible_hart [of d m r] by (auto simp: ipi_targets_def)
  with ipi_send_many_eq [OF assms(1-8)] fold_ipi_post_type [OF assms(4)] fold_ipi_post_log [OF assms(4,9,10)] show ?thesis
    by (simp add: ipi_targets_def)
qed

text \<open>Two started harts in one domain; hart 0 interrupts hart 1 and itself.\<close>

definition ipi_example :: machine where
  "ipi_example = machine_boot\<lparr>m_dom := domain_boot\<lparr>dom_obj := (\<lambda>_. hsm_domain_example), hartid_to_domain_table := (\<lambda>_. Some 0)\<rparr>,
     m_ipi := (m_ipi machine_boot)\<lparr>ipi_ops_array := [Some ipi_smode_ops, Some ipi_halt_ops] @ replicate 62 None, ipi_smode_event := 0,
       ipi_halt_event := 1\<rparr>, ipi_dev := Some \<lparr>has_ipi_send = True, has_ipi_clear = True\<rparr>\<rparr>"

definition cb_none :: ipi_callbacks where
  "cb_none = \<lparr>cb_update = (\<lambda>_ _ _ data m. Ret (0, data) m), cb_sync = (\<lambda>_ _ m. Ret () m), cb_process = (\<lambda>_ _ m. Ret () m)\<rparr>"

theorem ipi_send_many_reaches_targets_witness:
  "\<exists>m'. sbi_ipi_send_many cb_none 0 3 0 0 None ipi_example = Ret 0 m' \<and> ipi_type m' 1 = 1 \<and>
    m_log m' = [Ev_ipi_send 0, Ev_ipi_send 1]"
proof -
  have f: "filter (\<lambda>r. interruptible hsm_domain_example ipi_example r \<and> ipi_addressed 3 0 r) [0..<128] = [0, 1]" by code_simp
  have "interruptible hsm_domain_example ipi_example (Suc 0)" "ipi_addressed 3 0 (Suc 0)" by code_simp+
  moreover have "sbi_domain_thishart 0 ipi_example = Some hsm_domain_example" "length (assigned_harts hsm_domain_example) = 2"
    "last_hartid ipi_example < 128" "ipi_ops_array (m_ipi ipi_example) ! 0 = Some ipi_smode_ops"
    "ipi_dev ipi_example = Some \<lparr>has_ipi_send = True, has_ipi_clear = True\<rparr>" "m_log ipi_example = []" "ipi_type ipi_example 1 = 0"
    "unat (0 :: ulong) \<le> last_hartid ipi_example"
    by (simp_all add: ipi_example_def sbi_domain_thishart_def hsm_domain_example_def machine_boot_def)
  ultimately show ?thesis
    using ipi_send_many_reaches_targets [of 0 ipi_example hsm_domain_example 0 ipi_smode_ops 0 _ cb_none 3 None] f
    by (auto simp: ipi_smode_ops_def)
qed

text \<open>
  C25. The handler of the software interrupt (\<^verbatim>\<open>sbi_ipi_process\<close>) is the reference that takes the hart's word in one
  atomic step, leaving it empty, and then runs the process callback of every event in the word
  exactly once, in ascending order of the events, skipping events that are not registered.
\<close>

theorem ipi_process_runs_pending:
  "sbi_ipi_process cb h m =
     run_fold (process_step cb h) (filter (bit (ipi_type m h)) [0..<64]) ()
       ((case ipi_dev m of Some d \<Rightarrow> if has_ipi_clear d then log_ev (Ev_ipi_clear h) (incr_fw h 7 m) else incr_fw h 7 m
         | None \<Rightarrow> incr_fw h 7 m)\<lparr>ipi_type := (ipi_type m)(h := 0)\<rparr>)"
  by (simp add: sbi_ipi_process_def ipi_process_loop_fold atomic_raw_xchg_ulong_def Let_def set_bits_of_def split: option.split)

end
