(* ===== verification/Sbi_Tlb.thy ===== *)
theory Sbi_Tlb
  imports Sbi_Ipi
begin

text \<open>
  Remote fences, \<^verbatim>\<open>lib/sbi/sbi_tlb.c\<close>: a hart asks others to execute fences for a range of addresses. Requests
  travel through a ring buffer per hart (theory \<open>Sbi_Fifo\<close>, byte by byte, so that requests are stored as the bytes
  of \<^verbatim>\<open>struct sbi_tlb_info\<close>), the receiver is told by an interprocessor interrupt (theory \<open>Sbi_Ipi\<close>), and the
  sender waits until the receiver has set its synchronisation word.

  The loops that wait for other harts take \<open>fuel\<close>, the number of polls, and \<open>env\<close>, what the other harts do
  between two polls. The interleaving of the single memory operations of all harts is the subject of
  \<open>Sbi_Tlb_System\<close>. Debug output is left out.
\<close>

section \<open>Requests as bytes\<close>

abbreviation (input) SBI_TLB_FLUSH_ALL :: ulong where "SBI_TLB_FLUSH_ALL \<equiv> - 1"
abbreviation (input) SBI_TLB_FIFO_NUM_ENTRIES :: nat where "SBI_TLB_FIFO_NUM_ENTRIES \<equiv> 8"
abbreviation (input) SBI_TLB_INFO_SIZE :: nat where "SBI_TLB_INFO_SIZE \<equiv> 56"
abbreviation (input) CSR_HGATP :: nat where "CSR_HGATP \<equiv> 0x680"
abbreviation (input) HGATP_VMID_SHIFT :: nat where "HGATP_VMID_SHIFT \<equiv> 44"
abbreviation (input) HGATP_VMID_MASK :: ulong where "HGATP_VMID_MASK \<equiv> 0x03FFF00000000000"

definition ulong_bytes :: "ulong \<Rightarrow> bytes" where
  "ulong_bytes w = map (\<lambda>i. ucast (drop_bit (8 * i) w)) [0..<8]"

definition bytes_word :: "bytes \<Rightarrow> ulong" where
  "bytes_word bs = foldr (\<lambda>b w. ucast b OR push_bit 8 w) bs 0"

text \<open>The stored function pointer; the numbers stand for the link addresses, zero for the null pointer.\<close>

fun fn_addr :: "tlb_local_fn option \<Rightarrow> ulong" where
  "fn_addr None = 0"
| "fn_addr (Some Local_fence_i) = 1"
| "fn_addr (Some Local_sfence_vma) = 2"
| "fn_addr (Some Local_sfence_vma_asid) = 3"
| "fn_addr (Some Local_hfence_gvma) = 4"
| "fn_addr (Some Local_hfence_gvma_vmid) = 5"
| "fn_addr (Some Local_hfence_vvma) = 6"
| "fn_addr (Some Local_hfence_vvma_asid) = 7"

definition addr_fn :: "ulong \<Rightarrow> tlb_local_fn option" where
  "addr_fn a =
     (if a = 1 then Some Local_fence_i else if a = 2 then Some Local_sfence_vma else if a = 3 then Some Local_sfence_vma_asid
      else if a = 4 then Some Local_hfence_gvma else if a = 5 then Some Local_hfence_gvma_vmid
      else if a = 6 then Some Local_hfence_vvma else if a = 7 then Some Local_hfence_vvma_asid else None)"

definition tlb_words :: "sbi_tlb_info \<Rightarrow> ulong list" where
  "tlb_words t = [tlb_start t, tlb_size t, tlb_asid t, tlb_vmid t, fn_addr (local_fn t), smask t ! 0, smask t ! 1]"

definition tlb_encode :: "sbi_tlb_info \<Rightarrow> bytes" where
  "tlb_encode t = concat (map ulong_bytes (tlb_words t))"

definition field_at :: "bytes \<Rightarrow> nat \<Rightarrow> ulong" where
  "field_at bs i = bytes_word (cells bs (8 * i) 8)"

definition tlb_decode :: "bytes \<Rightarrow> sbi_tlb_info" where
  "tlb_decode bs = \<lparr>tlb_start = field_at bs 0, tlb_size = field_at bs 1, tlb_asid = field_at bs 2, tlb_vmid = field_at bs 3,
     local_fn = addr_fn (field_at bs 4), smask = [field_at bs 5, field_at bs 6]\<rparr>"

section \<open>Local fences\<close>

text \<open>
  The loop \<^verbatim>\<open>for (i = 0; i < size; i += PAGE_SIZE)\<close> with the wrap-around of \<^verbatim>\<open>unsigned long\<close>: for the largest sizes
  it never ends, which is the value \<open>None\<close>.
\<close>

abbreviation (input) PAGE_SIZE :: ulong where "PAGE_SIZE \<equiv> 0x1000"

partial_function (option) fence_pages :: "(ulong \<Rightarrow> fence) \<Rightarrow> ulong \<Rightarrow> ulong \<Rightarrow> fence list \<Rightarrow> fence list option" where
  "fence_pages mk sz i acc = (if i < sz then fence_pages mk sz (i + PAGE_SIZE) (acc @ [mk i]) else Some acc)"

declare fence_pages.simps [code]

definition exec_fences :: "hartid \<Rightarrow> fence list option \<Rightarrow> machine \<Rightarrow> unit run" where
  "exec_fences h fs m = (case fs of None \<Rightarrow> Spin m | Some fs \<Rightarrow> Ret () (m\<lparr>m_log := m_log m @ map (Ev_fence h) fs\<rparr>))"

definition hgatp_of_vmid :: "ulong \<Rightarrow> ulong" where
  "hgatp_of_vmid vmid = push_bit HGATP_VMID_SHIFT vmid AND HGATP_VMID_MASK"

text \<open>The \<^verbatim>\<open>VVMA\<close> functions run their fences with the guest's number in \<^verbatim>\<open>hgatp\<close> and restore the register.\<close>

definition with_hgatp :: "sbi_plat \<Rightarrow> hartid \<Rightarrow> ulong \<Rightarrow> (ulong \<Rightarrow> fence list option) \<Rightarrow> machine \<Rightarrow> unit run" where
  "with_hgatp pl h vmid fs m =
     (let hgatp = h_csr m h CSR_HGATP;
          m = upd_csr h (csr_write (p_hw pl) CSR_HGATP (hgatp_of_vmid vmid)) m
      in run_bind (exec_fences h (fs (h_csr m h CSR_HGATP)) m)
           (\<lambda>_ m. Ret () (upd_csr h (csr_write (p_hw pl) CSR_HGATP hgatp) m)))"

definition sbi_tlb_local_hfence_vvma :: "sbi_plat \<Rightarrow> hartid \<Rightarrow> sbi_tlb_info \<Rightarrow> machine \<Rightarrow> unit run" where
  "sbi_tlb_local_hfence_vvma pl h t m =
     (let start = tlb_start t; sz = tlb_size t
      in with_hgatp pl h (tlb_vmid t)
           (\<lambda>g. if start = 0 \<and> sz = 0 \<or> sz = SBI_TLB_FLUSH_ALL then Some [Hfence_vvma_all g]
                else fence_pages (\<lambda>i. Hfence_vvma_va g (start + i)) sz 0 []) (incr_fw h 19 m))"

definition sbi_tlb_local_hfence_gvma :: "hartid \<Rightarrow> sbi_tlb_info \<Rightarrow> machine \<Rightarrow> unit run" where
  "sbi_tlb_local_hfence_gvma h t m =
     (let start = tlb_start t; sz = tlb_size t
      in exec_fences h
           (if start = 0 \<and> sz = 0 \<or> sz = SBI_TLB_FLUSH_ALL then Some [Hfence_gvma_all]
            else fence_pages (\<lambda>i. Hfence_gvma_gpa (drop_bit 2 (start + i))) sz 0 []) (incr_fw h 15 m))"

definition sbi_tlb_local_sfence_vma :: "hartid \<Rightarrow> sbi_tlb_info \<Rightarrow> machine \<Rightarrow> unit run" where
  "sbi_tlb_local_sfence_vma h t m =
     (let start = tlb_start t; sz = tlb_size t
      in exec_fences h
           (if start = 0 \<and> sz = 0 \<or> sz = SBI_TLB_FLUSH_ALL then Some [Sfence_vma_all]
            else fence_pages (\<lambda>i. Sfence_vma_va (start + i)) sz 0 []) (incr_fw h 11 m))"

definition sbi_tlb_local_hfence_vvma_asid :: "sbi_plat \<Rightarrow> hartid \<Rightarrow> sbi_tlb_info \<Rightarrow> machine \<Rightarrow> unit run" where
  "sbi_tlb_local_hfence_vvma_asid pl h t m =
     (let start = tlb_start t; sz = tlb_size t; asid = tlb_asid t
      in with_hgatp pl h (tlb_vmid t)
           (\<lambda>g. if start = 0 \<and> sz = 0 then Some [Hfence_vvma_all g]
                else if sz = SBI_TLB_FLUSH_ALL then Some [Hfence_vvma_asid g asid]
                else fence_pages (\<lambda>i. Hfence_vvma_asid_va g (start + i) asid) sz 0 []) (incr_fw h 21 m))"

definition sbi_tlb_local_hfence_gvma_vmid :: "hartid \<Rightarrow> sbi_tlb_info \<Rightarrow> machine \<Rightarrow> unit run" where
  "sbi_tlb_local_hfence_gvma_vmid h t m =
     (let start = tlb_start t; sz = tlb_size t; vmid = tlb_vmid t
      in exec_fences h
           (if start = 0 \<and> sz = 0 then Some [Hfence_gvma_all]
            else if sz = SBI_TLB_FLUSH_ALL then Some [Hfence_gvma_vmid vmid]
            else fence_pages (\<lambda>i. Hfence_gvma_vmid_gpa (drop_bit 2 (start + i)) vmid) sz 0 []) (incr_fw h 17 m))"

definition sbi_tlb_local_sfence_vma_asid :: "hartid \<Rightarrow> sbi_tlb_info \<Rightarrow> machine \<Rightarrow> unit run" where
  "sbi_tlb_local_sfence_vma_asid h t m =
     (let start = tlb_start t; sz = tlb_size t; asid = tlb_asid t
      in exec_fences h
           (if start = 0 \<and> sz = 0 then Some [Sfence_vma_all]
            else if sz = SBI_TLB_FLUSH_ALL then Some [Sfence_vma_asid asid]
            else fence_pages (\<lambda>i. Sfence_vma_va_asid (start + i) asid) sz 0 []) (incr_fw h 13 m))"

definition sbi_tlb_local_fence_i :: "hartid \<Rightarrow> sbi_tlb_info \<Rightarrow> machine \<Rightarrow> unit run" where
  "sbi_tlb_local_fence_i h t m = exec_fences h (Some [Fence_i]) (incr_fw h 9 m)"

text \<open>The call \<^verbatim>\<open>tinfo->local_fn(tinfo)\<close>.\<close>

definition call_local_fn :: "sbi_plat \<Rightarrow> hartid \<Rightarrow> sbi_tlb_info \<Rightarrow> machine \<Rightarrow> unit run" where
  "call_local_fn pl h t m =
     (case local_fn t of
        None \<Rightarrow> Fault
      | Some Local_fence_i \<Rightarrow> sbi_tlb_local_fence_i h t m
      | Some Local_sfence_vma \<Rightarrow> sbi_tlb_local_sfence_vma h t m
      | Some Local_sfence_vma_asid \<Rightarrow> sbi_tlb_local_sfence_vma_asid h t m
      | Some Local_hfence_gvma \<Rightarrow> sbi_tlb_local_hfence_gvma h t m
      | Some Local_hfence_gvma_vmid \<Rightarrow> sbi_tlb_local_hfence_gvma_vmid h t m
      | Some Local_hfence_vvma \<Rightarrow> sbi_tlb_local_hfence_vvma pl h t m
      | Some Local_hfence_vvma_asid \<Rightarrow> sbi_tlb_local_hfence_vvma_asid pl h t m)"

definition tlb_pmu_incr_fw_ctr :: "hartid \<Rightarrow> sbi_tlb_info \<Rightarrow> machine \<Rightarrow> machine" where
  "tlb_pmu_incr_fw_ctr h t m =
     (case local_fn t of
        None \<Rightarrow> m
      | Some Local_fence_i \<Rightarrow> incr_fw h 8 m
      | Some Local_sfence_vma \<Rightarrow> incr_fw h 10 m
      | Some Local_sfence_vma_asid \<Rightarrow> incr_fw h 12 m
      | Some Local_hfence_gvma \<Rightarrow> incr_fw h 14 m
      | Some Local_hfence_gvma_vmid \<Rightarrow> incr_fw h 16 m
      | Some Local_hfence_vvma \<Rightarrow> incr_fw h 18 m
      | Some Local_hfence_vvma_asid \<Rightarrow> incr_fw h 20 m)"

section \<open>Queues and synchronisation\<close>

definition upd_sync :: "hartid \<Rightarrow> ulong \<Rightarrow> machine \<Rightarrow> machine" where
  "upd_sync r v m = m\<lparr>m_tlb := (m_tlb m)\<lparr>tlb_sync_cell := (tlb_sync_cell (m_tlb m))(r := v)\<rparr>\<rparr>"

definition upd_fifo :: "hartid \<Rightarrow> sbi_fifo \<Rightarrow> machine \<Rightarrow> machine" where
  "upd_fifo r f m = m\<lparr>m_tlb := (m_tlb m)\<lparr>tlb_fifo := (tlb_fifo (m_tlb m))(r := f)\<rparr>\<rparr>"

text \<open>\<^verbatim>\<open>while (atomic_raw_xchg_ulong(rtlb_sync, 1)) ;\<close>\<close>

fun sync_set_loop :: "nat \<Rightarrow> (machine \<Rightarrow> machine) \<Rightarrow> hartid \<Rightarrow> machine \<Rightarrow> unit run" where
  "sync_set_loop 0 env r m = Spin m"
| "sync_set_loop (Suc n) env r m =
     (case atomic_raw_xchg_ulong 1 (tlb_sync_cell (m_tlb m) r) of
        (old, v) \<Rightarrow> if old = 0 then Ret () (upd_sync r v m) else sync_set_loop n env r (env (upd_sync r v m)))"

definition tlb_entry_process :: "sbi_plat \<Rightarrow> nat \<Rightarrow> (machine \<Rightarrow> machine) \<Rightarrow> hartid \<Rightarrow> sbi_tlb_info \<Rightarrow> machine \<Rightarrow> unit run" where
  "tlb_entry_process pl fuel env h t m =
     run_bind (call_local_fn pl h t m) (\<lambda>_ m.
       case sbi_hartmask_for_each_hart (smask t) of
         None \<Rightarrow> Fault
       | Some rs \<Rightarrow> run_fold (\<lambda>r _ m. if has_scratch m r then sync_set_loop fuel env r m else Ret () m) rs () m)"

text \<open>\<^verbatim>\<open>sbi_fifo_dequeue(tlb_fifo, &tinfo)\<close>: the request taken from the queue of hart \<open>h\<close>, or none.\<close>

definition tlb_dequeue :: "hartid \<Rightarrow> machine \<Rightarrow> sbi_tlb_info option run" where
  "tlb_dequeue h m =
     (case sbi_fifo_dequeue (Some (tlb_fifo (m_tlb m) h)) (Some (replicate SBI_TLB_INFO_SIZE 0)) of
        Some (rc, Some bs, Some f) \<Rightarrow> Ret (if rc = 0 then Some (tlb_decode bs) else None) (upd_fifo h f m)
      | _ \<Rightarrow> Fault)"

fun tlb_count_loop :: "sbi_plat \<Rightarrow> nat \<Rightarrow> (machine \<Rightarrow> machine) \<Rightarrow> hartid \<Rightarrow> nat \<Rightarrow> machine \<Rightarrow> unit run" where
  "tlb_count_loop pl fuel env h 0 m = Ret () m"
| "tlb_count_loop pl fuel env h (Suc k) m =
     run_bind (tlb_dequeue h m) (\<lambda>tinfo m.
       case tinfo of
         None \<Rightarrow> Ret () m
       | Some t \<Rightarrow> run_bind (tlb_entry_process pl fuel env h t m) (\<lambda>_ m. tlb_count_loop pl fuel env h k m))"

text \<open>The loop leaves only when the number of processed entries exceeds \<open>count\<close>.\<close>

definition tlb_process_count :: "sbi_plat \<Rightarrow> nat \<Rightarrow> (machine \<Rightarrow> machine) \<Rightarrow> hartid \<Rightarrow> nat \<Rightarrow> machine \<Rightarrow> unit run" where
  "tlb_process_count pl fuel env h cnt m = tlb_count_loop pl fuel env h (cnt + 1) m"

fun tlb_process_loop :: "nat \<Rightarrow> sbi_plat \<Rightarrow> nat \<Rightarrow> (machine \<Rightarrow> machine) \<Rightarrow> hartid \<Rightarrow> machine \<Rightarrow> unit run" where
  "tlb_process_loop 0 pl fuel env h m = Spin m"
| "tlb_process_loop (Suc n) pl fuel env h m =
     run_bind (tlb_dequeue h m) (\<lambda>tinfo m.
       case tinfo of
         None \<Rightarrow> Ret () m
       | Some t \<Rightarrow> run_bind (tlb_entry_process pl fuel env h t m) (\<lambda>_ m. tlb_process_loop n pl fuel env h m))"

definition tlb_process :: "sbi_plat \<Rightarrow> nat \<Rightarrow> (machine \<Rightarrow> machine) \<Rightarrow> hartid \<Rightarrow> machine \<Rightarrow> unit run" where
  "tlb_process pl fuel env h m = tlb_process_loop fuel pl fuel env h m"

fun tlb_sync_loop :: "nat \<Rightarrow> sbi_plat \<Rightarrow> nat \<Rightarrow> (machine \<Rightarrow> machine) \<Rightarrow> hartid \<Rightarrow> machine \<Rightarrow> unit run" where
  "tlb_sync_loop 0 pl fuel env h m = Spin m"
| "tlb_sync_loop (Suc n) pl fuel env h m =
     (case atomic_raw_xchg_ulong 0 (tlb_sync_cell (m_tlb m) h) of
        (old, v) \<Rightarrow>
          if old \<noteq> 0 then Ret () (upd_sync h v m)
          else run_bind (tlb_process_count pl fuel env h 1 (upd_sync h v m)) (\<lambda>_ m. tlb_sync_loop n pl fuel env h (env m)))"

definition tlb_sync :: "sbi_plat \<Rightarrow> nat \<Rightarrow> (machine \<Rightarrow> machine) \<Rightarrow> hartid \<Rightarrow> machine \<Rightarrow> unit run" where
  "tlb_sync pl fuel env h m = tlb_sync_loop fuel pl fuel env h m"

section \<open>Requests\<close>

text \<open>The masks of all requests have the two words of the structure, so the union does not fail.\<close>

definition sbi_hartmask_or :: "sbi_hartmask \<Rightarrow> sbi_hartmask \<Rightarrow> sbi_hartmask" where
  "sbi_hartmask_or a b = (case bitmap_or a a b SBI_HARTMASK_MAX_BITS of Some r \<Rightarrow> r | None \<Rightarrow> a)"

definition tlb_range_check :: "sbi_tlb_info \<Rightarrow> sbi_tlb_info \<Rightarrow> inplace_update \<times> sbi_tlb_info" where
  "tlb_range_check cur nxt =
     (let next_end = tlb_start nxt + tlb_size nxt;
          curr_end = tlb_start cur + tlb_size cur
      in if tlb_start nxt \<le> tlb_start cur \<and> curr_end < next_end
         then (SBI_FIFO_UPDATED,
               cur\<lparr>tlb_start := tlb_start nxt, tlb_size := tlb_size nxt, smask := sbi_hartmask_or (smask cur) (smask nxt)\<rparr>)
         else if tlb_start cur \<le> tlb_start nxt \<and> next_end \<le> curr_end
         then (SBI_FIFO_SKIP, cur\<lparr>smask := sbi_hartmask_or (smask cur) (smask nxt)\<rparr>)
         else (SBI_FIFO_UNCHANGED, cur))"

definition tlb_update_cb :: "sbi_tlb_info \<Rightarrow> sbi_tlb_info \<Rightarrow> inplace_update \<times> sbi_tlb_info" where
  "tlb_update_cb nxt cur =
     (if local_fn nxt = Some Local_sfence_vma_asid \<and> local_fn cur = Some Local_sfence_vma_asid
      then if tlb_asid nxt = tlb_asid cur then tlb_range_check cur nxt else (SBI_FIFO_UNCHANGED, cur)
      else if local_fn nxt = Some Local_sfence_vma \<and> local_fn cur = Some Local_sfence_vma
      then tlb_range_check cur nxt
      else (SBI_FIFO_UNCHANGED, cur))"

text \<open>The callback on the bytes of the queue; an unchanged entry is not written.\<close>

definition tlb_update_cb_bytes :: "sbi_tlb_info \<Rightarrow> bytes \<Rightarrow> inplace_update \<times> bytes" where
  "tlb_update_cb_bytes nxt bs =
     (case tlb_update_cb nxt (tlb_decode bs) of
        (ret, cur) \<Rightarrow> (ret, if ret = SBI_FIFO_UNCHANGED then bs else tlb_encode cur))"

fun tlb_enqueue_loop ::
  "nat \<Rightarrow> sbi_plat \<Rightarrow> nat \<Rightarrow> (machine \<Rightarrow> machine) \<Rightarrow> hartid \<Rightarrow> hartid \<Rightarrow> sbi_tlb_info \<Rightarrow> machine \<Rightarrow> unit run" where
  "tlb_enqueue_loop 0 pl fuel env h remote t m = Spin m"
| "tlb_enqueue_loop (Suc n) pl fuel env h remote t m =
     (case sbi_fifo_enqueue (Some (tlb_fifo (m_tlb m) remote)) (Some (tlb_encode t)) of
        Some (rc, Some f) \<Rightarrow>
          (if rc < 0 then run_bind (tlb_process_count pl fuel env h 1 (upd_fifo remote f m))
                            (\<lambda>_ m. tlb_enqueue_loop n pl fuel env h remote t (env m))
           else Ret () (upd_fifo remote f m))
      | _ \<Rightarrow> Fault)"

text \<open>A range beyond the limit becomes a flush of everything.\<close>

definition tlb_clamp :: "ulong \<Rightarrow> sbi_tlb_info \<Rightarrow> sbi_tlb_info" where
  "tlb_clamp limit t = (if limit < tlb_size t then t\<lparr>tlb_start := 0, tlb_size := SBI_TLB_FLUSH_ALL\<rparr> else t)"

definition tlb_update ::
  "sbi_plat \<Rightarrow> nat \<Rightarrow> (machine \<Rightarrow> machine) \<Rightarrow> hartid \<Rightarrow> hartid \<Rightarrow> sbi_tlb_info option \<Rightarrow> machine \<Rightarrow> (int \<times> sbi_tlb_info option) run" where
  "tlb_update pl fuel env h remote data m =
     (case data of
        None \<Rightarrow> Fault
      | Some t \<Rightarrow>
          (let t = tlb_clamp (tlb_range_flush_limit (m_tlb m)) t
           in if remote = h then run_bind (call_local_fn pl h t m) (\<lambda>_ m. Ret (- 1, Some t) m)
              else case sbi_fifo_inplace_update (Some (tlb_fifo (m_tlb m) remote)) (Some t) tlb_update_cb_bytes of
                  Some (ret, Some f) \<Rightarrow>
                    (if ret \<noteq> SBI_FIFO_UNCHANGED then Ret (1, Some t) (upd_fifo remote f m)
                     else run_bind (tlb_enqueue_loop fuel pl fuel env h remote t (upd_fifo remote f m)) (\<lambda>_ m. Ret (0, Some t) m))
                | _ \<Rightarrow> Fault))"

definition tlb_ops :: sbi_ipi_event_ops where
  "tlb_ops = \<lparr>ops_update = Some Tlb_update, ops_sync = Some Tlb_sync, ops_process = Some Tlb_process\<rparr>"

text \<open>The callbacks of all events of the firmware; \<open>exit\<close> is \<^verbatim>\<open>sbi_exit\<close>.\<close>

definition fw_callbacks :: "sbi_plat \<Rightarrow> nat \<Rightarrow> (machine \<Rightarrow> machine) \<Rightarrow> (hartid \<Rightarrow> machine \<Rightarrow> int run) \<Rightarrow> ipi_callbacks" where
  "fw_callbacks pl fuel env exit =
     \<lparr>cb_update = (\<lambda>u. case u of Tlb_update \<Rightarrow> tlb_update pl fuel env),
      cb_sync = (\<lambda>s. case s of Tlb_sync \<Rightarrow> tlb_sync pl fuel env),
      cb_process = (\<lambda>p h. case p of
         Ipi_process_smode \<Rightarrow> sbi_ipi_process_smode pl h | Ipi_process_halt \<Rightarrow> sbi_ipi_process_halt (exit h) h
       | Tlb_process \<Rightarrow> tlb_process pl fuel env h)\<rparr>"

definition sbi_tlb_request :: "ipi_callbacks \<Rightarrow> hartid \<Rightarrow> ulong \<Rightarrow> ulong \<Rightarrow> sbi_tlb_info \<Rightarrow> machine \<Rightarrow> int run" where
  "sbi_tlb_request cb h hmask hbase t m =
     (if local_fn t = None then Ret SBI_EINVAL m
      else let m = tlb_pmu_incr_fw_ctr h t m in sbi_ipi_send_many cb h hmask hbase (tlb_event (m_tlb m)) (Some t) m)"

text \<open>\<^verbatim>\<open>SBI_TLB_INFO_INIT\<close>: the request of the source hart.\<close>

definition SBI_TLB_INFO_INIT :: "ulong \<Rightarrow> ulong \<Rightarrow> ulong \<Rightarrow> ulong \<Rightarrow> tlb_local_fn \<Rightarrow> hartid \<Rightarrow> sbi_tlb_info" where
  "SBI_TLB_INFO_INIT start sz asid vmid lfn src =
     \<lparr>tlb_start = start, tlb_size = sz, tlb_asid = asid, tlb_vmid = vmid, local_fn = Some lfn,
      smask = (if src < SBI_HARTMASK_MAX_BITS then (case set_bit_at src hartmask_zero of Some b \<Rightarrow> b | None \<Rightarrow> hartmask_zero) else hartmask_zero)\<rparr>"

text \<open>The end of \<^verbatim>\<open>sbi_tlb_init\<close>. The memory of the queue is cleared by \<^verbatim>\<open>sbi_fifo_init\<close>, whatever it held.\<close>

definition tlb_init_hart :: "hartid \<Rightarrow> machine \<Rightarrow> int run" where
  "tlb_init_hart h m =
     (let m = upd_sync h 0 m
      in case sbi_fifo_init (replicate (SBI_TLB_FIFO_NUM_ENTRIES * SBI_TLB_INFO_SIZE) 0) 8 56 of
           None \<Rightarrow> Fault
         | Some f \<Rightarrow> Ret 0 (upd_fifo h f m))"

definition upd_tlb :: "(tlb_sys \<Rightarrow> tlb_sys) \<Rightarrow> machine \<Rightarrow> machine" where
  "upd_tlb f m = m\<lparr>m_tlb := f (m_tlb m)\<rparr>"

text \<open>\<open>limit\<close> is the platform's flush limit. \<^verbatim>\<open>sbi_scratch_free_offset\<close> does nothing in this version.\<close>

definition sbi_tlb_init :: "ulong \<Rightarrow> hartid \<Rightarrow> bool \<Rightarrow> machine \<Rightarrow> int run" where
  "sbi_tlb_init limit h cold_boot m =
     (if cold_boot
      then run_bind (scratch_alloc 8 m) (\<lambda>off m.
        let m = upd_tlb (\<lambda>s. s\<lparr>tlb_sync_off := off\<rparr>) m
        in if off = 0 then Ret SBI_ENOMEM m
        else run_bind (scratch_alloc 24 m) (\<lambda>off m.
        let m = upd_tlb (\<lambda>s. s\<lparr>tlb_fifo_off := off\<rparr>) m
        in if off = 0 then Ret SBI_ENOMEM m
        else run_bind (scratch_alloc 448 m) (\<lambda>off m.
        let m = upd_tlb (\<lambda>s. s\<lparr>tlb_fifo_mem_off := off\<rparr>) m
        in if off = 0 then Ret SBI_ENOMEM m
        else case sbi_ipi_event_create (Some tlb_ops) (m_ipi m) of (ret, s) \<Rightarrow>
          if ret < 0 then Ret ret (m\<lparr>m_ipi := s\<rparr>)
          else tlb_init_hart h (upd_tlb (\<lambda>t. t\<lparr>tlb_event := nat ret, tlb_range_flush_limit := limit\<rparr>) (m\<lparr>m_ipi := s\<rparr>)))))
      else if tlb_sync_off (m_tlb m) = 0 \<or> tlb_fifo_off (m_tlb m) = 0 \<or> tlb_fifo_mem_off (m_tlb m) = 0 then Ret SBI_ENOMEM m
      else if SBI_IPI_EVENT_MAX \<le> tlb_event (m_tlb m) then Ret SBI_ENOSPC m
      else tlb_init_hart h m)"

section \<open>Requests survive the queue\<close>

lemma length_ulong_bytes [simp]: "length (ulong_bytes w) = 8"
  by (simp add: ulong_bytes_def)

lemma bit_bytes_word:
  "length bs \<le> 8 \<Longrightarrow> bit (bytes_word bs) k \<longleftrightarrow> k < 8 * length bs \<and> bit (bs ! (k div 8)) (k mod 8)"
proof (induction bs arbitrary: k)
  case (Cons b bs)
  have step: "bit (bytes_word (b # bs)) k \<longleftrightarrow> bit b k \<or> 8 \<le> k \<and> k < 64 \<and> bit (bytes_word bs) (k - 8)"
    using bit_imp_le_length [of b k] by (auto simp: bytes_word_def bit_or_iff bit_ucast_iff bit_push_bit_iff)
  show ?case
  proof (cases "k < 8")
    case False
    then obtain j where j: "k = 8 + j" using le_Suc_ex [of 8 k] by auto
    have nb: "\<not> bit b k" using False bit_imp_le_length [of b k] by auto
    have "bit (bytes_word (b # bs)) k \<longleftrightarrow> k < 64 \<and> j < 8 * length bs \<and> bit (bs ! (j div 8)) (j mod 8)"
      using step nb Cons.IH [of j] Cons.prems by (simp add: j)
    moreover have "k div 8 = j div 8 + 1" "k mod 8 = j mod 8" using div_add_self1 [of 8 j] j by simp_all
    then have "(b # bs) ! (k div 8) = bs ! (j div 8)" "k mod 8 = j mod 8" by simp_all
    moreover have "k < 64 \<and> j < 8 * length bs \<longleftrightarrow> k < 8 * length (b # bs)" using Cons.prems j by auto
    ultimately show ?thesis by metis
  qed (use step bit_imp_le_length [of b k] in auto)
qed (simp add: bytes_word_def)

lemma bytes_word_ulong_bytes [simp]: "bytes_word (ulong_bytes w) = w"
proof (rule bit_word_eqI)
  fix k assume "k < LENGTH(64)"
  then have k: "k < 64" "k div 8 < 8" by simp_all
  have "8 * (k div 8) + k mod 8 = k" by simp
  moreover have "k mod 8 < 8" by simp
  ultimately show "bit (bytes_word (ulong_bytes w)) k = bit w k"
    using k by (simp add: bit_bytes_word) (simp add: ulong_bytes_def bit_ucast_iff bit_drop_bit_eq)
qed

lemma cells_concat:
  assumes "\<And>x. length (f x) = n" and "i < length xs"
  shows "cells (concat (map f xs)) (n * i) n = f (xs ! i)"
  using assms(2)
proof (induction xs arbitrary: i)
  case (Cons x xs)
  show ?case
  proof (cases i)
    case (Suc j)
    have "cells (concat (map f (x # xs))) (n * Suc j) n = cells (concat (map f xs)) (n * j) n"
      by (simp add: cells_def assms(1))
    with Suc Cons show ?thesis by simp
  qed (simp add: cells_def assms(1))
qed simp

definition tlb_wf :: "sbi_tlb_info \<Rightarrow> bool" where
  "tlb_wf t \<longleftrightarrow> length (smask t) = 2"

lemma field_at_encode: "i < 7 \<Longrightarrow> field_at (tlb_encode t) i = tlb_words t ! i"
  using cells_concat [of ulong_bytes 8 i "tlb_words t"] by (simp add: field_at_def tlb_encode_def tlb_words_def)

lemma addr_fn_addr [simp]: "addr_fn (fn_addr f) = f"
  by (cases f rule: fn_addr.cases) (simp_all add: addr_fn_def)

lemma length_tlb_encode [simp]: "length (tlb_encode t) = 56"
  by (simp add: tlb_encode_def tlb_words_def)

lemma tlb_decode_encode [simp]: "tlb_wf t \<Longrightarrow> tlb_decode (tlb_encode t) = t"
proof -
  assume "tlb_wf t"
  then obtain a b where "smask t = [a, b]" by (auto simp: tlb_wf_def length_Suc_conv numeral_2_eq_2)
  then show ?thesis by (simp add: tlb_decode_def field_at_encode) (simp add: tlb_words_def)
qed

section \<open>Local fences cover the requested range\<close>

text \<open>
  What a fence may have to remove: fetched instructions, a translation of a virtual address in an
  address space, a translation of a guest physical address of a guest, or a translation of a guest virtual
  address of the guest in \<^verbatim>\<open>hgatp\<close>.
\<close>

datatype cached = Insns | Trans ulong ulong | Gstage ulong ulong | Vstage ulong ulong ulong

definition same_page :: "ulong \<Rightarrow> ulong \<Rightarrow> bool" where
  "same_page a b \<longleftrightarrow> drop_bit 12 a = drop_bit 12 b"

fun fence_covers :: "fence \<Rightarrow> cached \<Rightarrow> bool" where
  "fence_covers Fence_i c \<longleftrightarrow> c = Insns"
| "fence_covers Sfence_vma_all c \<longleftrightarrow> (\<exists>va asid. c = Trans va asid)"
| "fence_covers (Sfence_vma_va a) c \<longleftrightarrow> (\<exists>va asid. c = Trans va asid \<and> same_page a va)"
| "fence_covers (Sfence_vma_asid s) c \<longleftrightarrow> (\<exists>va. c = Trans va s)"
| "fence_covers (Sfence_vma_va_asid a s) c \<longleftrightarrow> (\<exists>va. c = Trans va s \<and> same_page a va)"
| "fence_covers Hfence_gvma_all c \<longleftrightarrow> (\<exists>gpa vmid. c = Gstage gpa vmid)"
| "fence_covers (Hfence_gvma_gpa a) c \<longleftrightarrow> (\<exists>gpa vmid. c = Gstage gpa vmid \<and> drop_bit 10 a = drop_bit 12 gpa)"
| "fence_covers (Hfence_gvma_vmid v) c \<longleftrightarrow> (\<exists>gpa. c = Gstage gpa v)"
| "fence_covers (Hfence_gvma_vmid_gpa a v) c \<longleftrightarrow> (\<exists>gpa. c = Gstage gpa v \<and> drop_bit 10 a = drop_bit 12 gpa)"
| "fence_covers (Hfence_vvma_all g) c \<longleftrightarrow> (\<exists>va asid. c = Vstage va asid g)"
| "fence_covers (Hfence_vvma_va g a) c \<longleftrightarrow> (\<exists>va asid. c = Vstage va asid g \<and> same_page a va)"
| "fence_covers (Hfence_vvma_asid g s) c \<longleftrightarrow> (\<exists>va. c = Vstage va s g)"
| "fence_covers (Hfence_vvma_asid_va g a s) c \<longleftrightarrow> (\<exists>va. c = Vstage va s g \<and> same_page a va)"

text \<open>The page loop ends for every size that leaves room for one more page, after \<open>pages\<close> rounds.\<close>

definition pages :: "ulong \<Rightarrow> nat" where
  "pages sz = (unat sz + 4095) div 4096"

lemma pages_less: "k < pages sz \<longleftrightarrow> 4096 * k < unat sz"
  by (simp add: pages_def) (auto simp: less_eq_div_iff_mult_less_eq Suc_le_eq [symmetric] simp del: Suc_le_eq)

lemma fence_pages_run:
  assumes "unat sz \<le> 2 ^ 64 - 4096" and "k \<le> pages sz"
  shows "fence_pages mk sz (of_nat (4096 * k)) acc = Some (acc @ map (\<lambda>j. mk (of_nat (4096 * j))) [k..<pages sz])"
  using assms(2)
proof (induction "pages sz - k" arbitrary: k acc)
  case 0
  then have "k = pages sz" by simp
  have "4096 * pages sz \<le> unat sz + 4095" by (simp add: pages_def)
  then have "unat (of_nat (4096 * k) :: ulong) = 4096 * k" using assms(1) \<open>k = pages sz\<close>
    by (simp add: unat_of_nat del: of_nat_mult)
  moreover have "\<not> 4096 * k < unat sz" using pages_less [of k sz] \<open>k = pages sz\<close> by simp
  ultimately show ?case using \<open>k = pages sz\<close> by (subst fence_pages.simps) (simp add: word_less_nat_alt del: of_nat_mult)
next
  case (Suc n)
  then have "k < pages sz" by linarith
  then have k: "k < pages sz" "4096 * k < unat sz" using pages_less [of k sz] by simp_all
  then have "unat (of_nat (4096 * k) :: ulong) = 4096 * k" using unat_less_width [of sz]
    by (simp add: unat_of_nat del: of_nat_mult)
  then have lt: "of_nat (4096 * k) < sz" using k by (simp add: word_less_nat_alt del: of_nat_mult)
  have nx: "(of_nat (4096 * k) :: ulong) + 0x1000 = of_nat (4096 * Suc k)" by (simp add: algebra_simps)
  have "fence_pages mk sz (of_nat (4096 * k)) acc = fence_pages mk sz (of_nat (4096 * Suc k)) (acc @ [mk (of_nat (4096 * k))])"
    using lt by (subst fence_pages.simps) (simp only: if_True nx)
  also have "\<dots> = Some ((acc @ [mk (of_nat (4096 * k))]) @ map (\<lambda>j. mk (of_nat (4096 * j))) [Suc k..<pages sz])"
    using Suc k by (intro Suc.hyps(1)) simp_all
  finally show ?case using k by (simp add: upt_conv_Cons del: of_nat_mult)
qed

lemma fence_pages_eq:
  assumes "unat sz \<le> 2 ^ 64 - 4096"
  shows "fence_pages mk sz 0 [] = Some (map (\<lambda>j. mk (of_nat (4096 * j))) [0..<pages sz])"
  using fence_pages_run [OF assms, of 0 mk "[]"] by simp

text \<open>The fences that the local function of a request executes.\<close>

definition local_fences :: "sbi_plat \<Rightarrow> sbi_tlb_info \<Rightarrow> fence list option" where
  "local_fences pl t =
     (let start = tlb_start t; sz = tlb_size t; asid = tlb_asid t; vmid = tlb_vmid t;
          g = csr_warl (p_hw pl) CSR_HGATP (hgatp_of_vmid vmid);
          nil = (start = 0 \<and> sz = 0); all = (sz = SBI_TLB_FLUSH_ALL)
      in case local_fn t of
           None \<Rightarrow> None
         | Some Local_fence_i \<Rightarrow> Some [Fence_i]
         | Some Local_sfence_vma \<Rightarrow> if nil \<or> all then Some [Sfence_vma_all] else fence_pages (\<lambda>i. Sfence_vma_va (start + i)) sz 0 []
         | Some Local_sfence_vma_asid \<Rightarrow>
             if nil then Some [Sfence_vma_all] else if all then Some [Sfence_vma_asid asid]
             else fence_pages (\<lambda>i. Sfence_vma_va_asid (start + i) asid) sz 0 []
         | Some Local_hfence_gvma \<Rightarrow>
             if nil \<or> all then Some [Hfence_gvma_all] else fence_pages (\<lambda>i. Hfence_gvma_gpa (drop_bit 2 (start + i))) sz 0 []
         | Some Local_hfence_gvma_vmid \<Rightarrow>
             if nil then Some [Hfence_gvma_all] else if all then Some [Hfence_gvma_vmid vmid]
             else fence_pages (\<lambda>i. Hfence_gvma_vmid_gpa (drop_bit 2 (start + i)) vmid) sz 0 []
         | Some Local_hfence_vvma \<Rightarrow>
             if nil \<or> all then Some [Hfence_vvma_all g] else fence_pages (\<lambda>i. Hfence_vvma_va g (start + i)) sz 0 []
         | Some Local_hfence_vvma_asid \<Rightarrow>
             if nil then Some [Hfence_vvma_all g] else if all then Some [Hfence_vvma_asid g asid]
             else fence_pages (\<lambda>i. Hfence_vvma_asid_va g (start + i) asid) sz 0 [])"

lemma exec_fences_logs:
  assumes "fs = Some l"
  shows "\<exists>m'. exec_fences h fs (incr_fw h n m) = Ret () m' \<and> m_log m' = m_log m @ map (Ev_fence h) l \<and> m_tlb m' = m_tlb m \<and>
    ipi_type m' = ipi_type m \<and> has_scratch m' = has_scratch m"
  using assms by (simp add: exec_fences_def)

lemma with_hgatp_logs:
  assumes "fs (csr_warl (p_hw pl) CSR_HGATP (hgatp_of_vmid vmid)) = Some l"
  shows "\<exists>m'. with_hgatp pl h vmid fs (incr_fw h n m) = Ret () m' \<and> m_log m' = m_log m @ map (Ev_fence h) l \<and> m_tlb m' = m_tlb m \<and>
    ipi_type m' = ipi_type m \<and> has_scratch m' = has_scratch m"
  using assms by (simp add: with_hgatp_def exec_fences_def csr_write_def csr_keeps_def Let_def)

lemma call_local_fn_logs:
  assumes "local_fences pl t = Some fs"
  shows "\<exists>m'. call_local_fn pl h t m = Ret () m' \<and> m_log m' = m_log m @ map (Ev_fence h) fs \<and> m_tlb m' = m_tlb m \<and>
    ipi_type m' = ipi_type m \<and> has_scratch m' = has_scratch m"
proof -
  from assms obtain f where f: "local_fn t = Some f" by (cases "local_fn t") (auto simp: local_fences_def)
  note defs = call_local_fn_def sbi_tlb_local_fence_i_def sbi_tlb_local_sfence_vma_def sbi_tlb_local_sfence_vma_asid_def
    sbi_tlb_local_hfence_gvma_def sbi_tlb_local_hfence_gvma_vmid_def sbi_tlb_local_hfence_vvma_def sbi_tlb_local_hfence_vvma_asid_def
  show ?thesis
    using assms unfolding defs Let_def f local_fences_def option.case
    by (cases f; simp only: tlb_local_fn.case; intro exec_fences_logs with_hgatp_logs; (assumption | simp))
qed

text \<open>What a request asks to be removed. The size zero at address zero and the size \<open>- 1\<close> ask for everything.\<close>

definition in_range :: "sbi_tlb_info \<Rightarrow> ulong \<Rightarrow> bool" where
  "in_range t a \<longleftrightarrow> unat (tlb_start t) \<le> unat a \<and> unat a < unat (tlb_start t) + unat (tlb_size t)"

definition req_nil :: "sbi_tlb_info \<Rightarrow> bool" where
  "req_nil t \<longleftrightarrow> tlb_start t = 0 \<and> tlb_size t = 0"

definition req_all :: "sbi_tlb_info \<Rightarrow> bool" where
  "req_all t \<longleftrightarrow> tlb_size t = SBI_TLB_FLUSH_ALL"

definition req_hgatp :: "sbi_plat \<Rightarrow> sbi_tlb_info \<Rightarrow> ulong" where
  "req_hgatp pl t = csr_warl (p_hw pl) CSR_HGATP (hgatp_of_vmid (tlb_vmid t))"

fun req_asks_fn :: "sbi_plat \<Rightarrow> tlb_local_fn \<Rightarrow> sbi_tlb_info \<Rightarrow> cached \<Rightarrow> bool" where
  "req_asks_fn pl Local_fence_i t Insns \<longleftrightarrow> True"
| "req_asks_fn pl Local_sfence_vma t (Trans va asid) \<longleftrightarrow> req_nil t \<or> req_all t \<or> in_range t va"
| "req_asks_fn pl Local_sfence_vma_asid t (Trans va asid) \<longleftrightarrow> req_nil t \<or> asid = tlb_asid t \<and> (req_all t \<or> in_range t va)"
| "req_asks_fn pl Local_hfence_gvma t (Gstage gpa vmid) \<longleftrightarrow> req_nil t \<or> req_all t \<or> in_range t gpa"
| "req_asks_fn pl Local_hfence_gvma_vmid t (Gstage gpa vmid) \<longleftrightarrow> req_nil t \<or> vmid = tlb_vmid t \<and> (req_all t \<or> in_range t gpa)"
| "req_asks_fn pl Local_hfence_vvma t (Vstage va asid g) \<longleftrightarrow> g = req_hgatp pl t \<and> (req_nil t \<or> req_all t \<or> in_range t va)"
| "req_asks_fn pl Local_hfence_vvma_asid t (Vstage va asid g) \<longleftrightarrow>
     g = req_hgatp pl t \<and> (req_nil t \<or> asid = tlb_asid t \<and> (req_all t \<or> in_range t va))"
| "req_asks_fn pl f t c \<longleftrightarrow> False"

definition req_asks :: "sbi_plat \<Rightarrow> sbi_tlb_info \<Rightarrow> cached \<Rightarrow> bool" where
  "req_asks pl t c \<longleftrightarrow> (case local_fn t of None \<Rightarrow> False | Some f \<Rightarrow> req_asks_fn pl f t c)"

text \<open>Requests whose local function ends and covers the range: the start is a page boundary and the range does not wrap.\<close>

definition range_ok :: "sbi_tlb_info \<Rightarrow> bool" where
  "range_ok t \<longleftrightarrow> local_fn t = Some Local_fence_i \<or> req_nil t \<or> req_all t \<or>
     4096 dvd unat (tlb_start t) \<and> unat (tlb_start t) + unat (tlb_size t) \<le> 2 ^ 64 \<and> unat (tlb_size t) \<le> 2 ^ 64 - 4096"

lemma unat_drop_bit_12: "unat (drop_bit 12 (a :: ulong)) = unat a div 4096"
  by (simp add: drop_bit_eq_div unat_div)

lemma page_hit:
  assumes "4096 dvd unat (tlb_start t)" and "in_range t a"
  shows "\<exists>j < pages (tlb_size t). drop_bit 12 (tlb_start t + of_nat (4096 * j)) = drop_bit 12 a"
proof -
  define j where "j = (unat a - unat (tlb_start t)) div 4096"
  have le: "4096 * j \<le> unat a - unat (tlb_start t)" by (simp add: j_def)
  then have lt: "4096 * j < unat (tlb_size t)" "unat (tlb_start t) + 4096 * j \<le> unat a"
    using assms(2) by (auto simp: in_range_def)
  then have "unat (of_nat (4096 * j) :: ulong) = 4096 * j" using unat_less_width [of a]
    by (simp add: unat_of_nat del: of_nat_mult)
  then have u: "unat (tlb_start t + of_nat (4096 * j)) = unat (tlb_start t) + 4096 * j"
    using lt unat_less_width [of a] by (subst unat_add_no_wrap) (simp_all del: of_nat_mult)
  obtain q where q: "unat (tlb_start t) = 4096 * q" using assms(1) by (auto elim: dvdE)
  have "unat a = 4096 * q + (unat a - unat (tlb_start t))" using assms(2) q by (simp add: in_range_def)
  then have "unat a div 4096 = q + j" unfolding j_def by (metis div_mult_self4 add.commute zero_neq_numeral)
  then have "drop_bit 12 (tlb_start t + of_nat (4096 * j)) = drop_bit 12 a"
    unfolding word_unat_eq_iff unat_drop_bit_12 u q by simp
  then show ?thesis using lt(1) pages_less by blast
qed

lemma local_fences_cover:
  assumes "range_ok t" and "local_fn t \<noteq> None"
  shows "\<exists>fs. local_fences pl t = Some fs \<and> (\<forall>c. req_asks pl t c \<longrightarrow> (\<exists>f \<in> set fs. fence_covers f c))"
proof (cases "local_fn t = Some Local_fence_i \<or> req_nil t \<or> req_all t")
  case True
  from assms(2) obtain f where f: "local_fn t = Some f" by blast
  show ?thesis
  proof (cases "f = Local_fence_i")
    case False
    with True f have "tlb_start t = 0 \<and> tlb_size t = 0 \<or> tlb_size t = - 1" by (simp add: req_nil_def req_all_def)
    then show ?thesis using False
      by (cases f) (auto simp: f local_fences_def Let_def req_asks_def req_nil_def req_all_def req_hgatp_def in_range_def
          elim!: req_asks_fn.elims)
  qed (auto simp: f local_fences_def Let_def req_asks_def elim!: req_asks_fn.elims)
next
  case False
  with assms obtain f where f: "local_fn t = Some f" and r: "4096 dvd unat (tlb_start t)" "unat (tlb_size t) \<le> 2 ^ 64 - 4096"
    and n: "\<not> (tlb_start t = 0 \<and> tlb_size t = 0)" "tlb_size t \<noteq> - 1" "f \<noteq> Local_fence_i"
    by (auto simp: range_ok_def req_nil_def req_all_def)
  have nn: "\<not> req_nil t" "\<not> req_all t" using False by simp_all
  note fp = fence_pages_eq [OF r(2)] and hit = page_hit [OF r(1)]
  have d: "drop_bit 10 (drop_bit 2 (x :: ulong)) = drop_bit 12 x" for x by (simp add: drop_bit_drop_bit)
  show ?thesis
    using n by (cases f) (auto simp: f local_fences_def Let_def req_asks_def fp nn req_hgatp_def same_page_def d
        simp del: of_nat_mult elim!: req_asks_fn.elims dest!: hit)
qed

section \<open>Merging requests\<close>

text \<open>
  Requests that keep the queues sound: the local function ends and covers the range, and a range that can be merged with others ends below the end of the
  address space. A mergeable request of everything by the size zero is not among the requests that a queue keeps: its range
  is empty for \<^verbatim>\<open>tlb_range_check\<close>, so another request can swallow it.
\<close>

definition mergeable :: "sbi_tlb_info \<Rightarrow> bool" where
  "mergeable t \<longleftrightarrow> local_fn t = Some Local_sfence_vma \<or> local_fn t = Some Local_sfence_vma_asid"

definition req_ok :: "sbi_tlb_info \<Rightarrow> bool" where
  "req_ok t \<longleftrightarrow> tlb_wf t \<and> local_fn t \<noteq> None \<and> range_ok t \<and>
     (mergeable t \<longrightarrow> (req_all t \<longrightarrow> tlb_start t = 0) \<and> unat (tlb_start t) + unat (tlb_size t) < 2 ^ 64)"

definition swallowable :: "sbi_tlb_info \<Rightarrow> bool" where
  "swallowable t \<longleftrightarrow> mergeable t \<and> req_nil t"

lemma length_2: "length xs = 2 \<Longrightarrow> \<exists>a b. xs = [a, b]"
  by (auto simp: length_Suc_conv numeral_2_eq_2)

lemma hartmask_or_bits:
  assumes "length a = 2" and "length b = 2"
  shows "length (sbi_hartmask_or a b) = 2 \<and>
    (\<forall>h < 128. bitmap_bit (sbi_hartmask_or a b) h \<longleftrightarrow> bitmap_bit a h \<or> bitmap_bit b h)"
proof -
  from length_2 [OF assms(1)] length_2 [OF assms(2)] obtain a0 a1 b0 b1 where ab: "a = [a0, a1]" "b = [b0, b1]" by blast
  have "sbi_hartmask_or a b = [a0 OR b0, a1 OR b1]"
    by (simp add: ab sbi_hartmask_or_def bitmap_or_def BITS_TO_LONGS_def numeral_2_eq_2)
  moreover have "h div 64 = 0 \<or> h div 64 = 1" if "h < 128" for h :: nat
    using that by (auto simp: div_eq_0_iff intro!: div_nat_eqI)
  ultimately show ?thesis unfolding ab by (fastforce simp: bitmap_bit_def bit_or_iff)
qed

lemma unat_flush_all: "unat (SBI_TLB_FLUSH_ALL) = 2 ^ 64 - 1"
  by (simp add: unsigned_minus_1_eq_mask mask_eq_exp_minus_1)

text \<open>The two successful outcomes of \<^verbatim>\<open>tlb_range_check\<close> on ranges that do not wrap.\<close>

lemma range_check_cases:
  assumes "tlb_range_check cur nxt = (r, cur')" and "r \<noteq> SBI_FIFO_UNCHANGED"
    and "unat (tlb_start nxt) + unat (tlb_size nxt) < 2 ^ 64" and "unat (tlb_start cur) + unat (tlb_size cur) < 2 ^ 64"
  shows "(tlb_start cur' = tlb_start nxt \<and> tlb_size cur' = tlb_size nxt \<and> unat (tlb_start nxt) \<le> unat (tlb_start cur) \<and>
       unat (tlb_start cur) + unat (tlb_size cur) \<le> unat (tlb_start nxt) + unat (tlb_size nxt) \<or>
     tlb_start cur' = tlb_start cur \<and> tlb_size cur' = tlb_size cur \<and> unat (tlb_start cur) \<le> unat (tlb_start nxt) \<and>
       unat (tlb_start nxt) + unat (tlb_size nxt) \<le> unat (tlb_start cur) + unat (tlb_size cur)) \<and>
     tlb_asid cur' = tlb_asid cur \<and> tlb_vmid cur' = tlb_vmid cur \<and> local_fn cur' = local_fn cur \<and>
     smask cur' = sbi_hartmask_or (smask cur) (smask nxt)"
  using assms
  by (auto simp: tlb_range_check_def Let_def word_le_nat_alt word_less_nat_alt unat_add_no_wrap split: if_splits)

text \<open>One request takes in another: it asks for all that the other one asks for, and neither is swallowable.\<close>

definition takes_in :: "sbi_plat \<Rightarrow> sbi_tlb_info \<Rightarrow> sbi_tlb_info \<Rightarrow> bool" where
  "takes_in pl t e \<longleftrightarrow> (\<not> swallowable t \<longrightarrow> \<not> swallowable e \<and> (\<forall>c. req_asks pl t c \<longrightarrow> req_asks pl e c))"

lemma takes_in_refl [simp]: "takes_in pl t t"
  by (simp add: takes_in_def)

lemma takes_in_trans: "takes_in pl t e \<Longrightarrow> takes_in pl e g \<Longrightarrow> takes_in pl t g"
  by (simp add: takes_in_def)

lemma wider_takes_in:
  assumes fn: "local_fn t = Some f" "local_fn e = Some f" and f: "f = Local_sfence_vma \<or> f = Local_sfence_vma_asid \<and> tlb_asid t = tlb_asid e"
    and ok: "req_ok t" "req_ok e"
    and r: "unat (tlb_start e) \<le> unat (tlb_start t)" "unat (tlb_start t) + unat (tlb_size t) \<le> unat (tlb_start e) + unat (tlb_size e)"
  shows "takes_in pl t e"
proof -
  have mg: "mergeable t" "mergeable e" using fn f by (auto simp: mergeable_def)
  have w: "unat (tlb_start t) + unat (tlb_size t) < 2 ^ 64" "unat (tlb_start e) + unat (tlb_size e) < 2 ^ 64" using ok mg by (auto simp: req_ok_def)
  have nil: "req_nil x \<longleftrightarrow> unat (tlb_start x) + unat (tlb_size x) = 0" for x by (auto simp: req_nil_def unat_eq_zero)
  have "\<not> req_nil t \<Longrightarrow> \<not> req_nil e" using r(2) unfolding nil by linarith
  moreover have "req_all t \<longrightarrow> req_all e"
    using r w ok mg by (auto simp: req_all_def req_ok_def unat_flush_all word_unat_eq_iff)
  moreover have "in_range t va \<longrightarrow> in_range e va" for va using r by (auto simp: in_range_def)
  ultimately show ?thesis using f mg
    by (auto simp: takes_in_def swallowable_def req_asks_def fn elim!: req_asks_fn.elims)
qed

lemma merge_range:
  assumes ok: "req_ok nxt" "req_ok cur" and fn: "local_fn nxt = Some f" "local_fn cur = Some f"
    and f: "f = Local_sfence_vma \<or> f = Local_sfence_vma_asid \<and> tlb_asid nxt = tlb_asid cur"
    and r: "tlb_range_check cur nxt = (r, cur')" "r \<noteq> SBI_FIFO_UNCHANGED"
  shows "req_ok cur' \<and> takes_in pl cur cur' \<and> takes_in pl nxt cur'"
proof -
  have mg: "mergeable nxt" "mergeable cur" using fn f by (auto simp: mergeable_def)
  have w: "unat (tlb_start nxt) + unat (tlb_size nxt) < 2 ^ 64" "unat (tlb_start cur) + unat (tlb_size cur) < 2 ^ 64"
    and len: "length (smask nxt) = 2" "length (smask cur) = 2"
    using ok mg by (auto simp: req_ok_def tlb_wf_def)
  note R = range_check_cases [OF r w]
  have fs: "local_fn cur' = Some f" "tlb_asid cur' = tlb_asid cur" "tlb_wf cur'" "mergeable cur'"
    using R fn f hartmask_or_bits [OF len(2,1)] by (auto simp: tlb_wf_def mergeable_def)
  have ok': "req_ok cur'" using R ok fs fn mg by (auto simp: req_ok_def range_ok_def req_nil_def req_all_def)
  have "unat (tlb_start cur') \<le> unat (tlb_start cur)" "unat (tlb_start cur) + unat (tlb_size cur) \<le> unat (tlb_start cur') + unat (tlb_size cur')"
    "unat (tlb_start cur') \<le> unat (tlb_start nxt)" "unat (tlb_start nxt) + unat (tlb_size nxt) \<le> unat (tlb_start cur') + unat (tlb_size cur')"
    using R by auto
  note le = this
  have asid: "f = Local_sfence_vma \<or> f = Local_sfence_vma_asid \<and> tlb_asid cur = tlb_asid cur'"
    "f = Local_sfence_vma \<or> f = Local_sfence_vma_asid \<and> tlb_asid nxt = tlb_asid cur'" using f fs(2) by auto
  show ?thesis
    using ok' wider_takes_in [OF fn(2) fs(1) asid(1) ok(2) ok' le(1,2)] wider_takes_in [OF fn(1) fs(1) asid(2) ok(1) ok' le(3,4)] by blast
qed

lemma update_cb_merge:
  assumes ok: "req_ok nxt" "req_ok cur" and r: "tlb_update_cb nxt cur = (r, cur')" "r \<noteq> SBI_FIFO_UNCHANGED"
  shows "req_ok cur' \<and> takes_in pl cur cur' \<and> takes_in pl nxt cur' \<and>
    (\<forall>h < 128. bitmap_bit (smask cur') h \<longleftrightarrow> bitmap_bit (smask cur) h \<or> bitmap_bit (smask nxt) h)"
proof -
  from r obtain f where f: "local_fn nxt = Some f" "local_fn cur = Some f"
      "f = Local_sfence_vma \<or> f = Local_sfence_vma_asid \<and> tlb_asid nxt = tlb_asid cur" and rc: "tlb_range_check cur nxt = (r, cur')"
    by (auto simp: tlb_update_cb_def split: if_splits)
  have "smask cur' = sbi_hartmask_or (smask cur) (smask nxt)"
    using rc r(2) by (auto simp: tlb_range_check_def Let_def split: if_splits)
  moreover have "length (smask cur) = 2" "length (smask nxt) = 2" using ok by (simp_all add: req_ok_def tlb_wf_def)
  ultimately show ?thesis using merge_range [OF ok f rc r(2)] hartmask_or_bits by metis
qed

section \<open>The queue holds requests\<close>

definition tlb_queue_ok :: "sbi_fifo \<Rightarrow> bool" where
  "tlb_queue_ok f \<longleftrightarrow> fifo_ok f \<and> entry_size f = 56 \<and> num_entries f = 8 \<and>
     (\<forall>bs \<in> set (fifo_contents f). \<exists>t. tlb_wf t \<and> bs = tlb_encode t)"

definition tlb_queue :: "sbi_fifo \<Rightarrow> sbi_tlb_info list" where
  "tlb_queue f = map tlb_decode (fifo_contents f)"

lemma tlb_queue_contents: "tlb_queue_ok f \<Longrightarrow> fifo_contents f = map tlb_encode (tlb_queue f) \<and> (\<forall>t \<in> set (tlb_queue f). tlb_wf t)"
  by (force simp: tlb_queue_ok_def tlb_queue_def intro!: map_idI [symmetric])

lemma list_inplace_encode:
  assumes "\<forall>t \<in> set ts. tlb_wf t" and "tlb_wf nxt" and "list_inplace (tlb_update_cb nxt) ts = (r, ts')"
  shows "list_inplace (tlb_update_cb_bytes nxt) (map tlb_encode ts) = (r, map tlb_encode ts') \<and> (\<forall>t \<in> set ts'. tlb_wf t)"
  using assms(1,3)
proof (induction ts arbitrary: ts')
  case (Cons t ts)
  obtain r1 c where u: "tlb_update_cb nxt t = (r1, c)" by fastforce
  have unc: "r1 = SBI_FIFO_UNCHANGED \<Longrightarrow> c = t"
    using u by (auto simp: tlb_update_cb_def tlb_range_check_def Let_def split: if_splits)
  have wf: "tlb_wf c"
    using u Cons.prems(1) assms(2) hartmask_or_bits [of "smask t" "smask nxt"]
    by (auto simp: tlb_update_cb_def tlb_range_check_def Let_def tlb_wf_def split: if_splits)
  have b: "tlb_update_cb_bytes nxt (tlb_encode t) = (r1, tlb_encode c)"
    using Cons.prems(1) u unc by (simp add: tlb_update_cb_bytes_def)
  show ?case using Cons u b unc wf by (auto split: prod.splits if_splits)
qed simp

lemma tlb_inplace_refines:
  assumes ok: "tlb_queue_ok f" and wf: "tlb_wf t" and l: "list_inplace (tlb_update_cb t) (tlb_queue f) = (r, ts)"
  shows "\<exists>g. sbi_fifo_inplace_update (Some f) (Some t) tlb_update_cb_bytes = Some (r, Some g) \<and> tlb_queue_ok g \<and> tlb_queue g = ts"
proof -
  note c = tlb_queue_contents [OF ok]
  from list_inplace_encode [OF conjunct2 [OF c] wf l]
  have e: "list_inplace (tlb_update_cb_bytes t) (fifo_contents f) = (r, map tlb_encode ts)" "\<forall>t \<in> set ts. tlb_wf t" using c by simp_all
  have "length (snd (tlb_update_cb_bytes t d)) = length d" if "length d = unat (entry_size f)" for d
    using that ok by (auto simp: tlb_update_cb_bytes_def tlb_queue_ok_def split: prod.splits)
  with fifo_inplace_abs [where f = f and fptr = tlb_update_cb_bytes and inp = t] ok e(1) obtain g where
    g: "sbi_fifo_inplace_update (Some f) (Some t) tlb_update_cb_bytes = Some (r, Some g)" "fifo_ok g"
      "fifo_contents g = map tlb_encode ts" by (auto simp: tlb_queue_ok_def)
  moreover have "tlb_queue g = ts" using g(3) e(2) by (auto simp: tlb_queue_def comp_def intro: map_idI)
  ultimately show ?thesis using inplace_shape [OF g(1)] ok e(2) by (auto simp: tlb_queue_ok_def)
qed

lemma tlb_enqueue_refines:
  assumes ok: "tlb_queue_ok f" and wf: "tlb_wf t"
  shows "\<exists>rc g. sbi_fifo_enqueue (Some f) (Some (tlb_encode t)) = Some (rc, Some g) \<and> tlb_queue_ok g \<and>
    rc = (if length (tlb_queue f) = 8 then SBI_ENOSPC else 0) \<and> tlb_queue g = (if rc = 0 then tlb_queue f @ [t] else tlb_queue f)"
proof -
  have f: "fifo_ok f" "length (tlb_encode t) = unat (entry_size f)" "unat (num_entries f) = 8" using ok by (simp_all add: tlb_queue_ok_def)
  from fifo_enqueue_abs [OF f(1,2)] f(3) obtain rc g where
    g: "sbi_fifo_enqueue (Some f) (Some (tlb_encode t)) = Some (rc, Some g)" "fifo_ok g"
      "rc = (if length (fifo_contents f) = 8 then SBI_ENOSPC else 0)"
      "fifo_contents g = (if rc = 0 then fifo_contents f @ [tlb_encode t] else fifo_contents f)" by auto
  have len: "length (tlb_queue f) = length (fifo_contents f)" by (simp add: tlb_queue_def)
  have q: "tlb_queue g = (if rc = 0 then tlb_queue f @ [t] else tlb_queue f)" using g(4) wf by (simp add: tlb_queue_def)
  have "tlb_queue_ok g" using enqueue_shape [OF g(1)] g(2,4) ok wf by (auto simp: tlb_queue_ok_def split: if_splits)
  with g q len show ?thesis by metis
qed

lemma tlb_dequeue_refines:
  assumes ok: "tlb_queue_ok (tlb_fifo (m_tlb m) h)"
  shows "\<exists>g. tlb_dequeue h m = Ret (case tlb_queue (tlb_fifo (m_tlb m) h) of [] \<Rightarrow> None | t # _ \<Rightarrow> Some t) (upd_fifo h g m) \<and>
    tlb_queue_ok g \<and> tlb_queue g = tl (tlb_queue (tlb_fifo (m_tlb m) h))"
proof -
  let ?f = "tlb_fifo (m_tlb m) h"
  have f: "fifo_ok ?f" "unat (entry_size ?f) \<le> length (replicate 56 0 :: bytes)" using ok by (simp_all add: tlb_queue_ok_def)
  from fifo_dequeue_abs [OF f] obtain rc d g where
    g: "sbi_fifo_dequeue (Some ?f) (Some (replicate 56 0)) = Some (rc, Some d, Some g)" "fifo_ok g"
      "rc = (if fifo_contents ?f = [] then SBI_ENOENT else 0)"
      "d = (if rc = 0 then splice_at (replicate 56 0) 0 (hd (fifo_contents ?f)) else replicate 56 0)"
      "fifo_contents g = tl (fifo_contents ?f)" by auto
  have "set (tl (fifo_contents ?f)) \<subseteq> set (fifo_contents ?f)" by (cases "fifo_contents ?f") auto
  then have "tlb_queue_ok g" using dequeue_shape [OF g(1)] g(2,5) ok by (auto simp: tlb_queue_ok_def)
  moreover have "tlb_queue g = tl (tlb_queue ?f)" using g(5) by (simp add: tlb_queue_def map_tl)
  moreover have "tlb_dequeue h m = Ret (case tlb_queue ?f of [] \<Rightarrow> None | t # _ \<Rightarrow> Some t) (upd_fifo h g m)"
  proof (cases "fifo_contents ?f")
    case (Cons bs rest)
    then have "length bs = 56" using ok by (auto simp: tlb_queue_ok_def)
    with Cons g show ?thesis by (simp add: tlb_dequeue_def tlb_queue_def splice_at_def)
  qed (use g in \<open>simp add: tlb_dequeue_def tlb_queue_def\<close>)
  ultimately show ?thesis by blast
qed

lemma upd_fifo_simps [simp]:
  "tlb_fifo (m_tlb (upd_fifo r f m)) = (tlb_fifo (m_tlb m))(r := f)" "tlb_sync_cell (m_tlb (upd_fifo r f m)) = tlb_sync_cell (m_tlb m)"
  "m_log (upd_fifo r f m) = m_log m" "ipi_type (upd_fifo r f m) = ipi_type m"
  "tlb_range_flush_limit (m_tlb (upd_fifo r f m)) = tlb_range_flush_limit (m_tlb m)"
  by (simp_all add: upd_fifo_def)

text \<open>
  C35. The local fence functions (\<^verbatim>\<open>sbi_tlb_local_*\<close>): for a request whose range starts on a page boundary and does not
  wrap around, or that asks for everything, the function returns, and the fences it has executed on its hart
  remove everything the request asks for: instructions, or every translation of an address in the range in the named address
  space or guest, or all of them.
\<close>

theorem tlb_local_covers:
  assumes "range_ok t" and "local_fn t \<noteq> None"
  shows "\<exists>fs m'. call_local_fn pl h t m = Ret () m' \<and> m_log m' = m_log m @ map (Ev_fence h) fs \<and>
    (\<forall>c. req_asks pl t c \<longrightarrow> (\<exists>f \<in> set fs. fence_covers f c))"
  using local_fences_cover [OF assms, of pl] call_local_fn_logs [of pl t _ h m] by blast

text \<open>A request of hart 0 for two pages of one address space.\<close>

definition tlb_example :: sbi_tlb_info where
  "tlb_example = SBI_TLB_INFO_INIT 0x3000 0x2000 5 0 Local_sfence_vma_asid 0"

theorem tlb_local_covers_witness:
  "\<exists>fs m'. call_local_fn plat_example 1 tlb_example machine_boot = Ret () m' \<and> m_log m' = map (Ev_fence 1) fs \<and>
    (\<exists>f \<in> set fs. fence_covers f (Trans 0x4abc 5))"
proof -
  have "range_ok tlb_example" "local_fn tlb_example \<noteq> None" "req_asks plat_example tlb_example (Trans 0x4abc 5)"
    by (simp_all add: tlb_example_def SBI_TLB_INFO_INIT_def range_ok_def req_asks_def in_range_def)
  moreover have "m_log machine_boot = []" by (simp add: machine_boot_def)
  ultimately show ?thesis using tlb_local_covers [of tlb_example plat_example 1 machine_boot] by (metis append_Nil)
qed

text \<open>
  C36. Queueing a request for another hart (\<^verbatim>\<open>tlb_update\<close>) on the bytes of its ring buffer implements the abstract step: the
  request, turned into a flush of everything if it exceeds the limit, is merged into the oldest queued
  request that \<^verbatim>\<open>tlb_update_cb\<close> accepts, or appended if there is none and there is room; every other request and
  its position is kept, nothing else changes, and the call reports that the hart has to be interrupted.
\<close>

theorem tlb_update_refines:
  assumes "remote \<noteq> h" and ok: "tlb_queue_ok (tlb_fifo (m_tlb m) remote)" and "tlb_wf t" and "0 < fuel"
    and t': "t' = tlb_clamp (tlb_range_flush_limit (m_tlb m)) t"
    and l: "list_inplace (tlb_update_cb t') (tlb_queue (tlb_fifo (m_tlb m) remote)) = (r, ts)"
    and room: "r = SBI_FIFO_UNCHANGED \<Longrightarrow> length ts < 8"
  shows "\<exists>rc m'. tlb_update pl fuel env h remote (Some t) m = Ret (rc, Some t') m' \<and> 0 \<le> rc \<and>
    tlb_queue_ok (tlb_fifo (m_tlb m') remote) \<and>
    tlb_queue (tlb_fifo (m_tlb m') remote) = (if r = SBI_FIFO_UNCHANGED then ts @ [t'] else ts) \<and>
    (\<forall>x. x \<noteq> remote \<longrightarrow> tlb_fifo (m_tlb m') x = tlb_fifo (m_tlb m) x) \<and> tlb_sync_cell (m_tlb m') = tlb_sync_cell (m_tlb m) \<and>
    m_log m' = m_log m"
proof -
  have wf: "tlb_wf t'" using assms(3) by (simp add: t' tlb_clamp_def tlb_wf_def)
  from tlb_inplace_refines [OF ok wf l] obtain g where
    g: "sbi_fifo_inplace_update (Some (tlb_fifo (m_tlb m) remote)) (Some t') tlb_update_cb_bytes = Some (r, Some g)"
      "tlb_queue_ok g" "tlb_queue g = ts" by blast
  have up: "tlb_update pl fuel env h remote (Some t) m =
      (if r \<noteq> SBI_FIFO_UNCHANGED then Ret (1, Some t') (upd_fifo remote g m)
       else run_bind (tlb_enqueue_loop fuel pl fuel env h remote t' (upd_fifo remote g m)) (\<lambda>_ m. Ret (0, Some t') m))"
    using assms(1) g(1) by (simp add: tlb_update_def Let_def flip: t')
  show ?thesis
  proof (cases "r = SBI_FIFO_UNCHANGED")
    case True
    obtain n where n: "fuel = Suc n" using assms(4) by (cases fuel) auto
    from tlb_enqueue_refines [OF g(2) wf] g(3) room [OF True] obtain g' where
      g': "sbi_fifo_enqueue (Some g) (Some (tlb_encode t')) = Some (0, Some g')" "tlb_queue_ok g'" "tlb_queue g' = ts @ [t']" by auto
    then show ?thesis unfolding up using True by (simp add: n)
  next
    case False
    then show ?thesis unfolding up using g(2,3) by simp
  qed
qed

text \<open>Two harts with empty queues.\<close>

definition tlb_machine :: machine where
  "tlb_machine = upd_tlb (\<lambda>s. s\<lparr>tlb_event := 2, tlb_range_flush_limit := 0x1000,
     tlb_fifo := (\<lambda>_. \<lparr>fifo_queue = replicate 448 0, qlock = SPIN_LOCK_UNLOCKED, entry_size = 56, num_entries = 8, avail = 0, tail = 0\<rparr>)\<rparr>) ipi_example"

theorem tlb_update_refines_witness:
  "\<exists>rc m'. tlb_update plat_example 1 id 0 1 (Some tlb_example) tlb_machine = Ret (rc, Some (tlb_example\<lparr>tlb_start := 0, tlb_size := - 1\<rparr>)) m' \<and>
    0 \<le> rc \<and> tlb_queue (tlb_fifo (m_tlb m') 1) = [tlb_example\<lparr>tlb_start := 0, tlb_size := - 1\<rparr>]"
proof -
  have q: "tlb_queue_ok (tlb_fifo (m_tlb tlb_machine) 1)" "tlb_queue (tlb_fifo (m_tlb tlb_machine) 1) = []"
    "tlb_range_flush_limit (m_tlb tlb_machine) = 0x1000"
    by (simp_all add: tlb_machine_def upd_tlb_def tlb_queue_ok_def tlb_queue_def fifo_contents_def fifo_ok_def
        spin_lock_unlocked_def SPIN_LOCK_UNLOCKED_def lock_owner_def lock_next_def)
  have t: "tlb_wf tlb_example" "tlb_clamp 0x1000 tlb_example = tlb_example\<lparr>tlb_start := 0, tlb_size := - 1\<rparr>"
    by (simp_all add: tlb_example_def SBI_TLB_INFO_INIT_def tlb_wf_def tlb_clamp_def set_bit_at_def hartmask_zero_def)
  from tlb_update_refines [of 1 0 tlb_machine tlb_example 1 _ SBI_FIFO_UNCHANGED "[]" plat_example id] q t show ?thesis by auto
qed

text \<open>
  Two requests for which the merge loses a flush: the request of everything by the size zero has an empty range, so a
  queued request that starts at zero swallows it; a range that ends at the top of the address space ends at
  zero after the wrap-around, so any queued request that starts below it swallows it.
\<close>

lemma flush_all_swallowed:
  assumes "tlb_start cur = 0" and "tlb_start nxt = 0" and "tlb_size nxt = 0" and "local_fn cur = Some Local_sfence_vma"
    and "local_fn nxt = Some Local_sfence_vma"
  shows "fst (tlb_update_cb nxt cur) = SBI_FIFO_SKIP \<and> tlb_size (snd (tlb_update_cb nxt cur)) = tlb_size cur"
  using assms by (simp add: tlb_update_cb_def tlb_range_check_def Let_def)

lemma top_page_swallowed:
  assumes "tlb_start cur \<le> tlb_start nxt" and "tlb_start nxt + tlb_size nxt = 0" and "local_fn cur = Some Local_sfence_vma"
    and "local_fn nxt = Some Local_sfence_vma"
  shows "fst (tlb_update_cb nxt cur) = SBI_FIFO_SKIP \<and> tlb_start (snd (tlb_update_cb nxt cur)) = tlb_start cur \<and>
    tlb_size (snd (tlb_update_cb nxt cur)) = tlb_size cur"
  using assms by (simp add: tlb_update_cb_def tlb_range_check_def Let_def)

section \<open>Termination of the page loop\<close>

lemma page_multiple:
  assumes "4096 dvd unat (i :: ulong)" shows "unat i \<le> 2 ^ 64 - 4096" "4096 dvd unat (i + 0x1000)"
proof -
  obtain k where k: "unat i = 4096 * k" using assms by blast
  then show "unat i \<le> 2 ^ 64 - 4096" using unsigned_less [of i, where 'a = nat] by simp
  have "(4096 :: nat) dvd (4096 * k + 4096) mod 2 ^ 64" by (intro dvd_mod) simp_all
  then show "4096 dvd unat (i + 0x1000)" by (simp add: unat_word_ariths k)
qed

lemma fence_pages_diverges:
  assumes "fence_pages mk sz i acc = Some fs" shows "\<not> (2 ^ 64 - 4096 < unat sz \<and> 4096 dvd unat i)"
proof (rule fence_pages.raw_induct [OF _ assms, where P = "\<lambda>mk sz i acc fs. \<not> (2 ^ 64 - 4096 < unat sz \<and> 4096 dvd unat i)"])
  fix f mk sz i acc fs
  assume IH: "\<And>mk sz i acc fs. f mk sz i acc = Some fs \<Longrightarrow> \<not> (2 ^ 64 - 4096 < unat (sz :: ulong) \<and> 4096 dvd unat (i :: ulong))"
    and e: "(if i < sz then f mk sz (i + PAGE_SIZE) (acc @ [mk i]) else Some acc) = Some fs"
  show "\<not> (2 ^ 64 - 4096 < unat sz \<and> 4096 dvd unat i)"
  proof
    assume a: "2 ^ 64 - 4096 < unat sz \<and> 4096 dvd unat i"
    then have "i < sz" using page_multiple(1) [of i] by (simp add: word_less_nat_alt)
    with e have "f mk sz (i + PAGE_SIZE) (acc @ [mk i]) = Some fs" by simp
    from IH [OF this] a page_multiple(2) [of i] show False by blast
  qed
qed

text \<open>
  The page loop of the local fences ends exactly for sizes up to \<^verbatim>\<open>2 ^ 64 - 4096\<close>: for a larger one the offset wraps to zero
  before it reaches the size and the loop runs forever. The clamp that every request goes through, with any limit up to that bound,
  excludes this: the local function of a clamped request returns.
\<close>

theorem tlb_page_loop_terminates:
  assumes "unat limit \<le> 2 ^ 64 - 4096" and "local_fn t \<noteq> None"
  shows "(fence_pages mk sz 0 [] \<noteq> None \<longleftrightarrow> unat sz \<le> 2 ^ 64 - 4096) \<and> (\<exists>m'. call_local_fn pl h (tlb_clamp limit t) m = Ret () m')"
proof
  show "fence_pages mk sz 0 [] \<noteq> None \<longleftrightarrow> unat sz \<le> 2 ^ 64 - 4096"
    using fence_pages_diverges [of mk sz 0 "[]"] fence_pages_eq [of sz mk] by auto
  let ?t = "tlb_clamp limit t"
  have lf: "local_fn ?t = local_fn t" by (simp add: tlb_clamp_def)
  have "tlb_size ?t = SBI_TLB_FLUSH_ALL \<or> unat (tlb_size ?t) \<le> 2 ^ 64 - 4096"
    using assms(1) by (auto simp: tlb_clamp_def word_less_nat_alt)
  then have "local_fences pl ?t \<noteq> None"
    using assms(2) by (auto simp: local_fences_def lf Let_def fence_pages_eq split: tlb_local_fn.split option.split)
  then show "\<exists>m'. call_local_fn pl h ?t m = Ret () m'" using call_local_fn_logs by blast
qed

theorem tlb_page_loop_terminates_witness:
  "fence_pages Sfence_vma_va 0xFFFFFFFFFFFFFFFE 0 [] = None \<and> fence_pages Sfence_vma_va 0x5000 0 [] \<noteq> None \<and>
    (\<exists>m'. call_local_fn plat_example 0 (tlb_clamp 0x1000 (tlb_example\<lparr>tlb_size := 0xFFFFFFFFFFFFFFFE\<rparr>)) tlb_machine = Ret () m')"
proof -
  have l: "unat (0x1000 :: ulong) \<le> 2 ^ 64 - 4096" "local_fn (tlb_example\<lparr>tlb_size := 0xFFFFFFFFFFFFFFFE\<rparr>) \<noteq> None"
    by (simp_all add: tlb_example_def SBI_TLB_INFO_INIT_def)
  show ?thesis using tlb_page_loop_terminates [OF l, of Sfence_vma_va "0xFFFFFFFFFFFFFFFE" plat_example 0 tlb_machine]
      tlb_page_loop_terminates [OF l, of Sfence_vma_va "0x5000" plat_example 0 tlb_machine] by simp
qed

end
