(* ===== verification/Sbi_Tlb_System.thy ===== *)
theory Sbi_Tlb_System
  imports Sbi_Tlb
begin

text \<open>
  The remote fence protocol of \<^verbatim>\<open>lib/sbi/sbi_tlb.c\<close> and \<^verbatim>\<open>lib/sbi/sbi_ipi.c\<close> as a system of harts whose single memory
  operations interleave. Operations on a queue are atomic because they hold its lock (theory \<open>Riscv_Locks\<close>), and
  they act on the list of requests (\<open>Sbi_Tlb\<close> proves that the bytes implement it); the exchanges of the synchronisation
  words, the setting and taking of the event bit, the raising and clearing of the software interrupt and the local
  fences are one step each. Only the fence event is in this model; other events do not touch its state.

  A hart is at a point of its own activity: idle in a lower privilege mode, somewhere in a request of its
  own, or in the interrupt handler; in the loops that process its queue it is also at a point of that
  processing. \<open>limit\<close> is the flush limit and \<open>allowed\<close> says which requests the supervisors make.
\<close>

section \<open>The system\<close>

text \<open>
  A request in progress: its targets, split into those that are done and those to come, the
  information as the caller gave it and the length of the log when it began. The in-place change of the
  information by \<^verbatim>\<open>tlb_update\<close> is idempotent, so it is written as \<open>tlb_clamp\<close> at every use.
\<close>

record tlb_req =
  rq_done :: "hartid list"
  rq_rest :: "hartid list"
  rq_targets :: "hartid list"
  rq_info :: sbi_tlb_info
  rq_from :: nat

datatype tlb_act =
    Idle
  | Send tlb_req            \<comment> \<open>at the head of the loop of \<^verbatim>\<open>sbi_ipi_send_many\<close>\<close>
  | Enq hartid tlb_req      \<comment> \<open>at the enqueue loop of \<^verbatim>\<open>tlb_update\<close>\<close>
  | Set_bit hartid tlb_req  \<comment> \<open>before \<^verbatim>\<open>atomic_raw_set_bit\<close> in \<^verbatim>\<open>sbi_ipi_send\<close>\<close>
  | Raise hartid tlb_req    \<comment> \<open>before \<^verbatim>\<open>ipi_dev->ipi_send\<close>\<close>
  | Wait hartid tlb_req     \<comment> \<open>at the loop of \<^verbatim>\<open>tlb_sync\<close>\<close>
  | Take                    \<comment> \<open>in \<^verbatim>\<open>sbi_ipi_process\<close>, interrupt cleared\<close>
  | Drain                   \<comment> \<open>in \<^verbatim>\<open>tlb_process\<close>\<close>

text \<open>Processing of the own queue, with the number of entries it may still take, if that is limited.\<close>

datatype tlb_proc =
    Off
  | Next "nat option"
  | Run "nat option" sbi_tlb_info
  | Ack "nat option" "hartid list"

record tlb_net =
  n_q :: "hartid \<Rightarrow> sbi_tlb_info list"
  n_sync :: "hartid \<Rightarrow> ulong"
  n_bit :: "hartid \<Rightarrow> bool"
  n_msip :: "hartid \<Rightarrow> bool"
  n_act :: "hartid \<Rightarrow> tlb_act"
  n_proc :: "hartid \<Rightarrow> tlb_proc"
  n_log :: "(hartid \<times> fence) list"

definition net_init :: tlb_net where
  "net_init = \<lparr>n_q = (\<lambda>_. []), n_sync = (\<lambda>_. 0), n_bit = (\<lambda>_. False), n_msip = (\<lambda>_. False), n_act = (\<lambda>_. Idle),
     n_proc = (\<lambda>_. Off), n_log = []\<rparr>"

abbreviation goto :: "hartid \<Rightarrow> tlb_act \<Rightarrow> tlb_net \<Rightarrow> tlb_net" where
  "goto h a s \<equiv> s\<lparr>n_act := (n_act s)(h := a)\<rparr>"

abbreviation goproc :: "hartid \<Rightarrow> tlb_proc \<Rightarrow> tlb_net \<Rightarrow> tlb_net" where
  "goproc h p s \<equiv> s\<lparr>n_proc := (n_proc s)(h := p)\<rparr>"

inductive tlb_step :: "sbi_plat \<Rightarrow> ulong \<Rightarrow> (sbi_tlb_info \<Rightarrow> bool) \<Rightarrow> hartid \<Rightarrow> tlb_net \<Rightarrow> tlb_net \<Rightarrow> bool"
  for pl limit allowed h s where
  request: "n_act s h = Idle \<Longrightarrow> n_proc s h = Off \<Longrightarrow> h < 128 \<Longrightarrow> t = SBI_TLB_INFO_INIT a sz asid vmid f h \<Longrightarrow> allowed t \<Longrightarrow>
    tlb_step pl limit allowed h s
      (goto h (Send \<lparr>rq_done = [], rq_rest = rs, rq_targets = rs, rq_info = t, rq_from = length (n_log s)\<rparr>) s)"
| finish: "n_act s h = Send rq \<Longrightarrow> n_proc s h = Off \<Longrightarrow> rq_rest rq = [] \<Longrightarrow> tlb_step pl limit allowed h s (goto h Idle s)"
| self: "n_act s h = Send rq \<Longrightarrow> n_proc s h = Off \<Longrightarrow> rq_rest rq = h # rs \<Longrightarrow> local_fences pl (tlb_clamp limit (rq_info rq)) = Some fs \<Longrightarrow>
    tlb_step pl limit allowed h s
      (goto h (Send (rq\<lparr>rq_done := h # rq_done rq, rq_rest := rs\<rparr>)) s\<lparr>n_log := n_log s @ map (Pair h) fs\<rparr>)"
| update: "n_act s h = Send rq \<Longrightarrow> n_proc s h = Off \<Longrightarrow> rq_rest rq = r # rs \<Longrightarrow> r \<noteq> h \<Longrightarrow>
    list_inplace (tlb_update_cb (tlb_clamp limit (rq_info rq))) (n_q s r) = (x, es) \<Longrightarrow>
    tlb_step pl limit allowed h s
      (goto h (if x = SBI_FIFO_UNCHANGED then Enq r (rq\<lparr>rq_rest := rs\<rparr>) else Set_bit r (rq\<lparr>rq_rest := rs\<rparr>)) s\<lparr>n_q := (n_q s)(r := es)\<rparr>)"
| enq: "n_act s h = Enq r rq \<Longrightarrow> n_proc s h = Off \<Longrightarrow> length (n_q s r) < 8 \<Longrightarrow>
    tlb_step pl limit allowed h s (goto h (Set_bit r rq) s\<lparr>n_q := (n_q s)(r := n_q s r @ [tlb_clamp limit (rq_info rq)])\<rparr>)"
| enq_full: "n_act s h = Enq r rq \<Longrightarrow> n_proc s h = Off \<Longrightarrow> 8 \<le> length (n_q s r) \<Longrightarrow>
    tlb_step pl limit allowed h s (goproc h (Next (Some 2)) s)"
| set_bit: "n_act s h = Set_bit r rq \<Longrightarrow> n_proc s h = Off \<Longrightarrow> tlb_step pl limit allowed h s (goto h (Raise r rq) s\<lparr>n_bit := (n_bit s)(r := True)\<rparr>)"
| raise: "n_act s h = Raise r rq \<Longrightarrow> n_proc s h = Off \<Longrightarrow> tlb_step pl limit allowed h s (goto h (Wait r rq) s\<lparr>n_msip := (n_msip s)(r := True)\<rparr>)"
| sync_ok: "n_act s h = Wait r rq \<Longrightarrow> n_proc s h = Off \<Longrightarrow> n_sync s h \<noteq> 0 \<Longrightarrow>
    tlb_step pl limit allowed h s (goto h (Send (rq\<lparr>rq_done := r # rq_done rq\<rparr>)) s\<lparr>n_sync := (n_sync s)(h := 0)\<rparr>)"
| sync_no: "n_act s h = Wait r rq \<Longrightarrow> n_proc s h = Off \<Longrightarrow> n_sync s h = 0 \<Longrightarrow> tlb_step pl limit allowed h s (goproc h (Next (Some 2)) s)"
| irq: "n_act s h = Idle \<Longrightarrow> n_proc s h = Off \<Longrightarrow> n_msip s h \<Longrightarrow>
    tlb_step pl limit allowed h s (goto h Take s\<lparr>n_msip := (n_msip s)(h := False)\<rparr>)"
| take: "n_act s h = Take \<Longrightarrow> n_proc s h = Off \<Longrightarrow>
    tlb_step pl limit allowed h s
      (goproc h (if n_bit s h then Next None else Off) (goto h (if n_bit s h then Drain else Idle) s)\<lparr>n_bit := (n_bit s)(h := False)\<rparr>)"
| deq: "n_proc s h = Next b \<Longrightarrow> b \<noteq> Some 0 \<Longrightarrow> n_q s h = e # es \<Longrightarrow>
    tlb_step pl limit allowed h s (goproc h (Run b e) s\<lparr>n_q := (n_q s)(h := es)\<rparr>)"
| empty: "n_proc s h = Next b \<Longrightarrow> b \<noteq> Some 0 \<Longrightarrow> n_q s h = [] \<Longrightarrow>
    tlb_step pl limit allowed h s (goproc h Off (goto h (if n_act s h = Drain then Idle else n_act s h) s))"
| out: "n_proc s h = Next (Some 0) \<Longrightarrow> tlb_step pl limit allowed h s (goproc h Off s)"
| fence: "n_proc s h = Run b e \<Longrightarrow> local_fences pl e = Some fs \<Longrightarrow> sbi_hartmask_for_each_hart (smask e) = Some rs \<Longrightarrow>
    tlb_step pl limit allowed h s (goproc h (Ack b rs) s\<lparr>n_log := n_log s @ map (Pair h) fs\<rparr>)"
| ack: "n_proc s h = Ack b (r # rs) \<Longrightarrow> atomic_raw_xchg_ulong 1 (n_sync s r) = (old, v) \<Longrightarrow>
    tlb_step pl limit allowed h s (goproc h (Ack b (if old = 0 then rs else r # rs)) s\<lparr>n_sync := (n_sync s)(r := v)\<rparr>)"
| ack_done: "n_proc s h = Ack b [] \<Longrightarrow> tlb_step pl limit allowed h s (goproc h (Next (map_option (\<lambda>n. n - 1) b)) s)"

inductive tlb_reach :: "sbi_plat \<Rightarrow> ulong \<Rightarrow> (sbi_tlb_info \<Rightarrow> bool) \<Rightarrow> tlb_net \<Rightarrow> bool" for pl limit allowed where
  init: "tlb_reach pl limit allowed net_init"
| step: "tlb_reach pl limit allowed s \<Longrightarrow> tlb_step pl limit allowed h s s' \<Longrightarrow> tlb_reach pl limit allowed s'"

section \<open>Invariant\<close>

definition in_mask :: "hartid \<Rightarrow> sbi_tlb_info \<Rightarrow> bool" where
  "in_mask k e \<longleftrightarrow> k < 128 \<and> bitmap_bit (smask e) k"

text \<open>How many acknowledgements for hart \<open>k\<close> a queue and its processing still hold.\<close>

definition toks :: "hartid \<Rightarrow> sbi_tlb_info list \<Rightarrow> tlb_proc \<Rightarrow> nat" where
  "toks k qs p = length (filter (in_mask k) qs) +
     (case p of Run b e \<Rightarrow> of_bool (in_mask k e) | Ack b rs \<Rightarrow> count_list rs k | _ \<Rightarrow> 0)"

text \<open>Every entry that names \<open>k\<close> satisfies \<open>P\<close>; if the processing is about to acknowledge \<open>k\<close>, then \<open>F\<close>.\<close>

definition carries :: "(sbi_tlb_info \<Rightarrow> bool) \<Rightarrow> bool \<Rightarrow> hartid \<Rightarrow> sbi_tlb_info list \<Rightarrow> tlb_proc \<Rightarrow> bool" where
  "carries P F k qs p \<longleftrightarrow> (\<forall>e \<in> set qs. in_mask k e \<longrightarrow> P e) \<and>
     (case p of Run b e \<Rightarrow> in_mask k e \<longrightarrow> P e | Ack b rs \<Rightarrow> k \<in> set rs \<longrightarrow> F | _ \<Rightarrow> True)"

text \<open>The request that hart \<open>k\<close> waits for, with its current target.\<close>

definition pending :: "tlb_act \<Rightarrow> (hartid \<times> tlb_req) option" where
  "pending a = (case a of Set_bit r rq \<Rightarrow> Some (r, rq) | Raise r rq \<Rightarrow> Some (r, rq) | Wait r rq \<Rightarrow> Some (r, rq) | _ \<Rightarrow> None)"

text \<open>Since the log had length \<open>n\<close>, hart \<open>r\<close> has executed fences for everything that \<open>t\<close> asks for, unless \<open>t\<close> can be swallowed.\<close>

definition flushed :: "sbi_plat \<Rightarrow> (hartid \<times> fence) list \<Rightarrow> nat \<Rightarrow> hartid \<Rightarrow> sbi_tlb_info \<Rightarrow> bool" where
  "flushed pl lg n r t \<longleftrightarrow> (\<forall>c. \<not> swallowable t \<and> req_asks pl t c \<longrightarrow> (\<exists>f. (r, f) \<in> set (drop n lg) \<and> fence_covers f c))"

text \<open>
  The acknowledgement a waiting hart is owed is in exactly one place: the queue or the processing of its target, or its own
  synchronisation word. As long as it is with the target, the target's entry covers the request; once it
  is given, the target has executed the fences. A hart that does not wait is owed nothing.
\<close>

definition source_inv :: "sbi_plat \<Rightarrow> ulong \<Rightarrow> tlb_net \<Rightarrow> hartid \<Rightarrow> bool" where
  "source_inv pl limit s k \<longleftrightarrow>
     (case pending (n_act s k) of
        None \<Rightarrow> n_sync s k = 0 \<and> (\<forall>r. toks k (n_q s r) (n_proc s r) = 0)
      | Some (r, rq) \<Rightarrow>
          (\<forall>r'. r' \<noteq> r \<longrightarrow> toks k (n_q s r') (n_proc s r') = 0) \<and>
          toks k (n_q s r) (n_proc s r) = (if n_sync s k = 0 then 1 else 0) \<and>
          (let t = tlb_clamp limit (rq_info rq); F = flushed pl (n_log s) (rq_from rq) r t
           in carries (takes_in pl t) F k (n_q s r) (n_proc s r) \<and> (n_sync s k \<noteq> 0 \<longrightarrow> F)))"

text \<open>The requests themselves, and the targets that are done.\<close>

definition req_of :: "tlb_act \<Rightarrow> (hartid list \<times> tlb_req) option" where
  "req_of a = (case a of Send rq \<Rightarrow> Some ([], rq) | Enq r rq \<Rightarrow> Some ([r], rq) | Set_bit r rq \<Rightarrow> Some ([r], rq) | Raise r rq \<Rightarrow> Some ([r], rq)
     | Wait r rq \<Rightarrow> Some ([r], rq) | _ \<Rightarrow> None)"

definition request_inv :: "sbi_plat \<Rightarrow> ulong \<Rightarrow> tlb_net \<Rightarrow> hartid \<Rightarrow> bool" where
  "request_inv pl limit s k \<longleftrightarrow>
     (case req_of (n_act s k) of
        None \<Rightarrow> True
      | Some (now, rq) \<Rightarrow>
          k < 128 \<and> req_ok (tlb_clamp limit (rq_info rq)) \<and> (\<forall>j. in_mask j (rq_info rq) \<longleftrightarrow> j = k) \<and> rq_from rq \<le> length (n_log s) \<and>
          rev (rq_done rq) @ now @ rq_rest rq = rq_targets rq \<and>
          (\<forall>r \<in> set (rq_done rq). flushed pl (n_log s) (rq_from rq) r (tlb_clamp limit (rq_info rq))))"

definition queue_inv :: "tlb_net \<Rightarrow> hartid \<Rightarrow> bool" where
  "queue_inv s r \<longleftrightarrow> (\<forall>e \<in> set (n_q s r). req_ok e) \<and> (case n_proc s r of Run b e \<Rightarrow> req_ok e | _ \<Rightarrow> True)"

text \<open>No request is lost: a queue with entries has been announced, or is about to be.\<close>

definition notified :: "tlb_net \<Rightarrow> hartid \<Rightarrow> bool" where
  "notified s r \<longleftrightarrow> n_act s r = Drain \<or> (\<exists>h rq. n_act s h = Set_bit r rq) \<or>
     n_bit s r \<and> (n_msip s r \<or> n_act s r = Take \<or> (\<exists>h rq. n_act s h = Raise r rq))"

definition net_inv :: "sbi_plat \<Rightarrow> ulong \<Rightarrow> tlb_net \<Rightarrow> bool" where
  "net_inv pl limit s \<longleftrightarrow> (\<forall>k. source_inv pl limit s k \<and> request_inv pl limit s k \<and> queue_inv s k \<and> (n_q s k \<noteq> [] \<longrightarrow> notified s k))"

section \<open>Facts about the parts\<close>

lemma req_of_simps [simp]:
  "req_of Idle = None" "req_of (Send rq) = Some ([], rq)" "req_of (Enq r rq) = Some ([r], rq)" "req_of (Set_bit r rq) = Some ([r], rq)"
  "req_of (Raise r rq) = Some ([r], rq)" "req_of (Wait r rq) = Some ([r], rq)" "req_of Take = None" "req_of Drain = None"
  by (simp_all add: req_of_def)

lemma pending_simps [simp]:
  "pending Idle = None" "pending (Send rq) = None" "pending (Enq r rq) = None" "pending (Set_bit r rq) = Some (r, rq)"
  "pending (Raise r rq) = Some (r, rq)" "pending (Wait r rq) = Some (r, rq)" "pending Take = None" "pending Drain = None"
  by (simp_all add: pending_def)

lemma pending_req: "pending a = Some (r, rq) \<Longrightarrow> req_of a = Some ([r], rq)"
  by (cases a) simp_all

lemma net_invD:
  assumes "net_inv pl limit s"
  shows "source_inv pl limit s k" "request_inv pl limit s k" "\<forall>e \<in> set (n_q s k). req_ok e" "n_proc s k = Run b e \<Longrightarrow> req_ok e"
    "n_q s k \<noteq> [] \<Longrightarrow> notified s k"
  using assms by (auto simp: net_inv_def queue_inv_def dest: spec [of _ k])

lemma request_invD:
  assumes "net_inv pl limit s" and "req_of (n_act s k) = Some (now, rq)"
  shows "k < 128" "req_ok (tlb_clamp limit (rq_info rq))" "\<forall>j. in_mask j (rq_info rq) \<longleftrightarrow> j = k" "rq_from rq \<le> length (n_log s)"
    "rev (rq_done rq) @ now @ rq_rest rq = rq_targets rq"
    "\<forall>r \<in> set (rq_done rq). flushed pl (n_log s) (rq_from rq) r (tlb_clamp limit (rq_info rq))"
  using net_invD(2) [OF assms(1), of k] assms(2) by (simp_all add: request_inv_def)

lemma toks_simps [simp]:
  "toks k [] p = (case p of Run b e \<Rightarrow> of_bool (in_mask k e) | Ack b rs \<Rightarrow> count_list rs k | _ \<Rightarrow> 0)"
  "toks k (e # qs) p = of_bool (in_mask k e) + toks k qs p"
  "toks k (qs @ qs') p = length (filter (in_mask k) qs) + toks k qs' p"
  by (simp_all add: toks_def)

lemma toks_proc:
  "toks k qs (Next b) = toks k qs Off" "toks k qs (Run b e) = of_bool (in_mask k e) + toks k qs Off"
  "toks k qs (Ack b rs) = count_list rs k + toks k qs Off"
  by (simp_all add: toks_def)

lemma count_list_distinct: "distinct xs \<Longrightarrow> count_list xs x = of_bool (x \<in> set xs)"
  by (induction xs) auto

lemma flushed_mono: "flushed pl lg n r t \<Longrightarrow> flushed pl (lg @ l') n r t"
  by (fastforce simp: flushed_def)

lemma flushed_new:
  assumes "local_fences pl e = Some fs" and "req_ok e" and "takes_in pl t e" and "n \<le> length lg"
  shows "flushed pl (lg @ map (Pair r) fs) n r t"
  using local_fences_cover [of e pl] assms by (fastforce simp: flushed_def takes_in_def req_ok_def)

lemma clamp_smask [simp]: "smask (tlb_clamp limit t) = smask t"
  by (simp add: tlb_clamp_def)

lemma in_mask_clamp [simp]: "in_mask k (tlb_clamp limit t) = in_mask k t"
  by (simp add: in_mask_def)

lemma clamp_asks: "req_asks pl t c \<Longrightarrow> req_asks pl (tlb_clamp limit t) c"
proof (cases "limit < tlb_size t")
  case True
  then have "\<not> req_nil t" by (auto simp: req_nil_def)
  then show "req_asks pl t c \<Longrightarrow> ?thesis" using True
    by (cases "local_fn t") (auto simp: req_asks_def tlb_clamp_def req_all_def req_hgatp_def elim!: req_asks_fn.elims)
qed (simp add: tlb_clamp_def)

lemma clamp_swallowable: "swallowable (tlb_clamp limit t) \<Longrightarrow> swallowable t"
  by (auto simp: swallowable_def mergeable_def tlb_clamp_def req_nil_def split: if_splits)

lemma init_mask: "h < 128 \<Longrightarrow> in_mask j (SBI_TLB_INFO_INIT a sz asid vmid f h) \<longleftrightarrow> j = h"
proof -
  assume h: "h < 128"
  from hartmask_set_bits [of hartmask_zero h] h obtain b where
    b: "set_bit_at h hartmask_zero = Some b" "\<forall>j < 128. bitmap_bit b j \<longleftrightarrow> j = h \<or> bitmap_bit hartmask_zero j"
    by (auto simp: hartmask_zero_def sbi_hartmask_set_hart_def)
  moreover have "\<not> bitmap_bit hartmask_zero j" if "j < 128" for j
    using that by (auto simp: bitmap_bit_def hartmask_zero_def less_Suc_eq nth_Cons')
  ultimately show ?thesis using h by (auto simp: in_mask_def SBI_TLB_INFO_INIT_def)
qed

lemma inplace_unchanged:
  "list_inplace (tlb_update_cb t) qs = (SBI_FIFO_UNCHANGED, es) \<Longrightarrow> es = qs"
proof (induction qs arbitrary: es)
  case (Cons q qs)
  have "fst (tlb_update_cb t q) = SBI_FIFO_UNCHANGED \<Longrightarrow> snd (tlb_update_cb t q) = q"
    by (auto simp: tlb_update_cb_def tlb_range_check_def Let_def split: if_splits)
  with Cons show ?case by (cases "fst (tlb_update_cb t q)") (auto split: prod.splits if_splits)
qed simp

lemma inplace_changed:
  "list_inplace (tlb_update_cb t) qs = (x, es) \<Longrightarrow> x \<noteq> SBI_FIFO_UNCHANGED \<Longrightarrow>
    \<exists>xs c ys c'. qs = xs @ c # ys \<and> es = xs @ c' # ys \<and> tlb_update_cb t c = (x, c')"
proof (induction qs arbitrary: es)
  case (Cons q qs)
  obtain r1 c where u: "tlb_update_cb t q = (r1, c)" by fastforce
  show ?case
  proof (cases "r1 = SBI_FIFO_UNCHANGED")
    case True
    then have "c = q" using u by (auto simp: tlb_update_cb_def tlb_range_check_def Let_def split: if_splits)
    obtain es' where es': "list_inplace (tlb_update_cb t) qs = (x, es')" "es = q # es'"
      using Cons.prems u True \<open>c = q\<close> by (auto split: prod.splits)
    from Cons.IH [OF es'(1) Cons.prems(2)] obtain xs c1 ys c1' where
      "qs = xs @ c1 # ys" "es' = xs @ c1' # ys" "tlb_update_cb t c1 = (x, c1')" by blast
    then show ?thesis using es'(2) by (intro exI [of _ "q # xs"]) auto
  next
    case False
    then have "r1 = SBI_FIFO_SKIP \<or> r1 = SBI_FIFO_UPDATED" by (cases r1) auto
    then show ?thesis using Cons.prems u by (intro exI [of _ "[]"]) auto
  qed
qed simp

section \<open>Every step keeps the invariant\<close>

lemma source_frame:
  assumes inv: "source_inv pl limit s k"
    and p: "pending (n_act s' k) = pending (n_act s k)" and y: "n_sync s' k = n_sync s k"
    and t: "\<And>r. toks k (n_q s' r) (n_proc s' r) = toks k (n_q s r) (n_proc s r)"
    and l: "n_log s' = n_log s @ l"
    and c: "\<And>r rq. pending (n_act s k) = Some (r, rq) \<Longrightarrow>
      carries (takes_in pl (tlb_clamp limit (rq_info rq))) (flushed pl (n_log s) (rq_from rq) r (tlb_clamp limit (rq_info rq))) k (n_q s r) (n_proc s r) \<Longrightarrow>
      carries (takes_in pl (tlb_clamp limit (rq_info rq))) (flushed pl (n_log s') (rq_from rq) r (tlb_clamp limit (rq_info rq))) k (n_q s' r) (n_proc s' r)"
  shows "source_inv pl limit s' k"
proof (cases "pending (n_act s k)")
  case None
  with inv p y t show ?thesis by (simp add: source_inv_def)
next
  case (Some a)
  obtain r rq where a: "a = (r, rq)" by fastforce
  show ?thesis
    using inv Some p y t l c [of r rq] flushed_mono [of pl "n_log s" "rq_from rq" r "tlb_clamp limit (rq_info rq)" l]
    by (simp add: source_inv_def a Let_def)
qed

lemma carries_mono: "carries P F k qs p \<Longrightarrow> (F \<Longrightarrow> F') \<Longrightarrow> carries P F' k qs p"
  by (auto simp: carries_def split: tlb_proc.splits)

lemma source_keep:
  assumes "source_inv pl limit s k" and "pending (n_act s' k) = pending (n_act s k)" and "n_sync s' k = n_sync s k"
    and "\<And>r. toks k (n_q s' r) (n_proc s' r) = toks k (n_q s r) (n_proc s r)" and "n_log s' = n_log s @ l"
    and "\<And>r t F. carries (takes_in pl t) F k (n_q s r) (n_proc s r) \<Longrightarrow> carries (takes_in pl t) F k (n_q s' r) (n_proc s' r)"
  shows "source_inv pl limit s' k"
proof (rule source_frame [OF assms(1-5)])
  fix r rq
  let ?t = "tlb_clamp limit (rq_info rq)"
  assume "carries (takes_in pl ?t) (flushed pl (n_log s) (rq_from rq) r ?t) k (n_q s r) (n_proc s r)"
  from carries_mono [OF assms(6) [OF this]] flushed_mono
  show "carries (takes_in pl ?t) (flushed pl (n_log s') (rq_from rq) r ?t) k (n_q s' r) (n_proc s' r)" by (simp add: assms(5))
qed

lemma merge_facts:
  assumes "tlb_update_cb t c = (x, c')" and "x \<noteq> SBI_FIFO_UNCHANGED" and "req_ok t" and "req_ok c"
  shows "req_ok c'" "in_mask k c' \<longleftrightarrow> in_mask k c \<or> in_mask k t" "takes_in pl u c \<Longrightarrow> takes_in pl u c'" "takes_in pl t c'"
  using update_cb_merge [OF assms(3,4,1,2), of pl] takes_in_trans [of pl u c c'] by (auto simp: in_mask_def)

text \<open>A hart adds its request to the queue of its target, merged or appended.\<close>

lemma source_add:
  assumes inv: "\<And>k. source_inv pl limit s k" and rq: "\<forall>j. in_mask j (rq_info rq) \<longleftrightarrow> j = h" and pend: "pending (n_act s h) = None"
    and ok: "req_ok t" and t: "t = tlb_clamp limit (rq_info rq)" and qok: "\<forall>e \<in> set (n_q s r). req_ok e"
    and es: "es = n_q s r @ [t] \<or> (\<exists>xs c ys c' x. n_q s r = xs @ c # ys \<and> es = xs @ c' # ys \<and> tlb_update_cb t c = (x, c') \<and> x \<noteq> SBI_FIFO_UNCHANGED)"
  shows "source_inv pl limit (goto h (Set_bit r rq) s\<lparr>n_q := (n_q s)(r := es)\<rparr>) k"
proof (cases "k = h")
  case True
  from inv [of h] pend have n: "n_sync s h = 0" "\<And>r. toks h (n_q s r) (n_proc s r) = 0" by (auto simp: source_inv_def)
  have q: "\<forall>e \<in> set (n_q s r). \<not> in_mask h e" using n(2) [of r] by (auto simp: toks_def filter_empty_conv)
  have p: "toks h [] (n_proc s r) = 0" using n(2) [of r] by (simp add: toks_def)
  have im: "in_mask h t" using rq by (simp add: t)
  from es have "toks h es (n_proc s r) = 1 \<and> carries (takes_in pl t) F h es (n_proc s r)" for F
  proof
    assume "es = n_q s r @ [t]"
    then show ?thesis using p q im by (auto simp: carries_def toks_def count_list_0_iff split: tlb_proc.splits)
  next
    assume "\<exists>xs c ys c' x. n_q s r = xs @ c # ys \<and> es = xs @ c' # ys \<and> tlb_update_cb t c = (x, c') \<and> x \<noteq> SBI_FIFO_UNCHANGED"
    then obtain xs c ys c' x where m: "n_q s r = xs @ c # ys" "es = xs @ c' # ys" "tlb_update_cb t c = (x, c')" "x \<noteq> SBI_FIFO_UNCHANGED"
      by blast
    have "in_mask h c'" "takes_in pl t c'" using merge_facts [OF m(3,4) ok] qok im m(1) by auto
    with m p q show ?thesis by (auto simp: carries_def toks_def filter_empty_conv count_list_0_iff split: tlb_proc.splits)
  qed
  with n True show ?thesis by (simp add: source_inv_def pending_def Let_def t)
next
  case False
  have ni: "\<not> in_mask k t" using rq False by (simp add: t)
  from es have E: "toks k es p = toks k (n_q s r) p \<and> (carries (takes_in pl u) F k (n_q s r) p \<longrightarrow> carries (takes_in pl u) F k es p)" for u F p
  proof
    assume "\<exists>xs c ys c' x. n_q s r = xs @ c # ys \<and> es = xs @ c' # ys \<and> tlb_update_cb t c = (x, c') \<and> x \<noteq> SBI_FIFO_UNCHANGED"
    then obtain xs c ys c' x where m: "n_q s r = xs @ c # ys" "es = xs @ c' # ys" "tlb_update_cb t c = (x, c')" "x \<noteq> SBI_FIFO_UNCHANGED"
      by blast
    have "in_mask k c' = in_mask k c" "takes_in pl u c \<longrightarrow> takes_in pl u c'" using merge_facts [OF m(3,4) ok] qok ni m(1) by auto
    with m show ?thesis by (auto simp: carries_def split: tlb_proc.splits)
  qed (use ni in \<open>auto simp: carries_def toks_def split: tlb_proc.splits\<close>)
  show ?thesis by (rule source_keep [OF inv [of k], where l = "[]"]) (use False E in \<open>auto split: if_splits\<close>)
qed

lemma source_step:
  assumes st: "tlb_step pl limit allowed h s s'" and inv: "net_inv pl limit s"
  shows "source_inv pl limit s' k"
  using st
proof cases
  case (update rq r rs x es)
  note rq = request_invD [OF inv, of h, unfolded update(2) req_of_simps, OF refl] and inv' = net_invD(1,3) [OF inv]
  show ?thesis
  proof (cases "x = SBI_FIFO_UNCHANGED")
    case True
    with update inplace_unchanged have "es = n_q s r" by metis
    with update True show ?thesis by (intro source_keep [OF inv'(1), where l = "[]"]) auto
  next
    case False
    from inplace_changed [OF update(6) False] False
    have "source_inv pl limit (goto h (Set_bit r (rq\<lparr>rq_rest := rs\<rparr>)) s\<lparr>n_q := (n_q s)(r := es)\<rparr>) k"
      using update(2) rq(2,3) by (intro source_add [OF inv'(1) _ _ rq(2) _ inv'(2)]) (simp_all, blast)
    then show ?thesis using False by (simp add: update(1))
  qed
next
  case (enq r rq)
  note rq = request_invD [OF inv, of h, unfolded enq(2) req_of_simps, OF refl] and inv' = net_invD(1,3) [OF inv]
  show ?thesis unfolding enq(1) using enq(2) rq(3) by (intro source_add [OF inv'(1) _ _ rq(2) refl inv'(2)]) simp_all
next
  case (sync_ok r rq)
  note i = net_invD(1) [OF inv, of k]
  show ?thesis
  proof (cases "k = h")
    case True
    then show ?thesis using i sync_ok by (simp add: source_inv_def Let_def) metis
  next
    case False
    with sync_ok show ?thesis by (intro source_keep [OF i, where l = "[]"]) auto
  qed
next
  case (fence b e fs rs)
  note i = net_invD(1) [OF inv, of k] net_invD(4) [OF inv fence(2)]
  have rs: "rs = filter (bitmap_bit (smask e)) [0..<128]"
    using fence(4) i(2) by (simp add: req_ok_def tlb_wf_def hartmask_for_each_eq)
  have cnt: "count_list rs j = of_bool (in_mask j e)" for j
    using count_list_distinct [of rs] by (simp add: rs in_mask_def)
  show ?thesis
  proof (rule source_frame [OF i(1)])
    fix r and rq :: tlb_req
    let ?t = "tlb_clamp limit (rq_info rq)"
    assume p: "pending (n_act s k) = Some (r, rq)"
      and c: "carries (takes_in pl ?t) (flushed pl (n_log s) (rq_from rq) r ?t) k (n_q s r) (n_proc s r)"
    have n: "rq_from rq \<le> length (n_log s)"
      using request_invD(4) [OF inv pending_req [OF p]] .
    show "carries (takes_in pl ?t) (flushed pl (n_log s') (rq_from rq) r ?t) k (n_q s' r) (n_proc s' r)"
    proof (cases "r = h")
      case True
      have "in_mask k e \<Longrightarrow> flushed pl (n_log s @ map (Pair h) fs) (rq_from rq) h ?t"
        using c fence(2) True by (intro flushed_new [OF fence(3) i(2) _ n]) (simp add: carries_def)
      then show ?thesis using c fence True cnt by (auto simp: carries_def rs in_mask_def)
    next
      case False
      then show ?thesis using c fence flushed_mono by (auto intro: carries_mono)
    qed
  qed (use fence cnt in \<open>auto simp: toks_proc\<close>)
next
  case (ack b r rs old v)
  note i = net_invD(1) [OF inv, of k]
  have ov: "old = n_sync s r" "v = 1" using ack(3) by (simp_all add: atomic_raw_xchg_ulong_def)
  show ?thesis
  proof (cases "k = r")
    case True
    have pos: "toks k (n_q s h) (n_proc s h) = Suc (toks k (n_q s h) (Ack b rs))" using ack True by (simp add: toks_proc)
    then have "pending (n_act s k) \<noteq> None" using i by (cases "pending (n_act s k)") (auto simp: source_inv_def)
    then obtain a rq where a: "pending (n_act s k) = Some (a, rq)" by auto
    have "a = h"
    proof (rule ccontr)
      assume "a \<noteq> h"
      then have "toks k (n_q s h) (n_proc s h) = 0" using i a by (simp add: source_inv_def)
      with pos show False by simp
    qed
    with a have p: "pending (n_act s k) = Some (h, rq)" by simp
    then have z: "n_sync s k = 0" "toks k (n_q s h) (Ack b rs) = 0" using i pos by (auto simp: source_inv_def Let_def split: if_splits)
    moreover have "\<forall>e \<in> set (n_q s h). \<not> in_mask k e" "k \<notin> set rs"
      using z(2) by (auto simp: toks_def filter_empty_conv count_list_0_iff)
    ultimately show ?thesis using i p ack ov True by (auto simp: source_inv_def Let_def carries_def)
  next
    case False
    with ack ov show ?thesis by (intro source_keep [OF i, where l = "[]"]) (auto simp: toks_proc carries_def)
  qed
qed (rule source_keep [OF net_invD(1) [OF inv]]; auto simp: toks_proc carries_def)+

lemma request_step:
  assumes st: "tlb_step pl limit allowed h s s'" and inv: "net_inv pl limit s" and al: "\<And>t. allowed t \<Longrightarrow> req_ok (tlb_clamp limit t)"
  shows "request_inv pl limit s' k"
proof -
  have keep: "request_inv pl limit s' k" if "req_of (n_act s' k) = req_of (n_act s k)" "n_log s' = n_log s @ l" for l
    using that net_invD(2) [OF inv, of k] by (auto simp: request_inv_def intro: flushed_mono split: option.splits)
  show ?thesis
    using st
  proof cases
    case (request t a sz asid vmid f rs)
    then show ?thesis using keep [of "[]"] init_mask al by (cases "k = h") (auto simp: request_inv_def)
  next
    case (self rq rs fs)
    note rq = request_invD [OF inv, of h, unfolded self(2) req_of_simps, OF refl]
    show ?thesis
    proof (cases "k = h")
      case True
      have "flushed pl (n_log s @ map (Pair h) fs) (rq_from rq) h (tlb_clamp limit (rq_info rq))"
        by (rule flushed_new [OF self(5) rq(2) takes_in_refl rq(4)])
      then show ?thesis using True self rq by (auto simp: request_inv_def intro: flushed_mono)
    qed (use self keep in auto)
  next
    case (update rq r rs x es)
    note rq = request_invD [OF inv, of h, unfolded update(2) req_of_simps, OF refl]
    show ?thesis using update rq keep [of "[]"] by (cases "k = h") (auto simp: request_inv_def)
  next
    case (sync_ok r rq)
    note rq = request_invD [OF inv, of h, unfolded sync_ok(2) req_of_simps, OF refl]
    have "flushed pl (n_log s) (rq_from rq) r (tlb_clamp limit (rq_info rq))"
      using net_invD(1) [OF inv, of h] sync_ok by (simp add: source_inv_def Let_def)
    then show ?thesis using sync_ok rq keep [of "[]"] by (cases "k = h") (auto simp: request_inv_def)
  next
    case (fence b e fs rs)
    then show ?thesis using keep by simp
  next
    case (empty b)
    then have "req_of (n_act s' k) = req_of (n_act s k)" by auto
    with keep [of "[]"] empty show ?thesis by simp
  qed (use keep [of "[]"] in \<open>auto simp: request_inv_def\<close>)
qed

lemma queue_step:
  assumes st: "tlb_step pl limit allowed h s s'" and inv: "net_inv pl limit s"
  shows "queue_inv s' k"
proof -
  have q: "queue_inv s k" using inv by (simp add: net_inv_def)
  show ?thesis
    using st
  proof cases
    case (update rq r rs x es)
    note rq = request_invD [OF inv, of h, unfolded update(2) req_of_simps, OF refl]
    have "\<forall>e \<in> set es. req_ok e"
    proof (cases "x = SBI_FIFO_UNCHANGED")
      case True
      then show ?thesis using update(6) inplace_unchanged net_invD(3) [OF inv, of r] by metis
    next
      case False
      from inplace_changed [OF update(6) False] obtain xs c ys c' where
        c: "n_q s r = xs @ c # ys" "es = xs @ c' # ys" "tlb_update_cb (tlb_clamp limit (rq_info rq)) c = (x, c')" by blast
      then show ?thesis using net_invD(3) [OF inv, of r] merge_facts(1) [OF c(3) False rq(2)] by auto
    qed
    with update q show ?thesis by (auto simp: queue_inv_def)
  next
    case (enq r rq)
    with q request_invD(2) [OF inv, of h, unfolded enq(2) req_of_simps, OF refl] show ?thesis by (auto simp: queue_inv_def)
  next
    case (deq b e es)
    with q net_invD(3) [OF inv, of h] show ?thesis by (auto simp: queue_inv_def)
  qed (use q in \<open>auto simp: queue_inv_def\<close>)
qed

text \<open>Activities that do not announce anything.\<close>

definition quiet :: "tlb_act \<Rightarrow> bool" where
  "quiet a \<longleftrightarrow> (case a of Set_bit r rq \<Rightarrow> False | Raise r rq \<Rightarrow> False | Take \<Rightarrow> False | Drain \<Rightarrow> False | _ \<Rightarrow> True)"

lemma notified_mono:
  assumes "notified s k" and "n_act s k = Drain \<Longrightarrow> n_act s' k = Drain"
    and "\<And>x rq. n_act s x = Set_bit k rq \<Longrightarrow> n_act s' x = Set_bit k rq \<or> n_bit s' k \<and> n_act s' x = Raise k rq"
    and "\<And>x rq. n_bit s k \<Longrightarrow> n_act s x = Raise k rq \<Longrightarrow> n_act s' k = Drain \<or> n_bit s' k \<and> (n_msip s' k \<or> n_act s' x = Raise k rq)"
    and "n_bit s k \<Longrightarrow> n_msip s k \<or> n_act s k = Take \<Longrightarrow> n_act s' k = Drain \<or> n_bit s' k \<and> (n_msip s' k \<or> n_act s' k = Take)"
  shows "notified s' k"
  using assms unfolding notified_def by blast

lemma notified_quiet:
  assumes n: "notified s k" and q: "quiet (n_act s h) \<or> n_act s' h = n_act s h" and o: "\<And>x. x \<noteq> h \<Longrightarrow> n_act s' x = n_act s x"
    and b: "n_bit s' = n_bit s" and m: "n_msip s' = n_msip s"
  shows "notified s' k"
proof -
  have "\<not> quiet (n_act s x) \<Longrightarrow> n_act s' x = n_act s x" for x using q o by (cases "x = h") auto
  then show ?thesis by (intro notified_mono [OF n]) (auto simp: quiet_def b m)
qed

lemma notified_step:
  assumes st: "tlb_step pl limit allowed h s s'" and inv: "net_inv pl limit s" and ne: "n_q s' k \<noteq> []"
  shows "notified s' k"
  using st
proof cases
  case (update rq r rs x es)
  show ?thesis
  proof (cases "k = r \<and> x \<noteq> SBI_FIFO_UNCHANGED")
    case True
    with update show ?thesis by (auto simp: notified_def)
  next
    case False
    then have "n_q s k \<noteq> []" using update ne inplace_unchanged [of _ "n_q s r" es] by (cases "k = r") auto
    from notified_quiet [OF net_invD(5) [OF inv this], of h s'] update show ?thesis by (simp add: quiet_def)
  qed
next
  case (enq r rq)
  show ?thesis
  proof (cases "k = r")
    case True
    with enq show ?thesis by (auto simp: notified_def)
  next
    case False
    with enq ne have "n_q s k \<noteq> []" by simp
    from notified_quiet [OF net_invD(5) [OF inv this], of h s'] enq show ?thesis by (simp add: quiet_def)
  qed
next
  case (set_bit r rq)
  with ne have "notified s k" by (intro net_invD(5) [OF inv]) simp
  then show ?thesis by (rule notified_mono) (use set_bit in auto)
next
  case (raise r rq)
  with ne have "notified s k" by (intro net_invD(5) [OF inv]) simp
  then show ?thesis by (rule notified_mono) (use raise in auto)
next
  case irq
  with ne have "notified s k" by (intro net_invD(5) [OF inv]) simp
  then show ?thesis by (rule notified_mono) (use irq in auto)
next
  case take
  with ne have "notified s k" by (intro net_invD(5) [OF inv]) simp
  then show ?thesis by (rule notified_mono) (use take in auto)
next
  case (empty b)
  then have k: "k \<noteq> h" "n_q s k \<noteq> []" using ne by auto
  have a: "n_act s' x = (if x = h \<and> n_act s h = Drain then Idle else n_act s x)" for x using empty by simp
  have "n_bit s' = n_bit s" "n_msip s' = n_msip s" using empty by simp_all
  with k a show ?thesis by (intro notified_mono [OF net_invD(5) [OF inv k(2)]]) auto
next
  case (deq b e es)
  with ne have "n_q s k \<noteq> []" by (auto split: if_splits)
  from notified_quiet [OF net_invD(5) [OF inv this], of h s'] deq show ?thesis by simp
qed (rule notified_quiet [OF net_invD(5) [OF inv], of k h]; use ne in \<open>simp add: quiet_def\<close>)+

lemma net_init_inv: "net_inv pl limit net_init"
  by (simp add: net_inv_def net_init_def source_inv_def request_inv_def queue_inv_def)

lemma tlb_reach_inv:
  assumes "tlb_reach pl limit allowed s" and "\<And>t. allowed t \<Longrightarrow> req_ok (tlb_clamp limit t)"
  shows "net_inv pl limit s"
  using assms(1)
proof induction
  case (step s h s')
  note st = step.hyps(2) step.IH
  show ?case
    using source_step [OF st] request_step [OF st assms(2)] queue_step [OF st] notified_step [OF st] by (simp add: net_inv_def)
qed (rule net_init_inv)

section \<open>Properties\<close>

text \<open>
  C3. Remote fences are complete, for the requests the code serves correctly. Let the supervisors make only requests whose range, after the clamp, starts at a
  page boundary and does not reach the end of the address space (or that ask for everything). When a hart has finished its request (it is back at
  the head of the sending loop with no target left), every target hart has, after the
  request began, executed a fence for everything the request asks for, however the steps of all harts interleave and
  however requests of several harts are merged in the queues. The one exception is the request to flush everything that is given as
  start and size zero to one of the two functions whose requests are merged: the supervisors may make it, and it does not harm the others, but the code can lose it
  (\<open>flush_all_swallowed\<close>), as it can lose a range up to the end of the address space (\<open>top_page_swallowed\<close>).
\<close>

theorem tlb_shootdown_complete:
  assumes "tlb_reach pl limit allowed s" and "\<And>t. allowed t \<Longrightarrow> req_ok (tlb_clamp limit t)"
    and "n_act s h = Send rq" and "rq_rest rq = []" and "r \<in> set (rq_targets rq)" and "req_asks pl (rq_info rq) c"
    and "\<not> swallowable (rq_info rq)"
  shows "\<exists>f. (r, f) \<in> set (drop (rq_from rq) (n_log s)) \<and> fence_covers f c"
proof -
  have inv: "net_inv pl limit s" using assms(1,2) by (rule tlb_reach_inv)
  have q: "req_of (n_act s h) = Some ([], rq)" using assms(3) by simp
  have "r \<in> set (rq_done rq)" using request_invD(5) [OF inv q] assms(4,5) by (metis append_Nil append_Nil2 set_rev)
  with request_invD(6) [OF inv q] clamp_asks [OF assms(6)] clamp_swallowable assms(7) show ?thesis unfolding flushed_def by blast
qed

text \<open>
  A request is never lost: while a hart waits for its target, the acknowledgement has been given, or the target
  is processing the request, or the request is in the target's queue and the target has been told or is about to be
  told (it drains its queue, or its event bit is set and its software interrupt is pending or taken, or some hart is about to
  set the bit or raise the interrupt). And the loop in which the target sets the requester's synchronisation word never waits:
  the word is always clear.
\<close>

theorem tlb_request_not_lost:
  assumes "tlb_reach pl limit allowed s" and "\<And>t. allowed t \<Longrightarrow> req_ok (tlb_clamp limit t)"
  shows "(n_act s h = Wait r rq \<longrightarrow> n_sync s h \<noteq> 0 \<or> (\<exists>b e. n_proc s r = Run b e \<and> in_mask h e) \<or>
      (\<exists>b rs. n_proc s r = Ack b rs \<and> h \<in> set rs) \<or> (\<exists>e \<in> set (n_q s r). in_mask h e) \<and> notified s r) \<and>
    (n_proc s r = Ack b (k # rs) \<longrightarrow> n_sync s k = 0)"
proof -
  have inv: "net_inv pl limit s" using assms by (rule tlb_reach_inv)
  have "n_sync s h \<noteq> 0 \<or> (\<exists>b e. n_proc s r = Run b e \<and> in_mask h e) \<or> (\<exists>b rs. n_proc s r = Ack b rs \<and> h \<in> set rs) \<or>
      (\<exists>e \<in> set (n_q s r). in_mask h e) \<and> notified s r" if w: "n_act s h = Wait r rq"
  proof -
    have "n_sync s h \<noteq> 0 \<or> toks h (n_q s r) (n_proc s r) = 1" using net_invD(1) [OF inv, of h] w by (auto simp: source_inv_def)
    then consider "n_sync s h \<noteq> 0" | "length (filter (in_mask h) (n_q s r)) \<noteq> 0" | b e where "n_proc s r = Run b e" "in_mask h e"
      | b rs where "n_proc s r = Ack b rs" "count_list rs h \<noteq> 0"
      by (cases "n_proc s r"; cases "length (filter (in_mask h) (n_q s r)) = 0") (auto simp: toks_def of_bool_def split: if_splits)
    then show ?thesis
    proof cases
      case 2
      then obtain e where "e \<in> set (n_q s r)" "in_mask h e" by (auto simp: filter_empty_conv)
      moreover from this have "n_q s r \<noteq> []" by auto
      ultimately show ?thesis using net_invD(5) [OF inv, of r] by auto
    qed (auto simp: count_list_0_iff)
  qed
  moreover have "n_sync s k = 0" if a: "n_proc s r = Ack b (k # rs)"
  proof (rule ccontr)
    assume y: "n_sync s k \<noteq> 0"
    have "0 < toks k (n_q s r) (n_proc s r)" using a by (simp add: toks_def)
    moreover have "toks k (n_q s r) (n_proc s r) = 0" using net_invD(1) [OF inv, of k] y
      by (cases "pending (n_act s k)"; simp add: source_inv_def split: prod.splits; metis)
    ultimately show False by simp
  qed
  ultimately show ?thesis by blast
qed

text \<open>Witness: hart 1 asks hart 0 to flush one page, hart 0 takes the interrupt, executes the fence and acknowledges.\<close>

definition net_request :: sbi_tlb_info where
  "net_request = SBI_TLB_INFO_INIT 0x3000 0x1000 0 0 Local_sfence_vma 1"

definition net_rq :: tlb_req where
  "net_rq = \<lparr>rq_done = [], rq_rest = [0], rq_targets = [0], rq_info = net_request, rq_from = 0\<rparr>"

text \<open>The states of this run: what changes are the queue, bit, interrupt, activity and processing of hart 0, and the activity and word of hart 1.\<close>

definition net_state ::
  "sbi_tlb_info list \<Rightarrow> ulong \<Rightarrow> bool \<Rightarrow> bool \<Rightarrow> tlb_act \<Rightarrow> tlb_act \<Rightarrow> tlb_proc \<Rightarrow> (hartid \<times> fence) list \<Rightarrow> tlb_net" where
  "net_state q0 y1 b0 m0 a0 a1 p0 lg = \<lparr>n_q = (\<lambda>_. [])(0 := q0), n_sync = (\<lambda>_. 0)(1 := y1), n_bit = (\<lambda>_. False)(0 := b0),
     n_msip = (\<lambda>_. False)(0 := m0), n_act = (\<lambda>_. Idle)(0 := a0, 1 := a1), n_proc = (\<lambda>_. Off)(0 := p0), n_log = lg\<rparr>"

lemma net_init_state: "net_init = net_state [] 0 False False Idle Idle Off []"
  by (simp add: net_init_def net_state_def fun_upd_idem)

lemma net_request_facts:
  "tlb_clamp 0x1000 net_request = net_request" "smask net_request = [2, 0]" "sbi_hartmask_for_each_hart [2, 0] = Some [1]"
  "local_fences plat_example net_request = Some [Sfence_vma_va 0x3000]" "req_ok net_request"
  "req_asks plat_example net_request (Trans 0x3abc 7)" "\<not> swallowable net_request"
proof -
  have f: "fence_pages mk 0x1000 0 [] = Some [mk 0]" for mk by (subst fence_pages.simps, simp, subst fence_pages.simps) simp
  show "smask net_request = [2, 0]" by (simp add: net_request_def SBI_TLB_INFO_INIT_def set_bit_at_def hartmask_zero_def)
  show "sbi_hartmask_for_each_hart [2, 0] = Some [1]" by code_simp
  show "tlb_clamp 0x1000 net_request = net_request" "req_ok net_request" "\<not> swallowable net_request"
    by (simp_all add: swallowable_def mergeable_def tlb_clamp_def req_ok_def tlb_wf_def range_ok_def req_nil_def req_all_def net_request_def SBI_TLB_INFO_INIT_def
        set_bit_at_def hartmask_zero_def)
  show "req_asks plat_example net_request (Trans 0x3abc 7)" by (simp add: net_request_def SBI_TLB_INFO_INIT_def req_asks_def in_range_def)
  show "local_fences plat_example net_request = Some [Sfence_vma_va 0x3000]"
    by (simp add: local_fences_def net_request_def SBI_TLB_INFO_INIT_def Let_def f)
qed

abbreviation net_step :: "hartid \<Rightarrow> tlb_net \<Rightarrow> tlb_net \<Rightarrow> bool" where
  "net_step \<equiv> tlb_step plat_example 0x1000 (\<lambda>t. t = net_request)"

abbreviation (input) rq1 :: tlb_req where "rq1 \<equiv> net_rq\<lparr>rq_rest := []\<rparr>"
abbreviation (input) rq2 :: tlb_req where "rq2 \<equiv> net_rq\<lparr>rq_done := [0], rq_rest := []\<rparr>"
abbreviation (input) lg1 :: "(hartid \<times> fence) list" where "lg1 \<equiv> [(0, Sfence_vma_va 0x3000)]"

lemma net_steps_send:
  "net_step 1 (net_state [] 0 False False Idle Idle Off []) (net_state [] 0 False False Idle (Send net_rq) Off [])"
  "net_step 1 (net_state [] 0 False False Idle (Send net_rq) Off []) (net_state [] 0 False False Idle (Enq 0 rq1) Off [])"
  "net_step 1 (net_state [] 0 False False Idle (Enq 0 rq1) Off []) (net_state [net_request] 0 False False Idle (Set_bit 0 rq1) Off [])"
  "net_step 1 (net_state [net_request] 0 False False Idle (Set_bit 0 rq1) Off []) (net_state [net_request] 0 True False Idle (Raise 0 rq1) Off [])"
  "net_step 1 (net_state [net_request] 0 True False Idle (Raise 0 rq1) Off []) (net_state [net_request] 0 True True Idle (Wait 0 rq1) Off [])"
proof -
  note simps = net_state_def net_rq_def net_request_facts fun_upd_twist fun_upd_idem
  show "net_step 1 (net_state [] 0 False False Idle Idle Off []) (net_state [] 0 False False Idle (Send net_rq) Off [])"
    using tlb_step.request [of "net_state [] 0 False False Idle Idle Off []" 1 net_request "0x3000" "0x1000" 0 0 Local_sfence_vma
      "\<lambda>t. t = net_request" plat_example "0x1000" "[0]"] by (simp add: simps net_request_def)
  show "net_step 1 (net_state [] 0 False False Idle (Send net_rq) Off []) (net_state [] 0 False False Idle (Enq 0 rq1) Off [])"
    using tlb_step.update [of "net_state [] 0 False False Idle (Send net_rq) Off []" 1 net_rq 0 "[]" "0x1000" SBI_FIFO_UNCHANGED "[]"]
    by (simp add: simps)
  show "net_step 1 (net_state [] 0 False False Idle (Enq 0 rq1) Off []) (net_state [net_request] 0 False False Idle (Set_bit 0 rq1) Off [])"
    using tlb_step.enq [of "net_state [] 0 False False Idle (Enq 0 rq1) Off []" 1 0 rq1, where limit = "0x1000"] by (simp add: simps)
  show "net_step 1 (net_state [net_request] 0 False False Idle (Set_bit 0 rq1) Off []) (net_state [net_request] 0 True False Idle (Raise 0 rq1) Off [])"
    using tlb_step.set_bit [of "net_state [net_request] 0 False False Idle (Set_bit 0 rq1) Off []" 1 0 rq1] by (simp add: simps)
  show "net_step 1 (net_state [net_request] 0 True False Idle (Raise 0 rq1) Off []) (net_state [net_request] 0 True True Idle (Wait 0 rq1) Off [])"
    using tlb_step.raise [of "net_state [net_request] 0 True False Idle (Raise 0 rq1) Off []" 1 0 rq1] by (simp add: simps)
qed

lemma net_steps_serve:
  "net_step 0 (net_state [net_request] 0 True True Idle (Wait 0 rq1) Off []) (net_state [net_request] 0 True False Take (Wait 0 rq1) Off [])"
  "net_step 0 (net_state [net_request] 0 True False Take (Wait 0 rq1) Off []) (net_state [net_request] 0 False False Drain (Wait 0 rq1) (Next None) [])"
  "net_step 0 (net_state [net_request] 0 False False Drain (Wait 0 rq1) (Next None) []) (net_state [] 0 False False Drain (Wait 0 rq1) (Run None net_request) [])"
  "net_step 0 (net_state [] 0 False False Drain (Wait 0 rq1) (Run None net_request) []) (net_state [] 0 False False Drain (Wait 0 rq1) (Ack None [1]) lg1)"
  "net_step 0 (net_state [] 0 False False Drain (Wait 0 rq1) (Ack None [1]) lg1) (net_state [] 1 False False Drain (Wait 0 rq1) (Ack None []) lg1)"
  "net_step 1 (net_state [] 1 False False Drain (Wait 0 rq1) (Ack None []) lg1) (net_state [] 0 False False Drain (Send rq2) (Ack None []) lg1)"
proof -
  note simps = net_state_def net_rq_def net_request_facts fun_upd_twist fun_upd_idem
  show "net_step 0 (net_state [net_request] 0 True True Idle (Wait 0 rq1) Off []) (net_state [net_request] 0 True False Take (Wait 0 rq1) Off [])"
    using tlb_step.irq [of "net_state [net_request] 0 True True Idle (Wait 0 rq1) Off []" 0] by (simp add: simps)
  show "net_step 0 (net_state [net_request] 0 True False Take (Wait 0 rq1) Off []) (net_state [net_request] 0 False False Drain (Wait 0 rq1) (Next None) [])"
    using tlb_step.take [of "net_state [net_request] 0 True False Take (Wait 0 rq1) Off []" 0] by (simp add: simps)
  show "net_step 0 (net_state [net_request] 0 False False Drain (Wait 0 rq1) (Next None) []) (net_state [] 0 False False Drain (Wait 0 rq1) (Run None net_request) [])"
    using tlb_step.deq [of "net_state [net_request] 0 False False Drain (Wait 0 rq1) (Next None) []" 0 None net_request "[]"] by (simp add: simps)
  show "net_step 0 (net_state [] 0 False False Drain (Wait 0 rq1) (Run None net_request) []) (net_state [] 0 False False Drain (Wait 0 rq1) (Ack None [1]) lg1)"
    using tlb_step.fence [of "net_state [] 0 False False Drain (Wait 0 rq1) (Run None net_request) []" 0 None net_request plat_example
      "[Sfence_vma_va 0x3000]" "[1]"] by (simp add: simps)
  show "net_step 0 (net_state [] 0 False False Drain (Wait 0 rq1) (Ack None [1]) lg1) (net_state [] 1 False False Drain (Wait 0 rq1) (Ack None []) lg1)"
    using tlb_step.ack [of "net_state [] 0 False False Drain (Wait 0 rq1) (Ack None [1]) lg1" 0 None 1 "[]" 0 1]
    by (simp add: simps atomic_raw_xchg_ulong_def)
  show "net_step 1 (net_state [] 1 False False Drain (Wait 0 rq1) (Ack None []) lg1) (net_state [] 0 False False Drain (Send rq2) (Ack None []) lg1)"
    using tlb_step.sync_ok [of "net_state [] 1 False False Drain (Wait 0 rq1) (Ack None []) lg1" 1 0 rq1] by (simp add: simps)
qed

lemma net_reach:
  "tlb_reach plat_example 0x1000 (\<lambda>t. t = net_request) (net_state [net_request] 0 True True Idle (Wait 0 rq1) Off [])"
  "tlb_reach plat_example 0x1000 (\<lambda>t. t = net_request) (net_state [] 0 False False Drain (Send rq2) (Ack None []) lg1)"
proof -
  have "tlb_reach plat_example 0x1000 (\<lambda>t. t = net_request) (net_state [] 0 False False Idle Idle Off [])"
    using tlb_reach.init by (simp add: net_init_state)
  from this [THEN tlb_reach.step, OF net_steps_send(1), THEN tlb_reach.step, OF net_steps_send(2), THEN tlb_reach.step, OF net_steps_send(3),
      THEN tlb_reach.step, OF net_steps_send(4), THEN tlb_reach.step, OF net_steps_send(5)]
  show r: "tlb_reach plat_example 0x1000 (\<lambda>t. t = net_request) (net_state [net_request] 0 True True Idle (Wait 0 rq1) Off [])" .
  from r [THEN tlb_reach.step, OF net_steps_serve(1), THEN tlb_reach.step, OF net_steps_serve(2), THEN tlb_reach.step, OF net_steps_serve(3),
      THEN tlb_reach.step, OF net_steps_serve(4), THEN tlb_reach.step, OF net_steps_serve(5), THEN tlb_reach.step, OF net_steps_serve(6)]
  show "tlb_reach plat_example 0x1000 (\<lambda>t. t = net_request) (net_state [] 0 False False Drain (Send rq2) (Ack None []) lg1)" .
qed

theorem tlb_shootdown_complete_witness:
  "\<exists>f. (0, f) \<in> set (drop 0 lg1) \<and> fence_covers f (Trans 0x3abc 7)"
  using tlb_shootdown_complete [OF net_reach(2), of 1 rq2 0 "Trans 0x3abc 7"] net_request_facts
  by (simp add: net_state_def net_rq_def)

theorem tlb_request_not_lost_witness:
  "(\<exists>e \<in> set [net_request]. in_mask 1 e) \<and> notified (net_state [net_request] 0 True True Idle (Wait 0 rq1) Off []) 0"
  using tlb_request_not_lost [OF net_reach(1), of 1 0 rq1 None 0 "[]"] net_request_facts
  by (simp add: net_state_def)

end
