(* ===== verification/Sbi_System.thy ===== *)
theory Sbi_System
  imports Sbi_Tlb
begin

text \<open>
  The platform's operations (\<^verbatim>\<open>include/sbi/sbi_platform.h\<close>), the exit of a hart (\<^verbatim>\<open>sbi_exit\<close> in \<^verbatim>\<open>lib/sbi/sbi_init.c\<close>) and the reset of
  the system (\<^verbatim>\<open>lib/sbi/sbi_system.c\<close>).

  The operations of the platform are parameters: the record \<open>sbi_platform_operations\<close> holds the callbacks that a
  platform may leave out, \<open>None\<close> being the null pointer. \<open>fw_ctx\<close> bundles what the firmware is run with: the hart's
  architecture and platform, whether page faults are delegated, the fuel of the waiting loops and what the other harts
  do while one of them waits, the firmware's place in memory, the scratch spaces that the entry code
  hands out, the names of the domains and the text of the boot banner and of the boot reports.
\<close>

section \<open>Platform operations\<close>

record sbi_platform_operations =
  po_early_init :: "(bool \<Rightarrow> machine \<Rightarrow> int \<times> machine) option"
  po_final_init :: "(bool \<Rightarrow> machine \<Rightarrow> int \<times> machine) option"
  po_early_exit :: "(machine \<Rightarrow> machine) option"
  po_final_exit :: "(machine \<Rightarrow> machine) option"
  po_domains_init :: "(machine \<Rightarrow> int \<times> machine) option"
  po_pmu_init :: "(pmu_sys \<Rightarrow> pmu_sys) option"
  po_pmu_xlate :: "(u32 \<Rightarrow> ulong \<Rightarrow> ulong) option"
  po_console_init :: "(machine \<Rightarrow> int \<times> machine) option"
  po_irqchip_init :: "(bool \<Rightarrow> machine \<Rightarrow> int \<times> machine) option"
  po_irqchip_exit :: "(machine \<Rightarrow> machine) option"
  po_ipi_init :: "(bool \<Rightarrow> machine \<Rightarrow> int \<times> machine) option"
  po_ipi_exit :: "(machine \<Rightarrow> machine) option"
  po_tlbr_flush_limit :: "ulong option"
  po_timer_init :: "(bool \<Rightarrow> machine \<Rightarrow> int \<times> machine) option"
  po_timer_exit :: "(machine \<Rightarrow> machine) option"
  po_vendor_ext_check :: "(ulong \<Rightarrow> int) option"
  po_vendor_ext_provider :: "(ulong \<Rightarrow> ulong \<Rightarrow> (nat \<Rightarrow> ulong) \<Rightarrow> ulong \<Rightarrow> sbi_trap_info \<Rightarrow> machine \<Rightarrow>
    (int \<times> ulong \<times> sbi_trap_info) \<times> machine) option"

text \<open>The wrappers: a missing initialisation succeeds, a missing exit does nothing.\<close>

definition plat_init :: "(bool \<Rightarrow> machine \<Rightarrow> int \<times> machine) option \<Rightarrow> bool \<Rightarrow> machine \<Rightarrow> int \<times> machine" where
  "plat_init f cold_boot m = (case f of Some f \<Rightarrow> f cold_boot m | None \<Rightarrow> (0, m))"

definition plat_exit :: "(machine \<Rightarrow> machine) option \<Rightarrow> machine \<Rightarrow> machine" where
  "plat_exit f m = (case f of Some f \<Rightarrow> f m | None \<Rightarrow> m)"

definition sbi_platform_tlbr_flush_limit :: "sbi_platform_operations \<Rightarrow> ulong" where
  "sbi_platform_tlbr_flush_limit po = (case po_tlbr_flush_limit po of Some l \<Rightarrow> l | None \<Rightarrow> 0x1000)"

definition sbi_platform_pmu_xlate_to_mhpmevent :: "sbi_platform_operations \<Rightarrow> u32 \<Rightarrow> ulong \<Rightarrow> ulong" where
  "sbi_platform_pmu_xlate_to_mhpmevent po event_idx data = (case po_pmu_xlate po of Some f \<Rightarrow> f event_idx data | None \<Rightarrow> 0)"

definition sbi_platform_vendor_ext_check :: "sbi_platform_operations \<Rightarrow> ulong \<Rightarrow> int" where
  "sbi_platform_vendor_ext_check po extid = (case po_vendor_ext_check po of Some f \<Rightarrow> f extid | None \<Rightarrow> 0)"

definition sbi_platform_vendor_ext_provider ::
  "sbi_platform_operations \<Rightarrow> ulong \<Rightarrow> ulong \<Rightarrow> (nat \<Rightarrow> ulong) \<Rightarrow> ulong \<Rightarrow> sbi_trap_info \<Rightarrow> machine \<Rightarrow>
    (int \<times> ulong \<times> sbi_trap_info) \<times> machine" where
  "sbi_platform_vendor_ext_provider po extid funcid regs out trap m =
     (case po_vendor_ext_provider po of Some f \<Rightarrow> f extid funcid regs out trap m | None \<Rightarrow> ((SBI_ENOTSUPP, out, trap), m))"

record fw_ctx =
  fx_plat :: sbi_plat
  fx_ops :: sbi_platform_operations
  fx_mfaults :: bool
  fx_fuel :: nat
  fx_env :: "machine \<Rightarrow> machine"
  fx_fw_start :: ulong
  fx_fw_size :: ulong
  fx_to_scratch :: "hartid \<Rightarrow> bytes option"
  fx_dom_name :: "nat \<Rightarrow> string"
  fx_boot_text :: "nat \<Rightarrow> hartid \<Rightarrow> machine \<Rightarrow> string"

section \<open>Exit of a hart\<close>

text \<open>
  \<^verbatim>\<open>sbi_exit\<close> processes the pending interprocessor interrupts, among them possibly a halt request, whose callback may call
  \<^verbatim>\<open>sbi_exit\<close> again. The first argument bounds this nesting.
\<close>

definition pmu_exit :: "fw_ctx \<Rightarrow> hartid \<Rightarrow> machine \<Rightarrow> unit run" where
  "pmu_exit fx h m =
     (case sbi_pmu_exit (p_hw (fx_plat fx)) (h_feat m h) h (m_pmu m, h_csr m h) of
        None \<Rightarrow> Fault
      | Some (p, c) \<Rightarrow> Ret () (m\<lparr>m_pmu := p, h_csr := (h_csr m)(h := c)\<rparr>))"

fun sbi_exit_depth :: "nat \<Rightarrow> fw_ctx \<Rightarrow> hartid \<Rightarrow> machine \<Rightarrow> int run" where
  "sbi_exit_depth 0 fx h m = Spin m"
| "sbi_exit_depth (Suc n) fx h m =
     (let pl = fx_plat fx; po = fx_ops fx; cb = fw_callbacks pl (fx_fuel fx) (fx_env fx) (sbi_exit_depth n fx)
      in if p_hart_invalid pl h then Hung m
         else run_bind (pmu_exit fx h (plat_exit (po_early_exit po) m)) (\<lambda>_ m.
              run_bind (sbi_ipi_exit pl (plat_exit (po_ipi_exit po)) cb h (sbi_timer_exit pl (plat_exit (po_timer_exit po)) h m)) (\<lambda>_ m.
              run_bind (sbi_hsm_exit h (plat_exit (po_final_exit po) (plat_exit (po_irqchip_exit po) m))) (\<lambda>_ m. Fault))))"

definition sbi_exit :: "fw_ctx \<Rightarrow> hartid \<Rightarrow> machine \<Rightarrow> int run" where
  "sbi_exit fx h m = sbi_exit_depth 2 fx h m"

definition fw_cb :: "fw_ctx \<Rightarrow> ipi_callbacks" where
  "fw_cb fx = fw_callbacks (fx_plat fx) (fx_fuel fx) (fx_env fx) (sbi_exit fx)"

section \<open>Reset devices\<close>

fun reset_device_loop ::
  "u32 \<Rightarrow> u32 \<Rightarrow> sbi_system_reset_device list \<Rightarrow> int \<Rightarrow> sbi_system_reset_device option \<Rightarrow> sbi_system_reset_device option" where
  "reset_device_loop ty reason [] priority reset_dev = reset_dev"
| "reset_device_loop ty reason (dev # devs) priority reset_dev =
     (case system_reset_check dev of
        None \<Rightarrow> reset_device_loop ty reason devs priority reset_dev
      | Some check \<Rightarrow>
          (let status = check ty reason
           in if status = 0 then reset_device_loop ty reason devs priority reset_dev
              else if priority < status then reset_device_loop ty reason devs status (Some dev)
              else reset_device_loop ty reason devs priority reset_dev))"

definition sbi_system_reset_get_device :: "u32 \<Rightarrow> u32 \<Rightarrow> machine \<Rightarrow> sbi_system_reset_device option" where
  "sbi_system_reset_get_device ty reason m = reset_device_loop ty reason (reset_devices_list m) 0 None"

definition sbi_system_reset_add_device :: "sbi_system_reset_device option \<Rightarrow> machine \<Rightarrow> machine" where
  "sbi_system_reset_add_device dev m =
     (case dev of
        None \<Rightarrow> m
      | Some d \<Rightarrow> if system_reset_check d = None then m else m\<lparr>reset_devices_list := d # reset_devices_list m\<rparr>)"

definition sbi_system_reset_supported :: "u32 \<Rightarrow> u32 \<Rightarrow> machine \<Rightarrow> bool" where
  "sbi_system_reset_supported ty reason m \<longleftrightarrow> sbi_system_reset_get_device ty reason m \<noteq> None"

text \<open>
  The loop that halts the other harts, in steps of 64 harts (three are enough for 128 hart numbers). The shift by the
  distance of the current hart is undefined if that is 64 or more.
\<close>

fun reset_halt_loop :: "nat \<Rightarrow> ipi_callbacks \<Rightarrow> hartid \<Rightarrow> sbi_domain option \<Rightarrow> ulong \<Rightarrow> machine \<Rightarrow> unit run" where
  "reset_halt_loop 0 cb h dm hbase m = Spin m"
| "reset_halt_loop (Suc n) cb h dm hbase m =
     (case sbi_hsm_hart_interruptible_mask dm hbase m of
        None \<Rightarrow> Fault
      | Some (rc, hmask) \<Rightarrow>
          (if rc \<noteq> 0 then Ret () m
           else if unat hbase \<le> h \<and> 64 \<le> h - unat hbase then Fault
           else let hmask = (if unat hbase \<le> h then hmask AND NOT (push_bit (h - unat hbase) 1) else hmask)
                in run_bind (if hmask \<noteq> 0 then sbi_ipi_send_halt cb h hmask hbase m else Ret 0 m)
                     (\<lambda>_ m. reset_halt_loop n cb h dm (hbase + 64) m)))"

definition sbi_system_reset :: "fw_ctx \<Rightarrow> hartid \<Rightarrow> u32 \<Rightarrow> u32 \<Rightarrow> machine \<Rightarrow> int run" where
  "sbi_system_reset fx h ty reason m =
     (let dm = sbi_domain_thishart h m
      in run_bind (reset_halt_loop 3 (fw_cb fx) h dm 0 m) (\<lambda>_ m.
         run_bind (sbi_hsm_hart_stop (sbi_exit fx h) h False m) (\<lambda>_ m.
         case dm of
           None \<Rightarrow> Fault
         | Some d \<Rightarrow>
             (case (if system_reset_allowed d then sbi_system_reset_get_device ty reason m else None) of
                None \<Rightarrow> sbi_exit fx h m
              | Some dev \<Rightarrow>
                  (let m = log_ev (Ev_system_reset ty reason) m
                   in if system_reset_works dev ty reason then System_reset m else sbi_exit fx h m)))))"

section \<open>The device of the highest priority\<close>

definition reset_priority :: "u32 \<Rightarrow> u32 \<Rightarrow> sbi_system_reset_device \<Rightarrow> int" where
  "reset_priority ty reason dev = (case system_reset_check dev of Some f \<Rightarrow> f ty reason | None \<Rightarrow> 0)"

lemma reset_device_loop_cases:
  assumes "0 \<le> p"
  shows "reset_device_loop ty reason devs p rd = rd \<and> (\<forall>d \<in> set devs. reset_priority ty reason d \<le> p) \<or>
    (\<exists>xs d ys. devs = xs @ d # ys \<and> reset_device_loop ty reason devs p rd = Some d \<and> p < reset_priority ty reason d \<and>
       (\<forall>x \<in> set xs. reset_priority ty reason x < reset_priority ty reason d) \<and>
       (\<forall>y \<in> set ys. reset_priority ty reason y \<le> reset_priority ty reason d))"
  using assms
proof (induction devs arbitrary: p rd)
  case (Cons dev devs)
  let ?P = "reset_priority ty reason"
  have step: "reset_device_loop ty reason (dev # devs) p rd =
      (if p < ?P dev then reset_device_loop ty reason devs (?P dev) (Some dev) else reset_device_loop ty reason devs p rd)"
    using Cons.prems by (auto simp: reset_priority_def Let_def split: option.split)
  show ?case
  proof (cases "p < ?P dev")
    case True
    have "0 \<le> ?P dev" using True Cons.prems by simp
    from Cons.IH [OF this, of "Some dev"] show ?thesis
    proof (elim disjE exE conjE)
      fix xs d ys
      assume d: "devs = xs @ d # ys" "reset_device_loop ty reason devs (?P dev) (Some dev) = Some d" "?P dev < ?P d"
        "\<forall>x \<in> set xs. ?P x < ?P d" "\<forall>y \<in> set ys. ?P y \<le> ?P d"
      then show ?thesis using True step by (intro disjI2 exI [of _ "dev # xs"] exI [of _ d] exI [of _ ys]) auto
    qed (use True step in \<open>intro disjI2 exI [of _ "[]"] exI [of _ dev] exI [of _ devs], auto\<close>)
  next
    case False
    from Cons.IH [OF Cons.prems, of rd] show ?thesis
    proof (elim disjE exE conjE)
      fix xs d ys
      assume d: "devs = xs @ d # ys" "reset_device_loop ty reason devs p rd = Some d" "p < ?P d"
        "\<forall>x \<in> set xs. ?P x < ?P d" "\<forall>y \<in> set ys. ?P y \<le> ?P d"
      then show ?thesis using False step by (intro disjI2 exI [of _ "dev # xs"] exI [of _ d] exI [of _ ys]) auto
    qed (use False step in auto)
  qed
qed simp

lemma reset_get_device:
  "(case sbi_system_reset_get_device ty reason m of
      None \<Rightarrow> \<forall>d \<in> set (reset_devices_list m). reset_priority ty reason d \<le> 0
    | Some d \<Rightarrow> 0 < reset_priority ty reason d \<and> (\<exists>xs ys. reset_devices_list m = xs @ d # ys \<and>
        (\<forall>x \<in> set xs. reset_priority ty reason x < reset_priority ty reason d) \<and>
        (\<forall>y \<in> set ys. reset_priority ty reason y \<le> reset_priority ty reason d)))"
  using reset_device_loop_cases [OF order_refl, of ty reason "reset_devices_list m" None]
  by (elim disjE exE conjE) (simp_all add: sbi_system_reset_get_device_def, blast)

section \<open>Reset halts the other harts first\<close>

lemma halt_targets:
  assumes "\<And>k. bit w k \<longleftrightarrow> k < 64 \<and> interruptible d m k" and "last_hartid m < 64" and "h < 64"
  shows "ipi_targets d (w AND NOT (2 ^ h)) 0 m = filter (\<lambda>r. interruptible d m r \<and> r \<noteq> h) [0..<128]"
    "w AND NOT (2 ^ h) = 0 \<Longrightarrow> filter (\<lambda>r. interruptible d m r \<and> r \<noteq> h) [0..<128] = []"
proof -
  have b: "bit (w AND NOT (2 ^ h)) k \<longleftrightarrow> k < 64 \<and> interruptible d m k \<and> k \<noteq> h" for k
    using assms(1) [of k] using assms(3) by (auto simp: bit_simps)
  have l: "interruptible d m r \<Longrightarrow> r < 64" for r using assms(2) by (simp add: interruptible_def)
  show "ipi_targets d (w AND NOT (2 ^ h)) 0 m = filter (\<lambda>r. interruptible d m r \<and> r \<noteq> h) [0..<128]"
    unfolding ipi_targets_def by (rule filter_cong) (auto simp: ipi_addressed_def b dest: l)
  show "filter (\<lambda>r. interruptible d m r \<and> r \<noteq> h) [0..<128] = []" if "w AND NOT (2 ^ h) = 0"
    using b l that by (auto simp: filter_empty_conv)
qed

lemma reset_halt_loop_eq:
  assumes d: "sbi_domain_thishart h m = Some d" "length (assigned_harts d) = 2" and l: "last_hartid m < 64" and h: "h < 64"
    and ev: "ipi_halt_event (m_ipi m) < 64" "ipi_ops_array (m_ipi m) ! ipi_halt_event (m_ipi m) = Some ipi_halt_ops"
  shows "reset_halt_loop 3 cb h (Some d) 0 m =
    Ret () (fold (ipi_post h (ipi_halt_event (m_ipi m))) (filter (\<lambda>r. interruptible d m r \<and> r \<noteq> h) [0..<128]) m)"
proof -
  from interruptible_mask_bits [OF d(2), of m 0] l obtain w where
    w: "sbi_hsm_hart_interruptible_mask (Some d) 0 m = Some (0, w)" "\<And>k. bit w k \<longleftrightarrow> k < 64 \<and> interruptible d m k" by auto
  let ?w = "w AND NOT (2 ^ h)"
  note T = halt_targets [OF w(2) l h]
  have "(if ?w \<noteq> 0 then sbi_ipi_send_halt cb h ?w 0 m else Ret 0 m) =
      Ret 0 (fold (ipi_post h (ipi_halt_event (m_ipi m))) (filter (\<lambda>r. interruptible d m r \<and> r \<noteq> h) [0..<128]) m)"
    using ipi_send_many_eq [OF d, of "ipi_halt_event (m_ipi m)" ipi_halt_ops 0 cb ?w None] l ev T
    by (simp add: sbi_ipi_send_halt_def ipi_halt_ops_def)
  then show ?thesis unfolding numeral_3_eq_3 using w(1) h l by (simp add: interruptible_mask_end Let_def)
qed

lemma hart_stop_False:
  "\<exists>rc m'. sbi_hsm_hart_stop ex h False m = Ret rc m' \<and> m_log m' = m_log m \<and> ipi_type m' = ipi_type m \<and>
    reset_devices_list m' = reset_devices_list m"
  by (simp add: sbi_hsm_hart_stop_def hsm_cmpxchg_def atomic_cmpxchg_def split: prod.split)

text \<open>
  C33. A system reset: with the halt event registered, fewer than 64 harts and a domain that may reset the
  system, \<^verbatim>\<open>sbi_system_reset\<close> first raises the halt event on every other started or suspended hart of the domain, exactly
  once, and then resets through the device with the highest positive priority for the requested type and reason, the one
  registered last among equals. If there is no such device the hart exits instead.
\<close>

theorem system_reset_halts_then_resets:
  assumes "sbi_domain_thishart h m = Some d" and "length (assigned_harts d) = 2" and "last_hartid m < 64" and "h < 64"
    and "ipi_halt_event (m_ipi m) = ev" and "ev < 64" and "ipi_ops_array (m_ipi m) ! ev = Some ipi_halt_ops"
    and "ipi_dev m = Some idev" and "has_ipi_send idev" and "system_reset_allowed d"
    and "sbi_system_reset_get_device ty reason m = Some dev" and "system_reset_works dev ty reason"
  shows "\<exists>m'. sbi_system_reset fx h ty reason m = System_reset m' \<and>
    m_log m' = m_log m @ map Ev_ipi_send (filter (\<lambda>r. interruptible d m r \<and> r \<noteq> h) [0..<128]) @ [Ev_system_reset ty reason] \<and>
    (\<forall>r. interruptible d m r \<and> r \<noteq> h \<longrightarrow> bit (ipi_type m' r) ev) \<and>
    0 < reset_priority ty reason dev \<and> (\<forall>x \<in> set (reset_devices_list m). reset_priority ty reason x \<le> reset_priority ty reason dev)"
proof -
  let ?T = "filter (\<lambda>r. interruptible d m r \<and> r \<noteq> h) [0..<128]"
  define m1 where "m1 = fold (ipi_post h ev) ?T m"
  have loop: "reset_halt_loop 3 (fw_cb fx) h (Some d) 0 m = Ret () m1"
    using reset_halt_loop_eq [OF assms(1-4)] assms(5-7) by (simp add: m1_def)
  from hart_stop_False [of "sbi_exit fx h" h m1] obtain rc m2 where
    m2: "sbi_hsm_hart_stop (sbi_exit fx h) h False m1 = Ret rc m2" "m_log m2 = m_log m1" "ipi_type m2 = ipi_type m1"
      "reset_devices_list m2 = reset_devices_list m1" by blast
  have dev: "sbi_system_reset_get_device ty reason m2 = Some dev"
    using assms(11) m2(4) by (simp add: sbi_system_reset_get_device_def m1_def)
  have "sbi_system_reset fx h ty reason m = System_reset (log_ev (Ev_system_reset ty reason) m2)"
    using loop m2(1) dev assms(1,10,12) by (simp add: sbi_system_reset_def Let_def)
  moreover have "bit (ipi_type m1 r) ev" if "interruptible d m r" "r \<noteq> h" for r
    using that interruptible_hart [of d m r] assms(6) by (auto simp: m1_def fold_ipi_post_type bit_simps)
  moreover have "m_log m1 = m_log m @ map Ev_ipi_send ?T" using assms(6,8,9) by (simp add: m1_def fold_ipi_post_log)
  moreover have "0 < reset_priority ty reason dev \<and> (\<forall>x \<in> set (reset_devices_list m). reset_priority ty reason x \<le> reset_priority ty reason dev)"
    using reset_get_device [where ty = ty and reason = reason and m = m] assms(11) by (force dest: less_imp_le)
  ultimately show ?thesis using m2 by auto
qed


definition no_platform_ops :: sbi_platform_operations where
  "no_platform_ops = \<lparr>po_early_init = None, po_final_init = None, po_early_exit = None, po_final_exit = None,
     po_domains_init = None, po_pmu_init = None, po_pmu_xlate = None, po_console_init = None, po_irqchip_init = None,
     po_irqchip_exit = None, po_ipi_init = None, po_ipi_exit = None, po_tlbr_flush_limit = None, po_timer_init = None,
     po_timer_exit = None, po_vendor_ext_check = None, po_vendor_ext_provider = None\<rparr>"

definition fx_example :: fw_ctx where
  "fx_example = \<lparr>fx_plat = plat_example, fx_ops = no_platform_ops, fx_mfaults = False, fx_fuel = 100, fx_env = (\<lambda>m. m),
     fx_fw_start = 0x80000000, fx_fw_size = 0x20000, fx_to_scratch = (\<lambda>h. if h < 2 then Some (replicate 4096 0) else None),
     fx_dom_name = (\<lambda>_. ''root''), fx_boot_text = (\<lambda>_ _ _. '''')\<rparr>"

definition reset_dev_example :: "int \<Rightarrow> sbi_system_reset_device" where
  "reset_dev_example p = \<lparr>system_reset_check = Some (\<lambda>_ _. p), system_reset_works = (\<lambda>_ _. True)\<rparr>"

definition reset_example :: machine where
  "reset_example = sbi_system_reset_add_device (Some (reset_dev_example 5))
     (sbi_system_reset_add_device (Some (reset_dev_example 9)) ipi_example)"

theorem system_reset_halts_then_resets_witness:
  "\<exists>m'. sbi_system_reset fx_example 0 0 0 reset_example = System_reset m' \<and>
     m_log m' = [Ev_ipi_send 1, Ev_system_reset 0 0]"
proof -
  let ?m = reset_example
  have f: "filter (\<lambda>r. interruptible hsm_domain_example ?m r \<and> r \<noteq> 0) [0..<128] = [1]" by code_simp
  have m: "sbi_domain_thishart 0 ?m = Some hsm_domain_example" "length (assigned_harts hsm_domain_example) = 2"
    "last_hartid ?m < 64" "ipi_halt_event (m_ipi ?m) = 1" "ipi_ops_array (m_ipi ?m) ! 1 = Some ipi_halt_ops"
    "ipi_dev ?m = Some \<lparr>has_ipi_send = True, has_ipi_clear = True\<rparr>" "system_reset_allowed hsm_domain_example" "m_log ?m = []"
    "reset_devices_list ?m = [reset_dev_example 5, reset_dev_example 9]"
    by (simp_all add: reset_example_def sbi_system_reset_add_device_def reset_dev_example_def ipi_example_def
        sbi_domain_thishart_def hsm_domain_example_def domain_sorted_example_def domain_example_def machine_boot_def)
  have "sbi_system_reset_get_device 0 0 ?m = Some (reset_dev_example 9)"
    by (simp add: sbi_system_reset_get_device_def m(9)) (simp add: reset_dev_example_def)
  then show ?thesis
    using system_reset_halts_then_resets [OF m(1-3) _ m(4) _ m(5-6) _ m(7), of 0 0 "reset_dev_example 9" fx_example] m(8) f
    by (auto simp: reset_dev_example_def)
qed

end
