(* ===== verification/Sbi_Console.thy ===== *)
theory Sbi_Console
  imports Sbi_Machine
begin

text \<open>
  The console (\<^verbatim>\<open>lib/sbi/sbi_console.c\<close>): characters and lines over the console device, and the formatted output.

  Characters sent to the device are logged as \<open>Ev_putc\<close>. A format is a string without the terminator. The variable
  arguments are a list of argument slots; on this 64-bit machine every scalar takes one slot of 64 bits whatever
  its type. \<open>None\<close> is undefined behaviour: reading past the format, past the arguments, a slot of the wrong kind, or a
  write below the start of the digit buffer. The lock of the output is held for the whole of a call; the calls are modelled
  as one step.
\<close>

section \<open>Characters and lines\<close>

definition sbi_isprintable :: "char \<Rightarrow> bool" where
  "sbi_isprintable c \<longleftrightarrow> (let n = (of_char c :: nat) in (31 < n \<and> n < 127) \<or> n = 12 \<or> n = 13 \<or> n = 10 \<or> n = 9)"

text \<open>The results that the device will deliver are the input list, and -1 once it is exhausted.\<close>

definition sbi_getc :: "machine \<Rightarrow> int \<times> machine" where
  "sbi_getc m =
     (case m_con m of
        Some con \<Rightarrow>
          (if con_getc con then (case con_input con of [] \<Rightarrow> (-1, m) | c # cs \<Rightarrow> (c, m\<lparr>m_con := Some (con\<lparr>con_input := cs\<rparr>)\<rparr>))
           else (-1, m))
      | None \<Rightarrow> (-1, m))"

definition sbi_putc :: "char \<Rightarrow> machine \<Rightarrow> machine" where
  "sbi_putc ch m =
     (case m_con m of
        Some con \<Rightarrow>
          (if con_putc con
           then log_ev (Ev_putc (of_char ch)) (if of_char ch = (10 :: nat) then log_ev (Ev_putc 13) m else m)
           else m)
      | None \<Rightarrow> m)"

fun sbi_puts :: "string \<Rightarrow> machine \<Rightarrow> machine" where
  "sbi_puts [] m = m"
| "sbi_puts (c # str) m = sbi_puts str (sbi_putc c m)"

text \<open>The first argument is \<^verbatim>\<open>maxwidth - 1\<close>; the result is what is stored before the terminator.\<close>

fun gets_loop :: "nat \<Rightarrow> char \<Rightarrow> machine \<Rightarrow> string \<times> machine" where
  "gets_loop 0 endchar m = ([], snd (sbi_getc m))"
| "gets_loop (Suc n) endchar m =
     (let (ch, m) = sbi_getc m
      in if ch \<noteq> of_char endchar \<and> 0 \<le> ch
         then let (s, m) = gets_loop n endchar m in (char_of (nat ch) # s, m)
         else ([], m))"

definition sbi_gets :: "int \<Rightarrow> char \<Rightarrow> machine \<Rightarrow> string \<times> machine" where
  "sbi_gets maxwidth endchar m = (let (s, m) = gets_loop (nat (maxwidth - 1)) endchar m in (s @ [char_of (0 :: nat)], m))"

section \<open>Formatted output\<close>

text \<open>
  Where the output goes: to the console, or to a buffer, as the bytes stored so far from its start (\<open>None\<close> for a null
  pointer) together with the remaining length, which \<^verbatim>\<open>sbi_sprintf\<close> does not have.
\<close>

datatype out_dst = Console machine | Buffer "string option" "u32 option"

abbreviation (input) PAD_RIGHT :: u32 where "PAD_RIGHT \<equiv> 1"
abbreviation (input) PAD_ZERO :: u32 where "PAD_ZERO \<equiv> 2"
abbreviation (input) PAD_ALTERNATE :: u32 where "PAD_ALTERNATE \<equiv> 4"
abbreviation (input) PRINT_BUF_LEN :: nat where "PRINT_BUF_LEN \<equiv> 64"

fun printc :: "char \<Rightarrow> out_dst \<Rightarrow> out_dst" where
  "printc ch (Console m) = Console (sbi_putc ch m)"
| "printc ch (Buffer None len) = Buffer None len"
| "printc ch (Buffer (Some w) None) = Buffer (Some (w @ [ch])) None"
| "printc ch (Buffer (Some w) (Some n)) =
     (if 0 < n then Buffer (Some (w @ [ch])) (Some (n - 1)) else Buffer (Some (w @ [ch])) (Some n))"

fun pad_loop :: "nat \<Rightarrow> char \<Rightarrow> int \<times> out_dst \<Rightarrow> int \<times> out_dst" where
  "pad_loop 0 padchar (pc, out) = (pc, out)"
| "pad_loop (Suc width) padchar (pc, out) = pad_loop width padchar (pc + 1, printc padchar out)"

fun string_loop :: "string \<Rightarrow> int \<times> out_dst \<Rightarrow> int \<times> out_dst" where
  "string_loop [] (pc, out) = (pc, out)"
| "string_loop (c # s) (pc, out) = string_loop s (pc + 1, printc c out)"

definition prints :: "string \<Rightarrow> int \<Rightarrow> u32 \<Rightarrow> out_dst \<Rightarrow> int \<times> out_dst" where
  "prints s width flags out =
     (let padchar = (if 0 < width \<and> flags AND PAD_ZERO \<noteq> 0 then CHR ''0'' else CHR '' '');
          width = (if 0 < width then (if width \<le> int (length s) then 0 else width - int (length s)) else width);
          left = (if flags AND PAD_RIGHT = 0 then nat width else 0);
          right = (if flags AND PAD_RIGHT = 0 then 0 else nat width)
      in pad_loop right padchar (string_loop s (pad_loop left padchar (0, out))))"

text \<open>
  The digits are written downwards from the end of a buffer whose last byte is the terminator; \<open>push_front\<close> is
  \<^verbatim>\<open>*--s = c\<close>.
\<close>

definition push_front :: "char \<Rightarrow> string \<Rightarrow> string option" where
  "push_front c s = (if length s < PRINT_BUF_LEN - 1 then Some (c # s) else None)"

fun print_digits :: "nat \<Rightarrow> ulong \<Rightarrow> ulong \<Rightarrow> ulong \<Rightarrow> string \<Rightarrow> string option" where
  "print_digits 0 b letbase u s = (if u = 0 then Some s else None)"
| "print_digits (Suc n) b letbase u s =
     (if u = 0 then Some s
      else let t = u mod b; t = (if 10 \<le> t then t + (letbase - 48 - 10) else t)
           in Option.bind (push_front (char_of (unat (t + 48))) s) (print_digits n b letbase (u div b)))"

definition printi :: "ulong \<Rightarrow> ulong \<Rightarrow> bool \<Rightarrow> int \<Rightarrow> u32 \<Rightarrow> char \<Rightarrow> out_dst \<Rightarrow> (int \<times> out_dst) option" where
  "printi i b sg width flags letbase out =
     (let neg = (sg \<and> b = 10 \<and> i <s 0);
          u = (if neg then - i else i)
      in Option.bind (if u = 0 then push_front (CHR ''0'') [] else print_digits PRINT_BUF_LEN b (of_char letbase) u []) (\<lambda>s.
         Option.bind (if flags AND PAD_ALTERNATE \<noteq> 0
                      then Option.bind (if b = 16 \<and> letbase = CHR ''A'' then push_front (CHR ''X'') s
                                        else if b = 16 \<and> letbase = CHR ''a'' then push_front (CHR ''x'') s
                                        else Some s) (push_front (CHR ''0''))
                      else Some s) (\<lambda>s.
         if neg \<and> width \<noteq> 0 \<and> flags AND PAD_ZERO \<noteq> 0
         then let (pc, out) = prints s (width - 1) flags (printc (CHR ''-'') out) in Some (1 + pc, out)
         else map_option (\<lambda>s. prints s width flags out) (if neg then push_front (CHR ''-'') s else Some s))))"

section \<open>Format strings\<close>

datatype va = Va_num ulong | Va_str "string option"

fun va_num :: "va list \<Rightarrow> (ulong \<times> va list) option" where
  "va_num (Va_num w # args) = Some (w, args)"
| "va_num _ = None"

text \<open>
  Before a \<^verbatim>\<open>long long\<close> the code drops arguments until the count of their sizes is a multiple of eight. The sizes
  are multiples of four, so that two rounds are enough.
\<close>

fun va_align :: "nat \<Rightarrow> nat \<Rightarrow> va list \<Rightarrow> (nat \<times> va list) option" where
  "va_align 0 acnt args = None"
| "va_align (Suc n) acnt args =
     (if acnt mod 8 = 0 then Some (acnt, args)
      else case args of [] \<Rightarrow> None | _ # args \<Rightarrow> va_align n (acnt + 4) args)"

fun fmt_flag :: "char \<Rightarrow> u32 \<Rightarrow> u32 \<times> string \<Rightarrow> u32 \<times> string" where
  "fmt_flag c f (flags, []) = (flags, [])"
| "fmt_flag c f (flags, x # fmt) = (if x = c then (flags OR f, fmt) else (flags, x # fmt))"

fun fmt_zeros :: "u32 \<Rightarrow> string \<Rightarrow> u32 \<times> string" where
  "fmt_zeros flags (x # fmt) = (if x = CHR ''0'' then fmt_zeros (flags OR PAD_ZERO) fmt else (flags, x # fmt))"
| "fmt_zeros flags [] = (flags, [])"

fun fmt_width :: "int \<Rightarrow> string \<Rightarrow> int \<times> string" where
  "fmt_width width (x # fmt) =
     (if 48 \<le> (of_char x :: int) \<and> (of_char x :: int) \<le> 57 then fmt_width (width * 10 + (of_char x - 48)) fmt else (width, x # fmt))"
| "fmt_width width [] = (width, [])"

text \<open>
  One conversion, from the character after the percent sign: the rest of the format at which the loop continues, the
  output, the remaining arguments, the count of their sizes and the number of characters printed. A conversion
  that prints a number is given the way it reads its argument.
\<close>

type_synonym print_st = "string \<times> out_dst \<times> va list \<times> nat \<times> int"

definition conv_num ::
  "(ulong \<Rightarrow> ulong) \<Rightarrow> ulong \<Rightarrow> bool \<Rightarrow> char \<Rightarrow> nat \<Rightarrow> string \<Rightarrow> int \<Rightarrow> u32 \<Rightarrow> nat \<Rightarrow> va list \<Rightarrow> out_dst \<Rightarrow> print_st option" where
  "conv_num rd b sg letbase sz fmt width flags acnt args out =
     Option.bind (va_num args) (\<lambda>(w, args).
     map_option (\<lambda>(n, out). (fmt, out, args, acnt + sz, n)) (printi (rd w) b sg width flags letbase out))"

definition conv_text :: "string \<Rightarrow> nat \<Rightarrow> string \<Rightarrow> int \<Rightarrow> u32 \<Rightarrow> nat \<Rightarrow> va list \<Rightarrow> out_dst \<Rightarrow> print_st" where
  "conv_text s sz fmt width flags acnt args out = (let (n, out) = prints s width flags out in (fmt, out, args, acnt + sz, n))"

definition va_int :: "ulong \<Rightarrow> ulong" where
  "va_int w = scast (ucast w :: u32)"

definition va_uint :: "ulong \<Rightarrow> ulong" where
  "va_uint w = ucast (ucast w :: u32)"

text \<open>
  The character after \<^verbatim>\<open>l\<close> or \<^verbatim>\<open>ll\<close>. Any other one than the three known ones is not consumed. The first argument is what a
  \<^verbatim>\<open>u\<close> adds to the count of the sizes: nothing after a single \<^verbatim>\<open>l\<close>.
\<close>

definition conv_long :: "nat \<Rightarrow> string \<Rightarrow> int \<Rightarrow> u32 \<Rightarrow> nat \<Rightarrow> va list \<Rightarrow> out_dst \<Rightarrow> print_st option" where
  "conv_long usz r =
     (if r \<noteq> [] \<and> hd r = CHR ''u'' then conv_num (\<lambda>w. w) 10 False (CHR ''a'') usz (tl r)
      else if r \<noteq> [] \<and> hd r = CHR ''x'' then conv_num (\<lambda>w. w) 16 False (CHR ''a'') 8 (tl r)
      else if r \<noteq> [] \<and> hd r = CHR ''X'' then conv_num (\<lambda>w. w) 16 False (CHR ''A'') 8 (tl r)
      else conv_num (\<lambda>w. w) 10 True (CHR ''0'') 8 r)"

definition conv_ll :: "string \<Rightarrow> int \<Rightarrow> u32 \<Rightarrow> nat \<Rightarrow> va list \<Rightarrow> out_dst \<Rightarrow> print_st option" where
  "conv_ll r width flags acnt args out =
     Option.bind (va_align 2 acnt args) (\<lambda>(acnt, args). conv_long 8 r width flags acnt args out)"

definition print_conv :: "string \<Rightarrow> nat \<Rightarrow> va list \<Rightarrow> out_dst \<Rightarrow> print_st option" where
  "print_conv fmt acnt args out =
     (let (flags, fmt) = fmt_flag (CHR ''#'') PAD_ALTERNATE (fmt_flag (CHR ''-'') PAD_RIGHT (0, fmt));
          (flags, fmt) = fmt_zeros flags fmt;
          (width, fmt) = fmt_width 0 fmt
      in case fmt of
           [] \<Rightarrow> None
         | c # r \<Rightarrow>
             (if c = CHR ''s''
              then (case args of
                      Va_str s # args \<Rightarrow>
                        Some (conv_text (case s of Some s \<Rightarrow> s | None \<Rightarrow> ''(null)'') 8 r width flags acnt args out)
                    | _ \<Rightarrow> None)
              else if c = CHR ''d'' \<or> c = CHR ''i'' then conv_num va_int 10 True (CHR ''0'') 4 r width flags acnt args out
              else if c = CHR ''x'' then conv_num va_uint 16 False (CHR ''a'') 4 r width flags acnt args out
              else if c = CHR ''X'' then conv_num va_uint 16 False (CHR ''A'') 4 r width flags acnt args out
              else if c = CHR ''u'' then conv_num va_uint 10 False (CHR ''a'') 4 r width flags acnt args out
              else if c = CHR ''p'' then conv_num (\<lambda>w. w) 16 False (CHR ''a'') 8 r width flags acnt args out
              else if c = CHR ''P'' then conv_num (\<lambda>w. w) 16 False (CHR ''A'') 8 r width flags acnt args out
              else if c = CHR ''l''
              then (if r \<noteq> [] \<and> hd r = CHR ''l'' then conv_ll (tl r) width flags acnt args out
                    else conv_long 0 r width flags acnt args out)
              else if c = CHR ''c''
              then Option.bind (va_num args) (\<lambda>(w, args).
                     Some (conv_text (if (ucast w :: u8) = 0 then [] else [char_of (unat (ucast w :: u8))])
                             4 r width flags acnt args out))
              else Some (r, out, args, acnt, 0)))"

lemma fmt_flag_length: "length (snd (fmt_flag c f p)) \<le> length (snd p)"
  by (cases "(c, f, p)" rule: fmt_flag.cases) auto

lemma fmt_zeros_length: "length (snd (fmt_zeros f s)) \<le> length s"
  by (induction f s rule: fmt_zeros.induct) auto

lemma fmt_width_length: "length (snd (fmt_width w s)) \<le> length s"
  by (induction w s rule: fmt_width.induct) auto

lemma conv_num_rest: "conv_num rd b sg l sz r width flags acnt args out = Some (r', st) \<Longrightarrow> r' = r"
  by (auto simp: conv_num_def bind_eq_Some_conv)

lemma conv_text_rest: "conv_text s sz r width flags acnt args out = (r', st) \<Longrightarrow> r' = r"
  by (simp add: conv_text_def split: prod.splits)

lemma conv_long_rest: "conv_long usz r width flags acnt args out = Some (r', st) \<Longrightarrow> length r' \<le> length r"
  by (auto simp: conv_long_def dest!: conv_num_rest split: if_splits)

lemma conv_ll_rest: "conv_ll r width flags acnt args out = Some (r', st) \<Longrightarrow> length r' \<le> length r"
  by (auto simp: conv_ll_def bind_eq_Some_conv dest!: conv_long_rest)

lemma print_conv_rest:
  assumes "print_conv fmt acnt args out = Some (r', st)" shows "length r' < length fmt"
proof -
  obtain fl1 f1 where 1: "fmt_flag (CHR ''#'') PAD_ALTERNATE (fmt_flag (CHR ''-'') PAD_RIGHT (0, fmt)) = (fl1, f1)" by fastforce
  obtain fl2 f2 where 2: "fmt_zeros fl1 f1 = (fl2, f2)" by fastforce
  obtain w f3 where 3: "fmt_width 0 f2 = (w, f3)" by fastforce
  have "length f3 \<le> length fmt"
    using fmt_flag_length [of "CHR ''#''" PAD_ALTERNATE "fmt_flag (CHR ''-'') PAD_RIGHT (0, fmt)"] 1 2 3
      fmt_flag_length [of "CHR ''-''" PAD_RIGHT "(0, fmt)"] fmt_zeros_length [of fl1 f1] fmt_width_length [of 0 f2] by simp
  moreover have "length r' < length f3"
    using assms 1 2 3
    by (auto simp: print_conv_def bind_eq_Some_conv Let_def split: list.splits if_splits va.splits prod.splits
        dest!: conv_num_rest conv_ll_rest conv_long_rest conv_text_rest)
  ultimately show ?thesis by simp
qed

text \<open>The main loop. Output into a buffer is terminated at the end.\<close>

fun out_terminate :: "out_dst \<Rightarrow> out_dst option" where
  "out_terminate (Console m) = Some (Console m)"
| "out_terminate (Buffer None len) = None"
| "out_terminate (Buffer (Some w) len) = Some (Buffer (Some (w @ [char_of (0 :: nat)])) len)"

function print_fmt :: "string \<Rightarrow> nat \<Rightarrow> va list \<Rightarrow> int \<Rightarrow> out_dst \<Rightarrow> (int \<times> out_dst) option" where
  "print_fmt fmt acnt args pc out =
     (case fmt of
        [] \<Rightarrow> map_option (Pair pc) (out_terminate out)
      | c # fmt \<Rightarrow>
          (if c \<noteq> CHR ''%'' then print_fmt fmt acnt args (pc + 1) (printc c out)
           else if fmt = [] then map_option (Pair pc) (out_terminate out)
           else if hd fmt = CHR ''%'' then print_fmt (tl fmt) acnt args (pc + 1) (printc (CHR ''%'') out)
           else case print_conv fmt acnt args out of
                  None \<Rightarrow> None
                | Some (fmt, out, args, acnt, n) \<Rightarrow> print_fmt fmt acnt args (pc + n) out))"
  by pat_completeness auto
termination by (relation "measure (\<lambda>(fmt, _). length fmt)") (auto dest: print_conv_rest)

declare print_fmt.simps [simp del]

definition sbi_sprintf :: "string \<Rightarrow> va list \<Rightarrow> (int \<times> out_dst) option" where
  "sbi_sprintf fmt args = print_fmt fmt 0 args 0 (Buffer (Some []) None)"

definition sbi_snprintf :: "u32 \<Rightarrow> string \<Rightarrow> va list \<Rightarrow> (int \<times> out_dst) option" where
  "sbi_snprintf out_sz fmt args = print_fmt fmt 0 args 0 (Buffer (Some []) (Some out_sz))"

definition sbi_printf :: "string \<Rightarrow> va list \<Rightarrow> machine \<Rightarrow> int run" where
  "sbi_printf fmt args m =
     (case print_fmt fmt 0 args 0 (Console m) of Some (n, Console m) \<Rightarrow> Ret n m | _ \<Rightarrow> Fault)"

abbreviation (input) SBI_SCRATCH_NO_BOOT_PRINTS :: ulong where "SBI_SCRATCH_NO_BOOT_PRINTS \<equiv> 1"
abbreviation (input) SBI_SCRATCH_DEBUG_PRINTS :: ulong where "SBI_SCRATCH_DEBUG_PRINTS \<equiv> 2"

definition sbi_dprintf :: "hartid \<Rightarrow> string \<Rightarrow> va list \<Rightarrow> machine \<Rightarrow> int run" where
  "sbi_dprintf h fmt args m =
     (if scr_options m h AND SBI_SCRATCH_DEBUG_PRINTS \<noteq> 0 then sbi_printf fmt args m else Ret 0 m)"

text \<open>The device is set once.\<close>

definition sbi_console_set_device :: "console_sys option \<Rightarrow> machine \<Rightarrow> machine" where
  "sbi_console_set_device dev m = (if dev = None \<or> m_con m \<noteq> None then m else m\<lparr>m_con := dev\<rparr>)"

definition sbi_console_init :: "(machine \<Rightarrow> int \<times> machine) option \<Rightarrow> machine \<Rightarrow> int \<times> machine" where
  "sbi_console_init console_init m = (case console_init of Some f \<Rightarrow> f m | None \<Rightarrow> (0, m))"


section \<open>The text that is emitted\<close>

lemma pad_loop_eq: "pad_loop n c (pc, out) = (pc + int n, fold printc (replicate n c) out)"
  by (induction n arbitrary: pc out) simp_all

lemma string_loop_eq: "string_loop s (pc, out) = (pc + int (length s), fold printc s out)"
  by (induction s arbitrary: pc out) simp_all

text \<open>A text padded to a width.\<close>

definition layout :: "string \<Rightarrow> int \<Rightarrow> u32 \<Rightarrow> string" where
  "layout s width flags =
     (let pad = replicate (nat (width - int (length s))) (if flags AND PAD_ZERO \<noteq> 0 then CHR ''0'' else CHR '' '')
      in if flags AND PAD_RIGHT = 0 then pad @ s else s @ pad)"

lemma prints_eq: "prints s width flags out = (int (length (layout s width flags)), fold printc (layout s width flags) out)"
proof -
  have n: "nat (if 0 < width then (if width \<le> int (length s) then 0 else width - int (length s)) else width) =
      nat (width - int (length s))" by auto
  show ?thesis
    unfolding prints_def layout_def Let_def n
    by (cases "0 < width") (auto simp: pad_loop_eq string_loop_eq)
qed

text \<open>An output function that does not depend on the destination: it fails everywhere or emits one text everywhere.\<close>

definition uniform :: "(out_dst \<Rightarrow> (int \<times> out_dst) option) \<Rightarrow> bool" where
  "uniform f \<longleftrightarrow> (\<forall>out. f out = None) \<or> (\<exists>t. \<forall>out. f out = Some (int (length t), fold printc t out))"

definition uniform_conv :: "(out_dst \<Rightarrow> print_st option) \<Rightarrow> bool" where
  "uniform_conv f \<longleftrightarrow> (\<forall>out. f out = None) \<or>
     (\<exists>r args acnt t. \<forall>out. f out = Some (r, fold printc t out, args, acnt, int (length t)))"

lemma uniform_const: "uniform (\<lambda>out. None)" "uniform_conv (\<lambda>out. None)"
  by (simp_all add: uniform_def uniform_conv_def)

lemma uniform_bind:
  "(\<And>x. o' = Some x \<Longrightarrow> uniform (f x)) \<Longrightarrow> uniform (\<lambda>out. Option.bind o' (\<lambda>x. f x out))"
  "(\<And>x. o' = Some x \<Longrightarrow> uniform_conv (g x)) \<Longrightarrow> uniform_conv (\<lambda>out. Option.bind o' (\<lambda>x. g x out))"
  by (cases o'; simp add: uniform_const)+

lemma uniform_if:
  "uniform f \<Longrightarrow> uniform g \<Longrightarrow> uniform (\<lambda>out. if c then f out else g out)"
  "uniform_conv f' \<Longrightarrow> uniform_conv g' \<Longrightarrow> uniform_conv (\<lambda>out. if c then f' out else g' out)"
  by (cases c; simp)+

lemma uniform_map_prints: "uniform (\<lambda>out. map_option (\<lambda>s. prints s width flags out) x)"
  by (cases x) (auto simp: uniform_def prints_eq)

lemma uniform_printi: "uniform (printi i b sg width flags letbase)"
proof -
  have neg: "uniform (\<lambda>out. let (pc, out) = prints s w f (printc c out) in Some (1 + pc, out))" for s w f c
    unfolding uniform_def by (intro disjI2 exI [of _ "c # layout s w f"]) (simp add: prints_eq)
  have "uniform (\<lambda>out. printi i b sg width flags letbase out)"
    unfolding printi_def Let_def [where 'a = bool] Let_def [where 'a = ulong]
    by (intro uniform_bind uniform_if neg uniform_map_prints)
  then show ?thesis by simp
qed

lemma uniform_conv_num: "uniform_conv (conv_num rd b sg l sz r width flags acnt args)"
proof -
  have "uniform_conv (\<lambda>out. conv_num rd b sg l sz r width flags acnt args out)"
    unfolding conv_num_def
  proof (rule uniform_bind(2), clarify)
    fix w args'
    show "uniform_conv (\<lambda>out. map_option (\<lambda>(n, out). (r, out, args', acnt + sz, n)) (printi (rd w) b sg width flags l out))"
      using uniform_printi [of "rd w" b sg width flags l] by (auto simp: uniform_def uniform_conv_def)
  qed
  then show ?thesis by simp
qed

lemma uniform_conv_text: "uniform_conv (\<lambda>out. Some (conv_text s sz r width flags acnt args out))"
  by (auto simp: uniform_conv_def conv_text_def prints_eq)

lemma uniform_conv_long: "uniform_conv (conv_long usz r width flags acnt args)"
  by (simp add: conv_long_def uniform_conv_num)

lemma uniform_conv_ll: "uniform_conv (conv_ll r width flags acnt args)"
  using uniform_bind(2) [of "va_align 2 acnt args" "\<lambda>(acnt, args). conv_long 8 r width flags acnt args"]
  by (simp add: conv_ll_def [abs_def] uniform_conv_long case_prod_unfold)

lemma uniform_conv_nothing: "uniform_conv (\<lambda>out. Some (r, out, args, acnt, 0))"
  unfolding uniform_conv_def by (intro disjI2 exI [of _ r] exI [of _ args] exI [of _ acnt] exI [of _ "[]"]) simp

lemma uniform_print_conv: "uniform_conv (print_conv fmt acnt args)"
proof -
  have chr: "uniform_conv (\<lambda>out. Option.bind (va_num args) (\<lambda>(w, args). Some (conv_text (f w) 4 r width flags acnt args out)))" for f r width flags
    using uniform_bind(2) [of "va_num args" "\<lambda>(w, args) out. Some (conv_text (f w) 4 r width flags acnt args out)"]
    by (simp add: uniform_conv_text case_prod_unfold)
  have str: "uniform_conv (\<lambda>out. case args of Va_str s # args \<Rightarrow> Some (conv_text (f s) 8 r width flags acnt args out) | _ \<Rightarrow> None)"
    for f r width flags
    by (cases args; cases "hd args") (simp_all add: uniform_const uniform_conv_text)
  obtain fl1 f1 where 1: "fmt_flag (CHR ''#'') PAD_ALTERNATE (fmt_flag (CHR ''-'') PAD_RIGHT (0, fmt)) = (fl1, f1)" by fastforce
  obtain fl2 f2 where 2: "fmt_zeros fl1 f1 = (fl2, f2)" by fastforce
  obtain w f3 where 3: "fmt_width 0 f2 = (w, f3)" by fastforce
  have "uniform_conv (\<lambda>out. print_conv fmt acnt args out)"
  proof (cases f3)
    case Nil
    then show ?thesis by (simp add: print_conv_def 1 2 3 uniform_const)
  next
    case (Cons c r)
    then show ?thesis
      by (simp only: print_conv_def 1 2 3 Let_def prod.case list.case)
        (intro uniform_if str chr uniform_conv_nothing uniform_conv_num uniform_conv_ll uniform_conv_long)
  qed
  then show ?thesis by simp
qed

lemma print_fmt_uniform:
  "(\<forall>out pc. print_fmt fmt acnt args pc out = None) \<or>
   (\<exists>t. \<forall>out pc. print_fmt fmt acnt args pc out = map_option (Pair (pc + int (length t))) (out_terminate (fold printc t out)))"
proof (induction "length fmt" arbitrary: fmt acnt args rule: less_induct)
  case less
  consider "fmt = [] \<or> fmt = ''%''" | c f where "fmt = c # f" "c \<noteq> CHR ''%''" | f where "fmt = CHR ''%'' # CHR ''%'' # f"
    | c f where "fmt = CHR ''%'' # c # f" "c \<noteq> CHR ''%''"
    by (cases fmt; cases "tl fmt") auto
  then show ?case
  proof cases
    case 1
    then show ?thesis by (intro disjI2 exI [of _ "[]"]) (auto simp: print_fmt.simps)
  next
    case (2 c f)
    have e: "print_fmt fmt acnt args pc out = print_fmt f acnt args (pc + 1) (printc c out)" for pc out
      using 2 by (subst print_fmt.simps) simp
    from 2 have "length f < length fmt" by simp
    from less [OF this, of acnt args] show ?thesis
    proof (elim disjE exE)
      fix t assume "\<forall>out pc. print_fmt f acnt args pc out = map_option (Pair (pc + int (length t))) (out_terminate (fold printc t out))"
      then show ?thesis by (intro disjI2 exI [of _ "c # t"]) (simp add: e add.assoc)
    qed (simp add: e)
  next
    case (3 f)
    have e: "print_fmt fmt acnt args pc out = print_fmt f acnt args (pc + 1) (printc (CHR ''%'') out)" for pc out
      using 3 by (subst print_fmt.simps) simp
    from 3 have "length f < length fmt" by simp
    from less [OF this, of acnt args] show ?thesis
    proof (elim disjE exE)
      fix t assume "\<forall>out pc. print_fmt f acnt args pc out = map_option (Pair (pc + int (length t))) (out_terminate (fold printc t out))"
      then show ?thesis by (intro disjI2 exI [of _ "CHR ''%'' # t"]) (simp add: e add.assoc)
    qed (simp add: e)
  next
    case (4 c f)
    have e: "print_fmt fmt acnt args pc out = (case print_conv (c # f) acnt args out of None \<Rightarrow> None
        | Some (fmt, out, args, acnt, n) \<Rightarrow> print_fmt fmt acnt args (pc + n) out)" for pc out
      using 4 by (subst print_fmt.simps) simp
    from uniform_print_conv [of "c # f" acnt args, unfolded uniform_conv_def] show ?thesis
    proof (elim disjE exE)
      fix r args' acnt' t
      assume c: "\<forall>out. print_conv (c # f) acnt args out = Some (r, fold printc t out, args', acnt', int (length t))"
      have "length r < length fmt" using print_conv_rest [OF c [rule_format, of undefined]] 4 by simp
      from less [OF this, of acnt' args'] show ?thesis
      proof (elim disjE exE)
        fix u assume "\<forall>out pc. print_fmt r acnt' args' pc out = map_option (Pair (pc + int (length u))) (out_terminate (fold printc u out))"
        then show ?thesis by (intro disjI2 exI [of _ "t @ u"]) (simp add: e c add.assoc)
      qed (simp add: e c)
    qed (simp add: e)
  qed
qed

lemma fold_printc_buffer: "fold printc t (Buffer (Some w) None) = Buffer (Some (w @ t)) None"
  by (induction t arbitrary: w) simp_all

lemma fold_printc_sized: "\<exists>n'. fold printc t (Buffer (Some w) (Some n)) = Buffer (Some (w @ t)) (Some n')"
proof (induction t arbitrary: w n)
  case (Cons c t)
  show ?case using Cons.IH [of "w @ [c]" "n - 1"] Cons.IH [of "w @ [c]" n] by simp
qed simp

lemma fold_printc_console: "fold printc t (Console m) = Console (sbi_puts t m)"
  by (induction t arbitrary: m) simp_all

text \<open>
  Formatted output is the same text whatever its destination: for every format and arguments either all of
  \<^verbatim>\<open>sbi_sprintf\<close>, \<^verbatim>\<open>sbi_snprintf\<close> and \<^verbatim>\<open>sbi_printf\<close> run into undefined behaviour, or there is one text that \<^verbatim>\<open>sbi_printf\<close> puts on the
  console character by character and the other two store followed by the terminator, and each returns its length. In
  particular the size given to \<^verbatim>\<open>sbi_snprintf\<close> does not limit what it stores.
\<close>

theorem print_destination_independent:
  "(sbi_sprintf fmt args = None \<and> (\<forall>sz. sbi_snprintf sz fmt args = None) \<and> (\<forall>m. sbi_printf fmt args m = Fault)) \<or>
   (\<exists>t. sbi_sprintf fmt args = Some (int (length t), Buffer (Some (t @ [char_of (0 :: nat)])) None) \<and>
      (\<forall>sz. \<exists>n. sbi_snprintf sz fmt args = Some (int (length t), Buffer (Some (t @ [char_of (0 :: nat)])) (Some n))) \<and>
      (\<forall>m. sbi_printf fmt args m = Ret (int (length t)) (sbi_puts t m)))"
  using print_fmt_uniform [of fmt 0 args]
proof (elim disjE exE)
  fix t assume t: "\<forall>out pc. print_fmt fmt 0 args pc out = map_option (Pair (pc + int (length t))) (out_terminate (fold printc t out))"
  have "\<exists>n. sbi_snprintf sz fmt args = Some (int (length t), Buffer (Some (t @ [char_of (0 :: nat)])) (Some n))" for sz
    using fold_printc_sized [of t "[]" sz] by (auto simp: sbi_snprintf_def t)
  then show ?thesis
    by (intro disjI2 exI [of _ t]) (simp add: sbi_sprintf_def sbi_printf_def t fold_printc_buffer fold_printc_console)
qed (simp add: sbi_sprintf_def sbi_snprintf_def sbi_printf_def)

section \<open>Numbers\<close>

definition digit_char :: "char \<Rightarrow> nat \<Rightarrow> char" where
  "digit_char letbase d = (if d < 10 then char_of (48 + d) else char_of (of_char letbase + (d - 10) :: nat))"

function numeral_str :: "nat \<Rightarrow> char \<Rightarrow> nat \<Rightarrow> string" where
  "numeral_str b letbase n =
     (if n < b \<or> b < 2 then [digit_char letbase n] else numeral_str b letbase (n div b) @ [digit_char letbase (n mod b)])"
  by pat_completeness auto
termination by (relation "measure (\<lambda>(_, _, n). n)") auto

declare numeral_str.simps [simp del]

definition digit_val :: "char \<Rightarrow> char \<Rightarrow> nat" where
  "digit_val letbase c = (if of_char c < (58 :: nat) then of_char c - 48 else of_char c - of_char letbase + 10)"

definition read_numeral :: "nat \<Rightarrow> char \<Rightarrow> string \<Rightarrow> nat" where
  "read_numeral b letbase s = foldl (\<lambda>n c. n * b + digit_val letbase c) 0 s"

text \<open>The bases and letters in use.\<close>

definition radix_ok :: "ulong \<Rightarrow> char \<Rightarrow> bool" where
  "radix_ok b letbase \<longleftrightarrow> (b = 10 \<and> letbase \<in> {CHR ''0'', CHR ''a''}) \<or> (b = 16 \<and> letbase \<in> {CHR ''a'', CHR ''A''})"

lemma digit_val_char:
  assumes "radix_ok b letbase" and "d < unat b" shows "digit_val letbase (digit_char letbase d) = d"
  using assms by (auto simp: digit_val_def digit_char_def radix_ok_def of_char_of)

lemma read_numeral_str:
  assumes "radix_ok b letbase" shows "read_numeral (unat b) letbase (numeral_str (unat b) letbase n) = n"
proof (induction n rule: less_induct)
  case (less n)
  have b: "\<not> unat b < 2" using assms by (auto simp: radix_ok_def)
  show ?case
  proof (cases "n < unat b")
    case True
    then show ?thesis by (subst numeral_str.simps) (simp add: read_numeral_def digit_val_char [OF assms])
  next
    case False
    then have "n div unat b < n" using b by simp
    from less [OF this] have "read_numeral (unat b) letbase (numeral_str (unat b) letbase (n div unat b)) = n div unat b" .
    moreover have "n mod unat b < unat b" using b by simp
    ultimately show ?thesis using False b
      by (subst numeral_str.simps) (simp add: read_numeral_def digit_val_char [OF assms])
  qed
qed


lemma digit_word:
  assumes "radix_ok b letbase" and "t < b"
  shows "char_of (unat ((if 10 \<le> t then t + (of_char letbase - 48 - 10) else t) + 48)) = digit_char letbase (unat t)"
proof -
  have t: "unat t < 16" using assms by (auto simp: radix_ok_def word_less_nat_alt)
  have le: "10 \<le> t \<longleftrightarrow> 10 \<le> unat t" by (simp add: word_le_nat_alt)
  show ?thesis
  proof (cases "10 \<le> t")
    case False
    then have "unat (t + 48) = unat t + 48" using t by (simp add: unat_word_ariths)
    then show ?thesis using False le by (simp add: digit_char_def add.commute)
  next
    case True
    have l: "of_char letbase = (97 :: nat) \<and> of_char letbase = (97 :: ulong) \<or> of_char letbase = (65 :: nat) \<and> of_char letbase = (65 :: ulong)"
      using assms True by (auto simp: radix_ok_def)
    have e: "t + (of_char letbase - 48 - 10) + 48 = (t - 10) + of_char letbase" by simp
    have "unat (t - 10) = unat t - 10" using True by (simp add: unat_sub)
    then have "unat ((t - 10) + of_char letbase) = of_char letbase + (unat t - 10)"
      using l t by (auto simp: unat_word_ariths)
    then show ?thesis using True le unfolding e [symmetric] by (simp add: digit_char_def)
  qed
qed

lemma print_digits_eq:
  assumes "radix_ok b letbase" and "unat u < unat b ^ k" and "k + length s \<le> 63" and "k \<le> n"
  shows "print_digits n b (of_char letbase) u s = Some ((if u = 0 then [] else numeral_str (unat b) letbase (unat u)) @ s)"
  using assms(2-4)
proof (induction k arbitrary: u s n)
  case 0
  then have "u = 0" by (simp add: unat_eq_zero)
  then show ?case by (cases n) simp_all
next
  case (Suc k)
  then obtain n' where n: "n = Suc n'" by (cases n) auto
  have b: "1 < unat b" "b \<noteq> 0" using assms(1) by (auto simp: radix_ok_def)
  show ?case
  proof (cases "u = 0")
    case False
    have "unat u div unat b < unat b ^ k" using Suc.prems(1) b by (simp add: less_mult_imp_div_less mult.commute)
    then have IH: "print_digits n' b (of_char letbase) (u div b) (d # s) =
        Some ((if u div b = 0 then [] else numeral_str (unat b) letbase (unat (u div b))) @ d # s)" for d
      using Suc.IH [of "u div b" "d # s" n'] Suc.prems n by (simp add: unat_div)
    have "u mod b < b" using b by (simp add: word_mod_less_divisor word_neq_0_conv)
    note digit_word [OF assms(1) this]
    moreover have "u div b = 0 \<longleftrightarrow> unat u < unat b" using b by (simp add: unat_eq_zero [symmetric] unat_div div_eq_0_iff)
    ultimately show ?thesis
      using False Suc.prems b IH by (auto simp: n push_front_def Let_def unat_mod unat_div numeral_str.simps [of _ _ "unat u"])
  qed (simp add: n)
qed

lemma numeral_str_length:
  assumes "radix_ok b letbase" and "n < unat b ^ Suc k" shows "length (numeral_str (unat b) letbase n) \<le> Suc k"
  using assms(2)
proof (induction k arbitrary: n)
  case 0
  then show ?case by (simp add: numeral_str.simps)
next
  case (Suc k)
  have "n div unat b < unat b ^ Suc k" using Suc.prems by (simp add: less_mult_imp_div_less mult.commute)
  from Suc.IH [OF this] show ?case by (subst numeral_str.simps) simp
qed

lemma unat_neg_sint: "i <s 0 \<Longrightarrow> unat (- i) = nat (- sint i)" for i :: ulong
proof -
  assume "i <s 0"
  then have s: "- (2 ^ 63) \<le> sint i" "sint i < 0" using sint_range_size [of i] by (simp_all add: word_sless_alt word_size)
  have "uint (- i) = uint (word_of_int (- sint i) :: ulong)" by (simp add: wi_hom_neg [symmetric] del: wi_hom_neg)
  also have "\<dots> = - sint i" using s by (simp only: uint_word_of_int) (simp add: mod_pos_pos_trivial)
  finally have "uint (- i) = - sint i" .
  then show ?thesis by (simp add: unat_eq_nat_uint)
qed


text \<open>The text of a number: its sign, the prefix of the alternate form and its numeral, padded.\<close>

definition int_format :: "ulong \<Rightarrow> ulong \<Rightarrow> bool \<Rightarrow> int \<Rightarrow> u32 \<Rightarrow> char \<Rightarrow> string" where
  "int_format i b sg width flags letbase =
     (let neg = (sg \<and> b = 10 \<and> sint i < 0);
          num = numeral_str (unat b) letbase (if neg then nat (- sint i) else unat i);
          pre = (if flags AND PAD_ALTERNATE = 0 then [] else if b = 16 then [CHR ''0'', if letbase = CHR ''A'' then CHR ''X'' else CHR ''x''] else ''0'')
      in if neg \<and> width \<noteq> 0 \<and> flags AND PAD_ZERO \<noteq> 0 then CHR ''-'' # layout (pre @ num) (width - 1) flags
         else layout ((if neg then ''-'' else []) @ pre @ num) width flags)"

lemma printi_digits:
  assumes "radix_ok b letbase"
  shows "(if u = 0 then push_front (CHR ''0'') [] else print_digits PRINT_BUF_LEN b (of_char letbase) u []) =
      Some (numeral_str (unat b) letbase (unat u))" (is ?digits)
    and "length (numeral_str (unat b) letbase (unat u)) \<le> 20" (is ?len)
proof -
  have "unat u < 10 ^ Suc 19" using unsigned_less [of u, where 'a = nat] by simp
  also have "\<dots> \<le> unat b ^ Suc 19" using assms by (auto simp: radix_ok_def)
  finally have u: "unat u < unat b ^ Suc 19" .
  show ?len using numeral_str_length [OF assms u] by simp
  have "char_of (48 :: nat) = CHR ''0''" by code_simp
  then have "numeral_str (unat b) letbase 0 = ''0''" using assms by (auto simp: numeral_str.simps digit_char_def radix_ok_def)
  then show ?digits using print_digits_eq [OF assms u, of "[]" 64] by (auto simp: push_front_def)
qed

text \<open>
  The conversion of numbers: for every 64-bit value, signed or unsigned, in the bases and letter cases the formats use,
  with any width and flags, \<^verbatim>\<open>printi\<close> never leaves its digit buffer and emits exactly the reference text, whose
  numeral reads back as the magnitude of the value, and it returns the length of that text.
\<close>

theorem printi_formats:
  assumes "radix_ok b letbase"
  shows "printi i b sg width flags letbase out =
      Some (int (length (int_format i b sg width flags letbase)), fold printc (int_format i b sg width flags letbase) out) \<and>
    read_numeral (unat b) letbase (numeral_str (unat b) letbase n) = n"
proof -
  define neg where "neg \<longleftrightarrow> sg \<and> b = 10 \<and> sint i < 0"
  define num where "num = numeral_str (unat b) letbase (if neg then nat (- sint i) else unat i)"
  define pre where "pre = (if flags AND PAD_ALTERNATE = 0 then []
    else if b = 16 then [CHR ''0'', if letbase = CHR ''A'' then CHR ''X'' else CHR ''x''] else ''0'')"
  have n: "(sg \<and> b = 10 \<and> i <s 0) = neg" by (simp add: neg_def word_sless_alt)
  have u: "unat (if neg then - i else i) = (if neg then nat (- sint i) else unat i)"
    using unat_neg_sint [of i] by (auto simp: neg_def word_sless_alt)
  note D = printi_digits [OF assms, of "if neg then - i else i", unfolded u, folded num_def]
  have P: "(if flags AND PAD_ALTERNATE \<noteq> 0
      then Option.bind (if b = 16 \<and> letbase = CHR ''A'' then push_front (CHR ''X'') num
                        else if b = 16 \<and> letbase = CHR ''a'' then push_front (CHR ''x'') num else Some num) (push_front (CHR ''0''))
      else Some num) = Some (pre @ num)"
    using assms D(2) by (auto simp: push_front_def pre_def radix_ok_def)
  have N: "(if neg then push_front (CHR ''-'') (pre @ num) else Some (pre @ num)) = Some ((if neg then ''-'' else []) @ pre @ num)"
    using D(2) by (auto simp: push_front_def pre_def)
  have "printi i b sg width flags letbase out =
      (if neg \<and> width \<noteq> 0 \<and> flags AND PAD_ZERO \<noteq> 0
       then let (pc, out) = prints (pre @ num) (width - 1) flags (printc (CHR ''-'') out) in Some (1 + pc, out)
       else Some (prints ((if neg then ''-'' else []) @ pre @ num) width flags out))"
    unfolding printi_def n Let_def [where 'a = bool] Let_def [where 'a = ulong] D(1) bind.bind_lunit P N by simp
  then show ?thesis
    using read_numeral_str [OF assms, of n] unfolding int_format_def Let_def neg_def [symmetric] num_def [symmetric] pre_def [symmetric]
    by (auto simp: prints_eq)
qed

theorem printi_formats_witness:
  "printi (- 42) 10 True 6 2 (CHR ''0'') (Buffer (Some []) None) = Some (6, Buffer (Some ''-00042'') None)"
proof -
  have r: "radix_ok 10 (CHR ''0'')" by (simp add: radix_ok_def)
  have "int_format (- 42) 10 True 6 2 (CHR ''0'') = ''-00042''" by code_simp
  then show ?thesis using printi_formats [OF r, of "- 42" True 6 2 "Buffer (Some []) None"] by (simp add: fold_printc_buffer)
qed

definition stored :: "(int \<times> out_dst) option \<Rightarrow> string" where
  "stored r = (case r of Some (n, Buffer (Some w) l) \<Rightarrow> w | _ \<Rightarrow> [])"

lemma print_examples:
  "stored (sbi_sprintf ''mepc=0x%016lx'' [Va_num 0x80001234]) = ''mepc=0x0000000080001234'' @ [char_of (0 :: nat)]"
  "stored (sbi_sprintf ''%s|%-4d|%c%%'' [Va_str None, Va_num 7, Va_num 65]) = ''(null)|7   |A%'' @ [char_of (0 :: nat)]"
  by code_simp+

text \<open>
  Behaviour of the code on formats that C defines differently: \<^verbatim>\<open>%ld\<close> and \<^verbatim>\<open>%lld\<close> leave their last letter in the output,
  \<^verbatim>\<open>%#d\<close> prefixes a zero, a \<^verbatim>\<open>%llx\<close> after a single \<^verbatim>\<open>%d\<close> skips one argument, and the size of \<^verbatim>\<open>sbi_snprintf\<close> is ignored.
\<close>

lemma print_divergences:
  "stored (sbi_sprintf ''%ld'' [Va_num 5]) = ''5d'' @ [char_of (0 :: nat)]"
  "stored (sbi_sprintf ''%lld'' [Va_num 5]) = ''5d'' @ [char_of (0 :: nat)]"
  "stored (sbi_sprintf ''%#d'' [Va_num 5]) = ''05'' @ [char_of (0 :: nat)]"
  "stored (sbi_sprintf ''%d %llx'' [Va_num 1, Va_num 2, Va_num 3]) = ''1 3'' @ [char_of (0 :: nat)]"
  "stored (sbi_snprintf 2 ''%s'' [Va_str (Some ''overflow'')]) = ''overflow'' @ [char_of (0 :: nat)]"
  by code_simp+

end
