(* ===== verification/Sbi_Ecall.thy ===== *)
theory Sbi_Ecall
  imports Sbi_System Sbi_Console Sbi_Emulate
begin

text \<open>
  Calls from the supervisor: the registry of extensions and the common handler (\<^verbatim>\<open>lib/sbi/sbi_ecall.c\<close>) and the handlers of the
  extensions (\<^verbatim>\<open>sbi_ecall_base.c\<close>, \<^verbatim>\<open>sbi_ecall_hsm.c\<close>, \<^verbatim>\<open>sbi_ecall_legacy.c\<close>, \<^verbatim>\<open>sbi_ecall_pmu.c\<close>, \<^verbatim>\<open>sbi_ecall_replace.c\<close>,
  \<^verbatim>\<open>sbi_ecall_vendor.c\<close>).

  A handler returns its error code together with the two objects it may write through pointers, the output value and
  the trap information.
\<close>

section \<open>The registry\<close>

definition ext_has :: "sbi_ecall_extension \<Rightarrow> ulong \<Rightarrow> bool" where
  "ext_has t extid \<longleftrightarrow> extid_start t \<le> extid \<and> extid \<le> extid_end t"

definition sbi_ecall_find_extension :: "ulong \<Rightarrow> ecall_sys \<Rightarrow> sbi_ecall_extension option" where
  "sbi_ecall_find_extension extid es = find (\<lambda>t. ext_has t extid) (ecall_exts_list es)"

definition exts_apart :: "sbi_ecall_extension \<Rightarrow> sbi_ecall_extension \<Rightarrow> bool" where
  "exts_apart t ext \<longleftrightarrow> extid_end t < extid_start ext \<or> extid_end ext < extid_start t"

definition sbi_ecall_register_extension :: "sbi_ecall_extension option \<Rightarrow> ecall_sys \<Rightarrow> int \<times> ecall_sys" where
  "sbi_ecall_register_extension ext es =
     (case ext of
        None \<Rightarrow> (SBI_EINVAL, es)
      | Some e \<Rightarrow>
          (if extid_end e < extid_start e \<or> ext_handle e = None then (SBI_EINVAL, es)
           else if \<exists>t \<in> set (ecall_exts_list es). \<not> exts_apart t e then (SBI_EINVAL, es)
           else (0, es\<lparr>ecall_exts_list := ecall_exts_list es @ [e]\<rparr>)))"

definition sbi_ecall_unregister_extension :: "nat option \<Rightarrow> ecall_sys \<Rightarrow> ecall_sys" where
  "sbi_ecall_unregister_extension ptr es =
     (case ptr of
        None \<Rightarrow> es
      | Some p \<Rightarrow> es\<lparr>ecall_exts_list := filter (\<lambda>t. ext_ptr t \<noteq> p) (ecall_exts_list es)\<rparr>)"

definition sbi_ecall_get_impid :: "ecall_sys \<Rightarrow> ulong" where
  "sbi_ecall_get_impid es = ecall_impid es"

definition sbi_ecall_set_impid :: "ulong \<Rightarrow> ecall_sys \<Rightarrow> ecall_sys" where
  "sbi_ecall_set_impid impid es = es\<lparr>ecall_impid := impid\<rparr>"

definition ecall_time :: sbi_ecall_extension where
  "ecall_time = \<lparr>ext_ptr = 0, extid_start = 0x54494D45, extid_end = 0x54494D45, ext_probe = None, ext_handle = Some Ecall_time_handler\<rparr>"

definition ecall_rfence :: sbi_ecall_extension where
  "ecall_rfence = \<lparr>ext_ptr = 1, extid_start = 0x52464E43, extid_end = 0x52464E43, ext_probe = None, ext_handle = Some Ecall_rfence_handler\<rparr>"

definition ecall_ipi :: sbi_ecall_extension where
  "ecall_ipi = \<lparr>ext_ptr = 2, extid_start = 0x735049, extid_end = 0x735049, ext_probe = None, ext_handle = Some Ecall_ipi_handler\<rparr>"

definition ecall_base :: sbi_ecall_extension where
  "ecall_base = \<lparr>ext_ptr = 3, extid_start = 0x10, extid_end = 0x10, ext_probe = None, ext_handle = Some Ecall_base_handler\<rparr>"

definition ecall_hsm :: sbi_ecall_extension where
  "ecall_hsm = \<lparr>ext_ptr = 4, extid_start = 0x48534D, extid_end = 0x48534D, ext_probe = None, ext_handle = Some Ecall_hsm_handler\<rparr>"

definition ecall_srst :: sbi_ecall_extension where
  "ecall_srst = \<lparr>ext_ptr = 5, extid_start = 0x53525354, extid_end = 0x53525354, ext_probe = Some Ecall_srst_probe,
     ext_handle = Some Ecall_srst_handler\<rparr>"

definition ecall_pmu :: sbi_ecall_extension where
  "ecall_pmu = \<lparr>ext_ptr = 6, extid_start = 0x504D55, extid_end = 0x504D55, ext_probe = Some Ecall_pmu_probe,
     ext_handle = Some Ecall_pmu_handler\<rparr>"

definition ecall_legacy :: sbi_ecall_extension where
  "ecall_legacy = \<lparr>ext_ptr = 7, extid_start = 0, extid_end = 8, ext_probe = None, ext_handle = Some Ecall_legacy_handler\<rparr>"

definition ecall_vendor :: sbi_ecall_extension where
  "ecall_vendor = \<lparr>ext_ptr = 8, extid_start = 0x09000000, extid_end = 0x09FFFFFF, ext_probe = Some Ecall_vendor_probe,
     ext_handle = Some Ecall_vendor_handler\<rparr>"

fun ecall_init_loop :: "sbi_ecall_extension list \<Rightarrow> ecall_sys \<Rightarrow> int \<times> ecall_sys" where
  "ecall_init_loop [] es = (0, es)"
| "ecall_init_loop (e # exts) es =
     (let (ret, es) = sbi_ecall_register_extension (Some e) es in if ret \<noteq> 0 then (ret, es) else ecall_init_loop exts es)"

definition std_extensions :: "sbi_ecall_extension list" where
  "std_extensions =
     [ecall_time, ecall_rfence, ecall_ipi, ecall_base, ecall_hsm, ecall_srst, ecall_pmu, ecall_legacy, ecall_vendor]"

definition sbi_ecall_init :: "ecall_sys \<Rightarrow> int \<times> ecall_sys" where
  "sbi_ecall_init es = ecall_init_loop std_extensions es"

section \<open>Handlers\<close>

type_synonym ecall_res = "int \<times> ulong \<times> sbi_trap_info"

abbreviation (input) CSR_MVENDORID :: nat where "CSR_MVENDORID \<equiv> 0xF11"
abbreviation (input) CSR_MARCHID :: nat where "CSR_MARCHID \<equiv> 0xF12"
abbreviation (input) CSR_MIMPID :: nat where "CSR_MIMPID \<equiv> 0xF13"

abbreviation a0 :: "sbi_trap_regs \<Rightarrow> ulong" where "a0 r \<equiv> gpr r 10"
abbreviation a1 :: "sbi_trap_regs \<Rightarrow> ulong" where "a1 r \<equiv> gpr r 11"
abbreviation a2 :: "sbi_trap_regs \<Rightarrow> ulong" where "a2 r \<equiv> gpr r 12"
abbreviation a3 :: "sbi_trap_regs \<Rightarrow> ulong" where "a3 r \<equiv> gpr r 13"
abbreviation a4 :: "sbi_trap_regs \<Rightarrow> ulong" where "a4 r \<equiv> gpr r 14"
abbreviation a6 :: "sbi_trap_regs \<Rightarrow> ulong" where "a6 r \<equiv> gpr r 16"
abbreviation a7 :: "sbi_trap_regs \<Rightarrow> ulong" where "a7 r \<equiv> gpr r 17"

text \<open>A 32-bit parameter, and the value of an \<^verbatim>\<open>int\<close> stored into an \<^verbatim>\<open>unsigned long\<close>.\<close>

definition as_u32 :: "ulong \<Rightarrow> u32" where
  "as_u32 w = ucast w"

definition sbi_ecall_time_handler :: "fw_ctx \<Rightarrow> hartid \<Rightarrow> ulong \<Rightarrow> sbi_trap_regs \<Rightarrow> ulong \<Rightarrow> sbi_trap_info \<Rightarrow> machine \<Rightarrow> ecall_res run" where
  "sbi_ecall_time_handler fx h funcid regs out trap m =
     (if funcid = 0 then Ret (0, out, trap) (sbi_timer_event_start (fx_plat fx) h (a0 regs) m)
      else Ret (SBI_ENOTSUPP, out, trap) m)"

definition tlb_call :: "fw_ctx \<Rightarrow> hartid \<Rightarrow> ulong \<Rightarrow> ulong \<Rightarrow> sbi_tlb_info \<Rightarrow> ulong \<Rightarrow> sbi_trap_info \<Rightarrow> machine \<Rightarrow> ecall_res run" where
  "tlb_call fx h hmask hbase t out trap m = run_bind (sbi_tlb_request (fw_cb fx) h hmask hbase t m) (\<lambda>ret m. Ret (ret, out, trap) m)"

definition hgatp_vmid :: "hartid \<Rightarrow> machine \<Rightarrow> ulong" where
  "hgatp_vmid h m = drop_bit HGATP_VMID_SHIFT (h_csr m h CSR_HGATP AND HGATP_VMID_MASK)"

definition sbi_ecall_rfence_handler :: "fw_ctx \<Rightarrow> hartid \<Rightarrow> ulong \<Rightarrow> sbi_trap_regs \<Rightarrow> ulong \<Rightarrow> sbi_trap_info \<Rightarrow> machine \<Rightarrow> ecall_res run" where
  "sbi_ecall_rfence_handler fx h funcid regs out trap m =
     (let req = (\<lambda>t. tlb_call fx h (a0 regs) (a1 regs) t out trap m)
      in if 3 \<le> funcid \<and> funcid \<le> 6 \<and> \<not> misa_extension (p_ext (fx_plat fx)) CHR ''H'' (h_csr m h) then Ret (SBI_ENOTSUPP, out, trap) m
         else if funcid = 0 then req (SBI_TLB_INFO_INIT 0 0 0 0 Local_fence_i h)
         else if funcid = 4 then req (SBI_TLB_INFO_INIT (a2 regs) (a3 regs) 0 0 Local_hfence_gvma h)
         else if funcid = 3 then req (SBI_TLB_INFO_INIT (a2 regs) (a3 regs) 0 (a4 regs) Local_hfence_gvma_vmid h)
         else if funcid = 6 then req (SBI_TLB_INFO_INIT (a2 regs) (a3 regs) 0 (hgatp_vmid h m) Local_hfence_vvma h)
         else if funcid = 5 then req (SBI_TLB_INFO_INIT (a2 regs) (a3 regs) (a4 regs) (hgatp_vmid h m) Local_hfence_vvma_asid h)
         else if funcid = 1 then req (SBI_TLB_INFO_INIT (a2 regs) (a3 regs) 0 0 Local_sfence_vma h)
         else if funcid = 2 then req (SBI_TLB_INFO_INIT (a2 regs) (a3 regs) (a4 regs) 0 Local_sfence_vma_asid h)
         else Ret (SBI_ENOTSUPP, out, trap) m)"

definition sbi_ecall_ipi_handler :: "fw_ctx \<Rightarrow> hartid \<Rightarrow> ulong \<Rightarrow> sbi_trap_regs \<Rightarrow> ulong \<Rightarrow> sbi_trap_info \<Rightarrow> machine \<Rightarrow> ecall_res run" where
  "sbi_ecall_ipi_handler fx h funcid regs out trap m =
     (if funcid = 0 then run_bind (sbi_ipi_send_smode (fw_cb fx) h (a0 regs) (a1 regs) m) (\<lambda>ret m. Ret (ret, out, trap) m)
      else Ret (SBI_ENOTSUPP, out, trap) m)"

definition sbi_ecall_srst_handler :: "fw_ctx \<Rightarrow> hartid \<Rightarrow> ulong \<Rightarrow> sbi_trap_regs \<Rightarrow> ulong \<Rightarrow> sbi_trap_info \<Rightarrow> machine \<Rightarrow> ecall_res run" where
  "sbi_ecall_srst_handler fx h funcid regs out trap m =
     (if funcid \<noteq> 0 then Ret (SBI_ENOTSUPP, out, trap) m
      else if 0xFFFFFFFF \<le> a0 regs \<or> 0xFFFFFFFF \<le> a1 regs then Ret (SBI_EINVAL, out, trap) m
      else if a0 regs \<noteq> 0 \<and> a0 regs \<noteq> 1 \<and> a0 regs \<noteq> 2 then Ret (SBI_EINVAL, out, trap) m
      else if a1 regs \<noteq> 0 \<and> a1 regs \<noteq> 1 then Ret (SBI_EINVAL, out, trap) m
      else if sbi_system_reset_supported (as_u32 (a0 regs)) (as_u32 (a1 regs)) m
      then run_bind (sbi_system_reset fx h (as_u32 (a0 regs)) (as_u32 (a1 regs)) m) (\<lambda>_ m. Fault)
      else Ret (SBI_ENOTSUPP, out, trap) m)"

definition sbi_ecall_srst_probe :: "machine \<Rightarrow> ulong" where
  "sbi_ecall_srst_probe m = (if \<exists>ty \<in> {0, 1, 2}. sbi_system_reset_supported ty 0 m then 1 else 0)"

definition sbi_ecall_pmu_probe :: "hartid \<Rightarrow> machine \<Rightarrow> ulong" where
  "sbi_ecall_pmu_probe h m = (if sbi_hart_has_feature (h_feat m h) SBI_HART_HAS_MCOUNTINHIBIT then 1 else 0)"

definition sbi_ecall_vendor_probe :: "fw_ctx \<Rightarrow> ulong \<Rightarrow> ulong" where
  "sbi_ecall_vendor_probe fx extid = word_of_int (sbi_platform_vendor_ext_check (fx_ops fx) extid)"

fun call_probe :: "ecall_probe \<Rightarrow> fw_ctx \<Rightarrow> hartid \<Rightarrow> ulong \<Rightarrow> machine \<Rightarrow> ulong" where
  "call_probe Ecall_srst_probe fx h extid m = sbi_ecall_srst_probe m"
| "call_probe Ecall_pmu_probe fx h extid m = sbi_ecall_pmu_probe h m"
| "call_probe Ecall_vendor_probe fx h extid m = sbi_ecall_vendor_probe fx extid"

definition sbi_ecall_base_probe :: "fw_ctx \<Rightarrow> hartid \<Rightarrow> ulong \<Rightarrow> machine \<Rightarrow> ulong" where
  "sbi_ecall_base_probe fx h extid m =
     (case sbi_ecall_find_extension extid (m_ecall m) of
        None \<Rightarrow> 0
      | Some ext \<Rightarrow> (case ext_probe ext of Some probe \<Rightarrow> call_probe probe fx h extid m | None \<Rightarrow> 1))"

definition sbi_ecall_base_handler :: "fw_ctx \<Rightarrow> hartid \<Rightarrow> ulong \<Rightarrow> sbi_trap_regs \<Rightarrow> ulong \<Rightarrow> sbi_trap_info \<Rightarrow> machine \<Rightarrow> ecall_res run" where
  "sbi_ecall_base_handler fx h funcid regs out trap m =
     (if funcid = 0 then Ret (0, (push_bit 24 0 AND push_bit 24 0x7f) OR 3, trap) m
      else if funcid = 1 then Ret (0, sbi_ecall_get_impid (m_ecall m), trap) m
      else if funcid = 2 then Ret (0, push_bit 16 0 OR 9, trap) m
      else if funcid = 4 then Ret (0, h_csr m h CSR_MVENDORID, trap) m
      else if funcid = 5 then Ret (0, h_csr m h CSR_MARCHID, trap) m
      else if funcid = 6 then Ret (0, h_csr m h CSR_MIMPID, trap) m
      else if funcid = 3 then Ret (0, sbi_ecall_base_probe fx h (a0 regs) m, trap) m
      else Ret (SBI_ENOTSUPP, out, trap) m)"

text \<open>The handler of the hart state extension returns a non-negative result in the output value.\<close>

definition split_result :: "ulong \<Rightarrow> sbi_trap_info \<Rightarrow> int \<Rightarrow> machine \<Rightarrow> ecall_res run" where
  "split_result out trap ret m = (if 0 \<le> ret then Ret (0, word_of_int ret, trap) m else Ret (ret, out, trap) m)"

definition sbi_ecall_hsm_handler :: "fw_ctx \<Rightarrow> hartid \<Rightarrow> ulong \<Rightarrow> sbi_trap_regs \<Rightarrow> ulong \<Rightarrow> sbi_trap_info \<Rightarrow> machine \<Rightarrow> ecall_res run" where
  "sbi_ecall_hsm_handler fx h funcid regs out trap m =
     (let smode = drop_bit 11 (h_csr m h CSR_MSTATUS AND 0x1800);
          dm = sbi_domain_thishart h m
      in run_bind
           (if funcid = 0
            then run_opt (sbi_hsm_hart_start (fx_plat fx) dm (unat (as_u32 (a0 regs))) (a1 regs) smode (a2 regs) m)
            else if funcid = 1 then sbi_hsm_hart_stop (sbi_exit fx h) h True m
            else if funcid = 2
            then (case sbi_hsm_hart_get_state dm (unat (as_u32 (a0 regs))) m of None \<Rightarrow> Fault | Some ret \<Rightarrow> Ret ret m)
            else if funcid = 3 then sbi_hsm_hart_suspend (fx_plat fx) h (ucast (as_u32 (a0 regs))) (a1 regs) smode (a2 regs) m
            else Ret SBI_ENOTSUPP m)
           (split_result out trap))"

text \<open>Calls into the counters, which work on the shared tables and the CSRs of the hart.\<close>

definition pmu_call :: "hartid \<Rightarrow> (pmu_st \<Rightarrow> (int \<times> pmu_st) option) \<Rightarrow> machine \<Rightarrow> int run" where
  "pmu_call h f m =
     (case f (m_pmu m, h_csr m h) of
        None \<Rightarrow> Fault
      | Some (ret, p, c) \<Rightarrow> Ret ret (m\<lparr>m_pmu := p, h_csr := (h_csr m)(h := c)\<rparr>))"

definition opt_out :: "ulong \<Rightarrow> ulong option \<Rightarrow> ulong" where
  "opt_out out v = (case v of Some v \<Rightarrow> v | None \<Rightarrow> out)"

definition sbi_ecall_pmu_handler :: "fw_ctx \<Rightarrow> hartid \<Rightarrow> ulong \<Rightarrow> sbi_trap_regs \<Rightarrow> ulong \<Rightarrow> sbi_trap_info \<Rightarrow> machine \<Rightarrow> ecall_res run" where
  "sbi_ecall_pmu_handler fx h funcid regs out trap m =
     (let hw = p_hw (fx_plat fx); xlate = sbi_platform_pmu_xlate_to_mhpmevent (fx_ops fx)
      in if funcid = 0 then split_result out trap (int (sbi_pmu_num_ctr (m_pmu m))) m
         else if funcid = 1
         then (let (ret, v) = sbi_pmu_ctr_get_info (h_feat m h) (unat (as_u32 (a0 regs))) (m_pmu m) in Ret (ret, opt_out out v, trap) m)
         else if funcid = 2
         then run_bind (pmu_call h (sbi_pmu_ctr_cfg_match hw xlate h (unat (a0 regs)) (a1 regs) (a2 regs) (a3 regs) (a4 regs)) m)
                (split_result out trap)
         else if funcid = 5
         then (case sbi_pmu_ctr_read h (unat (as_u32 (a0 regs))) (m_pmu m, h_csr m h) of
                 None \<Rightarrow> Fault
               | Some (ret, v) \<Rightarrow> Ret (ret, opt_out out v, trap) m)
         else if funcid = 3
         then run_bind (pmu_call h (sbi_pmu_ctr_start hw h (unat (a0 regs)) (a1 regs) (a2 regs) (a3 regs)) m) (\<lambda>ret m. Ret (ret, out, trap) m)
         else if funcid = 4
         then run_bind (pmu_call h (sbi_pmu_ctr_stop hw h (unat (a0 regs)) (a1 regs) (a2 regs)) m) (\<lambda>ret m. Ret (ret, out, trap) m)
         else Ret (SBI_ENOTSUPP, out, trap) m)"

section \<open>Legacy and vendor calls\<close>

text \<open>The hart mask of a legacy call is read from the memory of the caller, who may trap; a null pointer means all harts.\<close>

definition sbi_load_hart_mask_unpriv :: "fw_ctx \<Rightarrow> hartid \<Rightarrow> ulong \<Rightarrow> machine \<Rightarrow> (sbi_trap_info + ulong) run" where
  "sbi_load_hart_mask_unpriv fx h pmask m =
     (if pmask \<noteq> 0 then Ret (sbi_load_ulong (fx_plat fx) pmask m) m
      else case sbi_hsm_hart_interruptible_mask (sbi_domain_thishart h m) 0 m of
             None \<Rightarrow> Fault
           | Some (_, hmask) \<Rightarrow> Ret (Inr hmask) m)"

definition with_hart_mask ::
  "fw_ctx \<Rightarrow> hartid \<Rightarrow> ulong \<Rightarrow> ulong \<Rightarrow> sbi_trap_info \<Rightarrow> (ulong \<Rightarrow> machine \<Rightarrow> ecall_res run) \<Rightarrow> machine \<Rightarrow> ecall_res run" where
  "with_hart_mask fx h pmask out trap f m =
     run_bind (sbi_load_hart_mask_unpriv fx h pmask m) (\<lambda>r m.
       case r of Inl uptrap \<Rightarrow> Ret (SBI_ETRAP, out, uptrap) m | Inr hmask \<Rightarrow> f hmask m)"

definition sbi_ecall_legacy_handler :: "fw_ctx \<Rightarrow> hartid \<Rightarrow> ulong \<Rightarrow> sbi_trap_regs \<Rightarrow> ulong \<Rightarrow> sbi_trap_info \<Rightarrow> machine \<Rightarrow> ecall_res run" where
  "sbi_ecall_legacy_handler fx h extid regs out trap m =
     (let masked = (\<lambda>f. with_hart_mask fx h (a0 regs) out trap f m)
      in if extid = 0 then Ret (0, out, trap) (sbi_timer_event_start (fx_plat fx) h (a0 regs) m)
         else if extid = 1 then Ret (0, out, trap) (sbi_putc (char_of (unat (ucast (a0 regs) :: u8))) m)
         else if extid = 2 then (let (ret, m) = sbi_getc m in Ret (ret, out, trap) m)
         else if extid = 3 then Ret (0, out, trap) (sbi_ipi_clear_smode (fx_plat fx) h m)
         else if extid = 4
         then masked (\<lambda>hmask m. run_bind (sbi_ipi_send_smode (fw_cb fx) h hmask 0 m) (\<lambda>ret m. Ret (ret, out, trap) m))
         else if extid = 5 then masked (\<lambda>hmask. tlb_call fx h hmask 0 (SBI_TLB_INFO_INIT 0 0 0 0 Local_fence_i h) out trap)
         else if extid = 6
         then masked (\<lambda>hmask. tlb_call fx h hmask 0 (SBI_TLB_INFO_INIT (a1 regs) (a2 regs) 0 0 Local_sfence_vma h) out trap)
         else if extid = 7
         then masked (\<lambda>hmask. tlb_call fx h hmask 0 (SBI_TLB_INFO_INIT (a1 regs) (a2 regs) (a3 regs) 0 Local_sfence_vma_asid h) out trap)
         else if extid = 8 then run_bind (sbi_system_reset fx h 0 0 m) (\<lambda>_ m. Fault)
         else Ret (SBI_ENOTSUPP, out, trap) m)"

definition sbi_ecall_vendor_handler ::
  "fw_ctx \<Rightarrow> ulong \<Rightarrow> ulong \<Rightarrow> sbi_trap_regs \<Rightarrow> ulong \<Rightarrow> sbi_trap_info \<Rightarrow> machine \<Rightarrow> ecall_res run" where
  "sbi_ecall_vendor_handler fx extid funcid regs out trap m =
     (let (r, m) = sbi_platform_vendor_ext_provider (fx_ops fx) extid funcid (gpr regs) out trap m in Ret r m)"

section \<open>The common handler\<close>

fun call_handle ::
  "ecall_handle \<Rightarrow> fw_ctx \<Rightarrow> hartid \<Rightarrow> ulong \<Rightarrow> ulong \<Rightarrow> sbi_trap_regs \<Rightarrow> ulong \<Rightarrow> sbi_trap_info \<Rightarrow> machine \<Rightarrow> ecall_res run" where
  "call_handle Ecall_time_handler fx h extid funcid regs out trap m = sbi_ecall_time_handler fx h funcid regs out trap m"
| "call_handle Ecall_rfence_handler fx h extid funcid regs out trap m = sbi_ecall_rfence_handler fx h funcid regs out trap m"
| "call_handle Ecall_ipi_handler fx h extid funcid regs out trap m = sbi_ecall_ipi_handler fx h funcid regs out trap m"
| "call_handle Ecall_base_handler fx h extid funcid regs out trap m = sbi_ecall_base_handler fx h funcid regs out trap m"
| "call_handle Ecall_hsm_handler fx h extid funcid regs out trap m = sbi_ecall_hsm_handler fx h funcid regs out trap m"
| "call_handle Ecall_srst_handler fx h extid funcid regs out trap m = sbi_ecall_srst_handler fx h funcid regs out trap m"
| "call_handle Ecall_pmu_handler fx h extid funcid regs out trap m = sbi_ecall_pmu_handler fx h funcid regs out trap m"
| "call_handle Ecall_legacy_handler fx h extid funcid regs out trap m = sbi_ecall_legacy_handler fx h extid regs out trap m"
| "call_handle Ecall_vendor_handler fx h extid funcid regs out trap m = sbi_ecall_vendor_handler fx extid funcid regs out trap m"

definition no_trap :: sbi_trap_info where
  "no_trap = \<lparr>ti_epc = 0, ti_cause = 0, ti_tval = 0, ti_tval2 = 0, ti_tinst = 0\<rparr>"

definition newline :: string where
  "newline = [char_of (10 :: nat)]"

text \<open>The error code for the caller; codes below the last one that the interface knows are reported and replaced.\<close>

definition ecall_error :: "int \<Rightarrow> ulong \<Rightarrow> ulong \<Rightarrow> machine \<Rightarrow> int run" where
  "ecall_error ret extension_id func_id m =
     (if ret < SBI_LAST_ERR
      then run_bind (sbi_printf (''%s: Invalid error %d for ext=0x%lx func=0x%lx'' @ newline)
             [Va_str (Some ''sbi_ecall_handler''), Va_num (word_of_int ret), Va_num extension_id, Va_num func_id] m) (\<lambda>_ m. Ret (- 1) m)
      else Ret ret m)"

text \<open>What the handler does with the result of the extension, which it keeps in an \<^verbatim>\<open>int\<close>.\<close>

definition ecall_return :: "fw_ctx \<Rightarrow> hartid \<Rightarrow> bool \<Rightarrow> sbi_trap_regs \<Rightarrow> ecall_res \<Rightarrow> machine \<Rightarrow> (int \<times> sbi_trap_regs) run" where
  "ecall_return fx h is_0_1_spec regs res m =
     (case res of (r, out_val, trap) \<Rightarrow> let ret = int32 r in
        (if ret = SBI_ETRAP
         then (let (_, regs, m) = redirect (fx_plat fx) h (trap\<lparr>ti_epc := r_mepc regs\<rparr>) regs m in Ret (0, regs) m)
         else run_bind (ecall_error ret (a7 regs) (a6 regs) m) (\<lambda>ret m.
              let g = (gpr regs)(10 := word_of_int ret)
              in Ret (0, regs\<lparr>r_mepc := r_mepc regs + 4, gpr := if is_0_1_spec then g else g(11 := out_val)\<rparr>) m)))"

definition sbi_ecall_handler :: "fw_ctx \<Rightarrow> hartid \<Rightarrow> sbi_trap_regs \<Rightarrow> machine \<Rightarrow> (int \<times> sbi_trap_regs) run" where
  "sbi_ecall_handler fx h regs m =
     (let extension_id = a7 regs; func_id = a6 regs;
          ext = sbi_ecall_find_extension extension_id (m_ecall m);
          handle = Option.bind ext ext_handle
      in case handle of
           Some f \<Rightarrow> run_bind (call_handle f fx h extension_id func_id regs 0 no_trap m)
                      (ecall_return fx h (0 \<le> extension_id \<and> extension_id \<le> 8) regs)
         | None \<Rightarrow> ecall_return fx h False regs (SBI_ENOTSUPP, 0, no_trap) m)"

section \<open>Registered extensions\<close>

text \<open>
  What the callers of a registry rely on: a registration that succeeds makes exactly the ids of the new extension
  find it and had to find them free, one that fails changes nothing.
\<close>

locale ext_registry =
  fixes look :: "ulong \<Rightarrow> 's \<Rightarrow> 'e option" and reg :: "'e \<Rightarrow> 's \<Rightarrow> int \<times> 's" and covers :: "'e \<Rightarrow> ulong \<Rightarrow> bool" and inv :: "'s \<Rightarrow> bool"
  assumes reg_inv: "inv s \<Longrightarrow> reg e s = (r, s') \<Longrightarrow> inv s'"
    and reg_look: "inv s \<Longrightarrow> reg e s = (0, s') \<Longrightarrow> look i s' = (if covers e i then Some e else look i s)"
    and reg_free: "inv s \<Longrightarrow> reg e s = (0, s') \<Longrightarrow> covers e i \<Longrightarrow> look i s = None"
    and reg_fail: "reg e s = (r, s') \<Longrightarrow> r \<noteq> 0 \<Longrightarrow> s' = s"
begin

lemma reg_order:
  assumes "inv s" "reg e s = (0, s1)" "reg f s1 = (0, s2)" "reg f s = (0, t1)" "reg e t1 = (0, t2)"
  shows "look i s2 = look i t2"
proof -
  have i: "inv s1" "inv t1" using assms reg_inv by blast+
  have "\<not> (covers e i \<and> covers f i)" using reg_free [OF i(1) assms(3)] reg_look [OF assms(1,2), of i] by auto
  then show ?thesis using reg_look [OF assms(1,2)] reg_look [OF i(1) assms(3)] reg_look [OF assms(1,4)] reg_look [OF i(2) assms(5)] by auto
qed

lemma reg_twice: "inv s \<Longrightarrow> reg e s = (0, s1) \<Longrightarrow> covers e i \<Longrightarrow> reg e s1 = (r, s2) \<Longrightarrow> r \<noteq> 0 \<and> s2 = s1"
  using reg_inv reg_look [of s e s1 i] reg_free [of s1 e s2 i] reg_fail [of e s1 r s2] by force

end

definition exts_ok :: "ecall_sys \<Rightarrow> bool" where
  "exts_ok es \<longleftrightarrow> (\<forall>t \<in> set (ecall_exts_list es). extid_start t \<le> extid_end t \<and> ext_handle t \<noteq> None) \<and>
     sorted_wrt exts_apart (ecall_exts_list es)"

lemma exts_apart_not_both: "exts_apart t e \<Longrightarrow> \<not> (ext_has t i \<and> ext_has e i)"
  by (auto simp: exts_apart_def ext_has_def)

lemma find_append: "find P (xs @ ys) = (case find P xs of None \<Rightarrow> find P ys | r \<Rightarrow> r)"
  by (induction xs) auto

lemma register_cases:
  assumes "sbi_ecall_register_extension (Some e) es = (r, es')"
  shows "r = 0 \<and> extid_start e \<le> extid_end e \<and> ext_handle e \<noteq> None \<and> (\<forall>t \<in> set (ecall_exts_list es). exts_apart t e) \<and>
      es' = es\<lparr>ecall_exts_list := ecall_exts_list es @ [e]\<rparr> \<or> r = SBI_EINVAL \<and> es' = es"
  using assms by (auto simp: sbi_ecall_register_extension_def split: if_splits)

lemma exts_ok_find:
  assumes "exts_ok es"
  shows "sbi_ecall_find_extension i es = Some t \<longleftrightarrow> t \<in> set (ecall_exts_list es) \<and> ext_has t i"
proof -
  have "sorted_wrt exts_apart l \<Longrightarrow> find (\<lambda>t. ext_has t i) l = Some t \<longleftrightarrow> t \<in> set l \<and> ext_has t i" for l
    by (induction l) (auto dest: exts_apart_not_both)
  then show ?thesis using assms by (simp add: exts_ok_def sbi_ecall_find_extension_def)
qed

interpretation er: ext_registry sbi_ecall_find_extension "\<lambda>e. sbi_ecall_register_extension (Some e)" ext_has exts_ok
proof
  fix s e r s' assume "exts_ok s" "sbi_ecall_register_extension (Some e) s = (r, s')"
  then show "exts_ok s'" using register_cases [of e s r s'] by (auto simp: exts_ok_def sorted_wrt_append)
next
  fix s e s' i assume s: "exts_ok s" and "sbi_ecall_register_extension (Some e) s = (0, s')"
  then have r: "\<forall>t \<in> set (ecall_exts_list s). exts_apart t e" "s' = s\<lparr>ecall_exts_list := ecall_exts_list s @ [e]\<rparr>"
    using register_cases [of e s 0 s'] by auto
  have n: "sbi_ecall_find_extension i s = None" if "ext_has e i"
    using r(1) that by (auto simp: sbi_ecall_find_extension_def find_None_iff dest: exts_apart_not_both)
  then show "sbi_ecall_find_extension i s' = (if ext_has e i then Some e else sbi_ecall_find_extension i s)"
    using r(2) by (auto simp: sbi_ecall_find_extension_def find_append split: option.split)
  show "ext_has e i \<Longrightarrow> sbi_ecall_find_extension i s = None" by (rule n)
next
  fix e s r s' assume "sbi_ecall_register_extension (Some e) s = (r, s')" "r \<noteq> 0"
  then show "s' = s" using register_cases [of e s r s'] by auto
qed

lemma unregister_find:
  assumes "exts_ok es"
  shows "sbi_ecall_find_extension i (sbi_ecall_unregister_extension (Some p) es) =
    (case sbi_ecall_find_extension i es of Some t \<Rightarrow> if ext_ptr t = p then None else Some t | None \<Rightarrow> None)"
proof -
  have none: "find (\<lambda>t. ext_has t i) l = None" if "\<forall>x \<in> set l. exts_apart a x" "ext_has a i" for a l
    using that by (auto simp: find_None_iff dest: exts_apart_not_both)
  have "sorted_wrt exts_apart l \<Longrightarrow> find (\<lambda>t. ext_has t i) (filter (\<lambda>t. ext_ptr t \<noteq> p) l) =
    (case find (\<lambda>t. ext_has t i) l of Some t \<Rightarrow> if ext_ptr t = p then None else Some t | None \<Rightarrow> None)" for l
    by (induction l) (auto simp: none)
  then show ?thesis using assms by (simp add: exts_ok_def sbi_ecall_find_extension_def sbi_ecall_unregister_extension_def)
qed

text \<open>
  The registry of extensions: registration and removal keep the ranges of the registered extensions
  disjoint and every extension callable. A registration that succeeds makes exactly the ids of the new extension find
  it and leaves the result for every other id, one that fails changes nothing, and a removal takes away exactly the ids of
  the removed structure. The order of two successful registrations has no influence on what is found.
\<close>

theorem ecall_registry_sound:
  assumes "exts_ok es" and "sbi_ecall_register_extension (Some e) es = (r, es')"
  shows "exts_ok es' \<and> exts_ok (sbi_ecall_unregister_extension p es) \<and>
    (r \<noteq> 0 \<longrightarrow> es' = es) \<and>
    (r = 0 \<longrightarrow> (\<forall>i. sbi_ecall_find_extension i es' = (if ext_has e i then Some e else sbi_ecall_find_extension i es))) \<and>
    (\<forall>i q. sbi_ecall_find_extension i (sbi_ecall_unregister_extension (Some q) es) =
      (case sbi_ecall_find_extension i es of Some t \<Rightarrow> if ext_ptr t = q then None else Some t | None \<Rightarrow> None)) \<and>
    (\<forall>f s2 t1 t2 i. r = 0 \<and> sbi_ecall_register_extension (Some f) es' = (0, s2) \<and> sbi_ecall_register_extension (Some f) es = (0, t1) \<and>
       sbi_ecall_register_extension (Some e) t1 = (0, t2) \<longrightarrow> sbi_ecall_find_extension i s2 = sbi_ecall_find_extension i t2)"
proof (intro conjI)
  show "exts_ok es'" using er.reg_inv assms .
  show "exts_ok (sbi_ecall_unregister_extension p es)"
    using assms(1) by (auto simp: exts_ok_def sbi_ecall_unregister_extension_def sorted_wrt_filter split: option.split)
  show "r \<noteq> 0 \<longrightarrow> es' = es" using er.reg_fail [OF assms(2)] by blast
  show "r = 0 \<longrightarrow> (\<forall>i. sbi_ecall_find_extension i es' = (if ext_has e i then Some e else sbi_ecall_find_extension i es))"
    using er.reg_look [OF assms(1)] assms(2) by blast
  show "\<forall>i q. sbi_ecall_find_extension i (sbi_ecall_unregister_extension (Some q) es) =
      (case sbi_ecall_find_extension i es of Some t \<Rightarrow> if ext_ptr t = q then None else Some t | None \<Rightarrow> None)"
    using unregister_find [OF assms(1)] by blast
  show "\<forall>f s2 t1 t2 i. r = 0 \<and> sbi_ecall_register_extension (Some f) es' = (0, s2) \<and> sbi_ecall_register_extension (Some f) es = (0, t1) \<and>
       sbi_ecall_register_extension (Some e) t1 = (0, t2) \<longrightarrow> sbi_ecall_find_extension i s2 = sbi_ecall_find_extension i t2"
    using er.reg_order [OF assms(1)] assms(2) by blast
qed

definition ecall_boot :: ecall_sys where
  "ecall_boot = \<lparr>ecall_impid = 1, ecall_exts_list = []\<rparr>"

theorem ecall_registry_sound_witness:
  "exts_ok (snd (sbi_ecall_register_extension (Some ecall_time) ecall_boot)) \<and>
    sbi_ecall_find_extension 0x54494D45 (snd (sbi_ecall_register_extension (Some ecall_time) ecall_boot)) = Some ecall_time"
proof -
  have "exts_ok ecall_boot" by (simp add: exts_ok_def ecall_boot_def)
  moreover have r: "sbi_ecall_register_extension (Some ecall_time) ecall_boot = (0, \<lparr>ecall_impid = 1, ecall_exts_list = [ecall_time]\<rparr>)"
    by (simp add: sbi_ecall_register_extension_def ecall_boot_def ecall_time_def)
  moreover have "ext_has ecall_time 0x54494D45" by code_simp
  ultimately show ?thesis using ecall_registry_sound [of ecall_boot ecall_time] by simp
qed

section \<open>Dispatch\<close>

lemma std_extensions_apart: "sorted_wrt exts_apart std_extensions" "\<forall>t \<in> set std_extensions. extid_start t \<le> extid_end t \<and> ext_handle t \<noteq> None"
  by code_simp+

lemma init_loop_appends:
  assumes "sorted_wrt exts_apart (ecall_exts_list es @ exts)" and "\<forall>t \<in> set exts. extid_start t \<le> extid_end t \<and> ext_handle t \<noteq> None"
  shows "ecall_init_loop exts es = (0, es\<lparr>ecall_exts_list := ecall_exts_list es @ exts\<rparr>)"
  using assms
proof (induction exts arbitrary: es)
  case (Cons e exts)
  then have "sbi_ecall_register_extension (Some e) es = (0, es\<lparr>ecall_exts_list := ecall_exts_list es @ [e]\<rparr>)"
    by (auto simp: sbi_ecall_register_extension_def sorted_wrt_append)
  then show ?case using Cons.IH [of "es\<lparr>ecall_exts_list := ecall_exts_list es @ [e]\<rparr>"] Cons.prems by simp
qed simp

lemma ecall_init_ok: "ecall_exts_list es = [] \<Longrightarrow> sbi_ecall_init es = (0, es\<lparr>ecall_exts_list := std_extensions\<rparr>)"
  using init_loop_appends [of es std_extensions] std_extensions_apart by (simp add: sbi_ecall_init_def)

text \<open>The assignment of extension ids to handlers in the specification of the interface.\<close>

definition std_handler :: "ulong \<Rightarrow> ecall_handle option" where
  "std_handler extid =
     (if extid \<le> 8 then Some Ecall_legacy_handler
      else if extid = 0x10 then Some Ecall_base_handler
      else if extid = 0x54494D45 then Some Ecall_time_handler
      else if extid = 0x735049 then Some Ecall_ipi_handler
      else if extid = 0x52464E43 then Some Ecall_rfence_handler
      else if extid = 0x48534D then Some Ecall_hsm_handler
      else if extid = 0x53525354 then Some Ecall_srst_handler
      else if extid = 0x504D55 then Some Ecall_pmu_handler
      else if 0x09000000 \<le> extid \<and> extid \<le> 0x09FFFFFF then Some Ecall_vendor_handler
      else None)"

lemma single_id: "(e :: ulong) \<le> i \<and> i \<le> e \<longleftrightarrow> i = e"
  by auto

lemma std_find:
  "ecall_exts_list es = std_extensions \<Longrightarrow> Option.bind (sbi_ecall_find_extension i es) ext_handle = std_handler i"
  by (auto simp: sbi_ecall_find_extension_def std_extensions_def ext_has_def std_handler_def ecall_time_def ecall_rfence_def ecall_ipi_def
      ecall_base_def ecall_hsm_def ecall_srst_def ecall_pmu_def ecall_legacy_def ecall_vendor_def single_id)


lemma int32_codes [simp]: "int32 0 = 0" "int32 SBI_ENOTSUPP = SBI_ENOTSUPP"
  by (simp_all add: int32_id)

lemma ecall_error_small: "- 8 \<le> ret \<Longrightarrow> ecall_error ret e f m = Ret ret m"
  by (simp add: ecall_error_def)

lemma std_find_probe:
  "ecall_exts_list es = std_extensions \<Longrightarrow>
   Option.bind (sbi_ecall_find_extension i es) ext_probe =
     (case std_handler i of Some Ecall_srst_handler \<Rightarrow> Some Ecall_srst_probe | Some Ecall_pmu_handler \<Rightarrow> Some Ecall_pmu_probe
      | Some Ecall_vendor_handler \<Rightarrow> Some Ecall_vendor_probe | _ \<Rightarrow> None) \<and>
   (sbi_ecall_find_extension i es = None \<longleftrightarrow> std_handler i = None)"
  by (auto simp: sbi_ecall_find_extension_def std_extensions_def ext_has_def std_handler_def ecall_time_def ecall_rfence_def ecall_ipi_def
      ecall_base_def ecall_hsm_def ecall_srst_def ecall_pmu_def ecall_legacy_def ecall_vendor_def single_id)

text \<open>
  C11. Dispatch of calls: initialising an empty registry succeeds, and afterwards a call is handled by exactly the extension
  that the interface assigns to its id, legacy calls being the ones that leave a1 alone. For any other id the caller gets
  the error \<^verbatim>\<open>SBI_ERR_NOT_SUPPORTED\<close> and the value 0, continues after its instruction, and nothing else changes. Probing an id through
  the base extension answers 0 for exactly the ids without an extension, except that the reset, counter and vendor
  extensions answer for themselves.
\<close>

theorem ecall_dispatch:
  assumes "ecall_exts_list es = []" and "m_ecall m = snd (sbi_ecall_init es)"
  shows "fst (sbi_ecall_init es) = 0 \<and>
    sbi_ecall_handler fx h regs m =
      (case std_handler (a7 regs) of
         Some f \<Rightarrow> run_bind (call_handle f fx h (a7 regs) (a6 regs) regs 0 no_trap m)
                   (ecall_return fx h (f = Ecall_legacy_handler) regs)
       | None \<Rightarrow> Ret (0, regs\<lparr>r_mepc := r_mepc regs + 4, gpr := (gpr regs)(10 := - 2, 11 := 0)\<rparr>) m) \<and>
    sbi_ecall_base_probe fx h i m =
      (case std_handler i of
         None \<Rightarrow> 0
       | Some Ecall_srst_handler \<Rightarrow> sbi_ecall_srst_probe m
       | Some Ecall_pmu_handler \<Rightarrow> sbi_ecall_pmu_probe h m
       | Some Ecall_vendor_handler \<Rightarrow> sbi_ecall_vendor_probe fx i
       | Some _ \<Rightarrow> 1)"
proof (intro conjI)
  note init = ecall_init_ok [OF assms(1)]
  have l: "ecall_exts_list (m_ecall m) = std_extensions" using assms(2) init by simp
  show "fst (sbi_ecall_init es) = 0" using init by simp
  have leg: "(std_handler i = Some Ecall_legacy_handler) = (i \<le> 8)" for i by (auto simp: std_handler_def)
  show "sbi_ecall_handler fx h regs m =
      (case std_handler (a7 regs) of
         Some f \<Rightarrow> run_bind (call_handle f fx h (a7 regs) (a6 regs) regs 0 no_trap m)
                   (ecall_return fx h (f = Ecall_legacy_handler) regs)
       | None \<Rightarrow> Ret (0, regs\<lparr>r_mepc := r_mepc regs + 4, gpr := (gpr regs)(10 := - 2, 11 := 0)\<rparr>) m)"
    unfolding sbi_ecall_handler_def Let_def std_find [OF l]
    using leg [of "a7 regs"] by (auto simp: ecall_return_def ecall_error_small split: option.split)
  show "sbi_ecall_base_probe fx h i m =
      (case std_handler i of
         None \<Rightarrow> 0
       | Some Ecall_srst_handler \<Rightarrow> sbi_ecall_srst_probe m
       | Some Ecall_pmu_handler \<Rightarrow> sbi_ecall_pmu_probe h m
       | Some Ecall_vendor_handler \<Rightarrow> sbi_ecall_vendor_probe fx i
       | Some _ \<Rightarrow> 1)"
    using std_find_probe [OF l, of i]
    by (auto simp: sbi_ecall_base_probe_def split: option.splits ecall_handle.splits)
qed

theorem ecall_dispatch_witness:
  "\<exists>m. sbi_ecall_handler fx_example 0 \<lparr>gpr = (\<lambda>_. 0)(17 := 0x10, 16 := 3, 10 := 0x735049), r_mepc = 0x1000, r_mstatus = 0\<rparr> m =
    Ret (0, \<lparr>gpr = (\<lambda>_. 0)(17 := 0x10, 16 := 3, 11 := 1), r_mepc = 0x1004, r_mstatus = 0\<rparr>) m"
proof -
  let ?m = "machine_boot\<lparr>m_ecall := snd (sbi_ecall_init ecall_boot)\<rparr>"
  let ?r = "\<lparr>gpr = (\<lambda>_. 0)(17 := 0x10, 16 := 3, 10 := 0x735049), r_mepc = 0x1000, r_mstatus = 0\<rparr> :: sbi_trap_regs"
  have e: "ecall_exts_list ecall_boot = []" by (simp add: ecall_boot_def)
  have m: "m_ecall ?m = snd (sbi_ecall_init ecall_boot)" by simp
  note D = ecall_dispatch [OF e m]
  have "std_handler 0x10 = Some Ecall_base_handler" "std_handler 0x735049 = Some Ecall_ipi_handler" by (simp_all add: std_handler_def)
  then have "sbi_ecall_handler fx_example 0 ?r ?m =
      Ret (0, \<lparr>gpr = (\<lambda>_. 0)(17 := 0x10, 16 := 3, 11 := 1), r_mepc = 0x1004, r_mstatus = 0\<rparr>) ?m"
    using D [where fx = fx_example and h = 0 and regs = ?r and i = "0x735049"]
    by (simp add: sbi_ecall_base_handler_def ecall_return_def ecall_error_small fun_eq_iff)
  then show ?thesis by blast
qed


section \<open>What a call may change\<close>

lemma ecall_error_range: "ecall_error ret e f m = Ret ret' m' \<Longrightarrow> ret < 2 ^ 31 \<Longrightarrow> - 8 \<le> ret' \<and> ret' < 2 ^ 31"
  by (auto simp: ecall_error_def run_bind_eq_Ret split: if_splits)

lemma sint_word_of_int_small: "- 8 \<le> r \<Longrightarrow> r < 2 ^ 31 \<Longrightarrow> sint (word_of_int r :: ulong) = r"
  by (simp add: signed_of_int signed_take_bit_int_eq_self)

lemma ecall_return_cases:
  assumes "ecall_return fx h legacy regs res m = Ret (rc, regs') m'"
  shows "rc = 0 \<and>
    ((\<exists>v out. - 8 \<le> sint v \<and> sint v < 2 ^ 31 \<and> (legacy \<longrightarrow> out = a1 regs) \<and>
        regs' = regs\<lparr>r_mepc := r_mepc regs + 4, gpr := (gpr regs)(10 := v, 11 := out)\<rparr>) \<or>
     (\<exists>trap m1 rc'. ti_epc trap = r_mepc regs \<and> redirect (fx_plat fx) h trap regs m1 = (rc', regs', m')))"
proof -
  obtain r out trap where res: "res = (r, out, trap)" by (cases res)
  define ret where "ret = int32 r"
  show ?thesis
  proof (cases "ret = SBI_ETRAP")
    case True
    then show ?thesis using assms
      by (auto simp: res ecall_return_def ret_def [symmetric] Let_def split: prod.splits intro!: exI [of _ "trap\<lparr>ti_epc := r_mepc regs\<rparr>"])
  next
    case False
    then obtain ret' where e: "ecall_error ret (a7 regs) (a6 regs) m = Ret ret' m'" "rc = 0"
      "regs' = regs\<lparr>r_mepc := r_mepc regs + 4,
         gpr := if legacy then (gpr regs)(10 := word_of_int ret') else (gpr regs)(10 := word_of_int ret', 11 := out)\<rparr>"
      using assms by (auto simp: res ecall_return_def ret_def [symmetric] run_bind_eq_Ret Let_def)
    have "(gpr regs)(10 := word_of_int ret') = (gpr regs)(10 := word_of_int ret', 11 := a1 regs)" by (simp add: fun_eq_iff)
    moreover have "- 8 \<le> ret' \<and> ret' < 2 ^ 31" using ecall_error_range [OF e(1)] int32_range(2) [of r] by (simp add: ret_def)
    ultimately show ?thesis using e(2,3) sint_word_of_int_small [of ret']
      by (intro conjI disjI1 exI [of _ "word_of_int ret'"] exI [of _ "if legacy then a1 regs else out"]) auto
  qed
qed

text \<open>
  C10. The caller's view of a call: whenever the handler returns, it returns success to the trap handler, and either the caller
  continues after its instruction with nothing changed but a0, which read as a signed number holds a result below two to the 31 or
  one of the eight error codes \<open>- 1\<close> to \<open>- 8\<close> of the interface and never an internal one, and a1, which a legacy call keeps; or a trap is delivered to the caller at
  its instruction, as for a legacy call that passed a bad pointer.
\<close>

theorem ecall_result_confined:
  assumes "sbi_ecall_handler fx h regs m = Ret (rc, regs') m'"
  shows "rc = 0 \<and>
    ((\<exists>v out. - 8 \<le> sint v \<and> sint v < 2 ^ 31 \<and>
        (Option.bind (sbi_ecall_find_extension (a7 regs) (m_ecall m)) ext_handle \<noteq> None \<and> a7 regs \<le> 8 \<longrightarrow> out = a1 regs) \<and>
        regs' = regs\<lparr>r_mepc := r_mepc regs + 4, gpr := (gpr regs)(10 := v, 11 := out)\<rparr>) \<or>
     (\<exists>trap m1 rc'. ti_epc trap = r_mepc regs \<and> redirect (fx_plat fx) h trap regs m1 = (rc', regs', m')))"
proof (cases "Option.bind (sbi_ecall_find_extension (a7 regs) (m_ecall m)) ext_handle")
  case None
  then have "ecall_return fx h False regs (SBI_ENOTSUPP, 0, no_trap) m = Ret (rc, regs') m'"
    using assms by (simp add: sbi_ecall_handler_def Let_def)
  from ecall_return_cases [OF this] None show ?thesis by auto
next
  case (Some f)
  then obtain res m1 where "ecall_return fx h (a7 regs \<le> 8) regs res m1 = Ret (rc, regs') m'"
    using assms by (auto simp: sbi_ecall_handler_def Let_def run_bind_eq_Ret)
  from ecall_return_cases [OF this] Some show ?thesis by auto
qed

theorem ecall_result_confined_witness:
  "\<exists>rc regs' m'. sbi_ecall_handler fx_example 0 \<lparr>gpr = (\<lambda>_. 7), r_mepc = 0x1000, r_mstatus = 0\<rparr> machine_boot = Ret (rc, regs') m' \<and>
    rc = 0 \<and> gpr regs' 12 = 7"
proof -
  let ?r = "\<lparr>gpr = (\<lambda>_. 7), r_mepc = 0x1000, r_mstatus = 0\<rparr> :: sbi_trap_regs"
  let ?r' = "\<lparr>gpr = (\<lambda>_. 7)(10 := - 2, 11 := 0), r_mepc = 0x1004, r_mstatus = 0\<rparr> :: sbi_trap_regs"
  have "sbi_ecall_handler fx_example 0 ?r machine_boot = Ret (0, ?r') machine_boot"
    by (simp add: sbi_ecall_handler_def sbi_ecall_find_extension_def machine_boot_def ecall_return_def ecall_error_small)
  with ecall_result_confined [of fx_example 0 ?r machine_boot 0 ?r' machine_boot] show ?thesis by auto
qed

end
