(* ===== verification/Sbi_Trap_Handler.thy ===== *)
theory Sbi_Trap_Handler
  imports Sbi_Ecall Sbi_Misaligned
begin

text \<open>
  The trap handler of the firmware (\<^verbatim>\<open>sbi_trap_handler\<close> and \<^verbatim>\<open>sbi_trap_error\<close> in \<^verbatim>\<open>lib/sbi/sbi_trap.c\<close>): the dispatch on the cause to
  the handlers of the other theories, and the register dump after which the hart hangs.
\<close>

abbreviation (input) CSR_MCAUSE :: nat where "CSR_MCAUSE \<equiv> 0x342"
abbreviation (input) CSR_MTVAL :: nat where "CSR_MTVAL \<equiv> 0x343"
abbreviation (input) CSR_MTINST :: nat where "CSR_MTINST \<equiv> 0x34a"
abbreviation (input) CSR_MTVAL2 :: nat where "CSR_MTVAL2 \<equiv> 0x34b"
abbreviation (input) IRQ_M_SOFT :: ulong where "IRQ_M_SOFT \<equiv> 3"
abbreviation (input) IRQ_M_TIMER :: ulong where "IRQ_M_TIMER \<equiv> 7"

section \<open>The register dump\<close>

definition print_lines :: "(string \<times> va list) list \<Rightarrow> machine \<Rightarrow> unit run" where
  "print_lines ls m = run_fold (\<lambda>(fmt, args) _ m. run_bind (sbi_printf (fmt @ newline) args m) (\<lambda>_ m. Ret () m)) ls () m"

definition reg_pairs :: "((string \<times> nat) \<times> (string \<times> nat)) list" where
  "reg_pairs =
     [((''ra'', 1), (''sp'', 2)), ((''gp'', 3), (''tp'', 4)), ((''s0'', 8), (''s1'', 9)), ((''a0'', 10), (''a1'', 11)),
      ((''a2'', 12), (''a3'', 13)), ((''a4'', 14), (''a5'', 15)), ((''a6'', 16), (''a7'', 17)), ((''s2'', 18), (''s3'', 19)),
      ((''s4'', 20), (''s5'', 21)), ((''s6'', 22), (''s7'', 23)), ((''s8'', 24), (''s9'', 25)), ((''s10'', 26), (''s11'', 27)),
      ((''t0'', 5), (''t1'', 6)), ((''t2'', 7), (''t3'', 28)), ((''t4'', 29), (''t5'', 30))]"

definition sbi_trap_error ::
  "fw_ctx \<Rightarrow> hartid \<Rightarrow> string \<Rightarrow> int \<Rightarrow> ulong \<Rightarrow> ulong \<Rightarrow> ulong \<Rightarrow> ulong \<Rightarrow> sbi_trap_regs \<Rightarrow> machine \<Rightarrow> sbi_trap_regs run" where
  "sbi_trap_error fx h msg rc mcause mtval mtval2 mtinst regs m =
     (let pre = [Va_str (Some ''sbi_trap_error''), Va_num (of_nat h)]
      in run_bind (print_lines
           ([(''%s: hart%d: %s (error %d)'', pre @ [Va_str (Some msg), Va_num (word_of_int rc)]),
             (''%s: hart%d: mcause=0x%016lx mtval=0x%016lx'', pre @ [Va_num mcause, Va_num mtval])] @
            (if misa_extension (p_ext (fx_plat fx)) CHR ''H'' (h_csr m h)
             then [(''%s: hart%d: mtval2=0x%016lx mtinst=0x%016lx'', pre @ [Va_num mtval2, Va_num mtinst])] else []) @
            [(''%s: hart%d: mepc=0x%016lx mstatus=0x%016lx'', pre @ [Va_num (r_mepc regs), Va_num (r_mstatus regs)])] @
            map (\<lambda>((n1, i1), (n2, i2)). (''%s: hart%d: %s=0x%016lx %s=0x%016lx'',
                   pre @ [Va_str (Some n1), Va_num (gpr regs i1), Va_str (Some n2), Va_num (gpr regs i2)])) reg_pairs @
            [(''%s: hart%d: %s=0x%016lx'', pre @ [Va_str (Some ''t6''), Va_num (gpr regs 31)])]) m) (\<lambda>_ m. Hung m))"

section \<open>Dispatch\<close>

text \<open>The handler of a synchronous trap, with the message for the case that it fails.\<close>

definition trap_exception ::
  "fw_ctx \<Rightarrow> hartid \<Rightarrow> ulong \<Rightarrow> ulong \<Rightarrow> ulong \<Rightarrow> ulong \<Rightarrow> sbi_trap_regs \<Rightarrow> machine \<Rightarrow> (string \<times> int \<times> sbi_trap_regs) run" where
  "trap_exception fx h mcause mtval mtval2 mtinst regs m =
     (let pl = fx_plat fx; done = (\<lambda>msg (rc, regs, m). Ret (msg, rc, regs) m);
          deliver = (\<lambda>m. done ''trap handler failed'' (redirect pl h
            \<lparr>ti_epc = r_mepc regs, ti_cause = mcause, ti_tval = mtval, ti_tval2 = mtval2, ti_tinst = mtinst\<rparr> regs m))
      in if mcause = CAUSE_ILLEGAL_INSTRUCTION then done ''illegal instruction handler failed'' (sbi_illegal_insn_handler pl h mtval regs m)
         else if mcause = CAUSE_MISALIGNED_LOAD
         then done ''misaligned load handler failed'' (sbi_misaligned_load_handler pl h mtval mtval2 mtinst regs m)
         else if mcause = CAUSE_MISALIGNED_STORE
         then done ''misaligned store handler failed'' (sbi_misaligned_store_handler pl h mtval mtval2 mtinst regs m)
         else if mcause = CAUSE_SUPERVISOR_ECALL \<or> mcause = CAUSE_MACHINE_ECALL
         then run_bind (sbi_ecall_handler fx h regs m) (\<lambda>(rc, regs) m. Ret (''ecall handler failed'', rc, regs) m)
         else if mcause = CAUSE_LOAD_ACCESS \<or> mcause = CAUSE_STORE_ACCESS
         then deliver (incr_fw h (if mcause = CAUSE_LOAD_ACCESS then 2 else 3) m)
         else deliver m)"

definition sbi_trap_handler :: "fw_ctx \<Rightarrow> hartid \<Rightarrow> sbi_trap_regs \<Rightarrow> machine \<Rightarrow> sbi_trap_regs run" where
  "sbi_trap_handler fx h regs m =
     (let c = h_csr m h; mcause = c CSR_MCAUSE; mtval = c CSR_MTVAL;
          hext = misa_extension (p_ext (fx_plat fx)) CHR ''H'' c;
          mtval2 = (if hext then c CSR_MTVAL2 else 0); mtinst = (if hext then c CSR_MTINST else 0)
      in if bit mcause 63
         then let irq = mcause AND NOT (push_bit 63 1)
              in if irq = IRQ_M_TIMER then Ret regs (sbi_timer_process (fx_plat fx) h m)
                 else if irq = IRQ_M_SOFT then run_bind (sbi_ipi_process (fw_cb fx) h m) (\<lambda>_ m. Ret regs m)
                 else sbi_trap_error fx h ''unhandled external interrupt'' SBI_ENOTSUPP irq mtval mtval2 mtinst regs m
         else run_bind (trap_exception fx h mcause mtval mtval2 mtinst regs m) (\<lambda>(msg, rc, regs) m.
                if rc \<noteq> 0 then sbi_trap_error fx h msg rc mcause mtval mtval2 mtinst regs m else Ret regs m))"

section \<open>Traps of lower modes are contained\<close>

definition lower_mode :: "sbi_trap_regs \<Rightarrow> bool" where
  "lower_mode regs \<longleftrightarrow> prev_mode regs = PRV_S \<or> prev_mode regs = PRV_U"

definition contained :: "int \<times> sbi_trap_regs \<times> machine \<Rightarrow> bool" where
  "contained r \<longleftrightarrow> fst r = 0 \<and> lower_mode (fst (snd r))"

lemma prev_mode_bits:
  "bit (r_mstatus regs) 11 \<Longrightarrow> \<not> bit (r_mstatus regs) 12 \<Longrightarrow> prev_mode regs = PRV_S"
proof -
  assume a: "bit (r_mstatus regs) 11" "\<not> bit (r_mstatus regs) 12"
  have "bit (prev_mode regs) n \<longleftrightarrow> n = 0" for n
    using a unfolding prev_mode_def bit_drop_bit_eq comp_def bit_and_iff bit_const by (cases "n = 1") auto
  then show ?thesis by (intro bit_word_eqI) (auto simp: bit_1_iff)
qed

lemma lower_mode_kept:
  "lower_mode (regs\<lparr>r_mepc := x\<rparr>) = lower_mode regs" "lower_mode (regs\<lparr>gpr := g\<rparr>) = lower_mode regs"
  by (simp_all add: lower_mode_def prev_mode_def)

lemma redirect_contained: "lower_mode regs \<Longrightarrow> contained (redirect pl h trap regs m)"
proof -
  assume l: "lower_mode regs"
  have m: "bit (replace_bits MSTATUS_MPP (push_bit MSTATUS_MPP_SHIFT PRV_S) w) 11"
    "\<not> bit (replace_bits MSTATUS_MPP (push_bit MSTATUS_MPP_SHIFT PRV_S) w) 12" for w
    by (auto simp: bit_replace_bits bit_const simp del: bit_numeral_word_iff)
  obtain rc r c where t: "sbi_trap_redirect (p_hw pl) (p_ext pl) trap regs (h_csr m h) = (rc, r, c)" by (cases "sbi_trap_redirect (p_hw pl) (p_ext pl) trap regs (h_csr m h)")
  have "rc = 0 \<and> bit (r_mstatus r) 11 \<and> \<not> bit (r_mstatus r) 12"
    using t l m by (auto simp: sbi_trap_redirect_def Let_def lower_mode_def bit_enter_smode split: if_splits)
  then show ?thesis using t prev_mode_bits [of r] by (simp add: redirect_def contained_def lower_mode_def)
qed

lemma illegal_contained: "lower_mode regs \<Longrightarrow> contained (sbi_illegal_insn_handler pl h insn regs m)"
proof -
  assume l: "lower_mode regs"
  have t: "contained (truly_illegal_insn pl h i regs m)" for i m unfolding truly_illegal_insn_def by (rule redirect_contained [OF l])
  have s: "contained (system_opcode_insn pl h i regs m)" for i m
    using l t unfolding system_opcode_insn_def Let_def
    by (auto simp: contained_def lower_mode_kept SET_RD_def split: sum.split option.split prod.split)
  show ?thesis using redirect_contained [OF l] t s
    by (auto simp: sbi_illegal_insn_handler_def illegal_insn_table_def Let_def split: sum.split)
qed

lemma misaligned_load_contained: "lower_mode regs \<Longrightarrow> contained (sbi_misaligned_load_handler pl h addr tval2 tinst regs m)"
proof -
  assume l: "lower_mode regs"
  have "lower_mode (fst (load_commit h op v regs m))" for op v m by (simp add: load_commit_def SET_RD_def Let_def lower_mode_kept l)
  then show ?thesis using redirect_contained [OF l]
    by (auto simp: sbi_misaligned_load_handler_def Let_def contained_def lower_mode_kept split: sum.split option.split prod.split)
      (metis fst_conv)
qed

lemma misaligned_store_contained: "lower_mode regs \<Longrightarrow> contained (sbi_misaligned_store_handler pl h addr tval2 tinst regs m)"
  using redirect_contained [of regs]
  by (auto simp: sbi_misaligned_store_handler_def Let_def contained_def lower_mode_kept split: sum.split option.split prod.split)

lemma ecall_contained:
  assumes "sbi_ecall_handler fx h regs m = Ret (rc, regs') m'" and "lower_mode regs" shows "rc = 0 \<and> lower_mode regs'"
proof -
  obtain legacy res m1 where "ecall_return fx h legacy regs res m1 = Ret (rc, regs') m'"
    using assms(1) by (auto simp: sbi_ecall_handler_def Let_def run_bind_eq_Ret split: option.splits)
  from ecall_return_cases [OF this] show ?thesis
    using assms(2) redirect_contained [OF assms(2)]
    by (auto simp: lower_mode_kept contained_def) (metis fst_conv snd_conv)
qed

lemma trap_exception_contained:
  assumes "lower_mode regs"
  shows "mcause \<noteq> CAUSE_SUPERVISOR_ECALL \<Longrightarrow> mcause \<noteq> CAUSE_MACHINE_ECALL \<Longrightarrow>
      \<exists>msg regs' m'. trap_exception fx h mcause mtval mtval2 mtinst regs m = Ret (msg, 0, regs') m'"
    and "trap_exception fx h mcause mtval mtval2 mtinst regs m = Ret (msg, rc, regs') m' \<Longrightarrow> rc = 0 \<and> lower_mode regs'"
proof -
  have c: "\<exists>regs' m'. r = (0, regs', m') \<and> lower_mode regs'" if "contained r" for r
    using that by (cases r) (auto simp: contained_def)
  note C = redirect_contained [OF assms, THEN c] illegal_contained [OF assms, THEN c] misaligned_load_contained [OF assms, THEN c]
    misaligned_store_contained [OF assms, THEN c]
  show "\<exists>msg regs' m'. trap_exception fx h mcause mtval mtval2 mtinst regs m = Ret (msg, 0, regs') m'"
    if "mcause \<noteq> CAUSE_SUPERVISOR_ECALL" "mcause \<noteq> CAUSE_MACHINE_ECALL"
    using that C(2) [of "fx_plat fx" h mtval m] C(3) [of "fx_plat fx" h mtval mtval2 mtinst m]
      C(4) [of "fx_plat fx" h mtval mtval2 mtinst m]
      C(1) [of "fx_plat fx" h "\<lparr>ti_epc = r_mepc regs, ti_cause = mcause, ti_tval = mtval, ti_tval2 = mtval2, ti_tinst = mtinst\<rparr>" m]
      C(1) [of "fx_plat fx" h "\<lparr>ti_epc = r_mepc regs, ti_cause = mcause, ti_tval = mtval, ti_tval2 = mtval2, ti_tinst = mtinst\<rparr>"
        "incr_fw h (if mcause = CAUSE_LOAD_ACCESS then 2 else 3) m"]
    by (auto simp: trap_exception_def Let_def)
  show "rc = 0 \<and> lower_mode regs'" if r: "trap_exception fx h mcause mtval mtval2 mtinst regs m = Ret (msg, rc, regs') m'"
  proof (cases "mcause = CAUSE_SUPERVISOR_ECALL \<or> mcause = CAUSE_MACHINE_ECALL")
    case True
    then obtain m1 where "sbi_ecall_handler fx h regs m = Ret (rc, regs') m1"
      using r by (auto simp: trap_exception_def run_bind_eq_Ret)
    then show ?thesis using ecall_contained assms by blast
  next
    case False
    then show ?thesis
      using r C(2) [of "fx_plat fx" h mtval m] C(3) [of "fx_plat fx" h mtval mtval2 mtinst m]
        C(4) [of "fx_plat fx" h mtval mtval2 mtinst m]
        C(1) [of "fx_plat fx" h "\<lparr>ti_epc = r_mepc regs, ti_cause = mcause, ti_tval = mtval, ti_tval2 = mtval2, ti_tinst = mtinst\<rparr>" m]
        C(1) [of "fx_plat fx" h "\<lparr>ti_epc = r_mepc regs, ti_cause = mcause, ti_tval = mtval, ti_tval2 = mtval2, ti_tinst = mtinst\<rparr>"
          "incr_fw h (if mcause = CAUSE_LOAD_ACCESS then 2 else 3) m"]
      by (auto simp: trap_exception_def Let_def split: if_splits)
  qed
qed

lemma trap_error_not_Ret: "sbi_trap_error fx h msg rc mcause mtval mtval2 mtinst regs m \<noteq> Ret r m'"
  by (simp add: sbi_trap_error_def Let_def run_bind_eq_Ret)

text \<open>
  C2. Traps of the supervisor and of user programs are contained: a trap taken from S- or U-mode never makes the firmware
  return into machine mode, whatever the cause and the registers hold, and every synchronous trap other
  than a call returns, so that no instruction of a lower mode can make the firmware dump the registers and hang.
\<close>

theorem trap_handler_contains_lower_modes:
  assumes "lower_mode regs"
  shows "(\<forall>regs' m'. sbi_trap_handler fx h regs m = Ret regs' m' \<longrightarrow> lower_mode regs') \<and>
    (\<not> bit (h_csr m h CSR_MCAUSE) 63 \<and> h_csr m h CSR_MCAUSE \<noteq> CAUSE_SUPERVISOR_ECALL \<and> h_csr m h CSR_MCAUSE \<noteq> CAUSE_MACHINE_ECALL \<longrightarrow>
      (\<exists>regs' m'. sbi_trap_handler fx h regs m = Ret regs' m'))"
proof (intro conjI allI impI)
  fix regs' m' assume r: "sbi_trap_handler fx h regs m = Ret regs' m'"
  show "lower_mode regs'"
  proof (cases "bit (h_csr m h CSR_MCAUSE) 63")
    case True
    then show ?thesis
      using r assms by (auto simp: sbi_trap_handler_def Let_def run_bind_eq_Ret trap_error_not_Ret split: if_splits)
  next
    case False
    then obtain mtval2 mtinst msg rc r1 m1 where
      "trap_exception fx h (h_csr m h CSR_MCAUSE) (h_csr m h CSR_MTVAL) mtval2 mtinst regs m = Ret (msg, rc, r1) m1"
      "rc = 0 \<Longrightarrow> regs' = r1"
      using r by (auto simp: sbi_trap_handler_def Let_def run_bind_eq_Ret trap_error_not_Ret split: if_splits)
    then show ?thesis using trap_exception_contained(2) [OF assms] by blast
  qed
next
  assume c: "\<not> bit (h_csr m h CSR_MCAUSE) 63 \<and> h_csr m h CSR_MCAUSE \<noteq> CAUSE_SUPERVISOR_ECALL \<and> h_csr m h CSR_MCAUSE \<noteq> CAUSE_MACHINE_ECALL"
  let ?hext = "misa_extension (p_ext (fx_plat fx)) CHR ''H'' (h_csr m h)"
  from trap_exception_contained(1) [OF assms, of "h_csr m h CSR_MCAUSE" fx h "h_csr m h CSR_MTVAL"
    "if ?hext then h_csr m h CSR_MTVAL2 else 0" "if ?hext then h_csr m h CSR_MTINST else 0" m] c
  show "\<exists>regs' m'. sbi_trap_handler fx h regs m = Ret regs' m'" by (auto simp: sbi_trap_handler_def Let_def)
qed

theorem trap_handler_contains_lower_modes_witness:
  "\<exists>regs' m'. sbi_trap_handler fx_example 0 \<lparr>gpr = (\<lambda>_. 0), r_mepc = 0x1000, r_mstatus = 0x800\<rparr>
      (machine_boot\<lparr>h_csr := (\<lambda>_. (\<lambda>_. 0)(CSR_MCAUSE := CAUSE_ILLEGAL_INSTRUCTION))\<rparr>) = Ret regs' m' \<and> lower_mode regs'"
proof -
  let ?m = "machine_boot\<lparr>h_csr := (\<lambda>_. (\<lambda>_. 0)(CSR_MCAUSE := CAUSE_ILLEGAL_INSTRUCTION))\<rparr>"
  have l: "lower_mode \<lparr>gpr = (\<lambda>_. 0), r_mepc = 0x1000, r_mstatus = 0x800\<rparr>" by code_simp
  have "\<not> bit (2 :: ulong) 63" by code_simp
  then show ?thesis using trap_handler_contains_lower_modes [OF l, of fx_example 0 ?m] by auto
qed

end
