(* ===== verification/Sbi_Init.thy ===== *)
theory Sbi_Init
  imports Sbi_Trap_Handler
begin

text \<open>
  Start of the firmware on a hart (\<^verbatim>\<open>lib/sbi/sbi_init.c\<close>) and the start of the domains' boot harts (\<^verbatim>\<open>sbi_domain_finalize\<close> in
  \<^verbatim>\<open>lib/sbi/sbi_domain.c\<close>). One hart runs the cold boot; the others wait for it and then run the warm boot. Each call ends by
  leaving for the next stage or by hanging.

  The text of the boot banner and the boot reports is a parameter (\<open>fx_boot_text\<close>); it is only printed.
\<close>

section \<open>Waiting for the cold boot\<close>

definition upd_init :: "(init_sys \<Rightarrow> init_sys) \<Rightarrow> machine \<Rightarrow> machine" where
  "upd_init f m = m\<lparr>m_init := f (m_init m)\<rparr>"

text \<open>The update of the mask of waiting harts between taking and releasing the lock.\<close>

definition wait_mask_locked :: "(sbi_hartmask \<Rightarrow> sbi_hartmask option) \<Rightarrow> machine \<Rightarrow> unit run" where
  "wait_mask_locked f m =
     (let m = upd_init (\<lambda>s. s\<lparr>coldboot_lock := snd (spin_lock_amoadd (coldboot_lock s))\<rparr>) m
      in case f (coldboot_wait_hmask (m_init m)) of
           None \<Rightarrow> Fault
         | Some hmask \<Rightarrow> Ret () (upd_init (\<lambda>s. s\<lparr>coldboot_wait_hmask := hmask, coldboot_lock := spin_unlock (coldboot_lock s)\<rparr>) m))"

text \<open>Waiting for an interrupt until the software interrupt is pending.\<close>

fun wfi_loop :: "nat \<Rightarrow> (machine \<Rightarrow> machine) \<Rightarrow> hartid \<Rightarrow> machine \<Rightarrow> unit run" where
  "wfi_loop 0 env h m = Spin m"
| "wfi_loop (Suc n) env h m =
     (let m = env m in if h_csr m h CSR_MIP AND MIP_MSIP = 0 then wfi_loop n env h m else Ret () m)"

fun coldboot_wait_loop :: "nat \<Rightarrow> nat \<Rightarrow> (machine \<Rightarrow> machine) \<Rightarrow> hartid \<Rightarrow> machine \<Rightarrow> unit run" where
  "coldboot_wait_loop 0 fuel env h m = Spin m"
| "coldboot_wait_loop (Suc n) fuel env h m =
     (if coldboot_done (m_init m) \<noteq> 0 then Ret () m
      else run_bind (wfi_loop fuel env h m) (\<lambda>_ m. coldboot_wait_loop n fuel env h m))"

definition wait_for_coldboot :: "fw_ctx \<Rightarrow> hartid \<Rightarrow> machine \<Rightarrow> unit run" where
  "wait_for_coldboot fx h m =
     (let hw = p_hw (fx_plat fx); saved = h_csr m h CSR_MIE;
          m = upd_csr h (csr_set hw CSR_MIE MIP_MSIP) m
      in run_bind (wait_mask_locked (sbi_hartmask_set_hart h) m) (\<lambda>_ m.
         run_bind (coldboot_wait_loop (fx_fuel fx) (fx_fuel fx) (fx_env fx) h m) (\<lambda>_ m.
         run_bind (wait_mask_locked (sbi_hartmask_clear_hart h) m) (\<lambda>_ m.
         Ret () (upd_csr h (csr_write hw CSR_MIE saved) m)))))"

fun wake_loop :: "hartid \<Rightarrow> sbi_hartmask \<Rightarrow> nat list \<Rightarrow> machine \<Rightarrow> unit run" where
  "wake_loop h hmask [] m = Ret () m"
| "wake_loop h hmask (i # is) m =
     (if i = h then wake_loop h hmask is m
      else case sbi_hartmask_test_hart i hmask of
             None \<Rightarrow> Fault
           | Some t \<Rightarrow> wake_loop h hmask is (if t then sbi_ipi_raw_send i m else m))"

definition wake_coldboot_harts :: "hartid \<Rightarrow> machine \<Rightarrow> unit run" where
  "wake_coldboot_harts h m =
     (let m = upd_init (\<lambda>s. s\<lparr>coldboot_done := 1, coldboot_lock := snd (spin_lock_amoadd (coldboot_lock s))\<rparr>) m
      in run_bind (wake_loop h (coldboot_wait_hmask (m_init m)) [0..<last_hartid m + 1] m) (\<lambda>_ m.
         Ret () (upd_init (\<lambda>s. s\<lparr>coldboot_lock := spin_unlock (coldboot_lock s)\<rparr>) m)))"

section \<open>Start of the domains\<close>

fun domain_boot_loop :: "fw_ctx \<Rightarrow> hartid \<Rightarrow> nat list \<Rightarrow> machine \<Rightarrow> int run" where
  "domain_boot_loop fx h [] m = Ret 0 m"
| "domain_boot_loop fx h (d # ds) m =
     (let dm = dom_obj (m_dom m) d; dhart = boot_hartid dm
      in if SBI_HARTMASK_MAX_BITS \<le> dhart then domain_boot_loop fx h ds m
         else case possible_harts dm of
                None \<Rightarrow> Fault
              | Some ph \<Rightarrow>
         (case (sbi_hartmask_test_hart dhart ph, sbi_hartmask_test_hart dhart (assigned_harts dm)) of
            (Some possible, Some assigned) \<Rightarrow>
              (if \<not> possible then domain_boot_loop fx h ds m
               else if hartid_to_domain_table (m_dom m) dhart \<noteq> Some d \<or> \<not> assigned then domain_boot_loop fx h ds m
               else if dhart = h
               then domain_boot_loop fx h ds (m\<lparr>next_addr := (next_addr m)(h := dom_next_addr dm),
                      next_mode := (next_mode m)(h := dom_next_mode dm), next_arg1 := (next_arg1 m)(h := dom_next_arg1 dm)\<rparr>)
               else run_bind (run_opt (sbi_hsm_hart_start (fx_plat fx) None dhart (dom_next_addr dm) (dom_next_mode dm) (dom_next_arg1 dm) m)) (\<lambda>rc m.
                      if rc = 0 then domain_boot_loop fx h ds m
                      else run_bind (sbi_printf (''%s: failed to start boot HART %d for %s (error %d)'' @ newline)
                             [Va_str (Some ''sbi_domain_finalize''), Va_num (of_nat dhart), Va_str (Some (fx_dom_name fx d)), Va_num (word_of_int rc)] m)
                             (\<lambda>_ m. Ret rc m)))
          | _ \<Rightarrow> Fault))"

definition sbi_domain_finalize :: "fw_ctx \<Rightarrow> hartid \<Rightarrow> machine \<Rightarrow> int run" where
  "sbi_domain_finalize fx h m =
     (case (case po_domains_init (fx_ops fx) of Some f \<Rightarrow> f m | None \<Rightarrow> (0, m)) of (rc, m) \<Rightarrow>
        (if rc \<noteq> 0
         then run_bind (sbi_printf (''%s: platform domains_init() failed (error %d)'' @ newline)
                [Va_str (Some ''sbi_domain_finalize''), Va_num (word_of_int rc)] m) (\<lambda>_ m. Ret rc m)
         else case sbi_domain_for_each (m_dom m) of
                None \<Rightarrow> Fault
              | Some ds \<Rightarrow>
                  run_bind (domain_boot_loop fx h ds m) (\<lambda>rc m.
                    if rc \<noteq> 0 then Ret rc m else Ret 0 (m\<lparr>m_dom := (m_dom m)\<lparr>domain_finalized := True\<rparr>\<rparr>))))"

section \<open>Steps of the boot sequences\<close>

text \<open>A step that must succeed: on an error it is reported, if it has a report, and the hart hangs.\<close>

definition must :: "string option \<Rightarrow> (machine \<Rightarrow> int run) \<Rightarrow> machine \<Rightarrow> unit run" where
  "must what f m =
     run_bind (f m) (\<lambda>rc m.
       if rc = 0 then Ret () m
       else case what of
              None \<Rightarrow> Hung m
            | Some w \<Rightarrow> run_bind (sbi_printf (''%s: '' @ w @ '' failed (error %d)'' @ newline)
                         [Va_str (Some ''init_coldboot''), Va_num (word_of_int rc)] m) (\<lambda>_ m. Hung m))"

definition of_pair :: "int \<times> machine \<Rightarrow> int run" where
  "of_pair r = (case r of (rc, m) \<Rightarrow> Ret rc m)"

definition step_scratch_init :: "fw_ctx \<Rightarrow> machine \<Rightarrow> int run" where
  "step_scratch_init fx m =
     (case sbi_scratch_init (p_hart_invalid (fx_plat fx)) (fx_to_scratch fx) (m_scr m) of (rc, s) \<Rightarrow>
        Ret rc (m\<lparr>m_scr := s, has_scratch := (\<lambda>h. hartid_to_scratch_table s h \<noteq> None), last_hartid := last_hartid_having_scratch s\<rparr>))"

definition step_domain_init :: "fw_ctx \<Rightarrow> hartid \<Rightarrow> machine \<Rightarrow> int run" where
  "step_domain_init fx h m =
     run_opt (map_option (\<lambda>(rc, s). (rc, m\<lparr>m_dom := s\<rparr>))
       (sbi_domain_init (p_hart_invalid (fx_plat fx)) (fx_fw_start fx) (fx_fw_size fx) (next_arg1 m h) (next_addr m h) (next_mode m h) h (m_dom m)))"

definition step_hsm_init :: "fw_ctx \<Rightarrow> hartid \<Rightarrow> bool \<Rightarrow> machine \<Rightarrow> int run" where
  "step_hsm_init fx h cold m =
     (if cold then run_bind (scratch_alloc 32 m) (\<lambda>off m. run_opt (sbi_hsm_init (fx_plat fx) (fx_fuel fx) (\<lambda>_. fx_env fx) off h True m))
      else case sbi_hsm_init (fx_plat fx) (fx_fuel fx) (\<lambda>_. fx_env fx) 0 h False m of None \<Rightarrow> Spin m | Some (rc, m) \<Rightarrow> Ret rc m)"

definition step_hart_init :: "fw_ctx \<Rightarrow> hartid \<Rightarrow> bool \<Rightarrow> machine \<Rightarrow> int run" where
  "step_hart_init fx h cold m =
     run_bind (if cold then scratch_alloc 32 m else Ret 0 m) (\<lambda>off m.
       case sbi_hart_init (p_hw (fx_plat fx)) (p_ext (fx_plat fx)) (fx_mfaults fx) off cold (h_feat m h) (h_csr m h) of (rc, hf, c) \<Rightarrow>
         Ret rc (m\<lparr>h_feat := (h_feat m)(h := hf), h_csr := (h_csr m)(h := c)\<rparr>))"

definition step_pmu_init :: "fw_ctx \<Rightarrow> hartid \<Rightarrow> bool \<Rightarrow> machine \<Rightarrow> int run" where
  "step_pmu_init fx h cold m =
     run_opt (map_option (\<lambda>(rc, p). (rc, m\<lparr>m_pmu := p\<rparr>))
       (sbi_pmu_init (case po_pmu_init (fx_ops fx) of Some f \<Rightarrow> f | None \<Rightarrow> (\<lambda>p. p)) (h_feat m h) h cold (m_pmu m)))"

definition step_timer_init :: "fw_ctx \<Rightarrow> hartid \<Rightarrow> bool \<Rightarrow> machine \<Rightarrow> int run" where
  "step_timer_init fx h cold m =
     run_bind (if cold then run_bind (scratch_alloc 8 m) (\<lambda>off m. Ret () (upd_init (\<lambda>s. s\<lparr>time_delta_off := off\<rparr>) m)) else Ret () m) (\<lambda>_ m.
       of_pair (sbi_timer_init (plat_init (po_timer_init (fx_ops fx))) (time_delta_off (m_init m)) h cold m))"

definition step_ecall_init :: "machine \<Rightarrow> int run" where
  "step_ecall_init m = (case sbi_ecall_init (m_ecall m) of (rc, es) \<Rightarrow> Ret rc (m\<lparr>m_ecall := es\<rparr>))"

definition step_pmp_configure :: "fw_ctx \<Rightarrow> hartid \<Rightarrow> machine \<Rightarrow> int run" where
  "step_pmp_configure fx h m =
     (case sbi_domain_thishart h m of
        None \<Rightarrow> Fault
      | Some d \<Rightarrow> run_opt (map_option (\<lambda>(rc, c). (rc, m\<lparr>h_csr := (h_csr m)(h := c)\<rparr>))
                   (sbi_hart_pmp_configure (p_hw (fx_plat fx)) d (h_feat m h) (h_csr m h))))"

definition count_init :: "hartid \<Rightarrow> machine \<Rightarrow> machine" where
  "count_init h m = m\<lparr>init_count := (init_count m)(h := init_count m h + 1)\<rparr>"

definition boot_print :: "fw_ctx \<Rightarrow> nat \<Rightarrow> hartid \<Rightarrow> machine \<Rightarrow> unit run" where
  "boot_print fx k h m =
     Ret () (if scr_options m h AND SBI_SCRATCH_NO_BOOT_PRINTS \<noteq> 0 then m else sbi_puts (fx_boot_text fx k h m) m)"

definition leave_to_next :: "fw_ctx \<Rightarrow> hartid \<Rightarrow> machine \<Rightarrow> unit run" where
  "leave_to_next fx h m =
     (case sbi_hart_switch_mode (p_hw (fx_plat fx)) (p_ext (fx_plat fx)) (of_nat h) (next_arg1 m h) (next_addr m h) (next_mode m h) False (h_csr m h) of
        Hang \<Rightarrow> Hung m
      | Mret _ _ c \<Rightarrow> Next_stage (m\<lparr>h_csr := (h_csr m)(h := c)\<rparr>))"

section \<open>Cold and warm boot\<close>

text \<open>
  The calls before the other harts are released, in the order of the code: calls whose error code is checked, with the
  text of the report if there is one, and the boot reports.
\<close>

datatype boot_call = Checked "string option" "machine \<Rightarrow> int run" | Print "machine \<Rightarrow> unit run"

definition coldboot_calls :: "fw_ctx \<Rightarrow> hartid \<Rightarrow> boot_call list" where
  "coldboot_calls fx h =
     (let po = fx_ops fx; plat = (\<lambda>f m. of_pair (plat_init f True m))
      in [Checked None (step_scratch_init fx),
          Checked None (step_domain_init fx h),
          Checked None (\<lambda>m. run_bind (scratch_alloc 8 m) (\<lambda>off m. Ret (if off = 0 then SBI_ENOMEM else 0) (upd_init (\<lambda>s. s\<lparr>init_count_offset := off\<rparr>) m))),
          Checked None (step_hsm_init fx h True),
          Checked None (plat (po_early_init po)),
          Checked None (step_hart_init fx h True),
          Checked None (\<lambda>m. of_pair (sbi_console_init (po_console_init po) m)),
          Checked None (step_pmu_init fx h True),
          Print (boot_print fx 0 h),
          Checked (Some ''platform irqchip init'') (plat (po_irqchip_init po)),
          Checked (Some ''ipi init'') (sbi_ipi_init (fx_plat fx) (plat_init (po_ipi_init po)) h True),
          Checked (Some ''tlb init'') (sbi_tlb_init (sbi_platform_tlbr_flush_limit po) h True),
          Checked (Some ''timer init'') (step_timer_init fx h True),
          Checked (Some ''ecall init'') step_ecall_init,
          Checked (Some ''domain finalize'') (sbi_domain_finalize fx h),
          Checked (Some ''PMP configure'') (step_pmp_configure fx h),
          Checked (Some ''platform final init'') (plat (po_final_init po)),
          Print (boot_print fx 1 h),
          Print (boot_print fx 2 h),
          Print (boot_print fx 3 h)])"

fun boot_step_of :: "boot_call \<Rightarrow> machine \<Rightarrow> unit run" where
  "boot_step_of (Checked what f) = must what f"
| "boot_step_of (Print p) = p"

definition coldboot_steps :: "fw_ctx \<Rightarrow> hartid \<Rightarrow> (machine \<Rightarrow> unit run) list" where
  "coldboot_steps fx h = map boot_step_of (coldboot_calls fx h)"

definition run_steps :: "(machine \<Rightarrow> unit run) list \<Rightarrow> machine \<Rightarrow> unit run" where
  "run_steps fs m = run_fold (\<lambda>f _ m. f m) fs () m"

definition init_coldboot :: "fw_ctx \<Rightarrow> hartid \<Rightarrow> machine \<Rightarrow> unit run" where
  "init_coldboot fx h m =
     run_bind (run_steps (coldboot_steps fx h) m) (\<lambda>_ m.
     run_bind (wake_coldboot_harts h m) (\<lambda>_ m.
     run_bind (sbi_hsm_prepare_next_jump h (count_init h m)) (\<lambda>_ m.
     leave_to_next fx h m)))"

definition init_warm_startup :: "fw_ctx \<Rightarrow> hartid \<Rightarrow> machine \<Rightarrow> unit run" where
  "init_warm_startup fx h m =
     (let po = fx_ops fx; plat = (\<lambda>f m. of_pair (plat_init f False m))
      in if init_count_offset (m_init m) = 0 then Hung m
         else run_bind (run_steps
           [must None (step_hsm_init fx h False),
            must None (plat (po_early_init po)),
            must None (step_hart_init fx h False),
            must None (step_pmu_init fx h False),
            must None (plat (po_irqchip_init po)),
            must None (sbi_ipi_init (fx_plat fx) (plat_init (po_ipi_init po)) h False),
            must None (sbi_tlb_init (sbi_platform_tlbr_flush_limit po) h False),
            must None (step_timer_init fx h False),
            must None (step_pmp_configure fx h),
            must None (plat (po_final_init po))] m) (\<lambda>_ m.
           sbi_hsm_prepare_next_jump h (count_init h m)))"

definition init_warm_resume :: "fw_ctx \<Rightarrow> hartid \<Rightarrow> machine \<Rightarrow> unit run" where
  "init_warm_resume fx h m =
     run_bind (sbi_hsm_hart_resume_start h m) (\<lambda>_ m.
     run_bind (must None (\<lambda>m. case sbi_hart_reinit (p_hw (fx_plat fx)) (p_ext (fx_plat fx)) (fx_mfaults fx) (h_feat m h) (h_csr m h) of
                                (rc, c) \<Rightarrow> Ret rc (m\<lparr>h_csr := (h_csr m)(h := c)\<rparr>)) m) (\<lambda>_ m.
     run_bind (must None (step_pmp_configure fx h) m) (\<lambda>_ m.
     sbi_hsm_hart_resume_finish (fx_plat fx) h m)))"

definition init_warmboot :: "fw_ctx \<Rightarrow> hartid \<Rightarrow> machine \<Rightarrow> unit run" where
  "init_warmboot fx h m =
     run_bind (wait_for_coldboot fx h m) (\<lambda>_ m.
     case sbi_hsm_hart_get_state (sbi_domain_thishart h m) h m of
       None \<Rightarrow> Fault
     | Some hstate \<Rightarrow>
         (if hstate < 0 then Hung m
          else run_bind (if hstate = 4 then init_warm_resume fx h m else init_warm_startup fx h m) (\<lambda>_ m. leave_to_next fx h m)))"

definition sbi_init :: "fw_ctx \<Rightarrow> hartid \<Rightarrow> machine \<Rightarrow> unit run" where
  "sbi_init fx h m =
     (let pe = p_ext (fx_plat fx); c = h_csr m h; mode = next_mode m h
      in if SBI_HARTMASK_MAX_BITS \<le> h \<or> p_hart_invalid (fx_plat fx) h then Hung m
         else if mode \<noteq> PRV_M \<and> mode \<noteq> PRV_S \<and> mode \<noteq> PRV_U then Hung m
         else let next_mode_supported = (mode = PRV_M \<or> mode = PRV_S \<and> misa_extension pe CHR ''S'' c \<or> mode = PRV_U \<and> misa_extension pe CHR ''U'' c)
         in if next_mode_supported
            then case atomic_xchg 1 (coldboot_lottery (m_init m)) of (old, new) \<Rightarrow>
                   (let m = upd_init (\<lambda>s. s\<lparr>coldboot_lottery := new\<rparr>) m
                    in if old = 0 then init_coldboot fx h m else init_warmboot fx h m)
            else init_warmboot fx h m)"

section \<open>The other harts are released last\<close>

text \<open>A property of the machine however a call ends.\<close>

fun ends :: "(machine \<Rightarrow> bool) \<Rightarrow> 'a run \<Rightarrow> bool" where
  "ends P (Ret x m) = P m" | "ends P (Hung m) = P m" | "ends P (Warmboot m) = P m" | "ends P (Powered_off m) = P m"
| "ends P (Next_stage m) = P m" | "ends P (System_reset m) = P m" | "ends P (Spin m) = P m" | "ends P Fault = True"

definition not_done :: "machine \<Rightarrow> bool" where
  "not_done m \<longleftrightarrow> coldboot_done (m_init m) = 0"

lemma ends_bind: "ends P r \<Longrightarrow> (\<And>x m. P m \<Longrightarrow> ends P (f x m)) \<Longrightarrow> ends P (run_bind r f)"
  by (cases r) simp_all

lemma ends_run_opt: "(\<And>x m. r = Some (x, m) \<Longrightarrow> P m) \<Longrightarrow> ends P (run_opt r)"
  by (cases r) (auto simp: run_opt_def)

lemma not_done_upd [simp]:
  "not_done (log_ev e m) = not_done m" "not_done (upd_csr h f m) = not_done m" "not_done (upd_hsm h g m) = not_done m"
  "not_done (upd_tlb k m) = not_done m"
  by (simp_all add: not_done_def log_ev_def upd_csr_def upd_hsm_def upd_tlb_def)

lemma not_done_putc [simp]: "not_done (sbi_putc c m) = not_done m"
  by (simp add: sbi_putc_def split: option.split)

lemma not_done_puts [simp]: "not_done (sbi_puts s m) = not_done m"
  by (induction s m rule: sbi_puts.induct) simp_all

lemma ends_printf: "not_done m \<Longrightarrow> ends not_done (sbi_printf fmt args m)"
  using print_fmt_uniform [of fmt 0 args] by (auto simp: sbi_printf_def fold_printc_console)

lemma ends_must: "ends not_done (f m) \<Longrightarrow> ends not_done (must what f m)"
  unfolding must_def
  by (rule ends_bind) (auto split: option.split intro!: ends_bind ends_printf)

lemma ends_scratch_alloc: "not_done m \<Longrightarrow> ends not_done (scratch_alloc sz m)"
  by (auto simp: scratch_alloc_def not_done_def intro!: ends_run_opt)

lemma not_done_hsm_loop: "not_done (hsm_init_loop h is m) = not_done m"
  by (induction h "is" m rule: hsm_init_loop.induct) (simp_all add: Let_def)

lemma not_done_cmpxchg: "hsm_cmpxchg t a b m = (r, m') \<Longrightarrow> not_done m' = not_done m"
  by (auto simp: hsm_cmpxchg_def split: prod.splits)

lemma not_done_raw_send [simp]: "not_done (sbi_ipi_raw_send t m) = not_done m"
  by (simp add: sbi_ipi_raw_send_def split: option.split)

lemma not_done_next [simp]: "not_done (m\<lparr>next_arg1 := a, next_addr := b, next_mode := c\<rparr>) = not_done m"
  "not_done (m\<lparr>next_addr := b, next_mode := c, next_arg1 := a\<rparr>) = not_done m" "not_done (m\<lparr>m_dom := d\<rparr>) = not_done m"
  "not_done (m\<lparr>m_ipi := i\<rparr>) = not_done m"
  by (simp_all add: not_done_def)

lemma not_done_hart_start:
  assumes "sbi_hsm_hart_start pl dm t a b c m = Some (rc, m')" shows "not_done m' = not_done m"
  using assms
  by (auto simp: sbi_hsm_hart_start_def Let_def hsm_device_hart_start_def
      split: if_splits option.splits bool.splits prod.splits dest!: not_done_cmpxchg)

lemma ends_scratch_init: "not_done m \<Longrightarrow> ends not_done (step_scratch_init fx m)"
  by (simp add: step_scratch_init_def not_done_def split: prod.split)

lemma ends_domain_init: "not_done m \<Longrightarrow> ends not_done (step_domain_init fx h m)"
  by (auto simp: step_domain_init_def not_done_def intro!: ends_run_opt)

lemma ends_hsm_init: "not_done m \<Longrightarrow> ends not_done (step_hsm_init fx h True m)"
  by (auto simp: step_hsm_init_def sbi_hsm_init_def not_done_hsm_loop intro!: ends_bind ends_scratch_alloc ends_run_opt split: if_splits)

lemma ends_hart_init: "not_done m \<Longrightarrow> ends not_done (step_hart_init fx h True m)"
  by (auto simp: step_hart_init_def not_done_def [symmetric] intro!: ends_bind ends_scratch_alloc split: prod.split) (simp add: not_done_def)

lemma ends_pmu_init: "not_done m \<Longrightarrow> ends not_done (step_pmu_init fx h cold m)"
  by (auto simp: step_pmu_init_def not_done_def intro!: ends_run_opt)

lemma ends_ecall_init: "not_done m \<Longrightarrow> ends not_done (step_ecall_init m)"
  by (simp add: step_ecall_init_def not_done_def split: prod.split)

lemma ends_pmp_configure: "not_done m \<Longrightarrow> ends not_done (step_pmp_configure fx h m)"
  by (auto simp: step_pmp_configure_def not_done_def intro!: ends_run_opt split: option.split)


text \<open>Platform callbacks do not touch the flag, which is private to \<^verbatim>\<open>sbi_init.c\<close>.\<close>

definition plat_quiet :: "sbi_platform_operations \<Rightarrow> bool" where
  "plat_quiet po \<longleftrightarrow>
     (\<forall>f \<in> {po_early_init po, po_final_init po, po_irqchip_init po, po_ipi_init po, po_timer_init po}. \<forall>cold m.
        not_done (snd (plat_init f cold m)) = not_done m) \<and>
     (\<forall>f m. po_domains_init po = Some f \<or> po_console_init po = Some f \<longrightarrow> not_done (snd (f m)) = not_done m)"

lemma ends_of_pair [simp]: "ends P (of_pair r) = P (snd r)"
  by (simp add: of_pair_def split: prod.split)

lemma plat_quietD:
  assumes "plat_quiet po"
  shows "f \<in> {po_early_init po, po_final_init po, po_irqchip_init po, po_ipi_init po, po_timer_init po} \<Longrightarrow>
      not_done (snd (plat_init f cold m)) = not_done m"
    and "po_domains_init po = Some g \<Longrightarrow> not_done (snd (g m)) = not_done m"
    and "po_console_init po = Some g \<Longrightarrow> not_done (snd (g m)) = not_done m"
  using assms unfolding plat_quiet_def by blast+

lemma not_done_console: "plat_quiet po \<Longrightarrow> not_done (snd (sbi_console_init (po_console_init po) m)) = not_done m"
  by (auto simp: sbi_console_init_def plat_quietD(3) split: option.split)

lemma not_done_offsets [simp]:
  "not_done (upd_init (time_delta_off_update f) m) = not_done m" "not_done (upd_init (init_count_offset_update f) m) = not_done m"
  by (simp_all add: not_done_def upd_init_def)

lemma ends_ipi_init_hart: "plat_quiet po \<Longrightarrow> not_done m \<Longrightarrow> ends not_done (ipi_init_hart pl (plat_init (po_ipi_init po)) h True m)"
  using plat_quietD(1) [of po "po_ipi_init po" True "m\<lparr>ipi_type := (ipi_type m)(h := 0)\<rparr>"]
  by (auto simp: ipi_init_hart_def Let_def not_done_def [of "ipi_type_update _ _"] not_done_def [symmetric] split: prod.splits)

lemma ends_ipi_init: "plat_quiet po \<Longrightarrow> not_done m \<Longrightarrow> ends not_done (sbi_ipi_init pl (plat_init (po_ipi_init po)) h True m)"
  unfolding sbi_ipi_init_def
  by (simp, rule ends_bind [OF ends_scratch_alloc]) (auto simp: Let_def ends_ipi_init_hart split: prod.split)

lemma ends_tlb_init_hart: "not_done m \<Longrightarrow> ends not_done (tlb_init_hart h m)"
  by (auto simp: tlb_init_hart_def Let_def upd_sync_def upd_fifo_def not_done_def split: option.split)

lemma ends_tlb_init: "not_done m \<Longrightarrow> ends not_done (sbi_tlb_init limit h True m)"
  unfolding sbi_tlb_init_def Let_def
  by (auto intro!: ends_bind ends_scratch_alloc ends_tlb_init_hart split: prod.split)

lemma ends_timer_init: "plat_quiet (fx_ops fx) \<Longrightarrow> not_done m \<Longrightarrow> ends not_done (step_timer_init fx h True m)"
proof -
  assume q: "plat_quiet (fx_ops fx)" and m: "not_done m"
  have t: "not_done m \<Longrightarrow> not_done (snd (sbi_timer_init (plat_init (po_timer_init (fx_ops fx))) off h True m))" for off m
    using plat_quietD(1) [OF q] by (simp add: sbi_timer_init_def Let_def not_done_def)
  show ?thesis unfolding step_timer_init_def
    by (intro ends_bind) (auto simp: t m intro!: ends_bind ends_scratch_alloc)
qed

lemma ends_domain_loop: "not_done m \<Longrightarrow> ends not_done (domain_boot_loop fx h ds m)"
proof (induction ds arbitrary: m)
  case (Cons d ds)
  have start: "ends not_done (run_opt (sbi_hsm_hart_start pl None t a b c m))" for pl t a b c
    using Cons.prems by (auto intro!: ends_run_opt simp: not_done_hart_start)
  show ?case
    unfolding domain_boot_loop.simps Let_def
    by (auto simp: Cons intro!: ends_bind start ends_printf split: option.split)
qed simp

lemma ends_domain_finalize: "plat_quiet (fx_ops fx) \<Longrightarrow> not_done m \<Longrightarrow> ends not_done (sbi_domain_finalize fx h m)"
proof -
  assume q: "plat_quiet (fx_ops fx)" and m: "not_done m"
  obtain rc m1 where r: "(case po_domains_init (fx_ops fx) of Some f \<Rightarrow> f m | None \<Rightarrow> (0, m)) = (rc, m1)" by fastforce
  have "not_done m1" using plat_quietD(2) [OF q, of _ m] r m by (auto split: option.splits)
  then show ?thesis unfolding sbi_domain_finalize_def r
    by (auto split: option.split intro!: ends_bind ends_printf ends_domain_loop)
qed

lemma ends_run_steps:
  "(\<And>f m. f \<in> set fs \<Longrightarrow> not_done m \<Longrightarrow> ends not_done (f m)) \<Longrightarrow> not_done m \<Longrightarrow> ends not_done (run_steps fs m)"
proof (induction fs arbitrary: m)
  case (Cons f fs)
  then show ?case by (auto simp: run_steps_def intro!: ends_bind)
qed (simp add: run_steps_def)

lemma ends_coldboot_steps: "plat_quiet (fx_ops fx) \<Longrightarrow> not_done m \<Longrightarrow> ends not_done (run_steps (coldboot_steps fx h) m)"
proof (rule ends_run_steps)
  fix f m assume q: "plat_quiet (fx_ops fx)" and f: "f \<in> set (coldboot_steps fx h)" and m: "not_done m"
  note plat = plat_quietD(1) [OF q]
  have off: "ends not_done (run_bind (scratch_alloc 8 m) (\<lambda>off m. Ret (if off = 0 then SBI_ENOMEM else 0) (upd_init (\<lambda>s. s\<lparr>init_count_offset := off\<rparr>) m)))"
    by (rule ends_bind [OF ends_scratch_alloc [OF m]]) simp
  have print: "ends not_done (boot_print fx k h m)" for k using m by (simp add: boot_print_def)
  from f show "ends not_done (f m)"
    unfolding coldboot_steps_def coldboot_calls_def Let_def list.map boot_step_of.simps set_simps
    using m q off print
    by (elim insertE emptyE; simp add: ends_must plat not_done_console ends_scratch_init ends_domain_init ends_hsm_init ends_hart_init
        ends_pmu_init ends_ipi_init ends_tlb_init ends_timer_init ends_ecall_init ends_domain_finalize ends_pmp_configure)
qed


lemma wake_loop_eq:
  assumes "length hmask = 2"
  shows "wake_loop h hmask is m = Ret () (fold sbi_ipi_raw_send (filter (\<lambda>i. i \<noteq> h \<and> i < 128 \<and> bitmap_bit hmask i) is) m)"
proof (induction "is" arbitrary: m)
  case (Cons i js)
  have "sbi_hartmask_test_hart i hmask = Some (i < 128 \<and> bitmap_bit hmask i)"
    using test_bit_at_bits [of i hmask] assms by (simp add: sbi_hartmask_test_hart_def)
  then show ?case using Cons by simp
qed simp

lemma fold_raw_send:
  assumes "ipi_dev m = Some d" "has_ipi_send d"
  shows "fold sbi_ipi_raw_send is m = m\<lparr>m_log := m_log m @ map Ev_ipi_send is\<rparr>"
  using assms by (induction "is" arbitrary: m) (simp_all add: sbi_ipi_raw_send_def log_ev_def)

text \<open>A sequence of calls that all succeed: what the boot needs, stated without the way the code checks it.\<close>

fun calls_succeed :: "boot_call list \<Rightarrow> machine \<Rightarrow> machine \<Rightarrow> bool" where
  "calls_succeed [] m m' \<longleftrightarrow> m' = m"
| "calls_succeed (Checked what f # cs) m m' \<longleftrightarrow> (\<exists>m1. f m = Ret 0 m1 \<and> calls_succeed cs m1 m')"
| "calls_succeed (Print p # cs) m m' \<longleftrightarrow> (\<exists>u m1. p m = Ret u m1 \<and> calls_succeed cs m1 m')"

text \<open>A call that returns an error code: all the calls before it succeed.\<close>

definition call_fails :: "boot_call list \<Rightarrow> machine \<Rightarrow> bool" where
  "call_fails cs m \<longleftrightarrow> (\<exists>pre what f post m1 rc m2. cs = pre @ Checked what f # post \<and> calls_succeed pre m m1 \<and> f m1 = Ret rc m2 \<and> rc \<noteq> 0)"

lemma must_eq_Ret: "must what f m = Ret u m1 \<longleftrightarrow> f m = Ret 0 m1"
  by (auto simp: must_def run_bind_eq_Ret split: if_splits option.splits)

lemma run_steps_calls: "run_steps (map boot_step_of cs) m = Ret u m1 \<longleftrightarrow> calls_succeed cs m m1"
proof (induction cs arbitrary: m)
  case (Cons c cs)
  have "run_steps (map boot_step_of (c # cs)) m = run_bind (boot_step_of c m) (\<lambda>_. run_steps (map boot_step_of cs))"
    by (simp add: run_steps_def [abs_def])
  then show ?case using Cons by (cases c) (auto simp: run_bind_eq_Ret must_eq_Ret)
qed (auto simp: run_steps_def)

lemma run_steps_append: "run_steps (fs @ gs) m = run_bind (run_steps fs m) (\<lambda>_. run_steps gs)"
proof (induction fs arbitrary: m)
  case (Cons f fs)
  show ?case using Cons by (cases "f m") (simp_all add: run_steps_def)
qed (simp add: run_steps_def)

text \<open>The reports of a failed call are printed without a fault.\<close>

lemma print_fmt_plain:
  "CHR ''%'' \<notin> set s \<Longrightarrow> print_fmt (s @ f) acnt args pc (Console m) = print_fmt f acnt args (pc + int (length s)) (Console (sbi_puts s m))"
proof (induction s arbitrary: pc m)
  case (Cons c s)
  then have "c \<noteq> CHR ''%''" by auto
  then have "print_fmt ((c # s) @ f) acnt args pc (Console m) = print_fmt (s @ f) acnt args (pc + 1) (printc c (Console m))"
    by (subst print_fmt.simps) simp
  with Cons show ?case by (simp add: add.assoc)
qed simp

lemma print_fmt_str:
  "\<exists>n m'. print_fmt (''%s'' @ f) acnt (Va_str (Some s) # args) pc (Console m) = print_fmt f (acnt + 8) args n (Console m')"
proof -
  have "print_fmt (''%s'' @ f) acnt (Va_str (Some s) # args) pc (Console m) =
      print_fmt f (acnt + 8) args (pc + int (length (layout s 0 0))) (Console (sbi_puts (layout s 0 0) m))"
    by (subst print_fmt.simps) (simp add: print_conv_def conv_text_def prints_eq fold_printc_console)
  then show ?thesis by blast
qed

lemma printi_console: "\<exists>n m'. printi i 10 True 0 0 (CHR ''0'') (Console m) = Some (n, Console m')"
proof -
  have r: "radix_ok 10 (CHR ''0'')" by (simp add: radix_ok_def)
  show ?thesis using printi_digits [OF r, of i] printi_digits [OF r, of "- i"]
    by (auto simp: printi_def Let_def push_front_def prints_eq fold_printc_console)
qed

lemma print_fmt_int:
  "\<exists>n m'. print_fmt (''%d'' @ f) acnt (Va_num w # args) pc (Console m) = print_fmt f (acnt + 4) args n (Console m')"
proof -
  from printi_console [of "va_int w" m] obtain n m' where p: "printi (va_int w) 10 True 0 0 (CHR ''0'') (Console m) = Some (n, Console m')" by blast
  have "print_fmt (''%d'' @ f) acnt (Va_num w # args) pc (Console m) = print_fmt f (acnt + 4) args (pc + n) (Console m')"
    by (subst print_fmt.simps) (simp add: print_conv_def conv_num_def p)
  then show ?thesis by blast
qed

lemma must_report:
  assumes "CHR ''%'' \<notin> set w"
  shows "\<exists>n m'. sbi_printf (''%s: '' @ w @ '' failed (error %d)'' @ newline) [Va_str (Some s), Va_num v] m = Ret n m'"
proof -
  let ?tail = "'')'' @ newline"
  have f: "''%s: '' @ w @ '' failed (error %d)'' @ newline = ''%s'' @ ('': '' @ w @ '' failed (error '') @ ''%d'' @ ?tail @ []" by simp
  have nl: "CHR ''%'' \<notin> set newline" by (simp add: newline_def) code_simp
  obtain n1 m1 where 1: "print_fmt (''%s'' @ ('': '' @ w @ '' failed (error '') @ ''%d'' @ ?tail @ []) 0 [Va_str (Some s), Va_num v] 0 (Console m) =
      print_fmt (('': '' @ w @ '' failed (error '') @ ''%d'' @ ?tail @ []) (0 + 8) [Va_num v] n1 (Console m1)" using print_fmt_str by blast
  have "CHR ''%'' \<notin> set ('': '' @ w @ '' failed (error '')" using assms by simp
  from print_fmt_plain [OF this] obtain n2 m2 where 2: "print_fmt (('': '' @ w @ '' failed (error '') @ ''%d'' @ ?tail @ []) (0 + 8) [Va_num v] n1 (Console m1) =
      print_fmt (''%d'' @ ?tail @ []) (0 + 8) [Va_num v] n2 (Console m2)" by blast
  obtain n3 m3 where 3: "print_fmt (''%d'' @ ?tail @ []) (0 + 8) [Va_num v] n2 (Console m2) = print_fmt (?tail @ []) (0 + 8 + 4) [] n3 (Console m3)"
    using print_fmt_int by blast
  have 4: "print_fmt (?tail @ []) (0 + 8 + 4) [] n3 (Console m3) = print_fmt [] (0 + 8 + 4) [] (n3 + int (length ?tail)) (Console (sbi_puts ?tail m3))"
    by (rule print_fmt_plain) (simp add: nl)
  have 5: "print_fmt [] (0 + 8 + 4) [] (n3 + int (length ?tail)) (Console (sbi_puts ?tail m3)) = Some (n3 + int (length ?tail), Console (sbi_puts ?tail m3))"
    by (simp add: print_fmt.simps)
  show ?thesis unfolding sbi_printf_def f 1 2 3 4 5 by simp
qed

lemma call_fails_hangs:
  assumes fail: "call_fails cs m" and texts: "\<forall>w f. Checked (Some w) f \<in> set cs \<longrightarrow> CHR ''%'' \<notin> set w"
  shows "\<exists>m'. run_steps (map boot_step_of cs) m = Hung m'"
proof -
  from fail obtain pre what f post m1 rc m2 where cs: "cs = pre @ Checked what f # post" and pre: "calls_succeed pre m m1"
    and f: "f m1 = Ret rc m2" "rc \<noteq> 0" unfolding call_fails_def by blast
  have "\<exists>m'. must what f m1 = Hung m'"
  proof (cases what)
    case (Some w)
    then have "CHR ''%'' \<notin> set w" using texts cs by auto
    from must_report [OF this, of "''init_coldboot''" "word_of_int rc" m2] obtain n m' where
      "sbi_printf (''%s: '' @ w @ '' failed (error %d)'' @ newline) [Va_str (Some ''init_coldboot''), Va_num (word_of_int rc)] m2 = Ret n m'" by blast
    then show ?thesis using f Some unfolding must_def by simp
  qed (simp add: must_def f)
  moreover have "run_steps (map boot_step_of cs) m = run_steps (map boot_step_of (Checked what f # post)) m1"
    using run_steps_calls [of pre m "()" m1] pre by (simp add: cs run_steps_append)
  ultimately show ?thesis by (auto simp: run_steps_def)
qed

lemma coldboot_texts: "\<forall>w f. Checked (Some w) f \<in> set (coldboot_calls fx h) \<longrightarrow> CHR ''%'' \<notin> set w"
  by (auto simp: coldboot_calls_def Let_def)

text \<open>
  C23. The order of the cold boot: a hart is released only after every initialisation call has returned zero, whatever the platform's callbacks
  do. If a call returns an error code the boot hart hangs, and whenever not all of the calls succeed the flag stays clear, so that no hart
  leaves its wait on a half-initialised system. If all calls succeed the flag is set, every hart that was marked as waiting gets exactly one
  interrupt, and the boot hart counts its initialisation and leaves through the state machine of the harts.
\<close>

theorem coldboot_releases_last:
  assumes "plat_quiet (fx_ops fx)" and "coldboot_done (m_init m) = 0"
  shows "(call_fails (coldboot_calls fx h) m \<longrightarrow> (\<exists>m'. init_coldboot fx h m = Hung m' \<and> coldboot_done (m_init m') = 0)) \<and>
    ((\<forall>m1. \<not> calls_succeed (coldboot_calls fx h) m m1) \<longrightarrow> ends (\<lambda>m'. coldboot_done (m_init m') = 0) (init_coldboot fx h m)) \<and>
    (\<forall>m1 d. calls_succeed (coldboot_calls fx h) m m1 \<and> length (coldboot_wait_hmask (m_init m1)) = 2 \<and> ipi_dev m1 = Some d \<and> has_ipi_send d \<longrightarrow>
      (\<exists>m2. coldboot_done (m_init m1) = 0 \<and> coldboot_done (m_init m2) = 1 \<and>
        m_log m2 = m_log m1 @ map Ev_ipi_send
          (filter (\<lambda>i. i \<noteq> h \<and> i < 128 \<and> bitmap_bit (coldboot_wait_hmask (m_init m1)) i) [0..<last_hartid m1 + 1]) \<and>
        init_coldboot fx h m = run_bind (sbi_hsm_prepare_next_jump h (count_init h m2)) (\<lambda>_. leave_to_next fx h)))"
proof (intro conjI impI allI)
  have nd: "(\<lambda>m'. coldboot_done (m_init m') = 0) = not_done" by (simp add: fun_eq_iff not_done_def)
  have e: "ends not_done (run_steps (coldboot_steps fx h) m)" using ends_coldboot_steps assms by (simp add: not_done_def)
  note calls = run_steps_calls [of "coldboot_calls fx h" m, folded coldboot_steps_def]
  show "\<exists>m'. init_coldboot fx h m = Hung m' \<and> coldboot_done (m_init m') = 0" if "call_fails (coldboot_calls fx h) m"
    using call_fails_hangs [OF that coldboot_texts, folded coldboot_steps_def] e by (auto simp: init_coldboot_def not_done_def)
  show "ends (\<lambda>m'. coldboot_done (m_init m') = 0) (init_coldboot fx h m)" if "\<forall>m1. \<not> calls_succeed (coldboot_calls fx h) m m1"
    using that e calls unfolding nd init_coldboot_def by (cases "run_steps (coldboot_steps fx h) m") auto
  fix m1 d
  assume s: "calls_succeed (coldboot_calls fx h) m m1 \<and> length (coldboot_wait_hmask (m_init m1)) = 2 \<and> ipi_dev m1 = Some d \<and> has_ipi_send d"
  then have r: "run_steps (coldboot_steps fx h) m = Ret () m1" using calls by blast
  let ?f = "\<lambda>s. s\<lparr>coldboot_done := 1, coldboot_lock := snd (spin_lock_amoadd (coldboot_lock s))\<rparr>"
  let ?is = "filter (\<lambda>i. i \<noteq> h \<and> i < 128 \<and> bitmap_bit (coldboot_wait_hmask (m_init m1)) i) [0..<last_hartid m1 + 1]"
  let ?m2 = "upd_init (\<lambda>s. s\<lparr>coldboot_lock := spin_unlock (coldboot_lock s)\<rparr>) ((upd_init ?f m1)\<lparr>m_log := m_log m1 @ map Ev_ipi_send ?is\<rparr>)"
  have "wake_coldboot_harts h m1 = Ret () ?m2"
    using s fold_raw_send [of "upd_init ?f m1" d ?is] by (simp add: wake_coldboot_harts_def wake_loop_eq upd_init_def Let_def)
  then show "\<exists>m2. coldboot_done (m_init m1) = 0 \<and> coldboot_done (m_init m2) = 1 \<and> m_log m2 = m_log m1 @ map Ev_ipi_send ?is \<and>
        init_coldboot fx h m = run_bind (sbi_hsm_prepare_next_jump h (count_init h m2)) (\<lambda>_. leave_to_next fx h)"
    using r e by (intro exI [of _ ?m2]) (simp add: init_coldboot_def upd_init_def not_done_def)
qed

text \<open>A cold boot that finds no room in the scratch space hangs.\<close>

definition boot_example :: machine where
  "boot_example = machine_boot\<lparr>m_scr := scratch_boot\<lparr>extra_offset := 0x1000\<rparr>, next_mode := (\<lambda>_. PRV_S), next_addr := (\<lambda>_. 0x80200000)\<rparr>"

definition fx_boot_example :: fw_ctx where
  "fx_boot_example = fx_example\<lparr>fx_plat := plat_example\<lparr>p_hart_invalid := (\<lambda>h. 1 < h)\<rparr>, fx_to_scratch := (\<lambda>h. if h < 2 then Some [] else None)\<rparr>"

theorem coldboot_releases_last_witness:
  "\<exists>m'. init_coldboot fx_boot_example 0 boot_example = Hung m' \<and> coldboot_done (m_init m') = 0"
proof -
  have q: "plat_quiet (fx_ops fx_boot_example)"
    by (simp add: plat_quiet_def fx_boot_example_def fx_example_def no_platform_ops_def plat_init_def)
  have d: "coldboot_done (m_init boot_example) = 0" by (simp add: boot_example_def machine_boot_def)
  have e: "(case run_steps (coldboot_steps fx_boot_example 0) boot_example of Hung _ \<Rightarrow> True | _ \<Rightarrow> False)" by code_simp
  then obtain m' where r: "run_steps (coldboot_steps fx_boot_example 0) boot_example = Hung m'" by (auto split: run.splits)
  then have "\<forall>m1. \<not> calls_succeed (coldboot_calls fx_boot_example 0) boot_example m1"
    using run_steps_calls [of "coldboot_calls fx_boot_example 0" boot_example] by (auto simp: coldboot_steps_def)
  then show ?thesis using coldboot_releases_last [OF q d, of 0] r by (simp add: init_coldboot_def)
qed

end
