(* ===== verification/Sbi_Boot_System.thy ===== *)
theory Sbi_Boot_System
  imports Sbi_Init
begin

text \<open>
  The start of all harts together (\<^verbatim>\<open>sbi_init\<close>, \<^verbatim>\<open>wait_for_coldboot\<close> and \<^verbatim>\<open>wake_coldboot_harts\<close> in \<^verbatim>\<open>lib/sbi/sbi_init.c\<close>) as a step relation: every
  access to the lottery, to the flag, to the mask of waiting harts and to a software interrupt is a step of one
  hart, and the steps of the harts interleave in any order. The mask is only accessed under the lock; by the mutual exclusion of
  \<^verbatim>\<open>Riscv_Locks\<close> an update under the lock is one step, enabled while nobody else holds it. The loop that wakes the
  harts holds the lock for many steps.
\<close>

section \<open>The step relation\<close>

datatype boot_pc =
    B_reset \<comment> \<open>entry of \<^verbatim>\<open>sbi_init\<close>\<close>
  | B_mark \<comment> \<open>before marking itself as waiting\<close>
  | B_check \<comment> \<open>before reading the flag\<close>
  | B_wfi \<comment> \<open>waiting for a software interrupt\<close>
  | B_unmark \<comment> \<open>before clearing its mark\<close>
  | B_warm \<comment> \<open>in the warm boot\<close>
  | B_cold \<comment> \<open>in the steps of the cold boot\<close>
  | B_hung \<comment> \<open>after a failed step of the cold boot\<close>
  | B_lock \<comment> \<open>flag set, before taking the lock\<close>
  | B_wake nat \<comment> \<open>in the loop over the waiting harts\<close>
  | B_left \<comment> \<open>past \<^verbatim>\<open>wake_coldboot_harts\<close>\<close>

record boot_net =
  b_pc :: "hartid \<Rightarrow> boot_pc"
  b_lottery :: ulong
  b_done :: ulong
  b_mask :: "hartid set"
  b_msip :: "hartid set"
  b_lock :: "hartid option"

definition b_goto :: "hartid \<Rightarrow> boot_pc \<Rightarrow> boot_net \<Rightarrow> boot_net" where
  "b_goto h p s = s\<lparr>b_pc := (b_pc s)(h := p)\<rparr>"

definition boot_start :: boot_net where
  "boot_start = \<lparr>b_pc = (\<lambda>_. B_reset), b_lottery = 0, b_done = 0, b_mask = {}, b_msip = {}, b_lock = None\<rparr>"

text \<open>
  A step of hart \<open>h\<close>. \<open>lasth\<close> is the last hart with a scratch space and \<open>spt\<close> tells which harts support the mode of the next
  stage and so may win the lottery. Only the waking loop raises software interrupts: a hart that waits cannot wake itself.
\<close>

inductive boot_step :: "nat \<Rightarrow> (hartid \<Rightarrow> bool) \<Rightarrow> hartid \<Rightarrow> boot_net \<Rightarrow> boot_net \<Rightarrow> bool" for lasth spt h where
  draw: "h \<le> lasth \<Longrightarrow> b_pc s h = B_reset \<Longrightarrow> spt h \<Longrightarrow> atomic_xchg 1 (b_lottery s) = (old, new) \<Longrightarrow>
    boot_step lasth spt h s (b_goto h (if old = 0 then B_cold else B_mark) (s\<lparr>b_lottery := new\<rparr>))"
| no_draw: "h \<le> lasth \<Longrightarrow> b_pc s h = B_reset \<Longrightarrow> \<not> spt h \<Longrightarrow> boot_step lasth spt h s (b_goto h B_mark s)"
| mark: "b_pc s h = B_mark \<Longrightarrow> b_lock s = None \<Longrightarrow> boot_step lasth spt h s (b_goto h B_check (s\<lparr>b_mask := insert h (b_mask s)\<rparr>))"
| check: "b_pc s h = B_check \<Longrightarrow> boot_step lasth spt h s (b_goto h (if b_done s \<noteq> 0 then B_unmark else B_wfi) s)"
| woken: "b_pc s h = B_wfi \<Longrightarrow> h \<in> b_msip s \<Longrightarrow> boot_step lasth spt h s (b_goto h B_check s)"
| unmark: "b_pc s h = B_unmark \<Longrightarrow> b_lock s = None \<Longrightarrow> boot_step lasth spt h s (b_goto h B_warm (s\<lparr>b_mask := b_mask s - {h}\<rparr>))"
| cold_fails: "b_pc s h = B_cold \<Longrightarrow> boot_step lasth spt h s (b_goto h B_hung s)"
| cold_done: "b_pc s h = B_cold \<Longrightarrow> boot_step lasth spt h s (b_goto h B_lock (s\<lparr>b_done := 1\<rparr>))"
| lock: "b_pc s h = B_lock \<Longrightarrow> b_lock s = None \<Longrightarrow> boot_step lasth spt h s (b_goto h (B_wake 0) (s\<lparr>b_lock := Some h\<rparr>))"
| wake: "b_pc s h = B_wake i \<Longrightarrow> i \<le> lasth \<Longrightarrow>
    boot_step lasth spt h s (b_goto h (B_wake (i + 1)) (s\<lparr>b_msip := if i \<noteq> h \<and> i \<in> b_mask s then insert i (b_msip s) else b_msip s\<rparr>))"
| unlock: "b_pc s h = B_wake i \<Longrightarrow> lasth < i \<Longrightarrow> boot_step lasth spt h s (b_goto h B_left (s\<lparr>b_lock := None\<rparr>))"

text \<open>
  The reachable states. Between the steps of the harts the environment may leave an interrupt pending for any hart, so that a
  hart may also stop waiting too early; this is no step of a hart.
\<close>

inductive boot_reach :: "nat \<Rightarrow> (hartid \<Rightarrow> bool) \<Rightarrow> boot_net \<Rightarrow> bool" for lasth spt where
  start: "boot_reach lasth spt boot_start"
| step: "boot_reach lasth spt s \<Longrightarrow> boot_step lasth spt h s s' \<Longrightarrow> boot_reach lasth spt s'"
| spurious: "boot_reach lasth spt s \<Longrightarrow> boot_reach lasth spt (s\<lparr>b_msip := insert h (b_msip s)\<rparr>)"

section \<open>Invariant\<close>

fun won :: "boot_pc \<Rightarrow> bool" where
  "won B_cold = True" | "won B_hung = True" | "won B_lock = True" | "won (B_wake i) = True" | "won B_left = True" | "won _ = False"

fun released :: "boot_pc \<Rightarrow> bool" where
  "released B_lock = True" | "released (B_wake i) = True" | "released B_left = True" | "released _ = False"

text \<open>The invariant in parts: the winner of the lottery, the mask, the flag, the lock, the interrupts and the harts that take part.\<close>

definition inv_winner :: "boot_net \<Rightarrow> bool" where
  "inv_winner s \<longleftrightarrow> (\<forall>h h'. won (b_pc s h) \<longrightarrow> won (b_pc s h') \<longrightarrow> h = h') \<and> (b_lottery s \<noteq> 0 \<longleftrightarrow> (\<exists>h. won (b_pc s h)))"

definition inv_mask :: "boot_net \<Rightarrow> bool" where
  "inv_mask s \<longleftrightarrow> (\<forall>h. b_pc s h = B_check \<or> b_pc s h = B_wfi \<or> b_pc s h = B_unmark \<longrightarrow> h \<in> b_mask s)"

definition inv_done :: "boot_net \<Rightarrow> bool" where
  "inv_done s \<longleftrightarrow> (\<forall>h. b_pc s h = B_unmark \<or> b_pc s h = B_warm \<longrightarrow> b_done s \<noteq> 0) \<and> (b_done s \<noteq> 0 \<longleftrightarrow> (\<exists>h. released (b_pc s h)))"

definition inv_lock :: "boot_net \<Rightarrow> bool" where
  "inv_lock s \<longleftrightarrow> (\<forall>h. b_lock s = Some h \<longleftrightarrow> (\<exists>i. b_pc s h = B_wake i))"

definition inv_woken :: "boot_net \<Rightarrow> bool" where
  "inv_woken s \<longleftrightarrow>
     (\<forall>h i k. b_pc s h = B_wake i \<longrightarrow> k < i \<longrightarrow> b_pc s k = B_wfi \<longrightarrow> k \<in> b_msip s) \<and>
     (\<forall>h k. b_pc s h = B_left \<longrightarrow> b_pc s k = B_wfi \<longrightarrow> k \<in> b_msip s)"

definition inv_range :: "nat \<Rightarrow> boot_net \<Rightarrow> bool" where
  "inv_range lasth s \<longleftrightarrow> (\<forall>h. b_pc s h \<noteq> B_reset \<longrightarrow> h \<le> lasth)"

definition boot_inv :: "nat \<Rightarrow> boot_net \<Rightarrow> bool" where
  "boot_inv lasth s \<longleftrightarrow> inv_winner s \<and> inv_mask s \<and> inv_done s \<and> inv_lock s \<and> inv_woken s \<and> inv_range lasth s"

lemmas boot_invs = inv_winner_def inv_mask_def inv_done_def inv_lock_def inv_woken_def inv_range_def

lemma boot_inv_start: "boot_inv lasth boot_start"
  by (simp add: boot_inv_def boot_invs boot_start_def)

lemma b_goto_simps [simp]:
  "b_pc (b_goto h p s) k = (if k = h then p else b_pc s k)" "b_lottery (b_goto h p s) = b_lottery s" "b_done (b_goto h p s) = b_done s"
  "b_mask (b_goto h p s) = b_mask s" "b_msip (b_goto h p s) = b_msip s" "b_lock (b_goto h p s) = b_lock s"
  by (simp_all add: b_goto_def)

lemma won_step:
  assumes "boot_step lasth spt h s s'"
  shows "(\<forall>k. won (b_pc s' k) = won (b_pc s k)) \<and> (b_lottery s' = 0 \<longleftrightarrow> b_lottery s = 0) \<or>
    b_lottery s = 0 \<and> b_lottery s' \<noteq> 0 \<and> (\<forall>k. won (b_pc s' k) \<longleftrightarrow> k = h \<or> won (b_pc s k))"
  using assms by (cases rule: boot_step.cases) (auto simp: atomic_xchg_def)

lemma inv_winner_step: "boot_step lasth spt h s s' \<Longrightarrow> inv_winner s \<Longrightarrow> inv_winner s'"
  using won_step [of lasth spt h s s'] by (auto simp: inv_winner_def)

lemma inv_mask_step: "boot_step lasth spt h s s' \<Longrightarrow> inv_mask s \<Longrightarrow> inv_mask s'"
  by (erule boot_step.cases) (auto simp: inv_mask_def)

lemma inv_lock_step: "boot_step lasth spt h s s' \<Longrightarrow> inv_lock s \<Longrightarrow> inv_lock s'"
  by (erule boot_step.cases) (auto simp: inv_lock_def, metis option.inject)

lemma released_step:
  assumes "boot_step lasth spt h s s'"
  shows "(\<forall>k. released (b_pc s' k) = released (b_pc s k)) \<and> b_done s' = b_done s \<or> released (b_pc s' h) \<and> b_done s' \<noteq> 0"
  using assms by (cases rule: boot_step.cases) (auto simp: atomic_xchg_def)

lemma inv_done_step: "boot_step lasth spt h s s' \<Longrightarrow> inv_done s \<Longrightarrow> inv_done s'"
proof -
  assume st: "boot_step lasth spt h s s'" and i: "inv_done s"
  have "b_done s' \<noteq> 0" if "b_pc s' k = B_unmark \<or> b_pc s' k = B_warm" for k
    using st i that by (cases rule: boot_step.cases) (auto simp: inv_done_def split: if_splits)
  then show ?thesis using released_step [OF st] i by (auto simp: inv_done_def)
qed

lemma inv_range_step: "boot_step lasth spt h s s' \<Longrightarrow> inv_range lasth s \<Longrightarrow> inv_range lasth s'"
  by (erule boot_step.cases) (auto simp: inv_range_def)

text \<open>Once the flag is set nobody starts to wait, and the loop passes every hart that waits.\<close>

lemma inv_woken_step:
  assumes st: "boot_step lasth spt h s s'" and i: "boot_inv lasth s" shows "inv_woken s'"
proof -
  note I = i [unfolded boot_inv_def]
  have d: "released (b_pc s c) \<Longrightarrow> b_done s \<noteq> 0" for c using I by (auto simp: inv_done_def)
  have one: "won (b_pc s c) \<Longrightarrow> won (b_pc s c') \<Longrightarrow> c = c'" for c c' using I unfolding inv_winner_def by blast
  from st show ?thesis
  proof (cases rule: boot_step.cases)
    case (check)
    have "b_pc s c = B_wake i \<or> b_pc s c = B_left \<Longrightarrow> b_done s \<noteq> 0" for c i using d [of c] by auto
    then show ?thesis using check I by (auto simp: inv_woken_def)
  next
    case (wake i)
    have "b_pc s i = B_wfi \<Longrightarrow> i \<noteq> h \<and> i \<in> b_mask s" using wake I by (auto simp: inv_mask_def)
    then show ?thesis using wake I one [of h] by (auto simp: inv_woken_def less_Suc_eq)
  next
    case (unlock i)
    have "k < i" if "b_pc s k = B_wfi" for k
    proof -
      have "k \<le> lasth" using I that boot_pc.distinct by (auto simp: inv_range_def)
      then show ?thesis using unlock by simp
    qed
    then show ?thesis using unlock I one [of h] by (auto simp: inv_woken_def)
  qed (use I in \<open>auto simp: inv_woken_def\<close>)
qed

lemma boot_reach_inv: "boot_reach lasth spt s \<Longrightarrow> boot_inv lasth s"
proof (induction rule: boot_reach.induct)
  case (step s h s')
  then show ?case
    using inv_woken_step [of lasth spt h s s']
    by (auto simp: boot_inv_def dest: inv_winner_step inv_mask_step inv_done_step inv_lock_step inv_range_step)
next
  case (spurious s h)
  then show ?case by (auto simp: boot_inv_def boot_invs)
qed (rule boot_inv_start)

section \<open>One cold boot, and nobody is left waiting\<close>

text \<open>
  C22. In every interleaving at most one hart runs the cold boot, and no hart enters the warm boot before that hart has completed
  all its steps and set the flag; while the waking loop runs nobody changes the mask.
\<close>

theorem one_coldboot_before_warmboots:
  assumes "boot_reach lasth spt s"
  shows "(\<forall>h h'. won (b_pc s h) \<and> won (b_pc s h') \<longrightarrow> h = h') \<and>
    (\<forall>h. b_pc s h = B_warm \<longrightarrow> b_done s \<noteq> 0 \<and> (\<exists>c. released (b_pc s c))) \<and>
    (\<forall>c i h s'. b_pc s c = B_wake i \<and> boot_step lasth spt h s s' \<longrightarrow> b_mask s' = b_mask s)"
proof (intro conjI allI impI)
  note I = boot_reach_inv [OF assms, unfolded boot_inv_def]
  show "h = h'" if "won (b_pc s h) \<and> won (b_pc s h')" for h h' using I that by (simp add: inv_winner_def)
  show "b_done s \<noteq> 0" if "b_pc s h = B_warm" for h using I that by (auto simp: inv_done_def)
  show "\<exists>c. released (b_pc s c)" if "b_pc s h = B_warm" for h using I that by (auto simp: inv_done_def)
  show "b_mask s' = b_mask s" if "b_pc s c = B_wake i \<and> boot_step lasth spt h s s'" for c i h s'
  proof -
    have "b_lock s = Some c" using I that by (auto simp: inv_lock_def)
    moreover have "boot_step lasth spt h s s'" using that by simp
    ultimately show ?thesis by (auto elim: boot_step.cases)
  qed
qed

text \<open>The steps a hart takes by itself once the cold boot hart has left.\<close>

fun b_rank :: "boot_pc \<Rightarrow> nat" where
  "b_rank B_reset = 5" | "b_rank B_mark = 4" | "b_rank B_wfi = 3" | "b_rank B_check = 2" | "b_rank B_unmark = 1" | "b_rank _ = 0"

lemma left_progress:
  assumes i: "boot_inv lasth s" and c: "b_pc s c = B_left" and h: "h \<le> lasth" "h \<noteq> c" and w: "b_pc s h \<noteq> B_warm"
  shows "\<exists>s'. boot_step lasth spt h s s' \<and> b_pc s' c = B_left \<and> b_rank (b_pc s' h) < b_rank (b_pc s h)"
proof -
  note I = i [unfolded boot_inv_def]
  have one: "\<not> won (b_pc s h)" using I c h(2) unfolding inv_winner_def by (metis won.simps(5))
  have d: "b_done s \<noteq> 0" using I c released.simps(3) unfolding inv_done_def by metis
  have l: "b_lottery s \<noteq> 0" using I c won.simps(5) unfolding inv_winner_def by metis
  have free: "b_lock s = None"
  proof (rule ccontr)
    assume "b_lock s \<noteq> None"
    then obtain k i where k: "b_pc s k = B_wake i" using I by (auto simp: inv_lock_def)
    then have "k = c" using I c unfolding inv_winner_def by (metis won.simps(4,5))
    with k c show False by simp
  qed
  show ?thesis
  proof (cases "b_pc s h")
    case B_reset
    show ?thesis
    proof (cases "spt h")
      case True
      show ?thesis using draw [where s = s and spt = spt, OF h(1) B_reset True] B_reset l c h(2) by (force simp: atomic_xchg_def)
    next
      case False
      show ?thesis using no_draw [where s = s and spt = spt, OF h(1) B_reset False] B_reset c h(2) by force
    qed
  next
    case B_mark
    show ?thesis using mark [where spt = spt, OF B_mark free] B_mark c h(2) by force
  next
    case B_check
    show ?thesis using check [where spt = spt, OF B_check] B_check d c h(2) by force
  next
    case B_wfi
    have "h \<in> b_msip s" using I c B_wfi by (auto simp: inv_woken_def)
    from woken [where spt = spt, OF B_wfi this] show ?thesis using B_wfi c h(2) by force
  next
    case B_unmark
    show ?thesis using unmark [where spt = spt, OF B_unmark free] B_unmark c h(2) by force
  qed (use one w in simp_all)
qed

lemma left_reaches_warm:
  assumes "boot_inv lasth s" and "b_pc s c = B_left" and "h \<le> lasth" "h \<noteq> c"
  shows "\<exists>s'. (boot_step lasth spt h)\<^sup>*\<^sup>* s s' \<and> b_pc s' h = B_warm"
  using assms(1,2)
proof (induction "b_rank (b_pc s h)" arbitrary: s rule: less_induct)
  case less
  show ?case
  proof (cases "b_pc s h = B_warm")
    case False
    from left_progress [OF less.prems assms(3,4) False] obtain s' where
      s': "boot_step lasth spt h s s'" "b_pc s' c = B_left" "b_rank (b_pc s' h) < b_rank (b_pc s h)" by blast
    have "boot_inv lasth s'"
      using s'(1) less.prems(1) inv_woken_step [OF s'(1) less.prems(1)]
      by (auto simp: boot_inv_def dest: inv_winner_step inv_mask_step inv_done_step inv_lock_step inv_range_step)
    from less.hyps [OF s'(3) this s'(2)] s'(1) show ?thesis by (meson converse_rtranclp_into_rtranclp)
  qed blast
qed

text \<open>
  C4. No hart is left waiting: in every reachable state in which the cold boot hart has left, each other hart, wherever it is, gets to the
  warm boot by its own steps alone, none of which raises an interrupt; a hart that still waits has the interrupt of the waking loop
  pending. So no interleaving of marking, reading the flag and waking loses the interrupt of a hart that waits.
\<close>

theorem coldboot_wakes_everyone:
  assumes "boot_reach lasth spt s" and "b_pc s c = B_left" and "h \<le> lasth" and "h \<noteq> c"
  shows "(b_pc s h = B_wfi \<longrightarrow> h \<in> b_msip s) \<and> (\<exists>s'. (boot_step lasth spt h)\<^sup>*\<^sup>* s s' \<and> b_pc s' h = B_warm)"
  using boot_reach_inv [OF assms(1)] left_reaches_warm [OF boot_reach_inv [OF assms(1)] assms(2-4)] assms(2)
  by (auto simp: boot_inv_def inv_woken_def)


text \<open>A run of two harts: hart 0 wins the lottery while hart 1 marks itself and waits, then hart 0 wakes it.\<close>

lemma boot_run_example:
  "\<exists>s. boot_reach 1 (\<lambda>_. True) s \<and> b_pc s 0 = B_left \<and> b_pc s 1 = B_wfi"
proof -
  let ?R = "boot_reach 1 (\<lambda>_. True)" and ?S = "boot_step 1 (\<lambda>_. True)"
  define s1 where "s1 = b_goto 0 B_cold (boot_start\<lparr>b_lottery := 1\<rparr>)"
  define s2 where "s2 = b_goto 1 B_mark (s1\<lparr>b_lottery := 1\<rparr>)"
  define s3 where "s3 = b_goto 1 B_check (s2\<lparr>b_mask := insert 1 (b_mask s2)\<rparr>)"
  define s4 where "s4 = b_goto 1 B_wfi s3"
  define s5 where "s5 = b_goto 0 B_lock (s4\<lparr>b_done := 1\<rparr>)"
  define s6 where "s6 = b_goto 0 (B_wake 0) (s5\<lparr>b_lock := Some 0\<rparr>)"
  define s7 where "s7 = b_goto 0 (B_wake 1) (s6\<lparr>b_msip := b_msip s6\<rparr>)"
  define s8 where "s8 = b_goto 0 (B_wake 2) (s7\<lparr>b_msip := insert 1 (b_msip s7)\<rparr>)"
  define s9 where "s9 = b_goto 0 B_left (s8\<lparr>b_lock := None\<rparr>)"
  note defs = s1_def s2_def s3_def s4_def s5_def s6_def s7_def s8_def s9_def boot_start_def
  have "?S 0 boot_start s1" using boot_step.draw [of 0 1 boot_start "\<lambda>_. True" 0 1] by (simp add: defs atomic_xchg_def)
  moreover have "?S 1 s1 s2" using boot_step.draw [of 1 1 s1 "\<lambda>_. True" 1 1] by (simp add: defs atomic_xchg_def)
  moreover have "?S 1 s2 s3" using boot_step.mark [of s2 1] by (simp add: defs)
  moreover have "?S 1 s3 s4" using boot_step.check [of s3 1] by (simp add: defs)
  moreover have "?S 0 s4 s5" using boot_step.cold_done [of s4 0] by (simp add: defs)
  moreover have "?S 0 s5 s6" using boot_step.lock [of s5 0] by (simp add: defs)
  moreover have "?S 0 s6 s7" using boot_step.wake [of s6 0 0 1] by (simp add: defs)
  moreover have "?S 0 s7 s8" using boot_step.wake [of s7 0 1 1] by (simp add: defs numeral_2_eq_2)
  moreover have "?S 0 s8 s9" using boot_step.unlock [of s8 0 2 1] by (simp add: defs)
  ultimately have "?R s9" by (meson boot_reach.start boot_reach.step)
  moreover have "b_pc s9 0 = B_left" "b_pc s9 1 = B_wfi" by (simp_all add: defs)
  ultimately show ?thesis by blast
qed

theorem one_coldboot_before_warmboots_witness:
  "\<exists>s. boot_reach 1 (\<lambda>_. True) s \<and> b_pc s 0 = B_left \<and> \<not> won (b_pc s 1)"
proof -
  from boot_run_example obtain s where s: "boot_reach 1 (\<lambda>_. True) s" "b_pc s 0 = B_left" by blast
  then show ?thesis using one_coldboot_before_warmboots [OF s(1)] by (metis won.simps(5) zero_neq_one)
qed

theorem coldboot_wakes_everyone_witness:
  "\<exists>s s'. boot_reach 1 (\<lambda>_. True) s \<and> b_pc s 1 = B_wfi \<and> 1 \<in> b_msip s \<and> (boot_step 1 (\<lambda>_. True) 1)\<^sup>*\<^sup>* s s' \<and> b_pc s' 1 = B_warm"
proof -
  from boot_run_example obtain s where s: "boot_reach 1 (\<lambda>_. True) s" "b_pc s 0 = B_left" "b_pc s 1 = B_wfi" by blast
  from coldboot_wakes_everyone [OF s(1,2), of 1] s(1,3) show ?thesis by auto
qed

end
