(* ===== verification/Sbi_Domain_Mmio.thy ===== *)
theory Sbi_Domain_Mmio
  imports Sbi_Domain
begin

text \<open>
  The root domain after drivers have added their device regions to it (\<^verbatim>\<open>sbi_domain_root_add_memregion\<close> in \<^verbatim>\<open>lib/sbi/sbi_domain.c\<close>): adding a
  region never leaves the table, the sort-and-merge loop ends, and what the table denies to S- and U-mode is exactly what was denied before
  and the new region.
\<close>

section \<open>Merging on the array of regions\<close>

lemma memregions_nth: "k < length (memregions arr) \<Longrightarrow> memregions arr ! k = arr ! k"
  by (simp add: memregions_def takeWhile_nth)

lemma memregions_nth_order: "k < length (memregions arr) \<Longrightarrow> mr_order (arr ! k) \<noteq> 0"
  using memregions_order [OF nth_mem] memregions_nth by metis

lemma memregions_update:
  assumes "k < length (memregions arr)" "mr_order r \<noteq> 0"
  shows "memregions (arr[k := r]) = (memregions arr)[k := r]"
proof -
  let ?n = "length (memregions arr)"
  have t: "take ?n (arr[k := r]) = (memregions arr)[k := r]"
    using memregions_take [of arr] by (simp add: take_update_swap)
  have "memregions (arr[k := r]) = take ?n (arr[k := r])"
  proof (rule memregions_eqI)
    show "\<forall>q \<in> set (take ?n (arr[k := r])). mr_order q \<noteq> 0"
      using assms(2) memregions_order [of _ arr] by (auto simp: t dest!: set_update_subset_insert [THEN subsetD])
  qed (use assms(1) memregions_length [of arr] memregions_stop [of arr] in auto)
  with t show ?thesis by simp
qed

lemma shift_down_memregions:
  assumes "k < length (memregions arr)" "length (memregions arr) < length arr"
  shows "\<exists>arr'. shift_down arr k = Some arr' \<and> length arr' = length arr \<and>
    memregions arr' = take k (memregions arr) @ drop (Suc k) (memregions arr)"
  using assms
proof (induction arr k rule: shift_down.induct)
  case (1 arr k)
  let ?L = "memregions arr" and ?a = "arr[k := arr ! (k + 1)]"
  have ord: "mr_order (arr ! k) \<noteq> 0" using 1(2) by (rule memregions_nth_order)
  have step: "shift_down arr k = shift_down ?a (k + 1)"
    using 1(2,3) ord by (subst shift_down.simps) auto
  show ?case
  proof (cases "k + 1 < length ?L")
    case True
    have a: "memregions ?a = ?L[k := ?L ! (k + 1)]"
      using memregions_update [OF 1(2), of "arr ! (k + 1)"] True memregions_nth [OF True] memregions_nth_order [OF True] by simp
    have "take (k + 1) (?L[k := ?L ! (k + 1)]) @ drop (Suc (k + 1)) (?L[k := ?L ! (k + 1)]) = take k ?L @ drop (Suc k) ?L"
      using True by (simp add: take_Suc_conv_app_nth Cons_nth_drop_Suc)
    with 1(1) [OF _ ord] 1(3) True a step show ?thesis by simp
  next
    case False
    with 1(2) have n: "length ?L = k + 1" by simp
    have z: "mr_order (arr ! (k + 1)) = 0" using memregions_stop [of arr] 1(3) n by simp
    have "memregions ?a = take k ?a"
      using 1(3) n z memregions_order [of _ arr] memregions_take [of arr]
      by (intro memregions_eqI) (auto simp: take_Suc_conv_app_nth)
    moreover have "shift_down ?a (k + 1) = Some ?a" using 1(3) n z by (subst shift_down.simps) simp
    ultimately show ?thesis using step n memregions_take [of arr] by (simp add: take_Suc_conv_app_nth min_def)
  qed
qed


section \<open>What the table denies\<close>

text \<open>A region that gives S- and U-mode nothing, and the addresses that such regions of a table cover.\<close>

abbreviation all_region :: sbi_domain_memregion where
  "all_region \<equiv> \<lparr>mr_order = 64, mr_base = 0, mr_flags = 7\<rparr>"

definition closed_region :: "sbi_domain_memregion \<Rightarrow> bool" where
  "closed_region r \<longleftrightarrow> mr_flags r AND 7 = 0 \<and> is_region_valid r \<and> mr_order r < 64"

definition guarded :: "sbi_domain_memregion list \<Rightarrow> bool" where
  "guarded L \<longleftrightarrow> all_region \<in> set L \<and> (\<forall>r \<in> set L. r = all_region \<or> closed_region r)"

definition denied :: "sbi_domain_memregion list \<Rightarrow> ulong set" where
  "denied L = {a. \<exists>r \<in> set L. closed_region r \<and> region_contains r a}"

lemma all_not_closed [simp]: "\<not> closed_region all_region"
  by (simp add: closed_region_def)

lemma guarded_mset: "mset L = mset L' \<Longrightarrow> guarded L = guarded L' \<and> denied L = denied L'"
  by (auto simp: guarded_def denied_def dest: mset_eq_setD)

lemma closed_contains:
  "closed_region r \<Longrightarrow> region_contains r a \<longleftrightarrow> unat (mr_base r) \<le> unat a \<and> unat a < unat (mr_base r) + 2 ^ mr_order r"
  by (rule region_contains_iff) (simp_all add: closed_region_def)

lemma closed_end: "closed_region r \<Longrightarrow> unat (mr_base r) + 2 ^ mr_order r \<le> 2 ^ 64"
  using unat_region_end [of r] by (auto simp: closed_region_def)

lemma closed_aligned: "closed_region r \<Longrightarrow> 2 ^ mr_order r dvd unat (mr_base r)"
  by (auto simp: closed_region_def is_region_valid_def BIT_mask aligned_iff)

lemma mergeable_closed:
  assumes "is_region_mergeable r q" "r = all_region \<or> closed_region r" "q = all_region \<or> closed_region q"
  shows "closed_region r \<and> closed_region q"
  using assms by (auto simp: is_region_mergeable_def closed_region_def BIT_def)

lemma merged_region:
  assumes "is_region_mergeable r q" "closed_region r" "closed_region q" "\<not> region_contains r x" "\<not> region_contains q x"
  defines "r' \<equiv> r\<lparr>mr_order := mr_order r + 1\<rparr>"
  shows "closed_region r' \<and> (\<forall>a. region_contains r' a \<longleftrightarrow> region_contains r a \<or> region_contains q a)"
proof -
  let ?k = "mr_order r"
  have k: "mr_order q = ?k" "?k < 64" "mr_base q = mr_base r + BIT ?k" "mr_flags q = mr_flags r"
    using assms(1,2) by (auto simp: is_region_mergeable_def closed_region_def)
  have u: "unat (mr_base q) = (unat (mr_base r) + 2 ^ ?k) mod 2 ^ 64"
    using k by (simp add: unat_word_ariths unat_BIT)
  have "?k \<noteq> 63"
  proof
    assume k63: "?k = 63"
    obtain c where c: "unat (mr_base r) = 2 ^ 63 * c" using closed_aligned [OF assms(2)] k63 by auto
    then have "c = 0 \<or> c = 1" using unat_less_width [of "mr_base r"] by simp linarith
    then have "unat (mr_base r) = 0 \<and> unat (mr_base q) = 2 ^ 63 \<or> unat (mr_base r) = 2 ^ 63 \<and> unat (mr_base q) = 0"
      using c u k63 by auto
    with assms(4,5) k(1) k63 unat_less_width [of x] show False
      by (auto simp: closed_contains [OF assms(2)] closed_contains [OF assms(3)])
  qed
  with k(2) have lt: "?k + 1 < 64" by simp
  then have r': "closed_region r'"
    using assms(1,2) by (auto simp: r'_def closed_region_def is_region_mergeable_def is_region_valid_def)
  have p: "(2 :: nat) ^ (?k + 1) = 2 ^ ?k + 2 ^ ?k" "(0 :: nat) < 2 ^ ?k" by simp_all
  with closed_end [OF r'] u have "unat (mr_base q) = unat (mr_base r) + 2 ^ ?k" by (simp add: r'_def)
  with p k(1) have "region_contains r' a \<longleftrightarrow> region_contains r a \<or> region_contains q a" for a
    unfolding closed_contains [OF assms(2)] closed_contains [OF assms(3)] closed_contains [OF r'] by (auto simp: r'_def)
  with r' show ?thesis by blast
qed

text \<open>One merge in the table.\<close>

lemma merge_at:
  assumes "guarded (memregions arr)" "x \<notin> denied (memregions arr)" "length (memregions arr) < length arr"
    "k + 1 < length (memregions arr)" "is_region_mergeable (arr ! k) (arr ! (k + 1))"
  shows "\<exists>arr'. shift_down (arr[k := (arr ! k)\<lparr>mr_order := mr_order (arr ! k) + 1\<rparr>]) (k + 1) = Some arr' \<and> length arr' = length arr \<and>
    length (memregions arr') + 1 = length (memregions arr) \<and> guarded (memregions arr') \<and> denied (memregions arr') = denied (memregions arr)"
proof -
  let ?L = "memregions arr" and ?r = "arr ! k" and ?q = "arr ! (k + 1)"
  let ?r' = "?r\<lparr>mr_order := mr_order ?r + 1\<rparr>"
  have split: "?L = take k ?L @ ?r # ?q # drop (k + 2) ?L"
    using assms(4) memregions_nth [of k arr] memregions_nth [of "k + 1" arr]
    by (metis (no_types, lifting) Cons_nth_drop_Suc Suc_eq_plus1 add_2_eq_Suc' append_take_drop_id Suc_lessD)
  have u: "memregions (arr[k := ?r']) = ?L[k := ?r']" using assms(4) by (intro memregions_update) auto
  obtain arr' where arr': "shift_down (arr[k := ?r']) (k + 1) = Some arr'" "length arr' = length arr"
      "memregions arr' = take (k + 1) (?L[k := ?r']) @ drop (k + 2) (?L[k := ?r'])"
    using shift_down_memregions [of "k + 1" "arr[k := ?r']"] assms(3,4) u by auto
  have L': "memregions arr' = take k ?L @ ?r' # drop (k + 2) ?L"
    using assms(4) arr'(3) by (simp add: take_Suc_conv_app_nth)
  have mem: "?r \<in> set ?L" "?q \<in> set ?L" by (subst split, simp)+
  with assms(1,5) have c: "closed_region ?r" "closed_region ?q" using mergeable_closed by (auto simp: guarded_def)
  with assms(2) mem have "\<not> region_contains ?r x" "\<not> region_contains ?q x" by (auto simp: denied_def)
  note m = merged_region [OF assms(5) c this]
  have "all_region \<noteq> ?r" "all_region \<noteq> ?q" using c all_not_closed by metis+
  then have g: "guarded (memregions arr')" using assms(1) m unfolding guarded_def by (subst (asm) (1 2) split) (auto simp: L')
  have d: "denied (memregions arr') = denied ?L" using m c unfolding denied_def by (subst split) (auto simp: L')
  have "length (memregions arr') + 1 = length ?L" using assms(4) by (simp add: L')
  with arr'(1,2) g d show ?thesis by blast
qed

text \<open>The pass over the table.\<close>

lemma merge_pass_guarded:
  assumes "guarded (memregions arr)" "x \<notin> denied (memregions arr)" "length (memregions arr) < length arr"
    "k \<le> length (memregions arr)" "length (memregions arr) < fuel + k" "cnt = length (memregions arr)"
  shows "\<exists>merged' cnt' arr'. merge_pass fuel arr k merged cnt = Some (merged', cnt', arr') \<and> length arr' = length arr \<and>
    cnt' = length (memregions arr') \<and> guarded (memregions arr') \<and> denied (memregions arr') = denied (memregions arr) \<and>
    (merged' = merged \<and> arr' = arr \<or> merged' \<and> length (memregions arr') < length (memregions arr))"
  using assms
proof (induction fuel arbitrary: arr k merged cnt)
  case (Suc fuel)
  let ?L = "memregions arr"
  consider "k = length ?L" | "k < length ?L" "\<not> (k + 1 < length ?L \<and> is_region_mergeable (arr ! k) (arr ! (k + 1)))"
    | "k + 1 < length ?L" "is_region_mergeable (arr ! k) (arr ! (k + 1))"
    using Suc.prems(4) by linarith
  then show ?case
  proof cases
    case 1
    with Suc.prems memregions_stop [of arr] show ?thesis by auto
  next
    case 2
    have "k + 1 < length ?L \<or> k + 1 = length ?L" using 2(1) by linarith
    then have "mr_order (arr ! (k + 1)) = 0 \<longleftrightarrow> k + 1 = length ?L"
      using memregions_stop [of arr] memregions_nth_order [of "k + 1" arr] Suc.prems(3) by auto
    then have "merge_pass (Suc fuel) arr k merged cnt = merge_pass fuel arr (k + 1) merged cnt"
      using 2 memregions_nth_order [of k arr] Suc.prems(3) by (auto simp: not_less)
    then show ?thesis using Suc.IH [of arr "k + 1" cnt merged] Suc.prems 2(1) by simp
  next
    case 3
    note o = memregions_nth_order [OF 3(1)] memregions_nth_order [of k arr]
    from merge_at [OF Suc.prems(1-3) 3] obtain arr1
      where a: "shift_down (arr[k := (arr ! k)\<lparr>mr_order := mr_order (arr ! k) + 1\<rparr>]) (k + 1) = Some arr1" "length arr1 = length arr"
        "length (memregions arr1) + 1 = length ?L" "guarded (memregions arr1)" "denied (memregions arr1) = denied ?L" by blast
    then have "merge_pass (Suc fuel) arr k merged cnt = merge_pass fuel arr1 (k + 1) True (cnt - 1)"
      using 3 o Suc.prems(3) by simp
    then show ?thesis using Suc.IH [of arr1 "k + 1" "cnt - 1" True] Suc.prems 3(1) a(2-) by fastforce
  qed
qed simp


section \<open>The check of an access\<close>

lemma check_guarded:
  assumes "guarded L" "sorted_wrt region_le L" "mode \<noteq> PRV_M"
  shows "\<exists>r. find (\<lambda>r. region_contains r a) L = Some r \<and> (if a \<in> denied L then closed_region r else r = all_region)"
proof -
  have all: "region_contains all_region a" by (simp add: region_contains_def region_end_def)
  with assms(1) obtain r where r: "find (\<lambda>r. region_contains r a) L = Some r"
    by (cases "find (\<lambda>r. region_contains r a) L") (auto simp: find_None_iff guarded_def)
  note least = find_sorted_least [OF assms(2) r]
  show ?thesis
  proof (cases "a \<in> denied L")
    case True
    then obtain q where "q \<in> set L" "closed_region q" "region_contains q a" by (auto simp: denied_def)
    with least have "mr_order r < 64" by (auto simp: closed_region_def)
    with assms(1) least r True show ?thesis by (auto simp: guarded_def)
  next
    case False
    with assms(1) least r show ?thesis by (auto simp: guarded_def denied_def)
  qed
qed

lemma check_addr_guarded:
  assumes "regions d = Some arr" "guarded (memregions arr)" "sorted_wrt region_le (memregions arr)" "mode \<noteq> PRV_M"
  shows "a \<in> denied (memregions arr) \<Longrightarrow> access_rwx fl \<noteq> 0 \<Longrightarrow> \<not> sbi_domain_check_addr (Some d) a mode fl"
    and "a \<notin> denied (memregions arr) \<Longrightarrow> sbi_domain_check_addr (Some d) a mode fl \<longleftrightarrow> fl AND SBI_DOMAIN_MMIO = 0"
proof -
  from check_guarded [OF assms(2-4), of a] obtain r where r: "find (\<lambda>r. region_contains r a) (memregions arr) = Some r"
    "if a \<in> denied (memregions arr) then closed_region r else r = all_region" by blast
  then have chk: "sbi_domain_check_addr (Some d) a mode fl = region_allows r (access_rwx fl) (fl AND SBI_DOMAIN_MMIO \<noteq> 0)"
    using assms(1,4) by (simp add: sbi_domain_check_addr_def check_addr_loop_find)
  have bits: "(7 :: ulong) AND 0x80000000 = 0" by code_simp
  show "\<not> sbi_domain_check_addr (Some d) a mode fl" if "a \<in> denied (memregions arr)" "access_rwx fl \<noteq> 0"
  proof -
    have "mr_flags r AND access_rwx fl = (mr_flags r AND 7) AND access_rwx fl" by (simp add: access_rwx_seven and.assoc)
    also have "\<dots> = 0" using r(2) that(1) by (simp add: closed_region_def)
    finally show ?thesis using chk that(2) by (simp add: region_allows_def)
  qed
  show "sbi_domain_check_addr (Some d) a mode fl \<longleftrightarrow> fl AND SBI_DOMAIN_MMIO = 0" if "a \<notin> denied (memregions arr)"
    using that r(2) chk bits access_rwx_seven [of fl] by (simp add: region_allows_def)
qed

section \<open>Adding a region\<close>

text \<open>The table of the root domain as \<^verbatim>\<open>sbi_domain_init\<close> and the drivers leave it.\<close>

definition root_table :: "domain_sys \<Rightarrow> sbi_domain_memregion list" where
  "root_table s = (case regions (dom_obj s ROOT) of None \<Rightarrow> [] | Some arr \<Rightarrow> memregions arr)"

definition root_shape :: "domain_sys \<Rightarrow> bool" where
  "root_shape s \<longleftrightarrow>
     (\<exists>arr. regions (dom_obj s ROOT) = Some arr \<and> length arr = 17) \<and> root_memregs_count s = length (root_table s) \<and>
     length (root_table s) \<le> 16 \<and> guarded (root_table s) \<and> (\<exists>m. possible_harts (dom_obj s ROOT) = Some m \<and> length m = 2)"

definition root_ok :: "domain_sys \<Rightarrow> bool" where
  "root_ok s \<longleftrightarrow> root_shape s \<and> sorted_wrt region_le (root_table s)"

lemma sanitize_total:
  assumes "possible_harts d = Some m" "length m = 2"
  shows "\<exists>rc x. sanitize_domain hart_invalid fw d = Some (rc, x)"
  using assms hartmask_for_each_eq [of m]
  by (auto simp: sanitize_domain_def Let_def split: option.splits prod.splits bool.splits)

lemma next_addr_not_denied:
  assumes "sanitize_domain hart_invalid fw d = Some (0, x)" "regions x = Some arr" "guarded (memregions arr)"
  shows "dom_next_addr x \<notin> denied (memregions arr)"
proof
  assume a: "dom_next_addr x \<in> denied (memregions arr)"
  from sanitize_domain_ok [OF assms(1)] assms(2) have s: "sorted_wrt region_le (memregions arr)" "dom_next_mode x \<noteq> PRV_M"
    "sbi_domain_check_addr (Some x) (dom_next_addr x) (dom_next_mode x) SBI_DOMAIN_EXECUTE" by auto
  moreover have "access_rwx SBI_DOMAIN_EXECUTE \<noteq> 0" by code_simp
  ultimately show False using check_addr_guarded(1) [OF assms(2,3) s(1,2) a] by blast
qed

lemma sort_merge_loop_ok:
  assumes "root_shape s" "length (root_table s) < fuel"
  shows "\<exists>rc s'. sort_merge_loop fuel hart_invalid s = Some (rc, s') \<and>
    (rc = 0 \<longrightarrow> root_ok s' \<and> denied (root_table s') = denied (root_table s))"
  using assms
proof (induction fuel arbitrary: s)
  case (Suc fuel)
  let ?d = "dom_obj s ROOT"
  obtain m where m: "possible_harts ?d = Some m" "length m = 2" using Suc.prems(1) by (auto simp: root_shape_def)
  obtain rc x where x: "sanitize_domain hart_invalid (root_fw_region s) ?d = Some (rc, x)" using sanitize_total [OF m] by blast
  show ?case
  proof (cases "rc = 0")
    case False
    then show ?thesis using x by (simp add: Let_def)
  next
    case True
    with sanitize_domain_ok x obtain arr arr1 where a: "regions ?d = Some arr" "x = ?d\<lparr>regions := Some arr1\<rparr>" "length arr1 = length arr"
      "mset (memregions arr1) = mset (memregions arr)" "sorted_wrt region_le (memregions arr1)" by blast
    from Suc.prems(1) a have sh: "length arr1 = 17" "root_memregs_count s = length (memregions arr1)" "length (memregions arr1) \<le> 16"
      "guarded (memregions arr1)" "root_table s = memregions arr"
      using guarded_mset [OF a(4)] mset_eq_length [OF a(4)] by (auto simp: root_shape_def root_table_def)
    have "dom_next_addr x \<notin> denied (memregions arr1)"
      using next_addr_not_denied [of hart_invalid "root_fw_region s" ?d x arr1] x True a(2) sh(4) by simp
    from merge_pass_guarded [OF sh(4) this, of 0 "Suc (length arr1)" _ False] sh
    obtain merged cnt arr2 where p: "merge_pass (Suc (length arr1)) arr1 0 False (root_memregs_count s) = Some (merged, cnt, arr2)"
      "length arr2 = 17" "cnt = length (memregions arr2)" "guarded (memregions arr2)" "denied (memregions arr2) = denied (memregions arr1)"
      "\<not> merged \<and> arr2 = arr1 \<or> merged \<and> length (memregions arr2) < length (memregions arr1)" by auto
    define s2 where "s2 = (obj_update ROOT (\<lambda>x. x\<lparr>regions := Some arr2\<rparr>) (obj_update ROOT (\<lambda>_. x) s))\<lparr>root_memregs_count := cnt\<rparr>"
    have step: "sort_merge_loop (Suc fuel) hart_invalid s = (if merged then sort_merge_loop fuel hart_invalid s2 else Some (0, s2))"
      using x True p(1) a(2) by (simp add: Let_def s2_def)
    have t2: "root_table s2 = memregions arr2" by (simp add: root_table_def s2_def)
    have d: "denied (memregions arr2) = denied (root_table s)" using p(5) guarded_mset [OF a(4)] sh(5) by simp
    have s2: "root_shape s2" using p sh(3) m t2 a(2) by (auto simp: root_shape_def s2_def)
    show ?thesis
    proof (cases merged)
      case True
      have "length (root_table s2) < fuel" using True p(6) t2 Suc.prems(2) sh(5) mset_eq_length [OF a(4)] by simp
      with Suc.IH [OF s2] step True d t2 show ?thesis by simp
    next
      case False
      with s2 step d t2 p(6) a(5) show ?thesis by (auto simp: root_ok_def)
    qed
  qed
qed simp


lemma root_add_ok:
  assumes "root_ok s" "mr_flags r AND 7 = 0" "mr_order r \<noteq> 0" "mr_order r < 64"
  shows "\<exists>rc s'. sbi_domain_root_add_memregion hart_invalid (Some r) s = Some (rc, s') \<and>
    (rc = 0 \<longrightarrow> root_ok s' \<and> is_region_valid r \<and> denied (root_table s') = denied (root_table s) \<union> Collect (region_contains r))"
proof -
  from assms(1) obtain arr m where arr: "regions (dom_obj s ROOT) = Some arr" "length arr = 17" "root_memregs_count s = length (memregions arr)"
    "length (memregions arr) \<le> 16" "guarded (memregions arr)" and m: "possible_harts (dom_obj s ROOT) = Some m" "length m = 2"
    by (auto simp: root_ok_def root_shape_def root_table_def)
  let ?c = "length (memregions arr)"
  let ?guard = "domain_finalized s \<or> root_regions_moved s \<or> ROOT_REGION_MAX \<le> root_memregs_count s \<or> (\<exists>n \<in> set (memregions arr). is_region_conflict r n)"
  show ?thesis
  proof (cases ?guard)
    case True
    then show ?thesis using arr(1) by (auto simp: sbi_domain_root_add_memregion_def)
  next
    case False
    then have c: "?c < 16" using arr(3) by simp
    define arr1 where "arr1 = arr[?c := r, ?c + 1 := (arr ! (?c + 1))\<lparr>mr_order := 0\<rparr>]"
    define s1 where "s1 = (obj_update ROOT (\<lambda>x. x\<lparr>regions := Some arr1\<rparr>) s)\<lparr>root_memregs_count := ?c + 1\<rparr>"
    have L1: "memregions arr1 = memregions arr @ [r]"
    proof -
      have t: "take (?c + 1) arr1 = memregions arr @ [r]"
        using c arr(2) memregions_take [of arr] by (simp add: arr1_def take_Suc_conv_app_nth)
      then have "memregions arr1 = take (?c + 1) arr1"
        using c arr(2) assms(3) memregions_order [of _ arr] by (intro memregions_eqI) (auto simp: arr1_def)
      with t show ?thesis by simp
    qed
    have add: "sbi_domain_root_add_memregion hart_invalid (Some r) s = sort_merge_loop (Suc 17) hart_invalid s1"
      using False arr(1-3) c by (simp add: sbi_domain_root_add_memregion_def Let_def s1_def arr1_def del: sort_merge_loop.simps)
    have t1: "root_table s1 = memregions arr @ [r]" "root_table s = memregions arr" using arr(1) by (simp_all add: root_table_def s1_def L1)
    show ?thesis
    proof (cases "is_region_valid r")
      case True
      then have cl: "closed_region r" using assms by (simp add: closed_region_def)
      have "root_shape s1" using arr m c cl t1 by (auto simp: root_shape_def s1_def arr1_def guarded_def)
      moreover have "length (root_table s1) < Suc 17" using t1 c by simp
      moreover have "denied (root_table s1) = denied (root_table s) \<union> Collect (region_contains r)"
        using cl by (auto simp: t1 denied_def)
      ultimately show ?thesis using sort_merge_loop_ok [of s1 "Suc 17" hart_invalid] True unfolding add by auto
    next
      case False
      let ?d = "dom_obj s1 ROOT"
      obtain rc x where x: "sanitize_domain hart_invalid (root_fw_region s1) ?d = Some (rc, x)"
        using sanitize_total [of ?d m hart_invalid "root_fw_region s1"] m by (auto simp: s1_def)
      have "rc \<noteq> 0"
      proof
        assume "rc = 0"
        with sanitize_domain_ok x obtain arr' where "mset (memregions arr') = mset (memregions arr1)" "\<forall>r \<in> set (memregions arr'). is_region_valid r"
          by (fastforce simp: s1_def)
        moreover have "r \<in> set (memregions arr')" using calculation(1) L1 mset_eq_setD [of "memregions arr'" "memregions arr1"] by simp
        ultimately show False using False by blast
      qed
      with x show ?thesis unfolding add by (subst sort_merge_loop.simps(2)) (simp add: Let_def)
    qed
  qed
qed

text \<open>A sequence of additions, which ends at the first one that fails.\<close>

fun root_add_all :: "(hartid \<Rightarrow> bool) \<Rightarrow> sbi_domain_memregion list \<Rightarrow> domain_sys \<Rightarrow> (int \<times> domain_sys) option" where
  "root_add_all hart_invalid [] s = Some (0, s)"
| "root_add_all hart_invalid (r # rs) s =
     (case sbi_domain_root_add_memregion hart_invalid (Some r) s of
        None \<Rightarrow> None
      | Some (rc, s) \<Rightarrow> (if rc \<noteq> 0 then Some (rc, s) else root_add_all hart_invalid rs s))"

lemma root_add_all_ok:
  assumes "root_ok s" "\<forall>r \<in> set rs. mr_flags r AND 7 = 0 \<and> mr_order r \<noteq> 0 \<and> mr_order r < 64"
  shows "\<exists>rc s'. root_add_all hart_invalid rs s = Some (rc, s') \<and>
    (rc = 0 \<longrightarrow> root_ok s' \<and> denied (root_table s') = denied (root_table s) \<union> {a. \<exists>r \<in> set rs. region_contains r a})"
  using assms
proof (induction rs arbitrary: s)
  case (Cons r rs)
  from root_add_ok [of s r hart_invalid] Cons.prems obtain rc s1 where s1: "sbi_domain_root_add_memregion hart_invalid (Some r) s = Some (rc, s1)"
    "rc = 0 \<Longrightarrow> root_ok s1 \<and> denied (root_table s1) = denied (root_table s) \<union> Collect (region_contains r)" by auto
  show ?case
  proof (cases "rc = 0")
    case True
    with s1 Cons.IH [of s1] Cons.prems show ?thesis by auto
  qed (use s1 in simp)
qed simp

lemma assign_hart_count:
  "assign_hart cold d i s = Some s' \<Longrightarrow> root_memregs_count s' = root_memregs_count s \<and> root_regions_moved s' = root_regions_moved s \<and>
     domain_finalized s' = domain_finalized s"
  by (auto simp: assign_hart_def Let_def split: option.splits if_splits bool.splits)

lemma assign_harts_count:
  "assign_harts cold d js s = Some s' \<Longrightarrow> root_memregs_count s' = root_memregs_count s \<and> root_regions_moved s' = root_regions_moved s \<and>
     domain_finalized s' = domain_finalized s"
proof (induction js arbitrary: s)
  case (Cons j js)
  then obtain s1 where "assign_hart cold d j s = Some s1" "assign_harts cold d js s1 = Some s'" by (auto split: option.splits)
  with Cons.IH assign_hart_count show ?case by metis
qed simp

lemma register_count:
  "sbi_domain_register hart_invalid cold (Some d) (Some am) s = Some (0, s') \<Longrightarrow> root_memregs_count s' = root_memregs_count s"
  by (auto simp: sbi_domain_register_def Let_def split: option.splits if_splits prod.splits dest!: assign_harts_count)

lemma domain_init_root_ok:
  assumes "sbi_domain_init hart_invalid fw_start fw_size a1 na nm cold domain_boot = Some (0, s)"
  defines "fw \<equiv> sbi_domain_memregion_init fw_start fw_size 0"
  shows "root_ok s \<and> denied (root_table s) = Collect (region_contains fw)"
proof -
  from domain_init_regions [OF assms(1)] obtain arr m where arr: "regions (dom_obj s ROOT) = Some arr" "memregions arr = [fw, all_region]"
    "is_region_valid fw" "length arr = 17" and m: "possible_harts (dom_obj s ROOT) = Some m" "length m = 2" unfolding fw_def by blast
  have lt: "mr_order fw < 64" using domain_init_lookup [OF assms(1), of 1 0 0] by (simp add: fw_def)
  moreover have "mr_flags fw = 0" by (simp add: fw_def sbi_domain_memregion_init_def split: prod.split)
  ultimately have cl: "closed_region fw" using arr(3) by (simp add: closed_region_def)
  have c: "root_memregs_count s = 2"
    using assms(1) by (auto simp: sbi_domain_init_def domain_boot_def Let_def split: option.splits if_splits dest!: register_count)
  have "root_shape s" using arr m c cl by (simp add: root_shape_def root_table_def guarded_def)
  moreover have "sorted_wrt region_le (root_table s)" using arr(1,2) lt by (simp add: root_table_def region_le_def is_region_before_def)
  moreover have "denied (root_table s) = Collect (region_contains fw)" using arr(1,2) cl by (auto simp: root_table_def denied_def)
  ultimately show ?thesis by (simp add: root_ok_def)
qed

lemma init_region_order: "0 < sz \<Longrightarrow> unat addr + unat sz \<le> 2 ^ 64 \<Longrightarrow> unat addr \<le> unat a \<Longrightarrow> unat a < unat addr + unat sz \<Longrightarrow>
   mr_order (sbi_domain_memregion_init addr sz f) < 64 \<Longrightarrow> is_region_valid (sbi_domain_memregion_init addr sz f) \<Longrightarrow>
   region_contains (sbi_domain_memregion_init addr sz f) a"
  using memregion_init_covers_fw [of sz addr f] by (auto simp: region_contains_iff Let_def)

text \<open>
  C5. The root domain after \<^verbatim>\<open>sbi_domain_init\<close> and the drivers' calls of \<^verbatim>\<open>sbi_domain_root_add_memregion\<close>: for any regions without
  permissions the calls neither leave the table nor loop, and when they all succeed an S- or U-mode access is refused
  in the firmware and in each of the regions, and every ordinary memory access elsewhere still passes, though the table was sorted
  and neighbouring regions were merged on the way.
\<close>

theorem root_domain_denies_devices:
  assumes "sbi_domain_init hart_invalid fw_start fw_size a1 na nm cold domain_boot = Some (0, s)"
    and "\<forall>r \<in> set rs. mr_flags r AND 7 = 0 \<and> mr_order r \<noteq> 0 \<and> mr_order r < 64"
    and "fw = sbi_domain_memregion_init fw_start fw_size 0" and "mode \<noteq> PRV_M"
  shows "\<exists>rc s'. root_add_all hart_invalid rs s = Some (rc, s') \<and>
    (rc = 0 \<longrightarrow>
      ((\<exists>r \<in> set (fw # rs). region_contains r a) \<and> access_rwx fl \<noteq> 0 \<longrightarrow> \<not> sbi_domain_check_addr (Some (dom_obj s' ROOT)) a mode fl) \<and>
      (\<not> (\<exists>r \<in> set (fw # rs). region_contains r a) \<and> fl AND SBI_DOMAIN_MMIO = 0 \<longrightarrow> sbi_domain_check_addr (Some (dom_obj s' ROOT)) a mode fl))"
proof -
  from domain_init_root_ok [OF assms(1)] assms(3) have s: "root_ok s" "denied (root_table s) = Collect (region_contains fw)" by simp_all
  from root_add_all_ok [OF s(1) assms(2), of hart_invalid] obtain rc s' where s': "root_add_all hart_invalid rs s = Some (rc, s')"
    "rc = 0 \<Longrightarrow> root_ok s' \<and> denied (root_table s') = {a. \<exists>r \<in> set (fw # rs). region_contains r a}"
    using s(2) by fastforce
  show ?thesis
  proof (intro exI conjI impI)
    assume "rc = 0"
    with s'(2) have ok: "root_ok s'" and d: "denied (root_table s') = {a. \<exists>r \<in> set (fw # rs). region_contains r a}" by blast+
    from ok obtain arr where arr: "regions (dom_obj s' ROOT) = Some arr" "guarded (memregions arr)" "sorted_wrt region_le (memregions arr)"
      "root_table s' = memregions arr" by (auto simp: root_ok_def root_shape_def root_table_def)
    note chk = check_addr_guarded [OF arr(1-3) assms(4), folded arr(4), unfolded d, of a fl]
    show "\<not> sbi_domain_check_addr (Some (dom_obj s' ROOT)) a mode fl"
      if "(\<exists>r \<in> set (fw # rs). region_contains r a) \<and> access_rwx fl \<noteq> 0" using chk(1) that by blast
    show "sbi_domain_check_addr (Some (dom_obj s' ROOT)) a mode fl"
      if "\<not> (\<exists>r \<in> set (fw # rs). region_contains r a) \<and> fl AND SBI_DOMAIN_MMIO = 0" using chk(2) that by blast
  qed (use s' in simp_all)
qed


abbreviation (input) mmio_page :: "ulong \<Rightarrow> sbi_domain_memregion" where
  "mmio_page a \<equiv> \<lparr>mr_order = 12, mr_base = a, mr_flags = SBI_DOMAIN_MEMREGION_MMIO\<rparr>"

text \<open>A well-formed table of the root domain, as after \<^verbatim>\<open>sbi_domain_init\<close>.\<close>

definition root_table_example :: domain_sys where
  "root_table_example = domain_boot\<lparr>
     dom_obj := (\<lambda>_. domain_example\<lparr>regions := Some ([\<lparr>mr_order = 17, mr_base = 0x80000000, mr_flags = 0\<rparr>, all_region] @
       replicate 15 \<lparr>mr_order = 0, mr_base = 0, mr_flags = 0\<rparr>)\<rparr>),
     root_memregs_count := 2, root_fw_region := \<lparr>mr_order = 17, mr_base = 0x80000000, mr_flags = 0\<rparr>\<rparr>"

lemma devices_example:
  "(case sbi_domain_init (\<lambda>h. 1 < h) 0x80000000 0x14000 0x82200000 0x80200000 PRV_S 0 domain_boot of
      None \<Rightarrow> None
    | Some (rc, s) \<Rightarrow> if rc = 0 then map_option fst (root_add_all (\<lambda>h. 1 < h) [mmio_page 0x2000000, mmio_page 0x2001000] s) else None) = Some 0"
  by code_simp

theorem root_domain_denies_devices_witness:
  "\<exists>s s'. sbi_domain_init (\<lambda>h. 1 < h) 0x80000000 0x14000 0x82200000 0x80200000 PRV_S 0 domain_boot = Some (0, s) \<and>
     root_add_all (\<lambda>h. 1 < h) [mmio_page 0x2000000, mmio_page 0x2001000] s = Some (0, s') \<and>
     \<not> sbi_domain_check_addr (Some (dom_obj s' ROOT)) 0x2001ff8 PRV_S SBI_DOMAIN_WRITE \<and>
     sbi_domain_check_addr (Some (dom_obj s' ROOT)) 0x2002000 PRV_S SBI_DOMAIN_WRITE"
proof -
  let ?rs = "[mmio_page 0x2000000, mmio_page 0x2001000]"
  from devices_example obtain s rc s' where s: "sbi_domain_init (\<lambda>h. 1 < h) 0x80000000 0x14000 0x82200000 0x80200000 PRV_S 0 domain_boot = Some (0, s)"
    and s': "root_add_all (\<lambda>h. 1 < h) ?rs s = Some (0, s')"
    by (auto split: option.splits if_splits)
  let ?fw = "\<lparr>mr_order = 17, mr_base = 0x80000000, mr_flags = 0\<rparr> :: sbi_domain_memregion"
  have fw: "?fw = sbi_domain_memregion_init 0x80000000 0x14000 0" by code_simp
  have rs: "\<forall>r \<in> set ?rs. mr_flags r AND 7 = 0 \<and> mr_order r \<noteq> 0 \<and> mr_order r < 64" by code_simp
  have rwx: "access_rwx SBI_DOMAIN_WRITE \<noteq> 0" "SBI_DOMAIN_WRITE AND SBI_DOMAIN_MMIO = 0" "PRV_S \<noteq> PRV_M" by (code_simp+)
  have "\<exists>r \<in> set (?fw # ?rs). region_contains r 0x2001ff8" "\<not> (\<exists>r \<in> set (?fw # ?rs). region_contains r 0x2002000)" by (code_simp+)
  note c = this
  have t: "sbi_domain_check_addr (Some (dom_obj s' ROOT)) a PRV_S SBI_DOMAIN_WRITE \<longleftrightarrow>
      \<not> (\<exists>r \<in> set (?fw # ?rs). region_contains r a)" for a
  proof -
    obtain rc s1 where r: "root_add_all (\<lambda>h. 1 < h) ?rs s = Some (rc, s1)"
      and q: "rc = 0 \<longrightarrow> ((\<exists>r \<in> set (?fw # ?rs). region_contains r a) \<and> access_rwx SBI_DOMAIN_WRITE \<noteq> 0 \<longrightarrow>
          \<not> sbi_domain_check_addr (Some (dom_obj s1 ROOT)) a PRV_S SBI_DOMAIN_WRITE) \<and>
        (\<not> (\<exists>r \<in> set (?fw # ?rs). region_contains r a) \<and> SBI_DOMAIN_WRITE AND SBI_DOMAIN_MMIO = 0 \<longrightarrow>
          sbi_domain_check_addr (Some (dom_obj s1 ROOT)) a PRV_S SBI_DOMAIN_WRITE)"
      using root_domain_denies_devices [OF s rs fw rwx(3), of a SBI_DOMAIN_WRITE] by (elim exE conjE)
    have e: "rc = 0" "s1 = s'" using trans [OF r [symmetric] s'] by simp_all
    show ?thesis using q [unfolded e, rule_format, OF refl] rwx(1,2) by blast
  qed
  have "\<not> sbi_domain_check_addr (Some (dom_obj s' ROOT)) 0x2001ff8 PRV_S SBI_DOMAIN_WRITE"
    "sbi_domain_check_addr (Some (dom_obj s' ROOT)) 0x2002000 PRV_S SBI_DOMAIN_WRITE"
    unfolding t using c by blast+
  then show ?thesis by (intro exI [of _ s] exI [of _ s'] conjI s s')
qed

end
