(* ===== verification/Bootrom_Uart.thy ===== *)
theory Bootrom_Uart
  imports Riscv_Io
begin

text \<open>
  The serial output of the boot ROM (\<^verbatim>\<open>modules/cva6/corev_apu/fpga/src/bootrom/src/uart.c\<close>). Characters are bytes; a C string literal is the list of its
  characters without the terminator. A \<^verbatim>\<open>print\<close> is \<open>None\<close> when the transmitter never becomes empty.
\<close>

abbreviation (input) UART_BASE :: ulong where "UART_BASE \<equiv> 0x10000000"
abbreviation (input) UART_THR :: ulong where "UART_THR \<equiv> 0x10000000"
abbreviation (input) UART_INTERRUPT_ENABLE :: ulong where "UART_INTERRUPT_ENABLE \<equiv> 0x10000004"
abbreviation (input) UART_FIFO_CONTROL :: ulong where "UART_FIFO_CONTROL \<equiv> 0x10000008"
abbreviation (input) UART_LINE_CONTROL :: ulong where "UART_LINE_CONTROL \<equiv> 0x1000000c"
abbreviation (input) UART_MODEM_CONTROL :: ulong where "UART_MODEM_CONTROL \<equiv> 0x10000010"
abbreviation (input) UART_LINE_STATUS :: ulong where "UART_LINE_STATUS \<equiv> 0x10000014"
abbreviation (input) UART_DLAB_LSB :: ulong where "UART_DLAB_LSB \<equiv> 0x10000000"
abbreviation (input) UART_DLAB_MSB :: ulong where "UART_DLAB_MSB \<equiv> 0x10000004"

section \<open>Operations\<close>

definition write_reg_u8 :: "'d io_dev \<Rightarrow> ulong \<Rightarrow> u8 \<Rightarrow> 'd io \<Rightarrow> 'd io" where
  "write_reg_u8 dev addr value s = io_write dev 1 addr (ucast value) s"

definition read_reg_u8 :: "'d io_dev \<Rightarrow> ulong \<Rightarrow> 'd io \<Rightarrow> u8 \<times> 'd io" where
  "read_reg_u8 dev addr s = (case io_read dev 1 addr s of (v, s) \<Rightarrow> (ucast v, s))"

text \<open>The test on the value of the line status register.\<close>

definition is_transmit_empty :: "u8 \<Rightarrow> u8" where
  "is_transmit_empty status = status AND 0x20"

definition write_serial :: "'d io_dev \<Rightarrow> u8 \<Rightarrow> 'd io \<Rightarrow> 'd io option" where
  "write_serial dev a s =
     do { (_, s) \<leftarrow> io_poll (\<lambda>v. is_transmit_empty (ucast v) = 0) dev 1 UART_LINE_STATUS s;
          Some (write_reg_u8 dev UART_THR a s) }"

definition init_uart :: "'d io_dev \<Rightarrow> u32 \<Rightarrow> u32 \<Rightarrow> 'd io \<Rightarrow> 'd io" where
  "init_uart dev freq baud s =
     (let divisor = freq div push_bit 4 baud;
          s = write_reg_u8 dev UART_INTERRUPT_ENABLE 0x00 s;
          s = write_reg_u8 dev UART_LINE_CONTROL 0x80 s;
          s = write_reg_u8 dev UART_DLAB_LSB (ucast divisor) s;
          s = write_reg_u8 dev UART_DLAB_MSB (ucast (drop_bit 8 divisor AND 0xff)) s;
          s = write_reg_u8 dev UART_LINE_CONTROL 0x03 s;
          s = write_reg_u8 dev UART_FIFO_CONTROL 0xc7 s
      in write_reg_u8 dev UART_MODEM_CONTROL 0x20 s)"

fun print_bytes :: "'d io_dev \<Rightarrow> u8 list \<Rightarrow> 'd io \<Rightarrow> 'd io option" where
  "print_bytes dev [] s = Some s"
| "print_bytes dev (c # cs) s = do { s \<leftarrow> write_serial dev c s; print_bytes dev cs s }"

definition print_uart :: "'d io_dev \<Rightarrow> string \<Rightarrow> 'd io \<Rightarrow> 'd io option" where
  "print_uart dev str s = print_bytes dev (map of_char str) s"

definition bin_to_hex_table :: "u8 list" where
  "bin_to_hex_table = map of_char ''0123456789ABCDEF''"

text \<open>The two characters in the order in which they are sent.\<close>

definition bin_to_hex :: "u8 \<Rightarrow> u8 list" where
  "bin_to_hex inp =
     [bin_to_hex_table ! unat (drop_bit 4 inp AND 0xf), bin_to_hex_table ! unat (inp AND 0xf)]"

definition print_uart_int :: "'d io_dev \<Rightarrow> u32 \<Rightarrow> 'd io \<Rightarrow> 'd io option" where
  "print_uart_int dev addr s =
     print_bytes dev (concat (map (\<lambda>i. bin_to_hex (ucast (drop_bit (i * 8) addr AND 0xff))) [3, 2, 1, 0])) s"

definition print_uart_addr :: "'d io_dev \<Rightarrow> ulong \<Rightarrow> 'd io \<Rightarrow> 'd io option" where
  "print_uart_addr dev addr s =
     print_bytes dev (concat (map (\<lambda>i. bin_to_hex (ucast (drop_bit (i * 8) addr AND 0xff))) [7, 6, 5, 4, 3, 2, 1, 0])) s"

definition print_uart_byte :: "'d io_dev \<Rightarrow> u8 \<Rightarrow> 'd io \<Rightarrow> 'd io option" where
  "print_uart_byte dev byte s = print_bytes dev (bin_to_hex byte) s"

text \<open>The line end, in the code \<^verbatim>\<open>"\r\n"\<close>, and the tabulator \<^verbatim>\<open>"\t"\<close>.\<close>

definition crlf :: string where
  "crlf = [CHR 0x0d, CHR 0x0a]"

definition tab :: string where
  "tab = [CHR 0x09]"

section \<open>What is sent\<close>

text \<open>The bytes written to the transmit register, in order.\<close>

fun uart_op :: "io_op \<Rightarrow> u8 list" where
  "uart_op (Io_wr n a v) = (if n = 1 \<and> a = UART_THR then [ucast v] else [])"
| "uart_op (Io_rd n a v) = []"

definition uart_sent :: "io_op list \<Rightarrow> u8 list" where
  "uart_sent tr = concat (map uart_op (rev tr))"

lemma uart_sent_Cons [simp]: "uart_sent (x # tr) = uart_sent tr @ uart_op x"
  by (simp add: uart_sent_def)

lemma uart_sent_append: "uart_sent (xs @ tr) = uart_sent tr @ uart_sent xs"
  by (simp add: uart_sent_def)

lemma uart_sent_reads [simp]: "uart_sent (map (Io_rd n a) vs) = []"
  by (simp add: uart_sent_def rev_map comp_def)

text \<open>Printing is invisible to every observer of the trace that ignores the registers of the UART.\<close>

definition uart_blind :: "(io_op list \<Rightarrow> 'b list) \<Rightarrow> bool" where
  "uart_blind f \<longleftrightarrow>
     (\<forall>tr v. f (Io_rd 1 UART_LINE_STATUS v # tr) = f tr \<and> f (Io_wr 1 UART_THR v # tr) = f tr)"

lemma write_serial_trace:
  assumes "write_serial dev c s = Some s'"
  shows "\<exists>vs. io_trace s' = Io_wr 1 UART_THR (ucast c) # map (Io_rd 1 UART_LINE_STATUS) vs @ io_trace s"
proof -
  from assms obtain v s1 where p: "io_poll (\<lambda>v. is_transmit_empty (ucast v) = 0) dev 1 UART_LINE_STATUS s = Some (v, s1)"
    and s': "s' = write_reg_u8 dev UART_THR c s1"
    by (auto simp: write_serial_def bind_eq_Some_conv)
  from io_poll_trace [OF p] obtain vs
    where "io_trace s1 = Io_rd 1 UART_LINE_STATUS v # map (Io_rd 1 UART_LINE_STATUS) vs @ io_trace s" by blast
  then show ?thesis by (intro exI [of _ "v # vs"]) (simp add: s' write_reg_u8_def)
qed

lemma blind_reads: "uart_blind f \<Longrightarrow> f (map (Io_rd 1 UART_LINE_STATUS) vs @ tr) = f tr"
  by (induction vs) (auto simp: uart_blind_def)

lemma print_bytes_trace:
  assumes "print_bytes dev cs s = Some s'"
  shows "uart_sent (io_trace s') = uart_sent (io_trace s) @ cs" and "uart_blind f \<Longrightarrow> f (io_trace s') = f (io_trace s)"
proof -
  have "uart_sent (io_trace s') = uart_sent (io_trace s) @ cs \<and> (uart_blind f \<longrightarrow> f (io_trace s') = f (io_trace s))"
    using assms
  proof (induction cs arbitrary: s)
    case (Cons c cs)
    then obtain s1 where w: "write_serial dev c s = Some s1" and p: "print_bytes dev cs s1 = Some s'"
      by (auto simp: bind_eq_Some_conv)
    from write_serial_trace [OF w] obtain vs
      where tr: "io_trace s1 = Io_wr 1 UART_THR (ucast c) # map (Io_rd 1 UART_LINE_STATUS) vs @ io_trace s" by blast
    then have "uart_blind f \<Longrightarrow> f (io_trace s1) = f (io_trace s)"
      by (metis blind_reads uart_blind_def)
    moreover from tr have "uart_sent (io_trace s1) = uart_sent (io_trace s) @ [c]"
      by (simp add: uart_sent_append)
    ultimately show ?case using Cons.IH [OF p] by simp
  qed simp
  then show "uart_sent (io_trace s') = uart_sent (io_trace s) @ cs" "uart_blind f \<Longrightarrow> f (io_trace s') = f (io_trace s)"
    by auto
qed

lemmas print_defs = print_uart_def print_uart_int_def print_uart_addr_def print_uart_byte_def

text \<open>A transmitter that is empty again after finitely many polls, whatever was sent before, lets every print return.\<close>

definition uart_ready :: "'d io_dev \<Rightarrow> bool" where
  "uart_ready dev \<longleftrightarrow>
     (\<forall>s. \<exists>k. bit (fst (io_read dev 1 UART_LINE_STATUS (after_reads k dev 1 UART_LINE_STATUS s))) 5)"

lemma transmit_empty_bit: "is_transmit_empty (ucast (v :: ulong)) = 0 \<longleftrightarrow> \<not> bit v 5"
proof -
  have "(0x20 :: u8) = 2 ^ 5" by simp
  then show ?thesis by (simp only: is_transmit_empty_def and_exp_eq_0_iff_not_bit) (simp add: bit_ucast_iff)
qed

lemma print_bytes_returns: "uart_ready dev \<Longrightarrow> \<exists>s'. print_bytes dev cs s = Some s'"
proof (induction cs arbitrary: s)
  case (Cons c cs)
  from Cons.prems obtain k
    where "bit (fst (io_read dev 1 UART_LINE_STATUS (after_reads k dev 1 UART_LINE_STATUS s))) 5"
    unfolding uart_ready_def by blast
  then obtain r where "io_poll (\<lambda>v. is_transmit_empty (ucast v) = 0) dev 1 UART_LINE_STATUS s = Some r"
    using io_poll_returns [of "\<lambda>v. is_transmit_empty (ucast v) = 0" dev 1 UART_LINE_STATUS k s] by (auto simp: transmit_empty_bit)
  then have "\<exists>s1. write_serial dev c s = Some s1" by (cases r) (simp add: write_serial_def)
  with Cons show ?case by (auto simp: bind_eq_Some_conv)
qed simp

end
