(* ===== verification/Bootrom_Spi.thy ===== *)
theory Bootrom_Spi
  imports Bootrom_Uart
begin

text \<open>
  The SPI master of the boot ROM (\<^verbatim>\<open>bootrom/src/spi.c\<close>), which drives the AXI Quad SPI core of the FPGA. The delays (\<^verbatim>\<open>nop\<close> loops) leave no trace. The
  waiting loops are \<open>None\<close> when the core never reports a received byte.
\<close>

abbreviation (input) SPI_RESET_REG :: ulong where "SPI_RESET_REG \<equiv> 0x20000040"
abbreviation (input) SPI_CONTROL_REG :: ulong where "SPI_CONTROL_REG \<equiv> 0x20000060"
abbreviation (input) SPI_STATUS_REG :: ulong where "SPI_STATUS_REG \<equiv> 0x20000064"
abbreviation (input) SPI_TRANSMIT_REG :: ulong where "SPI_TRANSMIT_REG \<equiv> 0x20000068"
abbreviation (input) SPI_RECEIVE_REG :: ulong where "SPI_RECEIVE_REG \<equiv> 0x2000006c"
abbreviation (input) SPI_SLAVE_SELECT_REG :: ulong where "SPI_SLAVE_SELECT_REG \<equiv> 0x20000070"

section \<open>Operations\<close>

definition write_reg :: "'d io_dev \<Rightarrow> ulong \<Rightarrow> u32 \<Rightarrow> 'd io \<Rightarrow> 'd io" where
  "write_reg dev addr value s = io_write dev 4 addr (ucast value) s"

definition read_reg :: "'d io_dev \<Rightarrow> ulong \<Rightarrow> 'd io \<Rightarrow> u32 \<times> 'd io" where
  "read_reg dev addr s = (case io_read dev 4 addr s of (v, s) \<Rightarrow> (ucast v, s))"

definition print_spi_status :: "'d io_dev \<Rightarrow> string \<Rightarrow> 'd io \<Rightarrow> 'd io option" where
  "print_spi_status dev what s =
     (case read_reg dev SPI_STATUS_REG s of (status, s) \<Rightarrow>
        do { s \<leftarrow> print_uart dev what s;
             s \<leftarrow> print_uart_addr dev (ucast status) s;
             print_uart dev crlf s })"

definition spi_init :: "'d io_dev \<Rightarrow> 'd io \<Rightarrow> 'd io option" where
  "spi_init dev s =
     do { s \<leftarrow> print_uart dev (''init SPI'' @ crlf) s;
          s \<leftarrow> print_spi_status dev ''status: 0x'' (write_reg dev SPI_CONTROL_REG 0x104 (write_reg dev SPI_RESET_REG 0x0a s));
          s \<leftarrow> print_spi_status dev ''status: 0x'' (write_reg dev SPI_CONTROL_REG 0x166 s);
          print_uart dev (''SPI initialized!'' @ crlf) (write_reg dev SPI_CONTROL_REG 0x06 s) }"

definition rx_empty :: "ulong \<Rightarrow> bool" where
  "rx_empty status \<longleftrightarrow> (ucast status :: u32) AND 0x1 = 0x1"

definition wait_rx :: "'d io_dev \<Rightarrow> 'd io \<Rightarrow> (ulong \<times> 'd io) option" where
  "wait_rx dev s = io_poll rx_empty dev 4 SPI_STATUS_REG s"

definition spi_txrx :: "'d io_dev \<Rightarrow> u8 \<Rightarrow> 'd io \<Rightarrow> (u8 \<times> 'd io) option" where
  "spi_txrx dev byte s =
     do { let s = write_reg dev SPI_SLAVE_SELECT_REG 0xfffffffe s;
          let s = write_reg dev SPI_TRANSMIT_REG (ucast byte) s;
          let s = write_reg dev SPI_CONTROL_REG 0x106 s;
          (_, s) \<leftarrow> wait_rx dev s;
          let (result, s) = read_reg dev SPI_RECEIVE_REG s;
          let (status, s) = read_reg dev SPI_STATUS_REG s;
          s \<leftarrow> (if status AND 0x1 \<noteq> 0x1
                then do { s \<leftarrow> print_uart dev ''rx fifo not empty?? '' s;
                          let (status, s) = read_reg dev SPI_STATUS_REG s;
                          s \<leftarrow> print_uart_addr dev (ucast status) s;
                          print_uart dev crlf s }
                else Some s);
          let s = write_reg dev SPI_SLAVE_SELECT_REG 0xffffffff s;
          Some (ucast result, write_reg dev SPI_CONTROL_REG 0x06 s) }"

fun spi_fill :: "'d io_dev \<Rightarrow> u8 list \<Rightarrow> 'd io \<Rightarrow> 'd io" where
  "spi_fill dev [] s = s"
| "spi_fill dev (b # bs) s = spi_fill dev bs (write_reg dev SPI_TRANSMIT_REG (ucast b AND 0xff) s)"

text \<open>The receive loop: it stays at a byte until the core reports one, and then reads it.\<close>

fun spi_drain :: "'d io_dev \<Rightarrow> nat \<Rightarrow> 'd io \<Rightarrow> (u8 list \<times> 'd io) option" where
  "spi_drain dev 0 s = Some ([], s)"
| "spi_drain dev (Suc n) s =
     do { (_, s) \<leftarrow> wait_rx dev s;
          let (b, s) = read_reg dev SPI_RECEIVE_REG s;
          (bs, s) \<leftarrow> spi_drain dev n s;
          Some (ucast b # bs, s) }"

text \<open>
  The result code and the bytes stored from \<^verbatim>\<open>ret[0]\<close> on. A length beyond the array of bytes to send is outside the model
  (\<open>None\<close>).
\<close>

definition spi_write_bytes :: "'d io_dev \<Rightarrow> u8 list \<Rightarrow> u32 \<Rightarrow> 'd io \<Rightarrow> ((int \<times> u8 list) \<times> 'd io) option" where
  "spi_write_bytes dev bytes len s =
     (if 256 < len then Some ((- 1, []), s)
      else if length bytes < unat len then None
      else do { let s = write_reg dev SPI_SLAVE_SELECT_REG 0xfffffffe s;
                let s = spi_fill dev (take (unat len) bytes) s;
                let s = write_reg dev SPI_CONTROL_REG 0x106 s;
                (_, s) \<leftarrow> wait_rx dev s;
                (bs, s) \<leftarrow> spi_drain dev (unat len) s;
                let s = write_reg dev SPI_SLAVE_SELECT_REG 0xffffffff s;
                Some ((0, bs), write_reg dev SPI_CONTROL_REG 0x06 s) })"

section \<open>Bytes on the bus\<close>

text \<open>The bytes put into the transmit register and those taken from the receive register, in order.\<close>

fun tx_op :: "io_op \<Rightarrow> u8 list" where
  "tx_op (Io_wr n a v) = (if n = 4 \<and> a = SPI_TRANSMIT_REG then [ucast v] else [])"
| "tx_op (Io_rd n a v) = []"

fun rx_op :: "io_op \<Rightarrow> u8 list" where
  "rx_op (Io_rd n a v) = (if n = 4 \<and> a = SPI_RECEIVE_REG then [ucast v] else [])"
| "rx_op (Io_wr n a v) = []"

definition spi_tx :: "io_op list \<Rightarrow> u8 list" where
  "spi_tx tr = concat (map tx_op (rev tr))"

definition spi_rx :: "io_op list \<Rightarrow> u8 list" where
  "spi_rx tr = concat (map rx_op (rev tr))"

lemma spi_tx_Cons [simp]: "spi_tx (x # tr) = spi_tx tr @ tx_op x"
  by (simp add: spi_tx_def)

lemma spi_rx_Cons [simp]: "spi_rx (x # tr) = spi_rx tr @ rx_op x"
  by (simp add: spi_rx_def)

lemma uart_blind_spi [simp]: "uart_blind spi_tx" "uart_blind spi_rx"
  by (simp_all add: uart_blind_def)

lemma spi_reads [simp]:
  "spi_tx (map (Io_rd 4 SPI_STATUS_REG) vs @ tr) = spi_tx tr" "spi_rx (map (Io_rd 4 SPI_STATUS_REG) vs @ tr) = spi_rx tr"
  by (induction vs) simp_all

text \<open>Between two states of the boot ROM, \<open>sent\<close> went out on the bus and \<open>got\<close> came in.\<close>

abbreviation tx_of :: "'d io \<Rightarrow> u8 list" where "tx_of s \<equiv> spi_tx (io_trace s)"
abbreviation rx_of :: "'d io \<Rightarrow> u8 list" where "rx_of s \<equiv> spi_rx (io_trace s)"

definition bus :: "'d io \<Rightarrow> u8 list \<Rightarrow> u8 list \<Rightarrow> 'd io \<Rightarrow> bool" where
  "bus s sent got s' \<longleftrightarrow> tx_of s' = tx_of s @ sent \<and> rx_of s' = rx_of s @ got"

lemma bus_refl [simp]: "bus s [] [] s"
  by (simp add: bus_def)

lemma bus_trans: "bus s a b s1 \<Longrightarrow> bus s1 c d s2 \<Longrightarrow> bus s (a @ c) (b @ d) s2"
  by (simp add: bus_def)

lemma bus_silent: "bus s [] [] s1 \<Longrightarrow> bus s1 a b s2 \<Longrightarrow> bus s a b s2" "bus s a b s1 \<Longrightarrow> bus s1 [] [] s2 \<Longrightarrow> bus s a b s2"
  by (simp_all add: bus_def)

lemma bus_write_reg [simp]:
  "tx_of (write_reg dev a v s) = tx_of s @ (if a = SPI_TRANSMIT_REG then [ucast v] else [])"
  "rx_of (write_reg dev a v s) = rx_of s"
  by (simp_all add: write_reg_def)

lemma bus_read_reg [simp]:
  "tx_of (snd (read_reg dev a s)) = tx_of s"
  "rx_of (snd (read_reg dev a s)) = rx_of s @ (if a = SPI_RECEIVE_REG then [ucast (fst (read_reg dev a s))] else [])"
  by (auto simp: read_reg_def dest: io_read_trace split: prod.splits)

lemma bus_wait: "wait_rx dev s = Some (v, s') \<Longrightarrow> bus s [] [] s'"
  by (auto simp: bus_def wait_rx_def dest!: io_poll_trace)

lemma bus_print:
  "print_uart dev str s = Some s' \<Longrightarrow> bus s [] [] s'" "print_uart_addr dev a s = Some s' \<Longrightarrow> bus s [] [] s'"
  "print_uart_int dev i s = Some s' \<Longrightarrow> bus s [] [] s'" "print_uart_byte dev b s = Some s' \<Longrightarrow> bus s [] [] s'"
  unfolding print_defs by (simp_all only: bus_def print_bytes_trace(2) uart_blind_spi append_Nil2 simp_thms)

lemma bus_print_status: "print_spi_status dev what s = Some s' \<Longrightarrow> bus s [] [] s'"
  by (auto simp: print_spi_status_def bind_eq_Some_conv case_prod_beta bus_def dest!: bus_print)

lemma bus_init: "spi_init dev s = Some s' \<Longrightarrow> bus s [] [] s'"
  by (auto simp: spi_init_def bind_eq_Some_conv bus_def dest!: bus_print bus_print_status)

text \<open>One exchange sends the byte it is given and returns the byte that came in.\<close>

lemma bus_txrx: "spi_txrx dev byte s = Some (r, s') \<Longrightarrow> bus s [byte] [r] s'"
  by (auto simp: spi_txrx_def Let_def bind_eq_Some_conv case_prod_beta bus_def split: if_splits dest!: bus_print bus_wait)

lemma bus_fill: "bus s bs [] (spi_fill dev bs s)"
proof (induction bs arbitrary: s)
  case (Cons b bs)
  have "ucast (ucast b AND 0xff :: u32) = b"
    using take_bit_eq_mask [of 8 "ucast b :: u32"] by (simp add: mask_eq_exp_minus_1)
  with Cons [of "write_reg dev SPI_TRANSMIT_REG (ucast b AND 0xff) s"] show ?case by (simp add: bus_def)
qed simp

lemma bus_drain: "spi_drain dev n s = Some (bs, s') \<Longrightarrow> length bs = n \<and> bus s [] bs s'"
proof (induction n arbitrary: s bs)
  case (Suc n)
  then show ?case
    by (fastforce simp: Let_def bind_eq_Some_conv case_prod_beta bus_def dest!: bus_wait)
qed simp

text \<open>A block transfer sends the bytes it is given and stores as many.\<close>

lemma bus_write_bytes:
  assumes "spi_write_bytes dev bytes len s = Some ((rc, bs), s')" and "len \<le> 256"
  shows "rc = 0 \<and> length bs = unat len \<and> bus s (take (unat len) bytes) bs s'"
proof -
  have fill: "tx_of (spi_fill dev bs s) = tx_of s @ bs" "rx_of (spi_fill dev bs s) = rx_of s" for bs and s :: "'a io"
    using bus_fill [of s bs dev] by (simp_all add: bus_def)
  from assms show ?thesis
    by (auto simp: spi_write_bytes_def Let_def bind_eq_Some_conv case_prod_beta bus_def fill split: if_splits
        dest!: bus_wait bus_drain)
qed

section \<open>An example of a core and a card\<close>

text \<open>
  A concrete device on which the programs of the boot ROM run, to show that the statements about their runs are not empty. The core has its control register, its slave
  select register and a receive queue; the reset register and the reset bit of the control register empty the queue. A byte written to the
  transmit register is exchanged at once for a byte of the card if the core is enabled as a master, not inhibited, and the card is selected;
  otherwise it is lost. The card behind it plays a script, an idle line reading as ones, and the UART reports an empty transmitter. Nothing else of
  the development rests on this device.
\<close>

definition card_next :: "u8 list \<Rightarrow> u8" where
  "card_next xs = (case xs of [] \<Rightarrow> 0xff | x # _ \<Rightarrow> x)"

fun card_take :: "nat \<Rightarrow> u8 list \<Rightarrow> u8 list" where
  "card_take 0 xs = []"
| "card_take (Suc n) xs = card_next xs # card_take n (tl xs)"

lemma card_next_Cons [simp]: "card_next (x # xs) = x"
  by (simp add: card_next_def)

lemma card_take_append [simp]: "card_take (length xs) (xs @ ys) = xs"
  by (induction xs) simp_all

lemma length_card_take [simp]: "length (card_take n xs) = n"
  by (induction n arbitrary: xs) simp_all

record card =
  card_ctl :: u32
  card_sel :: u32
  card_fifo :: "u8 list"
  card_script :: "u8 list"

definition card_on :: "card \<Rightarrow> bool" where
  "card_on d \<longleftrightarrow> card_ctl d AND 0x106 = 0x006 \<and> card_sel d = 0xfffffffe"

definition card_write :: "ulong \<Rightarrow> u32 \<Rightarrow> card \<Rightarrow> card" where
  "card_write a v d =
     (if a = SPI_RESET_REG then d\<lparr>card_ctl := 0x180, card_sel := 0xffffffff, card_fifo := []\<rparr>
      else if a = SPI_CONTROL_REG then d\<lparr>card_ctl := v AND 0x39f, card_fifo := if v AND 0x40 \<noteq> 0 then [] else card_fifo d\<rparr>
      else if a = SPI_SLAVE_SELECT_REG then d\<lparr>card_sel := v\<rparr>
      else if a = SPI_TRANSMIT_REG \<and> card_on d
      then d\<lparr>card_fifo := card_fifo d @ [card_next (card_script d)], card_script := tl (card_script d)\<rparr>
      else d)"

definition card_dev :: "card io_dev" where
  "card_dev = \<lparr>
     dev_rd = (\<lambda>n a d.
       if a = SPI_STATUS_REG then (if card_fifo d = [] then 1 else 0, d)
       else if a = SPI_RECEIVE_REG then (case card_fifo d of [] \<Rightarrow> (0, d) | b # q \<Rightarrow> (ucast b, d\<lparr>card_fifo := q\<rparr>))
       else if a = UART_LINE_STATUS then (0x20, d) else (0, d)),
     dev_wr = (\<lambda>n a v d. card_write a (ucast v) d)\<rparr>"

abbreviation q_of :: "card io \<Rightarrow> u8 list" where "q_of s \<equiv> card_fifo (io_st s)"
abbreviation c_of :: "card io \<Rightarrow> u8 list" where "c_of s \<equiv> card_script (io_st s)"

text \<open>Between two transfers the core is enabled and its queue is empty.\<close>

definition core_idle :: "card io \<Rightarrow> bool" where
  "core_idle s \<longleftrightarrow> card_ctl (io_st s) = 0x06 \<and> q_of s = []"

lemma card_poll:
  assumes "\<not> go (take_bit (8 * n) (fst (dev_rd card_dev n a (io_st s))))" and "snd (dev_rd card_dev n a (io_st s)) = io_st s"
  shows "\<exists>v s'. io_poll go card_dev n a s = Some (v, s') \<and> io_st s' = io_st s"
  using assms by (subst io_poll.simps) (auto simp: io_read_def Let_def split: prod.splits)

lemma print_total: "\<exists>s'. print_bytes card_dev cs s = Some s' \<and> io_st s' = io_st s"
proof (induction cs arbitrary: s)
  case (Cons c cs)
  have "\<exists>v s'. io_poll (\<lambda>v. is_transmit_empty (ucast v) = 0) card_dev 1 UART_LINE_STATUS s = Some (v, s') \<and> io_st s' = io_st s"
    by (rule card_poll) (simp_all add: card_dev_def is_transmit_empty_def)
  then obtain v s0 where p: "io_poll (\<lambda>v. is_transmit_empty (ucast v) = 0) card_dev 1 UART_LINE_STATUS s = Some (v, s0)" "io_st s0 = io_st s" by blast
  have "io_st (write_reg_u8 card_dev UART_THR c s0) = io_st s"
    by (simp add: write_reg_u8_def io_write_def Let_def card_dev_def card_write_def p(2))
  with Cons [of "write_reg_u8 card_dev UART_THR c s0"] p(1) show ?case by (auto simp: write_serial_def)
qed simp

lemma print_uart_total: "\<exists>s'. print_uart card_dev str s = Some s' \<and> io_st s' = io_st s"
  unfolding print_uart_def by (rule print_total)

lemma and_1_eq_1: "(w :: u32) AND 1 = 1 \<longleftrightarrow> bit w 0"
proof -
  have "w AND 1 = (if bit w 0 then 1 else 0)" by (rule bit_word_eqI) (auto simp: bit_and_iff bit_1_iff intro!: gr0I)
  then show ?thesis by simp
qed

lemma rx_empty_bit: "rx_empty v \<longleftrightarrow> bit v 0"
  by (simp add: rx_empty_def and_1_eq_1 bit_ucast_iff)

lemma wait_total: "q_of s \<noteq> [] \<Longrightarrow> \<exists>v s'. wait_rx card_dev s = Some (v, s') \<and> io_st s' = io_st s"
  unfolding wait_rx_def by (rule card_poll) (simp_all add: card_dev_def rx_empty_bit)

lemma card_write_reg: "io_st (write_reg card_dev a v s) = card_write a v (io_st s)"
proof -
  have "ucast (take_bit 32 (ucast v :: ulong)) = v" by (rule bit_word_eqI) (simp add: bit_simps)
  then show ?thesis by (simp add: write_reg_def io_write_def Let_def card_dev_def)
qed

lemma read_receive:
  assumes "q_of s = b # q"
  shows "ucast (fst (read_reg card_dev SPI_RECEIVE_REG s)) = b" "io_st (snd (read_reg card_dev SPI_RECEIVE_REG s)) = io_st s\<lparr>card_fifo := q\<rparr>"
proof -
  have "ucast (take_bit 32 (ucast b :: ulong)) = b" by (rule bit_word_eqI) (simp add: bit_simps)
  then have "ucast (ucast (take_bit 32 (ucast b :: ulong)) :: u32) = b" by (intro bit_word_eqI) (simp add: bit_simps)
  then show "ucast (fst (read_reg card_dev SPI_RECEIVE_REG s)) = b" "io_st (snd (read_reg card_dev SPI_RECEIVE_REG s)) = io_st s\<lparr>card_fifo := q\<rparr>"
    using assms by (simp_all add: read_reg_def io_read_def Let_def card_dev_def)
qed

lemma read_status:
  "io_st (snd (read_reg card_dev SPI_STATUS_REG s)) = io_st s"
  "q_of s = [] \<Longrightarrow> fst (read_reg card_dev SPI_STATUS_REG s) AND 1 = 1"
  by (simp_all add: read_reg_def io_read_def Let_def card_dev_def)

lemma card_selected:
  "card_ctl d = 6 \<Longrightarrow> card_on (card_write SPI_SLAVE_SELECT_REG 0xfffffffe d)"
  "card_fifo (card_write SPI_SLAVE_SELECT_REG v d) = card_fifo d" "card_script (card_write SPI_SLAVE_SELECT_REG v d) = card_script d"
  "card_ctl (card_write SPI_SLAVE_SELECT_REG v d) = card_ctl d"
  by (simp_all add: card_write_def card_on_def)

lemma card_transmit:
  assumes "card_on d"
  shows "card_fifo (card_write SPI_TRANSMIT_REG v d) = card_fifo d @ [card_next (card_script d)]"
    "card_script (card_write SPI_TRANSMIT_REG v d) = tl (card_script d)" "card_on (card_write SPI_TRANSMIT_REG v d)"
  using assms by (simp_all add: card_write_def card_on_def)

lemma card_control:
  "card_fifo (card_write SPI_CONTROL_REG 0x106 d) = card_fifo d" "card_script (card_write SPI_CONTROL_REG v d) = card_script d"
  "card_fifo (card_write SPI_CONTROL_REG 0x06 d) = card_fifo d" "card_ctl (card_write SPI_CONTROL_REG 0x06 d) = 0x06"
  by (simp_all add: card_write_def)

text \<open>An exchange returns the next byte of the card; a block transfer the next bytes.\<close>

lemma txrx_total:
  assumes "core_idle s"
  shows "\<exists>s'. spi_txrx card_dev b s = Some (card_next (c_of s), s') \<and> core_idle s' \<and> c_of s' = tl (c_of s)"
proof -
  define t where "t = write_reg card_dev SPI_CONTROL_REG 0x106 (write_reg card_dev SPI_TRANSMIT_REG (ucast b) (write_reg card_dev SPI_SLAVE_SELECT_REG 0xfffffffe s))"
  have t: "q_of t = [card_next (c_of s)]" "c_of t = tl (c_of s)"
    using assms by (simp_all add: t_def card_write_reg core_idle_def card_control card_transmit card_selected)
  from wait_total [of t] t obtain v t1 where w: "wait_rx card_dev t = Some (v, t1)" and t1: "io_st t1 = io_st t" by auto
  then have q1: "q_of t1 = [card_next (c_of s)]" using t by simp
  note rx = read_receive [OF q1]
  let ?t2 = "snd (read_reg card_dev SPI_RECEIVE_REG t1)"
  have st: "fst (read_reg card_dev SPI_STATUS_REG ?t2) AND 1 = 1" by (rule read_status(2)) (simp add: rx(2))
  show ?thesis
    using w rx st t t1 unfolding spi_txrx_def Let_def t_def [symmetric]
    by (simp add: case_prod_beta card_write_reg core_idle_def card_control card_selected read_status)
qed

lemma fill_total:
  "card_on (io_st s) \<Longrightarrow> q_of (spi_fill card_dev bs s) = q_of s @ card_take (length bs) (c_of s) \<and> c_of (spi_fill card_dev bs s) = drop (length bs) (c_of s)"
  by (induction bs arbitrary: s) (simp_all add: card_write_reg card_transmit drop_Suc)

lemma drain_total:
  "q_of s = bs \<Longrightarrow> \<exists>s'. spi_drain card_dev (length bs) s = Some (bs, s') \<and> q_of s' = [] \<and> c_of s' = c_of s"
proof (induction bs arbitrary: s)
  case (Cons b bs)
  from wait_total [of s] Cons.prems obtain v t where w: "wait_rx card_dev s = Some (v, t)" and t: "io_st t = io_st s" by auto
  have q: "q_of t = b # bs" using t Cons.prems by simp
  note rx = read_receive [OF q]
  from Cons.IH [of "snd (read_reg card_dev SPI_RECEIVE_REG t)"] rx(2) obtain s' where
    "spi_drain card_dev (length bs) (snd (read_reg card_dev SPI_RECEIVE_REG t)) = Some (bs, s')" "q_of s' = []" "c_of s' = c_of s" using t by auto
  with w rx(1) show ?case by (simp add: case_prod_beta)
qed simp

lemma write_bytes_total:
  assumes "core_idle s" and "0 < len" "len \<le> 256" "unat len \<le> length bytes"
  shows "\<exists>s'. spi_write_bytes card_dev bytes len s = Some ((0, card_take (unat len) (c_of s)), s') \<and> core_idle s' \<and> c_of s' = drop (unat len) (c_of s)"
proof -
  let ?n = "unat len"
  let ?s = "write_reg card_dev SPI_SLAVE_SELECT_REG 0xfffffffe s"
  define t where "t = write_reg card_dev SPI_CONTROL_REG 0x106 (spi_fill card_dev (take ?n bytes) ?s)"
  have s: "card_on (io_st ?s)" "q_of ?s = []" "c_of ?s = c_of s" using assms(1) by (simp_all add: core_idle_def card_write_reg card_selected)
  have t: "q_of t = card_take ?n (c_of s)" "c_of t = drop ?n (c_of s)"
    using assms fill_total [OF s(1), of "take ?n bytes"] s by (simp_all add: t_def card_write_reg [of SPI_CONTROL_REG] card_control min_absorb2)
  have "0 < ?n" using assms(2) by (simp add: word_less_nat_alt)
  then have "q_of t \<noteq> []" using t(1) length_card_take [of ?n "c_of s"] by (metis length_0_conv less_irrefl)
  from wait_total [OF this] obtain v t1 where w: "wait_rx card_dev t = Some (v, t1)" and t1: "io_st t1 = io_st t" by auto
  from drain_total [of t1 "card_take ?n (c_of s)"] t t1 obtain t2 where
    "spi_drain card_dev ?n t1 = Some (card_take ?n (c_of s), t2)" "q_of t2 = []" "c_of t2 = drop ?n (c_of s)" by auto
  with w assms show ?thesis unfolding spi_write_bytes_def Let_def t_def [symmetric]
    by (simp add: card_write_reg core_idle_def card_control card_selected not_less)
qed

end
