(* ===== verification/Bootrom_Sd.thy ===== *)
theory Bootrom_Sd
  imports Bootrom_Spi
begin

text \<open>
  The SD card driver of the boot ROM (\<^verbatim>\<open>bootrom/src/sd.c\<close>): commands and their responses, the start-up of the card, the checksums and the reading of
  blocks. Memory is a function from addresses to bytes. Loops that wait for the card are \<open>None\<close> when it never answers.
\<close>

abbreviation (input) SD_DATA_TOKEN :: u8 where "SD_DATA_TOKEN \<equiv> 0xfe"
abbreviation (input) SD_COPY_ERROR_CMD18 :: int where "SD_COPY_ERROR_CMD18 \<equiv> - 1"
abbreviation (input) SD_COPY_ERROR_CMD18_CRC :: int where "SD_COPY_ERROR_CMD18_CRC \<equiv> - 2"
abbreviation (input) SD_INIT_ERROR_CMD0 :: int where "SD_INIT_ERROR_CMD0 \<equiv> - 1"
abbreviation (input) SD_INIT_ERROR_CMD8 :: int where "SD_INIT_ERROR_CMD8 \<equiv> - 2"
abbreviation (input) SD_INIT_ERROR_ACMD41 :: int where "SD_INIT_ERROR_ACMD41 \<equiv> - 3"

type_synonym mem = "ulong \<Rightarrow> u8"

section \<open>Commands\<close>

definition sd_dummy :: "'d io_dev \<Rightarrow> 'd io \<Rightarrow> (u8 \<times> 'd io) option" where
  "sd_dummy dev s = spi_txrx dev 0xff s"

fun spi_send :: "'d io_dev \<Rightarrow> u8 list \<Rightarrow> 'd io \<Rightarrow> 'd io option" where
  "spi_send dev [] s = Some s"
| "spi_send dev (b # bs) s = do { (_, s) \<leftarrow> spi_txrx dev b s; spi_send dev bs s }"

text \<open>\<^verbatim>\<open>do { r = sd_dummy(); if (!(r & 0x80)) break; } while (--n > 0);\<close>\<close>

fun sd_response :: "'d io_dev \<Rightarrow> nat \<Rightarrow> 'd io \<Rightarrow> (u8 \<times> 'd io) option" where
  "sd_response dev n s =
     do { (r, s) \<leftarrow> sd_dummy dev s;
          if r AND 0x80 = 0 then Some (r, s)
          else if 1 < n then sd_response dev (n - 1) s
          else Some (r, s) }"

declare sd_response.simps [simp del]

definition sd_cmd :: "'d io_dev \<Rightarrow> u8 \<Rightarrow> u32 \<Rightarrow> u8 \<Rightarrow> 'd io \<Rightarrow> (u8 \<times> 'd io) option" where
  "sd_cmd dev cmd arg crc s =
     do { (_, s) \<leftarrow> sd_dummy dev s;
          s \<leftarrow> spi_send dev [0x40 OR cmd, ucast (drop_bit 24 arg), ucast (drop_bit 16 arg), ucast (drop_bit 8 arg), ucast arg, crc] s;
          sd_response dev 100 s }"

definition print_status :: "'d io_dev \<Rightarrow> string \<Rightarrow> u8 \<Rightarrow> 'd io \<Rightarrow> 'd io option" where
  "print_status dev cmd response s =
     do { s \<leftarrow> print_uart dev ''SD command '' s;
          s \<leftarrow> print_uart dev cmd s;
          s \<leftarrow> print_uart dev ('' '' @ tab @ ''response : '') s;
          s \<leftarrow> print_uart_byte dev response s;
          print_uart dev crlf s }"

text \<open>\<^verbatim>\<open>while (r != 0x1)\<close> with the count of attempts left.\<close>

fun sd_cmd0_loop :: "'d io_dev \<Rightarrow> nat \<Rightarrow> u8 \<Rightarrow> 'd io \<Rightarrow> (bool \<times> 'd io) option" where
  "sd_cmd0_loop dev counter r s =
     (if r \<noteq> 0x1
      then do { (r, s) \<leftarrow> sd_cmd dev 0 0 0x95 s;
                (_, s) \<leftarrow> sd_dummy dev s;
                if counter - 1 = 0 then Some (False, s) else sd_cmd0_loop dev (counter - 1) r s }
      else do { s \<leftarrow> print_status dev ''cmd0'' r s; Some (r = 0x1, s) })"

declare sd_cmd0_loop.simps [simp del]

definition sd_cmd0 :: "'d io_dev \<Rightarrow> 'd io \<Rightarrow> (bool \<times> 'd io) option" where
  "sd_cmd0 dev s = sd_cmd0_loop dev 10000 0xff s"

definition sd_cmd8 :: "'d io_dev \<Rightarrow> 'd io \<Rightarrow> (bool \<times> 'd io) option" where
  "sd_cmd8 dev s =
     do { (r1, s) \<leftarrow> sd_cmd dev 8 0x1aa 0x87 s;
          (_, s) \<leftarrow> sd_dummy dev s;
          (_, s) \<leftarrow> sd_dummy dev s;
          (r4, s) \<leftarrow> sd_dummy dev s;
          (r5, s) \<leftarrow> sd_dummy dev s;
          (_, s) \<leftarrow> sd_dummy dev s;
          (_, s) \<leftarrow> sd_dummy dev s;
          Some (r1 = 0x1 \<and> r4 AND 0xf = 0x1 \<and> r5 = 0xaa, s) }"

definition sd_cmd55 :: "'d io_dev \<Rightarrow> 'd io \<Rightarrow> (bool \<times> 'd io) option" where
  "sd_cmd55 dev s =
     do { (r, s) \<leftarrow> sd_cmd dev 55 0x0 0x65 s;
          (_, s) \<leftarrow> sd_dummy dev s;
          s \<leftarrow> print_status dev ''cmd55'' r s;
          Some (r = 0x1, s) }"

partial_function (option) sd_acmd41 :: "'d io_dev \<Rightarrow> 'd io \<Rightarrow> (bool \<times> 'd io) option" where
  "sd_acmd41 dev s =
     do { (_, s) \<leftarrow> sd_cmd55 dev s;
          (r, s) \<leftarrow> sd_cmd dev 41 0x40000000 0x77 s;
          s \<leftarrow> print_status dev ''cmd41'' r s;
          (_, s) \<leftarrow> sd_dummy dev s;
          if r = 0x1 then sd_acmd41 dev s else Some (r = 0x00, s) }"

declare sd_acmd41.simps [code]

definition init_sd :: "'d io_dev \<Rightarrow> 'd io \<Rightarrow> (int \<times> 'd io) option" where
  "init_sd dev s =
     do { s \<leftarrow> spi_init dev s;
          s \<leftarrow> print_uart dev (''initializing SD... '' @ crlf) s;
          s \<leftarrow> spi_send dev (replicate 10 0xff) s;
          (ok, s) \<leftarrow> sd_cmd0 dev s;
          if \<not> ok then Some (SD_INIT_ERROR_CMD0, s)
          else do { (ok, s) \<leftarrow> sd_cmd8 dev s;
                    if \<not> ok then Some (SD_INIT_ERROR_CMD8, s)
                    else do { (ok, s) \<leftarrow> sd_acmd41 dev s;
                              if \<not> ok then Some (SD_INIT_ERROR_ACMD41, s) else Some (0, s) } } }"

section \<open>Checksums\<close>

definition crc7 :: "u8 \<Rightarrow> u8 \<Rightarrow> u8" where
  "crc7 prev inp =
     (let r = prev AND inp;
          r = r XOR (drop_bit 4 r XOR drop_bit 7 r);
          r = r XOR push_bit 4 r
      in r AND 0x7f)"

definition crc16 :: "u16 \<Rightarrow> u8 \<Rightarrow> u16" where
  "crc16 crc data =
     (let crc = ucast (ucast (drop_bit 8 crc) :: u8) OR push_bit 8 crc;
          crc = crc XOR ucast data;
          crc = crc XOR (ucast (ucast (drop_bit 4 crc) :: u8) AND 0xf);
          crc = crc XOR push_bit 12 crc
      in crc XOR push_bit 5 (crc AND 0xff))"

section \<open>Reading blocks\<close>

definition mem_store :: "ulong \<Rightarrow> u8 list \<Rightarrow> mem \<Rightarrow> mem" where
  "mem_store p bs mem = (\<lambda>a. if unat (a - p) < length bs then bs ! unat (a - p) else mem a)"

partial_function (option) sd_wait_token :: "'d io_dev \<Rightarrow> 'd io \<Rightarrow> 'd io option" where
  "sd_wait_token dev s =
     do { (r, s) \<leftarrow> sd_dummy dev s; if r \<noteq> SD_DATA_TOKEN then sd_wait_token dev s else Some s }"

declare sd_wait_token.simps [code]

text \<open>The inner loop: transfers of 64 bytes until \<open>n\<close> bytes are read; \<^verbatim>\<open>p[i]\<close> is read back from memory for the checksum.\<close>

fun sd_block :: "'d io_dev \<Rightarrow> nat \<Rightarrow> ulong \<Rightarrow> u16 \<Rightarrow> mem \<Rightarrow> 'd io \<Rightarrow> (u16 \<times> ulong \<times> mem \<times> 'd io) option" where
  "sd_block dev n p crc mem s =
     do { ((_, bs), s) \<leftarrow> spi_write_bytes dev (replicate 128 0xff) 64 s;
          let mem = mem_store p bs mem;
          let crc = fold (\<lambda>i crc. crc16 crc (mem (p + of_nat i))) [0..<64] crc;
          if 64 < n then sd_block dev (n - 64) (p + 64) crc mem s else Some (crc, p + 64, mem, s) }"

declare sd_block.simps [simp del]

fun sd_copy_loop :: "'d io_dev \<Rightarrow> nat \<Rightarrow> ulong \<Rightarrow> mem \<Rightarrow> 'd io \<Rightarrow> (int \<times> mem \<times> 'd io) option" where
  "sd_copy_loop dev i p mem s =
     do { s \<leftarrow> sd_wait_token dev s;
          (crc, p, mem, s) \<leftarrow> sd_block dev 512 p 0 mem s;
          (hi, s) \<leftarrow> sd_dummy dev s;
          (lo, s) \<leftarrow> sd_dummy dev s;
          let crc_exp = push_bit 8 (ucast hi) OR ucast lo;
          if crc \<noteq> crc_exp then Some (SD_COPY_ERROR_CMD18_CRC, mem, s)
          else do { s \<leftarrow> (if i mod 1000 = 0 then print_uart dev ''.'' s else Some s);
                    if 1 < i then sd_copy_loop dev (i - 1) p mem s else Some (0, mem, s) } }"

declare sd_copy_loop.simps [simp del]

definition read_cmd_crc :: "u32 \<Rightarrow> u8" where
  "read_cmd_crc src_lba =
     (let crc = 0;
          crc = crc7 crc (0x40 OR 18);
          crc = crc7 crc (ucast (drop_bit 24 src_lba AND 0xff));
          crc = crc7 crc (ucast (drop_bit 16 src_lba AND 0xff));
          crc = crc7 crc (ucast (drop_bit 8 src_lba AND 0xff));
          crc = crc7 crc (ucast (src_lba AND 0xff))
      in push_bit 1 crc OR 1)"

definition sd_copy :: "'d io_dev \<Rightarrow> ulong \<Rightarrow> u32 \<Rightarrow> u32 \<Rightarrow> mem \<Rightarrow> 'd io \<Rightarrow> (int \<times> mem \<times> 'd io) option" where
  "sd_copy dev dst src_lba sz mem s =
     do { (r, s) \<leftarrow> sd_cmd dev 18 src_lba (read_cmd_crc src_lba) s;
          if r \<noteq> 0x00
          then do { s \<leftarrow> spi_send dev (replicate 8 0xff) s;
                    s \<leftarrow> print_uart dev (''could not read SD block'' @ crlf) s;
                    Some (SD_COPY_ERROR_CMD18, mem, s) }
          else do { (rc, mem, s) \<leftarrow> sd_copy_loop dev (unat sz) dst mem s;
                    (_, s) \<leftarrow> sd_cmd dev 12 0 0x01 s;
                    (_, s) \<leftarrow> sd_dummy dev s;
                    Some (rc, mem, s) } }"

section \<open>The block checksum\<close>

text \<open>
  The reference: division by the polynomial \<open>x\<^sup>1\<^sup>6 + x\<^sup>1\<^sup>2 + x\<^sup>5 + 1\<close> of CRC-16-CCITT, one bit of the message at a time, the most significant
  bit of a byte first.
\<close>

definition crc_bit :: "u16 \<Rightarrow> bool \<Rightarrow> u16" where
  "crc_bit c b = push_bit 1 c XOR (if bit c 15 \<noteq> b then 0x1021 else 0)"

definition byte_bits :: "u8 \<Rightarrow> bool list" where
  "byte_bits x = map (bit x) [7, 6, 5, 4, 3, 2, 1, 0]"

definition crc16_ref :: "u16 \<Rightarrow> bool list \<Rightarrow> u16" where
  "crc16_ref c bs = foldl crc_bit c bs"

lemma bit_crc_bit: "n < 16 \<Longrightarrow> bit (crc_bit c b) n \<longleftrightarrow> (0 < n \<and> bit c (n - 1)) \<noteq> ((n = 0 \<or> n = 5 \<or> n = 12) \<and> bit c 15 \<noteq> b)"
proof -
  assume n: "n < 16"
  then have "bit (0x1021 :: u16) n \<longleftrightarrow> n = 0 \<or> n = 5 \<or> n = 12"
    by (simp add: less_Suc_eq numeral_eq_Suc) (elim disjE; simp add: bit_numeral_rec bit_0)
  moreover have "bit (push_bit 1 c) n \<longleftrightarrow> 0 < n \<and> bit c (n - 1)"
    using n by (auto simp: bit_push_bit_iff simp del: push_bit_Suc)
  ultimately show ?thesis by (auto simp only: crc_bit_def bit_xor_iff if_split bit_0_eq split: if_splits)
qed

lemma u8_high_bits [simp]: "8 \<le> k \<Longrightarrow> \<not> bit (x :: u8) k"
  using bit_imp_le_length [of x k] by auto

lemma u16_bit_cases: "n < LENGTH(16) \<Longrightarrow> n \<in> {0, 1, 2, 3, 4, 5, 6, 7, 8, 9, 10, 11, 12, 13, 14, 15}"
  by simp arith

lemmas crc16_bits = crc16_def Let_def bit_simps

lemma crc16_ccitt: "crc16 c x = crc16_ref c (byte_bits x)"
proof (rule bit_word_eqI)
  fix n assume "n < LENGTH(16)"
  from u16_bit_cases [OF this] show "bit (crc16 c x) n = bit (crc16_ref c (byte_bits x)) n"
    by (elim insertE emptyE; simp add: crc16_ref_def byte_bits_def bit_crc_bit crc16_bits; argo?)
qed

text \<open>The checksum is linear over exclusive or and loses nothing of either operand.\<close>

lemma crc16_linear: "crc16 (c XOR d) (x XOR y) = crc16 c x XOR crc16 d y"
proof (rule bit_word_eqI)
  fix n assume "n < LENGTH(16)"
  from u16_bit_cases [OF this] show "bit (crc16 (c XOR d) (x XOR y)) n = bit (crc16 c x XOR crc16 d y) n"
    by (elim insertE emptyE; simp add: crc16_bits; argo?)
qed

lemma crc16_kernel: "crc16 0 x = 0 \<Longrightarrow> x = 0" "crc16 c 0 = 0 \<Longrightarrow> c = 0"
proof -
  assume z: "crc16 0 x = 0"
  have b: "\<not> bit (crc16 0 x) n" for n by (simp add: z)
  note b [of 0] b [of 1] b [of 2] b [of 3] b [of 4] b [of 5] b [of 6] b [of 7] b [of 12] b [of 9] b [of 10] b [of 11]
  then have "\<not> bit x 0" "\<not> bit x 1" "\<not> bit x 2" "\<not> bit x 3" "\<not> bit x 4" "\<not> bit x 5" "\<not> bit x 6" "\<not> bit x 7"
    by (simp_all add: crc16_bits)
  then show "x = 0"
    by (intro bit_word_eqI) (auto simp: less_Suc_eq numeral_eq_Suc)
next
  assume z: "crc16 c 0 = 0"
  have b: "\<not> bit (crc16 c 0) n" for n by (simp add: z)
  note c = crc16_bits
  have c12: "\<not> bit c 12" using b [of 4] by (simp add: c )
  have c8: "\<not> bit c 8" using b [of 0] by (simp add: c c12)
  have c13: "\<not> bit c 13" using b [of 5] by (simp add: c c12 c8)
  have c9: "\<not> bit c 9" using b [of 1] by (simp add: c c12 c8 c13)
  have c14: "\<not> bit c 14" using b [of 6] by (simp add: c c12 c8 c13 c9)
  have c10: "\<not> bit c 10" using b [of 2] by (simp add: c c12 c8 c13 c9 c14)
  have c15: "\<not> bit c 15" using b [of 7] by (simp add: c c12 c8 c13 c9 c14 c10)
  have c11: "\<not> bit c 11" using b [of 3] by (simp add: c c12 c8 c13 c9 c14 c10 c15)
  have c0: "\<not> bit c 0" using b [of 8] by (simp add: c c12 c8 c13 c9 c14 c10 c15 c11)
  have c1: "\<not> bit c 1" using b [of 9] by (simp add: c c12 c8 c13 c9 c14 c10 c15 c11 c0)
  have c2: "\<not> bit c 2" using b [of 10] by (simp add: c c12 c8 c13 c9 c14 c10 c15 c11 c0 c1)
  have c3: "\<not> bit c 3" using b [of 11] by (simp add: c c12 c8 c13 c9 c14 c10 c15 c11 c0 c1 c2)
  have c4: "\<not> bit c 4" using b [of 12] by (simp add: c c12 c8 c13 c9 c14 c10 c15 c11 c0 c1 c2 c3)
  have c5: "\<not> bit c 5" using b [of 13] by (simp add: c c12 c8 c13 c9 c14 c10 c15 c11 c0 c1 c2 c3 c4)
  have c6: "\<not> bit c 6" using b [of 14] by (simp add: c c12 c8 c13 c9 c14 c10 c15 c11 c0 c1 c2 c3 c4 c5)
  have c7: "\<not> bit c 7" using b [of 15] by (simp add: c c12 c8 c13 c9 c14 c10 c15 c11 c0 c1 c2 c3 c4 c5 c6)
  show "c = 0"
  proof (rule bit_word_eqI)
    fix n assume "n < LENGTH(16)"
    from u16_bit_cases [OF this] show "bit c n = bit 0 n"
      by (elim insertE emptyE) (simp_all add: c0 c1 c2 c3 c4 c5 c6 c7 c8 c9 c10 c11 c12 c13 c14 c15 del: One_nat_def)
  qed
qed

text \<open>The checksum of a sequence of bytes.\<close>

definition crc_bytes :: "u16 \<Rightarrow> u8 list \<Rightarrow> u16" where
  "crc_bytes c bs = fold (\<lambda>b c. crc16 c b) bs c"

lemma crc_bytes_simps [simp]:
  "crc_bytes c [] = c" "crc_bytes c (b # bs) = crc_bytes (crc16 c b) bs" "crc_bytes c (as @ bs) = crc_bytes (crc_bytes c as) bs"
  by (simp_all add: crc_bytes_def)

lemma crc_bytes_ref: "crc_bytes c bs = crc16_ref c (concat (map byte_bits bs))"
  by (induction bs arbitrary: c) (simp_all add: crc16_ccitt crc16_ref_def)

lemma xor_eq_0: "(a :: 'a::len word) XOR b = 0 \<longleftrightarrow> a = b"
  by (auto simp: bit_eq_iff bit_xor_iff)

lemma crc16_inject: "crc16 c x = crc16 c y \<Longrightarrow> x = y" "crc16 c x = crc16 d x \<Longrightarrow> c = d"
  using crc16_linear [of c c x y] crc16_linear [of c d x x] crc16_kernel(1) [of "x XOR y"] crc16_kernel(2) [of "c XOR d"]
  by (simp_all add: xor_eq_0)

lemma crc_bytes_inject: "crc_bytes c bs = crc_bytes d bs \<Longrightarrow> c = d"
  by (induction bs arbitrary: c d) (auto dest: crc16_inject)

text \<open>
  C30. The checksum of a block is the remainder of CRC-16-CCITT, computed bit by bit, and it tells apart any two blocks that differ in one byte.
\<close>

theorem sd_crc16_correct:
  "crc_bytes 0 bs = crc16_ref 0 (concat (map byte_bits bs)) \<and>
   (x \<noteq> y \<longrightarrow> crc_bytes c (as @ x # bs) \<noteq> crc_bytes c (as @ y # bs))"
  using crc_bytes_inject [of "crc16 (crc_bytes c as) x" bs "crc16 (crc_bytes c as) y"] crc16_inject(1) [of "crc_bytes c as" x y]
    crc_bytes_ref [of 0 bs]
  by auto

theorem sd_crc16_correct_witness:
  "crc_bytes 0 (map of_char ''123456789'') = 0x31c3 \<and> crc_bytes 0 [1, 2, 3] \<noteq> crc_bytes 0 [1, 0, 3]"
proof -
  have "crc16_ref 0 (concat (map byte_bits (map of_char ''123456789''))) = 0x31c3" by code_simp
  then show ?thesis
    using sd_crc16_correct [where bs = "map of_char ''123456789''" and x = 0 and y = 0]
      sd_crc16_correct [where bs = "[3]" and x = 2 and y = 0 and as = "[1]" and c = 0] by simp
qed

section \<open>The command checksum\<close>

text \<open>
  The reference for the seven-bit checksum of a command, with the polynomial \<open>x\<^sup>7 + x\<^sup>3 + 1\<close>, and the byte that ends a command: the checksum and a
  one.
\<close>

definition crc7_bit :: "u8 \<Rightarrow> bool \<Rightarrow> u8" where
  "crc7_bit c b = (push_bit 1 c XOR (if bit c 6 \<noteq> b then 0x09 else 0)) AND 0x7f"

definition crc7_end :: "u8 list \<Rightarrow> u8" where
  "crc7_end bs = push_bit 1 (foldl crc7_bit 0 (concat (map byte_bits bs))) OR 1"

definition sd_frame :: "u8 \<Rightarrow> u32 \<Rightarrow> u8 list" where
  "sd_frame cmd arg = [0x40 OR cmd, ucast (drop_bit 24 arg), ucast (drop_bit 16 arg), ucast (drop_bit 8 arg), ucast arg]"

text \<open>
  The constants that end the commands of the start-up are the checksums of these commands. The routine for the read command is not
  the checksum: it combines with \<^verbatim>\<open>&\<close> where the remainder needs an exclusive or, so from zero it stays zero, and every read command ends
  in 1.
\<close>

lemma crc7_zero: "crc7 0 x = 0"
  by (simp add: crc7_def)

theorem read_cmd_crc_constant:
  "read_cmd_crc lba = 0x01 \<and> crc7_end (sd_frame 18 0) = 0xe1 \<and>
   crc7_end (sd_frame 0 0) = 0x95 \<and> crc7_end (sd_frame 8 0x1aa) = 0x87 \<and>
   crc7_end (sd_frame 55 0) = 0x65 \<and> crc7_end (sd_frame 41 0x40000000) = 0x77"
proof -
  have "read_cmd_crc lba = 0x01" by (simp add: read_cmd_crc_def crc7_zero)
  moreover have "crc7_end (sd_frame 18 0) = 0xe1" "crc7_end (sd_frame 0 0) = 0x95" "crc7_end (sd_frame 8 0x1aa) = 0x87"
    "crc7_end (sd_frame 55 0) = 0x65" "crc7_end (sd_frame 41 0x40000000) = 0x77" by code_simp+
  ultimately show ?thesis by blast
qed

section \<open>The dialogue with the card\<close>

lemma bus_dummy: "sd_dummy dev s = Some (r, s') \<Longrightarrow> bus s [0xff] [r] s'"
  by (simp add: sd_dummy_def bus_txrx)

lemma bus_send: "spi_send dev bs s = Some s' \<Longrightarrow> \<exists>got. length got = length bs \<and> bus s bs got s'"
proof (induction bs arbitrary: s)
  case (Cons b bs)
  then obtain r s1 where x: "spi_txrx dev b s = Some (r, s1)" and "spi_send dev bs s1 = Some s'"
    by (auto simp: bind_eq_Some_conv)
  with Cons.IH obtain got where "length got = length bs" "bus s1 bs got s'" by blast
  with bus_trans [OF bus_txrx [OF x]] have "length (r # got) = length (b # bs) \<and> bus s (b # bs) (r # got) s'" by fastforce
  then show ?case by blast
qed simp

text \<open>A response: busy bytes, whose top bit is set, and then the byte that is returned.\<close>

lemma bus_response:
  "sd_response dev n s = Some (r, s') \<Longrightarrow>
    \<exists>busy. bus s (replicate (length busy + 1) 0xff) (busy @ [r]) s' \<and> (\<forall>b \<in> set busy. b AND 0x80 \<noteq> 0) \<and> length busy < max 1 n"
proof (induction n arbitrary: s rule: less_induct)
  case (less n)
  from less.prems obtain q s1 where d: "sd_dummy dev s = Some (q, s1)"
    and q: "if q AND 0x80 = 0 then (r, s') = (q, s1) else if 1 < n then sd_response dev (n - 1) s1 = Some (r, s') else (r, s') = (q, s1)"
    by (subst (asm) sd_response.simps) (auto simp: bind_eq_Some_conv split: if_splits)
  show ?case
  proof (cases "q AND 0x80 \<noteq> 0 \<and> 1 < n")
    case True
    with q less.IH [of "n - 1" s1] obtain busy where "bus s1 (replicate (length busy + 1) 0xff) (busy @ [r]) s'"
      "\<forall>b \<in> set busy. b AND 0x80 \<noteq> 0" "length busy < max 1 (n - 1)" by auto
    with True bus_trans [OF bus_dummy [OF d]] show ?thesis by (intro exI [of _ "q # busy"]) fastforce
  next
    case False
    with q d show ?thesis by (intro exI [of _ "[]"]) (auto dest: bus_dummy split: if_splits)
  qed
qed

text \<open>A command puts its frame on the bus after one idle byte, then clocks out the response.\<close>

lemma bus_cmd:
  assumes "sd_cmd dev cmd arg crc s = Some (r, s')"
  shows "\<exists>n got. bus s ([0xff] @ sd_frame cmd arg @ [crc] @ replicate n 0xff) (got @ [r]) s' \<and> n \<le> 100 \<and> length got = n + 6"
proof -
  from assms obtain q s1 s2 where d: "sd_dummy dev s = Some (q, s1)" and f: "spi_send dev (sd_frame cmd arg @ [crc]) s1 = Some s2"
    and r: "sd_response dev 100 s2 = Some (r, s')" by (auto simp: sd_cmd_def sd_frame_def bind_eq_Some_conv)
  from bus_send [OF f] obtain g where g: "length g = 6" "bus s1 (sd_frame cmd arg @ [crc]) g s2"
    by (auto simp: sd_frame_def numeral_eq_Suc)
  from bus_response [OF r] obtain busy where "bus s2 (replicate (length busy + 1) 0xff) (busy @ [r]) s'" "length busy < 100" by auto
  with g bus_trans [OF bus_trans [OF bus_dummy [OF d] g(2)]] show ?thesis
    by (intro exI [of _ "length busy + 1"] exI [of _ "q # g @ busy"]) fastforce
qed

lemma bus_print_sd: "print_status dev c r s = Some s' \<Longrightarrow> bus s [] [] s'"
  by (auto simp: print_status_def bind_eq_Some_conv bus_def dest!: bus_print)

lemma bus_wait_token:
  assumes "sd_wait_token dev s = Some s'"
  shows "\<exists>idle. bus s (replicate (length idle + 1) 0xff) (idle @ [SD_DATA_TOKEN]) s' \<and> SD_DATA_TOKEN \<notin> set idle"
  using assms
proof (induction rule: sd_wait_token.raw_induct [rotated 1, consumes 1])
  case (1 f dev s s')
  then obtain r s1 where d: "sd_dummy dev s = Some (r, s1)" and n: "if r \<noteq> SD_DATA_TOKEN then f dev s1 = Some s' else s' = s1"
    by (auto simp: bind_eq_Some_conv split: if_splits)
  show ?case
  proof (cases "r = SD_DATA_TOKEN")
    case True
    with n d show ?thesis by (intro exI [of _ "[]"]) (auto dest: bus_dummy)
  next
    case False
    with n 1(1) [of dev s1 s'] obtain idle where "bus s1 (replicate (length idle + 1) 0xff) (idle @ [SD_DATA_TOKEN]) s'" "SD_DATA_TOKEN \<notin> set idle" by auto
    with False bus_trans [OF bus_dummy [OF d]] show ?thesis by (intro exI [of _ "r # idle"]) fastforce
  qed
qed

text \<open>Every dialogue extends what was sent and received.\<close>

definition grows :: "'d io \<Rightarrow> 'd io \<Rightarrow> bool" where
  "grows s s' \<longleftrightarrow> (\<exists>sent got. bus s sent got s')"

lemma growsI: "bus s sent got s' \<Longrightarrow> grows s s'"
  by (auto simp: grows_def)

lemma grows_trans [trans]: "grows s t \<Longrightarrow> grows t u \<Longrightarrow> grows s u"
  by (auto simp: grows_def dest: bus_trans)

lemma grows_ops:
  "sd_dummy dev s = Some (r, s') \<Longrightarrow> grows s s'" "spi_send dev bs s = Some s' \<Longrightarrow> grows s s'"
  "sd_cmd dev cmd arg crc s = Some (r, s') \<Longrightarrow> grows s s'" "print_status dev c r s = Some s' \<Longrightarrow> grows s s'"
  "print_uart dev str s = Some s' \<Longrightarrow> grows s s'" "spi_init dev s = Some s' \<Longrightarrow> grows s s'"
  by (auto dest!: bus_dummy bus_send bus_cmd bus_print_sd bus_print bus_init intro: growsI)

lemma grows_cmd0: "sd_cmd0_loop dev n r s = Some (ok, s') \<Longrightarrow> grows s s'"
proof (induction n arbitrary: r s rule: less_induct)
  case (less n r s)
  show ?case
  proof (cases "r = 1")
    case True
    with less.prems show ?thesis by (subst (asm) sd_cmd0_loop.simps) (auto simp: bind_eq_Some_conv grows_ops)
  next
    case False
    with less.prems obtain r1 t r2 u where g: "grows s t" "grows t u"
      and u: "u = s' \<or> n - 1 \<noteq> 0 \<and> sd_cmd0_loop dev (n - 1) r1 u = Some (ok, s')"
      by (subst (asm) sd_cmd0_loop.simps) (auto simp: bind_eq_Some_conv split: if_splits dest!: grows_ops)
    from u less.IH [of "n - 1" r1 u] have "u = s' \<or> grows u s'" by auto
    with g show ?thesis by (blast intro: grows_trans)
  qed
qed

lemma grows_cmd8: "sd_cmd8 dev s = Some (ok, s') \<Longrightarrow> grows s s'"
  unfolding sd_cmd8_def by (clarsimp simp: bind_eq_Some_conv) (drule grows_ops | drule (1) grows_trans | assumption)+

lemma grows_cmd55: "sd_cmd55 dev s = Some (ok, s') \<Longrightarrow> grows s s'"
  unfolding sd_cmd55_def by (clarsimp simp: bind_eq_Some_conv) (drule grows_ops | drule (1) grows_trans | assumption)+

lemma grows_acmd41: "sd_acmd41 dev s = Some (ok, s') \<Longrightarrow> grows s s'"
proof -
  have "grows s (snd r)" if "sd_acmd41 dev s = Some r" for r
    using that
  proof (induction rule: sd_acmd41.raw_induct [rotated 1, consumes 1])
    case (1 f dev s r)
    then obtain q t1 r1 t2 t3 q' t4 where st: "sd_cmd55 dev s = Some (q, t1)" "sd_cmd dev 41 0x40000000 0x77 t1 = Some (r1, t2)"
      "print_status dev ''cmd41'' r1 t2 = Some t3" "sd_dummy dev t3 = Some (q', t4)"
      and r: "if r1 = 1 then f dev t4 = Some r else r = (r1 = 0, t4)"
      by (auto simp: bind_eq_Some_conv split: if_splits)
    note grows_cmd55 [OF st(1)] also note grows_ops(3) [OF st(2)] also note grows_ops(4) [OF st(3)] also note grows_ops(1) [OF st(4)]
    finally have "grows s t4" .
    with r 1(1) [of dev t4 r] show ?case by (auto split: if_splits intro: grows_trans)
  qed
  then show "sd_acmd41 dev s = Some (ok, s') \<Longrightarrow> grows s s'" by force
qed

lemma grows_init: "init_sd dev s = Some (rc, s') \<Longrightarrow> grows s s'"
  unfolding init_sd_def sd_cmd0_def
  by (auto simp: bind_eq_Some_conv split: if_splits simp del: spi_send.simps)
    (drule grows_ops grows_cmd0 grows_cmd8 grows_acmd41 | drule (1) grows_trans | assumption)+

lemma unat_diff_of_nat:
  fixes x :: ulong
  assumes "l < 2 ^ 64"
  shows "unat (x - of_nat l) = (if l \<le> unat x then unat x - l else 2 ^ 64 + unat x - l)"
proof -
  have "unat x < 2 ^ 64" using unat_less_width [of x] by simp
  moreover from assms have "unat (of_nat l :: ulong) = l" by (simp add: unat_of_nat take_bit_nat_eq_self)
  ultimately show ?thesis using assms by (auto simp: unat_sub_if_size word_size)
qed

lemma mem_store_append:
  assumes "length xs + length ys < 2 ^ 64"
  shows "mem_store (p + of_nat (length xs)) ys (mem_store p xs mem) = mem_store p (xs @ ys) mem"
proof
  fix a
  show "mem_store (p + of_nat (length xs)) ys (mem_store p xs mem) a = mem_store p (xs @ ys) mem a"
    using assms unat_diff_of_nat [of "length xs" "a - p"] by (auto simp: mem_store_def nth_append diff_diff_eq split: if_splits)
qed

lemma mem_store_at_nth: "i < length bs \<Longrightarrow> length bs \<le> 2 ^ 64 \<Longrightarrow> mem_store p bs mem (p + of_nat i) = bs ! i"
  by (simp add: mem_store_def unat_of_nat take_bit_nat_eq_self)

lemma crc_of_memory:
  assumes "length bs = n" "n \<le> 2 ^ 64"
  shows "fold (\<lambda>i crc. crc16 crc (mem_store p bs mem (p + of_nat i))) [0..<n] crc = crc_bytes crc bs"
proof -
  have "fold (\<lambda>i crc. crc16 crc (mem_store p bs mem (p + of_nat i))) [0..<n] crc = fold (\<lambda>i crc. crc16 crc (bs ! i)) [0..<n] crc"
    using assms by (intro fold_cong) (auto simp: mem_store_at_nth)
  also have "\<dots> = fold (\<lambda>b crc. crc16 crc b) (map ((!) bs) [0..<n]) crc" by (simp add: fold_map comp_def)
  also have "map ((!) bs) [0..<n] = bs" using assms map_nth [of bs] by simp
  finally show ?thesis by (simp add: crc_bytes_def)
qed

text \<open>The inner loop stores the bytes that came in, and its checksum is theirs.\<close>

lemma bus_block:
  assumes "sd_block dev n p crc mem s = Some (crc', p', mem', s')" and "n = 64 * Suc k" and "n \<le> 2 ^ 32"
  shows "\<exists>d. length d = n \<and> bus s (replicate n 0xff) d s' \<and> mem' = mem_store p d mem \<and> p' = p + of_nat n \<and> crc' = crc_bytes crc d"
  using assms
proof (induction k arbitrary: n p crc mem s)
  case (0 n p crc mem s)
  then obtain rc d where w: "spi_write_bytes dev (replicate 128 0xff) 64 s = Some ((rc, d), s')"
    and r: "mem' = mem_store p d mem" "p' = p + 64" "crc' = fold (\<lambda>i crc. crc16 crc (mem' (p + of_nat i))) [0..<64] crc"
    by (subst (asm) sd_block.simps) (auto simp: bind_eq_Some_conv Let_def)
  from bus_write_bytes [OF w] have "length d = 64" "bus s (replicate 64 0xff) d s'" by simp_all
  with r crc_of_memory [of d 64 p mem crc] "0.prems"(2) show ?case by auto
next
  case (Suc k n p crc mem s)
  let ?c = "\<lambda>d. crc_bytes crc d"
  from Suc.prems obtain rc d s1 where w: "spi_write_bytes dev (replicate 128 0xff) 64 s = Some ((rc, d), s1)"
    and r: "sd_block dev (n - 64) (p + 64) (fold (\<lambda>i crc. crc16 crc (mem_store p d mem (p + of_nat i))) [0..<64] crc) (mem_store p d mem) s1
      = Some (crc', p', mem', s')"
    by (subst (asm) sd_block.simps) (auto simp: bind_eq_Some_conv Let_def)
  from bus_write_bytes [OF w] have d: "length d = 64" "bus s (replicate 64 0xff) d s1" by simp_all
  have "n - 64 = 64 * Suc k" "n - 64 \<le> 2 ^ 32" using Suc.prems by simp_all
  from Suc.IH [OF r [unfolded crc_of_memory [OF d(1), simplified]] this] obtain e where
    e: "length e = n - 64" "bus s1 (replicate (n - 64) 0xff) e s'" "mem' = mem_store (p + 64) e (mem_store p d mem)"
      "p' = p + 64 + of_nat (n - 64)" "crc' = crc_bytes (crc_bytes crc d) e" by blast
  from Suc.prems have n: "n = 64 + (n - 64)" by simp
  have "bus s (replicate n 0xff) (d @ e) s'"
    using bus_trans [OF d(2) e(2)] by (subst n) (simp only: replicate_add)
  moreover have "mem' = mem_store p (d @ e) mem"
    using mem_store_append [of d e p mem] d(1) e(1,3) Suc.prems(3) by simp
  moreover have "p' = p + of_nat n" using e(4) n by (metis add.assoc of_nat_add of_nat_numeral)
  ultimately show ?case using d(1) e(1,5) n by (intro exI [of _ "d @ e"]) simp
qed

text \<open>
  The stream of a multiple block read: for every block idle bytes, the token, 512 bytes of data and the two bytes of the checksum.
  \<open>copied i rc bs\<close> says how a copy of \<open>i\<close> blocks ends when these are the blocks that came in: a block whose checksum
  does not match ends it with an error, else it ends with success after the last block. A copy of no block reads one.
\<close>

inductive block_stream :: "u8 list \<Rightarrow> (u8 list \<times> u16) list \<Rightarrow> bool" where
  stop: "block_stream [] []"
| block: "SD_DATA_TOKEN \<notin> set idle \<Longrightarrow> length d = 512 \<Longrightarrow> block_stream rx bs \<Longrightarrow>
    block_stream (idle @ [SD_DATA_TOKEN] @ d @ [hi, lo] @ rx) ((d, push_bit 8 (ucast hi) OR ucast lo) # bs)"

definition block_ok :: "u8 list \<times> u16 \<Rightarrow> bool" where
  "block_ok b \<longleftrightarrow> crc_bytes 0 (fst b) = snd b"

definition copied :: "nat \<Rightarrow> int \<Rightarrow> (u8 list \<times> u16) list \<Rightarrow> bool" where
  "copied i rc bs \<longleftrightarrow>
     bs \<noteq> [] \<and> length bs \<le> max 1 i \<and> (\<forall>b \<in> set (butlast bs). block_ok b) \<and>
     (if block_ok (last bs) then rc = 0 \<and> length bs = max 1 i else rc = SD_COPY_ERROR_CMD18_CRC)"

lemma block_stream_length: "block_stream rx bs \<Longrightarrow> length (concat (map fst bs)) = 512 * length bs"
  by (induction rule: block_stream.induct) simp_all

lemma copied_fits:
  assumes "copied i rc bs" "i \<le> 2 ^ 32" "block_stream rx bs" "length d = 512"
  shows "length d + length (concat (map fst bs)) < 2 ^ 64"
proof -
  from assms(1) have "length bs \<le> max 1 i" by (simp add: copied_def)
  with assms(2) have "length bs \<le> 2 ^ 32" by simp
  with assms(4) show ?thesis using block_stream_length [OF assms(3)] by simp
qed

lemma bus_copy_loop:
  assumes "sd_copy_loop dev i p mem s = Some (rc, mem', s')" and "i \<le> 2 ^ 32"
  shows "\<exists>n rx bs. bus s (replicate n 0xff) rx s' \<and> block_stream rx bs \<and> mem' = mem_store p (concat (map fst bs)) mem \<and> copied i rc bs"
  using assms
proof (induction i arbitrary: p mem s rule: less_induct)
  case (less i p mem s)
  from less.prems(1) obtain s1 crc q m1 s2 hi s3 lo s4 where
    w: "sd_wait_token dev s = Some s1" and b: "sd_block dev 512 p 0 mem s1 = Some (crc, q, m1, s2)"
    and h: "sd_dummy dev s2 = Some (hi, s3)" and l: "sd_dummy dev s3 = Some (lo, s4)"
    and r: "if crc \<noteq> push_bit 8 (ucast hi) OR ucast lo then (rc, mem', s') = (SD_COPY_ERROR_CMD18_CRC, m1, s4)
      else \<exists>s5. (if i mod 1000 = 0 then print_uart dev ''.'' s4 else Some s4) = Some s5 \<and>
        (if 1 < i then sd_copy_loop dev (i - 1) q m1 s5 = Some (rc, mem', s') else (rc, mem', s') = (0, m1, s5))"
    by (subst (asm) sd_copy_loop.simps) (auto simp: bind_eq_Some_conv Let_def split: if_splits)
  from bus_block [OF b, of 7] obtain d where d: "length d = 512" "bus s1 (replicate 512 0xff) d s2" "m1 = mem_store p d mem"
    "q = p + 512" "crc = crc_bytes 0 d" by auto
  from bus_wait_token [OF w] obtain idle where idle: "bus s (replicate (length idle + 1) 0xff) (idle @ [SD_DATA_TOKEN]) s1" "SD_DATA_TOKEN \<notin> set idle"
    by blast
  let ?b = "(d, push_bit 8 (ucast hi) OR ucast lo) :: u8 list \<times> u16"
  let ?rx = "idle @ [SD_DATA_TOKEN] @ d @ [hi, lo]"
  let ?n = "length idle + 515"
  have "bus s (replicate (length idle + 1) 0xff @ replicate 512 0xff @ [0xff] @ [0xff]) ?rx s4"
    using bus_trans [OF idle(1) bus_trans [OF d(2) bus_trans [OF bus_dummy [OF h] bus_dummy [OF l]]]] by simp
  moreover have "replicate (length idle + 1) 0xff @ replicate 512 0xff @ [0xff] @ [0xff] = replicate ?n (0xff :: u8)"
    by (rule replicate_eqI) auto
  ultimately have bus4: "bus s (replicate ?n 0xff) ?rx s4" by simp
  note stream = block_stream.block [OF idle(2) d(1), of _ _ hi lo]
  show ?case
  proof (cases "block_ok ?b \<and> 1 < i")
    case True
    with r d(5) obtain s5 where p5: "(if i mod 1000 = 0 then print_uart dev ''.'' s4 else Some s4) = Some s5"
      and rest: "sd_copy_loop dev (i - 1) q m1 s5 = Some (rc, mem', s')" by (auto simp: block_ok_def)
    have bus5: "bus s (replicate ?n 0xff) ?rx s5"
      using bus4 p5 by (auto split: if_splits dest: bus_print intro: bus_silent(2))
    have "i - 1 < i" "i - 1 \<le> 2 ^ 32" using True less.prems(2) by simp_all
    from less.IH [OF this(1) rest this(2)] obtain k rx bs where IH: "bus s5 (replicate k 0xff) rx s'" "block_stream rx bs"
      "mem' = mem_store q (concat (map fst bs)) m1" "copied (i - 1) rc bs" by blast
    have "i - 1 \<le> 2 ^ 32" using less.prems(2) by simp
    from mem_store_append [OF copied_fits [OF IH(4) this IH(2) d(1)], of p mem]
    have "mem' = mem_store p (concat (map fst (?b # bs))) mem" using IH(3) d(1,3,4) by simp
    moreover have "copied i rc (?b # bs)" using IH(4) True by (auto simp: copied_def)
    moreover have "bus s (replicate (?n + k) 0xff) (?rx @ rx) s'"
      using bus_trans [OF bus5 IH(1)] by (simp only: replicate_add)
    ultimately show ?thesis using stream [OF IH(2)] by (intro exI [of _ "?n + k"] exI [of _ "?rx @ rx"] exI [of _ "?b # bs"]) simp
  next
    case False
    with r d(5) have m: "mem' = m1" and c: "copied i rc [?b]" and "bus s (replicate ?n 0xff) ?rx s'"
      using bus4 by (auto simp: block_ok_def copied_def split: if_splits dest: bus_print intro: bus_silent(2))
    with stream [OF block_stream.stop] d(3) show ?thesis by (intro exI [of _ ?n] exI [of _ ?rx] exI [of _ "[?b]"]) simp
  qed
qed

lemma bus_copy:
  assumes "sd_copy dev dst src_lba sz mem s = Some (rc, mem', s')"
  shows "\<exists>sent got r rest. bus s ([0xff] @ sd_frame 18 src_lba @ sent) (got @ [r] @ rest) s' \<and>
    (if r \<noteq> 0 then rc = SD_COPY_ERROR_CMD18 \<and> mem' = mem
     else \<exists>rx stop bs. rest = rx @ stop \<and> block_stream rx bs \<and> mem' = mem_store dst (concat (map fst bs)) mem \<and> copied (unat sz) rc bs)"
proof -
  from assms obtain r s1 where c: "sd_cmd dev 18 src_lba (read_cmd_crc src_lba) s = Some (r, s1)"
    and x: "if r \<noteq> 0 then \<exists>s2. spi_send dev (replicate 8 0xff) s1 = Some s2 \<and> print_uart dev (''could not read SD block'' @ crlf) s2 = Some s' \<and>
        rc = SD_COPY_ERROR_CMD18 \<and> mem' = mem
      else \<exists>s2 s3 q q'. sd_copy_loop dev (unat sz) dst mem s1 = Some (rc, mem', s2) \<and> sd_cmd dev 12 0 0x01 s2 = Some (q, s3) \<and>
        sd_dummy dev s3 = Some (q', s')"
    by (auto simp: sd_copy_def bind_eq_Some_conv split: if_splits)
  from bus_cmd [OF c] obtain n got where
    g: "bus s ([0xff] @ sd_frame 18 src_lba @ [read_cmd_crc src_lba] @ replicate n 0xff) (got @ [r]) s1" by blast
  show ?thesis
  proof (cases "r = 0")
    case True
    with x obtain s2 s3 q q' where l: "sd_copy_loop dev (unat sz) dst mem s1 = Some (rc, mem', s2)"
      and st: "sd_cmd dev 12 0 0x01 s2 = Some (q, s3)" and du: "sd_dummy dev s3 = Some (q', s')" by auto
    have "unat sz \<le> 2 ^ 32" using unat_less_width [of sz] by simp
    from bus_copy_loop [OF l this] obtain k rx bs where b: "bus s1 (replicate k 0xff) rx s2" and
      rx: "block_stream rx bs" "mem' = mem_store dst (concat (map fst bs)) mem" "copied (unat sz) rc bs" by blast
    from bus_cmd [OF st] obtain snt g2 where "bus s2 snt (g2 @ [q]) s3" by blast
    from bus_trans [OF g bus_trans [OF b bus_trans [OF this bus_dummy [OF du]]]] True rx show ?thesis
      by (intro exI [of _ "[read_cmd_crc src_lba] @ replicate n 0xff @ replicate k 0xff @ snt @ [0xff]"]
          exI [of _ got] exI [of _ r] exI [of _ "rx @ g2 @ [q, q']"]) auto
  next
    case False
    with x obtain s2 where sd: "spi_send dev (replicate 8 0xff) s1 = Some s2"
      and pr: "print_uart dev (''could not read SD block'' @ crlf) s2 = Some s'" and rc: "rc = SD_COPY_ERROR_CMD18" "mem' = mem" by auto
    from bus_send [OF sd] obtain g2 where "bus s1 (replicate 8 0xff) g2 s2" by blast
    from bus_silent(2) [OF this bus_print(1) [OF pr]] have "bus s1 (replicate 8 0xff) g2 s'" .
    from bus_trans [OF g this] rc False show ?thesis
      by (intro exI [of _ "[read_cmd_crc src_lba] @ replicate n 0xff @ replicate 8 0xff"] exI [of _ got] exI [of _ r] exI [of _ g2]) auto
  qed
qed

text \<open>
  C13. What \<^verbatim>\<open>sd_copy\<close> does to memory is what the card sent: after the read command for the given block, a non-zero response leaves memory alone; else
  the blocks of the stream are stored one after the other from the destination, nothing else changes, success means that the
  requested number of blocks came in and all checksums match, and a block whose checksum does not match ends the copy with an error.
\<close>

theorem sd_copy_stores_stream:
  assumes "sd_copy dev dst src_lba sz mem s = Some (rc, mem', s')"
  shows "\<exists>sent got r rest. bus s ([0xff] @ sd_frame 18 src_lba @ sent) (got @ [r] @ rest) s' \<and>
    (if r \<noteq> 0 then rc = SD_COPY_ERROR_CMD18 \<and> mem' = mem
     else \<exists>rx stop bs. rest = rx @ stop \<and> block_stream rx bs \<and> mem' = mem_store dst (concat (map fst bs)) mem \<and> copied (unat sz) rc bs)"
  using assms by (rule bus_copy)

section \<open>A copy from the example card\<close>

lemma dummy_total: "core_idle s \<Longrightarrow> \<exists>s'. sd_dummy card_dev s = Some (card_next (c_of s), s') \<and> core_idle s' \<and> c_of s' = tl (c_of s)"
  unfolding sd_dummy_def by (rule txrx_total)

lemma send_total: "core_idle s \<Longrightarrow> \<exists>s'. spi_send card_dev bs s = Some s' \<and> core_idle s' \<and> c_of s' = drop (length bs) (c_of s)"
proof (induction bs arbitrary: s)
  case (Cons b bs)
  from txrx_total [OF Cons.prems, of b] obtain t where "spi_txrx card_dev b s = Some (card_next (c_of s), t)" "core_idle t" "c_of t = tl (c_of s)" by blast
  with Cons.IH [of t] show ?case by (auto simp: drop_Suc)
qed simp

lemma response_total:
  assumes "core_idle s" "c_of s = busy @ r # rest" "\<forall>b \<in> set busy. b AND 0x80 \<noteq> 0" "r AND 0x80 = 0" "length busy < n"
  shows "\<exists>s'. sd_response card_dev n s = Some (r, s') \<and> core_idle s' \<and> c_of s' = rest"
  using assms
proof (induction busy arbitrary: s n)
  case Nil
  with dummy_total [of s] show ?case by (subst sd_response.simps) auto
next
  case (Cons b busy)
  from dummy_total [OF Cons.prems(1)] Cons.prems(2) obtain t where d: "sd_dummy card_dev s = Some (b, t)" "core_idle t" "c_of t = busy @ r # rest" by auto
  have "length busy < n - 1" using Cons.prems(5) by simp
  with Cons.IH [OF d(2,3), of "n - 1"] Cons.prems obtain s' where "sd_response card_dev (n - 1) t = Some (r, s')" "core_idle s'" "c_of s' = rest" by auto
  with d Cons.prems show ?case by (subst sd_response.simps) auto
qed

text \<open>The card ignores the idle byte and the six bytes of a command, then may be busy, then responds.\<close>

lemma cmd_total:
  assumes "core_idle s" "c_of s = pre @ busy @ r # rest" "length pre = 7" "\<forall>b \<in> set busy. b AND 0x80 \<noteq> 0" "r AND 0x80 = 0" "length busy < 100"
  shows "\<exists>s'. sd_cmd card_dev cmd arg crc s = Some (r, s') \<and> core_idle s' \<and> c_of s' = rest"
proof -
  from dummy_total [OF assms(1)] obtain t where d: "sd_dummy card_dev s = Some (card_next (c_of s), t)" "core_idle t" "c_of t = drop 1 (c_of s)"
    by (auto simp: drop_Suc)
  from send_total [OF d(2), of "[0x40 OR cmd, ucast (drop_bit 24 arg), ucast (drop_bit 16 arg), ucast (drop_bit 8 arg), ucast arg, crc]"] obtain t1
    where f: "spi_send card_dev [0x40 OR cmd, ucast (drop_bit 24 arg), ucast (drop_bit 16 arg), ucast (drop_bit 8 arg), ucast arg, crc] t = Some t1"
      "core_idle t1" "c_of t1 = drop 7 (c_of s)" using d(3) by (auto simp: numeral_eq_Suc simp del: spi_send.simps)
  from response_total [OF f(2) _ assms(4,5,6)] f(3) assms(2,3) obtain s' where "sd_response card_dev 100 t1 = Some (r, s')" "core_idle s'" "c_of s' = rest"
    by auto
  with d(1) f(1) show ?thesis by (auto simp: sd_cmd_def simp del: spi_send.simps)
qed

lemma wait_token_total:
  "core_idle s \<Longrightarrow> c_of s = idle @ SD_DATA_TOKEN # rest \<Longrightarrow> SD_DATA_TOKEN \<notin> set idle \<Longrightarrow>
    \<exists>s'. sd_wait_token card_dev s = Some s' \<and> core_idle s' \<and> c_of s' = rest"
proof (induction idle arbitrary: s)
  case Nil
  with dummy_total [of s] show ?case by (subst sd_wait_token.simps) auto
next
  case (Cons b idle)
  from dummy_total [OF Cons.prems(1)] Cons.prems(2) obtain t where "sd_dummy card_dev s = Some (b, t)" "core_idle t" "c_of t = idle @ SD_DATA_TOKEN # rest" by auto
  with Cons.IH [of t] Cons.prems(3) show ?case by (subst sd_wait_token.simps) auto
qed

lemma block_total:
  assumes "core_idle s" "c_of s = d @ rest" "length d = 64 * Suc k" "length d \<le> 2 ^ 32"
  shows "\<exists>s'. sd_block card_dev (length d) p crc mem s = Some (crc_bytes crc d, p + of_nat (length d), mem_store p d mem, s') \<and> core_idle s' \<and> c_of s' = rest"
  using assms
proof (induction k arbitrary: d p crc mem s)
  case (0 d p crc mem s)
  then have d: "card_take 64 (c_of s) = d" using card_take_append [of d rest] by simp
  from write_bytes_total [OF 0(1), of 64 "replicate 128 0xff"] obtain t where
    "spi_write_bytes card_dev (replicate 128 0xff) 64 s = Some ((0, d), t)" "core_idle t" "c_of t = rest" using d 0 by auto
  with 0 crc_of_memory [of d 64 p mem crc] show ?case by (subst sd_block.simps) (auto simp: Let_def)
next
  case (Suc k d p crc mem s)
  define d1 d2 where "d1 = take 64 d" and "d2 = drop 64 d"
  have d: "d = d1 @ d2" "length d1 = 64" "length d2 = 64 * Suc k" "length d2 \<le> 2 ^ 32"
    using Suc.prems(2-4) by (simp_all add: d1_def d2_def)
  then have take: "card_take 64 (c_of s) = d1" using card_take_append [of d1 "d2 @ rest"] Suc.prems(2) by simp
  from write_bytes_total [OF Suc.prems(1), of 64 "replicate 128 0xff"] obtain t where
    w: "spi_write_bytes card_dev (replicate 128 0xff) 64 s = Some ((0, d1), t)" "core_idle t" "c_of t = d2 @ rest"
    using Suc.prems(2) d take by auto
  from Suc.IH [OF w(2,3) d(3,4), of "p + 64" "crc_bytes crc d1" "mem_store p d1 mem"] obtain s' where
    "sd_block card_dev (length d2) (p + 64) (crc_bytes crc d1) (mem_store p d1 mem) t =
       Some (crc_bytes crc d, p + of_nat (length d), mem_store p d mem, s')" "core_idle s'" "c_of s' = rest"
    using mem_store_append [of d1 d2 p mem] d by (auto simp: algebra_simps)
  moreover have "length d - 64 = length d2" "64 < length d" using d by simp_all
  ultimately show ?case using w(1) crc_of_memory [OF d(2), of p mem crc] by (subst sd_block.simps) (auto simp: Let_def)
qed

lemma copy_loop_total:
  assumes "block_stream rx bs" and "core_idle s" "c_of s = rx @ rest" "copied i rc bs" "i \<le> 2 ^ 32"
  shows "\<exists>s'. sd_copy_loop card_dev i p mem s = Some (rc, mem_store p (concat (map fst bs)) mem, s') \<and> core_idle s' \<and> c_of s' = rest"
  using assms
proof (induction arbitrary: i p mem s rule: block_stream.induct)
  case stop
  then show ?case by (simp add: copied_def)
next
  case (block idle d rx bs hi lo)
  let ?c = "push_bit 8 (ucast hi) OR ucast lo :: u16"
  from wait_token_total [OF block.prems(1) _ block.hyps(1), of "d @ [hi, lo] @ rx @ rest"] block.prems(2) obtain s1 where
    s1: "sd_wait_token card_dev s = Some s1" "core_idle s1" "c_of s1 = d @ [hi, lo] @ rx @ rest" by auto
  from block_total [OF s1(2,3), of 7 p 0 mem] block.hyps(2) obtain s2 where
    s2: "sd_block card_dev 512 p 0 mem s1 = Some (crc_bytes 0 d, p + 512, mem_store p d mem, s2)" "core_idle s2" "c_of s2 = hi # lo # rx @ rest" by auto
  from dummy_total [OF s2(2)] s2(3) obtain s3 where s3: "sd_dummy card_dev s2 = Some (hi, s3)" "core_idle s3" "c_of s3 = lo # rx @ rest" by auto
  from dummy_total [OF s3(2)] s3(3) obtain s4 where s4: "sd_dummy card_dev s3 = Some (lo, s4)" "core_idle s4" "c_of s4 = rx @ rest" by auto
  obtain s5 where s5: "(if i mod 1000 = 0 then print_uart card_dev ''.'' s4 else Some s4) = Some s5" "core_idle s5" "c_of s5 = rx @ rest"
    using print_uart_total [of "''.''" s4] s4 by (cases "i mod 1000 = 0") (auto simp: core_idle_def)
  note run = s1(1) s2(1) s3(1) s4(1) s5(1)
  show ?case
  proof (cases "crc_bytes 0 d = ?c \<and> bs \<noteq> []")
    case True
    then obtain b bs' where "bs = b # bs'" by (cases bs) auto
    with block.prems(3) True have i: "1 < i" "copied (i - 1) rc bs" by (auto simp: copied_def block_ok_def max_def split: if_splits)
    have i': "i - 1 \<le> 2 ^ 32" using block.prems(4) by simp
    from block.IH [OF s5(2,3) i(2) i', of "p + 512" "mem_store p d mem"] obtain s' where
      "sd_copy_loop card_dev (i - 1) (p + 512) (mem_store p d mem) s5 = Some (rc, mem_store (p + 512) (concat (map fst bs)) (mem_store p d mem), s')"
      "core_idle s'" "c_of s' = rest" by blast
    then show ?thesis using run True i(1) mem_store_append [OF copied_fits [OF i(2) i' block.hyps(3,2)], of p mem] block.hyps(2)
      by (subst sd_copy_loop.simps) auto
  next
    case False
    with block.prems(3) have rc: "bs = []" "if crc_bytes 0 d = ?c then rc = 0 \<and> i \<le> 1 else rc = SD_COPY_ERROR_CMD18_CRC"
      by (auto simp: copied_def block_ok_def max_def split: if_splits)
    with block.hyps(3) have "rx = []" by (auto elim: block_stream.cases)
    with rc run s4 s5 show ?thesis by (subst sd_copy_loop.simps) (auto simp: Let_def)
  qed
qed

lemma copy_total:
  assumes "core_idle s" "c_of s = pre @ busy @ 0 # rx @ pre2 @ busy2 @ r # rest" "length pre = 7" "length pre2 = 7"
    and "\<forall>b \<in> set (busy @ busy2). b AND 0x80 \<noteq> 0" "r AND 0x80 = 0" "length busy < 100" "length busy2 < 100"
    and "block_stream rx bs" "copied (unat sz) rc bs"
  shows "\<exists>s'. sd_copy card_dev dst src_lba sz mem s = Some (rc, mem_store dst (concat (map fst bs)) mem, s') \<and> core_idle s' \<and> c_of s' = tl rest"
proof -
  from cmd_total [OF assms(1,2,3), of 18 src_lba "read_cmd_crc src_lba"] assms(5,7) obtain s1 where
    c: "sd_cmd card_dev 18 src_lba (read_cmd_crc src_lba) s = Some (0, s1)" "core_idle s1" "c_of s1 = rx @ pre2 @ busy2 @ r # rest" by auto
  have "unat sz \<le> 2 ^ 32" using unat_less_width [of sz] by simp
  from copy_loop_total [OF assms(9) c(2,3) assms(10) this] obtain s2 where
    l: "sd_copy_loop card_dev (unat sz) dst mem s1 = Some (rc, mem_store dst (concat (map fst bs)) mem, s2)" "core_idle s2" "c_of s2 = pre2 @ busy2 @ r # rest" by blast
  from cmd_total [OF l(2,3) assms(4), of 12 0 1] assms(5,6,8) obtain s3 where s3: "sd_cmd card_dev 12 0 1 s2 = Some (r, s3)" "core_idle s3" "c_of s3 = rest" by auto
  from dummy_total [OF s3(2)] obtain s4 where "sd_dummy card_dev s3 = Some (card_next rest, s4)" "core_idle s4" "c_of s4 = tl rest" using s3(3) by auto
  with c(1) l(1) s3(1) show ?thesis by (auto simp: sd_copy_def)
qed

text \<open>A card with one block of zeros.\<close>

definition zero_card :: "card io" where
  "zero_card = \<lparr>io_st = \<lparr>card_ctl = 0x06, card_sel = 0xffffffff, card_fifo = [], card_script =
     replicate 7 0xff @ [] @ 0 # (([0xff] @ [0xfe] @ replicate 512 0 @ [0, 0] @ []) @ replicate 7 0xff @ [] @ 0 # [])\<rparr>, io_trace = []\<rparr>"

lemma crc_zeros: "crc_bytes 0 (replicate n 0) = 0"
  by (induction n) (simp_all add: crc16_def)

lemma zero_stream:
  "block_stream ([0xff] @ [0xfe] @ replicate 512 0 @ [0, 0] @ []) [(replicate 512 0, push_bit 8 (ucast (0 :: u8)) OR ucast (0 :: u8))]"
  by (intro block_stream.intros) auto

lemma zero_copied: "copied (unat (1 :: u32)) 0 [(replicate 512 0, push_bit 8 (ucast (0 :: u8)) OR ucast (0 :: u8))]"
  by (simp add: copied_def block_ok_def crc_zeros)

lemma zero_card_state:
  "core_idle zero_card"
  "card_script (io_st zero_card) = replicate 7 0xff @ [] @ 0 # (([0xff] @ [0xfe] @ replicate 512 0 @ [0, 0] @ []) @ replicate 7 0xff @ [] @ 0 # [])"
  by (simp_all only: zero_card_def io.simps card.simps core_idle_def simp_thms)

text \<open>This card as evidence that the account of a copy from the trace is not empty.\<close>

theorem sd_copy_stores_stream_witness:
  "\<exists>rc mem' s' sent got r rest. sd_copy card_dev 0x80000000 2048 1 (\<lambda>_. 7) zero_card = Some (rc, mem', s') \<and>
     bus zero_card ([0xff] @ sd_frame 18 2048 @ sent) (got @ [r] @ rest) s'"
proof -
  obtain s' where c: "sd_copy card_dev 0x80000000 2048 1 (\<lambda>_. 7) zero_card = Some (0, mem_store 0x80000000 (replicate 512 0) (\<lambda>_. 7), s')"
    using copy_total [OF zero_card_state _ _ _ _ _ _ zero_stream zero_copied, of "0x80000000" 2048 "\<lambda>_. 7"] by auto
  from sd_copy_stores_stream [OF c] c show ?thesis by blast
qed

end
