(* ===== verification/Bootrom_Gpt.thy ===== *)
theory Bootrom_Gpt
  imports Bootrom_Sd
begin

text \<open>
  Loading of the next stage (\<^verbatim>\<open>bootrom/src/gpt.c\<close>, \<^verbatim>\<open>gpt.h\<close> and \<^verbatim>\<open>main.c\<close>): the partition table header in block 1, the first block of partition entries, and
  the copy of the first partition to the given address. \<open>lba1_buf\<close> and \<open>lba2_buf\<close> are the addresses of the two local buffers on the stack. The structures
  are read from memory at the offsets of their fields, little endian.
\<close>

section \<open>Structures in memory\<close>

definition load_le :: "nat \<Rightarrow> ulong \<Rightarrow> mem \<Rightarrow> ulong" where
  "load_le n a mem = (\<Sum>i < n. push_bit (8 * i) (ucast (mem (a + of_nat i))))"

definition load64 :: "ulong \<Rightarrow> mem \<Rightarrow> ulong" where
  "load64 a mem = load_le 8 a mem"

definition load32 :: "ulong \<Rightarrow> mem \<Rightarrow> u32" where
  "load32 a mem = ucast (load_le 4 a mem)"

text \<open>\<^verbatim>\<open>gpt_pth_t\<close>, the fields that the code reads.\<close>

record gpt_pth =
  signature :: ulong
  revision :: u32
  header_size :: u32
  crc_header :: u32
  reserved :: u32
  current_lba :: ulong
  backup_lba :: ulong
  partition_entries_lba :: ulong
  nr_partition_entries :: u32
  size_partition_entry :: u32

definition read_gpt_pth :: "ulong \<Rightarrow> mem \<Rightarrow> gpt_pth" where
  "read_gpt_pth a mem =
     \<lparr>signature = load64 a mem, revision = load32 (a + 8) mem, header_size = load32 (a + 12) mem, crc_header = load32 (a + 16) mem,
      reserved = load32 (a + 20) mem, current_lba = load64 (a + 24) mem, backup_lba = load64 (a + 32) mem,
      partition_entries_lba = load64 (a + 72) mem, nr_partition_entries = load32 (a + 80) mem,
      size_partition_entry = load32 (a + 84) mem\<rparr>"

record partition_entries =
  partition_type_guid :: "u8 list"
  partition_guid :: "u8 list"
  first_lba :: ulong
  last_lba :: ulong
  attributes :: ulong
  part_name :: "u8 list"

definition load_bytes_at :: "nat \<Rightarrow> ulong \<Rightarrow> mem \<Rightarrow> u8 list" where
  "load_bytes_at n a mem = map (\<lambda>j. mem (a + of_nat j)) [0..<n]"

definition read_partition_entries :: "ulong \<Rightarrow> mem \<Rightarrow> partition_entries" where
  "read_partition_entries a mem =
     \<lparr>partition_type_guid = load_bytes_at 16 a mem, partition_guid = load_bytes_at 16 (a + 16) mem, first_lba = load64 (a + 32) mem,
      last_lba = load64 (a + 40) mem, attributes = load64 (a + 48) mem, part_name = load_bytes_at 72 (a + 56) mem\<rparr>"

section \<open>Operations\<close>

fun print_uart_bytes :: "'d io_dev \<Rightarrow> u8 list \<Rightarrow> 'd io \<Rightarrow> 'd io option" where
  "print_uart_bytes dev [] s = Some s"
| "print_uart_bytes dev (b # bs) s = do { s \<leftarrow> print_uart_byte dev b s; print_uart_bytes dev bs s }"

definition print_header :: "'d io_dev \<Rightarrow> gpt_pth \<Rightarrow> 'd io \<Rightarrow> 'd io option" where
  "print_header dev lba1 s =
     do { s \<leftarrow> print_uart dev ''gpt partition table header:'' s;
          s \<leftarrow> print_uart dev (crlf @ tab @ ''signature:'' @ tab) s;
          s \<leftarrow> print_uart_addr dev (signature lba1) s;
          s \<leftarrow> print_uart dev (crlf @ tab @ ''revision:'' @ tab) s;
          s \<leftarrow> print_uart_int dev (revision lba1) s;
          s \<leftarrow> print_uart dev (crlf @ tab @ ''size:'' @ tab @ tab) s;
          s \<leftarrow> print_uart_int dev (header_size lba1) s;
          s \<leftarrow> print_uart dev (crlf @ tab @ ''crc_header:'' @ tab) s;
          s \<leftarrow> print_uart_int dev (crc_header lba1) s;
          s \<leftarrow> print_uart dev (crlf @ tab @ ''reserved:'' @ tab) s;
          s \<leftarrow> print_uart_int dev (reserved lba1) s;
          s \<leftarrow> print_uart dev (crlf @ tab @ ''current lba:'' @ tab) s;
          s \<leftarrow> print_uart_addr dev (current_lba lba1) s;
          s \<leftarrow> print_uart dev (crlf @ tab @ ''backup lda:'' @ tab) s;
          s \<leftarrow> print_uart_addr dev (backup_lba lba1) s;
          s \<leftarrow> print_uart dev (crlf @ tab @ ''partition entries lba:   '' @ tab) s;
          s \<leftarrow> print_uart_addr dev (partition_entries_lba lba1) s;
          s \<leftarrow> print_uart dev (crlf @ tab @ ''number partition entries:'' @ tab) s;
          s \<leftarrow> print_uart_int dev (nr_partition_entries lba1) s;
          s \<leftarrow> print_uart dev (crlf @ tab @ ''size partition entries:  '' @ tab) s;
          s \<leftarrow> print_uart_int dev (size_partition_entry lba1) s;
          print_uart dev crlf s }"

definition print_entry :: "'d io_dev \<Rightarrow> nat \<Rightarrow> partition_entries \<Rightarrow> 'd io \<Rightarrow> 'd io option" where
  "print_entry dev i part_entry s =
     do { s \<leftarrow> print_uart dev ''gpt partition entry '' s;
          s \<leftarrow> print_uart_byte dev (of_nat i) s;
          s \<leftarrow> print_uart dev (crlf @ tab @ ''partition type guid:'' @ tab) s;
          s \<leftarrow> print_uart_bytes dev (partition_type_guid part_entry) s;
          s \<leftarrow> print_uart dev (crlf @ tab @ ''partition guid:     '' @ tab) s;
          s \<leftarrow> print_uart_bytes dev (partition_guid part_entry) s;
          s \<leftarrow> print_uart dev (crlf @ tab @ ''first lba:'' @ tab) s;
          s \<leftarrow> print_uart_addr dev (first_lba part_entry) s;
          s \<leftarrow> print_uart dev (crlf @ tab @ ''last lba:'' @ tab) s;
          s \<leftarrow> print_uart_addr dev (last_lba part_entry) s;
          s \<leftarrow> print_uart dev (crlf @ tab @ ''attributes:'' @ tab) s;
          s \<leftarrow> print_uart_addr dev (attributes part_entry) s;
          s \<leftarrow> print_uart dev (crlf @ tab @ ''name:'' @ tab) s;
          s \<leftarrow> print_uart_bytes dev (part_name part_entry) s;
          print_uart dev crlf s }"

fun print_entries :: "'d io_dev \<Rightarrow> nat list \<Rightarrow> ulong \<Rightarrow> mem \<Rightarrow> 'd io \<Rightarrow> 'd io option" where
  "print_entries dev [] lba2_buf mem s = Some s"
| "print_entries dev (i # is) lba2_buf mem s =
     do { s \<leftarrow> print_entry dev i (read_partition_entries (lba2_buf + of_nat (i * 128)) mem) s;
          print_entries dev is lba2_buf mem s }"

text \<open>The report of a failed copy; \<^verbatim>\<open>print_uart_addr(res)\<close> sign extends the result.\<close>

definition print_failed :: "'d io_dev \<Rightarrow> int \<Rightarrow> 'd io \<Rightarrow> 'd io option" where
  "print_failed dev res s =
     do { s \<leftarrow> print_uart dev (''SD card failed!'' @ crlf) s;
          s \<leftarrow> print_uart dev ''sd copy return value: '' s;
          s \<leftarrow> print_uart_addr dev (word_of_int res) s;
          print_uart dev crlf s }"

text \<open>The arguments of \<^verbatim>\<open>sd_copy\<close> are converted to 32 bits. The parameter \<^verbatim>\<open>size\<close> is not used.\<close>

definition gpt_find_boot_partition ::
  "'d io_dev \<Rightarrow> ulong \<Rightarrow> ulong \<Rightarrow> ulong \<Rightarrow> u32 \<Rightarrow> mem \<Rightarrow> 'd io \<Rightarrow> (int \<times> mem \<times> 'd io) option" where
  "gpt_find_boot_partition dev lba1_buf lba2_buf dest sz mem s =
     do { (ret, s) \<leftarrow> init_sd dev s;
          if ret \<noteq> 0
          then do { s \<leftarrow> print_uart dev (''could not initialize sd... exiting'' @ crlf) s; Some (- 1, mem, s) }
          else do {
            s \<leftarrow> print_uart dev (''sd initialized!'' @ crlf) s;
            (res, mem, s) \<leftarrow> sd_copy dev lba1_buf 1 1 mem s;
            if res \<noteq> 0 then do { s \<leftarrow> print_failed dev res s; Some (- 2, mem, s) }
            else do {
              let lba1 = read_gpt_pth lba1_buf mem;
              s \<leftarrow> print_header dev lba1 s;
              (res, mem, s) \<leftarrow> sd_copy dev lba2_buf (ucast (partition_entries_lba lba1)) 1 mem s;
              if res \<noteq> 0 then do { s \<leftarrow> print_failed dev res s; Some (- 2, mem, s) }
              else do {
                s \<leftarrow> print_entries dev [0, 1, 2, 3] lba2_buf mem s;
                let boot = read_partition_entries lba2_buf mem;
                s \<leftarrow> print_uart dev ''copying boot image '' s;
                (res, mem, s) \<leftarrow> sd_copy dev dest (ucast (first_lba boot)) (ucast (last_lba boot - first_lba boot + 1)) mem s;
                if res \<noteq> 0 then do { s \<leftarrow> print_failed dev res s; Some (- 2, mem, s) }
                else do { s \<leftarrow> print_uart dev ('' done!'' @ crlf) s; Some (0, mem, s) } } } } }"

text \<open>\<^verbatim>\<open>main\<close> ignores the result; the start-up code then jumps to the address.\<close>

definition bootrom_main :: "'d io_dev \<Rightarrow> ulong \<Rightarrow> ulong \<Rightarrow> mem \<Rightarrow> 'd io \<Rightarrow> (int \<times> mem \<times> 'd io) option" where
  "bootrom_main dev lba1_buf lba2_buf mem s =
     do { s \<leftarrow> print_uart dev (''Hello World!'' @ crlf) (init_uart dev 50000000 115200 s);
          (res, mem, s) \<leftarrow> gpt_find_boot_partition dev lba1_buf lba2_buf 0x80000000 (2 * 16384) mem s;
          Some (0, mem, s) }"

section \<open>What is loaded\<close>

text \<open>Prints leave the bus alone, and every step extends what was sent.\<close>

lemma bus_print_uart_bytes: "print_uart_bytes dev bs s = Some s' \<Longrightarrow> bus s [] [] s'"
proof (induction bs arbitrary: s)
  case (Cons b bs)
  then obtain t where "print_uart_byte dev b s = Some t" "print_uart_bytes dev bs t = Some s'" by (auto simp: bind_eq_Some_conv)
  with Cons.IH show ?case by (blast dest: bus_print bus_silent)
qed simp

lemma bus_print_header: "print_header dev h s = Some s' \<Longrightarrow> bus s [] [] s'"
  unfolding print_header_def bind_eq_Some_conv by (elim exE conjE) (drule bus_print | (drule (1) bus_silent(1)) | assumption)+


lemma bus_print_entry: "print_entry dev i e s = Some s' \<Longrightarrow> bus s [] [] s'"
  unfolding print_entry_def bind_eq_Some_conv
  by (elim exE conjE) (drule bus_print bus_print_uart_bytes | (drule (1) bus_silent(1)) | assumption)+

lemma bus_print_failed: "print_failed dev res s = Some s' \<Longrightarrow> bus s [] [] s'"
  unfolding print_failed_def bind_eq_Some_conv
  by (elim exE conjE) (drule bus_print | (drule (1) bus_silent(1)) | assumption)+

lemma bus_print_entries: "print_entries dev is a mem s = Some s' \<Longrightarrow> bus s [] [] s'"
proof (induction "is" arbitrary: s)
  case (Cons i js)
  then obtain t where "print_entry dev i (read_partition_entries (a + of_nat (i * 128)) mem) s = Some t" "print_entries dev js a mem t = Some s'"
    by (auto simp: bind_eq_Some_conv)
  with Cons.IH show ?case by (blast dest: bus_print_entry bus_silent)
qed simp

text \<open>
  The bytes that came in during a copy that succeeds: after the response zero to the command, a stream of the given number of blocks. A block is the 512 bytes
  after a data token, with the checksum received in the two bytes after them, which it matches.
\<close>

definition good_blocks :: "nat \<Rightarrow> u8 list \<Rightarrow> (u8 list \<times> u16) list \<Rightarrow> bool" where
  "good_blocks n got bs \<longleftrightarrow> (\<exists>pre rx stop. got = pre @ [0] @ rx @ stop \<and> block_stream rx bs) \<and> length bs = n \<and> (\<forall>b \<in> set bs. block_ok b)"

definition blocks_bytes :: "(u8 list \<times> u16) list \<Rightarrow> u8 list" where
  "blocks_bytes bs = concat (map fst bs)"

lemma copied_good: "copied n 0 bs \<Longrightarrow> block_stream rx bs \<Longrightarrow> good_blocks (max 1 n) (pre @ [0] @ rx @ stop) bs"
proof -
  assume c: "copied n 0 bs" and st: "block_stream rx bs"
  then have "bs = butlast bs @ [last bs]" by (simp add: copied_def)
  then have "set bs = insert (last bs) (set (butlast bs))" by (metis Un_commute Un_insert_right list.simps(15) set_append set_empty2 sup_bot.right_neutral)
  with c have "length bs = max 1 n" "\<forall>b \<in> set bs. block_ok b" by (auto simp: copied_def split: if_splits)
  with st show ?thesis unfolding good_blocks_def by blast
qed

lemma copy_ok:
  assumes "sd_copy dev dst lba sz mem s = Some (0, mem', s')"
  shows "\<exists>sent got bs. bus s ([0xff] @ sd_frame 18 lba @ sent) got s' \<and> good_blocks (max 1 (unat sz)) got bs \<and> mem' = mem_store dst (blocks_bytes bs) mem"
proof -
  from bus_copy [OF assms] obtain sent got r rest where b: "bus s ([0xff] @ sd_frame 18 lba @ sent) (got @ [r] @ rest) s'"
    and r: "if r \<noteq> 0 then (0 :: int) = SD_COPY_ERROR_CMD18 \<and> mem' = mem
     else \<exists>rx stop bs. rest = rx @ stop \<and> block_stream rx bs \<and> mem' = mem_store dst (concat (map fst bs)) mem \<and> copied (unat sz) 0 bs" by blast
  from r obtain rx stop bs where x: "r = 0" "rest = rx @ stop" "block_stream rx bs" "mem' = mem_store dst (blocks_bytes bs) mem" "copied (unat sz) 0 bs"
    by (auto simp: blocks_bytes_def split: if_splits)
  with b copied_good [OF x(5,3), of got stop] show ?thesis by blast
qed

lemma gpt_run:
  assumes "gpt_find_boot_partition dev lba1_buf lba2_buf dest sz mem s = Some (0, mem', s')"
  shows "\<exists>t0 t1 m1 t2 t3 m2 t4 t5 t6 t7 str1 str2 str3. init_sd dev s = Some (0, t0) \<and> print_uart dev str1 t0 = Some t1 \<and>
      sd_copy dev lba1_buf 1 1 mem t1 = Some (0, m1, t2) \<and> print_header dev (read_gpt_pth lba1_buf m1) t2 = Some t3 \<and>
      sd_copy dev lba2_buf (ucast (partition_entries_lba (read_gpt_pth lba1_buf m1))) 1 m1 t3 = Some (0, m2, t4) \<and>
      print_entries dev [0, 1, 2, 3] lba2_buf m2 t4 = Some t5 \<and> print_uart dev str2 t5 = Some t6 \<and>
      sd_copy dev dest (ucast (first_lba (read_partition_entries lba2_buf m2)))
        (ucast (last_lba (read_partition_entries lba2_buf m2) - first_lba (read_partition_entries lba2_buf m2) + 1)) m2 t6 = Some (0, mem', t7) \<and>
      print_uart dev str3 t7 = Some s'"
  using assms unfolding gpt_find_boot_partition_def
  by (auto simp: bind_eq_Some_conv Let_def split: if_splits simp del: print_entries.simps) blast

lemma gpt_loads:
  assumes "gpt_find_boot_partition dev lba1_buf lba2_buf dest sz mem s = Some (0, mem', s')"
  shows "\<exists>hdr tbl img m1 m2 pth boot sent0 sent1 sent2 sent3 got0 got1 got2 got3.
       good_blocks 1 got1 hdr \<and> good_blocks 1 got2 tbl \<and> good_blocks (max 1 (unat (ucast (last_lba boot - first_lba boot + 1) :: u32))) got3 img \<and>
       m1 = mem_store lba1_buf (blocks_bytes hdr) mem \<and> pth = read_gpt_pth lba1_buf m1 \<and>
       m2 = mem_store lba2_buf (blocks_bytes tbl) m1 \<and> boot = read_partition_entries lba2_buf m2 \<and>
       mem' = mem_store dest (blocks_bytes img) m2 \<and>
       bus s (sent0 @ [0xff] @ sd_frame 18 1 @ sent1 @ [0xff] @ sd_frame 18 (ucast (partition_entries_lba pth)) @ sent2 @
         [0xff] @ sd_frame 18 (ucast (first_lba boot)) @ sent3) (got0 @ got1 @ got2 @ got3) s'"
proof -
  from gpt_run [OF assms] obtain t0 t1 m1 t2 t3 m2 t4 t5 t6 t7 str1 str2 str3 where
    i: "init_sd dev s = Some (0, t0)" "print_uart dev str1 t0 = Some t1"
    and c1: "sd_copy dev lba1_buf 1 1 mem t1 = Some (0, m1, t2)" and p1: "print_header dev (read_gpt_pth lba1_buf m1) t2 = Some t3"
    and c2: "sd_copy dev lba2_buf (ucast (partition_entries_lba (read_gpt_pth lba1_buf m1))) 1 m1 t3 = Some (0, m2, t4)"
    and p2: "print_entries dev [0, 1, 2, 3] lba2_buf m2 t4 = Some t5" "print_uart dev str2 t5 = Some t6"
    and c3: "sd_copy dev dest (ucast (first_lba (read_partition_entries lba2_buf m2)))
        (ucast (last_lba (read_partition_entries lba2_buf m2) - first_lba (read_partition_entries lba2_buf m2) + 1)) m2 t6 = Some (0, mem', t7)"
    and p3: "print_uart dev str3 t7 = Some s'" by (elim exE conjE) (rule that)
  from grows_init [OF i(1)] obtain sent0 g0 where b0: "bus s sent0 g0 t1"
    using bus_silent(2) [OF _ bus_print(1) [OF i(2)]] unfolding grows_def by blast
  from copy_ok [OF c1] obtain sent1 g1 hdr where b1: "bus t1 ([0xff] @ sd_frame 18 1 @ sent1) g1 t2" and h: "good_blocks 1 g1 hdr" "m1 = mem_store lba1_buf (blocks_bytes hdr) mem"
    by auto
  from copy_ok [OF c2] obtain sent2 g2 tbl where b2: "bus t3 ([0xff] @ sd_frame 18 (ucast (partition_entries_lba (read_gpt_pth lba1_buf m1))) @ sent2) g2 t4"
    and t: "good_blocks 1 g2 tbl" "m2 = mem_store lba2_buf (blocks_bytes tbl) m1" by auto
  from copy_ok [OF c3] obtain sent3 g3 img where b3: "bus t6 ([0xff] @ sd_frame 18 (ucast (first_lba (read_partition_entries lba2_buf m2))) @ sent3) g3 t7"
    and g: "good_blocks (max 1 (unat (ucast (last_lba (read_partition_entries lba2_buf m2) - first_lba (read_partition_entries lba2_buf m2) + 1) :: u32))) g3 img"
      "mem' = mem_store dest (blocks_bytes img) m2" by blast
  note b1' = bus_silent(2) [OF b1 bus_print_header [OF p1]]
  note b2' = bus_silent(2) [OF bus_silent(2) [OF b2 bus_print_entries [OF p2(1)]] bus_print(1) [OF p2(2)]]
  note b3' = bus_silent(2) [OF b3 bus_print(1) [OF p3]]
  note b = bus_trans [OF b0 bus_trans [OF b1' bus_trans [OF b2' b3']], unfolded append_assoc]
  show ?thesis
    by (intro exI conjI, rule h(1), rule t(1), rule g(1), rule h(2), rule refl, rule t(2), rule refl, rule g(2), rule b)
qed

text \<open>
  C12. What the boot ROM has done when it reports success: it has read block 1, then the block where that header places the partition entries, then from
  the first block of the first entry as many blocks as the entry spans (counted in 32 bits, and at least one). Memory has changed only by the three
  copies, and what they stored are the data bytes of the blocks in what came in from the card during each of them, every block with
  the checksum that followed it.
\<close>

theorem gpt_boot_loads_partition:
  assumes "gpt_find_boot_partition dev lba1_buf lba2_buf dest sz mem s = Some (rc, mem', s')"
  shows "rc \<in> {0, - 1, - 2} \<and>
    (rc = 0 \<longrightarrow> (\<exists>hdr tbl img m1 m2 pth boot sent0 sent1 sent2 sent3 got0 got1 got2 got3.
       good_blocks 1 got1 hdr \<and> good_blocks 1 got2 tbl \<and> good_blocks (max 1 (unat (ucast (last_lba boot - first_lba boot + 1) :: u32))) got3 img \<and>
       m1 = mem_store lba1_buf (blocks_bytes hdr) mem \<and> pth = read_gpt_pth lba1_buf m1 \<and>
       m2 = mem_store lba2_buf (blocks_bytes tbl) m1 \<and> boot = read_partition_entries lba2_buf m2 \<and>
       mem' = mem_store dest (blocks_bytes img) m2 \<and>
       bus s (sent0 @ [0xff] @ sd_frame 18 1 @ sent1 @ [0xff] @ sd_frame 18 (ucast (partition_entries_lba pth)) @ sent2 @
         [0xff] @ sd_frame 18 (ucast (first_lba boot)) @ sent3) (got0 @ got1 @ got2 @ got3) s'))"
proof (intro conjI impI)
  show "rc \<in> {0, - 1, - 2}"
    using assms by (auto simp: gpt_find_boot_partition_def bind_eq_Some_conv Let_def split: if_splits)
qed (rule gpt_loads, use assms in simp)

section \<open>A card that boots\<close>

text \<open>
  What a card answers: to a command after the idle byte and the six bytes of the frame, to the start-up sequence, and to a copy of blocks.
\<close>

definition cmd_answer :: "u8 \<Rightarrow> u8 list" where
  "cmd_answer r = replicate 7 0xff @ [r]"

definition init_answers :: "u8 list" where
  "init_answers = replicate 10 0xff @ cmd_answer 1 @ [0xff] @ cmd_answer 1 @ [0, 0, 1, 0xaa, 0xff, 0xff] @
     cmd_answer 1 @ [0xff] @ cmd_answer 0 @ [0xff]"

definition copy_answers :: "u8 list \<Rightarrow> u8 list" where
  "copy_answers rx = cmd_answer 0 @ rx @ cmd_answer 0 @ [0xff]"

lemma answer_total:
  assumes "core_idle s" "c_of s = cmd_answer r @ rest" "r AND 0x80 = 0"
  shows "\<exists>s'. sd_cmd card_dev cmd arg crc s = Some (r, s') \<and> core_idle s' \<and> c_of s' = rest"
  using cmd_total [OF assms(1), of "replicate 7 0xff" "[]" r rest cmd arg crc] assms(2,3) by (simp add: cmd_answer_def)

text \<open>Prints always return and do not disturb the core.\<close>

definition quiet :: "(card io \<Rightarrow> card io option) \<Rightarrow> bool" where
  "quiet f \<longleftrightarrow> (\<forall>s. \<exists>s'. f s = Some s' \<and> core_idle s' = core_idle s \<and> c_of s' = c_of s)"

lemma quietE: "quiet f \<Longrightarrow> (\<And>s'. f s = Some s' \<Longrightarrow> core_idle s' = core_idle s \<Longrightarrow> c_of s' = c_of s \<Longrightarrow> thesis) \<Longrightarrow> thesis"
  by (auto simp: quiet_def)

lemma quiet_bind: "quiet f \<Longrightarrow> quiet g \<Longrightarrow> quiet (\<lambda>s. f s \<bind> g)"
proof -
  assume f: "quiet f" and g: "quiet g"
  show ?thesis unfolding quiet_def
  proof
    fix s
    from f obtain t where t: "f s = Some t" "core_idle t = core_idle s" "c_of t = c_of s" by (auto simp: quiet_def)
    from g obtain u where "g t = Some u" "core_idle u = core_idle t" "c_of u = c_of t" by (metis quietE)
    with t show "\<exists>s'. f s \<bind> g = Some s' \<and> core_idle s' = core_idle s \<and> c_of s' = c_of s" by simp
  qed
qed

lemma quiet_print_bytes: "quiet (print_bytes card_dev cs)"
  using print_total unfolding quiet_def core_idle_def by metis

lemma quiet_prints: "quiet (print_uart card_dev str)" "quiet (print_uart_addr card_dev a)" "quiet (print_uart_int card_dev i)" "quiet (print_uart_byte card_dev b)"
  using quiet_print_bytes unfolding quiet_def print_defs by blast+

lemma quiet_uart_bytes: "quiet (print_uart_bytes card_dev bs)"
proof (induction bs)
  case Nil
  then show ?case by (simp add: quiet_def)
next
  case (Cons b bs)
  with quiet_bind [OF quiet_prints(4)] have "quiet (\<lambda>s. print_uart_byte card_dev b s \<bind> print_uart_bytes card_dev bs)" by blast
  then show ?case by (simp add: quiet_def)
qed

lemma quiet_reports: "quiet (print_status card_dev c r)" "quiet (print_header card_dev h)" "quiet (print_entry card_dev i e)"
  unfolding print_status_def print_header_def print_entry_def
  by (intro quiet_bind quiet_prints quiet_uart_bytes)+

lemma quiet_entries: "quiet (print_entries card_dev is a mem)"
proof (induction "is")
  case Nil
  then show ?case by (simp add: quiet_def)
next
  case (Cons i js)
  with quiet_bind [OF quiet_reports(3)]
  have "quiet (\<lambda>s. print_entry card_dev i (read_partition_entries (a + of_nat (i * 128)) mem) s \<bind> print_entries card_dev js a mem)" by blast
  then show ?case by (simp add: quiet_def)
qed

lemma spi_status_total: "\<exists>s'. print_spi_status card_dev what s = Some s' \<and> io_st s' = io_st s"
proof -
  obtain v t where r: "read_reg card_dev SPI_STATUS_REG s = (v, t)" and t: "io_st t = io_st s" using read_status(1) [of s] by (metis prod.collapse)
  from print_total obtain t1 where t1: "print_uart card_dev what t = Some t1" "io_st t1 = io_st t" unfolding print_defs by blast
  from print_total obtain t2 where t2: "print_uart_addr card_dev (ucast v) t1 = Some t2" "io_st t2 = io_st t1" unfolding print_defs by blast
  from print_total obtain t3 where "print_uart card_dev crlf t2 = Some t3" "io_st t3 = io_st t2" unfolding print_defs by blast
  with r t t1 t2 show ?thesis by (simp add: print_spi_status_def)
qed

text \<open>The initialisation empties the queue and leaves the core enabled, whatever state it was in.\<close>

lemma spi_init_total: "\<exists>s'. spi_init card_dev s = Some s' \<and> core_idle s' \<and> c_of s' = c_of s"
proof -
  from print_uart_total obtain t1 where t1: "print_uart card_dev (''init SPI'' @ crlf) s = Some t1" "io_st t1 = io_st s" by blast
  from spi_status_total obtain t2 where t2: "print_spi_status card_dev ''status: 0x'' (write_reg card_dev SPI_CONTROL_REG 0x104 (write_reg card_dev SPI_RESET_REG 0x0a t1)) = Some t2"
    "io_st t2 = io_st (write_reg card_dev SPI_CONTROL_REG 0x104 (write_reg card_dev SPI_RESET_REG 0x0a t1))" by blast
  from spi_status_total obtain t3 where t3: "print_spi_status card_dev ''status: 0x'' (write_reg card_dev SPI_CONTROL_REG 0x166 t2) = Some t3"
    "io_st t3 = io_st (write_reg card_dev SPI_CONTROL_REG 0x166 t2)" by blast
  from print_uart_total obtain t4 where t4: "print_uart card_dev (''SPI initialized!'' @ crlf) (write_reg card_dev SPI_CONTROL_REG 0x06 t3) = Some t4"
    "io_st t4 = io_st (write_reg card_dev SPI_CONTROL_REG 0x06 t3)" by blast
  show ?thesis using t1 t2 t3 t4 by (simp add: spi_init_def core_idle_def card_write_reg card_write_def)
qed

lemma cmd0_total:
  assumes "core_idle s" "c_of s = cmd_answer 1 @ 0xff # rest"
  shows "\<exists>s'. sd_cmd0 card_dev s = Some (True, s') \<and> core_idle s' \<and> c_of s' = rest"
proof -
  from answer_total [OF assms, of 0 0 "0x95"] obtain t where t: "sd_cmd card_dev 0 0 0x95 s = Some (1, t)" "core_idle t" "c_of t = 0xff # rest" by auto
  from dummy_total [OF t(2)] t(3) obtain u where u: "sd_dummy card_dev t = Some (0xff, u)" "core_idle u" "c_of u = rest" by auto
  from quietE [OF quiet_reports(1), of "''cmd0''" 1 u] u obtain s' where "print_status card_dev ''cmd0'' 1 u = Some s'" "core_idle s'" "c_of s' = rest" by metis
  with t(1) u(1) show ?thesis
    unfolding sd_cmd0_def by (subst sd_cmd0_loop.simps, simp, subst sd_cmd0_loop.simps) simp
qed

lemma cmd8_total:
  assumes "core_idle s" "c_of s = cmd_answer 1 @ [0, 0, 1, 0xaa, 0xff, 0xff] @ rest"
  shows "\<exists>s'. sd_cmd8 card_dev s = Some (True, s') \<and> core_idle s' \<and> c_of s' = rest"
proof -
  have d: "\<exists>s'. sd_dummy card_dev s = Some (b, s') \<and> core_idle s' \<and> c_of s' = bs" if "core_idle s" "c_of s = b # bs" for s b bs
    using dummy_total [OF that(1)] that(2) by simp
  from answer_total [OF assms, of 8 "0x1aa" "0x87"] obtain t where t: "sd_cmd card_dev 8 0x1aa 0x87 s = Some (1, t)" "core_idle t"
    "c_of t = [0, 0, 1, 0xaa, 0xff, 0xff] @ rest" by auto
  from d [OF t(2)] t(3) obtain t1 where t1: "sd_dummy card_dev t = Some (0, t1)" "core_idle t1" "c_of t1 = [0, 1, 0xaa, 0xff, 0xff] @ rest" by auto
  from d [OF t1(2)] t1(3) obtain t2 where t2: "sd_dummy card_dev t1 = Some (0, t2)" "core_idle t2" "c_of t2 = [1, 0xaa, 0xff, 0xff] @ rest" by auto
  from d [OF t2(2)] t2(3) obtain t3 where t3: "sd_dummy card_dev t2 = Some (1, t3)" "core_idle t3" "c_of t3 = [0xaa, 0xff, 0xff] @ rest" by auto
  from d [OF t3(2)] t3(3) obtain t4 where t4: "sd_dummy card_dev t3 = Some (0xaa, t4)" "core_idle t4" "c_of t4 = [0xff, 0xff] @ rest" by auto
  from d [OF t4(2)] t4(3) obtain t5 where t5: "sd_dummy card_dev t4 = Some (0xff, t5)" "core_idle t5" "c_of t5 = [0xff] @ rest" by auto
  from d [OF t5(2)] t5(3) obtain t6 where t6: "sd_dummy card_dev t5 = Some (0xff, t6)" "core_idle t6" "c_of t6 = rest" by auto
  show ?thesis using t(1) t1(1) t2(1) t3(1) t4(1) t5(1) t6 by (simp add: sd_cmd8_def)
qed

lemma acmd41_total:
  assumes "core_idle s" "c_of s = cmd_answer 1 @ 0xff # cmd_answer 0 @ 0xff # rest"
  shows "\<exists>s'. sd_acmd41 card_dev s = Some (True, s') \<and> core_idle s' \<and> c_of s' = rest"
proof -
  from answer_total [OF assms, of 55 0 "0x65"] obtain t where t: "sd_cmd card_dev 55 0 0x65 s = Some (1, t)" "core_idle t"
    "c_of t = 0xff # cmd_answer 0 @ 0xff # rest" by auto
  from dummy_total [OF t(2)] t(3) obtain u where u: "sd_dummy card_dev t = Some (0xff, u)" "core_idle u" "c_of u = cmd_answer 0 @ 0xff # rest" by auto
  from quietE [OF quiet_reports(1), of "''cmd55''" 1 u] u obtain v where v: "print_status card_dev ''cmd55'' 1 u = Some v" "core_idle v"
    "c_of v = cmd_answer 0 @ 0xff # rest" by metis
  from answer_total [OF v(2,3), of 41 "0x40000000" "0x77"] obtain w where w: "sd_cmd card_dev 41 0x40000000 0x77 v = Some (0, w)" "core_idle w" "c_of w = 0xff # rest" by auto
  from quietE [OF quiet_reports(1), of "''cmd41''" 0 w] w obtain x where x: "print_status card_dev ''cmd41'' 0 w = Some x" "core_idle x" "c_of x = 0xff # rest" by metis
  from dummy_total [OF x(2)] x(3) obtain s' where "sd_dummy card_dev x = Some (0xff, s')" "core_idle s'" "c_of s' = rest" by auto
  with t(1) u(1) v(1) w(1) x(1) show ?thesis by (subst sd_acmd41.simps) (simp add: sd_cmd55_def)
qed

lemma init_total:
  assumes "c_of s = init_answers @ rest"
  shows "\<exists>s'. init_sd card_dev s = Some (0, s') \<and> core_idle s' \<and> c_of s' = rest"
proof -
  from spi_init_total [of s] assms obtain t1 where t1: "spi_init card_dev s = Some t1" "core_idle t1" "c_of t1 = init_answers @ rest" by auto
  from quietE [OF quiet_prints(1), of "''initializing SD... '' @ crlf" t1] t1 obtain t2 where
    t2: "print_uart card_dev (''initializing SD... '' @ crlf) t1 = Some t2" "core_idle t2" "c_of t2 = init_answers @ rest" by metis
  from send_total [OF t2(2), of "replicate 10 0xff"] obtain t3 where t3: "spi_send card_dev (replicate 10 0xff) t2 = Some t3" "core_idle t3"
    "c_of t3 = cmd_answer 1 @ 0xff # cmd_answer 1 @ [0, 0, 1, 0xaa, 0xff, 0xff] @ cmd_answer 1 @ 0xff # cmd_answer 0 @ 0xff # rest"
    using t2(3) by (auto simp: init_answers_def)
  from cmd0_total [OF t3(2,3)] obtain t4 where t4: "sd_cmd0 card_dev t3 = Some (True, t4)" "core_idle t4"
    "c_of t4 = cmd_answer 1 @ [0, 0, 1, 0xaa, 0xff, 0xff] @ cmd_answer 1 @ 0xff # cmd_answer 0 @ 0xff # rest" by blast
  from cmd8_total [OF t4(2,3)] obtain t5 where t5: "sd_cmd8 card_dev t4 = Some (True, t5)" "core_idle t5" "c_of t5 = cmd_answer 1 @ 0xff # cmd_answer 0 @ 0xff # rest" by blast
  from acmd41_total [OF t5(2,3)] t1(1) t2(1) t3(1) t4(1) t5(1) show ?thesis by (auto simp: init_sd_def simp del: spi_send.simps)
qed

text \<open>The copies, and the whole.\<close>

lemma copy_answers_total:
  assumes "core_idle s" "c_of s = copy_answers rx @ rest" "block_stream rx bs" "copied (unat sz) rc bs"
  shows "\<exists>s'. sd_copy card_dev dst lba sz mem s = Some (rc, mem_store dst (blocks_bytes bs) mem, s') \<and> core_idle s' \<and> c_of s' = rest"
proof -
  have "c_of s = replicate 7 0xff @ [] @ 0 # rx @ replicate 7 0xff @ [] @ 0 # 0xff # rest"
    using assms(2) by (simp add: copy_answers_def cmd_answer_def)
  from copy_total [OF assms(1) this _ _ _ _ _ _ assms(3,4), of dst lba mem] show ?thesis by (simp add: blocks_bytes_def)
qed

lemma gpt_total:
  assumes "c_of s = init_answers @ copy_answers rx1 @ copy_answers rx2 @ copy_answers rx3 @ rest"
    and "block_stream rx1 hdr" "copied 1 0 hdr" "block_stream rx2 tbl" "copied 1 0 tbl"
    and "m2 = mem_store lba2_buf (blocks_bytes tbl) (mem_store lba1_buf (blocks_bytes hdr) mem)" "boot = read_partition_entries lba2_buf m2"
    and "block_stream rx3 img" "copied (unat (ucast (last_lba boot - first_lba boot + 1) :: u32)) 0 img"
  shows "\<exists>s'. gpt_find_boot_partition card_dev lba1_buf lba2_buf dest sz mem s = Some (0, mem_store dest (blocks_bytes img) m2, s')"
proof -
  let ?m1 = "mem_store lba1_buf (blocks_bytes hdr) mem"
  from init_total [OF assms(1)] obtain t0 where t0: "init_sd card_dev s = Some (0, t0)" "core_idle t0"
    "c_of t0 = copy_answers rx1 @ copy_answers rx2 @ copy_answers rx3 @ rest" by blast
  from quietE [OF quiet_prints(1), of "''sd initialized!'' @ crlf" t0] t0 obtain t1 where t1: "print_uart card_dev (''sd initialized!'' @ crlf) t0 = Some t1" "core_idle t1"
    "c_of t1 = copy_answers rx1 @ copy_answers rx2 @ copy_answers rx3 @ rest" by metis
  have one: "unat (1 :: u32) = 1" by simp
  from copy_answers_total [OF t1(2,3) assms(2), of 1 0 lba1_buf 1 mem] assms(3) one obtain t2 where
    t2: "sd_copy card_dev lba1_buf 1 1 mem t1 = Some (0, ?m1, t2)" "core_idle t2" "c_of t2 = copy_answers rx2 @ copy_answers rx3 @ rest" by metis
  from quietE [OF quiet_reports(2), of "read_gpt_pth lba1_buf ?m1" t2] t2 obtain t3 where t3: "print_header card_dev (read_gpt_pth lba1_buf ?m1) t2 = Some t3" "core_idle t3"
    "c_of t3 = copy_answers rx2 @ copy_answers rx3 @ rest" by metis
  from copy_answers_total [OF t3(2,3) assms(4), of 1 0 lba2_buf "ucast (partition_entries_lba (read_gpt_pth lba1_buf ?m1))" ?m1] assms(5,6) one obtain t4 where
    t4: "sd_copy card_dev lba2_buf (ucast (partition_entries_lba (read_gpt_pth lba1_buf ?m1))) 1 ?m1 t3 = Some (0, m2, t4)" "core_idle t4" "c_of t4 = copy_answers rx3 @ rest" by metis
  from quietE [OF quiet_entries, of "[0, 1, 2, 3]" lba2_buf m2 t4] t4 obtain t5 where t5: "print_entries card_dev [0, 1, 2, 3] lba2_buf m2 t4 = Some t5" "core_idle t5"
    "c_of t5 = copy_answers rx3 @ rest" by metis
  from quietE [OF quiet_prints(1), of "''copying boot image ''" t5] t5 obtain t6 where t6: "print_uart card_dev ''copying boot image '' t5 = Some t6" "core_idle t6"
    "c_of t6 = copy_answers rx3 @ rest" by metis
  from copy_answers_total [OF t6(2,3) assms(8,9), of dest "ucast (first_lba boot)" m2] obtain t7 where
    t7: "sd_copy card_dev dest (ucast (first_lba boot)) (ucast (last_lba boot - first_lba boot + 1)) m2 t6 = Some (0, mem_store dest (blocks_bytes img) m2, t7)" by blast
  from quietE [OF quiet_prints(1), of "'' done!'' @ crlf" t7] obtain s' where "print_uart card_dev ('' done!'' @ crlf) t7 = Some s'" by metis
  with t0(1) t1(1) t2(1) t3(1) t4(1) t5(1) t6(1) t7 assms(7) show ?thesis
    unfolding gpt_find_boot_partition_def by (simp only: bind.bind_lunit Let_def prod.case simp_thms if_True if_False) blast
qed

text \<open>A card of zeros: the first partition is block 0.\<close>

definition zero_rx :: "u8 list" where
  "zero_rx = [0xff] @ [0xfe] @ replicate 512 0 @ [0, 0] @ []"

definition zero_blocks :: "(u8 list \<times> u16) list" where
  "zero_blocks = [(replicate 512 0, push_bit 8 (ucast (0 :: u8)) OR ucast (0 :: u8))]"

definition boot_card :: "card io" where
  "boot_card = \<lparr>io_st = \<lparr>card_ctl = 0x180, card_sel = 0xffffffff, card_fifo = [0x55], card_script =
     init_answers @ copy_answers zero_rx @ copy_answers zero_rx @ copy_answers zero_rx @ []\<rparr>, io_trace = []\<rparr>"

lemma zero_boot:
  "block_stream zero_rx zero_blocks" "copied 1 0 zero_blocks"
  "card_script (io_st boot_card) = init_answers @ copy_answers zero_rx @ copy_answers zero_rx @ copy_answers zero_rx @ []"
  using zero_stream zero_copied by (simp_all add: zero_rx_def zero_blocks_def boot_card_def)

lemma zero_memory: "mem_store p (blocks_bytes zero_blocks) (\<lambda>_. 0) = (\<lambda>_. 0)"
  by (auto simp: mem_store_def blocks_bytes_def zero_blocks_def)

lemma zero_entry: "first_lba (read_partition_entries a (\<lambda>_. 0)) = 0" "last_lba (read_partition_entries a (\<lambda>_. 0)) = 0"
  by (simp_all add: read_partition_entries_def load64_def load_le_def)

theorem gpt_boot_loads_partition_witness:
  "\<exists>mem' s' got hdr. gpt_find_boot_partition card_dev 0x83fffc00 0x83fff800 0x80000000 32768 (\<lambda>_. 0) boot_card = Some (0, mem', s') \<and>
    good_blocks 1 got hdr"
proof -
  obtain s' where r: "gpt_find_boot_partition card_dev 0x83fffc00 0x83fff800 0x80000000 32768 (\<lambda>_. 0) boot_card = Some (0, \<lambda>_. 0, s')"
    using gpt_total [OF zero_boot(3,1,2,1,2) refl refl zero_boot(1),
      of "0x83fff800" "0x83fffc00" "\<lambda>_. 0" "0x80000000" 32768] zero_boot(2)
    by (auto simp: zero_memory zero_entry)
  from gpt_boot_loads_partition [OF r] r show ?thesis by blast
qed

end
