(* ===== verification/Plat_Devices.thy ===== *)
theory Plat_Devices
  imports Sbi_Console
begin

text \<open>
  The interrupt controller and the serial port of the platform (\<^verbatim>\<open>lib/utils/irqchip/plic.c\<close>, \<^verbatim>\<open>lib/utils/serial/uart8250.c\<close>). Drivers act on the part \<open>m_drv\<close> of
  the machine; their accesses to registers are recorded in its trace.
\<close>

section \<open>Registers in the machine\<close>

definition upd_drv :: "(drv_sys \<Rightarrow> drv_sys) \<Rightarrow> machine \<Rightarrow> machine" where
  "upd_drv f m = m\<lparr>m_drv := f (m_drv m)\<rparr>"

definition upd_io :: "(hw io \<Rightarrow> hw io) \<Rightarrow> machine \<Rightarrow> machine" where
  "upd_io f m = upd_drv (\<lambda>d. d\<lparr>drv_io := f (drv_io d)\<rparr>) m"

definition m_trace :: "machine \<Rightarrow> io_op list" where
  "m_trace m = io_trace (drv_io (m_drv m))"

text \<open>A read of the registers, and a wait for one, in the machine.\<close>

definition drv_read :: "(hw io \<Rightarrow> 'a \<times> hw io) \<Rightarrow> machine \<Rightarrow> 'a \<times> machine" where
  "drv_read f m = (case f (drv_io (m_drv m)) of (v, s) \<Rightarrow> (v, upd_io (\<lambda>_. s) m))"

definition drv_wait :: "(hw io \<Rightarrow> ('a \<times> hw io) option) \<Rightarrow> machine \<Rightarrow> 'a run" where
  "drv_wait f m = (case f (drv_io (m_drv m)) of None \<Rightarrow> Spin m | Some (v, s) \<Rightarrow> Ret v (upd_io (\<lambda>_. s) m))"

lemma upd_drv_simps [simp]:
  "m_drv (upd_drv f m) = f (m_drv m)" "m_dom (upd_drv f m) = m_dom m" "m_init (upd_drv f m) = m_init m" "m_log (upd_drv f m) = m_log m"
  "m_con (upd_drv f m) = m_con m" "ipi_dev (upd_drv f m) = ipi_dev m" "timer_dev (upd_drv f m) = timer_dev m" "h_csr (upd_drv f m) = h_csr m"
  by (simp_all add: upd_drv_def)

lemma upd_io_simps [simp]:
  "drv_io (m_drv (upd_io f m)) = f (drv_io (m_drv m))" "m_dom (upd_io f m) = m_dom m" "m_init (upd_io f m) = m_init m"
  "mswi_obj (m_drv (upd_io f m)) = mswi_obj (m_drv m)" "mswi_hartid2data (m_drv (upd_io f m)) = mswi_hartid2data (m_drv m)"
  "mtimer_obj (m_drv (upd_io f m)) = mtimer_obj (m_drv m)" "mtimer_hartid2data (m_drv (upd_io f m)) = mtimer_hartid2data (m_drv m)"
  "drv_plic (m_drv (upd_io f m)) = drv_plic (m_drv m)" "drv_uart8250 (m_drv (upd_io f m)) = drv_uart8250 (m_drv m)"
  "m_log (upd_io f m) = m_log m" "m_con (upd_io f m) = m_con m"
  by (simp_all add: upd_io_def)

lemma m_trace_upd_io [simp]: "m_trace (upd_io f m) = io_trace (f (drv_io (m_drv m)))"
  by (simp add: m_trace_def)

section \<open>Interrupt controller\<close>

abbreviation (input) PLIC_PRIORITY_BASE :: ulong where "PLIC_PRIORITY_BASE \<equiv> 0x0"
abbreviation (input) PLIC_ENABLE_BASE :: ulong where "PLIC_ENABLE_BASE \<equiv> 0x2000"
abbreviation (input) PLIC_ENABLE_STRIDE :: u32 where "PLIC_ENABLE_STRIDE \<equiv> 0x80"
abbreviation (input) PLIC_CONTEXT_BASE :: ulong where "PLIC_CONTEXT_BASE \<equiv> 0x200000"
abbreviation (input) PLIC_CONTEXT_STRIDE :: u32 where "PLIC_CONTEXT_STRIDE \<equiv> 0x1000"

definition plic_set_priority :: "hw io_dev \<Rightarrow> plic_data \<Rightarrow> u32 \<Rightarrow> u32 \<Rightarrow> machine \<Rightarrow> machine" where
  "plic_set_priority dev plic source val m =
     upd_io (writel dev val (plic_addr plic + PLIC_PRIORITY_BASE + ucast (4 * source))) m"

definition plic_set_thresh :: "hw io_dev \<Rightarrow> plic_data option \<Rightarrow> u32 \<Rightarrow> u32 \<Rightarrow> machine \<Rightarrow> machine" where
  "plic_set_thresh dev plic cntxid val m =
     (case plic of None \<Rightarrow> m
      | Some p \<Rightarrow> upd_io (writel dev val (plic_addr p + PLIC_CONTEXT_BASE + ucast (PLIC_CONTEXT_STRIDE * cntxid))) m)"

definition plic_set_ie :: "hw io_dev \<Rightarrow> plic_data option \<Rightarrow> u32 \<Rightarrow> u32 \<Rightarrow> u32 \<Rightarrow> machine \<Rightarrow> machine" where
  "plic_set_ie dev plic cntxid word_index val m =
     (case plic of None \<Rightarrow> m
      | Some p \<Rightarrow> upd_io (writel dev val (plic_addr p + PLIC_ENABLE_BASE + ucast (PLIC_ENABLE_STRIDE * cntxid) + ucast (word_index * 4))) m)"

text \<open>The enable words of a context, all set to one value.\<close>

definition plic_set_ie_words :: "hw io_dev \<Rightarrow> plic_data option \<Rightarrow> int \<Rightarrow> nat \<Rightarrow> u32 \<Rightarrow> machine \<Rightarrow> machine" where
  "plic_set_ie_words dev plic cntx ie_words val m =
     (if - 1 < cntx then fold (\<lambda>i. plic_set_ie dev plic (word_of_int cntx) (of_nat i) val) [0..<ie_words] m else m)"

definition plic_set_cntx_thresh :: "hw io_dev \<Rightarrow> plic_data option \<Rightarrow> int \<Rightarrow> u32 \<Rightarrow> machine \<Rightarrow> machine" where
  "plic_set_cntx_thresh dev plic cntx val m = (if - 1 < cntx then plic_set_thresh dev plic (word_of_int cntx) val m else m)"

definition plic_warm_irqchip_init :: "hw io_dev \<Rightarrow> plic_data option \<Rightarrow> int \<Rightarrow> int \<Rightarrow> machine \<Rightarrow> int \<times> machine" where
  "plic_warm_irqchip_init dev plic m_cntx_id s_cntx_id m =
     (case plic of
        None \<Rightarrow> (SBI_EINVAL, m)
      | Some p \<Rightarrow>
          (let ie_words = unat (plic_num_src p) div 32 + 1;
               m = plic_set_ie_words dev plic m_cntx_id ie_words 0 m;
               m = plic_set_ie_words dev plic s_cntx_id ie_words 0 m;
               m = plic_set_cntx_thresh dev plic m_cntx_id 0x7 m
           in (0, plic_set_cntx_thresh dev plic s_cntx_id 0x7 m)))"

text \<open>The counter of the loop over the sources is an \<^verbatim>\<open>int\<close>; it overflows when there are too many.\<close>

definition plic_cold_irqchip_init :: "hw io_dev \<Rightarrow> plic_data option \<Rightarrow> machine \<Rightarrow> int run" where
  "plic_cold_irqchip_init dev plic m =
     (case plic of
        None \<Rightarrow> Ret SBI_EINVAL m
      | Some p \<Rightarrow>
          (if 2 ^ 31 - 1 \<le> unat (plic_num_src p) then Fault
           else Ret 0 (fold (\<lambda>i. plic_set_priority dev p (of_nat i) 0) [1..<unat (plic_num_src p) + 1] m)))"

section \<open>Serial port\<close>

abbreviation (input) UART_RBR_OFFSET :: u32 where "UART_RBR_OFFSET \<equiv> 0"
abbreviation (input) UART_THR_OFFSET :: u32 where "UART_THR_OFFSET \<equiv> 0"
abbreviation (input) UART_DLL_OFFSET :: u32 where "UART_DLL_OFFSET \<equiv> 0"
abbreviation (input) UART_IER_OFFSET :: u32 where "UART_IER_OFFSET \<equiv> 1"
abbreviation (input) UART_DLM_OFFSET :: u32 where "UART_DLM_OFFSET \<equiv> 1"
abbreviation (input) UART_FCR_OFFSET :: u32 where "UART_FCR_OFFSET \<equiv> 2"
abbreviation (input) UART_LCR_OFFSET :: u32 where "UART_LCR_OFFSET \<equiv> 3"
abbreviation (input) UART_MCR_OFFSET :: u32 where "UART_MCR_OFFSET \<equiv> 4"
abbreviation (input) UART_LSR_OFFSET :: u32 where "UART_LSR_OFFSET \<equiv> 5"
abbreviation (input) UART_SCR_OFFSET :: u32 where "UART_SCR_OFFSET \<equiv> 7"
abbreviation (input) UART_LSR_THRE :: u32 where "UART_LSR_THRE \<equiv> 0x20"
abbreviation (input) UART_LSR_DR :: u32 where "UART_LSR_DR \<equiv> 0x01"

definition uart_reg_bytes :: "uart8250_sys \<Rightarrow> nat" where
  "uart_reg_bytes u = (if uart8250_reg_width u = 1 then 1 else if uart8250_reg_width u = 2 then 2 else 4)"

definition uart_reg_addr :: "uart8250_sys \<Rightarrow> u32 \<Rightarrow> ulong" where
  "uart_reg_addr u num = (let offset = push_bit (unat (uart8250_reg_shift u)) num in uart8250_base u + ucast offset)"

definition get_reg :: "hw io_dev \<Rightarrow> u32 \<Rightarrow> machine \<Rightarrow> u32 \<times> machine" where
  "get_reg dev num m =
     (let u = drv_uart8250 (m_drv m); a = uart_reg_addr u num
      in if uart8250_reg_width u = 1 then drv_read (\<lambda>s. apfst ucast (readb dev a s)) m
         else if uart8250_reg_width u = 2 then drv_read (\<lambda>s. apfst ucast (readw dev a s)) m
         else drv_read (readl dev a) m)"

definition set_reg :: "hw io_dev \<Rightarrow> u32 \<Rightarrow> u32 \<Rightarrow> machine \<Rightarrow> machine" where
  "set_reg dev num val m =
     (let u = drv_uart8250 (m_drv m); a = uart_reg_addr u num
      in if uart8250_reg_width u = 1 then upd_io (writeb dev (ucast val) a) m
         else if uart8250_reg_width u = 2 then upd_io (writew dev (ucast val) a) m
         else upd_io (writel dev val a) m)"

text \<open>\<^verbatim>\<open>while ((get_reg(UART_LSR_OFFSET) & UART_LSR_THRE) == 0);\<close> and then the character.\<close>

definition uart8250_putc :: "hw io_dev \<Rightarrow> u8 \<Rightarrow> machine \<Rightarrow> unit run" where
  "uart8250_putc dev ch m =
     (let u = drv_uart8250 (m_drv m)
      in run_bind (drv_wait (io_poll (\<lambda>v. (ucast v :: u32) AND UART_LSR_THRE = 0) dev (uart_reg_bytes u) (uart_reg_addr u UART_LSR_OFFSET)) m)
           (\<lambda>_ m. Ret () (set_reg dev UART_THR_OFFSET (ucast ch) m)))"

definition uart8250_getc :: "hw io_dev \<Rightarrow> machine \<Rightarrow> int \<times> machine" where
  "uart8250_getc dev m =
     (case get_reg dev UART_LSR_OFFSET m of (lsr, m) \<Rightarrow>
        (if lsr AND UART_LSR_DR \<noteq> 0 then case get_reg dev UART_RBR_OFFSET m of (c, m) \<Rightarrow> (sint c, m) else (- 1, m)))"

text \<open>\<open>inp\<close> is what the device will deliver to \<^verbatim>\<open>uart8250_getc\<close>. A zero divisor is undefined behaviour.\<close>

definition uart8250_init :: "hw io_dev \<Rightarrow> int list \<Rightarrow> ulong \<Rightarrow> u32 \<Rightarrow> u32 \<Rightarrow> u32 \<Rightarrow> u32 \<Rightarrow> machine \<Rightarrow> int run" where
  "uart8250_init dev inp base in_freq baudrate reg_shift reg_width m =
     (let m = upd_drv (\<lambda>d. d\<lparr>drv_uart8250 := \<lparr>uart8250_base = base, uart8250_in_freq = in_freq, uart8250_baudrate = baudrate,
                uart8250_reg_width = reg_width, uart8250_reg_shift = reg_shift\<rparr>\<rparr>) m
      in if 16 * baudrate = 0 then Fault
         else let bdiv = ucast (in_freq div (16 * baudrate)) :: u16;
                  m = set_reg dev UART_IER_OFFSET 0x00 m;
                  m = set_reg dev UART_LCR_OFFSET 0x80 m;
                  m = (if bdiv \<noteq> 0
                       then set_reg dev UART_DLM_OFFSET (ucast (drop_bit 8 bdiv AND 0xff)) (set_reg dev UART_DLL_OFFSET (ucast (bdiv AND 0xff)) m)
                       else m);
                  m = set_reg dev UART_LCR_OFFSET 0x03 m;
                  m = set_reg dev UART_FCR_OFFSET 0x01 m;
                  m = set_reg dev UART_MCR_OFFSET 0x00 m;
                  m = snd (get_reg dev UART_LSR_OFFSET m);
                  m = snd (get_reg dev UART_RBR_OFFSET m);
                  m = set_reg dev UART_SCR_OFFSET 0x00 m
              in Ret 0 (sbi_console_set_device (Some \<lparr>con_putc = True, con_getc = True, con_input = inp\<rparr>) m))"

section \<open>What the registers hold\<close>

text \<open>The value of the youngest write to a register of the given width.\<close>

fun reg_val :: "nat \<Rightarrow> ulong \<Rightarrow> io_op list \<Rightarrow> ulong option" where
  "reg_val n a [] = None"
| "reg_val n a (Io_wr k b v # tr) = (if k = n \<and> b = a then Some v else reg_val n a tr)"
| "reg_val n a (Io_rd k b v # tr) = reg_val n a tr"

lemma upd_io_writel: "m_trace (upd_io (writel dev v a) m) = Io_wr 4 a (ucast v) # m_trace m"
  by (simp add: writel_def m_trace_def)

end
