(* ===== verification/Plat_Aclint.thy ===== *)
theory Plat_Aclint
  imports Plat_Devices Sbi_Init
begin

text \<open>
  The interprocessor interrupt and timer devices of the ACLINT (\<^verbatim>\<open>lib/utils/ipi/aclint_mswi.c\<close>, \<^verbatim>\<open>lib/utils/timer/aclint_mtimer.c\<close>). The tables that map a hart to
  its device are lists of 128 entries; an access beyond them is \<open>Fault\<close>, as is the use of a missing entry.
\<close>

abbreviation (input) ACLINT_MSWI_ALIGN :: ulong where "ACLINT_MSWI_ALIGN \<equiv> 0x1000"
abbreviation (input) ACLINT_MSWI_SIZE :: ulong where "ACLINT_MSWI_SIZE \<equiv> 0x4000"
abbreviation (input) ACLINT_MSWI_MAX_HARTS :: u32 where "ACLINT_MSWI_MAX_HARTS \<equiv> 4095"
abbreviation (input) ACLINT_MTIMER_ALIGN :: ulong where "ACLINT_MTIMER_ALIGN \<equiv> 0x8"
abbreviation (input) ACLINT_MTIMER_MAX_HARTS :: u32 where "ACLINT_MTIMER_MAX_HARTS \<equiv> 4095"
abbreviation (input) MTIMER_ADD_REGION_ALIGN :: ulong where "MTIMER_ADD_REGION_ALIGN \<equiv> 0x1000"

section \<open>Interprocessor interrupts\<close>

text \<open>\<^verbatim>\<open>mswi_ipi_send\<close> and \<^verbatim>\<open>mswi_ipi_clear\<close> differ in the value that they write.\<close>

definition mswi_write :: "hw io_dev \<Rightarrow> u32 \<Rightarrow> u32 \<Rightarrow> machine \<Rightarrow> machine" where
  "mswi_write dev val target_hart m =
     (if 128 \<le> unat target_hart then m
      else case mswi_hartid2data (m_drv m) ! unat target_hart of
             None \<Rightarrow> m
           | Some p \<Rightarrow>
               (let mswi = mswi_obj (m_drv m) p
                in upd_io (writel dev val (mswi_addr mswi + 4 * ucast (target_hart - mswi_first_hartid mswi))) m))"

definition mswi_ipi_send :: "hw io_dev \<Rightarrow> u32 \<Rightarrow> machine \<Rightarrow> machine" where
  "mswi_ipi_send dev target_hart m = mswi_write dev 1 target_hart m"

definition mswi_ipi_clear :: "hw io_dev \<Rightarrow> u32 \<Rightarrow> machine \<Rightarrow> machine" where
  "mswi_ipi_clear dev target_hart m = mswi_write dev 0 target_hart m"

definition aclint_mswi_warm_init :: "hw io_dev \<Rightarrow> hartid \<Rightarrow> machine \<Rightarrow> int \<times> machine" where
  "aclint_mswi_warm_init dev h m = (0, mswi_ipi_clear dev (of_nat h) m)"

text \<open>\<^verbatim>\<open>for (i = 0; i < hart_count; i++) table[first_hartid + i] = p;\<close>\<close>

fun table_fill :: "nat \<Rightarrow> nat list \<Rightarrow> nat option list \<Rightarrow> nat option list option" where
  "table_fill p [] t = Some t"
| "table_fill p (i # is) t = (if i < length t then table_fill p is (t[i := Some p]) else None)"

definition hart_slots :: "u32 \<Rightarrow> u32 \<Rightarrow> nat list" where
  "hart_slots first_hartid hart_count = map (\<lambda>i. unat (first_hartid + of_nat i)) [0..<unat hart_count]"

text \<open>
  The loops that add regions to the root domain. The inner option is an access outside the table of regions, the outer one a loop
  that does not end.
\<close>

partial_function (option) mswi_add_regions ::
  "(hartid \<Rightarrow> bool) \<Rightarrow> ulong \<Rightarrow> ulong \<Rightarrow> ulong \<Rightarrow> domain_sys \<Rightarrow> (int \<times> domain_sys) option option" where
  "mswi_add_regions hart_invalid addr sz pos s =
     (if pos < sz
      then let region_size = (if sz - pos < ACLINT_MSWI_ALIGN then sz - pos else ACLINT_MSWI_ALIGN);
               reg = sbi_domain_memregion_init (addr + pos) region_size SBI_DOMAIN_MEMREGION_MMIO
           in case sbi_domain_root_add_memregion hart_invalid (Some reg) s of
                None \<Rightarrow> Some None
              | Some (rc, s) \<Rightarrow> (if rc \<noteq> 0 then Some (Some (rc, s)) else mswi_add_regions hart_invalid addr sz (pos + ACLINT_MSWI_ALIGN) s)
      else Some (Some (0, s)))"

declare mswi_add_regions.simps [code]

definition run_regions :: "(int \<times> domain_sys) option option \<Rightarrow> machine \<Rightarrow> int run" where
  "run_regions r m = (case r of None \<Rightarrow> Spin m | Some None \<Rightarrow> Fault | Some (Some (rc, s)) \<Rightarrow> Ret rc (m\<lparr>m_dom := s\<rparr>))"

definition aclint_mswi_cold_init :: "sbi_plat \<Rightarrow> nat option \<Rightarrow> machine \<Rightarrow> int run" where
  "aclint_mswi_cold_init pl mswi m =
     (case mswi of
        None \<Rightarrow> Ret SBI_EINVAL m
      | Some p \<Rightarrow>
          (let d = mswi_obj (m_drv m) p
           in if mswi_addr d AND (ACLINT_MSWI_ALIGN - 1) \<noteq> 0 \<or> mswi_size d < ACLINT_MSWI_SIZE \<or>
                 128 \<le> unat (mswi_first_hartid d) \<or> ACLINT_MSWI_MAX_HARTS < mswi_hart_count d
              then Ret SBI_EINVAL m
              else case table_fill p (hart_slots (mswi_first_hartid d) (mswi_hart_count d)) (mswi_hartid2data (m_drv m)) of
                     None \<Rightarrow> Fault
                   | Some t \<Rightarrow>
                       (let m = upd_drv (\<lambda>v. v\<lparr>mswi_hartid2data := t\<rparr>) m
                        in run_bind (run_regions (mswi_add_regions (p_hart_invalid pl) (mswi_addr d) (mswi_size d) 0 (m_dom m)) m) (\<lambda>rc m.
                             if rc \<noteq> 0 then Ret rc m
                             else Ret 0 (sbi_ipi_set_device (Some \<lparr>has_ipi_send = True, has_ipi_clear = True\<rparr>) m)))))"

section \<open>Timer: access to the registers\<close>

definition mtimer_time_rd64 :: "hw io_dev \<Rightarrow> ulong \<Rightarrow> hw io \<Rightarrow> ulong \<times> hw io" where
  "mtimer_time_rd64 dev addr s = readq dev addr s"

definition mtimer_time_wr64 :: "hw io_dev \<Rightarrow> bool \<Rightarrow> ulong \<Rightarrow> ulong \<Rightarrow> hw io \<Rightarrow> hw io" where
  "mtimer_time_wr64 dev timecmp value addr s = writeq dev value addr s"

partial_function (option) mtimer_time_rd32 :: "'d io_dev \<Rightarrow> ulong \<Rightarrow> 'd io \<Rightarrow> (ulong \<times> 'd io) option" where
  "mtimer_time_rd32 dev addr s =
     (case readl dev (addr + 4) s of (hi, s) \<Rightarrow>
      case readl dev addr s of (lo, s) \<Rightarrow>
      case readl dev (addr + 4) s of (again, s) \<Rightarrow>
        (if hi \<noteq> again then mtimer_time_rd32 dev addr s else Some (push_bit 32 (ucast hi) OR ucast lo, s)))"

declare mtimer_time_rd32.simps [code]

definition mtimer_time_wr32 :: "'d io_dev \<Rightarrow> bool \<Rightarrow> ulong \<Rightarrow> ulong \<Rightarrow> 'd io \<Rightarrow> 'd io" where
  "mtimer_time_wr32 dev timecmp value addr s =
     (let s = writel dev (if timecmp then - 1 else 0) addr s;
          s = writel dev (ucast (drop_bit 32 value)) (addr + 4) s
      in writel dev (ucast value) addr s)"

text \<open>The calls through \<^verbatim>\<open>time_rd\<close> and \<^verbatim>\<open>time_wr\<close>.\<close>

definition mt_time_rd :: "hw io_dev \<Rightarrow> aclint_mtimer_data \<Rightarrow> ulong \<Rightarrow> machine \<Rightarrow> ulong run" where
  "mt_time_rd dev mt addr m =
     (case time_access mt of
        None \<Rightarrow> Fault
      | Some Mtimer_32 \<Rightarrow> drv_wait (mtimer_time_rd32 dev addr) m
      | Some Mtimer_64 \<Rightarrow> drv_wait (\<lambda>s. Some (mtimer_time_rd64 dev addr s)) m)"

definition mt_time_wr :: "hw io_dev \<Rightarrow> aclint_mtimer_data \<Rightarrow> bool \<Rightarrow> ulong \<Rightarrow> ulong \<Rightarrow> machine \<Rightarrow> unit run" where
  "mt_time_wr dev mt timecmp value addr m =
     (case time_access mt of
        None \<Rightarrow> Fault
      | Some Mtimer_32 \<Rightarrow> Ret () (upd_io (mtimer_time_wr32 dev timecmp value addr) m)
      | Some Mtimer_64 \<Rightarrow> Ret () (upd_io (mtimer_time_wr64 dev timecmp value addr) m))"

section \<open>Timer: operations\<close>

definition mtimer_of :: "hartid \<Rightarrow> machine \<Rightarrow> (nat option) option" where
  "mtimer_of h m = (if h < length (mtimer_hartid2data (m_drv m)) then Some (mtimer_hartid2data (m_drv m) ! h) else None)"

definition mtimer_value :: "hw io_dev \<Rightarrow> hartid \<Rightarrow> machine \<Rightarrow> ulong run" where
  "mtimer_value dev h m =
     (case mtimer_of h m of Some (Some p) \<Rightarrow> (let mt = mtimer_obj (m_drv m) p in mt_time_rd dev mt (mtime_addr mt) m) | _ \<Rightarrow> Fault)"

text \<open>\<^verbatim>\<open>&time_cmp[target_hart - mt->first_hartid]\<close>\<close>

definition mtimecmp_slot :: "aclint_mtimer_data \<Rightarrow> hartid \<Rightarrow> ulong" where
  "mtimecmp_slot mt h = mtimecmp_addr mt + 8 * ucast (of_nat h - mt_first_hartid mt)"

definition mtimer_event_start :: "hw io_dev \<Rightarrow> hartid \<Rightarrow> ulong \<Rightarrow> machine \<Rightarrow> unit run" where
  "mtimer_event_start dev h next_event m =
     (case mtimer_of h m of
        Some (Some p) \<Rightarrow> (let mt = mtimer_obj (m_drv m) p in mt_time_wr dev mt True next_event (mtimecmp_slot mt h) m)
      | _ \<Rightarrow> Fault)"

definition mtimer_event_stop :: "hw io_dev \<Rightarrow> hartid \<Rightarrow> machine \<Rightarrow> unit run" where
  "mtimer_event_stop dev h m = mtimer_event_start dev h (- 1) m"

definition upd_mtimer :: "nat \<Rightarrow> (aclint_mtimer_data \<Rightarrow> aclint_mtimer_data) \<Rightarrow> machine \<Rightarrow> machine" where
  "upd_mtimer p f m = upd_drv (\<lambda>d. d\<lparr>mtimer_obj := (mtimer_obj d)(p := f (mtimer_obj d p))\<rparr>) m"

definition aclint_mtimer_sync :: "hw io_dev \<Rightarrow> nat \<Rightarrow> machine \<Rightarrow> unit run" where
  "aclint_mtimer_sync dev p m =
     (let mt = mtimer_obj (m_drv m) p
      in if has_shared_mtime mt then Ret () m
         else case time_delta_reference mt of
                None \<Rightarrow> Ret () m
              | Some r \<Rightarrow>
                  (let reference = mtimer_obj (m_drv m) r
                   in case atomic_raw_xchg_ulong 1 (time_delta_computed mt) of (old, new) \<Rightarrow>
                        (let m = upd_mtimer p (\<lambda>x. x\<lparr>time_delta_computed := new\<rparr>) m
                         in if old \<noteq> 0 then Ret () m
                            else run_bind (mt_time_rd dev mt (mtime_addr mt) m) (\<lambda>v1 m.
                                 run_bind (mt_time_rd dev reference (mtime_addr reference) m) (\<lambda>mv m.
                                 run_bind (mt_time_rd dev mt (mtime_addr mt) m) (\<lambda>v2 m.
                                 let delta = mv - (v1 div 2 + v2 div 2)
                                 in run_bind (mt_time_rd dev mt (mtime_addr mt) m) (\<lambda>now m.
                                    mt_time_wr dev mt False (now + delta) (mtime_addr mt) m)))))))"

definition aclint_mtimer_set_reference :: "nat option \<Rightarrow> nat option \<Rightarrow> machine \<Rightarrow> machine" where
  "aclint_mtimer_set_reference mt ref m =
     (case (mt, ref) of
        (Some p, Some r) \<Rightarrow> (if p = r then m else upd_mtimer p (\<lambda>x. x\<lparr>time_delta_reference := Some r, time_delta_computed := 0\<rparr>) m)
      | _ \<Rightarrow> m)"

definition aclint_mtimer_warm_init :: "hw io_dev \<Rightarrow> hartid \<Rightarrow> machine \<Rightarrow> int run" where
  "aclint_mtimer_warm_init dev h m =
     (case mtimer_of h m of
        None \<Rightarrow> Fault
      | Some None \<Rightarrow> Ret SBI_ENODEV m
      | Some (Some p) \<Rightarrow>
          run_bind (aclint_mtimer_sync dev p m) (\<lambda>_ m.
            let mt = mtimer_obj (m_drv m) p
            in run_bind (mt_time_wr dev mt True (- 1) (mtimecmp_slot mt h) m) (\<lambda>_ m. Ret 0 m)))"

text \<open>\<^verbatim>\<open>rsize\<close> in the loop of \<^verbatim>\<open>aclint_mtimer_add_regions\<close>.\<close>

definition mtimer_rsize :: "ulong \<Rightarrow> ulong \<Rightarrow> ulong" where
  "mtimer_rsize pos end_addr =
     (let rsize = pos AND (MTIMER_ADD_REGION_ALIGN - 1)
      in if rsize \<noteq> 0 then push_bit (ffs_word pos) 1
         else if end_addr - pos < MTIMER_ADD_REGION_ALIGN then end_addr - pos else MTIMER_ADD_REGION_ALIGN)"

partial_function (option) mtimer_add_regions_loop ::
  "(hartid \<Rightarrow> bool) \<Rightarrow> ulong \<Rightarrow> ulong \<Rightarrow> domain_sys \<Rightarrow> (int \<times> domain_sys) option option" where
  "mtimer_add_regions_loop hart_invalid pos end_addr s =
     (if pos < end_addr
      then let rsize = mtimer_rsize pos end_addr;
               reg = sbi_domain_memregion_init pos rsize SBI_DOMAIN_MEMREGION_MMIO
           in case sbi_domain_root_add_memregion hart_invalid (Some reg) s of
                None \<Rightarrow> Some None
              | Some (rc, s) \<Rightarrow> (if rc \<noteq> 0 then Some (Some (rc, s)) else mtimer_add_regions_loop hart_invalid (pos + rsize) end_addr s)
      else Some (Some (0, s)))"

declare mtimer_add_regions_loop.simps [code]

definition aclint_mtimer_add_regions :: "sbi_plat \<Rightarrow> ulong \<Rightarrow> ulong \<Rightarrow> machine \<Rightarrow> int run" where
  "aclint_mtimer_add_regions pl addr sz m =
     run_regions (mtimer_add_regions_loop (p_hart_invalid pl) addr (addr + sz) (m_dom m)) m"

text \<open>The end of \<^verbatim>\<open>aclint_mtimer_cold_init\<close>: one region for the two banks of registers when they are adjacent.\<close>

definition mtimer_layout :: "sbi_plat \<Rightarrow> aclint_mtimer_data \<Rightarrow> machine \<Rightarrow> int run" where
  "mtimer_layout pl d m =
     (if mtime_addr d = mtimecmp_addr d + mtimecmp_size d
      then aclint_mtimer_add_regions pl (mtimecmp_addr d) (mtime_size d + mtimecmp_size d) m
      else if mtimecmp_addr d = mtime_addr d + mtime_size d
      then aclint_mtimer_add_regions pl (mtime_addr d) (mtime_size d + mtimecmp_size d) m
      else run_bind (aclint_mtimer_add_regions pl (mtime_addr d) (mtime_size d) m) (\<lambda>rc m.
             if rc \<noteq> 0 then Ret rc m else aclint_mtimer_add_regions pl (mtimecmp_addr d) (mtimecmp_size d) m))"

definition aclint_mtimer_cold_init :: "sbi_plat \<Rightarrow> nat option \<Rightarrow> nat option \<Rightarrow> machine \<Rightarrow> int run" where
  "aclint_mtimer_cold_init pl mt reference m =
     (case mt of
        None \<Rightarrow> Ret SBI_EINVAL m
      | Some p \<Rightarrow>
          (let d = mtimer_obj (m_drv m) p; low = ACLINT_MTIMER_ALIGN - 1
           in if mtime_size d = 0 \<or> mt_hart_count d \<noteq> 0 \<and> mtimecmp_size d = 0 \<or> mtime_addr d AND low \<noteq> 0 \<or> mtime_size d AND low \<noteq> 0 \<or>
                 mtimecmp_addr d AND low \<noteq> 0 \<or> mtimecmp_size d AND low \<noteq> 0 \<or> 128 \<le> unat (mt_first_hartid d) \<or>
                 ACLINT_MTIMER_MAX_HARTS < mt_hart_count d
              then Ret SBI_EINVAL m
              else if (case reference of None \<Rightarrow> False | Some r \<Rightarrow> mtime_freq d \<noteq> mtime_freq (mtimer_obj (m_drv m) r))
              then Ret SBI_EINVAL m
              else let m = aclint_mtimer_set_reference mt reference m;
                       m = upd_mtimer p (\<lambda>x. x\<lparr>time_access := Some (if has_64bit_mmio x then Mtimer_64 else Mtimer_32)\<rparr>) m
                   in case table_fill p (hart_slots (mt_first_hartid d) (mt_hart_count d)) (mtimer_hartid2data (m_drv m)) of
                        None \<Rightarrow> Fault
                      | Some t \<Rightarrow>
                          (let m = upd_drv (\<lambda>v. v\<lparr>mtimer_hartid2data := t\<rparr>) m
                           in run_bind
                                (mtimer_layout pl d m)
                                (\<lambda>rc m. if rc \<noteq> 0 then Ret rc m
                                   else Ret 0 (sbi_timer_set_device (Some \<lparr>timer_freq = mtime_freq d, has_timer_value = True,
                                          has_event_start = True, has_event_stop = True\<rparr>) m)))))"

section \<open>The compare register is never early\<close>

text \<open>
  The value of a 64-bit register after a trace, from the value \<open>v0\<close> before: a write of eight bytes sets it, a write of four bytes sets a half.
\<close>

fun reg64 :: "ulong \<Rightarrow> ulong \<Rightarrow> io_op list \<Rightarrow> ulong" where
  "reg64 a v0 [] = v0"
| "reg64 a v0 (Io_rd n b v # tr) = reg64 a v0 tr"
| "reg64 a v0 (Io_wr n b v # tr) =
     (if n = 8 \<and> b = a then v
      else if n = 4 \<and> b = a then push_bit 32 (drop_bit 32 (reg64 a v0 tr)) OR take_bit 32 v
      else if n = 4 \<and> b = a + 4 then push_bit 32 v OR take_bit 32 (reg64 a v0 tr)
      else reg64 a v0 tr)"

lemma join_halves: "push_bit 32 (drop_bit 32 v) OR take_bit 32 (v :: ulong) = v"
  by (rule bit_word_eqI) (auto simp: bit_simps)

lemma unat_join: "unat (push_bit 32 (ucast (hi :: u32)) OR ucast (lo :: u32) :: ulong) = unat hi * 2 ^ 32 + unat lo"
proof -
  have "push_bit 32 (ucast hi) AND ucast lo = (0 :: ulong)"
    by (rule bit_word_eqI) (auto simp: bit_simps dest: bit_imp_le_length)
  then have "push_bit 32 (ucast hi) OR ucast lo = push_bit 32 (ucast hi) + (ucast lo :: ulong)"
    by (simp add: disjunctive_add_eq_or)
  moreover have "unat (push_bit 32 (ucast hi) :: ulong) = unat hi * 2 ^ 32"
    using unat_less_width [of hi] by (simp add: push_bit_eq_mult unat_mult_lem [THEN iffD1] unat_word_ariths)
  moreover have "unat hi * 2 ^ 32 + unat lo < 2 ^ 64"
    using unat_less_width [of hi] unat_less_width [of lo] by simp
  ultimately show ?thesis by (simp add: unat_add_no_wrap)
qed

lemma high_half_max: "(v :: ulong) \<le> push_bit 32 (drop_bit 32 v) OR take_bit 32 (ucast (- 1 :: u32))"
proof -
  have a: "push_bit 32 (drop_bit 32 v) OR take_bit 32 (ucast (- 1 :: u32)) = push_bit 32 (ucast (ucast (drop_bit 32 v) :: u32)) OR (ucast (- 1 :: u32) :: ulong)"
    by (rule bit_word_eqI) (auto simp: bit_simps dest: bit_imp_le_length)
  have b: "v = push_bit 32 (ucast (ucast (drop_bit 32 v) :: u32)) OR ucast (ucast v :: u32)"
    by (rule bit_word_eqI) (auto simp: bit_simps)
  have "unat (ucast v :: u32) \<le> unat (- 1 :: u32)" using word_order.extremum [of "ucast v :: u32"] by (simp only: word_le_nat_alt)
  then show ?thesis unfolding word_le_nat_alt a by (subst b) (simp add: unat_join)
qed

text \<open>
  C28. Programming a 64-bit compare register by 32-bit writes: it ends with the new value, in three writes, and between them never holds less than both
  the old and the new value, so the timer cannot fire before either of them.
\<close>

theorem mtimecmp_write_never_early:
  "let tr = io_trace s; tr' = io_trace (mtimer_time_wr32 dev True value a s)
   in drop 3 tr' = tr \<and> reg64 a v0 tr' = value \<and>
      list_all (\<lambda>k. min (reg64 a v0 tr) value \<le> reg64 a v0 (drop k tr')) [0, 1, 2]"
proof -
  let ?old = "reg64 a v0 (io_trace s)"
  let ?w1 = "Io_wr 4 a (ucast (- 1 :: u32)) # io_trace s"
  let ?w2 = "Io_wr 4 (a + 4) (ucast (ucast (drop_bit 32 value) :: u32)) # ?w1"
  let ?w3 = "Io_wr 4 a (ucast (ucast value :: u32)) # ?w2"
  have tr: "io_trace (mtimer_time_wr32 dev True value a s) = ?w3" by (simp add: mtimer_time_wr32_def writel_def)
  have r1: "?old \<le> reg64 a v0 ?w1" using high_half_max [of ?old] by simp
  have "reg64 a v0 ?w2 = push_bit 32 (drop_bit 32 value) OR take_bit 32 (ucast (- 1 :: u32))"
    by (rule bit_word_eqI) (auto simp: bit_simps dest: bit_imp_le_length)
  then have r2: "value \<le> reg64 a v0 ?w2" using high_half_max [of "value"] by simp
  have r3: "reg64 a v0 ?w3 = value" by (rule bit_word_eqI) (auto simp: bit_simps dest: bit_imp_le_length)
  from r1 r2 r3 show ?thesis unfolding Let_def tr by (simp add: min.coboundedI1 min.coboundedI2 del: reg64.simps)
qed

section \<open>Reading the time in halves\<close>

text \<open>
  The hardware: the registers hold the halves of a clock that does not go back, and advances by at most \<open>2 ^ 29\<close> from one access to the
  next.
\<close>

lemma one_boundary:
  fixes t :: nat
  assumes "t \<le> t3" "t div 2 ^ 32 \<noteq> t3 div 2 ^ 32" "t3 \<le> t'" "t' \<le> u" "u \<le> t + 2 ^ 32"
  shows "t' div 2 ^ 32 = u div 2 ^ 32"
proof -
  have "t div 2 ^ 32 < t3 div 2 ^ 32" using div_le_mono [OF assms(1), of "2 ^ 32"] assms(2) by simp
  moreover have "t3 div 2 ^ 32 \<le> t' div 2 ^ 32" "t' div 2 ^ 32 \<le> u div 2 ^ 32" using assms by (simp_all only: div_le_mono)
  moreover have "u div 2 ^ 32 \<le> (t + 2 ^ 32) div 2 ^ 32" using assms(5) by (rule div_le_mono)
  then have "u div 2 ^ 32 \<le> t div 2 ^ 32 + 1" by simp
  ultimately show ?thesis by linarith
qed

locale mtime_clock =
  fixes dev :: "'d io_dev" and addr :: ulong and clock :: "'d \<Rightarrow> ulong"
  assumes low: "take_bit 32 (fst (dev_rd dev 4 addr d)) = take_bit 32 (clock d)"
    and high: "take_bit 32 (fst (dev_rd dev 4 (addr + 4) d)) = drop_bit 32 (clock d)"
    and advance: "a \<in> {addr, addr + 4} \<Longrightarrow> clock d \<le> clock (snd (dev_rd dev 4 a d))"
    and steps: "a \<in> {addr, addr + 4} \<Longrightarrow> unat (clock (snd (dev_rd dev 4 a d))) \<le> unat (clock d) + 2 ^ 29"
begin

abbreviation now :: "'d io \<Rightarrow> nat" where "now s \<equiv> unat (clock (io_st s))"

lemma readl_io: "readl dev a s = (v, s') \<Longrightarrow> ucast v = take_bit 32 (fst (dev_rd dev 4 a (io_st s))) \<and> io_st s' = snd (dev_rd dev 4 a (io_st s))"
  by (auto simp: readl_def io_read_def Let_def split: prod.splits intro!: bit_word_eqI simp: bit_simps)

lemma read_low: "readl dev addr s = (lo, s') \<Longrightarrow> unat lo = now s mod 2 ^ 32 \<and> now s \<le> now s' \<and> now s' \<le> now s + 2 ^ 29"
proof -
  assume r: "readl dev addr s = (lo, s')"
  have "unat lo = unat (ucast lo :: ulong)" by simp
  also have "\<dots> = unat (take_bit 32 (clock (io_st s)))" using readl_io [OF r] low by simp
  also have "\<dots> = now s mod 2 ^ 32" by (rule unat_take_bit)
  finally show ?thesis
    using readl_io [OF r] advance [of addr "io_st s"] steps [of addr "io_st s"] by (simp add: word_le_nat_alt)
qed

lemma read_high: "readl dev (addr + 4) s = (hi, s') \<Longrightarrow> unat hi = now s div 2 ^ 32 \<and> now s \<le> now s' \<and> now s' \<le> now s + 2 ^ 29"
proof -
  assume r: "readl dev (addr + 4) s = (hi, s')"
  have "unat hi = unat (ucast hi :: ulong)" by simp
  also have "\<dots> = unat (drop_bit 32 (clock (io_st s)))" using readl_io [OF r] high by simp
  also have "\<dots> = now s div 2 ^ 32" by (subst unat_drop_bit_eq) (rule drop_bit_eq_div)
  finally show ?thesis
    using readl_io [OF r] advance [of "addr + 4" "io_st s"] steps [of "addr + 4" "io_st s"] by (simp add: word_le_nat_alt)
qed

text \<open>One round of the loop: it ends when the clock has not crossed a multiple of \<open>2 ^ 32\<close>, and then gives the time of its middle read.\<close>

lemma rd32_unfold:
  "readl dev (addr + 4) s = (hi, s1) \<Longrightarrow> readl dev addr s1 = (lo, s2) \<Longrightarrow> readl dev (addr + 4) s2 = (again, s3) \<Longrightarrow>
   mtimer_time_rd32 dev addr s = (if hi \<noteq> again then mtimer_time_rd32 dev addr s3 else Some (push_bit 32 (ucast hi) OR ucast lo, s3))"
  by (subst mtimer_time_rd32.simps) simp

lemma round:
  "\<exists>t2 t3 s'. now s \<le> t2 \<and> t2 \<le> t3 \<and> t3 \<le> now s' \<and> t3 \<le> now s + 2 * 2 ^ 29 \<and> now s' \<le> now s + 3 * 2 ^ 29 \<and>
     (if now s div 2 ^ 32 = t3 div 2 ^ 32 then \<exists>v. mtimer_time_rd32 dev addr s = Some (v, s') \<and> unat v = t2
      else mtimer_time_rd32 dev addr s = mtimer_time_rd32 dev addr s')"
proof -
  obtain hi s1 where h: "readl dev (addr + 4) s = (hi, s1)" by fastforce
  obtain lo s2 where l: "readl dev addr s1 = (lo, s2)" by fastforce
  obtain ag s3 where g: "readl dev (addr + 4) s2 = (ag, s3)" by fastforce
  from read_high [OF h] have h': "unat hi = now s div 2 ^ 32" "now s \<le> now s1" "now s1 \<le> now s + 2 ^ 29" by blast+
  from read_low [OF l] have l': "unat lo = now s1 mod 2 ^ 32" "now s1 \<le> now s2" "now s2 \<le> now s1 + 2 ^ 29" by blast+
  from read_high [OF g] have g': "unat ag = now s2 div 2 ^ 32" "now s2 \<le> now s3" "now s3 \<le> now s2 + 2 ^ 29" by blast+
  have eq: "hi = ag \<longleftrightarrow> now s div 2 ^ 32 = now s2 div 2 ^ 32" unfolding h'(1) [symmetric] g'(1) [symmetric] by (rule word_unat_eq_iff)
  have val: "unat (push_bit 32 (ucast hi) OR ucast lo :: ulong) = now s1" if "now s div 2 ^ 32 = now s2 div 2 ^ 32"
  proof -
    have "now s div 2 ^ 32 = now s1 div 2 ^ 32"
      using that div_le_mono [OF h'(2), of "2 ^ 32"] div_le_mono [OF l'(2), of "2 ^ 32"] by (simp only:) 
    then show ?thesis by (simp only: unat_join h'(1) l'(1) div_mult_mod_eq)
  qed
  have bounds: "now s2 \<le> now s + 2 * 2 ^ 29" "now s3 \<le> now s + 3 * 2 ^ 29" using h'(3) l'(3) g'(3) by simp_all
  have res: "if now s div 2 ^ 32 = now s2 div 2 ^ 32 then \<exists>v. mtimer_time_rd32 dev addr s = Some (v, s3) \<and> unat v = now s1
      else mtimer_time_rd32 dev addr s = mtimer_time_rd32 dev addr s3"
    using rd32_unfold [OF h l g] val eq by (cases "hi = ag") simp_all
  from h'(2) l'(2) g'(2) bounds res show ?thesis by blast
qed

lemma rd32_current:
  "\<exists>v s'. mtimer_time_rd32 dev addr s = Some (v, s') \<and> clock (io_st s) \<le> v \<and> v \<le> clock (io_st s')"
proof -
  from round [of s] obtain t2 t3 s' where 1: "now s \<le> t2" "t2 \<le> t3" "t3 \<le> now s'" "t3 \<le> now s + 2 * 2 ^ 29" "now s' \<le> now s + 3 * 2 ^ 29"
    and r1: "if now s div 2 ^ 32 = t3 div 2 ^ 32 then \<exists>v. mtimer_time_rd32 dev addr s = Some (v, s') \<and> unat v = t2
      else mtimer_time_rd32 dev addr s = mtimer_time_rd32 dev addr s'" by blast
  show ?thesis
  proof (cases "now s div 2 ^ 32 = t3 div 2 ^ 32")
    case True
    with r1 obtain v where "mtimer_time_rd32 dev addr s = Some (v, s')" "unat v = t2" by auto
    with 1(1-3) show ?thesis by (simp add: word_le_nat_alt)
  next
    case False
    from round [of s'] obtain u2 u3 s'' where 2: "now s' \<le> u2" "u2 \<le> u3" "u3 \<le> now s''" "u3 \<le> now s' + 2 * 2 ^ 29"
      and r2: "if now s' div 2 ^ 32 = u3 div 2 ^ 32 then \<exists>v. mtimer_time_rd32 dev addr s' = Some (v, s'') \<and> unat v = u2
        else mtimer_time_rd32 dev addr s' = mtimer_time_rd32 dev addr s''" by blast
    have "now s' div 2 ^ 32 = u3 div 2 ^ 32"
      by (rule one_boundary [OF _ False 1(3)]) (use 1 2 in simp_all)
    with r2 obtain v where "mtimer_time_rd32 dev addr s' = Some (v, s'')" "unat v = u2" by auto
    with 1(1-3) 2(1-3) r1 False show ?thesis by (simp add: word_le_nat_alt)
  qed
qed

end

text \<open>
  C29. Reading a running clock by two 32-bit registers returns, and the result is a time that the clock showed during the read.
\<close>

theorem mtimer_rd32_current_time:
  assumes "mtime_clock dev addr clock"
  shows "\<exists>v s'. mtimer_time_rd32 dev addr s = Some (v, s') \<and> clock (io_st s) \<le> v \<and> v \<le> clock (io_st s')"
  by (rule mtime_clock.rd32_current [OF assms])

text \<open>A clock that advances by one with every access.\<close>

definition tick_dev :: "ulong \<Rightarrow> ulong io_dev" where
  "tick_dev addr = \<lparr>dev_rd = (\<lambda>n a t. (if a = addr then t else drop_bit 32 t, if t = - 1 then t else t + 1)), dev_wr = (\<lambda>_ _ _ t. t)\<rparr>"

lemma drop_bit_half: "take_bit 32 (drop_bit 32 d) = drop_bit 32 (d :: ulong)"
  by (rule bit_word_eqI) (auto simp: bit_simps dest: bit_imp_le_length)

interpretation tick: mtime_clock "tick_dev addr" addr "\<lambda>t. t"
proof unfold_locales
  fix d a :: ulong
  have "unat (d + 1) = unat d + 1" if "d \<noteq> - 1"
    using that by (metis Suc_eq_plus1 add_eq_0_iff unatSuc add.commute)
  then show "d \<le> snd (dev_rd (tick_dev addr) 4 a d)" "unat (snd (dev_rd (tick_dev addr) 4 a d)) \<le> unat d + 2 ^ 29"
    by (auto simp: tick_dev_def word_le_nat_alt)
  have "addr + 4 \<noteq> addr" by simp
  then show "take_bit 32 (fst (dev_rd (tick_dev addr) 4 (addr + 4) d)) = drop_bit 32 d"
    using drop_bit_half by (simp add: tick_dev_def)
qed (simp add: tick_dev_def)

theorem mtimer_rd32_current_time_witness:
  "\<exists>v s'. mtimer_time_rd32 (tick_dev 0x200bff8) 0x200bff8 \<lparr>io_st = 0x1ffffffff, io_trace = []\<rparr> = Some (v, s') \<and> 0x1ffffffff \<le> v \<and> v \<le> io_st s'"
  using mtimer_rd32_current_time [OF tick.mtime_clock_axioms, of "0x200bff8" "\<lparr>io_st = 0x1ffffffff, io_trace = []\<rparr>"] by simp

end
