(* ===== verification/Plat_Aclint_Events.thy ===== *)
theory Plat_Aclint_Events
  imports Plat_Aclint Sbi_Domain_Mmio
begin

text \<open>
  What the ACLINT drivers make of the events that the firmware logs: the register of a hart holds what the last event for that hart asks for. The interface
  \<open>event_bank\<close> states what a driver does with one event; the software interrupt device and the timer provide it.
\<close>

section \<open>A bank of registers, one for each hart\<close>

text \<open>
  \<open>demand e\<close> is the hart that an event addresses and the value that it asks for, and \<open>pending\<close> what the last event for a hart asks for.
\<close>

fun pending :: "(dev_event \<Rightarrow> (hartid \<times> ulong) option) \<Rightarrow> hartid \<Rightarrow> dev_event list \<Rightarrow> ulong option \<Rightarrow> ulong option" where
  "pending demand h [] v = v"
| "pending demand h (e # es) v =
     pending demand h es (case demand e of None \<Rightarrow> v | Some (k, x) \<Rightarrow> if k = h then Some x else v)"

locale event_bank =
  fixes width :: nat and ok :: "machine \<Rightarrow> bool" and harts :: "hartid set" and reg :: "hartid \<Rightarrow> ulong"
    and act :: "dev_event \<Rightarrow> machine \<Rightarrow> machine" and demand :: "dev_event \<Rightarrow> (hartid \<times> ulong) option"
  assumes reg_inj: "ok m \<Longrightarrow> inj_on reg harts"
    and act_other: "demand e = None \<Longrightarrow> act e m = m"
    and act_trace: "ok m \<Longrightarrow> demand e = Some (h, v) \<Longrightarrow> h \<in> harts \<Longrightarrow> m_trace (act e m) = Io_wr width (reg h) v # m_trace m"
    and act_ok: "ok m \<Longrightarrow> demand e = Some (h, v) \<Longrightarrow> h \<in> harts \<Longrightarrow> ok (act e m)"
begin

lemma events_pending:
  assumes "ok m" "h \<in> harts" "\<forall>e \<in> set es. \<forall>k v. demand e = Some (k, v) \<longrightarrow> k \<in> harts"
  shows "reg_val width (reg h) (m_trace (fold act es m)) = pending demand h es (reg_val width (reg h) (m_trace m))"
  using assms(1,3)
proof (induction es arbitrary: m)
  case (Cons e es)
  show ?case
  proof (cases "demand e")
    case None
    then show ?thesis using Cons by (simp add: act_other)
  next
    case (Some kv)
    obtain k v where kv: "kv = (k, v)" by (cases kv)
    with Some Cons.prems(2) have k: "demand e = Some (k, v)" "k \<in> harts" by simp_all
    have "reg k = reg h \<longleftrightarrow> k = h" using reg_inj [OF Cons.prems(1)] k(2) assms(2) by (auto dest: inj_onD)
    then have "reg_val width (reg h) (m_trace (act e m)) = (if k = h then Some v else reg_val width (reg h) (m_trace m))"
      by (simp add: act_trace [OF Cons.prems(1) k])
    then show ?thesis using Cons.IH [OF act_ok [OF Cons.prems(1) k]] Cons.prems(2) k by simp
  qed
qed simp

end

section \<open>Tables of harts\<close>

lemma table_fill_Some:
  "table_fill p is t = Some t' \<Longrightarrow> length t' = length t \<and> (\<forall>i \<in> set is. i < length t) \<and>
     (\<forall>i < length t. t' ! i = (if i \<in> set is then Some p else t ! i))"
proof (induction "is" arbitrary: t)
  case (Cons i "is")
  then have "i < length t" "table_fill p is (t[i := Some p]) = Some t'" by (auto split: if_splits)
  with Cons.IH [of "t[i := Some p]"] show ?case by (auto simp: nth_list_update)
qed simp

text \<open>The harts of a device, and a table in which they have their entries.\<close>

definition slot_range :: "u32 \<Rightarrow> u32 \<Rightarrow> hartid set" where
  "slot_range f n = {unat f..<unat f + unat n}"

definition table_serves :: "nat \<Rightarrow> u32 \<Rightarrow> u32 \<Rightarrow> nat option list \<Rightarrow> bool" where
  "table_serves p f n t \<longleftrightarrow> length t = 128 \<and> unat f + unat n \<le> 128 \<and> (\<forall>h \<in> slot_range f n. t ! h = Some p)"

lemma table_servesD:
  "table_serves p f n t \<Longrightarrow> h \<in> slot_range f n \<Longrightarrow> unat f \<le> h \<and> h < 128 \<and> h < length t \<and> t ! h = Some p"
  by (auto simp: table_serves_def slot_range_def)

lemma hart_slots_set:
  assumes "unat n \<le> 4095" "unat f < 128"
  shows "set (hart_slots f n) = slot_range f n"
proof -
  have "unat (f + of_nat i) = unat f + i" if "i < unat n" for i
    using assms that by (subst unat_add_no_wrap) (simp_all add: unat_of_nat)
  then have "set (hart_slots f n) = (\<lambda>i. unat f + i) ` {0..<unat n}" by (auto simp: hart_slots_def)
  then show ?thesis by (simp add: add.commute slot_range_def)
qed

lemma fill_serves:
  assumes "table_fill p (hart_slots f n) t = Some t'" "unat n \<le> 4095" "unat f < 128" "length t = 128"
  shows "table_serves p f n t'"
proof -
  note s = table_fill_Some [OF assms(1), unfolded hart_slots_set [OF assms(2,3)] assms(4)]
  have "unat f + unat n \<le> 128"
  proof (cases "unat n = 0")
    case False
    then have "unat f + (unat n - 1) \<in> slot_range f n" by (auto simp: slot_range_def)
    with s have "unat f + (unat n - 1) < 128" by blast
    with False show ?thesis by simp
  qed (use assms(3) in simp)
  with s show ?thesis by (auto simp: table_serves_def)
qed

lemma table_fill_total: "\<forall>i \<in> set is. i < length t \<Longrightarrow> \<exists>t'. table_fill p is t = Some t'"
  by (induction "is" arbitrary: t) auto

lemma slots_fill:
  assumes "unat f + unat n \<le> 128" "length t = 128" "unat n \<le> 4095" "unat f < 128"
  shows "\<exists>t'. table_fill p (hart_slots f n) t = Some t'"
  using assms by (intro table_fill_total) (auto simp: hart_slots_set slot_range_def)

lemma slot_index:
  assumes "unat (f :: u32) \<le> h" "h < 128"
  shows "unat (of_nat h :: u32) = h" "ucast (of_nat h - f) = (of_nat (h - unat f) :: ulong)"
proof -
  show u: "unat (of_nat h :: u32) = h" using assms(2) by (simp add: unat_of_nat)
  have "unat (of_nat h - f) = h - unat f" using assms(1) u by (subst unat_sub) (simp_all add: word_le_nat_alt)
  then show "ucast (of_nat h - f) = (of_nat (h - unat f) :: ulong)" by (metis of_nat_unat)
qed

lemma slot_address_inj:
  assumes "table_serves p f n t" "0 < k" "k \<le> 8"
  shows "inj_on (\<lambda>h. a + of_nat (k * (h - unat f)) :: ulong) (slot_range f n)"
proof (rule inj_onI)
  fix x y assume x: "x \<in> slot_range f n" and y: "y \<in> slot_range f n" and eq: "a + of_nat (k * (x - unat f)) = (a + of_nat (k * (y - unat f)) :: ulong)"
  note b = table_servesD [OF assms(1) x] table_servesD [OF assms(1) y]
  have lim: "k * (z - unat f) < 2 ^ 64" if "z < 128" for z
  proof -
    have "k * (z - unat f) \<le> 8 * 128" using that assms(3) by (intro mult_le_mono) simp_all
    then show ?thesis by simp
  qed
  from eq have "unat (of_nat (k * (x - unat f)) :: ulong) = unat (of_nat (k * (y - unat f)) :: ulong)" by (simp del: of_nat_mult)
  then have "k * (x - unat f) = k * (y - unat f)" using lim b by (simp add: unat_of_nat del: of_nat_mult)
  with assms(2) b show "x = y" by auto
qed

section \<open>The software interrupt device\<close>

definition msip :: "aclint_mswi_data \<Rightarrow> hartid \<Rightarrow> ulong" where
  "msip d h = mswi_addr d + of_nat (4 * (h - unat (mswi_first_hartid d)))"

definition mswi_ok :: "nat \<Rightarrow> aclint_mswi_data \<Rightarrow> machine \<Rightarrow> bool" where
  "mswi_ok p d m \<longleftrightarrow>
     mswi_obj (m_drv m) p = d \<and> table_serves p (mswi_first_hartid d) (mswi_hart_count d) (mswi_hartid2data (m_drv m))"

fun mswi_event :: "hw io_dev \<Rightarrow> dev_event \<Rightarrow> machine \<Rightarrow> machine" where
  "mswi_event dev (Ev_ipi_send h) m = mswi_ipi_send dev (of_nat h) m"
| "mswi_event dev (Ev_ipi_clear h) m = mswi_ipi_clear dev (of_nat h) m"
| "mswi_event dev _ m = m"

fun ipi_demand :: "dev_event \<Rightarrow> (hartid \<times> ulong) option" where
  "ipi_demand (Ev_ipi_send h) = Some (h, 1)"
| "ipi_demand (Ev_ipi_clear h) = Some (h, 0)"
| "ipi_demand _ = None"

lemma mswi_write_eq:
  assumes "mswi_ok p d m" "h \<in> slot_range (mswi_first_hartid d) (mswi_hart_count d)"
  shows "mswi_write dev v (of_nat h) m = upd_io (writel dev v (msip d h)) m"
proof -
  have d: "mswi_obj (m_drv m) p = d" and t: "table_serves p (mswi_first_hartid d) (mswi_hart_count d) (mswi_hartid2data (m_drv m))"
    using assms(1) by (simp_all add: mswi_ok_def)
  from table_servesD [OF t assms(2)] have h: "unat (mswi_first_hartid d) \<le> h" "h < 128" "mswi_hartid2data (m_drv m) ! h = Some p" by blast+
  show ?thesis using h(2,3) d slot_index [OF h(1,2)] by (simp add: mswi_write_def msip_def Let_def)
qed

lemma mswi_event_write:
  "ipi_demand e = Some (h, v) \<Longrightarrow> \<exists>x. mswi_event dev e m = mswi_write dev x (of_nat h) m \<and> v = ucast x"
  by (cases e) (auto simp: mswi_ipi_send_def mswi_ipi_clear_def)

interpretation mswi_bank: event_bank 4 "mswi_ok p d" "slot_range (mswi_first_hartid d) (mswi_hart_count d)" "msip d" "mswi_event dev" ipi_demand
  for p d dev
proof unfold_locales
  fix m e h v
  show "inj_on (msip d) (slot_range (mswi_first_hartid d) (mswi_hart_count d))" if "mswi_ok p d m"
    using that slot_address_inj [of p "mswi_first_hartid d" "mswi_hart_count d" _ 4 "mswi_addr d"] by (auto simp: mswi_ok_def msip_def [abs_def])
  show "mswi_event dev e m = m" if "ipi_demand e = None" using that by (cases e) auto
  assume a: "mswi_ok p d m" "ipi_demand e = Some (h, v)" "h \<in> slot_range (mswi_first_hartid d) (mswi_hart_count d)"
  obtain x where x: "mswi_event dev e m = upd_io (writel dev x (msip d h)) m" "v = ucast x"
    using mswi_event_write [OF a(2), of dev m] mswi_write_eq [OF a(1,3)] by auto
  show "m_trace (mswi_event dev e m) = Io_wr 4 (msip d h) v # m_trace m" "mswi_ok p d (mswi_event dev e m)"
    using a(1) x by (simp_all add: upd_io_writel mswi_ok_def del: m_trace_upd_io)
qed

lemma mswi_cold_init_ready:
  assumes "aclint_mswi_cold_init pl (Some p) m = Ret 0 m'" and "length (mswi_hartid2data (m_drv m)) = 128" and "d = mswi_obj (m_drv m) p"
  shows "mswi_ok p d m' \<and> m_trace m' = m_trace m \<and> ACLINT_MSWI_SIZE \<le> mswi_size d"
proof -
  from assms(1) obtain t where g: "ACLINT_MSWI_SIZE \<le> mswi_size d" "unat (mswi_first_hartid d) < 128" "mswi_hart_count d \<le> ACLINT_MSWI_MAX_HARTS"
    and t: "table_fill p (hart_slots (mswi_first_hartid d) (mswi_hart_count d)) (mswi_hartid2data (m_drv m)) = Some t"
    and m': "m_drv m' = (m_drv m)\<lparr>mswi_hartid2data := t\<rparr>" unfolding assms(3)
    by (auto simp: aclint_mswi_cold_init_def Let_def run_regions_def sbi_ipi_set_device_def not_le not_less split: if_splits option.splits prod.splits)
  have "table_serves p (mswi_first_hartid d) (mswi_hart_count d) t"
    using fill_serves [OF t] g(2,3) assms(2) by (simp add: word_le_nat_alt)
  with g m' assms(3) show ?thesis by (simp add: mswi_ok_def m_trace_def)
qed

text \<open>
  C26. The software interrupt device carries out what the firmware logs: after the cold initialisation has succeeded, and any sequence of sends
  and clears for harts of the device, the register of each hart holds what the last of the events for that hart asks for, so
  an interrupt reaches its target and no other hart. The register lies inside the device.
\<close>

theorem mswi_events_reach_target:
  assumes "aclint_mswi_cold_init pl (Some p) m = Ret 0 m'" and "length (mswi_hartid2data (m_drv m)) = 128" and "d = mswi_obj (m_drv m) p"
    and "h \<in> slot_range (mswi_first_hartid d) (mswi_hart_count d)"
    and "\<forall>e \<in> set es. \<forall>k v. ipi_demand e = Some (k, v) \<longrightarrow> k \<in> slot_range (mswi_first_hartid d) (mswi_hart_count d)"
  shows "reg_val 4 (msip d h) (m_trace (fold (mswi_event dev) es m')) = pending ipi_demand h es (reg_val 4 (msip d h) (m_trace m)) \<and>
    unat (msip d h - mswi_addr d) + 4 \<le> unat (mswi_size d)"
proof -
  from mswi_cold_init_ready [OF assms(1-3)] have ok: "mswi_ok p d m'" and tr: "m_trace m' = m_trace m" and sz: "ACLINT_MSWI_SIZE \<le> mswi_size d" by blast+
  have h: "h < 128" using table_servesD assms(4) ok by (auto simp: mswi_ok_def)
  have "unat (msip d h - mswi_addr d) = 4 * (h - unat (mswi_first_hartid d))"
    using h by (simp add: msip_def unat_of_nat del: of_nat_mult)
  moreover have "unat (ACLINT_MSWI_SIZE :: ulong) \<le> unat (mswi_size d)" using sz by (simp only: word_le_nat_alt)
  then have "0x4000 \<le> unat (mswi_size d)" by simp
  ultimately have "unat (msip d h - mswi_addr d) + 4 \<le> unat (mswi_size d)" using h by linarith
  with mswi_bank.events_pending [OF ok assms(4,5), of dev] tr show ?thesis by simp
qed

text \<open>The device of the Ariane platform, with the firmware and the whole address space in the table of regions.\<close>

definition run_rc :: "'a run \<Rightarrow> 'a option" where
  "run_rc r = (case r of Ret v m \<Rightarrow> Some v | _ \<Rightarrow> None)"

lemma run_rc_Ret: "run_rc r = Some v \<Longrightarrow> \<exists>m. r = Ret v m"
  by (cases r) (auto simp: run_rc_def)

definition mswi_example :: aclint_mswi_data where
  "mswi_example = \<lparr>mswi_addr = 0x2000000, mswi_size = 0x4000, mswi_first_hartid = 0, mswi_hart_count = 2\<rparr>"

definition mswi_machine :: machine where
  "mswi_machine = machine_boot\<lparr>m_dom := root_table_example, m_drv := drv_boot\<lparr>mswi_obj := (\<lambda>_. mswi_example)\<rparr>\<rparr>"

lemma mswi_example_init: "run_rc (aclint_mswi_cold_init plat_example (Some 0) mswi_machine) = Some 0"
  by code_simp

theorem mswi_events_reach_target_witness:
  "\<exists>m'. aclint_mswi_cold_init plat_example (Some 0) mswi_machine = Ret 0 m' \<and>
     reg_val 4 0x2000004 (m_trace (fold (mswi_event (p_dev plat_example)) [Ev_ipi_send 1, Ev_ipi_clear 0, Ev_wfi 0] m')) = Some 1"
proof -
  from run_rc_Ret [OF mswi_example_init] obtain m' where m': "aclint_mswi_cold_init plat_example (Some 0) mswi_machine = Ret 0 m'" ..
  have h: "length (mswi_hartid2data (m_drv mswi_machine)) = 128" "mswi_example = mswi_obj (m_drv mswi_machine) 0"
    "msip mswi_example 1 = 0x2000004" "0 \<in> slot_range 0 2" "1 \<in> slot_range 0 2"
    "mswi_first_hartid mswi_example = 0" "mswi_hart_count mswi_example = 2"
    by (simp_all add: msip_def mswi_example_def mswi_machine_def drv_boot_def slot_range_def)
  show ?thesis
    using mswi_events_reach_target [OF m' h(1,2), of 1 "[Ev_ipi_send 1, Ev_ipi_clear 0, Ev_wfi 0]" "p_dev plat_example"] m' h(3-) by simp
qed

section \<open>The timer\<close>

text \<open>The state that a call leaves, or the old one when the call does not return.\<close>

definition run_state :: "machine \<Rightarrow> 'a run \<Rightarrow> machine" where
  "run_state m r = (case r of Ret v m' \<Rightarrow> m' | _ \<Rightarrow> m)"

definition mtimecmp :: "aclint_mtimer_data \<Rightarrow> hartid \<Rightarrow> ulong" where
  "mtimecmp d h = mtimecmp_addr d + of_nat (8 * (h - unat (mt_first_hartid d)))"

definition mtimer_ok :: "nat \<Rightarrow> aclint_mtimer_data \<Rightarrow> machine \<Rightarrow> bool" where
  "mtimer_ok p d m \<longleftrightarrow> mtimer_obj (m_drv m) p = d \<and> time_access d = Some Mtimer_64 \<and>
     table_serves p (mt_first_hartid d) (mt_hart_count d) (mtimer_hartid2data (m_drv m))"

fun mtimer_event :: "hw io_dev \<Rightarrow> dev_event \<Rightarrow> machine \<Rightarrow> machine" where
  "mtimer_event dev (Ev_timer_start h t) m = run_state m (mtimer_event_start dev h t m)"
| "mtimer_event dev (Ev_timer_stop h) m = run_state m (mtimer_event_stop dev h m)"
| "mtimer_event dev _ m = m"

fun timer_demand :: "dev_event \<Rightarrow> (hartid \<times> ulong) option" where
  "timer_demand (Ev_timer_start h t) = Some (h, t)"
| "timer_demand (Ev_timer_stop h) = Some (h, - 1)"
| "timer_demand _ = None"

lemma mtimer_event_write:
  assumes "mtimer_ok p d m" "h \<in> slot_range (mt_first_hartid d) (mt_hart_count d)"
  shows "mtimer_event_start dev h t m = Ret () (upd_io (writeq dev t (mtimecmp d h)) m)"
proof -
  have d: "mtimer_obj (m_drv m) p = d" "time_access d = Some Mtimer_64"
    and t: "table_serves p (mt_first_hartid d) (mt_hart_count d) (mtimer_hartid2data (m_drv m))" using assms(1) by (simp_all add: mtimer_ok_def)
  from table_servesD [OF t assms(2)] have h: "unat (mt_first_hartid d) \<le> h" "h < 128" "mtimer_of h m = Some (Some p)" by (auto simp: mtimer_of_def)
  show ?thesis using h(3) d slot_index [OF h(1,2)]
    by (simp add: mtimer_event_start_def Let_def mt_time_wr_def mtimer_time_wr64_def [abs_def] mtimecmp_slot_def mtimecmp_def)
qed

lemma upd_io_writeq: "m_trace (upd_io (writeq dev v a) m) = Io_wr 8 a v # m_trace m"
  by (simp add: writeq_def m_trace_def take_bit_word_eq_self)

interpretation mtimer_bank: event_bank 8 "mtimer_ok p d" "slot_range (mt_first_hartid d) (mt_hart_count d)" "mtimecmp d" "mtimer_event dev" timer_demand
  for p d dev
proof unfold_locales
  fix m e h v
  show "inj_on (mtimecmp d) (slot_range (mt_first_hartid d) (mt_hart_count d))" if "mtimer_ok p d m"
    using that slot_address_inj [of p "mt_first_hartid d" "mt_hart_count d" _ 8 "mtimecmp_addr d"] by (auto simp: mtimer_ok_def mtimecmp_def [abs_def])
  show "mtimer_event dev e m = m" if "timer_demand e = None" using that by (cases e) auto
  assume a: "mtimer_ok p d m" "timer_demand e = Some (h, v)" "h \<in> slot_range (mt_first_hartid d) (mt_hart_count d)"
  have x: "mtimer_event dev e m = upd_io (writeq dev v (mtimecmp d h)) m"
    using a(2) mtimer_event_write [OF a(1,3), of dev v] by (cases e) (auto simp: run_state_def mtimer_event_stop_def)
  show "m_trace (mtimer_event dev e m) = Io_wr 8 (mtimecmp d h) v # m_trace m" "mtimer_ok p d (mtimer_event dev e m)"
    using a(1) x by (simp_all add: upd_io_writeq mtimer_ok_def del: m_trace_upd_io)
qed

lemma mtimer_cold_init_ready:
  assumes "aclint_mtimer_cold_init pl (Some p) None m = Ret 0 m'" "length (mtimer_hartid2data (m_drv m)) = 128" "has_64bit_mmio (mtimer_obj (m_drv m) p)"
  shows "mtimer_ok p ((mtimer_obj (m_drv m) p)\<lparr>time_access := Some Mtimer_64\<rparr>) m' \<and> m_trace m' = m_trace m"
proof -
  let ?d = "mtimer_obj (m_drv m) p"
  have layout: "m_drv m2 = m_drv m1" if "mtimer_layout pl d m1 = Ret rc m2" for d m1 rc m2
    using that by (auto simp: mtimer_layout_def aclint_mtimer_add_regions_def run_regions_def split: if_splits option.splits prod.splits run.splits)
  have dev: "m_drv (sbi_timer_set_device x m1) = m_drv m1" for x m1 by (auto simp: sbi_timer_set_device_def Let_def split: option.split)
  from assms(1) obtain t where g: "unat (mt_first_hartid ?d) < 128" "mt_hart_count ?d \<le> ACLINT_MTIMER_MAX_HARTS"
    and t: "table_fill p (hart_slots (mt_first_hartid ?d) (mt_hart_count ?d)) (mtimer_hartid2data (m_drv m)) = Some t"
    and m': "m_drv m' = (m_drv m)\<lparr>mtimer_obj := (mtimer_obj (m_drv m))(p := ?d\<lparr>time_access := Some Mtimer_64\<rparr>), mtimer_hartid2data := t\<rparr>"
    using assms(3)
    by (auto simp: aclint_mtimer_cold_init_def Let_def aclint_mtimer_set_reference_def upd_mtimer_def not_le not_less dev run_bind_eq_Ret
        split: if_splits option.splits run.splits dest!: layout)
  have "table_serves p (mt_first_hartid ?d) (mt_hart_count ?d) t" using fill_serves [OF t] g assms(2) by (simp add: word_le_nat_alt)
  with m' show ?thesis by (simp add: mtimer_ok_def m_trace_def)
qed


text \<open>Initialisation of the timer of a hart that has its entry in the table.\<close>

lemma mtimer_warm_init_ok:
  assumes "mtimer_ok p d m" "h \<in> slot_range (mt_first_hartid d) (mt_hart_count d)" "time_delta_reference d = None"
  shows "aclint_mtimer_warm_init dev h m = Ret 0 (upd_io (writeq dev (- 1) (mtimecmp d h)) m)"
proof -
  have d: "mtimer_obj (m_drv m) p = d" "time_access d = Some Mtimer_64"
    and t: "table_serves p (mt_first_hartid d) (mt_hart_count d) (mtimer_hartid2data (m_drv m))" using assms(1) by (simp_all add: mtimer_ok_def)
  from table_servesD [OF t assms(2)] have h: "unat (mt_first_hartid d) \<le> h" "h < 128" "mtimer_of h m = Some (Some p)" by (auto simp: mtimer_of_def)
  show ?thesis using h(3) d slot_index [OF h(1,2)] assms(3)
    by (simp add: aclint_mtimer_warm_init_def aclint_mtimer_sync_def Let_def mt_time_wr_def mtimer_time_wr64_def [abs_def] mtimecmp_slot_def mtimecmp_def)
qed

text \<open>
  C27. The timer carries out what the firmware logs: after its initialisation on a hart has succeeded, and any sequence of starts and stops of events for harts of the
  device, the compare register of each hart holds the time that the last of the events for that hart asks for; until the first
  such event the hart that was initialised has no timer interrupt to expect.
\<close>

theorem mtimer_events_reach_target:
  assumes "aclint_mtimer_cold_init pl (Some p) None m = Ret 0 m1" and "length (mtimer_hartid2data (m_drv m)) = 128" and "d = mtimer_obj (m_drv m) p"
    and "has_64bit_mmio d" and "time_delta_reference d = None" and "h \<in> slot_range (mt_first_hartid d) (mt_hart_count d)"
    and "k \<in> slot_range (mt_first_hartid d) (mt_hart_count d)"
    and "\<forall>e \<in> set es. \<forall>k v. timer_demand e = Some (k, v) \<longrightarrow> k \<in> slot_range (mt_first_hartid d) (mt_hart_count d)"
  shows "\<exists>m2. aclint_mtimer_warm_init dev h m1 = Ret 0 m2 \<and>
    reg_val 8 (mtimecmp d k) (m_trace (fold (mtimer_event dev) es m2)) =
      pending timer_demand k es (if k = h then Some (- 1) else reg_val 8 (mtimecmp d k) (m_trace m))"
proof -
  let ?d = "d\<lparr>time_access := Some Mtimer_64\<rparr>"
  from mtimer_cold_init_ready [OF assms(1,2)] assms(3,4) have ok: "mtimer_ok p ?d m1" and tr: "m_trace m1 = m_trace m" by simp_all
  let ?m = "upd_io (writeq dev (- 1) (mtimecmp ?d h)) m1"
  have w: "aclint_mtimer_warm_init dev h m1 = Ret 0 ?m" using assms(5,6) by (intro mtimer_warm_init_ok [OF ok]) simp_all
  have ok': "mtimer_ok p ?d ?m" using ok by (simp add: mtimer_ok_def)
  have same: "mtimecmp ?d = mtimecmp d" by (simp add: mtimecmp_def fun_eq_iff)
  have "inj_on (mtimecmp d) (slot_range (mt_first_hartid d) (mt_hart_count d))" using mtimer_bank.reg_inj [OF ok] same by simp
  then have "mtimecmp d h = mtimecmp d k \<longleftrightarrow> h = k" using assms(6,7) by (auto dest: inj_onD)
  then have "reg_val 8 (mtimecmp d k) (m_trace ?m) = (if k = h then Some (- 1) else reg_val 8 (mtimecmp d k) (m_trace m))"
    by (auto simp: upd_io_writeq same tr simp del: m_trace_upd_io)
  moreover have "reg_val 8 (mtimecmp d k) (m_trace (fold (mtimer_event dev) es ?m)) = pending timer_demand k es (reg_val 8 (mtimecmp d k) (m_trace ?m))"
    using mtimer_bank.events_pending [OF ok', of k es dev] assms(7,8) same by simp
  ultimately show ?thesis using w by simp
qed

text \<open>A timer with one page of registers.\<close>

definition mtimer_example :: aclint_mtimer_data where
  "mtimer_example = \<lparr>mtime_freq = 1000000, mtime_addr = 0x2004ff8, mtime_size = 8, mtimecmp_addr = 0x2004000, mtimecmp_size = 0xff8,
     mt_first_hartid = 0, mt_hart_count = 2, has_64bit_mmio = True, has_shared_mtime = False, time_delta_reference = None,
     time_delta_computed = 0, time_access = None\<rparr>"

definition mtimer_machine :: machine where
  "mtimer_machine = machine_boot\<lparr>m_dom := root_table_example, m_drv := drv_boot\<lparr>mtimer_obj := (\<lambda>_. mtimer_example)\<rparr>\<rparr>"

lemma mtimer_example_init: "run_rc (aclint_mtimer_cold_init plat_example (Some 0) None mtimer_machine) = Some 0"
  by code_simp

theorem mtimer_events_reach_target_witness:
  "\<exists>m1 m2. aclint_mtimer_cold_init plat_example (Some 0) None mtimer_machine = Ret 0 m1 \<and>
     aclint_mtimer_warm_init (p_dev plat_example) 0 m1 = Ret 0 m2 \<and>
     reg_val 8 0x2004008 (m_trace (fold (mtimer_event (p_dev plat_example)) [Ev_timer_start 1 500, Ev_timer_stop 0, Ev_wfi 0] m2)) = Some 500"
proof -
  let ?es = "[Ev_timer_start 1 500, Ev_timer_stop 0, Ev_wfi 0]"
  from run_rc_Ret [OF mtimer_example_init] obtain m1 where m1: "aclint_mtimer_cold_init plat_example (Some 0) None mtimer_machine = Ret 0 m1" ..
  have h: "length (mtimer_hartid2data (m_drv mtimer_machine)) = 128" "mtimer_example = mtimer_obj (m_drv mtimer_machine) 0"
    "has_64bit_mmio mtimer_example" "time_delta_reference mtimer_example = None"
    "0 \<in> slot_range (mt_first_hartid mtimer_example) (mt_hart_count mtimer_example)"
    "1 \<in> slot_range (mt_first_hartid mtimer_example) (mt_hart_count mtimer_example)" "mtimecmp mtimer_example 1 = 0x2004008"
    by (simp_all add: mtimecmp_def mtimer_example_def mtimer_machine_def drv_boot_def slot_range_def)
  then have es: "\<forall>e \<in> set ?es. \<forall>k v. timer_demand e = Some (k, v) \<longrightarrow> k \<in> slot_range (mt_first_hartid mtimer_example) (mt_hart_count mtimer_example)" by simp
  show ?thesis using mtimer_events_reach_target [OF m1 h(1-6) es, of "p_dev plat_example"] m1 h(7) by auto
qed

end
