(* ===== verification/Plat_Aclint_Regions.thy ===== *)
theory Plat_Aclint_Regions
  imports Plat_Aclint_Events
begin

text \<open>
  The cold initialisation of the ACLINT devices and the root domain: the loops that add the regions of the devices end, and when they
  succeed S- and U-mode have lost all access to the registers.
\<close>

section \<open>The devices are closed to the supervisor\<close>

lemma memregion_init_aligned:
  assumes "2 ^ k dvd unat addr" "0 < sz" "unat sz \<le> 2 ^ k" "unat addr + 2 ^ k < 2 ^ 64" "k < 64"
  shows "sbi_domain_memregion_init addr sz f = \<lparr>mr_order = log2roundup sz, mr_base = addr, mr_flags = f\<rparr> \<and> log2roundup sz \<le> k"
proof -
  let ?o = "log2roundup sz"
  have o: "?o \<le> k" using log2roundup_least [of k sz] assms(3) by (meson leD not_le_imp_less)
  then have p: "(2 :: nat) ^ ?o \<le> 2 ^ k" by (simp add: power_increasing)
  then have below: "unat addr + 2 ^ ?o < 2 ^ 64" using assms(4) by linarith
  have d: "2 ^ ?o dvd unat addr" using assms(1) o le_imp_power_dvd dvd_trans by blast
  have al: "addr AND (BIT ?o - 1) = 0" using d o assms(5) by (simp add: BIT_mask aligned_iff)
  have "addr AND NOT (BIT ?o - 1) = addr"
  proof -
    have "addr = (addr AND (BIT ?o - 1)) OR (addr AND NOT (BIT ?o - 1))" by (rule bit_word_eqI) (auto simp: bit_simps)
    with al show ?thesis by simp
  qed
  moreover have e: "unat (addr + BIT ?o) = unat addr + 2 ^ ?o"
    using below o assms(5) by (subst unat_add_no_wrap) (simp_all add: unat_BIT)
  moreover have s: "unat sz \<le> 2 ^ ?o" by (rule log2roundup_upper)
  moreover have "unat (addr + sz - 1) = unat addr + unat sz - 1"
  proof -
    have "0 < unat sz" using assms(2) by (simp add: word_less_nat_alt)
    moreover have "unat (addr + sz) = unat addr + unat sz" using below s by (intro unat_add_no_wrap) simp
    ultimately show ?thesis by (simp add: unat_sub word_le_nat_alt)
  qed
  moreover have "0 < unat sz" using assms(2) by (simp add: word_less_nat_alt)
  moreover have "?o < 64" using o assms(5) by simp
  ultimately have "memregion_loop addr sz ?o = (addr, ?o)"
    by (subst memregion_loop.simps) (auto simp: Let_def word_less_nat_alt word_le_nat_alt)
  with o show ?thesis by (simp add: sbi_domain_memregion_init_def)
qed

definition span :: "nat \<Rightarrow> nat \<Rightarrow> ulong set" where
  "span lo hi = {x. lo \<le> unat x \<and> unat x < hi}"

lemma in_span: "x \<in> span lo hi \<longleftrightarrow> lo \<le> unat x \<and> unat x < hi"
  by (simp add: span_def)

lemma span_empty: "hi \<le> lo \<Longrightarrow> span lo hi = {}"
  by (auto simp: span_def)

lemma span_split: "mid \<le> mid' \<or> hi \<le> mid' \<Longrightarrow> span lo hi \<subseteq> span lo mid' \<union> span mid hi"
  by (auto simp: span_def)

lemma add_block:
  assumes "root_ok s" "2 ^ k dvd unat a" "2 \<le> unat sz" "unat sz \<le> 2 ^ k" "unat a + 2 ^ k < 2 ^ 64" "k < 64"
  shows "\<exists>rc s'. sbi_domain_root_add_memregion hart_invalid (Some (sbi_domain_memregion_init a sz SBI_DOMAIN_MEMREGION_MMIO)) s = Some (rc, s') \<and>
    (rc = 0 \<longrightarrow> root_ok s' \<and> denied (root_table s) \<union> span (unat a) (unat a + unat sz) \<subseteq> denied (root_table s'))"
proof -
  let ?r = "sbi_domain_memregion_init a sz SBI_DOMAIN_MEMREGION_MMIO"
  have pos: "0 < sz" using assms(3) by (simp add: word_less_nat_alt)
  note r = memregion_init_aligned [OF assms(2) pos assms(4-6), of SBI_DOMAIN_MEMREGION_MMIO]
  have "SBI_DOMAIN_MEMREGION_MMIO AND 7 = (0 :: ulong)" by code_simp
  moreover have "log2roundup sz \<noteq> 0" using log2roundup_upper [of sz] assms(3) by (cases "log2roundup sz = 0") auto
  ultimately have ok: "mr_flags ?r AND 7 = 0" "mr_order ?r \<noteq> 0" "mr_order ?r < 64" using r assms(6) by auto
  have "region_contains ?r x" if "is_region_valid ?r" "x \<in> span (unat a) (unat a + unat sz)" for x
    using that region_contains_iff [OF that(1) ok(3), of x] r log2roundup_upper [of sz] by (simp add: in_span)
  then show ?thesis using root_add_ok [OF assms(1) ok, of hart_invalid] by blast
qed

lemma cover_step: "D0 \<union> S1 \<subseteq> D1 \<Longrightarrow> D1 \<union> S2 \<subseteq> D' \<Longrightarrow> S \<subseteq> S1 \<union> S2 \<Longrightarrow> D0 \<union> S \<subseteq> D'"
  by blast

lemma mswi_regions_ok:
  assumes "root_ok s" "0x1000 dvd unat addr" "0x1000 dvd unat pos" "unat sz mod 0x1000 \<noteq> 1" "unat addr + unat sz + 0x1000 < 2 ^ 64"
  shows "\<exists>rc s'. mswi_add_regions hart_invalid addr sz pos s = Some (Some (rc, s')) \<and>
    (rc = 0 \<longrightarrow> root_ok s' \<and> denied (root_table s) \<union> span (unat addr + unat pos) (unat addr + unat sz) \<subseteq> denied (root_table s'))"
  using assms(1,3)
proof (induction "unat sz - unat pos" arbitrary: pos s rule: less_induct)
  case less
  show ?case
  proof (cases "pos < sz")
    case False
    then show ?thesis using less.prems by (subst mswi_add_regions.simps) (simp add: word_less_nat_alt span_empty)
  next
    case True
    then have lt: "unat pos < unat sz" by (simp add: word_less_nat_alt)
    have a: "unat (addr + pos) = unat addr + unat pos" using lt assms(5) by (intro unat_add_no_wrap) simp
    have n: "unat (pos + 0x1000) = unat pos + 0x1000" using lt assms(5) by (subst unat_add_no_wrap) simp_all
    have d: "unat (sz - pos) = unat sz - unat pos" using True by (simp add: unat_sub)
    define rs where "rs = (if sz - pos < ACLINT_MSWI_ALIGN then sz - pos else ACLINT_MSWI_ALIGN)"
    have urs: "unat rs = min (unat sz - unat pos) 0x1000" by (simp add: rs_def word_less_nat_alt d)
    obtain q where q: "unat pos = 0x1000 * q" using less.prems(2) by auto
    have "unat sz - unat pos \<noteq> 1"
    proof
      assume "unat sz - unat pos = 1"
      then have "unat sz = 1 + 0x1000 * q" using lt q by linarith
      with assms(4) show False by simp
    qed
    then have "2 \<le> unat rs" using lt unfolding urs by simp
    then obtain rc s1 where s1: "sbi_domain_root_add_memregion hart_invalid (Some (sbi_domain_memregion_init (addr + pos) rs SBI_DOMAIN_MEMREGION_MMIO)) s = Some (rc, s1)"
      "rc = 0 \<Longrightarrow> root_ok s1 \<and> denied (root_table s) \<union> span (unat (addr + pos)) (unat (addr + pos) + unat rs) \<subseteq> denied (root_table s1)"
      using add_block [OF less.prems(1), of 12 "addr + pos" rs hart_invalid] assms(2,5) less.prems(2) a urs lt by auto
    have step: "mswi_add_regions hart_invalid addr sz pos s =
        (if rc \<noteq> 0 then Some (Some (rc, s1)) else mswi_add_regions hart_invalid addr sz (pos + 0x1000) s1)"
      using True s1(1) by (subst mswi_add_regions.simps) (simp add: Let_def flip: rs_def)
    show ?thesis
    proof (cases "rc = 0")
      case True
      with s1(2) have ok: "root_ok s1" and sub: "denied (root_table s) \<union> span (unat addr + unat pos) (unat addr + unat pos + unat rs) \<subseteq> denied (root_table s1)"
        by (simp_all add: a)
      have dec: "0x1000 dvd unat (pos + 0x1000)" "unat sz - unat (pos + 0x1000) < unat sz - unat pos" using less.prems(2) lt by (simp_all add: n)
      from less.hyps [OF dec(2) ok dec(1)] obtain rc' s'
        where s': "mswi_add_regions hart_invalid addr sz (pos + 0x1000) s1 = Some (Some (rc', s'))" "rc' = 0 \<Longrightarrow> root_ok s' \<and>
          denied (root_table s1) \<union> span (unat addr + unat pos + 0x1000) (unat addr + unat sz) \<subseteq> denied (root_table s')"
        unfolding n add.assoc by blast
      have "span (unat addr + unat pos) (unat addr + unat sz) \<subseteq>
          span (unat addr + unat pos) (unat addr + unat pos + unat rs) \<union> span (unat addr + unat pos + 0x1000) (unat addr + unat sz)"
        using urs by (intro span_split) auto
      from cover_step [OF sub _ this] s' step True show ?thesis by auto
    qed (use step in simp)
  qed
qed


lemma aligned_low_bits:
  assumes "2 ^ n dvd unat (b :: ulong)" "j < n"
  shows "\<not> bit b j"
proof -
  have "b AND mask n = 0" using assms(1) by (simp add: aligned_iff)
  then have "\<not> bit (b AND mask n) j" by simp
  with assms(2) show ?thesis by (auto simp: bit_simps dest: bit_imp_le_length)
qed

text \<open>The step of the timer's loop: the lowest set bit of an unaligned address, or a page.\<close>

lemma low_bit_block:
  assumes "pos AND 0xfff \<noteq> (0 :: ulong)" "8 dvd unat pos"
  shows "3 \<le> ffs_word pos \<and> ffs_word pos < 12 \<and> 2 ^ ffs_word pos dvd unat pos"
proof -
  have m: "(0xfff :: ulong) = mask 12" "(8 :: nat) = 2 ^ 3" by (simp_all add: mask_eq_exp_minus_1)
  have nz: "pos \<noteq> 0" using assms(1) by auto
  note f = ffs_word_first [OF nz]
  obtain i where i: "i < 12" "bit pos i" using assms(1) unfolding m bit_eq_iff by (auto simp: bit_simps)
  have "ffs_word pos \<le> i" using f i(2) by (meson not_le)
  moreover have "3 \<le> ffs_word pos" using f aligned_low_bits [OF assms(2) [unfolded m], of "ffs_word pos"] by (meson not_le)
  moreover have "pos AND mask (ffs_word pos) = 0" using f by (intro bit_word_eqI) (auto simp: bit_simps)
  then have "2 ^ ffs_word pos dvd unat pos" by (simp add: aligned_iff)
  ultimately show ?thesis using i(1) by simp
qed


lemma mtimer_rsize_block:
  assumes "pos < end_addr" "8 dvd unat pos" "8 dvd unat end_addr"
  shows "\<exists>k \<le> 12. 2 ^ k dvd unat pos \<and> 8 \<le> unat (mtimer_rsize pos end_addr) \<and> unat (mtimer_rsize pos end_addr) \<le> 2 ^ k \<and>
    8 dvd unat (mtimer_rsize pos end_addr)"
proof (cases "pos AND 0xfff = 0")
  case True
  have m: "(0xfff :: ulong) = mask 12" by (simp add: mask_eq_exp_minus_1)
  have d: "unat (end_addr - pos) = unat end_addr - unat pos" using assms(1) by (simp add: unat_sub)
  have lt: "unat pos < unat end_addr" using assms(1) by (simp add: word_less_nat_alt)
  have u: "unat (mtimer_rsize pos end_addr) = min (unat end_addr - unat pos) 0x1000"
    using True by (simp add: mtimer_rsize_def word_less_nat_alt d)
  have e: "8 dvd unat end_addr - unat pos" using assms(2,3) by (rule dvd_diff_nat [rotated])
  with lt have "8 \<le> unat end_addr - unat pos" by (intro dvd_imp_le) simp_all
  with e have "8 \<le> unat (mtimer_rsize pos end_addr)" "unat (mtimer_rsize pos end_addr) \<le> 2 ^ 12" "8 dvd unat (mtimer_rsize pos end_addr)"
    unfolding u by (simp_all add: min_def)
  moreover have "2 ^ 12 dvd unat pos" using True unfolding m by (simp only: aligned_iff)
  ultimately show ?thesis by blast
next
  case False
  note f = low_bit_block [OF False assms(2)]
  have u: "unat (mtimer_rsize pos end_addr) = 2 ^ ffs_word pos"
    using False f unat_BIT [of "ffs_word pos"] by (simp add: mtimer_rsize_def BIT_def)
  have "(2 :: nat) ^ 3 dvd 2 ^ ffs_word pos" "(2 :: nat) ^ 3 \<le> 2 ^ ffs_word pos"
    using f by (intro le_imp_power_dvd power_increasing; simp)+
  then have "8 dvd unat (mtimer_rsize pos end_addr)" "8 \<le> unat (mtimer_rsize pos end_addr)" unfolding u by simp_all
  moreover have "ffs_word pos \<le> 12" "unat (mtimer_rsize pos end_addr) \<le> 2 ^ ffs_word pos" "2 ^ ffs_word pos dvd unat pos" using f u by simp_all
  ultimately show ?thesis by blast
qed

lemma mtimer_regions_ok:
  assumes "root_ok s" "8 dvd unat pos" "8 dvd unat end_addr" "unat end_addr + 0x1000 < 2 ^ 64"
  shows "\<exists>rc s'. mtimer_add_regions_loop hart_invalid pos end_addr s = Some (Some (rc, s')) \<and>
    (rc = 0 \<longrightarrow> root_ok s' \<and> denied (root_table s) \<union> span (unat pos) (unat end_addr) \<subseteq> denied (root_table s'))"
  using assms(1,2)
proof (induction "unat end_addr - unat pos" arbitrary: pos s rule: less_induct)
  case less
  show ?case
  proof (cases "pos < end_addr")
    case False
    then show ?thesis using less.prems by (subst mtimer_add_regions_loop.simps) (simp add: word_less_nat_alt span_empty)
  next
    case True
    define rs where "rs = mtimer_rsize pos end_addr"
    obtain k where k: "k \<le> 12" "2 ^ k dvd unat pos" "8 \<le> unat rs" "unat rs \<le> 2 ^ k" "8 dvd unat rs"
      using mtimer_rsize_block [OF True less.prems(2) assms(3)] unfolding rs_def by blast
    have lt: "unat pos < unat end_addr" using True by (simp add: word_less_nat_alt)
    have "(2 :: nat) ^ k \<le> 2 ^ 12" using k(1) by (intro power_increasing) simp_all
    then have fit: "unat pos + 2 ^ k < 2 ^ 64" using lt assms(4) by simp
    have n: "unat (pos + rs) = unat pos + unat rs" using fit k(4) by (intro unat_add_no_wrap) simp
    have "2 \<le> unat rs" "k < 64" using k(1,3) by simp_all
    from add_block [OF less.prems(1) k(2) this(1) k(4) fit this(2), of hart_invalid] obtain rc s1
      where s1: "sbi_domain_root_add_memregion hart_invalid (Some (sbi_domain_memregion_init pos rs SBI_DOMAIN_MEMREGION_MMIO)) s = Some (rc, s1)"
      "rc = 0 \<Longrightarrow> root_ok s1 \<and> denied (root_table s) \<union> span (unat pos) (unat pos + unat rs) \<subseteq> denied (root_table s1)" by blast
    have step: "mtimer_add_regions_loop hart_invalid pos end_addr s =
        (if rc \<noteq> 0 then Some (Some (rc, s1)) else mtimer_add_regions_loop hart_invalid (pos + rs) end_addr s1)"
      using True s1(1) unfolding rs_def by (subst mtimer_add_regions_loop.simps) (simp add: Let_def)
    show ?thesis
    proof (cases "rc = 0")
      case True
      with s1(2) have ok: "root_ok s1" and sub: "denied (root_table s) \<union> span (unat pos) (unat pos + unat rs) \<subseteq> denied (root_table s1)" by simp_all
      have dec: "8 dvd unat (pos + rs)" "unat end_addr - unat (pos + rs) < unat end_addr - unat pos" using less.prems(2) k(3,5) lt by (simp_all add: n)
      from less.hyps [OF dec(2) ok dec(1)] obtain rc' s'
        where s': "mtimer_add_regions_loop hart_invalid (pos + rs) end_addr s1 = Some (Some (rc', s'))" "rc' = 0 \<Longrightarrow> root_ok s' \<and>
          denied (root_table s1) \<union> span (unat pos + unat rs) (unat end_addr) \<subseteq> denied (root_table s')"
        unfolding n by blast
      have "span (unat pos) (unat end_addr) \<subseteq> span (unat pos) (unat pos + unat rs) \<union> span (unat pos + unat rs) (unat end_addr)" by (intro span_split) simp
      from cover_step [OF sub _ this] s' step True show ?thesis by auto
    qed (use step in simp)
  qed
qed


lemma mswi_cold_init_ok:
  assumes "root_ok (m_dom m)" "d = mswi_obj (m_drv m) p" "unat (mswi_first_hartid d) + unat (mswi_hart_count d) \<le> 128"
    "length (mswi_hartid2data (m_drv m)) = 128" "unat (mswi_size d) mod 0x1000 \<noteq> 1" "unat (mswi_addr d) + unat (mswi_size d) + 0x1000 < 2 ^ 64"
  shows "\<exists>rc m'. aclint_mswi_cold_init pl (Some p) m = Ret rc m' \<and> mtimer_obj (m_drv m') = mtimer_obj (m_drv m) \<and>
    mtimer_hartid2data (m_drv m') = mtimer_hartid2data (m_drv m) \<and>
    (rc = 0 \<longrightarrow> root_ok (m_dom m') \<and>
      denied (root_table (m_dom m)) \<union> span (unat (mswi_addr d)) (unat (mswi_addr d) + unat (mswi_size d)) \<subseteq> denied (root_table (m_dom m')))"
proof -
  let ?guard = "mswi_addr d AND (ACLINT_MSWI_ALIGN - 1) \<noteq> 0 \<or> mswi_size d < ACLINT_MSWI_SIZE \<or>
    128 \<le> unat (mswi_first_hartid d) \<or> ACLINT_MSWI_MAX_HARTS < mswi_hart_count d"
  show ?thesis
  proof (cases ?guard)
    case True
    then show ?thesis using assms(2) by (auto simp: aclint_mswi_cold_init_def Let_def)
  next
    case False
    have m: "(0xfff :: ulong) = mask 12" by (simp add: mask_eq_exp_minus_1)
    have "2 ^ 12 dvd unat (mswi_addr d)" using False unfolding aligned_iff [symmetric] m [symmetric] by simp
    then have al: "0x1000 dvd unat (mswi_addr d)" by simp
    obtain t where t: "table_fill p (hart_slots (mswi_first_hartid d) (mswi_hart_count d)) (mswi_hartid2data (m_drv m)) = Some t"
      using slots_fill [OF assms(3,4), of p] False by (auto simp: not_le not_less word_le_nat_alt)
    from mswi_regions_ok [OF assms(1) al _ assms(5,6), of 0 "p_hart_invalid pl"] obtain rc s'
      where r: "mswi_add_regions (p_hart_invalid pl) (mswi_addr d) (mswi_size d) 0 (m_dom m) = Some (Some (rc, s'))"
        "rc = 0 \<Longrightarrow> root_ok s' \<and> denied (root_table (m_dom m)) \<union> span (unat (mswi_addr d)) (unat (mswi_addr d) + unat (mswi_size d)) \<subseteq> denied (root_table s')"
      by auto
    show ?thesis
    proof (cases "rc = 0")
      case True
      with r False t assms(2) show ?thesis
        by (auto simp: aclint_mswi_cold_init_def Let_def run_regions_def sbi_ipi_set_device_def split: option.split)
    next
      case neq: False
      with r False t assms(2) show ?thesis by (auto simp: aclint_mswi_cold_init_def Let_def run_regions_def)
    qed
  qed
qed


text \<open>The regions of one bank of registers, and of the two banks of the timer in their three possible layouts.\<close>

lemma mtimer_bank_ok:
  assumes "root_ok (m_dom m)" "8 dvd unat addr" "8 dvd unat sz" "unat addr + unat sz + 0x1000 < 2 ^ 64"
  shows "\<exists>rc s. aclint_mtimer_add_regions pl addr sz m = Ret rc (m\<lparr>m_dom := s\<rparr>) \<and>
    (rc = 0 \<longrightarrow> root_ok s \<and> denied (root_table (m_dom m)) \<union> span (unat addr) (unat addr + unat sz) \<subseteq> denied (root_table s))"
proof -
  have e: "unat (addr + sz) = unat addr + unat sz" using assms(4) by (intro unat_add_no_wrap) simp
  from mtimer_regions_ok [OF assms(1,2), of "addr + sz" "p_hart_invalid pl"] assms(2-4) show ?thesis
    unfolding e by (auto simp: aclint_mtimer_add_regions_def run_regions_def)
qed

definition mtimer_aligned :: "aclint_mtimer_data \<Rightarrow> bool" where
  "mtimer_aligned d \<longleftrightarrow> 8 dvd unat (mtime_addr d) \<and> 8 dvd unat (mtime_size d) \<and> 8 dvd unat (mtimecmp_addr d) \<and> 8 dvd unat (mtimecmp_size d)"

definition mtimer_span :: "aclint_mtimer_data \<Rightarrow> ulong set" where
  "mtimer_span d = span (unat (mtime_addr d)) (unat (mtime_addr d) + unat (mtime_size d)) \<union>
     span (unat (mtimecmp_addr d)) (unat (mtimecmp_addr d) + unat (mtimecmp_size d))"

lemma adjacent_banks:
  fixes a b sa sb :: ulong
  assumes "b = a + sa" "unat a + unat sa < 2 ^ 64" "unat b + unat sb + 0x1000 < 2 ^ 64"
  shows "unat a + unat (sb + sa) + 0x1000 < 2 ^ 64"
    "span (unat b) (unat b + unat sb) \<union> span (unat a) (unat a + unat sa) \<subseteq> span (unat a) (unat a + unat (sb + sa))"
    "span (unat a) (unat a + unat sa) \<union> span (unat b) (unat b + unat sb) \<subseteq> span (unat a) (unat a + unat (sb + sa))"
    "unat (sb + sa) = unat sb + unat sa"
proof -
  have b: "unat b = unat a + unat sa" unfolding assms(1) using assms(2) by (intro unat_add_no_wrap) simp
  then show s: "unat (sb + sa) = unat sb + unat sa" using assms(3) by (intro unat_add_no_wrap) simp
  show "unat a + unat (sb + sa) + 0x1000 < 2 ^ 64" using assms(3) b s by simp
  show "span (unat b) (unat b + unat sb) \<union> span (unat a) (unat a + unat sa) \<subseteq> span (unat a) (unat a + unat (sb + sa))"
    "span (unat a) (unat a + unat sa) \<union> span (unat b) (unat b + unat sb) \<subseteq> span (unat a) (unat a + unat (sb + sa))"
    using b s by (auto simp: in_span)
qed

lemma mtimer_layout_ok:
  assumes "root_ok (m_dom m)" "mtimer_aligned d" "unat (mtime_addr d) + unat (mtime_size d) + 0x1000 < 2 ^ 64"
    "unat (mtimecmp_addr d) + unat (mtimecmp_size d) + 0x1000 < 2 ^ 64"
  shows "\<exists>rc s. mtimer_layout pl d m = Ret rc (m\<lparr>m_dom := s\<rparr>) \<and>
    (rc = 0 \<longrightarrow> root_ok s \<and> denied (root_table (m_dom m)) \<union> mtimer_span d \<subseteq> denied (root_table s))"
proof -
  note al = assms(2) [unfolded mtimer_aligned_def]
  consider "mtime_addr d = mtimecmp_addr d + mtimecmp_size d"
    | "mtime_addr d \<noteq> mtimecmp_addr d + mtimecmp_size d" "mtimecmp_addr d = mtime_addr d + mtime_size d"
    | "mtime_addr d \<noteq> mtimecmp_addr d + mtimecmp_size d" "mtimecmp_addr d \<noteq> mtime_addr d + mtime_size d" by blast
  then show ?thesis
  proof cases
    case 1
    have "unat (mtimecmp_addr d) + unat (mtimecmp_size d) < 2 ^ 64" using assms(4) by simp
    note adj = adjacent_banks [OF 1 this assms(3)]
    have "8 dvd unat (mtime_size d + mtimecmp_size d)" using al unfolding adj(4) by simp
    from mtimer_bank_ok [OF assms(1) _ this adj(1), of pl] al 1 adj(2) show ?thesis
      by (fastforce simp: mtimer_layout_def mtimer_span_def)
  next
    case 2
    have "unat (mtime_addr d) + unat (mtime_size d) < 2 ^ 64" using assms(3) by simp
    note adj = adjacent_banks [OF 2(2) this assms(4)]
    have "8 dvd unat (mtimecmp_size d + mtime_size d)" using al unfolding adj(4) by simp
    from mtimer_bank_ok [OF assms(1) _ this adj(1), of pl] al 2(1) adj(3) show ?thesis
      by (fastforce simp: mtimer_layout_def mtimer_span_def 2(2) add.commute)
  next
    case 3
    from mtimer_bank_ok [OF assms(1) _ _ assms(3), of pl] al obtain rc s
      where s: "aclint_mtimer_add_regions pl (mtime_addr d) (mtime_size d) m = Ret rc (m\<lparr>m_dom := s\<rparr>)"
        "rc = 0 \<Longrightarrow> root_ok s \<and> denied (root_table (m_dom m)) \<union> span (unat (mtime_addr d)) (unat (mtime_addr d) + unat (mtime_size d)) \<subseteq> denied (root_table s)"
      by blast
    show ?thesis
    proof (cases "rc = 0")
      case True
      with s(2) mtimer_bank_ok [of "m\<lparr>m_dom := s\<rparr>", OF _ _ _ assms(4), of pl] al obtain rc' s'
        where "aclint_mtimer_add_regions pl (mtimecmp_addr d) (mtimecmp_size d) (m\<lparr>m_dom := s\<rparr>) = Ret rc' (m\<lparr>m_dom := s'\<rparr>)"
          "rc' = 0 \<Longrightarrow> root_ok s' \<and> denied (root_table s) \<union> span (unat (mtimecmp_addr d)) (unat (mtimecmp_addr d) + unat (mtimecmp_size d)) \<subseteq> denied (root_table s')"
        by auto
      with s 3 True cover_step [of "denied (root_table (m_dom m))" _ "denied (root_table s)" _ "denied (root_table s')" "mtimer_span d"]
      show ?thesis by (fastforce simp: mtimer_layout_def mtimer_span_def)
    qed (use s 3 in \<open>auto simp: mtimer_layout_def\<close>)
  qed
qed


lemma low_three_bits: "(a :: ulong) AND (ACLINT_MTIMER_ALIGN - 1) = 0 \<longleftrightarrow> 8 dvd unat a"
proof -
  have "(7 :: ulong) = mask 3" by (simp add: mask_eq_exp_minus_1)
  then show ?thesis using aligned_iff [of a 3] by simp
qed

lemma mtimer_cold_init_ok:
  assumes "root_ok (m_dom m)" "d = mtimer_obj (m_drv m) p" "unat (mt_first_hartid d) + unat (mt_hart_count d) \<le> 128"
    "length (mtimer_hartid2data (m_drv m)) = 128" "unat (mtime_addr d) + unat (mtime_size d) + 0x1000 < 2 ^ 64"
    "unat (mtimecmp_addr d) + unat (mtimecmp_size d) + 0x1000 < 2 ^ 64"
  shows "\<exists>rc m'. aclint_mtimer_cold_init pl (Some p) reference m = Ret rc m' \<and>
    (rc = 0 \<longrightarrow> root_ok (m_dom m') \<and> denied (root_table (m_dom m)) \<union> mtimer_span d \<subseteq> denied (root_table (m_dom m')))"
proof -
  let ?low = "ACLINT_MTIMER_ALIGN - 1 :: ulong"
  let ?guard = "mtime_size d = 0 \<or> mt_hart_count d \<noteq> 0 \<and> mtimecmp_size d = 0 \<or> mtime_addr d AND ?low \<noteq> 0 \<or> mtime_size d AND ?low \<noteq> 0 \<or>
    mtimecmp_addr d AND ?low \<noteq> 0 \<or> mtimecmp_size d AND ?low \<noteq> 0 \<or> 128 \<le> unat (mt_first_hartid d) \<or> ACLINT_MTIMER_MAX_HARTS < mt_hart_count d"
  let ?freq = "case reference of None \<Rightarrow> False | Some r \<Rightarrow> mtime_freq d \<noteq> mtime_freq (mtimer_obj (m_drv m) r)"
  show ?thesis
  proof (cases "?guard \<or> ?freq")
    case True
    have "aclint_mtimer_cold_init pl (Some p) reference m = Ret SBI_EINVAL m"
      using True by (cases reference) (auto simp: aclint_mtimer_cold_init_def Let_def assms(2))
    then show ?thesis by simp
  next
    case False
    then have al: "mtimer_aligned d" unfolding mtimer_aligned_def low_three_bits [symmetric] by blast
    define m1 where "m1 = upd_mtimer p (\<lambda>x. x\<lparr>time_access := Some (if has_64bit_mmio x then Mtimer_64 else Mtimer_32)\<rparr>)
      (aclint_mtimer_set_reference (Some p) reference m)"
    have same: "mtimer_hartid2data (m_drv m1) = mtimer_hartid2data (m_drv m)" "m_dom m1 = m_dom m"
      by (simp_all add: m1_def upd_mtimer_def aclint_mtimer_set_reference_def split: option.split)
    obtain t where t: "table_fill p (hart_slots (mt_first_hartid d) (mt_hart_count d)) (mtimer_hartid2data (m_drv m)) = Some t"
      using slots_fill [OF assms(3,4), of p] False by (auto simp: not_le not_less word_le_nat_alt)
    define m2 where "m2 = upd_drv (\<lambda>v. v\<lparr>mtimer_hartid2data := t\<rparr>) m1"
    have "root_ok (m_dom m2)" using assms(1) same by (simp add: m2_def)
    from mtimer_layout_ok [OF this al assms(5,6), of pl] obtain rc s where l: "mtimer_layout pl d m2 = Ret rc (m2\<lparr>m_dom := s\<rparr>)"
      "rc = 0 \<Longrightarrow> root_ok s \<and> denied (root_table (m_dom m)) \<union> mtimer_span d \<subseteq> denied (root_table s)"
      using same by (auto simp: m2_def)
    have "aclint_mtimer_cold_init pl (Some p) reference m = run_bind (mtimer_layout pl d m2) (\<lambda>rc m. if rc \<noteq> 0 then Ret rc m
        else Ret 0 (sbi_timer_set_device (Some \<lparr>timer_freq = mtime_freq d, has_timer_value = True, has_event_start = True, has_event_stop = True\<rparr>) m))"
      using False t same(1) unfolding assms(2) by (cases reference) (auto simp: aclint_mtimer_cold_init_def Let_def m2_def m1_def)
    with l show ?thesis by (cases "rc = 0") (auto simp: sbi_timer_set_device_def Let_def split: option.split)
  qed
qed

end
