(* ===== verification/Plat_Ariane.thy ===== *)
theory Plat_Ariane
  imports Plat_Aclint_Regions
begin

text \<open>
  The Ariane platform (\<^verbatim>\<open>platform/fpga/ariane/platform.c\<close>): its static data, its callbacks and the table of them that the firmware calls.

  What the functions of \<^verbatim>\<open>fdt_helper.c\<close> find in the device tree is an argument (\<open>ariane_fdt\<close>, with \<open>None\<close> for a failed search); \<^verbatim>\<open>Plat_Ariane_Fdt\<close> computes it from the bytes
  of the tree. The fix-ups of the device tree, which write only to the tree, are a parameter.
\<close>

section \<open>Static data\<close>

abbreviation (input) ARIANE_UART_ADDR :: ulong where "ARIANE_UART_ADDR \<equiv> 0x10000000"
abbreviation (input) ARIANE_UART_FREQ :: ulong where "ARIANE_UART_FREQ \<equiv> 50000000"
abbreviation (input) ARIANE_UART_BAUDRATE :: ulong where "ARIANE_UART_BAUDRATE \<equiv> 115200"
abbreviation (input) ARIANE_UART_REG_SHIFT :: u32 where "ARIANE_UART_REG_SHIFT \<equiv> 2"
abbreviation (input) ARIANE_UART_REG_WIDTH :: u32 where "ARIANE_UART_REG_WIDTH \<equiv> 4"
abbreviation (input) ARIANE_PLIC_ADDR :: ulong where "ARIANE_PLIC_ADDR \<equiv> 0xc000000"
abbreviation (input) ARIANE_PLIC_NUM_SOURCES :: ulong where "ARIANE_PLIC_NUM_SOURCES \<equiv> 3"
abbreviation (input) ARIANE_HART_COUNT :: u32 where "ARIANE_HART_COUNT \<equiv> 2"
abbreviation (input) ARIANE_CLINT_ADDR :: ulong where "ARIANE_CLINT_ADDR \<equiv> 0x2000000"
abbreviation (input) ARIANE_ACLINT_MTIMER_FREQ :: ulong where "ARIANE_ACLINT_MTIMER_FREQ \<equiv> 1000000"
abbreviation (input) CLINT_MSWI_OFFSET :: ulong where "CLINT_MSWI_OFFSET \<equiv> 0x0000"
abbreviation (input) CLINT_MTIMER_OFFSET :: ulong where "CLINT_MTIMER_OFFSET \<equiv> 0x4000"
abbreviation (input) ACLINT_DEFAULT_MTIME_OFFSET :: ulong where "ACLINT_DEFAULT_MTIME_OFFSET \<equiv> 0x7ff8"
abbreviation (input) ACLINT_DEFAULT_MTIME_SIZE :: ulong where "ACLINT_DEFAULT_MTIME_SIZE \<equiv> 0x8"
abbreviation (input) ACLINT_DEFAULT_MTIMECMP_OFFSET :: ulong where "ACLINT_DEFAULT_MTIMECMP_OFFSET \<equiv> 0x0000"
abbreviation (input) ACLINT_DEFAULT_MTIMECMP_SIZE :: ulong where "ACLINT_DEFAULT_MTIMECMP_SIZE \<equiv> 0x7ff8"

definition ariane_uart :: platform_uart_data where
  "ariane_uart = \<lparr>uart_addr = ARIANE_UART_ADDR, uart_freq = ARIANE_UART_FREQ, uart_baud = ARIANE_UART_BAUDRATE, uart_reg_shift = 0, uart_reg_io_width = 0\<rparr>"

definition ariane_plic :: plic_data where
  "ariane_plic = \<lparr>plic_addr = ARIANE_PLIC_ADDR, plic_num_src = ARIANE_PLIC_NUM_SOURCES\<rparr>"

definition ariane_mswi :: aclint_mswi_data where
  "ariane_mswi = \<lparr>mswi_addr = ARIANE_CLINT_ADDR + CLINT_MSWI_OFFSET, mswi_size = ACLINT_MSWI_SIZE, mswi_first_hartid = 0, mswi_hart_count = ARIANE_HART_COUNT\<rparr>"

definition ariane_mtimer :: aclint_mtimer_data where
  "ariane_mtimer = \<lparr>mtime_freq = ARIANE_ACLINT_MTIMER_FREQ,
     mtime_addr = ARIANE_CLINT_ADDR + CLINT_MTIMER_OFFSET + ACLINT_DEFAULT_MTIME_OFFSET, mtime_size = ACLINT_DEFAULT_MTIME_SIZE,
     mtimecmp_addr = ARIANE_CLINT_ADDR + CLINT_MTIMER_OFFSET + ACLINT_DEFAULT_MTIMECMP_OFFSET, mtimecmp_size = ACLINT_DEFAULT_MTIMECMP_SIZE,
     mt_first_hartid = 0, mt_hart_count = ARIANE_HART_COUNT, has_64bit_mmio = True, has_shared_mtime = False, time_delta_reference = None,
     time_delta_computed = 0, time_access = None\<rparr>"

text \<open>The drivers' state when the firmware starts. The platform has one device of each kind, number 0 in its store.\<close>

definition ariane_drv :: drv_sys where
  "ariane_drv = drv_boot\<lparr>drv_uart := ariane_uart, drv_plic := ariane_plic, mswi_obj := (mswi_obj drv_boot)(0 := ariane_mswi),
     mtimer_obj := (mtimer_obj drv_boot)(0 := ariane_mtimer)\<rparr>"

section \<open>Callbacks\<close>

record ariane_fdt =
  fdt_uart :: "platform_uart_data option"
  fdt_plic :: "plic_data option"
  fdt_timebase :: "ulong option"
  fdt_clint :: "ulong option"

definition set_opt :: "'a option \<Rightarrow> ('a \<Rightarrow> machine \<Rightarrow> machine) \<Rightarrow> machine \<Rightarrow> machine" where
  "set_opt x f m = (case x of None \<Rightarrow> m | Some v \<Rightarrow> f v m)"

definition ariane_early_init :: "ariane_fdt \<Rightarrow> bool \<Rightarrow> machine \<Rightarrow> int \<times> machine" where
  "ariane_early_init fdt cold_boot m =
     (if \<not> cold_boot then (0, m)
      else let m = set_opt (fdt_uart fdt) (\<lambda>u. upd_drv (\<lambda>d. d\<lparr>drv_uart := u\<rparr>)) m;
               m = set_opt (fdt_plic fdt) (\<lambda>p. upd_drv (\<lambda>d. d\<lparr>drv_plic := p\<rparr>)) m;
               m = set_opt (fdt_timebase fdt) (\<lambda>f. upd_mtimer 0 (\<lambda>x. x\<lparr>mtime_freq := f\<rparr>)) m;
               m = set_opt (fdt_clint fdt) (\<lambda>a m.
                     upd_mtimer 0 (\<lambda>x. x\<lparr>mtime_addr := a + CLINT_MTIMER_OFFSET + ACLINT_DEFAULT_MTIME_OFFSET,
                                         mtimecmp_addr := a + CLINT_MTIMER_OFFSET + ACLINT_DEFAULT_MTIMECMP_OFFSET\<rparr>)
                       (upd_drv (\<lambda>d. d\<lparr>mswi_obj := (mswi_obj d)(0 := (mswi_obj d 0)\<lparr>mswi_addr := a\<rparr>)\<rparr>) m)) m
           in (0, m))"

definition ariane_final_init :: "(machine \<Rightarrow> machine) \<Rightarrow> bool \<Rightarrow> machine \<Rightarrow> int \<times> machine" where
  "ariane_final_init fdt_fixups cold_boot m = (0, if cold_boot then fdt_fixups m else m)"

definition ariane_console_init :: "hw io_dev \<Rightarrow> int list \<Rightarrow> machine \<Rightarrow> int run" where
  "ariane_console_init dev inp m =
     uart8250_init dev inp ARIANE_UART_ADDR (ucast ARIANE_UART_FREQ) (ucast ARIANE_UART_BAUDRATE) ARIANE_UART_REG_SHIFT ARIANE_UART_REG_WIDTH m"

definition plic_ariane_warm_irqchip_init :: "hw io_dev \<Rightarrow> int \<Rightarrow> int \<Rightarrow> machine \<Rightarrow> int \<times> machine" where
  "plic_ariane_warm_irqchip_init dev m_cntx_id s_cntx_id m =
     (let plic = Some (drv_plic (m_drv m)); ie_words = unat ARIANE_PLIC_NUM_SOURCES div 32 + 1;
          m = plic_set_ie_words dev plic m_cntx_id ie_words 1 m;
          m = plic_set_ie_words dev plic s_cntx_id ie_words 1 m;
          m = plic_set_cntx_thresh dev plic m_cntx_id 1 m
      in (0, plic_set_cntx_thresh dev plic s_cntx_id 0 m))"

definition ariane_irqchip_init :: "hw io_dev \<Rightarrow> hartid \<Rightarrow> bool \<Rightarrow> machine \<Rightarrow> int run" where
  "ariane_irqchip_init dev h cold_boot m =
     run_bind (if cold_boot then plic_cold_irqchip_init dev (Some (drv_plic (m_drv m))) m else Ret 0 m) (\<lambda>ret m.
       if ret \<noteq> 0 then Ret ret m
       else of_pair (plic_ariane_warm_irqchip_init dev (sint (2 * of_nat h :: u32)) (sint (2 * of_nat h + 1 :: u32)) m))"

definition ariane_ipi_init :: "sbi_plat \<Rightarrow> hartid \<Rightarrow> bool \<Rightarrow> machine \<Rightarrow> int run" where
  "ariane_ipi_init pl h cold_boot m =
     run_bind (if cold_boot then aclint_mswi_cold_init pl (Some 0) m else Ret 0 m) (\<lambda>ret m.
       if ret \<noteq> 0 then Ret ret m else of_pair (aclint_mswi_warm_init (p_dev pl) h m))"

definition ariane_timer_init :: "sbi_plat \<Rightarrow> hartid \<Rightarrow> bool \<Rightarrow> machine \<Rightarrow> int run" where
  "ariane_timer_init pl h cold_boot m =
     run_bind (if cold_boot then aclint_mtimer_cold_init pl (Some 0) None m else Ret 0 m) (\<lambda>ret m.
       if ret \<noteq> 0 then Ret ret m else aclint_mtimer_warm_init (p_dev pl) h m)"

section \<open>The registers are closed to the supervisor\<close>

text \<open>The state of the drivers after \<^verbatim>\<open>ariane_early_init\<close>, for the address of the devices that it has found or the default one.\<close>

definition ariane_clint :: "ariane_fdt \<Rightarrow> ulong" where
  "ariane_clint fdt = (case fdt_clint fdt of Some a \<Rightarrow> a | None \<Rightarrow> ARIANE_CLINT_ADDR)"

definition ariane_ready :: "ulong \<Rightarrow> machine \<Rightarrow> bool" where
  "ariane_ready clint m \<longleftrightarrow>
     (let s = mswi_obj (m_drv m) 0; t = mtimer_obj (m_drv m) 0
      in s = ariane_mswi\<lparr>mswi_addr := clint\<rparr> \<and>
         t = ariane_mtimer\<lparr>mtime_freq := mtime_freq t, mtime_addr := clint + 0xbff8, mtimecmp_addr := clint + 0x4000\<rparr> \<and>
         length (mswi_hartid2data (m_drv m)) = 128 \<and> length (mtimer_hartid2data (m_drv m)) = 128)"

lemma early_init_ready: "m_drv m = ariane_drv \<Longrightarrow> ariane_ready (ariane_clint fdt) (snd (ariane_early_init fdt True m))"
  by (cases "fdt_uart fdt"; cases "fdt_plic fdt"; cases "fdt_timebase fdt"; cases "fdt_clint fdt")
    (simp_all add: ariane_early_init_def Let_def set_opt_def upd_mtimer_def ariane_ready_def ariane_drv_def ariane_clint_def ariane_mswi_def
      ariane_mtimer_def drv_boot_def)


lemma ariane_ipi_init_ok:
  assumes "root_ok (m_dom m)" "ariane_ready clint m" "unat clint + 0xd000 < 2 ^ 64"
  shows "\<exists>rc m'. ariane_ipi_init pl h True m = Ret rc m' \<and>
    (rc = 0 \<longrightarrow> root_ok (m_dom m') \<and> denied (root_table (m_dom m)) \<union> span (unat clint) (unat clint + 0x4000) \<subseteq> denied (root_table (m_dom m')) \<and>
      mtimer_obj (m_drv m') = mtimer_obj (m_drv m) \<and> mtimer_hartid2data (m_drv m') = mtimer_hartid2data (m_drv m))"
proof -
  let ?d = "ariane_mswi\<lparr>mswi_addr := clint\<rparr>"
  have d: "?d = mswi_obj (m_drv m) 0" "length (mswi_hartid2data (m_drv m)) = 128" using assms(2) by (auto simp: ariane_ready_def Let_def)
  have "\<exists>rc m'. aclint_mswi_cold_init pl (Some 0) m = Ret rc m' \<and> mtimer_obj (m_drv m') = mtimer_obj (m_drv m) \<and>
    mtimer_hartid2data (m_drv m') = mtimer_hartid2data (m_drv m) \<and>
    (rc = 0 \<longrightarrow> root_ok (m_dom m') \<and> denied (root_table (m_dom m)) \<union> span (unat clint) (unat clint + 0x4000) \<subseteq> denied (root_table (m_dom m')))"
    using mswi_cold_init_ok [OF assms(1) d(1) _ d(2), of pl] assms(3) by (simp add: ariane_mswi_def)
  then obtain rc m1 where "aclint_mswi_cold_init pl (Some 0) m = Ret rc m1" "mtimer_obj (m_drv m1) = mtimer_obj (m_drv m)"
    "mtimer_hartid2data (m_drv m1) = mtimer_hartid2data (m_drv m)"
    "rc = 0 \<Longrightarrow> root_ok (m_dom m1) \<and> denied (root_table (m_dom m)) \<union> span (unat clint) (unat clint + 0x4000) \<subseteq> denied (root_table (m_dom m1))" by blast
  then show ?thesis
    by (cases "rc = 0") (auto simp: ariane_ipi_init_def aclint_mswi_warm_init_def mswi_ipi_clear_def mswi_write_def of_pair_def Let_def split: option.split)
qed

lemma ariane_timer_init_ok:
  assumes "root_ok (m_dom m)" "mtimer_obj (m_drv m) 0 = ariane_mtimer\<lparr>mtime_freq := f, mtime_addr := clint + 0xbff8, mtimecmp_addr := clint + 0x4000\<rparr>"
    "length (mtimer_hartid2data (m_drv m)) = 128" "unat clint + 0xd000 < 2 ^ 64" "h < 2"
  shows "\<exists>rc m'. ariane_timer_init pl h True m = Ret rc m' \<and>
    (rc = 0 \<longrightarrow> root_ok (m_dom m') \<and> denied (root_table (m_dom m)) \<union> span (unat clint + 0x4000) (unat clint + 0xc000) \<subseteq> denied (root_table (m_dom m')) \<and>
      m_trace m' = Io_wr 8 (clint + 0x4000 + of_nat (8 * h)) (- 1) # m_trace m \<and>
      mtimer_ok 0 ((mtimer_obj (m_drv m) 0)\<lparr>time_access := Some Mtimer_64\<rparr>) m')"
proof -
  let ?d = "ariane_mtimer\<lparr>mtime_freq := f, mtime_addr := clint + 0xbff8, mtimecmp_addr := clint + 0x4000\<rparr>"
  let ?d' = "?d\<lparr>time_access := Some Mtimer_64\<rparr>"
  have u: "unat (clint + 0xbff8) = unat clint + 0xbff8" "unat (clint + 0x4000) = unat clint + 0x4000"
    using assms(4) by (subst unat_add_no_wrap; simp)+
  have span: "mtimer_span ?d = span (unat clint + 0x4000) (unat clint + 0xc000)"
    by (auto simp: mtimer_span_def ariane_mtimer_def u in_span)
  have "\<exists>rc m'. aclint_mtimer_cold_init pl (Some 0) None m = Ret rc m' \<and>
    (rc = 0 \<longrightarrow> root_ok (m_dom m') \<and> denied (root_table (m_dom m)) \<union> mtimer_span ?d \<subseteq> denied (root_table (m_dom m')))"
    by (rule mtimer_cold_init_ok) (use assms u in \<open>simp_all add: ariane_mtimer_def\<close>)
  then obtain rc m1 where m1: "aclint_mtimer_cold_init pl (Some 0) None m = Ret rc m1"
    "rc = 0 \<Longrightarrow> root_ok (m_dom m1) \<and> denied (root_table (m_dom m)) \<union> mtimer_span ?d \<subseteq> denied (root_table (m_dom m1))" by blast
  show ?thesis
  proof (cases "rc = 0")
    case True
    with m1(1) mtimer_cold_init_ready [of pl 0 m m1] assms(2,3) have r: "mtimer_ok 0 ?d' m1" "m_trace m1 = m_trace m" by (simp_all add: ariane_mtimer_def)
    have h: "h \<in> slot_range (mt_first_hartid ?d') (mt_hart_count ?d')" "time_delta_reference ?d' = None"
      "mtimecmp ?d' h = clint + 0x4000 + of_nat (8 * h)" using assms(5) by (simp_all add: ariane_mtimer_def slot_range_def mtimecmp_def)
    note w = mtimer_warm_init_ok [OF r(1) h(1,2), of "p_dev pl"]
    have ok: "mtimer_ok 0 ?d' (upd_io g m1)" for g using r(1) by (simp add: mtimer_ok_def)
    have run: "ariane_timer_init pl h True m = Ret 0 (upd_io (writeq (p_dev pl) (- 1) (mtimecmp ?d' h)) m1)"
      using m1(1) True w by (simp add: ariane_timer_init_def)
    show ?thesis unfolding run using True m1(2) r(2) h(3) span ok assms(2) by (simp add: upd_io_writeq del: m_trace_upd_io)
  qed (use m1(1) in \<open>simp add: ariane_timer_init_def\<close>)
qed


lemma root_ok_denies:
  assumes "root_ok s" "mode \<noteq> PRV_M" "a \<in> denied (root_table s)" "access_rwx fl \<noteq> 0"
  shows "\<not> sbi_domain_check_addr (Some (dom_obj s ROOT)) a mode fl"
proof -
  from assms(1) obtain arr where "regions (dom_obj s ROOT) = Some arr" "guarded (memregions arr)" "sorted_wrt region_le (memregions arr)"
    "root_table s = memregions arr" by (auto simp: root_ok_def root_shape_def root_table_def)
  with check_addr_guarded(1) [of "dom_obj s ROOT" arr mode a fl] assms(2-4) show ?thesis by simp
qed

text \<open>
  C14. On the Ariane platform, whatever address of the interrupt and timer devices the device tree gives: the initialisation of both in the cold boot returns, and when it has succeeded
  no S- or U-mode access to any of their registers passes the check of the root domain, and none to the firmware.
\<close>

theorem ariane_devices_closed:
  assumes "sbi_domain_init hart_invalid fws fwsz arg na nm cold domain_boot = Some (0, m_dom m)" and "m_drv m = ariane_drv"
    and "clint = ariane_clint fdt" and "unat clint + 0xd000 < 2 ^ 64" and "h < 2" and "m1 = snd (ariane_early_init fdt True m)"
  shows "\<exists>rc m2. ariane_ipi_init pl h True m1 = Ret rc m2 \<and> (rc = 0 \<longrightarrow>
    (\<exists>rc m3. ariane_timer_init pl h True m2 = Ret rc m3 \<and> (rc = 0 \<longrightarrow>
      (\<forall>a mode fl. mode \<noteq> PRV_M \<and> access_rwx fl \<noteq> 0 \<and>
         (unat clint \<le> unat a \<and> unat a < unat clint + 0xc000 \<or> region_contains (sbi_domain_memregion_init fws fwsz 0) a) \<longrightarrow>
         \<not> sbi_domain_check_addr (Some (dom_obj (m_dom m3) ROOT)) a mode fl))))"
proof -
  have dom: "m_dom m1 = m_dom m"
    by (simp add: assms(6) ariane_early_init_def Let_def set_opt_def upd_mtimer_def split: option.split)
  from domain_init_root_ok [OF assms(1)] have ok: "root_ok (m_dom m1)"
    and fw: "denied (root_table (m_dom m1)) = Collect (region_contains (sbi_domain_memregion_init fws fwsz 0))" by (simp_all add: dom)
  have ready: "ariane_ready clint m1" using early_init_ready [OF assms(2), of fdt] by (simp add: assms(3,6))
  obtain rc m2 where m2: "ariane_ipi_init pl h True m1 = Ret rc m2"
    "rc = 0 \<Longrightarrow> root_ok (m_dom m2) \<and> denied (root_table (m_dom m1)) \<union> span (unat clint) (unat clint + 0x4000) \<subseteq> denied (root_table (m_dom m2)) \<and>
      mtimer_obj (m_drv m2) = mtimer_obj (m_drv m1) \<and> mtimer_hartid2data (m_drv m2) = mtimer_hartid2data (m_drv m1)"
    using ariane_ipi_init_ok [OF ok ready assms(4), of pl h] by blast
  show ?thesis
  proof (rule exI [of _ rc], rule exI [of _ m2], intro conjI impI)
    show "ariane_ipi_init pl h True m1 = Ret rc m2" by (fact m2(1))
    assume "rc = 0"
    note s2 = m2(2) [OF this]
    let ?f = "mtime_freq (mtimer_obj (m_drv m1) 0)"
    have "mtimer_obj (m_drv m2) 0 = ariane_mtimer\<lparr>mtime_freq := ?f, mtime_addr := clint + 0xbff8, mtimecmp_addr := clint + 0x4000\<rparr>"
      "length (mtimer_hartid2data (m_drv m2)) = 128" using ready s2 by (simp_all add: ariane_ready_def Let_def)
    from ariane_timer_init_ok [OF conjunct1 [OF s2] this assms(4,5), of pl] obtain rc' m3 where m3: "ariane_timer_init pl h True m2 = Ret rc' m3"
      "rc' = 0 \<Longrightarrow> root_ok (m_dom m3) \<and> denied (root_table (m_dom m2)) \<union> span (unat clint + 0x4000) (unat clint + 0xc000) \<subseteq> denied (root_table (m_dom m3))"
      by blast
    have sub: "span (unat clint) (unat clint + 0xc000) \<subseteq> span (unat clint) (unat clint + 0x4000) \<union> span (unat clint + 0x4000) (unat clint + 0xc000)"
      by (intro span_split) simp
    have "\<not> sbi_domain_check_addr (Some (dom_obj (m_dom m3) ROOT)) a mode fl"
      if "rc' = 0" "mode \<noteq> PRV_M" "access_rwx fl \<noteq> 0"
        "unat clint \<le> unat a \<and> unat a < unat clint + 0xc000 \<or> region_contains (sbi_domain_memregion_init fws fwsz 0) a" for a mode fl
    proof -
      have "a \<in> denied (root_table (m_dom m1)) \<union> span (unat clint) (unat clint + 0xc000)" using that(4) fw by (auto simp: in_span)
      with cover_step [OF _ conjunct2 [OF m3(2) [OF that(1)]] sub, of "denied (root_table (m_dom m1))"] s2
      have a: "a \<in> denied (root_table (m_dom m3))" by blast
      show ?thesis by (rule root_ok_denies [OF conjunct1 [OF m3(2) [OF that(1)]] that(2) a that(3)])
    qed
    with m3(1) show "\<exists>rc m3. ariane_timer_init pl h True m2 = Ret rc m3 \<and> (rc = 0 \<longrightarrow>
      (\<forall>a mode fl. mode \<noteq> PRV_M \<and> access_rwx fl \<noteq> 0 \<and>
         (unat clint \<le> unat a \<and> unat a < unat clint + 0xc000 \<or> region_contains (sbi_domain_memregion_init fws fwsz 0) a) \<longrightarrow>
         \<not> sbi_domain_check_addr (Some (dom_obj (m_dom m3) ROOT)) a mode fl))" by blast
  qed
qed

definition ariane_machine :: machine where
  "ariane_machine = machine_boot\<lparr>m_drv := ariane_drv,
     m_dom := (case sbi_domain_init (\<lambda>h. 1 < h) 0x80000000 0x14000 0x82200000 0x80200000 PRV_S 0 domain_boot of None \<Rightarrow> domain_boot | Some (rc, s) \<Rightarrow> s)\<rparr>"

theorem ariane_devices_closed_witness:
  "\<exists>rc m2. ariane_ipi_init plat_example 0 True ariane_machine = Ret rc m2 \<and> (rc = 0 \<longrightarrow>
    (\<exists>rc m3. ariane_timer_init plat_example 0 True m2 = Ret rc m3 \<and> (rc = 0 \<longrightarrow>
       \<not> sbi_domain_check_addr (Some (dom_obj (m_dom m3) ROOT)) 0x200bff8 PRV_S SBI_DOMAIN_WRITE)))"
proof -
  let ?fdt = "\<lparr>fdt_uart = None, fdt_plic = None, fdt_timebase = None, fdt_clint = None\<rparr>"
  from devices_example obtain s where "sbi_domain_init (\<lambda>h. 1 < h) 0x80000000 0x14000 0x82200000 0x80200000 PRV_S 0 domain_boot = Some (0, s)"
    by (auto split: option.splits if_splits)
  then have i: "sbi_domain_init (\<lambda>h. 1 < h) 0x80000000 0x14000 0x82200000 0x80200000 PRV_S 0 domain_boot = Some (0, m_dom ariane_machine)"
    by (simp add: ariane_machine_def)
  have e: "ariane_machine = snd (ariane_early_init ?fdt True ariane_machine)" by (simp add: ariane_early_init_def set_opt_def)
  have c: "m_drv ariane_machine = ariane_drv" "ARIANE_CLINT_ADDR = ariane_clint ?fdt" "unat (ARIANE_CLINT_ADDR :: ulong) + 0xd000 < 2 ^ 64" "0 < (2 :: nat)"
    by (simp_all add: ariane_machine_def ariane_clint_def)
  have rwx: "PRV_S \<noteq> PRV_M" "access_rwx SBI_DOMAIN_WRITE \<noteq> 0" "unat (ARIANE_CLINT_ADDR :: ulong) \<le> unat (0x200bff8 :: ulong)"
    "unat (0x200bff8 :: ulong) < unat (ARIANE_CLINT_ADDR :: ulong) + 0xc000" by (code_simp, code_simp, simp, simp)
  from ariane_devices_closed [OF i c e, of plat_example] rwx show ?thesis by meson
qed


section \<open>Interrupt controller\<close>

text \<open>The registers of the default controller.\<close>

abbreviation (input) plic_prio :: "ulong \<Rightarrow> ulong" where "plic_prio i \<equiv> ARIANE_PLIC_ADDR + 4 * i"
abbreviation (input) plic_enable :: "ulong \<Rightarrow> ulong" where "plic_enable c \<equiv> ARIANE_PLIC_ADDR + 0x2000 + 0x80 * c"
abbreviation (input) plic_thresh :: "ulong \<Rightarrow> ulong" where "plic_thresh c \<equiv> ARIANE_PLIC_ADDR + 0x200000 + 0x1000 * c"

lemmas irqchip_defs = ariane_irqchip_init_def plic_ariane_warm_irqchip_init_def plic_set_ie_words_def plic_set_cntx_thresh_def plic_set_ie_def
  plic_set_thresh_def of_pair_def Let_def upd_io_writel

text \<open>
  Initialisation of the interrupt controller in the cold boot, on each of the two harts: all interrupt sources get priority zero, and of the enable words of the hart's two contexts only the lowest
  bit is set, which is that of the source number zero that no device has; the threshold of M-mode is 1 and that of S-mode 0.
\<close>

theorem ariane_irqchip_enables_bit_zero:
  assumes "drv_plic (m_drv m) = ariane_plic" and "h < 2"
  shows "\<exists>m'. ariane_irqchip_init dev h True m = Ret 0 m' \<and>
    (let c = of_nat (2 * h) in m_trace m' =
       [Io_wr 4 (plic_thresh (c + 1)) 0, Io_wr 4 (plic_thresh c) 1, Io_wr 4 (plic_enable (c + 1)) 1, Io_wr 4 (plic_enable c) 1,
        Io_wr 4 (plic_prio 3) 0, Io_wr 4 (plic_prio 2) 0, Io_wr 4 (plic_prio 1) 0] @ m_trace m)"
proof -
  have up: "[Suc 0..<4] = [1, 2, 3]" by (simp add: upt_rec)
  define m1 where "m1 = fold (\<lambda>i. plic_set_priority dev ariane_plic (of_nat i) 0) [1, 2, 3] m"
  have cold: "plic_cold_irqchip_init dev (Some ariane_plic) m = Ret 0 m1"
    by (simp add: plic_cold_irqchip_init_def ariane_plic_def up m1_def)
  have m1: "drv_plic (m_drv m1) = ariane_plic" "m_trace m1 = [Io_wr 4 (plic_prio 3) 0, Io_wr 4 (plic_prio 2) 0, Io_wr 4 (plic_prio 1) 0] @ m_trace m"
    using assms(1) by (simp_all add: m1_def plic_set_priority_def upd_io_writel ariane_plic_def del: m_trace_upd_io)
  have "h = 0 \<or> h = 1" using assms(2) by auto
  then show ?thesis using assms(1) cold m1 by (elim disjE) (simp_all add: irqchip_defs ariane_plic_def del: m_trace_upd_io)
qed

theorem ariane_irqchip_enables_bit_zero_witness:
  "\<exists>m'. ariane_irqchip_init (p_dev plat_example) 1 True ariane_machine = Ret 0 m' \<and> reg_val 4 0xc002180 (m_trace m') = Some 1"
  using ariane_irqchip_enables_bit_zero [of ariane_machine 1 "p_dev plat_example"]
  by (auto simp: ariane_machine_def ariane_drv_def drv_boot_def Let_def)

section \<open>The table of callbacks\<close>

text \<open>A callback that returns; the ones of this platform always do on its own data.\<close>

definition run_pair :: "machine \<Rightarrow> int run \<Rightarrow> int \<times> machine" where
  "run_pair m r = (case r of Ret rc m' \<Rightarrow> (rc, m') | _ \<Rightarrow> (SBI_EFAIL, m))"

definition ariane_ops :: "sbi_plat \<Rightarrow> ariane_fdt \<Rightarrow> (machine \<Rightarrow> machine) \<Rightarrow> int list \<Rightarrow> hartid \<Rightarrow> sbi_platform_operations" where
  "ariane_ops pl fdt fdt_fixups inp h =
     \<lparr>po_early_init = Some (ariane_early_init fdt), po_final_init = Some (ariane_final_init fdt_fixups), po_early_exit = None, po_final_exit = None,
      po_domains_init = None, po_pmu_init = None, po_pmu_xlate = None,
      po_console_init = Some (\<lambda>m. run_pair m (ariane_console_init (p_dev pl) inp m)),
      po_irqchip_init = Some (\<lambda>cold m. run_pair m (ariane_irqchip_init (p_dev pl) h cold m)), po_irqchip_exit = None,
      po_ipi_init = Some (\<lambda>cold m. run_pair m (ariane_ipi_init pl h cold m)), po_ipi_exit = None, po_tlbr_flush_limit = None,
      po_timer_init = Some (\<lambda>cold m. run_pair m (ariane_timer_init pl h cold m)), po_timer_exit = None,
      po_vendor_ext_check = None, po_vendor_ext_provider = None\<rparr>"


text \<open>None of the drivers touches the state of \<^verbatim>\<open>sbi_init.c\<close>.\<close>

lemma init_set_reg [simp]: "m_init (set_reg dev num v m) = m_init m"
  by (simp add: set_reg_def Let_def)

lemma init_get_reg [simp]: "m_init (snd (get_reg dev num m)) = m_init m"
  by (simp add: get_reg_def drv_read_def Let_def split: prod.split)

lemma init_console: "ariane_console_init dev inp m = Ret rc m' \<Longrightarrow> m_init m' = m_init m"
  by (auto simp: ariane_console_init_def uart8250_init_def Let_def sbi_console_set_device_def split: if_splits option.splits)

lemma init_plic_priority [simp]: "m_init (plic_set_priority dev p w v m) = m_init m"
  by (simp add: plic_set_priority_def)

lemma init_plic_fold [simp]: "m_init (fold (\<lambda>i. plic_set_ie dev plic c (w i) v) xs m) = m_init m"
  "m_init (fold (\<lambda>i. plic_set_priority dev p (w i) v) xs m) = m_init m"
  by (induction xs arbitrary: m) (auto simp: plic_set_ie_def plic_set_priority_def split: option.split)

lemma init_irqchip: "ariane_irqchip_init dev h cold m = Ret rc m' \<Longrightarrow> m_init m' = m_init m"
  by (auto simp: irqchip_defs plic_cold_irqchip_init_def run_bind_eq_Ret split: if_splits option.splits)

abbreviation keeps_init :: "init_sys \<Rightarrow> 'a run \<Rightarrow> bool" where
  "keeps_init i \<equiv> ends (\<lambda>m. m_init m = i)"

lemma keeps_initD: "keeps_init (m_init m) r \<Longrightarrow> r = Ret rc m' \<Longrightarrow> m_init m' = m_init m"
  by simp

lemma keeps_bind: "keeps_init i r \<Longrightarrow> (\<And>x m. m_init m = i \<Longrightarrow> keeps_init i (f x m)) \<Longrightarrow> keeps_init i (run_bind r f)"
  by (rule ends_bind)

lemma keeps_regions: "m_init m = i \<Longrightarrow> keeps_init i (run_regions r m)"
  by (simp add: run_regions_def split: option.split prod.split)

lemma init_set_device [simp]: "m_init (sbi_ipi_set_device x m) = m_init m" "m_init (sbi_timer_set_device y m) = m_init m"
  by (simp_all add: sbi_ipi_set_device_def sbi_timer_set_device_def Let_def split: option.split)

lemma keeps_mswi_cold: "m_init m = i \<Longrightarrow> keeps_init i (aclint_mswi_cold_init pl p m)"
  by (simp add: aclint_mswi_cold_init_def Let_def split: option.split)
    (auto intro!: keeps_bind keeps_regions split: option.split)

lemma keeps_ipi: "m_init m = i \<Longrightarrow> keeps_init i (ariane_ipi_init pl h cold m)"
  unfolding ariane_ipi_init_def
  by (rule keeps_bind)
    (simp_all add: keeps_mswi_cold of_pair_def aclint_mswi_warm_init_def mswi_ipi_clear_def mswi_write_def Let_def split: option.split)

lemma keeps_mt_time:
  "m_init m = i \<Longrightarrow> keeps_init i (mt_time_rd dev mt a m)" "m_init m = i \<Longrightarrow> keeps_init i (mt_time_wr dev mt c v a m)"
  by (simp_all add: mt_time_rd_def mt_time_wr_def drv_wait_def split: option.split mtimer_access.split prod.split)

lemma keeps_sync: "m_init m = i \<Longrightarrow> keeps_init i (aclint_mtimer_sync dev p m)"
  by (simp add: aclint_mtimer_sync_def Let_def upd_mtimer_def split: option.split prod.split)
    (auto intro!: keeps_bind keeps_mt_time)

lemma keeps_layout: "m_init m = i \<Longrightarrow> keeps_init i (mtimer_layout pl d m)"
  by (auto simp: mtimer_layout_def aclint_mtimer_add_regions_def intro!: keeps_bind keeps_regions)

lemma keeps_mtimer_cold: "m_init m = i \<Longrightarrow> keeps_init i (aclint_mtimer_cold_init pl p ref m)"
  by (simp add: aclint_mtimer_cold_init_def aclint_mtimer_set_reference_def upd_mtimer_def Let_def split: option.split)
    (auto intro!: keeps_bind keeps_layout split: option.split)

lemma keeps_timer: "m_init m = i \<Longrightarrow> keeps_init i (ariane_timer_init pl h cold m)"
  unfolding ariane_timer_init_def aclint_mtimer_warm_init_def
  by (rule keeps_bind)
    (auto simp: keeps_mtimer_cold Let_def intro!: keeps_bind keeps_sync keeps_mt_time split: option.split)

lemma init_early: "m_init (snd (ariane_early_init fdt cold m)) = m_init m"
  by (simp add: ariane_early_init_def Let_def set_opt_def upd_mtimer_def split: option.split)

lemma init_run_pair: "(\<And>rc m'. r = Ret rc m' \<Longrightarrow> m_init m' = m_init m) \<Longrightarrow> m_init (snd (run_pair m r)) = m_init m"
  by (cases r) (simp_all add: run_pair_def)

text \<open>
  The callbacks of the Ariane platform leave the state of the boot sequence alone, whatever the hardware answers and the device tree holds, so that on this platform no hart is released from its wait
  before the cold boot has succeeded.
\<close>

theorem ariane_ops_quiet:
  assumes "\<And>m. m_init (fdt_fixups m) = m_init m"
  shows "plat_quiet (ariane_ops pl fdt fdt_fixups inp h)"
proof -
  note cb = init_run_pair [OF init_console] init_run_pair [OF init_irqchip] init_run_pair [OF keeps_initD [OF keeps_ipi [OF refl]]] init_run_pair [OF keeps_initD [OF keeps_timer [OF refl]]] init_early assms
  show ?thesis by (simp add: plat_quiet_def ariane_ops_def plat_init_def not_done_def ariane_final_init_def cb)
qed

theorem ariane_ops_quiet_witness:
  "plat_quiet (ariane_ops plat_example \<lparr>fdt_uart = None, fdt_plic = None, fdt_timebase = None, fdt_clint = None\<rparr> (\<lambda>m. m) [] 0)"
  by (rule ariane_ops_quiet) simp

end
