(* ===== verification/Fdt_Core.thy ===== *)
theory Fdt_Core
  imports Sbi_String "HOL-Library.Monad_Syntax"
begin

text \<open>
  The traversal layer of the flattened device tree library that the firmware is built with,
  \<^verbatim>\<open>lib/utils/libfdt/fdt.c\<close> (checks enabled: \<^verbatim>\<open>FDT_ASSUME_MASK\<close> is 0). The blob is the list of
  bytes of the object at its base address; a pointer into it is a byte index. The outer option of
  every operation is \<open>None\<close> when the code would read outside the object or would not return, so a
  \<open>Some\<close> result also says that the call returned and stayed inside the blob; the inner option of a
  pointer result is \<^verbatim>\<open>NULL\<close>. A C \<^verbatim>\<open>int\<close> is an \<open>int\<close> in the range of 32 bits, with the conversion
  \<open>int32\<close> written out wherever the code converts from a wider or unsigned expression, and a
  \<^verbatim>\<open>uint32_t\<close> is a 32-bit word. Where a C name ends in an underscore the model appends \<open>i\<close>. The theory ends with the safety of the token reader on arbitrary
  bytes and with the one malformed property on which the walk does not end.
\<close>

section \<open>Blob and header\<close>

record fdt_blob =
  fdt_addr :: ulong
  fdt_mem :: bytes

definition be32 :: "u8 \<Rightarrow> u8 \<Rightarrow> u8 \<Rightarrow> u8 \<Rightarrow> u32" where
  "be32 b0 b1 b2 b3 =
     push_bit 24 (ucast b0) OR push_bit 16 (ucast b1) OR push_bit 8 (ucast b2) OR ucast b3"

definition fdt32_ld :: "fdt_blob \<Rightarrow> nat \<Rightarrow> u32 option" where
  "fdt32_ld fdt p =
     (if p + 4 \<le> length (fdt_mem fdt)
      then Some (be32 (fdt_mem fdt ! p) (fdt_mem fdt ! (p + 1)) (fdt_mem fdt ! (p + 2)) (fdt_mem fdt ! (p + 3)))
      else None)"

definition fdt8_ld :: "fdt_blob \<Rightarrow> nat \<Rightarrow> u8 option" where
  "fdt8_ld fdt p = (if p < length (fdt_mem fdt) then Some (fdt_mem fdt ! p) else None)"

abbreviation (input) INT_MAX :: int where "INT_MAX \<equiv> 2147483647"
abbreviation (input) FDT_MAGIC :: u32 where "FDT_MAGIC \<equiv> 0xd00dfeed"
abbreviation (input) FDT_SW_MAGIC :: u32 where "FDT_SW_MAGIC \<equiv> 0x2ff20112"
abbreviation (input) FDT_BEGIN_NODE :: u32 where "FDT_BEGIN_NODE \<equiv> 1"
abbreviation (input) FDT_END_NODE :: u32 where "FDT_END_NODE \<equiv> 2"
abbreviation (input) FDT_PROP :: u32 where "FDT_PROP \<equiv> 3"
abbreviation (input) FDT_NOP :: u32 where "FDT_NOP \<equiv> 4"
abbreviation (input) FDT_END :: u32 where "FDT_END \<equiv> 9"
abbreviation (input) FDT_TAGSIZE :: int where "FDT_TAGSIZE \<equiv> 4"

abbreviation (input) FDT_ERR_NOTFOUND :: int where "FDT_ERR_NOTFOUND \<equiv> 1"
abbreviation (input) FDT_ERR_NOSPACE :: int where "FDT_ERR_NOSPACE \<equiv> 3"
abbreviation (input) FDT_ERR_BADOFFSET :: int where "FDT_ERR_BADOFFSET \<equiv> 4"
abbreviation (input) FDT_ERR_BADPATH :: int where "FDT_ERR_BADPATH \<equiv> 5"
abbreviation (input) FDT_ERR_BADPHANDLE :: int where "FDT_ERR_BADPHANDLE \<equiv> 6"
abbreviation (input) FDT_ERR_BADSTATE :: int where "FDT_ERR_BADSTATE \<equiv> 7"
abbreviation (input) FDT_ERR_TRUNCATED :: int where "FDT_ERR_TRUNCATED \<equiv> 8"
abbreviation (input) FDT_ERR_BADMAGIC :: int where "FDT_ERR_BADMAGIC \<equiv> 9"
abbreviation (input) FDT_ERR_BADVERSION :: int where "FDT_ERR_BADVERSION \<equiv> 10"
abbreviation (input) FDT_ERR_BADSTRUCTURE :: int where "FDT_ERR_BADSTRUCTURE \<equiv> 11"
abbreviation (input) FDT_ERR_INTERNAL :: int where "FDT_ERR_INTERNAL \<equiv> 13"
abbreviation (input) FDT_ERR_BADNCELLS :: int where "FDT_ERR_BADNCELLS \<equiv> 14"
abbreviation (input) FDT_ERR_BADVALUE :: int where "FDT_ERR_BADVALUE \<equiv> 15"
abbreviation (input) FDT_ERR_NOPHANDLES :: int where "FDT_ERR_NOPHANDLES \<equiv> 17"
abbreviation (input) FDT_ERR_ALIGNMENT :: int where "FDT_ERR_ALIGNMENT \<equiv> 19"

definition fdt_magic :: "fdt_blob \<Rightarrow> u32 option" where "fdt_magic fdt = fdt32_ld fdt 0"
definition fdt_totalsize :: "fdt_blob \<Rightarrow> u32 option" where "fdt_totalsize fdt = fdt32_ld fdt 4"
definition fdt_off_dt_struct :: "fdt_blob \<Rightarrow> u32 option" where "fdt_off_dt_struct fdt = fdt32_ld fdt 8"
definition fdt_off_dt_strings :: "fdt_blob \<Rightarrow> u32 option" where "fdt_off_dt_strings fdt = fdt32_ld fdt 12"
definition fdt_off_mem_rsvmap :: "fdt_blob \<Rightarrow> u32 option" where "fdt_off_mem_rsvmap fdt = fdt32_ld fdt 16"
definition fdt_version :: "fdt_blob \<Rightarrow> u32 option" where "fdt_version fdt = fdt32_ld fdt 20"
definition fdt_last_comp_version :: "fdt_blob \<Rightarrow> u32 option" where
  "fdt_last_comp_version fdt = fdt32_ld fdt 24"
definition fdt_size_dt_strings :: "fdt_blob \<Rightarrow> u32 option" where
  "fdt_size_dt_strings fdt = fdt32_ld fdt 32"
definition fdt_size_dt_struct :: "fdt_blob \<Rightarrow> u32 option" where
  "fdt_size_dt_struct fdt = fdt32_ld fdt 36"

lemmas fdt_header_defs = fdt_magic_def fdt_totalsize_def fdt_off_dt_struct_def
  fdt_off_dt_strings_def fdt_off_mem_rsvmap_def fdt_version_def fdt_last_comp_version_def
  fdt_size_dt_strings_def fdt_size_dt_struct_def

section \<open>Header checks\<close>

definition fdt_ro_probe_i :: "fdt_blob \<Rightarrow> int option" where
  "fdt_ro_probe_i fdt = do {
     totalsize \<leftarrow> fdt_totalsize fdt;
     if fdt_addr fdt AND 7 \<noteq> 0 then Some (- FDT_ERR_ALIGNMENT) else do {
       magic \<leftarrow> fdt_magic fdt;
       err \<leftarrow> (if magic = FDT_MAGIC then do {
                 version \<leftarrow> fdt_version fdt;
                 if version < 0x02 then Some (- FDT_ERR_BADVERSION) else do {
                   lastv \<leftarrow> fdt_last_comp_version fdt;
                   Some (if lastv > 0x11 then - FDT_ERR_BADVERSION else 0) } }
               else if magic = FDT_SW_MAGIC then do {
                 sz \<leftarrow> fdt_size_dt_struct fdt;
                 Some (if sz = 0 then - FDT_ERR_BADSTATE else 0) }
               else Some (- FDT_ERR_BADMAGIC));
       Some (if err \<noteq> 0 then err
             else if uint totalsize < INT_MAX then uint totalsize else - FDT_ERR_TRUNCATED) } }"

definition check_off_i :: "u32 \<Rightarrow> u32 \<Rightarrow> u32 \<Rightarrow> bool" where
  "check_off_i hdrsize totalsize off \<longleftrightarrow> off \<ge> hdrsize \<and> off \<le> totalsize"

definition check_block_i :: "u32 \<Rightarrow> u32 \<Rightarrow> u32 \<Rightarrow> u32 \<Rightarrow> bool" where
  "check_block_i hdrsize totalsize base sz \<longleftrightarrow>
     (if \<not> check_off_i hdrsize totalsize base then False
      else if base + sz < base then False
      else if \<not> check_off_i hdrsize totalsize (base + sz) then False
      else True)"

definition fdt_header_size_i :: "u32 \<Rightarrow> u32" where
  "fdt_header_size_i version =
     (if version \<le> 1 then 28 else if version \<le> 2 then 32 else if version \<le> 3 then 36
      else if version \<le> 16 then 36 else 40)"

definition fdt_header_size :: "fdt_blob \<Rightarrow> u32 option" where
  "fdt_header_size fdt = do { version \<leftarrow> fdt_version fdt; Some (fdt_header_size_i version) }"

definition fdt_check_header :: "fdt_blob \<Rightarrow> int option" where
  "fdt_check_header fdt =
     (if fdt_addr fdt AND 7 \<noteq> 0 then Some (- FDT_ERR_ALIGNMENT) else do {
       magic \<leftarrow> fdt_magic fdt;
       if magic \<noteq> FDT_MAGIC then Some (- FDT_ERR_BADMAGIC) else do {
       version \<leftarrow> fdt_version fdt;
       lastv \<leftarrow> fdt_last_comp_version fdt;
       if version < 0x02 \<or> lastv > 0x11 then Some (- FDT_ERR_BADVERSION)
       else if version < lastv then Some (- FDT_ERR_BADVERSION) else do {
       hdrsize \<leftarrow> fdt_header_size fdt;
       totalsize \<leftarrow> fdt_totalsize fdt;
       if totalsize < hdrsize \<or> uint totalsize > INT_MAX then Some (- FDT_ERR_TRUNCATED) else do {
       rsv \<leftarrow> fdt_off_mem_rsvmap fdt;
       if \<not> check_off_i hdrsize totalsize rsv then Some (- FDT_ERR_TRUNCATED) else do {
       st \<leftarrow> fdt_off_dt_struct fdt;
       ok \<leftarrow> (if version < 17 then Some (check_off_i hdrsize totalsize st) else do {
               sz \<leftarrow> fdt_size_dt_struct fdt;
               Some (check_block_i hdrsize totalsize st sz) });
       if \<not> ok then Some (- FDT_ERR_TRUNCATED) else do {
       strs \<leftarrow> fdt_off_dt_strings fdt;
       sz \<leftarrow> fdt_size_dt_strings fdt;
       Some (if \<not> check_block_i hdrsize totalsize strs sz then - FDT_ERR_TRUNCATED else 0) } } } } } })"

section \<open>Reading one token\<close>

definition fdt_offset_ptr_i :: "fdt_blob \<Rightarrow> int \<Rightarrow> nat option" where
  "fdt_offset_ptr_i fdt offset = do { st \<leftarrow> fdt_off_dt_struct fdt; Some (nat (uint st + offset)) }"

definition fdt_offset_ptr :: "fdt_blob \<Rightarrow> int \<Rightarrow> u32 \<Rightarrow> nat option option" where
  "fdt_offset_ptr fdt offset len = do {
     st \<leftarrow> fdt_off_dt_struct fdt;
     let uoffset = word_of_int offset;
     let absoffset = word_of_int offset + st;
     if offset < 0 then Some None else do {
     totalsize \<leftarrow> fdt_totalsize fdt;
     if absoffset < uoffset \<or> absoffset + len < absoffset \<or> absoffset + len > totalsize
     then Some None else do {
     version \<leftarrow> fdt_version fdt;
     bad \<leftarrow> (if version \<ge> 0x11 then do {
              sz \<leftarrow> fdt_size_dt_struct fdt;
              Some (uoffset + len < uoffset \<or> word_of_int offset + len > sz) }
            else Some False);
     if bad then Some None else do {
     p \<leftarrow> fdt_offset_ptr_i fdt offset;
     Some (Some p) } } } }"

text \<open>
  The loop over the name of a node: \<open>Some (Some offset)\<close> is the offset behind the terminator,
  \<open>Some None\<close> a \<^verbatim>\<open>NULL\<close> from \<^verbatim>\<open>fdt_offset_ptr\<close>. Incrementing \<^verbatim>\<open>offset\<close> past \<^verbatim>\<open>INT_MAX\<close> is
  undefined and has the result \<open>None\<close>.
\<close>

function skip_name :: "fdt_blob \<Rightarrow> int \<Rightarrow> int option option" where
  "skip_name fdt offset =
     (case fdt_offset_ptr fdt offset 1 of
        None \<Rightarrow> None
      | Some None \<Rightarrow> Some None
      | Some (Some p) \<Rightarrow>
          if offset \<ge> INT_MAX then None
          else (case fdt8_ld fdt p of
                  None \<Rightarrow> None
                | Some c \<Rightarrow> if c \<noteq> 0 then skip_name fdt (offset + 1) else Some (Some (offset + 1))))"
  by pat_completeness auto

termination
  by (relation "measure (\<lambda>(fdt, offset). nat (INT_MAX - offset))") auto

definition FDT_TAGALIGN :: "int \<Rightarrow> int" where
  "FDT_TAGALIGN x = int32 ((x + 4 - 1) AND NOT 3)"

definition fdt_next_tag :: "fdt_blob \<Rightarrow> int \<Rightarrow> (u32 \<times> int) option" where
  "fdt_next_tag fdt startoffset = do {
     tagp \<leftarrow> fdt_offset_ptr fdt startoffset 4;
     case tagp of None \<Rightarrow> Some (FDT_END, - FDT_ERR_TRUNCATED) | Some tp \<Rightarrow> do {
     tag \<leftarrow> fdt32_ld fdt tp;
     let offset = int32 (startoffset + FDT_TAGSIZE);
     behind \<leftarrow>
       (if tag = FDT_BEGIN_NODE then skip_name fdt offset
        else if tag = FDT_PROP then do {
          lenp \<leftarrow> fdt_offset_ptr fdt offset 4;
          case lenp of None \<Rightarrow> Some None | Some lp \<Rightarrow> do {
          len \<leftarrow> fdt32_ld fdt lp;
          let offset = int32 (offset + 12 - FDT_TAGSIZE + uint len);
          version \<leftarrow> fdt_version fdt;
          Some (Some (if version < 0x10 \<and> len \<ge> 8 \<and> (word_of_int offset - len) mod 8 \<noteq> 0
                      then int32 (offset + 4) else offset)) } }
        else if tag = FDT_END \<or> tag = FDT_END_NODE \<or> tag = FDT_NOP then Some (Some offset)
        else Some None);
     case behind of None \<Rightarrow> Some (FDT_END, - FDT_ERR_BADSTRUCTURE) | Some offset \<Rightarrow> do {
     whole \<leftarrow> fdt_offset_ptr fdt startoffset (word_of_int (offset - startoffset));
     case whole of None \<Rightarrow> Some (FDT_END, - FDT_ERR_BADSTRUCTURE)
     | Some _ \<Rightarrow> Some (tag, FDT_TAGALIGN offset) } } }"

section \<open>Walking the nodes\<close>

definition fdt_check_node_offset_i :: "fdt_blob \<Rightarrow> int \<Rightarrow> int option" where
  "fdt_check_node_offset_i fdt offset =
     (if offset < 0 \<or> offset mod FDT_TAGSIZE \<noteq> 0 then Some (- FDT_ERR_BADOFFSET) else do {
      (tag, nextoffset) \<leftarrow> fdt_next_tag fdt offset;
      Some (if tag \<noteq> FDT_BEGIN_NODE then - FDT_ERR_BADOFFSET else nextoffset) })"

definition fdt_check_prop_offset_i :: "fdt_blob \<Rightarrow> int \<Rightarrow> int option" where
  "fdt_check_prop_offset_i fdt offset =
     (if offset < 0 \<or> offset mod FDT_TAGSIZE \<noteq> 0 then Some (- FDT_ERR_BADOFFSET) else do {
      (tag, nextoffset) \<leftarrow> fdt_next_tag fdt offset;
      Some (if tag \<noteq> FDT_PROP then - FDT_ERR_BADOFFSET else nextoffset) })"

text \<open>The pointer argument \<^verbatim>\<open>depth\<close> is \<open>None\<close> for \<^verbatim>\<open>NULL\<close>; the updated value is returned.\<close>

partial_function (option) next_node_loop ::
    "fdt_blob \<Rightarrow> int \<Rightarrow> int option \<Rightarrow> (int \<times> int option) option" where
  "next_node_loop fdt offset depth = do {
     (tag, nextoffset) \<leftarrow> fdt_next_tag fdt offset;
     if tag = FDT_BEGIN_NODE then Some (offset, map_option (\<lambda>d. d + 1) depth)
     else if tag = FDT_END_NODE then
       (case depth of
          None \<Rightarrow> next_node_loop fdt nextoffset depth
        | Some d \<Rightarrow> if d - 1 < 0 then Some (nextoffset, Some (d - 1))
                    else next_node_loop fdt nextoffset (Some (d - 1)))
     else if tag = FDT_END then
       (if nextoffset \<ge> 0 \<or> (nextoffset = - FDT_ERR_TRUNCATED \<and> depth = None)
        then Some (- FDT_ERR_NOTFOUND, depth) else Some (nextoffset, depth))
     else next_node_loop fdt nextoffset depth }"

declare next_node_loop.simps [code]

definition fdt_next_node :: "fdt_blob \<Rightarrow> int \<Rightarrow> int option \<Rightarrow> (int \<times> int option) option" where
  "fdt_next_node fdt offset depth = do {
     nextoffset \<leftarrow> (if offset \<ge> 0 then fdt_check_node_offset_i fdt offset else Some 0);
     if nextoffset < 0 then Some (nextoffset, depth) else next_node_loop fdt nextoffset depth }"

definition fdt_first_subnode :: "fdt_blob \<Rightarrow> int \<Rightarrow> int option" where
  "fdt_first_subnode fdt offset = do {
     (offset, depth) \<leftarrow> fdt_next_node fdt offset (Some 0);
     Some (if offset < 0 \<or> depth \<noteq> Some 1 then - FDT_ERR_NOTFOUND else offset) }"

partial_function (option) next_subnode_loop :: "fdt_blob \<Rightarrow> int \<Rightarrow> int \<Rightarrow> int option" where
  "next_subnode_loop fdt offset depth = do {
     (offset, depth') \<leftarrow> fdt_next_node fdt offset (Some depth);
     (case depth' of
        None \<Rightarrow> None
      | Some d \<Rightarrow>
          if offset < 0 \<or> d < 1 then Some (- FDT_ERR_NOTFOUND)
          else if d > 1 then next_subnode_loop fdt offset d
          else Some offset) }"

declare next_subnode_loop.simps [code]

definition fdt_next_subnode :: "fdt_blob \<Rightarrow> int \<Rightarrow> int option" where
  "fdt_next_subnode fdt offset = next_subnode_loop fdt offset 1"

text \<open>\<^verbatim>\<open>fdt_find_string_\<close> on a string table given as its own object.\<close>

function find_string_loop :: "bytes \<Rightarrow> nat \<Rightarrow> int \<Rightarrow> bytes \<Rightarrow> nat \<Rightarrow> nat option option" where
  "find_string_loop strtab p lst s len =
     (if int p \<le> lst then
        (case sbi_memcmp (drop p strtab) s len of
           None \<Rightarrow> None
         | Some r \<Rightarrow> if r = 0 then Some (Some p) else find_string_loop strtab (p + 1) lst s len)
      else Some None)"
  by pat_completeness auto

termination
  by (relation "measure (\<lambda>(strtab, p, lst, s, len). nat (lst + 1 - int p))") auto

definition fdt_find_string_i :: "bytes \<Rightarrow> int \<Rightarrow> bytes \<Rightarrow> nat option option" where
  "fdt_find_string_i strtab tabsize s = do {
     n \<leftarrow> sbi_strlen s;
     let len = int32 (uint n + 1);
     find_string_loop strtab 0 (tabsize - len) s (nat len) }"


section \<open>Objects that hold their blob\<close>

text \<open>
  What the callers guarantee: the object holds at least the header and the \<^verbatim>\<open>totalsize\<close> bytes that
  the header announces, a size that \<^verbatim>\<open>fdt_ro_probe_\<close> accepts and that leaves room to round
  the last offset up within an \<^verbatim>\<open>int\<close>. Nothing is assumed about the other bytes.
\<close>

definition fdt_object :: "fdt_blob \<Rightarrow> bool" where
  "fdt_object fdt \<longleftrightarrow> 40 \<le> length (fdt_mem fdt) \<and>
     (case fdt_totalsize fdt of None \<Rightarrow> False
      | Some n \<Rightarrow> unat n \<le> length (fdt_mem fdt) \<and> uint n < 2147483640)"

definition rd32 :: "fdt_blob \<Rightarrow> nat \<Rightarrow> u32" where
  "rd32 fdt p = be32 (fdt_mem fdt ! p) (fdt_mem fdt ! (p + 1)) (fdt_mem fdt ! (p + 2)) (fdt_mem fdt ! (p + 3))"

definition struct_end :: "fdt_blob \<Rightarrow> nat" where
  "struct_end fdt = unat (rd32 fdt 4)"

definition struct_off :: "fdt_blob \<Rightarrow> nat" where
  "struct_off fdt = unat (rd32 fdt 8)"

lemma fdt32_ld_eq: "p + 4 \<le> length (fdt_mem fdt) \<Longrightarrow> fdt32_ld fdt p = Some (rd32 fdt p)"
  by (simp add: fdt32_ld_def rd32_def)

lemma fdt_header_reads:
  assumes "fdt_object fdt"
  shows "fdt_magic fdt = Some (rd32 fdt 0)" "fdt_totalsize fdt = Some (rd32 fdt 4)"
    "fdt_off_dt_struct fdt = Some (rd32 fdt 8)" "fdt_off_dt_strings fdt = Some (rd32 fdt 12)"
    "fdt_off_mem_rsvmap fdt = Some (rd32 fdt 16)" "fdt_version fdt = Some (rd32 fdt 20)"
    "fdt_last_comp_version fdt = Some (rd32 fdt 24)" "fdt_size_dt_strings fdt = Some (rd32 fdt 32)"
    "fdt_size_dt_struct fdt = Some (rd32 fdt 36)"
  using assms by (simp_all add: fdt_object_def fdt_header_defs fdt32_ld_eq)

lemma fdt_object_size:
  assumes "fdt_object fdt"
  shows "struct_end fdt \<le> length (fdt_mem fdt)" and "struct_end fdt < 2147483640"
proof -
  let ?n = "rd32 fdt 4"
  have "unat ?n \<le> length (fdt_mem fdt)" and "uint ?n < 2147483640"
    using assms fdt_header_reads(2) [OF assms] by (simp_all add: fdt_object_def)
  moreover have "uint ?n = int (unat ?n)" by simp
  ultimately have "int (unat ?n) < 2147483640" by (simp only:)
  then show "struct_end fdt < 2147483640" unfolding struct_end_def by linarith
  show "struct_end fdt \<le> length (fdt_mem fdt)" unfolding struct_end_def by fact
qed

lemma unat_word_of_int_small: "0 \<le> x \<Longrightarrow> x < 2 ^ 32 \<Longrightarrow> unat (word_of_int x :: u32) = nat x"
  by (simp add: unsigned_of_int take_bit_int_eq_self)

lemma u32_add_no_wrap: "\<not> (a :: u32) + b < a \<Longrightarrow> unat (a + b) = unat a + unat b"
  by (simp add: unat_plus_if' word_less_nat_alt word_le_nat_alt split: if_splits)
     (use unat_less_width [of a] unat_less_width [of b] in simp)

definition ptr_bad :: "fdt_blob \<Rightarrow> int \<Rightarrow> u32 \<Rightarrow> bool" where
  "ptr_bad fdt offset len \<longleftrightarrow>
     (let u = word_of_int offset; a = u + rd32 fdt 8 in
      offset < 0 \<or> a < u \<or> a + len < a \<or> a + len > rd32 fdt 4 \<or>
      (rd32 fdt 20 \<ge> 17 \<and> (u + len < u \<or> u + len > rd32 fdt 36)))"

lemma fdt_offset_ptr_eq:
  assumes "fdt_object fdt"
  shows "fdt_offset_ptr fdt offset len =
    Some (if ptr_bad fdt offset len then None else Some (nat (uint (rd32 fdt 8) + offset)))"
  unfolding fdt_offset_ptr_def fdt_offset_ptr_i_def fdt_header_reads [OF assms] ptr_bad_def Let_def
  by simp

text \<open>
  A pointer from \<^verbatim>\<open>fdt_offset_ptr\<close> is never dangling: the \<open>len\<close> bytes behind it lie inside the
  announced size, however the three additions of the checks wrap.
\<close>

lemma fdt_offset_ptr_returns:
  assumes "fdt_object fdt" and "offset < 2 ^ 31"
  obtains "fdt_offset_ptr fdt offset len = Some None"
  | p where "fdt_offset_ptr fdt offset len = Some (Some p)" and "0 \<le> offset"
      and "p = struct_off fdt + nat offset" and "p + unat len \<le> struct_end fdt"
proof -
  define st where "st = rd32 fdt 8"
  let ?u = "word_of_int offset :: u32"
  consider "ptr_bad fdt offset len"
    | "\<not> ptr_bad fdt offset len" "0 \<le> offset"
      "\<not> ?u + st < ?u" "\<not> ?u + st + len < ?u + st" "\<not> ?u + st + len > rd32 fdt 4"
    unfolding ptr_bad_def Let_def st_def by fastforce
  then show thesis
  proof cases
    case 2
    have "unat (?u + st) = nat offset + unat st"
      using u32_add_no_wrap [OF 2(3)] unat_word_of_int_small [of offset] 2(2) assms(2) by simp
    then have "unat (?u + st + len) = nat offset + unat st + unat len"
      using u32_add_no_wrap [OF 2(4)] by simp
    then have "unat st + nat offset + unat len \<le> struct_end fdt"
      using 2(5) by (simp add: struct_end_def word_less_nat_alt)
    moreover have "nat (uint st + offset) = unat st + nat offset" using 2(2) by (simp add: nat_add_distrib)
    ultimately show thesis using that(2) 2 fdt_offset_ptr_eq [OF assms(1)] by (simp add: st_def struct_off_def)
  qed (use that(1) fdt_offset_ptr_eq [OF assms(1)] in simp)
qed


section \<open>Reading a token is safe on arbitrary bytes\<close>

lemma skip_name_returns:
  "fdt_object fdt \<Longrightarrow> offset < 2 ^ 31 \<Longrightarrow> \<exists>r. skip_name fdt offset = Some r \<and>
    (\<forall>o'. r = Some o' \<longrightarrow> offset < o' \<and> int (struct_off fdt) + o' \<le> int (struct_end fdt))"
proof (induction fdt offset rule: skip_name.induct)
  case (1 fdt offset)
  note obj = 1(2)
  show ?case
  proof (rule fdt_offset_ptr_returns [OF 1(2,3), where len = 1])
    assume "fdt_offset_ptr fdt offset 1 = Some None"
    then show ?thesis by (subst skip_name.simps) simp
  next
    fix p
    assume p: "fdt_offset_ptr fdt offset 1 = Some (Some p)" "0 \<le> offset"
      "p = struct_off fdt + nat offset" "p + unat (1 :: u32) \<le> struct_end fdt"
    then have small: "\<not> offset \<ge> INT_MAX" "p < length (fdt_mem fdt)"
      using fdt_object_size [OF obj] by auto
    then have rd: "fdt8_ld fdt p = Some (fdt_mem fdt ! p)" by (simp add: fdt8_ld_def)
    have step: "skip_name fdt offset =
        (if fdt_mem fdt ! p \<noteq> 0 then skip_name fdt (offset + 1) else Some (Some (offset + 1)))"
      using p(1) rd small by (subst skip_name.simps) simp
    show ?thesis
    proof (cases "fdt_mem fdt ! p = 0")
      case True
      then show ?thesis unfolding step using p by auto
    next
      case False
      with 1(1) [OF p(1) refl small(1) rd] obj small(1) p(2) show ?thesis
        unfolding step by fastforce
    qed
  qed
qed

lemma int_and_not_3: "(x :: int) AND NOT 3 = x div 4 * 4"
proof -
  have "x AND NOT (mask 2) = push_bit 2 (drop_bit 2 x)"
    by (rule bit_eqI) (auto simp: bit_simps not_less dest: le_Suc_ex)
  then show ?thesis by (simp add: push_bit_eq_mult drop_bit_eq_div mask_eq_exp_minus_1)
qed

lemma FDT_TAGALIGN_eq: "0 \<le> x \<Longrightarrow> x < 2 ^ 31 - 4 \<Longrightarrow> FDT_TAGALIGN x = (x + 3) div 4 * 4"
  unfolding FDT_TAGALIGN_def int_and_not_3 by (subst int32_id) auto

lemma align_progress:
  "(offset :: int) mod 4 = 0 \<Longrightarrow> offset \<le> o' \<Longrightarrow>
    offset + 4 \<le> (o' + 3) div 4 * 4 \<or> (o' + 3) div 4 * 4 = offset \<and> o' = offset"
  by presburger

lemma whole_token:
  assumes "fdt_object fdt" and "offset < 2 ^ 31" and "- (2 ^ 31) \<le> o'" and "o' < 2 ^ 31"
    and "fdt_offset_ptr fdt offset (word_of_int (o' - offset)) = Some (Some p)"
  shows "0 \<le> offset \<and> offset \<le> o' \<and> int (struct_off fdt) + o' \<le> int (struct_end fdt)"
proof (rule fdt_offset_ptr_returns [OF assms(1,2), where len = "word_of_int (o' - offset)"])
  fix p'
  assume p: "0 \<le> offset" "p' = struct_off fdt + nat offset"
    "p' + unat (word_of_int (o' - offset) :: u32) \<le> struct_end fdt"
  show ?thesis
  proof (cases "offset \<le> o'")
    case True
    then show ?thesis using p assms(3,4) unat_word_of_int_small [of "o' - offset"] by simp
  next
    case False
    have "(word_of_int (o' - offset) :: u32) = word_of_int (o' - offset + 2 ^ 32)"
      by (simp add: word_of_int_eq_iff take_bit_eq_mod)
    moreover have "unat (word_of_int (o' - offset + 2 ^ 32) :: u32) = nat (o' - offset + 2 ^ 32)"
      using False p(1) assms(2,3) by (intro unat_word_of_int_small) auto
    ultimately have "unat (word_of_int (o' - offset) :: u32) = nat (o' - offset + 2 ^ 32)"
      by (simp only:)
    then show ?thesis using p fdt_object_size [OF assms(1)] assms(2,3) False by simp
  qed
qed (use assms(5) in simp)


text \<open>What the switch over the tag leaves as the offset behind the token.\<close>

definition behind_tag :: "fdt_blob \<Rightarrow> u32 \<Rightarrow> int \<Rightarrow> int option option" where
  "behind_tag fdt tag offset =
     (if tag = FDT_BEGIN_NODE then skip_name fdt offset
      else if tag = FDT_PROP then do {
        lenp \<leftarrow> fdt_offset_ptr fdt offset 4;
        case lenp of None \<Rightarrow> Some None | Some lp \<Rightarrow> do {
        len \<leftarrow> fdt32_ld fdt lp;
        let offset = int32 (offset + 12 - FDT_TAGSIZE + uint len);
        version \<leftarrow> fdt_version fdt;
        Some (Some (if version < 0x10 \<and> len \<ge> 8 \<and> (word_of_int offset - len) mod 8 \<noteq> 0
                    then int32 (offset + 4) else offset)) } }
      else if tag = FDT_END \<or> tag = FDT_END_NODE \<or> tag = FDT_NOP then Some (Some offset)
      else Some None)"

lemma fdt_next_tag_behind:
  "fdt_next_tag fdt startoffset = do {
     tagp \<leftarrow> fdt_offset_ptr fdt startoffset 4;
     case tagp of None \<Rightarrow> Some (FDT_END, - FDT_ERR_TRUNCATED) | Some tp \<Rightarrow> do {
     tag \<leftarrow> fdt32_ld fdt tp;
     behind \<leftarrow> behind_tag fdt tag (int32 (startoffset + FDT_TAGSIZE));
     case behind of None \<Rightarrow> Some (FDT_END, - FDT_ERR_BADSTRUCTURE) | Some offset \<Rightarrow> do {
     whole \<leftarrow> fdt_offset_ptr fdt startoffset (word_of_int (offset - startoffset));
     case whole of None \<Rightarrow> Some (FDT_END, - FDT_ERR_BADSTRUCTURE)
     | Some _ \<Rightarrow> Some (tag, FDT_TAGALIGN offset) } } }"
  unfolding fdt_next_tag_def behind_tag_def Let_def by (rule refl)

lemma fdt32_ld_ptr:
  assumes "fdt_object fdt" and "p + unat (4 :: u32) \<le> struct_end fdt"
  shows "fdt32_ld fdt p = Some (rd32 fdt p)"
  using assms fdt_object_size [OF assms(1)] by (intro fdt32_ld_eq) simp

lemma behind_tag_returns:
  assumes obj: "fdt_object fdt" and off: "0 \<le> offset" "offset + 4 < 2 ^ 31"
  shows "\<exists>r. behind_tag fdt tag (offset + 4) = Some r \<and>
    (\<forall>o'. r = Some o' \<longrightarrow> - (2 ^ 31) \<le> o' \<and> o' < 2 ^ 31 \<and> (tag \<noteq> FDT_PROP \<longrightarrow> offset + 4 \<le> o') \<and>
       tag \<in> {FDT_BEGIN_NODE, FDT_END_NODE, FDT_PROP, FDT_NOP, FDT_END})"
proof (cases "tag = FDT_PROP")
  case True
  show ?thesis
  proof (rule fdt_offset_ptr_returns [OF obj, of "offset + 4" 4])
    show "offset + 4 < 2 ^ 31" by (rule off)
  next
    fix p assume p: "fdt_offset_ptr fdt (offset + 4) 4 = Some (Some p)" "p + unat (4 :: u32) \<le> struct_end fdt"
    then show ?thesis
      unfolding behind_tag_def using True fdt32_ld_ptr [OF obj p(2)]
      by (simp add: fdt_header_reads [OF obj] Let_def int32_range)
  qed (simp add: behind_tag_def True)
next
  case False
  then show ?thesis
    using skip_name_returns [OF obj off(2)] off fdt_object_size [OF obj]
    by (auto simp: behind_tag_def)
qed


text \<open>
  The token reader on arbitrary bytes: it returns and stays inside the object; an error offset comes
  only with the tag \<^verbatim>\<open>FDT_END\<close>; otherwise the next offset is aligned, lies at most behind the
  announced size and is either past the whole tag or the offset of the token itself, and the latter
  happens on properties only.
\<close>

lemma fdt_next_tag_returns:
  assumes obj: "fdt_object fdt" and off: "offset < 2 ^ 31" "offset mod 4 = 0"
  obtains "fdt_next_tag fdt offset = Some (FDT_END, - FDT_ERR_TRUNCATED)"
  | "fdt_next_tag fdt offset = Some (FDT_END, - FDT_ERR_BADSTRUCTURE)"
  | tag nextoffset where "fdt_next_tag fdt offset = Some (tag, nextoffset)" and "0 \<le> offset"
      and "nextoffset mod 4 = 0" and "nextoffset < int (struct_end fdt) + 4"
      and "offset + 4 \<le> nextoffset \<or> nextoffset = offset \<and> tag = FDT_PROP"
      and "tag \<in> {FDT_BEGIN_NODE, FDT_END_NODE, FDT_PROP, FDT_NOP, FDT_END}"
proof (rule fdt_offset_ptr_returns [OF obj off(1), where len = 4])
  assume "fdt_offset_ptr fdt offset 4 = Some None"
  then show thesis using that(1) by (simp add: fdt_next_tag_behind)
next
  fix p
  assume p: "fdt_offset_ptr fdt offset 4 = Some (Some p)" "0 \<le> offset"
    "p = struct_off fdt + nat offset" "p + unat (4 :: u32) \<le> struct_end fdt"
  define tag where "tag = rd32 fdt p"
  have small: "offset + 4 < 2 ^ 31" using p fdt_object_size [OF obj] by simp
  then have tagoff: "int32 (offset + 4) = offset + 4" using p(2) by (intro int32_id) auto
  obtain r where r: "behind_tag fdt tag (offset + 4) = Some r"
    "\<And>o'. r = Some o' \<Longrightarrow> - (2 ^ 31) \<le> o' \<and> o' < 2 ^ 31 \<and> (tag \<noteq> FDT_PROP \<longrightarrow> offset + 4 \<le> o') \<and>
       tag \<in> {FDT_BEGIN_NODE, FDT_END_NODE, FDT_PROP, FDT_NOP, FDT_END}"
    using behind_tag_returns [OF obj p(2) small] by blast
  note step = fdt_next_tag_behind [of fdt offset]
  show thesis
  proof (cases r)
    case None
    then show thesis
      using that(2) p(1) r(1) fdt32_ld_ptr [OF obj p(4)] by (simp add: step tagoff flip: tag_def)
  next
    case (Some o')
    have rd: "fdt32_ld fdt p = Some tag" using fdt32_ld_ptr [OF obj p(4)] by (simp add: tag_def)
    note o' = r(2) [OF Some]
    show thesis
    proof (rule fdt_offset_ptr_returns [OF obj off(1), where len = "word_of_int (o' - offset)"])
      assume "fdt_offset_ptr fdt offset (word_of_int (o' - offset)) = Some None"
      then show thesis using that(2) p(1) r(1) rd Some by (simp add: step tagoff)
    next
      fix q assume q: "fdt_offset_ptr fdt offset (word_of_int (o' - offset)) = Some (Some q)"
      then have w: "offset \<le> o'" "int (struct_off fdt) + o' \<le> int (struct_end fdt)"
        using whole_token [OF obj off(1) _ _ q] o' by auto
      then have al: "FDT_TAGALIGN o' = (o' + 3) div 4 * 4"
        using p(2) fdt_object_size [OF obj] by (intro FDT_TAGALIGN_eq) auto
      show thesis
      proof (rule that(3))
        show "fdt_next_tag fdt offset = Some (tag, FDT_TAGALIGN o')"
          using p(1) r(1) rd Some q by (simp add: step tagoff)
        show "FDT_TAGALIGN o' mod 4 = 0" by (simp add: al)
        show "FDT_TAGALIGN o' < int (struct_end fdt) + 4" using w unfolding al by linarith
        show "offset + 4 \<le> FDT_TAGALIGN o' \<or> FDT_TAGALIGN o' = offset \<and> tag = FDT_PROP"
          using align_progress [OF off(2) w(1)] o' unfolding al by auto
      qed (use p o' in auto)
    qed
  qed
qed


section \<open>Walking the nodes ends\<close>

text \<open>
  A token is stuck when its next offset is its own. \<open>fdt_advances\<close> excludes stuck tokens at the
  aligned offsets up to the announced size.
\<close>

definition stuck :: "fdt_blob \<Rightarrow> int \<Rightarrow> bool" where
  "stuck fdt offset \<longleftrightarrow> fdt_next_tag fdt offset = Some (FDT_PROP, offset)"

definition fdt_advances :: "fdt_blob \<Rightarrow> bool" where
  "fdt_advances fdt \<longleftrightarrow> list_all (\<lambda>k. \<not> stuck fdt (4 * int k)) [0..<struct_end fdt div 4 + 2]"

lemma fdt_advancesD:
  assumes "fdt_advances fdt" and "fdt_object fdt" and "offset mod 4 = 0" and "offset < 2 ^ 31"
  shows "\<not> stuck fdt offset"
proof
  assume st: "stuck fdt offset"
  have "0 \<le> offset \<and> offset < int (struct_end fdt) + 4"
    by (rule fdt_next_tag_returns [OF assms(2,4,3)]) (use st in \<open>simp_all add: stuck_def\<close>)
  moreover from this obtain k where "offset = 4 * int k"
    using assms(3) by (auto elim!: dvdE simp: mod_eq_0_iff_dvd intro: that [of "nat (offset div 4)"])
  moreover have "k < e div 4 + 2" if "4 * int k < int e + 4" for e using that by presburger
  ultimately have "offset = 4 * int k" "k < struct_end fdt div 4 + 2" by simp_all
  with assms(1) st show False unfolding fdt_advances_def list_all_iff set_upt by fastforce
qed

definition at_node :: "fdt_blob \<Rightarrow> int \<Rightarrow> bool" where
  "at_node fdt offset \<longleftrightarrow> 0 \<le> offset \<and> offset mod 4 = 0 \<and> offset < 2 ^ 31 \<and>
     (case fdt_next_tag fdt offset of Some (tag, n) \<Rightarrow> tag = FDT_BEGIN_NODE | None \<Rightarrow> False)"

text \<open>
  What a call of \<^verbatim>\<open>fdt_next_node\<close> leaves: an error, a node at or behind \<open>lo\<close>, or the end of the
  enclosing node, which shows in a negative depth.
\<close>

definition walk_result :: "fdt_blob \<Rightarrow> int \<Rightarrow> int option \<Rightarrow> int \<times> int option \<Rightarrow> bool" where
  "walk_result fdt lo depth r \<longleftrightarrow> (case r of (o', d) \<Rightarrow>
     (d = None \<longleftrightarrow> depth = None) \<and>
     (0 \<le> o' \<longrightarrow> lo \<le> o' \<and> o' < 2 ^ 31 \<and> ((\<exists>n. d = Some n \<and> n < 0) \<or> at_node fdt o')))"

lemma walk_result_mono: "walk_result fdt lo depth r \<Longrightarrow> lo' \<le> lo \<Longrightarrow> (depth = None \<longleftrightarrow> depth' = None) \<Longrightarrow>
    walk_result fdt lo' depth' r"
  by (auto simp: walk_result_def)

lemma next_node_loop_step:
  assumes "fdt_next_tag fdt offset = Some (tag, n)"
  shows "next_node_loop fdt offset depth =
    (if tag = FDT_BEGIN_NODE then Some (offset, map_option (\<lambda>d. d + 1) depth)
     else if tag = FDT_END_NODE then
       (case depth of
          None \<Rightarrow> next_node_loop fdt n depth
        | Some d \<Rightarrow> if d - 1 < 0 then Some (n, Some (d - 1)) else next_node_loop fdt n (Some (d - 1)))
     else if tag = FDT_END then
       (if n \<ge> 0 \<or> (n = - FDT_ERR_TRUNCATED \<and> depth = None)
        then Some (- FDT_ERR_NOTFOUND, depth) else Some (n, depth))
     else next_node_loop fdt n depth)"
  by (subst next_node_loop.simps) (simp add: assms)

lemma next_node_loop_returns:
  assumes obj: "fdt_object fdt" and adv: "fdt_advances fdt"
  shows "offset < 2 ^ 31 \<Longrightarrow> offset mod 4 = 0 \<Longrightarrow>
    \<exists>r. next_node_loop fdt offset depth = Some r \<and> walk_result fdt offset depth r"
proof (induction "nat (int (struct_end fdt) + 4 - offset)" arbitrary: offset depth rule: less_induct)
  case less
  show ?case
  proof (rule fdt_next_tag_returns [OF obj less(2,3)])
    assume "fdt_next_tag fdt offset = Some (FDT_END, - FDT_ERR_TRUNCATED)"
    then show ?thesis by (simp add: next_node_loop_step walk_result_def)
  next
    assume "fdt_next_tag fdt offset = Some (FDT_END, - FDT_ERR_BADSTRUCTURE)"
    then show ?thesis by (simp add: next_node_loop_step walk_result_def)
  next
    fix tag n
    assume n: "fdt_next_tag fdt offset = Some (tag, n)" "0 \<le> offset" "n mod 4 = 0"
      "n < int (struct_end fdt) + 4" "offset + 4 \<le> n \<or> n = offset \<and> tag = FDT_PROP"
      "tag \<in> {FDT_BEGIN_NODE, FDT_END_NODE, FDT_PROP, FDT_NOP, FDT_END}"
    then have step: "offset + 4 \<le> n"
      using fdt_advancesD [OF adv obj less(3,2)] by (auto simp: stuck_def)
    have n31: "n < 2 ^ 31" using n(4) fdt_object_size [OF obj] by simp
    have rec: "\<exists>r. next_node_loop fdt n d = Some r \<and> walk_result fdt offset depth r"
      if "d = None \<longleftrightarrow> depth = None" for d
    proof -
      have "nat (int (struct_end fdt) + 4 - n) < nat (int (struct_end fdt) + 4 - offset)"
        using step n(4) by linarith
      from less(1) [OF this n31 n(3), of d] obtain r
        where "next_node_loop fdt n d = Some r" "walk_result fdt n d r" by blast
      then show ?thesis using walk_result_mono [of fdt n d r offset depth] step that by auto
    qed
    note unfold = next_node_loop_step [OF n(1), of depth]
    consider "tag = FDT_BEGIN_NODE" | "tag = FDT_END_NODE" | "tag = FDT_END" | "tag = FDT_PROP \<or> tag = FDT_NOP"
      using n(6) by blast
    then show ?thesis
    proof cases
      case 1
      with n(1,2) less(2,3) show ?thesis unfolding unfold by (auto simp: walk_result_def at_node_def)
    next
      case 2
      show ?thesis
      proof (cases depth)
        case (Some d)
        with 2 rec [of "Some (d - 1)"] step n31 show ?thesis
          unfolding unfold by (cases "d - 1 < 0") (simp_all add: walk_result_def)
      next
        case None
        with 2 rec [of None] show ?thesis unfolding unfold by simp
      qed
    next
      case 3
      then show ?thesis using n(2) step unfolding unfold by (simp add: walk_result_def)
    next
      case 4
      then show ?thesis using rec [of depth] unfolding unfold by auto
    qed
  qed
qed


lemma fdt_check_node_offset_returns:
  assumes "fdt_object fdt" and "offset < 2 ^ 31"
  shows "\<exists>n. fdt_check_node_offset_i fdt offset = Some n \<and>
    (0 \<le> n \<longrightarrow> 0 \<le> offset \<and> at_node fdt offset \<and> offset + 4 \<le> n \<and> n mod 4 = 0 \<and> n < 2 ^ 31)"
proof (cases "offset < 0 \<or> offset mod 4 \<noteq> 0")
  case False
  then have al: "0 \<le> offset" "offset mod 4 = 0" by auto
  show ?thesis
    by (rule fdt_next_tag_returns [OF assms al(2)])
       (use al assms fdt_object_size [OF assms(1)] in
         \<open>auto simp: fdt_check_node_offset_i_def at_node_def split: if_splits\<close>)
qed (auto simp: fdt_check_node_offset_i_def)

lemma fdt_next_node_returns:
  assumes "fdt_object fdt" and "fdt_advances fdt" and "offset < 2 ^ 31"
  shows "\<exists>r. fdt_next_node fdt offset depth = Some r \<and> walk_result fdt (offset + 1) depth r"
proof -
  obtain n where n: "(if offset \<ge> 0 then fdt_check_node_offset_i fdt offset else Some 0) = Some n"
    "0 \<le> n \<longrightarrow> offset < n \<and> n mod 4 = 0 \<and> n < 2 ^ 31"
    using fdt_check_node_offset_returns [OF assms(1,3)] by (cases "offset \<ge> 0") auto
  show ?thesis
  proof (cases "n < 0")
    case True
    with n(1) show ?thesis by (simp add: fdt_next_node_def walk_result_def)
  next
    case False
    then obtain r where "next_node_loop fdt n depth = Some r" "walk_result fdt n depth r"
      using next_node_loop_returns [OF assms(1,2), of n depth] n(2) by auto
    with False n walk_result_mono [of fdt n depth r "offset + 1" depth] show ?thesis
      by (simp add: fdt_next_node_def)
  qed
qed

text \<open>On a stuck token the loop never ends, whatever is passed for the depth.\<close>

lemma next_node_loop_stuck:
  assumes "stuck fdt offset"
  shows "next_node_loop fdt offset depth = None"
proof (rule ccontr)
  assume "next_node_loop fdt offset depth \<noteq> None"
  then obtain r where "next_node_loop fdt offset depth = Some r" by blast
  then have "(\<lambda>f o' d r'. \<not> (f = fdt \<and> o' = offset)) fdt offset depth r"
    by (rule next_node_loop.raw_induct [rotated])
       (use assms in \<open>auto simp: stuck_def bind_eq_Some_conv split: if_splits option.splits\<close>)
  then show False by simp
qed


section \<open>The property length on which the walk hangs\<close>

lemma ptr_bad_shorter:
  assumes "\<not> ptr_bad fdt offset n" and "m \<le> n"
  shows "\<not> ptr_bad fdt offset m"
proof -
  have *: "\<not> a + m < a \<and> a + m \<le> a + n" if "\<not> a + n < a" for a :: u32
    using u32_add_no_wrap [OF that] assms(2) unat_less_width [of "a + n"]
    by (auto simp: word_less_nat_alt word_le_nat_alt unat_plus_if')
  show ?thesis
    using assms(1) *[of "word_of_int offset"] *[of "word_of_int offset + rd32 fdt 8"]
    unfolding ptr_bad_def Let_def by (meson leD le_less_linear order_trans)
qed

lemma int32_wrap: "int32 (x + 4294967296) = int32 x"
  unfolding int32_def using signed_take_bit_eq_iff_take_bit_eq [of 31 "x + 4294967296" x]
  by (simp add: take_bit_eq_mod)

lemma int32_eqD: "int32 x = int32 y \<Longrightarrow> (x - y) mod 4294967296 = 0"
  unfolding int32_def signed_take_bit_eq_iff_take_bit_eq
  by (simp add: take_bit_eq_mod mod_eq_dvd_iff)

lemma wrap_to_zero:
  assumes "(12 + x :: int) mod 4294967296 = 0" and "0 \<le> x" and "x < 4294967296"
  shows "x = 4294967284"
proof -
  obtain k where k: "12 + x = 4294967296 * k" using assms(1) by (auto simp: mod_eq_0_iff_dvd dvd_def)
  then have "0 < k" "k < 2" using assms(2,3) by linarith+
  with k show ?thesis by (cases "k = 1") auto
qed

text \<open>The reader on a readable property token: where it ends, and when the end is refused.\<close>

lemma next_prop_token:
  assumes obj: "fdt_object fdt" and v: "rd32 fdt 20 \<ge> 16" and off: "offset < 2 ^ 31"
    and tag: "\<not> ptr_bad fdt offset 4" "rd32 fdt (struct_off fdt + nat offset) = FDT_PROP"
    and len: "\<not> ptr_bad fdt (offset + 4) 4"
    and o': "o' = int32 (offset + 12 + uint (rd32 fdt (struct_off fdt + nat offset + 4)))"
  shows "fdt_next_tag fdt offset =
      (if ptr_bad fdt offset (word_of_int (o' - offset)) then Some (FDT_END, - FDT_ERR_BADSTRUCTURE)
       else Some (FDT_PROP, FDT_TAGALIGN o'))"
    and "0 \<le> offset" and "offset + 4 < 2 ^ 31"
    and "\<not> ptr_bad fdt offset (word_of_int (o' - offset)) \<Longrightarrow> offset \<le> o' \<and> int (struct_off fdt) + o' \<le> int (struct_end fdt)"
proof -
  let ?p = "struct_off fdt + nat offset" and ?len = "rd32 fdt (struct_off fdt + nat offset + 4)"
  show pos: "0 \<le> offset" using tag(1) by (simp add: ptr_bad_def Let_def)
  have p: "nat (uint (rd32 fdt 8) + offset) = ?p"
    using pos by (simp add: struct_off_def nat_add_distrib)
  have p4: "nat (uint (rd32 fdt 8) + (offset + 4)) = ?p + 4"
    using pos by (simp add: struct_off_def nat_add_distrib)
  have ptr4: "fdt_offset_ptr fdt offset 4 = Some (Some ?p)"
    "fdt_offset_ptr fdt (offset + 4) 4 = Some (Some (?p + 4))"
    using tag(1) len by (simp_all only: fdt_offset_ptr_eq [OF obj] p p4 if_False)
  have b: "?p + unat (4 :: u32) \<le> struct_end fdt"
    by (rule fdt_offset_ptr_returns [OF obj off, where len = 4]) (use ptr4 in auto)
  then show off4: "offset + 4 < 2 ^ 31" using pos fdt_object_size(2) [OF obj] by simp
  have b4: "?p + 4 + unat (4 :: u32) \<le> struct_end fdt"
    by (rule fdt_offset_ptr_returns [OF obj off4, where len = 4]) (use ptr4 pos in auto)
  have "behind_tag fdt FDT_PROP (int32 (offset + 4)) = Some (Some o')"
    using ptr4 leD [OF v] pos off4 fdt32_ld_ptr [OF obj b4]
    by (simp add: behind_tag_def int32_id fdt_header_reads [OF obj] Let_def o' algebra_simps)
  then show "fdt_next_tag fdt offset =
      (if ptr_bad fdt offset (word_of_int (o' - offset)) then Some (FDT_END, - FDT_ERR_BADSTRUCTURE)
       else Some (FDT_PROP, FDT_TAGALIGN o'))"
    using ptr4(1) fdt32_ld_ptr [OF obj b] tag(2)
    unfolding fdt_next_tag_behind by (simp add: fdt_offset_ptr_eq [OF obj])
  show "offset \<le> o' \<and> int (struct_off fdt) + o' \<le> int (struct_end fdt)"
    if "\<not> ptr_bad fdt offset (word_of_int (o' - offset))"
    using whole_token [OF obj off, of o'] that int32_range [of "offset + 12 + uint ?len"]
    by (simp_all add: fdt_offset_ptr_eq [OF obj] o')
qed

lemma prop_token_readable:
  assumes "fdt_object fdt" and "offset < 2 ^ 31" and "0 \<le> offset" and "fdt_next_tag fdt offset = Some (FDT_PROP, n)"
  shows "\<not> ptr_bad fdt offset 4" and "rd32 fdt (struct_off fdt + nat offset) = FDT_PROP"
    and "\<not> ptr_bad fdt (offset + 4) 4"
proof -
  have p: "nat (uint (rd32 fdt 8) + offset) = struct_off fdt + nat offset"
    using assms(3) by (simp add: struct_off_def nat_add_distrib)
  show good: "\<not> ptr_bad fdt offset 4"
    using assms(4) by (auto simp: fdt_next_tag_behind fdt_offset_ptr_eq [OF assms(1)])
  then have ptr: "fdt_offset_ptr fdt offset 4 = Some (Some (struct_off fdt + nat offset))"
    by (simp only: fdt_offset_ptr_eq [OF assms(1)] p if_False)
  have b: "struct_off fdt + nat offset + unat (4 :: u32) \<le> struct_end fdt"
    by (rule fdt_offset_ptr_returns [OF assms(1,2), where len = 4]) (use ptr in auto)
  note ld = fdt32_ld_ptr [OF assms(1) b]
  show tag: "rd32 fdt (struct_off fdt + nat offset) = FDT_PROP"
    using assms(4) by (auto simp: fdt_next_tag_behind ptr ld bind_eq_Some_conv split: option.splits)
  have "int32 (offset + 4) = offset + 4"
    using b assms(3) fdt_object_size(2) [OF assms(1)] by (intro int32_id) auto
  then have "behind_tag fdt FDT_PROP (int32 (offset + 4)) = Some None" if "ptr_bad fdt (offset + 4) 4"
    using that by (simp add: behind_tag_def fdt_offset_ptr_eq [OF assms(1)])
  then show "\<not> ptr_bad fdt (offset + 4) 4"
    using assms(4) tag by (auto simp: fdt_next_tag_behind ptr ld)
qed

text \<open>
  A property token that the reader accepts has a length below \<open>2 ^ 31\<close>, or one of the twelve lengths
  for which 12 plus the length wraps.
\<close>

lemma accepted_length:
  assumes "fdt_object fdt" and "rd32 fdt 20 \<ge> 16" and "offset < 2 ^ 31" and "0 \<le> offset"
    and acc: "fdt_next_tag fdt offset = Some (FDT_PROP, n)"
  shows "uint (rd32 fdt (struct_off fdt + nat offset + 4)) < 2147483648 \<or>
    4294967284 \<le> uint (rd32 fdt (struct_off fdt + nat offset + 4))"
proof (rule ccontr)
  let ?l = "uint (rd32 fdt (struct_off fdt + nat offset + 4))"
  assume "\<not> (?l < 2147483648 \<or> 4294967284 \<le> ?l)"
  then have l: "2147483648 \<le> ?l" "?l < 4294967284" by auto
  define o' where "o' = int32 (offset + 12 + ?l)"
  note t = next_prop_token [OF assms(1,2,3) prop_token_readable [OF assms(1,3,4) acc] o'_def]
  have "\<not> ptr_bad fdt offset (word_of_int (o' - offset))" using t(1) acc by (auto split: if_splits)
  then have ge: "offset \<le> o'" using t(4) by blast
  define x where "x = offset + 12 + ?l - 4294967296"
  have "x + 4294967296 = offset + 12 + ?l" unfolding x_def by linarith
  then have "o' = int32 (x + 4294967296)" by (simp only: o'_def)
  also have "\<dots> = int32 x" by (rule int32_wrap)
  also have "\<dots> = x"
  proof (rule int32_id)
    have "offset < 2147483648" using assms(3) by simp
    then have "- 2147483648 \<le> x" "x < 2147483648" using l t(2) unfolding x_def by linarith+
    then show "- (2 ^ 31) \<le> x" "x < 2 ^ 31" by simp_all
  qed
  finally have "o' = x" .
  then show False using ge l unfolding x_def by linarith
qed

lemma stuck_iff:
  assumes obj: "fdt_object fdt" and v: "rd32 fdt 20 \<ge> 16" and off: "offset < 2 ^ 31" "offset mod 4 = 0"
    and tag: "\<not> ptr_bad fdt offset 4" "rd32 fdt (struct_off fdt + nat offset) = FDT_PROP"
    and len: "\<not> ptr_bad fdt (offset + 4) 4"
  shows "stuck fdt offset \<longleftrightarrow> rd32 fdt (struct_off fdt + nat offset + 4) = 0xfffffff4"
proof -
  let ?len = "rd32 fdt (struct_off fdt + nat offset + 4)"
  define o' where "o' = int32 (offset + 12 + uint ?len)"
  note t = next_prop_token [OF obj v off(1) tag len o'_def]
  note nt = t(1) and pos = t(2) and off4 = t(3)
  show ?thesis
  proof
    assume "?len = 0xfffffff4"
    then have "o' = int32 (4294967296 + offset)" by (simp add: o'_def)
    then have "o' = offset" using int32_id [of offset] int32_wrap [of offset] pos off(1)
      by (simp add: add.commute)
    moreover have "FDT_TAGALIGN offset = offset"
      using align_progress [OF off(2), of offset] FDT_TAGALIGN_eq [of offset] pos off4 off(2) by auto
    moreover have "\<not> ptr_bad fdt offset 0" using ptr_bad_shorter [OF tag(1)] by simp
    ultimately show "stuck fdt offset" using nt by (simp add: stuck_def)
  next
    assume "stuck fdt offset"
    then have ok: "\<not> ptr_bad fdt offset (word_of_int (o' - offset))" and al: "FDT_TAGALIGN o' = offset"
      using nt by (auto simp: stuck_def split: if_splits)
    have w: "offset \<le> o'" "int (struct_off fdt) + o' \<le> int (struct_end fdt)" using t(4) [OF ok] by simp_all
    then have "FDT_TAGALIGN o' = (o' + 3) div 4 * 4"
      using pos fdt_object_size [OF obj] by (intro FDT_TAGALIGN_eq) auto
    with al w(1) align_progress [OF off(2) w(1)] have "o' = offset" by auto
    then have "int32 (offset + 12 + uint ?len) = int32 offset"
      using int32_id [of offset] pos off(1) by (simp add: o'_def)
    from int32_eqD [OF this] have "(12 + uint ?len) mod 4294967296 = 0" by simp
    moreover have "0 \<le> uint ?len" "uint ?len < 4294967296" using uint_bounded [of ?len] by simp_all
    ultimately have "uint ?len = uint (0xfffffff4 :: u32)" using wrap_to_zero by simp
    then show "?len = 0xfffffff4" by (simp only: word_uint_eq_iff)
  qed
qed


text \<open>
  C16. On every object that holds its blob, whatever the bytes of the blob are, \<^verbatim>\<open>fdt_next_node\<close>
  returns without reading outside the object, provided no property token leads back to itself; the
  node it reports lies strictly behind the offset it started from, so that every search built on it
  ends.
\<close>

theorem fdt_next_node_safe:
  assumes "fdt_object fdt" and "fdt_advances fdt" and "offset < 2 ^ 31"
  shows "\<exists>o' d. fdt_next_node fdt offset depth = Some (o', d) \<and>
    (0 \<le> o' \<longrightarrow> offset < o' \<and> (at_node fdt o' \<or> (\<exists>n. d = Some n \<and> n < 0)))"
  using fdt_next_node_returns [OF assms, of depth] by (auto simp: walk_result_def)

text \<open>Only the aligned words of the blob that hold the tag of a property have to be looked at.\<close>

definition prop_cell :: "fdt_blob \<Rightarrow> nat \<Rightarrow> bool" where
  "prop_cell fdt k \<longleftrightarrow>
     (if struct_off fdt + 4 * k + 4 \<le> struct_end fdt then rd32 fdt (struct_off fdt + 4 * k) = FDT_PROP else False)"

lemma prop_tag_cell:
  assumes "fdt_object fdt" and "4 * int k < 2 ^ 31" and "fdt_next_tag fdt (4 * int k) = Some (FDT_PROP, n)"
  shows "prop_cell fdt k"
proof (rule fdt_offset_ptr_returns [OF assms(1,2), of 4])
  assume "fdt_offset_ptr fdt (4 * int k) 4 = Some None"
  with assms(3) show ?thesis by (simp add: fdt_next_tag_behind)
next
  fix p assume p: "fdt_offset_ptr fdt (4 * int k) 4 = Some (Some p)" "p = struct_off fdt + nat (4 * int k)"
    "p + unat (4 :: u32) \<le> struct_end fdt"
  have ld: "fdt32_ld fdt p = Some (rd32 fdt p)" by (rule fdt32_ld_ptr [OF assms(1) p(3)])
  have "rd32 fdt p = FDT_PROP"
    using assms(3) by (auto simp: fdt_next_tag_behind p(1) ld bind_eq_Some_conv split: option.splits)
  moreover have "nat (4 * int k) = 4 * k" by simp
  ultimately show ?thesis using p(2,3) by (simp add: prop_cell_def)
qed

lemma cell_bound: "fdt_object fdt \<Longrightarrow> k < struct_end fdt div 4 + 2 \<Longrightarrow> 4 * int k < 2 ^ 31"
proof -
  assume "fdt_object fdt" "k < struct_end fdt div 4 + 2"
  then have "4 * k < 2147483648" using fdt_object_size(2) [of fdt] div_times_less_eq_dividend [of "struct_end fdt" 4] by linarith
  then show "4 * int k < 2 ^ 31" by simp
qed

lemma fdt_advances_cells:
  assumes "fdt_object fdt"
    and "list_all (\<lambda>k. if prop_cell fdt k then \<not> stuck fdt (4 * int k) else True) [0..<struct_end fdt div 4 + 2]"
  shows "fdt_advances fdt"
proof -
  have "\<not> stuck fdt (4 * int k)" if k: "k < struct_end fdt div 4 + 2" for k
  proof
    assume st: "stuck fdt (4 * int k)"
    then have "prop_cell fdt k"
      using prop_tag_cell [OF assms(1) cell_bound [OF assms(1) k]] by (simp add: stuck_def)
    moreover have "k \<in> {0..<struct_end fdt div 4 + 2}" using k by simp
    ultimately show False using assms(2) st unfolding list_all_iff set_upt by meson
  qed
  then show ?thesis unfolding fdt_advances_def list_all_iff set_upt by simp
qed

text \<open>A small blob: a root node with one property whose length field is the parameter.\<close>

definition fdt_one_prop :: "u8 \<Rightarrow> u8 \<Rightarrow> fdt_blob" where
  "fdt_one_prop hi lo = \<lparr>fdt_addr = 0x82200000,
     fdt_mem = [0xd0, 0x0d, 0xfe, 0xed, 0, 0, 0, 80, 0, 0, 0, 40, 0, 0, 0, 72, 0, 0, 0, 40, 0, 0, 0, 17,
       0, 0, 0, 16, 0, 0, 0, 0, 0, 0, 0, 8, 0, 0, 0, 32,
       0, 0, 0, 1, 0, 0, 0, 0, 0, 0, 0, 3, hi, hi, hi, lo, 0, 0, 0, 0,
       0, 0, 0, 2, 0, 0, 0, 4, 0, 0, 0, 9,
       112, 104, 97, 110, 100, 108, 101, 0]\<rparr>"

theorem fdt_next_node_safe_witness:
  "\<exists>o' d. fdt_next_node (fdt_one_prop 0 0) 0 None = Some (o', d) \<and>
    (0 \<le> o' \<longrightarrow> 0 < o' \<and> (at_node (fdt_one_prop 0 0) o' \<or> (\<exists>n. d = Some n \<and> n < 0)))"
proof -
  have obj: "fdt_object (fdt_one_prop 0 0)" by code_simp
  moreover have "fdt_advances (fdt_one_prop 0 0)" by (rule fdt_advances_cells [OF obj]) code_simp
  ultimately show ?thesis using fdt_next_node_safe [of "fdt_one_prop 0 0" 0 None] by simp
qed

text \<open>
  C40. In blobs of version 16 and later exactly one property length breaks the walk: a readable
  property token is its own successor if and only if its length field is \<^verbatim>\<open>0xfffffff4\<close>, for which
  12 plus the length wraps to 0, and then \<^verbatim>\<open>fdt_next_node\<close> from the node that holds it as its first
  token never returns.
\<close>

theorem fdt_next_node_hangs:
  assumes "fdt_object fdt" and "rd32 fdt 20 \<ge> 16"
    and "fdt_check_node_offset_i fdt node = Some offset" and "0 \<le> node" and "0 \<le> offset"
    and "offset < 2 ^ 31" and "offset mod 4 = 0"
    and "\<not> ptr_bad fdt offset 4" and "rd32 fdt (struct_off fdt + nat offset) = FDT_PROP"
    and "\<not> ptr_bad fdt (offset + 4) 4"
  shows "(stuck fdt offset \<longleftrightarrow> rd32 fdt (struct_off fdt + nat offset + 4) = 0xfffffff4) \<and>
    (rd32 fdt (struct_off fdt + nat offset + 4) = 0xfffffff4 \<longrightarrow> fdt_next_node fdt node depth = None)"
  using stuck_iff [OF assms(1,2,6,7,8,9,10)] next_node_loop_stuck [of fdt offset depth] assms(3,4,5)
  by (simp add: fdt_next_node_def)

theorem fdt_next_node_hangs_witness:
  "fdt_next_node (fdt_one_prop 0xff 0xf4) 0 None = None"
proof -
  let ?b = "fdt_one_prop 0xff 0xf4"
  have "fdt_object ?b" "rd32 ?b 20 \<ge> 16" "fdt_check_node_offset_i ?b 0 = Some 8"
    "\<not> ptr_bad ?b 8 4" "\<not> ptr_bad ?b (8 + 4) 4"
    "rd32 ?b (struct_off ?b + nat 8) = 3" "rd32 ?b (struct_off ?b + nat 8 + 4) = 0xfffffff4"
    by code_simp+
  then show ?thesis using fdt_next_node_hangs [of ?b 0 8 None] by simp
qed

end
