(* ===== verification/Fdt_Ro.thy ===== *)
theory Fdt_Ro
  imports Fdt_Core
begin

text \<open>
  The read-only operations of the flattened device tree library,
  \<^verbatim>\<open>lib/utils/libfdt/fdt_ro.c\<close>, with the cell counts of \<^verbatim>\<open>fdt_addresses.c\<close>: names, property
  values, lookups by path, phandle, property value and compatible string, parents and string lists,
  on the blobs and with the conventions of \<^verbatim>\<open>Fdt_Core\<close>. A result pointer comes with the value that
  the call stores through \<^verbatim>\<open>lenp\<close>; a string argument is the bytes of its object from the pointer
  on. Loops over the nodes are partial functions, and the second half of the theory shows that they
  return on every object in which the node walk advances.
\<close>

section \<open>Strings and names\<close>

definition fdt_get_string :: "fdt_blob \<Rightarrow> int \<Rightarrow> (nat option \<times> int) option" where
  "fdt_get_string fdt stroffset = do {
     totalsize \<leftarrow> fdt_ro_probe_i fdt;
     if totalsize < 0 then Some (None, totalsize) else do {
     strs \<leftarrow> fdt_off_dt_strings fdt;
     let absoffset = word_of_int stroffset + strs;
     if absoffset \<ge> word_of_int totalsize then Some (None, - FDT_ERR_BADOFFSET) else do {
     let len = word_of_int totalsize - absoffset;
     magic \<leftarrow> fdt_magic fdt;
     bound \<leftarrow>
       (if magic = FDT_MAGIC then
          (if stroffset < 0 then Some (Inl (- FDT_ERR_BADOFFSET)) else do {
           version \<leftarrow> fdt_version fdt;
           if version \<ge> 17 then do {
             sz \<leftarrow> fdt_size_dt_strings fdt;
             Some (if word_of_int stroffset \<ge> sz then Inl (- FDT_ERR_BADOFFSET)
                   else Inr (if sz - word_of_int stroffset < len then sz - word_of_int stroffset else len)) }
           else Some (Inr len) })
        else if magic = FDT_SW_MAGIC then do {
           let sw_stroffset = - word_of_int stroffset;
           sz \<leftarrow> fdt_size_dt_strings fdt;
           Some (if stroffset \<ge> 0 \<or> sw_stroffset > sz then Inl (- FDT_ERR_BADOFFSET)
                 else Inr (if sw_stroffset < len then sw_stroffset else len)) }
        else Some (Inl (- FDT_ERR_INTERNAL)));
     case bound of Inl err \<Rightarrow> Some (None, err) | Inr len \<Rightarrow> do {
     n \<leftarrow> sbi_memchr (drop (unat absoffset) (fdt_mem fdt)) 0 (unat len);
     Some (case n of None \<Rightarrow> (None, - FDT_ERR_TRUNCATED)
           | Some i \<Rightarrow> (Some (unat absoffset), int32 (int i))) } } } }"

definition fdt_string :: "fdt_blob \<Rightarrow> int \<Rightarrow> nat option option" where
  "fdt_string fdt stroffset = do { (s, len) \<leftarrow> fdt_get_string fdt stroffset; Some s }"

definition fdt_string_eq_i :: "fdt_blob \<Rightarrow> int \<Rightarrow> bytes \<Rightarrow> int \<Rightarrow> bool option" where
  "fdt_string_eq_i fdt stroffset s len = do {
     (p, slen) \<leftarrow> fdt_get_string fdt stroffset;
     case p of None \<Rightarrow> Some False | Some p \<Rightarrow>
       if slen \<noteq> len then Some False else do {
       r \<leftarrow> sbi_memcmp (drop p (fdt_mem fdt)) s (nat len);
       Some (r = 0) } }"

definition fdt_get_name :: "fdt_blob \<Rightarrow> int \<Rightarrow> (nat option \<times> int) option" where
  "fdt_get_name fdt nodeoffset = do {
     nh \<leftarrow> fdt_offset_ptr_i fdt nodeoffset;
     err \<leftarrow> fdt_ro_probe_i fdt;
     if err < 0 then Some (None, err) else do {
     err \<leftarrow> fdt_check_node_offset_i fdt nodeoffset;
     if err < 0 then Some (None, err) else do {
     version \<leftarrow> fdt_version fdt;
     leaf \<leftarrow> (if version < 0x10 then do {
               l \<leftarrow> sbi_strrchr (drop (nh + 4) (fdt_mem fdt)) 47;
               Some (map_option (\<lambda>i. nh + 4 + i + 1) l) }
             else Some (Some (nh + 4)));
     case leaf of None \<Rightarrow> Some (None, - FDT_ERR_BADSTRUCTURE) | Some nameptr \<Rightarrow> do {
     n \<leftarrow> sbi_strlen (drop nameptr (fdt_mem fdt));
     Some (Some nameptr, int32 (uint n)) } } } }"

definition fdt_nodename_eq_i :: "fdt_blob \<Rightarrow> int \<Rightarrow> bytes \<Rightarrow> int \<Rightarrow> bool option" where
  "fdt_nodename_eq_i fdt offset s len = do {
     (p, olen) \<leftarrow> fdt_get_name fdt offset;
     case p of None \<Rightarrow> Some False | Some p \<Rightarrow>
       if olen < len then Some False else do {
       r \<leftarrow> sbi_memcmp (drop p (fdt_mem fdt)) s (nat len);
       if r \<noteq> 0 then Some False else do {
       c \<leftarrow> fdt8_ld fdt (p + nat len);
       if c = 0 then Some True else do {
       m \<leftarrow> sbi_memchr s 64 (nat len);
       Some (m = None \<and> c = 64) } } } }"

section \<open>Properties of a node\<close>

partial_function (option) nextprop_i :: "fdt_blob \<Rightarrow> int \<Rightarrow> int option" where
  "nextprop_i fdt offset = do {
     (tag, nextoffset) \<leftarrow> fdt_next_tag fdt offset;
     if tag = FDT_END then Some (if nextoffset \<ge> 0 then - FDT_ERR_BADSTRUCTURE else nextoffset)
     else if tag = FDT_PROP then Some offset
     else if tag = FDT_NOP then nextprop_i fdt nextoffset
     else Some (- FDT_ERR_NOTFOUND) }"

declare nextprop_i.simps [code]

definition fdt_first_property_offset :: "fdt_blob \<Rightarrow> int \<Rightarrow> int option" where
  "fdt_first_property_offset fdt nodeoffset = do {
     offset \<leftarrow> fdt_check_node_offset_i fdt nodeoffset;
     if offset < 0 then Some offset else nextprop_i fdt offset }"

definition fdt_next_property_offset :: "fdt_blob \<Rightarrow> int \<Rightarrow> int option" where
  "fdt_next_property_offset fdt offset = do {
     offset \<leftarrow> fdt_check_prop_offset_i fdt offset;
     if offset < 0 then Some offset else nextprop_i fdt offset }"

definition fdt_get_property_by_offset_i :: "fdt_blob \<Rightarrow> int \<Rightarrow> (nat option \<times> int) option" where
  "fdt_get_property_by_offset_i fdt offset = do {
     err \<leftarrow> fdt_check_prop_offset_i fdt offset;
     if err < 0 then Some (None, err) else do {
     prop \<leftarrow> fdt_offset_ptr_i fdt offset;
     len \<leftarrow> fdt32_ld fdt (prop + 4);
     Some (Some prop, int32 (uint len)) } }"

definition fdt_get_property_by_offset :: "fdt_blob \<Rightarrow> int \<Rightarrow> (nat option \<times> int) option" where
  "fdt_get_property_by_offset fdt offset = do {
     version \<leftarrow> fdt_version fdt;
     if version < 0x10 then Some (None, - FDT_ERR_BADVERSION)
     else fdt_get_property_by_offset_i fdt offset }"

text \<open>The search over the properties returns the property with its offset, and \<^verbatim>\<open>*lenp\<close>.\<close>

partial_function (option) get_property_loop ::
    "fdt_blob \<Rightarrow> int \<Rightarrow> bytes \<Rightarrow> int \<Rightarrow> ((nat \<times> int) option \<times> int) option" where
  "get_property_loop fdt offset name namelen =
     (if offset < 0 then Some (None, offset) else do {
      (prop, len) \<leftarrow> fdt_get_property_by_offset_i fdt offset;
      (case prop of None \<Rightarrow> Some (None, - FDT_ERR_INTERNAL) | Some p \<Rightarrow> do {
       nameoff \<leftarrow> fdt32_ld fdt (p + 8);
       hit \<leftarrow> fdt_string_eq_i fdt (int32 (uint nameoff)) name namelen;
       if hit then Some (Some (p, offset), len) else do {
       offset \<leftarrow> fdt_next_property_offset fdt offset;
       get_property_loop fdt offset name namelen } }) })"

declare get_property_loop.simps [code]

definition fdt_get_property_namelen_i ::
    "fdt_blob \<Rightarrow> int \<Rightarrow> bytes \<Rightarrow> int \<Rightarrow> ((nat \<times> int) option \<times> int) option" where
  "fdt_get_property_namelen_i fdt offset name namelen = do {
     offset \<leftarrow> fdt_first_property_offset fdt offset;
     get_property_loop fdt offset name namelen }"

definition fdt_get_property_namelen :: "fdt_blob \<Rightarrow> int \<Rightarrow> bytes \<Rightarrow> int \<Rightarrow> (nat option \<times> int) option" where
  "fdt_get_property_namelen fdt offset name namelen = do {
     version \<leftarrow> fdt_version fdt;
     if version < 0x10 then Some (None, - FDT_ERR_BADVERSION) else do {
     (prop, len) \<leftarrow> fdt_get_property_namelen_i fdt offset name namelen;
     Some (map_option fst prop, len) } }"

definition fdt_get_property :: "fdt_blob \<Rightarrow> int \<Rightarrow> bytes \<Rightarrow> (nat option \<times> int) option" where
  "fdt_get_property fdt nodeoffset name = do {
     n \<leftarrow> sbi_strlen name;
     fdt_get_property_namelen fdt nodeoffset name (int32 (uint n)) }"

definition fdt_getprop_namelen :: "fdt_blob \<Rightarrow> int \<Rightarrow> bytes \<Rightarrow> int \<Rightarrow> (nat option \<times> int) option" where
  "fdt_getprop_namelen fdt nodeoffset name namelen = do {
     (prop, len) \<leftarrow> fdt_get_property_namelen_i fdt nodeoffset name namelen;
     case prop of None \<Rightarrow> Some (None, len) | Some (p, poffset) \<Rightarrow> do {
     version \<leftarrow> fdt_version fdt;
     plen \<leftarrow> fdt32_ld fdt (p + 4);
     Some (Some (if version < 0x10 \<and> (poffset + 12) mod 8 \<noteq> 0 \<and> plen \<ge> 8 then p + 12 + 4 else p + 12),
           len) } }"

text \<open>\<^verbatim>\<open>fdt_getprop_by_offset\<close> with a non-null \<^verbatim>\<open>namep\<close> also returns the name; \<open>wantname\<close> says so.\<close>

definition fdt_getprop_by_offset ::
    "fdt_blob \<Rightarrow> int \<Rightarrow> bool \<Rightarrow> (nat option \<times> nat option \<times> int) option" where
  "fdt_getprop_by_offset fdt offset wantname = do {
     (prop, len) \<leftarrow> fdt_get_property_by_offset_i fdt offset;
     case prop of None \<Rightarrow> Some (None, None, len) | Some p \<Rightarrow> do {
     (name, namelen) \<leftarrow> (if wantname then do {
                             nameoff \<leftarrow> fdt32_ld fdt (p + 8);
                             fdt_get_string fdt (int32 (uint nameoff)) }
                           else Some (None, 0));
     if wantname \<and> name = None then Some (None, None, namelen) else do {
     version \<leftarrow> fdt_version fdt;
     plen \<leftarrow> fdt32_ld fdt (p + 4);
     Some (Some (if version < 0x10 \<and> (offset + 12) mod 8 \<noteq> 0 \<and> plen \<ge> 8 then p + 12 + 4 else p + 12),
           name, len) } } }"

definition fdt_getprop :: "fdt_blob \<Rightarrow> int \<Rightarrow> bytes \<Rightarrow> (nat option \<times> int) option" where
  "fdt_getprop fdt nodeoffset name = do {
     n \<leftarrow> sbi_strlen name;
     fdt_getprop_namelen fdt nodeoffset name (int32 (uint n)) }"

definition cstr :: "string \<Rightarrow> bytes" where
  "cstr s = map of_char s @ [0]"

definition fdt_get_phandle :: "fdt_blob \<Rightarrow> int \<Rightarrow> u32 option" where
  "fdt_get_phandle fdt nodeoffset = do {
     (php, len) \<leftarrow> fdt_getprop fdt nodeoffset (cstr ''phandle'');
     (php, len) \<leftarrow> (if php = None \<or> len \<noteq> 4
                     then fdt_getprop fdt nodeoffset (cstr ''linux,phandle'') else Some (php, len));
     case php of None \<Rightarrow> Some 0 | Some p \<Rightarrow> if len \<noteq> 4 then Some 0 else fdt32_ld fdt p }"

section \<open>Phandles and memory reservations\<close>

partial_function (option) max_phandle_loop :: "fdt_blob \<Rightarrow> int \<Rightarrow> u32 \<Rightarrow> (int \<times> u32) option" where
  "max_phandle_loop fdt offset mx = do {
     (offset, d) \<leftarrow> fdt_next_node fdt offset None;
     if offset < 0 then Some (if offset = - FDT_ERR_NOTFOUND then (0, mx) else (offset, mx)) else do {
     val \<leftarrow> fdt_get_phandle fdt offset;
     max_phandle_loop fdt offset (if val > mx then val else mx) } }"

declare max_phandle_loop.simps [code]

definition fdt_find_max_phandle :: "fdt_blob \<Rightarrow> (int \<times> u32) option" where
  "fdt_find_max_phandle fdt = max_phandle_loop fdt (- 1) 0"

definition fdt_generate_phandle :: "fdt_blob \<Rightarrow> (int \<times> u32) option" where
  "fdt_generate_phandle fdt = do {
     (err, mx) \<leftarrow> fdt_find_max_phandle fdt;
     Some (if err < 0 then (err, 0)
           else if mx = 0xfffffffe then (- FDT_ERR_NOPHANDLES, 0)
           else (0, mx + 1)) }"

definition fdt_mem_rsv :: "fdt_blob \<Rightarrow> int \<Rightarrow> nat option option" where
  "fdt_mem_rsv fdt n = do {
     rsv \<leftarrow> fdt_off_mem_rsvmap fdt;
     totalsize \<leftarrow> fdt_totalsize fdt;
     let offset = word_of_int (n * 16);
     let absoffset = rsv + offset;
     if absoffset < rsv then Some None
     else if (ucast absoffset :: ulong) > ucast totalsize - 16 then Some None
     else Some (Some (nat (uint rsv + n * 16))) }"

definition fdt64_ld :: "fdt_blob \<Rightarrow> nat \<Rightarrow> ulong option" where
  "fdt64_ld fdt p = do {
     hi \<leftarrow> fdt32_ld fdt p;
     lo \<leftarrow> fdt32_ld fdt (p + 4);
     Some (push_bit 32 (ucast hi) OR ucast lo) }"

definition fdt_get_mem_rsv :: "fdt_blob \<Rightarrow> int \<Rightarrow> (int \<times> ulong \<times> ulong) option" where
  "fdt_get_mem_rsv fdt n = do {
     probe \<leftarrow> fdt_ro_probe_i fdt;
     if probe < 0 then Some (probe, 0, 0) else do {
     re \<leftarrow> fdt_mem_rsv fdt n;
     case re of None \<Rightarrow> Some (- FDT_ERR_BADOFFSET, 0, 0) | Some p \<Rightarrow> do {
     a \<leftarrow> fdt64_ld fdt p;
     s \<leftarrow> fdt64_ld fdt (p + 8);
     Some (0, a, s) } } }"

partial_function (option) num_mem_rsv_loop :: "fdt_blob \<Rightarrow> int \<Rightarrow> int option" where
  "num_mem_rsv_loop fdt i = do {
     re \<leftarrow> fdt_mem_rsv fdt i;
     (case re of None \<Rightarrow> Some (- FDT_ERR_TRUNCATED) | Some p \<Rightarrow> do {
      s \<leftarrow> fdt64_ld fdt (p + 8);
      if s = 0 then Some i else num_mem_rsv_loop fdt (i + 1) }) }"

declare num_mem_rsv_loop.simps [code]

definition fdt_num_mem_rsv :: "fdt_blob \<Rightarrow> int option" where
  "fdt_num_mem_rsv fdt = num_mem_rsv_loop fdt 0"

section \<open>Children and paths\<close>

partial_function (option) subnode_loop :: "fdt_blob \<Rightarrow> int \<Rightarrow> int \<Rightarrow> bytes \<Rightarrow> int \<Rightarrow> int option" where
  "subnode_loop fdt offset depth name namelen =
     (if offset \<ge> 0 \<and> depth \<ge> 0 then do {
        hit \<leftarrow> (if depth = 1 then fdt_nodename_eq_i fdt offset name namelen else Some False);
        if hit then Some offset else do {
        (o', d') \<leftarrow> fdt_next_node fdt offset (Some depth);
        (case d' of None \<Rightarrow> None | Some d \<Rightarrow> subnode_loop fdt o' d name namelen) } }
      else Some (if depth < 0 then - FDT_ERR_NOTFOUND else offset))"

declare subnode_loop.simps [code]

definition fdt_subnode_offset_namelen :: "fdt_blob \<Rightarrow> int \<Rightarrow> bytes \<Rightarrow> int \<Rightarrow> int option" where
  "fdt_subnode_offset_namelen fdt offset name namelen = do {
     probe \<leftarrow> fdt_ro_probe_i fdt;
     if probe < 0 then Some probe else subnode_loop fdt offset 0 name namelen }"

definition fdt_subnode_offset :: "fdt_blob \<Rightarrow> int \<Rightarrow> bytes \<Rightarrow> int option" where
  "fdt_subnode_offset fdt parentoffset name = do {
     n \<leftarrow> sbi_strlen name;
     fdt_subnode_offset_namelen fdt parentoffset name (int32 (uint n)) }"

text \<open>
  The walk over the components of a path: \<open>path\<close> is the remaining characters of the path and the
  bytes behind them, \<open>left\<close> the number of characters before \<^verbatim>\<open>end\<close>.
\<close>

fun skip_slashes :: "bytes \<Rightarrow> nat \<Rightarrow> (bytes \<times> nat) option" where
  "skip_slashes [] left = None"
| "skip_slashes (c # p) left =
     (if c = 47 then (case left of 0 \<Rightarrow> None | Suc 0 \<Rightarrow> Some (p, 0) | Suc (Suc n) \<Rightarrow> skip_slashes p (Suc n))
      else Some (c # p, left))"

lemma skip_slashes_le: "skip_slashes p left = Some (q, n) \<Longrightarrow> n \<le> left"
  by (induction p left arbitrary: q n rule: skip_slashes.induct)
     (auto split: if_splits nat.splits intro: le_SucI)

function path_walk :: "fdt_blob \<Rightarrow> bytes \<Rightarrow> nat \<Rightarrow> int \<Rightarrow> int option" where
  "path_walk fdt p left offset =
     (if left = 0 then Some offset else
      (case skip_slashes p left of
         None \<Rightarrow> None
       | Some (p', left') \<Rightarrow>
           if left' = 0 then Some offset else
           (case sbi_memchr p' 47 left' of
              None \<Rightarrow> None
            | Some q \<Rightarrow>
                let n = (case q of None \<Rightarrow> left' | Some i \<Rightarrow> i) in
                if n = 0 then None else
                (case fdt_subnode_offset_namelen fdt offset p' (int32 (int n)) of
                   None \<Rightarrow> None
                 | Some offset' \<Rightarrow> if offset' < 0 then Some offset'
                                   else path_walk fdt (drop n p') (left' - n) offset'))))"
  by pat_completeness auto

termination
  by (relation "measure (\<lambda>(fdt, p, left, offset). left)") (auto dest: skip_slashes_le)

declare path_walk.simps [simp del]

text \<open>
  A path that does not start with a slash begins with an alias, a property of \<^verbatim>\<open>/aliases\<close> whose
  value is again a path; the call of \<^verbatim>\<open>fdt_get_alias_namelen\<close> is unfolded because the two functions
  call each other. The length is an \<^verbatim>\<open>int\<close>: for a negative one \<^verbatim>\<open>end\<close> lies before the path, the search for
  the slash runs with the length as a \<^verbatim>\<open>size_t\<close>, and no component is looked up.
\<close>

partial_function (option) fdt_path_offset_namelen :: "fdt_blob \<Rightarrow> bytes \<Rightarrow> int \<Rightarrow> int option" where
  "fdt_path_offset_namelen fdt path namelen = do {
     probe \<leftarrow> fdt_ro_probe_i fdt;
     if probe < 0 then Some probe
     else if path = [] then None
     else if hd path = 47 then path_walk fdt path (nat namelen) 0
     else do {
       q \<leftarrow> sbi_memchr path 47 (unat (word_of_int namelen :: ulong));
       let n = (case q of None \<Rightarrow> namelen | Some i \<Rightarrow> int i);
       aliasoffset \<leftarrow> fdt_path_offset_namelen fdt (cstr ''/aliases'') 8;
       if aliasoffset < 0 then Some (- FDT_ERR_BADPATH) else do {
       (p, len) \<leftarrow> fdt_getprop_namelen fdt aliasoffset path (int32 n);
       (case p of None \<Rightarrow> Some (- FDT_ERR_BADPATH) | Some p \<Rightarrow> do {
        l \<leftarrow> sbi_strlen (drop p (fdt_mem fdt));
        offset \<leftarrow> fdt_path_offset_namelen fdt (drop p (fdt_mem fdt)) (int32 (uint l));
        path_walk fdt (drop (nat n) path) (nat (namelen - n)) offset }) } } }"

declare fdt_path_offset_namelen.simps [code]

definition fdt_path_offset :: "fdt_blob \<Rightarrow> bytes \<Rightarrow> int option" where
  "fdt_path_offset fdt path = do { n \<leftarrow> sbi_strlen path; fdt_path_offset_namelen fdt path (int32 (uint n)) }"

definition fdt_get_alias_namelen :: "fdt_blob \<Rightarrow> bytes \<Rightarrow> int \<Rightarrow> nat option option" where
  "fdt_get_alias_namelen fdt name namelen = do {
     aliasoffset \<leftarrow> fdt_path_offset fdt (cstr ''/aliases'');
     if aliasoffset < 0 then Some None else do {
     (p, len) \<leftarrow> fdt_getprop_namelen fdt aliasoffset name namelen;
     Some p } }"

definition fdt_get_alias :: "fdt_blob \<Rightarrow> bytes \<Rightarrow> nat option option" where
  "fdt_get_alias fdt name = do { n \<leftarrow> sbi_strlen name; fdt_get_alias_namelen fdt name (int32 (uint n)) }"

section \<open>Depth and parents\<close>

partial_function (option) supernode_loop ::
    "fdt_blob \<Rightarrow> int \<Rightarrow> int \<Rightarrow> int \<Rightarrow> int \<Rightarrow> int \<Rightarrow> (int \<times> int option) option" where
  "supernode_loop fdt offset depth nodeoffset supernodedepth supernodeoffset =
     (if offset \<ge> 0 \<and> offset \<le> nodeoffset then
        (let supernodeoffset = (if depth = supernodedepth then offset else supernodeoffset) in
         if offset = nodeoffset
         then Some (if supernodedepth > depth then - FDT_ERR_NOTFOUND else supernodeoffset, Some depth)
         else do {
           (o', d') \<leftarrow> fdt_next_node fdt offset (Some depth);
           (case d' of None \<Rightarrow> None
            | Some d \<Rightarrow> supernode_loop fdt o' d nodeoffset supernodedepth supernodeoffset) })
      else Some (if offset = - FDT_ERR_NOTFOUND \<or> offset \<ge> 0 then - FDT_ERR_BADOFFSET
                 else if offset = - FDT_ERR_BADOFFSET then - FDT_ERR_BADSTRUCTURE else offset, None))"

declare supernode_loop.simps [code]

text \<open>The second result is what is stored through \<^verbatim>\<open>nodedepth\<close>, \<open>None\<close> when nothing is.\<close>

definition fdt_supernode_atdepth_offset :: "fdt_blob \<Rightarrow> int \<Rightarrow> int \<Rightarrow> (int \<times> int option) option" where
  "fdt_supernode_atdepth_offset fdt nodeoffset supernodedepth = do {
     probe \<leftarrow> fdt_ro_probe_i fdt;
     if probe < 0 then Some (probe, None)
     else if supernodedepth < 0 then Some (- FDT_ERR_NOTFOUND, None)
     else supernode_loop fdt 0 0 nodeoffset supernodedepth (- FDT_ERR_INTERNAL) }"

definition fdt_node_depth :: "fdt_blob \<Rightarrow> int \<Rightarrow> int option" where
  "fdt_node_depth fdt nodeoffset = do {
     (err, nodedepth) \<leftarrow> fdt_supernode_atdepth_offset fdt nodeoffset 0;
     if err \<noteq> 0 then Some (if err < 0 then err else - FDT_ERR_INTERNAL) else nodedepth }"

definition fdt_parent_offset :: "fdt_blob \<Rightarrow> int \<Rightarrow> int option" where
  "fdt_parent_offset fdt nodeoffset = do {
     nodedepth \<leftarrow> fdt_node_depth fdt nodeoffset;
     if nodedepth < 0 then Some nodedepth else do {
     (o', d) \<leftarrow> fdt_supernode_atdepth_offset fdt nodeoffset (nodedepth - 1);
     Some o' } }"

section \<open>Searches over all nodes\<close>

partial_function (option) by_prop_value_loop ::
    "fdt_blob \<Rightarrow> int \<Rightarrow> bytes \<Rightarrow> bytes \<Rightarrow> int \<Rightarrow> int option" where
  "by_prop_value_loop fdt startoffset propname propval proplen = do {
     (offset, d) \<leftarrow> fdt_next_node fdt startoffset None;
     if offset < 0 then Some offset else do {
     (val, len) \<leftarrow> fdt_getprop fdt offset propname;
     hit \<leftarrow> (case val of None \<Rightarrow> Some False | Some p \<Rightarrow>
              if len \<noteq> proplen then Some False else do {
              r \<leftarrow> sbi_memcmp (drop p (fdt_mem fdt)) propval (nat len); Some (r = 0) });
     if hit then Some offset else by_prop_value_loop fdt offset propname propval proplen } }"

declare by_prop_value_loop.simps [code]

definition fdt_node_offset_by_prop_value ::
    "fdt_blob \<Rightarrow> int \<Rightarrow> bytes \<Rightarrow> bytes \<Rightarrow> int \<Rightarrow> int option" where
  "fdt_node_offset_by_prop_value fdt startoffset propname propval proplen = do {
     probe \<leftarrow> fdt_ro_probe_i fdt;
     if probe < 0 then Some probe else by_prop_value_loop fdt startoffset propname propval proplen }"

partial_function (option) by_phandle_loop :: "fdt_blob \<Rightarrow> int \<Rightarrow> u32 \<Rightarrow> int option" where
  "by_phandle_loop fdt startoffset phandle = do {
     (offset, d) \<leftarrow> fdt_next_node fdt startoffset None;
     if offset < 0 then Some offset else do {
     ph \<leftarrow> fdt_get_phandle fdt offset;
     if ph = phandle then Some offset else by_phandle_loop fdt offset phandle } }"

declare by_phandle_loop.simps [code]

definition fdt_node_offset_by_phandle :: "fdt_blob \<Rightarrow> u32 \<Rightarrow> int option" where
  "fdt_node_offset_by_phandle fdt phandle =
     (if phandle = 0 \<or> phandle = 0xffffffff then Some (- FDT_ERR_BADPHANDLE) else do {
      probe \<leftarrow> fdt_ro_probe_i fdt;
      if probe < 0 then Some probe else by_phandle_loop fdt (- 1) phandle })"

section \<open>String lists and compatible strings\<close>

text \<open>
  The list is the \<open>listlen\<close> bytes at \<open>strlist\<close>; \<open>len\<close> is the length of \<open>str\<close> as an \<^verbatim>\<open>int\<close>. The sizes
  given to \<^verbatim>\<open>memcmp\<close> and \<^verbatim>\<open>memchr\<close> are these numbers as a \<^verbatim>\<open>size_t\<close>.
\<close>

definition size_arg :: "int \<Rightarrow> nat" where
  "size_arg n = unat (word_of_int n :: ulong)"

lemma size_arg_nonneg [simp]: "0 \<le> n \<Longrightarrow> n < 2 ^ 64 \<Longrightarrow> size_arg n = nat n"
  by (simp add: size_arg_def unat_eq_nat_uint uint_word_of_int)

partial_function (option) stringlist_contains_loop :: "bytes \<Rightarrow> int \<Rightarrow> bytes \<Rightarrow> int \<Rightarrow> bool option" where
  "stringlist_contains_loop strlist listlen str len =
     (if listlen \<ge> len then do {
        r \<leftarrow> sbi_memcmp str strlist (size_arg (int32 (len + 1)));
        if r = 0 then Some True else do {
        p \<leftarrow> sbi_memchr strlist 0 (size_arg listlen);
        (case p of None \<Rightarrow> Some False
         | Some i \<Rightarrow> stringlist_contains_loop (drop (i + 1) strlist) (int32 (listlen - (int i + 1))) str len) } }
      else Some False)"

declare stringlist_contains_loop.simps [code]

definition fdt_stringlist_contains :: "bytes \<Rightarrow> int \<Rightarrow> bytes \<Rightarrow> bool option" where
  "fdt_stringlist_contains strlist listlen str = do {
     n \<leftarrow> sbi_strlen str;
     stringlist_contains_loop strlist listlen str (int32 (uint n)) }"

text \<open>The lists of the following functions are shorter than \<open>2 ^ 31 - 1\<close> bytes, as they lie inside a blob.\<close>

function stringlist_count_loop :: "bytes \<Rightarrow> nat \<Rightarrow> int \<Rightarrow> int option" where
  "stringlist_count_loop lst left count =
     (if left = 0 then Some count else
      (case sbi_strnlen lst (of_nat left) of
         None \<Rightarrow> None
       | Some n \<Rightarrow>
           if unat n + 1 > left then Some (- FDT_ERR_BADVALUE)
           else stringlist_count_loop (drop (unat n + 1) lst) (left - (unat n + 1)) (count + 1)))"
  by pat_completeness auto

termination
  by (relation "measure (\<lambda>(l, left, c). left)") auto

definition fdt_stringlist_count :: "fdt_blob \<Rightarrow> int \<Rightarrow> bytes \<Rightarrow> int option" where
  "fdt_stringlist_count fdt nodeoffset property = do {
     (lst, len) \<leftarrow> fdt_getprop fdt nodeoffset property;
     case lst of None \<Rightarrow> Some len
     | Some p \<Rightarrow> stringlist_count_loop (drop p (fdt_mem fdt)) (nat len) 0 }"

function stringlist_search_loop :: "bytes \<Rightarrow> nat \<Rightarrow> bytes \<Rightarrow> int \<Rightarrow> int \<Rightarrow> int option" where
  "stringlist_search_loop lst left str len idx =
     (if left = 0 then Some (- FDT_ERR_NOTFOUND) else
      (case sbi_strnlen lst (of_nat left) of
         None \<Rightarrow> None
       | Some n \<Rightarrow>
           if unat n + 1 > left then Some (- FDT_ERR_BADVALUE)
           else if uint n + 1 = len \<and> sbi_memcmp lst str (unat n + 1) = None then None
           else if uint n + 1 = len \<and> sbi_memcmp lst str (unat n + 1) = Some 0 then Some idx
           else stringlist_search_loop (drop (unat n + 1) lst) (left - (unat n + 1)) str len (idx + 1)))"
  by pat_completeness auto

termination
  by (relation "measure (\<lambda>(l, left, s, k, i). left)") auto

definition fdt_stringlist_search :: "fdt_blob \<Rightarrow> int \<Rightarrow> bytes \<Rightarrow> bytes \<Rightarrow> int option" where
  "fdt_stringlist_search fdt nodeoffset property str = do {
     (lst, len) \<leftarrow> fdt_getprop fdt nodeoffset property;
     case lst of None \<Rightarrow> Some len
     | Some p \<Rightarrow> do {
         n \<leftarrow> sbi_strlen str;
         stringlist_search_loop (drop p (fdt_mem fdt)) (nat len) str (int32 (uint n + 1)) 0 } }"

declare stringlist_count_loop.simps [simp del] stringlist_search_loop.simps [simp del]

definition fdt_node_check_compatible :: "fdt_blob \<Rightarrow> int \<Rightarrow> bytes \<Rightarrow> int option" where
  "fdt_node_check_compatible fdt nodeoffset compatible = do {
     (prop, len) \<leftarrow> fdt_getprop fdt nodeoffset (cstr ''compatible'');
     case prop of None \<Rightarrow> Some len | Some p \<Rightarrow> do {
     hit \<leftarrow> fdt_stringlist_contains (drop p (fdt_mem fdt)) len compatible;
     Some (if hit then 0 else 1) } }"

partial_function (option) by_compatible_loop :: "fdt_blob \<Rightarrow> int \<Rightarrow> bytes \<Rightarrow> int option" where
  "by_compatible_loop fdt startoffset compatible = do {
     (offset, d) \<leftarrow> fdt_next_node fdt startoffset None;
     if offset < 0 then Some offset else do {
     err \<leftarrow> fdt_node_check_compatible fdt offset compatible;
     if err < 0 \<and> err \<noteq> - FDT_ERR_NOTFOUND then Some err
     else if err = 0 then Some offset
     else by_compatible_loop fdt offset compatible } }"

declare by_compatible_loop.simps [code]

definition fdt_node_offset_by_compatible :: "fdt_blob \<Rightarrow> int \<Rightarrow> bytes \<Rightarrow> int option" where
  "fdt_node_offset_by_compatible fdt startoffset compatible = do {
     probe \<leftarrow> fdt_ro_probe_i fdt;
     if probe < 0 then Some probe else by_compatible_loop fdt startoffset compatible }"

section \<open>Cell counts\<close>

definition fdt_cells :: "fdt_blob \<Rightarrow> int \<Rightarrow> bytes \<Rightarrow> int option" where
  "fdt_cells fdt nodeoffset name = do {
     (c, len) \<leftarrow> fdt_getprop fdt nodeoffset name;
     case c of None \<Rightarrow> Some len | Some p \<Rightarrow>
       if len \<noteq> 4 then Some (- FDT_ERR_BADNCELLS) else do {
       val \<leftarrow> fdt32_ld fdt p;
       Some (if val > 4 then - FDT_ERR_BADNCELLS else uint val) } }"

definition fdt_address_cells :: "fdt_blob \<Rightarrow> int \<Rightarrow> int option" where
  "fdt_address_cells fdt nodeoffset = do {
     val \<leftarrow> fdt_cells fdt nodeoffset (cstr ''#address-cells'');
     Some (if val = 0 then - FDT_ERR_BADNCELLS else if val = - FDT_ERR_NOTFOUND then 2 else val) }"

definition fdt_size_cells :: "fdt_blob \<Rightarrow> int \<Rightarrow> int option" where
  "fdt_size_cells fdt nodeoffset = do {
     val \<leftarrow> fdt_cells fdt nodeoffset (cstr ''#size-cells'');
     Some (if val = - FDT_ERR_NOTFOUND then 1 else val) }"


section \<open>Property lookups on arbitrary bytes\<close>

text \<open>
  \<open>lengths_ok\<close> excludes the property tokens that the token reader accepts although their length is
  negative as an \<^verbatim>\<open>int\<close>, which can only happen when 12 plus the length wraps.
\<close>

definition lengths_ok :: "fdt_blob \<Rightarrow> bool" where
  "lengths_ok fdt \<longleftrightarrow> list_all (\<lambda>k.
     case fdt_next_tag fdt (4 * int k) of None \<Rightarrow> True
     | Some (tag, n) \<Rightarrow> tag = FDT_PROP \<longrightarrow> uint (rd32 fdt (struct_off fdt + 4 * k + 4)) < 2147483648)
     [0..<struct_end fdt div 4 + 2]"

definition prop_len :: "fdt_blob \<Rightarrow> int \<Rightarrow> int" where
  "prop_len fdt offset = uint (rd32 fdt (struct_off fdt + nat offset + 4))"

lemma aligned_index:
  assumes "0 \<le> (offset :: int)" and "offset < int e + 4" and "offset mod 4 = 0"
  obtains k where "offset = 4 * int k" and "k < e div 4 + 2"
proof -
  obtain k where k: "offset = 4 * int k"
    using assms(1,3) by (auto simp: mod_eq_0_iff_dvd elim!: dvdE intro: that [of "nat (offset div 4)"])
  moreover have "k < e div 4 + 2" using assms(2) k by presburger
  ultimately show thesis by (rule that)
qed

text \<open>What an accepted property token says about the blob.\<close>

lemma next_tag_prop:
  assumes obj: "fdt_object fdt" and v: "rd32 fdt 20 \<ge> 16" and lens: "lengths_ok fdt"
    and off: "offset < 2 ^ 31" "offset mod 4 = 0" and nt: "fdt_next_tag fdt offset = Some (FDT_PROP, n)"
  shows "0 \<le> offset" and "int (struct_off fdt) + offset + 12 + prop_len fdt offset \<le> int (struct_end fdt)"
    and "n = (offset + 12 + prop_len fdt offset + 3) div 4 * 4" and "0 \<le> prop_len fdt offset"
    and "prop_len fdt offset < 2147483648"
proof -
  let ?p = "struct_off fdt + nat offset"
  show pos: "0 \<le> offset"
    by (rule fdt_next_tag_returns [OF obj off]) (use nt in auto)
  have n: "n mod 4 = 0" "n < int (struct_end fdt) + 4" "offset \<le> n"
    by (rule fdt_next_tag_returns [OF obj off]; use nt in auto)+
  show lenpos: "0 \<le> prop_len fdt offset" by (simp add: prop_len_def)
  have "offset < int (struct_end fdt) + 4" using n by simp
  then obtain k where k: "offset = 4 * int k" "k < struct_end fdt div 4 + 2"
    using aligned_index pos off(2) by metis
  have "k \<in> set [0..<struct_end fdt div 4 + 2]" using k(2) unfolding set_upt by simp
  then show small: "prop_len fdt offset < 2147483648"
    using lens [unfolded lengths_ok_def list_all_iff, rule_format, of k] nt k(1)
    by (simp add: prop_len_def nat_mult_distrib)
  obtain p where p: "fdt_offset_ptr fdt offset 4 = Some (Some p)" "p = ?p" "p + unat (4 :: u32) \<le> struct_end fdt"
    by (rule fdt_offset_ptr_returns [OF obj off(1), where len = 4])
       (use nt in \<open>simp_all add: fdt_next_tag_behind\<close>)
  have off4: "offset + 4 < 2 ^ 31" using p pos fdt_object_size(2) [OF obj] by simp
  have tag: "rd32 fdt ?p = FDT_PROP"
    using nt p fdt32_ld_ptr [OF obj p(3)] unfolding fdt_next_tag_behind
    by (auto simp: bind_eq_Some_conv split: option.splits)
  obtain q where q: "fdt_offset_ptr fdt (offset + 4) 4 = Some (Some q)" "q = ?p + 4" "q + unat (4 :: u32) \<le> struct_end fdt"
    by (rule fdt_offset_ptr_returns [OF obj off4, where len = 4])
       (use nt p pos off4 tag fdt32_ld_ptr [OF obj p(3)] in
         \<open>simp_all add: fdt_next_tag_behind behind_tag_def int32_id nat_add_distrib\<close>)
  define o' where "o' = int32 (offset + 12 + prop_len fdt offset)"
  have "behind_tag fdt FDT_PROP (int32 (offset + 4)) = Some (Some o')"
    using q leD [OF v] pos off4 fdt32_ld_ptr [OF obj q(3)]
    by (simp add: behind_tag_def int32_id fdt_header_reads [OF obj] Let_def o'_def prop_len_def algebra_simps)
  then have res: "\<exists>w. fdt_offset_ptr fdt offset (word_of_int (o' - offset)) = Some (Some w) \<and> n = FDT_TAGALIGN o'"
    using nt p tag fdt32_ld_ptr [OF obj p(3)] unfolding fdt_next_tag_behind
    by (auto simp: bind_eq_Some_conv split: option.splits)
  then have w: "offset \<le> o'" "int (struct_off fdt) + o' \<le> int (struct_end fdt)"
    using whole_token [OF obj off(1), of o'] int32_range [of "offset + 12 + prop_len fdt offset"]
    by (auto simp: o'_def)
  have o': "o' = offset + 12 + prop_len fdt offset"
  proof (cases "offset + 12 + prop_len fdt offset < 2147483648")
    case True
    then show ?thesis using pos lenpos unfolding o'_def by (intro int32_id) auto
  next
    case False
    have "o' = int32 (offset + 12 + prop_len fdt offset - 4294967296)"
      using int32_wrap [of "offset + 12 + prop_len fdt offset - 4294967296"]
      by (simp add: o'_def algebra_simps)
    also have "\<dots> = offset + 12 + prop_len fdt offset - 4294967296"
      using False small off4 by (intro int32_id) auto
    finally show ?thesis using w(1) small by simp
  qed
  show "int (struct_off fdt) + offset + 12 + prop_len fdt offset \<le> int (struct_end fdt)"
    using w(2) o' by simp
  show "n = (offset + 12 + prop_len fdt offset + 3) div 4 * 4"
    using res o' w fdt_object_size [OF obj] pos lenpos FDT_TAGALIGN_eq [of o'] by simp
qed

lemma lengths_ok_advances:
  assumes obj: "fdt_object fdt" and v: "rd32 fdt 20 \<ge> 16" and lens: "lengths_ok fdt"
  shows "fdt_advances fdt"
proof -
  have "\<not> stuck fdt (4 * int k)" if k: "k < struct_end fdt div 4 + 2" for k
  proof
    assume "stuck fdt (4 * int k)"
    moreover have "4 * int k < 2 ^ 31"
    proof -
      have "4 * k < struct_end fdt + 8" using k by presburger
      then show ?thesis using fdt_object_size(2) [OF obj] by simp
    qed
    ultimately show False
      using next_tag_prop(3,4) [OF obj v lens, of "4 * int k" "4 * int k"] by (simp add: stuck_def)
  qed
  then show ?thesis unfolding fdt_advances_def list_all_iff set_upt by simp
qed


definition at_prop :: "fdt_blob \<Rightarrow> int \<Rightarrow> bool" where
  "at_prop fdt offset \<longleftrightarrow> 0 \<le> offset \<and> offset mod 4 = 0 \<and> offset < 2 ^ 31 \<and>
     (case fdt_next_tag fdt offset of Some (tag, n) \<Rightarrow> tag = FDT_PROP | None \<Rightarrow> False)"

lemma nextprop_returns:
  assumes obj: "fdt_object fdt"
  shows "offset < 2 ^ 31 \<Longrightarrow> offset mod 4 = 0 \<Longrightarrow>
    \<exists>r. nextprop_i fdt offset = Some r \<and> (0 \<le> r \<longrightarrow> offset \<le> r \<and> at_prop fdt r)"
proof (induction "nat (int (struct_end fdt) + 4 - offset)" arbitrary: offset rule: less_induct)
  case less
  show ?case
  proof (rule fdt_next_tag_returns [OF obj less(2,3)])
    fix tag n
    assume n: "fdt_next_tag fdt offset = Some (tag, n)" "0 \<le> offset" "n mod 4 = 0"
      "n < int (struct_end fdt) + 4" "offset + 4 \<le> n \<or> n = offset \<and> tag = FDT_PROP"
    show ?thesis
    proof (cases "tag = FDT_NOP")
      case True
      then have "nat (int (struct_end fdt) + 4 - n) < nat (int (struct_end fdt) + 4 - offset)"
        using n by auto
      moreover have "n < 2 ^ 31" using n(4) fdt_object_size(2) [OF obj] by simp
      ultimately obtain r where "nextprop_i fdt n = Some r" "0 \<le> r \<longrightarrow> n \<le> r \<and> at_prop fdt r"
        using less(1) [OF _ _ n(3)] by blast
      then show ?thesis using n True by (subst nextprop_i.simps) auto
    next
      case False
      then show ?thesis using n less(2,3) by (subst nextprop_i.simps) (auto simp: at_prop_def)
    qed
  qed (subst nextprop_i.simps; simp)+
qed

lemma memchr_loop_bound:
  assumes "n \<le> length s"
  shows "\<exists>r. memchr_loop i s c n = Some r \<and> (\<forall>k. r = Some k \<longrightarrow> i \<le> k \<and> k < i + n \<and> s ! (k - i) = c \<and>
    c \<notin> set (take (k - i) s))"
  using assms
proof (induction i s c n rule: memchr_loop.induct)
  case (3 i x xs c n)
  show ?case
  proof (cases "c = x")
    case False
    with 3 obtain r where r: "memchr_loop (Suc i) xs c n = Some r" "\<And>k. r = Some k \<Longrightarrow>
        Suc i \<le> k \<and> k < Suc i + n \<and> xs ! (k - Suc i) = c \<and> c \<notin> set (take (k - Suc i) xs)"
      by fastforce
    have "i \<le> k \<and> k < i + Suc n \<and> (x # xs) ! (k - i) = c \<and> c \<notin> set (take (k - i) (x # xs))"
      if "r = Some k" for k
    proof -
      from r(2) [OF that] have k: "k - i = Suc (k - Suc i)" by auto
      show ?thesis unfolding k using r(2) [OF that] False by auto
    qed
    then show ?thesis using r(1) False by simp
  qed simp
qed auto

lemma sbi_memchr_bound:
  assumes "n \<le> length s"
  obtains "sbi_memchr s c n = Some None"
  | k where "sbi_memchr s c n = Some (Some k)" and "k < n" and "s ! k = word_of_int c"
      and "word_of_int c \<notin> set (take k s)"
proof -
  obtain r where r: "sbi_memchr s c n = Some r"
    "\<forall>k. r = Some k \<longrightarrow> k < n \<and> s ! k = word_of_int c \<and> word_of_int c \<notin> set (take k s)"
    using memchr_loop_bound [OF assms, of 0 "word_of_int c"] by (auto simp: sbi_memchr_def)
  with that show thesis by (cases r) auto
qed

lemma probe_total:
  assumes "fdt_object fdt"
  shows "\<exists>t. fdt_ro_probe_i fdt = Some t \<and> (0 \<le> t \<longrightarrow> t = uint (rd32 fdt 4))"
  unfolding fdt_ro_probe_i_def fdt_header_reads [OF assms] by simp

text \<open>\<open>str_limit\<close> is the length that remains for a string at an offset into the strings block.\<close>

definition str_limit :: "fdt_blob \<Rightarrow> int \<Rightarrow> u32 \<Rightarrow> int + u32" where
  "str_limit fdt stroffset len =
     (if rd32 fdt 0 = FDT_MAGIC then
        (if stroffset < 0 then Inl (- FDT_ERR_BADOFFSET)
         else if rd32 fdt 20 \<ge> 17 then
           (if word_of_int stroffset \<ge> rd32 fdt 32 then Inl (- FDT_ERR_BADOFFSET)
            else Inr (if rd32 fdt 32 - word_of_int stroffset < len then rd32 fdt 32 - word_of_int stroffset else len))
         else Inr len)
      else if rd32 fdt 0 = FDT_SW_MAGIC then
        (if stroffset \<ge> 0 \<or> - word_of_int stroffset > rd32 fdt 32 then Inl (- FDT_ERR_BADOFFSET)
         else Inr (if - word_of_int stroffset < len then - word_of_int stroffset else len))
      else Inl (- FDT_ERR_INTERNAL))"

lemma fdt_get_string_eq:
  assumes obj: "fdt_object fdt" and "fdt_ro_probe_i fdt = Some t"
    and a: "a = word_of_int stroffset + rd32 fdt 12"
  shows "fdt_get_string fdt stroffset =
    (if t < 0 then Some (None, t)
     else if a \<ge> word_of_int t then Some (None, - FDT_ERR_BADOFFSET)
     else case str_limit fdt stroffset (word_of_int t - a) of Inl err \<Rightarrow> Some (None, err)
     | Inr len \<Rightarrow> do {
         n \<leftarrow> sbi_memchr (drop (unat a) (fdt_mem fdt)) 0 (unat len);
         Some (case n of None \<Rightarrow> (None, - FDT_ERR_TRUNCATED)
               | Some i \<Rightarrow> (Some (unat a), int32 (int i))) })"
  unfolding fdt_get_string_def fdt_header_reads [OF obj] assms(2) str_limit_def a
  by (simp add: Let_def)

lemma str_limit_le: "str_limit fdt stroffset len = Inr n \<Longrightarrow> n \<le> len"
  by (auto simp: str_limit_def split: if_splits)

text \<open>A string from \<^verbatim>\<open>fdt_get_string\<close> is terminated inside the announced size.\<close>

lemma fdt_get_string_returns:
  assumes obj: "fdt_object fdt"
  shows "\<exists>p l. fdt_get_string fdt stroffset = Some (p, l) \<and>
    (\<forall>q. p = Some q \<longrightarrow> 0 \<le> l \<and> q + nat l < struct_end fdt)"
proof -
  obtain t where t: "fdt_ro_probe_i fdt = Some t" "0 \<le> t \<longrightarrow> t = uint (rd32 fdt 4)"
    using probe_total [OF obj] by blast
  define a where "a = word_of_int stroffset + rd32 fdt 12"
  have search: "\<exists>p l. do { n \<leftarrow> sbi_memchr (drop (unat a) (fdt_mem fdt)) 0 (unat len);
        Some (case n of None \<Rightarrow> (None, - FDT_ERR_TRUNCATED)
              | Some i \<Rightarrow> (Some (unat a), int32 (int i))) } = Some (p, l) \<and>
      (\<forall>q. p = Some q \<longrightarrow> 0 \<le> l \<and> q + nat l < struct_end fdt)"
    if len: "unat len + unat a \<le> struct_end fdt" for len :: u32
  proof (rule sbi_memchr_bound [of "unat len" "drop (unat a) (fdt_mem fdt)" 0])
    show "unat len \<le> length (drop (unat a) (fdt_mem fdt))" using len fdt_object_size(1) [OF obj] by simp
  next
    fix k assume "sbi_memchr (drop (unat a) (fdt_mem fdt)) 0 (unat len) = Some (Some k)" "k < unat len"
    then show ?thesis using len fdt_object_size(2) [OF obj] by (simp add: int32_id)
  qed simp
  note eq = fdt_get_string_eq [OF obj t(1) a_def]
  show ?thesis
  proof (cases "t < 0 \<or> a \<ge> word_of_int t")
    case True
    then show ?thesis unfolding eq by auto
  next
    case False
    then have te: "word_of_int t = rd32 fdt 4" using t(2) by simp
    have full: "unat (rd32 fdt 4 - a) + unat a \<le> struct_end fdt"
      using False te by (simp add: struct_end_def word_le_nat_alt word_less_nat_alt unat_sub not_le)
    show ?thesis
    proof (cases "str_limit fdt stroffset (rd32 fdt 4 - a)")
      case (Inr len)
      then have "unat len + unat a \<le> struct_end fdt"
        using str_limit_le full by (fastforce simp: word_le_nat_alt)
      with Inr False search show ?thesis unfolding eq te by simp
    qed (use False in \<open>simp add: eq te\<close>)
  qed
qed


lemma fdt_string_eq_returns:
  assumes obj: "fdt_object fdt" and "nat len \<le> length s"
  shows "\<exists>b. fdt_string_eq_i fdt stroffset s len = Some b"
proof -
  obtain p l where g: "fdt_get_string fdt stroffset = Some (p, l)"
    "\<forall>q. p = Some q \<longrightarrow> 0 \<le> l \<and> q + nat l < struct_end fdt"
    using fdt_get_string_returns [OF obj] by blast
  show ?thesis
  proof (cases p)
    case (Some q)
    show ?thesis
    proof (cases "l = len")
      case True
      with g(2) Some have "nat len \<le> length (drop q (fdt_mem fdt))"
        using fdt_object_size(1) [OF obj] by auto
      from sbi_memcmp_eq [OF this assms(2)] g(1) Some True show ?thesis
        by (auto simp: fdt_string_eq_i_def)
    qed (use g(1) Some in \<open>auto simp: fdt_string_eq_i_def\<close>)
  qed (use g(1) in \<open>auto simp: fdt_string_eq_i_def\<close>)
qed

lemma at_prop_token:
  assumes "fdt_object fdt" and "rd32 fdt 20 \<ge> 16" and "lengths_ok fdt" and "at_prop fdt offset"
  obtains n where "fdt_check_prop_offset_i fdt offset = Some n" and "offset + 12 \<le> n" and "n mod 4 = 0"
    and "n < 2 ^ 31" and "struct_off fdt + nat offset + 12 + nat (prop_len fdt offset) \<le> struct_end fdt"
    and "fdt_get_property_by_offset_i fdt offset = Some (Some (struct_off fdt + nat offset), prop_len fdt offset)"
    and "0 \<le> prop_len fdt offset"
proof -
  obtain n where n: "fdt_next_tag fdt offset = Some (FDT_PROP, n)" "0 \<le> offset" "offset mod 4 = 0" "offset < 2 ^ 31"
    using assms(4) by (auto simp: at_prop_def split: option.splits)
  note tok = next_tag_prop [OF assms(1-3) n(4,3,1)]
  have fits: "struct_off fdt + nat offset + 12 + nat (prop_len fdt offset) \<le> struct_end fdt"
    using tok(1,2,4) by linarith
  have n': "offset + 12 \<le> n" "n mod 4 = 0" "n < 2 ^ 31"
    using tok fdt_object_size(2) [OF assms(1)] by auto
  have chk: "fdt_check_prop_offset_i fdt offset = Some n"
    using n by (simp add: fdt_check_prop_offset_i_def)
  have "nat (uint (rd32 fdt 8) + offset) = struct_off fdt + nat offset"
    using n(2) by (simp add: struct_off_def nat_add_distrib)
  moreover have "fdt32_ld fdt (struct_off fdt + nat offset + 4) = Some (rd32 fdt (struct_off fdt + nat offset + 4))"
    using fits by (intro fdt32_ld_ptr [OF assms(1)]) simp
  moreover have "int32 (prop_len fdt offset) = prop_len fdt offset"
    using tok(4,5) by (intro int32_id) auto
  ultimately have "fdt_get_property_by_offset_i fdt offset =
      Some (Some (struct_off fdt + nat offset), prop_len fdt offset)"
    using chk n' n(2) unfolding fdt_get_property_by_offset_i_def fdt_offset_ptr_i_def
    by (simp add: fdt_header_reads [OF assms(1)] prop_len_def)
  from that [OF chk n' fits this tok(4)] show thesis .
qed

lemma get_property_loop_returns:
  assumes ok: "fdt_object fdt" "rd32 fdt 20 \<ge> 16" "lengths_ok fdt" and name: "nat namelen \<le> length name"
  shows "offset < 0 \<or> at_prop fdt offset \<Longrightarrow>
    \<exists>r len. get_property_loop fdt offset name namelen = Some (r, len) \<and> (r = None \<longrightarrow> len < 0) \<and>
      (\<forall>p o'. r = Some (p, o') \<longrightarrow> at_prop fdt o' \<and> p = struct_off fdt + nat o' \<and> len = prop_len fdt o')"
proof (induction "nat (2 ^ 31 - offset)" arbitrary: offset rule: less_induct)
  case less
  show ?case
  proof (cases "offset < 0")
    case True
    then show ?thesis by (subst get_property_loop.simps) simp
  next
    case False
    with less(2) have at: "at_prop fdt offset" by simp
    let ?p = "struct_off fdt + nat offset"
    obtain n where n: "fdt_check_prop_offset_i fdt offset = Some n" "offset + 12 \<le> n" "n mod 4 = 0" "n < 2 ^ 31"
      "?p + 12 + nat (prop_len fdt offset) \<le> struct_end fdt"
      "fdt_get_property_by_offset_i fdt offset = Some (Some ?p, prop_len fdt offset)"
      by (rule at_prop_token [OF ok at])
    obtain b where b: "fdt_string_eq_i fdt (int32 (uint (rd32 fdt (?p + 8)))) name namelen = Some b"
      using fdt_string_eq_returns [OF ok(1) name] by blast
    obtain r where r: "nextprop_i fdt n = Some r" "0 \<le> r \<longrightarrow> n \<le> r \<and> at_prop fdt r"
      using nextprop_returns [OF ok(1) n(4,3)] by blast
    have "fdt32_ld fdt (?p + 8) = Some (rd32 fdt (?p + 8))"
      using n(5) by (intro fdt32_ld_ptr [OF ok(1)]) simp
    then have step: "get_property_loop fdt offset name namelen =
        (if b then Some (Some (?p, offset), prop_len fdt offset) else get_property_loop fdt r name namelen)"
      using False b n r(1) by (subst get_property_loop.simps) (simp add: fdt_next_property_offset_def)
    show ?thesis
    proof (cases "b")
      case False
      have "nat (2 ^ 31 - r) < nat (2 ^ 31 - offset)" if "0 \<le> r"
        using r(2) that n(2) at by (auto simp: at_prop_def)
      then show ?thesis
        using less(1) [of r] r(2) step False
        by (cases "r < 0") (simp_all add: get_property_loop.simps [of fdt r])
    qed (use step at in simp)
  qed
qed

text \<open>
  The lengths for which 12 plus the length wraps are \<^verbatim>\<open>0xfffffff4\<close> and above. \<open>wrap_free\<close> says that none of
  them stands behind the tag of a property at an aligned position of the blob.
\<close>

definition wrap_free :: "fdt_blob \<Rightarrow> bool" where
  "wrap_free fdt \<longleftrightarrow> list_all (\<lambda>k. if prop_cell fdt k then uint (rd32 fdt (struct_off fdt + 4 * k + 4)) < 0xfffffff4 else True)
     [0..<struct_end fdt div 4 + 2]"

lemma wrap_free_lengths:
  assumes "fdt_object fdt" and "rd32 fdt 20 \<ge> 16" and "wrap_free fdt"
  shows "lengths_ok fdt"
proof -
  have "uint (rd32 fdt (struct_off fdt + 4 * k + 4)) < 2147483648"
    if k: "k < struct_end fdt div 4 + 2" and t: "fdt_next_tag fdt (4 * int k) = Some (FDT_PROP, n)" for k n
  proof -
    note small = cell_bound [OF assms(1) k]
    have "prop_cell fdt k" by (rule prop_tag_cell [OF assms(1) small t])
    moreover have "k \<in> {0..<struct_end fdt div 4 + 2}" using k by simp
    ultimately have "uint (rd32 fdt (struct_off fdt + 4 * k + 4)) < 0xfffffff4"
      using assms(3) unfolding wrap_free_def list_all_iff set_upt by meson
    moreover have "nat (4 * int k) = 4 * k" by simp
    ultimately show ?thesis using accepted_length [OF assms(1,2) small _ t] by simp
  qed
  then show ?thesis unfolding lengths_ok_def list_all_iff set_upt by (auto split: option.split)
qed

text \<open>
  C17. \<^verbatim>\<open>fdt_getprop\<close> is memory safe on untrusted blobs of version 16 or later but for the lengths that
  wrap: on every object that holds such a blob in which no property tag is followed by one of the
  twelve lengths from \<^verbatim>\<open>0xfffffff4\<close> on, whatever the other bytes are, and for every node offset and
  name, it returns; a value pointer comes with a length that is not negative and the whole value
  lies inside the announced size of the blob, and a missing property comes with a negative error.
\<close>

theorem fdt_getprop_safe:
  assumes "fdt_object fdt" and "rd32 fdt 20 \<ge> 16" and "wrap_free fdt"
    and "offset < 2 ^ 31" and "no_nul name" and "length name < 2 ^ 31"
  shows "\<exists>p len. fdt_getprop fdt offset (name @ 0 # rest) = Some (p, len) \<and>
    (case p of None \<Rightarrow> len < 0
     | Some q \<Rightarrow> 0 \<le> len \<and> q + nat len \<le> struct_end fdt \<and> struct_end fdt \<le> length (fdt_mem fdt))"
proof -
  note ok = assms(1,2) wrap_free_lengths [OF assms(1-3)]
  define l where "l = int (length name)"
  have l: "int32 (uint (of_nat (length name) :: ulong)) = l"
    using assms(6) unfolding l_def by (subst int32_id) (auto simp: unsigned_of_nat take_bit_nat_eq_self)
  obtain n where n: "fdt_check_node_offset_i fdt offset = Some n" "0 \<le> n \<longrightarrow> n mod 4 = 0 \<and> n < 2 ^ 31"
    using fdt_check_node_offset_returns [OF assms(1,4)] by auto
  obtain f where f: "fdt_first_property_offset fdt offset = Some f" "f < 0 \<or> at_prop fdt f"
  proof (cases "n < 0")
    case False
    with n(2) obtain r where "nextprop_i fdt n = Some r" "0 \<le> r \<longrightarrow> at_prop fdt r"
      using nextprop_returns [OF assms(1), of n] by auto
    with False n(1) that [of r] show thesis
      by (cases "r < 0") (simp_all add: fdt_first_property_offset_def)
  qed (use n(1) that [of n] in \<open>simp add: fdt_first_property_offset_def\<close>)
  obtain r len where r: "get_property_loop fdt f (name @ 0 # rest) l = Some (r, len)" "r = None \<longrightarrow> len < 0"
    "\<forall>p o'. r = Some (p, o') \<longrightarrow> at_prop fdt o' \<and> p = struct_off fdt + nat o' \<and> len = prop_len fdt o'"
    using get_property_loop_returns [OF ok, of l "name @ 0 # rest" f] f(2) by (auto simp: l_def)
  have g: "fdt_getprop fdt offset (name @ 0 # rest) = do {
      (prop, len) \<leftarrow> Some (r, len);
      case prop of None \<Rightarrow> Some (None, len) | Some (p, poffset) \<Rightarrow> do {
      plen \<leftarrow> fdt32_ld fdt (p + 4);
      Some (Some (p + 12), len) } }"
    using leD [OF assms(2)] f(1) r(1)
    by (simp add: fdt_getprop_def sbi_strlen_eq [OF assms(5)] l fdt_getprop_namelen_def
        fdt_get_property_namelen_i_def fdt_header_reads [OF assms(1)] cong: option.case_cong)
  show ?thesis
  proof (cases r)
    case (Some po)
    then obtain p o' where po: "r = Some (p, o')" by (cases po) auto
    then have at: "at_prop fdt o'" and p: "p = struct_off fdt + nat o'" "len = prop_len fdt o'" using r(3) by auto
    have fits: "p + 12 + nat len \<le> struct_end fdt" "0 \<le> len"
      by (rule at_prop_token [OF ok at]; use p in simp)+
    then have "fdt32_ld fdt (p + 4) = Some (rd32 fdt (p + 4))"
      by (intro fdt32_ld_ptr [OF assms(1)]) simp
    with po fits show ?thesis unfolding g using fdt_object_size(1) [OF assms(1)] by simp
  qed (use g r(2) in simp)
qed

theorem fdt_getprop_safe_witness:
  "\<exists>p len. fdt_getprop (fdt_one_prop 0 0) 0 (cstr ''phandle'') = Some (p, len) \<and>
    (case p of None \<Rightarrow> len < 0
     | Some q \<Rightarrow> 0 \<le> len \<and> q + nat len \<le> struct_end (fdt_one_prop 0 0) \<and>
         struct_end (fdt_one_prop 0 0) \<le> length (fdt_mem (fdt_one_prop 0 0)))"
proof -
  let ?b = "fdt_one_prop 0 0" and ?n = "map of_char ''phandle'' :: bytes"
  have "fdt_object ?b" "rd32 ?b 20 \<ge> 16" by code_simp+
  moreover have "wrap_free ?b" by code_simp
  moreover have "no_nul ?n" "length ?n < 2 ^ 31" by (simp_all add: no_nul_def)
  ultimately show ?thesis
    using fdt_getprop_safe [of ?b 0 ?n "[]"] by (simp only: cstr_def) simp
qed

end
