(* ===== verification/Fdt_Tokens.thy ===== *)
theory Fdt_Tokens
  imports Fdt_Ro
begin

text \<open>
  The structure block as a sequence of tokens. An encoder writes tokens the way the specification of
  the format lays them out, the locale \<open>struct_block\<close> says that a blob holds the encoding of a token
  list, and inside it every traversal of \<^verbatim>\<open>fdt.c\<close> and \<^verbatim>\<open>fdt_ro.c\<close> is shown to be a recursion over
  the tokens: offsets become lengths of encoded prefixes and the fault and divergence cases
  disappear.
\<close>

section \<open>Encoding\<close>

definition enc32 :: "u32 \<Rightarrow> bytes" where
  "enc32 w = [ucast (drop_bit 24 w), ucast (drop_bit 16 w), ucast (drop_bit 8 w), ucast w]"

definition pad4 :: "bytes \<Rightarrow> bytes" where
  "pad4 b = b @ replicate ((4 - length b mod 4) mod 4) 0"

datatype fdt_token = TBegin bytes | TProp u32 bytes | TEnd_node | TNop | TEnd

fun tok_tag :: "fdt_token \<Rightarrow> u32" where
  "tok_tag (TBegin n) = FDT_BEGIN_NODE"
| "tok_tag (TProp no v) = FDT_PROP"
| "tok_tag TEnd_node = FDT_END_NODE"
| "tok_tag TNop = FDT_NOP"
| "tok_tag TEnd = FDT_END"

fun tok_body :: "fdt_token \<Rightarrow> bytes" where
  "tok_body (TBegin n) = pad4 (n @ [0])"
| "tok_body (TProp no v) = enc32 (of_nat (length v)) @ enc32 no @ pad4 v"
| "tok_body _ = []"

definition enc_tok :: "fdt_token \<Rightarrow> bytes" where
  "enc_tok t = enc32 (tok_tag t) @ tok_body t"

definition enc_toks :: "fdt_token list \<Rightarrow> bytes" where
  "enc_toks ts = concat (map enc_tok ts)"

definition pos :: "fdt_token list \<Rightarrow> int" where
  "pos ts = int (length (enc_toks ts))"

lemma length_enc32 [simp]: "length (enc32 w) = 4"
  by (simp add: enc32_def)

lemma be32_enc32: "be32 (ucast (drop_bit 24 w)) (ucast (drop_bit 16 w)) (ucast (drop_bit 8 w)) (ucast w) = w"
proof (rule bit_word_eqI)
  fix n assume "n < LENGTH(32)"
  then show "bit (be32 (ucast (drop_bit 24 w)) (ucast (drop_bit 16 w)) (ucast (drop_bit 8 w)) (ucast w)) n = bit w n"
    unfolding be32_def by (cases "n < 8"; cases "n < 16"; cases "n < 24") (auto simp: bit_simps)
qed

lemma enc_toks_simps [simp]:
  "enc_toks [] = []" "enc_toks (t # ts) = enc_tok t @ enc_toks ts"
  "enc_toks (ts @ us) = enc_toks ts @ enc_toks us"
  by (simp_all add: enc_toks_def)

lemma pos_simps [simp]:
  "pos [] = 0" "pos (t # ts) = int (length (enc_tok t)) + pos ts" "pos (ts @ us) = pos ts + pos us"
  by (simp_all add: pos_def)

lemma pos_nonneg [simp]: "0 \<le> pos ts" "\<not> pos ts < 0" "\<not> pos ts + int k < 0"
  by (simp_all add: pos_def)

lemma length_pad4_ge: "length b \<le> length (pad4 b)"
  by (simp add: pad4_def)

lemma length_pad4: "length (pad4 b) = (length b + 3) div 4 * 4"
proof -
  obtain q r where qr: "length b = 4 * q + r" "r < 4"
    using mod_less_divisor [of 4 "length b"] by (metis mult_div_mod_eq zero_less_numeral)
  then have "r = 0 \<or> r = 1 \<or> r = 2 \<or> r = 3" by auto
  with qr(1) show ?thesis by (auto simp: pad4_def)
qed

lemma length_enc_tok_mod: "length (enc_tok t) mod 4 = 0"
  by (cases t) (simp_all add: enc_tok_def length_pad4)

lemma length_enc_tok_ge: "4 \<le> length (enc_tok t)"
  by (simp add: enc_tok_def)

lemma pos_mod [simp]: "pos ts mod 4 = 0"
proof (induction ts)
  case (Cons t ts)
  have "int (length (enc_tok t)) mod 4 = 0"
    using length_enc_tok_mod [of t] int_dvd_int_iff [of 4 "length (enc_tok t)"]
    by (simp add: mod_eq_0_iff_dvd)
  with Cons show ?case by (simp add: mod_eq_0_iff_dvd)
qed simp

lemma rd32_at:
  assumes "drop p (fdt_mem fdt) = enc32 w @ r"
  shows "rd32 fdt p = w" and "fdt32_ld fdt p = Some w"
proof -
  have len: "p + 4 \<le> length (fdt_mem fdt)" using arg_cong [OF assms, of length] by simp
  have nth: "fdt_mem fdt ! (p + i) = (enc32 w @ r) ! i" if "i < 4" for i
    using len that nth_drop [of p "fdt_mem fdt" i] assms by simp
  show "rd32 fdt p = w"
    using nth [of 0] nth [of 1] nth [of 2] nth [of 3] be32_enc32 [of w]
    by (simp add: rd32_def enc32_def numeral_2_eq_2 numeral_3_eq_3)
  then show "fdt32_ld fdt p = Some w" using fdt32_ld_eq [OF len] by simp
qed

lemma fdt8_at:
  assumes "drop p (fdt_mem fdt) = c # r"
  shows "fdt8_ld fdt p = Some c"
proof -
  have p: "p < length (fdt_mem fdt)" using assms by (metis drop_eq_Nil list.distinct(1) not_le)
  then have "fdt_mem fdt ! p = c" using assms Cons_nth_drop_Suc [OF p] by simp
  with p show ?thesis by (simp add: fdt8_ld_def)
qed

section \<open>Blobs that hold tokens\<close>

fun tok_ok :: "fdt_token \<Rightarrow> bool" where
  "tok_ok (TBegin n) = no_nul n"
| "tok_ok (TProp no v) = (length v < 2147483640)"
| "tok_ok _ = True"

locale struct_block =
  fixes fdt :: fdt_blob and toks :: "fdt_token list"
  assumes object: "fdt_object fdt"
    and probe: "fdt_ro_probe_i fdt = Some (uint (rd32 fdt 4))"
    and magic: "rd32 fdt 0 = FDT_MAGIC"
    and version: "rd32 fdt 20 = 17"
    and fits: "struct_off fdt + length (enc_toks toks) \<le> struct_end fdt"
    and block: "take (length (enc_toks toks)) (drop (struct_off fdt) (fdt_mem fdt)) = enc_toks toks"
    and block_size: "unat (rd32 fdt 36) = length (enc_toks toks)"
    and toks_ok: "list_all tok_ok toks"
begin

lemma mem_at:
  assumes "toks = pre @ ts"
  obtains r where "drop (struct_off fdt + length (enc_toks pre)) (fdt_mem fdt) = enc_toks ts @ r"
proof -
  have "drop (struct_off fdt) (fdt_mem fdt) = enc_toks toks @ drop (length (enc_toks toks)) (drop (struct_off fdt) (fdt_mem fdt))"
    using block by (metis append_take_drop_id)
  then have "drop (length (enc_toks pre)) (drop (struct_off fdt) (fdt_mem fdt)) =
      enc_toks ts @ drop (length (enc_toks toks)) (drop (struct_off fdt) (fdt_mem fdt))"
    using assms by simp
  then show thesis using that by (metis add.commute drop_drop)
qed

lemma ptr_in_block:
  assumes "0 \<le> off" and "off + int n \<le> pos toks"
  shows "fdt_offset_ptr fdt off (of_nat n) = Some (Some (struct_off fdt + nat off))"
proof -
  have sz: "pos toks < 2147483640"
    using fits fdt_object_size [OF object] by (simp add: pos_def)
  let ?u = "word_of_int off :: u32" and ?n = "of_nat n :: u32"
  have u: "unat ?u = nat off" using assms sz by (intro unat_word_of_int_small) auto
  have n: "unat ?n = n" using assms sz by (simp add: unat_of_nat)
  have so: "unat (rd32 fdt 8) = struct_off fdt" "unat (rd32 fdt 4) = struct_end fdt"
    by (simp_all add: struct_off_def struct_end_def)
  note lim = fits fdt_object_size [OF object] assms
  have un: "unat (?u + ?n) = nat off + n"
    using lim u n by (subst unat_add_no_wrap) (auto simp: pos_def)
  have us: "unat (?u + rd32 fdt 8) = nat off + struct_off fdt"
    using lim u so by (subst unat_add_no_wrap) (auto simp: pos_def)
  have usn: "unat (?u + rd32 fdt 8 + ?n) = nat off + struct_off fdt + n"
    using lim us n by (subst unat_add_no_wrap) (auto simp: pos_def)
  have "\<not> ptr_bad fdt off ?n"
    using lim un us usn u so block_size unfolding ptr_bad_def Let_def word_less_nat_alt
    by (auto simp: pos_def)
  moreover have "nat (uint (rd32 fdt 8) + off) = struct_off fdt + nat off"
    using assms(1) by (simp add: struct_off_def nat_add_distrib)
  ultimately show ?thesis by (simp add: fdt_offset_ptr_eq [OF object])
qed

lemma skip_name_at:
  assumes "no_nul n" and "drop (struct_off fdt + nat off) (fdt_mem fdt) = n @ 0 # r"
    and "0 \<le> off" and "off + int (length n) + 1 \<le> pos toks"
  shows "skip_name fdt off = Some (Some (off + int (length n) + 1))"
  using assms
proof (induction n arbitrary: off)
  case Nil
  have p: "fdt_offset_ptr fdt off 1 = Some (Some (struct_off fdt + nat off))"
    using ptr_in_block [of off 1] Nil by simp
  have "fdt8_ld fdt (struct_off fdt + nat off) = Some 0"
    using Nil(2) by (intro fdt8_at) simp
  moreover have "\<not> off \<ge> INT_MAX" using Nil fits fdt_object_size [OF object] by (simp add: pos_def)
  ultimately show ?case using p by (subst skip_name.simps) simp
next
  case (Cons c n)
  have p: "fdt_offset_ptr fdt off 1 = Some (Some (struct_off fdt + nat off))"
    using ptr_in_block [of off 1] Cons by simp
  have rd: "fdt8_ld fdt (struct_off fdt + nat off) = Some c"
    using Cons(3) by (intro fdt8_at) simp
  have "drop (struct_off fdt + nat (off + 1)) (fdt_mem fdt) = n @ 0 # r"
  proof -
    have "struct_off fdt + nat (off + 1) = 1 + (struct_off fdt + nat off)"
      using Cons(4) by simp
    then show ?thesis using Cons(3) drop_drop [of 1 "struct_off fdt + nat off" "fdt_mem fdt"] by simp
  qed
  then have "skip_name fdt (off + 1) = Some (Some (off + 1 + int (length n) + 1))"
    using Cons by (intro Cons.IH) auto
  moreover have "\<not> off \<ge> INT_MAX" using Cons fits fdt_object_size [OF object] by (simp add: pos_def)
  ultimately show ?case using p rd Cons(2) by (subst skip_name.simps) simp
qed

lemma pos_small: "pos toks < 2147483640"
  using fits fdt_object_size [OF object] by (simp add: pos_def)

text \<open>Reading the token at the end of a prefix.\<close>

lemma next_tag_at:
  assumes toks: "toks = pre @ t # post"
  shows "fdt_next_tag fdt (pos pre) = Some (tok_tag t, pos pre + int (length (enc_tok t)))"
proof -
  let ?p = "struct_off fdt + length (enc_toks pre)"
  obtain r where "drop ?p (fdt_mem fdt) = enc_toks (t # post) @ r" by (rule mem_at [OF toks])
  then have mem: "drop ?p (fdt_mem fdt) = enc32 (tok_tag t) @ tok_body t @ enc_toks post @ r"
    by (simp add: enc_tok_def)
  have np: "struct_off fdt + nat (pos pre) = ?p" by (simp add: pos_def)
  have total: "pos pre + int (length (enc_tok t)) \<le> pos toks" by (simp add: toks)
  have ge: "4 \<le> int (length (enc_tok t))" using length_enc_tok_ge [of t] by simp
  have p4: "fdt_offset_ptr fdt (pos pre) 4 = Some (Some ?p)"
    using ptr_in_block [of "pos pre" 4] total ge np by simp
  have tag: "fdt32_ld fdt ?p = Some (tok_tag t)" by (rule rd32_at(2) [OF mem])
  have o4: "int32 (pos pre + 4) = pos pre + 4"
    using pos_small total ge pos_nonneg(1) [of pre] by (intro int32_id) auto
  have body: "drop (struct_off fdt + nat (pos pre + 4)) (fdt_mem fdt) = tok_body t @ enc_toks post @ r"
  proof -
    have "struct_off fdt + nat (pos pre + 4) = 4 + ?p" by (simp add: pos_def)
    then show ?thesis using mem drop_drop [of 4 ?p "fdt_mem fdt"] by (simp add: add.left_commute)
  qed
  define n where "n = 4 + (case t of TBegin nm \<Rightarrow> length nm + 1 | TProp no v \<Rightarrow> 8 + length v | _ \<Rightarrow> 0)"
  have n: "int n \<le> int (length (enc_tok t))" "(pos pre + int n + 3) div 4 * 4 = pos pre + int (length (enc_tok t))"
    using pos_mod [of pre] by (cases t; simp add: n_def enc_tok_def length_pad4; presburger)+
  have whole: "fdt_offset_ptr fdt (pos pre) (word_of_int (pos pre + int n - pos pre)) = Some (Some ?p)"
    using ptr_in_block [of "pos pre" n] total n(1) np by simp
  have al: "FDT_TAGALIGN (pos pre + int n) = pos pre + int (length (enc_tok t))"
    using n pos_small total pos_nonneg(1) [of pre] by (subst FDT_TAGALIGN_eq) auto
  have "behind_tag fdt (tok_tag t) (pos pre + 4) = Some (Some (pos pre + int n))"
  proof (cases t)
    case (TBegin nm)
    have "no_nul nm" using toks_ok toks TBegin by simp
    moreover have "drop (struct_off fdt + nat (pos pre + 4)) (fdt_mem fdt) = nm @ 0 # (drop (length nm + 1) (tok_body t @ enc_toks post @ r))"
      using body TBegin by (simp add: pad4_def)
    ultimately have "skip_name fdt (pos pre + 4) = Some (Some (pos pre + 4 + int (length nm) + 1))"
      using total n(1) TBegin by (intro skip_name_at) (auto simp: n_def)
    then show ?thesis using TBegin by (simp add: behind_tag_def n_def)
  next
    case (TProp no v)
    have "length v < 2147483640" using toks_ok toks TProp by simp
    then have v: "uint (of_nat (length v) :: u32) = int (length v)"
      by (simp add: unsigned_of_nat take_bit_nat_eq_self)
    have q: "fdt_offset_ptr fdt (pos pre + 4) 4 = Some (Some (struct_off fdt + nat (pos pre + 4)))"
      using ptr_in_block [of "pos pre + 4" 4] total n(1) TProp by (simp add: n_def)
    have l: "fdt32_ld fdt (struct_off fdt + nat (pos pre + 4)) = Some (of_nat (length v))"
      by (rule rd32_at(2)) (use body TProp in simp)
    have "int32 (pos pre + 4 + 12 - 4 + int (length v)) = pos pre + int n"
      using total n(1) pos_small TProp pos_nonneg(1) [of pre] by (subst int32_id) (auto simp: n_def)
    then show ?thesis using TProp q l v
      by (simp add: behind_tag_def fdt_header_reads [OF object] version Let_def)
  qed (simp_all add: behind_tag_def n_def)
  then show ?thesis
    unfolding fdt_next_tag_behind p4 o4 using tag whole al by simp
qed

lemma next_tag_past_end:
  "fdt_next_tag fdt (pos toks) = Some (FDT_END, - FDT_ERR_TRUNCATED)"
proof -
  have "unat (word_of_int (pos toks) :: u32) = length (enc_toks toks)"
    using unat_word_of_int_small [of "pos toks"] pos_small pos_nonneg(1) [of toks] by (simp add: pos_def)
  then have "ptr_bad fdt (pos toks) 4"
    using block_size version unat_add_no_wrap [of "word_of_int (pos toks) :: u32" 4] pos_small
    unfolding ptr_bad_def Let_def by (simp add: word_less_nat_alt pos_def)
  then show ?thesis by (simp add: fdt_next_tag_behind fdt_offset_ptr_eq [OF object])
qed

end


section \<open>The walks as recursions over the tokens\<close>

abbreviation (input) tok_len :: "fdt_token \<Rightarrow> int" where "tok_len t \<equiv> int (length (enc_tok t))"

fun tok_next :: "fdt_token list \<Rightarrow> int \<Rightarrow> int option \<Rightarrow> int \<times> int option" where
  "tok_next [] off d = (if d = None then - FDT_ERR_NOTFOUND else - FDT_ERR_TRUNCATED, d)"
| "tok_next (TBegin n # ts) off d = (off, map_option (\<lambda>k. k + 1) d)"
| "tok_next (TEnd_node # ts) off d =
     (case d of None \<Rightarrow> tok_next ts (off + 4) None
      | Some k \<Rightarrow> if k - 1 < 0 then (off + 4, Some (k - 1)) else tok_next ts (off + 4) (Some (k - 1)))"
| "tok_next (TEnd # ts) off d = (- FDT_ERR_NOTFOUND, d)"
| "tok_next (TProp no v # ts) off d = tok_next ts (off + tok_len (TProp no v)) d"
| "tok_next (TNop # ts) off d = tok_next ts (off + 4) d"

fun tok_nextprop :: "fdt_token list \<Rightarrow> int \<Rightarrow> int" where
  "tok_nextprop [] off = - FDT_ERR_TRUNCATED"
| "tok_nextprop (TProp no v # ts) off = off"
| "tok_nextprop (TNop # ts) off = tok_nextprop ts (off + 4)"
| "tok_nextprop (TEnd # ts) off = - FDT_ERR_BADSTRUCTURE"
| "tok_nextprop (t # ts) off = - FDT_ERR_NOTFOUND"

text \<open>How \<^verbatim>\<open>fdt_nodename_eq_\<close> compares: the unit address of the node may be left out.\<close>

definition name_match :: "bytes \<Rightarrow> bytes \<Rightarrow> bool" where
  "name_match n name \<longleftrightarrow> take (length name) n = name \<and>
     (length n = length name \<or> 64 \<notin> set name \<and> length name < length n \<and> n ! length name = 64)"

text \<open>The search for a child: \<open>d\<close> is the depth of the position relative to the parent.\<close>

fun tok_scan :: "fdt_token list \<Rightarrow> int \<Rightarrow> int \<Rightarrow> bytes \<Rightarrow> int" where
  "tok_scan [] off d name = - FDT_ERR_TRUNCATED"
| "tok_scan (TBegin n # ts) off d name =
     (if d = 0 \<and> name_match n name then off else tok_scan ts (off + tok_len (TBegin n)) (d + 1) name)"
| "tok_scan (TEnd_node # ts) off d name =
     (if d - 1 < 0 then - FDT_ERR_NOTFOUND else tok_scan ts (off + 4) (d - 1) name)"
| "tok_scan (TEnd # ts) off d name = - FDT_ERR_NOTFOUND"
| "tok_scan (TProp no v # ts) off d name = tok_scan ts (off + tok_len (TProp no v)) d name"
| "tok_scan (TNop # ts) off d name = tok_scan ts (off + 4) d name"

lemma tok_len_const [simp]:
  "length (enc_tok TEnd_node) = 4" "length (enc_tok TEnd) = 4" "length (enc_tok TNop) = 4"
  by (simp_all add: enc_tok_def)

context struct_block
begin

lemma next_node_loop_at:
  "toks = pre @ ts \<Longrightarrow> next_node_loop fdt (pos pre) d = Some (tok_next ts (pos pre) d)"
proof (induction ts arbitrary: pre d)
  case Nil
  then have "fdt_next_tag fdt (pos pre) = Some (FDT_END, - FDT_ERR_TRUNCATED)"
    using next_tag_past_end by simp
  then show ?case by (simp add: next_node_loop_step)
next
  case (Cons t ts)
  have nt: "fdt_next_tag fdt (pos pre) = Some (tok_tag t, pos pre + tok_len t)"
    using next_tag_at Cons(2) by simp
  have rec: "next_node_loop fdt (pos pre + tok_len t) d' = Some (tok_next ts (pos pre + tok_len t) d')" for d'
    using Cons(1) [of "pre @ [t]" d'] Cons(2) by simp
  have "0 \<le> pos pre + tok_len t" by simp
  then show ?case
    unfolding next_node_loop_step [OF nt] using rec by (cases t) (auto split: option.splits)
qed

lemma check_node_at:
  "toks = pre @ TBegin n # ts \<Longrightarrow>
    fdt_check_node_offset_i fdt (pos pre) = Some (pos pre + tok_len (TBegin n))"
  using next_tag_at [of pre "TBegin n" ts] by (simp add: fdt_check_node_offset_i_def)

lemma next_node_at:
  assumes "toks = pre @ TBegin n # ts"
  shows "fdt_next_node fdt (pos pre) d = Some (tok_next ts (pos pre + tok_len (TBegin n)) d)"
  using check_node_at [OF assms] next_node_loop_at [of "pre @ [TBegin n]" ts d] assms
  by (simp add: fdt_next_node_def)

lemma next_node_start: "fdt_next_node fdt (- 1) d = Some (tok_next toks 0 d)"
  using next_node_loop_at [of "[]" toks d] by (simp add: fdt_next_node_def)

lemma nextprop_at: "toks = pre @ ts \<Longrightarrow> nextprop_i fdt (pos pre) = Some (tok_nextprop ts (pos pre))"
proof (induction ts arbitrary: pre)
  case Nil
  then have "fdt_next_tag fdt (pos pre) = Some (FDT_END, - FDT_ERR_TRUNCATED)"
    using next_tag_past_end by simp
  then show ?case by (subst nextprop_i.simps) simp
next
  case (Cons t ts)
  have nt: "fdt_next_tag fdt (pos pre) = Some (tok_tag t, pos pre + tok_len t)"
    using next_tag_at Cons(2) by simp
  have rec: "nextprop_i fdt (pos pre + tok_len t) = Some (tok_nextprop ts (pos pre + tok_len t))"
    using Cons(1) [of "pre @ [t]"] Cons(2) by simp
  show ?case using nt rec by (subst nextprop_i.simps) (cases t; simp)
qed

lemma name_mem:
  assumes "toks = pre @ TBegin n # ts"
  obtains r where "drop (struct_off fdt + nat (pos pre) + 4) (fdt_mem fdt) = n @ 0 # r"
proof -
  let ?p = "struct_off fdt + length (enc_toks pre)"
  obtain r where "drop ?p (fdt_mem fdt) = enc_toks (TBegin n # ts) @ r" by (rule mem_at [OF assms])
  then have "drop ?p (fdt_mem fdt) = enc32 1 @ pad4 (n @ [0]) @ enc_toks ts @ r" by (simp add: enc_tok_def)
  then have "drop (?p + 4) (fdt_mem fdt) = n @ 0 # (replicate ((4 - length (n @ [0]) mod 4) mod 4) 0 @ enc_toks ts @ r)"
    using drop_drop [of 4 ?p "fdt_mem fdt"] by (simp add: pad4_def add.commute)
  then show thesis using that by (simp add: pos_def)
qed

lemma name_small:
  assumes "toks = pre @ TBegin n # ts"
  shows "no_nul n \<and> int (length n) < 2147483640"
proof -
  have "length n < length (enc_tok (TBegin n))"
    using length_pad4_ge [of "n @ [0]"] by (simp add: enc_tok_def)
  then have "int (length n) < pos toks"
    using assms pos_nonneg(1) [of pre] pos_nonneg(1) [of ts] by (simp only: pos_simps)
  with toks_ok pos_small assms show ?thesis by auto
qed

lemma get_name_at:
  assumes "toks = pre @ TBegin n # ts"
  shows "fdt_get_name fdt (pos pre) = Some (Some (struct_off fdt + nat (pos pre) + 4), int (length n))"
proof -
  obtain r where r: "drop (struct_off fdt + nat (pos pre) + 4) (fdt_mem fdt) = n @ 0 # r"
    by (rule name_mem [OF assms])
  have n: "no_nul n" "int (length n) < 2147483640" using name_small [OF assms] by auto
  have "int32 (uint (of_nat (length n) :: ulong)) = int (length n)"
    using n(2) by (subst int32_id) (auto simp: unsigned_of_nat take_bit_nat_eq_self)
  moreover have "nat (uint (rd32 fdt 8) + pos pre) = struct_off fdt + nat (pos pre)"
    by (simp add: struct_off_def nat_add_distrib)
  ultimately show ?thesis
    using check_node_at [OF assms] r n(1)
    by (simp add: fdt_get_name_def fdt_offset_ptr_i_def fdt_header_reads [OF object] probe version sbi_strlen_eq)
qed

end


lemma sbi_memcmp_prefix:
  assumes "nat len \<le> length s" and "nat len \<le> length n"
  shows "\<exists>r. sbi_memcmp (n @ r0) s (nat len) = Some r \<and> (r = 0 \<longleftrightarrow> take (nat len) n = take (nat len) s)"
  using sbi_memcmp_eq [of "nat len" "n @ r0" s] assms by simp

lemma memchr_loop_none: "memchr_loop i s c n = Some None \<Longrightarrow> c \<notin> set (take n s)"
  by (induction i s c n rule: memchr_loop.induct) (auto split: if_splits)

context struct_block
begin

lemma nodename_eq_at:
  assumes toks: "toks = pre @ TBegin n # ts" and s: "len \<le> length s"
  shows "fdt_nodename_eq_i fdt (pos pre) s (int len) = Some (name_match n (take len s))"
proof (cases "length n < len")
  case True
  then show ?thesis
    using get_name_at [OF toks] s by (auto simp: fdt_nodename_eq_i_def name_match_def)
next
  case False
  let ?p = "struct_off fdt + nat (pos pre) + 4"
  obtain r where r: "drop ?p (fdt_mem fdt) = n @ 0 # r" by (rule name_mem [OF toks])
  obtain c where c: "sbi_memcmp (n @ 0 # r) s len = Some c" "c = 0 \<longleftrightarrow> take len n = take len s"
    using sbi_memcmp_prefix [of "int len" s n "0 # r"] s False by auto
  have "drop (?p + len) (fdt_mem fdt) = drop len n @ 0 # r"
    using r False drop_drop [of len ?p "fdt_mem fdt"] by (simp add: add.commute)
  moreover have "drop len n @ 0 # r = (if length n = len then 0 # r else n ! len # (drop (Suc len) n @ 0 # r))"
    using False by (simp add: Cons_nth_drop_Suc)
  ultimately have at: "fdt8_ld fdt (?p + len) = Some (if length n = len then 0 else n ! len)"
    by (cases "length n = len") (auto intro: fdt8_at)
  have nz: "length n \<noteq> len \<Longrightarrow> n ! len \<noteq> 0"
    using name_small [OF toks] False unfolding no_nul_def by (metis linorder_neqE_nat nth_mem)
  obtain m where m: "sbi_memchr s 64 len = Some m" "m = None \<longleftrightarrow> 64 \<notin> set (take len s)"
  proof (rule sbi_memchr_bound [OF s, of 64])
    assume "sbi_memchr s 64 len = Some None"
    then show thesis using that [of None] memchr_loop_none [of 0 s 64 len] s by (simp add: sbi_memchr_def)
  next
    fix k assume k: "sbi_memchr s 64 len = Some (Some k)" "k < len" "s ! k = word_of_int 64"
    then have "64 \<in> set (take len s)" using s by (auto simp: in_set_conv_nth intro!: exI [of _ k])
    with k(1) that show thesis by blast
  qed
  show ?thesis
    using get_name_at [OF toks] False r c at nz m s
    by (auto simp: fdt_nodename_eq_i_def name_match_def min_def)
qed

lemma subnode_loop_at:
  "toks = pre @ TBegin n # ts \<Longrightarrow> 0 \<le> d \<Longrightarrow> len \<le> length s \<Longrightarrow>
    (d = 1 \<longrightarrow> \<not> name_match n (take len s)) \<Longrightarrow>
    subnode_loop fdt (pos pre) d s (int len) =
      Some (tok_scan ts (pos pre + tok_len (TBegin n)) d (take len s))"
proof -
  have scan: "(case tok_next ts (pos pre) (Some d) of (o', d') \<Rightarrow>
        (case d' of None \<Rightarrow> None | Some d \<Rightarrow> subnode_loop fdt o' d s (int len))) =
      Some (tok_scan ts (pos pre) d (take len s))"
    if "toks = pre @ ts" "0 \<le> d" "len \<le> length s" for pre ts d
    using that
  proof (induction ts arbitrary: pre d rule: length_induct)
    case (1 ts)
    show ?case
    proof (cases ts)
      case Nil
      then show ?thesis using 1(3) by (subst subnode_loop.simps) simp
    next
      case (Cons t us)
      have rec: "(case tok_next us (pos pre + tok_len t) (Some d') of (o', d') \<Rightarrow>
          (case d' of None \<Rightarrow> None | Some d \<Rightarrow> subnode_loop fdt o' d s (int len))) =
        Some (tok_scan us (pos pre + tok_len t) d' (take len s))" if "0 \<le> d'" for d'
        using 1(1) [rule_format, of us "pre @ [t]" d'] 1(2-) Cons that by simp
      show ?thesis
      proof (cases t)
        case (TBegin n)
        have at: "toks = pre @ TBegin n # us" using 1(2) Cons TBegin by simp
        show ?thesis
          using rec [of "d + 1"] nodename_eq_at [OF at 1(4)] next_node_at [OF at] Cons TBegin 1(3)
          by (subst Cons, subst subnode_loop.simps) (auto split: option.splits)
      next
        case TEnd_node
        then show ?thesis using rec [of "d - 1"] Cons 1(3) by (auto simp: subnode_loop.simps [of fdt "pos pre + 4" "d - 1"])
      next
        case TEnd
        then show ?thesis using Cons 1(3) by (simp add: subnode_loop.simps)
      qed (use rec [of d] Cons 1(3) in simp_all)
    qed
  qed
  assume a: "toks = pre @ TBegin n # ts" "0 \<le> d" "len \<le> length s" "d = 1 \<longrightarrow> \<not> name_match n (take len s)"
  then show ?thesis
    using scan [of "pre @ [TBegin n]" ts d] nodename_eq_at [OF a(1,3)] next_node_at [OF a(1)]
    by (subst subnode_loop.simps) auto
qed

lemma subnode_at:
  assumes "toks = pre @ TBegin n # ts" and "len \<le> length s"
  shows "fdt_subnode_offset_namelen fdt (pos pre) s (int len) =
    Some (tok_scan ts (pos pre + tok_len (TBegin n)) 0 (take len s))"
  using subnode_loop_at [OF assms(1) _ assms(2), of 0]
  by (simp add: fdt_subnode_offset_namelen_def probe)

end


section \<open>Properties and their names\<close>

text \<open>
  The strings block: \<open>str\<close> gives the name at every string offset that a property token uses.
\<close>

locale named_block = struct_block +
  fixes str :: "u32 \<Rightarrow> bytes"
  assumes names: "TProp no v \<in> set toks \<Longrightarrow> no_nul (str no) \<and>
      unat no + length (str no) < unat (rd32 fdt 32) \<and>
      take (length (str no) + 1) (drop (unat (rd32 fdt 12) + unat no) (fdt_mem fdt)) = str no @ [0]"
    and strings_fit: "unat (rd32 fdt 12) + unat (rd32 fdt 32) \<le> struct_end fdt"

lemma memchr_str:
  "no_nul s \<Longrightarrow> length s < n \<Longrightarrow> memchr_loop i (s @ 0 # r) 0 n = Some (Some (i + length s))"
proof (induction s arbitrary: i n)
  case Nil
  then show ?case by (cases n) simp_all
next
  case (Cons c s)
  then show ?case by (cases n) simp_all
qed

text \<open>
  The property lookup over the tokens behind the start of a node: \<open>Inl\<close> is the offset and value of
  the property that is found.
\<close>

fun tok_getprop :: "(u32 \<Rightarrow> bytes) \<Rightarrow> fdt_token list \<Rightarrow> int \<Rightarrow> bytes \<Rightarrow> int \<times> bytes + int" where
  "tok_getprop str [] off name = Inr (- FDT_ERR_TRUNCATED)"
| "tok_getprop str (TProp no v # ts) off name =
     (if str no = name then Inl (off, v) else tok_getprop str ts (off + tok_len (TProp no v)) name)"
| "tok_getprop str (TNop # ts) off name = tok_getprop str ts (off + 4) name"
| "tok_getprop str (TEnd # ts) off name = Inr (- FDT_ERR_BADSTRUCTURE)"
| "tok_getprop str (t # ts) off name = Inr (- FDT_ERR_NOTFOUND)"

context named_block
begin

lemma name_string:
  assumes "TProp no v \<in> set toks"
  obtains r where "drop (unat (rd32 fdt 12) + unat no) (fdt_mem fdt) = str no @ 0 # r"
  using names [OF assms] append_take_drop_id [of "length (str no) + 1" "drop (unat (rd32 fdt 12) + unat no) (fdt_mem fdt)"]
    that by (metis append.assoc append_Cons append_Nil)

lemma get_string_at:
  assumes mem: "TProp no v \<in> set toks"
  shows "fdt_get_string fdt (int32 (uint no)) =
    Some (Some (unat (rd32 fdt 12) + unat no), int (length (str no)))"
proof -
  define a where "a = no + rd32 fdt 12"
  note lim = names [OF mem] strings_fit fdt_object_size [OF object]
  have un: "int (unat no) < 2147483640" using lim by linarith
  have i0: "0 \<le> uint no" by simp
  then have i: "int32 (uint no) = uint no" using un by (intro int32_id; simp; linarith)
  have a: "unat a = unat (rd32 fdt 12) + unat no"
    using lim unfolding a_def by (subst unat_add_no_wrap) auto
  have tot: "unat (rd32 fdt 4) = struct_end fdt" by (simp add: struct_end_def)
  have lt: "a < rd32 fdt 4" using lim a tot by (simp add: word_less_nat_alt)
  have len: "unat (rd32 fdt 4 - a) = struct_end fdt - unat a"
    using lt tot by (simp add: unat_sub word_le_nat_alt word_less_nat_alt)
  have szno: "unat (rd32 fdt 32 - no) = unat (rd32 fdt 32) - unat no" "\<not> no \<ge> rd32 fdt 32"
    using lim by (auto simp: unat_sub word_le_nat_alt)
  define l where "l = (if rd32 fdt 32 - no < rd32 fdt 4 - a then rd32 fdt 32 - no else rd32 fdt 4 - a)"
  have l: "str_limit fdt (uint no) (rd32 fdt 4 - a) = Inr l" "length (str no) < unat l"
    using lim len szno a i0 by (auto simp: str_limit_def magic version l_def)
  obtain r where "drop (unat a) (fdt_mem fdt) = str no @ 0 # r"
    using name_string [OF mem] a by metis
  then have "sbi_memchr (drop (unat a) (fdt_mem fdt)) 0 (unat l) = Some (Some (length (str no)))"
    using lim(1) l(2) memchr_str [of "str no" "unat l" 0 r] by (simp add: sbi_memchr_def)
  moreover have "int32 (int (length (str no))) = int (length (str no))"
    using lim by (intro int32_id) auto
  ultimately show ?thesis
    using fdt_get_string_eq [OF object probe, of a "uint no"] i lt l a by (simp add: a_def not_le)
qed

lemma string_eq_at:
  assumes mem: "TProp no v \<in> set toks" and "no_nul name"
  shows "fdt_string_eq_i fdt (int32 (uint no)) (name @ 0 # r) (int (length name)) = Some (str no = name)"
proof -
  obtain r' where r': "drop (unat (rd32 fdt 12) + unat no) (fdt_mem fdt) = str no @ 0 # r'"
    by (rule name_string [OF mem])
  show ?thesis
  proof (cases "length (str no) = length name")
    case True
    then obtain c where "sbi_memcmp (str no @ 0 # r') (name @ 0 # r) (length name) = Some c"
      "c = 0 \<longleftrightarrow> str no = name"
      using sbi_memcmp_eq [of "length name" "str no @ 0 # r'" "name @ 0 # r"] by auto
    then show ?thesis using get_string_at [OF mem] r' True by (simp add: fdt_string_eq_i_def)
  qed (use get_string_at [OF mem] in \<open>auto simp: fdt_string_eq_i_def\<close>)
qed

lemma prop_mem:
  assumes "toks = pre @ TProp no v # ts"
  obtains r where "drop (struct_off fdt + nat (pos pre) + 4) (fdt_mem fdt) = enc32 (of_nat (length v)) @ enc32 no @ v @ r"
proof -
  let ?p = "struct_off fdt + length (enc_toks pre)"
  obtain r where "drop ?p (fdt_mem fdt) = enc_toks (TProp no v # ts) @ r" by (rule mem_at [OF assms])
  then have "drop (?p + 4) (fdt_mem fdt) = enc32 (of_nat (length v)) @ enc32 no @ pad4 v @ enc_toks ts @ r"
    using drop_drop [of 4 ?p "fdt_mem fdt"] by (simp add: enc_tok_def add.commute)
  then show thesis using that by (simp add: pad4_def pos_def)
qed

lemma property_at:
  assumes toks: "toks = pre @ TProp no v # ts"
  shows "fdt_check_prop_offset_i fdt (pos pre) = Some (pos pre + tok_len (TProp no v))"
    and "fdt_get_property_by_offset_i fdt (pos pre) =
      Some (Some (struct_off fdt + nat (pos pre)), int (length v))"
    and "fdt32_ld fdt (struct_off fdt + nat (pos pre) + 8) = Some no"
    and "fdt32_ld fdt (struct_off fdt + nat (pos pre) + 4) = Some (of_nat (length v))"
    and "take (length v) (drop (struct_off fdt + nat (pos pre) + 12) (fdt_mem fdt)) = v"
proof -
  let ?p = "struct_off fdt + nat (pos pre)"
  obtain r where r: "drop (?p + 4) (fdt_mem fdt) = enc32 (of_nat (length v)) @ enc32 no @ v @ r"
    by (rule prop_mem [OF toks])
  show chk: "fdt_check_prop_offset_i fdt (pos pre) = Some (pos pre + tok_len (TProp no v))"
    using next_tag_at [OF toks] by (simp add: fdt_check_prop_offset_i_def)
  have d8: "drop (?p + 8) (fdt_mem fdt) = enc32 no @ v @ r"
    using r drop_drop [of 4 "?p + 4" "fdt_mem fdt"] by (simp add: add.commute)
  show "fdt32_ld fdt (?p + 8) = Some no" by (rule rd32_at(2) [OF d8])
  have "drop (?p + 12) (fdt_mem fdt) = v @ r"
    using d8 drop_drop [of 4 "?p + 8" "fdt_mem fdt"] by (simp add: add.commute)
  then show "take (length v) (drop (?p + 12) (fdt_mem fdt)) = v" by simp
  show ld: "fdt32_ld fdt (?p + 4) = Some (of_nat (length v))" by (rule rd32_at(2) [OF r])
  have lv: "length v < 2147483640" using toks_ok toks by simp
  then have "int32 (uint (of_nat (length v) :: u32)) = int (length v)"
    by (subst int32_id) (auto simp: unsigned_of_nat take_bit_nat_eq_self)
  moreover have "nat (uint (rd32 fdt 8) + pos pre) = ?p"
    by (simp add: struct_off_def nat_add_distrib)
  ultimately show "fdt_get_property_by_offset_i fdt (pos pre) = Some (Some ?p, int (length v))"
    using chk ld by (simp add: fdt_get_property_by_offset_i_def fdt_offset_ptr_i_def fdt_header_reads [OF object])
qed

lemma property_before_end:
  assumes toks: "toks = pre @ TProp no v # ts" and "ts \<noteq> []"
  shows "struct_off fdt + nat (pos pre) + 12 + length v < length (fdt_mem fdt)"
proof -
  obtain x xs where ts: "ts = x # xs" using assms(2) by (cases ts) auto
  have "length (enc_toks pre) + (12 + length v) < length (enc_toks toks)"
    using length_pad4_ge [of v] length_enc_tok_ge [of x] by (simp add: toks ts) (simp add: enc_tok_def)
  then show ?thesis using fits fdt_object_size(1) [OF object] by (simp add: pos_def)
qed

lemma get_property_loop_at:
  "toks = pre @ ts \<Longrightarrow> no_nul name \<Longrightarrow>
    get_property_loop fdt (tok_nextprop ts (pos pre)) (name @ 0 # r) (int (length name)) =
    Some (case tok_getprop str ts (pos pre) name of
            Inl (o', v) \<Rightarrow> (Some (struct_off fdt + nat o', o'), int (length v)) | Inr e \<Rightarrow> (None, e))"
proof (induction ts arbitrary: pre)
  case Nil
  then show ?case by (subst get_property_loop.simps) simp
next
  case (Cons t ts)
  have rec: "get_property_loop fdt (tok_nextprop ts (pos pre + tok_len t)) (name @ 0 # r) (int (length name)) =
    Some (case tok_getprop str ts (pos pre + tok_len t) name of
            Inl (o', v) \<Rightarrow> (Some (struct_off fdt + nat o', o'), int (length v)) | Inr e \<Rightarrow> (None, e))"
    using Cons(1) [of "pre @ [t]"] Cons(2,3) by simp
  show ?case
  proof (cases t)
    case (TProp no v)
    have toks: "toks = pre @ TProp no v # ts" using Cons(2) TProp by simp
    have mem: "TProp no v \<in> set toks" using toks by simp
    have nx: "fdt_next_property_offset fdt (pos pre) = Some (tok_nextprop ts (pos pre + tok_len t))"
      using property_at(1) [OF toks] nextprop_at [of "pre @ [t]" ts] Cons(2) TProp
      by (simp add: fdt_next_property_offset_def)
    show ?thesis
      using property_at [OF toks] string_eq_at [OF mem Cons(3), of r] nx rec TProp
      by (simp add: get_property_loop.simps [of fdt "pos pre"])
  next
    case TNop
    then show ?thesis using rec by simp
  qed (simp_all add: get_property_loop.simps)
qed

lemma getprop_at:
  assumes toks: "toks = pre @ TBegin n # ts" and name: "no_nul name" "length name < 2 ^ 31"
  shows "fdt_getprop fdt (pos pre) (name @ 0 # r) =
    Some (case tok_getprop str ts (pos pre + tok_len (TBegin n)) name of
            Inl (o', v) \<Rightarrow> (Some (struct_off fdt + nat o' + 12), int (length v)) | Inr e \<Rightarrow> (None, e))"
proof -
  have l: "int32 (uint (of_nat (length name) :: ulong)) = int (length name)"
    using name(2) by (subst int32_id) (auto simp: unsigned_of_nat take_bit_nat_eq_self)
  have f: "fdt_first_property_offset fdt (pos pre) = Some (tok_nextprop ts (pos pre + tok_len (TBegin n)))"
    using check_node_at [OF toks] nextprop_at [of "pre @ [TBegin n]" ts] toks
    by (simp add: fdt_first_property_offset_def)
  let ?g = "tok_getprop str ts (pos pre + tok_len (TBegin n)) name"
  have found: "\<exists>mid no v' us. ts = mid @ TProp no v' # us \<and> o' = off + pos mid \<and> v' = v"
    if "tok_getprop str ts off name = Inl (o', v)" for ts off o' v
    using that
  proof (induction str ts off name rule: tok_getprop.induct)
    case (2 str no v' ts off name)
    show ?case
    proof (cases "str no = name")
      case True
      with 2(2) show ?thesis by (intro exI [of _ "[]"]) auto
    next
      case False
      with 2 obtain mid no' v'' us where "ts = mid @ TProp no' v'' # us"
        "o' = off + tok_len (TProp no v') + pos mid" "v'' = v" by auto
      then show ?thesis by (intro exI [of _ "TProp no v' # mid"]) auto
    qed
  next
    case (3 str ts off name)
    then obtain mid no' v'' us where "ts = mid @ TProp no' v'' # us" "o' = off + 4 + pos mid" "v'' = v" by auto
    then show ?case by (intro exI [of _ "TNop # mid"]) auto
  qed auto
  have ld: "fdt32_ld fdt (struct_off fdt + nat o' + 4) \<noteq> None" if g: "?g = Inl (o', v)" for o' v
  proof -
    obtain mid no us where m: "ts = mid @ TProp no v # us" "o' = pos (pre @ TBegin n # mid)"
      using found [OF g] by auto
    then show ?thesis using property_at(4) [of "pre @ TBegin n # mid" no v us] toks by simp
  qed
  show ?thesis
    using get_property_loop_at [of "pre @ [TBegin n]" ts name r] toks name(1) f ld
    by (auto simp: fdt_getprop_def sbi_strlen_eq l fdt_getprop_namelen_def fdt_get_property_namelen_i_def
        fdt_header_reads [OF object] version split: sum.splits)
qed

end

end
