(* ===== verification/Fdt_Tree.thy ===== *)
theory Fdt_Tree
  imports Fdt_Tokens
begin

text \<open>
  Device trees and their flattened form. A tree is a datatype of names, properties and children;
  \<open>dtb\<close> flattens it into the bytes of a version 17 blob, and the locale \<open>dt_blob\<close> fixes a tree
  that fits the format. Its sublocale relation to \<open>named_block\<close> discharges the laws of the token
  view for the encoder, and the lookups of \<^verbatim>\<open>fdt_ro.c\<close> on the blob are shown to compute the lookups
  on the tree: children by name, nodes by path, parents, property values and searches over all
  nodes.
\<close>

section \<open>Trees and the encoder\<close>

datatype dtnode = DtNode (dt_name: bytes) (dt_props: "(bytes \<times> bytes) list") (dt_children: "dtnode list")

fun tree_names :: "dtnode \<Rightarrow> bytes list" where
  "tree_names (DtNode n ps cs) = map fst ps @ concat (map tree_names cs)"

fun flat :: "(bytes \<Rightarrow> u32) \<Rightarrow> dtnode \<Rightarrow> fdt_token list" where
  "flat so (DtNode n ps cs) =
     TBegin n # map (\<lambda>(k, v). TProp (so k) v) ps @ concat (map (flat so) cs) @ [TEnd_node]"

fun tree_ok :: "dtnode \<Rightarrow> bool" where
  "tree_ok (DtNode n ps cs) \<longleftrightarrow>
     no_nul n \<and> list_all (\<lambda>(k, v). no_nul k) ps \<and> list_all tree_ok cs"

definition strtab :: "bytes list \<Rightarrow> bytes" where
  "strtab names = concat (map (\<lambda>s. s @ [0]) names)"

fun str_index :: "bytes list \<Rightarrow> bytes \<Rightarrow> nat" where
  "str_index [] k = 0"
| "str_index (s # ss) k = (if s = k then 0 else length s + 1 + str_index ss k)"

definition dt_strings :: "dtnode \<Rightarrow> bytes" where
  "dt_strings t = strtab (remdups (tree_names t))"

definition dt_nameoff :: "dtnode \<Rightarrow> bytes \<Rightarrow> u32" where
  "dt_nameoff t k = of_nat (str_index (remdups (tree_names t)) k)"

definition dt_str :: "dtnode \<Rightarrow> u32 \<Rightarrow> bytes" where
  "dt_str t no = takeWhile (\<lambda>c. c \<noteq> 0) (drop (unat no) (dt_strings t))"

definition dt_toks :: "dtnode \<Rightarrow> fdt_token list" where
  "dt_toks t = flat (dt_nameoff t) t @ [TEnd]"

definition dtb :: "ulong \<Rightarrow> dtnode \<Rightarrow> fdt_blob" where
  "dtb addr t = (let st = enc_toks (dt_toks t); strs = dt_strings t in
     \<lparr>fdt_addr = addr,
      fdt_mem = concat (map enc32 [0xd00dfeed, of_nat (56 + length st + length strs), 56,
          of_nat (56 + length st), 40, 17, 16, 0, of_nat (length strs), of_nat (length st)]) @
        replicate 16 0 @ st @ strs\<rparr>)"

definition dt_wf :: "ulong \<Rightarrow> dtnode \<Rightarrow> bool" where
  "dt_wf addr t \<longleftrightarrow> addr AND 7 = 0 \<and> tree_ok t \<and>
     length (enc_toks (dt_toks t)) + length (dt_strings t) < 2147483584"

locale dt_blob =
  fixes addr :: ulong and t :: dtnode
  assumes wf: "dt_wf addr t"

section \<open>The string table\<close>

lemma drop_str_index:
  "k \<in> set names \<Longrightarrow> \<exists>r. drop (str_index names k) (strtab names) = k @ 0 # r"
  by (induction names) (auto simp: strtab_def)

lemma str_index_less: "k \<in> set names \<Longrightarrow> str_index names k + length k < length (strtab names)"
  by (induction names) (auto simp: strtab_def)

lemma flat_props: "TProp no v \<in> set (flat so t) \<Longrightarrow> \<exists>k \<in> set (tree_names t). no = so k"
proof (induction so t rule: flat.induct)
  case (1 so n ps cs)
  from 1(2) consider k where "(k, v) \<in> set ps" "no = so k"
    | c where "c \<in> set cs" "TProp no v \<in> set (flat so c)" by auto
  then show ?case
  proof cases
    case 1
    then show ?thesis by force
  next
    case 2
    from 1(1) [OF this] obtain k where "k \<in> set (tree_names c)" "no = so k" by blast
    with 2(1) show ?thesis by auto
  qed
qed

lemma tree_names_no_nul: "tree_ok t \<Longrightarrow> k \<in> set (tree_names t) \<Longrightarrow> no_nul k"
proof (induction t rule: tree_ok.induct)
  case (1 n ps cs)
  from 1(3) consider v where "(k, v) \<in> set ps" | c where "c \<in> set cs" "k \<in> set (tree_names c)" by auto
  then show ?case
  proof cases
    case 1
    with \<open>tree_ok (DtNode n ps cs)\<close> show ?thesis by (auto simp: list_all_iff)
  next
    case 2
    with 1(1,2) show ?thesis by (auto simp: list_all_iff)
  qed
qed

context dt_blob
begin

lemma sizes: "length (dt_strings t) < 2 ^ 32" "length (enc_toks (dt_toks t)) < 2 ^ 32"
  using wf by (auto simp: dt_wf_def)

lemma name_at_offset:
  assumes "k \<in> set (tree_names t)"
  shows "unat (dt_nameoff t k) = str_index (remdups (tree_names t)) k"
    and "unat (dt_nameoff t k) + length k < length (dt_strings t)"
    and "\<exists>r. drop (unat (dt_nameoff t k)) (dt_strings t) = k @ 0 # r"
    and "dt_str t (dt_nameoff t k) = k" and "no_nul k"
proof -
  have k: "k \<in> set (remdups (tree_names t))" using assms by simp
  have less: "str_index (remdups (tree_names t)) k + length k < length (dt_strings t)"
    using str_index_less [OF k] by (simp add: dt_strings_def)
  then show u: "unat (dt_nameoff t k) = str_index (remdups (tree_names t)) k"
    using sizes by (simp add: dt_nameoff_def unat_of_nat)
  then show "unat (dt_nameoff t k) + length k < length (dt_strings t)" using less by simp
  show nn: "no_nul k" using tree_names_no_nul [OF _ assms] wf by (simp add: dt_wf_def)
  obtain r where r: "drop (unat (dt_nameoff t k)) (dt_strings t) = k @ 0 # r"
    using drop_str_index [OF k] u by (auto simp: dt_strings_def)
  then show "\<exists>r. drop (unat (dt_nameoff t k)) (dt_strings t) = k @ 0 # r" by blast
  have "\<forall>c \<in> set k. c \<noteq> 0" using nn by (auto simp: no_nul_def)
  then show "dt_str t (dt_nameoff t k) = k" using r by (simp add: dt_str_def takeWhile_append2)
qed

lemma header:
  "rd32 (dtb addr t) 0 = 0xd00dfeed"
  "rd32 (dtb addr t) 4 = of_nat (56 + length (enc_toks (dt_toks t)) + length (dt_strings t))"
  "rd32 (dtb addr t) 8 = 56"
  "rd32 (dtb addr t) 12 = of_nat (56 + length (enc_toks (dt_toks t)))"
  "rd32 (dtb addr t) 20 = 17"
  "rd32 (dtb addr t) 24 = 16"
  "rd32 (dtb addr t) 32 = of_nat (length (dt_strings t))"
  "rd32 (dtb addr t) 36 = of_nat (length (enc_toks (dt_toks t)))"
  by (rule rd32_at(1); simp add: dtb_def Let_def; fail)+

end


section \<open>The encoder produces blobs of the token view\<close>

lemma enc_tok_le: "x \<in> set ts \<Longrightarrow> length (enc_tok x) \<le> length (enc_toks ts)"
  by (induction ts) auto

lemma flat_begins: "tree_ok t \<Longrightarrow> TBegin n \<in> set (flat so t) \<Longrightarrow> no_nul n"
proof (induction so t rule: flat.induct)
  case (1 so m ps cs)
  from 1(3) consider "n = m" | c where "c \<in> set cs" "TBegin n \<in> set (flat so c)" by auto
  then show ?case
  proof cases
    case 2
    with 1(1,2) show ?thesis by (auto simp: list_all_iff)
  qed (use 1(2) in simp)
qed

context dt_blob
begin

lemma header_nats:
  "unat (rd32 (dtb addr t) 4) = 56 + length (enc_toks (dt_toks t)) + length (dt_strings t)"
  "unat (rd32 (dtb addr t) 8) = 56"
  "unat (rd32 (dtb addr t) 12) = 56 + length (enc_toks (dt_toks t))"
  "unat (rd32 (dtb addr t) 32) = length (dt_strings t)"
  "unat (rd32 (dtb addr t) 36) = length (enc_toks (dt_toks t))"
  using wf unfolding header dt_wf_def by (simp_all add: unat_of_nat del: of_nat_add)

lemma total_bound: "uint (rd32 (dtb addr t) 4) < 2147483640"
proof -
  have "int (unat (rd32 (dtb addr t) 4)) = int (56 + length (enc_toks (dt_toks t)) + length (dt_strings t))"
    by (simp only: header_nats)
  then show ?thesis using wf by (simp add: dt_wf_def)
qed

lemma mem_length: "length (fdt_mem (dtb addr t)) = 56 + length (enc_toks (dt_toks t)) + length (dt_strings t)"
  by (simp add: dtb_def Let_def)

lemma mem_drops:
  "drop 56 (fdt_mem (dtb addr t)) = enc_toks (dt_toks t) @ dt_strings t"
  "drop (56 + length (enc_toks (dt_toks t))) (fdt_mem (dtb addr t)) = dt_strings t"
  by (simp_all add: dtb_def Let_def)

lemma object': "fdt_object (dtb addr t)"
proof -
  have "fdt_totalsize (dtb addr t) = Some (rd32 (dtb addr t) 4)"
    unfolding fdt_totalsize_def by (rule fdt32_ld_eq) (simp add: mem_length)
  then show ?thesis using total_bound by (simp add: fdt_object_def mem_length header_nats)
qed

lemma toks_ok': "list_all tok_ok (dt_toks t)"
proof -
  have "tok_ok x" if x: "x \<in> set (dt_toks t)" for x
  proof (cases x)
    case (TBegin n)
    with x wf flat_begins show ?thesis by (auto simp: dt_toks_def dt_wf_def)
  next
    case (TProp no v)
    have "length v \<le> length (enc_tok x)" using TProp length_pad4_ge [of v] by (simp add: enc_tok_def)
    also have "\<dots> \<le> length (enc_toks (dt_toks t))" by (rule enc_tok_le [OF x])
    finally show ?thesis using wf TProp by (simp add: dt_wf_def)
  qed simp_all
  then show ?thesis by (simp add: list_all_iff)
qed

end

sublocale dt_blob \<subseteq> blk: named_block "dtb addr t" "dt_toks t" "dt_str t"
proof
  let ?b = "dtb addr t" and ?st = "enc_toks (dt_toks t)"
  show obj: "fdt_object ?b" by (rule object')
  show "fdt_ro_probe_i ?b = Some (uint (rd32 ?b 4))"
    using wf total_bound by (simp add: fdt_ro_probe_i_def fdt_header_reads [OF obj] header(1,5,6) dt_wf_def)
      (simp add: dtb_def Let_def)
  show "rd32 ?b 0 = FDT_MAGIC" "rd32 ?b 20 = 17" by (rule header)+
  have so: "struct_off ?b = 56" by (simp add: struct_off_def header_nats)
  have se: "struct_end ?b = 56 + length ?st + length (dt_strings t)" by (simp add: struct_end_def header_nats)
  show "struct_off ?b + length ?st \<le> struct_end ?b" by (simp add: so se)
  show "take (length ?st) (drop (struct_off ?b) (fdt_mem ?b)) = ?st" by (simp add: so mem_drops)
  show "unat (rd32 ?b 36) = length ?st" by (rule header_nats)
  show "list_all tok_ok (dt_toks t)" by (rule toks_ok')
  show "unat (rd32 ?b 12) + unat (rd32 ?b 32) \<le> struct_end ?b" by (simp add: header_nats se)
  fix no v assume "TProp no v \<in> set (dt_toks t)"
  then obtain k where k: "k \<in> set (tree_names t)" "no = dt_nameoff t k"
    using flat_props [of no v "dt_nameoff t" t] by (auto simp: dt_toks_def)
  note n = name_at_offset [OF k(1)]
  obtain r where r: "drop (unat no) (dt_strings t) = k @ 0 # r" using n(3) k(2) by blast
  have "drop (unat (rd32 ?b 12) + unat no) (fdt_mem ?b) = k @ 0 # r"
    using mem_drops(2) drop_drop [of "unat no" "56 + length ?st" "fdt_mem ?b"] r
    by (simp add: header_nats add.commute)
  then show "no_nul (dt_str t no) \<and> unat no + length (dt_str t no) < unat (rd32 ?b 32) \<and>
      take (length (dt_str t no) + 1) (drop (unat (rd32 ?b 12) + unat no) (fdt_mem ?b)) = dt_str t no @ [0]"
    using n k(2) by (simp add: header_nats)
qed


section \<open>Nodes and their offsets\<close>

abbreviation flats :: "(bytes \<Rightarrow> u32) \<Rightarrow> dtnode list \<Rightarrow> fdt_token list" where
  "flats so cs \<equiv> concat (map (flat so) cs)"

abbreviation prop_toks :: "(bytes \<Rightarrow> u32) \<Rightarrow> (bytes \<times> bytes) list \<Rightarrow> fdt_token list" where
  "prop_toks so ps \<equiv> map (\<lambda>(k, v). TProp (so k) v) ps"

text \<open>\<open>body so s\<close> is the distance from the start of a node to its first child.\<close>

definition body :: "(bytes \<Rightarrow> u32) \<Rightarrow> dtnode \<Rightarrow> int" where
  "body so s = pos (TBegin (dt_name s) # prop_toks so (dt_props s))"

fun preorder :: "(bytes \<Rightarrow> u32) \<Rightarrow> dtnode \<Rightarrow> int \<Rightarrow> (int \<times> dtnode) list"
  and preorders :: "(bytes \<Rightarrow> u32) \<Rightarrow> dtnode list \<Rightarrow> int \<Rightarrow> (int \<times> dtnode) list" where
  "preorder so (DtNode n ps cs) off =
     (off, DtNode n ps cs) # preorders so cs (off + body so (DtNode n ps cs))"
| "preorders so [] off = []"
| "preorders so (c # cs) off = preorder so c off @ preorders so cs (off + pos (flat so c))"

fun find_child :: "(bytes \<Rightarrow> u32) \<Rightarrow> dtnode list \<Rightarrow> int \<Rightarrow> bytes \<Rightarrow> (int \<times> dtnode) option" where
  "find_child so [] off name = None"
| "find_child so (c # cs) off name =
     (if name_match (dt_name c) name then Some (off, c) else find_child so cs (off + pos (flat so c)) name)"

fun dt_path :: "(bytes \<Rightarrow> u32) \<Rightarrow> dtnode \<Rightarrow> int \<Rightarrow> bytes list \<Rightarrow> (int \<times> dtnode) option" where
  "dt_path so s off [] = Some (off, s)"
| "dt_path so s off (c # cs) =
     (case find_child so (dt_children s) (off + body so s) c of
        None \<Rightarrow> None | Some (off', s') \<Rightarrow> dt_path so s' off' cs)"

lemma preorder_split:
  "(o', s) \<in> set (preorder so t off) \<Longrightarrow>
    \<exists>pre post. flat so t = pre @ flat so s @ post \<and> o' = off + pos pre"
  "(o', s) \<in> set (preorders so cs off) \<Longrightarrow>
    \<exists>pre post. flats so cs = pre @ flat so s @ post \<and> o' = off + pos pre"
proof (induction so t off and so cs off rule: preorder_preorders.induct)
  case (1 so n ps cs off)
  show ?case
  proof (cases "(o', s) = (off, DtNode n ps cs)")
    case True
    then show ?thesis by (intro exI [of _ "[]"] exI [of _ "[]"]) simp
  next
    case False
    with 1(2) have "(o', s) \<in> set (preorders so cs (off + body so (DtNode n ps cs)))" by auto
    from 1(1) [OF this] obtain pre post where "flats so cs = pre @ flat so s @ post"
      "o' = off + body so (DtNode n ps cs) + pos pre" by blast
    then show ?thesis
      by (intro exI [of _ "TBegin n # prop_toks so ps @ pre"] exI [of _ "post @ [TEnd_node]"])
         (simp add: body_def)
  qed
next
  case (3 so c cs off)
  from 3(3) consider "(o', s) \<in> set (preorder so c off)"
    | "(o', s) \<in> set (preorders so cs (off + pos (flat so c)))" by auto
  then show ?case
  proof cases
    case 1
    from 3(1) [OF this] obtain pre post where "flat so c = pre @ flat so s @ post" "o' = off + pos pre" by blast
    then show ?thesis by (intro exI [of _ pre] exI [of _ "post @ flats so cs"]) simp
  next
    case 2
    from 3(2) [OF this] obtain pre post where "flats so cs = pre @ flat so s @ post"
      "o' = off + pos (flat so c) + pos pre" by blast
    then show ?thesis by (intro exI [of _ "flat so c @ pre"] exI [of _ post]) simp
  qed
qed simp

lemma preorder_self: "(off, s) \<in> set (preorder so s off)"
  by (cases s) simp

lemma preorder_trans:
  "(o', s) \<in> set (preorder so t off) \<Longrightarrow> set (preorder so s o') \<subseteq> set (preorder so t off)"
  "(o', s) \<in> set (preorders so cs off) \<Longrightarrow> set (preorder so s o') \<subseteq> set (preorders so cs off)"
proof (induction so t off and so cs off rule: preorder_preorders.induct)
  case (1 so n ps cs off)
  then show ?case by (cases "(o', s) = (off, DtNode n ps cs)") auto
next
  case (3 so c cs off)
  from 3(3) show ?case using 3(1,2) by fastforce
qed simp

lemma find_child_preorders: "find_child so cs off name = Some (o', c) \<Longrightarrow> (o', c) \<in> set (preorders so cs off)"
  by (induction so cs off name rule: find_child.induct) (auto simp: preorder_self split: if_splits)

lemma find_child_preorder:
  assumes "(o', s) \<in> set (preorder so t off)"
    and "find_child so (dt_children s) (o' + body so s) name = Some (o'', c)"
  shows "(o'', c) \<in> set (preorder so t off)"
proof -
  have "(o'', c) \<in> set (preorder so s o')" using find_child_preorders [OF assms(2)] by (cases s) simp
  with preorder_trans(1) [OF assms(1)] show ?thesis by blast
qed

lemma preorder_names: "(o', s) \<in> set (preorder so t off) \<Longrightarrow> set (map fst (dt_props s)) \<subseteq> set (tree_names t)"
  and preorders_names: "(o', s) \<in> set (preorders so cs off) \<Longrightarrow>
    set (map fst (dt_props s)) \<subseteq> (\<Union>c \<in> set cs. set (tree_names c))"
proof (induction so t off and so cs off rule: preorder_preorders.induct)
  case (1 so n ps cs off)
  show ?case
  proof (cases "(o', s) = (off, DtNode n ps cs)")
    case False
    with 1 show ?thesis by fastforce
  qed simp
next
  case (3 so c cs off)
  from 3(3) consider "(o', s) \<in> set (preorder so c off)"
    | "(o', s) \<in> set (preorders so cs (off + pos (flat so c)))" by auto
  then show ?case by cases (use 3(1,2) in fastforce)+
qed simp

section \<open>Scanning over subtrees\<close>

lemma scan_props: "tok_scan (prop_toks so ps @ r) off d name = tok_scan r (off + pos (prop_toks so ps)) d name"
  by (induction ps arbitrary: off) (auto simp: add.assoc)

lemma scan_tree:
  "1 \<le> d \<Longrightarrow> tok_scan (flat so s @ r) off d name = tok_scan r (off + pos (flat so s)) d name"
proof (induction so s arbitrary: off d r rule: flat.induct)
  case (1 so n ps cs)
  have "tok_scan (flats so cs @ r) off (d + 1) name = tok_scan r (off + pos (flats so cs)) (d + 1) name" for off r
    using 1
  proof (induction cs arbitrary: off r)
    case (Cons c cs)
    then show ?case by (simp add: add.assoc)
  qed simp
  then show ?case using 1(2) by (simp add: scan_props add.assoc)
qed

lemma scan_trees: "1 \<le> d \<Longrightarrow> tok_scan (flats so cs @ r) off d name = tok_scan r (off + pos (flats so cs)) d name"
  by (induction cs arbitrary: off) (auto simp: scan_tree add.assoc)

lemma scan_children:
  "tok_scan (flats so cs @ TEnd_node # r) off 0 name =
    (case find_child so cs off name of None \<Rightarrow> - FDT_ERR_NOTFOUND | Some (o', c) \<Rightarrow> o')"
proof (induction cs arbitrary: off)
  case (Cons c cs)
  obtain n ps ds where c: "c = DtNode n ps ds" by (cases c)
  show ?case
  proof (cases "name_match n name")
    case False
    have "tok_scan (flat so c @ flats so cs @ TEnd_node # r) off 0 name =
        tok_scan (flats so cs @ TEnd_node # r) (off + pos (flat so c)) 0 name"
      using False by (simp add: c scan_props scan_trees add.assoc)
    then show ?thesis using Cons False by (simp add: c)
  qed (simp add: c)
qed simp


section \<open>Lookups on the blob are lookups on the tree\<close>

text \<open>\<open>dt_node t o s\<close>: the subtree \<open>s\<close> of \<open>t\<close> starts at offset \<open>o\<close> of the structure block.\<close>

definition dt_node :: "dtnode \<Rightarrow> int \<Rightarrow> dtnode \<Rightarrow> bool" where
  "dt_node t o' s \<longleftrightarrow> (o', s) \<in> set (preorder (dt_nameoff t) t 0)"

text \<open>What \<^verbatim>\<open>fdt_getprop\<close> has to return for a property with the given value, or for none.\<close>

definition value_at :: "fdt_blob \<Rightarrow> nat \<Rightarrow> bytes \<Rightarrow> bool" where
  "value_at fdt p v \<longleftrightarrow> take (length v) (drop p (fdt_mem fdt)) = v \<and> p + length v < length (fdt_mem fdt)"

definition gets :: "fdt_blob \<Rightarrow> int \<Rightarrow> bytes \<Rightarrow> bytes option \<Rightarrow> bool" where
  "gets fdt o' name v \<longleftrightarrow>
     (case v of None \<Rightarrow> fdt_getprop fdt o' name = Some (None, - FDT_ERR_NOTFOUND)
      | Some v \<Rightarrow> \<exists>p. fdt_getprop fdt o' name = Some (Some p, int (length v)) \<and> value_at fdt p v)"

lemma getprop_toks:
  assumes "\<And>k. k \<in> set (map fst ps) \<Longrightarrow> str (so k) = k" and "tok_getprop str ts (off + pos (prop_toks so ps)) name = Inr e"
  shows "case map_of ps name of
      None \<Rightarrow> tok_getprop str (prop_toks so ps @ ts) off name = Inr e
    | Some v \<Rightarrow> \<exists>pre no post. prop_toks so ps = pre @ TProp no v # post \<and>
        tok_getprop str (prop_toks so ps @ ts) off name = Inl (off + pos pre, v)"
  using assms
proof (induction ps arbitrary: off)
  case (Cons kv ps)
  obtain k w where kv: "kv = (k, w)" by (cases kv)
  have str: "str (so k) = k" using Cons(2) kv by simp
  show ?case
  proof (cases "k = name")
    case True
    then show ?thesis using str by (auto simp: kv intro!: exI [of _ "[]"])
  next
    case False
    have "case map_of ps name of
        None \<Rightarrow> tok_getprop str (prop_toks so ps @ ts) (off + int (length (enc_tok (TProp (so k) w)))) name = Inr e
      | Some v \<Rightarrow> \<exists>pre no post. prop_toks so ps = pre @ TProp no v # post \<and>
          tok_getprop str (prop_toks so ps @ ts) (off + int (length (enc_tok (TProp (so k) w)))) name =
            Inl (off + int (length (enc_tok (TProp (so k) w))) + pos pre, v)"
      using Cons(2,3) by (intro Cons(1)) (auto simp: kv add.assoc)
    then show ?thesis
    proof (cases "map_of ps name")
      case (Some v)
      with \<open>case map_of ps name of None \<Rightarrow> _ | Some v \<Rightarrow> _\<close> obtain pre no post
        where "prop_toks so ps = pre @ TProp no v # post"
          "tok_getprop str (prop_toks so ps @ ts) (off + int (length (enc_tok (TProp (so k) w)))) name =
            Inl (off + int (length (enc_tok (TProp (so k) w))) + pos pre, v)" by auto
      with Some False str show ?thesis by (auto simp: kv intro!: exI [of _ "TProp (so k) w # pre"])
    qed (use False str in \<open>simp add: kv\<close>)
  qed
qed simp

context dt_blob
begin

lemma node_split:
  assumes "dt_node t o' s"
  obtains pre post where "dt_toks t = pre @ flat (dt_nameoff t) s @ post" and "o' = pos pre"
  using preorder_split(1) [OF assms [unfolded dt_node_def]] that by (fastforce simp: dt_toks_def)

lemma node_nonneg: "dt_node t o' s \<Longrightarrow> 0 \<le> o' \<and> o' < 2147483640"
proof (rule node_split)
  fix pre post assume sp: "dt_toks t = pre @ flat (dt_nameoff t) s @ post" "o' = pos pre"
  have "pos pre + (pos (flat (dt_nameoff t) s) + pos post) < 2147483640"
    using blk.pos_small unfolding sp(1) pos_simps .
  with pos_nonneg(1) [of pre] pos_nonneg(1) [of post] pos_nonneg(1) [of "flat (dt_nameoff t) s"]
  show ?thesis unfolding sp(2) by linarith
qed

lemma node_begin:
  assumes "dt_node t o' s"
  obtains pre post where "dt_toks t = pre @ TBegin (dt_name s) # prop_toks (dt_nameoff t) (dt_props s) @
      flats (dt_nameoff t) (dt_children s) @ TEnd_node # post" and "o' = pos pre"
proof (rule node_split [OF assms])
  fix pre post assume "dt_toks t = pre @ flat (dt_nameoff t) s @ post" "o' = pos pre"
  then show thesis by (cases s) (auto intro: that)
qed

lemma root_node: "dt_node t 0 t"
  by (simp add: dt_node_def preorder_self)

lemma subnode_tree:
  assumes node: "dt_node t o' s" and "len \<le> length nm"
  shows "fdt_subnode_offset_namelen (dtb addr t) o' nm (int len) =
    Some (case find_child (dt_nameoff t) (dt_children s) (o' + body (dt_nameoff t) s) (take len nm) of
            None \<Rightarrow> - FDT_ERR_NOTFOUND | Some (o'', c) \<Rightarrow> o'')"
proof (rule node_begin [OF node])
  fix pre post
  assume sp: "dt_toks t = pre @ TBegin (dt_name s) # prop_toks (dt_nameoff t) (dt_props s) @
      flats (dt_nameoff t) (dt_children s) @ TEnd_node # post" "o' = pos pre"
  show ?thesis
    using blk.subnode_at [OF sp(1) assms(2)] sp(2) by (simp add: scan_props scan_children body_def add.assoc)
qed

lemma child_node:
  "dt_node t o' s \<Longrightarrow> find_child (dt_nameoff t) (dt_children s) (o' + body (dt_nameoff t) s) name = Some (o'', c) \<Longrightarrow>
    dt_node t o'' c"
  unfolding dt_node_def by (rule find_child_preorder)

text \<open>The value of a property of a node.\<close>

lemma getprop_tree:
  assumes node: "dt_node t o' s" and name: "no_nul name" "length name < 2 ^ 31"
  shows "gets (dtb addr t) o' (name @ 0 # r) (map_of (dt_props s) name)"
proof (rule node_begin [OF node])
  fix pre post
  let ?so = "dt_nameoff t" and ?ps = "dt_props s"
  let ?b = "TBegin (dt_name s)" and ?rest = "flats ?so (dt_children s) @ TEnd_node # post"
  assume sp: "dt_toks t = pre @ ?b # prop_toks ?so ?ps @ ?rest" "o' = pos pre"
  have str: "dt_str t (?so k) = k" if "k \<in> set (map fst ?ps)" for k
    using preorder_names [OF node [unfolded dt_node_def]] that by (intro name_at_offset(4)) auto
  have end': "tok_getprop (dt_str t) ?rest off name = Inr (- FDT_ERR_NOTFOUND)" for off
  proof (cases "dt_children s")
    case (Cons c cs)
    then show ?thesis by (cases c) simp
  qed simp
  let ?off = "pos pre + int (length (enc_tok ?b))"
  note g = blk.getprop_at [OF sp(1) name, of r]
  note find = getprop_toks [OF str end', of ?ps ?off]
  show ?thesis
  proof (cases "map_of ?ps name")
    case None
    then show ?thesis using g find sp(2) by (simp add: gets_def)
  next
    case (Some v)
    obtain mid no after where m: "prop_toks ?so ?ps = mid @ TProp no v # after"
      "tok_getprop (dt_str t) (prop_toks ?so ?ps @ ?rest) ?off name = Inl (?off + pos mid, v)"
      using find Some by auto
    have at: "dt_toks t = (pre @ ?b # mid) @ TProp no v # after @ ?rest" using sp(1) m(1) by simp
    have "value_at (dtb addr t) (struct_off (dtb addr t) + nat (?off + pos mid) + 12) v"
      using blk.property_at(5) [OF at] blk.property_before_end [OF at] by (simp add: value_at_def add.assoc)
    with g m(2) Some sp(2) show ?thesis by (auto simp: gets_def)
  qed
qed

end


section \<open>Paths\<close>

definition path_str :: "bytes list \<Rightarrow> bytes" where
  "path_str comps = concat (map (\<lambda>c. 47 # c) comps)"

definition comp_ok :: "bytes \<Rightarrow> bool" where
  "comp_ok c \<longleftrightarrow> c \<noteq> [] \<and> 47 \<notin> set c \<and> no_nul c"

lemma path_str_simps [simp]: "path_str [] = []" "path_str (c # cs) = 47 # c @ path_str cs"
  by (simp_all add: path_str_def)

lemma path_str_no_nul: "list_all comp_ok comps \<Longrightarrow> no_nul (path_str comps)"
  by (induction comps) (auto simp: comp_ok_def no_nul_def)

lemma memchr_found: "x \<notin> set s \<Longrightarrow> length s < n \<Longrightarrow> memchr_loop i (s @ x # r) x n = Some (Some (i + length s))"
proof (induction s arbitrary: i n)
  case Nil
  then show ?case by (cases n) simp_all
next
  case (Cons c s)
  then show ?case by (cases n) auto
qed

lemma memchr_absent: "x \<notin> set s \<Longrightarrow> memchr_loop i (s @ r) x (length s) = Some None"
  by (induction s arbitrary: i) auto

lemma memchr_component:
  assumes "comp_ok c"
  shows "(case sbi_memchr (c @ path_str cs @ r) 47 (length c + length (path_str cs)) of
      None \<Rightarrow> None | Some None \<Rightarrow> Some (length c + length (path_str cs)) | Some (Some i) \<Rightarrow> Some i) =
    Some (length c)"
proof (cases cs)
  case Nil
  then show ?thesis using memchr_absent [of 47 c 0 r] assms by (simp add: sbi_memchr_def comp_ok_def)
next
  case (Cons d ds)
  then show ?thesis
    using memchr_found [of 47 c "length c + length (path_str cs)" 0 "d @ path_str ds @ r"] assms
    by (simp add: sbi_memchr_def comp_ok_def)
qed

lemma path_walk_component:
  assumes "comp_ok c" and "length c < 2 ^ 31"
  shows "path_walk fdt (47 # c @ path_str cs @ r) (Suc (length c + length (path_str cs))) offset =
    (case fdt_subnode_offset_namelen fdt offset (c @ path_str cs @ r) (int (length c)) of
       None \<Rightarrow> None
     | Some offset' \<Rightarrow> if offset' < 0 then Some offset'
                       else path_walk fdt (path_str cs @ r) (length (path_str cs)) offset')"
proof -
  obtain x xs where c: "c = x # xs" "x \<noteq> 47" using assms(1) by (cases c) (auto simp: comp_ok_def)
  have sk: "skip_slashes (47 # c @ path_str cs @ r) (Suc (length c + length (path_str cs))) =
      Some (c @ path_str cs @ r, length c + length (path_str cs))" using c by simp
  obtain q where q: "sbi_memchr (c @ path_str cs @ r) 47 (length c + length (path_str cs)) = Some q"
    "(case q of None \<Rightarrow> length c + length (path_str cs) | Some i \<Rightarrow> i) = length c"
    using memchr_component [OF assms(1), of cs r] by (auto split: option.splits)
  have i: "int32 (int (length c)) = int (length c)" using assms(2) by (intro int32_id) simp_all
  show ?thesis
    unfolding path_walk.simps [of fdt "47 # c @ path_str cs @ r"] sk option.case prod.case q Let_def i
    by (simp add: c(1) split: option.split)
qed

context dt_blob
begin

lemma path_walk_tree:
  "list_all comp_ok comps \<Longrightarrow> length (path_str comps) < 2 ^ 31 \<Longrightarrow> dt_node t o' s \<Longrightarrow>
    path_walk (dtb addr t) (path_str comps @ r) (length (path_str comps)) o' =
      Some (case dt_path (dt_nameoff t) s o' comps of None \<Rightarrow> - FDT_ERR_NOTFOUND | Some (o'', s') \<Rightarrow> o'')"
proof (induction comps arbitrary: o' s)
  case (Cons c cs)
  have c: "comp_ok c" "length c < 2 ^ 31" and cs: "length (path_str cs) < 2 ^ 31" using Cons by simp_all
  have sub: "fdt_subnode_offset_namelen (dtb addr t) o' (c @ path_str cs @ r) (int (length c)) =
      Some (case find_child (dt_nameoff t) (dt_children s) (o' + body (dt_nameoff t) s) c of
              None \<Rightarrow> - FDT_ERR_NOTFOUND | Some (o'', s') \<Rightarrow> o'')"
    using subnode_tree [OF Cons(4), of "length c" "c @ path_str cs @ r"] by simp
  show ?case
  proof (cases "find_child (dt_nameoff t) (dt_children s) (o' + body (dt_nameoff t) s) c")
    case None
    then show ?thesis using path_walk_component [OF c] sub by simp
  next
    case (Some os)
    then obtain o'' s' where os: "find_child (dt_nameoff t) (dt_children s) (o' + body (dt_nameoff t) s) c = Some (o'', s')"
      by (cases os) auto
    then have "dt_node t o'' s'" by (rule child_node [OF Cons(4)])
    then show ?thesis using path_walk_component [OF c] sub os Cons(1) [OF _ cs] Cons(2) node_nonneg by fastforce
  qed
qed (simp add: path_walk.simps)

lemma dt_path_node: "dt_node t o' s \<Longrightarrow> dt_path (dt_nameoff t) s o' comps = Some (o'', s') \<Longrightarrow> dt_node t o'' s'"
  by (induction comps arbitrary: o' s) (auto split: option.splits dest: child_node)

lemma path_offset_tree:
  assumes "list_all comp_ok comps" and "comps \<noteq> []" and "length (path_str comps) < 2 ^ 31"
  shows "fdt_path_offset (dtb addr t) (path_str comps @ 0 # r) =
    Some (case dt_path (dt_nameoff t) t 0 comps of None \<Rightarrow> - FDT_ERR_NOTFOUND | Some (o'', s') \<Rightarrow> o'')"
proof -
  have hd: "hd (path_str comps @ 0 # r) = 47" using assms(2) by (cases comps) auto
  have n: "sbi_strlen (path_str comps @ 0 # r) = Some (of_nat (length (path_str comps)))"
    by (rule sbi_strlen_eq [OF path_str_no_nul [OF assms(1)]])
  have "uint (of_nat (length (path_str comps)) :: ulong) = int (length (path_str comps))"
    using assms(3) by (simp add: unsigned_of_nat take_bit_nat_eq_self)
  then have u: "int32 (uint (of_nat (length (path_str comps)) :: ulong)) = int (length (path_str comps))"
    using int32_id [of "int (length (path_str comps))"] assms(3) by (simp only:) simp
  have "fdt_path_offset_namelen (dtb addr t) (path_str comps @ 0 # r) (int (length (path_str comps))) =
      path_walk (dtb addr t) (path_str comps @ 0 # r) (length (path_str comps)) 0"
    using hd by (subst fdt_path_offset_namelen.simps) (simp add: blk.probe)
  then show ?thesis
    unfolding fdt_path_offset_def n using u path_walk_tree [OF assms(1,3) root_node, of "0 # r"] by simp
qed

end


text \<open>The lookup of a path in a tree, without offsets.\<close>

fun dt_find :: "dtnode \<Rightarrow> bytes list \<Rightarrow> dtnode option" where
  "dt_find s [] = Some s"
| "dt_find s (c # cs) =
     (case find (\<lambda>d. name_match (dt_name d) c) (dt_children s) of None \<Rightarrow> None | Some d \<Rightarrow> dt_find d cs)"

lemma find_child_find: "map_option snd (find_child so cs off name) = find (\<lambda>d. name_match (dt_name d) name) cs"
  by (induction so cs off name rule: find_child.induct) auto

lemma dt_path_find: "map_option snd (dt_path so s off comps) = dt_find s comps"
proof (induction comps arbitrary: s off)
  case (Cons c cs)
  show ?case
    unfolding dt_find.simps dt_path.simps find_child_find [of so _ "off + body so s", symmetric]
    using Cons by (cases "find_child so (dt_children s) (off + body so s) c") auto
qed simp

text \<open>
  C15. Round trip of the flattened form. For every device tree that fits the format, absolute path
  (of fewer than \<open>2 ^ 31\<close> characters, as its length is an \<^verbatim>\<open>int\<close>) and property name: looking the path up in the encoded blob and reading the property at the offset
  found returns the node and the value that the tree has, byte for byte, and \<^verbatim>\<open>-FDT_ERR_NOTFOUND\<close>
  exactly for a path or a property that the tree does not have.
\<close>

theorem fdt_lookup_roundtrip:
  assumes "dt_wf addr t" and "list_all comp_ok comps" and "comps \<noteq> []" and "length (path_str comps) < 2 ^ 31"
    and "no_nul name" and "length name < 2 ^ 31"
  shows "case dt_find t comps of
      None \<Rightarrow> fdt_path_offset (dtb addr t) (path_str comps @ [0]) = Some (- FDT_ERR_NOTFOUND)
    | Some s \<Rightarrow> \<exists>offset \<ge> 0. fdt_path_offset (dtb addr t) (path_str comps @ [0]) = Some offset \<and>
        gets (dtb addr t) offset (name @ [0]) (map_of (dt_props s) name)"
proof -
  have blob: "dt_blob addr t" by unfold_locales (rule assms(1))
  note path = dt_blob.path_offset_tree [OF blob assms(2-4), of "[]"]
  show ?thesis
  proof (cases "dt_path (dt_nameoff t) t 0 comps")
    case None
    then show ?thesis using path dt_path_find [of "dt_nameoff t" t 0 comps] by simp
  next
    case (Some os)
    then obtain o' s where os: "dt_path (dt_nameoff t) t 0 comps = Some (o', s)" by (cases os) auto
    have "dt_node t o' s" by (rule dt_blob.dt_path_node [OF blob dt_blob.root_node [OF blob] os])
    then show ?thesis
      using path os dt_path_find [of "dt_nameoff t" t 0 comps, symmetric]
        dt_blob.getprop_tree [OF blob _ assms(5,6)] dt_blob.node_nonneg [OF blob] by auto
  qed
qed

text \<open>A small tree: a bus with one device.\<close>

definition dt_example :: dtnode where
  "dt_example = DtNode [] [([97], [1, 2])]
     [DtNode [98] [] [DtNode [99, 64, 49] [([97], [3]), ([100], [])] []], DtNode [101] [] []]"

lemma dt_example_wf: "dt_wf 0x82200000 dt_example"
  by (simp add: dt_wf_def dt_example_def dt_toks_def enc_tok_def pad4_def dt_strings_def strtab_def)

theorem fdt_lookup_roundtrip_witness:
  "\<exists>offset \<ge> 0. fdt_path_offset (dtb 0x82200000 dt_example) [47, 98, 47, 99, 0] = Some offset \<and>
    gets (dtb 0x82200000 dt_example) offset [97, 0] (Some [3])"
  using fdt_lookup_roundtrip [OF dt_example_wf, of "[[98], [99]]" "[97]"]
  by (simp add: dt_example_def comp_ok_def name_match_def)

end
