(* ===== verification/Fdt_Search.thy ===== *)
theory Fdt_Search
  imports Fdt_Tree
begin

text \<open>
  Searches over all nodes of an encoded tree and the way back to the parent: the walk with
  \<^verbatim>\<open>fdt_next_node\<close> visits the nodes in document order, so that
  \<^verbatim>\<open>fdt_node_offset_by_compatible\<close> returns the first node in that order whose list of compatible
  strings has the string, and \<^verbatim>\<open>fdt_parent_offset\<close> returns the node of which the node is a child.
\<close>

section \<open>Document order\<close>

fun begins :: "fdt_token list \<Rightarrow> int \<Rightarrow> int list" where
  "begins [] off = []"
| "begins (TBegin n # ts) off = off # begins ts (off + tok_len (TBegin n))"
| "begins (TEnd # ts) off = []"
| "begins (t # ts) off = begins ts (off + tok_len t)"

lemma tok_next_begins:
  "tok_next ts off None = (case begins ts off of [] \<Rightarrow> - FDT_ERR_NOTFOUND | o' # _ \<Rightarrow> o', None)"
  by (induction ts off "None :: int option" rule: tok_next.induct) auto

lemma begins_append: "TEnd \<notin> set ts \<Longrightarrow> begins (ts @ us) off = begins ts off @ begins us (off + pos ts)"
  by (induction ts off rule: begins.induct) (auto simp: add.assoc)

lemma begins_ge: "x \<in> set (begins ts off) \<Longrightarrow> off \<le> x"
  by (induction ts off rule: begins.induct) fastforce+

lemma begins_distinct: "distinct (begins ts off)"
proof (induction ts off rule: begins.induct)
  case (2 n ts off)
  have "off \<notin> set (begins ts (off + tok_len (TBegin n)))"
    using begins_ge [of off ts "off + tok_len (TBegin n)"] length_enc_tok_ge [of "TBegin n"] by auto
  with 2 show ?case by simp
qed auto

lemma flat_no_end: "TEnd \<notin> set (flat so s)"
  by (induction so s rule: flat.induct) auto

lemma flats_no_end: "TEnd \<notin> set (flats so cs)"
  using flat_no_end by auto

lemma begins_props: "begins (prop_toks so ps @ r) off = begins r (off + pos (prop_toks so ps))"
  by (induction ps arbitrary: off) (auto simp: add.assoc)

lemma begins_preorder:
  "begins (flat so s) off = map fst (preorder so s off)"
  "begins (flats so cs) off = map fst (preorders so cs off)"
proof (induction so s off and so cs off rule: preorder_preorders.induct)
  case (1 so n ps cs off)
  have "begins (flats so cs @ [TEnd_node]) (off + body so (DtNode n ps cs)) =
      map fst (preorders so cs (off + body so (DtNode n ps cs)))"
    using 1 flats_no_end by (simp add: begins_append del: UN_iff set_concat)
  then show ?case by (simp add: begins_props body_def add.assoc)
qed (auto simp: begins_append flat_no_end)

lemma split_unique:
  assumes "distinct (xs @ a # ys)" and "xs @ a # ys = xs' @ a # ys'"
  shows "ys = ys'"
proof -
  have *: "tl (dropWhile (\<lambda>x. x \<noteq> a) (zs @ a # us)) = us" if "a \<notin> set zs" for zs us
    using that by (induction zs) auto
  have "distinct (xs' @ a # ys')" using assms(1) unfolding assms(2) .
  then have "a \<notin> set xs" "a \<notin> set xs'" using assms(1) by auto
  with *[of xs ys] *[of xs' ys'] assms(2) show ?thesis by simp
qed

context dt_blob
begin

lemma begins_toks: "begins (dt_toks t) 0 = map fst (preorder (dt_nameoff t) t 0)"
  by (simp add: dt_toks_def begins_append flat_no_end begins_preorder)

lemma next_node_order:
  assumes "preorder (dt_nameoff t) t 0 = xs @ (o', s) # ys"
  shows "fdt_next_node (dtb addr t) o' None =
    Some (case ys of [] \<Rightarrow> - FDT_ERR_NOTFOUND | (o'', s') # _ \<Rightarrow> o'', None)"
proof -
  have node: "dt_node t o' s" using assms by (simp add: dt_node_def)
  show ?thesis
  proof (rule node_begin [OF node])
    fix pre post
    let ?ts = "prop_toks (dt_nameoff t) (dt_props s) @ flats (dt_nameoff t) (dt_children s) @ TEnd_node # post"
    assume sp: "dt_toks t = pre @ TBegin (dt_name s) # ?ts" "o' = pos pre"
    have "TEnd \<notin> set pre"
    proof
      assume "TEnd \<in> set pre"
      then obtain a b where "pre = a @ TEnd # b" by (auto simp: in_set_conv_decomp)
      then have "flat (dt_nameoff t) t @ [TEnd] = a @ TEnd # (b @ TBegin (dt_name s) # ?ts)"
        using sp(1) by (simp add: dt_toks_def)
      then show False using flat_no_end [of "dt_nameoff t" t]
        by (auto simp: append_eq_append_conv2 append_eq_Cons_conv Cons_eq_append_conv)
    qed
    then have "begins (dt_toks t) 0 = begins pre 0 @ o' # begins ?ts (o' + tok_len (TBegin (dt_name s)))"
      unfolding sp(1) by (simp add: begins_append sp(2))
    moreover have "begins (dt_toks t) 0 = map fst xs @ o' # map fst ys"
      by (simp add: begins_toks assms)
    ultimately have "begins ?ts (o' + tok_len (TBegin (dt_name s))) = map fst ys"
      using begins_distinct [of "dt_toks t" 0] split_unique [of "map fst xs" o' "map fst ys"] by metis
    then show ?thesis
      using blk.next_node_at [OF sp(1), of None] sp(2)
      by (cases ys) (auto simp: tok_next_begins)
  qed
qed

lemma next_node_first:
  "fdt_next_node (dtb addr t) (- 1) None =
    Some (case preorder (dt_nameoff t) t 0 of [] \<Rightarrow> - FDT_ERR_NOTFOUND | (o'', s') # _ \<Rightarrow> o'', None)"
  using blk.next_node_start [of None] begins_toks by (simp add: tok_next_begins split: list.split)

end


section \<open>Compatible strings\<close>

fun split_strs :: "bytes \<Rightarrow> bytes \<Rightarrow> bytes list option" where
  "split_strs acc [] = (if acc = [] then Some [] else None)"
| "split_strs acc (c # v) =
     (if c = 0 then map_option (\<lambda>ss. rev acc # ss) (split_strs [] v) else split_strs (c # acc) v)"

lemma split_strs_sound:
  "split_strs acc v = Some ss \<Longrightarrow> no_nul (rev acc) \<Longrightarrow> rev acc @ v = strtab ss \<and> list_all no_nul ss"
proof (induction acc v arbitrary: ss rule: split_strs.induct)
  case (2 acc c v)
  show ?case
  proof (cases "c = 0")
    case True
    then obtain ss' where "split_strs [] v = Some ss'" "ss = rev acc # ss'" using 2(3) by auto
    with 2(1) [OF True] 2(4) True show ?thesis by (auto simp: strtab_def)
  next
    case False
    have "no_nul (rev (c # acc))" using 2(4) False by (auto simp: no_nul_def)
    from 2(2) [OF False _ this] 2(3) False show ?thesis by auto
  qed
qed (auto simp: strtab_def split: if_splits)

text \<open>The bytes of a list of terminated strings, searched the way the code does.\<close>

lemma take_terminated:
  assumes "no_nul s" and "no_nul str"
  shows "take (length str + 1) (str @ 0 # r) = take (length str + 1) (s @ 0 # r') \<longleftrightarrow> str = s"
proof
  assume eq: "take (length str + 1) (str @ 0 # r) = take (length str + 1) (s @ 0 # r')"
  then have "take (length str + 1) (s @ 0 # r') = str @ [0]" by simp
  with assms show "str = s"
  proof (induction str arbitrary: s)
    case Nil
    then show ?case by (cases s) auto
  next
    case (Cons c str)
    then show ?case by (cases s) auto
  qed
qed simp

lemma strtab_Cons: "strtab (s # ss) = s @ 0 # strtab ss" and strtab_Nil: "strtab [] = []"
  by (simp_all add: strtab_def)

lemma in_strtab_length: "s \<in> set ss \<Longrightarrow> length s < length (strtab ss)"
  by (induction ss) (auto simp: strtab_Cons)

lemma stringlist_contains_eq:
  assumes "list_all no_nul ss" and str: "no_nul str" "str \<noteq> []" "length str < 2147483647" and "rest \<noteq> []"
    and "length (strtab ss) < 2147483648"
  shows "stringlist_contains_loop (strtab ss @ rest) (int (length (strtab ss))) (str @ 0 # r) (int (length str)) =
    Some (str \<in> set ss)"
  using assms(1,6)
proof (induction ss)
  case Nil
  then show ?case using str by (subst stringlist_contains_loop.simps) (simp add: strtab_Nil)
next
  case (Cons s ss)
  let ?v = "strtab (s # ss)"
  show ?case
  proof (cases "length str \<le> length ?v")
    case False
    then have "str \<notin> set (s # ss)" using in_strtab_length [of str "s # ss"] by auto
    then show ?thesis using False by (subst stringlist_contains_loop.simps) simp
  next
    case True
    have n: "size_arg (int32 (int (length str) + 1)) = length str + 1" "size_arg (int (length ?v)) = length ?v"
      using str(3) Cons(3) by (simp_all add: int32_id nat_add_distrib)
    have "length str + 1 \<le> length (str @ 0 # r)" "length str + 1 \<le> length (?v @ rest)"
      using True assms(5) by (auto simp: Suc_le_eq length_greater_0_conv [symmetric] simp del: length_greater_0_conv)
    then obtain c where c: "sbi_memcmp (str @ 0 # r) (?v @ rest) (length str + 1) = Some c"
      "c = 0 \<longleftrightarrow> take (length str + 1) (str @ 0 # r) = take (length str + 1) (?v @ rest)"
      using sbi_memcmp_eq [of "length str + 1" "str @ 0 # r" "?v @ rest"] by auto
    have c0: "c = 0 \<longleftrightarrow> str = s"
      using c(2) take_terminated [of s str r "strtab ss @ rest"] Cons(2) str(1) by (simp add: strtab_Cons)
    have m: "sbi_memchr (?v @ rest) 0 (length ?v) = Some (Some (length s))"
      using memchr_str [of s "length ?v" 0 "strtab ss @ rest"] Cons(2) by (simp add: sbi_memchr_def strtab_Cons)
    have d: "drop (length s + 1) (?v @ rest) = strtab ss @ rest" by (simp add: strtab_Cons)
    have lt: "length (strtab ss) < 2147483648" using Cons(3) by (simp add: strtab_Cons)
    then have l: "int32 (int (length ?v) - (int (length s) + 1)) = int (length (strtab ss))"
      by (subst int32_id) (simp_all add: strtab_Cons)
    have IH: "stringlist_contains_loop (strtab ss @ rest) (int (length (strtab ss))) (str @ 0 # r) (int (length str)) =
        Some (str \<in> set ss)" using Cons(1,2) lt by simp
    show ?thesis
      unfolding stringlist_contains_loop.simps [of "?v @ rest"] n m l
      using True c(1) c0 IH d l by simp
  qed
qed

definition compat_name :: bytes where
  "compat_name = map of_char ''compatible''"

definition dt_compatible :: "dtnode \<Rightarrow> bytes \<Rightarrow> bool" where
  "dt_compatible s str \<longleftrightarrow>
     (case map_of (dt_props s) compat_name of None \<Rightarrow> False
      | Some v \<Rightarrow> (case split_strs [] v of None \<Rightarrow> False | Some ss \<Rightarrow> str \<in> set ss))"

definition compat_ok :: "dtnode \<Rightarrow> bool" where
  "compat_ok s \<longleftrightarrow>
     (case map_of (dt_props s) compat_name of None \<Rightarrow> True | Some v \<Rightarrow> split_strs [] v \<noteq> None)"

lemma cstr_compat: "cstr ''compatible'' = compat_name @ [0]"
  by (simp add: cstr_def compat_name_def)

lemma compat_name_ok: "no_nul compat_name" "length compat_name < 2 ^ 31"
  by (simp_all add: compat_name_def)

context dt_blob
begin

lemma check_compatible_tree:
  assumes node: "dt_node t o' s" and "compat_ok s" and str: "no_nul str" "str \<noteq> []" "length str < 2147483647"
  shows "fdt_node_check_compatible (dtb addr t) o' (str @ 0 # r) =
    Some (if map_of (dt_props s) compat_name = None then - FDT_ERR_NOTFOUND
          else if dt_compatible s str then 0 else 1)"
proof -
  have g: "gets (dtb addr t) o' (compat_name @ [0]) (map_of (dt_props s) compat_name)"
    by (rule getprop_tree [OF node compat_name_ok])
  show ?thesis
  proof (cases "map_of (dt_props s) compat_name")
    case None
    with g show ?thesis by (simp add: fdt_node_check_compatible_def cstr_compat gets_def)
  next
    case (Some v)
    then obtain ss where ss: "split_strs [] v = Some ss" using assms(2) by (auto simp: compat_ok_def)
    have v: "v = strtab ss" "list_all no_nul ss" using split_strs_sound [OF ss] by auto
    obtain p where p: "fdt_getprop (dtb addr t) o' (compat_name @ [0]) = Some (Some p, int (length v))"
      "value_at (dtb addr t) p v" using g Some by (auto simp: gets_def)
    define rest where "rest = drop (length v) (drop p (fdt_mem (dtb addr t)))"
    have mem: "drop p (fdt_mem (dtb addr t)) = v @ rest" and "rest \<noteq> []"
      using p(2) append_take_drop_id [of "length v" "drop p (fdt_mem (dtb addr t))"]
      by (auto simp: value_at_def rest_def)
    have "sbi_strlen (str @ 0 # r) = Some (of_nat (length str))" by (rule sbi_strlen_eq [OF str(1)])
    moreover have "int32 (uint (of_nat (length str) :: ulong)) = int (length str)"
      using str(3) by (subst int32_id) (simp_all add: unsigned_of_nat take_bit_nat_eq_self)
    moreover have "length (strtab ss) < 2147483648"
      using p(2) wf v(1) by (simp add: value_at_def mem_length dt_wf_def)
    ultimately have "fdt_stringlist_contains (v @ rest) (int (length v)) (str @ 0 # r) = Some (str \<in> set ss)"
      using stringlist_contains_eq [OF v(2) str(1,2,3) \<open>rest \<noteq> []\<close>] v(1)
      by (simp add: fdt_stringlist_contains_def)
    then show ?thesis
      using p(1) mem Some ss by (simp add: fdt_node_check_compatible_def cstr_compat dt_compatible_def)
  qed
qed

lemma by_compatible_tree:
  assumes ok: "\<And>o' s. dt_node t o' s \<Longrightarrow> compat_ok s" and str: "no_nul str" "str \<noteq> []" "length str < 2147483647"
  shows "fdt_node_offset_by_compatible (dtb addr t) (- 1) (str @ 0 # r) =
    Some (case find (\<lambda>(o', s). dt_compatible s str) (preorder (dt_nameoff t) t 0) of
            None \<Rightarrow> - FDT_ERR_NOTFOUND | Some (o', s) \<Rightarrow> o')"
proof -
  have loop: "by_compatible_loop (dtb addr t) start (str @ 0 # r) =
      Some (case find (\<lambda>(o', s). dt_compatible s str) ys of None \<Rightarrow> - FDT_ERR_NOTFOUND | Some (o', s) \<Rightarrow> o')"
    if "preorder (dt_nameoff t) t 0 = xs @ ys" and
      "fdt_next_node (dtb addr t) start None =
        Some (case ys of [] \<Rightarrow> - FDT_ERR_NOTFOUND | (o'', s') # _ \<Rightarrow> o'', None)" for xs ys start
    using that
  proof (induction ys arbitrary: xs start)
    case Nil
    then show ?case by (subst by_compatible_loop.simps) simp
  next
    case (Cons y ys)
    obtain o' s where y: "y = (o', s)" by (cases y)
    have node: "dt_node t o' s" using Cons(2) by (simp add: dt_node_def y)
    have rec: "by_compatible_loop (dtb addr t) o' (str @ 0 # r) =
        Some (case find (\<lambda>(o', s). dt_compatible s str) ys of None \<Rightarrow> - FDT_ERR_NOTFOUND | Some (o', s) \<Rightarrow> o')"
      using Cons(1) [of "xs @ [y]" o'] Cons(2) next_node_order [of xs o' s ys] y by simp
    show ?case
      using Cons(3) rec check_compatible_tree [OF node ok [OF node] str, of r] node_nonneg [OF node] y
      by (subst by_compatible_loop.simps) (auto simp: dt_compatible_def)
  qed
  show ?thesis
    using loop [of "[]" "preorder (dt_nameoff t) t 0" "- 1"] next_node_first
    by (simp add: fdt_node_offset_by_compatible_def blk.probe)
qed

end


section \<open>Parents\<close>

fun kids :: "(bytes \<Rightarrow> u32) \<Rightarrow> dtnode list \<Rightarrow> int \<Rightarrow> (int \<times> dtnode) list" where
  "kids so [] off = []"
| "kids so (c # cs) off = (off, c) # kids so cs (off + pos (flat so c))"

definition is_child :: "(bytes \<Rightarrow> u32) \<Rightarrow> int \<times> dtnode \<Rightarrow> int \<times> dtnode \<Rightarrow> bool" where
  "is_child so x y \<longleftrightarrow> y \<in> set (kids so (dt_children (snd x)) (fst x + body so (snd x)))"

fun chain_ok :: "(bytes \<Rightarrow> u32) \<Rightarrow> (int \<times> dtnode) list \<Rightarrow> bool" where
  "chain_ok so (x # y # r) \<longleftrightarrow> is_child so x y \<and> chain_ok so (y # r)"
| "chain_ok so _ \<longleftrightarrow> True"

lemma kids_split:
  "(o', c) \<in> set (kids so cs off) \<Longrightarrow> \<exists>cs1 cs2. cs = cs1 @ c # cs2 \<and> o' = off + pos (flats so cs1)"
proof (induction cs arbitrary: off)
  case (Cons d ds)
  show ?case
  proof (cases "(o', c) = (off, d)")
    case True
    then show ?thesis by (intro exI [of _ "[]"] exI [of _ ds]) simp
  next
    case False
    with Cons(2) have "(o', c) \<in> set (kids so ds (off + pos (flat so d)))" by auto
    from Cons(1) [OF this] obtain cs1 cs2 where "ds = cs1 @ c # cs2" "o' = off + pos (flat so d) + pos (flats so cs1)"
      by blast
    then show ?thesis by (intro exI [of _ "d # cs1"] exI [of _ cs2]) simp
  qed
qed simp

lemma kids_preorders: "(o', c) \<in> set (kids so cs off) \<Longrightarrow> (o', c) \<in> set (preorders so cs off)"
  by (induction cs arbitrary: off) (auto simp: preorder_self)

lemma body_pos: "4 \<le> body so s"
proof -
  have "4 \<le> int (length (enc_tok (TBegin (dt_name s))))" using length_enc_tok_ge [of "TBegin (dt_name s)"] by simp
  with pos_nonneg(1) [of "prop_toks so (dt_props s)"] show ?thesis unfolding body_def pos_simps by linarith
qed

lemma pos_weaken: "x + pos ys \<le> n \<Longrightarrow> x \<le> n"
  using pos_nonneg(1) [of ys] by linarith

lemma is_child_after: "is_child so x y \<Longrightarrow> fst x < fst y"
proof -
  assume "is_child so x y"
  then obtain cs1 where "fst y = fst x + body so (snd x) + pos (flats so cs1)"
    using kids_split [of "fst y" "snd y" so "dt_children (snd x)" "fst x + body so (snd x)"]
    by (auto simp: is_child_def)
  then show ?thesis using body_pos [of so "snd x"] pos_nonneg(1) [of "flats so cs1"] by linarith
qed

lemma chain_le: "chain_ok so (x # xs) \<Longrightarrow> fst x \<le> fst (last (x # xs))"
proof (induction xs arbitrary: x)
  case (Cons y ys)
  have "fst x < fst y" using Cons(2) is_child_after [of so x y] by simp
  moreover have "fst y \<le> fst (last (y # ys))" using Cons by simp
  ultimately show ?case by simp
qed simp

text \<open>The rest of \<^verbatim>\<open>fdt_supernode_atdepth_offset\<close> once the position is behind the start of a node.\<close>

definition super_next ::
    "fdt_blob \<Rightarrow> int \<Rightarrow> int \<Rightarrow> fdt_token list \<Rightarrow> int \<Rightarrow> int \<Rightarrow> int \<Rightarrow> (int \<times> int option) option" where
  "super_next fdt node sd ts off d w =
     (case tok_next ts off (Some d) of (o', d') \<Rightarrow>
        (case d' of None \<Rightarrow> None | Some d'' \<Rightarrow> supernode_loop fdt o' d'' node sd w))"

lemma super_next_simps:
  "super_next fdt node sd (prop_toks so ps @ r) off d w = super_next fdt node sd r (off + pos (prop_toks so ps)) d w"
  "1 \<le> d \<Longrightarrow> super_next fdt node sd (TEnd_node # r) off d w = super_next fdt node sd r (off + 4) (d - 1) w"
  "super_next fdt node sd (TBegin n # r) off d w = supernode_loop fdt off (d + 1) node sd w"
proof -
  show "super_next fdt node sd (prop_toks so ps @ r) off d w = super_next fdt node sd r (off + pos (prop_toks so ps)) d w"
    by (induction ps arbitrary: off) (auto simp: super_next_def add.assoc)
qed (simp_all add: super_next_def)

context struct_block
begin

lemma super_at:
  assumes "toks = pre @ TBegin n # ts" and "pos pre < node"
  shows "supernode_loop fdt (pos pre) d node sd w =
    super_next fdt node sd ts (pos pre + tok_len (TBegin n)) d (if d = sd then pos pre else w)"
  using next_node_at [OF assms(1), of "Some d"] assms(2)
  by (subst supernode_loop.simps) (simp add: super_next_def Let_def)

lemma super_tree:
  "toks = pre @ flat so s @ r \<Longrightarrow> pos pre + pos (flat so s) \<le> node \<Longrightarrow> 0 \<le> d \<Longrightarrow>
    \<exists>w'. super_next fdt node sd (flat so s @ r) (pos pre) d w =
      super_next fdt node sd r (pos pre + pos (flat so s)) d w' \<and> (sd \<le> d \<longrightarrow> w' = w)"
proof (induction so s arbitrary: pre r d w rule: flat.induct)
  case (1 so n ps cs)
  have cs: "\<exists>w'. super_next fdt node sd (flats so ds @ r') (pos pre') (d + 1) w0 =
      super_next fdt node sd r' (pos pre' + pos (flats so ds)) (d + 1) w' \<and> (sd \<le> d + 1 \<longrightarrow> w' = w0)"
    if "set ds \<subseteq> set cs" "toks = pre' @ flats so ds @ r'" "pos pre' + pos (flats so ds) \<le> node" for ds pre' r' w0
    using that
  proof (induction ds arbitrary: pre' w0)
    case (Cons c ds)
    have c: "c \<in> set cs" using Cons(2) by simp
    have "pos pre' + pos (flat so c) \<le> node" by (rule pos_weaken [of _ "flats so ds"]) (use Cons(4) in \<open>simp add: add.assoc\<close>)
    from 1(1) [OF c _ this, of "flats so ds @ r'" "d + 1" w0] Cons(3) 1(4)
    obtain w1 where w1: "super_next fdt node sd (flat so c @ flats so ds @ r') (pos pre') (d + 1) w0 =
        super_next fdt node sd (flats so ds @ r') (pos pre' + pos (flat so c)) (d + 1) w1" "sd \<le> d + 1 \<longrightarrow> w1 = w0"
      by auto
    have "\<exists>w'. super_next fdt node sd (flats so ds @ r') (pos (pre' @ flat so c)) (d + 1) w1 =
        super_next fdt node sd r' (pos (pre' @ flat so c) + pos (flats so ds)) (d + 1) w' \<and> (sd \<le> d + 1 \<longrightarrow> w' = w1)"
      using Cons(2-4) by (intro Cons(1)) auto
    with w1 show ?case by (auto simp: add.assoc)
  qed auto
  let ?w = "if d + 1 = sd then pos pre else w"
  have toks: "toks = (pre @ TBegin n # prop_toks so ps) @ flats so cs @ TEnd_node # r" using 1(2) by simp
  have below: "pos pre < node"
  proof -
    have "4 \<le> int (length (enc_tok (TBegin n)))" using length_enc_tok_ge [of "TBegin n"] by simp
    moreover have "pos pre + int (length (enc_tok (TBegin n))) \<le> node"
      by (rule pos_weaken [of _ "prop_toks so ps @ flats so cs @ [TEnd_node]"]) (use 1(3) in \<open>simp add: add.assoc\<close>)
    ultimately show ?thesis by linarith
  qed
  have start: "super_next fdt node sd (flat so (DtNode n ps cs) @ r) (pos pre) d w =
      super_next fdt node sd (flats so cs @ TEnd_node # r) (pos (pre @ TBegin n # prop_toks so ps)) (d + 1) ?w"
    using super_at [OF 1(2) [simplified] below] by (simp add: super_next_simps add.assoc)
  obtain w' where "super_next fdt node sd (flats so cs @ TEnd_node # r) (pos (pre @ TBegin n # prop_toks so ps)) (d + 1) ?w =
      super_next fdt node sd (TEnd_node # r) (pos (pre @ TBegin n # prop_toks so ps) + pos (flats so cs)) (d + 1) w'"
    "sd \<le> d + 1 \<longrightarrow> w' = ?w"
    using cs [OF subset_refl toks] 1(3) by fastforce
  then show ?case using start 1(4) by (auto simp: super_next_simps add.assoc)
qed

lemma super_trees:
  "toks = pre @ flats so cs @ r \<Longrightarrow> pos pre + pos (flats so cs) \<le> node \<Longrightarrow> 0 \<le> d \<Longrightarrow>
    \<exists>w'. super_next fdt node sd (flats so cs @ r) (pos pre) d w =
      super_next fdt node sd r (pos pre + pos (flats so cs)) d w' \<and> (sd \<le> d \<longrightarrow> w' = w)"
proof (induction cs arbitrary: pre w)
  case (Cons c cs)
  have "pos pre + pos (flat so c) \<le> node" by (rule pos_weaken [of _ "flats so cs"]) (use Cons(3) in \<open>simp add: add.assoc\<close>)
  from super_tree [OF _ this Cons(4), of "flats so cs @ r" sd w] Cons(2)
  obtain w1 where w1: "super_next fdt node sd (flat so c @ flats so cs @ r) (pos pre) d w =
      super_next fdt node sd (flats so cs @ r) (pos pre + pos (flat so c)) d w1" "sd \<le> d \<longrightarrow> w1 = w" by auto
  have "\<exists>w'. super_next fdt node sd (flats so cs @ r) (pos (pre @ flat so c)) d w1 =
      super_next fdt node sd r (pos (pre @ flat so c) + pos (flats so cs)) d w' \<and> (sd \<le> d \<longrightarrow> w' = w1)"
    using Cons(2-4) by (intro Cons(1)) auto
  with w1 show ?case by (auto simp: add.assoc)
qed auto

end


context dt_blob
begin

lemma is_child_node: "dt_node t (fst x) (snd x) \<Longrightarrow> is_child (dt_nameoff t) x y \<Longrightarrow> dt_node t (fst y) (snd y)"
proof -
  assume x: "dt_node t (fst x) (snd x)" and y: "is_child (dt_nameoff t) x y"
  have "(fst y, snd y) \<in> set (preorder (dt_nameoff t) (snd x) (fst x))"
    using y kids_preorders [of "fst y" "snd y"] by (cases "snd x") (auto simp: is_child_def)
  then show "dt_node t (fst y) (snd y)"
    using preorder_trans(1) [OF x [unfolded dt_node_def]] by (auto simp: dt_node_def)
qed

text \<open>
  From a node at depth \<open>d\<close> the loop follows the chain of children down to the target and
  remembers the chain element at the requested depth.
\<close>

lemma super_chain:
  "chain_ok (dt_nameoff t) (x # xs) \<Longrightarrow> dt_node t (fst x) (snd x) \<Longrightarrow> 0 \<le> d \<Longrightarrow>
    supernode_loop (dtb addr t) (fst x) d (fst (last (x # xs))) sd w =
      Some (if sd > d + int (length xs) then - FDT_ERR_NOTFOUND
            else if sd < d then w else fst ((x # xs) ! nat (sd - d)), Some (d + int (length xs)))"
proof (induction xs arbitrary: x d w)
  case Nil
  then show ?case using node_nonneg [of "fst x" "snd x"] by (subst supernode_loop.simps) (auto simp: Let_def)
next
  case (Cons y ys)
  let ?so = "dt_nameoff t" and ?s = "snd x" and ?node = "fst (last (x # y # ys))"
  have child: "is_child ?so x y" and chain: "chain_ok ?so (y # ys)" using Cons(2) by auto
  obtain cs1 cs2 where cs: "dt_children ?s = cs1 @ snd y # cs2" "fst y = fst x + body ?so ?s + pos (flats ?so cs1)"
    using child kids_split [of "fst y" "snd y" ?so "dt_children ?s" "fst x + body ?so ?s"]
    by (auto simp: is_child_def)
  have node: "fst y \<le> ?node" using chain_le [OF chain] by simp
  obtain pre post where sp: "dt_toks t = pre @ TBegin (dt_name ?s) # prop_toks ?so (dt_props ?s) @
      flats ?so (dt_children ?s) @ TEnd_node # post" "fst x = pos pre"
    by (rule node_begin [OF Cons(3)])
  let ?pre = "pre @ TBegin (dt_name ?s) # prop_toks ?so (dt_props ?s)"
  let ?r = "flat ?so (snd y) @ flats ?so cs2 @ TEnd_node # post"
  have py: "pos ?pre + pos (flats ?so cs1) = fst y" using cs(2) sp(2) by (simp add: body_def)
  have toks: "dt_toks t = ?pre @ flats ?so cs1 @ ?r" using sp(1) cs(1) by simp
  have "pos pre < ?node" using is_child_after [OF child] node sp(2) by simp
  from blk.super_at [OF sp(1) this, of d sd w]
  have a: "supernode_loop (dtb addr t) (fst x) d ?node sd w =
      super_next (dtb addr t) ?node sd (flats ?so cs1 @ ?r) (pos ?pre) d (if d = sd then fst x else w)"
    using sp(2) cs(1) by (simp add: super_next_simps add.assoc)
  obtain w' where b: "super_next (dtb addr t) ?node sd (flats ?so cs1 @ ?r) (pos ?pre) d (if d = sd then fst x else w) =
      super_next (dtb addr t) ?node sd ?r (fst y) d w'" "sd \<le> d \<longrightarrow> w' = (if d = sd then fst x else w)"
    using blk.super_trees [OF toks, of ?node d sd "if d = sd then fst x else w"] py node Cons(4) by auto
  have c: "super_next (dtb addr t) ?node sd ?r (fst y) d w' = supernode_loop (dtb addr t) (fst y) (d + 1) ?node sd w'"
    by (cases "snd y") (simp add: super_next_simps)
  have "supernode_loop (dtb addr t) (fst y) (d + 1) (fst (last (y # ys))) sd w' =
      Some (if sd > d + 1 + int (length ys) then - FDT_ERR_NOTFOUND
            else if sd < d + 1 then w' else fst ((y # ys) ! nat (sd - (d + 1))), Some (d + 1 + int (length ys)))"
    using Cons(1) [OF chain is_child_node [OF Cons(3) child], of "d + 1" w'] Cons(4) by simp
  moreover have "(x # y # ys) ! nat (sd - d) = (y # ys) ! nat (sd - (d + 1))" if "d + 1 \<le> sd"
  proof -
    have "nat (sd - d) = Suc (nat (sd - (d + 1)))" using that by linarith
    then show ?thesis by simp
  qed
  ultimately show ?case using a b c by (auto simp: algebra_simps)
qed

lemma parent_tree:
  assumes "chain_ok (dt_nameoff t) (xs @ [p, x])" and "hd (xs @ [p]) = (0, t)"
  shows "fdt_parent_offset (dtb addr t) (fst x) = Some (fst p)"
proof -
  obtain y ys where c: "xs @ [p, x] = y # ys" by (cases xs) auto
  then have y: "y = (0, t)" using assms(2) by (cases xs) auto
  have len: "length ys = Suc (length xs)" "last (y # ys) = x" "(y # ys) ! length xs = p"
    unfolding c [symmetric] using arg_cong [OF c, of length] by (auto simp: nth_append)
  have chain: "chain_ok (dt_nameoff t) (y # ys)" using assms(1) by (simp add: c)
  have node: "dt_node t (fst y) (snd y)" using root_node y by simp
  have super: "fdt_supernode_atdepth_offset (dtb addr t) (fst x) sd =
      Some (if sd > int (length ys) then - FDT_ERR_NOTFOUND else fst ((y # ys) ! nat sd), Some (int (length ys)))"
    if "0 \<le> sd" for sd
    using super_chain [OF chain node, of 0 sd "- FDT_ERR_INTERNAL"] that len y
    by (auto simp: fdt_supernode_atdepth_offset_def blk.probe)
  have "fdt_node_depth (dtb addr t) (fst x) = Some (int (length ys))"
    using super [of 0] y by (simp add: fdt_node_depth_def)
  then show ?thesis using super [of "int (length xs)"] len by (simp add: fdt_parent_offset_def)
qed

lemma root_parent: "fdt_parent_offset (dtb addr t) 0 = Some (- FDT_ERR_NOTFOUND)"
  using super_chain [of "(0, t)" "[]" 0 0] root_node
  by (simp add: fdt_parent_offset_def fdt_node_depth_def fdt_supernode_atdepth_offset_def blk.probe)

end


lemma kids_of_preorders:
  "(o', s) \<in> set (preorders so cs off) \<Longrightarrow> \<exists>x \<in> set (kids so cs off). (o', s) \<in> set (preorder so (snd x) (fst x))"
  by (induction cs arbitrary: off) auto

lemma preorder_chain:
  "(o', s) \<in> set (preorder so t off) \<Longrightarrow> \<exists>ys. chain_ok so ((off, t) # ys) \<and> last ((off, t) # ys) = (o', s)"
proof (induction t arbitrary: off)
  case (DtNode n ps cs)
  show ?case
  proof (cases "(o', s) = (off, DtNode n ps cs)")
    case True
    then show ?thesis by (intro exI [of _ "[]"]) simp
  next
    case False
    with DtNode(2) have "(o', s) \<in> set (preorders so cs (off + body so (DtNode n ps cs)))" by auto
    then obtain x where x: "x \<in> set (kids so cs (off + body so (DtNode n ps cs)))"
      "(o', s) \<in> set (preorder so (snd x) (fst x))" using kids_of_preorders by blast
    have "snd x \<in> set cs" using x(1) kids_split [of "fst x" "snd x" so cs "off + body so (DtNode n ps cs)"] by auto
    from DtNode(1) [OF this x(2)] obtain ys where "chain_ok so ((fst x, snd x) # ys)" "last ((fst x, snd x) # ys) = (o', s)"
      by blast
    then show ?thesis using x(1) by (intro exI [of _ "x # ys"]) (simp add: is_child_def)
  qed
qed

lemma chain_snoc: "chain_ok so (xs @ [p]) \<Longrightarrow> is_child so p x \<Longrightarrow> chain_ok so (xs @ [p, x])"
  by (induction so "xs @ [p]" arbitrary: xs rule: chain_ok.induct) (auto simp: Cons_eq_append_conv)

text \<open>
  \<^verbatim>\<open>fdt_parent_offset\<close> inverts the child relation: on the blob of every device tree that fits the
  format, the parent offset of a child of a node is the offset of that node.
\<close>

theorem fdt_parent_offset_child:
  assumes "dt_wf addr t" and "dt_node t offset s" and "is_child (dt_nameoff t) (offset, s) (offset', c)"
  shows "fdt_parent_offset (dtb addr t) offset' = Some offset"
proof -
  have blob: "dt_blob addr t" by unfold_locales (rule assms(1))
  obtain ys where ys: "chain_ok (dt_nameoff t) ((0, t) # ys)" "last ((0, t) # ys) = (offset, s)"
    using preorder_chain [OF assms(2) [unfolded dt_node_def]] by blast
  define xs where "xs = butlast ((0, t) # ys)"
  have sp: "(0, t) # ys = xs @ [(offset, s)]" using ys(2) by (metis xs_def append_butlast_last_id list.distinct(1))
  then have "chain_ok (dt_nameoff t) (xs @ [(offset, s), (offset', c)])" using ys(1) assms(3) chain_snoc by simp
  moreover have "hd (xs @ [(offset, s)]) = (0, t)" using sp [symmetric] by simp
  ultimately show ?thesis using dt_blob.parent_tree [OF blob, of xs "(offset, s)" "(offset', c)"] by simp
qed

theorem fdt_parent_offset_child_witness:
  "fdt_parent_offset (dtb 0x82200000 dt_example) 24 = Some 0"
proof -
  have "dt_node dt_example 0 dt_example" by (simp add: dt_node_def preorder_self)
  moreover have "is_child (dt_nameoff dt_example) (0, dt_example)
      (24, DtNode [98] [] [DtNode [99, 64, 49] [([97], [3]), ([100], [])] []])"
    by (simp add: is_child_def dt_example_def body_def enc_tok_def pad4_def)
  ultimately show ?thesis using fdt_parent_offset_child [OF dt_example_wf] by blast
qed

text \<open>
  C20. \<^verbatim>\<open>fdt_node_offset_by_compatible\<close> refines the search on the tree: on the blob of every device tree
  that fits the format and whose \<^verbatim>\<open>compatible\<close> properties are lists of terminated strings, and for a
  string whose length fits an \<^verbatim>\<open>int\<close> together with its terminator, it returns
  the first node in document order that lists the string, and \<^verbatim>\<open>-FDT_ERR_NOTFOUND\<close> if there is none.
\<close>

theorem fdt_by_compatible_first:
  assumes "dt_wf addr t" and "list_all (\<lambda>(o', s). compat_ok s) (preorder (dt_nameoff t) t 0)"
    and "no_nul str" and "str \<noteq> []" and "length str < 2147483647"
  shows "fdt_node_offset_by_compatible (dtb addr t) (- 1) (str @ [0]) =
    Some (case find (\<lambda>(o', s). dt_compatible s str) (preorder (dt_nameoff t) t 0) of
            None \<Rightarrow> - FDT_ERR_NOTFOUND | Some (o', s) \<Rightarrow> o')"
proof -
  have blob: "dt_blob addr t" by unfold_locales (rule assms(1))
  show ?thesis
    by (rule dt_blob.by_compatible_tree [OF blob])
       (use assms in \<open>auto simp: list_all_iff dt_node_def\<close>)
qed

text \<open>A tree with two compatible nodes, the first one listing two strings.\<close>

definition dt_compat_example :: dtnode where
  "dt_compat_example = DtNode [] []
     [DtNode [98] [(compat_name, [120, 0, 121, 0])] [], DtNode [99] [(compat_name, [121, 0])] []]"

theorem fdt_by_compatible_first_witness:
  "fdt_node_offset_by_compatible (dtb 0 dt_compat_example) (- 1) [121, 0] = Some 8"
proof -
  have "dt_wf 0 dt_compat_example"
    by (simp add: dt_wf_def dt_compat_example_def dt_toks_def enc_tok_def pad4_def dt_strings_def strtab_def compat_name_def)
  moreover have p: "preorder so dt_compat_example 0 = [(0, dt_compat_example),
      (8, DtNode [98] [(compat_name, [120, 0, 121, 0])] []), (36, DtNode [99] [(compat_name, [121, 0])] [])]" for so
    by (simp add: dt_compat_example_def body_def enc_tok_def pad4_def)
  ultimately show ?thesis
    using fdt_by_compatible_first [of 0 dt_compat_example "[121]"]
    by (simp add: p compat_ok_def dt_compatible_def) (simp add: dt_compat_example_def)
qed

end
