(* ===== verification/Fdt_Helper.thy ===== *)
theory Fdt_Helper
  imports Fdt_Ro Plat_Types
begin

text \<open>
  The device tree helpers of the firmware, \<^verbatim>\<open>lib/utils/fdt/fdt_helper.c\<close>: matching by compatible
  string, phandles with arguments, register addresses with their translation through the parents,
  hart numbers, the timebase and the nodes of the drivers. Conventions are those of \<^verbatim>\<open>Fdt_Core\<close>;
  the outer \<open>None\<close> also stands for the use of a variable that was never written. Out parameters are
  results, an out parameter that a call leaves alone keeps the value passed in, and the pointers that
  the callers pass are not null. The one message that the code prints is left out.
\<close>

section \<open>Matching\<close>

text \<open>A match table is the list of its entries before the terminating null entry.\<close>

fun match_node_loop :: "fdt_blob \<Rightarrow> int \<Rightarrow> (bytes \<times> 'a) list \<Rightarrow> (bytes \<times> 'a) option option" where
  "match_node_loop fdt nodeoff [] = Some None"
| "match_node_loop fdt nodeoff (m # ms) = do {
     ret \<leftarrow> fdt_node_check_compatible fdt nodeoff (fst m);
     if ret = 0 then Some (Some m) else match_node_loop fdt nodeoff ms }"

definition fdt_match_node :: "fdt_blob \<Rightarrow> int \<Rightarrow> (bytes \<times> 'a) list \<Rightarrow> (bytes \<times> 'a) option option" where
  "fdt_match_node fdt nodeoff match_table =
     (if nodeoff < 0 then Some None else match_node_loop fdt nodeoff match_table)"

fun fdt_find_match :: "fdt_blob \<Rightarrow> int \<Rightarrow> (bytes \<times> 'a) list \<Rightarrow> (int \<times> (bytes \<times> 'a) option) option" where
  "fdt_find_match fdt startoff [] = Some (SBI_ENODEV, None)"
| "fdt_find_match fdt startoff (m # ms) = do {
     nodeoff \<leftarrow> fdt_node_offset_by_compatible fdt startoff (fst m);
     if nodeoff \<ge> 0 then Some (nodeoff, Some m) else fdt_find_match fdt startoff ms }"

record fdt_phandle_args =
  node_offset :: int
  args :: "u32 list"

fun read_args :: "fdt_blob \<Rightarrow> nat \<Rightarrow> nat \<Rightarrow> u32 list option" where
  "read_args fdt p 0 = Some []"
| "read_args fdt p (Suc n) = do { a \<leftarrow> fdt32_ld fdt p; as \<leftarrow> read_args fdt (p + 4) n; Some (a # as) }"

text \<open>The loop over the list: \<open>left\<close> is the number of cells before \<^verbatim>\<open>list_end\<close>.\<close>

function phandle_args_loop ::
    "fdt_blob \<Rightarrow> nat \<Rightarrow> nat \<Rightarrow> bytes \<Rightarrow> int \<Rightarrow> (int \<times> fdt_phandle_args option) option" where
  "phandle_args_loop fdt p left cells_prop index =
     (if left = 0 then Some (SBI_ENOENT, None) else
      (case fdt32_ld fdt p of None \<Rightarrow> None | Some ph \<Rightarrow>
      (case fdt_node_offset_by_phandle fdt ph of None \<Rightarrow> None | Some pnodeoff \<Rightarrow>
       if pnodeoff < 0 then Some (pnodeoff, None) else
      (case fdt_getprop fdt pnodeoff cells_prop of None \<Rightarrow> None | Some (val, len) \<Rightarrow>
      (case val of None \<Rightarrow> Some (SBI_ENOENT, None) | Some v \<Rightarrow>
      (case fdt32_ld fdt v of None \<Rightarrow> None | Some pcells \<Rightarrow>
       if 16 < pcells then Some (SBI_EINVAL, None)
       else if unat pcells > left - 1 then Some (SBI_ENOENT, None)
       else if index > 0
       then phandle_args_loop fdt (p + 4 + 4 * unat pcells) (left - 1 - unat pcells) cells_prop (index - 1)
       else (case read_args fdt (p + 4) (unat pcells) of None \<Rightarrow> None
             | Some as \<Rightarrow> Some (0, Some \<lparr>node_offset = pnodeoff, args = as\<rparr>))))))))"
  by pat_completeness auto

termination
  by (relation "measure (\<lambda>(fdt, p, left, c, i). left)") auto

declare phandle_args_loop.simps [simp del]

definition fdt_parse_phandle_with_args ::
    "fdt_blob \<Rightarrow> int \<Rightarrow> bytes \<Rightarrow> bytes \<Rightarrow> int \<Rightarrow> (int \<times> fdt_phandle_args option) option" where
  "fdt_parse_phandle_with_args fdt nodeoff prop cells_prop index =
     (if nodeoff < 0 then Some (SBI_EINVAL, None) else do {
      (lst, len) \<leftarrow> fdt_getprop fdt nodeoff prop;
      case lst of None \<Rightarrow> Some (SBI_ENOENT, None)
      | Some p \<Rightarrow> phandle_args_loop fdt p (unat ((word_of_int len :: ulong) div 4)) cells_prop index })"

section \<open>Addresses\<close>

fun read_cells :: "fdt_blob \<Rightarrow> nat \<Rightarrow> nat \<Rightarrow> ulong \<Rightarrow> ulong option" where
  "read_cells fdt p 0 temp = Some temp"
| "read_cells fdt p (Suc n) temp = do {
     c \<leftarrow> fdt32_ld fdt p;
     read_cells fdt (p + 4) n (push_bit 32 temp OR ucast c) }"

definition fdt_translate_address :: "fdt_blob \<Rightarrow> ulong \<Rightarrow> int \<Rightarrow> (int \<times> ulong) option" where
  "fdt_translate_address fdt reg parent = do {
     cell_addr \<leftarrow> fdt_address_cells fdt parent;
     if cell_addr < 1 then Some (SBI_ENODEV, 0) else do {
     cell_size \<leftarrow> fdt_size_cells fdt parent;
     if cell_size < 0 then Some (SBI_ENODEV, 0) else do {
     (ranges, rlen) \<leftarrow> fdt_getprop fdt parent (cstr ''ranges'');
     case ranges of None \<Rightarrow> Some (0, reg) | Some p \<Rightarrow>
       if \<not> rlen > 0 then Some (0, reg) else do {
       caddr \<leftarrow> read_cells fdt p (nat cell_addr) 0;
       paddr \<leftarrow> read_cells fdt (p + 4 * nat cell_addr) (nat cell_addr) 0;
       rsize \<leftarrow> read_cells fdt (p + 8 * nat cell_addr) (nat cell_size) 0;
       if reg < caddr \<or> caddr \<ge> reg + rsize then Some (SBI_ENODEV, 0)
       else Some (0, paddr + (reg - caddr)) } } } }"

partial_function (option) translate_loop ::
    "fdt_blob \<Rightarrow> ulong \<Rightarrow> int \<Rightarrow> ulong option \<Rightarrow> ulong option option" where
  "translate_loop fdt temp parent addr =
     (if parent < 0 then Some addr else do {
      (rc, a) \<leftarrow> fdt_translate_address fdt temp parent;
      if rc \<noteq> 0 then Some addr else do {
      parent \<leftarrow> fdt_parent_offset fdt parent;
      translate_loop fdt a parent (Some a) } })"

declare translate_loop.simps [code]

text \<open>
  \<open>addr\<close> is the content of \<^verbatim>\<open>*addr\<close> before the call, \<open>None\<close> when it is not initialised; the third
  result is \<^verbatim>\<open>*size\<close>, which is read only when \<open>want_size\<close> says that the pointer is not null. The product
  of the index and the cells is an \<^verbatim>\<open>int\<close> and does not overflow for an index below \<open>2 ^ 28\<close>; the
  callers pass 0 and 1.
\<close>

definition fdt_get_node_addr_size ::
    "fdt_blob \<Rightarrow> int \<Rightarrow> int \<Rightarrow> ulong option \<Rightarrow> bool \<Rightarrow> (int \<times> ulong option \<times> ulong) option" where
  "fdt_get_node_addr_size fdt node index addr want_size =
     (if node < 0 \<or> index < 0 then Some (SBI_EINVAL, addr, 0) else do {
      parent \<leftarrow> fdt_parent_offset fdt node;
      if parent < 0 then Some (parent, addr, 0) else do {
      cell_addr \<leftarrow> fdt_address_cells fdt parent;
      if cell_addr < 1 then Some (SBI_ENODEV, addr, 0) else do {
      cell_size \<leftarrow> fdt_size_cells fdt parent;
      if cell_size < 0 then Some (SBI_ENODEV, addr, 0) else do {
      (prop_addr, len) \<leftarrow> fdt_getprop fdt node (cstr ''reg'');
      case prop_addr of None \<Rightarrow> Some (SBI_ENODEV, addr, 0) | Some p \<Rightarrow>
        if (word_of_int len :: ulong) div 4 \<le> word_of_int (index * (cell_addr + cell_size))
        then Some (SBI_EINVAL, addr, 0) else do {
        let p = p + 4 * nat (index * (cell_addr + cell_size));
        temp \<leftarrow> read_cells fdt p (nat cell_addr) 0;
        addr \<leftarrow> translate_loop fdt temp parent addr;
        sz \<leftarrow> (if want_size then read_cells fdt (p + 4 * nat cell_addr) (nat cell_size) 0 else Some 0);
        Some (0, addr, sz) } } } } })"

section \<open>Harts\<close>

definition fdt_parse_hart_id :: "fdt_blob \<Rightarrow> int \<Rightarrow> (int \<times> u32) option" where
  "fdt_parse_hart_id fdt cpu_offset =
     (if cpu_offset < 0 then Some (SBI_EINVAL, 0) else do {
      (prop, len) \<leftarrow> fdt_getprop fdt cpu_offset (cstr ''device_type'');
      case prop of None \<Rightarrow> Some (SBI_EINVAL, 0) | Some p \<Rightarrow>
        if len = 0 then Some (SBI_EINVAL, 0) else do {
        r \<leftarrow> sbi_strncmp (drop p (fdt_mem fdt)) (cstr ''cpu'') 3;
        if r \<noteq> 0 then Some (SBI_EINVAL, 0) else do {
        (val, len) \<leftarrow> fdt_getprop fdt cpu_offset (cstr ''reg'');
        case val of None \<Rightarrow> Some (SBI_EINVAL, 0) | Some v \<Rightarrow>
          if (word_of_int len :: ulong) < 4 then Some (SBI_EINVAL, 0) else do {
          hartid \<leftarrow> fdt32_ld fdt (if (word_of_int len :: ulong) > 4 then v + 4 else v);
          Some (0, hartid) } } } })"

partial_function (option) max_hart_loop :: "fdt_blob \<Rightarrow> int \<Rightarrow> u32 \<Rightarrow> u32 option" where
  "max_hart_loop fdt cpu_offset mx =
     (if cpu_offset < 0 then Some mx else do {
      (err, hartid) \<leftarrow> fdt_parse_hart_id fdt cpu_offset;
      next_offset \<leftarrow> fdt_next_subnode fdt cpu_offset;
      max_hart_loop fdt next_offset (if err = 0 \<and> hartid > mx then hartid else mx) })"

declare max_hart_loop.simps [code]

definition fdt_parse_max_hart_id :: "fdt_blob \<Rightarrow> (int \<times> u32) option" where
  "fdt_parse_max_hart_id fdt = do {
     cpus_offset \<leftarrow> fdt_path_offset fdt (cstr ''/cpus'');
     if cpus_offset < 0 then Some (cpus_offset, 0) else do {
     cpu_offset \<leftarrow> fdt_first_subnode fdt cpus_offset;
     mx \<leftarrow> max_hart_loop fdt cpu_offset 0;
     Some (0, mx) } }"

definition fdt_parse_timebase_frequency :: "fdt_blob \<Rightarrow> ulong \<Rightarrow> (int \<times> ulong) option" where
  "fdt_parse_timebase_frequency fdt freq = do {
     cpus_offset \<leftarrow> fdt_path_offset fdt (cstr ''/cpus'');
     if cpus_offset < 0 then Some (cpus_offset, freq) else do {
     (val, len) \<leftarrow> fdt_getprop fdt cpus_offset (cstr ''timebase-frequency'');
     case val of None \<Rightarrow> Some (SBI_ENOENT, freq) | Some v \<Rightarrow>
       if \<not> len > 0 then Some (SBI_ENOENT, freq) else do {
       f \<leftarrow> fdt32_ld fdt v;
       Some (0, ucast f) } } }"

section \<open>Serial ports and interrupt controllers\<close>

text \<open>The steps that all drivers share: the mandatory address and an optional one-cell property.\<close>

definition prop_or_default :: "fdt_blob \<Rightarrow> int \<Rightarrow> bytes \<Rightarrow> ulong \<Rightarrow> ulong option" where
  "prop_or_default fdt nodeoffset name dflt = do {
     (val, len) \<leftarrow> fdt_getprop fdt nodeoffset name;
     case val of None \<Rightarrow> Some dflt | Some v \<Rightarrow>
       if \<not> len > 0 then Some dflt else do { x \<leftarrow> fdt32_ld fdt v; Some (ucast x) } }"

definition reg_address :: "fdt_blob \<Rightarrow> int \<Rightarrow> ulong option option" where
  "reg_address fdt nodeoffset = do {
     (rc, addr, sz) \<leftarrow> fdt_get_node_addr_size fdt nodeoffset 0 None True;
     if rc < 0 then Some None else do {
     a \<leftarrow> addr;
     Some (if a = 0 \<or> sz = 0 then None else Some a) } }"

definition fdt_parse_gaisler_uart_node ::
    "fdt_blob \<Rightarrow> int \<Rightarrow> platform_uart_data \<Rightarrow> (int \<times> platform_uart_data) option" where
  "fdt_parse_gaisler_uart_node fdt nodeoffset uart =
     (if nodeoffset < 0 then Some (SBI_ENODEV, uart) else do {
      reg \<leftarrow> reg_address fdt nodeoffset;
      case reg of None \<Rightarrow> Some (SBI_ENODEV, uart) | Some a \<Rightarrow> do {
      freq \<leftarrow> prop_or_default fdt nodeoffset (cstr ''clock-frequency'') 0;
      baud \<leftarrow> prop_or_default fdt nodeoffset (cstr ''current-speed'') 115200;
      Some (0, uart\<lparr>uart_addr := a, uart_freq := freq, uart_baud := baud, uart_reg_shift := 0,
        uart_reg_io_width := 4\<rparr>) } })"

definition fdt_parse_shakti_uart_node ::
    "fdt_blob \<Rightarrow> int \<Rightarrow> platform_uart_data \<Rightarrow> (int \<times> platform_uart_data) option" where
  "fdt_parse_shakti_uart_node fdt nodeoffset uart =
     (if nodeoffset < 0 then Some (SBI_ENODEV, uart) else do {
      reg \<leftarrow> reg_address fdt nodeoffset;
      case reg of None \<Rightarrow> Some (SBI_ENODEV, uart) | Some a \<Rightarrow> do {
      freq \<leftarrow> prop_or_default fdt nodeoffset (cstr ''clock-frequency'') 50000000;
      baud \<leftarrow> prop_or_default fdt nodeoffset (cstr ''current-speed'') 115200;
      Some (0, uart\<lparr>uart_addr := a, uart_freq := freq, uart_baud := baud\<rparr>) } })"

definition fdt_parse_sifive_uart_node ::
    "fdt_blob \<Rightarrow> int \<Rightarrow> platform_uart_data \<Rightarrow> (int \<times> platform_uart_data) option" where
  "fdt_parse_sifive_uart_node fdt nodeoffset uart =
     (if nodeoffset < 0 then Some (SBI_ENODEV, uart) else do {
      reg \<leftarrow> reg_address fdt nodeoffset;
      case reg of None \<Rightarrow> Some (SBI_ENODEV, uart) | Some a \<Rightarrow> do {
      freq \<leftarrow> prop_or_default fdt nodeoffset (cstr ''clock-frequency'') 0;
      baud \<leftarrow> prop_or_default fdt nodeoffset (cstr ''current-speed'') 115200;
      Some (0, uart\<lparr>uart_addr := a, uart_freq := freq, uart_baud := baud, uart_reg_shift := 0,
        uart_reg_io_width := 4\<rparr>) } })"

definition fdt_parse_uart8250_node ::
    "fdt_blob \<Rightarrow> int \<Rightarrow> platform_uart_data \<Rightarrow> (int \<times> platform_uart_data) option" where
  "fdt_parse_uart8250_node fdt nodeoffset uart =
     (if nodeoffset < 0 then Some (SBI_ENODEV, uart) else do {
      reg \<leftarrow> reg_address fdt nodeoffset;
      case reg of None \<Rightarrow> Some (SBI_ENODEV, uart) | Some a \<Rightarrow> do {
      freq \<leftarrow> prop_or_default fdt nodeoffset (cstr ''clock-frequency'') 0;
      baud \<leftarrow> prop_or_default fdt nodeoffset (cstr ''current-speed'') 115200;
      shift \<leftarrow> prop_or_default fdt nodeoffset (cstr ''reg-shift'') 0;
      width \<leftarrow> prop_or_default fdt nodeoffset (cstr ''reg-io-width'') 1;
      Some (0, uart\<lparr>uart_addr := a, uart_freq := freq, uart_baud := baud, uart_reg_shift := shift,
        uart_reg_io_width := width\<rparr>) } })"

definition fdt_parse_uart8250 ::
    "fdt_blob \<Rightarrow> platform_uart_data \<Rightarrow> bytes \<Rightarrow> (int \<times> platform_uart_data) option" where
  "fdt_parse_uart8250 fdt uart compatible = do {
     nodeoffset \<leftarrow> fdt_node_offset_by_compatible fdt (- 1) compatible;
     if nodeoffset < 0 then Some (nodeoffset, uart) else fdt_parse_uart8250_node fdt nodeoffset uart }"

text \<open>A positive length with a null value is dereferenced: the outer \<open>None\<close>.\<close>

definition fdt_parse_plic_node :: "fdt_blob \<Rightarrow> int \<Rightarrow> plic_data \<Rightarrow> (int \<times> plic_data) option" where
  "fdt_parse_plic_node fdt nodeoffset plic =
     (if nodeoffset < 0 then Some (SBI_ENODEV, plic) else do {
      reg \<leftarrow> reg_address fdt nodeoffset;
      case reg of None \<Rightarrow> Some (SBI_ENODEV, plic) | Some a \<Rightarrow> do {
      (val, len) \<leftarrow> fdt_getprop fdt nodeoffset (cstr ''riscv,ndev'');
      if len > 0 then do {
        v \<leftarrow> val;
        n \<leftarrow> fdt32_ld fdt v;
        Some (0, plic\<lparr>plic_addr := a, plic_num_src := ucast n\<rparr>) }
      else Some (0, plic\<lparr>plic_addr := a\<rparr>) } })"

definition fdt_parse_plic :: "fdt_blob \<Rightarrow> plic_data \<Rightarrow> bytes \<Rightarrow> (int \<times> plic_data) option" where
  "fdt_parse_plic fdt plic compatible = do {
     nodeoffset \<leftarrow> fdt_node_offset_by_compatible fdt (- 1) compatible;
     if nodeoffset < 0 then Some (nodeoffset, plic) else fdt_parse_plic_node fdt nodeoffset plic }"

section \<open>Timers and software interrupts\<close>

record aclint_regs =
  out_addr1 :: ulong
  out_size1 :: ulong
  out_addr2 :: ulong
  out_size2 :: ulong
  out_first_hartid :: u32
  out_hart_count :: u32

text \<open>The loop over the interrupt list; the state is \<open>(first_hartid, last_hartid, hart_count)\<close>.\<close>

fun aclint_harts_loop ::
    "fdt_blob \<Rightarrow> nat \<Rightarrow> nat \<Rightarrow> u32 \<Rightarrow> u32 \<times> u32 \<times> u32 \<Rightarrow> (u32 \<times> u32 \<times> u32) option" where
  "aclint_harts_loop fdt p 0 match_hwirq st = Some st"
| "aclint_harts_loop fdt p (Suc n) match_hwirq (first_hartid, last_hartid, hart_count) = do {
     phandle \<leftarrow> fdt32_ld fdt p;
     hwirq \<leftarrow> fdt32_ld fdt (p + 4);
     cpu_intc_offset \<leftarrow> fdt_node_offset_by_phandle fdt phandle;
     if cpu_intc_offset < 0
     then aclint_harts_loop fdt (p + 8) n match_hwirq (first_hartid, last_hartid, hart_count) else do {
     cpu_offset \<leftarrow> fdt_parent_offset fdt cpu_intc_offset;
     (rc, hartid) \<leftarrow> fdt_parse_hart_id fdt cpu_offset;
     if rc \<noteq> 0 \<or> 128 \<le> hartid \<or> match_hwirq \<noteq> hwirq
     then aclint_harts_loop fdt (p + 8) n match_hwirq (first_hartid, last_hartid, hart_count)
     else aclint_harts_loop fdt (p + 8) n match_hwirq
       (if hartid < first_hartid then hartid else first_hartid,
        if hartid > last_hartid then hartid else last_hartid, hart_count + 1) } }"

definition fdt_parse_aclint_node ::
    "fdt_blob \<Rightarrow> int \<Rightarrow> bool \<Rightarrow> (int \<times> aclint_regs option) option" where
  "fdt_parse_aclint_node fdt nodeoffset for_timer =
     (if nodeoffset < 0 then Some (SBI_EINVAL, None) else do {
      (rc, addr1, size1) \<leftarrow> fdt_get_node_addr_size fdt nodeoffset 0 None True;
      if rc < 0 \<or> size1 = 0 then Some (SBI_ENODEV, None) else do {
      a1 \<leftarrow> addr1;
      (rc, addr2, size2) \<leftarrow> fdt_get_node_addr_size fdt nodeoffset 1 addr1 True;
      a2 \<leftarrow> addr2;
      let (a2, s2) = (if rc < 0 \<or> size2 = 0 then (0, 0) else (a2, size2));
      let out = \<lparr>out_addr1 = a1, out_size1 = size1, out_addr2 = a2, out_size2 = s2,
                 out_first_hartid = 0, out_hart_count = 0\<rparr>;
      (val, count) \<leftarrow> fdt_getprop fdt nodeoffset (cstr ''interrupts-extended'');
      case val of None \<Rightarrow> Some (0, Some out) | Some v \<Rightarrow>
        if (word_of_int count :: ulong) < 4 then Some (0, Some out) else do {
        let cells = int32 (uint ((word_of_int count :: ulong) div 4));
        (first_hartid, last_hartid, hart_count) \<leftarrow>
          aclint_harts_loop fdt v (nat (cells div 2)) (if for_timer then 7 else 3) (0xffffffff, 0, 0);
        Some (0, Some (if last_hartid \<ge> first_hartid \<and> first_hartid \<noteq> 0xffffffff
          then out\<lparr>out_first_hartid := first_hartid,
                   out_hart_count := (if hart_count < last_hartid - first_hartid + 1 then hart_count
                                      else last_hartid - first_hartid + 1)\<rparr>
          else out)) } } })"

text \<open>The test of \<^verbatim>\<open>addr\<close> after the call is a test of the pointer, which is not null.\<close>

definition fdt_parse_compat_addr :: "fdt_blob \<Rightarrow> ulong option \<Rightarrow> bytes \<Rightarrow> (int \<times> ulong option) option" where
  "fdt_parse_compat_addr fdt addr compatible = do {
     nodeoffset \<leftarrow> fdt_node_offset_by_compatible fdt (- 1) compatible;
     if nodeoffset < 0 then Some (nodeoffset, addr) else do {
     (rc, addr, sz) \<leftarrow> fdt_get_node_addr_size fdt nodeoffset 0 addr False;
     Some (if rc < 0 then SBI_ENODEV else 0, addr) } }"

end
