(* ===== verification/Fdt_Helper_Tree.thy ===== *)
theory Fdt_Helper_Tree
  imports Fdt_Helper Fdt_Search
begin

text \<open>
  The device tree helpers on encoded trees: cell counts, register addresses with their translation
  through the ancestors, and the timebase are functions of the tree. The specifications below are
  written over tree nodes and property values and know neither offsets nor pointers.
\<close>

section \<open>Cells of a value\<close>

definition vcell :: "bytes \<Rightarrow> nat \<Rightarrow> u32" where
  "vcell v i = be32 (v ! (4 * i)) (v ! (4 * i + 1)) (v ! (4 * i + 2)) (v ! (4 * i + 3))"

fun vcells :: "bytes \<Rightarrow> nat \<Rightarrow> nat \<Rightarrow> ulong \<Rightarrow> ulong" where
  "vcells v i 0 temp = temp"
| "vcells v i (Suc n) temp = vcells v (Suc i) n (push_bit 32 temp OR ucast (vcell v i))"

lemma value_nth: "value_at fdt p v \<Longrightarrow> i < length v \<Longrightarrow> fdt_mem fdt ! (p + i) = v ! i"
proof -
  assume v: "value_at fdt p v" and i: "i < length v"
  have t: "take (length v) (drop p (fdt_mem fdt)) = v" and p: "p + length v < length (fdt_mem fdt)"
    using v by (simp_all add: value_at_def)
  have "take (length v) (drop p (fdt_mem fdt)) ! i = fdt_mem fdt ! (p + i)" using i p by simp
  then show ?thesis unfolding t by simp
qed

lemma ld_value:
  assumes "value_at fdt p v" and "4 * i + 4 \<le> length v"
  shows "fdt32_ld fdt (p + 4 * i) = Some (vcell v i)"
proof -
  have "p + 4 * i + 4 \<le> length (fdt_mem fdt)" using assms by (simp add: value_at_def)
  moreover have "fdt_mem fdt ! (p + 4 * i + k) = v ! (4 * i + k)" if "k < 4" for k
    using value_nth [OF assms(1), of "4 * i + k"] assms(2) that by (simp add: add.assoc)
  from this [of 0] this [of 1] this [of 2] this [of 3] have "rd32 fdt (p + 4 * i) = vcell v i"
    by (simp add: rd32_def vcell_def)
  ultimately show ?thesis using fdt32_ld_eq by simp
qed

lemma read_cells_value:
  "value_at fdt p v \<Longrightarrow> 4 * (i + n) \<le> length v \<Longrightarrow> read_cells fdt (p + 4 * i) n temp = Some (vcells v i n temp)"
proof (induction n arbitrary: i temp)
  case (Suc n)
  have "fdt32_ld fdt (p + 4 * i) = Some (vcell v i)" using Suc by (intro ld_value) auto
  moreover have "read_cells fdt (p + 4 * Suc i) n (push_bit 32 temp OR ucast (vcell v i)) =
      Some (vcells v (Suc i) n (push_bit 32 temp OR ucast (vcell v i)))"
    using Suc by (intro Suc.IH) auto
  moreover have "p + 4 * Suc i = p + 4 * i + 4" by simp
  ultimately show ?case by (metis read_cells.simps(2) vcells.simps(2) bind.bind_lunit)
qed simp

section \<open>The helpers on trees\<close>

abbreviation nm :: "string \<Rightarrow> bytes" where
  "nm s \<equiv> map of_char s"

definition dt_prop :: "dtnode \<Rightarrow> string \<Rightarrow> bytes option" where
  "dt_prop s name = map_of (dt_props s) (nm name)"

definition dt_cells :: "dtnode \<Rightarrow> string \<Rightarrow> int" where
  "dt_cells s name =
     (case dt_prop s name of None \<Rightarrow> - FDT_ERR_NOTFOUND
      | Some v \<Rightarrow> if length v \<noteq> 4 \<or> vcell v 0 > 4 then - FDT_ERR_BADNCELLS else uint (vcell v 0))"

definition dt_address_cells :: "dtnode \<Rightarrow> int" where
  "dt_address_cells s = (let val = dt_cells s ''#address-cells'' in
     if val = 0 then - FDT_ERR_BADNCELLS else if val = - FDT_ERR_NOTFOUND then 2 else val)"

definition dt_size_cells :: "dtnode \<Rightarrow> int" where
  "dt_size_cells s = (let val = dt_cells s ''#size-cells'' in
     if val = - FDT_ERR_NOTFOUND then 1 else val)"

text \<open>Translation through one bus: the first entry of \<^verbatim>\<open>ranges\<close>, read with the cell counts of the bus.\<close>

definition dt_translate :: "dtnode \<Rightarrow> ulong \<Rightarrow> ulong option" where
  "dt_translate s reg = (let ca = dt_address_cells s; cs = dt_size_cells s in
     if ca < 1 \<or> cs < 0 then None else
     (case dt_prop s ''ranges'' of None \<Rightarrow> Some reg
      | Some v \<Rightarrow> if v = [] then Some reg else
          let caddr = vcells v 0 (nat ca) 0; paddr = vcells v (nat ca) (nat ca) 0;
              rsize = vcells v (2 * nat ca) (nat cs) 0
          in if reg < caddr \<or> caddr \<ge> reg + rsize then None else Some (paddr + (reg - caddr))))"

definition ranges_ok :: "dtnode \<Rightarrow> bool" where
  "ranges_ok s \<longleftrightarrow> (case dt_prop s ''ranges'' of None \<Rightarrow> True
     | Some v \<Rightarrow> v = [] \<or> 4 * (2 * nat (dt_address_cells s) + nat (dt_size_cells s)) \<le> length v)"

text \<open>Through all ancestors, the parent first; the last translated address is kept on an error.\<close>

fun dt_translate_up :: "dtnode list \<Rightarrow> ulong \<Rightarrow> ulong option \<Rightarrow> ulong option" where
  "dt_translate_up [] temp addr = addr"
| "dt_translate_up (s # ss) temp addr =
     (case dt_translate s temp of None \<Rightarrow> addr | Some a \<Rightarrow> dt_translate_up ss a (Some a))"

text \<open>The register at an index of a node with the given ancestors, the parent first.\<close>

definition dt_addr_size :: "dtnode list \<Rightarrow> dtnode \<Rightarrow> nat \<Rightarrow> ulong option \<Rightarrow> int \<times> ulong option \<times> ulong" where
  "dt_addr_size anc s index addr =
    (if anc = [] then (- FDT_ERR_NOTFOUND, addr, 0) else let ca = dt_address_cells (hd anc); cs = dt_size_cells (hd anc) in
     if ca < 1 \<or> cs < 0 then (SBI_ENODEV, addr, 0) else
     (case dt_prop s ''reg'' of None \<Rightarrow> (SBI_ENODEV, addr, 0)
      | Some v \<Rightarrow> let i = index * (nat ca + nat cs) in
          if length v div 4 \<le> i then (SBI_EINVAL, addr, 0)
          else (0, dt_translate_up anc (vcells v i (nat ca) 0) addr, vcells v (i + nat ca) (nat cs) 0)))"

definition reg_ok :: "dtnode list \<Rightarrow> dtnode \<Rightarrow> nat \<Rightarrow> bool" where
  "reg_ok anc s index \<longleftrightarrow> anc = [] \<or> (let n = nat (dt_address_cells (hd anc)) + nat (dt_size_cells (hd anc)) in
     case dt_prop s ''reg'' of None \<Rightarrow> True
     | Some v \<Rightarrow> length v div 4 \<le> index * n \<or> 4 * (index * n + n) \<le> length v)"

text \<open>\<open>anc\<close> lists the offsets and the nodes of a node and its ancestors up to the root.\<close>

definition up_chain :: "dtnode \<Rightarrow> (int \<times> dtnode) list \<Rightarrow> bool" where
  "up_chain t anc \<longleftrightarrow> chain_ok (dt_nameoff t) (rev anc) \<and> anc \<noteq> [] \<and> last anc = (0, t)"

lemma cstr_nm: "cstr s = nm s @ [0]"
  by (simp add: cstr_def)

context dt_blob
begin

lemma getprop_nm:
  assumes "dt_node t o' s" and "no_nul (nm name)" and "length name < 2 ^ 31"
  shows "gets (dtb addr t) o' (cstr name) (dt_prop s name)"
  using getprop_tree [OF assms(1,2)] assms(3) by (simp add: cstr_nm dt_prop_def)

lemma cells_tree:
  assumes "dt_node t o' s" and "no_nul (nm name)" and "length name < 2 ^ 31"
  shows "fdt_cells (dtb addr t) o' (cstr name) = Some (dt_cells s name)"
proof (cases "dt_prop s name")
  case None
  with getprop_nm [OF assms] show ?thesis by (simp add: gets_def fdt_cells_def dt_cells_def)
next
  case (Some v)
  with getprop_nm [OF assms] obtain p where
    p: "fdt_getprop (dtb addr t) o' (cstr name) = Some (Some p, int (length v))" "value_at (dtb addr t) p v"
    by (auto simp: gets_def)
  have "fdt32_ld (dtb addr t) p = Some (vcell v 0)" if "length v = 4"
    using ld_value [OF p(2), of 0] that by simp
  with p(1) Some show ?thesis by (auto simp: fdt_cells_def dt_cells_def)
qed

lemma address_cells_tree: "dt_node t o' s \<Longrightarrow> fdt_address_cells (dtb addr t) o' = Some (dt_address_cells s)"
  and size_cells_tree: "dt_node t o' s \<Longrightarrow> fdt_size_cells (dtb addr t) o' = Some (dt_size_cells s)"
  using cells_tree [of o' s "''#address-cells''"] cells_tree [of o' s "''#size-cells''"]
  by (simp_all add: fdt_address_cells_def fdt_size_cells_def dt_address_cells_def dt_size_cells_def Let_def)

lemma translate_tree:
  assumes "dt_node t o' s" and "ranges_ok s"
  shows "fdt_translate_address (dtb addr t) reg o' =
    Some (case dt_translate s reg of None \<Rightarrow> (SBI_ENODEV, 0) | Some a \<Rightarrow> (0, a))"
proof -
  let ?ca = "dt_address_cells s" and ?cs = "dt_size_cells s"
  note c = address_cells_tree [OF assms(1)] size_cells_tree [OF assms(1)]
  have g: "gets (dtb addr t) o' (cstr ''ranges'') (dt_prop s ''ranges'')" using getprop_nm [OF assms(1)] by simp
  show ?thesis
  proof (cases "dt_prop s ''ranges''")
    case None
    with c g show ?thesis by (simp add: fdt_translate_address_def dt_translate_def gets_def Let_def)
  next
    case (Some v)
    then obtain p where p: "fdt_getprop (dtb addr t) o' (cstr ''ranges'') = Some (Some p, int (length v))"
      "value_at (dtb addr t) p v" using g by (auto simp: gets_def)
    show ?thesis
    proof (cases "v = []")
      case True
      with c p Some show ?thesis by (simp add: fdt_translate_address_def dt_translate_def Let_def)
    next
      case False
      then have len: "4 * (2 * nat ?ca + nat ?cs) \<le> length v" using assms(2) Some by (simp add: ranges_ok_def)
      have "read_cells (dtb addr t) p (nat ?ca) 0 = Some (vcells v 0 (nat ?ca) 0)"
        "read_cells (dtb addr t) (p + 4 * nat ?ca) (nat ?ca) 0 = Some (vcells v (nat ?ca) (nat ?ca) 0)"
        "read_cells (dtb addr t) (p + 8 * nat ?ca) (nat ?cs) 0 = Some (vcells v (2 * nat ?ca) (nat ?cs) 0)"
        using read_cells_value [OF p(2), of 0 "nat ?ca"] read_cells_value [OF p(2), of "nat ?ca" "nat ?ca"]
          read_cells_value [OF p(2), of "2 * nat ?ca" "nat ?cs"] len by simp_all
      with c p(1) Some False show ?thesis by (simp add: fdt_translate_address_def dt_translate_def Let_def)
    qed
  qed
qed

lemma dt_cells_le: "dt_address_cells s \<le> 4" "dt_size_cells s \<le> 4"
proof -
  have "dt_cells s name \<le> 4" for name
    by (auto simp: dt_cells_def word_le_def not_less split: option.split)
  then show "dt_address_cells s \<le> 4" "dt_size_cells s \<le> 4"
    by (simp_all add: dt_address_cells_def dt_size_cells_def Let_def)
qed

lemma chain_nodes:
  "chain_ok (dt_nameoff t) (x # xs) \<Longrightarrow> dt_node t (fst x) (snd x) \<Longrightarrow> y \<in> set (x # xs) \<Longrightarrow> dt_node t (fst y) (snd y)"
  by (induction xs arbitrary: x) (auto dest: is_child_node)

lemma chain_prefix: "chain_ok so (xs @ ys) \<Longrightarrow> chain_ok so xs"
  by (induction so xs rule: chain_ok.induct) auto

lemma up_chain_tl: "up_chain t (x # y # anc) \<Longrightarrow> up_chain t (y # anc)"
  using chain_prefix [of "dt_nameoff t" "rev (y # anc)" "[x]"] by (auto simp: up_chain_def)

lemma up_chain_node: "up_chain t (x # anc) \<Longrightarrow> dt_node t (fst x) (snd x)"
proof -
  assume up: "up_chain t (x # anc)"
  obtain y ys where y: "rev (x # anc) = y # ys" by (cases "rev (x # anc)") auto
  then have "y = last (x # anc)" by (metis hd_rev list.sel(1))
  then have "y = (0, t)" using up by (simp add: up_chain_def)
  moreover have "x \<in> set (y # ys)" unfolding y [symmetric] by simp
  ultimately show ?thesis using chain_nodes [of y ys x] up y root_node by (simp add: up_chain_def)
qed

lemma up_chain_parent: "up_chain t (x # y # anc) \<Longrightarrow> fdt_parent_offset (dtb addr t) (fst x) = Some (fst y)"
proof -
  assume up: "up_chain t (x # y # anc)"
  have "hd (rev (y # anc)) = (0, t)" using up by (simp only: hd_rev) (simp add: up_chain_def)
  then show ?thesis using parent_tree [of "rev anc" y x] up by (simp add: up_chain_def)
qed

lemma translate_loop_tree:
  "up_chain t anc \<Longrightarrow> \<forall>s \<in> set anc. ranges_ok (snd s) \<Longrightarrow>
    translate_loop (dtb addr t) temp (fst (hd anc)) a = Some (dt_translate_up (map snd anc) temp a)"
proof (induction anc arbitrary: temp a)
  case (Cons x anc)
  note node = up_chain_node [OF Cons(2)]
  note tr = translate_tree [OF node, of temp]
  have root: "translate_loop (dtb addr t) temp (- FDT_ERR_NOTFOUND) a = Some a" for temp a
    by (subst translate_loop.simps) simp
  show ?case
  proof (cases anc)
    case Nil
    then have "x = (0, t)" using Cons(2) by (simp add: up_chain_def)
    then show ?thesis using tr Cons(3) root_parent root Nil
      by (subst translate_loop.simps) (simp split: option.split)
  next
    case (Cons y anc')
    have "translate_loop (dtb addr t) temp (fst y) a = Some (dt_translate_up (map snd anc) temp a)" for temp a
      using Cons.IH [of temp a] up_chain_tl Cons.prems Cons by simp
    then show ?thesis using tr Cons.prems up_chain_parent [of x y anc'] node_nonneg [OF node] Cons
      by (subst translate_loop.simps) (simp split: option.split)
  qed
qed (simp add: up_chain_def)

lemma addr_size_tree:
  assumes up: "up_chain t (x # y # anc)" and ok: "\<forall>s \<in> set (y # anc). ranges_ok (snd s)"
    and reg: "reg_ok (map snd (y # anc)) (snd x) index" and index: "index < 2 ^ 28"
  shows "fdt_get_node_addr_size (dtb addr t) (fst x) (int index) a w =
    Some (case dt_addr_size (map snd (y # anc)) (snd x) index a of (rc, b, sz) \<Rightarrow> (rc, b, if w then sz else 0))"
proof -
  let ?b = "dtb addr t" and ?s = "snd x" and ?anc = "y # anc"
  note node = up_chain_node [OF up] and up' = up_chain_tl [OF up]
  note pnode = up_chain_node [OF up']
  define ca cs where "ca = dt_address_cells (snd y)" and "cs = dt_size_cells (snd y)"
  note cells = address_cells_tree [OF pnode, folded ca_def] size_cells_tree [OF pnode, folded cs_def]
  note bnd = dt_cells_le [of "snd y", folded ca_def cs_def]
  have nn: "0 \<le> fst x" "0 \<le> fst y" using node_nonneg [OF node] node_nonneg [OF pnode] by auto
  have g: "gets ?b (fst x) (cstr ''reg'') (dt_prop ?s ''reg'')" using getprop_nm [OF node] by simp
  note start = up_chain_parent [OF up] cells nn
  show ?thesis
  proof (cases "ca < 1 \<or> cs < 0 \<or> dt_prop ?s ''reg'' = None")
    case True
    with start g show ?thesis
      by (auto simp: fdt_get_node_addr_size_def dt_addr_size_def gets_def ca_def cs_def Let_def)
  next
    case False
    then obtain v p where v: "dt_prop ?s ''reg'' = Some v" "ca \<ge> 1" "cs \<ge> 0"
      and p: "fdt_getprop ?b (fst x) (cstr ''reg'') = Some (Some p, int (length v))" "value_at ?b p v"
      using g by (auto simp: gets_def)
    define i where "i = index * (nat ca + nat cs)"
    have len: "int (length v) < 2 ^ 64"
    proof -
      have "length v < length (fdt_mem ?b)" using p(2) by (simp add: value_at_def)
      then show ?thesis using wf by (simp add: mem_length dt_wf_def)
    qed
    have ii: "int index * (ca + cs) = int i" using v by (simp add: i_def)
    have "i \<le> index * 8" unfolding i_def using bnd by (intro mult_le_mono) auto
    then have "int i \<le> int (index * 8)" by (simp only: of_nat_le_iff)
    also have "\<dots> < 2 ^ 64" using index by simp
    finally have isz: "int i < 2 ^ 64" .
    have guard: "(word_of_int (int (length v)) :: ulong) div 4 \<le> word_of_int (int i) \<longleftrightarrow> length v div 4 \<le> i"
    proof -
      have small: "uint (word_of_int (int n) :: ulong) = int n" if "int n < 2 ^ 64" for n
        using that by (simp only: uint_word_of_int) simp
      have "uint ((word_of_int (int (length v)) :: ulong) div 4) = int (length v div 4)"
        by (simp only: uint_div_distrib small [OF len] zdiv_int) simp
      moreover note small [OF isz]
      ultimately show ?thesis unfolding word_le_def by linarith
    qed
    show ?thesis
    proof (cases "length v div 4 \<le> i")
      case True
      with start p(1) v guard show ?thesis
        by (simp add: fdt_get_node_addr_size_def dt_addr_size_def ca_def [symmetric] cs_def [symmetric] Let_def ii i_def [symmetric])
    next
      case False
      have fits: "4 * (i + (nat ca + nat cs)) \<le> length v"
        using reg False v by (simp add: reg_ok_def i_def ca_def [symmetric] cs_def [symmetric] Let_def)
      have "read_cells ?b (p + 4 * i) (nat ca) 0 = Some (vcells v i (nat ca) 0)"
        "read_cells ?b (p + 4 * i + 4 * nat ca) (nat cs) 0 = Some (vcells v (i + nat ca) (nat cs) 0)"
        using read_cells_value [OF p(2), of i "nat ca" 0] read_cells_value [OF p(2), of "i + nat ca" "nat cs" 0] fits
        by (simp_all add: add.assoc)
      moreover have "translate_loop ?b temp (fst y) a = Some (dt_translate_up (map snd ?anc) temp a)" for temp
        using translate_loop_tree [OF up' ok, of temp a] by simp
      ultimately show ?thesis
        using start p(1) v guard False
        by (simp add: fdt_get_node_addr_size_def dt_addr_size_def ca_def [symmetric] cs_def [symmetric] Let_def ii
          i_def [symmetric])
    qed
  qed
qed

lemma addr_size_chain:
  assumes up: "up_chain t (x # anc)" and ok: "\<forall>s \<in> set anc. ranges_ok (snd s)"
    and reg: "reg_ok (map snd anc) (snd x) index" and index: "index < 2 ^ 28"
  shows "fdt_get_node_addr_size (dtb addr t) (fst x) (int index) a w =
    Some (case dt_addr_size (map snd anc) (snd x) index a of (rc, b, sz) \<Rightarrow> (rc, b, if w then sz else 0))"
proof (cases anc)
  case Nil
  then have "x = (0, t)" using up by (simp add: up_chain_def)
  then show ?thesis using Nil root_parent by (simp add: fdt_get_node_addr_size_def dt_addr_size_def)
next
  case (Cons y anc')
  then show ?thesis using addr_size_tree [of x y anc' index a w] assms by simp
qed

end


section \<open>All nodes with their ancestors\<close>

text \<open>\<open>dt_walk anc s\<close> lists the nodes of a tree in document order, each with its ancestors behind it.\<close>

fun dt_walk :: "dtnode list \<Rightarrow> dtnode \<Rightarrow> dtnode list list" where
  "dt_walk anc (DtNode n ps cs) = (DtNode n ps cs # anc) # concat (map (dt_walk (DtNode n ps cs # anc)) cs)"

text \<open>The same walk with the offsets.\<close>

fun off_walk :: "(bytes \<Rightarrow> u32) \<Rightarrow> (int \<times> dtnode) list \<Rightarrow> dtnode \<Rightarrow> int \<Rightarrow> (int \<times> dtnode) list list"
  and off_walks :: "(bytes \<Rightarrow> u32) \<Rightarrow> (int \<times> dtnode) list \<Rightarrow> dtnode list \<Rightarrow> int \<Rightarrow> (int \<times> dtnode) list list" where
  "off_walk so anc (DtNode n ps cs) off =
     ((off, DtNode n ps cs) # anc) # off_walks so ((off, DtNode n ps cs) # anc) cs (off + body so (DtNode n ps cs))"
| "off_walks so anc [] off = []"
| "off_walks so anc (c # cs) off = off_walk so anc c off @ off_walks so anc cs (off + pos (flat so c))"

lemma off_walk_preorder:
  "map hd (off_walk so anc s off) = preorder so s off"
  "map hd (off_walks so anc cs off) = preorders so cs off"
  by (induction so anc s off and so anc cs off rule: off_walk_off_walks.induct) auto

lemma off_walk_nodes:
  "map (map snd) (off_walk so anc s off) = dt_walk (map snd anc) s"
  "map (map snd) (off_walks so anc cs off) = concat (map (dt_walk (map snd anc)) cs)"
  by (induction so anc s off and so anc cs off rule: off_walk_off_walks.induct) auto

lemma chain_ok_Cons_rev: "chain_ok so (rev (p # anc)) \<Longrightarrow> is_child so p x \<Longrightarrow> chain_ok so (rev (x # p # anc))"
  using chain_snoc [of so "rev anc" p x] by simp

lemma off_walk_chain:
  "chain_ok so (rev ((off, s) # anc)) \<Longrightarrow> z \<in> set (off_walk so anc s off) \<Longrightarrow>
    chain_ok so (rev z) \<and> z \<noteq> [] \<and> last z = last ((off, s) # anc)"
  "chain_ok so (rev (p # anc)) \<Longrightarrow> \<forall>x \<in> set (kids so cs off). is_child so p x \<Longrightarrow>
    z \<in> set (off_walks so (p # anc) cs off) \<Longrightarrow> chain_ok so (rev z) \<and> z \<noteq> [] \<and> last z = last (p # anc)"
proof (induction so anc s off and so "p # anc" cs off arbitrary: z and z p anc rule: off_walk_off_walks.induct)
  case (1 so anc n ps cs off)
  show ?case
  proof (cases "z = (off, DtNode n ps cs) # anc")
    case False
    then have "z \<in> set (off_walks so ((off, DtNode n ps cs) # anc) cs (off + body so (DtNode n ps cs)))"
      using 1(3) by auto
    with 1(1) [OF 1(2)] show ?thesis by (simp add: is_child_def)
  qed (use 1(2) in simp)
next
  case (3 so c cs off)
  have "is_child so p (off, c)" using 3(4) by simp
  then have "chain_ok so (rev ((off, c) # p # anc))" by (rule chain_ok_Cons_rev [OF 3(3)])
  with 3 show ?case by auto
qed simp

text \<open>The nodes from the first one that lists a compatible string up to the root.\<close>

definition dt_locate :: "dtnode \<Rightarrow> bytes \<Rightarrow> dtnode list option" where
  "dt_locate t str = find (\<lambda>z. dt_compatible (hd z) str) (dt_walk [] t)"

lemma find_map: "find P (map f xs) = map_option f (find (\<lambda>x. P (f x)) xs)"
  by (induction xs) auto

lemma find_cong_set: "(\<And>x. x \<in> set xs \<Longrightarrow> P x = Q x) \<Longrightarrow> find P xs = find Q xs"
  by (induction xs) auto

lemma dt_walk_hd: "x \<in> set (dt_walk anc s) \<Longrightarrow> x \<noteq> []"
  by (induction anc s rule: dt_walk.induct) auto

text \<open>What the helpers rely on: lists of terminated strings, and whole cells in the properties they read.\<close>

definition cell_ok :: "dtnode \<Rightarrow> string \<Rightarrow> bool" where
  "cell_ok s name \<longleftrightarrow> (case dt_prop s name of None \<Rightarrow> True | Some v \<Rightarrow> v = [] \<or> 4 \<le> length v)"

definition cell_names :: "string list" where
  "cell_names = [''clock-frequency'', ''current-speed'', ''reg-shift'', ''reg-io-width'', ''riscv,ndev'',
     ''timebase-frequency'']"

definition node_sane :: "dtnode list \<Rightarrow> bool" where
  "node_sane z \<longleftrightarrow> compat_ok (hd z) \<and> list_all ranges_ok (tl z) \<and> reg_ok (tl z) (hd z) 0 \<and>
     list_all (cell_ok (hd z)) cell_names"

definition dt_sane :: "dtnode \<Rightarrow> bool" where
  "dt_sane t \<longleftrightarrow> list_all node_sane (dt_walk [] t)"

context dt_blob
begin

lemma walk_up_chain: "z \<in> set (off_walk (dt_nameoff t) [] t 0) \<Longrightarrow> up_chain t z"
  using off_walk_chain(1) [of "dt_nameoff t" 0 t "[]" z] by (simp add: up_chain_def)

lemma walk_sane: "dt_sane t \<Longrightarrow> z \<in> set (off_walk (dt_nameoff t) [] t 0) \<Longrightarrow> node_sane (map snd z)"
proof -
  assume "dt_sane t" "z \<in> set (off_walk (dt_nameoff t) [] t 0)"
  then have "map snd z \<in> set (map (map snd) (off_walk (dt_nameoff t) [] t 0))" by simp
  then show "node_sane (map snd z)"
    using \<open>dt_sane t\<close> off_walk_nodes(1) [of "dt_nameoff t" "[]" t 0] by (simp add: dt_sane_def list_all_iff)
qed

lemma nodes_sane: "dt_sane t \<Longrightarrow> dt_node t o' s \<Longrightarrow> \<exists>anc. node_sane (s # anc)"
proof -
  assume sane: "dt_sane t" and "dt_node t o' s"
  then have "(o', s) \<in> set (map hd (off_walk (dt_nameoff t) [] t 0))" by (simp add: off_walk_preorder dt_node_def)
  then obtain z where z: "z \<in> set (off_walk (dt_nameoff t) [] t 0)" "hd z = (o', s)" by auto
  have "z \<noteq> []" using walk_up_chain [OF z(1)] by (simp add: up_chain_def)
  then obtain x anc where x: "z = x # anc" unfolding neq_Nil_conv by blast
  show ?thesis by (rule exI [of _ "map snd anc"]) (use walk_sane [OF sane z(1)] z(2) x in simp)
qed

text \<open>The search by compatible string finds the located node, with its ancestors.\<close>

lemma by_compatible_locate:
  assumes sane: "dt_sane t" and str: "no_nul str" "str \<noteq> []" "length str < 2147483647"
  shows "case dt_locate t str of
      None \<Rightarrow> fdt_node_offset_by_compatible (dtb addr t) (- 1) (str @ [0]) = Some (- FDT_ERR_NOTFOUND)
    | Some z \<Rightarrow> \<exists>x anc. up_chain t (x # anc) \<and> z = map snd (x # anc) \<and> node_sane z \<and> 0 \<le> fst x \<and>
        fdt_node_offset_by_compatible (dtb addr t) (- 1) (str @ [0]) = Some (fst x)"
proof -
  let ?w = "off_walk (dt_nameoff t) [] t 0" and ?P = "\<lambda>z. dt_compatible (snd (hd z)) str"
  have "compat_ok s" if "dt_node t o' s" for o' s
    using nodes_sane [OF sane that] by (auto simp: node_sane_def)
  note search = by_compatible_tree [where r = "[]", OF this str]
  have pre: "find (\<lambda>(o', s). dt_compatible s str) (preorder (dt_nameoff t) t 0) = map_option hd (find ?P ?w)"
    by (simp only: off_walk_preorder(1) [of _ "[]", symmetric] find_map) (simp add: case_prod_beta')
  have loc: "dt_locate t str = map_option (map snd) (find ?P ?w)"
  proof -
    have "find (\<lambda>z. dt_compatible (hd (map snd z)) str) ?w = find ?P ?w"
      using walk_up_chain by (intro find_cong_set) (simp add: up_chain_def hd_map)
    then show ?thesis
      unfolding dt_locate_def using off_walk_nodes(1) [of "dt_nameoff t" "[]" t 0, symmetric] by (simp add: find_map)
  qed
  show ?thesis
  proof (cases "find ?P ?w")
    case None
    then show ?thesis using search pre loc by simp
  next
    case (Some z)
    then have z: "z \<in> set ?w" by (auto simp: find_Some_iff)
    have "z \<noteq> []" using walk_up_chain [OF z] by (simp add: up_chain_def)
    then obtain x anc where x: "z = x # anc" unfolding neq_Nil_conv by blast
    have "up_chain t (x # anc)" "node_sane (map snd (x # anc))"
      using walk_up_chain [OF z] walk_sane [OF sane z] x by simp_all
    moreover have "0 \<le> fst x" using node_nonneg [OF up_chain_node [OF calculation(1)]] by simp
    ultimately show ?thesis using search pre loc Some x by (auto simp: case_prod_beta')
  qed
qed

end


section \<open>The nodes of the drivers\<close>

definition dt_cell_or :: "dtnode \<Rightarrow> string \<Rightarrow> ulong \<Rightarrow> ulong" where
  "dt_cell_or s name dflt =
     (case dt_prop s name of None \<Rightarrow> dflt | Some v \<Rightarrow> if v = [] then dflt else ucast (vcell v 0))"

text \<open>The address of a device, from a node and its ancestors: \<open>None\<close> when it has none that can be used.\<close>

definition dt_reg :: "dtnode list \<Rightarrow> ulong option option" where
  "dt_reg z = (case dt_addr_size (tl z) (hd z) 0 None of (rc, addr, sz) \<Rightarrow>
     if rc < 0 then Some None
     else map_option (\<lambda>a. if a = 0 \<or> sz = 0 then None else Some a) addr)"

definition dt_uart8250 :: "dtnode \<Rightarrow> platform_uart_data \<Rightarrow> bytes \<Rightarrow> (int \<times> platform_uart_data) option" where
  "dt_uart8250 t uart str = (case dt_locate t str of None \<Rightarrow> Some (- FDT_ERR_NOTFOUND, uart)
     | Some z \<Rightarrow> map_option (\<lambda>reg. case reg of None \<Rightarrow> (SBI_ENODEV, uart)
         | Some a \<Rightarrow> (0, uart\<lparr>uart_addr := a, uart_freq := dt_cell_or (hd z) ''clock-frequency'' 0,
             uart_baud := dt_cell_or (hd z) ''current-speed'' 115200,
             uart_reg_shift := dt_cell_or (hd z) ''reg-shift'' 0,
             uart_reg_io_width := dt_cell_or (hd z) ''reg-io-width'' 1\<rparr>)) (dt_reg z))"

definition dt_plic :: "dtnode \<Rightarrow> plic_data \<Rightarrow> bytes \<Rightarrow> (int \<times> plic_data) option" where
  "dt_plic t plic str = (case dt_locate t str of None \<Rightarrow> Some (- FDT_ERR_NOTFOUND, plic)
     | Some z \<Rightarrow> map_option (\<lambda>reg. case reg of None \<Rightarrow> (SBI_ENODEV, plic)
         | Some a \<Rightarrow> (0, plic\<lparr>plic_addr := a,
             plic_num_src := dt_cell_or (hd z) ''riscv,ndev'' (plic_num_src plic)\<rparr>)) (dt_reg z))"

definition dt_compat_addr :: "dtnode \<Rightarrow> ulong option \<Rightarrow> bytes \<Rightarrow> int \<times> ulong option" where
  "dt_compat_addr t addr str = (case dt_locate t str of None \<Rightarrow> (- FDT_ERR_NOTFOUND, addr)
     | Some z \<Rightarrow> (case dt_addr_size (tl z) (hd z) 0 addr of (rc, addr, sz) \<Rightarrow> (if rc < 0 then SBI_ENODEV else 0, addr)))"

definition dt_timebase :: "dtnode \<Rightarrow> ulong \<Rightarrow> int \<times> ulong" where
  "dt_timebase t freq = (case dt_find t [nm ''cpus''] of None \<Rightarrow> (- FDT_ERR_NOTFOUND, freq)
     | Some s \<Rightarrow> (case dt_prop s ''timebase-frequency'' of None \<Rightarrow> (SBI_ENOENT, freq)
         | Some v \<Rightarrow> if v = [] then (SBI_ENOENT, freq) else (0, ucast (vcell v 0))))"

context dt_blob
begin

lemma cell_tree:
  assumes "dt_node t o' s" and "no_nul (nm name)" and "length name < 2 ^ 31" and "cell_ok s name"
  shows "case dt_prop s name of None \<Rightarrow> fdt_getprop (dtb addr t) o' (cstr name) = Some (None, - FDT_ERR_NOTFOUND)
    | Some v \<Rightarrow> \<exists>p. fdt_getprop (dtb addr t) o' (cstr name) = Some (Some p, int (length v)) \<and>
        (v \<noteq> [] \<longrightarrow> fdt32_ld (dtb addr t) p = Some (vcell v 0))"
proof (cases "dt_prop s name")
  case (Some v)
  with getprop_nm [OF assms(1-3)] obtain p where
    p: "fdt_getprop (dtb addr t) o' (cstr name) = Some (Some p, int (length v))" "value_at (dtb addr t) p v"
    by (auto simp: gets_def)
  have "fdt32_ld (dtb addr t) p = Some (vcell v 0)" if "v \<noteq> []"
    using ld_value [OF p(2), of 0] that assms(4) Some by (simp add: cell_ok_def)
  with p(1) Some show ?thesis by auto
qed (use getprop_nm [OF assms(1-3)] in \<open>simp add: gets_def\<close>)

lemma prop_or_default_tree:
  assumes "dt_node t o' s" and "no_nul (nm name)" and "length name < 2 ^ 31" and "cell_ok s name"
  shows "prop_or_default (dtb addr t) o' (cstr name) d = Some (dt_cell_or s name d)"
  using cell_tree [OF assms] by (auto simp: prop_or_default_def dt_cell_or_def split: option.splits)

lemma sane_cells:
  assumes "up_chain t (x # anc)" and "node_sane (map snd (x # anc))" and "name \<in> set cell_names"
  shows "prop_or_default (dtb addr t) (fst x) (cstr name) d = Some (dt_cell_or (snd x) name d)"
  using assms(2,3) by (intro prop_or_default_tree up_chain_node [OF assms(1)])
    (auto simp: node_sane_def list_all_iff cell_names_def no_nul_def)

lemma sane_addr_size:
  assumes "up_chain t (x # anc)" and "node_sane (map snd (x # anc))"
  shows "fdt_get_node_addr_size (dtb addr t) (fst x) 0 a w =
    Some (case dt_addr_size (map snd anc) (snd x) 0 a of (rc, b, sz) \<Rightarrow> (rc, b, if w then sz else 0))"
  using addr_size_chain [OF assms(1), of 0 a w] assms(2) by (auto simp: node_sane_def list_all_iff)

lemma reg_address_tree:
  assumes "up_chain t (x # anc)" and "node_sane (map snd (x # anc))"
  shows "reg_address (dtb addr t) (fst x) = dt_reg (map snd (x # anc))"
proof -
  obtain rc b sz where d: "dt_addr_size (map snd anc) (snd x) 0 None = (rc, b, sz)" by (rule prod_cases3)
  show ?thesis using sane_addr_size [OF assms, of None True]
    by (cases b) (auto simp: reg_address_def dt_reg_def d)
qed

lemma parse_uart8250_tree:
  assumes "dt_sane t" and "no_nul str" "str \<noteq> []" "length str < 2147483647"
  shows "fdt_parse_uart8250 (dtb addr t) uart (str @ [0]) = dt_uart8250 t uart str"
proof (cases "dt_locate t str")
  case None
  then show ?thesis using by_compatible_locate [OF assms] by (simp add: fdt_parse_uart8250_def dt_uart8250_def)
next
  case (Some z)
  then obtain x anc where x: "up_chain t (x # anc)" "z = map snd (x # anc)" "node_sane (map snd (x # anc))" "0 \<le> fst x"
    "fdt_node_offset_by_compatible (dtb addr t) (- 1) (str @ [0]) = Some (fst x)"
    using by_compatible_locate [OF assms] by auto
  note c = sane_cells [OF x(1,3)] and r = reg_address_tree [OF x(1,3)]
  show ?thesis using Some x(2,4,5)
    by (cases "dt_reg (map snd (x # anc))")
       (auto simp: fdt_parse_uart8250_def fdt_parse_uart8250_node_def dt_uart8250_def r c cell_names_def split: option.split)
qed

lemma parse_plic_tree:
  assumes "dt_sane t" and "no_nul str" "str \<noteq> []" "length str < 2147483647"
  shows "fdt_parse_plic (dtb addr t) plic (str @ [0]) = dt_plic t plic str"
proof (cases "dt_locate t str")
  case None
  then show ?thesis using by_compatible_locate [OF assms] by (simp add: fdt_parse_plic_def dt_plic_def)
next
  case (Some z)
  then obtain x anc where x: "up_chain t (x # anc)" "z = map snd (x # anc)" "node_sane (map snd (x # anc))" "0 \<le> fst x"
    "fdt_node_offset_by_compatible (dtb addr t) (- 1) (str @ [0]) = Some (fst x)"
    using by_compatible_locate [OF assms] by auto
  have "cell_ok (snd x) ''riscv,ndev''" using x(3) by (simp add: node_sane_def cell_names_def)
  note c = cell_tree [OF up_chain_node [OF x(1)] _ _ this] and r = reg_address_tree [OF x(1,3)]
  have p: "(do { (val, len) \<leftarrow> fdt_getprop (dtb addr t) (fst x) (cstr ''riscv,ndev'');
      if len > 0 then do { v \<leftarrow> val; n \<leftarrow> fdt32_ld (dtb addr t) v; Some (0, plic\<lparr>plic_addr := a, plic_num_src := ucast n\<rparr>) }
      else Some (0, plic\<lparr>plic_addr := a\<rparr>) }) =
    Some (0::int, plic\<lparr>plic_addr := a, plic_num_src := dt_cell_or (snd x) ''riscv,ndev'' (plic_num_src plic)\<rparr>)" for a
    using c by (auto simp: dt_cell_or_def split: option.splits)
  show ?thesis using Some x(2,4,5)
    by (cases "dt_reg (map snd (x # anc))")
       (auto simp: fdt_parse_plic_def fdt_parse_plic_node_def dt_plic_def r p split: option.split)
qed

lemma parse_compat_addr_tree:
  assumes "dt_sane t" and "no_nul str" "str \<noteq> []" "length str < 2147483647"
  shows "fdt_parse_compat_addr (dtb addr t) a (str @ [0]) = Some (dt_compat_addr t a str)"
proof (cases "dt_locate t str")
  case None
  then show ?thesis using by_compatible_locate [OF assms] by (simp add: fdt_parse_compat_addr_def dt_compat_addr_def)
next
  case (Some z)
  then obtain x anc where x: "up_chain t (x # anc)" "z = map snd (x # anc)" "node_sane (map snd (x # anc))" "0 \<le> fst x"
    "fdt_node_offset_by_compatible (dtb addr t) (- 1) (str @ [0]) = Some (fst x)"
    using by_compatible_locate [OF assms] by auto
  show ?thesis using Some x sane_addr_size [OF x(1,3), of a False]
    by (auto simp: fdt_parse_compat_addr_def dt_compat_addr_def split: prod.split)
qed

lemma parse_timebase_tree:
  assumes "dt_sane t"
  shows "fdt_parse_timebase_frequency (dtb addr t) freq = Some (dt_timebase t freq)"
proof -
  have path: "cstr ''/cpus'' = path_str [nm ''cpus''] @ [0]" by (simp add: cstr_def)
  have ok: "list_all comp_ok [nm ''cpus'']" by (simp add: comp_ok_def no_nul_def)
  note off = path_offset_tree [OF ok, of "[]", folded path]
  show ?thesis
  proof (cases "dt_path (dt_nameoff t) t 0 [nm ''cpus'']")
    case None
    then show ?thesis using off dt_path_find [of "dt_nameoff t" t 0 "[nm ''cpus'']"]
      by (simp add: fdt_parse_timebase_frequency_def dt_timebase_def)
  next
    case (Some os)
    then obtain o' s where os: "dt_path (dt_nameoff t) t 0 [nm ''cpus''] = Some (o', s)" by (cases os) auto
    have node: "dt_node t o' s" by (rule dt_path_node [OF root_node os])
    have find: "dt_find t [nm ''cpus''] = Some s" using dt_path_find [of "dt_nameoff t" t 0 "[nm ''cpus'']"] os by simp
    have "cell_ok s ''timebase-frequency''"
      using nodes_sane [OF assms node] by (auto simp: node_sane_def cell_names_def)
    note c = cell_tree [OF node _ _ this]
    have "fdt_path_offset (dtb addr t) (cstr ''/cpus'') = Some o'" using off unfolding os by simp
    then show ?thesis using find node_nonneg [OF node] c
      by (auto simp: fdt_parse_timebase_frequency_def dt_timebase_def simp del: dt_find.simps split: option.splits)
  qed
qed

end


section \<open>Register addresses\<close>

text \<open>
  C19. \<^verbatim>\<open>fdt_get_node_addr_size\<close> refines its specification on trees: on the blob of every device tree
  that fits the format, the register of a node at an index is read with the cell counts of the
  parent, its address is translated through the parent, the parent's parent and so on up to the root,
  and a missing register, an index behind the list, a node without a parent and bad cell counts give
  the error codes of the code. The properties \<^verbatim>\<open>reg\<close> and \<^verbatim>\<open>ranges\<close> have whole entries.
\<close>

theorem fdt_node_address_refines:
  assumes "dt_wf addr t" and "up_chain t ((o', s) # anc)" and "\<forall>p \<in> set anc. ranges_ok (snd p)"
    and "reg_ok (map snd anc) s index" and "index < 2 ^ 28"
  shows "fdt_get_node_addr_size (dtb addr t) o' (int index) a True = Some (dt_addr_size (map snd anc) s index a)"
proof -
  have blob: "dt_blob addr t" by unfold_locales (rule assms(1))
  show ?thesis using dt_blob.addr_size_chain [OF blob assms(2,3), of index a True] assms(4,5)
    by (simp add: case_prod_beta')
qed

text \<open>A bus at \<open>0x4000\<close> whose device has its registers at \<open>0x10\<close> of the bus.\<close>

definition dt_bus_device :: dtnode where
  "dt_bus_device = DtNode [100] [(nm ''reg'', [0, 0, 0, 0x10, 0, 0, 0, 8])] []"

definition dt_bus :: dtnode where
  "dt_bus = DtNode [98] [(nm ''#address-cells'', [0, 0, 0, 1]), (nm ''#size-cells'', [0, 0, 0, 1]),
     (nm ''ranges'', [0, 0, 0, 0, 0, 0, 0x40, 0, 0, 0, 0, 0x20])] [dt_bus_device]"

definition dt_bus_example :: dtnode where
  "dt_bus_example = DtNode [] [(nm ''#address-cells'', [0, 0, 0, 1]), (nm ''#size-cells'', [0, 0, 0, 1])] [dt_bus]"

lemmas dt_bus_defs = dt_bus_example_def dt_bus_def dt_bus_device_def

lemma dt_bus_wf: "dt_wf 0 dt_bus_example"
  by (simp add: dt_wf_def dt_bus_defs dt_toks_def enc_tok_def pad4_def dt_strings_def strtab_def)

lemma dt_bus_chain: "up_chain dt_bus_example [(104, dt_bus_device), (40, dt_bus), (0, dt_bus_example)]"
  by (simp add: up_chain_def is_child_def dt_bus_defs body_def enc_tok_def pad4_def)

lemma dt_bus_cells:
  "dt_address_cells dt_bus = 1" "dt_size_cells dt_bus = 1" "dt_address_cells dt_bus_example = 1"
  "dt_size_cells dt_bus_example = 1"
  by (simp_all add: dt_address_cells_def dt_size_cells_def dt_cells_def dt_prop_def dt_bus_defs vcell_def be32_def)

lemma dt_bus_props:
  "dt_prop dt_bus ''ranges'' = Some [0, 0, 0, 0, 0, 0, 0x40, 0, 0, 0, 0, 0x20]" "dt_prop dt_bus_example ''ranges'' = None"
  "dt_prop dt_bus_device ''reg'' = Some [0, 0, 0, 0x10, 0, 0, 0, 8]"
  by (simp_all add: dt_prop_def dt_bus_defs)

theorem fdt_node_address_refines_witness:
  "fdt_get_node_addr_size (dtb 0 dt_bus_example) 104 0 None True = Some (0, Some 0x4010, 8)"
proof -
  let ?anc = "[(40, dt_bus), (0, dt_bus_example)]"
  have "\<forall>p \<in> set ?anc. ranges_ok (snd p)"
    by (simp add: ranges_ok_def dt_bus_cells dt_bus_props)
  moreover have "reg_ok (map snd ?anc) dt_bus_device 0"
    by (simp add: reg_ok_def dt_bus_cells dt_bus_props)
  moreover have "dt_addr_size (map snd ?anc) dt_bus_device 0 None = (0, Some 0x4010, 8)"
    by (simp add: dt_addr_size_def dt_translate_def dt_bus_cells dt_bus_props Let_def vcell_def be32_def)
  ultimately show ?thesis
    using fdt_node_address_refines [OF dt_bus_wf dt_bus_chain, of 0 None] by simp
qed

text \<open>
  The window of a bus is not checked from above: every address from the start of the window on is
  translated, however far behind its end, unless adding the size wraps around.
\<close>

lemma translate_ignores_window_end:
  assumes "dt_prop s ''ranges'' = Some v" and "v \<noteq> []" and "1 \<le> dt_address_cells s" and "0 \<le> dt_size_cells s"
    and "vcells v 0 (nat (dt_address_cells s)) 0 \<le> reg"
    and "reg < reg + vcells v (2 * nat (dt_address_cells s)) (nat (dt_size_cells s)) 0"
  shows "dt_translate s reg =
    Some (vcells v (nat (dt_address_cells s)) (nat (dt_address_cells s)) 0 + (reg - vcells v 0 (nat (dt_address_cells s)) 0))"
proof -
  have "vcells v 0 (nat (dt_address_cells s)) 0 < reg + vcells v (2 * nat (dt_address_cells s)) (nat (dt_size_cells s)) 0"
    using assms(5,6) by (rule le_less_trans)
  then show ?thesis using assms(1-5) by (simp add: dt_translate_def Let_def not_le not_less)
qed

end
