(* ===== verification/Cv64a6_Dts.thy ===== *)
theory Cv64a6_Dts
  imports Fdt_Helper_Tree
begin

text \<open>
  The device tree of the FPGA system, \<^verbatim>\<open>corev_apu/fpga/src/bootrom/cv64a6.dts\<close>, as a tree, one constant
  per node that the firmware looks at. The phandles are those of the compiled tree in
  \<^verbatim>\<open>bootrom_64.h\<close>: the GPIO controller 1, the interrupt controllers of the harts 2 and 3, the platform
  interrupt controller 4. The interpretation of the locale \<open>dt_blob\<close> on this tree makes every fact
  on encoded trees available for it.
\<close>

section \<open>Values of properties\<close>

definition u32s :: "u32 list \<Rightarrow> bytes" where
  "u32s ws = concat (map enc32 ws)"

definition strs :: "string list \<Rightarrow> bytes" where
  "strs ss = strtab (map (\<lambda>s. nm s) ss)"

lemma u32s_simps [simp]: "u32s [] = []" "u32s (w # ws) = enc32 w @ u32s ws"
  by (simp_all add: u32s_def)

lemma length_u32s [simp]: "length (u32s ws) = 4 * length ws"
  by (induction ws) simp_all

lemma u32s_eq_Nil [simp]: "u32s ws = [] \<longleftrightarrow> ws = []"
  by (cases ws) (simp_all add: enc32_def)

lemma vcell_u32s [simp]: "i < length ws \<Longrightarrow> vcell (u32s ws) i = ws ! i"
proof (induction ws arbitrary: i)
  case (Cons w ws)
  show ?case
  proof (cases i)
    case 0
    then show ?thesis using be32_enc32 [of w] by (simp add: vcell_def enc32_def numeral_2_eq_2 numeral_3_eq_3)
  next
    case (Suc j)
    have "vcell (enc32 w @ u32s ws) (Suc j) = vcell (u32s ws) j" by (simp add: vcell_def nth_append add.commute)
    then show ?thesis using Cons Suc by simp
  qed
qed simp

lemma nm_inj [simp]: "map (of_char :: char \<Rightarrow> u8) a = map of_char b \<longleftrightarrow> a = b"
proof -
  have "inj (of_char :: char \<Rightarrow> u8)"
  proof (rule injI)
    fix c d :: char assume "(of_char c :: u8) = of_char d"
    then have "unat (of_nat (of_char c) :: u8) = unat (of_nat (of_char d) :: u8)" by (simp only: of_nat_of_char)
    moreover have "unat (of_nat (of_char e) :: u8) = of_char e" for e
      by (simp only: unat_of_nat) (simp add: of_char_mod_256)
    ultimately have "(of_char c :: nat) = of_char d" by simp
    then show "c = d" by simp
  qed
  then show ?thesis by (rule inj_map_eq_map)
qed

lemma split_strs_append:
  "no_nul s \<Longrightarrow> split_strs acc (s @ 0 # r) = map_option (\<lambda>ss. (rev acc @ s) # ss) (split_strs [] r)"
proof (induction s arbitrary: acc)
  case (Cons c s)
  then show ?case by (auto simp: no_nul_def)
qed simp

lemma split_strs_strtab: "list_all no_nul ss \<Longrightarrow> split_strs [] (strtab ss) = Some ss"
  by (induction ss) (simp_all add: strtab_Nil strtab_Cons split_strs_append)

text \<open>Names of properties and strings of the tree have no byte 0.\<close>

lemma no_nul_nm: "CHR 0x00 \<notin> set s \<Longrightarrow> no_nul (nm s)"
proof -
  have "c = CHR 0x00" if "(of_char c :: u8) = 0" for c
    using nm_inj [of "[c]" "[CHR 0x00]"] that by simp
  then show "CHR 0x00 \<notin> set s \<Longrightarrow> no_nul (nm s)" by (force simp: no_nul_def)
qed

lemma split_strs_strs: "list_all (\<lambda>s. CHR 0x00 \<notin> set s) ss \<Longrightarrow> split_strs [] (strs ss) = Some (map (\<lambda>s. nm s) ss)"
  unfolding strs_def by (rule split_strs_strtab) (auto simp: list_all_iff intro: no_nul_nm)

section \<open>The tree\<close>

definition node :: "string \<Rightarrow> (string \<times> bytes) list \<Rightarrow> dtnode list \<Rightarrow> dtnode" where
  "node name ps cs = DtNode (nm name) (map (\<lambda>(k, v). (nm k, v)) ps) cs"

definition cv_cpu_intc :: "u32 \<Rightarrow> dtnode" where
  "cv_cpu_intc phandle = node ''interrupt-controller''
     [(''#interrupt-cells'', u32s [1]), (''interrupt-controller'', []), (''compatible'', strs [''riscv,cpu-intc'']),
      (''phandle'', u32s [phandle])] []"

definition cv_cpu :: "string \<Rightarrow> u32 \<Rightarrow> u32 \<Rightarrow> dtnode" where
  "cv_cpu name hartid phandle = node name
     [(''clock-frequency'', u32s [50000000]), (''device_type'', strs [''cpu'']), (''reg'', u32s [hartid]),
      (''status'', strs [''okay'']), (''compatible'', strs [''eth, ariane'', ''riscv'']),
      (''riscv,isa'', strs [''rv64imafdc'']), (''mmu-type'', strs [''riscv,sv39'']), (''tlb-split'', [])]
     [cv_cpu_intc phandle]"

definition cv_cpus :: dtnode where
  "cv_cpus = node ''cpus''
     [(''#address-cells'', u32s [1]), (''#size-cells'', u32s [0]), (''timebase-frequency'', u32s [25000000])]
     [cv_cpu ''cpu@0'' 0 2, cv_cpu ''cpu@1'' 1 3]"

definition cv_chosen :: dtnode where
  "cv_chosen = node ''chosen'' [(''stdout-path'', strs [''/soc/uart@10000000:115200''])] []"

definition cv_memory :: dtnode where
  "cv_memory = node ''memory@80000000''
     [(''device_type'', strs [''memory'']), (''reg'', u32s [0, 0x80000000, 0, 0x40000000])] []"

definition cv_heartbeat :: dtnode where
  "cv_heartbeat = node ''heartbeat-led''
     [(''gpios'', u32s [1, 1, 0]), (''linux,default-trigger'', strs [''heartbeat'']),
      (''retain-state-suspended'', [])] []"

definition cv_leds :: dtnode where
  "cv_leds = node ''leds'' [(''compatible'', strs [''gpio-leds''])] [cv_heartbeat]"

definition cv_clint :: dtnode where
  "cv_clint = node ''clint@2000000''
     [(''compatible'', strs [''riscv,clint0'']), (''interrupts-extended'', u32s [2, 3, 2, 7, 3, 3, 3, 7]),
      (''reg'', u32s [0, 0x2000000, 0, 0xc0000]), (''reg-names'', strs [''control''])] []"

definition cv_plic :: dtnode where
  "cv_plic = node ''interrupt-controller@c000000''
     [(''#address-cells'', u32s [0]), (''#interrupt-cells'', u32s [1]), (''compatible'', strs [''riscv,plic0'']),
      (''interrupt-controller'', []), (''interrupts-extended'', u32s [2, 11, 2, 9, 3, 11, 3, 9]),
      (''reg'', u32s [0, 0xc000000, 0, 0x4000000]), (''riscv,max-priority'', u32s [7]), (''riscv,ndev'', u32s [30]),
      (''phandle'', u32s [4])] []"

definition cv_uart :: dtnode where
  "cv_uart = node ''uart@10000000''
     [(''compatible'', strs [''ns16550a'']), (''reg'', u32s [0, 0x10000000, 0, 0x1000]),
      (''clock-frequency'', u32s [50000000]), (''current-speed'', u32s [115200]), (''interrupt-parent'', u32s [4]),
      (''interrupts'', u32s [1]), (''reg-shift'', u32s [2]), (''reg-io-width'', u32s [4])] []"

definition cv_timer :: dtnode where
  "cv_timer = node ''timer@18000000''
     [(''compatible'', strs [''pulp,apb_timer'']), (''interrupts'', u32s [4, 5, 6, 7]),
      (''reg'', u32s [0, 0x18000000, 0, 0x1000]), (''interrupt-parent'', u32s [4]), (''reg-names'', strs [''control''])] []"

definition cv_mmc :: dtnode where
  "cv_mmc = node ''mmc@0''
     [(''compatible'', strs [''mmc-spi-slot'']), (''reg'', u32s [0]), (''spi-max-frequency'', u32s [12500000]),
      (''voltage-ranges'', u32s [3300, 3300]), (''disable-wp'', [])] []"

definition cv_spi :: dtnode where
  "cv_spi = node ''xps-spi@20000000''
     [(''compatible'', strs [''xlnx,xps-spi-2.00.b'', ''xlnx,xps-spi-2.00.a'']), (''#address-cells'', u32s [1]),
      (''#size-cells'', u32s [0]), (''interrupt-parent'', u32s [4]), (''interrupts'', u32s [2, 2]),
      (''reg'', u32s [0, 0x20000000, 0, 0x1000]), (''xlnx,family'', strs [''kintex7'']),
      (''xlnx,fifo-exist'', u32s [1]), (''xlnx,num-ss-bits'', u32s [1]), (''xlnx,num-transfer-bits'', u32s [8]),
      (''xlnx,sck-ratio'', u32s [4])] [cv_mmc]"

definition cv_eth :: dtnode where
  "cv_eth = node ''lowrisc-eth@30000000''
     [(''compatible'', strs [''lowrisc-eth'']), (''device_type'', strs [''network'']), (''interrupt-parent'', u32s [4]),
      (''interrupts'', u32s [3, 0]), (''local-mac-address'', [0x00, 0x18, 0x3e, 0x02, 0xe3, 0x7f]),
      (''reg'', u32s [0, 0x30000000, 0, 0x8000])] []"

definition cv_gpio :: dtnode where
  "cv_gpio = node ''gpio@40000000''
     [(''#gpio-cells'', u32s [2]), (''compatible'', strs [''xlnx,xps-gpio-1.00.a'']), (''gpio-controller'', []),
      (''reg'', u32s [0, 0x40000000, 0, 0x10000]), (''xlnx,all-inputs'', u32s [0]), (''xlnx,all-inputs-2'', u32s [0]),
      (''xlnx,dout-default'', u32s [0]), (''xlnx,dout-default-2'', u32s [0]), (''xlnx,gpio-width'', u32s [8]),
      (''xlnx,gpio2-width'', u32s [8]), (''xlnx,interrupt-present'', u32s [0]), (''xlnx,is-dual'', u32s [1]),
      (''xlnx,tri-default'', u32s [0xffffffff]), (''xlnx,tri-default-2'', u32s [0xffffffff]),
      (''phandle'', u32s [1])] []"

definition cv_soc :: dtnode where
  "cv_soc = node ''soc''
     [(''#address-cells'', u32s [2]), (''#size-cells'', u32s [2]),
      (''compatible'', strs [''eth,ariane-bare-soc'', ''simple-bus'']), (''ranges'', [])]
     [cv_clint, cv_plic, cv_uart, cv_timer, cv_spi, cv_eth, cv_gpio]"

definition cv64a6_tree :: dtnode where
  "cv64a6_tree = node ''''
     [(''#address-cells'', u32s [2]), (''#size-cells'', u32s [2]), (''compatible'', strs [''eth,ariane-bare-dev'']),
      (''model'', strs [''eth,ariane-bare''])]
     [cv_chosen, cv_cpus, cv_memory, cv_leds, cv_soc]"

lemmas cv_nodes = cv64a6_tree_def cv_soc_def cv_gpio_def cv_eth_def cv_spi_def cv_mmc_def cv_timer_def cv_uart_def cv_plic_def
  cv_clint_def cv_leds_def cv_heartbeat_def cv_memory_def cv_chosen_def cv_cpus_def cv_cpu_def cv_cpu_intc_def

section \<open>The tree fits the format\<close>

text \<open>A bound for the structure block and the strings, computed from lengths only.\<close>

fun dt_bound :: "dtnode \<Rightarrow> nat" where
  "dt_bound (DtNode n ps cs) = 13 + length n + sum_list (map (\<lambda>(k, v). 16 + length k + length v) ps) + sum_list (map dt_bound cs)"

lemma strtab_append: "strtab (xs @ ys) = strtab xs @ strtab ys"
  by (simp add: strtab_def)

lemma length_strtab_remdups: "length (strtab (remdups xs)) \<le> length (strtab xs)"
  by (induction xs) (auto simp: strtab_Nil strtab_Cons)

lemma length_pad4_le: "length (pad4 v) \<le> length v + 3"
  by (simp add: pad4_def)

lemma prop_bound:
  "length (enc_toks (prop_toks so ps)) + length (strtab (map fst ps)) \<le> sum_list (map (\<lambda>(k, v). 16 + length k + length v) ps)"
proof (induction ps)
  case (Cons kv ps)
  obtain k v where kv: "kv = (k, v)" by (cases kv)
  show ?case using Cons length_pad4_le [of v] by (simp add: kv strtab_Cons enc_tok_def)
qed (simp add: strtab_Nil)

lemma tree_bound: "length (enc_toks (flat so s)) + length (strtab (tree_names s)) \<le> dt_bound s"
proof (induction so s rule: flat.induct)
  case (1 so n ps cs)
  have "length (enc_toks (flats so ds)) + length (strtab (concat (map tree_names ds))) \<le> sum_list (map dt_bound ds)"
    if "set ds \<subseteq> set cs" for ds
    using that
  proof (induction ds)
    case (Cons d ds)
    then show ?case using 1 [of d] by (simp add: strtab_append)
  qed (simp add: strtab_Nil)
  from this [of cs] prop_bound [of so ps] length_pad4_le [of "n @ [0]"] show ?case
    by (simp add: strtab_append enc_tok_def)
qed

lemma dt_wf_bound: "addr AND 7 = 0 \<Longrightarrow> tree_ok t \<Longrightarrow> dt_bound t < 2000000000 \<Longrightarrow> dt_wf addr t"
  using tree_bound [of "dt_nameoff t" t] length_strtab_remdups [of "tree_names t"]
  by (simp add: dt_wf_def dt_toks_def dt_strings_def enc_tok_def)

lemma map_of_nm: "map_of (map (\<lambda>(k, v). (nm k, v)) ps) (nm name) = map_of ps name"
  by (induction ps) auto

lemma node_simps:
  "dt_name (node n ps cs) = nm n" "dt_children (node n ps cs) = cs" "dt_prop (node n ps cs) name = map_of ps name"
  "tree_ok (node n ps cs) \<longleftrightarrow> no_nul (nm n) \<and> list_all (\<lambda>(k, v). no_nul (nm k)) ps \<and> list_all tree_ok cs"
  "dt_bound (node n ps cs) = 13 + length n + sum_list (map (\<lambda>(k, v). 16 + length k + length v) ps) + sum_list (map dt_bound cs)"
proof -
  have "(\<lambda>(k, v). 16 + length k + length v) \<circ> (\<lambda>(k, v). (nm k, v)) = (\<lambda>(k, v :: bytes). 16 + length k + length v)"
    by auto
  then show "dt_bound (node n ps cs) =
      13 + length n + sum_list (map (\<lambda>(k, v). 16 + length k + length v) ps) + sum_list (map dt_bound cs)"
    by (simp add: node_def)
qed (auto simp: node_def dt_prop_def map_of_nm list_all_iff)

lemma length_strs: "length (strs ss) = sum_list (map (\<lambda>s. length s + 1) ss)"
  by (induction ss) (auto simp: strs_def strtab_def)

lemma cv_tree_ok: "tree_ok cv64a6_tree"
  by (simp add: cv_nodes node_simps no_nul_nm)

lemma cv_bound: "dt_bound cv64a6_tree < 2000000000"
  by (simp add: cv_nodes node_simps length_strs)

lemma cv_wf: "addr AND 7 = 0 \<Longrightarrow> dt_wf addr cv64a6_tree"
  by (rule dt_wf_bound [OF _ cv_tree_ok cv_bound])

text \<open>A blob of the tree in memory, at an address that is aligned the way libfdt asks for.\<close>

interpretation cv: dt_blob "0x82200000" cv64a6_tree
  by unfold_locales (rule cv_wf, simp)

section \<open>The tree meets what the helpers rely on\<close>

lemma dt_walk_unfold: "dt_walk anc s = (s # anc) # concat (map (dt_walk (s # anc)) (dt_children s))"
  by (cases s) simp

lemma cv_children:
  "dt_children cv64a6_tree = [cv_chosen, cv_cpus, cv_memory, cv_leds, cv_soc]" "dt_children cv_chosen = []"
  "dt_children cv_cpus = [cv_cpu ''cpu@0'' 0 2, cv_cpu ''cpu@1'' 1 3]" "dt_children (cv_cpu n i p) = [cv_cpu_intc p]"
  "dt_children (cv_cpu_intc p) = []" "dt_children cv_memory = []" "dt_children cv_leds = [cv_heartbeat]"
  "dt_children cv_heartbeat = []" "dt_children cv_soc = [cv_clint, cv_plic, cv_uart, cv_timer, cv_spi, cv_eth, cv_gpio]"
  "dt_children cv_clint = []" "dt_children cv_plic = []" "dt_children cv_uart = []" "dt_children cv_timer = []"
  "dt_children cv_spi = [cv_mmc]" "dt_children cv_mmc = []" "dt_children cv_eth = []" "dt_children cv_gpio = []"
  by (simp_all only: cv_nodes node_simps)

lemma cv_walk:
  "dt_walk [] cv64a6_tree =
     [cv64a6_tree] # map (\<lambda>z. z @ [cv64a6_tree])
       [[cv_chosen], [cv_cpus], [cv_cpu ''cpu@0'' 0 2, cv_cpus], [cv_cpu_intc 2, cv_cpu ''cpu@0'' 0 2, cv_cpus],
        [cv_cpu ''cpu@1'' 1 3, cv_cpus], [cv_cpu_intc 3, cv_cpu ''cpu@1'' 1 3, cv_cpus], [cv_memory], [cv_leds],
        [cv_heartbeat, cv_leds], [cv_soc], [cv_clint, cv_soc], [cv_plic, cv_soc], [cv_uart, cv_soc], [cv_timer, cv_soc],
        [cv_spi, cv_soc], [cv_mmc, cv_spi, cv_soc], [cv_eth, cv_soc], [cv_gpio, cv_soc]]"
  by (simp add: dt_walk_unfold [of _ cv64a6_tree] dt_walk_unfold [of _ cv_chosen] dt_walk_unfold [of _ cv_cpus]
    dt_walk_unfold [of _ "cv_cpu n i p" for n i p] dt_walk_unfold [of _ "cv_cpu_intc p" for p] dt_walk_unfold [of _ cv_memory]
    dt_walk_unfold [of _ cv_leds] dt_walk_unfold [of _ cv_heartbeat] dt_walk_unfold [of _ cv_soc]
    dt_walk_unfold [of _ cv_clint] dt_walk_unfold [of _ cv_plic] dt_walk_unfold [of _ cv_uart] dt_walk_unfold [of _ cv_timer]
    dt_walk_unfold [of _ cv_spi] dt_walk_unfold [of _ cv_mmc] dt_walk_unfold [of _ cv_eth] dt_walk_unfold [of _ cv_gpio]
    cv_children)

lemma cv_cells:
  "dt_address_cells cv64a6_tree = 2" "dt_size_cells cv64a6_tree = 2" "dt_address_cells cv_soc = 2" "dt_size_cells cv_soc = 2"
  "dt_address_cells cv_cpus = 1" "dt_size_cells cv_cpus = 0" "dt_address_cells cv_spi = 1" "dt_size_cells cv_spi = 0"
  by (simp_all add: dt_address_cells_def dt_size_cells_def dt_cells_def cv64a6_tree_def cv_soc_def cv_cpus_def cv_spi_def node_simps
    del: u32s_simps)

lemma cv_ranges:
  "ranges_ok cv64a6_tree" "ranges_ok cv_soc" "ranges_ok cv_cpus" "ranges_ok (cv_cpu n i p)" "ranges_ok cv_leds" "ranges_ok cv_spi"
  by (simp_all add: ranges_ok_def cv_nodes node_simps del: u32s_simps)

lemma compat_ok_prop:
  "compat_ok s \<longleftrightarrow> (case dt_prop s ''compatible'' of None \<Rightarrow> True | Some v \<Rightarrow> split_strs [] v \<noteq> None)"
  by (simp add: compat_ok_def dt_prop_def compat_name_def)

lemma cv_sane: "dt_sane cv64a6_tree"
proof -
  have node: "node_sane (s # anc)"
    if "compat_ok s" "list_all ranges_ok anc" "reg_ok anc s 0" "list_all (cell_ok s) cell_names" for s anc
    using that by (simp add: node_sane_def)
  note ok = compat_ok_prop reg_ok_def cell_ok_def cell_names_def cv_cells cv_ranges split_strs_strs
  show ?thesis
    unfolding dt_sane_def cv_walk
    apply (simp del: u32s_simps)
    apply (intro conjI node)
    apply (simp_all add: ok del: u32s_simps)
    apply (simp_all add: cv_nodes node_simps split_strs_strs del: u32s_simps)
    done
qed

text \<open>The compatible strings of the nodes, and the node that a string leads to.\<close>

lemma dt_compatible_strs:
  "dt_prop s ''compatible'' = Some (strs ss) \<Longrightarrow> list_all (\<lambda>s. CHR 0x00 \<notin> set s) ss \<Longrightarrow>
    dt_compatible s (nm str) \<longleftrightarrow> str \<in> set ss"
  "dt_prop s ''compatible'' = None \<Longrightarrow> \<not> dt_compatible s (nm str)"
proof -
  have d: "dt_compatible s b \<longleftrightarrow> (case dt_prop s ''compatible'' of None \<Rightarrow> False
      | Some v \<Rightarrow> (case split_strs [] v of None \<Rightarrow> False | Some ss \<Rightarrow> b \<in> set ss))" for b
    by (simp add: dt_compatible_def dt_prop_def compat_name_def)
  show "dt_prop s ''compatible'' = Some (strs ss) \<Longrightarrow> list_all (\<lambda>s. CHR 0x00 \<notin> set s) ss \<Longrightarrow>
      dt_compatible s (nm str) \<longleftrightarrow> str \<in> set ss"
    by (auto simp: d split_strs_strs)
qed (simp add: dt_compatible_def dt_prop_def compat_name_def)

lemma cv_compat:
  "dt_prop cv64a6_tree ''compatible'' = Some (strs [''eth,ariane-bare-dev''])"
  "dt_prop (cv_cpu n i p) ''compatible'' = Some (strs [''eth, ariane'', ''riscv''])"
  "dt_prop (cv_cpu_intc p) ''compatible'' = Some (strs [''riscv,cpu-intc''])"
  "dt_prop cv_leds ''compatible'' = Some (strs [''gpio-leds''])"
  "dt_prop cv_soc ''compatible'' = Some (strs [''eth,ariane-bare-soc'', ''simple-bus''])"
  "dt_prop cv_clint ''compatible'' = Some (strs [''riscv,clint0''])"
  "dt_prop cv_plic ''compatible'' = Some (strs [''riscv,plic0''])"
  "dt_prop cv_uart ''compatible'' = Some (strs [''ns16550a''])"
  "dt_prop cv_timer ''compatible'' = Some (strs [''pulp,apb_timer''])"
  "dt_prop cv_spi ''compatible'' = Some (strs [''xlnx,xps-spi-2.00.b'', ''xlnx,xps-spi-2.00.a''])"
  "dt_prop cv_mmc ''compatible'' = Some (strs [''mmc-spi-slot''])"
  "dt_prop cv_eth ''compatible'' = Some (strs [''lowrisc-eth''])"
  "dt_prop cv_gpio ''compatible'' = Some (strs [''xlnx,xps-gpio-1.00.a''])"
  by (simp_all add: cv_nodes node_simps del: u32s_simps)

lemma cv_no_compat:
  "dt_prop cv_chosen ''compatible'' = None" "dt_prop cv_cpus ''compatible'' = None"
  "dt_prop cv_memory ''compatible'' = None" "dt_prop cv_heartbeat ''compatible'' = None"
  by (simp_all add: cv_nodes node_simps del: u32s_simps)

lemma cv_compatible:
  "dt_compatible cv64a6_tree (nm str) \<longleftrightarrow> str = ''eth,ariane-bare-dev''" "\<not> dt_compatible cv_chosen (nm str)"
  "\<not> dt_compatible cv_cpus (nm str)" "dt_compatible (cv_cpu n i p) (nm str) \<longleftrightarrow> str \<in> {''eth, ariane'', ''riscv''}"
  "dt_compatible (cv_cpu_intc p) (nm str) \<longleftrightarrow> str = ''riscv,cpu-intc''" "\<not> dt_compatible cv_memory (nm str)"
  "dt_compatible cv_leds (nm str) \<longleftrightarrow> str = ''gpio-leds''" "\<not> dt_compatible cv_heartbeat (nm str)"
  "dt_compatible cv_soc (nm str) \<longleftrightarrow> str \<in> {''eth,ariane-bare-soc'', ''simple-bus''}"
  "dt_compatible cv_clint (nm str) \<longleftrightarrow> str = ''riscv,clint0''" "dt_compatible cv_plic (nm str) \<longleftrightarrow> str = ''riscv,plic0''"
  "dt_compatible cv_uart (nm str) \<longleftrightarrow> str = ''ns16550a''" "dt_compatible cv_timer (nm str) \<longleftrightarrow> str = ''pulp,apb_timer''"
  "dt_compatible cv_spi (nm str) \<longleftrightarrow> str \<in> {''xlnx,xps-spi-2.00.b'', ''xlnx,xps-spi-2.00.a''}"
  "dt_compatible cv_mmc (nm str) \<longleftrightarrow> str = ''mmc-spi-slot''" "dt_compatible cv_eth (nm str) \<longleftrightarrow> str = ''lowrisc-eth''"
  "dt_compatible cv_gpio (nm str) \<longleftrightarrow> str = ''xlnx,xps-gpio-1.00.a''"
  by (simp_all add: cv_compat [THEN dt_compatible_strs(1)] cv_no_compat [THEN dt_compatible_strs(2)])

lemma cv_locate:
  "dt_locate cv64a6_tree (nm ''ns16550'') = None"
  "dt_locate cv64a6_tree (nm ''riscv,plic0'') = Some [cv_plic, cv_soc, cv64a6_tree]"
  "dt_locate cv64a6_tree (nm ''riscv,clint0'') = Some [cv_clint, cv_soc, cv64a6_tree]"
  "dt_locate cv64a6_tree (nm ''ns16550a'') = Some [cv_uart, cv_soc, cv64a6_tree]"
proof -
  have *: "find (\<lambda>z. dt_compatible (hd z) (nm str)) (dt_walk [] cv64a6_tree) =
      (if str = ''riscv,clint0'' then Some [cv_clint, cv_soc, cv64a6_tree]
       else if str = ''riscv,plic0'' then Some [cv_plic, cv_soc, cv64a6_tree]
       else if str = ''ns16550a'' then Some [cv_uart, cv_soc, cv64a6_tree] else None)"
    if "str \<in> {''ns16550'', ''riscv,plic0'', ''riscv,clint0'', ''ns16550a''}" for str
  proof -
    have "str \<notin> {''eth,ariane-bare-dev'', ''eth, ariane'', ''riscv'', ''riscv,cpu-intc'', ''gpio-leds'', ''eth,ariane-bare-soc'',
        ''simple-bus'', ''pulp,apb_timer'', ''xlnx,xps-spi-2.00.b'', ''xlnx,xps-spi-2.00.a'', ''mmc-spi-slot'', ''lowrisc-eth'',
        ''xlnx,xps-gpio-1.00.a''}"
      using that by auto
    then show ?thesis unfolding cv_walk by (simp add: cv_compatible)
  qed
  show "dt_locate cv64a6_tree (nm ''ns16550'') = None"
    "dt_locate cv64a6_tree (nm ''riscv,plic0'') = Some [cv_plic, cv_soc, cv64a6_tree]"
    "dt_locate cv64a6_tree (nm ''riscv,clint0'') = Some [cv_clint, cv_soc, cv64a6_tree]"
    "dt_locate cv64a6_tree (nm ''ns16550a'') = Some [cv_uart, cv_soc, cv64a6_tree]"
    unfolding dt_locate_def by (subst *; simp; fail)+
qed

lemma cv_regs:
  "dt_prop cv_plic ''reg'' = Some (u32s [0, 0xc000000, 0, 0x4000000])"
  "dt_prop cv_clint ''reg'' = Some (u32s [0, 0x2000000, 0, 0xc0000])"
  "dt_prop cv_soc ''ranges'' = Some []" "dt_prop cv64a6_tree ''ranges'' = None"
  "dt_prop cv_plic ''riscv,ndev'' = Some (u32s [30])" "dt_prop cv_cpus ''timebase-frequency'' = Some (u32s [25000000])"
  by (simp_all add: cv_nodes node_simps del: u32s_simps)

lemma vcells_two: "vcells v i 2 0 = push_bit 32 (ucast (vcell v i)) OR ucast (vcell v (Suc i))"
  by (simp add: numeral_2_eq_2)

lemma cv_addr_size:
  "dt_addr_size [cv_soc, cv64a6_tree] cv_plic 0 a = (0, Some 0xc000000, 0x4000000)"
  "dt_addr_size [cv_soc, cv64a6_tree] cv_clint 0 a = (0, Some 0x2000000, 0xc0000)"
  by (simp_all add: dt_addr_size_def cv_cells cv_regs Let_def dt_translate_def vcells_two del: u32s_simps)

lemma cv_timebase: "dt_timebase cv64a6_tree freq = (0, 25000000)"
proof -
  have "dt_find cv64a6_tree [nm ''cpus''] = Some cv_cpus"
    by (simp add: cv_children name_match_def) (simp add: cv_chosen_def cv_cpus_def node_simps)
  then show ?thesis by (simp add: dt_timebase_def cv_regs del: u32s_simps dt_find.simps)
qed

end
