(* ===== verification/Plat_Ariane_Fdt.thy ===== *)
theory Plat_Ariane_Fdt
  imports Plat_Ariane Cv64a6_Dts
begin

text \<open>
  The early initialisation of the Ariane platform down to the bytes of the device tree: what
  \<^verbatim>\<open>ariane_early_init\<close> reads with the functions of \<^verbatim>\<open>fdt_helper.c\<close> is computed from the blob, and on
  encoded trees it is computed by a specification on trees. The last section evaluates it on the device tree of the
  FPGA system.
\<close>

text \<open>
  The calls of \<^verbatim>\<open>ariane_early_init\<close>. The local variables are not initialised: \<open>uart\<close>, \<open>plic\<close> and
  \<open>freq\<close> are their contents on entry, and the result \<open>None\<close> stands for the use of \<^verbatim>\<open>clint_addr\<close> when
  no call has written it (or for an access outside the blob).
\<close>

definition ariane_parse_fdt :: "fdt_blob \<Rightarrow> platform_uart_data \<Rightarrow> plic_data \<Rightarrow> ulong \<Rightarrow> ariane_fdt option" where
  "ariane_parse_fdt fdt uart plic freq = do {
     (rc, u) \<leftarrow> fdt_parse_uart8250 fdt uart (cstr ''ns16550'');
     let uart = (if rc = 0 then Some u else None);
     (rc, p) \<leftarrow> fdt_parse_plic fdt plic (cstr ''riscv,plic0'');
     let plic = (if rc = 0 then Some p else None);
     (rc, f) \<leftarrow> fdt_parse_timebase_frequency fdt freq;
     let timebase = (if rc = 0 then Some f else None);
     (rc, a) \<leftarrow> fdt_parse_compat_addr fdt None (cstr ''riscv,clint0'');
     clint \<leftarrow> (if rc = 0 then map_option Some a else Some None);
     Some \<lparr>fdt_uart = uart, fdt_plic = plic, fdt_timebase = timebase, fdt_clint = clint\<rparr> }"

definition ariane_early_init_blob ::
    "fdt_blob \<Rightarrow> platform_uart_data \<Rightarrow> plic_data \<Rightarrow> ulong \<Rightarrow> bool \<Rightarrow> machine \<Rightarrow> (int \<times> machine) option" where
  "ariane_early_init_blob fdt uart plic freq cold_boot m =
     (if \<not> cold_boot then Some (0, m) else do {
      found \<leftarrow> ariane_parse_fdt fdt uart plic freq;
      Some (ariane_early_init found cold_boot m) })"

section \<open>What the tree says\<close>

definition on_success :: "int \<times> 'a \<Rightarrow> 'a option" where
  "on_success r = (if fst r = 0 then Some (snd r) else None)"

definition dt_ariane :: "dtnode \<Rightarrow> platform_uart_data \<Rightarrow> plic_data \<Rightarrow> ulong \<Rightarrow> ariane_fdt option" where
  "dt_ariane t uart plic freq = do {
     u \<leftarrow> dt_uart8250 t uart (nm ''ns16550'');
     p \<leftarrow> dt_plic t plic (nm ''riscv,plic0'');
     a \<leftarrow> (case on_success (dt_compat_addr t None (nm ''riscv,clint0'')) of None \<Rightarrow> Some None | Some a \<Rightarrow> map_option Some a);
     Some \<lparr>fdt_uart = on_success u, fdt_plic = on_success p, fdt_timebase = on_success (dt_timebase t freq), fdt_clint = a\<rparr> }"

lemma parse_fdt_tree:
  assumes "dt_wf addr t" and "dt_sane t"
  shows "ariane_parse_fdt (dtb addr t) uart plic freq = dt_ariane t uart plic freq"
proof -
  have blob: "dt_blob addr t" by unfold_locales (rule assms(1))
  have n: "no_nul (nm ''ns16550'')" "no_nul (nm ''riscv,plic0'')" "no_nul (nm ''riscv,clint0'')" by (simp_all add: no_nul_nm)
  obtain U P C T where d: "dt_uart8250 t uart (nm ''ns16550'') = U" "dt_plic t plic (nm ''riscv,plic0'') = P"
    "dt_compat_addr t None (nm ''riscv,clint0'') = C" "dt_timebase t freq = T" by blast
  have u: "fdt_parse_uart8250 (dtb addr t) uart (nm ''ns16550'' @ [0]) = U"
    unfolding d(1) [symmetric] by (rule dt_blob.parse_uart8250_tree [OF blob assms(2) n(1)]) simp_all
  have p: "fdt_parse_plic (dtb addr t) plic (nm ''riscv,plic0'' @ [0]) = P"
    unfolding d(2) [symmetric] by (rule dt_blob.parse_plic_tree [OF blob assms(2) n(2)]) simp_all
  have c: "fdt_parse_compat_addr (dtb addr t) None (nm ''riscv,clint0'' @ [0]) = Some C"
    unfolding d(3) [symmetric] by (rule dt_blob.parse_compat_addr_tree [OF blob assms(2) n(3)]) simp_all
  have f: "fdt_parse_timebase_frequency (dtb addr t) freq = Some T"
    unfolding d(4) [symmetric] by (rule dt_blob.parse_timebase_tree [OF blob assms(2)])
  show ?thesis
    unfolding ariane_parse_fdt_def dt_ariane_def cstr_nm u p c f d
    by (cases U; cases P; cases C; cases T) (auto simp: on_success_def)
qed

text \<open>
  The contents of the local variables on entry matter in one case only: a node of the interrupt
  controller without \<^verbatim>\<open>riscv,ndev\<close> leaves the number of sources as it was.
\<close>

definition ndev_ok :: "dtnode \<Rightarrow> bool" where
  "ndev_ok t \<longleftrightarrow> (case dt_locate t (nm ''riscv,plic0'') of None \<Rightarrow> True
     | Some z \<Rightarrow> (case dt_prop (hd z) ''riscv,ndev'' of None \<Rightarrow> False | Some v \<Rightarrow> v \<noteq> []))"

lemma uart_locals: "map_option on_success (dt_uart8250 t u str) = map_option on_success (dt_uart8250 t u' str)"
  by (cases "dt_locate t str"; cases "dt_reg (the (dt_locate t str))")
     (auto simp: dt_uart8250_def on_success_def split: option.split)

lemma plic_locals:
  assumes "ndev_ok t"
  shows "map_option on_success (dt_plic t p (nm ''riscv,plic0'')) = map_option on_success (dt_plic t p' (nm ''riscv,plic0''))"
proof (cases "dt_locate t (nm ''riscv,plic0'')")
  case None
  then show ?thesis unfolding dt_plic_def None by (simp add: on_success_def)
next
  case (Some z)
  then obtain v where v: "dt_prop (hd z) ''riscv,ndev'' = Some v" "v \<noteq> []"
    using assms unfolding ndev_ok_def Some by (auto split: option.splits)
  show ?thesis unfolding dt_plic_def Some
    by (cases "dt_reg z") (auto simp: on_success_def dt_cell_or_def v split: option.split)
qed

lemma ariane_bind:
  "dt_ariane t u p f = do {
     u \<leftarrow> map_option on_success (dt_uart8250 t u (nm ''ns16550''));
     p \<leftarrow> map_option on_success (dt_plic t p (nm ''riscv,plic0''));
     a \<leftarrow> (case on_success (dt_compat_addr t None (nm ''riscv,clint0'')) of None \<Rightarrow> Some None | Some a \<Rightarrow> map_option Some a);
     Some \<lparr>fdt_uart = u, fdt_plic = p, fdt_timebase = on_success (dt_timebase t f), fdt_clint = a\<rparr> }"
  unfolding dt_ariane_def
  by (cases "dt_uart8250 t u (nm ''ns16550'')"; cases "dt_plic t p (nm ''riscv,plic0'')") simp_all

lemma timebase_locals: "on_success (dt_timebase t f) = on_success (dt_timebase t f')"
  unfolding dt_timebase_def by (simp add: on_success_def split: option.split del: dt_find.simps)

lemma ariane_locals: "ndev_ok t \<Longrightarrow> dt_ariane t u p f = dt_ariane t u' p' f'"
  unfolding ariane_bind uart_locals [of t u "nm ''ns16550''" u'] plic_locals [of t p p'] timebase_locals [of t f f'] ..

section \<open>The FPGA system\<close>

text \<open>
  On the device tree of the FPGA system the interrupt controller, the timebase and the timer are
  found. The serial port is not: the tree lists \<^verbatim>\<open>ns16550a\<close>, the platform asks for \<^verbatim>\<open>ns16550\<close>.
\<close>

lemma cv_ariane:
  "dt_ariane cv64a6_tree uart plic freq = Some \<lparr>fdt_uart = None,
     fdt_plic = Some \<lparr>plic_addr = 0xc000000, plic_num_src = 30\<rparr>,
     fdt_timebase = Some 25000000, fdt_clint = Some 0x2000000\<rparr>"
proof -
  have p: "dt_plic cv64a6_tree plic (nm ''riscv,plic0'') = Some (0, plic\<lparr>plic_addr := 0xc000000, plic_num_src := 30\<rparr>)"
    unfolding dt_plic_def cv_locate by (simp add: dt_reg_def cv_addr_size dt_cell_or_def cv_regs del: u32s_simps)
  have c: "dt_compat_addr cv64a6_tree None (nm ''riscv,clint0'') = (0, Some 0x2000000)"
    unfolding dt_compat_addr_def cv_locate by (simp add: cv_addr_size)
  have u: "dt_uart8250 cv64a6_tree uart (nm ''ns16550'') = Some (- FDT_ERR_NOTFOUND, uart)"
    unfolding dt_uart8250_def cv_locate by simp
  show ?thesis unfolding dt_ariane_def p c u cv_timebase by (simp add: on_success_def)
qed

text \<open>
  C18. The early initialisation of the platform reads the device tree. On the blob of every tree that
  fits the format and has whole cells in the properties concerned (\<open>dt_sane\<close>), a cold boot computes
  the data of the serial port, the interrupt controller, the timebase and the timer and software
  interrupt devices by the specification on trees, following the first node that lists the
  compatible string and the address windows of its ancestors. The result does not depend on the
  uninitialised local variables, provided the node of the interrupt controller has \<^verbatim>\<open>riscv,ndev\<close>. On
  the tree of the FPGA system the interrupt controller, timebase and timer are found as the tree has
  them, and the serial port is not found.
\<close>

theorem ariane_early_init_reads_tree:
  assumes "dt_wf addr t" and "dt_sane t"
  shows "ariane_early_init_blob (dtb addr t) uart plic freq True m =
      map_option (\<lambda>found. ariane_early_init found True m) (dt_ariane t uart plic freq) \<and>
    (ndev_ok t \<longrightarrow> dt_ariane t uart plic freq = dt_ariane t uart' plic' freq') \<and>
    dt_ariane cv64a6_tree uart plic freq = Some \<lparr>fdt_uart = None,
      fdt_plic = Some \<lparr>plic_addr = 0xc000000, plic_num_src = 30\<rparr>, fdt_timebase = Some 25000000, fdt_clint = Some 0x2000000\<rparr>"
  using parse_fdt_tree [OF assms] ariane_locals [of t uart plic freq uart' plic' freq'] cv_ariane [of uart plic freq]
  by (simp add: ariane_early_init_blob_def map_conv_bind_option comp_def)

theorem ariane_early_init_reads_tree_witness:
  "\<exists>m. ariane_early_init_blob (dtb 0x82200000 cv64a6_tree) ariane_uart ariane_plic 0 True ariane_machine = Some (0, m) \<and>
    drv_uart (m_drv m) = ariane_uart \<and> drv_plic (m_drv m) = \<lparr>plic_addr = 0xc000000, plic_num_src = 30\<rparr> \<and>
    mtime_freq (mtimer_obj (m_drv m) 0) = 25000000 \<and> mtime_addr (mtimer_obj (m_drv m) 0) = 0x200bff8 \<and>
    mtimecmp_addr (mtimer_obj (m_drv m) 0) = 0x2004000 \<and> mswi_addr (mswi_obj (m_drv m) 0) = 0x2000000"
proof -
  note r = ariane_early_init_reads_tree [OF cv_wf [of "0x82200000", simplified] cv_sane, of ariane_uart ariane_plic 0 ariane_machine]
  show ?thesis
    unfolding r [THEN conjunct1] r [THEN conjunct2, THEN conjunct2]
    by (simp add: ariane_early_init_def Let_def set_opt_def upd_mtimer_def ariane_machine_def ariane_drv_def ariane_plic_def)
qed

end
