(* ===== verification/Spec2Isabelle.thy ===== *)
theory Spec2Isabelle
  imports Riscv_Locks Sbi_String Sbi_Fifo Sbi_Bitops Sbi_Domain Riscv_Asm Sbi_Scratch Sbi_Hart Sbi_Pmu
    Sbi_Machine Sbi_Timer Sbi_Trap Sbi_Unpriv Sbi_Emulate Sbi_Misaligned Sbi_Hsm Sbi_Hsm_System
    Sbi_Ipi Sbi_Tlb Sbi_Tlb_System Sbi_System Sbi_Console Sbi_Ecall Sbi_Trap_Handler Sbi_Init Sbi_Boot_System
    Sbi_Domain_Mmio Riscv_Io Bootrom_Uart Bootrom_Spi Bootrom_Sd Bootrom_Gpt
    Plat_Types Plat_Devices Plat_Aclint Plat_Aclint_Events Plat_Aclint_Regions Plat_Ariane
    Fdt_Core Fdt_Ro Fdt_Tokens Fdt_Tree Fdt_Search Fdt_Helper Fdt_Helper_Tree Cv64a6_Dts Plat_Ariane_Fdt
begin

text \<open>
  \<^bold>\<open>Verification of the machine-mode firmware of the Culsans multicore\<close>

  \<^bold>\<open>The program.\<close> Culsans is a cache-coherent multicore of CVA6 cores. Its software is under \<^verbatim>\<open>src/cva6-sdk\<close>; the part that is the system's own
  trusted core is the machine-mode firmware OpenSBI (\<^verbatim>\<open>src/cva6-sdk/opensbi\<close>, version 0.9), which runs on every hart below the operating
  system: it starts the harts, isolates domains of memory and harts from each other by the physical memory protection (PMP), and
  serves the supervisor's calls and traps. Before it, the boot ROM of the FPGA (\<^verbatim>\<open>src/modules/cva6/corev_apu/fpga/src/bootrom\<close>) loads it from an SD
  card. This development models the library \<^verbatim>\<open>lib/sbi\<close> of the firmware for RV64 (\<^verbatim>\<open>rv64imafdc\<close>), the platform \<^verbatim>\<open>fpga/ariane\<close> with its
  drivers, the reading of the device tree (\<^verbatim>\<open>lib/utils/fdt\<close>, \<^verbatim>\<open>lib/utils/libfdt\<close>), and the C code of the boot ROM, from the source, file by file.

  \<^bold>\<open>Theories and what they model.\<close> File names are relative to \<^verbatim>\<open>src/cva6-sdk/opensbi\<close>.

  \<^item> \<^verbatim>\<open>Sbi_Prelude\<close>: types, error codes, generic lemmas.
  \<^item> \<^verbatim>\<open>Riscv_Locks\<close> (\<^verbatim>\<open>lib/sbi/riscv_locks.c\<close>): the ticket lock, its word arithmetic and the interleaving of contenders.
  \<^item> \<^verbatim>\<open>Sbi_String\<close>, \<^verbatim>\<open>Sbi_Bitops\<close>, \<^verbatim>\<open>Sbi_Fifo\<close> (\<^verbatim>\<open>sbi_string.c\<close>, \<^verbatim>\<open>sbi_bitops.c\<close>, \<^verbatim>\<open>sbi_bitmap.c\<close>, \<^verbatim>\<open>sbi_math.c\<close>, \<^verbatim>\<open>sbi_fifo.c\<close>): byte strings, bit
    searches, hart masks, and the ring buffer with its refinement of an abstract queue.
  \<^item> \<^verbatim>\<open>Riscv_Asm\<close>, \<^verbatim>\<open>Sbi_Scratch\<close>, \<^verbatim>\<open>Sbi_Hart\<close>, \<^verbatim>\<open>Sbi_Pmu\<close> (\<^verbatim>\<open>riscv_asm.c\<close>, \<^verbatim>\<open>sbi_scratch.c\<close>, \<^verbatim>\<open>sbi_hart.c\<close>, \<^verbatim>\<open>sbi_pmu.c\<close>): CSRs, the PMP, per-hart memory,
    feature detection and mode switch, performance counters.
  \<^item> \<^verbatim>\<open>Sbi_Domain\<close> (\<^verbatim>\<open>sbi_domain.c\<close>): memory regions, the address check, registration of domains.
  \<^item> \<^verbatim>\<open>Sbi_Machine\<close>: the state of the whole firmware as one record, the hart's CSRs included; how a call can end (\<open>run\<close>); the atomic
    operations (\<^verbatim>\<open>riscv_atomic.c\<close>). Commands to devices and fence instructions are appended to a log.
  \<^item> \<^verbatim>\<open>Sbi_Timer\<close>, \<^verbatim>\<open>Sbi_Trap\<close>, \<^verbatim>\<open>Sbi_Unpriv\<close>, \<^verbatim>\<open>Sbi_Emulate\<close>, \<^verbatim>\<open>Sbi_Misaligned\<close> (\<^verbatim>\<open>sbi_timer.c\<close>, \<^verbatim>\<open>sbi_trap.c\<close>, \<^verbatim>\<open>sbi_unpriv.c\<close>, \<^verbatim>\<open>sbi_emulate_csr.c\<close>,
    \<^verbatim>\<open>sbi_illegal_insn.c\<close>, \<^verbatim>\<open>sbi_misaligned_ldst.c\<close>): the time service, redirection of traps, accesses on behalf of a lower mode, emulation.
  \<^item> \<^verbatim>\<open>Sbi_Hsm\<close>, \<^verbatim>\<open>Sbi_Hsm_System\<close> (\<^verbatim>\<open>sbi_hsm.c\<close>): the life cycle of a hart, sequentially and as a step relation over all harts.
  \<^item> \<^verbatim>\<open>Sbi_Ipi\<close>, \<^verbatim>\<open>Sbi_Tlb\<close>, \<^verbatim>\<open>Sbi_Tlb_System\<close> (\<^verbatim>\<open>sbi_ipi.c\<close>, \<^verbatim>\<open>sbi_tlb.c\<close>): interprocessor interrupts, remote fences with their queues of
    byte-encoded requests, and the interleaving of requests, queues and acknowledgements over all harts.
  \<^item> \<^verbatim>\<open>Sbi_System\<close> (\<^verbatim>\<open>sbi_system.c\<close>, \<^verbatim>\<open>sbi_platform.h\<close>, \<^verbatim>\<open>sbi_exit\<close>): the platform's operations, exit and reset.
  \<^item> \<^verbatim>\<open>Sbi_Console\<close> (\<^verbatim>\<open>sbi_console.c\<close>): the console and the formatted output.
  \<^item> \<^verbatim>\<open>Sbi_Ecall\<close> (\<^verbatim>\<open>sbi_ecall*.c\<close>): the registry of call extensions and all their handlers.
  \<^item> \<^verbatim>\<open>Sbi_Trap_Handler\<close> (\<^verbatim>\<open>sbi_trap.c\<close>): the dispatch of traps to the handlers above.
  \<^item> \<^verbatim>\<open>Sbi_Init\<close>, \<^verbatim>\<open>Sbi_Boot_System\<close> (\<^verbatim>\<open>sbi_init.c\<close>, \<^verbatim>\<open>sbi_domain_finalize\<close>): cold and warm boot, sequentially and as a step relation.

  \<^item> \<^verbatim>\<open>Sbi_Domain_Mmio\<close> (\<^verbatim>\<open>sbi_domain_root_add_memregion\<close>): the table of the root domain while drivers add their regions.
  \<^item> \<^verbatim>\<open>Riscv_Io\<close> (\<^verbatim>\<open>include/sbi/riscv_io.h\<close>): accesses to device registers, over a device whose answers are a parameter, with their trace, and polling.
  \<^item> \<^verbatim>\<open>Plat_Types\<close>, \<^verbatim>\<open>Plat_Devices\<close> (\<^verbatim>\<open>lib/utils/irqchip/plic.c\<close>, \<^verbatim>\<open>lib/utils/serial/uart8250.c\<close>), \<^verbatim>\<open>Plat_Aclint\<close>, \<^verbatim>\<open>Plat_Aclint_Events\<close>, \<^verbatim>\<open>Plat_Aclint_Regions\<close>
    (\<^verbatim>\<open>lib/utils/ipi/aclint_mswi.c\<close>, \<^verbatim>\<open>lib/utils/timer/aclint_mtimer.c\<close>), \<^verbatim>\<open>Plat_Ariane\<close> (\<^verbatim>\<open>platform/fpga/ariane/platform.c\<close>): the drivers and the platform.
  \<^item> \<^verbatim>\<open>Fdt_Core\<close>, \<^verbatim>\<open>Fdt_Ro\<close> (\<^verbatim>\<open>lib/utils/libfdt/fdt.c\<close>, \<^verbatim>\<open>fdt_ro.c\<close>, \<^verbatim>\<open>fdt_addresses.c\<close>): the walks and lookups over the bytes of a flattened device tree, on any
    bytes. \<^verbatim>\<open>Fdt_Tokens\<close>, \<^verbatim>\<open>Fdt_Tree\<close>, \<^verbatim>\<open>Fdt_Search\<close>: an encoder of trees, and what the walks and lookups compute on encoded trees.
  \<^item> \<^verbatim>\<open>Fdt_Helper\<close> (\<^verbatim>\<open>lib/utils/fdt/fdt_helper.c\<close>), \<^verbatim>\<open>Fdt_Helper_Tree\<close>: the firmware's own helpers, and their specifications on trees.
    \<^verbatim>\<open>Cv64a6_Dts\<close>: the device tree of the FPGA system. \<^verbatim>\<open>Plat_Ariane_Fdt\<close>: the early initialisation of the platform from the bytes of the tree.
  \<^item> \<^verbatim>\<open>Bootrom_Uart\<close>, \<^verbatim>\<open>Bootrom_Spi\<close>, \<^verbatim>\<open>Bootrom_Sd\<close>, \<^verbatim>\<open>Bootrom_Gpt\<close> (\<^verbatim>\<open>uart.c\<close>, \<^verbatim>\<open>spi.c\<close>, \<^verbatim>\<open>sd.c\<close>, \<^verbatim>\<open>gpt.c\<close> and \<^verbatim>\<open>main.c\<close> of the boot ROM).

  \<^bold>\<open>How the parts interact.\<close> The boot ROM reads the partition table and copies the first partition to memory (\<open>bootrom_main\<close>); the firmware starts there. A hart enters at \<open>sbi_init\<close>; one hart wins the lottery and runs \<open>coldboot_steps\<close>, which initialise the components in order,
  the others wait. \<open>leave_to_next\<close> switches to the supervisor. From there every trap comes back through \<open>sbi_trap_handler\<close>, which
  calls the emulation, the timer, \<open>sbi_ipi_process\<close> or \<open>sbi_ecall_handler\<close>; the latter finds the extension and calls its
  handler, which starts and stops harts (\<open>sbi_hsm_hart_start\<close>), posts events to other harts (\<open>sbi_ipi_send_many\<close>, \<open>sbi_tlb_request\<close>) or
  resets the system. Function pointers of the code are data types of the functions they may point to, called through
  one dispatch function each (\<open>call_handle\<close>, \<open>call_probe\<close>, \<open>call_local_fn\<close>, \<open>ipi_callbacks\<close>). The platform's callbacks (\<open>ariane_ops\<close>) set up the devices and add
  their regions to the root domain; the events that the firmware logs for them are carried out by the drivers (\<open>mswi_event\<close>, \<open>mtimer_event\<close>).

  \<^bold>\<open>Conventions.\<close> A C function becomes a function on the state it reads and writes. Machine integers keep their width. An access outside
  an array, a null dereference or another undefined behaviour is \<open>None\<close> or \<open>Fault\<close>, and the properties show where it cannot
  happen or name the input where it does. A hart that hangs ends in \<open>Hung\<close>. Code outside the repository is a parameter: the hart's
  legalisation of CSR values (\<open>riscv_hw\<close>), the platform's callbacks (\<open>sbi_plat\<close>, \<open>sbi_platform_operations\<close>; \<open>ariane_ops\<close> is an instance), the answers of devices (\<open>io_dev\<close>), faults of unprivileged accesses, and
  what the other harts do while one waits (\<open>fx_env\<close>). Whatever the code relies on there is a named hypothesis, such as \<open>plat_quiet\<close>.

  \<^bold>\<open>Interfaces.\<close> Contracts between components are locales, interpreted on the definitions of the component that provides them: the queue
  (\<open>bounded_queue\<close>), the registry of call extensions (\<open>ext_registry\<close>), a bank of registers with one for each hart that carries out logged events
  (\<open>event_bank\<close>, provided by the software interrupt device and by the timer), a running clock read in halves (\<open>mtime_clock\<close>), and the views of a flattened device tree: a structure block of tokens (\<open>struct_block\<close>), with the names of its properties
  (\<open>named_block\<close>), and the blob of a tree (\<open>dt_blob\<close>), which gives the two others by a sublocale and is interpreted on the tree of the FPGA system.

  \<^bold>\<open>What is shown.\<close>

  \<^item> Isolation: the root domain denies the supervisor every access to the firmware; the address check is decided by the smallest
    region; registering domains keeps the harts partitioned; the PMP entries enforce exactly the regions of the hart's domain,
    if the PMP can express them all; \<open>pmp_hw\<close> states what the hart keeps of a write, and \<open>cva6_hw\<close> is the instance with the registers of CVA6.
  \<^item> Containment: no trap of a lower mode makes the firmware return into machine mode, and none but a call can make it hang; a call changes only
    a0 and a1 and shows only documented error codes; dispatch and probing follow the interface's assignment of ids.
  \<^item> Concurrency, in every interleaving: mutual exclusion and order of the ticket lock; the states of the harts stay consistent; a
    completed remote fence has been executed by its targets and no request is lost, but for the ranges that the theorem names; one hart boots cold, the others follow only after it, and none is
    left waiting.
  \<^item> Functional behaviour of the parts: the ring buffer refines a queue, merging of fence requests covers them, interrupts reach
    exactly their targets, emulated loads, stores and counters have their architectural effect, formatted numbers read back.
  \<^item> Devices: adding regions never leaves the table of the root domain, and the registers of the platform's interrupt and timer devices are closed to the supervisor after
    the cold boot; the registers hold what the last logged event asks for; a 64-bit time is read and programmed in halves without error.
  \<^item> Device tree: on arbitrary bytes the node walk and the property lookup return and stay inside the blob, except for the property lengths that the theorems name;
    on encoded trees, lookups by path and name, searches by compatible string, parents and register addresses are those of the tree, down to the
    data that the platform uses.
  \<^item> Boot ROM: the checksum is the CRC of the standard; a copy that reports success has stored exactly the blocks that the card sent, and a boot that reports
    success the blocks of the first partition. That a card is booted from is not claimed: it would rest on the timing of the SPI core, whose transfers the driver inhibits while they may be running.
    A concrete core and card show that the statements are not empty.
  \<^item> Errors of the code that the model exposes are stated as lemmas next to the definitions, for example \<open>hsm_start_race\<close>, \<open>flush_all_swallowed\<close>,
    \<open>print_divergences\<close> and \<open>print_destination_independent\<close>.

  \<^bold>\<open>Bounds and fuel.\<close> Loops over words and masks are structural. Loops with a bound in the code use it as fuel: three rounds of 64 for the 128 hart numbers,
  64 for the digit buffer of \<^verbatim>\<open>printi\<close> (20 digits are needed), two for the alignment of arguments. The walks over a device tree are partial functions, since a blob exists on which they do not
  end. The page loop of the fences is a partial function; its
  termination is characterised, and so are the loops that add regions. Loops that poll a device are partial functions, \<open>None\<close> when the device never answers. Loops that wait for another hart take fuel and an environment, and end in \<open>Spin\<close> when the
  fuel is used up; what they wait for is the subject of the step relations, which have no fuel. The nesting of \<open>sbi_exit\<close>
  through the halt event is bounded by two, as a hart that is stopping refuses the second request.

  \<^bold>\<open>Not modelled.\<close> The text of the boot banner and reports (only printed; a parameter), writing to a device tree (\<^verbatim>\<open>fdt_rw.c\<close> and the other writers of \<^verbatim>\<open>libfdt\<close>, \<^verbatim>\<open>fdt_fixup.c\<close>, whose effect is a
  parameter of \<open>Plat_Ariane\<close>), domains and counters from the device tree (unused by the platform), other platforms and their
  drivers, the assembly of \<^verbatim>\<open>firmware\<close> and of the boot ROM, the hardware description, and the third-party
  parts of the SDK (u-boot, buildroot, the simulator, tests and benchmarks). Weak memory ordering is not modelled: the step relations are
  sequentially consistent.
\<close>

end
